(* ===== verification/Prelude.thy ===== *)
theory Prelude
  imports Main "HOL-Library.Word"
begin

text \<open>
  Shared vocabulary of the development: machine types, results and big-endian encodings.

  \<^item> \<open>byte\<close>, \<open>u32\<close>, \<open>u64\<close>: the machine integers of the source; a fixed array \<open>[u8; N]\<close> is a
    byte list whose length is stated where it matters.
  \<^item> \<open>rbind\<close>: the question-mark operator of Rust on \<open>'e + 'a\<close> (\<open>Inl\<close> is \<open>Err\<close>).
  \<^item> \<open>nat_to_be\<close>, \<open>nat_from_be\<close>: big-endian digits of a number, the meaning of
    \<open>to_be_bytes\<close> and \<open>from_be_bytes\<close>.
  \<^item> \<open>toy_sha\<close>: the concrete digest at which witnesses instantiate SHA-256.
\<close>

section \<open>Machine types and results\<close>

type_synonym byte = "8 word"
type_synonym bytes = "8 word list"
type_synonym u16 = "16 word"
type_synonym u32 = "32 word"
type_synonym u64 = "64 word"

named_theorems be_simps \<open>round trips and lengths of big-endian encodings\<close>
named_theorems rbind_simps \<open>evaluation and inversion of result chains\<close>

definition rbind :: "'e + 'a \<Rightarrow> ('a \<Rightarrow> 'e + 'b) \<Rightarrow> 'e + 'b" where
  "rbind r k = (case r of Inl e \<Rightarrow> Inl e | Inr x \<Rightarrow> k x)"

definition ok_or :: "'e \<Rightarrow> 'a option \<Rightarrow> 'e + 'a" where
  "ok_or e x = (case x of None \<Rightarrow> Inl e | Some v \<Rightarrow> Inr v)"

definition map_err :: "('e \<Rightarrow> 'f) \<Rightarrow> 'e + 'a \<Rightarrow> 'f + 'a" where
  "map_err f r = (case r of Inl e \<Rightarrow> Inl (f e) | Inr x \<Rightarrow> Inr x)"

definition is_ok :: "'e + 'a \<Rightarrow> bool" where
  "is_ok r = (case r of Inl _ \<Rightarrow> False | Inr _ \<Rightarrow> True)"

lemma rbind_Inr [simp]: "rbind (Inr x) k = k x"
  by (simp add: rbind_def)

lemma rbind_Inl [simp]: "rbind (Inl e) k = Inl e"
  by (simp add: rbind_def)

lemma rbind_eq_Inr [rbind_simps]:
  "rbind r k = Inr y \<longleftrightarrow> (\<exists>x. r = Inr x \<and> k x = Inr y)"
  by (cases r) auto

lemma rbind_eq_Inl [rbind_simps]:
  "rbind r k = Inl e \<longleftrightarrow> r = Inl e \<or> (\<exists>x. r = Inr x \<and> k x = Inl e)"
  by (cases r) auto

lemma rbindE:
  assumes "rbind r k = Inr y" and "\<And>x. r = Inr x \<Longrightarrow> k x = Inr y \<Longrightarrow> P"
  shows P
  using assms by (auto simp: rbind_eq_Inr)

lemma rbind_assoc: "rbind (rbind r k) l = rbind r (\<lambda>x. rbind (k x) l)"
  by (cases r) auto

lemma ok_or_simps [simp]:
  "ok_or e None = Inl e" "ok_or e (Some x) = Inr x"
  by (simp_all add: ok_or_def)

lemma ok_or_eq_Inr [rbind_simps]: "ok_or e m = Inr x \<longleftrightarrow> m = Some x"
  by (cases m) auto

lemma map_err_simps [simp]:
  "map_err f (Inl e) = Inl (f e)" "map_err f (Inr x) = Inr x"
  by (simp_all add: map_err_def)

lemma map_err_eq_Inr [rbind_simps]: "map_err f r = Inr x \<longleftrightarrow> r = Inr x"
  by (cases r) auto

lemma is_ok_simps [simp]: "is_ok (Inr x)" "\<not> is_ok (Inl e)"
  by (simp_all add: is_ok_def)

lemma is_ok_iff: "is_ok r \<longleftrightarrow> (\<exists>x. r = Inr x)"
  by (cases r) auto

section \<open>Byte strings\<close>

definition bstr :: "string \<Rightarrow> bytes" where
  "bstr s = map (\<lambda>c. of_nat (of_char c)) s"

lemma length_bstr [simp]: "length (bstr s) = length s"
  by (simp add: bstr_def)

text \<open>The Rust slice \<open>bytes[a..b]\<close>; the sources index only after a length check.\<close>

definition subslice :: "nat \<Rightarrow> nat \<Rightarrow> 'a list \<Rightarrow> 'a list" where
  "subslice a b xs = take (b - a) (drop a xs)"

lemma length_subslice [simp]: "length (subslice a b xs) = min (b - a) (length xs - a)"
  by (simp add: subslice_def min.commute)

lemma subslice_append:
  "subslice a b (xs @ ys) = (if b \<le> length xs then subslice a b xs
     else if length xs \<le> a then subslice (a - length xs) (b - length xs) ys
     else drop a xs @ take (b - length xs) ys)"
  by (auto simp: subslice_def)

lemma subslice_Cons: "0 < a \<Longrightarrow> subslice a b (x # xs) = subslice (a - 1) (b - 1) xs"
  by (cases a) (auto simp: subslice_def)

lemma subslice_all [simp]: "length xs \<le> b \<Longrightarrow> subslice 0 b xs = xs"
  by (simp add: subslice_def)

lemma subslice_join: "a \<le> b \<Longrightarrow> b \<le> c \<Longrightarrow> subslice a b xs @ subslice b c xs = subslice a c xs"
proof -
  assume "a \<le> b" "b \<le> c"
  then have "take (c - a) (drop a xs) = take (b - a) (drop a xs) @ take (c - b) (drop b xs)"
    using take_add [of "b - a" "c - b" "drop a xs"] by simp
  then show ?thesis by (simp add: subslice_def)
qed

section \<open>Checked and saturating arithmetic\<close>

definition checked_add :: "u64 \<Rightarrow> u64 \<Rightarrow> u64 option" where
  "checked_add a b = (if unat a + unat b < 2 ^ 64 then Some (a + b) else None)"

definition checked_sub :: "u64 \<Rightarrow> u64 \<Rightarrow> u64 option" where
  "checked_sub a b = (if b \<le> a then Some (a - b) else None)"

definition saturating_add :: "u64 \<Rightarrow> u64 \<Rightarrow> u64" where
  "saturating_add a b = (if unat a + unat b < 2 ^ 64 then a + b else - 1)"

lemma checked_add_Some: "checked_add a b = Some c \<Longrightarrow> unat c = unat a + unat b"
  by (auto simp: checked_add_def unat_word_ariths split: if_splits)

lemma checked_add_None: "checked_add a b = None \<longleftrightarrow> 2 ^ 64 \<le> unat a + unat b"
  by (auto simp: checked_add_def split: if_splits)

lemma checked_sub_Some: "checked_sub a b = Some c \<Longrightarrow> unat c = unat a - unat b \<and> unat b \<le> unat a"
  by (auto simp: checked_sub_def unat_sub word_le_nat_alt split: if_splits)

lemma u64_eq_of_nat_iff:
  assumes "n < 2 ^ 64"
  shows "(w :: u64) = of_nat n \<longleftrightarrow> unat w = n"
proof
  assume "w = of_nat n"
  with assms show "unat w = n" by (simp add: unat_of_nat)
next
  assume "unat w = n"
  then show "w = of_nat n" by auto
qed

section \<open>Big-endian digits\<close>

fun nat_to_be :: "nat \<Rightarrow> nat \<Rightarrow> bytes" where
  "nat_to_be 0 x = []"
| "nat_to_be (Suc n) x = nat_to_be n (x div 256) @ [of_nat (x mod 256)]"

definition nat_from_be :: "bytes \<Rightarrow> nat" where
  "nat_from_be bs = foldl (\<lambda>a b. a * 256 + unat b) 0 bs"

lemma length_nat_to_be [simp, be_simps]: "length (nat_to_be n x) = n"
  by (induction n arbitrary: x) auto

lemma nat_from_be_Nil [simp]: "nat_from_be [] = 0"
  by (simp add: nat_from_be_def)

lemma nat_from_be_snoc [simp]: "nat_from_be (bs @ [b]) = nat_from_be bs * 256 + unat b"
  by (simp add: nat_from_be_def)

lemma unat_byte_less: "unat (b :: byte) < 256"
  using unsigned_less [of b, where ?'a = nat] by simp

lemma unat_byte_of_nat: "x < 256 \<Longrightarrow> unat (of_nat x :: byte) = x"
  by (simp add: unat_of_nat)

lemma nat_from_to_be [be_simps]: "nat_from_be (nat_to_be n x) = x mod 256 ^ n"
proof (induction n arbitrary: x)
  case 0
  then show ?case by simp
next
  case (Suc n)
  have "nat_from_be (nat_to_be (Suc n) x) = ((x div 256) mod 256 ^ n) * 256 + x mod 256"
    using Suc.IH [of "x div 256"] by (simp add: unat_byte_of_nat)
  also have "\<dots> = x mod (256 * 256 ^ n)"
    by (subst mod_mult2_eq) (simp add: mult.commute)
  finally show ?case by simp
qed

lemma nat_from_be_less: "nat_from_be bs < 256 ^ length bs"
proof (induction bs rule: rev_induct)
  case Nil
  then show ?case by simp
next
  case (snoc b bs)
  have "nat_from_be bs * 256 + unat b < (nat_from_be bs + 1) * 256"
    using unat_byte_less [of b] by simp
  also have "\<dots> \<le> 256 ^ length bs * 256"
    using snoc.IH by (intro mult_le_mono1) simp
  finally show ?case by simp
qed

lemma nat_to_from_be [be_simps]: "nat_to_be (length bs) (nat_from_be bs) = bs"
proof (induction bs rule: rev_induct)
  case Nil
  then show ?case by simp
next
  case (snoc b bs)
  have "(nat_from_be bs * 256 + unat b) div 256 = nat_from_be bs"
    using unat_byte_less [of b] by simp
  moreover have "(nat_from_be bs * 256 + unat b) mod 256 = unat b"
    using unat_byte_less [of b] by simp
  ultimately show ?case using snoc.IH by simp
qed

lemma nat_to_be_two: "nat_to_be 2 x = [of_nat (x div 256 mod 256), of_nat (x mod 256)]"
  by (simp add: numeral_2_eq_2)

definition u64_to_be :: "u64 \<Rightarrow> bytes" where
  "u64_to_be w = nat_to_be 8 (unat w)"

definition u64_from_be :: "bytes \<Rightarrow> u64" where
  "u64_from_be bs = of_nat (nat_from_be bs)"

definition u32_to_be :: "u32 \<Rightarrow> bytes" where
  "u32_to_be w = nat_to_be 4 (unat w)"

definition u32_from_be :: "bytes \<Rightarrow> u32" where
  "u32_from_be bs = of_nat (nat_from_be bs)"

definition u16_to_be :: "u16 \<Rightarrow> bytes" where
  "u16_to_be w = nat_to_be 2 (unat w)"

definition u16_from_be :: "bytes \<Rightarrow> u16" where
  "u16_from_be bs = of_nat (nat_from_be bs)"

lemma length_u64_to_be [simp, be_simps]: "length (u64_to_be w) = 8"
  by (simp add: u64_to_be_def)

lemma length_u32_to_be [simp, be_simps]: "length (u32_to_be w) = 4"
  by (simp add: u32_to_be_def)

lemma length_u16_to_be [simp, be_simps]: "length (u16_to_be w) = 2"
  by (simp add: u16_to_be_def)

lemma u64_from_to_be [simp, be_simps]: "u64_from_be (u64_to_be w) = w"
  using unsigned_less [of w, where ?'a = nat] by (simp add: u64_from_be_def u64_to_be_def nat_from_to_be)

lemma u32_from_to_be [simp, be_simps]: "u32_from_be (u32_to_be w) = w"
  using unsigned_less [of w, where ?'a = nat] by (simp add: u32_from_be_def u32_to_be_def nat_from_to_be)

lemma u16_from_to_be [simp, be_simps]: "u16_from_be (u16_to_be w) = w"
  using unsigned_less [of w, where ?'a = nat] by (simp add: u16_from_be_def u16_to_be_def nat_from_to_be)

lemma u16_to_from_be [be_simps]: "length bs = 2 \<Longrightarrow> u16_to_be (u16_from_be bs) = bs"
  using nat_from_be_less [of bs] nat_to_from_be [of bs]
  by (simp add: u16_from_be_def u16_to_be_def unat_of_nat)

lemma u64_to_from_be [be_simps]: "length bs = 8 \<Longrightarrow> u64_to_be (u64_from_be bs) = bs"
  using nat_from_be_less [of bs] nat_to_from_be [of bs]
  by (simp add: u64_from_be_def u64_to_be_def unat_of_nat)

lemma u32_to_from_be [be_simps]: "length bs = 4 \<Longrightarrow> u32_to_be (u32_from_be bs) = bs"
  using nat_from_be_less [of bs] nat_to_from_be [of bs]
  by (simp add: u32_from_be_def u32_to_be_def unat_of_nat)

lemma u64_to_be_inject [simp]: "u64_to_be a = u64_to_be b \<longleftrightarrow> a = b"
  by (metis u64_from_to_be)

section \<open>A concrete digest\<close>

text \<open>A function with 32-byte values, at which the witnesses instantiate SHA-256.\<close>

definition toy_sha :: "bytes \<Rightarrow> bytes" where
  "toy_sha x = replicate 31 0 @ [sum_list x]"

lemma length_toy_sha: "\<forall>x. length (toy_sha x) = 32"
  by (simp add: toy_sha_def)

end
