(* ===== verification/Merkle.thy ===== *)
theory Merkle
  imports Prelude
begin

text \<open>
  Model of \<^verbatim>\<open>ferro-core/src/witness/merkle.rs\<close>: domain-separated Merkle roots over witness record
  hashes, inclusion proofs, full consistency proofs and compact frontier consistency proofs.

  The hash function SHA-256 comes from the crate \<open>sha2\<close> and is the parameter \<open>sha\<close> of every
  definition; what a theorem needs of it (32-byte digests, no collision among the inputs that
  are actually hashed) is a hypothesis of that theorem.  \<open>usize\<close> indices are natural numbers;
  the serialized \<open>u64\<close> fields are words.

  The second half relates the code to a level-by-level reference: inclusion proofs are complete
  and sound, the incremental frontier computes the same root as the batch computation, and a
  root determines the leaves among trees of the same size, while trees of different sizes can
  share a root.
\<close>

section \<open>Definitions\<close>

definition LEAF_DOMAIN :: bytes where
  "LEAF_DOMAIN = bstr ''FERROCRATE-WITNESS-MERKLE-LEAF-V1''"

definition NODE_DOMAIN :: bytes where
  "NODE_DOMAIN = bstr ''FERROCRATE-WITNESS-MERKLE-NODE-V1''"

definition MAX_LEAVES :: nat where
  "MAX_LEAVES = 2 ^ 20"

definition MAX_PROOF_DEPTH :: nat where
  "MAX_PROOF_DEPTH = 64"

datatype merkle_error = Empty | TooManyLeaves | IndexOutOfRange | ProofTooDeep | RootMismatch

record merkle_proof =
  mp_leaf :: bytes
  mp_index :: u64
  mp_tree_size :: u64
  mp_siblings :: "bytes list"
  mp_root :: bytes

record merkle_consistency_proof =
  mc_old_size :: u64
  mc_new_size :: u64
  mc_leaves :: "bytes list"
  mc_old_root :: bytes
  mc_new_root :: bytes

record merkle_frontier_consistency_proof =
  mf_old_size :: u64
  mf_new_size :: u64
  mf_old_frontier :: "bytes option list"
  mf_appended_leaves :: "bytes list"
  mf_old_root :: bytes
  mf_new_root :: bytes

definition leaf_hash :: "(bytes \<Rightarrow> bytes) \<Rightarrow> bytes \<Rightarrow> bytes" where
  "leaf_hash sha leaf = sha (LEAF_DOMAIN @ leaf)"

definition node_hash :: "(bytes \<Rightarrow> bytes) \<Rightarrow> bytes \<Rightarrow> bytes \<Rightarrow> bytes" where
  "node_hash sha left right = sha (NODE_DOMAIN @ left @ right)"

definition checked_leaves :: "bytes list \<Rightarrow> merkle_error + unit" where
  "checked_leaves leaves =
     (if leaves = [] then Inl Empty
      else if length leaves > MAX_LEAVES then Inl TooManyLeaves
      else Inr ())"

fun next_level :: "(bytes \<Rightarrow> bytes) \<Rightarrow> bytes list \<Rightarrow> bytes list" where
  "next_level sha [] = []"
| "next_level sha [x] = [node_hash sha x x]"
| "next_level sha (x # y # rest) = node_hash sha x y # next_level sha rest"

lemma length_next_level: "length (next_level sha level) = (length level + 1) div 2"
  by (induction sha level rule: next_level.induct) auto

text \<open>The loop of \<open>root\<close>: \<open>while level.len() > 1\<close>.\<close>

function root_loop :: "(bytes \<Rightarrow> bytes) \<Rightarrow> bytes list \<Rightarrow> bytes list" where
  "root_loop sha level =
     (if length level > 1 then root_loop sha (next_level sha level) else level)"
  by pat_completeness auto
termination
  by (relation "measure (\<lambda>(sha, level). length level)") (auto simp: length_next_level)

declare root_loop.simps [simp del]

definition root :: "(bytes \<Rightarrow> bytes) \<Rightarrow> bytes list \<Rightarrow> merkle_error + bytes" where
  "root sha leaves =
     rbind (checked_leaves leaves) (\<lambda>_.
     Inr (root_loop sha (map (leaf_hash sha) leaves) ! 0))"

text \<open>The sibling that \<open>prove\<close> records at one level.\<close>

definition sibling_at :: "bytes list \<Rightarrow> nat \<Rightarrow> bytes" where
  "sibling_at level cursor =
     (if even cursor
      then (if cursor + 1 < length level then level ! (cursor + 1) else level ! cursor)
      else level ! (cursor - 1))"

function prove_loop ::
  "(bytes \<Rightarrow> bytes) \<Rightarrow> bytes list \<Rightarrow> nat \<Rightarrow> bytes list \<Rightarrow> merkle_error + (bytes list \<times> bytes list)"
where
  "prove_loop sha level cursor siblings =
     (if length level > 1 then
        let siblings' = siblings @ [sibling_at level cursor] in
        if length siblings' > MAX_PROOF_DEPTH then Inl ProofTooDeep
        else prove_loop sha (next_level sha level) (cursor div 2) siblings'
      else Inr (level, siblings))"
  by pat_completeness auto
termination
  by (relation "measure (\<lambda>(sha, level, cursor, siblings). length level)")
    (auto simp: length_next_level)

declare prove_loop.simps [simp del]

definition prove :: "(bytes \<Rightarrow> bytes) \<Rightarrow> bytes list \<Rightarrow> nat \<Rightarrow> merkle_error + merkle_proof" where
  "prove sha leaves index =
     rbind (checked_leaves leaves) (\<lambda>_.
     if index \<ge> length leaves then Inl IndexOutOfRange
     else rbind (prove_loop sha (map (leaf_hash sha) leaves) index []) (\<lambda>(level, siblings).
       Inr \<lparr>mp_leaf = leaves ! index, mp_index = of_nat index,
            mp_tree_size = of_nat (length leaves), mp_siblings = siblings,
            mp_root = level ! 0\<rparr>))"

fun verify_loop :: "(bytes \<Rightarrow> bytes) \<Rightarrow> bytes \<Rightarrow> nat \<Rightarrow> bytes list \<Rightarrow> bytes" where
  "verify_loop sha hash cursor [] = hash"
| "verify_loop sha hash cursor (sibling # siblings) =
     verify_loop sha
       (if even cursor then node_hash sha hash sibling else node_hash sha sibling hash)
       (cursor div 2) siblings"

definition verify :: "(bytes \<Rightarrow> bytes) \<Rightarrow> merkle_proof \<Rightarrow> merkle_error + unit" where
  "verify sha p =
     (if mp_tree_size p = 0 \<or> mp_index p \<ge> mp_tree_size p then Inl IndexOutOfRange
      else if length (mp_siblings p) > MAX_PROOF_DEPTH then Inl ProofTooDeep
      else if verify_loop sha (leaf_hash sha (mp_leaf p)) (unat (mp_index p)) (mp_siblings p)
                = mp_root p
      then Inr () else Inl RootMismatch)"

definition consistency_proof ::
  "(bytes \<Rightarrow> bytes) \<Rightarrow> bytes list \<Rightarrow> nat \<Rightarrow> merkle_error + merkle_consistency_proof" where
  "consistency_proof sha leaves old_size =
     rbind (checked_leaves leaves) (\<lambda>_.
     if old_size = 0 \<or> old_size > length leaves then Inl IndexOutOfRange
     else rbind (root sha (take old_size leaves)) (\<lambda>old_root.
          rbind (root sha leaves) (\<lambda>new_root.
          Inr \<lparr>mc_old_size = of_nat old_size, mc_new_size = of_nat (length leaves),
               mc_leaves = leaves, mc_old_root = old_root, mc_new_root = new_root\<rparr>)))"

definition verify_consistency ::
  "(bytes \<Rightarrow> bytes) \<Rightarrow> merkle_consistency_proof \<Rightarrow> merkle_error + unit" where
  "verify_consistency sha p =
     rbind (checked_leaves (mc_leaves p)) (\<lambda>_.
     if mc_old_size p = 0 \<or> mc_new_size p \<noteq> of_nat (length (mc_leaves p))
        \<or> mc_old_size p > mc_new_size p
     then Inl IndexOutOfRange
     else rbind (root sha (take (unat (mc_old_size p)) (mc_leaves p))) (\<lambda>old_root.
          rbind (root sha (mc_leaves p)) (\<lambda>new_root.
          if old_root \<noteq> mc_old_root p \<or> new_root \<noteq> mc_new_root p then Inl RootMismatch
          else Inr ())))"

text \<open>\<open>append_frontier\<close>: binary-counter carry through the frontier.\<close>

function append_frontier_loop ::
  "(bytes \<Rightarrow> bytes) \<Rightarrow> bytes option list \<Rightarrow> bytes \<Rightarrow> nat \<Rightarrow> merkle_error + bytes option list" where
  "append_frontier_loop sha frontier carry level =
     (if level \<ge> MAX_PROOF_DEPTH then Inl ProofTooDeep
      else let frontier' = (if length frontier \<le> level
                            then frontier @ replicate (level + 1 - length frontier) None
                            else frontier) in
        case frontier' ! level of
          Some left \<Rightarrow>
            append_frontier_loop sha (frontier'[level := None]) (node_hash sha left carry) (level + 1)
        | None \<Rightarrow> Inr (frontier'[level := Some carry]))"
  by pat_completeness auto
termination
  by (relation "measure (\<lambda>(sha, frontier, carry, level). MAX_PROOF_DEPTH - level)") auto

declare append_frontier_loop.simps [simp del]

definition append_frontier ::
  "(bytes \<Rightarrow> bytes) \<Rightarrow> bytes option list \<Rightarrow> bytes \<Rightarrow> merkle_error + bytes option list" where
  "append_frontier sha frontier leaf = append_frontier_loop sha frontier (leaf_hash sha leaf) 0"

text \<open>The inner loop of \<open>frontier_root\<close>: \<open>while current_level < level\<close>.\<close>

fun promote :: "(bytes \<Rightarrow> bytes) \<Rightarrow> bytes \<Rightarrow> nat \<Rightarrow> bytes" where
  "promote sha right 0 = right"
| "promote sha right (Suc n) = promote sha (node_hash sha right right) n"

fun frontier_root_loop ::
  "(bytes \<Rightarrow> bytes) \<Rightarrow> bytes option list \<Rightarrow> nat list \<Rightarrow> bytes option \<times> nat \<Rightarrow> bytes option \<times> nat"
where
  "frontier_root_loop sha frontier [] st = st"
| "frontier_root_loop sha frontier (level # levels) (current, current_level) =
     (case (if level < length frontier then frontier ! level else None) of
        None \<Rightarrow> frontier_root_loop sha frontier levels (current, current_level)
      | Some peak \<Rightarrow>
          (case current of
             None \<Rightarrow> frontier_root_loop sha frontier levels (Some peak, level)
           | Some right \<Rightarrow>
               frontier_root_loop sha frontier levels
                 (Some (node_hash sha peak (promote sha right (level - current_level))), level + 1)))"

definition frontier_root ::
  "(bytes \<Rightarrow> bytes) \<Rightarrow> bytes option list \<Rightarrow> u64 \<Rightarrow> merkle_error + bytes" where
  "frontier_root sha frontier leaf_count =
     (if leaf_count = 0 then Inl Empty
      else if unat leaf_count > MAX_LEAVES then Inl TooManyLeaves
      else ok_or Empty (fst (frontier_root_loop sha frontier [0..<MAX_PROOF_DEPTH] (None, 0))))"

fun append_all ::
  "(bytes \<Rightarrow> bytes) \<Rightarrow> bytes option list \<Rightarrow> bytes list \<Rightarrow> merkle_error + bytes option list" where
  "append_all sha frontier [] = Inr frontier"
| "append_all sha frontier (leaf # leaves) =
     rbind (append_frontier sha frontier leaf) (\<lambda>frontier'. append_all sha frontier' leaves)"

definition frontier_from_leaves ::
  "(bytes \<Rightarrow> bytes) \<Rightarrow> bytes list \<Rightarrow> merkle_error + bytes option list" where
  "frontier_from_leaves sha leaves =
     rbind (checked_leaves leaves) (\<lambda>_. append_all sha [] leaves)"

definition frontier_consistency_proof ::
  "(bytes \<Rightarrow> bytes) \<Rightarrow> bytes list \<Rightarrow> nat \<Rightarrow> merkle_error + merkle_frontier_consistency_proof" where
  "frontier_consistency_proof sha leaves old_size =
     rbind (checked_leaves leaves) (\<lambda>_.
     if old_size = 0 \<or> old_size > length leaves then Inl IndexOutOfRange
     else rbind (frontier_from_leaves sha (take old_size leaves)) (\<lambda>old_frontier.
          rbind (root sha (take old_size leaves)) (\<lambda>old_root.
          rbind (root sha leaves) (\<lambda>new_root.
          Inr \<lparr>mf_old_size = of_nat old_size, mf_new_size = of_nat (length leaves),
               mf_old_frontier = old_frontier, mf_appended_leaves = drop old_size leaves,
               mf_old_root = old_root, mf_new_root = new_root\<rparr>))))"

definition verify_frontier_consistency ::
  "(bytes \<Rightarrow> bytes) \<Rightarrow> merkle_frontier_consistency_proof \<Rightarrow> merkle_error + unit" where
  "verify_frontier_consistency sha p =
     (if mf_old_size p = 0 \<or> mf_old_size p > mf_new_size p
         \<or> unat (mf_old_size p) > MAX_LEAVES \<or> unat (mf_new_size p) > MAX_LEAVES
         \<or> mf_new_size p - mf_old_size p \<noteq> of_nat (length (mf_appended_leaves p))
         \<or> length (mf_old_frontier p) > MAX_PROOF_DEPTH
      then Inl IndexOutOfRange
      else rbind (frontier_root sha (mf_old_frontier p) (mf_old_size p)) (\<lambda>old_root.
        if old_root \<noteq> mf_old_root p then Inl RootMismatch
        else rbind (append_all sha (mf_old_frontier p) (mf_appended_leaves p)) (\<lambda>frontier.
             rbind (frontier_root sha frontier (mf_new_size p)) (\<lambda>new_root.
             if new_root \<noteq> mf_new_root p then Inl RootMismatch else Inr ()))))"

section \<open>The level-by-level view\<close>

lemma next_level_append:
  "even (length xs) \<Longrightarrow> next_level sha (xs @ ys) = next_level sha xs @ next_level sha ys"
  by (induction sha xs rule: next_level.induct) auto

lemma next_level_eq_Nil [simp]: "next_level sha xs = [] \<longleftrightarrow> xs = []"
  by (cases xs rule: remdups_adj.cases) auto

lemma nth_next_level:
  assumes "i < (length level + 1) div 2"
  shows "next_level sha level ! i =
    node_hash sha (level ! (2 * i))
      (if 2 * i + 1 < length level then level ! (2 * i + 1) else level ! (2 * i))"
  using assms
proof (induction sha level arbitrary: i rule: next_level.induct)
  case (3 sha x y rest)
  then show ?case by (cases i) auto
qed auto

lemma root_loop_short: "length level \<le> 1 \<Longrightarrow> root_loop sha level = level"
  by (simp add: root_loop.simps)

lemma root_loop_long: "length level > 1 \<Longrightarrow> root_loop sha level = root_loop sha (next_level sha level)"
  by (simp add: root_loop.simps [of sha level])

lemma root_loop_singleton: "level \<noteq> [] \<Longrightarrow> length (root_loop sha level) = 1"
proof (induction sha level rule: root_loop.induct)
  case (1 sha level)
  then show ?case
    by (cases "length level > 1")
      (auto simp: root_loop_long root_loop_short le_Suc_eq not_less)
qed

text \<open>The number of levels above the given one, and that a tree within bounds is shallow.\<close>

function depth :: "nat \<Rightarrow> nat" where
  "depth n = (if n > 1 then Suc (depth ((n + 1) div 2)) else 0)"
  by pat_completeness auto
termination by (relation "measure id") auto

declare depth.simps [simp del]

lemma depth_bound: "n \<le> 2 ^ k \<Longrightarrow> depth n \<le> k"
proof (induction n arbitrary: k rule: depth.induct)
  case (1 n)
  show ?case
  proof (cases "n > 1")
    case True
    with "1.prems" obtain j where k: "k = Suc j" by (cases k) auto
    with True "1.prems" have "(n + 1) div 2 \<le> 2 ^ j" by simp
    from "1.IH" [OF True this] True k show ?thesis by (simp add: depth.simps [of n])
  next
    case False
    then show ?thesis by (simp add: depth.simps [of n])
  qed
qed

lemma depth_checked: "checked_leaves leaves = Inr u \<Longrightarrow> depth (length leaves) \<le> 20"
  by (rule depth_bound) (auto simp: checked_leaves_def MAX_LEAVES_def split: if_splits)

lemma checked_leaves_ok: "checked_leaves leaves = Inr () \<longleftrightarrow> leaves \<noteq> [] \<and> length leaves \<le> MAX_LEAVES"
  by (auto simp: checked_leaves_def)

lemma root_ok:
  "leaves \<noteq> [] \<Longrightarrow> length leaves \<le> MAX_LEAVES \<Longrightarrow>
     root sha leaves = Inr (root_loop sha (map (leaf_hash sha) leaves) ! 0)"
  by (simp add: root_def checked_leaves_def)

section \<open>Inclusion proofs are complete\<close>

lemma verify_loop_step:
  assumes "cursor < length level" "length level > 1"
  shows "(if even cursor then node_hash sha (level ! cursor) (sibling_at level cursor)
          else node_hash sha (sibling_at level cursor) (level ! cursor))
         = next_level sha level ! (cursor div 2)"
proof -
  have "cursor div 2 < (length level + 1) div 2" using assms by auto
  note nth_next_level [OF this, of sha]
  moreover have "even cursor \<Longrightarrow> 2 * (cursor div 2) = cursor" by simp
  moreover have "odd cursor \<Longrightarrow> 2 * (cursor div 2) = cursor - 1 \<and> Suc (cursor - 1) = cursor"
    by (auto elim: oddE)
  ultimately show ?thesis using assms
    by (cases "even cursor") (auto simp: sibling_at_def)
qed

lemma prove_loop_complete:
  assumes "cursor < length level" "length siblings + depth (length level) \<le> MAX_PROOF_DEPTH"
  shows "\<exists>path. prove_loop sha level cursor siblings = Inr (root_loop sha level, siblings @ path)
           \<and> length path = depth (length level)
           \<and> verify_loop sha (level ! cursor) cursor path = root_loop sha level ! 0"
  using assms
proof (induction sha level cursor siblings rule: prove_loop.induct)
  case (1 sha level cursor siblings)
  show ?case
  proof (cases "length level > 1")
    case True
    let ?s = "sibling_at level cursor"
    have d: "depth (length level) = Suc (depth (length (next_level sha level)))"
      using True by (simp add: depth.simps [of "length level"] length_next_level)
    have c: "cursor div 2 < length (next_level sha level)"
      using "1.prems"(1) by (auto simp: length_next_level)
    have b: "\<not> length (siblings @ [?s]) > MAX_PROOF_DEPTH" using "1.prems"(2) d by simp
    from "1.IH" [OF True refl b c] "1.prems"(2) d
    obtain path where path:
      "prove_loop sha (next_level sha level) (cursor div 2) (siblings @ [?s])
         = Inr (root_loop sha (next_level sha level), (siblings @ [?s]) @ path)"
      "length path = depth (length (next_level sha level))"
      "verify_loop sha (next_level sha level ! (cursor div 2)) (cursor div 2) path
         = root_loop sha (next_level sha level) ! 0"
      by auto
    have "prove_loop sha level cursor siblings = Inr (root_loop sha level, siblings @ ?s # path)"
      using True b path(1) by (simp add: prove_loop.simps [of sha level] root_loop_long Let_def)
    moreover have "verify_loop sha (level ! cursor) cursor (?s # path) = root_loop sha level ! 0"
      using path(3) verify_loop_step [OF "1.prems"(1) True, of sha] True
      by (simp add: root_loop_long)
    ultimately show ?thesis using path(2) d by (intro exI [of _ "?s # path"]) simp
  next
    case False
    with "1.prems" have "cursor = 0" by simp
    with False show ?thesis
      by (simp add: prove_loop.simps [of sha level] root_loop_short depth.simps [of "length level"])
  qed
qed

lemma unat_of_nat_small: "n \<le> MAX_LEAVES \<Longrightarrow> unat (of_nat n :: u64) = n"
  by (simp add: MAX_LEAVES_def unat_of_nat)

lemma of_nat_eq_0_small: "n \<le> MAX_LEAVES \<Longrightarrow> (of_nat n :: u64) = 0 \<longleftrightarrow> n = 0"
  using unat_of_nat_small [of n] unat_eq_zero [of "of_nat n :: u64"] by simp

lemma prove_complete:
  assumes "index < length leaves" "length leaves \<le> MAX_LEAVES"
  shows "\<exists>p. prove sha leaves index = Inr p \<and> mp_leaf p = leaves ! index
           \<and> root sha leaves = Inr (mp_root p) \<and> verify sha p = Inr ()
           \<and> length (mp_siblings p) = depth (length leaves)"
proof -
  let ?level = "map (leaf_hash sha) leaves"
  have ne: "leaves \<noteq> []" using assms(1) by auto
  have ok: "checked_leaves leaves = Inr ()" using ne assms(2) by (simp add: checked_leaves_ok)
  have d: "depth (length leaves) \<le> 20" using ok by (rule depth_checked)
  obtain path where path:
    "prove_loop sha ?level index [] = Inr (root_loop sha ?level, [] @ path)"
    "length path = depth (length ?level)"
    "verify_loop sha (?level ! index) index path = root_loop sha ?level ! 0"
    using prove_loop_complete [of index ?level "[]" sha] assms(1) d
    by (auto simp: MAX_PROOF_DEPTH_def)
  have i: "unat (of_nat index :: u64) = index" "unat (of_nat (length leaves) :: u64) = length leaves"
    using assms by (auto intro: unat_of_nat_small)
  then have "\<not> (of_nat (length leaves) :: u64) \<le> of_nat index"
    using assms(1) by (simp add: word_le_nat_alt)
  moreover have "(of_nat (length leaves) :: u64) \<noteq> 0"
    using assms ne by (simp add: of_nat_eq_0_small)
  ultimately show ?thesis
    using ok path d assms i root_ok [OF ne assms(2), of sha]
    by (simp add: prove_def verify_def MAX_PROOF_DEPTH_def)
qed

section \<open>Binding: what a root determines\<close>

text \<open>
  The inputs hashed while a root is computed.  Collision resistance is only ever assumed of
  these: that \<open>sha\<close> is injective on the strings that were hashed.
\<close>

fun node_inputs :: "bytes list \<Rightarrow> bytes list" where
  "node_inputs [] = []"
| "node_inputs [x] = [NODE_DOMAIN @ x @ x]"
| "node_inputs (x # y # rest) = (NODE_DOMAIN @ x @ y) # node_inputs rest"

function tree_inputs :: "(bytes \<Rightarrow> bytes) \<Rightarrow> bytes list \<Rightarrow> bytes list" where
  "tree_inputs sha level =
     (if length level > 1 then node_inputs level @ tree_inputs sha (next_level sha level) else [])"
  by pat_completeness auto
termination
  by (relation "measure (\<lambda>(sha, level). length level)") (auto simp: length_next_level)

declare tree_inputs.simps [simp del]

definition root_inputs :: "(bytes \<Rightarrow> bytes) \<Rightarrow> bytes list \<Rightarrow> bytes list" where
  "root_inputs sha leaves =
     map (\<lambda>leaf. LEAF_DOMAIN @ leaf) leaves @ tree_inputs sha (map (leaf_hash sha) leaves)"

fun path_inputs :: "(bytes \<Rightarrow> bytes) \<Rightarrow> bytes \<Rightarrow> nat \<Rightarrow> bytes list \<Rightarrow> bytes list" where
  "path_inputs sha hash cursor [] = []"
| "path_inputs sha hash cursor (sibling # siblings) =
     (let input = NODE_DOMAIN @ (if even cursor then hash @ sibling else sibling @ hash)
      in input # path_inputs sha (sha input) (cursor div 2) siblings)"

definition proof_inputs :: "(bytes \<Rightarrow> bytes) \<Rightarrow> merkle_proof \<Rightarrow> bytes list" where
  "proof_inputs sha p =
     (LEAF_DOMAIN @ mp_leaf p)
     # path_inputs sha (leaf_hash sha (mp_leaf p)) (unat (mp_index p)) (mp_siblings p)"

lemma next_level_map: "next_level sha level = map sha (node_inputs level)"
  by (induction sha level rule: next_level.induct) (auto simp: node_hash_def)

lemma length_node_inputs: "length (node_inputs level) = (length level + 1) div 2"
  by (induction level rule: node_inputs.induct) auto

lemma nth_node_inputs:
  assumes "i < (length level + 1) div 2"
  shows "node_inputs level ! i = NODE_DOMAIN @ level ! (2 * i)
    @ (if 2 * i + 1 < length level then level ! (2 * i + 1) else level ! (2 * i))"
  using assms
proof (induction level arbitrary: i rule: node_inputs.induct)
  case (3 x y rest)
  then show ?case by (cases i) auto
qed auto

lemma node_inputs_inject:
  assumes "length xs = length ys" "\<forall>x \<in> set xs \<union> set ys. length x = n" "node_inputs xs = node_inputs ys"
  shows "xs = ys"
  using assms
proof (induction xs arbitrary: ys rule: node_inputs.induct)
  case (2 x)
  then show ?case by (cases ys rule: node_inputs.cases) auto
next
  case (3 x y rest)
  then show ?case by (cases ys rule: node_inputs.cases) auto
qed auto

lemma root_loop_inject:
  assumes "length xs = length ys" "\<forall>x \<in> set xs \<union> set ys. length x = 32"
    and "\<forall>x. length (sha x) = 32"
    and "inj_on sha (set (tree_inputs sha xs) \<union> set (tree_inputs sha ys))"
    and "root_loop sha xs = root_loop sha ys"
  shows "xs = ys"
  using assms
proof (induction sha xs arbitrary: ys rule: root_loop.induct)
  case (1 sha xs)
  show ?case
  proof (cases "length xs > 1")
    case True
    let ?xs = "next_level sha xs" and ?ys = "next_level sha ys"
    have ti: "tree_inputs sha xs = node_inputs xs @ tree_inputs sha ?xs"
      "tree_inputs sha ys = node_inputs ys @ tree_inputs sha ?ys"
      using True "1.prems"(1) by (simp_all add: tree_inputs.simps [of sha xs] tree_inputs.simps [of sha ys])
    have "?xs = ?ys"
    proof (rule "1.IH" [OF True])
      show "length ?xs = length ?ys" using "1.prems"(1) by (simp add: length_next_level)
      show "\<forall>x \<in> set ?xs \<union> set ?ys. length x = 32" using "1.prems"(3) by (auto simp: next_level_map)
      show "inj_on sha (set (tree_inputs sha ?xs) \<union> set (tree_inputs sha ?ys))"
        by (rule inj_on_subset [OF "1.prems"(4)]) (auto simp: ti)
      show "root_loop sha ?xs = root_loop sha ?ys"
        using "1.prems"(1,5) True by (simp add: root_loop_long)
    qed (fact "1.prems"(3))
    moreover have "inj_on sha (set (node_inputs xs) \<union> set (node_inputs ys))"
      by (rule inj_on_subset [OF "1.prems"(4)]) (auto simp: ti)
    ultimately have "node_inputs xs = node_inputs ys"
      by (simp add: next_level_map inj_on_map_eq_map)
    then show ?thesis using node_inputs_inject [OF "1.prems"(1,2)] by simp
  next
    case False
    with "1.prems"(1,5) show ?thesis by (simp add: root_loop_short)
  qed
qed

lemma verify_loop_sound:
  assumes "cursor < length level" "length path = depth (length level)"
    and "\<forall>x \<in> set level \<union> {hash}. length x = 32" "\<forall>x \<in> set path. length x = 32"
    and "\<forall>x. length (sha x) = 32"
    and "inj_on sha (set (tree_inputs sha level) \<union> set (path_inputs sha hash cursor path))"
    and "verify_loop sha hash cursor path = root_loop sha level ! 0"
  shows "hash = level ! cursor"
  using assms
proof (induction sha level arbitrary: cursor path hash rule: root_loop.induct)
  case (1 sha level)
  show ?case
  proof (cases "length level > 1")
    case True
    then obtain s ss where path: "path = s # ss" and ss: "length ss = depth (length (next_level sha level))"
      using "1.prems"(2) by (cases path) (auto simp: depth.simps [of "length level"] length_next_level)
    define input where "input = NODE_DOMAIN @ (if even cursor then hash @ s else s @ hash)"
    have ti: "tree_inputs sha level = node_inputs level @ tree_inputs sha (next_level sha level)"
      using True by (simp add: tree_inputs.simps [of sha level])
    have pi: "path_inputs sha hash cursor path = input # path_inputs sha (sha input) (cursor div 2) ss"
      by (simp add: path input_def Let_def)
    have i: "cursor div 2 < (length level + 1) div 2" using "1.prems"(1) by auto
    have "sha input = next_level sha level ! (cursor div 2)"
    proof (rule "1.IH" [OF True, where path = ss])
      show "cursor div 2 < length (next_level sha level)" using i by (simp add: length_next_level)
      show "\<forall>x \<in> set (next_level sha level) \<union> {sha input}. length x = 32"
        using "1.prems"(5) by (auto simp: next_level_map)
      show "inj_on sha (set (tree_inputs sha (next_level sha level))
              \<union> set (path_inputs sha (sha input) (cursor div 2) ss))"
        by (rule inj_on_subset [OF "1.prems"(6)]) (auto simp: ti pi)
      show "verify_loop sha (sha input) (cursor div 2) ss = root_loop sha (next_level sha level) ! 0"
        using "1.prems"(7) True
        by (cases "even cursor") (simp_all add: path input_def root_loop_long node_hash_def)
    qed (use ss "1.prems" path in auto)
    then have "sha input = sha (node_inputs level ! (cursor div 2))"
      using i by (simp add: next_level_map length_node_inputs)
    moreover have "node_inputs level ! (cursor div 2) \<in> set (node_inputs level)"
      using i by (simp add: length_node_inputs)
    ultimately have eq: "input = node_inputs level ! (cursor div 2)"
      using inj_onD [OF "1.prems"(6)] by (auto simp: ti pi)
    have len: "length hash = 32" "length s = 32" "length (level ! (2 * (cursor div 2))) = 32"
      using "1.prems"(1,3,4) path by auto
    show ?thesis
    proof (cases "even cursor")
      case True
      then have "2 * (cursor div 2) = cursor" by simp
      with eq nth_node_inputs [OF i] len True show ?thesis by (simp add: input_def)
    next
      case False
      then have c: "Suc (2 * (cursor div 2)) = cursor" by simp
      with eq nth_node_inputs [OF i] len False "1.prems"(1) show ?thesis by (simp add: input_def)
    qed
  next
    case False
    then have "path = []" using "1.prems"(2) by (simp add: depth.simps [of "length level"])
    moreover have "cursor = 0" using "1.prems"(1) False by simp
    ultimately show ?thesis using "1.prems"(7) False by (simp add: root_loop_short)
  qed
qed

lemma leaf_hash_inject:
  assumes "inj_on sha A" "LEAF_DOMAIN @ x \<in> A" "LEAF_DOMAIN @ y \<in> A" "leaf_hash sha x = leaf_hash sha y"
  shows "x = y"
  using inj_onD [OF assms(1), of "LEAF_DOMAIN @ x" "LEAF_DOMAIN @ y"] assms(2-) by (simp add: leaf_hash_def)

lemma root_determines_leaves:
  assumes "length xs = length ys" "\<forall>x. length (sha x) = 32"
    and inj: "inj_on sha (set (root_inputs sha xs) \<union> set (root_inputs sha ys))"
    and "root sha xs = Inr r" "root sha ys = Inr r"
  shows "xs = ys"
proof -
  let ?lx = "map (leaf_hash sha) xs" and ?ly = "map (leaf_hash sha) ys"
  have ne: "xs \<noteq> []" "ys \<noteq> []"
    using assms(4,5) by (auto simp: root_def checked_leaves_def)
  have "root_loop sha ?lx = root_loop sha ?ly"
    using assms(4,5) root_loop_singleton [of ?lx sha] root_loop_singleton [of ?ly sha] ne
    by (auto simp: root_def rbind_simps length_Suc_conv)
  moreover have "inj_on sha (set (tree_inputs sha ?lx) \<union> set (tree_inputs sha ?ly))"
    by (rule inj_on_subset [OF inj]) (auto simp: root_inputs_def)
  moreover have "\<forall>x \<in> set ?lx \<union> set ?ly. length x = 32"
    using assms(2) by (auto simp: leaf_hash_def)
  ultimately have "?lx = ?ly"
    using assms(1,2) by (intro root_loop_inject [of ?lx ?ly sha]) simp_all
  then have "map sha (map ((@) LEAF_DOMAIN) xs) = map sha (map ((@) LEAF_DOMAIN) ys)"
    by (simp add: leaf_hash_def [abs_def] comp_def)
  moreover have "inj_on sha (set (map ((@) LEAF_DOMAIN) xs) \<union> set (map ((@) LEAF_DOMAIN) ys))"
    by (rule inj_on_subset [OF inj]) (auto simp: root_inputs_def)
  ultimately have "map ((@) LEAF_DOMAIN) xs = map ((@) LEAF_DOMAIN) ys"
    using inj_on_map_eq_map by blast
  then show ?thesis by (simp add: inj_map_eq_map inj_on_def)
qed

section \<open>The frontier computes the batch root\<close>

text \<open>
  \<open>represents_level sha f hs\<close>: the frontier \<open>f\<close> holds the peaks of a level with hashes \<open>hs\<close>:
  bit by bit, an odd last element is the peak of that level.
\<close>

fun represents_level :: "(bytes \<Rightarrow> bytes) \<Rightarrow> bytes option list \<Rightarrow> bytes list \<Rightarrow> bool" where
  "represents_level sha [] hs \<longleftrightarrow> hs = []"
| "represents_level sha (None # f) hs \<longleftrightarrow> even (length hs) \<and> represents_level sha f (next_level sha hs)"
| "represents_level sha (Some p # f) hs \<longleftrightarrow>
     odd (length hs) \<and> last hs = p \<and> represents_level sha f (next_level sha (butlast hs))"

fun carry_in :: "(bytes \<Rightarrow> bytes) \<Rightarrow> bytes option list \<Rightarrow> bytes \<Rightarrow> bytes option list" where
  "carry_in sha [] c = [Some c]"
| "carry_in sha (None # f) c = Some c # f"
| "carry_in sha (Some l # f) c = None # carry_in sha f (node_hash sha l c)"

lemma odd_split:
  "odd (length hs) \<Longrightarrow> hs = butlast hs @ [last hs] \<and> even (length (butlast hs))"
  by (cases hs rule: rev_cases) auto

lemma represents_carry_in:
  "represents_level sha f hs \<Longrightarrow> represents_level sha (carry_in sha f c) (hs @ [c])"
proof (induction sha f c arbitrary: hs rule: carry_in.induct)
  case (3 sha l f c)
  then have hs: "odd (length hs)" "last hs = l" "represents_level sha f (next_level sha (butlast hs))"
    by auto
  have hs_split: "hs = butlast hs @ [l]" and ev: "even (length (butlast hs))"
    using odd_split [OF hs(1)] hs(2) by auto
  have "next_level sha (hs @ [c]) = next_level sha (butlast hs @ [l, c])"
    by (subst hs_split) simp
  also have "\<dots> = next_level sha (butlast hs) @ [node_hash sha l c]"
    using ev by (subst next_level_append) auto
  finally show ?case using 3 hs by simp
qed auto

lemma represents_length:
  "represents_level sha f hs \<Longrightarrow> f \<noteq> [] \<Longrightarrow> last f \<noteq> None \<Longrightarrow> 2 ^ (length f - 1) \<le> length hs"
proof (induction sha f hs rule: represents_level.induct)
  case (2 sha f hs)
  then have f: "f \<noteq> []" "last f \<noteq> None" by (auto split: if_splits)
  then obtain n where n: "length f = Suc n" by (cases f) auto
  from 2 f n have "2 ^ n \<le> (length hs + 1) div 2" by (simp add: length_next_level)
  with 2 n show ?case by (auto elim!: evenE)
next
  case (3 sha p f hs)
  then obtain m where m: "length hs = Suc (2 * m)" by (auto elim!: oddE)
  show ?case
  proof (cases "length f")
    case 0
    with m show ?thesis by simp
  next
    case (Suc n)
    then have "f \<noteq> []" "last f \<noteq> None" using "3.prems" by (auto split: if_splits)
    with 3 m Suc have "2 ^ n \<le> m" by (simp add: length_next_level)
    with Suc m show ?thesis by simp
  qed
qed simp

lemma length_carry_in: "length (carry_in sha f c) \<le> Suc (length f)"
  by (induction sha f c rule: carry_in.induct) auto

lemma carry_in_last: "f = [] \<or> last f \<noteq> None \<Longrightarrow> carry_in sha f c \<noteq> [] \<and> last (carry_in sha f c) \<noteq> None"
proof (induction sha f c rule: carry_in.induct)
  case (2 sha f c)
  then show ?case by (cases f) auto
next
  case (3 sha l f c)
  then have "f = [] \<or> last f \<noteq> None" by (cases f) auto
  with 3 show ?case by auto
qed auto

lemma append_frontier_loop_carry_in:
  "length pre + length f < MAX_PROOF_DEPTH \<Longrightarrow>
     append_frontier_loop sha (pre @ f) c (length pre) = Inr (pre @ carry_in sha f c)"
proof (induction sha f c arbitrary: pre rule: carry_in.induct)
  case (1 sha c)
  then show ?case by (simp add: append_frontier_loop.simps Let_def)
next
  case (2 sha f c)
  then show ?case by (simp add: append_frontier_loop.simps Let_def)
next
  case (3 sha l f c)
  have "append_frontier_loop sha ((pre @ [None]) @ f) (node_hash sha l c) (length (pre @ [None]))
          = Inr ((pre @ [None]) @ carry_in sha f (node_hash sha l c))"
    using 3 by (intro "3.IH") simp
  with "3.prems" show ?case
    by (subst append_frontier_loop.simps) (simp add: Let_def)
qed

abbreviation all_none :: "bytes option list \<Rightarrow> bool" where
  "all_none f \<equiv> list_all (\<lambda>x. x = None) f"

fun fold_up :: "(bytes \<Rightarrow> bytes) \<Rightarrow> bytes option list \<Rightarrow> bytes \<Rightarrow> bytes" where
  "fold_up sha [] r = r"
| "fold_up sha (None # f) r = (if all_none f then r else fold_up sha f (node_hash sha r r))"
| "fold_up sha (Some p # f) r = fold_up sha f (node_hash sha p r)"

fun first_peak :: "(bytes \<Rightarrow> bytes) \<Rightarrow> bytes option list \<Rightarrow> bytes option" where
  "first_peak sha [] = None"
| "first_peak sha (None # f) = first_peak sha f"
| "first_peak sha (Some p # f) =
     Some (if all_none f then p else fold_up sha f (node_hash sha p p))"

lemma fold_up_all_none: "all_none f \<Longrightarrow> fold_up sha f r = r"
  by (induction sha f r rule: fold_up.induct) auto

lemma represents_all_none: "represents_level sha f hs \<Longrightarrow> all_none f \<longleftrightarrow> hs = []"
proof (induction sha f hs rule: represents_level.induct)
  case (3 sha p f hs)
  then show ?case by (cases hs) auto
qed auto

lemma root_loop_fold_up: "represents_level sha f hs \<Longrightarrow> root_loop sha (hs @ [r]) = [fold_up sha f r]"
proof (induction sha f hs arbitrary: r rule: represents_level.induct)
  case (1 sha hs)
  then show ?case by (simp add: root_loop_short)
next
  case (2 sha f hs)
  show ?case
  proof (cases "all_none f")
    case True
    then have "hs = []" using 2 represents_all_none [of sha "None # f" hs] by simp
    with True show ?thesis by (simp add: root_loop_short)
  next
    case False
    then have "hs \<noteq> []" using 2 represents_all_none [of sha "None # f" hs] by simp
    with 2 False show ?thesis by (simp add: root_loop_long next_level_append)
  qed
next
  case (3 sha p f hs)
  have hs: "hs = butlast hs @ [p]" and ev: "even (length (butlast hs))"
    using odd_split [of hs] 3 by auto
  have "root_loop sha (hs @ [r]) = root_loop sha (next_level sha (hs @ [r]))"
    using 3 by (intro root_loop_long) (cases hs, auto)
  also have "next_level sha (hs @ [r]) = next_level sha (butlast hs) @ [node_hash sha p r]"
    by (subst hs) (use ev in \<open>simp add: next_level_append\<close>)
  finally show ?case using 3 by simp
qed

lemma root_loop_first_peak:
  "represents_level sha f hs \<Longrightarrow> hs \<noteq> [] \<Longrightarrow> first_peak sha f = Some (root_loop sha hs ! 0)"
proof (induction sha f hs rule: represents_level.induct)
  case (2 sha f hs)
  then have "length hs > 1" by (cases hs) auto
  with 2 show ?case by (simp add: root_loop_long)
next
  case (3 sha p f hs)
  have hs: "hs = butlast hs @ [p]" and ev: "even (length (butlast hs))"
    using odd_split [of hs] 3 by auto
  have nl: "next_level sha hs = next_level sha (butlast hs) @ [node_hash sha p p]"
    by (subst hs) (use ev in \<open>simp add: next_level_append\<close>)
  have an: "all_none f \<longleftrightarrow> butlast hs = []"
    using 3 represents_all_none [of sha f "next_level sha (butlast hs)"] by simp
  show ?case
  proof (cases "butlast hs = []")
    case True
    then have "hs = [p]" using hs by simp
    with an True show ?thesis by (simp add: root_loop_short)
  next
    case False
    then have "length hs > 1" by (cases hs) auto
    with 3 nl False an show ?thesis 
      by (simp add: root_loop_long [of hs] root_loop_fold_up [of sha f "next_level sha (butlast hs)"])
  qed
qed auto

lemma promote_Suc: "promote sha r (Suc n) = node_hash sha (promote sha r n) (promote sha r n)"
  by (induction n arbitrary: r) auto

lemma drop_entry: "k < length xs \<Longrightarrow> drop k xs = xs ! k # drop (Suc k) xs"
  by (simp add: Cons_nth_drop_Suc)

lemma frontier_root_loop_Some:
  assumes "length fr \<le> n" "j \<le> k"
  shows "fst (frontier_root_loop sha fr [k..<n] (Some r, j)) =
     Some (if all_none (drop k fr) then r else fold_up sha (drop k fr) (promote sha r (k - j)))"
  using assms
proof (induction "n - k" arbitrary: j k r)
  case 0
  then show ?case by simp
next
  case (Suc d)
  have upt: "[k..<n] = k # [Suc k..<n]" using Suc.hyps(2) by (simp add: upt_conv_Cons)
  show ?case
  proof (cases "k < length fr \<and> fr ! k \<noteq> None")
    case True
    then obtain p where p: "fr ! k = Some p" by auto
    show ?thesis
      using Suc.hyps(1) [of "Suc k" "Suc k"] Suc.hyps(2) Suc.prems True p
      by (simp add: upt drop_entry [of k fr] fold_up_all_none)
  next
    case False
    have "fst (frontier_root_loop sha fr [k..<n] (Some r, j)) =
        fst (frontier_root_loop sha fr [Suc k..<n] (Some r, j))"
      using False by (auto simp: upt)
    also have "\<dots> = Some (if all_none (drop (Suc k) fr) then r
        else fold_up sha (drop (Suc k) fr) (promote sha r (Suc k - j)))"
      using Suc.hyps Suc.prems by simp
    finally show ?thesis
      using False Suc.prems
      by (cases "k < length fr")
        (simp_all add: drop_entry [of k fr] Suc_diff_le promote_Suc del: promote.simps(2))
  qed
qed

lemma frontier_root_loop_None:
  assumes "length fr \<le> n"
  shows "fst (frontier_root_loop sha fr [k..<n] (None, j)) = first_peak sha (drop k fr)"
  using assms
proof (induction "n - k" arbitrary: k)
  case 0
  then show ?case by simp
next
  case (Suc d)
  have upt: "[k..<n] = k # [Suc k..<n]" using Suc.hyps(2) by (simp add: upt_conv_Cons)
  show ?case
  proof (cases "k < length fr \<and> fr ! k \<noteq> None")
    case True
    then obtain p where p: "fr ! k = Some p" by auto
    show ?thesis
      using frontier_root_loop_Some [OF Suc.prems, of k "Suc k" sha p] True p
      by (simp add: upt drop_entry [of k fr])
  next
    case False
    then have "fst (frontier_root_loop sha fr [k..<n] (None, j)) = first_peak sha (drop (Suc k) fr)"
      using Suc.hyps Suc.prems by (auto simp: upt)
    with False show ?thesis by (cases "k < length fr") (simp_all add: drop_entry [of k fr])
  qed
qed

section \<open>The accumulator interface\<close>

text \<open>
  What the compact consistency proofs rely on: a summary of an append-only leaf sequence that
  can be extended by one leaf and read out as the root of the whole sequence.
\<close>

locale accumulator =
  fixes start :: 'f
    and extend :: "'f \<Rightarrow> 'l \<Rightarrow> 'e + 'f"
    and read_root :: "'f \<Rightarrow> u64 \<Rightarrow> 'e + 'h"
    and batch :: "'l list \<Rightarrow> 'e + 'h"
    and summary :: "'f \<Rightarrow> 'l list \<Rightarrow> bool"
    and capacity :: nat
  assumes summary_start: "summary start []"
    and summary_extend: "summary f ls \<Longrightarrow> length ls < capacity \<Longrightarrow>
      \<exists>f'. extend f l = Inr f' \<and> summary f' (ls @ [l])"
    and summary_root: "summary f ls \<Longrightarrow> ls \<noteq> [] \<Longrightarrow> length ls \<le> capacity \<Longrightarrow>
      read_root f (of_nat (length ls)) = batch ls"
begin

fun extend_all :: "'f \<Rightarrow> 'l list \<Rightarrow> 'e + 'f" where
  "extend_all f [] = Inr f"
| "extend_all f (l # ls) = rbind (extend f l) (\<lambda>f'. extend_all f' ls)"

lemma extend_all_summary:
  "summary f ls \<Longrightarrow> length ls + length new \<le> capacity \<Longrightarrow>
     \<exists>f'. extend_all f new = Inr f' \<and> summary f' (ls @ new)"
proof (induction new arbitrary: f ls)
  case Nil
  then show ?case by simp
next
  case (Cons l new)
  then obtain f' where f': "extend f l = Inr f'" "summary f' (ls @ [l])"
    using summary_extend [of f ls l] by auto
  with Cons.IH [of f' "ls @ [l]"] Cons.prems show ?case by auto
qed

lemma extend_all_root:
  assumes "summary f ls" "length ls + length new \<le> capacity" "ls @ new \<noteq> []"
  shows "\<exists>f'. extend_all f new = Inr f' \<and>
    read_root f' (of_nat (length ls + length new)) = batch (ls @ new)"
proof -
  from extend_all_summary [OF assms(1,2)]
  obtain f' where "extend_all f new = Inr f'" "summary f' (ls @ new)" by auto
  with summary_root [of f' "ls @ new"] assms show ?thesis by auto
qed

end

definition frontier_of :: "(bytes \<Rightarrow> bytes) \<Rightarrow> bytes option list \<Rightarrow> bytes list \<Rightarrow> bool" where
  "frontier_of sha f leaves \<longleftrightarrow>
     represents_level sha f (map (leaf_hash sha) leaves) \<and> (f = [] \<or> last f \<noteq> None)"

lemma frontier_of_length:
  assumes "frontier_of sha f leaves" "length leaves \<le> MAX_LEAVES"
  shows "length f \<le> 21"
proof (cases "f = []")
  case False
  with assms have "2 ^ (length f - 1) \<le> (2 :: nat) ^ 20"
    using represents_length [of sha f "map (leaf_hash sha) leaves"]
    by (auto simp: frontier_of_def MAX_LEAVES_def)
  then have "length f - 1 \<le> 20" by (rule power_le_imp_le_exp [rotated]) simp
  then show ?thesis by simp
qed simp

interpretation frontier: accumulator "[]" "append_frontier sha" "frontier_root sha" "root sha"
    "frontier_of sha" MAX_LEAVES for sha :: "bytes \<Rightarrow> bytes"
proof
  show "frontier_of sha [] []" by (simp add: frontier_of_def)
next
  fix f leaves leaf
  assume f: "frontier_of sha f leaves" "length leaves < MAX_LEAVES"
  then have "length f < MAX_PROOF_DEPTH"
    using frontier_of_length [of sha f leaves] by (simp add: MAX_PROOF_DEPTH_def)
  then have "append_frontier sha f leaf = Inr (carry_in sha f (leaf_hash sha leaf))"
    using append_frontier_loop_carry_in [of "[]" f sha] by (simp add: append_frontier_def)
  with f show "\<exists>f'. append_frontier sha f leaf = Inr f' \<and> frontier_of sha f' (leaves @ [leaf])"
    using represents_carry_in [of sha f "map (leaf_hash sha) leaves"] carry_in_last [of f sha]
    by (auto simp: frontier_of_def)
next
  fix f leaves
  assume f: "frontier_of sha f leaves" "leaves \<noteq> []" "length leaves \<le> MAX_LEAVES"
  have "fst (frontier_root_loop sha f [0..<MAX_PROOF_DEPTH] (None, 0)) = first_peak sha f"
    using frontier_root_loop_None [of f MAX_PROOF_DEPTH sha 0 0] frontier_of_length [OF f(1,3)]
    by (simp add: MAX_PROOF_DEPTH_def)
  also have "\<dots> = Some (root_loop sha (map (leaf_hash sha) leaves) ! 0)"
    using f by (intro root_loop_first_peak) (auto simp: frontier_of_def)
  finally show "frontier_root sha f (of_nat (length leaves)) = root sha leaves"
    using f by (simp add: frontier_root_def root_ok unat_of_nat_small of_nat_eq_0_small)
qed

lemma append_all_eq: "append_all sha f leaves = frontier.extend_all sha f leaves"
  by (induction leaves arbitrary: f) simp_all

lemma frontier_from_leaves_ok:
  assumes "leaves \<noteq> []" "length leaves \<le> MAX_LEAVES"
  shows "\<exists>f. frontier_from_leaves sha leaves = Inr f \<and> frontier_of sha f leaves"
  using frontier.extend_all_summary [OF frontier.summary_start, of leaves sha] assms
  by (simp add: frontier_from_leaves_def checked_leaves_def append_all_eq)

section \<open>Properties\<close>

text \<open>For every leaf of a tree within the size bound, \<open>prove\<close> succeeds and yields a proof
  that names that leaf, carries the tree's own root, has one sibling per level and is accepted
  by \<open>verify\<close>.\<close>

theorem inclusion_complete:
  assumes "index < length leaves" and "length leaves \<le> MAX_LEAVES"
  shows "\<exists>p. prove sha leaves index = Inr p \<and> mp_leaf p = leaves ! index
           \<and> root sha leaves = Inr (mp_root p) \<and> verify sha p = Inr ()
           \<and> length (mp_siblings p) = depth (length leaves)"
  using assms by (rule prove_complete)

text \<open>A toy digest for witnesses: 31 zero bytes and the byte sum of the input.\<close>


theorem inclusion_complete_witness:
  "\<exists>p. prove toy_sha [[1], [2], [3]] 2 = Inr p \<and> mp_leaf p = [[1], [2], [3]] ! 2
     \<and> root toy_sha [[1], [2], [3]] = Inr (mp_root p) \<and> verify toy_sha p = Inr ()
     \<and> length (mp_siblings p) = depth (length [[1 :: byte], [2], [3]])"
  by (rule inclusion_complete) (simp_all add: MAX_LEAVES_def)

text \<open>C36.
  An inclusion proof for an index within the tree and with as many siblings as the tree is deep,
  neither of which \<open>verify\<close> itself checks, that \<open>verify\<close> accepts against the root of the tree
  names the leaf that the tree really has at that index, provided SHA-256 returns 32 bytes and
  has no collision among the strings hashed for the tree and for the proof.\<close>

theorem inclusion_sound:
  assumes "verify sha p = Inr ()" and "root sha leaves = Inr (mp_root p)"
    and "unat (mp_index p) < length leaves"
    and "length (mp_siblings p) = depth (length leaves)"
    and "\<forall>s \<in> set (mp_siblings p). length s = 32"
    and "\<forall>x. length (sha x) = 32"
    and inj: "inj_on sha (set (root_inputs sha leaves) \<union> set (proof_inputs sha p))"
  shows "mp_leaf p = leaves ! unat (mp_index p)"
proof -
  let ?level = "map (leaf_hash sha) leaves" and ?i = "unat (mp_index p)"
  have "leaf_hash sha (mp_leaf p) = ?level ! ?i"
  proof (rule verify_loop_sound)
    show "inj_on sha (set (tree_inputs sha ?level) \<union>
        set (path_inputs sha (leaf_hash sha (mp_leaf p)) ?i (mp_siblings p)))"
      by (rule inj_on_subset [OF inj]) (auto simp: root_inputs_def proof_inputs_def)
    show "verify_loop sha (leaf_hash sha (mp_leaf p)) ?i (mp_siblings p) = root_loop sha ?level ! 0"
      using assms(1,2) by (auto simp: verify_def root_def rbind_simps split: if_splits)
  qed (use assms in \<open>auto simp: leaf_hash_def\<close>)
  then have "leaf_hash sha (mp_leaf p) = leaf_hash sha (leaves ! ?i)"
    using assms(3) by simp
  then show ?thesis
    by (rule leaf_hash_inject [OF inj, rotated 2])
      (use assms(3) in \<open>auto simp: root_inputs_def proof_inputs_def\<close>)
qed

definition witness_proof :: merkle_proof where
  "witness_proof = \<lparr>mp_leaf = [2], mp_index = 1, mp_tree_size = 2,
     mp_siblings = [leaf_hash toy_sha [1]],
     mp_root = node_hash toy_sha (leaf_hash toy_sha [1]) (leaf_hash toy_sha [2])\<rparr>"

theorem inclusion_sound_witness:
  "verify toy_sha witness_proof = Inr () \<and> root toy_sha [[1], [2]] = Inr (mp_root witness_proof)
   \<and> length (mp_siblings witness_proof) = depth (length [[1 :: byte], [2]])
   \<and> mp_leaf witness_proof = [[1], [2]] ! unat (mp_index witness_proof)"
proof -
  have v: "verify toy_sha witness_proof = Inr ()" by code_simp
  have r: "root toy_sha [[1], [2]] = Inr (mp_root witness_proof)"
    by (simp add: root_ok MAX_LEAVES_def root_loop_long root_loop_short witness_proof_def)
  have inj: "inj_on toy_sha (set (root_inputs toy_sha [[1], [2]]) \<union> set (proof_inputs toy_sha witness_proof))"
    by code_simp
  have d: "length (mp_siblings witness_proof) = depth (length [[1 :: byte], [2]])"
    by (simp add: witness_proof_def depth.simps)
  have "mp_leaf witness_proof = [[1], [2]] ! unat (mp_index witness_proof)"
    by (rule inclusion_sound [OF v r _ d _ length_toy_sha inj])
      (simp_all add: witness_proof_def leaf_hash_def length_toy_sha)
  with v r d show ?thesis by blast
qed

text \<open>Among leaf sequences of the same length the root determines the leaves, under the same
  hypotheses on SHA-256 as for inclusion proofs.\<close>

theorem root_binds_leaves:
  assumes "length xs = length ys" and "\<forall>x. length (sha x) = 32"
    and "inj_on sha (set (root_inputs sha xs) \<union> set (root_inputs sha ys))"
    and "root sha xs = Inr r" and "root sha ys = Inr r"
  shows "xs = ys"
  using assms by (rule root_determines_leaves)

theorem root_binds_leaves_witness:
  "root toy_sha [[1], [2]] = Inr (mp_root witness_proof) \<and> [[1 :: byte], [2]] = [[1], [2]]"
proof
  show r: "root toy_sha [[1], [2]] = Inr (mp_root witness_proof)"
    by (simp add: root_ok MAX_LEAVES_def root_loop_long root_loop_short witness_proof_def)
  show "[[1 :: byte], [2]] = [[1], [2]]"
  proof (rule root_binds_leaves [where sha = toy_sha, OF refl length_toy_sha _ r r])
    show "inj_on toy_sha (set (root_inputs toy_sha [[1], [2]]) \<union> set (root_inputs toy_sha [[1], [2]]))"
      by code_simp
  qed
qed

text \<open>
  The length is not bound by the root: a tree whose leaf count is odd and at least three
  has the same root as the tree that repeats its last leaf, whatever the hash function, because
  \<open>next_level\<close> pairs an odd last node with itself.\<close>

theorem root_repeats_last_leaf:
  assumes "odd (length leaves)" and "3 \<le> length leaves" and "length leaves < MAX_LEAVES"
  shows "root sha (leaves @ [last leaves]) = root sha leaves"
proof -
  let ?level = "map (leaf_hash sha) leaves"
  have ne: "?level \<noteq> []" using assms(2) by auto
  have split: "?level = butlast ?level @ [last ?level]" "even (length (butlast ?level))"
    using odd_split [of ?level] assms(1) by auto
  have "next_level sha (?level @ [last ?level])
      = next_level sha (butlast ?level @ [last ?level, last ?level])"
    by (subst split(1)) simp
  also have "\<dots> = next_level sha (butlast ?level @ [last ?level])"
    using split(2) by (simp add: next_level_append)
  also have "\<dots> = next_level sha ?level" by (simp flip: split(1))
  finally have "root_loop sha (?level @ [last ?level]) = root_loop sha ?level"
    using assms(2) ne root_loop_long [of ?level sha] root_loop_long [of "?level @ [last ?level]" sha]
    by simp
  moreover have "leaf_hash sha (last leaves) = last ?level" using ne by (simp add: last_map)
  ultimately show ?thesis using assms ne by (simp add: root_ok)
qed

theorem root_repeats_last_leaf_witness:
  "root toy_sha ([[1], [2], [3]] @ [last [[1], [2], [3]]]) = root toy_sha [[1], [2], [3]]"
  by (rule root_repeats_last_leaf) (simp_all add: MAX_LEAVES_def)

text \<open>The compact consistency proof is complete: for every old size of a tree within the bound,
  \<open>frontier_consistency_proof\<close> succeeds, its roots are the batch roots of the prefix and of the
  whole tree, and \<open>verify_frontier_consistency\<close>, which never sees the prefix, accepts it.\<close>

theorem frontier_consistency_complete:
  assumes "0 < old_size" and "old_size \<le> length leaves" and "length leaves \<le> MAX_LEAVES"
  shows "\<exists>p. frontier_consistency_proof sha leaves old_size = Inr p
           \<and> root sha (take old_size leaves) = Inr (mf_old_root p)
           \<and> root sha leaves = Inr (mf_new_root p)
           \<and> verify_frontier_consistency sha p = Inr ()"
proof -
  let ?old = "take old_size leaves" and ?new = "drop old_size leaves"
  have ne: "leaves \<noteq> []" "?old \<noteq> []" and len: "length ?old = old_size" "length ?old \<le> MAX_LEAVES"
    using assms by auto
  obtain f where f: "frontier_from_leaves sha ?old = Inr f" "frontier_of sha f ?old"
    using frontier_from_leaves_ok [OF ne(2) len(2)] by auto
  have bound: "length ?old + length ?new \<le> MAX_LEAVES" using assms by simp
  from frontier.extend_all_root [OF f(2) bound] ne
  obtain f' where f': "append_all sha f ?new = Inr f'"
    "frontier_root sha f' (of_nat (length ?old + length ?new)) = root sha leaves"
    by (auto simp: append_all_eq)
  have w: "unat (of_nat old_size :: u64) = old_size"
    "unat (of_nat (length leaves) :: u64) = length leaves"
    using assms by (auto intro: unat_of_nat_small)
  have "(of_nat old_size :: u64) \<le> of_nat (length leaves)"
    using w assms by (simp add: word_le_nat_alt)
  moreover have "(of_nat (length leaves) :: u64) - of_nat old_size = of_nat (length ?new)"
    using assms by (simp add: of_nat_diff)
  moreover have "(of_nat old_size :: u64) \<noteq> 0"
    using assms of_nat_eq_0_small [of old_size] by auto
  moreover have "frontier_root sha f (of_nat old_size) = root sha ?old"
    using frontier.summary_root [OF f(2) ne(2) len(2)] len by simp
  ultimately show ?thesis
    using f f' ne w assms len root_ok [OF ne(1) assms(3), of sha] root_ok [OF ne(2) len(2), of sha]
      frontier_of_length [OF f(2) len(2)]
    by (simp add: frontier_consistency_proof_def verify_frontier_consistency_def checked_leaves_def
        MAX_PROOF_DEPTH_def)
qed

theorem frontier_consistency_complete_witness:
  "\<exists>p. frontier_consistency_proof toy_sha [[1], [2], [3]] 2 = Inr p
     \<and> root toy_sha (take 2 [[1], [2], [3]]) = Inr (mf_old_root p)
     \<and> root toy_sha [[1], [2], [3]] = Inr (mf_new_root p)
     \<and> verify_frontier_consistency toy_sha p = Inr ()"
  by (rule frontier_consistency_complete) (simp_all add: MAX_LEAVES_def)

text \<open>
  The compact consistency proof is sound for a verifier that holds the frontier of the old
  tree: when \<open>verify_frontier_consistency\<close> accepts a proof whose frontier is the one of the old
  leaves, the new root is the batch root of the old leaves followed by the appended ones.\<close>

theorem frontier_consistency_sound:
  assumes "verify_frontier_consistency sha p = Inr ()"
    and "frontier_of sha (mf_old_frontier p) old" and "unat (mf_old_size p) = length old"
    and "length (mf_appended_leaves p) < 2 ^ 64"
  shows "root sha old = Inr (mf_old_root p)
       \<and> root sha (old @ mf_appended_leaves p) = Inr (mf_new_root p)
       \<and> unat (mf_new_size p) = length old + length (mf_appended_leaves p)"
proof -
  let ?new = "mf_appended_leaves p"
  from assms(1) have g: "mf_old_size p \<noteq> 0" "mf_old_size p \<le> mf_new_size p"
      "unat (mf_old_size p) \<le> MAX_LEAVES" "unat (mf_new_size p) \<le> MAX_LEAVES"
      "mf_new_size p - mf_old_size p = of_nat (length ?new)"
    by (auto simp: verify_frontier_consistency_def split: if_splits)
  from assms(1) obtain f' where run:
      "frontier_root sha (mf_old_frontier p) (mf_old_size p) = Inr (mf_old_root p)"
      "append_all sha (mf_old_frontier p) ?new = Inr f'"
      "frontier_root sha f' (mf_new_size p) = Inr (mf_new_root p)"
    by (auto simp: verify_frontier_consistency_def rbind_simps split: if_splits)
  have ne: "old \<noteq> []" using assms(3) g(1) unat_eq_zero [of "mf_old_size p"] by auto
  have old: "mf_old_size p = of_nat (length old)" by (simp flip: assms(3))
  have "unat (mf_new_size p - mf_old_size p) = length ?new"
    unfolding g(5) using assms(4) by (simp add: unat_of_nat)
  then have size: "unat (mf_new_size p) = length old + length ?new"
    using g(2) assms(3) by (simp add: unat_sub word_le_nat_alt)
  then have new: "mf_new_size p = of_nat (length old + length ?new)" by (simp flip: size)
  have bound: "length old + length ?new \<le> MAX_LEAVES" using g(4) size by simp
  from frontier.extend_all_root [OF assms(2) bound] ne run(2)
  have "frontier_root sha f' (of_nat (length old + length ?new)) = root sha (old @ ?new)"
    by (simp add: append_all_eq)
  moreover have "frontier_root sha (mf_old_frontier p) (of_nat (length old)) = root sha old"
    using frontier.summary_root [OF assms(2) ne] bound by simp
  ultimately show ?thesis using run size old new by simp
qed

theorem frontier_consistency_sound_witness:
  "root toy_sha [[1]] = Inr (leaf_hash toy_sha [1])
     \<and> root toy_sha ([[1]] @ [[2]]) = Inr (mp_root witness_proof)
     \<and> unat (2 :: u64) = length [[1 :: byte]] + length [[2 :: byte]]"
proof -
  define p where "p = \<lparr>mf_old_size = 1, mf_new_size = 2,
    mf_old_frontier = [Some (leaf_hash toy_sha [1])], mf_appended_leaves = [[2]],
    mf_old_root = leaf_hash toy_sha [1], mf_new_root = mp_root witness_proof\<rparr>"
  have up: "[0..<64] = 0 # 1 # [2..<64 :: nat]" by (simp add: upt_conv_Cons)
  have fr: "frontier_root toy_sha [Some (leaf_hash toy_sha [1])] 1 = Inr (leaf_hash toy_sha [1])"
    using frontier.summary_root [of toy_sha "[Some (leaf_hash toy_sha [1])]" "[[1]]"]
    by (simp add: frontier_of_def root_ok MAX_LEAVES_def root_loop_short)
  have fr2: "append_frontier toy_sha [Some (leaf_hash toy_sha [1])] [2] = Inr [None, Some (mp_root witness_proof)]"
    by (simp add: append_frontier_def append_frontier_loop.simps MAX_PROOF_DEPTH_def Let_def witness_proof_def)
  have "frontier_root toy_sha [None, Some (mp_root witness_proof)] 2 = Inr (mp_root witness_proof)"
    using frontier.summary_root [of toy_sha "[None, Some (mp_root witness_proof)]" "[[1], [2]]"]
    by (simp add: frontier_of_def root_ok MAX_LEAVES_def root_loop_long root_loop_short witness_proof_def)
  with fr fr2 have "verify_frontier_consistency toy_sha p = Inr ()"
    by (simp add: verify_frontier_consistency_def p_def MAX_LEAVES_def MAX_PROOF_DEPTH_def)
  from frontier_consistency_sound [OF this, of "[[1]]"] show ?thesis
    by (simp add: p_def frontier_of_def)
qed

text \<open>
  \<open>verify_consistency\<close> accepts exactly the proofs whose two sizes and two roots are those of
  a nonempty prefix of the carried leaves and of all of them; in particular everything
  \<open>consistency_proof\<close> produces.\<close>

theorem verify_consistency_iff:
  "verify_consistency sha p = Inr () \<longleftrightarrow>
     0 < unat (mc_old_size p) \<and> unat (mc_old_size p) \<le> length (mc_leaves p)
     \<and> length (mc_leaves p) \<le> MAX_LEAVES \<and> unat (mc_new_size p) = length (mc_leaves p)
     \<and> root sha (take (unat (mc_old_size p)) (mc_leaves p)) = Inr (mc_old_root p)
     \<and> root sha (mc_leaves p) = Inr (mc_new_root p)" (is "?lhs \<longleftrightarrow> ?rhs")
proof (cases "length (mc_leaves p) \<le> MAX_LEAVES")
  case True
  then have size: "mc_new_size p = of_nat (length (mc_leaves p)) \<longleftrightarrow>
      unat (mc_new_size p) = length (mc_leaves p)"
    by (intro u64_eq_of_nat_iff) (simp add: MAX_LEAVES_def)
  show ?thesis
  proof
    assume ?lhs
    then show ?rhs
      using size unat_gt_0 [of "mc_old_size p"] True
      by (auto simp: verify_consistency_def word_le_nat_alt not_less rbind_simps split: if_splits)
  next
    assume rhs: ?rhs
    then have "mc_leaves p \<noteq> []" by auto
    with rhs size show ?lhs
      by (auto simp: verify_consistency_def checked_leaves_def word_le_nat_alt not_less)
  qed
next
  case False
  then show ?thesis by (auto simp: verify_consistency_def checked_leaves_def)
qed

end
