(* ===== verification/Codec.thy ===== *)
theory Codec
  imports Prelude
begin

text \<open>
  Cursor decoders and the codec interface.

  The struct \<open>Decoder\<close> of \<^verbatim>\<open>ferro-core/src/witness/encoding.rs\<close> (a byte slice and a position) and
  its primitive reads, and two interfaces that the record formats are built from:
  \<^item> \<open>codec\<close>: an encoder and a cursor decoder that invert each other in both directions, so that
    what is decoded is exactly what was encoded and nothing else decodes;
  \<^item> \<open>discriminant\<close>: a closed enumeration stored as one byte, which gives a codec.
  A position is a natural number: a slice holds at most \<open>isize::MAX\<close> bytes, so the \<open>checked_add\<close>
  of \<open>take\<close> cannot overflow, and its error is the one that the range check returns.
\<close>

named_theorems codec_simps \<open>decoding an encoded field\<close>
named_theorems codec_inv \<open>what a successfully decoded field was encoded from\<close>

datatype witness_error =
    BoundExceeded string
  | Truncated
  | UnknownDiscriminant string
  | NonCanonicalText
  | NonCanonicalEncoding
  | WrongJournal
  | WrongEpoch
  | SequenceGap
  | BrokenLink
  | InvalidLifecycle
  | TooManyOpenRequests
  | TooManyRecords
  | InvalidPurpose

record decoder =
  dbytes :: bytes
  dposition :: nat

type_synonym 'a decoded = "witness_error + ('a \<times> decoder)"

definition decoder_new :: "bytes \<Rightarrow> decoder" where
  "decoder_new bs = \<lparr>dbytes = bs, dposition = 0\<rparr>"

definition decoder_take :: "nat \<Rightarrow> decoder \<Rightarrow> bytes decoded" where
  "decoder_take n d =
     (let e = dposition d + n in
      if e \<le> length (dbytes d)
      then Inr (take n (drop (dposition d) (dbytes d)), d\<lparr>dposition := e\<rparr>)
      else Inl Truncated)"

definition decoder_u8 :: "decoder \<Rightarrow> byte decoded" where
  "decoder_u8 d = rbind (decoder_take 1 d) (\<lambda>(v, d). Inr (v ! 0, d))"

definition decoder_fixed :: "nat \<Rightarrow> decoder \<Rightarrow> bytes decoded" where
  "decoder_fixed n d = decoder_take n d"

definition decoder_u64 :: "decoder \<Rightarrow> u64 decoded" where
  "decoder_u64 d = rbind (decoder_fixed 8 d) (\<lambda>(v, d). Inr (u64_from_be v, d))"

text \<open>\<open>i64\<close> is a 64-bit word read in two's complement; its bytes are those of the word.\<close>

definition decoder_i64 :: "decoder \<Rightarrow> u64 decoded" where
  "decoder_i64 d = rbind (decoder_fixed 8 d) (\<lambda>(v, d). Inr (u64_from_be v, d))"

definition decoder_tag :: "decoder \<Rightarrow> bool decoded" where
  "decoder_tag d = rbind (decoder_u8 d) (\<lambda>(v, d).
     if v = 0 then Inr (False, d) else if v = 1 then Inr (True, d)
     else Inl (UnknownDiscriminant ''optional tag''))"

definition decoder_fixed_optional :: "nat \<Rightarrow> decoder \<Rightarrow> bytes option decoded" where
  "decoder_fixed_optional n d = rbind (decoder_tag d) (\<lambda>(present, d).
     if present then rbind (decoder_fixed n d) (\<lambda>(v, d). Inr (Some v, d))
     else Inr (None, d))"

definition decoder_bool_optional :: "decoder \<Rightarrow> bool option decoded" where
  "decoder_bool_optional d = rbind (decoder_u8 d) (\<lambda>(v, d).
     if v = 0 then Inr (None, d) else if v = 1 then Inr (Some False, d)
     else if v = 2 then Inr (Some True, d)
     else Inl (UnknownDiscriminant ''optional bool''))"

definition decoder_finished :: "decoder \<Rightarrow> bool" where
  "decoder_finished d \<longleftrightarrow> dposition d = length (dbytes d)"

text \<open>\<open>f(decoder.u8()?)?\<close> and \<open>if tag { f(decoder.u8()?)? }\<close>.\<close>

definition decoder_enum :: "(byte \<Rightarrow> witness_error + 'a) \<Rightarrow> decoder \<Rightarrow> 'a decoded" where
  "decoder_enum f d = rbind (decoder_u8 d) (\<lambda>(v, d). rbind (f v) (\<lambda>x. Inr (x, d)))"

definition decoder_enum_optional :: "(byte \<Rightarrow> witness_error + 'a) \<Rightarrow> decoder \<Rightarrow> 'a option decoded" where
  "decoder_enum_optional f d = rbind (decoder_tag d) (\<lambda>(present, d).
     if present then rbind (decoder_u8 d) (\<lambda>(v, d). rbind (f v) (\<lambda>x. Inr (Some x, d)))
     else Inr (None, d))"

section \<open>Writers\<close>

definition put_fixed_optional :: "bytes option \<Rightarrow> bytes" where
  "put_fixed_optional v = (case v of None \<Rightarrow> [0] | Some b \<Rightarrow> 1 # b)"

definition put_bool_optional :: "bool option \<Rightarrow> bytes" where
  "put_bool_optional v = [case v of None \<Rightarrow> 0 | Some False \<Rightarrow> 1 | Some True \<Rightarrow> 2]"

definition put_enum_optional :: "('a \<Rightarrow> byte) \<Rightarrow> 'a option \<Rightarrow> bytes" where
  "put_enum_optional to_u8 v = (case v of None \<Rightarrow> [0] | Some x \<Rightarrow> [1, to_u8 x])"

section \<open>The codec interface\<close>

text \<open>A cursor that has consumed \<open>pre\<close> and has \<open>rest\<close> before it.\<close>

definition cursor :: "bytes \<Rightarrow> bytes \<Rightarrow> decoder" where
  "cursor pre rest = \<lparr>dbytes = pre @ rest, dposition = length pre\<rparr>"

lemma decoder_new_cursor: "decoder_new bs = cursor [] bs"
  by (simp add: decoder_new_def cursor_def)

lemma cursor_finished [simp]: "decoder_finished (cursor pre rest) \<longleftrightarrow> rest = []"
  by (simp add: decoder_finished_def cursor_def)

locale codec =
  fixes valid :: "'a \<Rightarrow> bool"
    and enc :: "'a \<Rightarrow> bytes"
    and dec :: "decoder \<Rightarrow> 'a decoded"
  assumes dec_enc: "valid x \<Longrightarrow> dec (cursor pre (enc x @ rest)) = Inr (x, cursor (pre @ enc x) rest)"
    and dec_sound: "dec (cursor pre bs) = Inr (x, d) \<Longrightarrow>
      valid x \<and> (\<exists>rest. bs = enc x @ rest \<and> d = cursor (pre @ enc x) rest)"
begin

lemma dec_enc_end: "valid x \<Longrightarrow> dec (cursor pre (enc x)) = Inr (x, cursor (pre @ enc x) [])"
  using dec_enc [of x pre "[]"] by simp

lemma read_elim:
  assumes "rbind (dec (cursor pre bs)) (\<lambda>(x, d). k x d) = Inr y"
  obtains x rest where "valid x" "bs = enc x @ rest" "k x (cursor (pre @ enc x) rest) = Inr y"
  using assms dec_sound [of pre bs] by (auto simp: rbind_simps)

lemma prefix_free:
  assumes "valid x" "valid y" "enc x @ r = enc y @ s"
  shows "x = y \<and> r = s"
  using dec_enc [OF assms(1), of "[]" r] dec_enc [OF assms(2), of "[]" s] assms(3)
  by (auto simp: cursor_def)

lemma enc_inject: "valid x \<Longrightarrow> valid y \<Longrightarrow> enc x = enc y \<Longrightarrow> x = y"
  using prefix_free [of x y "[]" "[]"] by simp

end

lemma decoder_take_cursor:
  "decoder_take n (cursor pre bs) =
     (if n \<le> length bs then Inr (take n bs, cursor (pre @ take n bs) (drop n bs)) else Inl Truncated)"
  by (simp add: decoder_take_def cursor_def Let_def)

lemma decoder_u8_cursor [codec_simps]:
  "decoder_u8 (cursor pre (b # rest)) = Inr (b, cursor (pre @ [b]) rest)"
  by (simp add: decoder_u8_def decoder_take_cursor)

lemma decoder_u8_inv:
  "decoder_u8 (cursor pre bs) = Inr (v, d) \<Longrightarrow> \<exists>rest. bs = v # rest \<and> d = cursor (pre @ [v]) rest"
  by (cases bs) (auto simp: decoder_u8_def decoder_take_cursor)

interpretation u8: codec "\<lambda>_. True" "\<lambda>v. [v]" decoder_u8
  by unfold_locales (auto simp: codec_simps dest: decoder_u8_inv)

interpretation fixed: codec "\<lambda>v. length v = n" "\<lambda>v. v" "decoder_fixed n" for n
  by unfold_locales
    (auto simp: decoder_fixed_def decoder_take_cursor intro: append_take_drop_id [symmetric] split: if_splits)

interpretation u64: codec "\<lambda>_. True" u64_to_be decoder_u64
proof
  fix pre bs x d
  assume "decoder_u64 (cursor pre bs) = Inr (x, d)"
  then obtain v where "decoder_fixed 8 (cursor pre bs) = Inr (v, d)" "x = u64_from_be v"
    by (auto simp: decoder_u64_def rbind_simps)
  with fixed.dec_sound [of 8 pre bs v d]
  show "True \<and> (\<exists>rest. bs = u64_to_be x @ rest \<and> d = cursor (pre @ u64_to_be x) rest)"
    by (auto simp: u64_to_from_be)
qed (simp add: decoder_u64_def fixed.dec_enc)

interpretation i64: codec "\<lambda>_. True" u64_to_be decoder_i64
proof -
  have "decoder_i64 = decoder_u64" by (simp add: fun_eq_iff decoder_i64_def decoder_u64_def)
  then show "codec (\<lambda>_. True) u64_to_be decoder_i64" using u64.codec_axioms by simp
qed

lemma decoder_tag_cursor:
  "decoder_tag (cursor pre (0 # rest)) = Inr (False, cursor (pre @ [0]) rest)"
  "decoder_tag (cursor pre (1 # rest)) = Inr (True, cursor (pre @ [1]) rest)"
  by (simp_all add: decoder_tag_def codec_simps)

lemma decoder_tag_inv:
  "decoder_tag (cursor pre bs) = Inr (t, d) \<Longrightarrow>
     \<exists>rest. bs = (if t then 1 else 0) # rest \<and> d = cursor (pre @ [if t then 1 else 0]) rest"
  by (auto simp: decoder_tag_def rbind_simps dest!: decoder_u8_inv split: if_splits)

interpretation fixed_optional: codec "\<lambda>v. \<forall>b. v = Some b \<longrightarrow> length b = n" put_fixed_optional
    "decoder_fixed_optional n" for n
proof
  fix v :: "bytes option" and pre rest
  assume "\<forall>b. v = Some b \<longrightarrow> length b = n"
  then show "decoder_fixed_optional n (cursor pre (put_fixed_optional v @ rest))
      = Inr (v, cursor (pre @ put_fixed_optional v) rest)"
    by (cases v) (simp_all add: decoder_fixed_optional_def put_fixed_optional_def
        decoder_tag_cursor fixed.dec_enc)
next
  fix pre bs v d
  assume "decoder_fixed_optional n (cursor pre bs) = Inr (v, d)"
  then show "(\<forall>b. v = Some b \<longrightarrow> length b = n)
      \<and> (\<exists>rest. bs = put_fixed_optional v @ rest \<and> d = cursor (pre @ put_fixed_optional v) rest)"
    by (auto simp: decoder_fixed_optional_def put_fixed_optional_def rbind_simps
        dest!: decoder_tag_inv fixed.dec_sound split: if_splits)
qed

interpretation bool_optional: codec "\<lambda>_. True" put_bool_optional decoder_bool_optional
proof
  fix v pre rest
  show "decoder_bool_optional (cursor pre (put_bool_optional v @ rest))
      = Inr (v, cursor (pre @ put_bool_optional v) rest)"
    by (cases v) (auto simp: decoder_bool_optional_def put_bool_optional_def codec_simps split: bool.splits)
next
  fix pre bs v d
  assume "decoder_bool_optional (cursor pre bs) = Inr (v, d)"
  then show "True \<and> (\<exists>rest. bs = put_bool_optional v @ rest \<and> d = cursor (pre @ put_bool_optional v) rest)"
    by (auto simp: decoder_bool_optional_def put_bool_optional_def rbind_simps
        dest!: decoder_u8_inv split: if_splits)
qed

section \<open>Enumerations stored as one byte\<close>

locale discriminant =
  fixes to_u8 :: "'a \<Rightarrow> byte"
    and of_u8 :: "byte \<Rightarrow> witness_error + 'a"
  assumes of_to_u8: "of_u8 (to_u8 x) = Inr x"
    and to_of_u8: "of_u8 v = Inr x \<Longrightarrow> v = to_u8 x"
begin

lemma to_u8_inject: "to_u8 x = to_u8 y \<longleftrightarrow> x = y"
  by (metis of_to_u8 sum.inject(2))

lemma enum_codec: "codec (\<lambda>_. True) (\<lambda>x. [to_u8 x]) (decoder_enum of_u8)"
  by unfold_locales
    (auto simp: decoder_enum_def codec_simps of_to_u8 rbind_simps dest!: decoder_u8_inv to_of_u8)

lemma enum_optional_codec:
  "codec (\<lambda>_. True) (put_enum_optional to_u8) (decoder_enum_optional of_u8)"
proof
  fix v pre rest
  show "decoder_enum_optional of_u8 (cursor pre (put_enum_optional to_u8 v @ rest))
      = Inr (v, cursor (pre @ put_enum_optional to_u8 v) rest)"
    by (cases v) (simp_all add: decoder_enum_optional_def put_enum_optional_def decoder_tag_cursor
        codec_simps of_to_u8)
next
  fix pre bs v d
  assume "decoder_enum_optional of_u8 (cursor pre bs) = Inr (v, d)"
  then show "True \<and> (\<exists>rest. bs = put_enum_optional to_u8 v @ rest
      \<and> d = cursor (pre @ put_enum_optional to_u8 v) rest)"
    by (auto simp: decoder_enum_optional_def put_enum_optional_def rbind_simps
        dest!: decoder_tag_inv decoder_u8_inv to_of_u8 split: if_splits)
qed

end

sublocale discriminant \<subseteq> enum: codec "\<lambda>_. True" "\<lambda>x. [to_u8 x]" "decoder_enum of_u8"
  by (rule enum_codec)

sublocale discriminant \<subseteq> enum_optional: codec "\<lambda>_. True" "put_enum_optional to_u8"
    "decoder_enum_optional of_u8"
  by (rule enum_optional_codec)

end
