(* ===== verification/Witness_Record.thy ===== *)
theory Witness_Record
  imports Codec
begin

text \<open>
  Model of the canonical witness record: the types of \<^verbatim>\<open>ferro-core/src/witness.rs\<close>, the semantic
  schema of \<^verbatim>\<open>validation.rs\<close> and the binary format of \<^verbatim>\<open>encoding.rs\<close>.

  \<open>WitnessRecord\<close> and \<open>ParsedRecord\<close> have the same fields (the summaries of the first are
  newtypes over the digests of the second), so one record type models both, as the macro
  \<open>semantic_fields\<close> treats them alike.  A fixed array \<open>[u8; N]\<close> is a byte list; the predicate
  \<open>wf_record\<close> states the lengths that the Rust types fix.

  The lemmas show that the format is a bijection between well-formed valid records and the
  accepted byte strings: decoding inverts encoding and every accepted byte string is the
  encoding of what it decodes to.
\<close>

unbundle bit_operations_syntax

section \<open>Closed vocabularies\<close>

datatype invocation =
    Inv_Cli | Inv_DockerUnix | Inv_Compose | Inv_Cri | Inv_Manager | Inv_InternalCleanup

datatype witness_action =
    ContainerCreate | ContainerRun | ContainerExec | ContainerPause | ContainerResume
  | ContainerStop | ContainerKill | ContainerRestart | ContainerDelete | ImagePull
  | ImageDelete | VolumeCreate | VolumeDelete | VolumeMount | VolumeUnmount
  | NetworkCreate | NetworkDelete | NetworkAttach | NetworkDetach | DeviceUse
  | PolicyReload | PolicyRollback | CheckpointPublish | ImageBuild | ImageTag
  | ImageReferenceWrite | CheckpointRecover | KeyRotate | RootlessMapping
  | ContainerRename | ContainerStart | ContainerArchiveWrite | ContainerUpdate
  | VolumeBackup | VolumeRestore

datatype witness_resource_kind =
    RK_Container | RK_Image | RK_Volume | RK_Network | RK_Device | RK_Policy
  | RK_Administrative | RK_RootlessMapping

datatype witness_stage =
    St_RequestReceived | St_Decision | St_Denied | St_Outcome | St_Recovery
  | St_CheckpointPublished

datatype witness_outcome =
    Out_None | Out_Denied | Out_Succeeded | Out_Failed | Out_OutcomeUnknown | Out_Recovered
  | Out_Quarantined

datatype disclosure_class =
    DC_RuntimeManaged | DC_ReadOnlyHost | DC_Ephemeral | DC_BlockDevice | DC_CharacterDevice
  | DC_Accelerator

datatype reason_code =
    Rsn_PolicyDenied | Rsn_ExecutionFailed | Rsn_RecoveryCompleted | Rsn_Quarantined
  | Rsn_EmergencyOverride

primrec invocation_u8 :: "invocation \<Rightarrow> byte" where
  "invocation_u8 Inv_Cli = 1"
| "invocation_u8 Inv_DockerUnix = 2"
| "invocation_u8 Inv_Compose = 3"
| "invocation_u8 Inv_Cri = 4"
| "invocation_u8 Inv_Manager = 5"
| "invocation_u8 Inv_InternalCleanup = 6"

definition invocation_of :: "byte \<Rightarrow> witness_error + invocation" where
  "invocation_of v =
     (if v = 1 then Inr Inv_Cli
     else if v = 2 then Inr Inv_DockerUnix
     else if v = 3 then Inr Inv_Compose
     else if v = 4 then Inr Inv_Cri
     else if v = 5 then Inr Inv_Manager
     else if v = 6 then Inr Inv_InternalCleanup
      else Inl (UnknownDiscriminant ''invocation''))"

primrec action_u8 :: "witness_action \<Rightarrow> byte" where
  "action_u8 ContainerCreate = 1"
| "action_u8 ContainerRun = 2"
| "action_u8 ContainerExec = 3"
| "action_u8 ContainerPause = 4"
| "action_u8 ContainerResume = 5"
| "action_u8 ContainerStop = 6"
| "action_u8 ContainerKill = 7"
| "action_u8 ContainerRestart = 8"
| "action_u8 ContainerDelete = 9"
| "action_u8 ImagePull = 10"
| "action_u8 ImageDelete = 11"
| "action_u8 VolumeCreate = 12"
| "action_u8 VolumeDelete = 13"
| "action_u8 VolumeMount = 14"
| "action_u8 VolumeUnmount = 15"
| "action_u8 NetworkCreate = 16"
| "action_u8 NetworkDelete = 17"
| "action_u8 NetworkAttach = 18"
| "action_u8 NetworkDetach = 19"
| "action_u8 DeviceUse = 20"
| "action_u8 PolicyReload = 21"
| "action_u8 PolicyRollback = 22"
| "action_u8 CheckpointPublish = 23"
| "action_u8 ImageBuild = 24"
| "action_u8 ImageTag = 25"
| "action_u8 ImageReferenceWrite = 26"
| "action_u8 CheckpointRecover = 27"
| "action_u8 KeyRotate = 28"
| "action_u8 RootlessMapping = 29"
| "action_u8 ContainerRename = 30"
| "action_u8 ContainerStart = 31"
| "action_u8 ContainerArchiveWrite = 32"
| "action_u8 ContainerUpdate = 33"
| "action_u8 VolumeBackup = 34"
| "action_u8 VolumeRestore = 35"

definition action_of :: "byte \<Rightarrow> witness_error + witness_action" where
  "action_of v =
     (if v = 1 then Inr ContainerCreate
     else if v = 2 then Inr ContainerRun
     else if v = 3 then Inr ContainerExec
     else if v = 4 then Inr ContainerPause
     else if v = 5 then Inr ContainerResume
     else if v = 6 then Inr ContainerStop
     else if v = 7 then Inr ContainerKill
     else if v = 8 then Inr ContainerRestart
     else if v = 9 then Inr ContainerDelete
     else if v = 10 then Inr ImagePull
     else if v = 11 then Inr ImageDelete
     else if v = 12 then Inr VolumeCreate
     else if v = 13 then Inr VolumeDelete
     else if v = 14 then Inr VolumeMount
     else if v = 15 then Inr VolumeUnmount
     else if v = 16 then Inr NetworkCreate
     else if v = 17 then Inr NetworkDelete
     else if v = 18 then Inr NetworkAttach
     else if v = 19 then Inr NetworkDetach
     else if v = 20 then Inr DeviceUse
     else if v = 21 then Inr PolicyReload
     else if v = 22 then Inr PolicyRollback
     else if v = 23 then Inr CheckpointPublish
     else if v = 24 then Inr ImageBuild
     else if v = 25 then Inr ImageTag
     else if v = 26 then Inr ImageReferenceWrite
     else if v = 27 then Inr CheckpointRecover
     else if v = 28 then Inr KeyRotate
     else if v = 29 then Inr RootlessMapping
     else if v = 30 then Inr ContainerRename
     else if v = 31 then Inr ContainerStart
     else if v = 32 then Inr ContainerArchiveWrite
     else if v = 33 then Inr ContainerUpdate
     else if v = 34 then Inr VolumeBackup
     else if v = 35 then Inr VolumeRestore
      else Inl (UnknownDiscriminant ''action''))"

primrec resource_kind_u8 :: "witness_resource_kind \<Rightarrow> byte" where
  "resource_kind_u8 RK_Container = 1"
| "resource_kind_u8 RK_Image = 2"
| "resource_kind_u8 RK_Volume = 3"
| "resource_kind_u8 RK_Network = 4"
| "resource_kind_u8 RK_Device = 5"
| "resource_kind_u8 RK_Policy = 6"
| "resource_kind_u8 RK_Administrative = 7"
| "resource_kind_u8 RK_RootlessMapping = 8"

definition resource_kind_of :: "byte \<Rightarrow> witness_error + witness_resource_kind" where
  "resource_kind_of v =
     (if v = 1 then Inr RK_Container
     else if v = 2 then Inr RK_Image
     else if v = 3 then Inr RK_Volume
     else if v = 4 then Inr RK_Network
     else if v = 5 then Inr RK_Device
     else if v = 6 then Inr RK_Policy
     else if v = 7 then Inr RK_Administrative
     else if v = 8 then Inr RK_RootlessMapping
      else Inl (UnknownDiscriminant ''resource kind''))"

primrec stage_u8 :: "witness_stage \<Rightarrow> byte" where
  "stage_u8 St_RequestReceived = 1"
| "stage_u8 St_Decision = 2"
| "stage_u8 St_Denied = 3"
| "stage_u8 St_Outcome = 4"
| "stage_u8 St_Recovery = 5"
| "stage_u8 St_CheckpointPublished = 6"

definition stage_of :: "byte \<Rightarrow> witness_error + witness_stage" where
  "stage_of v =
     (if v = 1 then Inr St_RequestReceived
     else if v = 2 then Inr St_Decision
     else if v = 3 then Inr St_Denied
     else if v = 4 then Inr St_Outcome
     else if v = 5 then Inr St_Recovery
     else if v = 6 then Inr St_CheckpointPublished
      else Inl (UnknownDiscriminant ''stage''))"

primrec outcome_u8 :: "witness_outcome \<Rightarrow> byte" where
  "outcome_u8 Out_None = 0"
| "outcome_u8 Out_Denied = 1"
| "outcome_u8 Out_Succeeded = 2"
| "outcome_u8 Out_Failed = 3"
| "outcome_u8 Out_OutcomeUnknown = 4"
| "outcome_u8 Out_Recovered = 5"
| "outcome_u8 Out_Quarantined = 6"

definition outcome_of :: "byte \<Rightarrow> witness_error + witness_outcome" where
  "outcome_of v =
     (if v = 0 then Inr Out_None
     else if v = 1 then Inr Out_Denied
     else if v = 2 then Inr Out_Succeeded
     else if v = 3 then Inr Out_Failed
     else if v = 4 then Inr Out_OutcomeUnknown
     else if v = 5 then Inr Out_Recovered
     else if v = 6 then Inr Out_Quarantined
      else Inl (UnknownDiscriminant ''outcome''))"

primrec disclosure_u8 :: "disclosure_class \<Rightarrow> byte" where
  "disclosure_u8 DC_RuntimeManaged = 1"
| "disclosure_u8 DC_ReadOnlyHost = 2"
| "disclosure_u8 DC_Ephemeral = 3"
| "disclosure_u8 DC_BlockDevice = 4"
| "disclosure_u8 DC_CharacterDevice = 5"
| "disclosure_u8 DC_Accelerator = 6"

definition disclosure_of :: "byte \<Rightarrow> witness_error + disclosure_class" where
  "disclosure_of v =
     (if v = 1 then Inr DC_RuntimeManaged
     else if v = 2 then Inr DC_ReadOnlyHost
     else if v = 3 then Inr DC_Ephemeral
     else if v = 4 then Inr DC_BlockDevice
     else if v = 5 then Inr DC_CharacterDevice
     else if v = 6 then Inr DC_Accelerator
      else Inl (UnknownDiscriminant ''disclosure class''))"

primrec reason_u8 :: "reason_code \<Rightarrow> byte" where
  "reason_u8 Rsn_PolicyDenied = 1"
| "reason_u8 Rsn_ExecutionFailed = 2"
| "reason_u8 Rsn_RecoveryCompleted = 3"
| "reason_u8 Rsn_Quarantined = 4"
| "reason_u8 Rsn_EmergencyOverride = 5"

definition reason_of :: "byte \<Rightarrow> witness_error + reason_code" where
  "reason_of v =
     (if v = 1 then Inr Rsn_PolicyDenied
     else if v = 2 then Inr Rsn_ExecutionFailed
     else if v = 3 then Inr Rsn_RecoveryCompleted
     else if v = 4 then Inr Rsn_Quarantined
     else if v = 5 then Inr Rsn_EmergencyOverride
      else Inl (UnknownDiscriminant ''reason''))"

interpretation invocation: discriminant invocation_u8 invocation_of
proof
  fix x show "invocation_of (invocation_u8 x) = Inr x" by (cases x) (simp_all add: invocation_of_def)
qed (auto simp: invocation_of_def split: if_splits)

interpretation action: discriminant action_u8 action_of
proof
  fix x show "action_of (action_u8 x) = Inr x" by (cases x) (simp_all add: action_of_def)
qed (auto simp: action_of_def split: if_splits)

interpretation resource_kind: discriminant resource_kind_u8 resource_kind_of
proof
  fix x show "resource_kind_of (resource_kind_u8 x) = Inr x" by (cases x) (simp_all add: resource_kind_of_def)
qed (auto simp: resource_kind_of_def split: if_splits)

interpretation stage: discriminant stage_u8 stage_of
proof
  fix x show "stage_of (stage_u8 x) = Inr x" by (cases x) (simp_all add: stage_of_def)
qed (auto simp: stage_of_def split: if_splits)

interpretation outcome: discriminant outcome_u8 outcome_of
proof
  fix x show "outcome_of (outcome_u8 x) = Inr x" by (cases x) (simp_all add: outcome_of_def)
qed (auto simp: outcome_of_def split: if_splits)

interpretation disclosure: discriminant disclosure_u8 disclosure_of
proof
  fix x show "disclosure_of (disclosure_u8 x) = Inr x" by (cases x) (simp_all add: disclosure_of_def)
qed (auto simp: disclosure_of_def split: if_splits)

interpretation reason: discriminant reason_u8 reason_of
proof
  fix x show "reason_of (reason_u8 x) = Inr x" by (cases x) (simp_all add: reason_of_def)
qed (auto simp: reason_of_def split: if_splits)

section \<open>Records\<close>

record witness_record =
  wr_epoch :: u64
  wr_sequence :: u64
  wr_previous_hash :: bytes
  wr_event_id :: bytes
  wr_request_id :: bytes
  wr_runtime_instance_id :: bytes
  wr_boot_id :: bytes
  wr_principal :: bytes
  wr_invocation :: invocation
  wr_action :: witness_action
  wr_resource_kind :: witness_resource_kind
  wr_resource :: bytes
  wr_resource_generation :: u64
  wr_policy_version :: u64
  wr_policy_digest :: bytes
  wr_decision_id :: "bytes option"
  wr_rule :: "bytes option"
  wr_decision :: "bool option"
  wr_reason :: "reason_code option"
  wr_request_digest :: bytes
  wr_result_digest :: "bytes option"
  wr_wall_time_ns :: u64
  wr_monotonic_ns :: u64
  wr_stage :: witness_stage
  wr_outcome :: witness_outcome
  wr_recovery_link :: "bytes option"
  wr_path_class :: "disclosure_class option"
  wr_device_class :: "disclosure_class option"
  wr_correlation_digest :: "bytes option"

abbreviation opt_len :: "nat \<Rightarrow> bytes option \<Rightarrow> bool" where
  "opt_len n v \<equiv> (\<forall>b. v = Some b \<longrightarrow> length b = n)"

definition wf_record :: "witness_record \<Rightarrow> bool" where
  "wf_record r \<longleftrightarrow>
     length (wr_previous_hash r) = 32 \<and> length (wr_event_id r) = 16 \<and> length (wr_request_id r) = 16
     \<and> length (wr_runtime_instance_id r) = 16 \<and> length (wr_boot_id r) = 16
     \<and> length (wr_principal r) = 32 \<and> length (wr_resource r) = 32
     \<and> length (wr_policy_digest r) = 32 \<and> opt_len 16 (wr_decision_id r) \<and> opt_len 16 (wr_rule r)
     \<and> length (wr_request_digest r) = 32 \<and> opt_len 32 (wr_result_digest r)
     \<and> opt_len 16 (wr_recovery_link r) \<and> opt_len 32 (wr_correlation_digest r)"

record record_bytes =
  rb_journal_id :: bytes
  rb_bytes :: bytes

record decoded_record =
  dr_journal_id :: bytes
  dr_record :: witness_record
  dr_bytes :: record_bytes

section \<open>The semantic schema\<close>

definition valid_stage :: "witness_record \<Rightarrow> bool" where
  "valid_stage r =
     (case wr_stage r of
        St_RequestReceived \<Rightarrow>
          wr_decision_id r = None \<and> wr_rule r = None \<and> wr_decision r = None \<and> wr_reason r = None
          \<and> wr_result_digest r = None \<and> wr_recovery_link r = None \<and> wr_outcome r = Out_None
      | St_Decision \<Rightarrow>
          wr_decision_id r \<noteq> None \<and> wr_rule r \<noteq> None \<and> wr_result_digest r = None
          \<and> wr_recovery_link r = None \<and> wr_outcome r = Out_None
          \<and> (case wr_decision r of
               Some True \<Rightarrow> wr_reason r = None \<or> wr_reason r = Some Rsn_EmergencyOverride
             | Some False \<Rightarrow> wr_reason r = Some Rsn_PolicyDenied
             | None \<Rightarrow> False)
      | St_Denied \<Rightarrow>
          wr_decision_id r \<noteq> None \<and> wr_rule r = None \<and> wr_decision r = None
          \<and> wr_reason r = Some Rsn_PolicyDenied \<and> wr_result_digest r = None
          \<and> wr_recovery_link r = None \<and> wr_outcome r = Out_Denied
      | St_Outcome \<Rightarrow>
          wr_decision_id r \<noteq> None \<and> wr_rule r = None \<and> wr_decision r = None
          \<and> wr_result_digest r \<noteq> None \<and> wr_recovery_link r = None
          \<and> (case wr_outcome r of
               Out_Succeeded \<Rightarrow> wr_reason r = None
             | Out_Failed \<Rightarrow> wr_reason r = Some Rsn_ExecutionFailed
             | Out_OutcomeUnknown \<Rightarrow> wr_reason r = Some Rsn_ExecutionFailed
             | _ \<Rightarrow> False)
      | St_Recovery \<Rightarrow>
          wr_decision_id r \<noteq> None \<and> wr_rule r = None \<and> wr_decision r = None
          \<and> wr_result_digest r \<noteq> None \<and> wr_recovery_link r \<noteq> None
          \<and> (case wr_outcome r of
               Out_Recovered \<Rightarrow> wr_reason r = Some Rsn_RecoveryCompleted
             | Out_Quarantined \<Rightarrow> wr_reason r = Some Rsn_Quarantined
             | _ \<Rightarrow> False)
      | St_CheckpointPublished \<Rightarrow>
          wr_action r = CheckpointPublish \<and> wr_outcome r = Out_Succeeded
          \<and> wr_result_digest r \<noteq> None \<and> wr_decision_id r = None \<and> wr_rule r = None
          \<and> wr_decision r = None \<and> wr_reason r = None \<and> wr_recovery_link r = None)"

definition validate_record :: "witness_record \<Rightarrow> witness_error + unit" where
  "validate_record r = (if valid_stage r then Inr () else Inl InvalidLifecycle)"

section \<open>The binary format\<close>

definition FORMAT_VERSION :: byte where "FORMAT_VERSION = 2"
definition HASH_ALGORITHM_SHA256 :: byte where "HASH_ALGORITHM_SHA256 = 1"
definition HASH_DOMAIN :: bytes where "HASH_DOMAIN = bstr ''FERROCRATE-WITNESS-V2''"
definition PSEUDONYM_DOMAIN :: bytes where "PSEUDONYM_DOMAIN = bstr ''FERROCRATE-PSEUDONYM-V1''"
definition MAX_RECORD_BYTES :: nat where "MAX_RECORD_BYTES = 8 * 1024"

definition record_body :: "witness_record \<Rightarrow> bytes" where
  "record_body r =
     u64_to_be (wr_epoch r) @ u64_to_be (wr_sequence r) @ wr_previous_hash r
     @ wr_event_id r @ wr_request_id r @ wr_runtime_instance_id r @ wr_boot_id r
     @ wr_principal r
     @ [invocation_u8 (wr_invocation r)] @ [action_u8 (wr_action r)]
     @ [resource_kind_u8 (wr_resource_kind r)]
     @ wr_resource r @ u64_to_be (wr_resource_generation r) @ u64_to_be (wr_policy_version r)
     @ wr_policy_digest r
     @ put_fixed_optional (wr_decision_id r) @ put_fixed_optional (wr_rule r)
     @ put_bool_optional (wr_decision r) @ put_enum_optional reason_u8 (wr_reason r)
     @ wr_request_digest r @ put_fixed_optional (wr_result_digest r)
     @ u64_to_be (wr_wall_time_ns r) @ u64_to_be (wr_monotonic_ns r)
     @ [stage_u8 (wr_stage r)] @ [outcome_u8 (wr_outcome r)]
     @ put_fixed_optional (wr_recovery_link r)
     @ put_enum_optional disclosure_u8 (wr_path_class r)
     @ put_enum_optional disclosure_u8 (wr_device_class r)
     @ put_fixed_optional (wr_correlation_digest r)"

definition record_fields :: "bytes \<Rightarrow> witness_record \<Rightarrow> bytes" where
  "record_fields journal_id r =
     [FORMAT_VERSION] @ [HASH_ALGORITHM_SHA256] @ journal_id @ record_body r"

definition encode_record :: "bytes \<Rightarrow> witness_record \<Rightarrow> witness_error + record_bytes" where
  "encode_record journal_id r =
     rbind (validate_record r) (\<lambda>_.
     let out = record_fields journal_id r in
     if length out > MAX_RECORD_BYTES then Inl (BoundExceeded ''record'')
     else Inr \<lparr>rb_journal_id = journal_id, rb_bytes = out\<rparr>)"

definition decode_fields :: "decoder \<Rightarrow> witness_record decoded" where
  "decode_fields d =
     rbind (decoder_u64 d) (\<lambda>(epoch, d).
     rbind (decoder_u64 d) (\<lambda>(sequence, d).
     rbind (decoder_fixed 32 d) (\<lambda>(previous_hash, d).
     rbind (decoder_fixed 16 d) (\<lambda>(event_id, d).
     rbind (decoder_fixed 16 d) (\<lambda>(request_id, d).
     rbind (decoder_fixed 16 d) (\<lambda>(runtime_instance_id, d).
     rbind (decoder_fixed 16 d) (\<lambda>(boot_id, d).
     rbind (decoder_fixed 32 d) (\<lambda>(principal_digest, d).
     rbind (decoder_enum invocation_of d) (\<lambda>(invocation, d).
     rbind (decoder_enum action_of d) (\<lambda>(action, d).
     rbind (decoder_enum resource_kind_of d) (\<lambda>(resource_kind, d).
     rbind (decoder_fixed 32 d) (\<lambda>(resource_digest, d).
     rbind (decoder_u64 d) (\<lambda>(resource_generation, d).
     rbind (decoder_u64 d) (\<lambda>(policy_version, d).
     rbind (decoder_fixed 32 d) (\<lambda>(policy_digest, d).
     rbind (decoder_fixed_optional 16 d) (\<lambda>(decision_id, d).
     rbind (decoder_fixed_optional 16 d) (\<lambda>(rule, d).
     rbind (decoder_bool_optional d) (\<lambda>(decision, d).
     rbind (decoder_enum_optional reason_of d) (\<lambda>(reason, d).
     rbind (decoder_fixed 32 d) (\<lambda>(request_digest, d).
     rbind (decoder_fixed_optional 32 d) (\<lambda>(result_digest, d).
     rbind (decoder_i64 d) (\<lambda>(wall_time_ns, d).
     rbind (decoder_u64 d) (\<lambda>(monotonic_ns, d).
     rbind (decoder_enum stage_of d) (\<lambda>(stage, d).
     rbind (decoder_enum outcome_of d) (\<lambda>(outcome, d).
     rbind (decoder_fixed_optional 16 d) (\<lambda>(recovery_link, d).
     rbind (decoder_enum_optional disclosure_of d) (\<lambda>(path_class, d).
     rbind (decoder_enum_optional disclosure_of d) (\<lambda>(device_class, d).
     rbind (decoder_fixed_optional 32 d) (\<lambda>(correlation_digest, d).
     Inr (\<lparr>wr_epoch = epoch, wr_sequence = sequence, wr_previous_hash = previous_hash,
           wr_event_id = event_id, wr_request_id = request_id,
           wr_runtime_instance_id = runtime_instance_id, wr_boot_id = boot_id,
           wr_principal = principal_digest, wr_invocation = invocation, wr_action = action,
           wr_resource_kind = resource_kind, wr_resource = resource_digest,
           wr_resource_generation = resource_generation, wr_policy_version = policy_version,
           wr_policy_digest = policy_digest, wr_decision_id = decision_id, wr_rule = rule,
           wr_decision = decision, wr_reason = reason, wr_request_digest = request_digest,
           wr_result_digest = result_digest, wr_wall_time_ns = wall_time_ns,
           wr_monotonic_ns = monotonic_ns, wr_stage = stage, wr_outcome = outcome,
           wr_recovery_link = recovery_link, wr_path_class = path_class,
           wr_device_class = device_class, wr_correlation_digest = correlation_digest\<rparr>, d))))))))))))))))))))))))))))))"

definition decode_record :: "bytes \<Rightarrow> witness_error + decoded_record" where
  "decode_record bytes =
     (if length bytes > MAX_RECORD_BYTES then Inl (BoundExceeded ''record'')
      else
        rbind (decoder_u8 (decoder_new bytes)) (\<lambda>(format, d).
        if format \<noteq> FORMAT_VERSION then Inl (UnknownDiscriminant ''format'')
        else rbind (decoder_u8 d) (\<lambda>(algorithm, d).
        if algorithm \<noteq> HASH_ALGORITHM_SHA256 then Inl (UnknownDiscriminant ''hash algorithm'')
        else rbind (decoder_fixed 16 d) (\<lambda>(journal_id, d).
        rbind (decode_fields d) (\<lambda>(r, d).
        if \<not> decoder_finished d then Inl NonCanonicalEncoding
        else rbind (validate_record r) (\<lambda>_.
        Inr \<lparr>dr_journal_id = journal_id, dr_record = r,
             dr_bytes = \<lparr>rb_journal_id = journal_id, rb_bytes = bytes\<rparr>\<rparr>))))))"

definition hash_input :: "record_bytes \<Rightarrow> bytes" where
  "hash_input rb = HASH_DOMAIN @ [FORMAT_VERSION] @ rb_journal_id rb
     @ u64_to_be (of_nat (length (rb_bytes rb))) @ rb_bytes rb"

definition hash_record :: "(bytes \<Rightarrow> bytes) \<Rightarrow> record_bytes \<Rightarrow> bytes" where
  "hash_record sha rb = sha (hash_input rb)"

section \<open>Pseudonyms\<close>

definition hmac_block :: "(bytes \<Rightarrow> bytes) \<Rightarrow> bytes \<Rightarrow> bytes" where
  "hmac_block sha key =
     (let k = (if length key > 64 then sha key else key) in k @ replicate (64 - length k) 0)"

definition pseudonymize :: "(bytes \<Rightarrow> bytes) \<Rightarrow> bytes \<Rightarrow> bytes \<Rightarrow> bytes \<Rightarrow> witness_error + bytes" where
  "pseudonymize sha purpose key v =
     (if purpose = [] \<or> length purpose > 128 \<or> length key < 32 then Inl InvalidPurpose
      else
        let block = hmac_block sha key;
            inner_pad = map (\<lambda>b. b XOR 0x36) block;
            outer_pad = map (\<lambda>b. b XOR 0x5c) block;
            inner_hash = sha (inner_pad @ PSEUDONYM_DOMAIN
              @ u16_to_be (of_nat (length purpose)) @ purpose @ v)
        in Inr (sha (outer_pad @ inner_hash)))"

section \<open>Decoding inverts encoding\<close>

lemmas field_decoders =
  u8.dec_enc [simplified] u64.dec_enc i64.dec_enc fixed.dec_enc fixed_optional.dec_enc
  fixed_optional.dec_enc_end bool_optional.dec_enc
  invocation.enum.dec_enc [simplified] action.enum.dec_enc [simplified]
  resource_kind.enum.dec_enc [simplified] stage.enum.dec_enc [simplified]
  outcome.enum.dec_enc [simplified] reason.enum_optional.dec_enc disclosure.enum_optional.dec_enc

lemmas field_inversions =
  u64.read_elim i64.read_elim fixed.read_elim fixed_optional.read_elim bool_optional.read_elim
  invocation.enum.read_elim action.enum.read_elim resource_kind.enum.read_elim stage.enum.read_elim
  outcome.enum.read_elim reason.enum_optional.read_elim disclosure.enum_optional.read_elim

lemma decode_fields_body:
  assumes "wf_record r"
  shows "decode_fields (cursor pre (record_body r @ rest)) = Inr (r, cursor (pre @ record_body r) rest)"
  using assms by (simp add: decode_fields_def record_body_def field_decoders wf_record_def)

lemma decode_fields_sound:
  assumes "decode_fields (cursor pre bs) = Inr (r, d)"
  shows "wf_record r \<and> (\<exists>rest. bs = record_body r @ rest \<and> d = cursor (pre @ record_body r) rest)"
  using assms unfolding decode_fields_def
  by (elim field_inversions) (clarsimp simp: record_body_def wf_record_def)

interpretation fields: codec wf_record record_body decode_fields
  by unfold_locales (simp_all add: decode_fields_body decode_fields_sound)

lemma length_put_optional:
  "opt_len n v \<Longrightarrow> length (put_fixed_optional v) \<le> Suc n"
  "length (put_bool_optional b) = 1"
  "length (put_enum_optional f e) \<le> 2"
  by (cases v; cases e; simp add: put_fixed_optional_def put_bool_optional_def put_enum_optional_def)+

lemma length_record_fields:
  assumes "wf_record r" "length journal_id = 16"
  shows "length (record_fields journal_id r) \<le> 512"
proof -
  have "length (put_fixed_optional (wr_decision_id r)) \<le> 17" "length (put_fixed_optional (wr_rule r)) \<le> 17"
    "length (put_fixed_optional (wr_result_digest r)) \<le> 33"
    "length (put_fixed_optional (wr_recovery_link r)) \<le> 17"
    "length (put_fixed_optional (wr_correlation_digest r)) \<le> 33"
    using assms(1) length_put_optional(1) [where n = 16 and v = "wr_decision_id r"] length_put_optional(1) [where n = 16 and v = "wr_rule r"]
      length_put_optional(1) [where n = 32 and v = "wr_result_digest r"] length_put_optional(1) [where n = 16 and v = "wr_recovery_link r"]
      length_put_optional(1) [where n = 32 and v = "wr_correlation_digest r"]
    by (simp_all add: wf_record_def)
  moreover note length_put_optional(3) [where f = reason_u8 and e = "wr_reason r"]
    length_put_optional(3) [where f = disclosure_u8 and e = "wr_path_class r"]
    length_put_optional(3) [where f = disclosure_u8 and e = "wr_device_class r"]
  ultimately show ?thesis
    using assms by (simp add: record_fields_def record_body_def wf_record_def length_put_optional(2))
qed

lemma validate_record_ok [simp]: "validate_record r = Inr u \<longleftrightarrow> valid_stage r"
  by (auto simp: validate_record_def)

lemma encode_record_ok:
  assumes "wf_record r" "length journal_id = 16" "valid_stage r"
  shows "encode_record journal_id r = Inr \<lparr>rb_journal_id = journal_id, rb_bytes = record_fields journal_id r\<rparr>"
  using assms length_record_fields [OF assms(1,2)]
  by (simp add: encode_record_def MAX_RECORD_BYTES_def validate_record_def)

lemma encode_record_Inr:
  "encode_record journal_id r = Inr rb \<Longrightarrow>
     valid_stage r \<and> rb = \<lparr>rb_journal_id = journal_id, rb_bytes = record_fields journal_id r\<rparr>
     \<and> length (rb_bytes rb) \<le> MAX_RECORD_BYTES"
  by (auto simp: encode_record_def rbind_simps Let_def split: if_splits)

lemma decode_record_fields:
  assumes "wf_record r" "length journal_id = 16" "valid_stage r"
  shows "decode_record (record_fields journal_id r) =
    Inr \<lparr>dr_journal_id = journal_id, dr_record = r,
      dr_bytes = \<lparr>rb_journal_id = journal_id, rb_bytes = record_fields journal_id r\<rparr>\<rparr>"
proof -
  have "\<not> MAX_RECORD_BYTES < length (record_fields journal_id r)"
    using length_record_fields [OF assms(1,2)] by (simp add: MAX_RECORD_BYTES_def)
  with assms show ?thesis
    by (simp add: decode_record_def decoder_new_cursor record_fields_def codec_simps fixed.dec_enc
        fields.dec_enc_end validate_record_def)
qed

lemma decode_record_sound:
  assumes "decode_record bs = Inr d"
  shows "wf_record (dr_record d) \<and> length (dr_journal_id d) = 16 \<and> valid_stage (dr_record d)
    \<and> bs = record_fields (dr_journal_id d) (dr_record d)
    \<and> dr_bytes d = \<lparr>rb_journal_id = dr_journal_id d, rb_bytes = bs\<rparr>"
proof -
  from assms obtain d1 d2 jid d3 r d4 where
    run: "decoder_u8 (cursor [] bs) = Inr (FORMAT_VERSION, d1)"
      "decoder_u8 d1 = Inr (HASH_ALGORITHM_SHA256, d2)"
      "decoder_fixed 16 d2 = Inr (jid, d3)" "decode_fields d3 = Inr (r, d4)" "decoder_finished d4"
      "valid_stage r"
    and d: "d = \<lparr>dr_journal_id = jid, dr_record = r,
      dr_bytes = \<lparr>rb_journal_id = jid, rb_bytes = bs\<rparr>\<rparr>"
    by (auto simp: decode_record_def decoder_new_cursor rbind_simps split: if_splits)
  from run(1) obtain b1 where 1: "bs = FORMAT_VERSION # b1" "d1 = cursor [FORMAT_VERSION] b1"
    by (auto dest!: decoder_u8_inv)
  from run(2) 1 obtain b2 where 2: "b1 = HASH_ALGORITHM_SHA256 # b2"
      "d2 = cursor [FORMAT_VERSION, HASH_ALGORITHM_SHA256] b2"
    by (auto dest!: decoder_u8_inv)
  from fixed.dec_sound [OF run(3) [unfolded 2]] obtain b3 where
    3: "length jid = 16" "b2 = jid @ b3" "d3 = cursor ([FORMAT_VERSION, HASH_ALGORITHM_SHA256] @ jid) b3"
    by auto
  from fields.dec_sound [OF run(4) [unfolded 3(3)]] run(5) have "wf_record r" "b3 = record_body r"
    by auto
  with 1 2 3 run(6) d show ?thesis by (simp add: record_fields_def)
qed

lemma record_fields_inject:
  assumes "wf_record r" "wf_record r'" "length j = 16" "length j' = 16"
    and "record_fields j r = record_fields j' r'"
  shows "j = j' \<and> r = r'"
  using assms fields.enc_inject [of r r'] by (simp add: record_fields_def)

lemma hash_input_inject:
  assumes "length (rb_journal_id a) = 16" "length (rb_journal_id b) = 16"
    and "hash_input a = hash_input b"
  shows "a = b"
  using assms by (simp add: hash_input_def)

lemma decode_hash_input:
  "decode_record bs = Inr d \<Longrightarrow> length (rb_journal_id (dr_bytes d)) = 16 \<and> rb_bytes (dr_bytes d) = bs"
  using decode_record_sound [of bs d] by simp

section \<open>Properties\<close>

definition example_record :: witness_record where
  "example_record = \<lparr>wr_epoch = 1, wr_sequence = 1, wr_previous_hash = replicate 32 0,
     wr_event_id = replicate 16 1, wr_request_id = replicate 16 2,
     wr_runtime_instance_id = replicate 16 3, wr_boot_id = replicate 16 4,
     wr_principal = replicate 32 5, wr_invocation = Inv_Cli, wr_action = ContainerRun,
     wr_resource_kind = RK_Container, wr_resource = replicate 32 6, wr_resource_generation = 1,
     wr_policy_version = 1, wr_policy_digest = replicate 32 7, wr_decision_id = None,
     wr_rule = None, wr_decision = None, wr_reason = None, wr_request_digest = replicate 32 8,
     wr_result_digest = None, wr_wall_time_ns = 9, wr_monotonic_ns = 10,
     wr_stage = St_RequestReceived, wr_outcome = Out_None, wr_recovery_link = None,
     wr_path_class = None, wr_device_class = Some DC_Accelerator, wr_correlation_digest = None\<rparr>"

lemma example_record_wf: "wf_record example_record" "valid_stage example_record"
  by (simp_all add: example_record_def wf_record_def valid_stage_def)

text \<open>C34.
  Encoding a record that satisfies the semantic schema always succeeds, within a sixteenth of the
  size bound, and decoding the bytes gives back the journal identity and the record.\<close>

theorem record_roundtrip:
  assumes "wf_record r" and "length journal_id = 16" and "validate_record r = Inr ()"
  shows "\<exists>rb. encode_record journal_id r = Inr rb \<and> length (rb_bytes rb) \<le> 512
    \<and> decode_record (rb_bytes rb) = Inr \<lparr>dr_journal_id = journal_id, dr_record = r, dr_bytes = rb\<rparr>"
  using assms encode_record_ok [of r journal_id] decode_record_fields [of r journal_id]
    length_record_fields [of r journal_id]
  by simp

theorem record_roundtrip_witness:
  "\<exists>rb. encode_record (replicate 16 9) example_record = Inr rb \<and> length (rb_bytes rb) \<le> 512
    \<and> decode_record (rb_bytes rb)
        = Inr \<lparr>dr_journal_id = replicate 16 9, dr_record = example_record, dr_bytes = rb\<rparr>"
  by (rule record_roundtrip) (simp_all add: example_record_wf)

text \<open>
  The format is canonical: a byte string that \<open>decode_record\<close> accepts satisfies the schema and
  is exactly what \<open>encode_record\<close> produces for the decoded journal identity and record, so no
  record has two encodings and no byte string is accepted with trailing or altered bytes.\<close>

theorem decode_record_canonical:
  assumes "decode_record bs = Inr d"
  shows "wf_record (dr_record d) \<and> validate_record (dr_record d) = Inr ()
    \<and> encode_record (dr_journal_id d) (dr_record d) = Inr (dr_bytes d) \<and> rb_bytes (dr_bytes d) = bs"
  using decode_record_sound [OF assms] encode_record_ok [of "dr_record d" "dr_journal_id d"]
  by simp

theorem decode_record_canonical_witness:
  "\<exists>d. decode_record (record_fields (replicate 16 9) example_record) = Inr d
    \<and> encode_record (dr_journal_id d) (dr_record d) = Inr (dr_bytes d)
    \<and> rb_bytes (dr_bytes d) = record_fields (replicate 16 9) example_record"
proof -
  obtain d where d: "decode_record (record_fields (replicate 16 9) example_record) = Inr d"
    using decode_record_fields [OF example_record_wf(1) _ example_record_wf(2), of "replicate 16 9"] by simp
  with decode_record_canonical [OF d] show ?thesis by auto
qed

text \<open>The record hash binds the journal identity and every byte of the record: two decoded
  records with the same hash are the same bytes of the same journal, unless the two hashed
  strings are a collision of SHA-256.\<close>

theorem record_hash_binds:
  assumes "decode_record bs = Inr d" and "decode_record bs' = Inr d'"
    and "hash_record sha (dr_bytes d) = hash_record sha (dr_bytes d')"
    and "inj_on sha {hash_input (dr_bytes d), hash_input (dr_bytes d')}"
  shows "bs = bs' \<and> d = d'"
proof -
  have "hash_input (dr_bytes d) = hash_input (dr_bytes d')"
    by (rule inj_onD [OF assms(4) assms(3) [unfolded hash_record_def]]) simp_all
  then have "dr_bytes d = dr_bytes d'"
    by (rule hash_input_inject [OF conjunct1 [OF decode_hash_input [OF assms(1)]]
        conjunct1 [OF decode_hash_input [OF assms(2)]]])
  moreover from this have "bs = bs'"
    using decode_hash_input [OF assms(1)] decode_hash_input [OF assms(2)] by simp
  ultimately show ?thesis using assms(1,2) by simp
qed

theorem record_hash_binds_witness:
  "\<exists>d. decode_record (record_fields (replicate 16 9) example_record) = Inr d
    \<and> hash_record (\<lambda>x. x) (dr_bytes d) = hash_record (\<lambda>x. x) (dr_bytes d) \<and> d = d"
proof -
  obtain d where d: "decode_record (record_fields (replicate 16 9) example_record) = Inr d"
    using decode_record_fields [OF example_record_wf(1) _ example_record_wf(2), of "replicate 16 9"] by simp
  with record_hash_binds [OF d d, of "\<lambda>x. x"] show ?thesis by auto
qed

end
