(* ===== verification/Witness_Verify.thy ===== *)
theory Witness_Verify
  imports Witness_Record "HOL-Library.AList" "HOL-Library.Multiset"
begin

text \<open>
  Model of the stream verifier of \<^verbatim>\<open>ferro-core/src/witness/verify.rs\<close>: the trust anchor, the
  per-request lifecycle machine and the incremental verifier.

  The hash map of open requests is an association list with distinct keys (its length is the
  \<open>len\<close> the code bounds), the hash sets are sets.  The error branches that follow a mutation
  discard the verifier in every caller, so a failing push returns only its error.

  The lemmas characterise acceptance completely: \<open>admissible\<close> says, without any verifier state,
  when a record may follow a prefix, and \<open>closed_history\<close> lists the complete histories of one
  request.  The verifier accepts a stream exactly when each record is admissible after its
  prefix and every request ends closed.
\<close>

section \<open>Trust anchor and report\<close>

definition MAX_OPEN_REQUESTS :: nat where "MAX_OPEN_REQUESTS = 4096"

record stream_trust =
  st_journal_id :: bytes
  st_epoch :: u64
  st_first_sequence :: u64
  st_predecessor_hash :: bytes
  st_max_records :: u64

definition stream_trust_new :: "bytes \<Rightarrow> u64 \<Rightarrow> u64 \<Rightarrow> bytes \<Rightarrow> stream_trust" where
  "stream_trust_new journal_id epoch first_sequence predecessor_hash =
     \<lparr>st_journal_id = journal_id, st_epoch = epoch, st_first_sequence = first_sequence,
      st_predecessor_hash = predecessor_hash, st_max_records = 1000000\<rparr>"

definition with_max_records :: "u64 \<Rightarrow> stream_trust \<Rightarrow> stream_trust" where
  "with_max_records n t = t\<lparr>st_max_records := n\<rparr>"

datatype freshness = Fresh_Current | Fresh_Stale | Fresh_UnknownTail

datatype checkpoint_age = Age_Current u64 | Age_Stale u64

record verification_report =
  vr_integrity :: bool
  vr_lifecycle_consistent :: bool
  vr_completeness :: "bool option"
  vr_tail_freshness :: freshness
  vr_checkpoint_age :: "checkpoint_age option"
  vr_records :: u64
  vr_terminal_denied :: u64
  vr_terminal_outcomes :: u64
  vr_terminal_recoveries :: u64
  vr_discontinuities :: u64

section \<open>The lifecycle machine\<close>

record request_binding =
  bd_runtime_instance_id :: bytes
  bd_boot_id :: bytes
  bd_principal :: bytes
  bd_invocation :: invocation
  bd_action :: witness_action
  bd_resource_kind :: witness_resource_kind
  bd_resource :: bytes
  bd_resource_generation :: u64
  bd_policy_version :: u64
  bd_policy_digest :: bytes
  bd_request_digest :: bytes
  bd_path_class :: "disclosure_class option"
  bd_device_class :: "disclosure_class option"
  bd_correlation_digest :: "bytes option"

definition request_binding_from :: "witness_record \<Rightarrow> request_binding" where
  "request_binding_from r =
     \<lparr>bd_runtime_instance_id = wr_runtime_instance_id r, bd_boot_id = wr_boot_id r,
      bd_principal = wr_principal r, bd_invocation = wr_invocation r, bd_action = wr_action r,
      bd_resource_kind = wr_resource_kind r, bd_resource = wr_resource r,
      bd_resource_generation = wr_resource_generation r, bd_policy_version = wr_policy_version r,
      bd_policy_digest = wr_policy_digest r, bd_request_digest = wr_request_digest r,
      bd_path_class = wr_path_class r, bd_device_class = wr_device_class r,
      bd_correlation_digest = wr_correlation_digest r\<rparr>"

datatype lifecycle =
    L_Received request_binding
  | L_Allowed request_binding bytes
  | L_DeniedDecision request_binding bytes
  | L_Unknown request_binding bytes bytes

definition same_binding :: "witness_record \<Rightarrow> request_binding \<Rightarrow> bool" where
  "same_binding r b \<longleftrightarrow> request_binding_from r = b"

type_synonym lifecycles = "(bytes \<times> lifecycle) list"

definition transition ::
  "witness_record \<Rightarrow> lifecycles \<times> bytes set \<times> verification_report
    \<Rightarrow> witness_error + (lifecycles \<times> bytes set \<times> verification_report)" where
  "transition r st = (case st of (states, request_ids, report) \<Rightarrow>
     let rid = wr_request_id r; removed = AList.delete rid states in
     (case wr_stage r of
        St_RequestReceived \<Rightarrow>
          if rid \<in> request_ids \<or> map_of states rid \<noteq> None then Inl InvalidLifecycle
          else Inr (AList.update rid (L_Received (request_binding_from r)) states,
                    insert rid request_ids, report)
      | St_Decision \<Rightarrow>
          (case map_of states rid of
             Some (L_Received b) \<Rightarrow>
               if same_binding r b then
                 rbind (ok_or InvalidLifecycle (wr_decision_id r)) (\<lambda>decision_id.
                 let next = (if wr_decision r = Some True then L_Allowed b decision_id
                             else L_DeniedDecision b decision_id) in
                 Inr (AList.update rid next removed, request_ids, report))
               else Inl InvalidLifecycle
           | _ \<Rightarrow> Inl InvalidLifecycle)
      | St_Denied \<Rightarrow>
          (case map_of states rid of
             Some (L_DeniedDecision b decision_id) \<Rightarrow>
               if same_binding r b \<and> wr_decision_id r = Some decision_id then
                 Inr (removed, request_ids,
                      report\<lparr>vr_terminal_denied := vr_terminal_denied report + 1\<rparr>)
               else Inl InvalidLifecycle
           | _ \<Rightarrow> Inl InvalidLifecycle)
      | St_Outcome \<Rightarrow>
          (case map_of states rid of
             Some (L_Allowed b decision_id) \<Rightarrow>
               if same_binding r b \<and> wr_decision_id r = Some decision_id then
                 (if wr_outcome r = Out_OutcomeUnknown then
                    Inr (AList.update rid (L_Unknown b decision_id (wr_event_id r)) removed,
                         request_ids, report)
                  else
                    Inr (removed, request_ids,
                         report\<lparr>vr_terminal_outcomes := vr_terminal_outcomes report + 1\<rparr>))
               else Inl InvalidLifecycle
           | _ \<Rightarrow> Inl InvalidLifecycle)
      | St_Recovery \<Rightarrow>
          (case map_of states rid of
             Some (L_Unknown b decision_id event_id) \<Rightarrow>
               if same_binding r b \<and> wr_decision_id r = Some decision_id
                  \<and> wr_recovery_link r = Some event_id then
                 Inr (removed, request_ids,
                      report\<lparr>vr_terminal_recoveries := vr_terminal_recoveries report + 1\<rparr>)
               else Inl InvalidLifecycle
           | _ \<Rightarrow> Inl InvalidLifecycle)
      | St_CheckpointPublished \<Rightarrow> Inr (states, request_ids, report)))"

section \<open>The incremental verifier\<close>

record stream_verifier =
  sv_trust :: stream_trust
  sv_expected_sequence :: u64
  sv_previous_hash :: bytes
  sv_lifecycles :: lifecycles
  sv_event_ids :: "bytes set"
  sv_request_ids :: "bytes set"
  sv_report :: verification_report

definition stream_verifier_new :: "stream_trust \<Rightarrow> stream_verifier" where
  "stream_verifier_new trust =
     \<lparr>sv_trust = trust, sv_expected_sequence = st_first_sequence trust,
      sv_previous_hash = st_predecessor_hash trust, sv_lifecycles = [], sv_event_ids = {},
      sv_request_ids = {},
      sv_report = \<lparr>vr_integrity = True, vr_lifecycle_consistent = True, vr_completeness = None,
        vr_tail_freshness = Fresh_UnknownTail, vr_checkpoint_age = None, vr_records = 0,
        vr_terminal_denied = 0, vr_terminal_outcomes = 0, vr_terminal_recoveries = 0,
        vr_discontinuities = 0\<rparr>\<rparr>"

definition verifier_advance_epoch :: "u64 \<Rightarrow> stream_verifier \<Rightarrow> witness_error + stream_verifier" where
  "verifier_advance_epoch epoch v =
     (if sv_lifecycles v \<noteq> [] then Inl WrongEpoch
      else rbind (ok_or WrongEpoch (checked_add (st_epoch (sv_trust v)) 1)) (\<lambda>next.
      if epoch \<noteq> next then Inl WrongEpoch
      else Inr (v\<lparr>sv_trust := (sv_trust v)\<lparr>st_epoch := epoch\<rparr>,
                  sv_report := (sv_report v)
                    \<lparr>vr_discontinuities := vr_discontinuities (sv_report v) + 1\<rparr>\<rparr>)))"

definition verifier_push ::
  "(bytes \<Rightarrow> bytes) \<Rightarrow> bytes \<Rightarrow> stream_verifier \<Rightarrow> witness_error + stream_verifier" where
  "verifier_push sha bytes v =
     (if st_max_records (sv_trust v) \<le> vr_records (sv_report v) then Inl TooManyRecords
      else rbind (decode_record bytes) (\<lambda>decoded.
      if dr_journal_id decoded \<noteq> st_journal_id (sv_trust v) then Inl WrongJournal
      else let r = dr_record decoded in
      if wr_epoch r \<noteq> st_epoch (sv_trust v) then Inl WrongEpoch
      else if wr_sequence r \<noteq> sv_expected_sequence v \<or> wr_event_id r \<in> sv_event_ids v
      then Inl SequenceGap
      else if wr_previous_hash r \<noteq> sv_previous_hash v then Inl BrokenLink
      else rbind (validate_record r) (\<lambda>_.
      rbind (transition r (sv_lifecycles v, sv_request_ids v, sv_report v))
        (\<lambda>(lifecycles, request_ids, report).
      if length lifecycles > MAX_OPEN_REQUESTS then Inl TooManyOpenRequests
      else rbind (ok_or SequenceGap (checked_add (sv_expected_sequence v) 1)) (\<lambda>next.
      Inr (v\<lparr>sv_expected_sequence := next,
             sv_previous_hash := hash_record sha (dr_bytes decoded),
             sv_lifecycles := lifecycles,
             sv_event_ids := insert (wr_event_id r) (sv_event_ids v),
             sv_request_ids := request_ids,
             sv_report := report\<lparr>vr_records := vr_records report + 1\<rparr>\<rparr>))))))"

definition verifier_finish :: "stream_verifier \<Rightarrow> witness_error + verification_report" where
  "verifier_finish v =
     (if sv_lifecycles v \<noteq> [] then Inl InvalidLifecycle else Inr (sv_report v))"

fun push_all ::
  "(bytes \<Rightarrow> bytes) \<Rightarrow> bytes list \<Rightarrow> stream_verifier \<Rightarrow> witness_error + stream_verifier" where
  "push_all sha [] v = Inr v"
| "push_all sha (b # bs) v = rbind (verifier_push sha b v) (push_all sha bs)"

definition verify_stream ::
  "(bytes \<Rightarrow> bytes) \<Rightarrow> bytes list \<Rightarrow> stream_trust \<Rightarrow> witness_error + verification_report" where
  "verify_stream sha records trust =
     rbind (push_all sha records (stream_verifier_new trust)) verifier_finish"

section \<open>Histories of one request\<close>

text \<open>The records of one request, in order; checkpoint records belong to no request.\<close>

definition request_history :: "bytes \<Rightarrow> witness_record list \<Rightarrow> witness_record list" where
  "request_history rid rs =
     filter (\<lambda>r. wr_request_id r = rid \<and> wr_stage r \<noteq> St_CheckpointPublished) rs"

text \<open>What a record may be, given the records of the same request before it: \<open>decides a b\<close>
  says that \<open>b\<close> is a decision on the request received in \<open>a\<close>, and so on.\<close>

definition opens :: "witness_record \<Rightarrow> bool" where
  "opens a \<longleftrightarrow> wr_stage a = St_RequestReceived"

definition decides :: "witness_record \<Rightarrow> witness_record \<Rightarrow> bool" where
  "decides a b \<longleftrightarrow> wr_stage b = St_Decision \<and> request_binding_from b = request_binding_from a
     \<and> wr_decision_id b \<noteq> None"

definition allows :: "witness_record \<Rightarrow> bool" where
  "allows b \<longleftrightarrow> wr_decision b = Some True"

definition follows :: "witness_record \<Rightarrow> witness_record \<Rightarrow> witness_record \<Rightarrow> bool" where
  "follows a b c \<longleftrightarrow> request_binding_from c = request_binding_from a
     \<and> wr_decision_id c = wr_decision_id b"

definition denies :: "witness_record \<Rightarrow> witness_record \<Rightarrow> witness_record \<Rightarrow> bool" where
  "denies a b c \<longleftrightarrow> \<not> allows b \<and> wr_stage c = St_Denied \<and> follows a b c"

definition concludes :: "witness_record \<Rightarrow> witness_record \<Rightarrow> witness_record \<Rightarrow> bool" where
  "concludes a b c \<longleftrightarrow> allows b \<and> wr_stage c = St_Outcome \<and> follows a b c
     \<and> wr_outcome c \<noteq> Out_OutcomeUnknown"

definition suspends :: "witness_record \<Rightarrow> witness_record \<Rightarrow> witness_record \<Rightarrow> bool" where
  "suspends a b c \<longleftrightarrow> allows b \<and> wr_stage c = St_Outcome \<and> follows a b c
     \<and> wr_outcome c = Out_OutcomeUnknown"

definition recovers ::
  "witness_record \<Rightarrow> witness_record \<Rightarrow> witness_record \<Rightarrow> witness_record \<Rightarrow> bool" where
  "recovers a b c d \<longleftrightarrow> wr_stage d = St_Recovery \<and> follows a b d
     \<and> wr_recovery_link d = Some (wr_event_id c)"

fun closed_history :: "witness_record list \<Rightarrow> bool" where
  "closed_history [a, b, c] \<longleftrightarrow> opens a \<and> decides a b \<and> (denies a b c \<or> concludes a b c)"
| "closed_history [a, b, c, d] \<longleftrightarrow> opens a \<and> decides a b \<and> suspends a b c \<and> recovers a b c d"
| "closed_history _ \<longleftrightarrow> False"

fun open_history :: "witness_record list \<Rightarrow> lifecycle option" where
  "open_history [a] = (if opens a then Some (L_Received (request_binding_from a)) else None)"
| "open_history [a, b] =
     (if opens a \<and> decides a b then
        Some ((if allows b then L_Allowed else L_DeniedDecision)
                (request_binding_from a) (the (wr_decision_id b)))
      else None)"
| "open_history [a, b, c] =
     (if opens a \<and> decides a b \<and> suspends a b c then
        Some (L_Unknown (request_binding_from a) (the (wr_decision_id b)) (wr_event_id c))
      else None)"
| "open_history _ = None"


text \<open>A history in progress is \<open>open_history\<close>, with the lifecycle the verifier keeps for it.\<close>

lemma open_history_inv:
  "open_history h = Some (L_Received bd) \<longleftrightarrow> (\<exists>a. h = [a] \<and> opens a \<and> bd = request_binding_from a)"
  "open_history h = Some (L_Allowed bd did) \<longleftrightarrow>
     (\<exists>a b. h = [a, b] \<and> opens a \<and> decides a b \<and> allows b \<and> bd = request_binding_from a
        \<and> wr_decision_id b = Some did)"
  "open_history h = Some (L_DeniedDecision bd did) \<longleftrightarrow>
     (\<exists>a b. h = [a, b] \<and> opens a \<and> decides a b \<and> \<not> allows b \<and> bd = request_binding_from a
        \<and> wr_decision_id b = Some did)"
  "open_history h = Some (L_Unknown bd did ev) \<longleftrightarrow>
     (\<exists>a b c. h = [a, b, c] \<and> opens a \<and> decides a b \<and> suspends a b c \<and> bd = request_binding_from a
        \<and> wr_decision_id b = Some did \<and> ev = wr_event_id c)"
  by (cases h rule: open_history.cases; auto simp: decides_def)+

definition history_ok :: "witness_record list \<Rightarrow> bool" where
  "history_ok h \<longleftrightarrow> h = [] \<or> open_history h \<noteq> None \<or> closed_history h"

lemma closed_not_open: "closed_history h \<Longrightarrow> open_history h = None"
  by (cases h rule: closed_history.cases) (auto simp: denies_def concludes_def suspends_def)

lemma closed_history_length: "closed_history h \<Longrightarrow> length h = 3 \<or> length h = 4"
  by (cases h rule: closed_history.cases) auto

lemma open_history_length: "open_history h = Some lc \<Longrightarrow> length h \<in> {1, 2, 3}"
  by (cases h rule: open_history.cases) auto

lemma history_ok_prefix: "history_ok (h @ [r]) \<Longrightarrow> h = [] \<or> open_history h \<noteq> None"
  by (cases h rule: open_history.cases)
    (auto simp: history_ok_def split: if_splits dest: closed_history_length)

lemma closed_history_final: "closed_history h \<Longrightarrow> \<not> history_ok (h @ [r])"
  using history_ok_prefix closed_not_open by fastforce

lemma request_history_snoc:
  "request_history rid (rs @ [r]) =
     (if wr_request_id r = rid \<and> wr_stage r \<noteq> St_CheckpointPublished
      then request_history rid rs @ [r] else request_history rid rs)"
  by (simp add: request_history_def)

lemma request_history_Nil [simp]: "request_history rid [] = []"
  by (simp add: request_history_def)

section \<open>The verifier tracks the histories\<close>

definition terminal_denials :: "witness_record list \<Rightarrow> witness_record list" where
  "terminal_denials rs = filter (\<lambda>r. wr_stage r = St_Denied) rs"

definition terminal_outcomes :: "witness_record list \<Rightarrow> witness_record list" where
  "terminal_outcomes rs =
     filter (\<lambda>r. wr_stage r = St_Outcome \<and> wr_outcome r \<noteq> Out_OutcomeUnknown) rs"

definition terminal_recoveries :: "witness_record list \<Rightarrow> witness_record list" where
  "terminal_recoveries rs = filter (\<lambda>r. wr_stage r = St_Recovery) rs"

definition counted :: "witness_record list \<Rightarrow> verification_report \<Rightarrow> bool" where
  "counted rs rep \<longleftrightarrow> vr_terminal_denied rep = of_nat (length (terminal_denials rs))
     \<and> vr_terminal_outcomes rep = of_nat (length (terminal_outcomes rs))
     \<and> vr_terminal_recoveries rep = of_nat (length (terminal_recoveries rs))"

definition tracks ::
  "witness_record list \<Rightarrow> lifecycles \<times> bytes set \<times> verification_report \<Rightarrow> bool" where
  "tracks rs st \<longleftrightarrow> (case st of (states, ids, rep) \<Rightarrow>
     distinct (map fst states)
     \<and> (\<forall>rid. map_of states rid = open_history (request_history rid rs))
     \<and> (\<forall>rid. rid \<in> ids \<longleftrightarrow> request_history rid rs \<noteq> [])
     \<and> (\<forall>rid. history_ok (request_history rid rs))
     \<and> counted rs rep)"

definition lifecycle_ok :: "witness_record list \<Rightarrow> witness_record \<Rightarrow> bool" where
  "lifecycle_ok rs r \<longleftrightarrow> wr_stage r = St_CheckpointPublished
     \<or> history_ok (request_history (wr_request_id r) rs @ [r])"

text \<open>One step: from a request whose records so far are \<open>h\<close>, the machine moves exactly when the
  record extends \<open>h\<close> to a history, and ends in the lifecycle of the extended history.\<close>

definition next_report :: "witness_record \<Rightarrow> verification_report \<Rightarrow> verification_report" where
  "next_report r rep =
     (case wr_stage r of
        St_Denied \<Rightarrow> rep\<lparr>vr_terminal_denied := vr_terminal_denied rep + 1\<rparr>
      | St_Outcome \<Rightarrow> if wr_outcome r = Out_OutcomeUnknown then rep
                       else rep\<lparr>vr_terminal_outcomes := vr_terminal_outcomes rep + 1\<rparr>
      | St_Recovery \<Rightarrow> rep\<lparr>vr_terminal_recoveries := vr_terminal_recoveries rep + 1\<rparr>
      | _ \<Rightarrow> rep)"

lemma counted_next: "counted rs rep \<Longrightarrow> counted (rs @ [r]) (next_report r rep)"
  by (auto simp: counted_def next_report_def terminal_denials_def terminal_outcomes_def
      terminal_recoveries_def split: witness_stage.split)

lemma transition_closed:
  assumes "map_of states (wr_request_id r) = None" "wr_request_id r \<in> ids"
    and "wr_stage r \<noteq> St_CheckpointPublished"
  shows "transition r (states, ids, rep) = Inl InvalidLifecycle"
  using assms by (cases "wr_stage r") (simp_all add: transition_def Let_def)

definition moved ::
  "witness_record \<Rightarrow> lifecycle option \<Rightarrow> lifecycles \<times> bytes set \<times> verification_report
    \<Rightarrow> lifecycles \<times> bytes set \<times> verification_report" where
  "moved r lc st = (case st of (states, ids, rep) \<Rightarrow>
     ((case lc of
         Some l \<Rightarrow> AList.update (wr_request_id r) l
                    (if wr_stage r = St_RequestReceived then states
                     else AList.delete (wr_request_id r) states)
       | None \<Rightarrow> AList.delete (wr_request_id r) states),
      insert (wr_request_id r) ids, next_report r rep))"

lemma transition_step:
  assumes "map_of states (wr_request_id r) = open_history h"
    and "wr_request_id r \<in> ids \<longleftrightarrow> h \<noteq> []" and "history_ok h"
    and "wr_stage r \<noteq> St_CheckpointPublished"
  shows "transition r (states, ids, rep) =
    (if history_ok (h @ [r]) then Inr (moved r (open_history (h @ [r])) (states, ids, rep))
     else Inl InvalidLifecycle)"
proof (cases "open_history h")
  case None
  show ?thesis
  proof (cases "h = []")
    case True
    with assms show ?thesis
      by (cases "wr_stage r")
        (simp_all add: transition_def Let_def moved_def next_report_def history_ok_def opens_def)
  next
    case False
    with None assms have "closed_history h" by (simp add: history_ok_def)
    with False None assms show ?thesis
      by (simp add: transition_closed closed_history_final)
  qed
next
  case (Some lc)
  with assms have "wr_request_id r \<in> ids" by auto
  then have ids: "insert (wr_request_id r) ids = ids" by (rule insert_absorb)
  note step_defs = transition_def Let_def moved_def next_report_def history_ok_def ids opens_def
    decides_def denies_def concludes_def suspends_def recovers_def follows_def allows_def
    same_binding_def
  show ?thesis
  proof (cases lc)
    case (L_Received bd)
    with Some obtain a where "h = [a]" "opens a" "bd = request_binding_from a"
      by (auto simp: open_history_inv)
    with assms Some L_Received show ?thesis
      by (cases "wr_stage r"; cases "wr_decision_id r") (auto simp: step_defs)
  next
    case (L_Allowed bd did)
    with Some obtain a b where "h = [a, b]" "opens a" "decides a b" "allows b"
      "bd = request_binding_from a" "wr_decision_id b = Some did"
      by (auto simp: open_history_inv)
    with assms Some L_Allowed show ?thesis
      by (cases "wr_stage r") (auto simp: step_defs)
  next
    case (L_DeniedDecision bd did)
    with Some obtain a b where "h = [a, b]" "opens a" "decides a b" "\<not> allows b"
      "bd = request_binding_from a" "wr_decision_id b = Some did"
      by (auto simp: open_history_inv)
    with assms Some L_DeniedDecision show ?thesis
      by (cases "wr_stage r") (auto simp: step_defs)
  next
    case (L_Unknown bd did ev)
    with Some obtain a b c where "h = [a, b, c]" "opens a" "decides a b" "suspends a b c"
      "bd = request_binding_from a" "wr_decision_id b = Some did" "ev = wr_event_id c"
      by (auto simp: open_history_inv)
    with assms Some L_Unknown show ?thesis
      by (cases "wr_stage r") (auto simp: step_defs)
  qed
qed


lemma moved_distinct:
  "distinct (map fst states) \<Longrightarrow> distinct (map fst (fst (moved r lc (states, ids, rep))))"
  by (auto simp: moved_def distinct_update distinct_delete split: option.split)

lemma moved_lookup:
  "map_of (fst (moved r lc (states, ids, rep))) rid =
     (if rid = wr_request_id r then lc else map_of states rid)"
  by (auto simp: moved_def update_conv' delete_conv' split: option.split)

lemma tracks_Nil: "tracks [] ([], {}, sv_report (stream_verifier_new trust))"
  by (simp add: tracks_def history_ok_def counted_def stream_verifier_new_def terminal_denials_def
      terminal_outcomes_def terminal_recoveries_def)

lemma transition_checkpoint:
  "wr_stage r = St_CheckpointPublished \<Longrightarrow> transition r st = Inr st"
  by (cases st) (simp add: transition_def)

lemma transition_tracks:
  assumes "tracks rs (states, ids, rep)"
  shows "transition r (states, ids, rep) = Inr st' \<Longrightarrow> lifecycle_ok rs r \<and> tracks (rs @ [r]) st'"
    and "lifecycle_ok rs r \<Longrightarrow> \<exists>st'. transition r (states, ids, rep) = Inr st'"
proof -
  let ?h = "request_history (wr_request_id r) rs"
  have step: "transition r (states, ids, rep) =
      (if history_ok (?h @ [r]) then Inr (moved r (open_history (?h @ [r])) (states, ids, rep))
       else Inl InvalidLifecycle)"
    if "wr_stage r \<noteq> St_CheckpointPublished"
    using assms that by (intro transition_step) (auto simp: tracks_def)
  show "\<exists>st'. transition r (states, ids, rep) = Inr st'" if "lifecycle_ok rs r"
    using that step transition_checkpoint [of r]
    by (cases "wr_stage r = St_CheckpointPublished")
      (simp_all add: lifecycle_ok_def del: split_paired_Ex)
  show "lifecycle_ok rs r \<and> tracks (rs @ [r]) st'"
    if tr: "transition r (states, ids, rep) = Inr st'"
  proof (cases "wr_stage r = St_CheckpointPublished")
    case True
    with tr have "st' = (states, ids, rep)" by (simp add: transition_checkpoint)
    moreover from True have "next_report r rep = rep" by (simp add: next_report_def)
    ultimately show ?thesis
      using True assms counted_next [of rs rep r]
      by (simp add: tracks_def lifecycle_ok_def request_history_snoc)
  next
    case False
    let ?m = "moved r (open_history (?h @ [r])) (states, ids, rep)"
    from tr step [OF False] have ok: "history_ok (?h @ [r])" and st': "st' = ?m"
      by (auto split: if_splits)
    from assms have tracks: "distinct (map fst states)" "counted rs rep"
      "\<And>rid. map_of states rid = open_history (request_history rid rs)"
      "\<And>rid. rid \<in> ids \<longleftrightarrow> request_history rid rs \<noteq> []"
      "\<And>rid. history_ok (request_history rid rs)"
      by (simp_all add: tracks_def)
    have m: "?m = (fst ?m, insert (wr_request_id r) ids, next_report r rep)"
      by (simp add: moved_def)
    have "tracks (rs @ [r]) (fst ?m, insert (wr_request_id r) ids, next_report r rep)"
      using tracks ok False
      by (auto simp: tracks_def moved_distinct moved_lookup counted_next request_history_snoc)
    with ok st' m show ?thesis by (simp add: lifecycle_ok_def)
  qed
qed

lemma tracks_open_requests:
  assumes "tracks rs (states, ids, rep)"
  shows "length states = card {rid. open_history (request_history rid rs) \<noteq> None}"
proof -
  have "{rid. open_history (request_history rid rs) \<noteq> None} = dom (map_of states)"
    using assms by (auto simp: tracks_def dom_def)
  also have "\<dots> = set (map fst states)" by (simp add: dom_map_of_conv_image_fst)
  finally show ?thesis
    using assms distinct_card [of "map fst states"] by (simp add: tracks_def)
qed


section \<open>Acceptance, without the verifier's state\<close>

definition stream_head :: "(bytes \<Rightarrow> bytes) \<Rightarrow> stream_trust \<Rightarrow> decoded_record list \<Rightarrow> bytes" where
  "stream_head sha trust ds =
     (if ds = [] then st_predecessor_hash trust else hash_record sha (dr_bytes (last ds)))"

definition open_requests :: "witness_record list \<Rightarrow> bytes set" where
  "open_requests rs = {rid. open_history (request_history rid rs) \<noteq> None}"

definition admissible ::
  "(bytes \<Rightarrow> bytes) \<Rightarrow> stream_trust \<Rightarrow> decoded_record list \<Rightarrow> decoded_record \<Rightarrow> bool" where
  "admissible sha trust ds d \<longleftrightarrow>
     length ds < unat (st_max_records trust)
     \<and> dr_journal_id d = st_journal_id trust \<and> wr_epoch (dr_record d) = st_epoch trust
     \<and> unat (wr_sequence (dr_record d)) = unat (st_first_sequence trust) + length ds
     \<and> Suc (unat (st_first_sequence trust) + length ds) < 2 ^ 64
     \<and> wr_event_id (dr_record d) \<notin> wr_event_id ` dr_record ` set ds
     \<and> wr_previous_hash (dr_record d) = stream_head sha trust ds
     \<and> lifecycle_ok (map dr_record ds) (dr_record d)
     \<and> card (open_requests (map dr_record ds @ [dr_record d])) \<le> MAX_OPEN_REQUESTS"

definition valid_prefix ::
  "(bytes \<Rightarrow> bytes) \<Rightarrow> stream_trust \<Rightarrow> decoded_record list \<Rightarrow> bool" where
  "valid_prefix sha trust ds \<longleftrightarrow> (\<forall>n < length ds. admissible sha trust (take n ds) (ds ! n))"

lemma valid_prefix_Nil [simp]: "valid_prefix sha trust []"
  by (simp add: valid_prefix_def)

lemma valid_prefix_snoc:
  "valid_prefix sha trust (ds @ [d]) \<longleftrightarrow> valid_prefix sha trust ds \<and> admissible sha trust ds d"
proof -
  have "valid_prefix sha trust (ds @ [d]) \<longleftrightarrow>
      (\<forall>n < length ds. admissible sha trust (take n (ds @ [d])) ((ds @ [d]) ! n))
      \<and> admissible sha trust (take (length ds) (ds @ [d])) ((ds @ [d]) ! length ds)"
    by (auto simp: valid_prefix_def less_Suc_eq)
  then show ?thesis by (simp add: valid_prefix_def nth_append)
qed

definition verifier_at ::
  "(bytes \<Rightarrow> bytes) \<Rightarrow> stream_trust \<Rightarrow> decoded_record list \<Rightarrow> stream_verifier \<Rightarrow> bool" where
  "verifier_at sha trust ds v \<longleftrightarrow>
     sv_trust v = trust
     \<and> unat (sv_expected_sequence v) = unat (st_first_sequence trust) + length ds
     \<and> sv_previous_hash v = stream_head sha trust ds
     \<and> sv_event_ids v = wr_event_id ` dr_record ` set ds
     \<and> unat (vr_records (sv_report v)) = length ds \<and> length ds \<le> unat (st_max_records trust)
     \<and> tracks (map dr_record ds) (sv_lifecycles v, sv_request_ids v, sv_report v)"

lemma verifier_at_new: "verifier_at sha trust [] (stream_verifier_new trust)"
  using tracks_Nil [of trust] by (simp add: verifier_at_def stream_verifier_new_def stream_head_def)

lemma tracks_report_cong:
  "tracks rs (s, ids, rep) \<Longrightarrow> tracks rs (s, ids, rep\<lparr>vr_records := n\<rparr>)"
  by (simp add: tracks_def counted_def)

lemma u64_Suc: "w < m \<Longrightarrow> unat (w + 1 :: u64) = Suc (unat w)"
  using unsigned_less [of m, where ?'a = nat] by (simp add: unat_word_ariths word_less_nat_alt)

lemma transition_records:
  "transition r (s, ids, rep) = Inr (s', ids', rep') \<Longrightarrow> vr_records rep' = vr_records rep"
  by (cases "wr_stage r")
    (auto simp: transition_def Let_def rbind_simps split: if_splits option.splits lifecycle.splits)

lemma decode_valid_stage: "decode_record b = Inr d \<Longrightarrow> valid_stage (dr_record d)"
  using decode_record_sound by blast

lemma push_at:
  assumes "verifier_at sha trust ds v"
  shows "verifier_push sha b v = Inr v' \<Longrightarrow>
      \<exists>d. decode_record b = Inr d \<and> admissible sha trust ds d \<and> verifier_at sha trust (ds @ [d]) v'"
    and "decode_record b = Inr d \<Longrightarrow> admissible sha trust ds d \<Longrightarrow>
      \<exists>v'. verifier_push sha b v = Inr v'"
proof -
  let ?rs = "map dr_record ds"
  note at = assms [unfolded verifier_at_def]
  have seq: "wr_sequence r = sv_expected_sequence v
      \<longleftrightarrow> unat (wr_sequence r) = unat (st_first_sequence trust) + length ds" for r
    using at by (metis unsigned_word_eqI)
  show "\<exists>v'. verifier_push sha b v = Inr v'"
    if b: "decode_record b = Inr d" and adm: "admissible sha trust ds d"
  proof -
    from adm at have "lifecycle_ok ?rs (dr_record d)"
      and tr: "tracks ?rs (sv_lifecycles v, sv_request_ids v, sv_report v)"
      by (simp_all add: admissible_def)
    with transition_tracks(2) [OF tr] obtain s ids rep where
      t: "transition (dr_record d) (sv_lifecycles v, sv_request_ids v, sv_report v) = Inr (s, ids, rep)"
      by (metis prod_cases3)
    with transition_tracks(1) [OF tr t] tracks_open_requests adm
    have "length s \<le> MAX_OPEN_REQUESTS" by (fastforce simp: admissible_def open_requests_def)
    moreover have "vr_records (sv_report v) < st_max_records (sv_trust v)"
      using at adm by (simp add: admissible_def word_less_nat_alt)
    moreover have "checked_add (sv_expected_sequence v) 1 = Some (sv_expected_sequence v + 1)"
      using at adm by (simp add: admissible_def checked_add_def)
    ultimately show ?thesis
      using at adm b t decode_valid_stage [OF b] seq [of "dr_record d"]
      by (simp add: verifier_push_def admissible_def Let_def validate_record_def not_less)
  qed
  show "\<exists>d. decode_record b = Inr d \<and> admissible sha trust ds d \<and> verifier_at sha trust (ds @ [d]) v'"
    if push: "verifier_push sha b v = Inr v'"
  proof -
    from push obtain d s ids rep nxt where
      b: "decode_record b = Inr d" and
      t: "transition (dr_record d) (sv_lifecycles v, sv_request_ids v, sv_report v) = Inr (s, ids, rep)" and
      facts: "vr_records (sv_report v) < st_max_records (sv_trust v)"
        "dr_journal_id d = st_journal_id (sv_trust v)" "wr_epoch (dr_record d) = st_epoch (sv_trust v)"
        "wr_sequence (dr_record d) = sv_expected_sequence v"
        "wr_event_id (dr_record d) \<notin> sv_event_ids v"
        "wr_previous_hash (dr_record d) = sv_previous_hash v"
        "length s \<le> MAX_OPEN_REQUESTS" "checked_add (sv_expected_sequence v) 1 = Some nxt" and
      v': "v' = v\<lparr>sv_expected_sequence := nxt, sv_previous_hash := hash_record sha (dr_bytes d),
        sv_lifecycles := s, sv_event_ids := insert (wr_event_id (dr_record d)) (sv_event_ids v),
        sv_request_ids := ids, sv_report := rep\<lparr>vr_records := vr_records rep + 1\<rparr>\<rparr>"
      by (auto simp: verifier_push_def Let_def rbind_simps split: if_splits)
    have tr: "tracks ?rs (sv_lifecycles v, sv_request_ids v, sv_report v)" using at by simp
    from transition_tracks(1) [OF tr t]
    have ok: "lifecycle_ok ?rs (dr_record d)" and tr': "tracks (?rs @ [dr_record d]) (s, ids, rep)"
      by auto
    have nxt: "unat nxt = Suc (unat (st_first_sequence trust) + length ds)"
      using checked_add_Some [OF facts(8)] at by simp
    have records: "unat (vr_records rep + 1) = Suc (length ds)"
      using transition_records [OF t] u64_Suc [OF facts(1)] at by simp
    have "admissible sha trust ds d"
      using at facts ok seq [of "dr_record d"] tracks_open_requests [OF tr'] nxt
        unsigned_less [of nxt, where ?'a = nat]
      by (simp add: admissible_def word_less_nat_alt open_requests_def)
    moreover have "verifier_at sha trust (ds @ [d]) v'"
      using at v' nxt records facts(1) tracks_report_cong [OF tr']
      by (simp add: verifier_at_def stream_head_def word_less_nat_alt Suc_leI)
    ultimately show ?thesis using b by blast
  qed
qed


lemma push_all_at:
  assumes "verifier_at sha trust ds v" "valid_prefix sha trust ds"
  shows "push_all sha bs v = Inr v' \<Longrightarrow> \<exists>ds'. map decode_record bs = map Inr ds'
      \<and> valid_prefix sha trust (ds @ ds') \<and> verifier_at sha trust (ds @ ds') v'"
    and "map decode_record bs = map Inr ds' \<Longrightarrow> valid_prefix sha trust (ds @ ds')
      \<Longrightarrow> \<exists>v'. push_all sha bs v = Inr v'"
proof -
  show "\<exists>ds'. map decode_record bs = map Inr ds'
      \<and> valid_prefix sha trust (ds @ ds') \<and> verifier_at sha trust (ds @ ds') v'"
    if "push_all sha bs v = Inr v'"
    using assms that
  proof (induction bs arbitrary: ds v)
    case Nil
    then show ?case by simp
  next
    case (Cons b bs)
    from Cons.prems(3) obtain v1 where v1: "verifier_push sha b v = Inr v1" "push_all sha bs v1 = Inr v'"
      by (auto simp: rbind_simps)
    from push_at(1) [OF Cons.prems(1) v1(1)] obtain d where
      d: "decode_record b = Inr d" "admissible sha trust ds d" "verifier_at sha trust (ds @ [d]) v1"
      by blast
    with Cons.prems(2) have "valid_prefix sha trust (ds @ [d])" by (simp add: valid_prefix_snoc)
    from Cons.IH [OF d(3) this v1(2)] obtain ds' where
      "map decode_record bs = map Inr ds'" "valid_prefix sha trust (ds @ d # ds')"
      "verifier_at sha trust (ds @ d # ds') v'"
      by auto
    with d(1) show ?case by (intro exI [of _ "d # ds'"]) simp
  qed
  show "\<exists>v'. push_all sha bs v = Inr v'"
    if "map decode_record bs = map Inr ds'" "valid_prefix sha trust (ds @ ds')"
    using assms(1) that
  proof (induction bs arbitrary: ds ds' v)
    case Nil
    then show ?case by simp
  next
    case (Cons b bs)
    then obtain d ds1 where ds': "ds' = d # ds1" "decode_record b = Inr d"
      "map decode_record bs = map Inr ds1"
      by (cases ds') auto
    have "admissible sha trust ds d"
      using Cons.prems(3) ds' unfolding valid_prefix_def
      by (auto dest!: spec [of _ "length ds"] simp: nth_append)
    from push_at(2) [OF Cons.prems(1) ds'(2) this] obtain v1 where v1: "verifier_push sha b v = Inr v1"
      by blast
    with push_at(1) [OF Cons.prems(1) v1] ds'(2) have "verifier_at sha trust (ds @ [d]) v1" by auto
    from Cons.IH [OF this ds'(3)] Cons.prems(3) ds' v1 show ?case by simp
  qed
qed

lemma tracks_finished:
  assumes "tracks rs (states, ids, rep)"
  shows "states = [] \<longleftrightarrow> (\<forall>rid. request_history rid rs = [] \<or> closed_history (request_history rid rs))"
proof -
  have "states = [] \<longleftrightarrow> (\<forall>rid. map_of states rid = None)"
    by (cases states) auto
  also have "\<dots> \<longleftrightarrow> (\<forall>rid. open_history (request_history rid rs) = None)"
    using assms by (simp add: tracks_def)
  also have "\<dots> \<longleftrightarrow> (\<forall>rid. request_history rid rs = [] \<or> closed_history (request_history rid rs))"
    using assms closed_not_open by (fastforce simp: tracks_def history_ok_def)
  finally show ?thesis .
qed

text \<open>The accepted streams: every record admissible after its prefix, every request closed.\<close>

definition valid_stream ::
  "(bytes \<Rightarrow> bytes) \<Rightarrow> stream_trust \<Rightarrow> decoded_record list \<Rightarrow> bool" where
  "valid_stream sha trust ds \<longleftrightarrow> valid_prefix sha trust ds
     \<and> (\<forall>rid. request_history rid (map dr_record ds) = []
          \<or> closed_history (request_history rid (map dr_record ds)))"

lemma verify_stream_Inr:
  assumes "verify_stream sha bs trust = Inr rep"
  shows "\<exists>ds. map decode_record bs = map Inr ds \<and> valid_stream sha trust ds
    \<and> unat (vr_records rep) = length ds \<and> counted (map dr_record ds) rep"
proof -
  from assms obtain v where v: "push_all sha bs (stream_verifier_new trust) = Inr v"
    and fin: "sv_lifecycles v = []" "rep = sv_report v"
    by (auto simp: verify_stream_def rbind_simps verifier_finish_def split: if_splits)
  from push_all_at(1) [OF verifier_at_new valid_prefix_Nil v] obtain ds where
    ds: "map decode_record bs = map Inr ds" "valid_prefix sha trust ds" "verifier_at sha trust ds v"
    by auto
  then have tr: "tracks (map dr_record ds) (sv_lifecycles v, sv_request_ids v, sv_report v)"
    by (simp add: verifier_at_def)
  with tracks_finished [OF tr] fin ds show ?thesis
    by (intro exI [of _ ds]) (simp add: valid_stream_def verifier_at_def tracks_def)
qed

lemma verify_stream_ok:
  assumes "map decode_record bs = map Inr ds" "valid_stream sha trust ds"
  shows "\<exists>rep. verify_stream sha bs trust = Inr rep"
proof -
  from assms push_all_at(2) [OF verifier_at_new valid_prefix_Nil, of bs ds sha trust]
  obtain v where v: "push_all sha bs (stream_verifier_new trust) = Inr v"
    by (auto simp: valid_stream_def)
  from push_all_at(1) [OF verifier_at_new valid_prefix_Nil v] assms(1)
  have "tracks (map dr_record ds) (sv_lifecycles v, sv_request_ids v, sv_report v)"
    by (auto simp: verifier_at_def dest: map_injective)
  from tracks_finished [OF this] v assms(2) show ?thesis
    by (simp add: verify_stream_def verifier_finish_def valid_stream_def)
qed


lemma valid_prefix_take: "valid_prefix sha trust ds \<Longrightarrow> valid_prefix sha trust (take n ds)"
  by (auto simp: valid_prefix_def min_def)

lemma valid_prefix_nth:
  assumes "valid_prefix sha trust ds" "n < length ds"
  shows "unat (wr_sequence (dr_record (ds ! n))) = unat (st_first_sequence trust) + n"
    and "wr_previous_hash (dr_record (ds ! n)) = stream_head sha trust (take n ds)"
    and "dr_journal_id (ds ! n) = st_journal_id trust" "wr_epoch (dr_record (ds ! n)) = st_epoch trust"
    and "length ds \<le> unat (st_max_records trust)"
proof -
  from assms have "admissible sha trust (take n ds) (ds ! n)" by (simp add: valid_prefix_def)
  with assms(2) show "unat (wr_sequence (dr_record (ds ! n))) = unat (st_first_sequence trust) + n"
    "wr_previous_hash (dr_record (ds ! n)) = stream_head sha trust (take n ds)"
    "dr_journal_id (ds ! n) = st_journal_id trust" "wr_epoch (dr_record (ds ! n)) = st_epoch trust"
    by (simp_all add: admissible_def)
  from assms have "admissible sha trust (take (length ds - 1) ds) (ds ! (length ds - 1))"
    by (auto simp: valid_prefix_def)
  with assms(2) show "length ds \<le> unat (st_max_records trust)" by (auto simp: admissible_def)
qed

lemma valid_prefix_event_ids:
  "valid_prefix sha trust ds \<Longrightarrow> distinct (map (wr_event_id \<circ> dr_record) ds)"
  by (induction ds rule: rev_induct) (auto simp: valid_prefix_snoc admissible_def)

text \<open>The links of a stream alone: sequence numbers, predecessor hashes and the journal identity.
  A chained list of records is determined by its head hash and its length, whatever the epochs and
  the lifecycles in it.\<close>

definition chained :: "(bytes \<Rightarrow> bytes) \<Rightarrow> stream_trust \<Rightarrow> decoded_record list \<Rightarrow> bool" where
  "chained sha trust ds \<longleftrightarrow> (\<forall>n < length ds.
     unat (wr_sequence (dr_record (ds ! n))) = unat (st_first_sequence trust) + n
     \<and> wr_previous_hash (dr_record (ds ! n)) = stream_head sha trust (take n ds)
     \<and> dr_journal_id (ds ! n) = st_journal_id trust)"

lemma valid_prefix_chained: "valid_prefix sha trust ds \<Longrightarrow> chained sha trust ds"
  using valid_prefix_nth by (simp add: chained_def)

lemma chained_Nil [simp]: "chained sha trust []"
  by (simp add: chained_def)

lemma chained_snoc:
  "chained sha trust (ds @ [d]) \<longleftrightarrow> chained sha trust ds
     \<and> unat (wr_sequence (dr_record d)) = unat (st_first_sequence trust) + length ds
     \<and> wr_previous_hash (dr_record d) = stream_head sha trust ds
     \<and> dr_journal_id d = st_journal_id trust"
  by (auto simp: chained_def less_Suc_eq nth_append)

lemma chained_take: "chained sha trust ds \<Longrightarrow> chained sha trust (take n ds)"
  by (auto simp: chained_def min_def)

lemma chained_head_inject:
  assumes "chained sha trust ds" "chained sha trust ds'" "length ds = length ds'"
    and "stream_head sha trust ds = stream_head sha trust ds'"
    and "inj_on sha (hash_input ` dr_bytes ` (set ds \<union> set ds'))"
    and "\<forall>d \<in> set ds \<union> set ds'. \<exists>b. decode_record b = Inr d"
  shows "ds = ds'"
  using assms
proof (induction ds arbitrary: ds' rule: rev_induct)
  case Nil
  then show ?case by simp
next
  case (snoc d ds)
  then obtain d' ds1 where ds': "ds' = ds1 @ [d']" by (cases ds' rule: rev_cases) auto
  from snoc.prems(6) ds' obtain b b' where b: "decode_record b = Inr d" "decode_record b' = Inr d'"
    by auto
  have "sha (hash_input (dr_bytes d)) = sha (hash_input (dr_bytes d'))"
    using snoc.prems(4) ds' by (simp add: stream_head_def hash_record_def)
  then have "hash_input (dr_bytes d) = hash_input (dr_bytes d')"
    by (rule inj_onD [OF snoc.prems(5)]) (simp_all add: ds')
  then have "dr_bytes d = dr_bytes d'"
    by (rule hash_input_inject [rotated 2]) (use decode_hash_input b in blast)+
  with decode_hash_input [OF b(1)] decode_hash_input [OF b(2)] b have "d = d'" by simp
  moreover have "ds = ds1"
  proof (rule snoc.IH)
    show "stream_head sha trust ds = stream_head sha trust ds1"
      using snoc.prems(1,2) ds' \<open>d = d'\<close> by (simp add: chained_snoc)
    show "inj_on sha (hash_input ` dr_bytes ` (set ds \<union> set ds1))"
      by (rule inj_on_subset [OF snoc.prems(5)]) (auto simp: ds')
  qed (use snoc.prems ds' in \<open>auto simp: chained_snoc\<close>)
  ultimately show ?case using ds' by simp
qed


section \<open>Every request has exactly one terminal record\<close>

definition requests :: "witness_record list \<Rightarrow> bytes set" where
  "requests rs = {rid. request_history rid rs \<noteq> []}"

definition terminal :: "witness_record \<Rightarrow> bool" where
  "terminal r \<longleftrightarrow> wr_stage r = St_Denied \<or> wr_stage r = St_Recovery
     \<or> wr_stage r = St_Outcome \<and> wr_outcome r \<noteq> Out_OutcomeUnknown"

lemma terminal_lengths:
  "length (filter terminal rs) =
     length (terminal_denials rs) + length (terminal_outcomes rs) + length (terminal_recoveries rs)"
  by (induction rs) (auto simp: terminal_def terminal_denials_def terminal_outcomes_def
      terminal_recoveries_def)

lemma closed_history_terminal: "closed_history h \<Longrightarrow> length (filter terminal h) = 1"
  by (cases h rule: closed_history.cases)
    (auto simp: terminal_def opens_def decides_def denies_def concludes_def suspends_def recovers_def)

lemma filter_terminal_history:
  "filter (\<lambda>r. wr_request_id r = rid) (filter terminal rs) = filter terminal (request_history rid rs)"
  by (induction rs) (auto simp: request_history_def terminal_def)

lemma count_map_filter: "count (mset (map f xs)) a = length (filter (\<lambda>x. f x = a) xs)"
  by (induction xs) auto

lemma terminal_count:
  assumes "\<forall>rid. request_history rid rs = [] \<or> closed_history (request_history rid rs)"
  shows "card (requests rs) = length (filter terminal rs)"
proof -
  let ?ids = "map wr_request_id (filter terminal rs)"
  have count: "count (mset ?ids) rid = length (filter terminal (request_history rid rs))" for rid
    by (simp only: count_map_filter filter_terminal_history)
  have one: "count (mset ?ids) rid = (if rid \<in> requests rs then 1 else 0)" for rid
  proof (cases "request_history rid rs = []")
    case False
    with assms have "closed_history (request_history rid rs)" by blast
    with False show ?thesis unfolding count requests_def by (simp add: closed_history_terminal)
  qed (unfold count requests_def, simp)
  then have "requests rs = set ?ids"
    by (metis (mono_tags) count_eq_zero_iff set_eqI set_mset_mset zero_neq_one)
  moreover have "distinct ?ids"
    unfolding distinct_count_atmost_1 using one by (metis count_eq_zero_iff set_mset_mset)
  ultimately show ?thesis using distinct_card [of ?ids] by simp
qed

section \<open>A complete example stream\<close>

definition example_decoded :: "witness_record \<Rightarrow> decoded_record" where
  "example_decoded r = \<lparr>dr_journal_id = replicate 16 9, dr_record = r,
     dr_bytes = \<lparr>rb_journal_id = replicate 16 9, rb_bytes = record_fields (replicate 16 9) r\<rparr>\<rparr>"

definition example_decision :: "(bytes \<Rightarrow> bytes) \<Rightarrow> witness_record" where
  "example_decision sha = example_record
     \<lparr>wr_sequence := 2, wr_previous_hash := hash_record sha (dr_bytes (example_decoded example_record)),
      wr_event_id := replicate 16 11, wr_decision_id := Some (replicate 16 12),
      wr_rule := Some (replicate 16 13), wr_decision := Some True, wr_stage := St_Decision\<rparr>"

definition example_outcome :: "(bytes \<Rightarrow> bytes) \<Rightarrow> witness_record" where
  "example_outcome sha = example_record
     \<lparr>wr_sequence := 3,
      wr_previous_hash := hash_record sha (dr_bytes (example_decoded (example_decision sha))),
      wr_event_id := replicate 16 21, wr_decision_id := Some (replicate 16 12),
      wr_result_digest := Some (replicate 32 14), wr_stage := St_Outcome,
      wr_outcome := Out_Succeeded\<rparr>"

definition example_records :: "(bytes \<Rightarrow> bytes) \<Rightarrow> witness_record list" where
  "example_records sha = [example_record, example_decision sha, example_outcome sha]"

definition example_stream :: "(bytes \<Rightarrow> bytes) \<Rightarrow> bytes list" where
  "example_stream sha = map (record_fields (replicate 16 9)) (example_records sha)"

definition example_trust :: stream_trust where
  "example_trust = stream_trust_new (replicate 16 9) 1 1 (replicate 32 0)"

lemmas example_defs = example_decision_def example_outcome_def example_record_def

lemma example_history:
  "request_history rid (example_records sha)
     = (if rid = replicate 16 2 then example_records sha else [])"
  "closed_history (example_records sha)"
  by (auto simp: request_history_def example_records_def example_defs opens_def decides_def
      concludes_def allows_def follows_def request_binding_from_def)

lemma open_requests_bound: "card (open_requests rs) \<le> length rs"
proof -
  have "request_history rid rs = []" if "rid \<notin> set (map wr_request_id rs)" for rid
    using that by (auto simp: request_history_def filter_empty_conv)
  then have "open_requests rs \<subseteq> set (map wr_request_id rs)"
    unfolding open_requests_def by force
  then have "card (open_requests rs) \<le> card (set (map wr_request_id rs))"
    by (rule card_mono [rotated]) simp
  also have "\<dots> \<le> length rs" using card_length [of "map wr_request_id rs"] by simp
  finally show ?thesis .
qed

lemma example_valid: "valid_stream sha example_trust (map example_decoded (example_records sha))"
proof -
  let ?r1 = example_record and ?r2 = "example_decision sha" and ?r3 = "example_outcome sha"
  note simps = admissible_def example_trust_def stream_trust_new_def example_decoded_def
    stream_head_def lifecycle_ok_def request_history_def history_ok_def opens_def decides_def
    concludes_def allows_def follows_def request_binding_from_def MAX_OPEN_REQUESTS_def
  have "admissible sha example_trust [] (example_decoded ?r1)"
    using open_requests_bound [of "[?r1]"] by (simp add: simps) (simp add: example_defs)
  moreover have "admissible sha example_trust [example_decoded ?r1] (example_decoded ?r2)"
    using open_requests_bound [of "[?r1, ?r2]"] by (simp add: simps) (simp add: example_defs simps)
  moreover have "admissible sha example_trust [example_decoded ?r1, example_decoded ?r2] (example_decoded ?r3)"
    using open_requests_bound [of "[?r1, ?r2, ?r3]"] by (simp add: simps) (simp add: example_defs simps)
  ultimately have "valid_prefix sha example_trust ([] @ [example_decoded ?r1] @ [example_decoded ?r2] @ [example_decoded ?r3])"
    by (simp only: append_assoc [symmetric] valid_prefix_snoc) simp
  moreover have "map dr_record (map example_decoded (example_records sha)) = example_records sha"
    by (simp add: example_decoded_def comp_def)
  ultimately show ?thesis
    using example_history(1) [of _ sha] example_history(2) [of sha]
    by (simp add: valid_stream_def example_records_def [of sha])
qed


lemma example_wf:
  "\<forall>x. length (sha x) = 32 \<Longrightarrow> r \<in> set (example_records sha) \<Longrightarrow> wf_record r \<and> valid_stage r"
  using example_record_wf(1)
  by (auto simp: example_records_def example_record_wf)
    (simp_all add: example_defs wf_record_def valid_stage_def hash_record_def)

lemma example_decodes:
  "\<forall>x. length (sha x) = 32 \<Longrightarrow>
     map decode_record (example_stream sha) = map Inr (map example_decoded (example_records sha))"
  using example_wf by (simp add: example_stream_def example_decoded_def decode_record_fields)

lemma example_accepted:
  "\<forall>x. length (sha x) = 32 \<Longrightarrow>
     \<exists>rep. verify_stream sha (example_stream sha) example_trust = Inr rep"
  using verify_stream_ok [OF example_decodes example_valid] by blast

section \<open>Properties\<close>

text \<open>C1.
  The verifier accepts a byte stream exactly when every element decodes, every record is
  admissible after its prefix (journal, epoch, next sequence number without overflow, fresh event
  identity, hash of its predecessor, lifecycle of its request, at most 4096 open requests, the
  record limit) and the records of every request form one complete history: received, then
  decided, then either denied, or concluded, or left unknown and recovered, with one binding and
  one decision identity throughout.\<close>

theorem verify_stream_iff:
  "(\<exists>rep. verify_stream sha bs trust = Inr rep)
     \<longleftrightarrow> (\<exists>ds. map decode_record bs = map Inr ds \<and> valid_stream sha trust ds)"
  using verify_stream_Inr verify_stream_ok by metis

text \<open>The report of an accepted stream counts: as many records as the stream has, and the
  denied, concluded and recovered terminals add up to the number of distinct requests, so no
  request is lost or terminated twice.\<close>

theorem verify_report_counts:
  assumes "verify_stream sha bs trust = Inr rep"
  shows "\<exists>ds. map decode_record bs = map Inr ds \<and> unat (vr_records rep) = length bs
    \<and> card (requests (map dr_record ds))
        = unat (vr_terminal_denied rep) + unat (vr_terminal_outcomes rep) + unat (vr_terminal_recoveries rep)"
proof -
  from verify_stream_Inr [OF assms] obtain ds where ds: "map decode_record bs = map Inr ds"
    "valid_stream sha trust ds" "unat (vr_records rep) = length ds" "counted (map dr_record ds) rep"
    by blast
  let ?rs = "map dr_record ds"
  have bound: "length ds < 2 ^ 64"
    using ds(3) unsigned_less [of "vr_records rep", where ?'a = nat] by simp
  have "length (filter terminal ?rs) \<le> length ds"
    using length_filter_le [of terminal ?rs] by simp
  with terminal_lengths [of ?rs] bound have "length (terminal_denials ?rs) < 2 ^ 64"
    "length (terminal_outcomes ?rs) < 2 ^ 64" "length (terminal_recoveries ?rs) < 2 ^ 64"
    by linarith+
  with ds(4) have "unat (vr_terminal_denied rep) = length (terminal_denials ?rs)"
    "unat (vr_terminal_outcomes rep) = length (terminal_outcomes ?rs)"
    "unat (vr_terminal_recoveries rep) = length (terminal_recoveries ?rs)"
    by (simp_all add: counted_def unat_of_nat)
  moreover have "length bs = length ds" using arg_cong [OF ds(1), of length] by simp
  ultimately show ?thesis
    using ds terminal_count [of ?rs] terminal_lengths [of ?rs]
    by (intro exI [of _ ds]) (simp add: valid_stream_def)
qed

theorem verify_report_counts_witness:
  "\<exists>rep ds. verify_stream toy_sha (example_stream toy_sha) example_trust = Inr rep
    \<and> map decode_record (example_stream toy_sha) = map Inr ds
    \<and> unat (vr_records rep) = length (example_stream toy_sha)"
proof -
  obtain rep where rep: "verify_stream toy_sha (example_stream toy_sha) example_trust = Inr rep"
    using example_accepted [OF length_toy_sha] by blast
  with verify_report_counts [OF rep] show ?thesis by blast
qed

definition link_input :: "stream_trust \<Rightarrow> bytes \<Rightarrow> bytes" where
  "link_input trust b = hash_input \<lparr>rb_journal_id = st_journal_id trust, rb_bytes = b\<rparr>"

lemma decoded_elements:
  assumes "map decode_record bs = map Inr ds" "d \<in> set ds"
  shows "\<exists>b. decode_record b = Inr d"
proof -
  from assms(2) have "Inr d \<in> decode_record ` set bs"
    using arg_cong [OF assms(1), of set] by simp
  then show ?thesis by auto
qed

lemma decoded_link_input:
  assumes "map decode_record bs = map Inr ds" "chained sha trust ds"
  shows "map (hash_input \<circ> dr_bytes) ds = map (link_input trust) bs"
proof (rule nth_equalityI)
  show len: "length (map (hash_input \<circ> dr_bytes) ds) = length (map (link_input trust) bs)"
    using arg_cong [OF assms(1), of length] by simp
  fix i assume i: "i < length (map (hash_input \<circ> dr_bytes) ds)"
  with len have "i < length bs" "i < length ds" by simp_all
  with arg_cong [OF assms(1), of "\<lambda>xs. xs ! i"] have "decode_record (bs ! i) = Inr (ds ! i)"
    by simp
  from decode_record_sound [OF this] assms(2) i len
  show "map (hash_input \<circ> dr_bytes) ds ! i = map (link_input trust) bs ! i"
    by (simp add: link_input_def chained_def)
qed

lemma stream_head_last:
  assumes "map decode_record bs = map Inr ds" "chained sha trust ds" "bs \<noteq> []"
  shows "stream_head sha trust ds = sha (link_input trust (last bs))" "ds \<noteq> []"
proof -
  show "ds \<noteq> []" using assms by auto
  with arg_cong [OF decoded_link_input [OF assms(1,2)], of last] assms(3)
  show "stream_head sha trust ds = sha (link_input trust (last bs))"
    by (simp add: stream_head_def hash_record_def last_map)
qed

text \<open>C8.
  Tamper evidence: two non-empty streams accepted under the same trust anchor whose last
  records have the same hash are byte for byte the same stream, unless two of the strings hashed
  along them collide under SHA-256.  A checkpoint that pins the head hash pins the whole stream:
  no record can be altered, dropped, inserted or reordered.\<close>

theorem verify_stream_tamper_evident:
  assumes "verify_stream sha bs trust = Inr rep" and "verify_stream sha bs' trust = Inr rep'"
    and "bs \<noteq> []" and "bs' \<noteq> []"
    and "sha (link_input trust (last bs)) = sha (link_input trust (last bs'))"
    and "inj_on sha (link_input trust ` (set bs \<union> set bs'))"
  shows "bs = bs'"
proof -
  from verify_stream_Inr [OF assms(1)] verify_stream_Inr [OF assms(2)] obtain ds ds' where
    ds: "map decode_record bs = map Inr ds" "chained sha trust ds" and
    ds': "map decode_record bs' = map Inr ds'" "chained sha trust ds'"
    unfolding valid_stream_def using valid_prefix_chained by blast
  note head = stream_head_last [OF ds assms(3)] stream_head_last [OF ds' assms(4)]
  note inputs = decoded_link_input [OF ds] decoded_link_input [OF ds']
  have set: "hash_input ` dr_bytes ` (set ds \<union> set ds') = link_input trust ` (set bs \<union> set bs')"
    using arg_cong [OF inputs(1), of set] arg_cong [OF inputs(2), of set]
    by (simp add: image_Un image_image)
  have "link_input trust (last bs) = link_input trust (last bs')"
    by (rule inj_onD [OF assms(6) assms(5)]) (use assms(3,4) in simp_all)
  then have "last bs = last bs'" by (simp add: link_input_def hash_input_def)
  moreover have "decode_record (last bs) = Inr (last ds)" "decode_record (last bs') = Inr (last ds')"
    using arg_cong [OF ds(1), of last] arg_cong [OF ds'(1), of last] head assms(3,4)
    by (simp_all add: last_map)
  ultimately have "last ds = last ds'" by simp
  moreover have "unat (wr_sequence (dr_record (last xs))) = unat (st_first_sequence trust) + (length xs - 1)"
    if "chained sha trust xs" "xs \<noteq> []" for xs
    using that by (simp add: chained_def last_conv_nth)
  ultimately have "length ds - 1 = length ds' - 1"
    using ds(2) ds'(2) head by (metis add_left_cancel)
  with head have len: "length ds = length ds'" by (cases ds; cases ds') auto
  have "\<forall>d \<in> set ds \<union> set ds'. \<exists>b. decode_record b = Inr d"
    using decoded_elements [OF ds(1)] decoded_elements [OF ds'(1)] by blast
  with chained_head_inject [OF ds(2) ds'(2) len] head assms(5,6) set have "ds = ds'" by simp
  with inputs have "map (link_input trust) bs = map (link_input trust) bs'" by simp
  moreover have "inj (link_input trust)"
    by (rule injI) (simp add: link_input_def hash_input_def)
  ultimately show ?thesis by (simp add: inj_map_eq_map)
qed

text \<open>A digest for the example that keeps the sequence number of the hashed record.\<close>

definition window_sha :: "bytes \<Rightarrow> bytes" where
  "window_sha x = take 32 (drop 72 x @ replicate 32 0)"

lemma length_window_sha: "\<forall>x. length (window_sha x) = 32"
  by (auto simp: window_sha_def min_def)

lemma window_sha_link:
  "take 8 (window_sha (link_input example_trust (record_fields (replicate 16 9) r)))
     = u64_to_be (wr_sequence r)"
  by (simp add: window_sha_def link_input_def hash_input_def HASH_DOMAIN_def example_trust_def
      stream_trust_new_def record_fields_def record_body_def numeral_eq_Suc be_simps)

lemma example_links_inj:
  "inj_on window_sha (link_input example_trust ` set (example_stream sha))"
proof (rule inj_onI)
  fix x y
  assume "x \<in> link_input example_trust ` set (example_stream sha)"
    and "y \<in> link_input example_trust ` set (example_stream sha)" and eq: "window_sha x = window_sha y"
  then obtain r r' where r: "r \<in> set (example_records sha)" "r' \<in> set (example_records sha)"
    and xy: "x = link_input example_trust (record_fields (replicate 16 9) r)"
      "y = link_input example_trust (record_fields (replicate 16 9) r')"
    by (auto simp: example_stream_def)
  with eq window_sha_link [of r] window_sha_link [of r'] have "wr_sequence r = wr_sequence r'"
    by (simp add: be_simps)
  with r have "r = r'" by (auto simp: example_records_def) (auto simp: example_defs)
  with xy show "x = y" by simp
qed

theorem verify_stream_tamper_evident_witness:
  "\<exists>rep. verify_stream window_sha (example_stream window_sha) example_trust = Inr rep
    \<and> inj_on window_sha (link_input example_trust ` set (example_stream window_sha))
    \<and> example_stream window_sha = example_stream window_sha"
proof -
  obtain rep where rep: "verify_stream window_sha (example_stream window_sha) example_trust = Inr rep"
    using example_accepted [OF length_window_sha] by blast
  moreover have ne: "example_stream window_sha \<noteq> []"
    by (simp add: example_stream_def example_records_def)
  ultimately show ?thesis
    using verify_stream_tamper_evident [OF rep rep ne ne refl] example_links_inj by simp
qed

end
