(* ===== verification/Recovery.thy ===== *)
theory Recovery
  imports Witness_Record
begin

text \<open>
  Model of \<^verbatim>\<open>ferro-core/src/witness/recovery.rs\<close>: the closed recovery instructions that startup
  reconciliation may execute, their constructor checks and their 101-byte durable encoding.

  The lemmas show that decoding is the exact inverse of encoding on every recipe the constructor
  accepts, except for the two original actions that the decoder does not know.
\<close>

section \<open>Recipes\<close>

datatype recovery_recipe_error = InvalidInverse | InvalidTruthStrategy

definition RECOVERY_RECIPE_SCHEMA_VERSION :: byte where "RECOVERY_RECIPE_SCHEMA_VERSION = 2"

datatype recovery_truth_strategy =
    TS_ContainerAbsent | TS_ExecutionObserved | TS_ContainerRunning | TS_ContainerPaused
  | TS_RestartObserved | TS_ContainerPresent | TS_InversePrecondition

primrec truth_strategy_u8 :: "recovery_truth_strategy \<Rightarrow> byte" where
  "truth_strategy_u8 TS_ContainerAbsent = 1"
| "truth_strategy_u8 TS_ExecutionObserved = 2"
| "truth_strategy_u8 TS_ContainerRunning = 3"
| "truth_strategy_u8 TS_ContainerPaused = 4"
| "truth_strategy_u8 TS_RestartObserved = 5"
| "truth_strategy_u8 TS_ContainerPresent = 6"
| "truth_strategy_u8 TS_InversePrecondition = 7"

definition for_container_action :: "witness_action \<Rightarrow> recovery_truth_strategy option" where
  "for_container_action action =
     (case action of
        ContainerCreate \<Rightarrow> Some TS_ContainerAbsent
      | ContainerRun \<Rightarrow> Some TS_ContainerAbsent
      | ContainerExec \<Rightarrow> Some TS_ExecutionObserved
      | ContainerPause \<Rightarrow> Some TS_ContainerRunning
      | ContainerStop \<Rightarrow> Some TS_ContainerRunning
      | ContainerKill \<Rightarrow> Some TS_ContainerRunning
      | ContainerResume \<Rightarrow> Some TS_ContainerPaused
      | ContainerRestart \<Rightarrow> Some TS_RestartObserved
      | ContainerStart \<Rightarrow> Some TS_RestartObserved
      | ContainerDelete \<Rightarrow> Some TS_ContainerPresent
      | ContainerArchiveWrite \<Rightarrow> Some TS_ContainerPresent
      | ContainerUpdate \<Rightarrow> Some TS_ContainerPresent
      | _ \<Rightarrow> None)"

definition expected_strategy :: "witness_action \<Rightarrow> recovery_truth_strategy" where
  "expected_strategy action =
     (case for_container_action action of Some s \<Rightarrow> s | None \<Rightarrow> TS_InversePrecondition)"

record recovery_recipe =
  rr_original_action :: witness_action
  rr_resource_kind :: witness_resource_kind
  rr_action :: witness_action
  rr_precondition_digest :: bytes
  rr_resource_generation :: u64
  rr_truth_strategy :: recovery_truth_strategy
  rr_observation_digest :: bytes
  rr_observation_handle :: bytes

definition closed_inverse ::
  "witness_action \<Rightarrow> witness_resource_kind \<Rightarrow> witness_action \<Rightarrow> bool" where
  "closed_inverse original kind action \<longleftrightarrow>
     original \<in> {ContainerCreate, ContainerRun, ContainerExec, ContainerPause, ContainerResume,
       ContainerStop, ContainerKill, ContainerRestart, ContainerStart, ContainerDelete,
       ContainerUpdate, ContainerArchiveWrite} \<and> kind = RK_Container \<and> action = ContainerDelete
     \<or> original \<in> {ImagePull, ImageDelete, ImageBuild, ImageTag, ImageReferenceWrite}
       \<and> kind = RK_Image \<and> action = ImageDelete
     \<or> original \<in> {VolumeCreate, VolumeDelete, VolumeRestore} \<and> kind = RK_Volume \<and> action = VolumeDelete
     \<or> original = VolumeBackup \<and> kind = RK_Volume \<and> action = VolumeBackup
     \<or> original = VolumeMount \<and> kind = RK_Volume \<and> action = VolumeUnmount
     \<or> original \<in> {NetworkCreate, NetworkDelete} \<and> kind = RK_Network \<and> action = NetworkDelete
     \<or> original \<in> {NetworkAttach, NetworkDetach} \<and> kind = RK_Network \<and> action = NetworkDetach
     \<or> original = RootlessMapping \<and> kind = RK_RootlessMapping \<and> action = RootlessMapping
     \<or> original = CheckpointPublish \<and> kind = RK_Administrative \<and> action = CheckpointRecover
     \<or> original = CheckpointRecover \<and> kind = RK_Administrative \<and> action = CheckpointRecover
     \<or> original = KeyRotate \<and> kind = RK_Administrative \<and> action = KeyRotate
     \<or> original = PolicyReload \<and> kind = RK_Administrative \<and> action = PolicyReload
     \<or> original = PolicyRollback \<and> kind = RK_Administrative \<and> action = PolicyRollback"

definition for_original_with_observation ::
  "witness_action \<Rightarrow> witness_resource_kind \<Rightarrow> witness_action \<Rightarrow> bytes \<Rightarrow> u64
    \<Rightarrow> recovery_truth_strategy \<Rightarrow> bytes \<Rightarrow> bytes \<Rightarrow> recovery_recipe_error + recovery_recipe" where
  "for_original_with_observation original kind action precondition generation strategy
      observation_digest observation_handle =
     (if \<not> closed_inverse original kind action then Inl InvalidInverse
      else if strategy \<noteq> expected_strategy original then Inl InvalidTruthStrategy
      else Inr \<lparr>rr_original_action = original, rr_resource_kind = kind, rr_action = action,
        rr_precondition_digest = precondition, rr_resource_generation = generation,
        rr_truth_strategy = strategy, rr_observation_digest = observation_digest,
        rr_observation_handle = observation_handle\<rparr>)"

definition for_original ::
  "witness_action \<Rightarrow> witness_resource_kind \<Rightarrow> witness_action \<Rightarrow> bytes \<Rightarrow> u64
    \<Rightarrow> recovery_recipe_error + recovery_recipe" where
  "for_original original kind action precondition generation =
     for_original_with_observation original kind action precondition generation
       (expected_strategy original) precondition (replicate 16 0)"

section \<open>The durable encoding\<close>

definition recipe_encode :: "u64 \<Rightarrow> recovery_recipe \<Rightarrow> bytes" where
  "recipe_encode generation r =
     [RECOVERY_RECIPE_SCHEMA_VERSION] @ u64_to_be generation @ [action_u8 (rr_original_action r)]
     @ [resource_kind_u8 (rr_resource_kind r)] @ [action_u8 (rr_action r)]
     @ [truth_strategy_u8 (rr_truth_strategy r)] @ rr_observation_digest r
     @ rr_observation_handle r @ rr_precondition_digest r @ u64_to_be (rr_resource_generation r)"

definition truth_strategy_from :: "byte \<Rightarrow> recovery_truth_strategy option" where
  "truth_strategy_from b =
     (if b = 1 then Some TS_ContainerAbsent
      else if b = 2 then Some TS_ExecutionObserved
      else if b = 3 then Some TS_ContainerRunning
      else if b = 4 then Some TS_ContainerPaused
      else if b = 5 then Some TS_RestartObserved
      else if b = 6 then Some TS_ContainerPresent
      else if b = 7 then Some TS_InversePrecondition
      else None)"

definition action_from :: "byte \<Rightarrow> witness_action option" where
  "action_from b =
     (if b = 1 then Some ContainerCreate
      else if b = 2 then Some ContainerRun
      else if b = 3 then Some ContainerExec
      else if b = 4 then Some ContainerPause
      else if b = 5 then Some ContainerResume
      else if b = 6 then Some ContainerStop
      else if b = 7 then Some ContainerKill
      else if b = 8 then Some ContainerRestart
      else if b = 9 then Some ContainerDelete
      else if b = 10 then Some ImagePull
      else if b = 11 then Some ImageDelete
      else if b = 12 then Some VolumeCreate
      else if b = 13 then Some VolumeDelete
      else if b = 14 then Some VolumeMount
      else if b = 16 then Some NetworkCreate
      else if b = 17 then Some NetworkDelete
      else if b = 18 then Some NetworkAttach
      else if b = 21 then Some PolicyReload
      else if b = 22 then Some PolicyRollback
      else if b = 23 then Some CheckpointPublish
      else if b = 24 then Some ImageBuild
      else if b = 25 then Some ImageTag
      else if b = 26 then Some ImageReferenceWrite
      else if b = 27 then Some CheckpointRecover
      else if b = 28 then Some KeyRotate
      else if b = 29 then Some RootlessMapping
      else if b = 30 then Some ContainerRename
      else if b = 32 then Some ContainerArchiveWrite
      else if b = 33 then Some ContainerUpdate
      else if b = 34 then Some VolumeBackup
      else if b = 35 then Some VolumeRestore
      else None)"

definition resource_kind_from :: "byte \<Rightarrow> witness_resource_kind option" where
  "resource_kind_from b =
     (if b = 1 then Some RK_Container
      else if b = 2 then Some RK_Image
      else if b = 3 then Some RK_Volume
      else if b = 4 then Some RK_Network
      else if b = 7 then Some RK_Administrative
      else if b = 8 then Some RK_RootlessMapping
      else None)"

definition cleanup_action_from :: "byte \<Rightarrow> witness_action option" where
  "cleanup_action_from b =
     (if b = 9 then Some ContainerDelete
      else if b = 11 then Some ImageDelete
      else if b = 13 then Some VolumeDelete
      else if b = 15 then Some VolumeUnmount
      else if b = 17 then Some NetworkDelete
      else if b = 19 then Some NetworkDetach
      else if b = 21 then Some PolicyReload
      else if b = 22 then Some PolicyRollback
      else if b = 27 then Some CheckpointRecover
      else if b = 28 then Some KeyRotate
      else if b = 29 then Some RootlessMapping
      else if b = 34 then Some VolumeBackup
      else None)"

definition recipe_decode :: "bytes \<Rightarrow> (u64 \<times> recovery_recipe) option" where
  "recipe_decode bs =
     (if length bs \<noteq> 101 \<or> bs ! 0 \<noteq> RECOVERY_RECIPE_SCHEMA_VERSION then None
      else case (action_from (bs ! 9), resource_kind_from (bs ! 10), cleanup_action_from (bs ! 11),
          truth_strategy_from (bs ! 12)) of
        (Some original, Some kind, Some action, Some strategy) \<Rightarrow>
          (case for_original_with_observation original kind action (subslice 61 93 bs)
              (u64_from_be (subslice 93 101 bs)) strategy (subslice 13 45 bs) (subslice 45 61 bs) of
             Inr recipe \<Rightarrow> Some (u64_from_be (subslice 1 9 bs), recipe)
           | Inl _ \<Rightarrow> None)
      | _ \<Rightarrow> None)"

section \<open>Pending operations and evidence\<close>

record pending_operation =
  po_operation_id :: bytes
  po_execution_generation :: u64
  po_recipe :: recovery_recipe

record recovery_evidence =
  re_operation_id :: bytes
  re_execution_generation :: u64
  re_original_action :: witness_action
  re_resource_kind :: witness_resource_kind
  re_resource_generation :: u64
  re_truth_strategy :: recovery_truth_strategy
  re_observation_handle :: bytes
  re_observation_digest :: bytes
  re_recovered :: bool

definition evidence_verified :: "pending_operation \<Rightarrow> bytes \<Rightarrow> bool \<Rightarrow> recovery_evidence" where
  "evidence_verified pending observation_digest recovered =
     \<lparr>re_operation_id = po_operation_id pending,
      re_execution_generation = po_execution_generation pending,
      re_original_action = rr_original_action (po_recipe pending),
      re_resource_kind = rr_resource_kind (po_recipe pending),
      re_resource_generation = rr_resource_generation (po_recipe pending),
      re_truth_strategy = rr_truth_strategy (po_recipe pending),
      re_observation_handle = rr_observation_handle (po_recipe pending),
      re_observation_digest = observation_digest, re_recovered = recovered\<rparr>"

section \<open>Recipes the constructor accepts\<close>

definition wf_recipe :: "recovery_recipe \<Rightarrow> bool" where
  "wf_recipe r \<longleftrightarrow> closed_inverse (rr_original_action r) (rr_resource_kind r) (rr_action r)
     \<and> rr_truth_strategy r = expected_strategy (rr_original_action r)
     \<and> length (rr_precondition_digest r) = 32 \<and> length (rr_observation_digest r) = 32
     \<and> length (rr_observation_handle r) = 16"

lemma for_original_wf:
  assumes "for_original_with_observation a k c pre gen s od oh = Inr r"
    and "length pre = 32" "length od = 32" "length oh = 16"
  shows "wf_recipe r"
  using assms by (auto simp: for_original_with_observation_def wf_recipe_def split: if_splits)

lemma truth_strategy_from_u8 [simp]: "truth_strategy_from (truth_strategy_u8 s) = Some s"
  by (cases s) (simp_all add: truth_strategy_from_def)

lemma truth_strategy_from_inv: "truth_strategy_from b = Some s \<Longrightarrow> truth_strategy_u8 s = b"
  by (auto simp: truth_strategy_from_def split: if_splits)

lemma action_from_inv: "action_from b = Some a \<Longrightarrow> action_u8 a = b"
  by (auto simp: action_from_def split: if_splits)

lemma cleanup_action_from_inv: "cleanup_action_from b = Some a \<Longrightarrow> action_u8 a = b"
  by (auto simp: cleanup_action_from_def split: if_splits)

lemma resource_kind_from_inv: "resource_kind_from b = Some k \<Longrightarrow> resource_kind_u8 k = b"
  by (auto simp: resource_kind_from_def split: if_splits)

definition undecodable :: "witness_action set" where
  "undecodable = {NetworkDetach, ContainerStart}"

lemma closed_inverse_codes:
  assumes "closed_inverse original kind action"
  shows "action_from (action_u8 original) = (if original \<in> undecodable then None else Some original)"
    and "resource_kind_from (resource_kind_u8 kind) = Some kind"
    and "cleanup_action_from (action_u8 action) = Some action"
proof -
  show "action_from (action_u8 original) = (if original \<in> undecodable then None else Some original)"
    using assms by (cases original) (simp_all add: closed_inverse_def action_from_def undecodable_def)
  show "resource_kind_from (resource_kind_u8 kind) = Some kind"
    using assms by (cases kind) (simp_all add: closed_inverse_def resource_kind_from_def)
  show "cleanup_action_from (action_u8 action) = Some action"
    using assms by (cases action) (simp_all add: closed_inverse_def cleanup_action_from_def)
qed

lemma recipe_encode_layout:
  assumes "wf_recipe r"
  shows "length (recipe_encode g r) = 101" "recipe_encode g r ! 0 = RECOVERY_RECIPE_SCHEMA_VERSION"
    "subslice 1 9 (recipe_encode g r) = u64_to_be g"
    "recipe_encode g r ! 9 = action_u8 (rr_original_action r)"
    "recipe_encode g r ! 10 = resource_kind_u8 (rr_resource_kind r)"
    "recipe_encode g r ! 11 = action_u8 (rr_action r)"
    "recipe_encode g r ! 12 = truth_strategy_u8 (rr_truth_strategy r)"
    "subslice 13 45 (recipe_encode g r) = rr_observation_digest r"
    "subslice 45 61 (recipe_encode g r) = rr_observation_handle r"
    "subslice 61 93 (recipe_encode g r) = rr_precondition_digest r"
    "subslice 93 101 (recipe_encode g r) = u64_to_be (rr_resource_generation r)"
  using assms by (simp_all add: recipe_encode_def wf_recipe_def subslice_append subslice_Cons nth_append)


lemma subslice_single: "i < length xs \<Longrightarrow> subslice i (Suc i) xs = [xs ! i]"
  by (simp add: subslice_def take_Suc_conv_app_nth)

lemma recipe_bytes_split:
  assumes "length bs = 101"
  shows "bs = [bs ! 0] @ subslice 1 9 bs @ [bs ! 9] @ [bs ! 10] @ [bs ! 11] @ [bs ! 12]
    @ subslice 13 45 bs @ subslice 45 61 bs @ subslice 61 93 bs @ subslice 93 101 bs"
proof -
  have "[bs ! 0] = subslice 0 1 bs" "[bs ! 9] = subslice 9 10 bs" "[bs ! 10] = subslice 10 11 bs"
    "[bs ! 11] = subslice 11 12 bs" "[bs ! 12] = subslice 12 13 bs"
    using subslice_single [of 0 bs] subslice_single [of 9 bs] subslice_single [of 10 bs]
      subslice_single [of 11 bs] subslice_single [of 12 bs] assms by simp_all
  moreover have "subslice 0 101 bs = bs" using assms by simp
  ultimately show ?thesis by (simp add: subslice_join del: append_Cons append_Nil subslice_all)
qed

lemma recipe_decode_Some:
  "recipe_decode bs = Some (g, r) \<longleftrightarrow>
     length bs = 101 \<and> bs ! 0 = RECOVERY_RECIPE_SCHEMA_VERSION \<and> g = u64_from_be (subslice 1 9 bs)
     \<and> (\<exists>original kind action strategy.
          action_from (bs ! 9) = Some original \<and> resource_kind_from (bs ! 10) = Some kind
          \<and> cleanup_action_from (bs ! 11) = Some action \<and> truth_strategy_from (bs ! 12) = Some strategy
          \<and> for_original_with_observation original kind action (subslice 61 93 bs)
              (u64_from_be (subslice 93 101 bs)) strategy (subslice 13 45 bs) (subslice 45 61 bs) = Inr r)"
  by (auto simp: recipe_decode_def split: option.splits sum.splits)

lemma recipe_decode_encode:
  assumes wf: "wf_recipe r" and "rr_original_action r \<notin> undecodable"
  shows "recipe_decode (recipe_encode g r) = Some (g, r)"
proof -
  have "closed_inverse (rr_original_action r) (rr_resource_kind r) (rr_action r)"
    using wf by (simp add: wf_recipe_def)
  with assms show ?thesis
    unfolding recipe_decode_Some
    by (simp add: closed_inverse_codes recipe_encode_layout [OF wf]
        recipe_encode_layout(3) [OF wf, unfolded One_nat_def] for_original_with_observation_def
        wf_recipe_def)
qed

section \<open>Properties\<close>

text \<open>A recipe the constructor accepts decodes from its durable encoding to itself, at every
  execution generation, unless its original action is \<open>NetworkDetach\<close> or \<open>ContainerStart\<close>: these
  two the constructor accepts but the decoder rejects.\<close>

theorem recipe_roundtrip:
  assumes "for_original_with_observation original kind action pre gen strategy digest handle = Inr r"
    and "length pre = 32" and "length digest = 32" and "length handle = 16"
  shows "length (recipe_encode g r) = 101
    \<and> recipe_decode (recipe_encode g r)
        = (if original \<in> {NetworkDetach, ContainerStart} then None else Some (g, r))"
proof -
  have wf: "wf_recipe r" using for_original_wf [OF assms] .
  have orig: "rr_original_action r = original"
    using assms(1) by (auto simp: for_original_with_observation_def split: if_splits)
  have "closed_inverse (rr_original_action r) (rr_resource_kind r) (rr_action r)"
    using wf by (simp add: wf_recipe_def)
  note codes = closed_inverse_codes [OF this]
  show ?thesis
  proof (cases "original \<in> {NetworkDetach, ContainerStart}")
    case True
    with codes(1) orig recipe_encode_layout [OF wf] show ?thesis
      by (simp add: recipe_decode_def undecodable_def)
  next
    case False
    with orig have "recipe_decode (recipe_encode g r) = Some (g, r)"
      by (intro recipe_decode_encode wf) (simp add: undecodable_def)
    with False recipe_encode_layout(1) [OF wf] show ?thesis by simp
  qed
qed

theorem recipe_roundtrip_witness:
  "\<exists>r. for_original ContainerRun RK_Container ContainerDelete (replicate 32 1) 7 = Inr r
    \<and> recipe_decode (recipe_encode 5 r) = Some (5, r)"
  using recipe_roundtrip [of ContainerRun RK_Container ContainerDelete "replicate 32 1" 7
      "expected_strategy ContainerRun" "replicate 32 1" "replicate 16 0"]
  by (simp add: for_original_def for_original_with_observation_def closed_inverse_def)

text \<open>The durable form is canonical and closed: whatever bytes decode are the encoding of the
  decoded recipe, and the recipe is one the constructor accepts, so corrupt or forged bytes cannot
  introduce an instruction outside the closed table of inverses.\<close>

theorem recipe_decode_canonical:
  assumes "recipe_decode bs = Some (g, r)"
  shows "bs = recipe_encode g r
    \<and> for_original_with_observation (rr_original_action r) (rr_resource_kind r) (rr_action r)
        (rr_precondition_digest r) (rr_resource_generation r) (rr_truth_strategy r)
        (rr_observation_digest r) (rr_observation_handle r) = Inr r"
proof -
  from assms obtain original kind action strategy where
    len: "length bs = 101" and head: "bs ! 0 = RECOVERY_RECIPE_SCHEMA_VERSION"
      "g = u64_from_be (subslice 1 9 bs)" and
    codes: "action_from (bs ! 9) = Some original" "resource_kind_from (bs ! 10) = Some kind"
      "cleanup_action_from (bs ! 11) = Some action" "truth_strategy_from (bs ! 12) = Some strategy" and
    r: "for_original_with_observation original kind action (subslice 61 93 bs)
          (u64_from_be (subslice 93 101 bs)) strategy (subslice 13 45 bs) (subslice 45 61 bs) = Inr r"
    by (auto simp: recipe_decode_Some)
  from r have fields: "rr_original_action r = original" "rr_resource_kind r = kind"
    "rr_action r = action" "rr_truth_strategy r = strategy" "rr_precondition_digest r = subslice 61 93 bs"
    "rr_resource_generation r = u64_from_be (subslice 93 101 bs)"
    "rr_observation_digest r = subslice 13 45 bs" "rr_observation_handle r = subslice 45 61 bs"
    by (auto simp: for_original_with_observation_def split: if_splits)
  have "recipe_encode g r = bs"
    using recipe_bytes_split [OF len] head fields action_from_inv [OF codes(1)]
      resource_kind_from_inv [OF codes(2)] cleanup_action_from_inv [OF codes(3)]
      truth_strategy_from_inv [OF codes(4)] len
    by (simp add: recipe_encode_def u64_to_from_be)
  with r fields show ?thesis by simp
qed

definition example_recipe :: recovery_recipe where
  "example_recipe = \<lparr>rr_original_action = ImagePull, rr_resource_kind = RK_Image,
     rr_action = ImageDelete, rr_precondition_digest = replicate 32 1, rr_resource_generation = 3,
     rr_truth_strategy = TS_InversePrecondition, rr_observation_digest = replicate 32 2,
     rr_observation_handle = replicate 16 4\<rparr>"

lemma example_recipe_decodes: "recipe_decode (recipe_encode 6 example_recipe) = Some (6, example_recipe)"
  by (rule recipe_decode_encode)
    (simp_all add: example_recipe_def wf_recipe_def closed_inverse_def expected_strategy_def
      for_container_action_def undecodable_def)

theorem recipe_decode_canonical_witness:
  "recipe_decode (recipe_encode 6 example_recipe) = Some (6, example_recipe)
    \<and> for_original_with_observation ImagePull RK_Image ImageDelete (replicate 32 1) 3
        TS_InversePrecondition (replicate 32 2) (replicate 16 4) = Inr example_recipe"
  using recipe_decode_canonical [OF example_recipe_decodes] example_recipe_decodes
  by (simp add: example_recipe_def)

end
