(* ===== verification/Journal_Store.thy ===== *)
theory Journal_Store
  imports Prelude "HOL-Library.List_Lexorder"
begin

text \<open>
  Model of the key-value store of \<^verbatim>\<open>ferro-core/src/witness/journal/storage.rs\<close>.

  The SQLite table \<open>kv(tree, key, value)\<close> with primary key \<open>(tree, key)\<close> is a function from tree
  names to association lists in key order.  The order is the lexicographic order of unsigned
  bytes, the order in which SQLite compares blobs and \<open>ORDER BY key\<close> returns them.  A transaction
  is a function on the store whose error discards every change.  Errors of the SQLite engine
  itself are not modelled.

  The locale \<open>ordered_store\<close> states what the journal relies on: lookups after updates and scans
  in strict key order.  Its lemmas are the facts about scans the journal's invariant needs; they
  reach the journal through the interpretation on the model's own operations.
\<close>

section \<open>Ordered stores\<close>

locale ordered_store =
  fixes get :: "'k :: linorder \<Rightarrow> 't \<Rightarrow> 'v option"
    and put :: "'k \<Rightarrow> 'v \<Rightarrow> 't \<Rightarrow> 't"
    and remove :: "'k \<Rightarrow> 't \<Rightarrow> 't"
    and scan :: "'t \<Rightarrow> ('k \<times> 'v) list"
    and inv :: "'t \<Rightarrow> bool"
  assumes get_put: "inv t \<Longrightarrow> get k (put k' v t) = (if k = k' then Some v else get k t)"
    and get_remove: "inv t \<Longrightarrow> get k (remove k' t) = (if k = k' then None else get k t)"
    and put_inv: "inv t \<Longrightarrow> inv (put k v t)"
    and remove_inv: "inv t \<Longrightarrow> inv (remove k t)"
    and scan_sorted: "inv t \<Longrightarrow> sorted_wrt (<) (map fst (scan t))"
    and scan_get: "inv t \<Longrightarrow> map_of (scan t) k = get k t"
begin

lemma strict_sorted_distinct: "sorted_wrt (<) (xs :: 'k list) \<Longrightarrow> sorted xs \<and> distinct xs"
  by (auto simp: strict_sorted_iff)

lemma scan_eqI:
  assumes "inv t" and "sorted_wrt (<) (map fst xs)" and "\<And>k. get k t = map_of xs k"
  shows "scan t = xs"
proof -
  have "map_of (scan t) = map_of xs" using assms by (auto simp: scan_get fun_eq_iff)
  moreover have "distinct (map fst (scan t))" "distinct (map fst xs)"
    "sorted (map fst (scan t))" "sorted (map fst xs)"
    using strict_sorted_distinct [OF scan_sorted [OF assms(1)]] strict_sorted_distinct [OF assms(2)]
    by auto
  ultimately have "set (scan t) = set xs" by (simp add: map_of_inject_set)
  moreover from this have "inj_on fst (set (scan t) \<union> set xs)"
    using \<open>distinct (map fst xs)\<close> by (simp add: distinct_map)
  ultimately show ?thesis
    using \<open>distinct (map fst (scan t))\<close> \<open>distinct (map fst xs)\<close> \<open>sorted (map fst (scan t))\<close>
      \<open>sorted (map fst xs)\<close>
    by (intro map_sorted_distinct_set_unique [of fst])
qed

lemma scan_put_last:
  assumes "inv t" and "\<And>k'. k' \<in> fst ` set (scan t) \<Longrightarrow> k' < k"
  shows "scan (put k v t) = scan t @ [(k, v)]"
proof (rule scan_eqI)
  show "inv (put k v t)" using assms(1) by (rule put_inv)
  show "sorted_wrt (<) (map fst (scan t @ [(k, v)]))"
    using scan_sorted [OF assms(1)] assms(2) by (auto simp: sorted_wrt_append)
  have "k \<notin> fst ` set (scan t)" using assms(2) by blast
  then have "map_of (scan t) k = None" by (simp add: map_of_eq_None_iff)
  then show "get k' (put k v t) = map_of (scan t @ [(k, v)]) k'" for k'
    using assms(1) scan_get [OF assms(1), of k']
    by (auto simp: get_put map_of_append map_add_def split: option.split)
qed

lemma fold_remove_inv: "inv t \<Longrightarrow> inv (fold remove ks t)"
  by (induction ks arbitrary: t) (auto simp: remove_inv)

lemma get_fold_remove:
  "inv t \<Longrightarrow> get k (fold remove ks t) = (if k \<in> set ks then None else get k t)"
  by (induction ks arbitrary: t) (auto simp: get_remove remove_inv)

lemma scan_remove_all:
  assumes "inv t"
  shows "scan (fold remove (map fst (scan t)) t) = []"
proof (rule scan_eqI)
  show "get k (fold remove (map fst (scan t)) t) = map_of [] k" for k
    using assms scan_get [OF assms, of k] map_of_eq_None_iff [of "scan t" k]
    by (simp add: get_fold_remove)
qed (simp_all add: assms fold_remove_inv)

end

section \<open>Sorted association lists\<close>

fun alist_put :: "'k :: linorder \<Rightarrow> 'v \<Rightarrow> ('k \<times> 'v) list \<Rightarrow> ('k \<times> 'v) list" where
  "alist_put k v [] = [(k, v)]"
| "alist_put k v ((k', v') # xs) =
     (if k < k' then (k, v) # (k', v') # xs
      else if k = k' then (k, v) # xs
      else (k', v') # alist_put k v xs)"

definition alist_remove :: "'k \<Rightarrow> ('k \<times> 'v) list \<Rightarrow> ('k \<times> 'v) list" where
  "alist_remove k xs = filter (\<lambda>(k', _). k' \<noteq> k) xs"

abbreviation alist_sorted :: "('k :: linorder \<times> 'v) list \<Rightarrow> bool" where
  "alist_sorted xs \<equiv> sorted_wrt (<) (map fst xs)"

lemma alist_put_keys: "set (map fst (alist_put k v xs)) = insert k (set (map fst xs))"
  by (induction k v xs rule: alist_put.induct) auto

lemma alist_put_sorted: "alist_sorted xs \<Longrightarrow> alist_sorted (alist_put k v xs)"
proof (induction k v xs rule: alist_put.induct)
  case (2 k v k' v' xs)
  then show ?case using alist_put_keys [of k v xs] by (auto simp: not_less)
qed simp

lemma alist_put_lookup: "map_of (alist_put k v xs) k' = (if k' = k then Some v else map_of xs k')"
  by (induction k v xs rule: alist_put.induct) auto

lemma alist_remove_lookup: "map_of (alist_remove k xs) k' = (if k' = k then None else map_of xs k')"
  by (induction xs) (auto simp: alist_remove_def)

lemma alist_remove_sorted: "alist_sorted xs \<Longrightarrow> alist_sorted (alist_remove k xs)"
  by (induction xs) (auto simp: alist_remove_def)

interpretation alist: ordered_store "\<lambda>k t. map_of t k" alist_put alist_remove "\<lambda>t. t" alist_sorted
  by unfold_locales
    (simp_all add: alist_put_lookup alist_remove_lookup alist_put_sorted alist_remove_sorted)

section \<open>The table and its transactions\<close>

datatype tree_name =
    T_Records | T_Operations | T_Events | T_Pending | T_Meta | T_Segments | T_SealedSegments

type_synonym entries = "(bytes \<times> bytes) list"
type_synonym kv_store = "tree_name \<Rightarrow> entries"

definition kv_get :: "tree_name \<Rightarrow> bytes \<Rightarrow> kv_store \<Rightarrow> bytes option" where
  "kv_get tree key s = map_of (s tree) key"

definition kv_put :: "tree_name \<Rightarrow> bytes \<Rightarrow> bytes \<Rightarrow> kv_store \<Rightarrow> kv_store" where
  "kv_put tree key v s = s(tree := alist_put key v (s tree))"

definition kv_remove :: "tree_name \<Rightarrow> bytes \<Rightarrow> kv_store \<Rightarrow> kv_store" where
  "kv_remove tree key s = s(tree := alist_remove key (s tree))"

definition kv_scan :: "tree_name \<Rightarrow> kv_store \<Rightarrow> entries" where
  "kv_scan tree s = s tree"

definition kv_contains :: "tree_name \<Rightarrow> bytes \<Rightarrow> kv_store \<Rightarrow> bool" where
  "kv_contains tree key s = (kv_get tree key s \<noteq> None)"

definition kv_transaction :: "(kv_store \<Rightarrow> 'e + kv_store) \<Rightarrow> kv_store \<Rightarrow> ('e + unit) \<times> kv_store" where
  "kv_transaction callback s =
     (case callback s of Inl e \<Rightarrow> (Inl e, s) | Inr s' \<Rightarrow> (Inr (), s'))"

definition kv_sorted :: "kv_store \<Rightarrow> bool" where
  "kv_sorted s \<longleftrightarrow> (\<forall>tree. alist_sorted (s tree))"

lemma kv_get_put: "kv_get tr k (kv_put tr' k' v s) = (if tr = tr' \<and> k = k' then Some v else kv_get tr k s)"
  by (simp add: kv_get_def kv_put_def alist_put_lookup)

lemma kv_get_remove: "kv_get tr k (kv_remove tr' k' s) = (if tr = tr' \<and> k = k' then None else kv_get tr k s)"
  by (simp add: kv_get_def kv_remove_def alist_remove_lookup)

lemma kv_scan_put_other: "tr \<noteq> tr' \<Longrightarrow> kv_scan tr (kv_put tr' k v s) = kv_scan tr s"
  by (simp add: kv_scan_def kv_put_def)

lemma kv_scan_remove_other: "tr \<noteq> tr' \<Longrightarrow> kv_scan tr (kv_remove tr' k s) = kv_scan tr s"
  by (simp add: kv_scan_def kv_remove_def)

lemma kv_sorted_put: "kv_sorted s \<Longrightarrow> kv_sorted (kv_put tr k v s)"
  by (simp add: kv_sorted_def kv_put_def alist_put_sorted)

lemma kv_sorted_remove: "kv_sorted s \<Longrightarrow> kv_sorted (kv_remove tr k s)"
  by (simp add: kv_sorted_def kv_remove_def alist_remove_sorted)

lemma kv_scan_put_last:
  assumes "kv_sorted s" "\<And>k'. k' \<in> fst ` set (kv_scan tr s) \<Longrightarrow> k' < k"
  shows "kv_scan tr (kv_put tr k v s) = kv_scan tr s @ [(k, v)]"
  using assms alist.scan_put_last [of "s tr" k v] by (simp add: kv_sorted_def kv_scan_def kv_put_def)

lemma kv_fold_remove: "fold (kv_remove tr) ks s = s(tr := fold alist_remove ks (s tr))"
  by (induction ks arbitrary: s) (auto simp: kv_remove_def)

lemma kv_scan_remove_all:
  assumes "kv_sorted s"
  shows "kv_scan tr (fold (kv_remove tr) (map fst (kv_scan tr s)) s) = []"
  using assms alist.scan_remove_all [of "s tr"] by (simp add: kv_fold_remove kv_scan_def kv_sorted_def)

lemma kv_get_scan: "kv_get tr k s = map_of (kv_scan tr s) k"
  by (simp add: kv_get_def kv_scan_def)

lemmas kv_simps = kv_get_put kv_get_remove kv_scan_put_other kv_scan_remove_other
  kv_sorted_put kv_sorted_remove

section \<open>Big-endian keys are in numeric order\<close>

lemma lex_less_snoc:
  fixes xs ys :: "'a :: linorder list"
  assumes "length xs = length ys"
  shows "xs @ [a] < ys @ [b] \<longleftrightarrow> xs < ys \<or> xs = ys \<and> a < b"
  using assms by (induction xs ys rule: list_induct2) (auto simp: list_less_def)

lemma nat_to_be_less:
  assumes "x < y" "y < 256 ^ n"
  shows "nat_to_be n x < nat_to_be n y"
  using assms
proof (induction n arbitrary: x y)
  case (Suc n)
  have "x div 256 < y div 256 \<or> x div 256 = y div 256 \<and> x mod 256 < y mod 256"
    using Suc.prems(1) by (metis div_le_mono div_mult_mod_eq le_neq_implies_less less_imp_le_nat
        nat_add_left_cancel_less)
  moreover have "y div 256 < 256 ^ n"
    using Suc.prems(2) by (simp add: less_mult_imp_div_less mult.commute)
  moreover have "(of_nat (x mod 256) :: byte) < of_nat (y mod 256)" if "x mod 256 < y mod 256"
    using that by (simp add: word_less_nat_alt unat_byte_of_nat)
  ultimately show ?case using Suc.IH by (auto simp: lex_less_snoc)
qed simp

lemma u64_to_be_less: "a < b \<Longrightarrow> u64_to_be a < u64_to_be b"
  using unsigned_less [of b, where ?'a = nat]
  by (simp add: u64_to_be_def word_less_nat_alt nat_to_be_less)

end
