(* ===== verification/Journal_State.thy ===== *)
theory Journal_State
  imports Witness_Verify
begin

text \<open>
  Model of \<^verbatim>\<open>ferro-core/src/witness/journal/state.rs\<close>: the durable state the journal keeps for one
  operation, its 343-byte encoding and the digest that binds later records to the request.

  The lemmas show that the encoding is a bijection onto the accepted byte strings and that the
  binding digest implies the binding the stream verifier checks.
\<close>

section \<open>Operation states\<close>

definition RECEIVED :: byte where "RECEIVED = 1"
definition ALLOWED :: byte where "ALLOWED = 2"
definition COMPLETE :: byte where "COMPLETE = 3"
definition UNKNOWN :: byte where "UNKNOWN = 4"

lemmas state_codes = RECEIVED_def ALLOWED_def COMPLETE_def UNKNOWN_def

record operation_state =
  os_state :: byte
  os_execution_generation :: u64
  os_pending_generation :: u64
  os_request_id :: bytes
  os_runtime_id :: bytes
  os_boot_id :: bytes
  os_principal :: bytes
  os_invocation :: byte
  os_action :: byte
  os_resource_kind :: byte
  os_resource :: bytes
  os_resource_generation :: u64
  os_policy_version :: u64
  os_policy_digest :: bytes
  os_request_digest :: bytes
  os_path_class :: byte
  os_device_class :: byte
  os_correlation_digest :: "bytes option"
  os_decision_id :: bytes
  os_decision_digest :: bytes
  os_unknown_event_id :: bytes
  os_binding_digest :: bytes

definition wf_state :: "operation_state \<Rightarrow> bool" where
  "wf_state s \<longleftrightarrow>
     length (os_request_id s) = 16 \<and> length (os_runtime_id s) = 16 \<and> length
     (os_boot_id s) = 16 \<and> length (os_principal s) = 32 \<and> length (os_resource s) = 32
     \<and> length (os_policy_digest s) = 32 \<and> length (os_request_digest s) = 32 \<and>
     opt_len 32 (os_correlation_digest s) \<and> length (os_decision_id s) = 16 \<and> length
     (os_decision_digest s) = 32 \<and> length (os_unknown_event_id s) = 16 \<and> length
     (os_binding_digest s) = 32"

definition map_or_zero :: "('a \<Rightarrow> byte) \<Rightarrow> 'a option \<Rightarrow> byte" where
  "map_or_zero f v = (case v of None \<Rightarrow> 0 | Some x \<Rightarrow> f x)"

definition binding_input :: "witness_record \<Rightarrow> bytes" where
  "binding_input r =
     bstr ''FERROCRATE-REQUEST-BINDING-V2'' @ u64_to_be (wr_epoch r) @ wr_runtime_instance_id r
     @ wr_boot_id r @ wr_principal r
     @ [invocation_u8 (wr_invocation r), action_u8 (wr_action r), resource_kind_u8 (wr_resource_kind r)]
     @ wr_resource r @ u64_to_be (wr_resource_generation r) @ u64_to_be (wr_policy_version r)
     @ wr_policy_digest r @ wr_request_digest r
     @ [map_or_zero disclosure_u8 (wr_path_class r), map_or_zero disclosure_u8 (wr_device_class r)]
     @ (case wr_correlation_digest r of Some v \<Rightarrow> [1] @ v | None \<Rightarrow> [0])"

definition request_binding_digest :: "(bytes \<Rightarrow> bytes) \<Rightarrow> witness_record \<Rightarrow> bytes" where
  "request_binding_digest sha r = sha (binding_input r)"

definition state_received :: "(bytes \<Rightarrow> bytes) \<Rightarrow> witness_record \<Rightarrow> u64 \<Rightarrow> operation_state" where
  "state_received sha r execution_generation =
     \<lparr>os_state = RECEIVED, os_execution_generation = execution_generation, os_pending_generation = 1,
      os_request_id = wr_request_id r, os_runtime_id = wr_runtime_instance_id r,
      os_boot_id = wr_boot_id r, os_principal = wr_principal r,
      os_invocation = invocation_u8 (wr_invocation r), os_action = action_u8 (wr_action r),
      os_resource_kind = resource_kind_u8 (wr_resource_kind r), os_resource = wr_resource r,
      os_resource_generation = wr_resource_generation r, os_policy_version = wr_policy_version r,
      os_policy_digest = wr_policy_digest r, os_request_digest = wr_request_digest r,
      os_path_class = map_or_zero disclosure_u8 (wr_path_class r),
      os_device_class = map_or_zero disclosure_u8 (wr_device_class r),
      os_correlation_digest = wr_correlation_digest r, os_decision_id = replicate 16 0,
      os_decision_digest = replicate 32 0, os_unknown_event_id = replicate 16 0,
      os_binding_digest = request_binding_digest sha r\<rparr>"

definition binding_matches :: "(bytes \<Rightarrow> bytes) \<Rightarrow> operation_state \<Rightarrow> witness_record \<Rightarrow> bool" where
  "binding_matches sha s r \<longleftrightarrow>
     os_request_id s = wr_request_id r \<and> os_binding_digest s = request_binding_digest sha r"

definition terminal_matches :: "(bytes \<Rightarrow> bytes) \<Rightarrow> operation_state \<Rightarrow> witness_record \<Rightarrow> bool" where
  "terminal_matches sha s r \<longleftrightarrow>
     binding_matches sha s r \<and> wr_decision_id r = Some (os_decision_id s)"

section \<open>The durable encoding\<close>

definition put_correlation :: "bytes option \<Rightarrow> bytes" where
  "put_correlation v = (case v of Some x \<Rightarrow> [1] @ x | None \<Rightarrow> [0] @ replicate 32 0)"

definition state_encode :: "operation_state \<Rightarrow> bytes" where
  "state_encode s =
     [os_state s] @ u64_to_be (os_execution_generation s) @ u64_to_be (os_pending_generation s)
     @ os_request_id s @ os_runtime_id s @ os_boot_id s @ os_principal s @ [os_invocation s] @
     [os_action s] @ [os_resource_kind s] @ os_resource s @ u64_to_be (os_resource_generation
     s) @ u64_to_be (os_policy_version s) @ os_policy_digest s @ os_request_digest s @
     [os_path_class s] @ [os_device_class s] @ put_correlation (os_correlation_digest s) @
     os_decision_id s @ os_decision_digest s @ os_unknown_event_id s @ os_binding_digest s"

text \<open>The macro \<open>take!\<close> on the unread suffix of the bytes.\<close>

definition take_bytes :: "nat \<Rightarrow> bytes \<Rightarrow> (bytes \<times> bytes) option" where
  "take_bytes n rest = (if n \<le> length rest then Some (take n rest, drop n rest) else None)"

definition take_u8 :: "bytes \<Rightarrow> (byte \<times> bytes) option" where
  "take_u8 rest = map_option (\<lambda>(v, rest). (v ! 0, rest)) (take_bytes 1 rest)"

definition take_u64 :: "bytes \<Rightarrow> (u64 \<times> bytes) option" where
  "take_u64 rest = map_option (\<lambda>(v, rest). (u64_from_be v, rest)) (take_bytes 8 rest)"

definition take_correlation :: "bytes \<Rightarrow> (bytes option \<times> bytes) option" where
  "take_correlation rest =
     Option.bind (take_u8 rest) (\<lambda>(tag, rest).
     if tag = 0 then
       Option.bind (take_bytes 32 rest) (\<lambda>(padding, rest).
       if \<exists>b \<in> set padding. b \<noteq> 0 then None else Some (None, rest))
     else if tag = 1 then Option.bind (take_bytes 32 rest) (\<lambda>(v, rest). Some (Some v, rest))
     else None)"

definition state_decode :: "bytes \<Rightarrow> operation_state option" where
  "state_decode bs = (if length bs \<noteq> 343 then None else let rest = bs in
     Option.bind (take_u8 rest) (\<lambda>(state, rest).
     Option.bind (take_u64 rest) (\<lambda>(execution_generation, rest).
     Option.bind (take_u64 rest) (\<lambda>(pending_generation, rest).
     Option.bind (take_bytes 16 rest) (\<lambda>(request_id, rest).
     Option.bind (take_bytes 16 rest) (\<lambda>(runtime_id, rest).
     Option.bind (take_bytes 16 rest) (\<lambda>(boot_id, rest).
     Option.bind (take_bytes 32 rest) (\<lambda>(principal, rest).
     Option.bind (take_u8 rest) (\<lambda>(invocation, rest).
     Option.bind (take_u8 rest) (\<lambda>(action, rest).
     Option.bind (take_u8 rest) (\<lambda>(resource_kind, rest).
     Option.bind (take_bytes 32 rest) (\<lambda>(resource, rest).
     Option.bind (take_u64 rest) (\<lambda>(resource_generation, rest).
     Option.bind (take_u64 rest) (\<lambda>(policy_version, rest).
     Option.bind (take_bytes 32 rest) (\<lambda>(policy_digest, rest).
     Option.bind (take_bytes 32 rest) (\<lambda>(request_digest, rest).
     Option.bind (take_u8 rest) (\<lambda>(path_class, rest).
     Option.bind (take_u8 rest) (\<lambda>(device_class, rest).
     Option.bind (take_correlation rest) (\<lambda>(correlation_digest, rest).
     Option.bind (take_bytes 16 rest) (\<lambda>(decision_id, rest).
     Option.bind (take_bytes 32 rest) (\<lambda>(decision_digest, rest).
     Option.bind (take_bytes 16 rest) (\<lambda>(unknown_event_id, rest).
     Option.bind (take_bytes 32 rest) (\<lambda>(binding_digest, rest).
     if rest \<noteq> [] then None
     else Some \<lparr>os_state = state, os_execution_generation = execution_generation,
        os_pending_generation = pending_generation, os_request_id = request_id, os_runtime_id
        = runtime_id, os_boot_id = boot_id, os_principal = principal, os_invocation =
        invocation, os_action = action, os_resource_kind = resource_kind, os_resource =
        resource, os_resource_generation = resource_generation, os_policy_version =
        policy_version, os_policy_digest = policy_digest, os_request_digest = request_digest,
        os_path_class = path_class, os_device_class = device_class, os_correlation_digest =
        correlation_digest, os_decision_id = decision_id, os_decision_digest =
        decision_digest, os_unknown_event_id = unknown_event_id, os_binding_digest =
        binding_digest\<rparr>)))))))))))))))))))))))"

section \<open>Decoding inverts encoding\<close>

lemma take_bytes_append [simp]: "length xs = n \<Longrightarrow> take_bytes n (xs @ ys) = Some (xs, ys)"
  by (simp add: take_bytes_def)

lemma take_bytes_all [simp]: "length xs = n \<Longrightarrow> take_bytes n xs = Some (xs, [])"
  by (simp add: take_bytes_def)

lemma take_u8_Cons [simp]: "take_u8 (b # ys) = Some (b, ys)"
  by (simp add: take_u8_def take_bytes_def)

lemma take_u64_append [simp]: "take_u64 (u64_to_be w @ ys) = Some (w, ys)"
  by (simp add: take_u64_def)

lemma take_correlation_append [simp]:
  "opt_len 32 v \<Longrightarrow> take_correlation (put_correlation v @ ys) = Some (v, ys)"
  by (cases v) (simp_all add: take_correlation_def put_correlation_def)

lemma length_put_correlation [simp]: "opt_len 32 v \<Longrightarrow> length (put_correlation v) = 33"
  by (cases v) (simp_all add: put_correlation_def)

lemma take_bytes_inv: "take_bytes n bs = Some (v, rest) \<Longrightarrow> length v = n \<and> bs = v @ rest"
  by (auto simp: take_bytes_def split: if_splits)

lemma take_u8_inv: "take_u8 bs = Some (v, rest) \<Longrightarrow> bs = [v] @ rest"
  by (cases bs) (auto simp: take_u8_def take_bytes_def)

lemma take_u64_inv: "take_u64 bs = Some (w, rest) \<Longrightarrow> bs = u64_to_be w @ rest"
  by (auto simp: take_u64_def u64_to_from_be dest!: take_bytes_inv)

lemma take_correlation_inv:
  assumes "take_correlation bs = Some (v, rest)"
  shows "opt_len 32 v \<and> bs = put_correlation v @ rest"
proof -
  from assms obtain tag r1 w where tag: "take_u8 bs = Some (tag, r1)" and
    w: "take_bytes 32 r1 = Some (w, rest)" and
    v: "tag = 0 \<and> (\<forall>b \<in> set w. b = 0) \<and> v = None \<or> tag = 1 \<and> v = Some w"
    by (auto simp: take_correlation_def bind_eq_Some_conv split: if_splits)
  have "w = replicate 32 0" if "\<forall>b \<in> set w. b = 0"
    using that take_bytes_inv [OF w] by (intro replicate_eqI) auto
  with take_u8_inv [OF tag] take_bytes_inv [OF w] v show ?thesis
    by (auto simp: put_correlation_def)
qed

lemma bind_pair_elim:
  assumes "Option.bind m (\<lambda>(x, rest). k x rest) = Some y"
    and "\<And>x rest. m = Some (x, rest) \<Longrightarrow> k x rest = Some y \<Longrightarrow> P"
  shows P
  using assms by (auto simp: bind_eq_Some_conv)

lemma length_state_encode: "wf_state s \<Longrightarrow> length (state_encode s) = 343"
  by (simp add: state_encode_def wf_state_def)

lemma state_decode_encode: "wf_state s \<Longrightarrow> state_decode (state_encode s) = Some s"
  by (simp add: state_decode_def length_state_encode)
    (simp add: state_encode_def wf_state_def)

lemma state_decode_sound:
  assumes "state_decode bs = Some s"
  shows "wf_state s \<and> bs = state_encode s"
proof -
  note inv = take_bytes_inv take_u8_inv take_u64_inv take_correlation_inv
  from assms show ?thesis
    unfolding state_decode_def Let_def
    by (auto simp: wf_state_def state_encode_def elim!: bind_pair_elim dest!: inv split: if_splits)
qed


section \<open>The binding digest and the verifier's binding\<close>

lemma disclosure_u8_nonzero: "disclosure_u8 x \<noteq> 0"
  by (cases x) simp_all

lemma map_or_zero_inject:
  "map_or_zero disclosure_u8 v = map_or_zero disclosure_u8 w \<longleftrightarrow> v = w"
  by (cases v; cases w)
    (auto simp: map_or_zero_def disclosure_u8_nonzero disclosure_u8_nonzero [symmetric]
      dest: disclosure.to_u8_inject [THEN iffD1])

lemma binding_input_inject:
  assumes "wf_record r" "wf_record r'"
  shows "binding_input r = binding_input r' \<longleftrightarrow>
    wr_epoch r = wr_epoch r' \<and> request_binding_from r = request_binding_from r'"
  using assms
  by (auto simp: binding_input_def request_binding_from_def wf_record_def map_or_zero_inject
      invocation.to_u8_inject action.to_u8_inject resource_kind.to_u8_inject split: option.splits)

lemma wf_state_received:
  "wf_record r \<Longrightarrow> \<forall>x. length (sha x) = 32 \<Longrightarrow> wf_state (state_received sha r g)"
  by (simp add: wf_state_def state_received_def wf_record_def request_binding_digest_def)

lemma binding_matches_received:
  assumes "wf_record r" "wf_record r'" "inj_on sha {binding_input r, binding_input r'}"
  shows "binding_matches sha (state_received sha r g) r' \<longleftrightarrow>
    wr_request_id r = wr_request_id r' \<and> wr_epoch r = wr_epoch r'
    \<and> request_binding_from r = request_binding_from r'"
proof -
  have "sha (binding_input r) = sha (binding_input r') \<longleftrightarrow> binding_input r = binding_input r'"
    by (rule inj_on_eq_iff [OF assms(3)]) simp_all
  then show ?thesis
    by (simp add: binding_matches_def state_received_def request_binding_digest_def
        binding_input_inject [OF assms(1,2)])
qed

section \<open>Properties\<close>

text \<open>The durable operation state is a canonical format: the decoder accepts exactly the
  343-byte encodings of states with fields of the right size, and returns that state; padding
  that is not zero, unknown tags and other lengths are rejected.\<close>

theorem state_decode_iff:
  "state_decode bs = Some s \<longleftrightarrow> wf_state s \<and> bs = state_encode s \<and> length bs = 343"
  using state_decode_encode [of s] state_decode_sound [of bs s] length_state_encode [of s] by auto

text \<open>A later record passes the journal's binding check against the state of a received
  request exactly when it has the request's identity and epoch and the same fourteen bound fields
  the stream verifier compares, up to a collision of SHA-256 on the two binding strings.\<close>

theorem binding_matches_iff:
  assumes "wf_record r" and "wf_record r'" and "inj_on sha {binding_input r, binding_input r'}"
  shows "binding_matches sha (state_received sha r g) r' \<longleftrightarrow>
    wr_request_id r = wr_request_id r' \<and> wr_epoch r = wr_epoch r'
    \<and> same_binding r' (request_binding_from r)"
  using binding_matches_received [OF assms] by (auto simp: same_binding_def)

theorem binding_matches_iff_witness:
  "\<not> binding_matches (\<lambda>x. x) (state_received (\<lambda>x. x) example_record 1)
       (example_record\<lparr>wr_action := ContainerDelete\<rparr>)
   \<and> binding_matches (\<lambda>x. x) (state_received (\<lambda>x. x) example_record 1)
       (example_record\<lparr>wr_wall_time_ns := 77\<rparr>)"
  using binding_matches_iff [of example_record "example_record\<lparr>wr_action := ContainerDelete\<rparr>" "\<lambda>x. x" 1]
    binding_matches_iff [of example_record "example_record\<lparr>wr_wall_time_ns := 77\<rparr>" "\<lambda>x. x" 1]
  by (simp add: example_record_def wf_record_def same_binding_def request_binding_from_def)

end
