(* ===== verification/Journal_Types.thy ===== *)
theory Journal_Types
  imports Journal_Store Journal_State Recovery
begin

text \<open>
  The types of \<^verbatim>\<open>ferro-core/src/witness/journal/types.rs\<close> and the state that the journal keeps:
  what is on disk (\<open>disk\<close>) and the running coordinator (\<open>journal\<close>).

  The mutex of the append coordinator makes every operation run alone, so an operation is a
  function on the state.  \<open>'a jm\<close> is the type of operations: they return a value or an error and,
  in both cases, the new state, because an operation that fails late has already changed the disk.
  Errors of the file system and of SQLite are modelled only where the code's own logic leads to
  them (a file that is absent); a failing device is modelled by the fault points the code has for it.
\<close>

section \<open>Configuration, faults and errors\<close>

datatype journal_mode = Mode_Disabled | Mode_Required

datatype flush_boundary = FB_Reserve | FB_Received | FB_Decision | FB_Outcome

datatype fault_point =
    FP_BeforeTransaction flush_boundary
  | FP_Transaction flush_boundary
  | FP_BeforeFlush flush_boundary
  | FP_DuringFlush flush_boundary
  | FP_AfterFlush flush_boundary
  | FP_RotationSeal
  | FP_CheckpointBindingRejected

record journal_config =
  jc_journal_id :: bytes
  jc_mode :: journal_mode
  jc_cleanup_reserve_bytes :: u64
  jc_max_journal_bytes :: u64
  jc_segment_bytes :: u64

definition journal_config_new :: "bytes \<Rightarrow> journal_mode \<Rightarrow> journal_config" where
  "journal_config_new journal_id mode =
     \<lparr>jc_journal_id = journal_id, jc_mode = mode, jc_cleanup_reserve_bytes = 64 * 1024,
      jc_max_journal_bytes = 64 * 1024 * 1024, jc_segment_bytes = 8 * 1024 * 1024\<rparr>"

definition config_segment_bytes :: "u64 \<Rightarrow> journal_config \<Rightarrow> journal_config" where
  "config_segment_bytes n c = c\<lparr>jc_segment_bytes := max n 1\<rparr>"

datatype journal_error =
    J_LegacyMigrationRequired
  | J_UnsupportedVersion
  | J_Locked
  | J_JournalMismatch
  | J_DuplicateOperation
  | J_DuplicateEvent
  | J_NotPending
  | J_AlreadyComplete
  | J_ProofMismatch
  | J_BindingMismatch
  | J_Indeterminate bytes
  | J_AutomationStopped
  | J_QuotaExceeded
  | J_OversizedRecord
  | J_RotationUnavailable
  | J_UnavailableBeforeVisibility
  | J_Disabled
  | J_InvalidStage
  | J_Corrupt
  | J_ReaderStale
  | J_Io
  | J_Record witness_error

record durable_intent =
  di_journal_id :: bytes
  di_epoch :: u64
  di_operation_id :: bytes
  di_execution_generation :: u64
  di_pending_generation :: u64
  di_decision_id :: bytes
  di_decision_digest :: bytes
  di_request_digest :: bytes
  di_precondition_digest :: bytes
  di_recovery_recipe_digest :: bytes

definition parse_u64 :: "journal_error \<Rightarrow> bytes \<Rightarrow> journal_error + u64" where
  "parse_u64 e bs = (if length bs = 8 then Inr (u64_from_be bs) else Inl e)"

section \<open>Disk and coordinator\<close>

text \<open>The published read mirror: the active file, the rotated segment files with the range in
  their names, and the stale marker.\<close>

record mirror_files =
  mf_active :: "bytes option"
  mf_segments :: "(u64 \<times> u64 \<times> bytes) list"
  mf_stale :: bool

record disk =
  dk_lock_id :: bytes
  dk_legacy :: bool
  dk_ready :: "bytes option"
  dk_store :: "kv_store option"
  dk_reserve_len :: "u64 option"
  dk_stop_marker :: bool
  dk_stop_tmp :: bool
  dk_mirror :: mirror_files

record journal =
  j_store :: kv_store
  j_reserve_len :: "u64 option"
  j_stop_marker :: bool
  j_stop_tmp :: bool
  j_mirror :: mirror_files
  j_journal_id :: bytes
  j_epoch :: u64
  j_max_bytes :: u64
  j_reserve_total :: u64
  j_segment_bytes :: u64
  j_mode :: journal_mode
  j_faults :: "fault_point set"
  j_automation_stopped :: bool
  j_mirror_sequence :: u64

type_synonym 'a jm = "journal \<Rightarrow> (journal_error + 'a) \<times> journal"

definition jreturn :: "'a \<Rightarrow> 'a jm" where
  "jreturn x j = (Inr x, j)"

definition jraise :: "journal_error \<Rightarrow> 'a jm" where
  "jraise e j = (Inl e, j)"

definition jbind :: "'a jm \<Rightarrow> ('a \<Rightarrow> 'b jm) \<Rightarrow> 'b jm" where
  "jbind m k j = (case m j of (Inl e, j') \<Rightarrow> (Inl e, j') | (Inr x, j') \<Rightarrow> k x j')"

definition jread :: "(journal \<Rightarrow> 'a) \<Rightarrow> 'a jm" where
  "jread f j = (Inr (f j), j)"

definition jmodify :: "(journal \<Rightarrow> journal) \<Rightarrow> unit jm" where
  "jmodify f j = (Inr (), f j)"

definition jlift :: "journal_error + 'a \<Rightarrow> 'a jm" where
  "jlift r j = (r, j)"

text \<open>\<open>jguard c e\<close> is the early return \<open>if c { return Err(e) }\<close>.\<close>

definition jguard :: "bool \<Rightarrow> journal_error \<Rightarrow> unit jm" where
  "jguard c e j = ((if c then Inl e else Inr ()), j)"

text \<open>\<open>jtry m\<close> runs \<open>m\<close> and tells whether it succeeded, for the callers that test \<open>is_err\<close>.\<close>

definition jtry :: "'a jm \<Rightarrow> bool jm" where
  "jtry m j = (case m j of (r, j') \<Rightarrow> (Inr (is_ok r), j'))"

definition jmap_err :: "(journal_error \<Rightarrow> journal_error) \<Rightarrow> 'a jm \<Rightarrow> 'a jm" where
  "jmap_err f m j = (case m j of (r, j') \<Rightarrow> (map_err f r, j'))"

lemma jbind_return [simp]: "jbind (jreturn x) k = k x"
  by (simp add: fun_eq_iff jbind_def jreturn_def)

lemma jbind_raise [simp]: "jbind (jraise e) k = jraise e"
  by (simp add: fun_eq_iff jbind_def jraise_def)

lemma jbind_assoc: "jbind (jbind m f) k = jbind m (\<lambda>x. jbind (f x) k)"
  by (auto simp: fun_eq_iff jbind_def split: sum.split prod.split)

lemma jbind_if: "jbind (if c then a else b) k = (if c then jbind a k else jbind b k)"
  by simp

section \<open>Meta keys\<close>

definition HEAD_SEQUENCE :: bytes where "HEAD_SEQUENCE = bstr ''head-sequence''"
definition HEAD_HASH :: bytes where "HEAD_HASH = bstr ''head-hash''"
definition JOURNAL_ID :: bytes where "JOURNAL_ID = bstr ''journal-id''"
definition RESERVE :: bytes where "RESERVE = bstr ''cleanup-reserve''"
definition RESERVE_TOTAL :: bytes where "RESERVE_TOTAL = bstr ''cleanup-reserve-total''"
definition RESERVE_INFLIGHT :: bytes where "RESERVE_INFLIGHT = bstr ''cleanup-reserve-inflight''"
definition AUTOMATION_STOPPED :: bytes where "AUTOMATION_STOPPED = bstr ''automation-stopped''"
definition MAX_BYTES :: bytes where "MAX_BYTES = bstr ''max-journal-bytes''"
definition CURRENT_SEGMENT :: bytes where "CURRENT_SEGMENT = bstr ''current-segment''"
definition ROTATION_DEFERRED :: bytes where "ROTATION_DEFERRED = bstr ''rotation-deferred''"
definition EPOCH :: bytes where "EPOCH = bstr ''epoch''"

lemmas meta_keys = HEAD_SEQUENCE_def HEAD_HASH_def JOURNAL_ID_def RESERVE_def RESERVE_TOTAL_def
  RESERVE_INFLIGHT_def AUTOMATION_STOPPED_def MAX_BYTES_def CURRENT_SEGMENT_def
  ROTATION_DEFERRED_def EPOCH_def

lemma meta_keys_distinct:
  "distinct [HEAD_SEQUENCE, HEAD_HASH, JOURNAL_ID, RESERVE, RESERVE_TOTAL, RESERVE_INFLIGHT,
     AUTOMATION_STOPPED, MAX_BYTES, CURRENT_SEGMENT, ROTATION_DEFERRED, EPOCH]"
  by code_simp

lemma meta_neq [simp]:
  "HEAD_SEQUENCE \<noteq> HEAD_HASH" "HEAD_SEQUENCE \<noteq> JOURNAL_ID"
  "HEAD_SEQUENCE \<noteq> RESERVE" "HEAD_SEQUENCE \<noteq> RESERVE_TOTAL"
  "HEAD_SEQUENCE \<noteq> RESERVE_INFLIGHT" "HEAD_SEQUENCE \<noteq> AUTOMATION_STOPPED"
  "HEAD_SEQUENCE \<noteq> MAX_BYTES" "HEAD_SEQUENCE \<noteq> CURRENT_SEGMENT"
  "HEAD_SEQUENCE \<noteq> ROTATION_DEFERRED" "HEAD_SEQUENCE \<noteq> EPOCH"
  "HEAD_HASH \<noteq> HEAD_SEQUENCE" "HEAD_HASH \<noteq> JOURNAL_ID" "HEAD_HASH \<noteq> RESERVE"
  "HEAD_HASH \<noteq> RESERVE_TOTAL" "HEAD_HASH \<noteq> RESERVE_INFLIGHT"
  "HEAD_HASH \<noteq> AUTOMATION_STOPPED" "HEAD_HASH \<noteq> MAX_BYTES"
  "HEAD_HASH \<noteq> CURRENT_SEGMENT" "HEAD_HASH \<noteq> ROTATION_DEFERRED"
  "HEAD_HASH \<noteq> EPOCH" "JOURNAL_ID \<noteq> HEAD_SEQUENCE" "JOURNAL_ID \<noteq> HEAD_HASH"
  "JOURNAL_ID \<noteq> RESERVE" "JOURNAL_ID \<noteq> RESERVE_TOTAL"
  "JOURNAL_ID \<noteq> RESERVE_INFLIGHT" "JOURNAL_ID \<noteq> AUTOMATION_STOPPED"
  "JOURNAL_ID \<noteq> MAX_BYTES" "JOURNAL_ID \<noteq> CURRENT_SEGMENT"
  "JOURNAL_ID \<noteq> ROTATION_DEFERRED" "JOURNAL_ID \<noteq> EPOCH" "RESERVE \<noteq> HEAD_SEQUENCE"
  "RESERVE \<noteq> HEAD_HASH" "RESERVE \<noteq> JOURNAL_ID" "RESERVE \<noteq> RESERVE_TOTAL"
  "RESERVE \<noteq> RESERVE_INFLIGHT" "RESERVE \<noteq> AUTOMATION_STOPPED"
  "RESERVE \<noteq> MAX_BYTES" "RESERVE \<noteq> CURRENT_SEGMENT" "RESERVE \<noteq> ROTATION_DEFERRED"
  "RESERVE \<noteq> EPOCH" "RESERVE_TOTAL \<noteq> HEAD_SEQUENCE" "RESERVE_TOTAL \<noteq> HEAD_HASH"
  "RESERVE_TOTAL \<noteq> JOURNAL_ID" "RESERVE_TOTAL \<noteq> RESERVE"
  "RESERVE_TOTAL \<noteq> RESERVE_INFLIGHT" "RESERVE_TOTAL \<noteq> AUTOMATION_STOPPED"
  "RESERVE_TOTAL \<noteq> MAX_BYTES" "RESERVE_TOTAL \<noteq> CURRENT_SEGMENT"
  "RESERVE_TOTAL \<noteq> ROTATION_DEFERRED" "RESERVE_TOTAL \<noteq> EPOCH"
  "RESERVE_INFLIGHT \<noteq> HEAD_SEQUENCE" "RESERVE_INFLIGHT \<noteq> HEAD_HASH"
  "RESERVE_INFLIGHT \<noteq> JOURNAL_ID" "RESERVE_INFLIGHT \<noteq> RESERVE"
  "RESERVE_INFLIGHT \<noteq> RESERVE_TOTAL" "RESERVE_INFLIGHT \<noteq> AUTOMATION_STOPPED"
  "RESERVE_INFLIGHT \<noteq> MAX_BYTES" "RESERVE_INFLIGHT \<noteq> CURRENT_SEGMENT"
  "RESERVE_INFLIGHT \<noteq> ROTATION_DEFERRED" "RESERVE_INFLIGHT \<noteq> EPOCH"
  "AUTOMATION_STOPPED \<noteq> HEAD_SEQUENCE" "AUTOMATION_STOPPED \<noteq> HEAD_HASH"
  "AUTOMATION_STOPPED \<noteq> JOURNAL_ID" "AUTOMATION_STOPPED \<noteq> RESERVE"
  "AUTOMATION_STOPPED \<noteq> RESERVE_TOTAL" "AUTOMATION_STOPPED \<noteq> RESERVE_INFLIGHT"
  "AUTOMATION_STOPPED \<noteq> MAX_BYTES" "AUTOMATION_STOPPED \<noteq> CURRENT_SEGMENT"
  "AUTOMATION_STOPPED \<noteq> ROTATION_DEFERRED" "AUTOMATION_STOPPED \<noteq> EPOCH"
  "MAX_BYTES \<noteq> HEAD_SEQUENCE" "MAX_BYTES \<noteq> HEAD_HASH" "MAX_BYTES \<noteq> JOURNAL_ID"
  "MAX_BYTES \<noteq> RESERVE" "MAX_BYTES \<noteq> RESERVE_TOTAL"
  "MAX_BYTES \<noteq> RESERVE_INFLIGHT" "MAX_BYTES \<noteq> AUTOMATION_STOPPED"
  "MAX_BYTES \<noteq> CURRENT_SEGMENT" "MAX_BYTES \<noteq> ROTATION_DEFERRED"
  "MAX_BYTES \<noteq> EPOCH" "CURRENT_SEGMENT \<noteq> HEAD_SEQUENCE"
  "CURRENT_SEGMENT \<noteq> HEAD_HASH" "CURRENT_SEGMENT \<noteq> JOURNAL_ID"
  "CURRENT_SEGMENT \<noteq> RESERVE" "CURRENT_SEGMENT \<noteq> RESERVE_TOTAL"
  "CURRENT_SEGMENT \<noteq> RESERVE_INFLIGHT" "CURRENT_SEGMENT \<noteq> AUTOMATION_STOPPED"
  "CURRENT_SEGMENT \<noteq> MAX_BYTES" "CURRENT_SEGMENT \<noteq> ROTATION_DEFERRED"
  "CURRENT_SEGMENT \<noteq> EPOCH" "ROTATION_DEFERRED \<noteq> HEAD_SEQUENCE"
  "ROTATION_DEFERRED \<noteq> HEAD_HASH" "ROTATION_DEFERRED \<noteq> JOURNAL_ID"
  "ROTATION_DEFERRED \<noteq> RESERVE" "ROTATION_DEFERRED \<noteq> RESERVE_TOTAL"
  "ROTATION_DEFERRED \<noteq> RESERVE_INFLIGHT" "ROTATION_DEFERRED \<noteq> AUTOMATION_STOPPED"
  "ROTATION_DEFERRED \<noteq> MAX_BYTES" "ROTATION_DEFERRED \<noteq> CURRENT_SEGMENT"
  "ROTATION_DEFERRED \<noteq> EPOCH" "EPOCH \<noteq> HEAD_SEQUENCE" "EPOCH \<noteq> HEAD_HASH"
  "EPOCH \<noteq> JOURNAL_ID" "EPOCH \<noteq> RESERVE" "EPOCH \<noteq> RESERVE_TOTAL"
  "EPOCH \<noteq> RESERVE_INFLIGHT" "EPOCH \<noteq> AUTOMATION_STOPPED" "EPOCH \<noteq> MAX_BYTES"
  "EPOCH \<noteq> CURRENT_SEGMENT" "EPOCH \<noteq> ROTATION_DEFERRED"
  using meta_keys_distinct by auto

end
