(* ===== verification/Read_Mirror.thy ===== *)
theory Read_Mirror
  imports Journal_Types
begin

text \<open>
  Model of the published read mirror: the writer side in \<^verbatim>\<open>ferro-core/src/witness/journal.rs\<close>
  (\<open>append_read_mirror\<close>, \<open>rotate_read_mirror\<close>, \<open>rebuild_read_mirror\<close>) and the lock-free reader of
  \<^verbatim>\<open>ferro-core/src/witness/reader.rs\<close>.

  A file is its bytes.  An open part of the reader is the unread suffix of its file, so the test
  \<open>stream_position == end_offset\<close> is emptiness of the suffix.  Permissions, symbolic links and link
  counts are outside the model.
\<close>

section \<open>The reader\<close>

definition READER_MAGIC :: bytes where "READER_MAGIC = bstr ''FWREAD03''"
definition HEADER_BYTES :: nat where "HEADER_BYTES = 24"
definition MAX_MIRROR_BYTES :: nat where "MAX_MIRROR_BYTES = 16 * 1024 * 1024 * 1024"
definition READ_MIRROR_SEGMENT_LIMIT :: u64 where "READ_MIRROR_SEGMENT_LIMIT = 128 * 1024 * 1024"

record witness_reader =
  rd_rest :: bytes
  rd_pending :: "bytes list"
  rd_journal_id :: bytes
  rd_last_sequence :: u64
  rd_last_hash :: bytes
  rd_failed :: bool

definition open_part :: "bytes \<Rightarrow> bytes option \<Rightarrow> journal_error + bytes" where
  "open_part expected file =
     rbind (ok_or J_Io file) (\<lambda>content.
     if length content < HEADER_BYTES \<or> length content > MAX_MIRROR_BYTES then Inl J_Corrupt
     else if subslice 0 8 content \<noteq> READER_MAGIC \<or> subslice 8 24 content \<noteq> expected
     then Inl J_JournalMismatch
     else Inr (drop HEADER_BYTES content))"

fun open_parts :: "bytes \<Rightarrow> bytes option list \<Rightarrow> journal_error + bytes list" where
  "open_parts expected [] = Inr []"
| "open_parts expected (p # ps) =
     rbind (open_part expected p) (\<lambda>rest.
     rbind (open_parts expected ps) (\<lambda>rests. Inr (rest # rests)))"

definition open_read_only :: "mirror_files \<Rightarrow> bytes \<Rightarrow> journal_error + witness_reader" where
  "open_read_only files expected =
     (if mf_stale files then Inl J_ReaderStale
      else
        let paths = map (\<lambda>(_, _, content). Some content) (sort_key fst (mf_segments files))
                    @ [mf_active files] in
        rbind (open_parts expected paths) (\<lambda>opened.
        case opened of
          [] \<Rightarrow> Inl J_Corrupt
        | rest # pending \<Rightarrow>
            Inr \<lparr>rd_rest = rest, rd_pending = pending, rd_journal_id = expected,
                 rd_last_sequence = 0, rd_last_hash = replicate 32 0, rd_failed = False\<rparr>))"

fun skip_empty :: "bytes \<Rightarrow> bytes list \<Rightarrow> (bytes \<times> bytes list)" where
  "skip_empty [] (part # pending) = skip_empty part pending"
| "skip_empty rest pending = (rest, pending)"

definition next_record ::
  "(bytes \<Rightarrow> bytes) \<Rightarrow> witness_reader \<Rightarrow> journal_error + (bytes option \<times> witness_reader)" where
  "next_record sha r =
     (case skip_empty (rd_rest r) (rd_pending r) of (rest, pending) \<Rightarrow>
        let r = r\<lparr>rd_rest := rest, rd_pending := pending\<rparr> in
        if rest = [] then Inr (None, r)
        else if length rest < 12 then Inl J_Corrupt
        else
          let sequence = u64_from_be (take 8 rest);
              len = unat (u32_from_be (subslice 8 12 rest));
              body = drop 12 rest in
          if sequence \<noteq> saturating_add (rd_last_sequence r) 1 \<or> len = 0
             \<or> len > MAX_RECORD_BYTES \<or> length body < len
          then Inl J_Corrupt
          else
            let bs = take len body in
            rbind (map_err (\<lambda>_. J_Corrupt) (decode_record bs)) (\<lambda>decoded.
            if dr_journal_id decoded \<noteq> rd_journal_id r
               \<or> wr_sequence (dr_record decoded) \<noteq> sequence
               \<or> wr_previous_hash (dr_record decoded) \<noteq> rd_last_hash r
            then Inl J_Corrupt
            else Inr (Some bs, r\<lparr>rd_rest := drop len body, rd_last_sequence := sequence,
                                 rd_last_hash := hash_record sha (dr_bytes decoded)\<rparr>)))"

text \<open>The loop \<open>while let Some(bytes) = reader.next_record()?\<close>; every round consumes at least the
  twelve bytes of a frame header.\<close>

definition unread :: "witness_reader \<Rightarrow> nat" where
  "unread r = length (rd_rest r) + sum_list (map length (rd_pending r))"

lemma skip_empty_unread:
  "skip_empty rest pending = (rest', pending') \<Longrightarrow>
     length rest' + sum_list (map length pending') = length rest + sum_list (map length pending)"
  by (induction rest pending rule: skip_empty.induct) auto

lemma next_record_unread:
  assumes "next_record sha r = Inr (Some bs, r')"
  shows "unread r' < unread r"
proof -
  obtain rest pending where sk: "skip_empty (rd_rest r) (rd_pending r) = (rest, pending)"
    by fastforce
  with assms show ?thesis
    using skip_empty_unread [OF sk]
    by (auto simp: next_record_def unread_def Let_def rbind_simps split: if_splits)
qed

function read_all ::
  "(bytes \<Rightarrow> bytes) \<Rightarrow> witness_reader \<Rightarrow> journal_error + (bytes list \<times> witness_reader)" where
  "read_all sha r =
     (case next_record sha r of
        Inl e \<Rightarrow> Inl e
      | Inr (None, r') \<Rightarrow> Inr ([], r')
      | Inr (Some bs, r') \<Rightarrow>
          rbind (read_all sha r') (\<lambda>(rest, r''). Inr (bs # rest, r'')))"
  by auto
termination
  by (relation "measure (\<lambda>(sha, r). unread r)") (auto simp: next_record_unread)

declare read_all.simps [simp del]

definition reader_finish :: "witness_reader \<Rightarrow> journal_error + unit" where
  "reader_finish r =
     (if rd_failed r \<or> rd_rest r \<noteq> [] \<or> rd_pending r \<noteq> [] then Inl J_Corrupt else Inr ())"

section \<open>The writer\<close>

definition mirror_header :: "bytes \<Rightarrow> bytes" where
  "mirror_header journal_id = READER_MAGIC @ journal_id"

definition mirror_frame :: "u64 \<Rightarrow> bytes \<Rightarrow> bytes" where
  "mirror_frame sequence bs = u64_to_be sequence @ u32_to_be (of_nat (length bs)) @ bs"

definition mark_reader_stale :: "mirror_files \<Rightarrow> mirror_files" where
  "mark_reader_stale files = files\<lparr>mf_stale := True\<rparr>"

text \<open>Renaming the active file onto an existing segment name replaces that segment.\<close>

definition rename_to_segment :: "u64 \<Rightarrow> u64 \<Rightarrow> bytes \<Rightarrow> mirror_files \<Rightarrow> mirror_files" where
  "rename_to_segment first final content files =
     files\<lparr>mf_active := None,
           mf_segments := filter (\<lambda>(f, l, _). (f, l) \<noteq> (first, final)) (mf_segments files)
                            @ [(first, final, content)]\<rparr>"

definition rotate_read_mirror ::
  "bytes \<Rightarrow> u64 \<Rightarrow> mirror_files \<Rightarrow> (journal_error + unit) \<times> mirror_files" where
  "rotate_read_mirror journal_id final files =
     (case mf_active files of
        None \<Rightarrow> (Inl J_Io, files)
      | Some content \<Rightarrow>
          if length content < 32 then (Inl J_Io, files)
          else
            let first = u64_from_be (subslice 24 32 content) in
            if first = 0 \<or> final < first then (Inl J_Corrupt, files)
            else (Inr (), (rename_to_segment first final content files)
                            \<lparr>mf_active := Some (mirror_header journal_id)\<rparr>))"

definition saturating_pred :: "u64 \<Rightarrow> u64" where
  "saturating_pred w = (if w = 0 then 0 else w - 1)"

text \<open>The body of the loop \<open>for sequence in first..=head\<close>; the first argument counts the rounds
  left.\<close>

fun append_frames ::
  "nat \<Rightarrow> u64 \<Rightarrow> bytes \<Rightarrow> kv_store \<Rightarrow> mirror_files \<Rightarrow> (journal_error + unit) \<times> mirror_files" where
  "append_frames 0 sequence journal_id s files = (Inr (), files)"
| "append_frames (Suc n) sequence journal_id s files =
     (case kv_get T_Records (u64_to_be sequence) s of
        None \<Rightarrow> (Inl J_Corrupt, files)
      | Some bs \<Rightarrow>
          let frame = mirror_frame sequence bs;
              len = (of_nat (length (the (mf_active files))) :: u64) in
          (case (if len > 24
                    \<and> saturating_add len (of_nat (length frame)) > READ_MIRROR_SEGMENT_LIMIT
                 then rotate_read_mirror journal_id (saturating_pred sequence) files
                 else (Inr (), files)) of
             (Inl e, files) \<Rightarrow> (Inl e, files)
           | (Inr _, files) \<Rightarrow>
               append_frames n (sequence + 1) journal_id s
                 (files\<lparr>mf_active := Some (the (mf_active files) @ frame)\<rparr>)))"

end
