(* ===== verification/Journal.thy ===== *)
theory Journal
  imports Read_Mirror
begin

text \<open>
  Model of the witness journal: \<^verbatim>\<open>ferro-core/src/witness/journal.rs\<close> and its parts \<^verbatim>\<open>storage.rs\<close>
  (head, preflight, flush), \<^verbatim>\<open>quota.rs\<close>, \<^verbatim>\<open>inspect.rs\<close> and \<^verbatim>\<open>reconcile.rs\<close>.  Each operation is the whole
  handler: its early returns in the code's order, the fault points, the capacity check that may
  seal a segment, the transaction, the flush, the read mirror and the rotation after the
  acknowledgement.  Metrics are left out.  Unchecked \<open>u64\<close> additions wrap, as in a release build.
\<close>

section \<open>Storage access\<close>

definition jget :: "tree_name \<Rightarrow> bytes \<Rightarrow> bytes option jm" where
  "jget tree key = jread (\<lambda>j. kv_get tree key (j_store j))"

definition jput :: "tree_name \<Rightarrow> bytes \<Rightarrow> bytes \<Rightarrow> unit jm" where
  "jput tree key v = jmodify (\<lambda>j. j\<lparr>j_store := kv_put tree key v (j_store j)\<rparr>)"

definition jremove :: "tree_name \<Rightarrow> bytes \<Rightarrow> unit jm" where
  "jremove tree key = jmodify (\<lambda>j. j\<lparr>j_store := kv_remove tree key (j_store j)\<rparr>)"

definition jtransaction :: "(kv_store \<Rightarrow> journal_error + kv_store) \<Rightarrow> unit jm" where
  "jtransaction callback j =
     (case kv_transaction callback (j_store j) of (r, s) \<Rightarrow> (r, j\<lparr>j_store := s\<rparr>))"

definition take_fault :: "fault_point \<Rightarrow> bool jm" where
  "take_fault point j = (Inr (point \<in> j_faults j), j\<lparr>j_faults := j_faults j - {point}\<rparr>)"

text \<open>The short-circuit disjunction of two fault points.\<close>

definition take_either :: "fault_point \<Rightarrow> fault_point \<Rightarrow> bool jm" where
  "take_either p q = jbind (take_fault p) (\<lambda>b. if b then jreturn True else take_fault q)"

definition head_of :: "kv_store \<Rightarrow> journal_error + (u64 \<times> bytes)" where
  "head_of s =
     rbind (ok_or J_Corrupt (kv_get T_Meta HEAD_SEQUENCE s)) (\<lambda>seq.
     rbind (ok_or J_Corrupt (kv_get T_Meta HEAD_HASH s)) (\<lambda>hash.
     rbind (parse_u64 J_Corrupt seq) (\<lambda>sequence.
     if length hash \<noteq> 32 then Inl J_Corrupt else Inr (sequence, hash))))"

definition journal_head :: "(u64 \<times> bytes) jm" where
  "journal_head j = (head_of (j_store j), j)"

definition preflight :: "flush_boundary \<Rightarrow> unit jm" where
  "preflight boundary =
     jbind (jread j_mode) (\<lambda>mode.
     jbind (jguard (mode = Mode_Disabled) J_Disabled) (\<lambda>_.
     jbind (take_either (FP_BeforeTransaction boundary) (FP_Transaction boundary)) (\<lambda>fault.
     jguard fault J_UnavailableBeforeVisibility)))"

definition journal_flush :: "flush_boundary \<Rightarrow> bytes \<Rightarrow> unit jm" where
  "journal_flush boundary op_id =
     jbind (take_fault (FP_BeforeFlush boundary)) (\<lambda>before.
     jbind (jguard before (J_Indeterminate op_id)) (\<lambda>_.
     jbind (take_fault (FP_DuringFlush boundary)) (\<lambda>during.
     jbind (jguard during (J_Indeterminate op_id)) (\<lambda>_.
     jbind (take_fault (FP_AfterFlush boundary)) (\<lambda>after.
     jguard after (J_Indeterminate op_id))))))"

section \<open>Segments and quota\<close>

definition saturating_total :: "entries \<Rightarrow> u64" where
  "saturating_total es = foldl (\<lambda>s (_, v). saturating_add s (of_nat (length v))) 0 es"

definition segment_blob :: "entries \<Rightarrow> bytes" where
  "segment_blob es = concat (map (\<lambda>(k, v). k @ u32_to_be (of_nat (length v)) @ v) es)"

definition seal_active_segment :: "bool \<Rightarrow> unit jm" where
  "seal_active_segment force =
     jbind (take_fault FP_RotationSeal) (\<lambda>fault.
     jbind (jguard fault J_UnavailableBeforeVisibility) (\<lambda>_.
     jbind (jread (\<lambda>j. (kv_scan T_Records (j_store j), j_segment_bytes j))) (\<lambda>(entries, segment_bytes).
     let used = sum_list (map (\<lambda>(_, v). of_nat (length v)) entries) in
     if entries = [] \<or> \<not> force \<and> used < segment_bytes then jreturn ()
     else
       jbind (jget T_Meta CURRENT_SEGMENT) (\<lambda>current.
       jbind (jlift (ok_or J_Corrupt current)) (\<lambda>current.
       jbind (jlift (parse_u64 J_Corrupt current)) (\<lambda>current_id.
       jbind (jlift (ok_or J_Corrupt (checked_add current_id 1))) (\<lambda>next.
       jbind journal_head (\<lambda>(sequence, hash).
       let handoff = u64_to_be (sequence + 1) @ hash;
           blob = segment_blob entries in
       jtransaction (\<lambda>s.
         if kv_get T_Segments (u64_to_be next) s \<noteq> None then Inl J_Corrupt
         else if kv_get T_SealedSegments (u64_to_be current_id) s \<noteq> None then Inl J_Corrupt
         else
           let s = kv_put T_SealedSegments (u64_to_be current_id) blob s;
               s = fold (kv_remove T_Records) (map fst entries) s;
               s = kv_put T_Segments (u64_to_be next) handoff s
           in Inr (kv_put T_Meta CURRENT_SEGMENT (u64_to_be next) s)))))))))) "

definition post_ack_rotation :: "unit jm" where
  "post_ack_rotation =
     jbind (jtry (seal_active_segment False)) (\<lambda>ok.
     if ok then jremove T_Meta ROTATION_DEFERRED else jput T_Meta ROTATION_DEFERRED [1])"

definition ensure_user_capacity :: "u64 \<Rightarrow> unit jm" where
  "ensure_user_capacity additional =
     jbind (jread (\<lambda>j. j)) (\<lambda>j.
     jbind (jguard (additional > j_segment_bytes j) J_OversizedRecord) (\<lambda>_.
     let used = saturating_total (kv_scan T_Records (j_store j));
         sealed = saturating_total (kv_scan T_SealedSegments (j_store j)) in
     jbind (jlift (ok_or J_QuotaExceeded (checked_sub (j_max_bytes j) (j_reserve_total j)))) (\<lambda>user_limit.
     jbind (jguard (saturating_add (saturating_add used sealed) additional > user_limit) J_QuotaExceeded) (\<lambda>_.
     if used \<noteq> 0 \<and> saturating_add used additional > j_segment_bytes j
     then jmap_err (\<lambda>_. J_RotationUnavailable) (seal_active_segment True)
     else jreturn ()))))"

definition stop_automation :: "unit jm" where
  "stop_automation =
     jmodify (\<lambda>j.
       let j = j\<lparr>j_automation_stopped := True,
                 j_store := kv_put T_Meta AUTOMATION_STOPPED [1] (j_store j)\<rparr> in
       if j_stop_tmp j then j else j\<lparr>j_stop_marker := True\<rparr>)"

definition stopped :: "'a jm" where
  "stopped = jbind stop_automation (\<lambda>_. jraise J_AutomationStopped)"

definition begin_cleanup_reservation :: "bytes \<Rightarrow> u64 \<Rightarrow> u64 jm" where
  "begin_cleanup_reservation op_id amount =
     jbind (take_either (FP_BeforeTransaction FB_Reserve) (FP_Transaction FB_Reserve)) (\<lambda>fault.
     if fault then stopped
     else
       jbind (jread (\<lambda>j. j)) (\<lambda>j.
       jbind (jguard (j_automation_stopped j \<or> kv_contains T_Meta RESERVE_INFLIGHT (j_store j)
                \<or> kv_contains T_Meta AUTOMATION_STOPPED (j_store j)) J_AutomationStopped) (\<lambda>_.
       jbind (jlift (ok_or J_AutomationStopped (kv_get T_Meta RESERVE (j_store j)))) (\<lambda>remaining.
       jbind (jlift (parse_u64 J_AutomationStopped remaining)) (\<lambda>remaining.
       case checked_sub remaining amount of
         None \<Rightarrow> stopped
       | Some next \<Rightarrow>
           jbind (jput T_Meta RESERVE_INFLIGHT (op_id @ u64_to_be amount)) (\<lambda>_.
           jbind (take_either (FP_BeforeFlush FB_Reserve) (FP_DuringFlush FB_Reserve)) (\<lambda>fault.
           if fault then stopped
           else
             jbind (take_fault (FP_AfterFlush FB_Reserve)) (\<lambda>fault.
             if fault then stopped else jreturn next))))))))"

definition finish_cleanup_reservation :: "u64 \<Rightarrow> unit jm" where
  "finish_cleanup_reservation remaining =
     jbind (jremove T_Meta RESERVE_INFLIGHT) (\<lambda>_.
     jmodify (\<lambda>j. j\<lparr>j_reserve_len := Some remaining\<rparr>))"

section \<open>Inspection\<close>

fun parse_segment_loop :: "nat \<Rightarrow> bytes \<Rightarrow> journal_error + bytes list" where
  "parse_segment_loop 0 blob = (if blob = [] then Inr [] else Inl J_Corrupt)"
| "parse_segment_loop (Suc fuel) blob =
     (if blob = [] then Inr []
      else if length blob < 12 then Inl J_Corrupt
      else
        let len = unat (u32_from_be (subslice 8 12 blob));
            body = drop 12 blob in
        if length body < len then Inl J_Corrupt
        else rbind (parse_segment_loop fuel (drop len body)) (\<lambda>rest. Inr (take len body # rest)))"

text \<open>Every round consumes at least twelve bytes, so the length of the blob is fuel enough.\<close>

definition parse_segment :: "bytes \<Rightarrow> journal_error + bytes list" where
  "parse_segment blob = parse_segment_loop (length blob) blob"

fun parse_segments :: "entries \<Rightarrow> journal_error + bytes list" where
  "parse_segments [] = Inr []"
| "parse_segments ((_, blob) # es) =
     rbind (parse_segment blob) (\<lambda>out. rbind (parse_segments es) (\<lambda>rest. Inr (out @ rest)))"

definition journal_records :: "kv_store \<Rightarrow> journal_error + bytes list" where
  "journal_records s =
     rbind (parse_segments (kv_scan T_SealedSegments s)) (\<lambda>out.
     Inr (out @ map snd (kv_scan T_Records s)))"

definition export_segment :: "u64 \<Rightarrow> kv_store \<Rightarrow> journal_error + bytes list" where
  "export_segment segment s =
     rbind (ok_or J_NotPending (kv_get T_SealedSegments (u64_to_be segment) s)) parse_segment"

fun journal_pending_entries :: "entries \<Rightarrow> journal_error + pending_operation list" where
  "journal_pending_entries [] = Inr []"
| "journal_pending_entries ((key, v) # es) =
     (if length key \<noteq> 16 then Inl J_Corrupt
      else rbind (ok_or J_Corrupt (recipe_decode v)) (\<lambda>(execution_generation, recipe).
      rbind (journal_pending_entries es) (\<lambda>rest.
      Inr (\<lparr>po_operation_id = key, po_execution_generation = execution_generation,
            po_recipe = recipe\<rparr> # rest))))"

definition journal_pending :: "kv_store \<Rightarrow> journal_error + pending_operation list" where
  "journal_pending s = journal_pending_entries (kv_scan T_Pending s)"

definition journal_recover :: "bytes \<Rightarrow> kv_store \<Rightarrow> journal_error + pending_operation" where
  "journal_recover op_id s =
     rbind
       (case kv_get T_Pending op_id s of
          Some v \<Rightarrow> Inr v
        | None \<Rightarrow>
            (case Option.bind (kv_get T_Operations op_id s) state_decode of
               Some state \<Rightarrow> if os_state state = COMPLETE then Inl J_AlreadyComplete else Inl J_NotPending
             | None \<Rightarrow> Inl J_NotPending))
       (\<lambda>v. rbind (ok_or J_Corrupt (recipe_decode v)) (\<lambda>(execution_generation, recipe).
       Inr \<lparr>po_operation_id = op_id, po_execution_generation = execution_generation,
            po_recipe = recipe\<rparr>))"

definition segment_sizes :: "kv_store \<Rightarrow> journal_error + u64 list" where
  "segment_sizes s =
     rbind (foldr (\<lambda>(_, blob) acc. rbind (parse_segment blob) (\<lambda>vs. rbind acc (\<lambda>rest.
              Inr (sum_list (map (\<lambda>v. of_nat (length v)) vs) # rest))))
            (kv_scan T_SealedSegments s) (Inr [])) (\<lambda>sizes.
     Inr (sizes @ [sum_list (map (\<lambda>(_, v). of_nat (length v)) (kv_scan T_Records s))]))"

definition segment_count :: "kv_store \<Rightarrow> nat" where
  "segment_count s = length (kv_scan T_Segments s)"

section \<open>The read mirror of a journal\<close>

definition append_read_mirror :: "unit jm" where
  "append_read_mirror =
     jbind (jread (\<lambda>j. saturating_add (j_mirror_sequence j) 1)) (\<lambda>first.
     jbind journal_head (\<lambda>(head, _).
     if first > head then jreturn ()
     else
       jbind (jread (\<lambda>j. mf_active (j_mirror j))) (\<lambda>active.
       jbind (jguard (active = None) J_Io) (\<lambda>_.
       jbind (\<lambda>j. case append_frames (unat (head - first) + 1) first (j_journal_id j) (j_store j) (j_mirror j) of
                (r, files) \<Rightarrow> (r, j\<lparr>j_mirror := files\<rparr>)) (\<lambda>_.
       jmodify (\<lambda>j. j\<lparr>j_mirror_sequence := head\<rparr>))))))"

definition update_read_mirror_best_effort :: "unit jm" where
  "update_read_mirror_best_effort =
     jbind (jtry append_read_mirror) (\<lambda>ok.
     if ok then jreturn () else jmodify (\<lambda>j. j\<lparr>j_mirror := mark_reader_stale (j_mirror j)\<rparr>))"

text \<open>What \<open>rebuild_read_mirror\<close> writes for the records: sequence number, length and bytes of each.\<close>

fun rebuild_frames :: "bytes list \<Rightarrow> u64 \<Rightarrow> journal_error + (bytes \<times> u64)" where
  "rebuild_frames [] final = Inr ([], final)"
| "rebuild_frames (b # bs) final =
     rbind (map_err J_Record (decode_record b)) (\<lambda>decoded.
     let sequence = wr_sequence (dr_record decoded) in
     rbind (rebuild_frames bs sequence) (\<lambda>(out, final). Inr (mirror_frame sequence b @ out, final)))"

definition last_read_sequence :: "bytes list \<Rightarrow> journal_error + u64" where
  "last_read_sequence bs =
     (if bs = [] then Inr 0
      else rbind (map_err J_Record (decode_record (last bs))) (\<lambda>d. Inr (wr_sequence (dr_record d))))"

definition rebuild_read_mirror :: "(bytes \<Rightarrow> bytes) \<Rightarrow> unit jm" where
  "rebuild_read_mirror sha =
     jbind (jread (\<lambda>j. j)) (\<lambda>j.
     if mf_segments (j_mirror j) \<noteq> [] then
       jbind (jlift (open_read_only (j_mirror j) (j_journal_id j))) (\<lambda>reader.
       jbind (jlift (read_all sha reader)) (\<lambda>(bs, reader).
       jbind (jlift (last_read_sequence bs)) (\<lambda>final.
       jbind (jlift (reader_finish reader)) (\<lambda>_.
       jbind (jmodify (\<lambda>j. j\<lparr>j_mirror_sequence := final\<rparr>)) (\<lambda>_.
       jbind append_read_mirror (\<lambda>_.
       jmodify (\<lambda>j. j\<lparr>j_mirror := (j_mirror j)\<lparr>mf_stale := False\<rparr>\<rparr>)))))))
     else
       jbind (jlift (journal_records (j_store j))) (\<lambda>records.
       jbind (jlift (rebuild_frames records 0)) (\<lambda>(frames, final).
       jmodify (\<lambda>j. j\<lparr>j_mirror := (j_mirror j)
                        \<lparr>mf_active := Some (mirror_header (j_journal_id j) @ frames), mf_stale := False\<rparr>,
                      j_mirror_sequence := final\<rparr>))))"

definition repair_read_mirror :: "(bytes \<Rightarrow> bytes) \<Rightarrow> unit jm" where
  "repair_read_mirror sha =
     jbind (jtry (rebuild_read_mirror sha)) (\<lambda>ok.
     if ok then jreturn () else jmodify (\<lambda>j. j\<lparr>j_mirror := mark_reader_stale (j_mirror j)\<rparr>))"


section \<open>Appending\<close>

definition head_matches :: "u64 \<Rightarrow> kv_store \<Rightarrow> bool" where
  "head_matches sequence s \<longleftrightarrow> kv_get T_Meta HEAD_SEQUENCE s = Some (u64_to_be sequence)"

definition put_head :: "u64 \<Rightarrow> bytes \<Rightarrow> kv_store \<Rightarrow> kv_store" where
  "put_head sequence hash s =
     kv_put T_Meta HEAD_HASH hash (kv_put T_Meta HEAD_SEQUENCE (u64_to_be sequence) s)"

definition put_record :: "u64 \<Rightarrow> bytes \<Rightarrow> bytes \<Rightarrow> kv_store \<Rightarrow> kv_store" where
  "put_record sequence event_id bs s =
     kv_put T_Events event_id (u64_to_be sequence) (kv_put T_Records (u64_to_be sequence) bs s)"

definition jencode :: "witness_record \<Rightarrow> record_bytes jm" where
  "jencode r = jbind (jread j_journal_id) (\<lambda>journal_id. jlift (map_err J_Record (encode_record journal_id r)))"

definition record_len :: "record_bytes \<Rightarrow> u64" where
  "record_len rb = of_nat (length (rb_bytes rb))"

definition append_received ::
  "(bytes \<Rightarrow> bytes) \<Rightarrow> bytes \<Rightarrow> u64 \<Rightarrow> recovery_recipe \<Rightarrow> witness_record \<Rightarrow> unit jm" where
  "append_received sha op_id generation recipe record0 =
     jbind (jread j_epoch) (\<lambda>epoch.
     let record = record0\<lparr>wr_epoch := epoch\<rparr> in
     jbind (jguard (wr_stage record \<noteq> St_RequestReceived) J_InvalidStage) (\<lambda>_.
     jbind (jguard (rr_precondition_digest recipe \<noteq> wr_request_digest record
              \<or> rr_resource_generation recipe \<noteq> wr_resource_generation record
              \<or> rr_original_action recipe \<noteq> wr_action record
              \<or> rr_resource_kind recipe \<noteq> wr_resource_kind record) J_BindingMismatch) (\<lambda>_.
     jbind (preflight FB_Received) (\<lambda>_.
     jbind (jread (\<lambda>j. kv_contains T_Operations op_id (j_store j))) (\<lambda>known.
     jbind (jguard known J_DuplicateOperation) (\<lambda>_.
     jbind journal_head (\<lambda>(sequence, previous).
     let record = record\<lparr>wr_sequence := sequence + 1, wr_previous_hash := previous\<rparr> in
     jbind (jencode record) (\<lambda>bs.
     jbind (ensure_user_capacity (record_len bs)) (\<lambda>_.
     let next_hash = hash_record sha bs;
         pending_value = recipe_encode generation recipe;
         operation = state_encode (state_received sha record generation) in
     jbind (jtransaction (\<lambda>s.
       if \<not> head_matches sequence s then Inl J_Corrupt
       else if kv_get T_Operations op_id s \<noteq> None then Inl J_DuplicateOperation
       else if kv_get T_Events (wr_event_id record) s \<noteq> None then Inl J_DuplicateEvent
       else
         let s = put_record (wr_sequence record) (wr_event_id record) (rb_bytes bs) s;
             s = kv_put T_Operations op_id operation s;
             s = kv_put T_Pending op_id pending_value s
         in Inr (put_head (wr_sequence record) next_hash s))) (\<lambda>_.
     jbind (journal_flush FB_Received op_id) (\<lambda>_.
     jbind update_read_mirror_best_effort (\<lambda>_.
     post_ack_rotation))))))))))))"

definition append_decision_record ::
  "(bytes \<Rightarrow> bytes) \<Rightarrow> bytes \<Rightarrow> witness_record \<Rightarrow> operation_state \<Rightarrow> (bytes \<times> operation_state) jm" where
  "append_decision_record sha op_id record0 state0 =
     jbind journal_head (\<lambda>(sequence, previous).
     let record = record0\<lparr>wr_sequence := sequence + 1, wr_previous_hash := previous\<rparr> in
     jbind (jencode record) (\<lambda>bs.
     jbind (ensure_user_capacity (record_len bs)) (\<lambda>_.
     let next_hash = hash_record sha bs in
     jbind (jlift (ok_or J_InvalidStage (wr_decision_id record))) (\<lambda>decision_id.
     let state = state0\<lparr>os_state := ALLOWED, os_pending_generation := os_pending_generation state0 + 1,
                        os_decision_id := decision_id, os_decision_digest := next_hash\<rparr> in
     jbind (jtransaction (\<lambda>s.
       if \<not> head_matches sequence s then Inl J_Corrupt
       else if kv_get T_Events (wr_event_id record) s \<noteq> None then Inl J_DuplicateEvent
       else
         let s = put_record (wr_sequence record) (wr_event_id record) (rb_bytes bs) s;
             s = kv_put T_Operations op_id (state_encode state) s
         in Inr (put_head (wr_sequence record) next_hash s))) (\<lambda>_.
     jreturn (next_hash, state))))))"

definition load_state :: "bytes \<Rightarrow> operation_state jm" where
  "load_state op_id =
     jbind (jget T_Operations op_id) (\<lambda>bs.
     jbind (jlift (ok_or J_NotPending bs)) (\<lambda>bs.
     jlift (ok_or J_Corrupt (state_decode bs))))"

definition append_decision ::
  "(bytes \<Rightarrow> bytes) \<Rightarrow> bytes \<Rightarrow> witness_record \<Rightarrow> durable_intent jm" where
  "append_decision sha op_id record0 =
     jbind (jread j_epoch) (\<lambda>epoch.
     let record = record0\<lparr>wr_epoch := epoch\<rparr> in
     jbind (jguard (wr_stage record \<noteq> St_Decision) J_InvalidStage) (\<lambda>_.
     jbind (preflight FB_Decision) (\<lambda>_.
     jbind (jget T_Pending op_id) (\<lambda>pending.
     jbind (jlift (ok_or J_NotPending pending)) (\<lambda>pending.
     jbind (jlift (ok_or J_Corrupt (recipe_decode pending))) (\<lambda>(generation, recipe).
     jbind (load_state op_id) (\<lambda>state.
     jbind (jguard (os_state state \<noteq> RECEIVED) J_DuplicateOperation) (\<lambda>_.
     jbind (jguard (\<not> binding_matches sha state record) J_BindingMismatch) (\<lambda>_.
     jbind (jguard (wr_decision record \<noteq> Some True) J_InvalidStage) (\<lambda>_.
     jbind (jlift (ok_or J_InvalidStage (wr_decision_id record))) (\<lambda>decision_id.
     jbind (append_decision_record sha op_id record state) (\<lambda>(decision_digest, state).
     jbind (journal_flush FB_Decision op_id) (\<lambda>_.
     jbind update_read_mirror_best_effort (\<lambda>_.
     jbind post_ack_rotation (\<lambda>_.
     jread (\<lambda>j. \<lparr>di_journal_id = j_journal_id j, di_epoch = j_epoch j, di_operation_id = op_id,
       di_execution_generation = generation, di_pending_generation = os_pending_generation state,
       di_decision_id = decision_id, di_decision_digest = decision_digest,
       di_request_digest = os_request_digest state,
       di_precondition_digest = rr_precondition_digest recipe,
       di_recovery_recipe_digest =
         sha (bstr ''ferrocrate.recovery-recipe.v1'' @ [0] @ pending)\<rparr>))))))))))))))))"

definition deny ::
  "(bytes \<Rightarrow> bytes) \<Rightarrow> bytes \<Rightarrow> witness_record \<Rightarrow> witness_record \<Rightarrow> unit jm" where
  "deny sha op_id decision0 denied0 =
     jbind (jread j_epoch) (\<lambda>epoch.
     let decision = decision0\<lparr>wr_epoch := epoch\<rparr>; denied = denied0\<lparr>wr_epoch := epoch\<rparr> in
     jbind (jguard (wr_stage decision \<noteq> St_Decision \<or> wr_decision decision \<noteq> Some False
              \<or> wr_stage denied \<noteq> St_Denied) J_InvalidStage) (\<lambda>_.
     jbind (preflight FB_Decision) (\<lambda>_.
     jbind (load_state op_id) (\<lambda>state.
     jbind (jguard (os_state state \<noteq> RECEIVED \<or> \<not> binding_matches sha state decision
              \<or> \<not> binding_matches sha state denied
              \<or> wr_decision_id decision \<noteq> wr_decision_id denied) J_BindingMismatch) (\<lambda>_.
     jbind journal_head (\<lambda>(sequence, previous).
     let decision = decision\<lparr>wr_sequence := sequence + 1, wr_previous_hash := previous\<rparr> in
     jbind (jencode decision) (\<lambda>decision_bytes.
     let denied = denied\<lparr>wr_sequence := sequence + 2,
                         wr_previous_hash := hash_record sha decision_bytes\<rparr> in
     jbind (jencode denied) (\<lambda>denied_bytes.
     jbind (ensure_user_capacity
              (of_nat (length (rb_bytes decision_bytes) + length (rb_bytes denied_bytes)))) (\<lambda>_.
     let terminal_hash = hash_record sha denied_bytes;
         terminal = state\<lparr>os_state := COMPLETE, os_pending_generation := os_pending_generation state + 1\<rparr> in
     jbind (jtransaction (\<lambda>s.
       if \<not> head_matches sequence s then Inl J_Corrupt
       else if kv_get T_Events (wr_event_id decision) s \<noteq> None
               \<or> kv_get T_Events (wr_event_id denied) s \<noteq> None
               \<or> wr_event_id decision = wr_event_id denied then Inl J_DuplicateEvent
       else
         let s = put_record (wr_sequence decision) (wr_event_id decision) (rb_bytes decision_bytes) s;
             s = put_record (wr_sequence denied) (wr_event_id denied) (rb_bytes denied_bytes) s;
             s = kv_put T_Operations op_id (state_encode terminal) s;
             s = kv_remove T_Pending op_id s
         in Inr (put_head (wr_sequence denied) terminal_hash s))) (\<lambda>_.
     jbind (journal_flush FB_Decision op_id) (\<lambda>_.
     jbind update_read_mirror_best_effort (\<lambda>_.
     post_ack_rotation))))))))))))"

definition complete ::
  "(bytes \<Rightarrow> bytes) \<Rightarrow> durable_intent \<Rightarrow> witness_record \<Rightarrow> unit jm" where
  "complete sha intent record0 =
     jbind (jread j_epoch) (\<lambda>epoch.
     let record = record0\<lparr>wr_epoch := epoch\<rparr>; op_id = di_operation_id intent in
     jbind (jguard (wr_stage record \<noteq> St_Outcome) J_InvalidStage) (\<lambda>_.
     jbind (preflight FB_Outcome) (\<lambda>_.
     jbind (jread j_journal_id) (\<lambda>journal_id.
     jbind (jguard (di_journal_id intent \<noteq> journal_id \<or> di_epoch intent \<noteq> epoch) J_ProofMismatch) (\<lambda>_.
     jbind (load_state op_id) (\<lambda>state.
     jbind (jguard (os_state state \<noteq> ALLOWED
              \<or> os_execution_generation state \<noteq> di_execution_generation intent
              \<or> os_pending_generation state \<noteq> di_pending_generation intent
              \<or> os_decision_id state \<noteq> di_decision_id intent
              \<or> os_decision_digest state \<noteq> di_decision_digest intent) J_ProofMismatch) (\<lambda>_.
     jbind (jguard (\<not> terminal_matches sha state record) J_BindingMismatch) (\<lambda>_.
     jbind (take_fault (FP_BeforeFlush FB_Outcome)) (\<lambda>forced_unknown.
     let record = (if forced_unknown
                   then record\<lparr>wr_outcome := Out_OutcomeUnknown, wr_reason := Some Rsn_ExecutionFailed\<rparr>
                   else record) in
     jbind journal_head (\<lambda>(sequence, previous).
     let record = record\<lparr>wr_sequence := sequence + 1, wr_previous_hash := previous\<rparr> in
     jbind (jencode record) (\<lambda>bs.
     jbind (ensure_user_capacity (record_len bs)) (\<lambda>_.
     let next_hash = hash_record sha bs;
         unknown = (wr_outcome record = Out_OutcomeUnknown);
         terminal = state\<lparr>os_state := (if unknown then UNKNOWN else COMPLETE),
           os_unknown_event_id := (if unknown then wr_event_id record else replicate 16 0),
           os_pending_generation := os_pending_generation state + 1\<rparr> in
     jbind (jtransaction (\<lambda>s.
       if \<not> head_matches sequence s then Inl J_Corrupt
       else if kv_get T_Pending op_id s = None then Inl J_AlreadyComplete
       else if kv_get T_Events (wr_event_id record) s \<noteq> None then Inl J_DuplicateEvent
       else
         let s = put_record (wr_sequence record) (wr_event_id record) (rb_bytes bs) s;
             s = kv_put T_Operations op_id (state_encode terminal) s;
             s = (if unknown then s else kv_remove T_Pending op_id s)
         in Inr (put_head (wr_sequence record) next_hash s))) (\<lambda>_.
     if forced_unknown then
       jbind update_read_mirror_best_effort (\<lambda>_. jraise (J_Indeterminate op_id))
     else
       jbind (journal_flush FB_Outcome op_id) (\<lambda>_.
       jbind update_read_mirror_best_effort (\<lambda>_.
       post_ack_rotation)))))))))))))))"

definition append_checkpoint_publication ::
  "(bytes \<Rightarrow> bytes) \<Rightarrow> bytes \<Rightarrow> witness_record \<Rightarrow> unit jm" where
  "append_checkpoint_publication sha artifact_digest record0 =
     jbind (jguard (wr_stage record0 \<noteq> St_CheckpointPublished \<or> wr_action record0 \<noteq> CheckpointPublish
              \<or> wr_outcome record0 \<noteq> Out_Succeeded) J_InvalidStage) (\<lambda>_.
     let record = record0\<lparr>wr_result_digest := Some artifact_digest\<rparr> in
     jbind (jlift (map_err J_Record (validate_record record))) (\<lambda>_.
     jbind (jread j_epoch) (\<lambda>epoch.
     jbind (jguard (wr_epoch record \<noteq> epoch) J_ProofMismatch) (\<lambda>_.
     jbind (jget T_Events (wr_event_id record)) (\<lambda>seen.
     case seen of
       Some sequence \<Rightarrow>
         jbind (jget T_Records sequence) (\<lambda>bs.
         jbind (jlift (ok_or J_Corrupt bs)) (\<lambda>bs.
         jbind (jlift (map_err J_Record (decode_record bs))) (\<lambda>existing.
         if wr_epoch (dr_record existing) = wr_epoch record
            \<and> wr_stage (dr_record existing) = St_CheckpointPublished
            \<and> wr_result_digest (dr_record existing) = Some artifact_digest
         then jreturn () else jraise J_DuplicateEvent)))
     | None \<Rightarrow>
         jbind (preflight FB_Outcome) (\<lambda>_.
         jbind (take_fault FP_CheckpointBindingRejected) (\<lambda>rejected.
         jbind (jguard rejected J_BindingMismatch) (\<lambda>_.
         jbind journal_head (\<lambda>(sequence, previous).
         jbind (jlift (ok_or J_Corrupt (checked_add sequence 1))) (\<lambda>next.
         let record = record\<lparr>wr_sequence := next, wr_previous_hash := previous\<rparr> in
         jbind (jencode record) (\<lambda>bs.
         jbind (ensure_user_capacity (record_len bs)) (\<lambda>_.
         let next_hash = hash_record sha bs in
         jbind (jtransaction (\<lambda>s.
           if \<not> head_matches sequence s then Inl J_Corrupt
           else if kv_get T_Events (wr_event_id record) s \<noteq> None then Inl J_DuplicateEvent
           else
             let s = put_record (wr_sequence record) (wr_event_id record) (rb_bytes bs) s
             in Inr (put_head (wr_sequence record) next_hash s))) (\<lambda>_.
         jbind (journal_flush FB_Outcome (wr_request_id record)) (\<lambda>_.
         update_read_mirror_best_effort))))))))))))))"

definition advance_epoch :: "u64 \<Rightarrow> u64 jm" where
  "advance_epoch expected =
     jbind (jread j_epoch) (\<lambda>epoch.
     jbind (jguard (epoch \<noteq> expected) J_ProofMismatch) (\<lambda>_.
     jbind (jlift (ok_or J_Corrupt (checked_add expected 1))) (\<lambda>next.
     jbind (jput T_Meta EPOCH (u64_to_be next)) (\<lambda>_.
     jbind (jmodify (\<lambda>j. j\<lparr>j_epoch := next\<rparr>)) (\<lambda>_.
     jreturn next)))))"

definition flushed_head :: "(bytes \<times> u64 \<times> u64 \<times> bytes) jm" where
  "flushed_head =
     jbind journal_head (\<lambda>(sequence, hash).
     jread (\<lambda>j. (j_journal_id j, j_epoch j, sequence, hash)))"

section \<open>Reconciliation\<close>

definition reconciliation_event_id :: "(bytes \<Rightarrow> bytes) \<Rightarrow> bytes \<Rightarrow> bytes \<Rightarrow> bytes \<Rightarrow> bytes" where
  "reconciliation_event_id sha op_id observation label =
     take 16 (sha (bstr ''FERROCRATE-RECONCILIATION-EVENT-V1'' @ op_id @ observation
       @ u64_to_be (of_nat (length label)) @ label))"

definition reconcile_invocation :: "byte \<Rightarrow> journal_error + invocation" where
  "reconcile_invocation b =
     (if b = 1 then Inr Inv_Cli
      else if b = 2 then Inr Inv_DockerUnix
      else if b = 3 then Inr Inv_Compose
      else if b = 4 then Inr Inv_Cri
      else if b = 5 then Inr Inv_Manager
      else if b = 6 then Inr Inv_InternalCleanup
      else Inl J_Corrupt)"

definition reconcile_action :: "byte \<Rightarrow> journal_error + witness_action" where
  "reconcile_action b =
     (if b = 1 then Inr ContainerCreate
      else if b = 2 then Inr ContainerRun
      else if b = 3 then Inr ContainerExec
      else if b = 4 then Inr ContainerPause
      else if b = 5 then Inr ContainerResume
      else if b = 6 then Inr ContainerStop
      else if b = 7 then Inr ContainerKill
      else if b = 8 then Inr ContainerRestart
      else if b = 9 then Inr ContainerDelete
      else if b = 10 then Inr ImagePull
      else if b = 11 then Inr ImageDelete
      else if b = 12 then Inr VolumeCreate
      else if b = 13 then Inr VolumeDelete
      else if b = 14 then Inr VolumeMount
      else if b = 15 then Inr VolumeUnmount
      else if b = 16 then Inr NetworkCreate
      else if b = 17 then Inr NetworkDelete
      else if b = 18 then Inr NetworkAttach
      else if b = 19 then Inr NetworkDetach
      else if b = 20 then Inr DeviceUse
      else if b = 21 then Inr PolicyReload
      else if b = 22 then Inr PolicyRollback
      else if b = 23 then Inr CheckpointPublish
      else if b = 24 then Inr ImageBuild
      else if b = 25 then Inr ImageTag
      else if b = 26 then Inr ImageReferenceWrite
      else if b = 27 then Inr CheckpointRecover
      else if b = 28 then Inr KeyRotate
      else if b = 29 then Inr RootlessMapping
      else if b = 30 then Inr ContainerRename
      else if b = 33 then Inr ContainerUpdate
      else if b = 34 then Inr VolumeBackup
      else if b = 35 then Inr VolumeRestore
      else Inl J_Corrupt)"

definition reconcile_resource_kind :: "byte \<Rightarrow> journal_error + witness_resource_kind" where
  "reconcile_resource_kind b =
     (if b = 1 then Inr RK_Container
      else if b = 2 then Inr RK_Image
      else if b = 3 then Inr RK_Volume
      else if b = 4 then Inr RK_Network
      else if b = 5 then Inr RK_Device
      else if b = 6 then Inr RK_Policy
      else if b = 7 then Inr RK_Administrative
      else Inl J_Corrupt)"

definition reconcile_disclosure :: "byte \<Rightarrow> journal_error + disclosure_class option" where
  "reconcile_disclosure b =
     (if b = 0 then Inr None
      else if b = 1 then Inr (Some DC_RuntimeManaged)
      else if b = 2 then Inr (Some DC_ReadOnlyHost)
      else if b = 3 then Inr (Some DC_Ephemeral)
      else if b = 4 then Inr (Some DC_BlockDevice)
      else if b = 5 then Inr (Some DC_CharacterDevice)
      else if b = 6 then Inr (Some DC_Accelerator)
      else Inl J_Corrupt)"

definition record_from_state ::
  "operation_state \<Rightarrow> witness_stage \<Rightarrow> bytes \<Rightarrow> journal_error + witness_record" where
  "record_from_state state stage event_id =
     rbind (reconcile_invocation (os_invocation state)) (\<lambda>invocation.
     rbind (reconcile_action (os_action state)) (\<lambda>action.
     rbind (reconcile_resource_kind (os_resource_kind state)) (\<lambda>resource_kind.
     rbind (reconcile_disclosure (os_path_class state)) (\<lambda>path_class.
     rbind (reconcile_disclosure (os_device_class state)) (\<lambda>device_class.
     Inr \<lparr>wr_epoch = 0, wr_sequence = 0, wr_previous_hash = replicate 32 0, wr_event_id = event_id,
          wr_request_id = os_request_id state, wr_runtime_instance_id = os_runtime_id state,
          wr_boot_id = os_boot_id state, wr_principal = os_principal state,
          wr_invocation = invocation, wr_action = action, wr_resource_kind = resource_kind,
          wr_resource = os_resource state, wr_resource_generation = os_resource_generation state,
          wr_policy_version = os_policy_version state, wr_policy_digest = os_policy_digest state,
          wr_decision_id = Some (os_decision_id state), wr_rule = None, wr_decision = None,
          wr_reason = None, wr_request_digest = os_request_digest state, wr_result_digest = None,
          wr_wall_time_ns = 0, wr_monotonic_ns = 0, wr_stage = stage, wr_outcome = Out_None,
          wr_recovery_link = None, wr_path_class = path_class, wr_device_class = device_class,
          wr_correlation_digest = os_correlation_digest state\<rparr>)))))"

definition record_outcome_unknown ::
  "(bytes \<Rightarrow> bytes) \<Rightarrow> bytes \<Rightarrow> witness_record \<Rightarrow> unit jm" where
  "record_outcome_unknown sha op_id record0 =
     jbind (jread j_epoch) (\<lambda>epoch.
     let record = record0\<lparr>wr_epoch := epoch\<rparr> in
     jbind (jguard (wr_stage record \<noteq> St_Outcome \<or> wr_outcome record \<noteq> Out_OutcomeUnknown)
              J_InvalidStage) (\<lambda>_.
     jbind (preflight FB_Outcome) (\<lambda>_.
     jbind (load_state op_id) (\<lambda>state.
     if os_state state = COMPLETE then
       jbind (journal_flush FB_Outcome op_id) (\<lambda>_. jraise J_AlreadyComplete)
     else
       jbind (jguard (os_state state \<noteq> ALLOWED \<or> \<not> terminal_matches sha state record)
                J_BindingMismatch) (\<lambda>_.
       jbind journal_head (\<lambda>(sequence, previous).
       let record = record\<lparr>wr_sequence := sequence + 1, wr_previous_hash := previous\<rparr> in
       jbind (jencode record) (\<lambda>bs.
       jbind (ensure_user_capacity (record_len bs)) (\<lambda>_.
       let next_hash = hash_record sha bs;
           unknown = state\<lparr>os_state := UNKNOWN, os_unknown_event_id := wr_event_id record,
             os_pending_generation := os_pending_generation state + 1\<rparr> in
       jbind (jtransaction (\<lambda>s.
         if \<not> head_matches sequence s then Inl J_Corrupt
         else if kv_get T_Events (wr_event_id record) s \<noteq> None then Inl J_DuplicateEvent
         else
           let s = put_record (wr_sequence record) (wr_event_id record) (rb_bytes bs) s;
               s = kv_put T_Operations op_id (state_encode unknown) s
           in Inr (put_head (wr_sequence record) next_hash s))) (\<lambda>_.
       jbind (journal_flush FB_Outcome op_id) (\<lambda>_.
       post_ack_rotation))))))))))"

definition complete_recovery ::
  "(bytes \<Rightarrow> bytes) \<Rightarrow> bytes \<Rightarrow> witness_record \<Rightarrow> unit jm" where
  "complete_recovery sha op_id record0 =
     jbind (jread (\<lambda>j. (j_epoch j, j_automation_stopped j))) (\<lambda>(epoch, automation_stopped).
     let record = record0\<lparr>wr_epoch := epoch\<rparr> in
     jbind (jguard automation_stopped J_AutomationStopped) (\<lambda>_.
     jbind (jguard (wr_stage record \<noteq> St_Recovery) J_InvalidStage) (\<lambda>_.
     jbind (load_state op_id) (\<lambda>state.
     jbind (jguard (os_state state \<noteq> UNKNOWN \<or> \<not> terminal_matches sha state record
              \<or> wr_recovery_link record \<noteq> Some (os_unknown_event_id state)) J_BindingMismatch) (\<lambda>_.
     jbind journal_head (\<lambda>(sequence, previous).
     let record = record\<lparr>wr_sequence := sequence + 1, wr_previous_hash := previous\<rparr> in
     jbind (jencode record) (\<lambda>bs.
     jbind (jread (\<lambda>j. kv_contains T_Events (wr_event_id record) (j_store j))) (\<lambda>seen.
     jbind (jguard seen J_DuplicateEvent) (\<lambda>_.
     jbind (begin_cleanup_reservation op_id (record_len bs)) (\<lambda>reserve_after.
     jbind (take_either (FP_BeforeTransaction FB_Outcome) (FP_Transaction FB_Outcome)) (\<lambda>fault.
     if fault then stopped
     else
       let next_hash = hash_record sha bs;
           terminal = state\<lparr>os_state := COMPLETE,
             os_pending_generation := os_pending_generation state + 1\<rparr> in
       jbind (jtransaction (\<lambda>s.
         if \<not> head_matches sequence s then Inl J_Corrupt
         else if kv_get T_Events (wr_event_id record) s \<noteq> None then Inl J_DuplicateEvent
         else
           let s = put_record (wr_sequence record) (wr_event_id record) (rb_bytes bs) s;
               s = kv_put T_Operations op_id (state_encode terminal) s;
               s = kv_remove T_Pending op_id s;
               s = put_head (wr_sequence record) next_hash s
           in Inr (kv_put T_Meta RESERVE (u64_to_be reserve_after) s))) (\<lambda>_.
       jbind (jtry (journal_flush FB_Outcome op_id)) (\<lambda>flushed.
       if \<not> flushed then stopped
       else
         jbind (finish_cleanup_reservation reserve_after) (\<lambda>_.
         post_ack_rotation))))))))))))))"

definition reconcile_observed :: "(bytes \<Rightarrow> bytes) \<Rightarrow> recovery_evidence \<Rightarrow> unit jm" where
  "reconcile_observed sha evidence =
     (let op_id = re_operation_id evidence; observation = re_observation_digest evidence in
     jbind (jget T_Pending op_id) (\<lambda>pending.
     jbind (jlift (ok_or J_NotPending pending)) (\<lambda>pending.
     jbind (jlift (ok_or J_Corrupt (recipe_decode pending))) (\<lambda>(execution_generation, recipe).
     jbind (jguard (execution_generation \<noteq> re_execution_generation evidence
              \<or> rr_original_action recipe \<noteq> re_original_action evidence
              \<or> rr_resource_kind recipe \<noteq> re_resource_kind evidence
              \<or> rr_resource_generation recipe \<noteq> re_resource_generation evidence
              \<or> rr_truth_strategy recipe \<noteq> re_truth_strategy evidence
              \<or> rr_observation_handle recipe \<noteq> re_observation_handle evidence) J_BindingMismatch) (\<lambda>_.
     jbind (load_state op_id) (\<lambda>state.
     jbind
       (if os_state state = ALLOWED then
          let event_id = reconciliation_event_id sha op_id observation (bstr ''unknown'') in
          jbind (jlift (record_from_state state St_Outcome event_id)) (\<lambda>unknown.
          jbind (record_outcome_unknown sha op_id
                   (unknown\<lparr>wr_result_digest := Some observation, wr_reason := Some Rsn_ExecutionFailed,
                            wr_outcome := Out_OutcomeUnknown\<rparr>)) (\<lambda>_.
          jreturn event_id))
        else if os_state state = UNKNOWN then jreturn (os_unknown_event_id state)
        else if os_state state = COMPLETE then jraise J_AlreadyComplete
        else jraise J_BindingMismatch) (\<lambda>unknown_event_id.
     let label = (if re_recovered evidence then bstr ''recovered'' else bstr ''quarantined'') in
     jbind (jlift (record_from_state state St_Recovery
              (reconciliation_event_id sha op_id observation label))) (\<lambda>recovery.
     complete_recovery sha op_id
       (recovery\<lparr>wr_result_digest := Some observation, wr_recovery_link := Some unknown_event_id,
         wr_reason := Some (if re_recovered evidence then Rsn_RecoveryCompleted else Rsn_Quarantined),
         wr_outcome := (if re_recovered evidence then Out_Recovered else Out_Quarantined)\<rparr>))))))))) "

section \<open>Opening\<close>

definition initialize_fresh :: "(bytes \<Rightarrow> bytes) \<Rightarrow> u64 \<Rightarrow> unit jm" where
  "initialize_fresh sha reserve_bytes =
     jbind (jmodify (\<lambda>j.
       let s = kv_put T_Meta JOURNAL_ID (j_journal_id j) (j_store j);
           s = kv_put T_Meta HEAD_SEQUENCE (u64_to_be 0) s;
           s = kv_put T_Meta HEAD_HASH (replicate 32 0) s;
           s = kv_put T_Meta EPOCH (u64_to_be 1) s;
           s = kv_put T_Meta RESERVE (u64_to_be reserve_bytes) s;
           s = kv_put T_Meta RESERVE_TOTAL (u64_to_be reserve_bytes) s;
           s = kv_put T_Meta MAX_BYTES (u64_to_be (j_max_bytes j)) s;
           s = kv_put T_Meta CURRENT_SEGMENT (u64_to_be 0) s;
           s = kv_put T_Segments (u64_to_be 0) (u64_to_be 1 @ replicate 32 0) s
       in j\<lparr>j_store := s, j_reserve_len := Some reserve_bytes\<rparr>)) (\<lambda>_.
     jbind (take_fault (FP_AfterFlush FB_Reserve)) (\<lambda>fault.
     jbind (jguard fault J_AutomationStopped) (\<lambda>_.
     repair_read_mirror sha)))"

definition initialize_existing :: "(bytes \<Rightarrow> bytes) \<Rightarrow> bytes \<Rightarrow> unit jm" where
  "initialize_existing sha stored_id =
     jbind (jread (\<lambda>j. j)) (\<lambda>j.
     let meta = (\<lambda>key. kv_get T_Meta key (j_store j)) in
     jbind (jguard (stored_id \<noteq> j_journal_id j) J_JournalMismatch) (\<lambda>_.
     jbind (jguard (meta RESERVE = None) J_AutomationStopped) (\<lambda>_.
     jbind (jguard (meta RESERVE_INFLIGHT \<noteq> None) J_AutomationStopped) (\<lambda>_.
     jbind (jguard (meta AUTOMATION_STOPPED \<noteq> None) J_AutomationStopped) (\<lambda>_.
     jbind (jlift (rbind (ok_or J_Corrupt (meta EPOCH)) (parse_u64 J_Corrupt))) (\<lambda>epoch.
     jbind (jguard (epoch = 0) J_Corrupt) (\<lambda>_.
     jbind (jmodify (\<lambda>j. j\<lparr>j_epoch := epoch\<rparr>)) (\<lambda>_.
     jbind (jlift (rbind (ok_or J_AutomationStopped (meta RESERVE)) (parse_u64 J_AutomationStopped))) (\<lambda>stored_reserve.
     jbind (jlift (rbind (ok_or J_Corrupt (meta RESERVE_TOTAL)) (parse_u64 J_Corrupt))) (\<lambda>total.
     jbind (jlift (rbind (ok_or J_Corrupt (meta MAX_BYTES)) (parse_u64 J_Corrupt))) (\<lambda>max_bytes.
     jbind (jguard (total \<noteq> j_reserve_total j \<or> max_bytes \<noteq> j_max_bytes j) J_Corrupt) (\<lambda>_.
     jbind (jmodify (\<lambda>j. j\<lparr>j_reserve_len := Some (case j_reserve_len j of None \<Rightarrow> 0 | Some n \<Rightarrow> n)\<rparr>)) (\<lambda>_.
     jbind (jread j_reserve_len) (\<lambda>len.
     jbind (jguard (len \<noteq> Some stored_reserve) J_AutomationStopped) (\<lambda>_.
     repair_read_mirror sha)))))))))))))))"

definition initialize :: "(bytes \<Rightarrow> bytes) \<Rightarrow> u64 \<Rightarrow> unit jm" where
  "initialize sha reserve_bytes =
     jbind (jread (\<lambda>j. j_stop_marker j \<or> j_stop_tmp j)) (\<lambda>marked.
     if marked then
       jbind (jmodify (\<lambda>j. j\<lparr>j_automation_stopped := True\<rparr>)) (\<lambda>_. jraise J_AutomationStopped)
     else
       jbind (jget T_Meta JOURNAL_ID) (\<lambda>stored.
       case stored of
         Some stored_id \<Rightarrow> initialize_existing sha stored_id
       | None \<Rightarrow> initialize_fresh sha reserve_bytes))"

definition disk_of :: "disk \<Rightarrow> journal \<Rightarrow> disk" where
  "disk_of d j = d\<lparr>dk_store := Some (j_store j), dk_reserve_len := j_reserve_len j,
     dk_stop_marker := j_stop_marker j, dk_stop_tmp := j_stop_tmp j, dk_mirror := j_mirror j\<rparr>"

text \<open>\<open>open_with_faults\<close>: the lock file is free (a live competing coordinator is outside the
  model); the result is the journal or the error, and the disk in either case.\<close>

definition open_with_faults ::
  "(bytes \<Rightarrow> bytes) \<Rightarrow> journal_config \<Rightarrow> fault_point set \<Rightarrow> disk \<Rightarrow> (journal_error + journal) \<times> disk" where
  "open_with_faults sha config faults d =
     (if dk_lock_id d \<noteq> [] \<and> dk_lock_id d \<noteq> jc_journal_id config then (Inl J_JournalMismatch, d)
      else
        let d = d\<lparr>dk_lock_id := jc_journal_id config\<rparr> in
        if dk_ready d \<noteq> None \<and> dk_store d = None then (Inl J_Corrupt, d)
        else if dk_ready d \<noteq> None \<and> dk_ready d \<noteq> Some (bstr ''witness-sqlite-ready-v1'')
        then (Inl J_Corrupt, d)
        else if dk_legacy d \<and> (dk_store d = None \<or> dk_ready d = None)
        then (Inl J_LegacyMigrationRequired, d)
        else
          let j = \<lparr>j_store = (case dk_store d of None \<Rightarrow> (\<lambda>_. []) | Some s \<Rightarrow> s),
                   j_reserve_len = dk_reserve_len d, j_stop_marker = dk_stop_marker d,
                   j_stop_tmp = dk_stop_tmp d, j_mirror = dk_mirror d,
                   j_journal_id = jc_journal_id config, j_epoch = 1,
                   j_max_bytes = jc_max_journal_bytes config,
                   j_reserve_total = jc_cleanup_reserve_bytes config,
                   j_segment_bytes = jc_segment_bytes config, j_mode = jc_mode config,
                   j_faults = faults, j_automation_stopped = False, j_mirror_sequence = 0\<rparr> in
          (case initialize sha (jc_cleanup_reserve_bytes config) j of
             (Inl e, j) \<Rightarrow> (Inl e, disk_of d j)
           | (Inr _, j) \<Rightarrow> (Inr j, disk_of d j)))"

end
