(* ===== verification/Checkpoint.thy ===== *)
theory Checkpoint
  imports Journal_Types Witness_Verify
begin

text \<open>
  Model of signed checkpoints: \<^verbatim>\<open>ferro-core/src/witness/checkpoint.rs\<close> (the artifact, its binary form,
  signing, the trust bundle and the verifier) and \<^verbatim>\<open>checkpoint_evidence.rs\<close> (the stream that binds
  each checkpoint to the journal).

  Ed25519 is code outside the repository.  A verifying key is its 32 bytes; \<open>ver key message
  signature\<close> stands for \<open>VerifyingKey::verify\<close>, \<open>valid_key\<close> for \<open>VerifyingKey::from_bytes\<close>; a signing key
  is a value of an arbitrary type with \<open>pub\<close> and \<open>sig_of\<close>.  The one law used of them is the documented
  one, that a signature made with a key verifies under its public key, and only where checkpoints
  are made.  SHA-256 is the parameter \<open>sha\<close>, as everywhere.
\<close>

section \<open>The artifact\<close>

definition CP_DOMAIN :: bytes where "CP_DOMAIN = bstr ''FERROCRATE-CHECKPOINT-V2''"
definition CP_MAGIC :: bytes where "CP_MAGIC = bstr ''FCHKPT02''"
definition MAX_CHECKPOINT_BYTES :: nat where "MAX_CHECKPOINT_BYTES = 1024"

record flush_head =
  fh_journal_id :: bytes
  fh_epoch :: u64
  fh_sequence :: u64
  fh_hash :: bytes

datatype checkpoint_kind = CK_Periodic | CK_Rotation | CK_TrustReset

fun checkpoint_kind_u8 :: "checkpoint_kind \<Rightarrow> byte" where
  "checkpoint_kind_u8 CK_Periodic = 1"
| "checkpoint_kind_u8 CK_Rotation = 2"
| "checkpoint_kind_u8 CK_TrustReset = 3"

record checkpoint =
  cp_head :: flush_head
  cp_first_sequence :: u64
  cp_schema_version :: byte
  cp_hash_algorithm :: byte
  cp_created_at_secs :: u64
  cp_kind :: checkpoint_kind
  cp_key_id :: bytes
  cp_public_key :: bytes
  cp_previous_epoch :: u64
  cp_previous_checkpoint_digest :: bytes
  cp_signature :: bytes
  cp_secondary_signature :: "bytes option"

datatype checkpoint_error =
    C_PendingExists
  | C_BindingFailed
  | C_Untrusted
  | C_Rollback
  | C_InvalidArtifact
  | C_Io
  | C_Journal journal_error

definition cp_payload :: "checkpoint \<Rightarrow> bytes" where
  "cp_payload cp =
     CP_DOMAIN @ [2] @ [checkpoint_kind_u8 (cp_kind cp)] @ [cp_schema_version cp] @ [cp_hash_algorithm cp]
     @ fh_journal_id (cp_head cp) @ u64_to_be (fh_epoch (cp_head cp)) @ u64_to_be (cp_first_sequence cp)
     @ u64_to_be (fh_sequence (cp_head cp)) @ fh_hash (cp_head cp) @ u64_to_be (cp_created_at_secs cp)
     @ u64_to_be (cp_previous_epoch cp) @ cp_previous_checkpoint_digest cp @ cp_key_id cp @ cp_public_key cp"

definition cp_body :: "checkpoint \<Rightarrow> bytes" where
  "cp_body cp = cp_payload cp @ cp_signature cp
     @ (case cp_secondary_signature cp of None \<Rightarrow> [0] | Some sig \<Rightarrow> [1] @ sig)"

definition cp_encode :: "checkpoint \<Rightarrow> bytes" where
  "cp_encode cp = CP_MAGIC @ u32_to_be (of_nat (length (cp_body cp))) @ cp_body cp"

text \<open>Decoding; the cursor is the unread suffix, and every failure is \<open>InvalidArtifact\<close>.\<close>

definition checkpoint_kind_of :: "byte \<Rightarrow> checkpoint_kind option" where
  "checkpoint_kind_of b =
     (if b = 1 then Some CK_Periodic else if b = 2 then Some CK_Rotation
      else if b = 3 then Some CK_TrustReset else None)"

definition take_secondary :: "bytes \<Rightarrow> (bytes option \<times> bytes) option" where
  "take_secondary rest =
     Option.bind (take_u8 rest) (\<lambda>(tag, rest).
     if tag = 0 then Some (None, rest)
     else if tag = 1 then Option.bind (take_bytes 64 rest) (\<lambda>(sig, rest). Some (Some sig, rest))
     else None)"

definition cp_decode_body :: "bytes \<Rightarrow> checkpoint option" where
  "cp_decode_body rest =
     Option.bind (take_bytes (length CP_DOMAIN) rest) (\<lambda>(domain, rest).
     if domain \<noteq> CP_DOMAIN then None else
     Option.bind (take_u8 rest) (\<lambda>(format, rest).
     if format \<noteq> 2 then None else
     Option.bind (take_u8 rest) (\<lambda>(kind, rest).
     Option.bind (checkpoint_kind_of kind) (\<lambda>kind.
     Option.bind (take_u8 rest) (\<lambda>(schema_version, rest).
     Option.bind (take_u8 rest) (\<lambda>(hash_algorithm, rest).
     if schema_version \<noteq> 2 \<or> hash_algorithm \<noteq> 1 then None else
     Option.bind (take_bytes 16 rest) (\<lambda>(journal_id, rest).
     Option.bind (take_u64 rest) (\<lambda>(epoch, rest).
     Option.bind (take_u64 rest) (\<lambda>(first_sequence, rest).
     Option.bind (take_u64 rest) (\<lambda>(sequence, rest).
     Option.bind (take_bytes 32 rest) (\<lambda>(hash, rest).
     Option.bind (take_u64 rest) (\<lambda>(created_at_secs, rest).
     Option.bind (take_u64 rest) (\<lambda>(previous_epoch, rest).
     Option.bind (take_bytes 32 rest) (\<lambda>(previous_checkpoint_digest, rest).
     Option.bind (take_bytes 32 rest) (\<lambda>(key_id, rest).
     Option.bind (take_bytes 32 rest) (\<lambda>(public_key, rest).
     Option.bind (take_bytes 64 rest) (\<lambda>(signature, rest).
     Option.bind (take_secondary rest) (\<lambda>(secondary_signature, rest).
     if rest \<noteq> [] then None
     else if (kind = CK_Rotation) \<noteq> (secondary_signature \<noteq> None) then None
     else Some \<lparr>cp_head = \<lparr>fh_journal_id = journal_id, fh_epoch = epoch, fh_sequence = sequence,
                          fh_hash = hash\<rparr>,
        cp_first_sequence = first_sequence, cp_schema_version = schema_version,
        cp_hash_algorithm = hash_algorithm, cp_created_at_secs = created_at_secs, cp_kind = kind,
        cp_key_id = key_id, cp_public_key = public_key, cp_previous_epoch = previous_epoch,
        cp_previous_checkpoint_digest = previous_checkpoint_digest, cp_signature = signature,
        cp_secondary_signature = secondary_signature\<rparr>))))))))))))))))))"

definition cp_decode :: "bytes \<Rightarrow> checkpoint_error + checkpoint" where
  "cp_decode bs =
     (if length bs < 12 \<or> length bs > MAX_CHECKPOINT_BYTES \<or> take 8 bs \<noteq> CP_MAGIC
      then Inl C_InvalidArtifact
      else if unat (u32_from_be (subslice 8 12 bs)) \<noteq> length bs - 12 then Inl C_InvalidArtifact
      else ok_or C_InvalidArtifact (cp_decode_body (drop 12 bs)))"

definition wf_checkpoint :: "checkpoint \<Rightarrow> bool" where
  "wf_checkpoint cp \<longleftrightarrow> length (fh_journal_id (cp_head cp)) = 16 \<and> length (fh_hash (cp_head cp)) = 32
     \<and> cp_schema_version cp = 2 \<and> cp_hash_algorithm cp = 1 \<and> length (cp_key_id cp) = 32
     \<and> length (cp_public_key cp) = 32 \<and> length (cp_previous_checkpoint_digest cp) = 32
     \<and> length (cp_signature cp) = 64 \<and> opt_len 64 (cp_secondary_signature cp)
     \<and> (cp_kind cp = CK_Rotation \<longleftrightarrow> cp_secondary_signature cp \<noteq> None)"

section \<open>Signing\<close>

text \<open>\<open>sign\<close> accepts periodic checkpoints only; every \<open>_after\<close> operation stores the digest of the
  encoded predecessor and signs again.  \<open>head.sequence + 1\<close> in \<open>sign_chunk_after\<close> wraps, as in a
  release build; a build with overflow checks panics there on the largest sequence number.\<close>

definition key_id_of :: "(bytes \<Rightarrow> bytes) \<Rightarrow> bytes \<Rightarrow> bytes" where
  "key_id_of sha key = sha key"

definition cp_digest :: "(bytes \<Rightarrow> bytes) \<Rightarrow> checkpoint \<Rightarrow> bytes" where
  "cp_digest sha cp = sha (cp_encode cp)"

definition cp_signed ::
  "(bytes \<Rightarrow> bytes) \<Rightarrow> ('k \<Rightarrow> bytes) \<Rightarrow> ('k \<Rightarrow> bytes \<Rightarrow> bytes) \<Rightarrow> flush_head \<Rightarrow> u64 \<Rightarrow> checkpoint_kind
    \<Rightarrow> 'k \<Rightarrow> bytes \<Rightarrow> u64 \<Rightarrow> bytes option \<Rightarrow> checkpoint" where
  "cp_signed sha pub sig_of head time kind signer public_key previous_epoch secondary_signature =
     (let cp = \<lparr>cp_head = head, cp_first_sequence = 1, cp_schema_version = 2, cp_hash_algorithm = 1,
        cp_created_at_secs = time, cp_kind = kind, cp_key_id = key_id_of sha (pub signer),
        cp_public_key = public_key, cp_previous_epoch = previous_epoch,
        cp_previous_checkpoint_digest = replicate 32 0, cp_signature = replicate 64 0,
        cp_secondary_signature = secondary_signature\<rparr>
      in cp\<lparr>cp_signature := sig_of signer (cp_payload cp)\<rparr>)"

definition cp_sign ::
  "(bytes \<Rightarrow> bytes) \<Rightarrow> ('k \<Rightarrow> bytes) \<Rightarrow> ('k \<Rightarrow> bytes \<Rightarrow> bytes) \<Rightarrow> flush_head \<Rightarrow> u64 \<Rightarrow> 'k
    \<Rightarrow> checkpoint_kind \<Rightarrow> checkpoint_error + checkpoint" where
  "cp_sign sha pub sig_of head time key kind =
     (if kind \<noteq> CK_Periodic then Inl C_InvalidArtifact
      else Inr (cp_signed sha pub sig_of head time kind key (pub key) 0 None))"

definition cp_sign_after ::
  "(bytes \<Rightarrow> bytes) \<Rightarrow> ('k \<Rightarrow> bytes) \<Rightarrow> ('k \<Rightarrow> bytes \<Rightarrow> bytes) \<Rightarrow> flush_head \<Rightarrow> u64 \<Rightarrow> checkpoint
    \<Rightarrow> 'k \<Rightarrow> checkpoint_error + checkpoint" where
  "cp_sign_after sha pub sig_of head time predecessor key =
     (if fh_epoch head \<noteq> fh_epoch (cp_head predecessor)
         \<or> fh_sequence head < fh_sequence (cp_head predecessor) then Inl C_Rollback
      else rbind (cp_sign sha pub sig_of head time key CK_Periodic) (\<lambda>cp.
      let cp = cp\<lparr>cp_previous_checkpoint_digest := cp_digest sha predecessor\<rparr>
      in Inr (cp\<lparr>cp_signature := sig_of key (cp_payload cp)\<rparr>)))"

definition cp_sign_chunk_after ::
  "(bytes \<Rightarrow> bytes) \<Rightarrow> ('k \<Rightarrow> bytes) \<Rightarrow> ('k \<Rightarrow> bytes \<Rightarrow> bytes) \<Rightarrow> flush_head \<Rightarrow> u64 \<Rightarrow> u64
    \<Rightarrow> checkpoint \<Rightarrow> 'k \<Rightarrow> checkpoint_error + checkpoint" where
  "cp_sign_chunk_after sha pub sig_of head first_sequence time predecessor key =
     (if first_sequence \<le> fh_sequence (cp_head predecessor) \<or> first_sequence > fh_sequence head + 1 then Inl C_Rollback
      else rbind (cp_sign_after sha pub sig_of head time predecessor key) (\<lambda>cp.
      let cp = cp\<lparr>cp_first_sequence := first_sequence\<rparr>
      in Inr (cp\<lparr>cp_signature := sig_of key (cp_payload cp)\<rparr>)))"

definition cp_rotate ::
  "(bytes \<Rightarrow> bytes) \<Rightarrow> ('k \<Rightarrow> bytes) \<Rightarrow> ('k \<Rightarrow> bytes \<Rightarrow> bytes) \<Rightarrow> flush_head \<Rightarrow> u64 \<Rightarrow> 'k \<Rightarrow> 'k
    \<Rightarrow> checkpoint_error + checkpoint" where
  "cp_rotate sha pub sig_of head time old new =
     (let cp = cp_signed sha pub sig_of head time CK_Rotation old (pub new) 0 None
      in Inr (cp\<lparr>cp_secondary_signature := Some (sig_of new (cp_payload cp))\<rparr>))"

definition cp_rotate_after ::
  "(bytes \<Rightarrow> bytes) \<Rightarrow> ('k \<Rightarrow> bytes) \<Rightarrow> ('k \<Rightarrow> bytes \<Rightarrow> bytes) \<Rightarrow> flush_head \<Rightarrow> u64 \<Rightarrow> checkpoint
    \<Rightarrow> 'k \<Rightarrow> 'k \<Rightarrow> checkpoint_error + checkpoint" where
  "cp_rotate_after sha pub sig_of head time predecessor old new =
     rbind (cp_rotate sha pub sig_of head time old new) (\<lambda>cp.
     let cp = cp\<lparr>cp_previous_checkpoint_digest := cp_digest sha predecessor\<rparr>;
         cp = cp\<lparr>cp_signature := sig_of old (cp_payload cp)\<rparr>
     in Inr (cp\<lparr>cp_secondary_signature := Some (sig_of new (cp_payload cp))\<rparr>))"

definition cp_trust_reset ::
  "(bytes \<Rightarrow> bytes) \<Rightarrow> ('k \<Rightarrow> bytes) \<Rightarrow> ('k \<Rightarrow> bytes \<Rightarrow> bytes) \<Rightarrow> flush_head \<Rightarrow> u64 \<Rightarrow> 'k \<Rightarrow> u64
    \<Rightarrow> checkpoint_error + checkpoint" where
  "cp_trust_reset sha pub sig_of head time new previous_epoch =
     (if fh_epoch head \<le> previous_epoch then Inl C_Rollback
      else Inr (cp_signed sha pub sig_of head time CK_TrustReset new (pub new) previous_epoch None))"

definition cp_trust_reset_after ::
  "(bytes \<Rightarrow> bytes) \<Rightarrow> ('k \<Rightarrow> bytes) \<Rightarrow> ('k \<Rightarrow> bytes \<Rightarrow> bytes) \<Rightarrow> flush_head \<Rightarrow> u64 \<Rightarrow> checkpoint
    \<Rightarrow> 'k \<Rightarrow> checkpoint_error + checkpoint" where
  "cp_trust_reset_after sha pub sig_of head time predecessor new =
     rbind (cp_trust_reset sha pub sig_of head time new (fh_epoch (cp_head predecessor))) (\<lambda>cp.
     let cp = cp\<lparr>cp_previous_checkpoint_digest := cp_digest sha predecessor\<rparr>
     in Inr (cp\<lparr>cp_signature := sig_of new (cp_payload cp)\<rparr>))"

section \<open>The trust bundle and the verifier\<close>

type_synonym ed25519 = "bytes \<Rightarrow> bytes \<Rightarrow> bytes \<Rightarrow> bool"

definition verify_signature ::
  "(bytes \<Rightarrow> bytes) \<Rightarrow> ed25519 \<Rightarrow> checkpoint \<Rightarrow> bytes \<Rightarrow> checkpoint_error + unit" where
  "verify_signature sha ver cp key =
     (if cp_key_id cp \<noteq> key_id_of sha key then Inl C_Untrusted
      else if ver key (cp_payload cp) (cp_signature cp) then Inr () else Inl C_Untrusted)"

record trust_bundle =
  tb_journal_id :: bytes
  tb_starting_epoch :: u64
  tb_max_records :: u64
  tb_first_sequence :: u64
  tb_predecessor_hash :: bytes
  tb_boundary :: "checkpoint option"
  tb_initial :: bytes
  tb_minimum :: "checkpoint option"
  tb_resets :: "u64 \<rightharpoonup> bytes"

definition trust_bundle_new :: "bytes \<Rightarrow> bytes \<Rightarrow> trust_bundle" where
  "trust_bundle_new journal_id initial =
     \<lparr>tb_journal_id = journal_id, tb_starting_epoch = 1, tb_max_records = 1000000,
      tb_first_sequence = 1, tb_predecessor_hash = replicate 32 0, tb_boundary = None,
      tb_initial = initial, tb_minimum = None, tb_resets = Map.empty\<rparr>"

definition from_boundary ::
  "(bytes \<Rightarrow> bytes) \<Rightarrow> ed25519 \<Rightarrow> bytes \<Rightarrow> u64 \<Rightarrow> u64 \<Rightarrow> bytes \<Rightarrow> checkpoint \<Rightarrow> bytes
    \<Rightarrow> checkpoint_error + trust_bundle" where
  "from_boundary sha ver journal_id epoch first_sequence predecessor_hash cp key =
     (if fh_journal_id (cp_head cp) \<noteq> journal_id \<or> fh_epoch (cp_head cp) \<noteq> epoch
         \<or> first_sequence \<le> fh_sequence (cp_head cp) \<or> predecessor_hash = replicate 32 0
      then Inl C_Untrusted
      else rbind (verify_signature sha ver cp key) (\<lambda>_.
      Inr \<lparr>tb_journal_id = journal_id, tb_starting_epoch = epoch, tb_max_records = 1000000,
        tb_first_sequence = first_sequence, tb_predecessor_hash = predecessor_hash,
        tb_boundary = Some cp, tb_initial = key, tb_minimum = None, tb_resets = Map.empty\<rparr>))"

definition bundle_max_records :: "u64 \<Rightarrow> trust_bundle \<Rightarrow> trust_bundle" where
  "bundle_max_records n tb = tb\<lparr>tb_max_records := n\<rparr>"

definition with_minimum :: "checkpoint \<Rightarrow> trust_bundle \<Rightarrow> trust_bundle" where
  "with_minimum cp tb = tb\<lparr>tb_minimum := Some cp\<rparr>"

definition allow_epoch_reset :: "u64 \<Rightarrow> bytes \<Rightarrow> trust_bundle \<Rightarrow> trust_bundle" where
  "allow_epoch_reset epoch key tb = tb\<lparr>tb_resets := (tb_resets tb)(epoch \<mapsto> key)\<rparr>"

text \<open>The loop over the checkpoints keeps the trusted key, every key trusted so far, the previous
  checkpoint (at first the retained boundary) and the number of trust resets.\<close>

record chain_state =
  ch_trusted :: bytes
  ch_keys :: "bytes \<rightharpoonup> bytes"
  ch_last :: "checkpoint option"
  ch_discontinuities :: u64

definition check_link ::
  "(bytes \<Rightarrow> bytes) \<Rightarrow> checkpoint option \<Rightarrow> checkpoint \<Rightarrow> checkpoint_error + unit" where
  "check_link sha latest cp =
     (case latest of
        Some prev \<Rightarrow>
          (let epoch = fh_epoch (cp_head cp); prev_epoch = fh_epoch (cp_head prev) in
           if cp_kind cp \<noteq> CK_TrustReset \<and> epoch \<noteq> prev_epoch
              \<or> cp_kind cp = CK_TrustReset
                \<and> (epoch \<noteq> saturating_add prev_epoch 1 \<or> cp_previous_epoch cp \<noteq> prev_epoch)
              \<or> cp_previous_checkpoint_digest cp \<noteq> cp_digest sha prev
              \<or> epoch = prev_epoch
                \<and> (fh_sequence (cp_head cp) < fh_sequence (cp_head prev)
                   \<or> fh_sequence (cp_head cp) = fh_sequence (cp_head prev)
                     \<and> fh_hash (cp_head cp) \<noteq> fh_hash (cp_head prev)
                   \<or> cp_created_at_secs cp < cp_created_at_secs prev)
           then Inl C_Rollback else Inr ())
      | None \<Rightarrow>
          if cp_kind cp = CK_TrustReset \<or> cp_previous_checkpoint_digest cp \<noteq> replicate 32 0
          then Inl C_Untrusted else Inr ())"

definition check_trust ::
  "(bytes \<Rightarrow> bytes) \<Rightarrow> ed25519 \<Rightarrow> (bytes \<Rightarrow> bool) \<Rightarrow> trust_bundle \<Rightarrow> checkpoint \<Rightarrow> chain_state
    \<Rightarrow> checkpoint_error + chain_state" where
  "check_trust sha ver valid_key tb cp st =
     (case cp_kind cp of
        CK_Periodic \<Rightarrow> rbind (verify_signature sha ver cp (ch_trusted st)) (\<lambda>_. Inr st)
      | CK_Rotation \<Rightarrow>
          rbind (verify_signature sha ver cp (ch_trusted st)) (\<lambda>_.
          if \<not> valid_key (cp_public_key cp) then Inl C_Untrusted
          else rbind (ok_or C_Untrusted (cp_secondary_signature cp)) (\<lambda>secondary.
          if \<not> ver (cp_public_key cp) (cp_payload cp) secondary then Inl C_Untrusted
          else Inr (st\<lparr>ch_trusted := cp_public_key cp,
            ch_keys := (ch_keys st)(key_id_of sha (cp_public_key cp) \<mapsto> cp_public_key cp)\<rparr>)))
      | CK_TrustReset \<Rightarrow>
          rbind (ok_or C_Untrusted (tb_resets tb (fh_epoch (cp_head cp)))) (\<lambda>reset.
          if cp_previous_epoch cp \<ge> fh_epoch (cp_head cp) \<or> reset \<noteq> cp_public_key cp
          then Inl C_Untrusted
          else rbind (verify_signature sha ver cp reset) (\<lambda>_.
          Inr (st\<lparr>ch_trusted := reset, ch_keys := (ch_keys st)(key_id_of sha reset \<mapsto> reset),
            ch_discontinuities := ch_discontinuities st + 1\<rparr>))))"

definition chain_step ::
  "(bytes \<Rightarrow> bytes) \<Rightarrow> ed25519 \<Rightarrow> (bytes \<Rightarrow> bool) \<Rightarrow> trust_bundle \<Rightarrow> checkpoint \<Rightarrow> chain_state
    \<Rightarrow> checkpoint_error + chain_state" where
  "chain_step sha ver valid_key tb cp st =
     (if fh_journal_id (cp_head cp) \<noteq> tb_journal_id tb then Inl C_Untrusted
      else rbind (check_link sha (ch_last st) cp) (\<lambda>_.
      rbind (check_trust sha ver valid_key tb cp st) (\<lambda>st.
      Inr (st\<lparr>ch_last := Some cp\<rparr>))))"

fun chain_steps ::
  "(bytes \<Rightarrow> bytes) \<Rightarrow> ed25519 \<Rightarrow> (bytes \<Rightarrow> bool) \<Rightarrow> trust_bundle \<Rightarrow> checkpoint list \<Rightarrow> chain_state
    \<Rightarrow> checkpoint_error + chain_state" where
  "chain_steps sha ver valid_key tb [] st = Inr st"
| "chain_steps sha ver valid_key tb (cp # cps) st =
     rbind (chain_step sha ver valid_key tb cp st) (chain_steps sha ver valid_key tb cps)"

definition chain_start :: "(bytes \<Rightarrow> bytes) \<Rightarrow> trust_bundle \<Rightarrow> chain_state" where
  "chain_start sha tb =
     \<lparr>ch_trusted = tb_initial tb, ch_keys = [key_id_of sha (tb_initial tb) \<mapsto> tb_initial tb],
      ch_last = tb_boundary tb, ch_discontinuities = 0\<rparr>"

text \<open>The required minimum must itself be among the checkpoints and signed by a trusted key.\<close>

definition minimum_reached ::
  "(bytes \<Rightarrow> bytes) \<Rightarrow> ed25519 \<Rightarrow> trust_bundle \<Rightarrow> checkpoint list \<Rightarrow> chain_state \<Rightarrow> checkpoint \<Rightarrow> bool" where
  "minimum_reached sha ver tb cps st minimum \<longleftrightarrow>
     fh_journal_id (cp_head minimum) = tb_journal_id tb
     \<and> (case ch_keys st (cp_key_id minimum) of
          None \<Rightarrow> False | Some key \<Rightarrow> is_ok (verify_signature sha ver minimum key))
     \<and> minimum \<in> set cps
     \<and> (case ch_last st of
          None \<Rightarrow> False
        | Some cp \<Rightarrow>
            fh_epoch (cp_head cp) > fh_epoch (cp_head minimum)
            \<or> fh_epoch (cp_head cp) = fh_epoch (cp_head minimum)
              \<and> fh_sequence (cp_head cp) \<ge> fh_sequence (cp_head minimum)
              \<and> (fh_sequence (cp_head cp) \<noteq> fh_sequence (cp_head minimum)
                 \<or> fh_hash (cp_head cp) = fh_hash (cp_head minimum)))"

section \<open>Binding checkpoints to the journal\<close>

record evidence_state =
  ev_verifier :: stream_verifier
  ev_cursor :: nat
  ev_epoch :: u64

definition list_get :: "'a list \<Rightarrow> nat \<Rightarrow> 'a option" where
  "list_get xs i = (if i < length xs then Some (xs ! i) else None)"

definition binds_checkpoint :: "checkpoint option \<Rightarrow> witness_record \<Rightarrow> bool" where
  "binds_checkpoint expected r \<longleftrightarrow>
     (case expected of None \<Rightarrow> False
      | Some cp \<Rightarrow> checked_add (fh_sequence (cp_head cp)) 1 = Some (wr_sequence r))"

definition bind_checkpoint ::
  "(bytes \<Rightarrow> bytes) \<Rightarrow> checkpoint \<Rightarrow> witness_record \<Rightarrow> evidence_state \<Rightarrow> checkpoint_error + evidence_state" where
  "bind_checkpoint sha cp r es =
     (if wr_stage r \<noteq> St_CheckpointPublished \<or> wr_action r \<noteq> CheckpointPublish
         \<or> wr_result_digest r \<noteq> Some (cp_digest sha cp) \<or> wr_previous_hash r \<noteq> fh_hash (cp_head cp)
         \<or> wr_epoch r \<noteq> fh_epoch (cp_head cp)
      then Inl C_Rollback
      else rbind
        (if cp_kind cp = CK_TrustReset then
           (if cp_previous_epoch cp \<noteq> ev_epoch es then Inl C_Rollback
            else rbind (ok_or C_Rollback (checked_add (ev_epoch es) 1)) (\<lambda>next.
            if fh_epoch (cp_head cp) \<noteq> next then Inl C_Rollback
            else rbind (map_err (\<lambda>_. C_Rollback)
                   (verifier_advance_epoch (fh_epoch (cp_head cp)) (ev_verifier es))) (\<lambda>v.
            Inr (es\<lparr>ev_verifier := v, ev_epoch := fh_epoch (cp_head cp)\<rparr>))))
         else if fh_epoch (cp_head cp) \<noteq> ev_epoch es then Inl C_Rollback
         else Inr es)
        (\<lambda>es. Inr (es\<lparr>ev_cursor := ev_cursor es + 1\<rparr>)))"

definition evidence_step ::
  "(bytes \<Rightarrow> bytes) \<Rightarrow> checkpoint list \<Rightarrow> bytes \<Rightarrow> evidence_state \<Rightarrow> checkpoint_error + evidence_state" where
  "evidence_step sha cps bytes es =
     rbind (map_err (\<lambda>_. C_Rollback) (decode_record bytes)) (\<lambda>decoded.
     let r = dr_record decoded; expected = list_get cps (ev_cursor es) in
     rbind
       (if binds_checkpoint expected r then
          rbind (ok_or C_Rollback expected) (\<lambda>cp. bind_checkpoint sha cp r es)
        else if (case expected of None \<Rightarrow> False
                 | Some cp \<Rightarrow> fh_sequence (cp_head cp) < wr_sequence r) \<or> wr_epoch r \<noteq> ev_epoch es
        then Inl C_Rollback
        else Inr es)
       (\<lambda>es. rbind (map_err (\<lambda>_. C_Rollback) (verifier_push sha bytes (ev_verifier es))) (\<lambda>v.
       Inr (es\<lparr>ev_verifier := v\<rparr>))))"

fun evidence_steps ::
  "(bytes \<Rightarrow> bytes) \<Rightarrow> checkpoint list \<Rightarrow> bytes list \<Rightarrow> evidence_state \<Rightarrow> checkpoint_error + evidence_state" where
  "evidence_steps sha cps [] es = Inr es"
| "evidence_steps sha cps (b # bs) es =
     rbind (evidence_step sha cps b es) (evidence_steps sha cps bs)"

definition verify_streaming ::
  "(bytes \<Rightarrow> bytes) \<Rightarrow> bytes list \<Rightarrow> bytes \<Rightarrow> checkpoint list \<Rightarrow> u64 \<Rightarrow> u64 \<Rightarrow> u64 \<Rightarrow> bytes
    \<Rightarrow> checkpoint_error + verification_report" where
  "verify_streaming sha evidence journal_id cps max_records starting_epoch first_sequence
       predecessor_hash =
     (if cps = [] then Inl C_Untrusted
      else rbind (evidence_steps sha cps evidence
        \<lparr>ev_verifier = stream_verifier_new (with_max_records max_records
            (stream_trust_new journal_id starting_epoch first_sequence predecessor_hash)),
         ev_cursor = 0, ev_epoch = starting_epoch\<rparr>) (\<lambda>es.
      if ev_cursor es \<noteq> length cps then Inl C_Rollback
      else map_err (\<lambda>_. C_Rollback) (verifier_finish (ev_verifier es))))"

definition MAX_CHECKPOINTS :: nat where "MAX_CHECKPOINTS = 4096"

definition checkpoint_verify ::
  "(bytes \<Rightarrow> bytes) \<Rightarrow> ed25519 \<Rightarrow> (bytes \<Rightarrow> bool) \<Rightarrow> trust_bundle \<Rightarrow> bytes list \<Rightarrow> checkpoint list \<Rightarrow> u64
    \<Rightarrow> u64 \<Rightarrow> checkpoint_error + verification_report" where
  "checkpoint_verify sha ver valid_key tb evidence cps now_secs max_age =
     (if cps = [] \<or> length cps > MAX_CHECKPOINTS then Inl C_InvalidArtifact
      else if fh_epoch (cp_head (hd cps)) \<noteq> tb_starting_epoch tb
              \<or> cp_first_sequence (hd cps) \<noteq> tb_first_sequence tb then Inl C_Untrusted
      else rbind (chain_steps sha ver valid_key tb cps (chain_start sha tb)) (\<lambda>st.
      let complete = map_option (minimum_reached sha ver tb cps st) (tb_minimum tb) in
      if complete = Some False then Inl C_Rollback
      else rbind (ok_or C_Untrusted (ch_last st)) (\<lambda>last.
      if cp_created_at_secs last > now_secs then Inl C_InvalidArtifact
      else rbind (verify_streaming sha evidence (tb_journal_id tb) cps (tb_max_records tb)
             (tb_starting_epoch tb) (tb_first_sequence tb) (tb_predecessor_hash tb)) (\<lambda>report.
      let age = now_secs - cp_created_at_secs last;
          report = report\<lparr>vr_completeness := (case complete of None \<Rightarrow> Some True | Some b \<Rightarrow> Some b),
            vr_tail_freshness := Fresh_UnknownTail,
            vr_checkpoint_age := Some (if age \<le> max_age then Age_Current age else Age_Stale age)\<rparr> in
      if vr_discontinuities report \<noteq> ch_discontinuities st then Inl C_Rollback
      else Inr report))))"

section \<open>The binary form is canonical\<close>

lemma checkpoint_kind_of_u8 [simp]: "checkpoint_kind_of (checkpoint_kind_u8 k) = Some k"
  by (cases k) (simp_all add: checkpoint_kind_of_def)

lemma checkpoint_kind_of_inv: "checkpoint_kind_of b = Some k \<Longrightarrow> b = checkpoint_kind_u8 k"
  by (auto simp: checkpoint_kind_of_def split: if_splits)

lemma take_secondary_append [simp]:
  "opt_len 64 v \<Longrightarrow> take_secondary (case v of None \<Rightarrow> [0] | Some sig \<Rightarrow> [1] @ sig) = Some (v, [])"
  by (cases v) (simp_all add: take_secondary_def)

lemma take_secondary_inv:
  "take_secondary bs = Some (v, rest) \<Longrightarrow>
     opt_len 64 v \<and> bs = (case v of None \<Rightarrow> [0] | Some sig \<Rightarrow> [1] @ sig) @ rest"
  by (auto simp: take_secondary_def bind_eq_Some_conv split: if_splits dest!: take_u8_inv take_bytes_inv)

lemma cp_decode_body_encode: "wf_checkpoint cp \<Longrightarrow> cp_decode_body (cp_body cp) = Some cp"
  by (simp add: cp_decode_body_def cp_body_def cp_payload_def wf_checkpoint_def)

lemma cp_decode_body_sound:
  assumes "cp_decode_body bs = Some cp"
  shows "wf_checkpoint cp \<and> bs = cp_body cp"
proof -
  note inv = take_bytes_inv take_u8_inv take_u64_inv take_secondary_inv checkpoint_kind_of_inv
  from assms show ?thesis
    unfolding cp_decode_body_def
    by (auto simp: wf_checkpoint_def cp_body_def cp_payload_def bind_eq_Some_conv
        elim!: bind_pair_elim dest!: inv split: if_splits)
qed

lemma length_cp_body:
  "wf_checkpoint cp \<Longrightarrow> length (cp_body cp) = (if cp_kind cp = CK_Rotation then 341 else 277)"
  by (auto simp: cp_body_def cp_payload_def wf_checkpoint_def CP_DOMAIN_def)

lemma cp_encode_header:
  assumes "length bs = 4"
  shows "take 8 (CP_MAGIC @ bs @ body) = CP_MAGIC" "subslice 8 12 (CP_MAGIC @ bs @ body) = bs"
    "drop 12 (CP_MAGIC @ bs @ body) = body"
  using assms by (simp_all add: CP_MAGIC_def subslice_def bstr_def)

lemma checkpoint_decode_sound:
  assumes dec: "cp_decode bs = Inr cp"
  shows "wf_checkpoint cp \<and> bs = cp_encode cp"
proof -
  from dec have len: "12 \<le> length bs" and magic: "take 8 bs = CP_MAGIC"
    and declared: "unat (u32_from_be (subslice 8 12 bs)) = length bs - 12"
    and body: "cp_decode_body (drop 12 bs) = Some cp"
    by (auto simp: cp_decode_def rbind_simps split: if_splits)
  from cp_decode_body_sound [OF body] have wf: "wf_checkpoint cp" and rest: "drop 12 bs = cp_body cp"
    by simp_all
  have four: "length (subslice 8 12 bs) = 4" using len by simp
  have "u32_from_be (subslice 8 12 bs) = of_nat (unat (u32_from_be (subslice 8 12 bs)))" by simp
  also have "\<dots> = of_nat (length (cp_body cp))"
    using declared arg_cong [OF rest, of length] by simp
  finally have "subslice 8 12 bs = u32_to_be (of_nat (length (cp_body cp)))"
    using u32_to_from_be [OF four] by simp
  moreover have "bs = take 8 bs @ subslice 8 12 bs @ drop 12 bs"
  proof -
    have "take 8 bs @ subslice 8 12 bs = take 12 bs"
      using subslice_join [of 0 8 12 bs] by (simp add: subslice_def)
    from arg_cong [OF this, of "\<lambda>xs. xs @ drop 12 bs"] show ?thesis by simp
  qed
  ultimately show ?thesis using wf magic rest by (simp add: cp_encode_def)
qed

lemma length_cp_encode:
  "wf_checkpoint cp \<Longrightarrow> length (cp_encode cp) = (if cp_kind cp = CK_Rotation then 353 else 289)"
  using length_cp_body by (simp add: cp_encode_def CP_MAGIC_def)

lemma cp_decode_encode:
  assumes wf: "wf_checkpoint cp"
  shows "cp_decode (cp_encode cp) = Inr cp"
proof -
  let ?bs = "cp_encode cp"
  have parts: "take 8 ?bs = CP_MAGIC" "subslice 8 12 ?bs = u32_to_be (of_nat (length (cp_body cp)))"
    "drop 12 ?bs = cp_body cp"
    unfolding cp_encode_def by (rule cp_encode_header; simp)+
  from parts length_cp_encode [OF wf] length_cp_body [OF wf] cp_decode_body_encode [OF wf] show ?thesis
    by (simp add: cp_decode_def MAX_CHECKPOINT_BYTES_def unat_of_nat split: if_splits)
qed

text \<open>The artifact has one binary form: decoding a byte string gives a checkpoint exactly when the
  checkpoint is well formed (array sizes, schema 2, hash algorithm 1, a second signature on
  rotations and only there) and the string is its encoding.  Every accepted artifact is 289 or 353
  bytes long.\<close>

theorem checkpoint_decode_iff:
  "cp_decode bs = Inr cp \<longleftrightarrow> wf_checkpoint cp \<and> bs = cp_encode cp
     \<and> length bs = (if cp_kind cp = CK_Rotation then 353 else 289)"
  using checkpoint_decode_sound [of bs cp] cp_decode_encode [of cp] length_cp_encode [of cp] by metis

end
