(* ===== verification/Coordinator.thy ===== *)
theory Coordinator
  imports Journal Checkpoint
begin

text \<open>
  Model of the checkpoint coordinator, \<^verbatim>\<open>ferro-core/src/witness/checkpoint_coordinator.rs\<close>: it captures
  the head of the journal, signs it, writes a pending file, publishes the artifact, appends the
  publication record to the journal and clears the pending file; after a crash it reconciles what
  the pending file says.

  The state has the two files, the journal and the outcomes of the file operations to come (an empty
  list means that they all succeed).  Reading, replacing and removing a file are atomic: an operation
  is refused (wrong owner or permissions), fails before it takes effect, fails after it has taken
  effect (the final synchronisation), or is done.  Directory handles, permissions and temporary
  files are not modelled beyond these outcomes.
\<close>

section \<open>State\<close>

datatype pending_state = PS_Prepared | PS_Published | PS_Bound | PS_BindingFailed

datatype recoverability = RV_Retryable | RV_Indeterminate | RV_OperatorRequired

record pending_binding =
  pb_checkpoint :: checkpoint
  pb_event_id :: bytes
  pb_expected_epoch :: u64
  pb_expected_sequence :: u64
  pb_record_bytes :: bytes
  pb_state :: pending_state
  pb_recoverability :: recoverability

datatype publication_outcome = PO_Bound checkpoint | PO_PendingBinding pending_binding

datatype io_outcome = Io_Done | Io_Refused | Io_Before | Io_After

record coordinator =
  co_artifact :: "bytes option"
  co_pending :: "bytes option"
  co_io :: "io_outcome list"
  co_journal :: journal

type_synonym 'a cm = "coordinator \<Rightarrow> (checkpoint_error + 'a) \<times> coordinator"

definition creturn :: "'a \<Rightarrow> 'a cm" where
  "creturn x co = (Inr x, co)"

definition craise :: "checkpoint_error \<Rightarrow> 'a cm" where
  "craise e co = (Inl e, co)"

definition cbind :: "'a cm \<Rightarrow> ('a \<Rightarrow> 'b cm) \<Rightarrow> 'b cm" where
  "cbind m k co = (case m co of (Inl e, co') \<Rightarrow> (Inl e, co') | (Inr x, co') \<Rightarrow> k x co')"

definition clift :: "checkpoint_error + 'a \<Rightarrow> 'a cm" where
  "clift r co = (r, co)"

definition cguard :: "bool \<Rightarrow> checkpoint_error \<Rightarrow> unit cm" where
  "cguard c e co = ((if c then Inl e else Inr ()), co)"

text \<open>\<open>on_journal\<close> runs a journal operation and gives its result, errors included; \<open>cjournal\<close>
  propagates its errors.\<close>

definition on_journal :: "'a jm \<Rightarrow> (journal_error + 'a) cm" where
  "on_journal m co = (case m (co_journal co) of (r, j) \<Rightarrow> (Inr r, co\<lparr>co_journal := j\<rparr>))"

definition cjournal :: "'a jm \<Rightarrow> 'a cm" where
  "cjournal m = cbind (on_journal m) (\<lambda>r. clift (map_err C_Journal r))"

section \<open>The files\<close>

fun next_io :: "coordinator \<Rightarrow> io_outcome \<times> coordinator" where
  "next_io co = (case co_io co of [] \<Rightarrow> (Io_Done, co) | outcome # rest \<Rightarrow> (outcome, co\<lparr>co_io := rest\<rparr>))"

definition secure_read :: "(coordinator \<Rightarrow> bytes option) \<Rightarrow> nat \<Rightarrow> bytes option cm" where
  "secure_read file bound co =
     (case next_io co of
        (Io_Done, co) \<Rightarrow>
          (case file co of
             None \<Rightarrow> (Inr None, co)
           | Some bytes \<Rightarrow>
               if length bytes > bound then (Inl C_InvalidArtifact, co) else (Inr (Some bytes), co))
      | (Io_Refused, co) \<Rightarrow> (Inl C_InvalidArtifact, co)
      | (_, co) \<Rightarrow> (Inl C_Io, co))"

definition secure_write :: "bytes \<Rightarrow> bool \<Rightarrow> unit cm" where
  "secure_write bytes replace co =
     (case next_io co of
        (Io_Refused, co) \<Rightarrow> (Inl C_InvalidArtifact, co)
      | (Io_Before, co) \<Rightarrow> (Inl C_Io, co)
      | (outcome, co) \<Rightarrow>
          if \<not> replace \<and> co_pending co \<noteq> None then (Inl C_PendingExists, co)
          else ((if outcome = Io_Done then Inr () else Inl C_Io), co\<lparr>co_pending := Some bytes\<rparr>))"

definition secure_unlink :: "unit cm" where
  "secure_unlink co =
     (case next_io co of
        (Io_Refused, co) \<Rightarrow> (Inl C_InvalidArtifact, co)
      | (Io_Before, co) \<Rightarrow> (Inl C_Io, co)
      | (outcome, co) \<Rightarrow>
          ((if outcome = Io_Done \<or> co_pending co = None then Inr () else Inl C_Io), co\<lparr>co_pending := None\<rparr>))"

definition publish_at :: "bytes \<Rightarrow> unit cm" where
  "publish_at bytes co =
     (case next_io co of
        (Io_Refused, co) \<Rightarrow> (Inl C_InvalidArtifact, co)
      | (Io_Before, co) \<Rightarrow> (Inl C_Io, co)
      | (outcome, co) \<Rightarrow>
          ((if outcome = Io_Done then Inr () else Inl C_Io), co\<lparr>co_artifact := Some bytes\<rparr>))"

definition publish :: "checkpoint \<Rightarrow> unit cm" where
  "publish cp =
     cbind (cguard (length (cp_encode cp) > MAX_CHECKPOINT_BYTES) C_InvalidArtifact) (\<lambda>_.
     publish_at (cp_encode cp))"

section \<open>The pending file\<close>

fun pending_state_u8 :: "pending_state \<Rightarrow> byte" where
  "pending_state_u8 PS_Prepared = 1"
| "pending_state_u8 PS_Published = 2"
| "pending_state_u8 PS_Bound = 3"
| "pending_state_u8 PS_BindingFailed = 4"

fun recoverability_u8 :: "recoverability \<Rightarrow> byte" where
  "recoverability_u8 RV_Retryable = 1"
| "recoverability_u8 RV_Indeterminate = 2"
| "recoverability_u8 RV_OperatorRequired = 3"

definition pending_state_of :: "byte \<Rightarrow> pending_state option" where
  "pending_state_of b =
     (if b = 1 then Some PS_Prepared else if b = 2 then Some PS_Published
      else if b = 3 then Some PS_Bound else if b = 4 then Some PS_BindingFailed else None)"

definition recoverability_of :: "byte \<Rightarrow> recoverability option" where
  "recoverability_of b =
     (if b = 1 then Some RV_Retryable else if b = 2 then Some RV_Indeterminate
      else if b = 3 then Some RV_OperatorRequired else None)"

definition PENDING_MAGIC :: bytes where "PENDING_MAGIC = bstr ''FPEND002''"
definition BINDING_DOMAIN :: bytes where "BINDING_DOMAIN = bstr ''FERROCRATE-CHECKPOINT-BINDING-V2''"

definition PENDING_LIMIT :: nat where
  "PENDING_LIMIT = MAX_CHECKPOINT_BYTES + MAX_RECORD_BYTES + 50"

definition prepare_binding ::
  "(bytes \<Rightarrow> bytes) \<Rightarrow> checkpoint \<Rightarrow> witness_record \<Rightarrow> bytes \<Rightarrow> checkpoint_error + witness_record" where
  "prepare_binding sha cp record digest =
     rbind (ok_or C_Rollback (checked_add (fh_sequence (cp_head cp)) 1)) (\<lambda>sequence.
     let identity = sha (BINDING_DOMAIN @ digest) in
     Inr (record\<lparr>wr_event_id := take 16 identity, wr_request_id := drop 16 identity,
       wr_epoch := fh_epoch (cp_head cp), wr_sequence := sequence,
       wr_previous_hash := fh_hash (cp_head cp)\<rparr>))"

definition pending_for :: "checkpoint \<Rightarrow> witness_record \<Rightarrow> checkpoint_error + pending_binding" where
  "pending_for cp record =
     rbind (map_err (\<lambda>_. C_InvalidArtifact) (encode_record (fh_journal_id (cp_head cp)) record)) (\<lambda>rb.
     Inr \<lparr>pb_checkpoint = cp, pb_event_id = wr_event_id record, pb_expected_epoch = wr_epoch record,
       pb_expected_sequence = wr_sequence record, pb_record_bytes = rb_bytes rb,
       pb_state = PS_Prepared, pb_recoverability = RV_Retryable\<rparr>)"

definition pending_prefix :: "pending_binding \<Rightarrow> bytes" where
  "pending_prefix p =
     PENDING_MAGIC @ [pending_state_u8 (pb_state p)] @ [recoverability_u8 (pb_recoverability p)]
     @ u32_to_be (of_nat (length (cp_encode (pb_checkpoint p))))
     @ u32_to_be (of_nat (length (pb_record_bytes p)))
     @ cp_encode (pb_checkpoint p) @ pb_record_bytes p"

definition encode_pending :: "(bytes \<Rightarrow> bytes) \<Rightarrow> pending_binding \<Rightarrow> bytes" where
  "encode_pending sha p = pending_prefix p @ sha (pending_prefix p)"

definition decode_pending :: "(bytes \<Rightarrow> bytes) \<Rightarrow> bytes \<Rightarrow> checkpoint_error + pending_binding" where
  "decode_pending sha bytes =
     (if length bytes < 50 \<or> take 8 bytes \<noteq> PENDING_MAGIC \<or> length bytes > PENDING_LIMIT
      then Inl C_InvalidArtifact
      else rbind (ok_or C_InvalidArtifact (pending_state_of (bytes ! 8))) (\<lambda>state.
      rbind (ok_or C_InvalidArtifact (recoverability_of (bytes ! 9))) (\<lambda>recoverability.
      let cp_len = unat (u32_from_be (subslice 10 14 bytes));
          record_len = unat (u32_from_be (subslice 14 18 bytes));
          limit = 18 + cp_len + record_len in
      if limit + 32 \<noteq> length bytes \<or> sha (take limit bytes) \<noteq> drop limit bytes
      then Inl C_InvalidArtifact
      else rbind (cp_decode (subslice 18 (18 + cp_len) bytes)) (\<lambda>cp.
      let record_bytes = subslice (18 + cp_len) limit bytes in
      rbind (map_err (\<lambda>_. C_InvalidArtifact) (decode_record record_bytes)) (\<lambda>decoded.
      rbind (pending_for cp (dr_record decoded)) (\<lambda>expected.
      let expected = expected\<lparr>pb_state := state, pb_recoverability := recoverability\<rparr> in
      if pb_record_bytes expected \<noteq> record_bytes then Inl C_InvalidArtifact
      else Inr expected))))))"

definition read_pending :: "(bytes \<Rightarrow> bytes) \<Rightarrow> pending_binding option cm" where
  "read_pending sha =
     cbind (secure_read co_pending PENDING_LIMIT) (\<lambda>file.
     case file of
       None \<Rightarrow> creturn None
     | Some bytes \<Rightarrow>
         cbind (clift (decode_pending sha bytes)) (\<lambda>pending.
         cbind (secure_read co_artifact MAX_CHECKPOINT_BYTES) (\<lambda>artifact.
         cbind (cguard (\<not> (artifact = Some (cp_encode (pb_checkpoint pending))
             \<or> artifact = None \<and> pb_state pending = PS_Prepared)) C_Rollback) (\<lambda>_.
         creturn (Some pending)))))"

definition persist_pending :: "(bytes \<Rightarrow> bytes) \<Rightarrow> pending_binding \<Rightarrow> unit cm" where
  "persist_pending sha p = secure_write (encode_pending sha p) False"

definition persist_pending_replace :: "(bytes \<Rightarrow> bytes) \<Rightarrow> pending_binding \<Rightarrow> unit cm" where
  "persist_pending_replace sha p = secure_write (encode_pending sha p) True"

definition failed :: "pending_binding \<Rightarrow> pending_binding" where
  "failed p = p\<lparr>pb_state := PS_BindingFailed, pb_recoverability := RV_OperatorRequired\<rparr>"

definition persist_failed :: "(bytes \<Rightarrow> bytes) \<Rightarrow> pending_binding \<Rightarrow> unit cm" where
  "persist_failed sha p = persist_pending_replace sha (failed p)"

definition coordinator_preflight :: "(bytes \<Rightarrow> bytes) \<Rightarrow> unit cm" where
  "coordinator_preflight sha =
     cbind (read_pending sha) (\<lambda>p. cguard (p \<noteq> None) C_PendingExists)"

definition clear_pending :: "unit cm" where
  "clear_pending = secure_unlink"

section \<open>Publication\<close>

definition checkpoint_preflight :: "unit jm" where
  "checkpoint_preflight =
     jbind (jread j_mode) (\<lambda>mode. jguard (mode = Mode_Disabled) J_Disabled)"

definition head_of_tuple :: "bytes \<times> u64 \<times> u64 \<times> bytes \<Rightarrow> flush_head" where
  "head_of_tuple h = (case h of (journal_id, epoch, sequence, hash) \<Rightarrow>
     \<lparr>fh_journal_id = journal_id, fh_epoch = epoch, fh_sequence = sequence, fh_hash = hash\<rparr>)"

definition nonretryable :: "journal_error \<Rightarrow> bool" where
  "nonretryable e \<longleftrightarrow> e \<in> {J_Disabled, J_JournalMismatch, J_UnsupportedVersion, J_ProofMismatch,
     J_BindingMismatch, J_InvalidStage, J_AlreadyComplete, J_NotPending}"

text \<open>The three capture operations share the steps that prepare and publish an artifact and those
  that bind it.\<close>

definition prepare_and_publish ::
  "(bytes \<Rightarrow> bytes) \<Rightarrow> checkpoint \<Rightarrow> (checkpoint \<Rightarrow> witness_record)
    \<Rightarrow> (witness_record \<times> pending_binding) cm" where
  "prepare_and_publish sha cp record =
     cbind (clift (prepare_binding sha cp (record cp) (cp_digest sha cp))) (\<lambda>prepared.
     cbind (clift (pending_for cp prepared)) (\<lambda>pending.
     cbind (persist_pending sha pending) (\<lambda>_.
     cbind (publish cp) (\<lambda>_.
     let pending = pending\<lparr>pb_state := PS_Published\<rparr> in
     cbind (persist_pending_replace sha pending) (\<lambda>_.
     creturn (prepared, pending))))))"

definition bind_publication ::
  "(bytes \<Rightarrow> bytes) \<Rightarrow> checkpoint \<Rightarrow> witness_record \<Rightarrow> pending_binding \<Rightarrow> publication_outcome cm" where
  "bind_publication sha cp prepared pending =
     cbind (on_journal (append_checkpoint_publication sha (cp_digest sha cp) prepared)) (\<lambda>result.
     case result of
       Inr _ \<Rightarrow>
         cbind (persist_pending_replace sha (pending\<lparr>pb_state := PS_Bound\<rparr>)) (\<lambda>_.
         cbind clear_pending (\<lambda>_.
         creturn (PO_Bound cp)))
     | Inl (J_Indeterminate _) \<Rightarrow>
         let pending = pending\<lparr>pb_recoverability := RV_Indeterminate\<rparr> in
         cbind (persist_pending_replace sha pending) (\<lambda>_.
         creturn (PO_PendingBinding pending))
     | Inl e \<Rightarrow>
         if nonretryable e
         then cbind (persist_pending_replace sha (failed pending)) (\<lambda>_. craise (C_Journal e))
         else craise (C_Journal e))"

definition capture_publish_bind ::
  "(bytes \<Rightarrow> bytes) \<Rightarrow> ('k \<Rightarrow> bytes) \<Rightarrow> ('k \<Rightarrow> bytes \<Rightarrow> bytes) \<Rightarrow> u64 \<Rightarrow> 'k \<Rightarrow> checkpoint option
    \<Rightarrow> (checkpoint \<Rightarrow> witness_record) \<Rightarrow> publication_outcome cm" where
  "capture_publish_bind sha pub sig_of now_secs key predecessor record =
     cbind (coordinator_preflight sha) (\<lambda>_.
     cbind (cjournal checkpoint_preflight) (\<lambda>_.
     cbind (cjournal flushed_head) (\<lambda>head.
     let head = head_of_tuple head in
     cbind (clift (case predecessor of
         Some previous \<Rightarrow> cp_sign_after sha pub sig_of head now_secs previous key
       | None \<Rightarrow> cp_sign sha pub sig_of head now_secs key CK_Periodic)) (\<lambda>cp.
     cbind (prepare_and_publish sha cp record) (\<lambda>(prepared, pending).
     bind_publication sha cp prepared pending)))))"

definition capture_reset_publish_bind ::
  "(bytes \<Rightarrow> bytes) \<Rightarrow> ('k \<Rightarrow> bytes) \<Rightarrow> ('k \<Rightarrow> bytes \<Rightarrow> bytes) \<Rightarrow> u64 \<Rightarrow> 'k \<Rightarrow> checkpoint
    \<Rightarrow> (checkpoint \<Rightarrow> witness_record) \<Rightarrow> publication_outcome cm" where
  "capture_reset_publish_bind sha pub sig_of now_secs new_key predecessor record =
     cbind (coordinator_preflight sha) (\<lambda>_.
     cbind (cjournal checkpoint_preflight) (\<lambda>_.
     cbind (cjournal flushed_head) (\<lambda>head.
     let current = head_of_tuple head in
     cbind (cguard (fh_epoch current \<noteq> fh_epoch (cp_head predecessor)) C_Rollback) (\<lambda>_.
     cbind (clift (ok_or C_Rollback (checked_add (fh_epoch current) 1))) (\<lambda>next_epoch.
     cbind (clift (cp_trust_reset_after sha pub sig_of (current\<lparr>fh_epoch := next_epoch\<rparr>) now_secs
         predecessor new_key)) (\<lambda>cp.
     cbind (prepare_and_publish sha cp record) (\<lambda>(prepared, pending).
     cbind (on_journal (advance_epoch (fh_epoch current))) (\<lambda>advanced.
     case advanced of
       Inl e \<Rightarrow>
         cbind (if e = J_ProofMismatch then persist_failed sha pending else creturn ()) (\<lambda>_.
         craise (C_Journal e))
     | Inr _ \<Rightarrow>
         cbind (cjournal (jread j_epoch)) (\<lambda>epoch.
         if epoch \<noteq> fh_epoch (cp_head cp)
         then cbind (persist_failed sha pending) (\<lambda>_. craise (C_Journal J_ProofMismatch))
         else bind_publication sha cp prepared pending)))))))))"

definition capture_rotate_publish_bind ::
  "(bytes \<Rightarrow> bytes) \<Rightarrow> ('k \<Rightarrow> bytes) \<Rightarrow> ('k \<Rightarrow> bytes \<Rightarrow> bytes) \<Rightarrow> u64 \<Rightarrow> 'k \<Rightarrow> 'k \<Rightarrow> checkpoint
    \<Rightarrow> (checkpoint \<Rightarrow> witness_record) \<Rightarrow> publication_outcome cm" where
  "capture_rotate_publish_bind sha pub sig_of now_secs old_key new_key predecessor record =
     cbind (coordinator_preflight sha) (\<lambda>_.
     cbind (cjournal checkpoint_preflight) (\<lambda>_.
     cbind (cjournal flushed_head) (\<lambda>head.
     cbind (clift (cp_rotate_after sha pub sig_of (head_of_tuple head) now_secs predecessor old_key
         new_key)) (\<lambda>cp.
     cbind (prepare_and_publish sha cp record) (\<lambda>(prepared, pending).
     bind_publication sha cp prepared pending)))))"

section \<open>Reconciliation\<close>

definition reconcile_binding ::
  "(bytes \<Rightarrow> bytes) \<Rightarrow> pending_binding \<Rightarrow> witness_record \<Rightarrow> unit cm" where
  "reconcile_binding sha pending record =
     cbind (cguard (pb_state pending = PS_BindingFailed) C_BindingFailed) (\<lambda>_.
     cbind (cjournal flushed_head) (\<lambda>head.
     let current = head_of_tuple head; cp = pb_checkpoint pending in
     cbind (cguard (fh_journal_id current \<noteq> fh_journal_id (cp_head cp)) C_Untrusted) (\<lambda>_.
     cbind
       (if cp_kind cp = CK_TrustReset \<and> checked_add (fh_epoch current) 1 = Some (fh_epoch (cp_head cp))
        then cbind (on_journal (advance_epoch (fh_epoch current))) (\<lambda>advanced.
          case advanced of
            Inl e \<Rightarrow>
              cbind (if e = J_ProofMismatch then persist_failed sha pending else creturn ()) (\<lambda>_.
              craise (C_Journal e))
          | Inr _ \<Rightarrow> creturn ())
        else creturn ()) (\<lambda>_.
     cbind (cjournal (jread j_epoch)) (\<lambda>epoch.
     if epoch \<noteq> fh_epoch (cp_head cp)
     then cbind (persist_failed sha pending) (\<lambda>_. craise (C_Journal J_ProofMismatch))
     else
       cbind (clift (prepare_binding sha cp record (cp_digest sha cp))) (\<lambda>prepared.
       cbind (cguard (wr_event_id prepared \<noteq> pb_event_id pending
           \<or> wr_epoch prepared \<noteq> pb_expected_epoch pending
           \<or> wr_sequence prepared \<noteq> pb_expected_sequence pending) C_Rollback) (\<lambda>_.
       cbind (cjournal (append_checkpoint_publication sha (cp_digest sha cp) prepared)) (\<lambda>_.
       cbind (persist_pending_replace sha (pending\<lparr>pb_state := PS_Bound\<rparr>)) (\<lambda>_.
       clear_pending)))))))))"

definition reconcile_pending :: "(bytes \<Rightarrow> bytes) \<Rightarrow> unit cm" where
  "reconcile_pending sha =
     cbind (read_pending sha) (\<lambda>found.
     cbind (clift (ok_or C_InvalidArtifact found)) (\<lambda>pending.
     cbind (cguard (pb_state pending = PS_BindingFailed) C_BindingFailed) (\<lambda>_.
     cbind
       (if pb_state pending = PS_Prepared then
          cbind (publish (pb_checkpoint pending)) (\<lambda>_.
          let pending = pending\<lparr>pb_state := PS_Published\<rparr> in
          cbind (persist_pending_replace sha pending) (\<lambda>_. creturn pending))
        else creturn pending) (\<lambda>pending.
     cbind (clift (map_err (\<lambda>_. C_InvalidArtifact) (decode_record (pb_record_bytes pending)))) (\<lambda>decoded.
     reconcile_binding sha pending (dr_record decoded))))))"

section \<open>Admission by age\<close>

record duration =
  dur_secs :: u64
  dur_nanos :: u32

definition duration_saturating_add :: "duration \<Rightarrow> duration \<Rightarrow> duration" where
  "duration_saturating_add a b =
     (let nanos = unat (dur_nanos a) + unat (dur_nanos b);
          secs = unat (dur_secs a) + unat (dur_secs b) + nanos div 1000000000 in
      if secs < 2 ^ 64 then \<lparr>dur_secs = of_nat secs, dur_nanos = of_nat (nanos mod 1000000000)\<rparr>
      else \<lparr>dur_secs = - 1, dur_nanos = 999999999\<rparr>)"

definition allows_user_mutation :: "duration \<Rightarrow> duration \<Rightarrow> u64 \<Rightarrow> u64 \<Rightarrow> bool" where
  "allows_user_mutation max_age grace newest_checkpoint_secs now_secs \<longleftrightarrow>
     now_secs \<ge> newest_checkpoint_secs
     \<and> now_secs - newest_checkpoint_secs \<le> dur_secs (duration_saturating_add max_age grace)"

end
