(* ===== verification/Checkpoint_Trust.thy ===== *)
theory Checkpoint_Trust
  imports Checkpoint
begin

text \<open>
  What acceptance by the checkpoint verifier gives.  The chain of checkpoints is determined by its
  last element, because each one carries the digest of its predecessor; the evidence is determined
  up to the head of the last checkpoint, because every checkpoint must be bound by a record that
  follows its head; and every signature is made with a key that the trust bundle authorises,
  directly or through a rotation signed by an authorised key.  Conversely, chains issued by the
  signing operations are accepted.
\<close>

section \<open>Encodings determine checkpoints\<close>

text \<open>The array sizes, which the source's types give.\<close>

definition sized_checkpoint :: "checkpoint \<Rightarrow> bool" where
  "sized_checkpoint cp \<longleftrightarrow> length (fh_journal_id (cp_head cp)) = 16 \<and> length (fh_hash (cp_head cp)) = 32
     \<and> length (cp_key_id cp) = 32 \<and> length (cp_public_key cp) = 32
     \<and> length (cp_previous_checkpoint_digest cp) = 32 \<and> length (cp_signature cp) = 64
     \<and> opt_len 64 (cp_secondary_signature cp)"

lemma checkpoint_kind_u8_inject [simp]: "checkpoint_kind_u8 a = checkpoint_kind_u8 b \<longleftrightarrow> a = b"
  by (cases a; cases b) simp_all

lemma cp_encode_inject:
  assumes "sized_checkpoint a" "sized_checkpoint b" "cp_encode a = cp_encode b"
  shows "a = b"
proof -
  have "drop 12 (cp_encode a) = drop 12 (cp_encode b)" by (simp add: assms(3))
  then have "cp_body a = cp_body b" by (simp add: cp_encode_def CP_MAGIC_def)
  then have eqs: "cp_payload a = cp_payload b" "cp_signature a = cp_signature b"
    "cp_secondary_signature a = cp_secondary_signature b"
    using assms(1,2)
    by (auto simp: cp_body_def cp_payload_def sized_checkpoint_def split: option.splits)
  from eqs(1) assms(1,2) have "cp_head a = cp_head b"
    by (intro flush_head.equality) (auto simp: cp_payload_def sized_checkpoint_def)
  with eqs assms(1,2) show ?thesis
    by (intro checkpoint.equality) (auto simp: cp_payload_def sized_checkpoint_def)
qed

section \<open>The chain of checkpoints\<close>

lemma chain_steps_snoc:
  "chain_steps sha ver valid_key tb (cps @ [cp]) st =
     rbind (chain_steps sha ver valid_key tb cps st) (chain_step sha ver valid_key tb cp)"
proof (induction cps arbitrary: st)
  case Nil
  show ?case by (cases "chain_step sha ver valid_key tb cp st") simp_all
next
  case (Cons a cps)
  then show ?case by (cases "chain_step sha ver valid_key tb a st") simp_all
qed

lemma chain_step_inv:
  assumes "chain_step sha ver valid_key tb cp st = Inr st'"
  obtains st1 where "fh_journal_id (cp_head cp) = tb_journal_id tb"
    "check_link sha (ch_last st) cp = Inr ()" "check_trust sha ver valid_key tb cp st = Inr st1"
    "st' = st1\<lparr>ch_last := Some cp\<rparr>"
  using assms by (auto simp: chain_step_def rbind_simps split: if_splits)

lemma chain_steps_last:
  "chain_steps sha ver valid_key tb cps st = Inr st' \<Longrightarrow>
     ch_last st' = (if cps = [] then ch_last st else Some (last cps))"
  by (induction cps rule: rev_induct)
    (auto simp: chain_steps_snoc rbind_simps elim: chain_step_inv)

lemma check_link_digest:
  "check_link sha latest cp = Inr () \<Longrightarrow>
     cp_previous_checkpoint_digest cp =
       (case latest of None \<Rightarrow> replicate 32 0 | Some prev \<Rightarrow> cp_digest sha prev)"
  by (auto simp: check_link_def Let_def split: option.splits if_splits)

text \<open>Two chains with the same last checkpoint are the same, barring collisions.\<close>

lemma chain_steps_inject:
  assumes "chain_steps sha ver valid_key tb cps st = Inr st1"
    and "chain_steps sha ver valid_key tb cps' st = Inr st2" and "ch_last st = None"
    and "ch_last st1 = ch_last st2"
    and "\<forall>cp \<in> set cps \<union> set cps'. sized_checkpoint cp \<and> cp_digest sha cp \<noteq> replicate 32 0"
    and "inj_on sha (cp_encode ` (set cps \<union> set cps'))"
  shows "cps = cps'"
  using assms
proof (induction cps arbitrary: cps' st1 st2 rule: rev_induct)
  case Nil
  then show ?case using chain_steps_last [OF Nil.prems(2)] by (auto split: if_splits)
next
  case (snoc cp cps)
  with chain_steps_last [OF snoc.prems(1)] chain_steps_last [OF snoc.prems(2)]
  obtain xs where cps': "cps' = xs @ [cp]"
    by (cases cps' rule: rev_cases) auto
  from snoc.prems(1) obtain s1 where s1: "chain_steps sha ver valid_key tb cps st = Inr s1"
    "check_link sha (ch_last s1) cp = Inr ()"
    by (auto simp: chain_steps_snoc rbind_simps elim: chain_step_inv)
  from snoc.prems(2) obtain s2 where s2: "chain_steps sha ver valid_key tb xs st = Inr s2"
    "check_link sha (ch_last s2) cp = Inr ()"
    by (auto simp: cps' chain_steps_snoc rbind_simps elim: chain_step_inv)
  note digests = check_link_digest [OF s1(2)] check_link_digest [OF s2(2)]
  note lasts = chain_steps_last [OF s1(1)] chain_steps_last [OF s2(1)]
  have sized: "sized_checkpoint c" "cp_digest sha c \<noteq> replicate 32 0"
    if "c \<in> set cps \<union> set xs" for c using snoc.prems(5) that cps' by auto
  have "ch_last s1 = ch_last s2"
  proof (cases "cps = [] \<or> xs = []")
    case True
    then show ?thesis
      using lasts digests snoc.prems(3) sized by (cases "cps = []"; cases "xs = []") force+
  next
    case False
    then have in_sets: "last cps \<in> set cps \<union> set xs" "last xs \<in> set cps \<union> set xs" by simp_all
    from False lasts digests have "sha (cp_encode (last cps)) = sha (cp_encode (last xs))"
      by (simp add: cp_digest_def)
    then have "cp_encode (last cps) = cp_encode (last xs)"
      by (rule inj_onD [OF snoc.prems(6)]) (use in_sets cps' in auto)
    with cp_encode_inject sized(1) in_sets have "last cps = last xs" by blast
    with False lasts show ?thesis by simp
  qed
  moreover have "inj_on sha (cp_encode ` (set cps \<union> set xs))"
    by (rule inj_on_subset [OF snoc.prems(6)]) (auto simp: cps')
  ultimately have "cps = xs"
    using snoc.IH [OF s1(1) s2(1) snoc.prems(3)] sized by blast
  with cps' show ?case by simp
qed

section \<open>The evidence\<close>

text \<open>\<open>bound_in\<close>: the record right after the head of a checkpoint publishes it.\<close>

definition bound_in :: "(bytes \<Rightarrow> bytes) \<Rightarrow> stream_trust \<Rightarrow> decoded_record list \<Rightarrow> checkpoint \<Rightarrow> bool" where
  "bound_in sha trust ds cp \<longleftrightarrow> (\<exists>n < length ds.
     unat (fh_sequence (cp_head cp)) + 1 = unat (st_first_sequence trust) + n
     \<and> wr_stage (dr_record (ds ! n)) = St_CheckpointPublished
     \<and> wr_action (dr_record (ds ! n)) = CheckpointPublish
     \<and> wr_result_digest (dr_record (ds ! n)) = Some (cp_digest sha cp)
     \<and> wr_previous_hash (dr_record (ds ! n)) = fh_hash (cp_head cp)
     \<and> wr_epoch (dr_record (ds ! n)) = fh_epoch (cp_head cp))"

definition evidence_at ::
  "(bytes \<Rightarrow> bytes) \<Rightarrow> stream_trust \<Rightarrow> checkpoint list \<Rightarrow> decoded_record list \<Rightarrow> evidence_state \<Rightarrow> bool" where
  "evidence_at sha trust cps ds es \<longleftrightarrow>
     chained sha trust ds
     \<and> unat (sv_expected_sequence (ev_verifier es)) = unat (st_first_sequence trust) + length ds
     \<and> sv_previous_hash (ev_verifier es) = stream_head sha trust ds
     \<and> st_journal_id (sv_trust (ev_verifier es)) = st_journal_id trust
     \<and> ev_cursor es \<le> length cps \<and> (\<forall>cp \<in> set (take (ev_cursor es) cps). bound_in sha trust ds cp)"

lemma bound_in_append: "bound_in sha trust ds cp \<Longrightarrow> bound_in sha trust (ds @ ds') cp"
  unfolding bound_in_def using nth_append_left [of _ ds ds'] trans_less_add1 [of _ "length ds"]
  by (metis (no_types, lifting) length_append)

lemma verifier_push_links:
  assumes "verifier_push sha b v = Inr v'"
  obtains d where "decode_record b = Inr d" "dr_journal_id d = st_journal_id (sv_trust v)"
    "wr_sequence (dr_record d) = sv_expected_sequence v"
    "wr_previous_hash (dr_record d) = sv_previous_hash v"
    "unat (sv_expected_sequence v') = unat (sv_expected_sequence v) + 1"
    "sv_previous_hash v' = hash_record sha (dr_bytes d)" "sv_trust v' = sv_trust v"
  using assms
  by (auto simp: verifier_push_def rbind_simps Let_def split: if_splits dest: checked_add_Some)

lemma verifier_advance_links:
  assumes "verifier_advance_epoch e v = Inr v'"
  shows "sv_expected_sequence v' = sv_expected_sequence v" "sv_previous_hash v' = sv_previous_hash v"
    "st_journal_id (sv_trust v') = st_journal_id (sv_trust v)"
  using assms by (auto simp: verifier_advance_epoch_def rbind_simps split: if_splits)

lemma bind_checkpoint_inv:
  assumes "bind_checkpoint sha cp r es = Inr es'"
  shows "wr_stage r = St_CheckpointPublished" "wr_action r = CheckpointPublish"
    "wr_result_digest r = Some (cp_digest sha cp)" "wr_previous_hash r = fh_hash (cp_head cp)"
    "wr_epoch r = fh_epoch (cp_head cp)" "ev_cursor es' = ev_cursor es + 1"
    "sv_expected_sequence (ev_verifier es') = sv_expected_sequence (ev_verifier es)"
    "sv_previous_hash (ev_verifier es') = sv_previous_hash (ev_verifier es)"
    "st_journal_id (sv_trust (ev_verifier es')) = st_journal_id (sv_trust (ev_verifier es))"
  using assms by (auto simp: bind_checkpoint_def rbind_simps split: if_splits
      dest: verifier_advance_links)

lemma push_evidence_at:
  assumes at: "evidence_at sha trust cps ds es"
    and push: "verifier_push sha b (ev_verifier es) = Inr v" and d: "decode_record b = Inr d"
  shows "evidence_at sha trust cps (ds @ [d]) (es\<lparr>ev_verifier := v\<rparr>)"
    "unat (wr_sequence (dr_record d)) = unat (st_first_sequence trust) + length ds"
proof -
  from verifier_push_links [OF push] d have links:
    "dr_journal_id d = st_journal_id (sv_trust (ev_verifier es))"
    "wr_sequence (dr_record d) = sv_expected_sequence (ev_verifier es)"
    "wr_previous_hash (dr_record d) = sv_previous_hash (ev_verifier es)"
    "unat (sv_expected_sequence v) = unat (sv_expected_sequence (ev_verifier es)) + 1"
    "sv_previous_hash v = hash_record sha (dr_bytes d)" "sv_trust v = sv_trust (ev_verifier es)"
    by (metis sum.inject(2))+
  with at show "unat (wr_sequence (dr_record d)) = unat (st_first_sequence trust) + length ds"
    by (simp add: evidence_at_def)
  from at links bound_in_append show "evidence_at sha trust cps (ds @ [d]) (es\<lparr>ev_verifier := v\<rparr>)"
    by (simp add: evidence_at_def chained_snoc stream_head_def)
qed

lemma evidence_step_at:
  assumes at: "evidence_at sha trust cps ds es" and step: "evidence_step sha cps b es = Inr es'"
  shows "\<exists>d. decode_record b = Inr d \<and> evidence_at sha trust cps (ds @ [d]) es'"
proof -
  from step obtain d es1 v where d: "decode_record b = Inr d"
    and choice: "es1 = es \<or> (\<exists>cp. list_get cps (ev_cursor es) = Some cp
        \<and> binds_checkpoint (Some cp) (dr_record d) \<and> bind_checkpoint sha cp (dr_record d) es = Inr es1)"
    and v: "verifier_push sha b (ev_verifier es1) = Inr v" "es' = es1\<lparr>ev_verifier := v\<rparr>"
    by (cases "binds_checkpoint (list_get cps (ev_cursor es)) (dr_record (projr (decode_record b)))")
      (auto simp: evidence_step_def rbind_simps Let_def split: if_splits, blast+)
  from choice show ?thesis
  proof
    assume "es1 = es"
    with push_evidence_at(1) [OF at] v d show ?thesis by auto
  next
    assume "\<exists>cp. list_get cps (ev_cursor es) = Some cp
        \<and> binds_checkpoint (Some cp) (dr_record d) \<and> bind_checkpoint sha cp (dr_record d) es = Inr es1"
    then obtain cp where cp: "list_get cps (ev_cursor es) = Some cp"
      "binds_checkpoint (Some cp) (dr_record d)" "bind_checkpoint sha cp (dr_record d) es = Inr es1"
      by blast
    note inv = bind_checkpoint_inv [OF cp(3)]
    have cur: "ev_cursor es < length cps" "cps ! ev_cursor es = cp"
      using cp(1) by (auto simp: list_get_def split: if_splits)
    have at1: "evidence_at sha trust cps ds (es1\<lparr>ev_cursor := ev_cursor es\<rparr>)"
      using at inv by (simp add: evidence_at_def)
    with v(1) push_evidence_at [of sha trust cps ds "es1\<lparr>ev_cursor := ev_cursor es\<rparr>" b v d] d
    have at2: "evidence_at sha trust cps (ds @ [d]) (es1\<lparr>ev_cursor := ev_cursor es, ev_verifier := v\<rparr>)"
      and seq: "unat (wr_sequence (dr_record d)) = unat (st_first_sequence trust) + length ds"
      by simp_all
    have "unat (fh_sequence (cp_head cp)) + 1 = unat (wr_sequence (dr_record d))"
      using cp(2) by (auto simp: binds_checkpoint_def dest: checked_add_Some)
    with inv seq have "bound_in sha trust (ds @ [d]) cp"
      unfolding bound_in_def by (intro exI [of _ "length ds"]) simp
    with at2 cur inv(6) v(2) d show ?thesis
      by (auto simp: evidence_at_def take_Suc_conv_app_nth)
  qed
qed

lemma evidence_steps_at:
  "evidence_at sha trust cps ds es \<Longrightarrow> evidence_steps sha cps bs es = Inr es' \<Longrightarrow>
     \<exists>ds'. map decode_record bs = map Inr ds' \<and> evidence_at sha trust cps (ds @ ds') es'"
proof (induction bs arbitrary: ds es)
  case Nil
  then show ?case by simp
next
  case (Cons b bs)
  then obtain es1 where es1: "evidence_step sha cps b es = Inr es1" "evidence_steps sha cps bs es1 = Inr es'"
    by (auto simp: rbind_simps)
  from evidence_step_at [OF Cons.prems(1) es1(1)] obtain d where
    d: "decode_record b = Inr d" "evidence_at sha trust cps (ds @ [d]) es1" by blast
  from Cons.IH [OF d(2) es1(2)] obtain ds' where
    "map decode_record bs = map Inr ds'" "evidence_at sha trust cps (ds @ d # ds') es'" by auto
  with d(1) show ?case by (intro exI [of _ "d # ds'"]) simp
qed

text \<open>The stream trust the verifier starts with.\<close>

definition evidence_trust :: "trust_bundle \<Rightarrow> stream_trust" where
  "evidence_trust tb = with_max_records (tb_max_records tb)
     (stream_trust_new (tb_journal_id tb) (tb_starting_epoch tb) (tb_first_sequence tb)
       (tb_predecessor_hash tb))"

lemma checkpoint_verify_inv:
  assumes "checkpoint_verify sha ver valid_key tb evidence cps now_secs max_age = Inr rep"
  obtains st ds where "cps \<noteq> []" "length cps \<le> MAX_CHECKPOINTS"
    "chain_steps sha ver valid_key tb cps (chain_start sha tb) = Inr st"
    "ch_last st = Some (last cps)" "cp_created_at_secs (last cps) \<le> now_secs"
    "\<forall>m. tb_minimum tb = Some m \<longrightarrow> minimum_reached sha ver tb cps st m"
    "vr_completeness rep = Some True" "vr_discontinuities rep = ch_discontinuities st"
    "map decode_record evidence = map Inr ds" "chained sha (evidence_trust tb) ds"
    "\<forall>cp \<in> set cps. bound_in sha (evidence_trust tb) ds cp"
proof -
  from assms obtain st rep0 where ne: "cps \<noteq> []" "length cps \<le> MAX_CHECKPOINTS"
    and st: "chain_steps sha ver valid_key tb cps (chain_start sha tb) = Inr st"
    and minimum: "tb_minimum tb = None \<or> (\<exists>m. tb_minimum tb = Some m \<and> minimum_reached sha ver tb cps st m)"
    and time: "\<exists>l. ch_last st = Some l \<and> cp_created_at_secs l \<le> now_secs"
    and rep0: "verify_streaming sha evidence (tb_journal_id tb) cps (tb_max_records tb)
          (tb_starting_epoch tb) (tb_first_sequence tb) (tb_predecessor_hash tb) = Inr rep0"
    and rep: "vr_completeness rep = Some True" "vr_discontinuities rep = ch_discontinuities st"
    by (cases "tb_minimum tb")
      (auto simp: checkpoint_verify_def rbind_simps Let_def not_less split: if_splits)
  let ?es = "\<lparr>ev_verifier = stream_verifier_new (evidence_trust tb), ev_cursor = 0,
    ev_epoch = tb_starting_epoch tb\<rparr>"
  from rep0 obtain es where es: "evidence_steps sha cps evidence ?es = Inr es" "ev_cursor es = length cps"
    by (auto simp: verify_streaming_def evidence_trust_def rbind_simps split: if_splits)
  have "evidence_at sha (evidence_trust tb) cps [] ?es"
    by (simp add: evidence_at_def stream_verifier_new_def stream_head_def)
  from evidence_steps_at [OF this es(1)] es(2) obtain ds where
    "map decode_record evidence = map Inr ds" "chained sha (evidence_trust tb) ds"
    "\<forall>cp \<in> set cps. bound_in sha (evidence_trust tb) ds cp"
    by (auto simp: evidence_at_def)
  with that ne st minimum time rep chain_steps_last [OF st] show thesis by fastforce
qed

text \<open>A checkpoint bound in two chained streams fixes what comes before it.\<close>

lemma bound_in_pins:
  assumes "chained sha trust ds" "chained sha trust ds'" "bound_in sha trust ds cp" "bound_in sha trust ds' cp"
    and "map decode_record bs = map Inr ds" "map decode_record bs' = map Inr ds'"
    and "inj_on sha (link_input trust ` (set bs \<union> set bs'))"
  shows "\<exists>n < length bs. unat (fh_sequence (cp_head cp)) + 1 = unat (st_first_sequence trust) + n
    \<and> take n bs = take n bs'"
proof -
  from assms(3,4) obtain n where n: "n < length ds" "n < length ds'"
    "unat (fh_sequence (cp_head cp)) + 1 = unat (st_first_sequence trust) + n"
    "wr_previous_hash (dr_record (ds ! n)) = wr_previous_hash (dr_record (ds' ! n))"
    unfolding bound_in_def by (metis add_left_cancel)
  note dec = assms(5,6) [THEN arg_cong [of _ _ "take n"], simplified take_map]
  note lnk = chained_take [OF assms(1), of n] chained_take [OF assms(2), of n]
  note inputs = decoded_link_input [OF dec(1) lnk(1)] decoded_link_input [OF dec(2) lnk(2)]
  have heads: "stream_head sha trust (take n ds) = stream_head sha trust (take n ds')"
    using n assms(1,2) by (simp add: chained_def)
  have "hash_input ` dr_bytes ` (set (take n ds) \<union> set (take n ds'))
      = link_input trust ` (set (take n bs) \<union> set (take n bs'))"
    using arg_cong [OF inputs(1), of set] arg_cong [OF inputs(2), of set]
    by (simp add: image_Un image_image)
  moreover have "inj_on sha (link_input trust ` (set (take n bs) \<union> set (take n bs')))"
    by (rule inj_on_subset [OF assms(7)]) (auto dest: in_set_takeD)
  ultimately have "take n ds = take n ds'"
    using chained_head_inject [OF lnk _ heads] n decoded_elements [OF dec(1)] decoded_elements [OF dec(2)]
    by (metis (no_types, lifting) Un_iff length_take min.absorb4)
  with inputs have "map (link_input trust) (take n bs) = map (link_input trust) (take n bs')" by simp
  moreover have "inj (link_input trust)"
    by (rule injI) (simp add: link_input_def hash_input_def)
  ultimately have "take n bs = take n bs'" by (simp add: inj_map_eq_map)
  moreover have "length bs = length ds" using arg_cong [OF assms(5), of length] by simp
  ultimately show ?thesis using n by auto
qed

text \<open>C24.
  A trusted checkpoint pins the whole history: two verifications accepted under the same trust
  bundle (without a retained boundary) that end in the same checkpoint were given the same chain of
  checkpoints, and their evidence is byte for byte the same up to the head of that checkpoint, across
  key rotations and epoch resets, barring collisions of SHA-256 on the strings hashed.\<close>

theorem checkpoint_pins_history:
  assumes "checkpoint_verify sha ver valid_key tb ev cps now_secs max_age = Inr rep"
    and "checkpoint_verify sha ver valid_key tb ev' cps' now_secs' max_age' = Inr rep'"
    and "tb_boundary tb = None" and "last cps = last cps'"
    and "\<forall>cp \<in> set cps \<union> set cps'. sized_checkpoint cp \<and> cp_digest sha cp \<noteq> replicate 32 0"
    and "inj_on sha (cp_encode ` (set cps \<union> set cps'))"
    and "inj_on sha (link_input (evidence_trust tb) ` (set ev \<union> set ev'))"
  shows "cps = cps' \<and> (\<exists>n < length ev.
    unat (fh_sequence (cp_head (last cps))) + 1 = unat (tb_first_sequence tb) + n
    \<and> take n ev = take n ev')"
proof -
  from checkpoint_verify_inv [OF assms(1)] obtain st ds where 1: "cps \<noteq> []"
    "chain_steps sha ver valid_key tb cps (chain_start sha tb) = Inr st" "ch_last st = Some (last cps)"
    "map decode_record ev = map Inr ds" "chained sha (evidence_trust tb) ds"
    "\<forall>cp \<in> set cps. bound_in sha (evidence_trust tb) ds cp" by metis
  from checkpoint_verify_inv [OF assms(2)] obtain st' ds' where 2: "cps' \<noteq> []"
    "chain_steps sha ver valid_key tb cps' (chain_start sha tb) = Inr st'" "ch_last st' = Some (last cps')"
    "map decode_record ev' = map Inr ds'" "chained sha (evidence_trust tb) ds'"
    "\<forall>cp \<in> set cps'. bound_in sha (evidence_trust tb) ds' cp" by metis
  have "cps = cps'"
    by (rule chain_steps_inject [OF 1(2) 2(2) _ _ assms(5,6)])
      (use 1(3) 2(3) assms(3,4) in \<open>simp_all add: chain_start_def\<close>)
  moreover have "tb_first_sequence tb = st_first_sequence (evidence_trust tb)"
    by (simp add: evidence_trust_def with_max_records_def stream_trust_new_def)
  ultimately show ?thesis
    using bound_in_pins [OF 1(5) 2(5) _ _ 1(4) 2(4) assms(7), of "last cps"] 1(1,6) 2(6) by simp
qed

section \<open>Keys, order and the required minimum\<close>

text \<open>The key trusted after a list of checkpoints, and what authorises the next one.\<close>

definition trusted_key :: "trust_bundle \<Rightarrow> checkpoint list \<Rightarrow> bytes" where
  "trusted_key tb cps =
     fold (\<lambda>cp key. if cp_kind cp = CK_Periodic then key else cp_public_key cp) cps (tb_initial tb)"

definition authorised ::
  "(bytes \<Rightarrow> bytes) \<Rightarrow> ed25519 \<Rightarrow> trust_bundle \<Rightarrow> bytes \<Rightarrow> checkpoint \<Rightarrow> bool" where
  "authorised sha ver tb key cp \<longleftrightarrow>
     (case cp_kind cp of
        CK_Periodic \<Rightarrow> verify_signature sha ver cp key = Inr ()
      | CK_Rotation \<Rightarrow> verify_signature sha ver cp key = Inr ()
          \<and> (\<exists>sig. cp_secondary_signature cp = Some sig \<and> ver (cp_public_key cp) (cp_payload cp) sig)
      | CK_TrustReset \<Rightarrow> tb_resets tb (fh_epoch (cp_head cp)) = Some (cp_public_key cp)
          \<and> verify_signature sha ver cp (cp_public_key cp) = Inr ())"

definition head_le :: "checkpoint \<Rightarrow> checkpoint \<Rightarrow> bool" where
  "head_le a b \<longleftrightarrow> fh_epoch (cp_head a) < fh_epoch (cp_head b)
     \<or> fh_epoch (cp_head a) = fh_epoch (cp_head b) \<and> fh_sequence (cp_head a) \<le> fh_sequence (cp_head b)"

definition resets_in :: "checkpoint list \<Rightarrow> u64" where
  "resets_in cps = of_nat (length (filter (\<lambda>cp. cp_kind cp = CK_TrustReset) cps))"

lemma head_le_trans: "head_le a b \<Longrightarrow> head_le b c \<Longrightarrow> head_le a c"
  by (auto simp: head_le_def)

lemma check_trust_authorised:
  assumes "check_trust sha ver valid_key tb cp st = Inr st'"
  shows "authorised sha ver tb (ch_trusted st) cp"
    and "ch_trusted st' = (if cp_kind cp = CK_Periodic then ch_trusted st else cp_public_key cp)"
    and "ch_discontinuities st' = ch_discontinuities st + (if cp_kind cp = CK_TrustReset then 1 else 0)"
    and "cp_kind cp = CK_TrustReset \<Longrightarrow> cp_previous_epoch cp < fh_epoch (cp_head cp)"
  using assms
  by (auto simp: check_trust_def authorised_def rbind_simps not_le split: checkpoint_kind.splits if_splits)

lemma check_link_head_le:
  assumes "check_link sha (Some prev) cp = Inr ()"
    and "cp_kind cp = CK_TrustReset \<Longrightarrow> cp_previous_epoch cp < fh_epoch (cp_head cp)"
  shows "head_le prev cp"
  using assms by (auto simp: check_link_def head_le_def Let_def not_less split: if_splits)

lemma chain_steps_trust:
  assumes "chain_steps sha ver valid_key tb cps (chain_start sha tb) = Inr st"
  shows "ch_trusted st = trusted_key tb cps" "ch_discontinuities st = resets_in cps"
    "\<forall>i < length cps. authorised sha ver tb (trusted_key tb (take i cps)) (cps ! i)"
    "sorted_wrt head_le cps"
proof -
  have "ch_trusted st = trusted_key tb cps \<and> ch_discontinuities st = resets_in cps
    \<and> (\<forall>i < length cps. authorised sha ver tb (trusted_key tb (take i cps)) (cps ! i))
    \<and> sorted_wrt head_le cps"
    using assms
  proof (induction cps arbitrary: st rule: rev_induct)
    case Nil
    then show ?case by (auto simp: trusted_key_def resets_in_def chain_start_def)
  next
    case (snoc cp cps)
    then obtain s where s: "chain_steps sha ver valid_key tb cps (chain_start sha tb) = Inr s"
      "chain_step sha ver valid_key tb cp s = Inr st"
      by (auto simp: chain_steps_snoc rbind_simps)
    from chain_step_inv [OF s(2)] obtain s1 where s1: "check_link sha (ch_last s) cp = Inr ()"
      "check_trust sha ver valid_key tb cp s = Inr s1" "st = s1\<lparr>ch_last := Some cp\<rparr>" by metis
    note trust = check_trust_authorised [OF s1(2)]
    note IH = snoc.IH [OF s(1)]
    have "\<forall>x \<in> set cps. head_le x cp"
    proof (cases cps rule: rev_cases)
      case (snoc ys y)
      with chain_steps_last [OF s(1)] s1(1) trust(4) have "head_le y cp"
        by (auto intro: check_link_head_le)
      with snoc IH show ?thesis by (auto simp: sorted_wrt_append intro: head_le_trans)
    qed simp
    with IH trust s1(3) show ?case
      by (auto simp: trusted_key_def resets_in_def sorted_wrt_append nth_append less_Suc_eq)
  qed
  then show "ch_trusted st = trusted_key tb cps" "ch_discontinuities st = resets_in cps"
    "\<forall>i < length cps. authorised sha ver tb (trusted_key tb (take i cps)) (cps ! i)"
    "sorted_wrt head_le cps" by simp_all
qed

lemma checkpoint_verify_trusted:
  assumes "checkpoint_verify sha ver valid_key tb ev cps now_secs max_age = Inr rep"
  shows "(\<forall>i < length cps. authorised sha ver tb (trusted_key tb (take i cps)) (cps ! i))
    \<and> sorted_wrt head_le cps
    \<and> (\<exists>ds. map decode_record ev = map Inr ds \<and> (\<forall>cp \<in> set cps. bound_in sha (evidence_trust tb) ds cp))
    \<and> (\<forall>m. tb_minimum tb = Some m \<longrightarrow> m \<in> set cps)
    \<and> cp_created_at_secs (last cps) \<le> now_secs
    \<and> vr_completeness rep = Some True \<and> vr_discontinuities rep = resets_in cps"
proof -
  from checkpoint_verify_inv [OF assms] obtain st ds where
    st: "chain_steps sha ver valid_key tb cps (chain_start sha tb) = Inr st"
    and rest: "cp_created_at_secs (last cps) \<le> now_secs"
      "\<forall>m. tb_minimum tb = Some m \<longrightarrow> minimum_reached sha ver tb cps st m"
      "vr_completeness rep = Some True" "vr_discontinuities rep = ch_discontinuities st"
      "map decode_record ev = map Inr ds" "\<forall>cp \<in> set cps. bound_in sha (evidence_trust tb) ds cp"
    by metis
  from rest(2) have "\<forall>m. tb_minimum tb = Some m \<longrightarrow> m \<in> set cps" by (simp add: minimum_reached_def)
  with rest chain_steps_trust [OF st] show ?thesis by auto
qed

text \<open>C25.
  Acceptance means authority and no rollback: every checkpoint carries a valid signature of the
  key trusted at its place (the initial key, or the key introduced by the last rotation or reset
  before it), every rotation also one of the key it introduces, every reset is one the trust bundle
  pins for its epoch; heads never go back in epoch or sequence; each checkpoint is bound in the
  evidence by a publication record right after its head; the required minimum, when there is one, is
  in the chain; the chain is not from the future; and the report counts the resets.\<close>

theorem checkpoint_accepts_only_trusted:
  assumes "checkpoint_verify sha ver valid_key tb ev cps now_secs max_age = Inr rep"
  shows "(\<forall>i < length cps. authorised sha ver tb (trusted_key tb (take i cps)) (cps ! i))
    \<and> sorted_wrt head_le cps
    \<and> (\<exists>ds. map decode_record ev = map Inr ds \<and> (\<forall>cp \<in> set cps. bound_in sha (evidence_trust tb) ds cp))
    \<and> (\<forall>m. tb_minimum tb = Some m \<longrightarrow> m \<in> set cps)
    \<and> cp_created_at_secs (last cps) \<le> now_secs
    \<and> vr_completeness rep = Some True \<and> vr_discontinuities rep = resets_in cps"
  by (rule checkpoint_verify_trusted [OF assms])

section \<open>Issued chains are accepted\<close>

text \<open>A signer issues checkpoints one after the other, each after the last, with the key in use.\<close>

datatype 'k publication =
    Publish_Periodic flush_head u64
  | Publish_Rotation flush_head u64 'k
  | Publish_Reset flush_head u64 'k

fun issue_one ::
  "(bytes \<Rightarrow> bytes) \<Rightarrow> ('k \<Rightarrow> bytes) \<Rightarrow> ('k \<Rightarrow> bytes \<Rightarrow> bytes) \<Rightarrow> 'k \<Rightarrow> checkpoint option \<Rightarrow> 'k publication
    \<Rightarrow> checkpoint_error + (checkpoint \<times> 'k)" where
  "issue_one sha pub sig_of key None (Publish_Periodic h t) =
     rbind (cp_sign sha pub sig_of h t key CK_Periodic) (\<lambda>cp. Inr (cp, key))"
| "issue_one sha pub sig_of key (Some prev) (Publish_Periodic h t) =
     rbind (cp_sign_after sha pub sig_of h t prev key) (\<lambda>cp. Inr (cp, key))"
| "issue_one sha pub sig_of key None (Publish_Rotation h t new) =
     rbind (cp_rotate sha pub sig_of h t key new) (\<lambda>cp. Inr (cp, new))"
| "issue_one sha pub sig_of key (Some prev) (Publish_Rotation h t new) =
     rbind (cp_rotate_after sha pub sig_of h t prev key new) (\<lambda>cp. Inr (cp, new))"
| "issue_one sha pub sig_of key None (Publish_Reset h t new) = Inl C_Untrusted"
| "issue_one sha pub sig_of key (Some prev) (Publish_Reset h t new) =
     rbind (cp_trust_reset_after sha pub sig_of h t prev new) (\<lambda>cp. Inr (cp, new))"

fun issue ::
  "(bytes \<Rightarrow> bytes) \<Rightarrow> ('k \<Rightarrow> bytes) \<Rightarrow> ('k \<Rightarrow> bytes \<Rightarrow> bytes) \<Rightarrow> 'k \<Rightarrow> checkpoint option
    \<Rightarrow> 'k publication list \<Rightarrow> checkpoint_error + checkpoint list" where
  "issue sha pub sig_of key prev [] = Inr []"
| "issue sha pub sig_of key prev (p # ps) =
     rbind (issue_one sha pub sig_of key prev p) (\<lambda>(cp, key).
     rbind (issue sha pub sig_of key (Some cp) ps) (\<lambda>cps. Inr (cp # cps)))"

text \<open>What a publisher must respect: one journal, heads and times that do not go back within an
  epoch, an epoch reset by one that the verifier has pinned.\<close>

definition advances :: "checkpoint option \<Rightarrow> flush_head \<Rightarrow> u64 \<Rightarrow> bool" where
  "advances prev h t \<longleftrightarrow> (case prev of None \<Rightarrow> True | Some p \<Rightarrow>
     fh_epoch h = fh_epoch (cp_head p) \<and> fh_sequence (cp_head p) \<le> fh_sequence h
     \<and> (fh_sequence h = fh_sequence (cp_head p) \<longrightarrow> fh_hash h = fh_hash (cp_head p))
     \<and> cp_created_at_secs p \<le> t)"

fun continues ::
  "('k \<Rightarrow> bytes) \<Rightarrow> trust_bundle \<Rightarrow> checkpoint option \<Rightarrow> 'k publication \<Rightarrow> bool" where
  "continues pub tb prev (Publish_Periodic h t) \<longleftrightarrow>
     fh_journal_id h = tb_journal_id tb \<and> advances prev h t"
| "continues pub tb prev (Publish_Rotation h t new) \<longleftrightarrow>
     fh_journal_id h = tb_journal_id tb \<and> advances prev h t"
| "continues pub tb prev (Publish_Reset h t new) \<longleftrightarrow>
     fh_journal_id h = tb_journal_id tb \<and> tb_resets tb (fh_epoch h) = Some (pub new)
     \<and> (\<exists>p. prev = Some p \<and> checked_add (fh_epoch (cp_head p)) 1 = Some (fh_epoch h))"

fun continue_all ::
  "(bytes \<Rightarrow> bytes) \<Rightarrow> ('k \<Rightarrow> bytes) \<Rightarrow> ('k \<Rightarrow> bytes \<Rightarrow> bytes) \<Rightarrow> trust_bundle \<Rightarrow> 'k \<Rightarrow> checkpoint option
    \<Rightarrow> 'k publication list \<Rightarrow> bool" where
  "continue_all sha pub sig_of tb key prev [] \<longleftrightarrow> True"
| "continue_all sha pub sig_of tb key prev (p # ps) \<longleftrightarrow> continues pub tb prev p
     \<and> (case issue_one sha pub sig_of key prev p of
          Inl e \<Rightarrow> True | Inr (cp, key) \<Rightarrow> continue_all sha pub sig_of tb key (Some cp) ps)"

lemmas signing_defs = cp_sign_def cp_sign_after_def cp_rotate_def cp_rotate_after_def
  cp_trust_reset_def cp_trust_reset_after_def cp_signed_def Let_def

lemma checked_add_Suc_saturating:
  "checked_add a 1 = Some b \<Longrightarrow> saturating_add a 1 = b \<and> a < b"
  by (auto simp: checked_add_def saturating_add_def word_less_nat_alt unat_word_ariths split: if_splits)

lemma issue_one_ok:
  "continues pub tb prev p \<Longrightarrow> \<exists>cp key'. issue_one sha pub sig_of key prev p = Inr (cp, key')"
  by (cases p; cases prev)
    (auto simp: signing_defs advances_def not_le not_less dest: checked_add_Suc_saturating)

definition predecessor_digest :: "(bytes \<Rightarrow> bytes) \<Rightarrow> checkpoint option \<Rightarrow> bytes" where
  "predecessor_digest sha prev = (case prev of None \<Rightarrow> replicate 32 0 | Some p \<Rightarrow> cp_digest sha p)"

definition signed_by ::
  "(bytes \<Rightarrow> bytes) \<Rightarrow> ('k \<Rightarrow> bytes) \<Rightarrow> ('k \<Rightarrow> bytes \<Rightarrow> bytes) \<Rightarrow> 'k \<Rightarrow> checkpoint \<Rightarrow> bool" where
  "signed_by sha pub sig_of key cp \<longleftrightarrow>
     cp_key_id cp = key_id_of sha (pub key) \<and> cp_signature cp = sig_of key (cp_payload cp)"

lemma issue_periodic:
  "issue_one sha pub sig_of key prev (Publish_Periodic h t) = Inr (cp, key') \<Longrightarrow>
     key' = key \<and> cp_head cp = h \<and> cp_kind cp = CK_Periodic \<and> cp_created_at_secs cp = t
     \<and> cp_previous_checkpoint_digest cp = predecessor_digest sha prev \<and> signed_by sha pub sig_of key cp"
  by (cases prev) (auto simp: signing_defs predecessor_digest_def signed_by_def cp_payload_def split: if_splits)

lemma issue_rotation:
  "issue_one sha pub sig_of key prev (Publish_Rotation h t new) = Inr (cp, key') \<Longrightarrow>
     key' = new \<and> cp_head cp = h \<and> cp_kind cp = CK_Rotation \<and> cp_created_at_secs cp = t
     \<and> cp_previous_checkpoint_digest cp = predecessor_digest sha prev \<and> signed_by sha pub sig_of key cp
     \<and> cp_public_key cp = pub new \<and> cp_secondary_signature cp = Some (sig_of new (cp_payload cp))"
  by (cases prev) (auto simp: signing_defs predecessor_digest_def signed_by_def cp_payload_def)

lemma issue_reset:
  "issue_one sha pub sig_of key (Some p) (Publish_Reset h t new) = Inr (cp, key') \<Longrightarrow>
     key' = new \<and> cp_head cp = h \<and> cp_kind cp = CK_TrustReset
     \<and> cp_previous_checkpoint_digest cp = cp_digest sha p \<and> signed_by sha pub sig_of new cp
     \<and> cp_public_key cp = pub new \<and> cp_previous_epoch cp = fh_epoch (cp_head p)"
  by (auto simp: signing_defs signed_by_def cp_payload_def split: if_splits)

text \<open>The documented law of Ed25519: a signature made with a key verifies under its public key, and a
  public key is a valid point.\<close>

definition signature_scheme ::
  "('k \<Rightarrow> bytes) \<Rightarrow> ('k \<Rightarrow> bytes \<Rightarrow> bytes) \<Rightarrow> ed25519 \<Rightarrow> (bytes \<Rightarrow> bool) \<Rightarrow> bool" where
  "signature_scheme pub sig_of ver valid_key \<longleftrightarrow>
     (\<forall>k m. ver (pub k) m (sig_of k m)) \<and> (\<forall>k. valid_key (pub k))"

lemma signed_by_verifies:
  "signature_scheme pub sig_of ver valid_key \<Longrightarrow> signed_by sha pub sig_of key cp \<Longrightarrow>
     verify_signature sha ver cp (pub key) = Inr ()"
  by (simp add: signed_by_def verify_signature_def signature_scheme_def)

lemma advances_link:
  assumes "advances prev (cp_head cp) (cp_created_at_secs cp)" "cp_kind cp \<noteq> CK_TrustReset"
    and "cp_previous_checkpoint_digest cp = predecessor_digest sha prev"
  shows "check_link sha prev cp = Inr ()"
  using assms
  by (cases prev) (auto simp: check_link_def advances_def predecessor_digest_def not_less not_le Let_def)

lemma issued_step:
  assumes law: "signature_scheme pub sig_of ver valid_key"
    and cont: "continues pub tb (ch_last st) p" and st: "ch_trusted st = pub key"
    and issued: "issue_one sha pub sig_of key (ch_last st) p = Inr (cp, key')"
  shows "\<exists>st'. chain_step sha ver valid_key tb cp st = Inr st' \<and> ch_trusted st' = pub key'
    \<and> ch_last st' = Some cp"
proof (cases p)
  case (Publish_Periodic h t)
  with cont issue_periodic [of sha pub sig_of key "ch_last st" h t cp key'] issued st law advances_link [of "ch_last st" cp sha]
    signed_by_verifies [OF law]
  show ?thesis by (simp add: chain_step_def check_trust_def)
next
  case (Publish_Rotation h t new)
  with cont issue_rotation [of sha pub sig_of key "ch_last st" h t new cp key'] issued st law advances_link [of "ch_last st" cp sha]
    signed_by_verifies [OF law]
  show ?thesis by (simp add: chain_step_def check_trust_def signature_scheme_def)
next
  case (Publish_Reset h t new)
  with cont obtain q where q: "ch_last st = Some q" "tb_resets tb (fh_epoch h) = Some (pub new)"
    "fh_journal_id h = tb_journal_id tb" "checked_add (fh_epoch (cp_head q)) 1 = Some (fh_epoch h)" by auto
  with Publish_Reset issued issue_reset [of sha pub sig_of key q h t new cp key'] have cp: "key' = new" "cp_head cp = h"
    "cp_kind cp = CK_TrustReset" "cp_previous_checkpoint_digest cp = cp_digest sha q"
    "signed_by sha pub sig_of new cp" "cp_public_key cp = pub new" "cp_previous_epoch cp = fh_epoch (cp_head q)"
    by simp_all
  from checked_add_Suc_saturating [OF q(4)] q cp have "check_link sha (ch_last st) cp = Inr ()"
    by (auto simp: check_link_def Let_def)
  with q cp signed_by_verifies [OF law cp(5)] checked_add_Suc_saturating [OF q(4)] show ?thesis
    by (simp add: chain_step_def check_trust_def not_le)
qed

lemma issued_steps:
  assumes law: "signature_scheme pub sig_of ver valid_key"
    and "continue_all sha pub sig_of tb key (ch_last st) ps" "ch_trusted st = pub key"
  shows "\<exists>cps st'. issue sha pub sig_of key (ch_last st) ps = Inr cps \<and> length cps = length ps
    \<and> chain_steps sha ver valid_key tb cps st = Inr st'"
  using assms(2,3)
proof (induction ps arbitrary: key st)
  case Nil
  then show ?case by simp
next
  case (Cons p ps)
  then have cont: "continues pub tb (ch_last st) p" by simp
  from issue_one_ok [OF cont] obtain cp key' where
    cp: "issue_one sha pub sig_of key (ch_last st) p = Inr (cp, key')" by metis
  from issued_step [OF law cont Cons.prems(2) cp] obtain st1 where
    st1: "chain_step sha ver valid_key tb cp st = Inr st1" "ch_trusted st1 = pub key'" "ch_last st1 = Some cp"
    by blast
  with Cons.prems(1) cp have "continue_all sha pub sig_of tb key' (ch_last st1) ps" by simp
  from Cons.IH [OF this st1(2)] cp st1 show ?case by auto
qed

text \<open>The signing operations and the verifier agree: a publisher that keeps to one journal, never
  goes back in sequence or time within an epoch and resets epochs one by one to keys the verifier
  has pinned can issue any sequence of periodic, rotation and reset checkpoints, and the chain it
  signs is accepted step by step.\<close>

theorem issued_chain_accepted:
  assumes "signature_scheme pub sig_of ver valid_key"
    and "tb_initial tb = pub key"
    and "continue_all sha pub sig_of tb key (tb_boundary tb) ps"
  shows "\<exists>cps st. issue sha pub sig_of key (tb_boundary tb) ps = Inr cps \<and> length cps = length ps
    \<and> chain_steps sha ver valid_key tb cps (chain_start sha tb) = Inr st"
  using issued_steps [OF assms(1), of sha tb key "chain_start sha tb" ps] assms(2,3)
  by (simp add: chain_start_def)

section \<open>A complete example\<close>

text \<open>The example stream of the verifier with a checkpoint of its head published after it, under a
  signature scheme that writes the key into the signature.\<close>

definition toy_key :: bytes where "toy_key = replicate 32 7"

definition toy_sig :: "bytes \<Rightarrow> bytes \<Rightarrow> bytes" where
  "toy_sig k m = take 64 (k @ m @ replicate 64 0)"

definition toy_ver :: ed25519 where "toy_ver k m s \<longleftrightarrow> s = toy_sig k m"

definition example_cp :: "(bytes \<Rightarrow> bytes) \<Rightarrow> checkpoint" where
  "example_cp sha = cp_signed sha id toy_sig
     \<lparr>fh_journal_id = replicate 16 9, fh_epoch = 1, fh_sequence = 3,
      fh_hash = hash_record sha (dr_bytes (example_decoded (example_outcome sha)))\<rparr>
     10 CK_Periodic toy_key toy_key 0 None"

definition example_publication :: "(bytes \<Rightarrow> bytes) \<Rightarrow> witness_record" where
  "example_publication sha = example_record
     \<lparr>wr_sequence := 4,
      wr_previous_hash := hash_record sha (dr_bytes (example_decoded (example_outcome sha))),
      wr_event_id := replicate 16 31, wr_request_id := replicate 16 32,
      wr_action := CheckpointPublish, wr_result_digest := Some (cp_digest sha (example_cp sha)),
      wr_stage := St_CheckpointPublished, wr_outcome := Out_Succeeded\<rparr>"

definition example_evidence :: "(bytes \<Rightarrow> bytes) \<Rightarrow> bytes list" where
  "example_evidence sha = example_stream sha @ [record_fields (replicate 16 9) (example_publication sha)]"

definition example_bundle :: trust_bundle where
  "example_bundle = trust_bundle_new (replicate 16 9) toy_key"

lemma toy_scheme: "signature_scheme id toy_sig toy_ver (\<lambda>_. True)"
  by (simp add: signature_scheme_def toy_ver_def)

lemma example_bundle_trust [simp]: "evidence_trust example_bundle = example_trust"
  by (simp add: evidence_trust_def example_bundle_def trust_bundle_new_def with_max_records_def
      stream_trust_new_def example_trust_def)

lemma example_publication_decodes:
  assumes "\<forall>x. length (sha x) = 32"
  shows "decode_record (record_fields (replicate 16 9) (example_publication sha))
    = Inr (example_decoded (example_publication sha))"
proof -
  have "wf_record (example_publication sha)" "valid_stage (example_publication sha)"
    using assms example_record_wf(1)
    by (simp_all add: example_publication_def wf_record_def valid_stage_def hash_record_def
        cp_digest_def) (simp_all add: example_record_def)
  then show ?thesis by (simp add: decode_record_fields example_decoded_def)
qed

lemma example_publication_valid:
  "valid_stream sha example_trust
     (map example_decoded (example_records sha) @ [example_decoded (example_publication sha)])"
proof -
  let ?ds = "map example_decoded (example_records sha)" and ?d = "example_decoded (example_publication sha)"
  have rec: "dr_record (example_decoded r) = r" for r by (simp add: example_decoded_def)
  have maps: "map dr_record ?ds = example_records sha" by (simp add: rec comp_def)
  have "admissible sha example_trust ?ds ?d"
    using open_requests_bound [of "example_records sha @ [example_publication sha]"]
    by (simp add: admissible_def maps rec)
      (simp add: example_records_def example_trust_def stream_trust_new_def stream_head_def
        lifecycle_ok_def MAX_OPEN_REQUESTS_def example_publication_def example_defs rec,
       simp add: example_decoded_def)
  with example_valid [of sha] show ?thesis
    by (auto simp: valid_stream_def valid_prefix_snoc maps rec request_history_snoc)
      (simp_all add: example_publication_def)
qed

lemma push_all_append: "push_all sha (bs @ cs) v = rbind (push_all sha bs v) (push_all sha cs)"
  by (induction bs arbitrary: v) (simp_all add: rbind_def split: sum.split)

lemma evidence_steps_append:
  "evidence_steps sha cps (bs @ cs) es = rbind (evidence_steps sha cps bs es) (evidence_steps sha cps cs)"
  by (induction bs arbitrary: es) (simp_all add: rbind_def split: sum.split)

text \<open>Records at or before the head of the next checkpoint are only pushed.\<close>

lemma evidence_steps_quiet:
  assumes "\<forall>b \<in> set bs. \<exists>d. decode_record b = Inr d \<and> wr_epoch (dr_record d) = ev_epoch es
      \<and> wr_sequence (dr_record d) \<le> fh_sequence (cp_head cp)"
    and "list_get cps (ev_cursor es) = Some cp" and "push_all sha bs (ev_verifier es) = Inr v"
  shows "evidence_steps sha cps bs es = Inr (es\<lparr>ev_verifier := v\<rparr>)"
  using assms
proof (induction bs arbitrary: es)
  case Nil
  then show ?case by simp
next
  case (Cons b bs)
  then obtain v1 where v1: "verifier_push sha b (ev_verifier es) = Inr v1" "push_all sha bs v1 = Inr v"
    by (auto simp: rbind_simps)
  from Cons.prems(1) obtain d where d: "decode_record b = Inr d" "wr_epoch (dr_record d) = ev_epoch es"
    "wr_sequence (dr_record d) \<le> fh_sequence (cp_head cp)" by auto
  then have "\<not> binds_checkpoint (Some cp) (dr_record d)"
    by (auto simp: binds_checkpoint_def word_le_nat_alt dest: checked_add_Some)
  with d v1 Cons.prems(2) have "evidence_step sha cps b es = Inr (es\<lparr>ev_verifier := v1\<rparr>)"
    by (simp add: evidence_step_def not_less)
  with Cons.IH [of "es\<lparr>ev_verifier := v1\<rparr>"] Cons.prems v1 show ?case by simp
qed

lemma example_cp_fields:
  "cp_kind (example_cp sha) = CK_Periodic" "fh_sequence (cp_head (example_cp sha)) = 3"
  "fh_epoch (cp_head (example_cp sha)) = 1" "cp_created_at_secs (example_cp sha) = 10"
  "fh_hash (cp_head (example_cp sha)) = hash_record sha (dr_bytes (example_decoded (example_outcome sha)))"
  "cp_first_sequence (example_cp sha) = 1"
  by (simp_all add: example_cp_def cp_signed_def)

lemma example_publication_fields:
  "dr_record (example_decoded r) = r"
  "wr_sequence (example_publication sha) = 4" "wr_epoch (example_publication sha) = 1"
  "wr_stage (example_publication sha) = St_CheckpointPublished"
  "wr_action (example_publication sha) = CheckpointPublish"
  "wr_result_digest (example_publication sha) = Some (cp_digest sha (example_cp sha))"
  "wr_previous_hash (example_publication sha)
     = hash_record sha (dr_bytes (example_decoded (example_outcome sha)))"
  by (simp_all add: example_publication_def example_record_def example_decoded_def)

lemma example_records_fields:
  "r \<in> set (example_records sha) \<Longrightarrow> wr_epoch r = 1 \<and> wr_sequence r \<le> 3"
proof -
  have "wr_epoch example_record = 1" "wr_sequence example_record \<le> 3"
    "wr_epoch (example_decision sha) = 1" "wr_sequence (example_decision sha) \<le> 3"
    "wr_epoch (example_outcome sha) = 1" "wr_sequence (example_outcome sha) \<le> 3"
    by (simp_all add: example_outcome_def example_decision_def) (simp_all add: example_record_def)
  then show "r \<in> set (example_records sha) \<Longrightarrow> wr_epoch r = 1 \<and> wr_sequence r \<le> 3"
    by (auto simp: example_records_def)
qed

lemma transition_discontinuities:
  "transition r (s, ids, rep) = Inr (s', ids', rep') \<Longrightarrow> vr_discontinuities rep' = vr_discontinuities rep"
  by (auto simp: transition_def Let_def rbind_simps split: witness_stage.splits option.splits
      lifecycle.splits if_splits)

lemma push_all_discontinuities:
  "push_all sha bs v = Inr v' \<Longrightarrow> vr_discontinuities (sv_report v') = vr_discontinuities (sv_report v)"
proof (induction bs arbitrary: v)
  case (Cons b bs)
  then show ?case
    by (auto simp: rbind_simps verifier_push_def Let_def transition_discontinuities split: if_splits)
qed simp

lemma example_chain_accepted:
  "chain_steps sha toy_ver valid_key example_bundle [example_cp sha] (chain_start sha example_bundle)
     = Inr \<lparr>ch_trusted = toy_key, ch_keys = [key_id_of sha toy_key \<mapsto> toy_key],
            ch_last = Some (example_cp sha), ch_discontinuities = 0\<rparr>"
  by (simp add: chain_step_def check_link_def check_trust_def verify_signature_def toy_ver_def
      chain_start_def example_bundle_def trust_bundle_new_def example_cp_def cp_signed_def cp_payload_def)

text \<open>One checkpoint, published by the last record of a stream that verifies.\<close>

lemma verify_streaming_single:
  assumes ok: "verify_stream sha (bs @ [b]) (evidence_trust tb) = Inr rep"
    and b: "decode_record b = Inr d" "wr_stage (dr_record d) = St_CheckpointPublished"
      "wr_action (dr_record d) = CheckpointPublish" "wr_result_digest (dr_record d) = Some (cp_digest sha cp)"
      "wr_previous_hash (dr_record d) = fh_hash (cp_head cp)"
    and cp: "cp_kind cp \<noteq> CK_TrustReset" "fh_epoch (cp_head cp) = tb_starting_epoch tb"
      "unat (fh_sequence (cp_head cp)) + 1 = unat (tb_first_sequence tb) + length bs"
  shows "verify_streaming sha (bs @ [b]) (tb_journal_id tb) [cp] (tb_max_records tb) (tb_starting_epoch tb)
      (tb_first_sequence tb) (tb_predecessor_hash tb) = Inr rep" "vr_discontinuities rep = 0"
proof -
  let ?t = "evidence_trust tb"
  let ?es = "\<lparr>ev_verifier = stream_verifier_new ?t, ev_cursor = 0, ev_epoch = tb_starting_epoch tb\<rparr>"
  have trust: "st_epoch ?t = tb_starting_epoch tb" "st_first_sequence ?t = tb_first_sequence tb"
    by (simp_all add: evidence_trust_def with_max_records_def stream_trust_new_def)
  from ok obtain v v' where v: "push_all sha bs (stream_verifier_new ?t) = Inr v"
      "verifier_push sha b v = Inr v'" "verifier_finish v' = Inr rep"
    by (auto simp: verify_stream_def push_all_append rbind_simps)
  from verify_stream_Inr [OF ok] obtain xs where xs: "map decode_record (bs @ [b]) = map Inr xs"
    "valid_prefix sha ?t xs" by (auto simp: valid_stream_def)
  have len: "length xs = length bs + 1" using arg_cong [OF xs(1), of length] by simp
  have dec: "decode_record ((bs @ [b]) ! i) = Inr (xs ! i)" if "i \<le> length bs" for i
    using arg_cong [OF xs(1), of "\<lambda>ys. ys ! i"] that len by (simp add: nth_append split: if_splits)
  note nth = valid_prefix_nth [OF xs(2)]
  have "\<forall>x \<in> set bs. \<exists>d. decode_record x = Inr d \<and> wr_epoch (dr_record d) = ev_epoch ?es
      \<and> wr_sequence (dr_record d) \<le> fh_sequence (cp_head cp)"
  proof
    fix x assume "x \<in> set bs"
    then obtain i where i: "i < length bs" "x = bs ! i" by (auto simp: in_set_conv_nth)
    with dec [of i] nth(1,4) [of i] len cp(3) trust show "\<exists>d. decode_record x = Inr d
        \<and> wr_epoch (dr_record d) = ev_epoch ?es \<and> wr_sequence (dr_record d) \<le> fh_sequence (cp_head cp)"
      by (intro exI [of _ "xs ! i"]) (simp add: nth_append word_le_nat_alt)
  qed
  from evidence_steps_quiet [OF this] v(1) have
    quiet: "evidence_steps sha [cp] bs ?es = Inr (?es\<lparr>ev_verifier := v\<rparr>)" by (simp add: list_get_def)
  have last: "d = xs ! length bs" using dec [of "length bs"] b(1) by simp
  with nth(1,4) [of "length bs"] len cp(2,3) trust have d: "wr_epoch (dr_record d) = fh_epoch (cp_head cp)"
    "unat (wr_sequence (dr_record d)) = unat (fh_sequence (cp_head cp)) + 1" by simp_all
  have "checked_add (fh_sequence (cp_head cp)) 1 = Some (wr_sequence (dr_record d))"
    using d(2) unsigned_less [where 'a = nat, of "wr_sequence (dr_record d)"]
    by (auto simp: checked_add_def word_unat_eq_iff unat_word_ariths)
  with b cp(1,2) d(1) v(2) have "evidence_step sha [cp] b (?es\<lparr>ev_verifier := v\<rparr>)
      = Inr (?es\<lparr>ev_verifier := v', ev_cursor := 1\<rparr>)"
    by (simp add: evidence_step_def list_get_def binds_checkpoint_def bind_checkpoint_def)
  with quiet v(3) show "verify_streaming sha (bs @ [b]) (tb_journal_id tb) [cp] (tb_max_records tb)
      (tb_starting_epoch tb) (tb_first_sequence tb) (tb_predecessor_hash tb) = Inr rep"
    by (simp add: verify_streaming_def evidence_steps_append evidence_trust_def)
  have "push_all sha (bs @ [b]) (stream_verifier_new ?t) = Inr v'" using v by (simp add: push_all_append)
  with v(3) show "vr_discontinuities rep = 0"
    by (auto simp: verifier_finish_def stream_verifier_new_def dest!: push_all_discontinuities split: if_splits)
qed

lemma example_evidence_streams:
  assumes "\<forall>x. length (sha x) = 32"
  shows "\<exists>rep. verify_streaming sha (example_evidence sha) (tb_journal_id example_bundle) [example_cp sha]
      (tb_max_records example_bundle) (tb_starting_epoch example_bundle) (tb_first_sequence example_bundle)
      (tb_predecessor_hash example_bundle) = Inr rep \<and> vr_discontinuities rep = 0"
proof -
  have dec: "map decode_record (example_evidence sha)
      = map Inr (map example_decoded (example_records sha) @ [example_decoded (example_publication sha)])"
    using example_decodes [OF assms] example_publication_decodes [OF assms] by (simp add: example_evidence_def)
  have start: "tb_starting_epoch example_bundle = 1" "tb_first_sequence example_bundle = 1"
    by (simp_all add: example_bundle_def trust_bundle_new_def)
  have len: "length (example_stream sha) = 3" by (simp add: example_stream_def example_records_def)
  from verify_stream_ok [OF dec example_publication_valid] obtain rep where
    "verify_stream sha (example_stream sha @ [record_fields (replicate 16 9) (example_publication sha)])
      (evidence_trust example_bundle) = Inr rep" by (auto simp: example_evidence_def)
  from verify_streaming_single [OF this example_publication_decodes [OF assms], of "example_cp sha"]
  show ?thesis
    by (simp add: example_evidence_def example_publication_fields example_cp_fields start len)
qed

lemma example_verifies:
  assumes "\<forall>x. length (sha x) = 32"
  shows "\<exists>rep. checkpoint_verify sha toy_ver (\<lambda>_. True) example_bundle (example_evidence sha)
    [example_cp sha] 20 60 = Inr rep"
proof -
  have fields: "tb_minimum example_bundle = None" "tb_starting_epoch example_bundle = 1"
    "tb_first_sequence example_bundle = 1"
    by (simp_all add: example_bundle_def trust_bundle_new_def)
  with example_evidence_streams [OF assms] example_chain_accepted [of sha "\<lambda>_. True"] show ?thesis
    by (auto simp: checkpoint_verify_def MAX_CHECKPOINTS_def example_cp_fields simp del: chain_steps.simps)
qed

theorem checkpoint_accepts_only_trusted_witness:
  "\<exists>rep. checkpoint_verify toy_sha toy_ver (\<lambda>_. True) example_bundle (example_evidence toy_sha)
      [example_cp toy_sha] 20 60 = Inr rep
    \<and> authorised toy_sha toy_ver example_bundle toy_key (example_cp toy_sha)
    \<and> vr_discontinuities rep = 0"
proof -
  obtain rep where rep: "checkpoint_verify toy_sha toy_ver (\<lambda>_. True) example_bundle
      (example_evidence toy_sha) [example_cp toy_sha] 20 60 = Inr rep"
    using example_verifies [OF length_toy_sha] by blast
  from checkpoint_accepts_only_trusted [OF rep] show ?thesis
    using rep by (auto simp: trusted_key_def example_bundle_def trust_bundle_new_def resets_in_def
        example_cp_fields)
qed

definition example_plan :: "bytes publication list" where
  "example_plan = [Publish_Periodic (cp_head (example_cp toy_sha)) 10,
     Publish_Rotation (cp_head (example_cp toy_sha)) 11 (replicate 32 8)]"

theorem issued_chain_accepted_witness:
  "\<exists>cps st. issue toy_sha id toy_sig toy_key None example_plan = Inr cps \<and> length cps = 2
    \<and> chain_steps toy_sha toy_ver (\<lambda>_. True) example_bundle cps (chain_start toy_sha example_bundle) = Inr st"
proof -
  have "tb_initial example_bundle = id toy_key" and none: "tb_boundary example_bundle = None"
    by (simp_all add: example_bundle_def trust_bundle_new_def)
  moreover have "continue_all toy_sha id toy_sig example_bundle toy_key (tb_boundary example_bundle) example_plan"
    unfolding none
    by (simp add: example_plan_def advances_def signing_defs example_bundle_def trust_bundle_new_def
        example_cp_def)
  moreover have "length example_plan = 2" by (simp add: example_plan_def)
  ultimately show ?thesis
    using issued_chain_accepted [OF toy_scheme, of example_bundle toy_key toy_sha example_plan] by simp
qed

text \<open>The digest that keeps the sequence number separates the strings of the example.\<close>

lemma example_evidence_links_inj:
  "inj_on window_sha (link_input example_trust ` set (example_evidence sha))"
proof -
  let ?b = "record_fields (replicate 16 9) (example_publication sha)"
  have "window_sha (link_input example_trust ?b) \<noteq> window_sha (link_input example_trust c)"
    if c: "c \<in> set (example_stream sha)" for c
  proof -
    from c obtain r where r: "c = record_fields (replicate 16 9) r" "r \<in> set (example_records sha)"
      by (auto simp: example_stream_def)
    with example_records_fields have "wr_sequence r \<noteq> 4" by fastforce
    with window_sha_link [of r] window_sha_link [of "example_publication sha"] r(1)
    show ?thesis by (metis example_publication_fields(2) u64_to_be_inject)
  qed
  with example_links_inj [of sha] show ?thesis
    by (auto simp: example_evidence_def inj_on_def) metis
qed

lemma example_cp_sized:
  assumes "\<forall>x. length (sha x) = 32"
  shows "sized_checkpoint (example_cp sha)"
  using assms by (simp add: sized_checkpoint_def example_cp_def cp_signed_def hash_record_def
      key_id_of_def toy_key_def toy_sig_def Let_def)

lemma nat_to_be_zero: "nat_to_be n 0 = replicate n 0"
  by (induction n) (simp_all add: replicate_append_same)

lemma example_cp_digest: "cp_digest window_sha (example_cp window_sha) \<noteq> replicate 32 0"
proof -
  have "drop 72 (cp_encode (example_cp window_sha)) = u64_to_be 3 @ drop 80 (cp_encode (example_cp window_sha))"
    by (simp add: cp_encode_def CP_MAGIC_def cp_body_def cp_payload_def CP_DOMAIN_def example_cp_def
        cp_signed_def)
  then have "take 8 (cp_digest window_sha (example_cp window_sha)) = u64_to_be 3"
    by (simp add: cp_digest_def window_sha_def)
  moreover have "u64_to_be 3 \<noteq> replicate 8 0"
    using u64_to_be_inject [of 3 0] nat_to_be_zero [of 8] by (simp add: u64_to_be_def)
  moreover have "take 8 (replicate 32 (0 :: byte)) = replicate 8 0" by simp
  ultimately show ?thesis by metis
qed

theorem checkpoint_pins_history_witness:
  "\<exists>rep. checkpoint_verify window_sha toy_ver (\<lambda>_. True) example_bundle (example_evidence window_sha)
      [example_cp window_sha] 20 60 = Inr rep
    \<and> (\<exists>n < length (example_evidence window_sha).
        unat (fh_sequence (cp_head (example_cp window_sha))) + 1 = 1 + n
        \<and> take n (example_evidence window_sha) = take n (example_evidence window_sha))"
proof -
  obtain rep where rep: "checkpoint_verify window_sha toy_ver (\<lambda>_. True) example_bundle
      (example_evidence window_sha) [example_cp window_sha] 20 60 = Inr rep"
    using example_verifies [OF length_window_sha] by blast
  have "tb_boundary example_bundle = None" "tb_first_sequence example_bundle = 1"
    by (simp_all add: example_bundle_def trust_bundle_new_def)
  with rep checkpoint_pins_history [OF rep rep] example_cp_sized [OF length_window_sha]
    example_cp_digest example_evidence_links_inj show ?thesis by simp
qed

end
