(* ===== verification/Coordinator_Recovery.thy ===== *)
theory Coordinator_Recovery
  imports Coordinator Checkpoint_Trust
begin

text \<open>
  The pending file and crash recovery of the checkpoint coordinator.  The pending file has one binary
  form.  Whatever file operations fail, and wherever a publication stops, the pending file stays
  readable and, once it says so, the artifact on disk is the one it names.
\<close>

section \<open>The pending file is canonical\<close>

definition wf_pending :: "pending_binding \<Rightarrow> bool" where
  "wf_pending p \<longleftrightarrow> wf_checkpoint (pb_checkpoint p)
     \<and> (\<exists>d. decode_record (pb_record_bytes p) = Inr d
          \<and> dr_journal_id d = fh_journal_id (cp_head (pb_checkpoint p))
          \<and> pb_event_id p = wr_event_id (dr_record d) \<and> pb_expected_epoch p = wr_epoch (dr_record d)
          \<and> pb_expected_sequence p = wr_sequence (dr_record d))"

lemma pending_state_of_u8 [simp]: "pending_state_of (pending_state_u8 s) = Some s"
  by (cases s) (simp_all add: pending_state_of_def)

lemma recoverability_of_u8 [simp]: "recoverability_of (recoverability_u8 r) = Some r"
  by (cases r) (simp_all add: recoverability_of_def)

lemma pending_state_of_inv: "pending_state_of b = Some s \<Longrightarrow> b = pending_state_u8 s"
  by (auto simp: pending_state_of_def split: if_splits)

lemma recoverability_of_inv: "recoverability_of b = Some r \<Longrightarrow> b = recoverability_u8 r"
  by (auto simp: recoverability_of_def split: if_splits)

lemma pending_for_iff:
  "pending_for cp r = Inr p \<longleftrightarrow>
     (\<exists>rb. encode_record (fh_journal_id (cp_head cp)) r = Inr rb
        \<and> p = \<lparr>pb_checkpoint = cp, pb_event_id = wr_event_id r, pb_expected_epoch = wr_epoch r,
             pb_expected_sequence = wr_sequence r, pb_record_bytes = rb_bytes rb,
             pb_state = PS_Prepared, pb_recoverability = RV_Retryable\<rparr>)"
  by (auto simp: pending_for_def rbind_simps)

lemma pending_layout:
  assumes "length m = 8" "length l = 4" "length k = 4"
    and "bs = m @ [a] @ [b] @ l @ k @ c @ r @ d"
  shows "take 8 bs = m" "bs ! 8 = a" "bs ! 9 = b" "subslice 10 14 bs = l" "subslice 14 18 bs = k"
    "subslice 18 (18 + length c) bs = c" "subslice (18 + length c) (18 + length c + length r) bs = r"
    "take (18 + length c + length r) bs = m @ [a] @ [b] @ l @ k @ c @ r"
    "drop (18 + length c + length r) bs = d"
  using assms by (simp_all add: subslice_def nth_append take_Cons' drop_Cons')

lemma pending_split:
  assumes "length bs = 18 + c + r + n"
  shows "bs = take 8 bs @ [bs ! 8] @ [bs ! 9] @ subslice 10 14 bs @ subslice 14 18 bs
    @ subslice 18 (18 + c) bs @ subslice (18 + c) (18 + c + r) bs @ drop (18 + c + r) bs"
proof -
  have "take 9 bs = take 8 bs @ [bs ! 8]" "take 10 bs = take 9 bs @ [bs ! 9]"
    using assms take_Suc_conv_app_nth [of 8 bs] take_Suc_conv_app_nth [of 9 bs]
    by (simp_all add: numeral_eq_Suc)
  then have ten: "take 8 bs @ [bs ! 8] @ [bs ! 9] = take 10 bs" by simp
  have join: "a \<le> b \<Longrightarrow> take a bs @ subslice a b bs = take b bs" for a b
    using subslice_join [of 0 a b bs] by (simp add: subslice_def)
  have "((((take 8 bs @ [bs ! 8] @ [bs ! 9]) @ subslice 10 14 bs) @ subslice 14 18 bs)
      @ subslice 18 (18 + c) bs) @ subslice (18 + c) (18 + c + r) bs = take (18 + c + r) bs"
    unfolding ten by (subst join, simp)+ simp
  from arg_cong [OF this, of "\<lambda>xs. xs @ drop (18 + c + r) bs"] show ?thesis by simp
qed

lemma wf_pending_lengths:
  assumes "wf_pending p"
  shows "length (cp_encode (pb_checkpoint p)) \<le> 353" "length (pb_record_bytes p) \<le> MAX_RECORD_BYTES"
    "cp_decode (cp_encode (pb_checkpoint p)) = Inr (pb_checkpoint p)"
proof -
  from assms have wf: "wf_checkpoint (pb_checkpoint p)" by (simp add: wf_pending_def)
  then show "length (cp_encode (pb_checkpoint p)) \<le> 353"
    using length_cp_body [OF wf] by (simp add: cp_encode_def CP_MAGIC_def)
  show "cp_decode (cp_encode (pb_checkpoint p)) = Inr (pb_checkpoint p)"
    by (rule cp_decode_encode [OF wf])
  from assms obtain d where "decode_record (pb_record_bytes p) = Inr d" by (auto simp: wf_pending_def)
  from decode_record_sound [OF this] length_record_fields [of "dr_record d" "dr_journal_id d"]
  show "length (pb_record_bytes p) \<le> MAX_RECORD_BYTES" by (simp add: MAX_RECORD_BYTES_def)
qed

lemma decode_encode_pending:
  assumes wf: "wf_pending p" and sha: "\<forall>x. length (sha x) = 32"
  shows "decode_pending sha (encode_pending sha p) = Inr p"
proof -
  let ?bs = "encode_pending sha p"
  note lens = wf_pending_lengths [OF wf]
  have bs: "?bs = PENDING_MAGIC @ [pending_state_u8 (pb_state p)] @ [recoverability_u8 (pb_recoverability p)]
     @ u32_to_be (of_nat (length (cp_encode (pb_checkpoint p))))
     @ u32_to_be (of_nat (length (pb_record_bytes p)))
     @ cp_encode (pb_checkpoint p) @ pb_record_bytes p @ sha (pending_prefix p)"
    by (simp add: encode_pending_def pending_prefix_def)
  have magic: "length PENDING_MAGIC = 8" by (simp add: PENDING_MAGIC_def)
  note parts = pending_layout [OF magic length_u32_to_be length_u32_to_be bs]
  have nums: "unat (of_nat (length (cp_encode (pb_checkpoint p))) :: u32) = length (cp_encode (pb_checkpoint p))"
    "unat (of_nat (length (pb_record_bytes p)) :: u32) = length (pb_record_bytes p)"
    using lens by (simp_all add: unat_of_nat MAX_RECORD_BYTES_def)
  have len: "length ?bs = 18 + length (cp_encode (pb_checkpoint p)) + length (pb_record_bytes p) + 32"
    using sha by (simp add: bs magic)
  from wf obtain d where d: "decode_record (pb_record_bytes p) = Inr d"
    "dr_journal_id d = fh_journal_id (cp_head (pb_checkpoint p))"
    "pb_event_id p = wr_event_id (dr_record d)" "pb_expected_epoch p = wr_epoch (dr_record d)"
    "pb_expected_sequence p = wr_sequence (dr_record d)" by (auto simp: wf_pending_def)
  with decode_record_sound [OF d(1)] encode_record_ok [of "dr_record d" "dr_journal_id d"]
  have "pending_for (pb_checkpoint p) (dr_record d)
      = Inr (p\<lparr>pb_state := PS_Prepared, pb_recoverability := RV_Retryable\<rparr>)"
    by (simp add: pending_for_iff)
  with parts nums len lens d(1) show ?thesis
    by (simp add: decode_pending_def PENDING_LIMIT_def MAX_CHECKPOINT_BYTES_def pending_prefix_def Let_def
        add.assoc)
qed

lemma decode_pending_sound:
  assumes "decode_pending sha bs = Inr p"
  shows "wf_pending p \<and> bs = encode_pending sha p"
proof -
  let ?c = "unat (u32_from_be (subslice 10 14 bs))" and ?r = "unat (u32_from_be (subslice 14 18 bs))"
  from assms obtain s v cp d p0 where
    magic: "take 8 bs = PENDING_MAGIC" and s: "pending_state_of (bs ! 8) = Some s"
    and v: "recoverability_of (bs ! 9) = Some v"
    and len: "18 + ?c + ?r + 32 = length bs" "sha (take (18 + ?c + ?r) bs) = drop (18 + ?c + ?r) bs"
    and cp: "cp_decode (subslice 18 (18 + ?c) bs) = Inr cp"
    and d: "decode_record (subslice (18 + ?c) (18 + ?c + ?r) bs) = Inr d"
    and p0: "pending_for cp (dr_record d) = Inr p0" "pb_record_bytes p0 = subslice (18 + ?c) (18 + ?c + ?r) bs"
    and p: "p = p0\<lparr>pb_state := s, pb_recoverability := v\<rparr>"
    by (auto simp: decode_pending_def rbind_simps Let_def split: if_splits)
  from checkpoint_decode_sound [OF cp] have wfc: "wf_checkpoint cp" "subslice 18 (18 + ?c) bs = cp_encode cp"
    by simp_all
  from decode_record_sound [OF d] have wfr: "wf_record (dr_record d)" "length (dr_journal_id d) = 16"
    "subslice (18 + ?c) (18 + ?c + ?r) bs = record_fields (dr_journal_id d) (dr_record d)" by simp_all
  from p0(1) obtain rb where rb: "encode_record (fh_journal_id (cp_head cp)) (dr_record d) = Inr rb"
    and p0_eq: "pb_checkpoint p0 = cp" "pb_event_id p0 = wr_event_id (dr_record d)"
      "pb_expected_epoch p0 = wr_epoch (dr_record d)" "pb_expected_sequence p0 = wr_sequence (dr_record d)"
      "pb_record_bytes p0 = rb_bytes rb"
    by (auto simp: pending_for_iff)
  from encode_record_Inr [OF rb] p0(2) p0_eq(5) wfr
  have "record_fields (fh_journal_id (cp_head cp)) (dr_record d) = record_fields (dr_journal_id d) (dr_record d)"
    by simp
  with record_fields_inject [OF wfr(1,1) _ wfr(2)] wfc(1)
  have "fh_journal_id (cp_head cp) = dr_journal_id d" by (simp add: wf_checkpoint_def)
  with wfc d p0(2) p0_eq p have wf: "wf_pending p" by (auto simp: wf_pending_def)
  have c: "length (cp_encode cp) = ?c" "length (pb_record_bytes p) = ?r"
    using arg_cong [OF wfc(2), of length] len(1) p0(2) p by simp_all
  have "u32_to_be (of_nat ?c) = subslice 10 14 bs" "u32_to_be (of_nat ?r) = subslice 14 18 bs"
    using len(1) by (simp_all add: u32_to_from_be)
  with pending_split [of bs ?c ?r 32] len(1) magic pending_state_of_inv [OF s] recoverability_of_inv [OF v]
    wfc(2) p p0(2) p0_eq(1) c
  have split: "bs = pending_prefix p @ drop (18 + ?c + ?r) bs"
    by (simp add: pending_prefix_def)
  have "length (pending_prefix p) = 18 + ?c + ?r"
    using c p p0_eq(1) by (simp add: pending_prefix_def PENDING_MAGIC_def)
  with split have "take (18 + ?c + ?r) bs = pending_prefix p" by (metis append_eq_conv_conj)
  with split len(2) wf show ?thesis by (simp add: encode_pending_def)
qed

text \<open>
  The pending file has one binary form: a byte string is read back as a pending binding exactly
  when the binding is well formed (its checkpoint is, and its record bytes are the canonical
  encoding of a record of the same journal with the stored event, epoch and sequence) and the string
  is its encoding, digest included.\<close>

theorem pending_decode_iff:
  assumes "\<forall>x. length (sha x) = 32"
  shows "decode_pending sha bs = Inr p \<longleftrightarrow> wf_pending p \<and> bs = encode_pending sha p"
  using decode_pending_sound [of sha bs p] decode_encode_pending [OF _ assms, of p] by blast

definition example_pending :: "(bytes \<Rightarrow> bytes) \<Rightarrow> pending_binding" where
  "example_pending sha = \<lparr>pb_checkpoint = example_cp sha, pb_event_id = replicate 16 31,
     pb_expected_epoch = 1, pb_expected_sequence = 4,
     pb_record_bytes = record_fields (replicate 16 9) (example_publication sha),
     pb_state = PS_Prepared, pb_recoverability = RV_Retryable\<rparr>"

lemma example_pending_wf:
  assumes "\<forall>x. length (sha x) = 32"
  shows "wf_pending (example_pending sha)"
proof -
  have "wf_checkpoint (example_cp sha)"
    using example_cp_sized [OF assms] by (simp add: wf_checkpoint_def sized_checkpoint_def example_cp_def cp_signed_def)
  moreover have "wr_event_id (example_publication sha) = replicate 16 31"
    "fh_journal_id (cp_head (example_cp sha)) = replicate 16 9"
    "dr_journal_id (example_decoded (example_publication sha)) = replicate 16 9"
    by (simp_all add: example_publication_def example_cp_def cp_signed_def example_decoded_def)
  ultimately show ?thesis
    using example_publication_decodes [OF assms]
    by (simp add: wf_pending_def example_pending_def example_publication_fields)
qed

theorem pending_decode_iff_witness:
  "decode_pending toy_sha (encode_pending toy_sha (example_pending toy_sha))
     = Inr (example_pending toy_sha)"
  using pending_decode_iff [OF length_toy_sha] example_pending_wf [OF length_toy_sha] by blast

section \<open>Whatever fails, the pending file can be trusted\<close>

text \<open>\<open>coherent\<close>: a pending file is the encoding of a well-formed binding, and unless that is still
  prepared the artifact it names is the one on disk.\<close>

definition coherent :: "(bytes \<Rightarrow> bytes) \<Rightarrow> coordinator \<Rightarrow> bool" where
  "coherent sha co \<longleftrightarrow> (\<forall>b. co_pending co = Some b \<longrightarrow> (\<exists>p. wf_pending p \<and> b = encode_pending sha p
     \<and> (pb_state p \<noteq> PS_Prepared \<longrightarrow> co_artifact co = Some (cp_encode (pb_checkpoint p)))))"

text \<open>A triple for coordinator computations: from a coherent state whose files and journal satisfy
  \<open>P\<close>, whatever the outcomes of the file operations, the state stays coherent, and on success the
  result, the files and the journal satisfy \<open>Q\<close>.\<close>

definition at_files :: "(bytes option \<Rightarrow> bytes option \<Rightarrow> journal \<Rightarrow> bool) \<Rightarrow> coordinator \<Rightarrow> bool" where
  "at_files P co \<longleftrightarrow> P (co_artifact co) (co_pending co) (co_journal co)"

definition safe ::
  "(bytes \<Rightarrow> bytes) \<Rightarrow> (bytes option \<Rightarrow> bytes option \<Rightarrow> journal \<Rightarrow> bool) \<Rightarrow> 'a cm
    \<Rightarrow> ('a \<Rightarrow> bytes option \<Rightarrow> bytes option \<Rightarrow> journal \<Rightarrow> bool) \<Rightarrow> bool" where
  "safe sha P m Q \<longleftrightarrow> (\<forall>co. coherent sha co \<longrightarrow> at_files P co \<longrightarrow>
     coherent sha (snd (m co)) \<and> (\<forall>x. fst (m co) = Inr x \<longrightarrow> at_files (Q x) (snd (m co))))"

lemma safe_bind:
  assumes "safe sha P m Q" "\<And>x. safe sha (Q x) (k x) R"
  shows "safe sha P (cbind m k) R"
  using assms by (auto simp: safe_def cbind_def split: prod.splits sum.splits)

lemma safe_weaken:
  assumes "safe sha P m Q" "\<And>a q j. P' a q j \<Longrightarrow> P a q j" "\<And>x a q j. Q x a q j \<Longrightarrow> Q' x a q j"
  shows "safe sha P' m Q'"
  using assms by (fastforce simp: safe_def at_files_def)

lemma safe_return: "safe sha P (creturn x) (\<lambda>y a q j. y = x \<and> P a q j)"
  by (simp add: safe_def creturn_def at_files_def)

lemma safe_raise: "safe sha P (craise e) Q"
  by (simp add: safe_def craise_def)

lemma safe_guard: "safe sha P (cguard c e) (\<lambda>_ a q j. \<not> c \<and> P a q j)"
  by (simp add: safe_def cguard_def at_files_def)

lemma safe_lift: "safe sha P (clift r) (\<lambda>x a q j. r = Inr x \<and> P a q j)"
  by (simp add: safe_def clift_def at_files_def)

lemma safe_on_journal: "safe sha P (on_journal m) (\<lambda>_ a q j. \<exists>j0. P a q j0)"
  by (auto simp: safe_def on_journal_def at_files_def coherent_def split: prod.split)

lemma safe_journal: "safe sha P (cjournal m) (\<lambda>_ a q j. \<exists>j0. P a q j0)"
  unfolding cjournal_def 
  by (rule safe_bind [OF safe_on_journal], rule safe_weaken [OF safe_lift [where P = "\<lambda>a q j. \<exists>j0. P a q j0"]]) auto

lemma safe_if:
  "safe sha P m Q \<Longrightarrow> safe sha P n Q \<Longrightarrow> safe sha P (if c then m else n) Q"
  by simp

lemma coherent_cong [simp]:
  "coherent sha (co\<lparr>co_io := os\<rparr>) = coherent sha co" "coherent sha (co\<lparr>co_journal := j\<rparr>) = coherent sha co"
  by (simp_all add: coherent_def)

lemma next_io_cases:
  obtains outcome os where "next_io co = (outcome, co\<lparr>co_io := os\<rparr>)"
  by (cases "co_io co") (auto intro: that [of _ "co_io co"] that)

lemma safe_read:
  assumes "\<And>co. file co = f (co_artifact co) (co_pending co)"
  shows "safe sha P (secure_read file bound) (\<lambda>x a q j. x = f a q \<and> P a q j)"
  unfolding safe_def
proof (intro allI impI)
  fix co assume co: "coherent sha co" "at_files P co"
  obtain outcome os where "next_io co = (outcome, co\<lparr>co_io := os\<rparr>)" by (rule next_io_cases)
  with co assms show "coherent sha (snd (secure_read file bound co))
    \<and> (\<forall>x. fst (secure_read file bound co) = Inr x \<longrightarrow>
        at_files (\<lambda>a q j. x = f a q \<and> P a q j) (snd (secure_read file bound co)))"
    by (cases outcome) (auto simp: secure_read_def at_files_def split: option.splits)
qed

text \<open>A binding that may be written: well formed, and prepared or naming the artifact on disk.\<close>

definition writable :: "bytes option \<Rightarrow> pending_binding \<Rightarrow> bool" where
  "writable a p \<longleftrightarrow> wf_pending p \<and> (pb_state p \<noteq> PS_Prepared \<longrightarrow> a = Some (cp_encode (pb_checkpoint p)))"

lemma safe_write:
  assumes "\<And>a q j. P a q j \<Longrightarrow> writable a p"
  shows "safe sha P (secure_write (encode_pending sha p) replace)
    (\<lambda>_ a q j. q = Some (encode_pending sha p) \<and> (\<exists>q0. P a q0 j))"
  unfolding safe_def
proof (intro allI impI)
  fix co assume co: "coherent sha co" "at_files P co"
  obtain outcome os where "next_io co = (outcome, co\<lparr>co_io := os\<rparr>)" by (rule next_io_cases)
  moreover have "writable (co_artifact co) p" using assms co(2) by (auto simp: at_files_def)
  then have "coherent sha (co\<lparr>co_io := os, co_pending := Some (encode_pending sha p)\<rparr>)"
    by (auto simp: coherent_def writable_def)
  ultimately show "coherent sha (snd (secure_write (encode_pending sha p) replace co))
    \<and> (\<forall>x. fst (secure_write (encode_pending sha p) replace co) = Inr x \<longrightarrow>
        at_files (\<lambda>a q j. q = Some (encode_pending sha p) \<and> (\<exists>q0. P a q0 j))
          (snd (secure_write (encode_pending sha p) replace co)))"
    using co by (cases outcome) (auto simp: secure_write_def at_files_def)
qed

lemma safe_unlink: "safe sha P clear_pending (\<lambda>_ a q j. q = None)"
  unfolding safe_def
proof (intro allI impI)
  fix co assume co: "coherent sha co" "at_files P co"
  obtain outcome os where "next_io co = (outcome, co\<lparr>co_io := os\<rparr>)" by (rule next_io_cases)
  moreover have "coherent sha (co\<lparr>co_io := os, co_pending := None\<rparr>)" by (simp add: coherent_def)
  ultimately show "coherent sha (snd (clear_pending co))
    \<and> (\<forall>x. fst (clear_pending co) = Inr x \<longrightarrow> at_files (\<lambda>a q j. q = None) (snd (clear_pending co)))"
    using co by (cases outcome) (auto simp: clear_pending_def secure_unlink_def at_files_def)
qed

text \<open>The artifact may be replaced while the pending file is prepared for it.\<close>

lemma safe_publish:
  assumes "\<And>a q j. P a q j \<Longrightarrow> \<exists>p. q = Some (encode_pending sha p) \<and> wf_pending p \<and> pb_checkpoint p = cp"
  shows "safe sha P (publish cp) (\<lambda>_ a q j. a = Some (cp_encode cp) \<and> (\<exists>a0. P a0 q j))"
  unfolding publish_def
proof (rule safe_bind [OF safe_guard])
  have "safe sha P (publish_at (cp_encode cp)) (\<lambda>_ a q j. a = Some (cp_encode cp) \<and> (\<exists>a0. P a0 q j))"
    unfolding safe_def
  proof (intro allI impI)
    fix co assume co: "coherent sha co" "at_files P co"
    obtain outcome os where "next_io co = (outcome, co\<lparr>co_io := os\<rparr>)" by (rule next_io_cases)
    moreover obtain p where "co_pending co = Some (encode_pending sha p)" "wf_pending p" "pb_checkpoint p = cp"
      using assms [OF co(2) [unfolded at_files_def]] by blast
    then have "coherent sha (co\<lparr>co_io := os, co_artifact := Some (cp_encode cp)\<rparr>)"
      by (auto simp: coherent_def)
    ultimately show "coherent sha (snd (publish_at (cp_encode cp) co))
      \<and> (\<forall>x. fst (publish_at (cp_encode cp) co) = Inr x \<longrightarrow>
          at_files (\<lambda>a q j. a = Some (cp_encode cp) \<and> (\<exists>a0. P a0 q j)) (snd (publish_at (cp_encode cp) co)))"
      using co by (cases outcome) (auto simp: publish_at_def at_files_def)
  qed
  then show "safe sha (\<lambda>a q j. \<not> length (cp_encode cp) > MAX_CHECKPOINT_BYTES \<and> P a q j) (publish_at (cp_encode cp))
    (\<lambda>_ a q j. a = Some (cp_encode cp) \<and> (\<exists>a0. P a0 q j))"
    by (rule safe_weaken) auto
qed

lemma wf_pending_update [simp]:
  "wf_pending (p\<lparr>pb_state := s\<rparr>) = wf_pending p" "wf_pending (p\<lparr>pb_recoverability := r\<rparr>) = wf_pending p"
  "wf_pending (failed p) = wf_pending p"
  by (simp_all add: wf_pending_def failed_def)

lemma failed_checkpoint [simp]: "pb_checkpoint (failed p) = pb_checkpoint p"
  by (simp add: failed_def)

text \<open>The same rules with the postcondition left open.\<close>

lemma safe_returnI: "(\<And>a q j. P a q j \<Longrightarrow> Q x a q j) \<Longrightarrow> safe sha P (creturn x) Q"
  by (rule safe_weaken [OF safe_return [where P = P]]) auto

lemma safe_writeI:
  assumes "\<And>a q j. P a q j \<Longrightarrow> writable a p" "\<And>a q j. P a q j \<Longrightarrow> Q () a (Some (encode_pending sha p)) j"
  shows "safe sha P (secure_write (encode_pending sha p) replace) Q"
  by (rule safe_weaken [OF safe_write [where P = P]]) (use assms in auto)

lemma safe_publishI:
  assumes "\<And>a q j. P a q j \<Longrightarrow> \<exists>p. q = Some (encode_pending sha p) \<and> wf_pending p \<and> pb_checkpoint p = cp"
    and "\<And>a q j. P a q j \<Longrightarrow> Q () (Some (cp_encode cp)) q j"
  shows "safe sha P (publish cp) Q"
  by (rule safe_weaken [OF safe_publish [where P = P]]) (use assms in auto)

lemma safe_on_journalI: "(\<And>a q j r j'. P a q j \<Longrightarrow> Q r a q j') \<Longrightarrow> safe sha P (on_journal m) Q"
  by (rule safe_weaken [OF safe_on_journal [where P = P]]) auto

lemma safe_journalI: "(\<And>a q j r j'. P a q j \<Longrightarrow> Q r a q j') \<Longrightarrow> safe sha P (cjournal m) Q"
  by (rule safe_weaken [OF safe_journal [where P = P]]) auto

text \<open>What a well-formed head gives a well-formed checkpoint and binding.\<close>

definition sized_keys :: "(bytes \<Rightarrow> bytes) \<Rightarrow> ('k \<Rightarrow> bytes) \<Rightarrow> ('k \<Rightarrow> bytes \<Rightarrow> bytes) \<Rightarrow> bool" where
  "sized_keys sha pub sig_of \<longleftrightarrow> (\<forall>x. length (sha x) = 32) \<and> (\<forall>k. length (pub k) = 32)
     \<and> (\<forall>k m. length (sig_of k m) = 64)"

definition sized_head :: "flush_head \<Rightarrow> bool" where
  "sized_head h \<longleftrightarrow> length (fh_journal_id h) = 16 \<and> length (fh_hash h) = 32"

lemma signed_wf:
  assumes "sized_keys sha pub sig_of" "sized_head h"
  shows "cp_sign sha pub sig_of h t k CK_Periodic = Inr cp \<Longrightarrow> wf_checkpoint cp \<and> cp_head cp = h"
    and "cp_sign_after sha pub sig_of h t prev k = Inr cp \<Longrightarrow> wf_checkpoint cp \<and> cp_head cp = h"
    and "cp_rotate_after sha pub sig_of h t prev k new = Inr cp \<Longrightarrow> wf_checkpoint cp \<and> cp_head cp = h"
    and "cp_trust_reset_after sha pub sig_of h t prev new = Inr cp \<Longrightarrow> wf_checkpoint cp \<and> cp_head cp = h"
  using assms
  by (auto simp: signing_defs wf_checkpoint_def sized_keys_def sized_head_def key_id_of_def cp_digest_def
      split: if_splits)

lemma prepared_wf:
  assumes "\<forall>x. length (sha x) = 32" "wf_checkpoint cp" "wf_record r"
    and "prepare_binding sha cp r digest = Inr prepared" "pending_for cp prepared = Inr p"
  shows "wf_pending p" "pb_checkpoint p = cp" "pb_state p = PS_Prepared"
proof -
  from assms(4) obtain n where "prepared = r\<lparr>wr_event_id := take 16 (sha (BINDING_DOMAIN @ digest)),
      wr_request_id := drop 16 (sha (BINDING_DOMAIN @ digest)), wr_epoch := fh_epoch (cp_head cp),
      wr_sequence := n, wr_previous_hash := fh_hash (cp_head cp)\<rparr>"
    by (auto simp: prepare_binding_def rbind_simps Let_def)
  with assms(1-3) have wf: "wf_record prepared" by (simp add: wf_record_def wf_checkpoint_def)
  from assms(5) obtain rb where rb: "encode_record (fh_journal_id (cp_head cp)) prepared = Inr rb"
    and p: "p = \<lparr>pb_checkpoint = cp, pb_event_id = wr_event_id prepared, pb_expected_epoch = wr_epoch prepared,
      pb_expected_sequence = wr_sequence prepared, pb_record_bytes = rb_bytes rb,
      pb_state = PS_Prepared, pb_recoverability = RV_Retryable\<rparr>"
    by (auto simp: pending_for_iff)
  then show "pb_checkpoint p = cp" "pb_state p = PS_Prepared" by simp_all
  have jid: "length (fh_journal_id (cp_head cp)) = 16" using assms(2) by (simp add: wf_checkpoint_def)
  from encode_record_Inr [OF rb] decode_record_fields [OF wf jid] assms(2) p show "wf_pending p"
    by (auto simp: wf_pending_def)
qed

lemma safe_prepare_and_publish:
  assumes sha: "\<forall>x. length (sha x) = 32" and cp: "wf_checkpoint cp" and r: "wf_record (record cp)"
  shows "safe sha P (prepare_and_publish sha cp record)
    (\<lambda>(prepared, pending) a q j. a = Some (cp_encode cp) \<and> wf_pending pending \<and> pb_checkpoint pending = cp)"
  unfolding prepare_and_publish_def persist_pending_def persist_pending_replace_def Let_def
proof (rule safe_bind [OF safe_lift], rule safe_bind [OF safe_lift])
  fix prepared p
  let ?P = "\<lambda>a q j. pending_for cp prepared = Inr p
    \<and> prepare_binding sha cp (record cp) (cp_digest sha cp) = Inr prepared \<and> P a q j"
  note wf = prepared_wf [OF sha cp r]
  have w: "safe sha ?P (secure_write (encode_pending sha p) False)
      (\<lambda>_ a q j. q = Some (encode_pending sha p) \<and> wf_pending p \<and> pb_checkpoint p = cp)"
    by (rule safe_writeI) (use wf in \<open>auto simp: writable_def\<close>)
  have u: "safe sha (\<lambda>a q j. q = Some (encode_pending sha p) \<and> wf_pending p \<and> pb_checkpoint p = cp)
      (publish cp) (\<lambda>_ a q j. a = Some (cp_encode cp) \<and> wf_pending p \<and> pb_checkpoint p = cp)"
    by (rule safe_publishI) auto
  have v: "safe sha (\<lambda>a q j. a = Some (cp_encode cp) \<and> wf_pending p \<and> pb_checkpoint p = cp)
      (secure_write (encode_pending sha (p\<lparr>pb_state := PS_Published\<rparr>)) True)
      (\<lambda>_ a q j. a = Some (cp_encode cp) \<and> wf_pending p \<and> pb_checkpoint p = cp)"
    by (rule safe_writeI) (auto simp: writable_def)
  show "safe sha ?P
     (cbind (secure_write (encode_pending sha p) False) (\<lambda>_.
      cbind (publish cp) (\<lambda>_.
      cbind (secure_write (encode_pending sha (p\<lparr>pb_state := PS_Published\<rparr>)) True) (\<lambda>_.
      creturn (prepared, p\<lparr>pb_state := PS_Published\<rparr>)))))
    (\<lambda>(prepared, pending) a q j. a = Some (cp_encode cp) \<and> wf_pending pending \<and> pb_checkpoint pending = cp)"
    by (rule safe_bind [OF w], rule safe_bind [OF u], rule safe_bind [OF v],
        rule safe_returnI) auto
qed

lemma safe_bind_publication:
  "safe sha (\<lambda>a q j. a = Some (cp_encode cp) \<and> wf_pending pending \<and> pb_checkpoint pending = cp)
     (bind_publication sha cp prepared pending) (\<lambda>_ _ _ _. True)"
  unfolding bind_publication_def persist_pending_replace_def Let_def
proof (rule safe_bind)
  let ?P = "\<lambda>a q j. a = Some (cp_encode cp) \<and> wf_pending pending \<and> pb_checkpoint pending = cp"
  show "safe sha ?P (on_journal (append_checkpoint_publication sha (cp_digest sha cp) prepared)) (\<lambda>_. ?P)"
    by (rule safe_on_journalI)
  fix r :: "journal_error + unit"
  have w: "wf_pending p = wf_pending pending \<Longrightarrow> pb_checkpoint p = pb_checkpoint pending \<Longrightarrow>
      safe sha ?P (secure_write (encode_pending sha p) True) (\<lambda>_. ?P)" for p
    by (rule safe_writeI) (auto simp: writable_def)
  have raise: "safe sha ?P (if nonretryable e
      then cbind (secure_write (encode_pending sha (failed pending)) True) (\<lambda>_. craise (C_Journal e))
      else craise (C_Journal e)) (\<lambda>_ _ _ _. True)" for e
    by (simp add: safe_bind [OF w] safe_raise)
  show "safe sha ?P (case r of
       Inl (J_Indeterminate b) \<Rightarrow>
         cbind (secure_write (encode_pending sha (pending\<lparr>pb_recoverability := RV_Indeterminate\<rparr>)) True) (\<lambda>_.
         creturn (PO_PendingBinding (pending\<lparr>pb_recoverability := RV_Indeterminate\<rparr>)))
     | Inl e \<Rightarrow>
         if nonretryable e
         then cbind (secure_write (encode_pending sha (failed pending)) True) (\<lambda>_. craise (C_Journal e))
         else craise (C_Journal e)
     | Inr _ \<Rightarrow>
         cbind (secure_write (encode_pending sha (pending\<lparr>pb_state := PS_Bound\<rparr>)) True) (\<lambda>_.
         cbind clear_pending (\<lambda>_.
         creturn (PO_Bound cp)))) (\<lambda>_ _ _ _. True)"
  proof (cases r)
    case (Inl e)
    have "safe sha ?P (cbind (secure_write (encode_pending sha (pending\<lparr>pb_recoverability := RV_Indeterminate\<rparr>)) True)
        (\<lambda>_. creturn (PO_PendingBinding (pending\<lparr>pb_recoverability := RV_Indeterminate\<rparr>)))) (\<lambda>_ _ _ _. True)"
      by (rule safe_bind [OF w]) (simp_all add: safe_returnI)
    then show ?thesis unfolding Inl sum.case
      by (cases e) (simp_all only: journal_error.case raise)
  next
    case (Inr u)
    have "safe sha ?P (cbind (secure_write (encode_pending sha (pending\<lparr>pb_state := PS_Bound\<rparr>)) True) (\<lambda>_.
        cbind clear_pending (\<lambda>_. creturn (PO_Bound cp)))) (\<lambda>_ _ _ _. True)"
      by (rule safe_bind [OF w]) (simp_all add: safe_bind [OF safe_unlink] safe_returnI)
    then show ?thesis unfolding Inr sum.case .
  qed
qed

lemma safe_read_pending:
  "safe sha P (read_pending sha) (\<lambda>found a q j. P a q j \<and> (\<forall>p. found = Some p \<longrightarrow>
     wf_pending p \<and> q = Some (encode_pending sha p)
     \<and> (a = Some (cp_encode (pb_checkpoint p)) \<or> a = None \<and> pb_state p = PS_Prepared)))"
  unfolding read_pending_def
proof (rule safe_bind [OF safe_read [where f = "\<lambda>a q. q"]], simp)
  fix content
  let ?P = "\<lambda>a q j. content = q \<and> P a q j"
  let ?Q = "\<lambda>found a q j. P a q j \<and> (\<forall>p. found = Some p \<longrightarrow> wf_pending p \<and> q = Some (encode_pending sha p)
     \<and> (a = Some (cp_encode (pb_checkpoint p)) \<or> a = None \<and> pb_state p = PS_Prepared))"
  show "safe sha ?P (case content of None \<Rightarrow> creturn None | Some bytes \<Rightarrow>
         cbind (clift (decode_pending sha bytes)) (\<lambda>pending.
         cbind (secure_read co_artifact MAX_CHECKPOINT_BYTES) (\<lambda>artifact.
         cbind (cguard (\<not> (artifact = Some (cp_encode (pb_checkpoint pending))
             \<or> artifact = None \<and> pb_state pending = PS_Prepared)) C_Rollback) (\<lambda>_.
         creturn (Some pending))))) ?Q"
  proof (cases content)
    case None
    then show ?thesis by (auto intro: safe_returnI)
  next
    case (Some bytes)
    show ?thesis
      unfolding Some option.case
      by (rule safe_bind [OF safe_lift], rule safe_bind [OF safe_read [where f = "\<lambda>a q. a"]], simp,
          rule safe_bind [OF safe_guard], rule safe_returnI) (auto dest: decode_pending_sound)
  qed
qed

lemma safe_preflight: "safe sha P (coordinator_preflight sha) (\<lambda>_. P)"
  unfolding coordinator_preflight_def
  by (rule safe_bind [OF safe_read_pending [where P = P]], rule safe_weaken [OF safe_guard]) auto

abbreviation sized_journal :: "bytes option \<Rightarrow> bytes option \<Rightarrow> journal \<Rightarrow> bool" where
  "sized_journal a q j \<equiv> length (j_journal_id j) = 16"

lemma safe_journal_preflight: "safe sha P (cjournal checkpoint_preflight) (\<lambda>_. P)"
  by (auto simp: safe_def cjournal_def cbind_def on_journal_def clift_def checkpoint_preflight_def jbind_def
      jread_def jguard_def at_files_def)

lemma flushed_head_run:
  "flushed_head j = ((case head_of (j_store j) of Inl e \<Rightarrow> Inl e
     | Inr (sequence, hash) \<Rightarrow> Inr (j_journal_id j, j_epoch j, sequence, hash)), j)"
  by (auto simp: flushed_head_def jbind_def journal_head_def jread_def split: sum.split prod.split)

lemma head_of_sized: "head_of s = Inr (n, h) \<Longrightarrow> length h = 32"
  by (auto simp: head_of_def rbind_simps split: if_splits)

lemma safe_flushed_head:
  "safe sha sized_journal (cjournal flushed_head) (\<lambda>h a q j. sized_head (head_of_tuple h))"
  by (auto simp: safe_def cjournal_def cbind_def on_journal_def clift_def flushed_head_run at_files_def
      sized_head_def head_of_tuple_def head_of_sized split: sum.splits)

lemma safe_persist_failed:
  "safe sha (\<lambda>a q j. a = Some (cp_encode (pb_checkpoint p)) \<and> wf_pending p) (persist_failed sha p) (\<lambda>_ _ _ _. True)"
  unfolding persist_failed_def persist_pending_replace_def
  by (rule safe_writeI) (auto simp: writable_def failed_def)

lemma safe_then_raise: "safe sha P m Q \<Longrightarrow> safe sha P (cbind m (\<lambda>_. craise e)) R"
  by (rule safe_bind [OF _ safe_raise])

lemma safe_publish_bind:
  assumes sha: "\<forall>x. length (sha x) = 32" and r: "\<forall>cp. wf_record (rec cp)"
    and wf: "\<And>a q j. P a q j \<Longrightarrow> wf_checkpoint cp"
  shows "safe sha P (prepare_and_publish sha cp rec)
    (\<lambda>(prepared, pending) a q j. a = Some (cp_encode cp) \<and> wf_pending pending \<and> pb_checkpoint pending = cp)"
proof (cases "wf_checkpoint cp")
  case True
  then show ?thesis using safe_prepare_and_publish [OF sha True] r by blast
next
  case False
  with wf have "\<not> P a q j" for a q j by blast
  then show ?thesis by (simp add: safe_def at_files_def)
qed

lemma safe_capture_publish_bind:
  assumes keys: "sized_keys sha pub sig_of" and r: "\<forall>cp. wf_record (rec cp)"
  shows "safe sha sized_journal (capture_publish_bind sha pub sig_of now key predecessor rec) (\<lambda>_ _ _ _. True)"
  unfolding capture_publish_bind_def Let_def
proof (rule safe_bind [OF safe_preflight], rule safe_bind [OF safe_journal_preflight],
    rule safe_bind [OF safe_flushed_head], rule safe_bind [OF safe_lift], rule safe_bind)
  have sha: "\<forall>x. length (sha x) = 32" using keys by (simp add: sized_keys_def)
  fix head cp
  let ?h = "head_of_tuple head"
  let ?signed = "case predecessor of
      Some previous \<Rightarrow> cp_sign_after sha pub sig_of ?h now previous key
    | None \<Rightarrow> cp_sign sha pub sig_of ?h now key CK_Periodic"
  show "safe sha (\<lambda>a q j. ?signed = Inr cp \<and> sized_head ?h) (prepare_and_publish sha cp rec)
    (\<lambda>(prepared, pending) a q j. a = Some (cp_encode cp) \<and> wf_pending pending \<and> pb_checkpoint pending = cp)"
    by (rule safe_publish_bind [OF sha r]) (use signed_wf(1,2) [OF keys, of ?h] in \<open>auto split: option.splits\<close>)
qed (auto intro: safe_bind_publication split: prod.split)

lemma safe_capture_rotate_publish_bind:
  assumes keys: "sized_keys sha pub sig_of" and r: "\<forall>cp. wf_record (rec cp)"
  shows "safe sha sized_journal (capture_rotate_publish_bind sha pub sig_of now old new predecessor rec) (\<lambda>_ _ _ _. True)"
  unfolding capture_rotate_publish_bind_def
proof (rule safe_bind [OF safe_preflight], rule safe_bind [OF safe_journal_preflight],
    rule safe_bind [OF safe_flushed_head], rule safe_bind [OF safe_lift], rule safe_bind)
  have sha: "\<forall>x. length (sha x) = 32" using keys by (simp add: sized_keys_def)
  fix head cp
  let ?h = "head_of_tuple head"
  show "safe sha (\<lambda>a q j. cp_rotate_after sha pub sig_of ?h now predecessor old new = Inr cp \<and> sized_head ?h)
    (prepare_and_publish sha cp rec)
    (\<lambda>(prepared, pending) a q j. a = Some (cp_encode cp) \<and> wf_pending pending \<and> pb_checkpoint pending = cp)"
    by (rule safe_publish_bind [OF sha r]) (use signed_wf(3) [OF keys, of ?h] in auto)
qed (auto intro: safe_bind_publication split: prod.split)

text \<open>Advancing the epoch, as both the reset and the reconciliation do it.\<close>

lemma safe_advance:
  assumes "safe sha (\<lambda>a q j. a = Some (cp_encode (pb_checkpoint p)) \<and> wf_pending p) k Q"
  shows "safe sha (\<lambda>a q j. a = Some (cp_encode (pb_checkpoint p)) \<and> wf_pending p)
    (cbind (on_journal (advance_epoch e)) (\<lambda>advanced. case advanced of
       Inl e \<Rightarrow>
         cbind (if e = J_ProofMismatch then persist_failed sha p else creturn ()) (\<lambda>_. craise (C_Journal e))
     | Inr _ \<Rightarrow> k)) Q"
proof (rule safe_bind)
  let ?P = "\<lambda>a q j. a = Some (cp_encode (pb_checkpoint p)) \<and> wf_pending p"
  show "safe sha ?P (on_journal (advance_epoch e)) (\<lambda>_. ?P)" by (rule safe_on_journalI)
  fix advanced :: "journal_error + u64"
  have "safe sha ?P (if c then persist_failed sha p else creturn ()) (\<lambda>_ _ _ _. True)" for c
    by (simp add: safe_persist_failed safe_returnI)
  from safe_then_raise [OF this] assms
  show "safe sha ?P (case advanced of
       Inl e \<Rightarrow>
         cbind (if e = J_ProofMismatch then persist_failed sha p else creturn ()) (\<lambda>_. craise (C_Journal e))
     | Inr _ \<Rightarrow> k) Q"
    by (cases advanced) (simp_all split del: if_split)
qed

lemma safe_epoch_check:
  assumes "safe sha (\<lambda>a q j. a = Some (cp_encode (pb_checkpoint p)) \<and> wf_pending p) k Q"
  shows "safe sha (\<lambda>a q j. a = Some (cp_encode (pb_checkpoint p)) \<and> wf_pending p)
    (cbind (cjournal (jread j_epoch)) (\<lambda>epoch.
     if epoch \<noteq> e then cbind (persist_failed sha p) (\<lambda>_. craise (C_Journal J_ProofMismatch)) else k)) Q"
proof (rule safe_bind)
  let ?P = "\<lambda>a q j. a = Some (cp_encode (pb_checkpoint p)) \<and> wf_pending p"
  show "safe sha ?P (cjournal (jread j_epoch)) (\<lambda>_. ?P)" by (rule safe_journalI)
  show "safe sha ?P (if epoch \<noteq> e then cbind (persist_failed sha p) (\<lambda>_. craise (C_Journal J_ProofMismatch)) else k) Q"
    for epoch
    by (simp add: assms safe_then_raise [OF safe_persist_failed])
qed

lemma safe_advance_and_bind:
  "safe sha (\<lambda>a q j. a = Some (cp_encode cp) \<and> wf_pending p \<and> pb_checkpoint p = cp)
    (cbind (on_journal (advance_epoch e)) (\<lambda>advanced.
     case advanced of
       Inl e \<Rightarrow>
         cbind (if e = J_ProofMismatch then persist_failed sha p else creturn ()) (\<lambda>_.
         craise (C_Journal e))
     | Inr _ \<Rightarrow>
         cbind (cjournal (jread j_epoch)) (\<lambda>epoch.
         if epoch \<noteq> fh_epoch (cp_head cp)
         then cbind (persist_failed sha p) (\<lambda>_. craise (C_Journal J_ProofMismatch))
         else bind_publication sha cp prepared p))) (\<lambda>_ _ _ _. True)"
proof (cases "pb_checkpoint p = cp")
  case True
  have "safe sha (\<lambda>a q j. a = Some (cp_encode (pb_checkpoint p)) \<and> wf_pending p)
      (bind_publication sha cp prepared p) (\<lambda>_ _ _ _. True)"
    by (rule safe_weaken [OF safe_bind_publication]) (use True in auto)
  then show ?thesis
    by (rule safe_weaken [OF safe_advance [OF safe_epoch_check]]) (use True in auto)
qed (simp add: safe_def at_files_def)

lemma safe_capture_reset_publish_bind:
  assumes keys: "sized_keys sha pub sig_of" and r: "\<forall>cp. wf_record (rec cp)"
  shows "safe sha sized_journal (capture_reset_publish_bind sha pub sig_of now new predecessor rec) (\<lambda>_ _ _ _. True)"
  unfolding capture_reset_publish_bind_def Let_def
proof (rule safe_bind [OF safe_preflight], rule safe_bind [OF safe_journal_preflight],
    rule safe_bind [OF safe_flushed_head], rule safe_bind [OF safe_guard], rule safe_bind [OF safe_lift],
    rule safe_bind [OF safe_lift], rule safe_bind)
  have sha: "\<forall>x. length (sha x) = 32" using keys by (simp add: sized_keys_def)
  fix head e cp
  let ?h = "head_of_tuple head"
  show "safe sha (\<lambda>a q j. cp_trust_reset_after sha pub sig_of (?h\<lparr>fh_epoch := e\<rparr>) now predecessor new = Inr cp
      \<and> ok_or C_Rollback (checked_add (fh_epoch ?h) 1) = Inr e
      \<and> \<not> fh_epoch ?h \<noteq> fh_epoch (cp_head predecessor) \<and> sized_head ?h)
    (prepare_and_publish sha cp rec)
    (\<lambda>(prepared, pending) a q j. a = Some (cp_encode cp) \<and> wf_pending pending \<and> pb_checkpoint pending = cp)"
    by (rule safe_publish_bind [OF sha r])
      (use signed_wf(4) [OF keys, of "?h\<lparr>fh_epoch := e\<rparr>"] in \<open>auto simp: sized_head_def\<close>)
qed (auto simp: safe_advance_and_bind split: prod.split)

lemma safe_reconcile_binding:
  assumes "\<forall>x. length (sha x) = 32"
  shows "safe sha (\<lambda>a q j. a = Some (cp_encode (pb_checkpoint p)) \<and> wf_pending p)
    (reconcile_binding sha p r) (\<lambda>_ _ _ _. True)"
  unfolding reconcile_binding_def Let_def persist_pending_replace_def
proof (rule safe_bind)
  let ?P = "\<lambda>a q j. a = Some (cp_encode (pb_checkpoint p)) \<and> wf_pending p"
  let ?cp = "pb_checkpoint p"
  show "safe sha ?P (cguard (pb_state p = PS_BindingFailed) C_BindingFailed) (\<lambda>_. ?P)"
    by (rule safe_weaken [OF safe_guard [where P = ?P]]) auto
  have w: "safe sha ?P (secure_write (encode_pending sha (p\<lparr>pb_state := PS_Bound\<rparr>)) True) (\<lambda>_. ?P)"
    by (rule safe_writeI) (auto simp: writable_def)
  have tail: "safe sha ?P (cbind (clift (prepare_binding sha ?cp r (cp_digest sha ?cp))) (\<lambda>prepared.
       cbind (cguard (wr_event_id prepared \<noteq> pb_event_id p
           \<or> wr_epoch prepared \<noteq> pb_expected_epoch p
           \<or> wr_sequence prepared \<noteq> pb_expected_sequence p) C_Rollback) (\<lambda>_.
       cbind (cjournal (append_checkpoint_publication sha (cp_digest sha ?cp) prepared)) (\<lambda>_.
       cbind (secure_write (encode_pending sha (p\<lparr>pb_state := PS_Bound\<rparr>)) True) (\<lambda>_.
       clear_pending))))) (\<lambda>_ _ _ _. True)"
    by (rule safe_bind [OF safe_lift], rule safe_bind [OF safe_guard], rule safe_bind [OF safe_journalI [where Q = "\<lambda>_. ?P"]],
        simp, rule safe_bind [OF w], rule safe_weaken [OF safe_unlink]) auto
  show "safe sha ?P (cbind (cjournal flushed_head) (\<lambda>head.
     cbind (cguard (fh_journal_id (head_of_tuple head) \<noteq> fh_journal_id (cp_head ?cp)) C_Untrusted) (\<lambda>_.
     cbind
       (if cp_kind ?cp = CK_TrustReset
           \<and> checked_add (fh_epoch (head_of_tuple head)) 1 = Some (fh_epoch (cp_head ?cp))
        then cbind (on_journal (advance_epoch (fh_epoch (head_of_tuple head)))) (\<lambda>advanced.
          case advanced of
            Inl e \<Rightarrow>
              cbind (if e = J_ProofMismatch then persist_failed sha p else creturn ()) (\<lambda>_.
              craise (C_Journal e))
          | Inr _ \<Rightarrow> creturn ())
        else creturn ()) (\<lambda>_.
     cbind (cjournal (jread j_epoch)) (\<lambda>epoch.
     if epoch \<noteq> fh_epoch (cp_head ?cp)
     then cbind (persist_failed sha p) (\<lambda>_. craise (C_Journal J_ProofMismatch))
     else
       cbind (clift (prepare_binding sha ?cp r (cp_digest sha ?cp))) (\<lambda>prepared.
       cbind (cguard (wr_event_id prepared \<noteq> pb_event_id p
           \<or> wr_epoch prepared \<noteq> pb_expected_epoch p
           \<or> wr_sequence prepared \<noteq> pb_expected_sequence p) C_Rollback) (\<lambda>_.
       cbind (cjournal (append_checkpoint_publication sha (cp_digest sha ?cp) prepared)) (\<lambda>_.
       cbind (secure_write (encode_pending sha (p\<lparr>pb_state := PS_Bound\<rparr>)) True) (\<lambda>_.
       clear_pending)))))))))  (\<lambda>_ _ _ _. True)" for u :: unit
    by (rule safe_bind [OF safe_journalI [where Q = "\<lambda>_. ?P"]], simp,
        rule safe_bind [OF safe_weaken [OF safe_guard [where P = ?P], where Q' = "\<lambda>_. ?P"]], simp, simp,
        rule safe_bind [OF safe_if [OF safe_advance [where Q = "\<lambda>_. ?P"]]], rule safe_returnI, simp,
        rule safe_returnI, simp, rule safe_epoch_check [OF tail])
qed

lemma safe_reconcile_pending:
  assumes sha: "\<forall>x. length (sha x) = 32"
  shows "safe sha (\<lambda>_ _ _. True) (reconcile_pending sha) (\<lambda>_ _ _ _. True)"
  unfolding reconcile_pending_def persist_pending_replace_def Let_def
proof (rule safe_bind [OF safe_read_pending], rule safe_bind [OF safe_lift], rule safe_bind [OF safe_guard], rule safe_bind)
  fix found p
  let ?read = "\<lambda>a q j. wf_pending p \<and> q = Some (encode_pending sha p)
     \<and> (a = Some (cp_encode (pb_checkpoint p)) \<or> a = None \<and> pb_state p = PS_Prepared)"
  let ?R = "\<lambda>p' a q j. a = Some (cp_encode (pb_checkpoint p')) \<and> wf_pending p'"
  have u: "safe sha ?read (publish (pb_checkpoint p))
      (\<lambda>_ a q j. a = Some (cp_encode (pb_checkpoint p)) \<and> wf_pending p)"
    by (rule safe_publishI) auto
  have w: "safe sha (\<lambda>a q j. a = Some (cp_encode (pb_checkpoint p)) \<and> wf_pending p)
      (secure_write (encode_pending sha (p\<lparr>pb_state := PS_Published\<rparr>)) True)
      (\<lambda>_ a q j. a = Some (cp_encode (pb_checkpoint p)) \<and> wf_pending p)"
    by (rule safe_writeI) (auto simp: writable_def)
  have "safe sha ?read
     (if pb_state p = PS_Prepared then
        cbind (publish (pb_checkpoint p)) (\<lambda>_.
        cbind (secure_write (encode_pending sha (p\<lparr>pb_state := PS_Published\<rparr>)) True) (\<lambda>_.
        creturn (p\<lparr>pb_state := PS_Published\<rparr>)))
      else creturn p) ?R"
  proof (cases "pb_state p = PS_Prepared")
    case True
    show ?thesis
      unfolding if_P [OF True]
      by (rule safe_bind [OF u], rule safe_bind [OF w], rule safe_returnI) auto
  qed (auto intro: safe_returnI)
  then show "safe sha (\<lambda>a q j. \<not> pb_state p = PS_BindingFailed \<and> ok_or C_InvalidArtifact found = Inr p
      \<and> True \<and> (\<forall>p. found = Some p \<longrightarrow> wf_pending p \<and> q = Some (encode_pending sha p)
        \<and> (a = Some (cp_encode (pb_checkpoint p)) \<or> a = None \<and> pb_state p = PS_Prepared)))
     (if pb_state p = PS_Prepared then
        cbind (publish (pb_checkpoint p)) (\<lambda>_.
        cbind (secure_write (encode_pending sha (p\<lparr>pb_state := PS_Published\<rparr>)) True) (\<lambda>_.
        creturn (p\<lparr>pb_state := PS_Published\<rparr>)))
      else creturn p) ?R"
    by (rule safe_weaken) (auto simp: rbind_simps)
next
  fix p
  show "safe sha (\<lambda>a q j. a = Some (cp_encode (pb_checkpoint p)) \<and> wf_pending p)
     (cbind (clift (map_err (\<lambda>_. C_InvalidArtifact) (decode_record (pb_record_bytes p)))) (\<lambda>decoded.
      reconcile_binding sha p (dr_record decoded))) (\<lambda>_ _ _ _. True)"
    by (rule safe_bind [OF safe_lift], rule safe_weaken [OF safe_reconcile_binding [OF sha]]) auto
qed

section \<open>An interrupted publication over an older artifact\<close>

lemma read_pending_conflict:
  assumes sha: "\<forall>x. length (sha x) = 32" and p: "wf_pending p"
    and co: "co_io co = []" "co_pending co = Some (encode_pending sha p)" "co_artifact co = Some old"
    and old: "old \<noteq> cp_encode (pb_checkpoint p)" "length old \<le> MAX_CHECKPOINT_BYTES"
  shows "read_pending sha co = (Inl C_Rollback, co)"
proof -
  have "\<not> PENDING_LIMIT < length (encode_pending sha p)"
    using wf_pending_lengths [OF p] sha
    by (simp add: encode_pending_def pending_prefix_def PENDING_LIMIT_def MAX_CHECKPOINT_BYTES_def
        PENDING_MAGIC_def)
  with co old decode_encode_pending [OF p sha] show ?thesis
    by (simp add: read_pending_def cbind_def secure_read_def clift_def cguard_def)
qed

lemma conflict_blocks:
  assumes "read_pending sha co = (Inl C_Rollback, co)"
  shows "reconcile_pending sha co = (Inl C_Rollback, co)"
    "capture_publish_bind sha pub sig_of now key predecessor rec co = (Inl C_Rollback, co)"
    "capture_rotate_publish_bind sha pub sig_of now key new previous rec co = (Inl C_Rollback, co)"
    "capture_reset_publish_bind sha pub sig_of now key previous rec co = (Inl C_Rollback, co)"
  using assms
  by (simp_all add: reconcile_pending_def capture_publish_bind_def capture_rotate_publish_bind_def
      capture_reset_publish_bind_def coordinator_preflight_def cbind_def)

lemma prepare_interrupted:
  assumes "prepare_binding sha cp (rec cp) (cp_digest sha cp) = Inr prepared" "pending_for cp prepared = Inr p"
    and "co_pending co = None" "co_io co = [Io_Done, Io_Before]" "length (cp_encode cp) \<le> MAX_CHECKPOINT_BYTES"
  shows "prepare_and_publish sha cp rec co
    = (Inl C_Io, co\<lparr>co_io := [], co_pending := Some (encode_pending sha p)\<rparr>)"
  using assms
  by (simp add: prepare_and_publish_def cbind_def clift_def persist_pending_def secure_write_def publish_def
      cguard_def publish_at_def)

text \<open>
  The files survive every failure: from a coherent state, every operation of the coordinator ends
  in a coherent one, whichever file operations are refused, fail before or fail after their effect,
  and whatever the journal answers.  A pending file is always the encoding of a well-formed binding,
  and once it is past the prepared state the published artifact is the one it names.\<close>

theorem coordinator_keeps_coherent:
  assumes "sized_keys sha pub sig_of" and "\<forall>cp. wf_record (rec cp)"
    and "length (j_journal_id (co_journal co)) = 16" and "coherent sha co"
  shows "coherent sha (snd (capture_publish_bind sha pub sig_of now key predecessor rec co))
    \<and> coherent sha (snd (capture_rotate_publish_bind sha pub sig_of now key new previous rec co))
    \<and> coherent sha (snd (capture_reset_publish_bind sha pub sig_of now key previous rec co))
    \<and> coherent sha (snd (reconcile_pending sha co))"
proof -
  have "safe sha (\<lambda>_ _ _. True) (reconcile_pending sha) (\<lambda>_ _ _ _. True)"
    by (rule safe_reconcile_pending) (use assms(1) in \<open>simp add: sized_keys_def\<close>)
  then have "coherent sha (snd (reconcile_pending sha co))"
    using assms(4) by (simp add: safe_def at_files_def)
  moreover have "coherent sha (snd (capture_publish_bind sha pub sig_of now key predecessor rec co))"
    "coherent sha (snd (capture_rotate_publish_bind sha pub sig_of now key new previous rec co))"
    "coherent sha (snd (capture_reset_publish_bind sha pub sig_of now key previous rec co))"
    using assms(3,4) safe_capture_publish_bind [OF assms(1,2)] safe_capture_rotate_publish_bind [OF assms(1,2)]
      safe_capture_reset_publish_bind [OF assms(1,2)]
    by (simp_all add: safe_def at_files_def)
  ultimately show ?thesis by blast
qed

text \<open>
  What the recovery does not cover: when a publication is interrupted after the pending file is
  written and before the artifact is replaced, and an older artifact is there, the coordinator can
  never go on.  Reading the pending file reports a rollback, so reconciliation and every later
  publication fail and change nothing.\<close>

theorem interrupted_publication_stuck:
  assumes "\<forall>x. length (sha x) = 32" and "wf_checkpoint cp" and "wf_record (rec cp)"
    and "prepare_binding sha cp (rec cp) (cp_digest sha cp) = Inr prepared" and "pending_for cp prepared = Inr p"
    and "co_pending co = None" and "co_artifact co = Some old" and "co_io co = [Io_Done, Io_Before]"
    and "old \<noteq> cp_encode cp" and "length old \<le> MAX_CHECKPOINT_BYTES"
  shows "\<exists>stuck. prepare_and_publish sha cp rec co = (Inl C_Io, stuck) \<and> co_pending stuck \<noteq> None
    \<and> reconcile_pending sha stuck = (Inl C_Rollback, stuck)
    \<and> capture_publish_bind sha pub sig_of now key predecessor rec' stuck = (Inl C_Rollback, stuck)
    \<and> capture_rotate_publish_bind sha pub sig_of now key new previous rec' stuck = (Inl C_Rollback, stuck)
    \<and> capture_reset_publish_bind sha pub sig_of now key previous rec' stuck = (Inl C_Rollback, stuck)"
proof -
  note p = prepared_wf [OF assms(1-5)]
  let ?stuck = "co\<lparr>co_io := [], co_pending := Some (encode_pending sha p)\<rparr>"
  have len: "length (cp_encode cp) \<le> MAX_CHECKPOINT_BYTES"
    using length_cp_encode [OF assms(2)] by (simp add: MAX_CHECKPOINT_BYTES_def)
  have "read_pending sha ?stuck = (Inl C_Rollback, ?stuck)"
    by (rule read_pending_conflict [OF assms(1) p(1), where old = old]) (use assms p in simp_all)
  note blocked = conflict_blocks [OF this]
  show ?thesis
    by (intro exI [of _ ?stuck])
      (simp add: blocked prepare_interrupted [where sha = sha and cp = cp and rec = rec, OF assms(4,5,6,8) len])
qed

definition idle_journal :: journal where
  "idle_journal = \<lparr>j_store = (\<lambda>_. []), j_reserve_len = None, j_stop_marker = False, j_stop_tmp = False,
     j_mirror = \<lparr>mf_active = None, mf_segments = [], mf_stale = False\<rparr>, j_journal_id = replicate 16 9,
     j_epoch = 1, j_max_bytes = 0, j_reserve_total = 0, j_segment_bytes = 0, j_mode = Mode_Required,
     j_faults = {}, j_automation_stopped = False, j_mirror_sequence = 0\<rparr>"

definition idle_coordinator :: "io_outcome list \<Rightarrow> coordinator" where
  "idle_coordinator io = \<lparr>co_artifact = Some [0], co_pending = None, co_io = io, co_journal = idle_journal\<rparr>"

definition example_prepared :: "(bytes \<Rightarrow> bytes) \<Rightarrow> witness_record" where
  "example_prepared sha = (example_publication sha)
     \<lparr>wr_event_id := take 16 (sha (BINDING_DOMAIN @ cp_digest sha (example_cp sha))),
      wr_request_id := drop 16 (sha (BINDING_DOMAIN @ cp_digest sha (example_cp sha))),
      wr_epoch := 1, wr_sequence := 4,
      wr_previous_hash := hash_record sha (dr_bytes (example_decoded (example_outcome sha)))\<rparr>"

lemma example_publication_wf:
  assumes "\<forall>x. length (sha x) = 32"
  shows "wf_record (example_publication sha)" "valid_stage (example_publication sha)"
  using decode_record_sound [OF example_publication_decodes [OF assms]] by (simp_all add: example_publication_fields)

lemma example_prepares:
  assumes "\<forall>x. length (sha x) = 32"
  shows "prepare_binding sha (example_cp sha) (example_publication sha) (cp_digest sha (example_cp sha))
      = Inr (example_prepared sha)"
    and "\<exists>p. pending_for (example_cp sha) (example_prepared sha) = Inr p"
proof -
  show "prepare_binding sha (example_cp sha) (example_publication sha) (cp_digest sha (example_cp sha))
      = Inr (example_prepared sha)"
    by (simp add: prepare_binding_def example_prepared_def example_cp_fields checked_add_def Let_def)
  have "wf_record (example_prepared sha)"
    using example_publication_wf(1) [OF assms] assms
    by (simp add: example_prepared_def wf_record_def hash_record_def)
  moreover have "valid_stage (example_prepared sha)"
    using example_publication_wf(2) [OF assms]
    by (simp add: example_prepared_def valid_stage_def example_publication_fields)
  ultimately have "wf_record (example_prepared sha)" "valid_stage (example_prepared sha)" by simp_all
  from encode_record_ok [OF this(1) _ this(2), of "replicate 16 9"]
  show "\<exists>p. pending_for (example_cp sha) (example_prepared sha) = Inr p"
    by (auto simp: pending_for_iff example_cp_def cp_signed_def)
qed

theorem interrupted_publication_stuck_witness:
  "\<exists>stuck. prepare_and_publish toy_sha (example_cp toy_sha) (\<lambda>_. example_publication toy_sha)
      (idle_coordinator [Io_Done, Io_Before]) = (Inl C_Io, stuck) \<and> co_pending stuck \<noteq> None
    \<and> reconcile_pending toy_sha stuck = (Inl C_Rollback, stuck)"
proof -
  have wf: "wf_checkpoint (example_cp toy_sha)"
    using example_pending_wf [OF length_toy_sha] by (simp add: wf_pending_def example_pending_def)
  obtain p where p: "pending_for (example_cp toy_sha) (example_prepared toy_sha) = Inr p"
    using example_prepares(2) [OF length_toy_sha] by blast
  have old: "[0] \<noteq> cp_encode (example_cp toy_sha)" "length [0 :: byte] \<le> MAX_CHECKPOINT_BYTES"
    using length_cp_encode [OF wf]
    by (auto simp: MAX_CHECKPOINT_BYTES_def dest!: arg_cong [where f = length] split: if_splits)
  have co: "co_pending (idle_coordinator io) = None" "co_artifact (idle_coordinator io) = Some [0]"
    "co_io (idle_coordinator io) = io" for io
    by (simp_all add: idle_coordinator_def)
  show ?thesis
    using interrupted_publication_stuck [where rec = "\<lambda>_. example_publication toy_sha"
        and rec' = "\<lambda>_. example_publication toy_sha" and pub = "\<lambda>_ :: unit. toy_key"
        and sig_of = "\<lambda>_. toy_sig toy_key" and key = "()" and new = "()" and now = 5 and predecessor = None
        and previous = "example_cp toy_sha", OF length_toy_sha wf example_publication_wf(1) [OF length_toy_sha]
        example_prepares(1) [OF length_toy_sha] p co(1,2,3) old]
    by auto
qed

theorem coordinator_keeps_coherent_witness:
  "coherent toy_sha (snd (capture_publish_bind toy_sha (\<lambda>_. toy_key) (\<lambda>_. toy_sig toy_key) 5 () None
      (\<lambda>_. example_publication toy_sha) (idle_coordinator [Io_Done, Io_After])))
    \<and> coherent toy_sha (snd (reconcile_pending toy_sha (idle_coordinator [Io_Done, Io_After])))"
proof -
  have "sized_keys toy_sha (\<lambda>_ :: unit. toy_key) (\<lambda>_. toy_sig toy_key)"
    using length_toy_sha by (auto simp: sized_keys_def toy_key_def toy_sig_def min_def)
  moreover have "\<forall>cp :: checkpoint. wf_record (example_publication toy_sha)"
    using example_publication_wf(1) [OF length_toy_sha] by simp
  moreover have "length (j_journal_id (co_journal (idle_coordinator [Io_Done, Io_After]))) = 16"
    "coherent toy_sha (idle_coordinator [Io_Done, Io_After])"
    by (simp_all add: idle_coordinator_def idle_journal_def coherent_def)
  ultimately show ?thesis
    using coordinator_keeps_coherent [where rec = "\<lambda>_. example_publication toy_sha" and now = 5 and key = "()"
        and predecessor = None and new = "()" and previous = "example_cp toy_sha"] by simp
qed

end
