(* ===== verification/Journal_Chain.thy ===== *)
theory Journal_Chain
  imports Journal
begin

text \<open>
  The chain invariant of the witness journal.  \<open>chain_store sha jid s rs\<close> says that the tables hold
  exactly the history \<open>rs\<close>: the sealed segments and the active records spell it out in order, its
  records are numbered from one and linked by their hashes, the event index points to them, and
  the head is the last of them.  \<open>chain\<close> adds the operations table and the epoch of a running journal.
  \<open>keeps\<close> holds of the operations that leave all of it alone; the last section treats the
  transactions that append one or two records.
\<close>

section \<open>Histories\<close>

definition record_hash :: "(bytes \<Rightarrow> bytes) \<Rightarrow> bytes \<Rightarrow> witness_record \<Rightarrow> bytes" where
  "record_hash sha jid r = hash_record sha \<lparr>rb_journal_id = jid, rb_bytes = record_fields jid r\<rparr>"

definition chain_head :: "(bytes \<Rightarrow> bytes) \<Rightarrow> bytes \<Rightarrow> witness_record list \<Rightarrow> bytes" where
  "chain_head sha jid rs = (if rs = [] then replicate 32 0 else record_hash sha jid (last rs))"

definition linked :: "(bytes \<Rightarrow> bytes) \<Rightarrow> bytes \<Rightarrow> witness_record list \<Rightarrow> bool" where
  "linked sha jid rs \<longleftrightarrow> (\<forall>i < length rs. wf_record (rs ! i) \<and> valid_stage (rs ! i)
     \<and> wr_sequence (rs ! i) = of_nat (Suc i)
     \<and> wr_previous_hash (rs ! i) = chain_head sha jid (take i rs))"

definition entries_of :: "bytes \<Rightarrow> witness_record list \<Rightarrow> entries" where
  "entries_of jid rs = map (\<lambda>r. (u64_to_be (wr_sequence r), record_fields jid r)) rs"

definition event_index :: "witness_record list \<Rightarrow> bytes \<Rightarrow> bytes option" where
  "event_index rs = map_of (map (\<lambda>r. (wr_event_id r, u64_to_be (wr_sequence r))) rs)"

definition sealed_entries :: "bytes \<Rightarrow> witness_record list list \<Rightarrow> entries" where
  "sealed_entries jid segs =
     map (\<lambda>i. (u64_to_be (of_nat i), segment_blob (entries_of jid (segs ! i)))) [0..<length segs]"

definition chain_store :: "(bytes \<Rightarrow> bytes) \<Rightarrow> bytes \<Rightarrow> kv_store \<Rightarrow> witness_record list \<Rightarrow> bool" where
  "chain_store sha jid s rs \<longleftrightarrow>
     kv_sorted s \<and> length rs < 2 ^ 64 \<and> linked sha jid rs \<and> distinct (map wr_event_id rs)
     \<and> (\<exists>segs act. rs = concat segs @ act \<and> [] \<notin> set segs
          \<and> kv_scan T_SealedSegments s = sealed_entries jid segs
          \<and> kv_scan T_Records s = entries_of jid act
          \<and> kv_get T_Meta CURRENT_SEGMENT s = Some (u64_to_be (of_nat (length segs)))
          \<and> (\<forall>k > of_nat (length segs). kv_get T_Segments (u64_to_be k) s = None))
     \<and> kv_get T_Meta JOURNAL_ID s = Some jid
     \<and> kv_get T_Meta HEAD_SEQUENCE s = Some (u64_to_be (of_nat (length rs)))
     \<and> kv_get T_Meta HEAD_HASH s = Some (chain_head sha jid rs)
     \<and> (\<forall>e. kv_get T_Events e s = event_index rs e)"

text \<open>The operations table, and the invariant of a running journal with its history \<open>rs\<close>, its
  operations \<open>om\<close> and its epoch \<open>e\<close>.\<close>

type_synonym op_map = "bytes \<Rightarrow> operation_state option"

definition ops_of :: "kv_store \<Rightarrow> bytes \<Rightarrow> bytes option" where
  "ops_of s = (\<lambda>op_id. kv_get T_Operations op_id s)"

definition encoded_ops :: "op_map \<Rightarrow> bytes \<Rightarrow> bytes option" where
  "encoded_ops om = (\<lambda>op_id. map_option state_encode (om op_id))"

text \<open>The operations that still owe a terminal record, and what the pending table lists.\<close>

definition open_ops :: "op_map \<Rightarrow> bytes set" where
  "open_ops om = {op_id. \<exists>st. om op_id = Some st \<and> os_state st \<noteq> COMPLETE}"

definition pending_of :: "kv_store \<Rightarrow> bytes set" where
  "pending_of s = {op_id. kv_get T_Pending op_id s \<noteq> None}"

definition wf_ops :: "op_map \<Rightarrow> bool" where
  "wf_ops om \<longleftrightarrow> (\<forall>st \<in> ran om. wf_state st)"

definition chain ::
  "(bytes \<Rightarrow> bytes) \<Rightarrow> bytes \<Rightarrow> journal \<Rightarrow> witness_record list \<Rightarrow> op_map \<Rightarrow> u64 \<Rightarrow> bool" where
  "chain sha jid j rs om e \<longleftrightarrow> j_journal_id j = jid \<and> j_epoch j = e
     \<and> kv_get T_Meta EPOCH (j_store j) = Some (u64_to_be e)
     \<and> chain_store sha jid (j_store j) rs \<and> ops_of (j_store j) = encoded_ops om \<and> wf_ops om
     \<and> pending_of (j_store j) = open_ops om"

lemma linked_nth:
  assumes "linked sha jid rs" "i < length rs"
  shows "wf_record (rs ! i)" "valid_stage (rs ! i)" "wr_sequence (rs ! i) = of_nat (Suc i)"
    "wr_previous_hash (rs ! i) = chain_head sha jid (take i rs)"
  using assms by (auto simp: linked_def)

lemma linked_snoc:
  "linked sha jid (rs @ [r]) \<longleftrightarrow> linked sha jid rs \<and> wf_record r \<and> valid_stage r
     \<and> wr_sequence r = of_nat (Suc (length rs)) \<and> wr_previous_hash r = chain_head sha jid rs"
proof -
  have "linked sha jid (rs @ [r]) \<longleftrightarrow>
      (\<forall>i < length rs. wf_record (rs ! i) \<and> valid_stage (rs ! i)
         \<and> wr_sequence (rs ! i) = of_nat (Suc i)
         \<and> wr_previous_hash (rs ! i) = chain_head sha jid (take i rs))
      \<and> wf_record r \<and> valid_stage r \<and> wr_sequence r = of_nat (Suc (length rs))
      \<and> wr_previous_hash r = chain_head sha jid rs"
    by (auto simp: linked_def less_Suc_eq nth_append)
  then show ?thesis by (simp add: linked_def)
qed

lemma entries_of_append: "entries_of jid (xs @ ys) = entries_of jid xs @ entries_of jid ys"
  by (simp add: entries_of_def)

lemma event_index_None: "event_index rs e = None \<longleftrightarrow> e \<notin> set (map wr_event_id rs)"
  by (auto simp: event_index_def map_of_eq_None_iff image_image)

lemma event_index_snoc:
  assumes "wr_event_id r \<notin> set (map wr_event_id rs)"
  shows "event_index (rs @ [r]) e =
    (if e = wr_event_id r then Some (u64_to_be (wr_sequence r)) else event_index rs e)"
proof -
  have "event_index rs (wr_event_id r) = None" using assms event_index_None by blast
  then show ?thesis
    by (cases "event_index rs e") (auto simp: event_index_def map_of_append map_add_def)
qed

lemma sealed_entries_snoc:
  "sealed_entries jid (segs @ [act]) =
     sealed_entries jid segs @ [(u64_to_be (of_nat (length segs)), segment_blob (entries_of jid act))]"
  by (simp add: sealed_entries_def nth_append)

section \<open>The store: committing a record, sealing a segment\<close>

lemma chain_store_key_less:
  assumes "chain_store sha jid s rs" "k \<in> fst ` set (kv_scan T_Records s)"
    and "Suc (length rs) < 2 ^ 64"
  shows "k < u64_to_be (of_nat (Suc (length rs)))"
proof -
  from assms(1) obtain segs act where rs: "rs = concat segs @ act"
    and act: "kv_scan T_Records s = entries_of jid act" and l: "linked sha jid rs"
    by (auto simp: chain_store_def)
  from assms(2) act obtain r where "r \<in> set rs" and k: "k = u64_to_be (wr_sequence r)"
    unfolding rs entries_of_def by fastforce
  then obtain i where i: "i < length rs" "r = rs ! i" by (auto simp: in_set_conv_nth)
  with linked_nth(3) [OF l i(1)] have "wr_sequence r = of_nat (Suc i)" by simp
  then have "wr_sequence r < of_nat (Suc (length rs))"
    using i(1) assms(3) by (simp add: word_less_nat_alt unat_of_nat del: of_nat_Suc)
  then show ?thesis using k u64_to_be_less by blast
qed

lemma chain_store_commit:
  assumes ch: "chain_store sha jid s rs"
    and r: "wf_record r" "valid_stage r" "wr_sequence r = of_nat (Suc (length rs))"
      "wr_previous_hash r = chain_head sha jid rs" "kv_get T_Events (wr_event_id r) s = None"
    and room: "Suc (length rs) < 2 ^ 64"
    and s': "kv_sorted s'" "s' T_SealedSegments = s T_SealedSegments"
      "s' T_Records = kv_put T_Records (u64_to_be (wr_sequence r)) (record_fields jid r) s T_Records"
      "\<And>e. kv_get T_Events e s' =
         (if e = wr_event_id r then Some (u64_to_be (wr_sequence r)) else kv_get T_Events e s)"
      "kv_get T_Meta CURRENT_SEGMENT s' = kv_get T_Meta CURRENT_SEGMENT s"
      "kv_get T_Meta JOURNAL_ID s' = kv_get T_Meta JOURNAL_ID s"
      "kv_get T_Meta HEAD_SEQUENCE s' = Some (u64_to_be (wr_sequence r))"
      "kv_get T_Meta HEAD_HASH s' = Some (record_hash sha jid r)"
      "s' T_Segments = s T_Segments"
  shows "chain_store sha jid s' (rs @ [r])"
proof -
  have sorted: "kv_sorted s" and l: "linked sha jid rs" and d: "distinct (map wr_event_id rs)"
    and ev: "\<And>e. kv_get T_Events e s = event_index rs e" and jid: "kv_get T_Meta JOURNAL_ID s = Some jid"
    using ch by (auto simp: chain_store_def)
  from ch obtain segs act where segs: "rs = concat segs @ act" "[] \<notin> set segs"
    "kv_scan T_SealedSegments s = sealed_entries jid segs" "kv_scan T_Records s = entries_of jid act"
    "kv_get T_Meta CURRENT_SEGMENT s = Some (u64_to_be (of_nat (length segs)))"
    "\<forall>k > of_nat (length segs). kv_get T_Segments (u64_to_be k) s = None"
    by (auto simp: chain_store_def)
  have fresh: "wr_event_id r \<notin> set (map wr_event_id rs)"
    using r(5) ev [of "wr_event_id r"] event_index_None [of rs "wr_event_id r"] by simp
  have "kv_scan T_Records s' = kv_scan T_Records s @ [(u64_to_be (wr_sequence r), record_fields jid r)]"
    using kv_scan_put_last [OF sorted, of T_Records "u64_to_be (wr_sequence r)" "record_fields jid r"]
      chain_store_key_less [OF ch _ room] s'(3) r(3) by (simp add: kv_scan_def)
  then have rec: "kv_scan T_Records s' = entries_of jid (act @ [r])"
    using segs(4) by (simp add: entries_of_def)
  have "kv_scan T_SealedSegments s' = sealed_entries jid segs"
    using segs(3) s'(2) by (simp add: kv_scan_def)
  moreover have "kv_get T_Segments k s' = kv_get T_Segments k s" for k using s'(9) by (simp add: kv_get_def)
  ultimately have "\<exists>segs act'. rs @ [r] = concat segs @ act' \<and> [] \<notin> set segs
      \<and> kv_scan T_SealedSegments s' = sealed_entries jid segs
      \<and> kv_scan T_Records s' = entries_of jid act'
      \<and> kv_get T_Meta CURRENT_SEGMENT s' = Some (u64_to_be (of_nat (length segs)))
      \<and> (\<forall>k > of_nat (length segs). kv_get T_Segments (u64_to_be k) s' = None)"
    using segs rec s'(5) by (intro exI [of _ segs] exI [of _ "act @ [r]"]) simp
  then show ?thesis
    unfolding chain_store_def
    using s' r room l d fresh ev jid event_index_snoc [OF fresh]
    by (auto simp: linked_snoc chain_head_def)
qed

lemma segment_blob_entries:
  "segment_blob (entries_of jid rs) =
     concat (map (\<lambda>r. u64_to_be (wr_sequence r) @ u32_to_be (of_nat (length (record_fields jid r)))
                       @ record_fields jid r) rs)"
  by (simp add: segment_blob_def entries_of_def comp_def)

lemma segments_bound:
  assumes "[] \<notin> set segs"
  shows "length segs \<le> length (concat segs)"
  using assms
proof (induction segs)
  case (Cons seg segs)
  then have "1 \<le> length seg" by (cases seg) auto
  with Cons show ?case by simp
qed simp

lemma chain_store_seal:
  assumes ch: "chain_store sha jid s rs" and some: "kv_scan T_Records s \<noteq> []"
    and cur: "kv_get T_Meta CURRENT_SEGMENT s = Some cb" "parse_u64 J_Corrupt cb = Inr current_id"
      "checked_add current_id 1 = Some next"
    and s': "s' = kv_put T_Meta CURRENT_SEGMENT (u64_to_be next)
       (kv_put T_Segments (u64_to_be next) handoff
         (fold (kv_remove T_Records) (map fst (kv_scan T_Records s))
           (kv_put T_SealedSegments (u64_to_be current_id) (segment_blob (kv_scan T_Records s)) s)))"
  shows "chain_store sha jid s' rs"
proof -
  from ch obtain segs act where segs: "rs = concat segs @ act" "[] \<notin> set segs"
    "kv_scan T_SealedSegments s = sealed_entries jid segs" "kv_scan T_Records s = entries_of jid act"
    "kv_get T_Meta CURRENT_SEGMENT s = Some (u64_to_be (of_nat (length segs)))"
    and later: "\<forall>k > of_nat (length segs). kv_get T_Segments (u64_to_be k) s = None"
    and sorted: "kv_sorted s"
    by (auto simp: chain_store_def)
  from cur segs(5) have id: "current_id = of_nat (length segs)"
    by (auto simp: parse_u64_def split: if_splits)
  have act: "act \<noteq> []" using some segs(4) by (auto simp: entries_of_def)
  then have "Suc (length segs) \<le> length rs"
    using segments_bound [OF segs(2)] segs(1) by (cases act) simp_all
  then have len: "Suc (length segs) < 2 ^ 64" using ch by (simp add: chain_store_def)
  from id cur(3) have nxt: "next = of_nat (Suc (length segs))"
    by (auto simp: checked_add_def split: if_splits)
  let ?s1 = "kv_put T_SealedSegments (u64_to_be current_id) (segment_blob (kv_scan T_Records s)) s"
  have "k < u64_to_be current_id" if "k \<in> fst ` set (kv_scan T_SealedSegments s)" for k
  proof -
    from that segs(3) obtain i where "i < length segs" "k = u64_to_be (of_nat i)"
      by (auto simp: sealed_entries_def)
    with len id show ?thesis
      by (auto intro!: u64_to_be_less simp: word_less_nat_alt unat_of_nat)
  qed
  then have "kv_scan T_SealedSegments ?s1 = kv_scan T_SealedSegments s
      @ [(u64_to_be current_id, segment_blob (kv_scan T_Records s))]"
    by (rule kv_scan_put_last [OF sorted])
  then have sealed1: "kv_scan T_SealedSegments ?s1 = sealed_entries jid (segs @ [act])"
    by (simp add: sealed_entries_snoc segs(3,4) id)
  let ?s2 = "fold (kv_remove T_Records) (map fst (kv_scan T_Records s)) ?s1"
  have s2: "?s2 = ?s1(T_Records := [])"
    using kv_scan_remove_all [OF sorted, of T_Records]
    by (simp add: kv_fold_remove kv_scan_def kv_put_def)
  have "kv_sorted ?s2" using kv_sorted_put [OF sorted] by (simp add: s2 kv_sorted_def)
  then have sorted': "kv_sorted s'" unfolding s' by (intro kv_sorted_put)
  have tabs: "kv_scan T_SealedSegments s' = kv_scan T_SealedSegments ?s1" "kv_scan T_Records s' = []"
    "\<And>e. kv_get T_Events e s' = kv_get T_Events e s"
    "kv_get T_Meta CURRENT_SEGMENT s' = Some (u64_to_be next)"
    "kv_get T_Meta HEAD_SEQUENCE s' = kv_get T_Meta HEAD_SEQUENCE s"
    "kv_get T_Meta JOURNAL_ID s' = kv_get T_Meta JOURNAL_ID s"
    "kv_get T_Meta HEAD_HASH s' = kv_get T_Meta HEAD_HASH s"
    "\<And>k. k \<noteq> u64_to_be next \<Longrightarrow> kv_get T_Segments k s' = kv_get T_Segments k s"
    unfolding s' s2 by (simp_all add: kv_get_def kv_put_def kv_scan_def alist_put_lookup)
  have "kv_get T_Segments (u64_to_be k) s' = None" if "of_nat (length (segs @ [act])) < k" for k
  proof -
    from that nxt have k: "next < k" by simp
    moreover have "of_nat (length segs) < next"
      using nxt len by (simp add: word_less_nat_alt unat_of_nat del: of_nat_Suc)
    ultimately have "of_nat (length segs) < k" by simp
    with tabs(8) [of "u64_to_be k"] later k show ?thesis by (simp add: u64_to_be_inject)
  qed
  note later' = this
  have "\<exists>segs' act'. rs = concat segs' @ act' \<and> [] \<notin> set segs'
      \<and> kv_scan T_SealedSegments s' = sealed_entries jid segs'
      \<and> kv_scan T_Records s' = entries_of jid act'
      \<and> kv_get T_Meta CURRENT_SEGMENT s' = Some (u64_to_be (of_nat (length segs')))
      \<and> (\<forall>k > of_nat (length segs'). kv_get T_Segments (u64_to_be k) s' = None)"
    using segs(1,2) act len tabs sealed1 nxt later'
    by (intro exI [of _ "segs @ [act]"] exI [of _ "[]"]) (simp add: entries_of_def)
  then show ?thesis
    using ch sorted' tabs unfolding chain_store_def by auto
qed

text \<open>The part of the store that the chain does not read.\<close>

definition off_chain :: "tree_name \<Rightarrow> bytes \<Rightarrow> bool" where
  "off_chain tr k \<longleftrightarrow> tr \<in> {T_Operations, T_Pending}
     \<or> tr = T_Meta \<and> k \<notin> {HEAD_SEQUENCE, HEAD_HASH, CURRENT_SEGMENT, JOURNAL_ID}"

lemma chain_store_cong:
  assumes "chain_store sha jid s rs" "kv_sorted s'"
    and "\<And>tr. tr \<in> {T_SealedSegments, T_Records, T_Events, T_Segments} \<Longrightarrow> s' tr = s tr"
    and "\<And>k. k \<in> {HEAD_SEQUENCE, HEAD_HASH, CURRENT_SEGMENT, JOURNAL_ID} \<Longrightarrow> kv_get T_Meta k s' = kv_get T_Meta k s"
  shows "chain_store sha jid s' rs"
proof -
  have "kv_scan T_SealedSegments s' = kv_scan T_SealedSegments s"
    "kv_scan T_Records s' = kv_scan T_Records s" "\<And>e. kv_get T_Events e s' = kv_get T_Events e s"
    "\<And>k. kv_get T_Segments k s' = kv_get T_Segments k s"
    using assms(3) by (simp_all add: kv_scan_def kv_get_def)
  with assms(1,2,4) show ?thesis by (simp add: chain_store_def)
qed

lemma chain_store_sorted: "chain_store sha jid s rs \<Longrightarrow> kv_sorted s"
  by (simp add: chain_store_def)

lemma chain_store_put_off:
  assumes "chain_store sha jid s rs" "off_chain tr k"
  shows "chain_store sha jid (kv_put tr k v s) rs"
proof (rule chain_store_cong [OF assms(1)])
  show "kv_sorted (kv_put tr k v s)" using chain_store_sorted [OF assms(1)] by (rule kv_sorted_put)
qed (use assms(2) in \<open>auto simp: off_chain_def kv_get_put\<close>, auto simp: kv_put_def)

lemma chain_store_remove_off:
  assumes "chain_store sha jid s rs" "off_chain tr k"
  shows "chain_store sha jid (kv_remove tr k s) rs"
proof (rule chain_store_cong [OF assms(1)])
  show "kv_sorted (kv_remove tr k s)" using chain_store_sorted [OF assms(1)] by (rule kv_sorted_remove)
qed (use assms(2) in \<open>auto simp: off_chain_def kv_get_remove\<close>, auto simp: kv_remove_def)


section \<open>Operations that keep the history\<close>

text \<open>\<open>keeps sha jid m\<close>: whatever \<open>m\<close> returns, the history after it is the history before it.\<close>

definition keeps :: "(bytes \<Rightarrow> bytes) \<Rightarrow> bytes \<Rightarrow> 'a jm \<Rightarrow> bool" where
  "keeps sha jid m \<longleftrightarrow> (\<forall>j rs om e. chain sha jid j rs om e \<longrightarrow> chain sha jid (snd (m j)) rs om e)"

named_theorems keeps_intros \<open>operations that leave the history alone\<close>

lemma keepsD: "keeps sha jid m \<Longrightarrow> chain sha jid j rs om e \<Longrightarrow> chain sha jid (snd (m j)) rs om e"
  by (simp add: keeps_def)

lemma keeps_bind [keeps_intros]:
  assumes "keeps sha jid m" "\<And>x. keeps sha jid (k x)"
  shows "keeps sha jid (jbind m k)"
  unfolding keeps_def
proof (intro allI impI)
  fix j rs om e assume "chain sha jid j rs om e"
  with assms(1) have "chain sha jid (snd (m j)) rs om e" by (rule keepsD)
  then show "chain sha jid (snd (jbind m k j)) rs om e"
    using keepsD [OF assms(2)] by (cases "m j") (auto simp: jbind_def split: sum.split)
qed

lemma keeps_pure [keeps_intros]:
  "keeps sha jid (jread f)" "keeps sha jid (jreturn x)" "keeps sha jid (jraise e)"
  "keeps sha jid (jlift r)" "keeps sha jid (jguard c e)" "keeps sha jid (jget tr k)"
  "keeps sha jid journal_head" "keeps sha jid (jencode rec)"
  by (simp_all add: keeps_def jread_def jreturn_def jraise_def jlift_def jguard_def jget_def
      journal_head_def jencode_def jbind_def)

lemma keeps_if [keeps_intros]:
  "keeps sha jid m \<Longrightarrow> keeps sha jid m' \<Longrightarrow> keeps sha jid (if c then m else m')"
  by simp

lemma keeps_option [keeps_intros]:
  "keeps sha jid m \<Longrightarrow> (\<And>x. keeps sha jid (k x)) \<Longrightarrow>
     keeps sha jid (case v of None \<Rightarrow> m | Some x \<Rightarrow> k x)"
  by (simp split: option.split)

lemma keeps_prod [keeps_intros]:
  "(\<And>x y. keeps sha jid (k x y)) \<Longrightarrow> keeps sha jid (case v of (x, y) \<Rightarrow> k x y)"
  by (simp split: prod.split)

lemma keeps_try [keeps_intros]: "keeps sha jid m \<Longrightarrow> keeps sha jid (jtry m)"
  by (simp add: keeps_def jtry_def case_prod_beta)

lemma keeps_map_err [keeps_intros]: "keeps sha jid m \<Longrightarrow> keeps sha jid (jmap_err f m)"
  by (simp add: keeps_def jmap_err_def case_prod_beta)

lemma keeps_modify:
  assumes "\<And>j rs om e. chain sha jid j rs om e \<Longrightarrow> chain sha jid (f j) rs om e"
  shows "keeps sha jid (jmodify f)"
  using assms by (simp add: keeps_def jmodify_def)

lemma keeps_take_fault [keeps_intros]: "keeps sha jid (take_fault p)"
  by (simp add: keeps_def take_fault_def chain_def)

lemma keeps_take_either [keeps_intros]: "keeps sha jid (take_either p q)"
  unfolding take_either_def by (intro keeps_intros)

lemma ops_of_simps [simp]:
  "tr \<noteq> T_Operations \<Longrightarrow> ops_of (kv_put tr k v s) = ops_of s"
  "tr \<noteq> T_Operations \<Longrightarrow> ops_of (kv_remove tr k s) = ops_of s"
  "ops_of (kv_put T_Operations op_id v s) = (ops_of s)(op_id \<mapsto> v)"
  "ops_of (put_record q ev b s) = ops_of s" "ops_of (put_head q h s) = ops_of s"
  by (auto simp: ops_of_def kv_get_put kv_get_remove put_record_def put_head_def)

lemma pending_of_simps [simp]:
  "tr \<noteq> T_Pending \<Longrightarrow> pending_of (kv_put tr k v s) = pending_of s"
  "tr \<noteq> T_Pending \<Longrightarrow> pending_of (kv_remove tr k s) = pending_of s"
  "pending_of (kv_put T_Pending op_id v s) = insert op_id (pending_of s)"
  "pending_of (kv_remove T_Pending op_id s) = pending_of s - {op_id}"
  "pending_of (put_record q ev b s) = pending_of s" "pending_of (put_head q h s) = pending_of s"
  by (auto simp: pending_of_def kv_get_put kv_get_remove put_record_def put_head_def)

definition off_journal :: "tree_name \<Rightarrow> bytes \<Rightarrow> bool" where
  "off_journal tr k \<longleftrightarrow> off_chain tr k \<and> tr \<notin> {T_Operations, T_Pending} \<and> (tr, k) \<noteq> (T_Meta, EPOCH)"

lemma keeps_put_off: "off_journal tr k \<Longrightarrow> keeps sha jid (jput tr k v)"
  unfolding jput_def
  by (rule keeps_modify) (auto simp: chain_def off_journal_def chain_store_put_off kv_get_put)

lemma keeps_remove_off: "off_journal tr k \<Longrightarrow> keeps sha jid (jremove tr k)"
  unfolding jremove_def
  by (rule keeps_modify) (auto simp: chain_def off_journal_def chain_store_remove_off kv_get_remove)

lemma keeps_preflight [keeps_intros]: "keeps sha jid (preflight b)"
  unfolding preflight_def by (intro keeps_intros)

lemma keeps_flush [keeps_intros]: "keeps sha jid (journal_flush b op_id)"
  unfolding journal_flush_def by (intro keeps_intros)

lemma keeps_load_state [keeps_intros]: "keeps sha jid (load_state op_id)"
  unfolding load_state_def by (intro keeps_intros)

lemma seal_cases:
  "snd (seal_active_segment force j) = j\<lparr>j_faults := j_faults j - {FP_RotationSeal}\<rparr>
   \<or> (\<exists>cb current_id next handoff. kv_scan T_Records (j_store j) \<noteq> [] \<and>
        kv_get T_Meta CURRENT_SEGMENT (j_store j) = Some cb \<and> parse_u64 J_Corrupt cb = Inr current_id
        \<and> checked_add current_id 1 = Some next
        \<and> snd (seal_active_segment force j) = j\<lparr>j_faults := j_faults j - {FP_RotationSeal},
            j_store := kv_put T_Meta CURRENT_SEGMENT (u64_to_be next)
              (kv_put T_Segments (u64_to_be next) handoff
                (fold (kv_remove T_Records) (map fst (kv_scan T_Records (j_store j)))
                  (kv_put T_SealedSegments (u64_to_be current_id)
                    (segment_blob (kv_scan T_Records (j_store j))) (j_store j))))\<rparr>)"
proof (cases "FP_RotationSeal \<in> j_faults j")
  case True
  then show ?thesis
    by (simp add: seal_active_segment_def jbind_def take_fault_def jguard_def)
next
  case False
  show ?thesis
    by (auto simp: seal_active_segment_def jbind_def take_fault_def jguard_def jread_def jget_def jlift_def
        jreturn_def journal_head_def jtransaction_def kv_transaction_def Let_def False
        ok_or_eq_Inr split: sum.split prod.split option.split)
qed

lemma sealed_store_frame:
  "ops_of (kv_put T_Meta CURRENT_SEGMENT a (kv_put T_Segments b c
     (fold (kv_remove T_Records) ks (kv_put T_SealedSegments d f s)))) = ops_of s"
  "kv_get T_Meta EPOCH (kv_put T_Meta CURRENT_SEGMENT a (kv_put T_Segments b c
     (fold (kv_remove T_Records) ks (kv_put T_SealedSegments d f s)))) = kv_get T_Meta EPOCH s"
  "pending_of (kv_put T_Meta CURRENT_SEGMENT a (kv_put T_Segments b c
     (fold (kv_remove T_Records) ks (kv_put T_SealedSegments d f s)))) = pending_of s"
  by (simp_all add: ops_of_def pending_of_def kv_get_put kv_fold_remove) (simp_all add: kv_get_def kv_put_def)

lemma keeps_seal [keeps_intros]: "keeps sha jid (seal_active_segment force)"
  unfolding keeps_def
proof (intro allI impI)
  fix j rs om e assume ch: "chain sha jid j rs om e"
  then show "chain sha jid (snd (seal_active_segment force j)) rs om e"
    using seal_cases [of force j] chain_store_seal [of sha jid "j_store j" rs]
    by (auto simp: chain_def sealed_store_frame)
qed

lemma off_chain_meta [simp]:
  "off_chain T_Meta ROTATION_DEFERRED" "off_chain T_Meta AUTOMATION_STOPPED"
  "off_chain T_Meta RESERVE_INFLIGHT" "off_chain T_Meta RESERVE" "off_chain T_Meta EPOCH"
  "off_chain T_Operations k" "off_chain T_Pending k"
  by (simp_all add: off_chain_def)

lemma off_journal_meta [simp]:
  "off_journal T_Meta ROTATION_DEFERRED" "off_journal T_Meta AUTOMATION_STOPPED"
  "off_journal T_Meta RESERVE_INFLIGHT" "off_journal T_Meta RESERVE"
  by (simp_all add: off_journal_def)

lemma keeps_post_ack_rotation [keeps_intros]: "keeps sha jid post_ack_rotation"
  unfolding post_ack_rotation_def by (intro keeps_intros keeps_put_off keeps_remove_off) simp_all

lemma keeps_ensure_user_capacity [keeps_intros]: "keeps sha jid (ensure_user_capacity n)"
  unfolding ensure_user_capacity_def Let_def by (intro keeps_intros)

lemma keeps_stop_automation [keeps_intros]: "keeps sha jid stop_automation"
  unfolding stop_automation_def Let_def
  by (rule keeps_modify) (auto simp: chain_def chain_store_put_off kv_get_put)

lemma keeps_stopped [keeps_intros]: "keeps sha jid stopped"
  unfolding stopped_def by (intro keeps_intros)

lemma keeps_begin_cleanup_reservation [keeps_intros]:
  "keeps sha jid (begin_cleanup_reservation op_id n)"
  unfolding begin_cleanup_reservation_def by (intro keeps_intros keeps_put_off) simp

lemma keeps_finish_cleanup_reservation [keeps_intros]:
  "keeps sha jid (finish_cleanup_reservation n)"
  unfolding finish_cleanup_reservation_def
  by (intro keeps_intros keeps_remove_off keeps_modify) (simp_all add: chain_def)

lemma keeps_append_read_mirror [keeps_intros]: "keeps sha jid append_read_mirror"
proof -
  have frames: "keeps sha jid (\<lambda>j. case append_frames (n j) first (j_journal_id j) (j_store j) (j_mirror j) of
      (r, files) \<Rightarrow> (r, j\<lparr>j_mirror := files\<rparr>))" for n first
    by (simp add: keeps_def chain_def case_prod_beta)
  show ?thesis
    unfolding append_read_mirror_def
    by (intro keeps_intros keeps_modify frames) (simp_all add: chain_def)
qed

lemma keeps_update_read_mirror [keeps_intros]: "keeps sha jid update_read_mirror_best_effort"
  unfolding update_read_mirror_best_effort_def
  by (intro keeps_intros keeps_modify) (simp_all add: chain_def)

lemma keeps_repair_read_mirror [keeps_intros]: "keeps sha jid (repair_read_mirror sha)"
  unfolding repair_read_mirror_def rebuild_read_mirror_def
  by (intro keeps_intros keeps_modify) (simp_all add: chain_def)

text \<open>Advancing the epoch keeps everything but the epoch.\<close>

lemma chain_advance_epoch:
  assumes "chain sha jid j rs om e"
  shows "\<exists>e'. chain sha jid (snd (advance_epoch expected j)) rs om e'"
proof -
  have "chain sha jid (snd (advance_epoch expected j)) rs om (j_epoch (snd (advance_epoch expected j)))"
    using assms
    by (auto simp: chain_def advance_epoch_def jbind_def jread_def jguard_def jlift_def jput_def
        jmodify_def jreturn_def chain_store_put_off kv_get_put split: sum.split)
  then show ?thesis by blast
qed

section \<open>Commits\<close>

text \<open>Two stores that agree on everything the chain reads.\<close>

definition same_chain :: "kv_store \<Rightarrow> kv_store \<Rightarrow> bool" where
  "same_chain s s' \<longleftrightarrow> (kv_sorted s \<longrightarrow> kv_sorted s')
     \<and> (\<forall>tr \<in> {T_SealedSegments, T_Records, T_Events, T_Segments}. s' tr = s tr)
     \<and> (\<forall>k \<in> {HEAD_SEQUENCE, HEAD_HASH, CURRENT_SEGMENT, JOURNAL_ID}. kv_get T_Meta k s' = kv_get T_Meta k s)"

lemma same_chain_refl [simp]: "same_chain s s"
  by (simp add: same_chain_def)

lemma off_chain_frame:
  assumes "off_chain tr k"
  shows "tr' \<in> {T_SealedSegments, T_Records, T_Events, T_Segments} \<Longrightarrow> kv_put tr k v s tr' = s tr'"
    "tr' \<in> {T_SealedSegments, T_Records, T_Events, T_Segments} \<Longrightarrow> kv_remove tr k s tr' = s tr'"
    "k' \<in> {HEAD_SEQUENCE, HEAD_HASH, CURRENT_SEGMENT, JOURNAL_ID} \<Longrightarrow>
       kv_get T_Meta k' (kv_put tr k v s) = kv_get T_Meta k' s"
    "k' \<in> {HEAD_SEQUENCE, HEAD_HASH, CURRENT_SEGMENT, JOURNAL_ID} \<Longrightarrow>
       kv_get T_Meta k' (kv_remove tr k s) = kv_get T_Meta k' s"
  using assms by (auto simp: off_chain_def kv_put_def kv_remove_def kv_get_def alist_put_lookup
      alist_remove_lookup)

lemma same_chain_put: "same_chain s s' \<Longrightarrow> off_chain tr k \<Longrightarrow> same_chain s (kv_put tr k v s')"
  unfolding same_chain_def by (simp add: off_chain_frame kv_sorted_put)

lemma same_chain_remove: "same_chain s s' \<Longrightarrow> off_chain tr k \<Longrightarrow> same_chain s (kv_remove tr k s')"
  unfolding same_chain_def by (simp add: off_chain_frame kv_sorted_remove)

lemma same_chain_if: "same_chain s a \<Longrightarrow> same_chain s b \<Longrightarrow> same_chain s (if c then a else b)"
  by simp

lemmas same_chain_intros = same_chain_put same_chain_remove same_chain_if same_chain_refl

lemma chain_store_same: "chain_store sha jid s rs \<Longrightarrow> same_chain s s' \<Longrightarrow> chain_store sha jid s' rs"
  by (rule chain_store_cong [of sha jid s rs]) (auto simp: same_chain_def chain_store_sorted)

lemma head_of_chain:
  assumes "chain_store sha jid s rs" "\<forall>x. length (sha x) = 32"
  shows "head_of s = Inr (of_nat (length rs), chain_head sha jid rs)"
  using assms by (simp add: head_of_def chain_store_def parse_u64_def chain_head_def record_hash_def
      hash_record_def)

definition next_in_chain ::
  "(bytes \<Rightarrow> bytes) \<Rightarrow> bytes \<Rightarrow> witness_record list \<Rightarrow> witness_record \<Rightarrow> bool" where
  "next_in_chain sha jid rs r \<longleftrightarrow> wf_record r \<and> wr_sequence r = of_nat (length rs) + 1
     \<and> wr_previous_hash r = chain_head sha jid rs \<and> Suc (length rs) < 2 ^ 64"

lemma commit_one:
  assumes ch: "chain_store sha jid s rs" and nx: "next_in_chain sha jid rs r"
    and enc: "encode_record jid r = Inr bs" and ev: "kv_get T_Events (wr_event_id r) s = None"
    and mid: "same_chain (put_record (wr_sequence r) (wr_event_id r) (rb_bytes bs) s) s2"
  shows "chain_store sha jid (put_head (wr_sequence r) (hash_record sha bs) s2) (rs @ [r])"
proof -
  from encode_record_Inr [OF enc] have vs: "valid_stage r"
    and bs: "bs = \<lparr>rb_journal_id = jid, rb_bytes = record_fields jid r\<rparr>" by auto
  have sorted: "kv_sorted (put_record (wr_sequence r) (wr_event_id r) (rb_bytes bs) s)"
    using chain_store_sorted [OF ch] by (simp add: put_record_def kv_sorted_put)
  show ?thesis
  proof (rule chain_store_commit [OF ch _ vs _ _ ev])
    show "wf_record r" "wr_sequence r = of_nat (Suc (length rs))"
      "wr_previous_hash r = chain_head sha jid rs" "Suc (length rs) < 2 ^ 64"
      using nx by (simp_all add: next_in_chain_def add.commute)
    show "kv_sorted (put_head (wr_sequence r) (hash_record sha bs) s2)"
      using mid sorted by (simp add: same_chain_def put_head_def kv_sorted_put)
  qed (use mid in \<open>simp_all add: same_chain_def put_head_def put_record_def kv_get_put bs record_hash_def\<close>,
      simp_all add: kv_put_def kv_get_def alist_put_lookup)
qed

lemma next_in_chainI:
  assumes "wf_record r" "\<forall>x. length (sha x) = 32" "length rs + 2 < 2 ^ 64"
  shows "next_in_chain sha jid rs
    (r\<lparr>wr_sequence := of_nat (length rs) + 1, wr_previous_hash := chain_head sha jid rs\<rparr>)"
  using assms by (auto simp: next_in_chain_def wf_record_def chain_head_def record_hash_def hash_record_def)

text \<open>A denial commits two records in one transaction.\<close>

lemma commit_two:
  assumes ch: "chain_store sha jid s rs" and nx: "next_in_chain sha jid rs r"
    and enc: "encode_record jid r = Inr bs" and ev: "kv_get T_Events (wr_event_id r) s = None"
    and nx': "next_in_chain sha jid (rs @ [r]) r'" and enc': "encode_record jid r' = Inr bs'"
    and ev': "kv_get T_Events (wr_event_id r') s = None" and ne: "wr_event_id r \<noteq> wr_event_id r'"
    and mid: "same_chain (put_record (wr_sequence r') (wr_event_id r') (rb_bytes bs')
      (put_record (wr_sequence r) (wr_event_id r) (rb_bytes bs) s)) s2"
  shows "chain_store sha jid (put_head (wr_sequence r') (hash_record sha bs') s2) (rs @ [r, r'])"
proof -
  let ?p = "put_record (wr_sequence r) (wr_event_id r) (rb_bytes bs) s"
  let ?s1 = "put_head (wr_sequence r) (hash_record sha bs) ?p"
  let ?s2 = "put_record (wr_sequence r') (wr_event_id r') (rb_bytes bs') ?s1"
  have "chain_store sha jid ?s1 (rs @ [r])" by (rule commit_one [OF ch nx enc ev]) simp
  moreover have "kv_get T_Events (wr_event_id r') ?s1 = None"
    using ev' ne by (simp add: put_head_def put_record_def kv_get_put)
  ultimately have ch2: "chain_store sha jid (put_head (wr_sequence r') (hash_record sha bs') ?s2) ((rs @ [r]) @ [r'])"
    by (rule commit_one [OF _ nx' enc' _ same_chain_refl])
  have "kv_sorted s" using ch by (rule chain_store_sorted)
  with mid have "same_chain (put_head (wr_sequence r') (hash_record sha bs') ?s2)
      (put_head (wr_sequence r') (hash_record sha bs') s2)"
    by (auto simp: same_chain_def put_head_def put_record_def kv_sorted_put kv_get_put)
      (auto simp: kv_put_def kv_get_def alist_put_lookup)
  from chain_store_same [OF ch2 this] show ?thesis by simp
qed

end
