(* ===== verification/Journal_Refinement.thy ===== *)
theory Journal_Refinement
  imports Journal_Chain
begin

text \<open>
  The journal refines an abstract journal.  \<open>abs_step\<close> is the specification: the history of records
  and the state of each operation, and the seven ways in which they change.  \<open>steps\<close> says that an
  operation of the code only ever does abstract steps, whether it succeeds or fails; its
  composition rules reduce each handler to its transaction, collecting on the way what the
  handler's early returns have checked.
\<close>

section \<open>The abstract journal\<close>

text \<open>What the operations do to the pair of history and operation states, without storage, quota,
  segments, faults or encodings.  \<open>appendable\<close> is the common part of every append; \<open>strict\<close> adds the
  client contract that an operation is received under the identity of its request.\<close>

definition appendable ::
  "(bytes \<Rightarrow> bytes) \<Rightarrow> bytes \<Rightarrow> u64 \<Rightarrow> witness_record list \<Rightarrow> witness_record \<Rightarrow> bool" where
  "appendable sha jid e rs r \<longleftrightarrow> wf_record r \<and> valid_stage r \<and> wr_epoch r = e
     \<and> wr_sequence r = of_nat (Suc (length rs)) \<and> wr_previous_hash r = chain_head sha jid rs
     \<and> wr_event_id r \<notin> set (map wr_event_id rs)"

inductive abs_step ::
  "bool \<Rightarrow> (bytes \<Rightarrow> bytes) \<Rightarrow> bytes \<Rightarrow> u64
    \<Rightarrow> witness_record list \<times> op_map \<Rightarrow> witness_record list \<times> op_map \<Rightarrow> bool"
  for strict :: bool and sha :: "bytes \<Rightarrow> bytes" and jid :: bytes and e :: u64
where
  Receive:
    "appendable sha jid e rs r \<Longrightarrow> wr_stage r = St_RequestReceived \<Longrightarrow> om op_id = None
     \<Longrightarrow> strict \<longrightarrow> op_id = wr_request_id r
     \<Longrightarrow> abs_step strict sha jid e (rs, om) (rs @ [r], om(op_id \<mapsto> state_received sha r g))"
| Decide:
    "appendable sha jid e rs r \<Longrightarrow> wr_stage r = St_Decision \<Longrightarrow> wr_decision r = Some True
     \<Longrightarrow> wr_decision_id r = Some did \<Longrightarrow> om op_id = Some st \<Longrightarrow> os_state st = RECEIVED
     \<Longrightarrow> binding_matches sha st r
     \<Longrightarrow> abs_step strict sha jid e (rs, om) (rs @ [r], om(op_id \<mapsto> st\<lparr>os_state := ALLOWED,
           os_pending_generation := os_pending_generation st + 1, os_decision_id := did, os_decision_digest := record_hash sha jid r\<rparr>))"
| Deny:
    "appendable sha jid e rs r \<Longrightarrow> appendable sha jid e (rs @ [r]) r' \<Longrightarrow> wr_stage r = St_Decision
     \<Longrightarrow> wr_decision r = Some False \<Longrightarrow> wr_stage r' = St_Denied \<Longrightarrow> om op_id = Some st
     \<Longrightarrow> os_state st = RECEIVED \<Longrightarrow> binding_matches sha st r \<Longrightarrow> binding_matches sha st r'
     \<Longrightarrow> wr_decision_id r = wr_decision_id r'
     \<Longrightarrow> abs_step strict sha jid e (rs, om) (rs @ [r, r'], om(op_id \<mapsto> st\<lparr>os_state := COMPLETE,
           os_pending_generation := os_pending_generation st + 1\<rparr>))"
| Conclude:
    "appendable sha jid e rs r \<Longrightarrow> wr_stage r = St_Outcome \<Longrightarrow> wr_outcome r \<noteq> Out_OutcomeUnknown
     \<Longrightarrow> om op_id = Some st \<Longrightarrow> os_state st = ALLOWED \<Longrightarrow> terminal_matches sha st r
     \<Longrightarrow> abs_step strict sha jid e (rs, om) (rs @ [r], om(op_id \<mapsto> st\<lparr>os_state := COMPLETE,
           os_unknown_event_id := replicate 16 0, os_pending_generation := os_pending_generation st + 1\<rparr>))"
| Suspend:
    "appendable sha jid e rs r \<Longrightarrow> wr_stage r = St_Outcome \<Longrightarrow> wr_outcome r = Out_OutcomeUnknown
     \<Longrightarrow> om op_id = Some st \<Longrightarrow> os_state st = ALLOWED \<Longrightarrow> terminal_matches sha st r
     \<Longrightarrow> abs_step strict sha jid e (rs, om) (rs @ [r], om(op_id \<mapsto> st\<lparr>os_state := UNKNOWN,
           os_unknown_event_id := wr_event_id r, os_pending_generation := os_pending_generation st + 1\<rparr>))"
| Recover:
    "appendable sha jid e rs r \<Longrightarrow> wr_stage r = St_Recovery \<Longrightarrow> om op_id = Some st
     \<Longrightarrow> os_state st = UNKNOWN \<Longrightarrow> terminal_matches sha st r
     \<Longrightarrow> wr_recovery_link r = Some (os_unknown_event_id st)
     \<Longrightarrow> abs_step strict sha jid e (rs, om) (rs @ [r], om(op_id \<mapsto> st\<lparr>os_state := COMPLETE,
           os_pending_generation := os_pending_generation st + 1\<rparr>))"
| Publish:
    "appendable sha jid e rs r \<Longrightarrow> wr_stage r = St_CheckpointPublished
     \<Longrightarrow> abs_step strict sha jid e (rs, om) (rs @ [r], om)"

abbreviation abs_steps ::
  "bool \<Rightarrow> (bytes \<Rightarrow> bytes) \<Rightarrow> bytes \<Rightarrow> u64
    \<Rightarrow> witness_record list \<times> op_map \<Rightarrow> witness_record list \<times> op_map \<Rightarrow> bool" where
  "abs_steps strict sha jid e \<equiv> (abs_step strict sha jid e)\<^sup>*\<^sup>*"

lemma abs_step_extends: "abs_step strict sha jid e g g' \<Longrightarrow> \<exists>new. fst g' = fst g @ new"
  by (cases rule: abs_step.cases) auto

lemma abs_steps_extends: "abs_steps strict sha jid e g g' \<Longrightarrow> \<exists>new. fst g' = fst g @ new"
  by (induction rule: rtranclp_induct) (auto dest!: abs_step_extends)

section \<open>Operations that refine the abstract journal\<close>

text \<open>\<open>steps strict sha jid n rs om e m\<close>: from history \<open>rs\<close> and operations \<open>om\<close>, what \<open>m\<close> leaves
  behind, whether it succeeds or fails, is reached by abstract steps that append at most \<open>n\<close>
  records.\<close>

definition steps ::
  "bool \<Rightarrow> (bytes \<Rightarrow> bytes) \<Rightarrow> bytes \<Rightarrow> nat \<Rightarrow> witness_record list \<Rightarrow> op_map \<Rightarrow> u64 \<Rightarrow> 'a jm \<Rightarrow> bool" where
  "steps strict sha jid n rs om e m \<longleftrightarrow> (\<forall>j. chain sha jid j rs om e \<longrightarrow>
     (\<exists>rs' om'. chain sha jid (snd (m j)) rs' om' e \<and> abs_steps strict sha jid e (rs, om) (rs', om')
        \<and> length rs' \<le> length rs + n))"

lemma steps_keeps: "keeps sha jid m \<Longrightarrow> steps strict sha jid n rs om e m"
  unfolding steps_def by (meson keepsD le_add1 rtranclp.rtrancl_refl)

lemma steps_mono: "steps strict sha jid a rs om e m \<Longrightarrow> a \<le> b \<Longrightarrow> steps strict sha jid b rs om e m"
  unfolding steps_def by (meson add_left_mono le_trans)

lemma steps_bind:
  assumes "steps strict sha jid a rs om e m"
    and "\<And>x rs' om'. length rs' \<le> length rs + a \<Longrightarrow> steps strict sha jid b rs' om' e (k x)"
    and "a + b \<le> n"
  shows "steps strict sha jid n rs om e (jbind m k)"
  unfolding steps_def
proof (intro allI impI)
  fix j assume "chain sha jid j rs om e"
  with assms(1) obtain rs1 om1 where 1: "chain sha jid (snd (m j)) rs1 om1 e"
    "abs_steps strict sha jid e (rs, om) (rs1, om1)" "length rs1 \<le> length rs + a"
    unfolding steps_def by blast
  obtain r j' where m: "m j = (r, j')" by fastforce
  show "\<exists>rs' om'. chain sha jid (snd (jbind m k j)) rs' om' e
      \<and> abs_steps strict sha jid e (rs, om) (rs', om') \<and> length rs' \<le> length rs + n"
  proof (cases r)
    case (Inl err)
    then show ?thesis using 1 m assms(3) by (intro exI [of _ rs1] exI [of _ om1]) (simp add: jbind_def)
  next
    case (Inr x)
    from assms(2) [OF 1(3), of om1 x] 1(1) m obtain rs2 om2 where
      "chain sha jid (snd (k x j')) rs2 om2 e" "abs_steps strict sha jid e (rs1, om1) (rs2, om2)"
      "length rs2 \<le> length rs1 + b"
      unfolding steps_def by auto
    with Inr 1 m assms(3) show ?thesis
      by (intro exI [of _ rs2] exI [of _ om2]) (simp add: jbind_def)
  qed
qed

lemma steps_keeps_bind:
  assumes "keeps sha jid m" "\<And>x. steps strict sha jid n rs om e (k x)"
  shows "steps strict sha jid n rs om e (jbind m k)"
  unfolding steps_def
proof (intro allI impI)
  fix j assume ch: "chain sha jid j rs om e"
  obtain r j' where m: "m j = (r, j')" by fastforce
  with keepsD [OF assms(1) ch] have "chain sha jid j' rs om e" by simp
  then show "\<exists>rs' om'. chain sha jid (snd (jbind m k j)) rs' om' e
      \<and> abs_steps strict sha jid e (rs, om) (rs', om') \<and> length rs' \<le> length rs + n"
  proof (cases r)
    case (Inl err)
    then show ?thesis using \<open>chain sha jid j' rs om e\<close> m
      by (intro exI [of _ rs] exI [of _ om]) (simp add: jbind_def)
  next
    case (Inr x)
    with assms(2) [of x] \<open>chain sha jid j' rs om e\<close> m show ?thesis
      unfolding steps_def by (simp add: jbind_def)
  qed
qed

lemma steps_bind_keeps:
  assumes "steps strict sha jid n rs om e m" "\<And>x. keeps sha jid (k x)"
  shows "steps strict sha jid n rs om e (jbind m k)"
  using assms by (intro steps_bind [where a = n and b = 0]) (auto intro: steps_keeps)

text \<open>Rules that record what a check has established.\<close>

lemma steps_guard:
  "(\<not> c \<Longrightarrow> steps strict sha jid n rs om e (k ())) \<Longrightarrow> steps strict sha jid n rs om e (jbind (jguard c err) k)"
  by (cases c) (auto simp: steps_def jbind_def jguard_def intro!: exI)

lemma steps_lift:
  "(\<And>x. r = Inr x \<Longrightarrow> steps strict sha jid n rs om e (k x)) \<Longrightarrow> steps strict sha jid n rs om e (jbind (jlift r) k)"
  by (cases r) (auto simp: steps_def jbind_def jlift_def intro!: exI)

lemma steps_read:
  assumes "\<And>j. chain sha jid j rs om e \<Longrightarrow> f j = v" "steps strict sha jid n rs om e (k v)"
  shows "steps strict sha jid n rs om e (jbind (jread f) k)"
  using assms by (auto simp: steps_def jbind_def jread_def)

lemma steps_epoch:
  "steps strict sha jid n rs om e (k e) \<Longrightarrow> steps strict sha jid n rs om e (jbind (jread j_epoch) k)"
  by (rule steps_read) (simp_all add: chain_def)

lemma steps_epoch_stopped:
  "(\<And>b. steps strict sha jid n rs om e (k e b)) \<Longrightarrow>
     steps strict sha jid n rs om e (jbind (jread (\<lambda>j. (j_epoch j, j_automation_stopped j))) (\<lambda>(epoch, b). k epoch b))"
  by (auto simp: steps_def jbind_def jread_def chain_def)

lemma steps_known:
  "steps strict sha jid n rs om e (k (om op_id \<noteq> None)) \<Longrightarrow>
     steps strict sha jid n rs om e (jbind (jread (\<lambda>j. kv_contains T_Operations op_id (j_store j))) k)"
  by (rule steps_read) (auto simp: chain_def ops_of_def encoded_ops_def kv_contains_def fun_eq_iff)

lemma steps_encode:
  assumes "\<And>bs. encode_record jid r = Inr bs \<Longrightarrow> steps strict sha jid n rs om e (k bs)"
  shows "steps strict sha jid n rs om e (jbind (jencode r) k)"
  unfolding jencode_def jbind_assoc
  by (rule steps_read [where v = jid]) (auto simp: chain_def map_err_eq_Inr intro!: steps_lift assms)

lemma steps_load_state:
  assumes "\<And>st. om op_id = Some st \<Longrightarrow> wf_state st \<Longrightarrow> steps strict sha jid n rs om e (k st)"
  shows "steps strict sha jid n rs om e (jbind (load_state op_id) k)"
proof -
  have state: "st \<in> ran om \<Longrightarrow> wf_ops om \<Longrightarrow> wf_state st \<and> state_decode (state_encode st) = Some st" for st
    by (auto simp: wf_ops_def intro: state_decode_encode)
  have "load_state op_id j = (ok_or J_NotPending (om op_id), j)" if "chain sha jid j rs om e" for j
  proof -
    from that have *: "kv_get T_Operations op_id (j_store j) = map_option state_encode (om op_id)" "wf_ops om"
      by (auto simp: chain_def ops_of_def encoded_ops_def fun_eq_iff)
    then show ?thesis
      using state by (cases "om op_id")
        (auto simp: load_state_def jbind_def jget_def jread_def jlift_def ranI)
  qed
  then have "steps strict sha jid n rs om e (jbind (jlift (ok_or J_NotPending (om op_id))) k)
      \<Longrightarrow> steps strict sha jid n rs om e (jbind (load_state op_id) k)"
    by (simp add: steps_def jbind_def jlift_def)
  moreover have "steps strict sha jid n rs om e (jbind (jlift (ok_or J_NotPending (om op_id))) k)"
    if "wf_ops om"
    using assms state that by (intro steps_lift) (auto simp: ok_or_eq_Inr ranI)
  moreover have "steps strict sha jid n rs om e m" if "\<not> wf_ops om" for m :: "'z jm"
    using that by (simp add: steps_def chain_def)
  ultimately show ?thesis by blast
qed

lemma steps_head:
  assumes "\<forall>x. length (sha x) = 32"
    and "steps strict sha jid n rs om e (k (of_nat (length rs)) (chain_head sha jid rs))"
  shows "steps strict sha jid n rs om e (jbind journal_head (\<lambda>(sequence, previous). k sequence previous))"
  using assms(2) head_of_chain [OF _ assms(1)]
  by (auto simp: steps_def jbind_def journal_head_def chain_def)

lemma steps_prod:
  "(\<And>x y. steps strict sha jid n rs om e (k x y)) \<Longrightarrow> steps strict sha jid n rs om e (case v of (x, y) \<Rightarrow> k x y)"
  by (simp split: prod.split)

lemma steps_if:
  "(c \<Longrightarrow> steps strict sha jid n rs om e m) \<Longrightarrow> (\<not> c \<Longrightarrow> steps strict sha jid n rs om e m') \<Longrightarrow>
     steps strict sha jid n rs om e (if c then m else m')"
  by simp

lemma steps_option:
  "steps strict sha jid n rs om e m \<Longrightarrow> (\<And>x. steps strict sha jid n rs om e (k x)) \<Longrightarrow>
     steps strict sha jid n rs om e (case v of None \<Rightarrow> m | Some x \<Rightarrow> k x)"
  by (simp split: option.split)

lemma steps_raise: "steps strict sha jid n rs om e (jraise err)"
  by (intro steps_keeps keeps_intros)

lemma steps_return: "steps strict sha jid n rs om e (jreturn x)"
  by (intro steps_keeps keeps_intros)

lemma steps_stopped: "steps strict sha jid n rs om e stopped"
  by (intro steps_keeps keeps_intros)

section \<open>Transactions\<close>

text \<open>Transactions of one record: \<open>commits P sequence event bytes hash upd pend cb\<close> says that if
  \<open>cb\<close> succeeds, the event was new and what it wrote is that record, that head and the updates of the
  operations table and of the pending set.\<close>

definition writes_record :: "u64 \<Rightarrow> bytes \<Rightarrow> bytes \<Rightarrow> bytes \<Rightarrow> kv_store \<Rightarrow> kv_store \<Rightarrow> bool" where
  "writes_record sequence event bs hash s s' \<longleftrightarrow>
     (\<exists>s2. same_chain (put_head sequence hash s2) s' \<and> same_chain (put_record sequence event bs s) s2)"

definition commits ::
  "(kv_store \<Rightarrow> bool) \<Rightarrow> u64 \<Rightarrow> bytes \<Rightarrow> bytes \<Rightarrow> bytes \<Rightarrow> ((bytes \<Rightarrow> bytes option) \<Rightarrow> bytes \<Rightarrow> bytes option)
    \<Rightarrow> (bytes set \<Rightarrow> bytes set) \<Rightarrow> (kv_store \<Rightarrow> journal_error + kv_store) \<Rightarrow> bool" where
  "commits P sequence event bs hash upd pend cb \<longleftrightarrow>
     (\<forall>s s'. P s \<longrightarrow> cb s = Inr s' \<longrightarrow>
        kv_get T_Events event s = None \<and> writes_record sequence event bs hash s s'
        \<and> ops_of s' = upd (ops_of s) \<and> pending_of s' = pend (pending_of s)
        \<and> kv_get T_Meta EPOCH s' = kv_get T_Meta EPOCH s)"

lemma commits_guard:
  "commits (\<lambda>s. P s \<and> \<not> c s) q ev b h u p cb \<Longrightarrow> commits P q ev b h u p (\<lambda>s. if c s then Inl e else cb s)"
  by (auto simp: commits_def split: if_splits)

lemma commits_Inr:
  "(\<And>s. writes_record q ev b h s (f s)) \<Longrightarrow> (\<And>s. P s \<Longrightarrow> kv_get T_Events ev s = None) \<Longrightarrow>
     (\<And>s. ops_of (f s) = u (ops_of s)) \<Longrightarrow> (\<And>s. pending_of (f s) = p (pending_of s)) \<Longrightarrow>
     (\<And>s. kv_get T_Meta EPOCH (f s) = kv_get T_Meta EPOCH s) \<Longrightarrow>
     commits P q ev b h u p (\<lambda>s. Inr (f s))"
  by (auto simp: commits_def)

lemma writes_put_head: "same_chain (put_record q ev b s) s2 \<Longrightarrow> writes_record q ev b h s (put_head q h s2)"
  unfolding writes_record_def by (rule exI [of _ s2]) simp

lemma writes_put_off:
  assumes "writes_record q ev b h s s'" "off_chain tr k"
  shows "writes_record q ev b h s (kv_put tr k v s')"
proof -
  from assms(1) obtain s2 where "same_chain (put_head q h s2) s'" "same_chain (put_record q ev b s) s2"
    by (auto simp: writes_record_def)
  with same_chain_put [OF _ assms(2)] show ?thesis unfolding writes_record_def by blast
qed

lemmas commits_intros = commits_guard commits_Inr writes_put_head writes_put_off same_chain_intros

lemma epoch_frame [simp]:
  "kv_get T_Meta EPOCH (put_record q ev b s) = kv_get T_Meta EPOCH s"
  "kv_get T_Meta EPOCH (put_head q h s) = kv_get T_Meta EPOCH s"
  by (simp_all add: put_record_def put_head_def kv_get_put)

lemma wf_record_epoch [simp]: "wf_record (r\<lparr>wr_epoch := e\<rparr>) = wf_record r"
  by (simp add: wf_record_def)

lemma wf_record_outcome [simp]: "wf_record (r\<lparr>wr_outcome := x, wr_reason := y\<rparr>) = wf_record r"
  by (simp add: wf_record_def)

lemma encoded_ops_update [simp]: "encoded_ops (om(k \<mapsto> st)) = (encoded_ops om)(k \<mapsto> state_encode st)"
  by (auto simp: encoded_ops_def)

lemma wf_ops_update: "wf_ops om \<Longrightarrow> wf_state st \<Longrightarrow> wf_ops (om(k \<mapsto> st))"
  by (auto simp: wf_ops_def ran_def split: if_splits)

text \<open>The record that an append writes is the next one of the abstract journal.\<close>

lemma appendable_linked:
  "linked sha jid (rs @ [r]) \<Longrightarrow> distinct (map wr_event_id (rs @ [r])) \<Longrightarrow> wr_epoch r = e \<Longrightarrow>
     appendable sha jid e rs r"
  by (auto simp: appendable_def linked_snoc)

lemma appendable_chain:
  "chain_store sha jid s (rs @ [r]) \<Longrightarrow> wr_epoch r = e \<Longrightarrow> appendable sha jid e rs r"
  by (rule appendable_linked) (simp_all add: chain_store_def)

lemma appendable_chain_two:
  assumes "chain_store sha jid s (rs @ [r, r'])" "wr_epoch r = e" "wr_epoch r' = e"
  shows "appendable sha jid e rs r" "appendable sha jid e (rs @ [r]) r'"
proof -
  from assms(1) have "chain_store sha jid s ((rs @ [r]) @ [r'])" by simp
  then show "appendable sha jid e (rs @ [r]) r'" using assms(3) by (rule appendable_chain)
  from assms(1) have "linked sha jid ((rs @ [r]) @ [r'])" "distinct (map wr_event_id (rs @ [r]))"
    by (auto simp: chain_store_def)
  then show "appendable sha jid e rs r"
    using assms(2) unfolding linked_snoc [of _ _ "rs @ [r]"] by (auto intro: appendable_linked)
qed

lemma steps_transaction:
  assumes "\<And>s s'. chain_store sha jid s rs \<Longrightarrow> ops_of s = encoded_ops om \<Longrightarrow> wf_ops om \<Longrightarrow> pending_of s = open_ops om \<Longrightarrow> cb s = Inr s' \<Longrightarrow>
      kv_get T_Meta EPOCH s' = kv_get T_Meta EPOCH s \<and> (\<exists>rs' om'. chain_store sha jid s' rs'
        \<and> ops_of s' = encoded_ops om' \<and> wf_ops om' \<and> pending_of s' = open_ops om' \<and> abs_steps strict sha jid e (rs, om) (rs', om')
        \<and> length rs' \<le> length rs + n)"
  shows "steps strict sha jid n rs om e (jtransaction cb)"
  unfolding steps_def
proof (intro allI impI)
  fix j assume ch: "chain sha jid j rs om e"
  show "\<exists>rs' om'. chain sha jid (snd (jtransaction cb j)) rs' om' e
      \<and> abs_steps strict sha jid e (rs, om) (rs', om') \<and> length rs' \<le> length rs + n"
  proof (cases "cb (j_store j)")
    case (Inl err)
    with ch show ?thesis
      by (intro exI [of _ rs] exI [of _ om]) (simp add: jtransaction_def kv_transaction_def chain_def)
  next
    case (Inr s')
    with assms [of "j_store j" s'] ch show ?thesis
      by (auto simp: jtransaction_def kv_transaction_def chain_def)
  qed
qed

text \<open>The end of every append: the transaction of one encoded record, then operations that keep
  the history.  \<open>stamped sha jid rs r\<close> is the record with its place in the chain.\<close>

abbreviation stamped ::
  "(bytes \<Rightarrow> bytes) \<Rightarrow> bytes \<Rightarrow> witness_record list \<Rightarrow> witness_record \<Rightarrow> witness_record" where
  "stamped sha jid rs r \<equiv>
     r\<lparr>wr_sequence := of_nat (length rs) + 1, wr_previous_hash := chain_head sha jid rs\<rparr>"

lemma commit_chain:
  assumes enc: "encode_record jid (stamped sha jid rs r) = Inr bs"
    and cb: "commits (\<lambda>_. True) q ev (rb_bytes bs) (hash_record sha bs) upd pend cb"
    and sha: "\<forall>x. length (sha x) = 32" and room: "length rs + 2 < 2 ^ 64" and wf: "wf_record r"
    and q: "q = of_nat (length rs) + 1" and ev: "ev = wr_event_id r"
    and upd: "upd (encoded_ops om) = encoded_ops om'" "wf_ops om \<Longrightarrow> wf_ops om'"
      "pend (open_ops om) = open_ops om'"
    and ch: "chain_store sha jid s rs" "ops_of s = encoded_ops om" "wf_ops om" "pending_of s = open_ops om"
    and ok: "cb s = Inr s'"
  shows "chain_store sha jid s' (rs @ [stamped sha jid rs r])"
    and "kv_get T_Meta EPOCH s' = kv_get T_Meta EPOCH s" "ops_of s' = encoded_ops om'" "wf_ops om'"
      "pending_of s' = open_ops om'"
proof -
  let ?r = "stamped sha jid rs r"
  from cb ok obtain s2 where new: "kv_get T_Events (wr_event_id ?r) s = None"
    and s2: "same_chain (put_head (wr_sequence ?r) (hash_record sha bs) s2) s'"
      "same_chain (put_record (wr_sequence ?r) (wr_event_id ?r) (rb_bytes bs) s) s2"
    and ops: "ops_of s' = upd (ops_of s)" "pending_of s' = pend (pending_of s)"
      "kv_get T_Meta EPOCH s' = kv_get T_Meta EPOCH s"
    unfolding commits_def writes_record_def q ev by fastforce
  show "chain_store sha jid s' (rs @ [?r])"
    using commit_one [OF ch(1) next_in_chainI [OF wf sha room] enc new s2(2)] s2(1)
    by (rule chain_store_same)
  show "kv_get T_Meta EPOCH s' = kv_get T_Meta EPOCH s" "ops_of s' = encoded_ops om'" "wf_ops om'"
    "pending_of s' = open_ops om'"
    using ops upd ch by auto
qed

lemma steps_commit:
  fixes k :: "unit \<Rightarrow> 'a jm"
  assumes enc: "encode_record jid (stamped sha jid rs r) = Inr bs"
    and cb: "commits (\<lambda>_. True) q ev (rb_bytes bs) (hash_record sha bs) upd pend cb"
    and sha: "\<forall>x. length (sha x) = 32" and room: "length rs + 2 < 2 ^ 64" and wf: "wf_record r"
    and q: "q = of_nat (length rs) + 1" and ev: "ev = wr_event_id r" and e: "wr_epoch r = e"
    and upd: "upd (encoded_ops om) = encoded_ops om'" "wf_ops om \<Longrightarrow> wf_ops om'"
      "pend (open_ops om) = open_ops om'"
    and step: "\<And>r'. r' = stamped sha jid rs r \<Longrightarrow> hash_record sha bs = record_hash sha jid r' \<Longrightarrow>
        appendable sha jid e rs r' \<Longrightarrow> abs_step strict sha jid e (rs, om) (rs @ [r'], om')"
    and keep: "\<And>x. keeps sha jid (k x)"
  shows "steps strict sha jid 1 rs om e (jbind (jtransaction cb) k)"
proof (rule steps_bind_keeps [OF steps_transaction keep])
  let ?r = "stamped sha jid rs r"
  fix s s' assume ch: "chain_store sha jid s rs" "ops_of s = encoded_ops om" "wf_ops om"
      "pending_of s = open_ops om" and ok: "cb s = Inr s'"
  note new = commit_chain [OF enc cb sha room wf q ev upd ch ok]
  have "abs_step strict sha jid e (rs, om) (rs @ [?r], om')"
    using appendable_chain [OF new(1), of e] e encode_record_Inr [OF enc]
    by (intro step) (auto simp: record_hash_def)
  with new show "kv_get T_Meta EPOCH s' = kv_get T_Meta EPOCH s \<and> (\<exists>rs' om'. chain_store sha jid s' rs'
      \<and> ops_of s' = encoded_ops om' \<and> wf_ops om' \<and> pending_of s' = open_ops om' \<and> abs_steps strict sha jid e (rs, om) (rs', om')
      \<and> length rs' \<le> length rs + 1)"
    by (intro conjI exI [of _ "rs @ [?r]"] exI [of _ om']) auto
qed

lemmas steps_commit_op = steps_commit [where upd = "\<lambda>ops. ops(op_id \<mapsto> state_encode st)"
    and om' = "om(op_id \<mapsto> st)" for op_id st om]

lemma state_codes [simp]:
  "RECEIVED \<noteq> ALLOWED" "RECEIVED \<noteq> UNKNOWN" "RECEIVED \<noteq> COMPLETE" "ALLOWED \<noteq> RECEIVED" "ALLOWED \<noteq> UNKNOWN"
  "ALLOWED \<noteq> COMPLETE" "UNKNOWN \<noteq> RECEIVED" "UNKNOWN \<noteq> ALLOWED" "UNKNOWN \<noteq> COMPLETE"
  "COMPLETE \<noteq> RECEIVED" "COMPLETE \<noteq> ALLOWED" "COMPLETE \<noteq> UNKNOWN"
  by (simp_all add: RECEIVED_def ALLOWED_def UNKNOWN_def COMPLETE_def)

lemma os_state_received [simp]: "os_state (state_received sha r g) = RECEIVED"
  by (simp add: state_received_def)

lemma open_opsI: "om op_id = Some st \<Longrightarrow> os_state st \<noteq> COMPLETE \<Longrightarrow> open_ops om = insert op_id (open_ops om)"
  by (auto simp: open_ops_def)

lemma open_ops_update [simp]:
  "open_ops (om(op_id \<mapsto> st)) = (if os_state st = COMPLETE then open_ops om - {op_id} else insert op_id (open_ops om))"
  by (auto simp: open_ops_def)

section \<open>The operations\<close>

lemma length_chain_head: "\<forall>x. length (sha x) = 32 \<Longrightarrow> length (chain_head sha jid rs) = 32"
  by (simp add: chain_head_def record_hash_def hash_record_def)

lemma wf_record_next:
  "wf_record r \<Longrightarrow> \<forall>x. length (sha x) = 32 \<Longrightarrow>
     wf_record (r\<lparr>wr_sequence := q, wr_previous_hash := chain_head sha jid rs\<rparr>)"
  using length_chain_head [of sha jid rs] by (simp add: wf_record_def)

lemma wf_decision_id: "wf_record r \<Longrightarrow> wr_decision_id r = Some did \<Longrightarrow> length did = 16"
  by (simp add: wf_record_def)

lemma matches_frame [simp]:
  "binding_matches sha st (r\<lparr>wr_sequence := q, wr_previous_hash := h\<rparr>) = binding_matches sha st r"
  "binding_matches sha st (r\<lparr>wr_outcome := x, wr_reason := y\<rparr>) = binding_matches sha st r"
  "terminal_matches sha st (r\<lparr>wr_sequence := q, wr_previous_hash := h\<rparr>) = terminal_matches sha st r"
  "terminal_matches sha st (r\<lparr>wr_outcome := x, wr_reason := y\<rparr>) = terminal_matches sha st r"
  by (simp_all add: terminal_matches_def binding_matches_def request_binding_digest_def binding_input_def)

lemma abs_suspend:
  "appendable sha jid e rs r \<Longrightarrow> wr_stage r = St_Outcome \<Longrightarrow> wr_outcome r = Out_OutcomeUnknown
     \<Longrightarrow> om op_id = Some st \<Longrightarrow> os_state st = ALLOWED \<Longrightarrow> terminal_matches sha st r \<Longrightarrow> ev = wr_event_id r
     \<Longrightarrow> abs_step strict sha jid e (rs, om) (rs @ [r], om(op_id \<mapsto> st\<lparr>os_state := UNKNOWN,
           os_unknown_event_id := ev, os_pending_generation := os_pending_generation st + 1\<rparr>))"
  by (simp add: abs_step.Suspend)

lemma steps_append_received:
  assumes "\<forall>x. length (sha x) = 32" "length rs + 2 < 2 ^ 64" "wf_record r"
    and "strict \<longrightarrow> op_id = wr_request_id r"
  shows "steps strict sha jid 1 rs om e (append_received sha op_id g recipe r)"
  unfolding append_received_def Let_def
  apply ((rule steps_epoch steps_known steps_head [OF assms(1)] steps_encode steps_guard
      | (rule steps_keeps_bind, (intro keeps_intros)[1]))+)
  subgoal for bs
    apply (rule steps_commit_op [where r = "r\<lparr>wr_epoch := e\<rparr>" and ev = "wr_event_id r" and op_id = op_id
        and pend = "insert op_id"
        and st = "state_received sha (r\<lparr>wr_epoch := e, wr_sequence := of_nat (length rs) + 1,
           wr_previous_hash := chain_head sha jid rs\<rparr>) g", OF _ _ assms(1,2) _ refl], assumption)
           apply (simp cong: if_cong split del: if_split)
           apply (intro commits_intros; simp add: kv_get_put)
          apply (simp_all add: assms(3))
      apply (rule wf_ops_update, assumption, rule wf_state_received [OF wf_record_next [OF _ assms(1)] assms(1)])
      apply (simp add: assms(3))
     apply (rule abs_step.Receive, assumption)
       apply (use assms(4) in simp_all)
    apply (intro keeps_intros)
    done
  done

lemma steps_append_decision_record:
  assumes sha: "\<forall>x. length (sha x) = 32" and room: "length rs + 2 < 2 ^ 64" and r: "wf_record r"
    "wr_stage r = St_Decision" "wr_decision r = Some True" "wr_epoch r = e"
    and st: "om op_id = Some st" "wf_state st" "os_state st = RECEIVED" "binding_matches sha st r"
  shows "steps strict sha jid 1 rs om e (append_decision_record sha op_id r st)"
  unfolding append_decision_record_def Let_def
  apply ((rule steps_head [OF sha] steps_encode steps_lift
      | (rule steps_keeps_bind, (intro keeps_intros)[1]))+)
  subgoal for bs _ did
    apply (rule steps_commit_op [where r = r and ev = "wr_event_id r" and op_id = op_id
        and pend = "\<lambda>P. P"
        and st = "st\<lparr>os_state := ALLOWED, os_pending_generation := os_pending_generation st + 1,
           os_decision_id := did, os_decision_digest := hash_record sha bs\<rparr>", OF _ _ sha room r(1) refl], assumption)
         apply (simp cong: if_cong split del: if_split)
         apply (intro commits_intros; simp add: kv_get_put)
        apply (simp_all add: r)
      apply (erule wf_ops_update)
       apply (use st(2) wf_decision_id [OF r(1)] in \<open>simp add: wf_state_def ok_or_eq_Inr hash_record_def sha\<close>)
      apply (rule open_opsI [where st = st]; simp add: st)
     apply (rule abs_step.Decide, assumption)
          apply (use r st in \<open>simp_all add: ok_or_eq_Inr\<close>)
    apply (intro keeps_intros)
    done
  done

lemma steps_append_decision:
  assumes "\<forall>x. length (sha x) = 32" "length rs + 2 < 2 ^ 64" "wf_record r"
  shows "steps strict sha jid 1 rs om e (append_decision sha op_id r)"
  unfolding append_decision_def Let_def
  apply ((rule steps_epoch steps_load_state steps_prod steps_guard steps_lift
      | (rule steps_keeps_bind, (intro keeps_intros)[1]))+)
  apply (rule steps_bind_keeps [OF steps_append_decision_record [OF assms(1,2)]])
           apply (simp_all add: assms(3))
  apply (intro keeps_intros)
  done

lemma steps_complete:
  assumes "\<forall>x. length (sha x) = 32" "length rs + 2 < 2 ^ 64" "wf_record r"
  shows "steps strict sha jid 1 rs om e (complete sha intent r)"
  unfolding complete_def Let_def
  apply ((rule steps_epoch steps_load_state steps_head [OF assms(1)] steps_encode steps_guard
      | (rule steps_keeps_bind, (intro keeps_intros)[1]))+)
  subgoal for _ journal_id st forced bs
    apply (rule steps_commit_op [where r = "if forced then r\<lparr>wr_epoch := e, wr_outcome := Out_OutcomeUnknown,
          wr_reason := Some Rsn_ExecutionFailed\<rparr> else r\<lparr>wr_epoch := e\<rparr>"
        and ev = "wr_event_id r" and op_id = "di_operation_id intent"
        and pend = "\<lambda>P. if forced \<or> wr_outcome r = Out_OutcomeUnknown then P else P - {di_operation_id intent}"
        and st = "if forced \<or> wr_outcome r = Out_OutcomeUnknown
          then st\<lparr>os_state := UNKNOWN, os_unknown_event_id := wr_event_id r,
                 os_pending_generation := os_pending_generation st + 1\<rparr>
          else st\<lparr>os_state := COMPLETE, os_unknown_event_id := replicate 16 0,
                 os_pending_generation := os_pending_generation st + 1\<rparr>", OF _ _ assms(1,2) _ refl], assumption)
           apply (cases forced; cases "wr_outcome r = Out_OutcomeUnknown";
              simp cong: if_cong split del: if_split;
              intro commits_intros; simp add: kv_get_put kv_get_remove)
          apply (use assms(3) in \<open>cases forced; simp add: wf_record_def\<close>)
         apply (cases forced; simp)
        apply (cases forced; simp)
       apply simp
       apply (erule wf_ops_update)
       apply (use assms(3) in \<open>simp add: wf_state_def wf_record_def\<close>)
      apply (simp only: open_ops_update split: if_split)
      apply ((use open_opsI [of om "di_operation_id intent" st] in auto)[1])
     apply (cases forced; cases "wr_outcome r = Out_OutcomeUnknown"; simp only: if_True if_False simp_thms)
        apply ((rule abs_suspend abs_step.Conclude; simp)+)
    apply (intro keeps_intros)
    done
  done

lemma steps_record_outcome_unknown:
  assumes "\<forall>x. length (sha x) = 32" "length rs + 2 < 2 ^ 64" "wf_record r"
  shows "steps strict sha jid 1 rs om e (record_outcome_unknown sha op_id r)"
  unfolding record_outcome_unknown_def Let_def
  apply ((rule steps_epoch steps_load_state steps_head [OF assms(1)] steps_encode steps_guard steps_if steps_raise
      | (rule steps_keeps_bind, (intro keeps_intros)[1]))+)
  subgoal for _ st bs
    apply (rule steps_commit_op [where r = "r\<lparr>wr_epoch := e\<rparr>" and ev = "wr_event_id r" and op_id = op_id
        and pend = "\<lambda>P. P"
        and st = "st\<lparr>os_state := UNKNOWN, os_unknown_event_id := wr_event_id r,
           os_pending_generation := os_pending_generation st + 1\<rparr>", OF _ _ assms(1,2) _ refl], assumption)
           apply (simp cong: if_cong split del: if_split)
           apply (intro commits_intros; simp add: kv_get_put)
          apply (simp_all add: assms(3))
      apply (erule wf_ops_update)
      apply (use assms(3) in \<open>simp add: wf_state_def wf_record_def\<close>)
      apply (rule open_opsI [where st = st]; simp)
     apply (rule abs_suspend; simp)
    apply (intro keeps_intros)
    done
  done

lemma steps_complete_recovery:
  assumes "\<forall>x. length (sha x) = 32" "length rs + 2 < 2 ^ 64" "wf_record r"
  shows "steps strict sha jid 1 rs om e (complete_recovery sha op_id r)"
  unfolding complete_recovery_def Let_def
  apply ((rule steps_epoch_stopped steps_load_state steps_prod steps_head [OF assms(1)] steps_encode steps_guard steps_if steps_stopped
      | (rule steps_keeps_bind, (intro keeps_intros)[1]))+)
  subgoal for stopped st bs _ reserve_after fault
    apply (rule steps_commit_op [where r = "r\<lparr>wr_epoch := e\<rparr>" and ev = "wr_event_id r" and op_id = op_id
        and pend = "\<lambda>P. P - {op_id}"
        and st = "st\<lparr>os_state := COMPLETE, os_pending_generation := os_pending_generation st + 1\<rparr>",
        OF _ _ assms(1,2) _ refl], assumption)
           apply (simp cong: if_cong split del: if_split)
           apply (intro commits_intros; simp add: kv_get_put kv_get_remove)
          apply (simp_all add: assms(3))
      apply (erule wf_ops_update)
      apply (simp add: wf_state_def)
     apply (rule abs_step.Recover; simp)
    apply (intro keeps_intros)
    done
  done

lemma steps_deny:
  assumes sha: "\<forall>x. length (sha x) = 32" and room: "length rs + 2 < 2 ^ 64"
    and wf: "wf_record r0" "wf_record d0"
  shows "steps strict sha jid 2 rs om e (deny sha op_id r0 d0)"
proof -
  let ?r = "r0\<lparr>wr_epoch := e, wr_sequence := of_nat (length rs) + 1,
      wr_previous_hash := chain_head sha jid rs\<rparr>"
  let ?d = "\<lambda>bs. d0\<lparr>wr_epoch := e, wr_sequence := of_nat (length rs) + 2,
      wr_previous_hash := hash_record sha bs\<rparr>"
  have nx: "next_in_chain sha jid rs ?r"
    using next_in_chainI [OF _ sha room, of "r0\<lparr>wr_epoch := e\<rparr>"] wf by simp
  have nx': "next_in_chain sha jid (rs @ [?r]) (?d bs)" if "encode_record jid ?r = Inr bs" for bs
    using encode_record_Inr [OF that] sha room wf
    by (auto simp: next_in_chain_def wf_record_def chain_head_def record_hash_def hash_record_def)
  have tx: "steps strict sha jid 2 rs om e (jtransaction (\<lambda>s.
       if \<not> head_matches (of_nat (length rs)) s then Inl J_Corrupt
       else if kv_get T_Events (wr_event_id ?r) s \<noteq> None
               \<or> kv_get T_Events (wr_event_id (?d bs)) s \<noteq> None
               \<or> wr_event_id ?r = wr_event_id (?d bs) then Inl J_DuplicateEvent
       else Inr (put_head (wr_sequence (?d bs)) (hash_record sha bs')
         (kv_remove T_Pending op_id (kv_put T_Operations op_id (state_encode st')
           (put_record (wr_sequence (?d bs)) (wr_event_id (?d bs)) (rb_bytes bs')
             (put_record (wr_sequence ?r) (wr_event_id ?r) (rb_bytes bs) s)))))))"
    if enc: "encode_record jid ?r = Inr bs" "encode_record jid (?d bs) = Inr bs'"
      and st: "om op_id = Some st" "wf_state st" "os_state st = RECEIVED"
        "binding_matches sha st (r0\<lparr>wr_epoch := e\<rparr>)" "binding_matches sha st (d0\<lparr>wr_epoch := e\<rparr>)"
        "wr_decision_id r0 = wr_decision_id d0"
      and stage: "wr_stage r0 = St_Decision" "wr_decision r0 = Some False" "wr_stage d0 = St_Denied"
      and st': "st' = st\<lparr>os_state := COMPLETE, os_pending_generation := os_pending_generation st + 1\<rparr>"
    for bs bs' st st'
  proof (rule steps_transaction)
    fix s s' assume ch: "chain_store sha jid s rs" "ops_of s = encoded_ops om" "wf_ops om"
        "pending_of s = open_ops om"
      and ok: "(if \<not> head_matches (of_nat (length rs)) s then Inl J_Corrupt
       else if kv_get T_Events (wr_event_id ?r) s \<noteq> None
               \<or> kv_get T_Events (wr_event_id (?d bs)) s \<noteq> None
               \<or> wr_event_id ?r = wr_event_id (?d bs) then Inl J_DuplicateEvent
       else Inr (put_head (wr_sequence (?d bs)) (hash_record sha bs')
         (kv_remove T_Pending op_id (kv_put T_Operations op_id (state_encode st')
           (put_record (wr_sequence (?d bs)) (wr_event_id (?d bs)) (rb_bytes bs')
             (put_record (wr_sequence ?r) (wr_event_id ?r) (rb_bytes bs) s)))))) = Inr s'"
    let ?p = "put_record (wr_sequence (?d bs)) (wr_event_id (?d bs)) (rb_bytes bs')
        (put_record (wr_sequence ?r) (wr_event_id ?r) (rb_bytes bs) s)"
    from ok have new: "kv_get T_Events (wr_event_id ?r) s = None" "kv_get T_Events (wr_event_id (?d bs)) s = None"
      "wr_event_id ?r \<noteq> wr_event_id (?d bs)"
      and s': "s' = put_head (wr_sequence (?d bs)) (hash_record sha bs')
         (kv_remove T_Pending op_id (kv_put T_Operations op_id (state_encode st') ?p))"
      by (auto split: if_splits)
    have chr: "chain_store sha jid s' (rs @ [?r, ?d bs])"
      unfolding s' by (rule commit_two [OF ch(1) nx enc(1) new(1) nx' [OF enc(1)] enc(2) new(2,3)])
        (simp add: same_chain_intros)
    have "abs_step strict sha jid e (rs, om) (rs @ [?r, ?d bs], om(op_id \<mapsto> st'))"
      unfolding st' using appendable_chain_two [OF chr] st stage by (intro abs_step.Deny) simp_all
    with chr show "kv_get T_Meta EPOCH s' = kv_get T_Meta EPOCH s \<and> (\<exists>rs' om'. chain_store sha jid s' rs'
        \<and> ops_of s' = encoded_ops om' \<and> wf_ops om' \<and> pending_of s' = open_ops om' \<and> abs_steps strict sha jid e (rs, om) (rs', om')
        \<and> length rs' \<le> length rs + 2)"
      using ch(2,4) wf_ops_update [OF ch(3), of st'] st(2)
      by (intro conjI exI [of _ "rs @ [?r, ?d bs]"] exI [of _ "om(op_id \<mapsto> st')"])
        (auto simp: s' st' wf_state_def kv_get_put kv_get_remove)
  qed
  show ?thesis
    unfolding deny_def Let_def
    apply ((rule steps_epoch steps_load_state steps_head [OF sha] steps_encode steps_guard
        | (rule steps_keeps_bind, (intro keeps_intros)[1]))+)
    apply (rule steps_bind_keeps)
     apply (rule tx, assumption+)
            apply simp_all
    apply (intro keeps_intros)
    done
qed

lemma ok_checked_add_1: "ok_or e (checked_add a 1) = Inr x \<Longrightarrow> x = a + 1"
  by (auto simp: ok_or_eq_Inr checked_add_def split: if_splits)

lemma steps_append_checkpoint_publication:
  assumes "\<forall>x. length (sha x) = 32" "length rs + 2 < 2 ^ 64" "wf_record r" "length digest = 32"
  shows "steps strict sha jid 1 rs om e (append_checkpoint_publication sha digest r)"
  unfolding append_checkpoint_publication_def Let_def
  apply ((rule steps_epoch steps_guard steps_head [OF assms(1)] steps_encode steps_lift steps_option steps_if steps_raise steps_return
      | (rule steps_keeps_bind, (intro keeps_intros)[1]))+)
   apply (drule ok_checked_add_1, hypsubst)
   apply (rule steps_commit [where r = "r\<lparr>wr_result_digest := Some digest\<rparr>" and ev = "wr_event_id r"
        and upd = "\<lambda>ops. ops" and pend = "\<lambda>P. P" and om' = om, OF _ _ assms(1,2) _ refl], assumption)
          apply (simp cong: if_cong split del: if_split)
          apply (intro commits_intros; simp)
         apply (use assms(3,4) in \<open>simp add: wf_record_def\<close>)
        apply simp_all
   apply (rule abs_step.Publish; simp)
  apply (intro keeps_intros)
  apply (rule steps_keeps, intro keeps_intros)
  done

lemma record_from_state_wf:
  assumes "record_from_state st stage ev = Inr r" "wf_state st" "length ev = 16"
  shows "wf_record r"
  using assms by (auto simp: record_from_state_def rbind_simps wf_record_def wf_state_def)

lemma wf_record_recovery:
  assumes "wf_record r" "length digest = 32" "length link = 16"
  shows "wf_record (r\<lparr>wr_result_digest := Some digest, wr_recovery_link := Some link,
      wr_reason := a, wr_outcome := b\<rparr>)"
  using assms by (simp add: wf_record_def)

lemma wf_record_unknown:
  "wf_record r \<Longrightarrow> length digest = 32 \<Longrightarrow>
     wf_record (r\<lparr>wr_result_digest := Some digest, wr_reason := a, wr_outcome := b\<rparr>)"
  by (simp add: wf_record_def)

lemma length_reconciliation_event_id:
  "\<forall>x. length (sha x) = 32 \<Longrightarrow> length (reconciliation_event_id sha a b c) = 16"
  by (simp add: reconciliation_event_id_def)

lemma steps_reconcile_observed:
  assumes sha: "\<forall>x. length (sha x) = 32" and room: "length rs + 4 < 2 ^ 64"
    and "length (re_observation_digest evidence) = 32"
  shows "steps strict sha jid 2 rs om e (reconcile_observed sha evidence)"
proof -
  let ?digest = "re_observation_digest evidence"
  have recovery: "steps strict sha jid 1 rs' om' e (complete_recovery sha op_id
      (r\<lparr>wr_result_digest := Some ?digest, wr_recovery_link := Some link, wr_reason := a, wr_outcome := b\<rparr>))"
    if "length rs' \<le> length rs + 1" "record_from_state st stage ev = Inr r" "wf_state st" "length ev = 16"
      "length link = 16" for rs' om' op_id r a b link st stage ev
    using that room assms(3) record_from_state_wf [OF that(2-4)]
    by (intro steps_complete_recovery [OF sha] wf_record_recovery) auto
  have unknown: "steps strict sha jid 1 rs om e (record_outcome_unknown sha op_id
      (r\<lparr>wr_result_digest := Some ?digest, wr_reason := a, wr_outcome := b\<rparr>))"
    if "record_from_state st stage ev = Inr r" "wf_state st" "length ev = 16" for r op_id a b st stage ev
    using room assms(3) record_from_state_wf [OF that]
    by (intro steps_record_outcome_unknown [OF sha]) (auto simp: wf_record_unknown)
  note ids = length_reconciliation_event_id [OF sha]
  show ?thesis
    unfolding reconcile_observed_def Let_def jbind_if jbind_assoc jbind_return jbind_raise
    apply ((rule steps_load_state steps_prod steps_guard steps_lift steps_if steps_raise
        | (rule steps_keeps_bind, (intro keeps_intros)[1]))+)
     apply (rule steps_bind [where a = 1 and b = 1])
       apply (rule unknown, assumption+, rule ids)
      apply (rule steps_lift, rule recovery, assumption+, rule ids, rule ids)
     apply simp
    apply (rule steps_mono [where a = 1])
     apply (intro steps_if steps_raise)
     apply (rule steps_lift, rule recovery, simp, assumption+, rule ids)
     apply (simp_all add: wf_state_def)
    done
qed

end
