(* ===== verification/Journal_History.thy ===== *)
theory Journal_History
  imports Journal_Refinement
begin

text \<open>
  What the journal shows of its history.  The lemmas turn the chain invariant into statements
  about the journal's own interface: \<open>records()\<close> returns the encoded history, across any number of
  sealed segments, and any sequence of operations, with any injected faults and reopenings, only
  ever appends to it.
\<close>

section \<open>Reading the history back\<close>

lemma length_record_fields_pos: "0 < length (record_fields jid r)"
  by (simp add: record_fields_def)

lemma unat_u32_length: "n < 2 ^ 32 \<Longrightarrow> unat (of_nat n :: u32) = n"
  by (simp add: unat_of_nat)

lemma parse_segment_loop_blob:
  assumes "\<forall>r \<in> set rs. wf_record r" "length jid = 16" "length rs \<le> fuel"
  shows "parse_segment_loop fuel (segment_blob (entries_of jid rs)) = Inr (map (record_fields jid) rs)"
  using assms
proof (induction rs arbitrary: fuel)
  case Nil
  then show ?case by (cases fuel) (simp_all add: segment_blob_def entries_of_def)
next
  case (Cons r rs)
  then obtain f where f: "fuel = Suc f" "length rs \<le> f" by (cases fuel) auto
  let ?b = "record_fields jid r"
  have len: "length ?b \<le> 512" using Cons.prems by (simp add: length_record_fields)
  have blob: "segment_blob (entries_of jid (r # rs)) =
      u64_to_be (wr_sequence r) @ u32_to_be (of_nat (length ?b)) @ ?b @ segment_blob (entries_of jid rs)"
    by (simp add: segment_blob_def entries_of_def)
  have "unat (of_nat (length ?b) :: u32) = length ?b" using len by (intro unat_u32_length) simp
  moreover have "?b \<noteq> []" using length_record_fields_pos [of jid r] by auto
  ultimately show ?case
    using Cons.IH [OF _ Cons.prems(2) f(2)] Cons.prems(1)
    unfolding f(1) blob by (simp add: subslice_append Let_def)
qed

lemma length_segment_blob: "length rs \<le> length (segment_blob (entries_of jid rs))"
  by (induction rs) (auto simp: segment_blob_def entries_of_def)

lemma parse_segment_blob:
  "\<forall>r \<in> set rs. wf_record r \<Longrightarrow> length jid = 16 \<Longrightarrow>
     parse_segment (segment_blob (entries_of jid rs)) = Inr (map (record_fields jid) rs)"
  unfolding parse_segment_def by (intro parse_segment_loop_blob length_segment_blob)

lemma parse_segments_entries:
  assumes "\<forall>seg \<in> set segs. \<forall>r \<in> set seg. wf_record r" "length jid = 16"
  shows "parse_segments (map (\<lambda>i. (u64_to_be (of_nat (k + i)), segment_blob (entries_of jid (segs ! i))))
      [0..<length segs]) = Inr (map (record_fields jid) (concat segs))"
  using assms
proof (induction segs arbitrary: k)
  case (Cons seg segs)
  have "map (\<lambda>i. (u64_to_be (of_nat (k + i)), segment_blob (entries_of jid ((seg # segs) ! i))))
      [0..<length (seg # segs)] =
    (u64_to_be (of_nat k), segment_blob (entries_of jid seg))
      # map (\<lambda>i. (u64_to_be (of_nat (Suc k + i)), segment_blob (entries_of jid (segs ! i)))) [0..<length segs]"
    by (simp add: map_upt_Suc del: upt_Suc of_nat_add of_nat_Suc)
  with Cons.IH [of "Suc k"] Cons.prems show ?case by (simp add: parse_segment_blob del: upt_Suc)
qed simp

lemma linked_wf: "linked sha jid rs \<Longrightarrow> r \<in> set rs \<Longrightarrow> wf_record r"
  by (metis in_set_conv_nth linked_nth(1))

lemma journal_records_chain:
  assumes "chain_store sha jid s rs" "length jid = 16"
  shows "journal_records s = Inr (map (record_fields jid) rs)"
proof -
  from assms(1) obtain segs act where segs: "rs = concat segs @ act"
    "kv_scan T_SealedSegments s = sealed_entries jid segs" "kv_scan T_Records s = entries_of jid act"
    and l: "linked sha jid rs"
    by (auto simp: chain_store_def)
  have "\<forall>seg \<in> set segs. \<forall>r \<in> set seg. wf_record r" using linked_wf [OF l] segs(1) by auto
  from parse_segments_entries [OF this assms(2), of 0] segs show ?thesis
    by (simp add: journal_records_def sealed_entries_def entries_of_def comp_def)
qed

lemma chain_records:
  "chain sha jid j rs om e \<Longrightarrow> length jid = 16 \<Longrightarrow> journal_records (j_store j) = Inr (map (record_fields jid) rs)"
  using journal_records_chain [of sha jid "j_store j" rs] by (simp add: chain_def)

section \<open>Sequences of operations\<close>

datatype journal_op =
    Op_Received bytes u64 recovery_recipe witness_record
  | Op_Decision bytes witness_record
  | Op_Deny bytes witness_record witness_record
  | Op_Complete durable_intent witness_record
  | Op_Unknown bytes witness_record
  | Op_Recovery bytes witness_record
  | Op_Reconcile recovery_evidence
  | Op_Checkpoint bytes witness_record
  | Op_AdvanceEpoch u64
  | Op_Maintain
  | Op_Fault fault_point
  | Op_Reopen "fault_point set"

text \<open>The lengths that the Rust types of the arguments fix.\<close>

fun wf_op :: "journal_op \<Rightarrow> bool" where
  "wf_op (Op_Received op_id _ _ r) \<longleftrightarrow> length op_id = 16 \<and> wf_record r"
| "wf_op (Op_Decision op_id r) \<longleftrightarrow> length op_id = 16 \<and> wf_record r"
| "wf_op (Op_Deny op_id r r') \<longleftrightarrow> length op_id = 16 \<and> wf_record r \<and> wf_record r'"
| "wf_op (Op_Complete intent r) \<longleftrightarrow> wf_record r"
| "wf_op (Op_Unknown op_id r) \<longleftrightarrow> length op_id = 16 \<and> wf_record r"
| "wf_op (Op_Recovery op_id r) \<longleftrightarrow> length op_id = 16 \<and> wf_record r"
| "wf_op (Op_Reconcile evidence) \<longleftrightarrow> length (re_observation_digest evidence) = 32"
| "wf_op (Op_Checkpoint digest r) \<longleftrightarrow> length digest = 32 \<and> wf_record r"
| "wf_op _ \<longleftrightarrow> True"

text \<open>Closing the journal and opening it again with the same configuration; when opening fails
  there is no new coordinator, and the old one stands for the unchanged disk.\<close>

definition config_of :: "journal \<Rightarrow> journal_config" where
  "config_of j = \<lparr>jc_journal_id = j_journal_id j, jc_mode = j_mode j,
     jc_cleanup_reserve_bytes = j_reserve_total j, jc_max_journal_bytes = j_max_bytes j,
     jc_segment_bytes = j_segment_bytes j\<rparr>"

definition closed_disk :: "journal \<Rightarrow> disk" where
  "closed_disk j = \<lparr>dk_lock_id = j_journal_id j, dk_legacy = False, dk_ready = None,
     dk_store = Some (j_store j), dk_reserve_len = j_reserve_len j,
     dk_stop_marker = j_stop_marker j, dk_stop_tmp = j_stop_tmp j, dk_mirror = j_mirror j\<rparr>"

definition reopen :: "(bytes \<Rightarrow> bytes) \<Rightarrow> fault_point set \<Rightarrow> journal \<Rightarrow> journal" where
  "reopen sha faults j =
     (case open_with_faults sha (config_of j) faults (closed_disk j) of
        (Inr j', _) \<Rightarrow> j'
      | (Inl _, _) \<Rightarrow> j)"

fun run_op :: "(bytes \<Rightarrow> bytes) \<Rightarrow> journal_op \<Rightarrow> journal \<Rightarrow> journal" where
  "run_op sha (Op_Received op_id g recipe r) j = snd (append_received sha op_id g recipe r j)"
| "run_op sha (Op_Decision op_id r) j = snd (append_decision sha op_id r j)"
| "run_op sha (Op_Deny op_id r r') j = snd (deny sha op_id r r' j)"
| "run_op sha (Op_Complete intent r) j = snd (complete sha intent r j)"
| "run_op sha (Op_Unknown op_id r) j = snd (record_outcome_unknown sha op_id r j)"
| "run_op sha (Op_Recovery op_id r) j = snd (complete_recovery sha op_id r j)"
| "run_op sha (Op_Reconcile evidence) j = snd (reconcile_observed sha evidence j)"
| "run_op sha (Op_Checkpoint digest r) j = snd (append_checkpoint_publication sha digest r j)"
| "run_op sha (Op_AdvanceEpoch e) j = snd (advance_epoch e j)"
| "run_op sha Op_Maintain j = snd (seal_active_segment True j)"
| "run_op sha (Op_Fault p) j = j\<lparr>j_faults := insert p (j_faults j)\<rparr>"
| "run_op sha (Op_Reopen faults) j = reopen sha faults j"

fun run_ops :: "(bytes \<Rightarrow> bytes) \<Rightarrow> journal_op list \<Rightarrow> journal \<Rightarrow> journal" where
  "run_ops sha [] j = j"
| "run_ops sha (op # ops) j = run_ops sha ops (run_op sha op j)"

lemma run_ops_append: "run_ops sha (xs @ ys) j = run_ops sha ys (run_ops sha xs j)"
  by (induction xs arbitrary: j) simp_all

text \<open>Opening an existing store restores the epoch from it.  \<open>establishes P Q m\<close> is the triple that
  leads there: from a state in \<open>P\<close>, a successful \<open>m\<close> ends in \<open>Q\<close>.\<close>

definition establishes :: "(journal \<Rightarrow> bool) \<Rightarrow> (journal \<Rightarrow> bool) \<Rightarrow> 'a jm \<Rightarrow> bool" where
  "establishes P Q m \<longleftrightarrow> (\<forall>j x j'. P j \<longrightarrow> m j = (Inr x, j') \<longrightarrow> Q j')"

lemma establishes_state:
  "(\<And>j0. P j0 \<Longrightarrow> establishes (\<lambda>j. j = j0) Q (k j0)) \<Longrightarrow> establishes P Q (jbind (jread (\<lambda>j. j)) k)"
  by (auto simp: establishes_def jbind_def jread_def)

lemma establishes_guard:
  "(\<not> c \<Longrightarrow> establishes P Q (k ())) \<Longrightarrow> establishes P Q (jbind (jguard c err) k)"
  by (cases c) (auto simp: establishes_def jbind_def jguard_def)

lemma establishes_lift:
  "(\<And>x. r = Inr x \<Longrightarrow> establishes P Q (k x)) \<Longrightarrow> establishes P Q (jbind (jlift r) k)"
  by (cases r) (auto simp: establishes_def jbind_def jlift_def)

lemma establishes_modify:
  "(\<And>j. P j \<Longrightarrow> P' (f j)) \<Longrightarrow> establishes P' Q (k ()) \<Longrightarrow> establishes P Q (jbind (jmodify f) k)"
  by (auto simp: establishes_def jbind_def jmodify_def)

lemma establishes_keeps:
  "keeps sha jid m \<Longrightarrow> establishes (\<lambda>j. chain sha jid j rs om e) (\<lambda>j. chain sha jid j rs om e) m"
  unfolding establishes_def keeps_def by (metis snd_conv)

lemma initialize_existing_chain:
  "establishes (\<lambda>j. chain sha jid (j\<lparr>j_epoch := e\<rparr>) rs om e) (\<lambda>j. chain sha jid j rs om e)
     (initialize_existing sha stored)"
  unfolding initialize_existing_def Let_def
  apply (rule establishes_state)
  apply ((rule establishes_guard establishes_lift)+)
  apply (rule establishes_modify [where P' = "\<lambda>j. chain sha jid j rs om e"])
   apply (simp add: chain_def parse_u64_def rbind_simps)
  apply (rule establishes_keeps)
  apply (intro keeps_intros keeps_modify)
  apply (simp add: chain_def)
  done

definition reopened :: "fault_point set \<Rightarrow> journal \<Rightarrow> journal" where
  "reopened faults j = j\<lparr>j_epoch := 1, j_faults := faults, j_automation_stopped := False, j_mirror_sequence := 0\<rparr>"

lemma reopen_initialize:
  "reopen sha faults j = (case initialize sha (j_reserve_total j) (reopened faults j) of
      (Inr _, j') \<Rightarrow> j' | (Inl _, _) \<Rightarrow> j)"
  by (cases j) (auto simp: reopen_def open_with_faults_def config_of_def closed_disk_def reopened_def Let_def
      split: prod.split sum.split)

lemma chain_reopen:
  assumes "chain sha jid j rs om e"
  shows "chain sha jid (reopen sha faults j) rs om e"
proof -
  let ?j0 = "reopened faults j"
  have j0: "chain sha jid (?j0\<lparr>j_epoch := e\<rparr>) rs om e" using assms by (simp add: chain_def reopened_def)
  have "chain sha jid j' rs om e" if "initialize sha (j_reserve_total j) ?j0 = (Inr u, j')" for u j'
  proof -
    have "kv_get T_Meta JOURNAL_ID (j_store ?j0) = Some jid"
      using j0 by (simp add: chain_def chain_store_def)
    with that have "initialize_existing sha jid ?j0 = (Inr u, j')"
      by (auto simp: initialize_def jbind_def jread_def jget_def jmodify_def jraise_def split: if_splits)
    with initialize_existing_chain [of sha jid e rs om jid] j0 show ?thesis
      unfolding establishes_def by blast
  qed
  then show ?thesis using assms by (auto simp: reopen_initialize split: prod.split sum.split)
qed

section \<open>A fresh journal\<close>

definition fresh_disk :: disk where
  "fresh_disk = \<lparr>dk_lock_id = [], dk_legacy = False, dk_ready = None, dk_store = None,
     dk_reserve_len = None, dk_stop_marker = False, dk_stop_tmp = False,
     dk_mirror = \<lparr>mf_active = None, mf_segments = [], mf_stale = False\<rparr>\<rparr>"

definition fresh_journal :: "journal_config \<Rightarrow> fault_point set \<Rightarrow> journal" where
  "fresh_journal config faults =
     \<lparr>j_store = (\<lambda>_. []), j_reserve_len = None, j_stop_marker = False, j_stop_tmp = False,
      j_mirror = \<lparr>mf_active = None, mf_segments = [], mf_stale = False\<rparr>,
      j_journal_id = jc_journal_id config, j_epoch = 1, j_max_bytes = jc_max_journal_bytes config,
      j_reserve_total = jc_cleanup_reserve_bytes config, j_segment_bytes = jc_segment_bytes config,
      j_mode = jc_mode config, j_faults = faults, j_automation_stopped = False,
      j_mirror_sequence = 0\<rparr>"

lemma open_fresh:
  "open_with_faults sha config faults fresh_disk =
     (case initialize_fresh sha (jc_cleanup_reserve_bytes config) (fresh_journal config faults) of
        (Inl e, j) \<Rightarrow> (Inl e, disk_of (fresh_disk\<lparr>dk_lock_id := jc_journal_id config\<rparr>) j)
      | (Inr _, j) \<Rightarrow> (Inr j, disk_of (fresh_disk\<lparr>dk_lock_id := jc_journal_id config\<rparr>) j))"
  by (simp add: open_with_faults_def fresh_disk_def fresh_journal_def initialize_def jbind_def
      jread_def jget_def kv_get_def Let_def split: prod.split sum.split)

lemma kv_sorted_empty: "kv_sorted (\<lambda>_. [])"
  by (simp add: kv_sorted_def)

lemma chain_initialize_fresh:
  "chain sha (jc_journal_id config) (snd (initialize_fresh sha n (fresh_journal config faults))) [] Map.empty 1"
proof -
  define prepare :: "journal \<Rightarrow> journal" where "prepare = (\<lambda>j.
       let s = kv_put T_Meta JOURNAL_ID (j_journal_id j) (j_store j);
           s = kv_put T_Meta HEAD_SEQUENCE (u64_to_be 0) s;
           s = kv_put T_Meta HEAD_HASH (replicate 32 0) s;
           s = kv_put T_Meta EPOCH (u64_to_be 1) s;
           s = kv_put T_Meta RESERVE (u64_to_be n) s;
           s = kv_put T_Meta RESERVE_TOTAL (u64_to_be n) s;
           s = kv_put T_Meta MAX_BYTES (u64_to_be (j_max_bytes j)) s;
           s = kv_put T_Meta CURRENT_SEGMENT (u64_to_be 0) s;
           s = kv_put T_Segments (u64_to_be 0) (u64_to_be 1 @ replicate 32 0) s
       in j\<lparr>j_store := s, j_reserve_len := Some n\<rparr>)"
  define rest :: "unit jm" where "rest =
     jbind (take_fault (FP_AfterFlush FB_Reserve)) (\<lambda>fault.
     jbind (jguard fault J_AutomationStopped) (\<lambda>_. repair_read_mirror sha))"
  let ?j = "prepare (fresh_journal config faults)"
  have "kv_sorted (j_store ?j)"
    unfolding prepare_def fresh_journal_def Let_def by (simp add: kv_sorted_put kv_sorted_empty)
  then have "chain_store sha (jc_journal_id config) (j_store ?j) []"
    by (simp add: chain_store_def prepare_def fresh_journal_def Let_def kv_get_put linked_def
        chain_head_def event_index_def kv_scan_put_other)
      (auto simp: kv_scan_def kv_get_def sealed_entries_def entries_of_def)
  moreover have "ops_of (j_store ?j) = encoded_ops Map.empty" "pending_of (j_store ?j) = open_ops Map.empty"
    unfolding prepare_def fresh_journal_def Let_def
    by (simp_all, simp_all add: ops_of_def encoded_ops_def pending_of_def open_ops_def kv_get_def)
  moreover have "kv_get T_Meta EPOCH (j_store ?j) = Some (u64_to_be 1)"
    by (simp add: prepare_def Let_def kv_get_put)
  ultimately have "chain sha (jc_journal_id config) ?j [] Map.empty 1"
    by (simp add: chain_def wf_ops_def) (simp add: prepare_def fresh_journal_def Let_def)
  moreover have "keeps sha (jc_journal_id config) rest"
    unfolding rest_def by (intro keeps_intros)
  moreover have "initialize_fresh sha n (fresh_journal config faults) = rest ?j"
    by (simp add: initialize_fresh_def jbind_def jmodify_def rest_def prepare_def)
  ultimately show ?thesis using keepsD by metis
qed

lemma chain_open_fresh:
  assumes "open_with_faults sha config faults fresh_disk = (Inr j, d)"
  shows "chain sha (jc_journal_id config) j [] Map.empty 1"
  using assms chain_initialize_fresh [of sha config "jc_cleanup_reserve_bytes config" faults]
  by (auto simp: open_fresh split: prod.splits sum.splits)

section \<open>Every operation refines the abstract journal\<close>

text \<open>The client contract of \<open>strict\<close>: an operation is received under its request's identity.\<close>

fun strict_op :: "journal_op \<Rightarrow> bool" where
  "strict_op (Op_Received op_id _ _ r) \<longleftrightarrow> op_id = wr_request_id r"
| "strict_op _ \<longleftrightarrow> True"

fun keeps_epoch :: "journal_op \<Rightarrow> bool" where
  "keeps_epoch (Op_AdvanceEpoch _) \<longleftrightarrow> False"
| "keeps_epoch _ \<longleftrightarrow> True"

text \<open>What the journal is after an operation, in terms of the abstract journal.\<close>

definition abstracts ::
  "bool \<Rightarrow> (bytes \<Rightarrow> bytes) \<Rightarrow> bytes \<Rightarrow> nat \<Rightarrow> witness_record list \<Rightarrow> op_map \<Rightarrow> u64 \<Rightarrow> journal \<Rightarrow> bool" where
  "abstracts strict sha jid n rs om e j \<longleftrightarrow> (\<exists>rs' om'. chain sha jid j rs' om' e
     \<and> abs_steps strict sha jid e (rs, om) (rs', om') \<and> length rs' \<le> length rs + n)"

lemma abstracts_refl: "chain sha jid j rs om e \<Longrightarrow> abstracts strict sha jid n rs om e j"
  unfolding abstracts_def by (rule exI [of _ rs], rule exI [of _ om]) simp

lemma steps_abstracts:
  "steps strict sha jid n rs om e m \<Longrightarrow> n \<le> k \<Longrightarrow> chain sha jid j rs om e \<Longrightarrow>
     abstracts strict sha jid k rs om e (snd (m j))"
  unfolding steps_def abstracts_def by (meson add_left_mono order_trans)

lemma run_op_abstracts:
  assumes sha: "\<forall>x. length (sha x) = 32" and room: "length rs + 4 < 2 ^ 64"
    and "wf_op op" "strict \<longrightarrow> strict_op op" "keeps_epoch op" and ch: "chain sha jid j rs om e"
  shows "abstracts strict sha jid 2 rs om e (run_op sha op j)"
proof -
  have room2: "length rs + 2 < 2 ^ 64" using room by simp
  note step = steps_abstracts [OF _ _ ch]
  note steps = steps_append_received [OF sha room2, THEN step] steps_append_decision [OF sha room2, THEN step]
    steps_complete [OF sha room2, THEN step] steps_record_outcome_unknown [OF sha room2, THEN step]
    steps_complete_recovery [OF sha room2, THEN step] steps_deny [OF sha room2, THEN step]
    steps_append_checkpoint_publication [OF sha room2, THEN step]
    steps_reconcile_observed [OF sha room, THEN step]
    steps_keeps [where n = 0, OF keeps_seal, THEN step]
  show ?thesis
  proof (cases op)
    case (Op_Fault p)
    with ch show ?thesis by (intro abstracts_refl) (simp add: chain_def)
  next
    case (Op_Reopen faults)
    with chain_reopen [OF ch] show ?thesis by (intro abstracts_refl) simp
  qed (use assms(3-5) steps in simp_all)
qed

lemma run_op_chain:
  assumes sha: "\<forall>x. length (sha x) = 32" and room: "length rs + 4 < 2 ^ 64"
    and "wf_op op" and ch: "chain sha jid j rs om e"
  shows "\<exists>new om' e'. length new \<le> 2 \<and> chain sha jid (run_op sha op j) (rs @ new) om' e'"
proof (cases "keeps_epoch op")
  case True
  from run_op_abstracts [OF sha room assms(3) _ True ch, of False] obtain rs' om' where
    "chain sha jid (run_op sha op j) rs' om' e" "abs_steps False sha jid e (rs, om) (rs', om')"
    "length rs' \<le> length rs + 2"
    by (auto simp: abstracts_def)
  with abs_steps_extends [of False sha jid e "(rs, om)" "(rs', om')"] show ?thesis by fastforce
next
  case False
  then obtain n where "op = Op_AdvanceEpoch n" by (cases op) auto
  with chain_advance_epoch [OF ch, of n] show ?thesis by (intro exI [of _ "[]"]) auto
qed

lemma run_ops_chain:
  assumes sha: "\<forall>x. length (sha x) = 32" and "length rs + 2 * length ops + 4 < 2 ^ 64"
    and "\<forall>op \<in> set ops. wf_op op" and "chain sha jid j rs om e"
  shows "\<exists>new om' e'. length new \<le> 2 * length ops \<and> chain sha jid (run_ops sha ops j) (rs @ new) om' e'"
  using assms(2-)
proof (induction ops arbitrary: rs om e j)
  case Nil
  then show ?case by auto
next
  case (Cons op ops)
  from Cons.prems obtain new om1 e1 where new: "length new \<le> 2" "chain sha jid (run_op sha op j) (rs @ new) om1 e1"
    using run_op_chain [OF sha, of rs op jid j om e] by auto
  with Cons.prems Cons.IH [of "rs @ new" "run_op sha op j" om1 e1] obtain new' om2 e2 where
    "length new' \<le> 2 * length ops" "chain sha jid (run_ops sha ops (run_op sha op j)) ((rs @ new) @ new') om2 e2"
    by auto
  with new(1) show ?case by (intro exI [of _ "new @ new'"]) auto
qed

lemma run_ops_abstracts:
  assumes sha: "\<forall>x. length (sha x) = 32" and "length rs + 2 * length ops + 4 < 2 ^ 64"
    and "\<forall>op \<in> set ops. wf_op op \<and> strict_op op \<and> keeps_epoch op" and "chain sha jid j rs om e"
  shows "abstracts True sha jid (2 * length ops) rs om e (run_ops sha ops j)"
  using assms(2-)
proof (induction ops arbitrary: rs om j)
  case Nil
  then show ?case by (simp add: abstracts_refl)
next
  case (Cons op ops)
  from Cons.prems obtain rs1 om1 where 1: "chain sha jid (run_op sha op j) rs1 om1 e"
    "abs_steps True sha jid e (rs, om) (rs1, om1)" "length rs1 \<le> length rs + 2"
    using run_op_abstracts [OF sha, of rs op True jid j om e] by (auto simp: abstracts_def)
  with Cons.prems Cons.IH [of rs1 "run_op sha op j" om1] obtain rs2 om2 where
    "chain sha jid (run_ops sha ops (run_op sha op j)) rs2 om2 e"
    "abs_steps True sha jid e (rs1, om1) (rs2, om2)" "length rs2 \<le> length rs1 + 2 * length ops"
    by (auto simp: abstracts_def)
  with 1 show ?case unfolding abstracts_def by (intro exI [of _ rs2] exI [of _ om2]) auto
qed

lemma repair_read_mirror_ok: "\<exists>j'. repair_read_mirror sha j = (Inr (), j')"
  by (cases "rebuild_read_mirror sha j")
    (simp add: repair_read_mirror_def jbind_def jtry_def jreturn_def jmodify_def)

lemma open_fresh_ok:
  assumes "FP_AfterFlush FB_Reserve \<notin> faults"
  shows "\<exists>j d. open_with_faults sha config faults fresh_disk = (Inr j, d)"
proof -
  have "\<exists>j. initialize_fresh sha n (fresh_journal config faults) = (Inr (), j)" for n
    using assms repair_read_mirror_ok
    by (simp add: initialize_fresh_def jbind_def jmodify_def take_fault_def jguard_def Let_def
        fresh_journal_def)
  then show ?thesis by (metis (no_types, lifting) case_prod_conv old.sum.simps(6) open_fresh)
qed

section \<open>Properties\<close>

text \<open>C12.
  A journal opened on an empty directory stays consistent whatever happens to it: after any
  sequence of fewer than \<open>2 ^ 62\<close> operations, with any arguments, injected faults and reopenings,
  \<open>records()\<close> succeeds and returns records that are numbered from one without gaps, linked by their
  hashes, valid and with distinct event identities, and the stored head is the number and the hash
  of the last one.\<close>

theorem journal_history_linked:
  assumes "\<forall>x. length (sha x) = 32" and "length (jc_journal_id config) = 16"
    and "open_with_faults sha config faults fresh_disk = (Inr j, d)"
    and "\<forall>op \<in> set ops. wf_op op" and "length ops < 2 ^ 62"
  shows "\<exists>rs. journal_records (j_store (run_ops sha ops j)) = Inr (map (record_fields (jc_journal_id config)) rs)
    \<and> linked sha (jc_journal_id config) rs \<and> distinct (map wr_event_id rs)
    \<and> head_of (j_store (run_ops sha ops j)) = Inr (of_nat (length rs), chain_head sha (jc_journal_id config) rs)"
proof -
  from run_ops_chain [OF assms(1) _ assms(4) chain_open_fresh [OF assms(3)]] assms(5)
  obtain rs where "chain_store sha (jc_journal_id config) (j_store (run_ops sha ops j)) rs"
    by (auto simp: chain_def)
  with journal_records_chain [OF this assms(2)] head_of_chain [OF this assms(1)] show ?thesis
    by (auto simp: chain_store_def)
qed

definition example_config :: journal_config where
  "example_config = journal_config_new (replicate 16 9) Mode_Required"

definition example_ops :: "journal_op list" where
  "example_ops = [Op_Received (replicate 16 2) 5 example_recipe example_record,
     Op_Fault (FP_AfterFlush FB_Received), Op_Maintain, Op_Reopen {}, Op_AdvanceEpoch 1]"

lemma example_ops_wf: "\<forall>op \<in> set example_ops. wf_op op"
  by (simp add: example_ops_def example_record_wf)

theorem journal_history_linked_witness:
  "\<exists>j d rs. open_with_faults toy_sha example_config {} fresh_disk = (Inr j, d)
    \<and> journal_records (j_store (run_ops toy_sha example_ops j)) = Inr (map (record_fields (replicate 16 9)) rs)
    \<and> linked toy_sha (replicate 16 9) rs"
proof -
  obtain j d where j: "open_with_faults toy_sha example_config {} fresh_disk = (Inr j, d)"
    using open_fresh_ok [of "{}" toy_sha example_config] by auto
  have id: "jc_journal_id example_config = replicate 16 9"
    by (simp add: example_config_def journal_config_new_def)
  have "length example_ops < 2 ^ 62" by (simp add: example_ops_def)
  from journal_history_linked [OF length_toy_sha _ j example_ops_wf this] id j show ?thesis
    by auto
qed

text \<open>C13.
  The history is append-only: what \<open>records()\<close> returns after some operations is a prefix of
  what it returns after any further operations, so sealing, reopening, failures and reconciliation
  never rewrite or lose an acknowledged record.\<close>

theorem journal_append_only:
  assumes "\<forall>x. length (sha x) = 32" and "length (jc_journal_id config) = 16"
    and "open_with_faults sha config faults fresh_disk = (Inr j, d)"
    and "\<forall>op \<in> set (ops @ later). wf_op op" and "length (ops @ later) < 2 ^ 62"
  shows "\<exists>bs new. journal_records (j_store (run_ops sha ops j)) = Inr bs
    \<and> journal_records (j_store (run_ops sha (ops @ later) j)) = Inr (bs @ new)"
proof -
  let ?jid = "jc_journal_id config"
  from run_ops_chain [OF assms(1) _ _ chain_open_fresh [OF assms(3)], of ops] assms(4,5)
  obtain rs om e where rs: "chain sha ?jid (run_ops sha ops j) rs om e" "length rs \<le> 2 * length ops"
    by (auto simp: ball_Un)
  from run_ops_chain [OF assms(1) _ _ rs(1), of later] assms(4,5) rs(2) obtain new om' e' where
    "chain sha ?jid (run_ops sha (ops @ later) j) (rs @ new) om' e'"
    by (auto simp: run_ops_append ball_Un)
  with rs journal_records_chain [OF _ assms(2)] show ?thesis
    by (fastforce simp: chain_def)
qed

theorem journal_append_only_witness:
  "\<exists>j d bs new. open_with_faults toy_sha example_config {} fresh_disk = (Inr j, d)
    \<and> journal_records (j_store (run_ops toy_sha example_ops j)) = Inr bs
    \<and> journal_records (j_store (run_ops toy_sha (example_ops @ example_ops) j)) = Inr (bs @ new)"
proof -
  obtain j d where j: "open_with_faults toy_sha example_config {} fresh_disk = (Inr j, d)"
    using open_fresh_ok [of "{}" toy_sha example_config] by auto
  have "length (jc_journal_id example_config) = 16"
    by (simp add: example_config_def journal_config_new_def)
  moreover have "length (example_ops @ example_ops) < 2 ^ 62" by (simp add: example_ops_def)
  moreover have "\<forall>op \<in> set (example_ops @ example_ops). wf_op op" using example_ops_wf by auto
  ultimately show ?thesis using journal_append_only [OF length_toy_sha _ j] j by blast
qed

text \<open>C14.
  The journal refines its abstract specification: after any sequence of operations, faults and
  reopenings that stays within one epoch and receives every operation under the identity of its
  request, the records are a history, the operations table an operation map and the pending table its
  open operations, of a state that the abstract journal reaches from the empty one by its seven
  kinds of steps.\<close>

theorem journal_refines_abstract:
  assumes "\<forall>x. length (sha x) = 32" and "length (jc_journal_id config) = 16"
    and "open_with_faults sha config faults fresh_disk = (Inr j, d)"
    and "\<forall>op \<in> set ops. wf_op op \<and> strict_op op \<and> keeps_epoch op" and "length ops < 2 ^ 62"
  shows "\<exists>rs om. abs_steps True sha (jc_journal_id config) 1 ([], Map.empty) (rs, om)
    \<and> journal_records (j_store (run_ops sha ops j)) = Inr (map (record_fields (jc_journal_id config)) rs)
    \<and> (\<forall>op_id. kv_get T_Operations op_id (j_store (run_ops sha ops j)) = map_option state_encode (om op_id))
    \<and> (\<forall>op_id. kv_contains T_Pending op_id (j_store (run_ops sha ops j)) \<longleftrightarrow> op_id \<in> open_ops om)"
proof -
  from run_ops_abstracts [OF assms(1) _ assms(4) chain_open_fresh [OF assms(3)]] assms(5)
  obtain rs om where ch: "chain sha (jc_journal_id config) (run_ops sha ops j) rs om 1"
    and abs: "abs_steps True sha (jc_journal_id config) 1 ([], Map.empty) (rs, om)"
    by (auto simp: abstracts_def)
  from ch have "ops_of (j_store (run_ops sha ops j)) = encoded_ops om"
    "pending_of (j_store (run_ops sha ops j)) = open_ops om" by (simp_all add: chain_def)
  with abs chain_records [OF ch assms(2)] show ?thesis
    by (intro exI [of _ rs] exI [of _ om])
      (auto simp: ops_of_def encoded_ops_def fun_eq_iff pending_of_def kv_contains_def)
qed

theorem journal_refines_abstract_witness:
  "\<exists>j d rs om. open_with_faults toy_sha example_config {} fresh_disk = (Inr j, d)
    \<and> abs_steps True toy_sha (replicate 16 9) 1 ([], Map.empty) (rs, om)
    \<and> journal_records (j_store (run_ops toy_sha [Op_Received (replicate 16 2) 5 example_recipe example_record,
         Op_Fault FP_RotationSeal, Op_Reopen {}] j)) = Inr (map (record_fields (replicate 16 9)) rs)"
proof -
  obtain j d where j: "open_with_faults toy_sha example_config {} fresh_disk = (Inr j, d)"
    using open_fresh_ok [of "{}" toy_sha example_config] by auto
  have id: "jc_journal_id example_config = replicate 16 9"
    by (simp add: example_config_def journal_config_new_def)
  let ?ops = "[Op_Received (replicate 16 2) 5 example_recipe example_record, Op_Fault FP_RotationSeal, Op_Reopen {}]"
  have "\<forall>op \<in> set ?ops. wf_op op \<and> strict_op op \<and> keeps_epoch op"
    using example_record_wf(1) by simp (simp add: example_record_def)
  from journal_refines_abstract [OF length_toy_sha _ j this] id j show ?thesis by auto
qed

text \<open>
  No unfinished operation is forgotten: in every state that operations, faults and reopenings
  lead to, the pending table that startup recovery works from lists exactly the operations whose
  durable state is not complete.\<close>

theorem pending_lists_unfinished:
  assumes "\<forall>x. length (sha x) = 32" and "open_with_faults sha config faults fresh_disk = (Inr j, d)"
    and "\<forall>op \<in> set ops. wf_op op" and "length ops < 2 ^ 62"
  shows "kv_contains T_Pending op_id (j_store (run_ops sha ops j)) \<longleftrightarrow>
    (\<exists>b st. kv_get T_Operations op_id (j_store (run_ops sha ops j)) = Some b \<and> state_decode b = Some st
       \<and> os_state st \<noteq> COMPLETE)"
proof -
  from run_ops_chain [OF assms(1) _ assms(3) chain_open_fresh [OF assms(2)]] assms(4)
  obtain rs om e where "chain sha (jc_journal_id config) (run_ops sha ops j) rs om e" by auto
  then have ops: "ops_of (j_store (run_ops sha ops j)) = encoded_ops om" "wf_ops om"
    and pend: "pending_of (j_store (run_ops sha ops j)) = open_ops om" by (simp_all add: chain_def)
  have "kv_get T_Operations op_id (j_store (run_ops sha ops j)) = map_option state_encode (om op_id)"
    using ops(1) by (auto simp: ops_of_def encoded_ops_def fun_eq_iff)
  moreover have "kv_contains T_Pending op_id (j_store (run_ops sha ops j)) \<longleftrightarrow> op_id \<in> open_ops om"
    using pend by (auto simp: pending_of_def kv_contains_def)
  moreover have "state_decode (state_encode st) = Some st" if "om op_id = Some st" for st
    using that ops(2) by (intro state_decode_encode) (auto simp: wf_ops_def ranI)
  ultimately show ?thesis by (cases "om op_id") (auto simp: open_ops_def)
qed

theorem pending_lists_unfinished_witness:
  "\<exists>j d. open_with_faults toy_sha example_config {} fresh_disk = (Inr j, d)
    \<and> (kv_contains T_Pending (replicate 16 2) (j_store (run_ops toy_sha example_ops j)) \<longleftrightarrow>
      (\<exists>b st. kv_get T_Operations (replicate 16 2) (j_store (run_ops toy_sha example_ops j)) = Some b
         \<and> state_decode b = Some st \<and> os_state st \<noteq> COMPLETE))"
proof -
  obtain j d where j: "open_with_faults toy_sha example_config {} fresh_disk = (Inr j, d)"
    using open_fresh_ok [of "{}" toy_sha example_config] by auto
  have "length example_ops < 2 ^ 62" by (simp add: example_ops_def)
  with pending_lists_unfinished [OF length_toy_sha j example_ops_wf] j show ?thesis by blast
qed

end
