(* ===== verification/Journal_Lifecycle.thy ===== *)
theory Journal_Lifecycle
  imports Journal_History
begin

text \<open>
  The journal and the stream verifier agree.  The operation states of the abstract journal track
  the history of each request the way the verifier's lifecycles do; so what a journal wrote is
  what the verifier accepts, as soon as no operation is pending.
\<close>

section \<open>Operation states track request histories\<close>

text \<open>What the state of an operation says about the records of its request.\<close>

definition stands_for :: "(bytes \<Rightarrow> bytes) \<Rightarrow> operation_state \<Rightarrow> witness_record list \<Rightarrow> bool" where
  "stands_for sha st h \<longleftrightarrow>
     (\<exists>a h'. h = a # h' \<and> opens a \<and> os_request_id st = wr_request_id a
        \<and> os_binding_digest st = request_binding_digest sha a
        \<and> (os_state st = RECEIVED \<and> h' = []
           \<or> os_state st = ALLOWED \<and> (\<exists>b. h' = [b] \<and> decides a b \<and> allows b
               \<and> wr_decision_id b = Some (os_decision_id st))
           \<or> os_state st = UNKNOWN \<and> (\<exists>b c. h' = [b, c] \<and> decides a b \<and> suspends a b c
               \<and> wr_decision_id b = Some (os_decision_id st) \<and> wr_event_id c = os_unknown_event_id st)
           \<or> os_state st = COMPLETE \<and> closed_history h))"

fun tracked :: "(bytes \<Rightarrow> bytes) \<Rightarrow> bytes \<Rightarrow> operation_state option \<Rightarrow> witness_record list \<Rightarrow> bool" where
  "tracked sha rid None h \<longleftrightarrow> h = []"
| "tracked sha rid (Some st) h \<longleftrightarrow> os_request_id st = rid \<and> stands_for sha st h"

definition lifecycle_inv ::
  "(bytes \<Rightarrow> bytes) \<Rightarrow> u64 \<Rightarrow> witness_record list \<times> op_map \<Rightarrow> bool" where
  "lifecycle_inv sha e g \<longleftrightarrow> (case g of (rs, om) \<Rightarrow>
     (\<forall>r \<in> set rs. wf_record r \<and> wr_epoch r = e)
     \<and> (\<forall>i < length rs. lifecycle_ok (take i rs) (rs ! i))
     \<and> (\<forall>rid. tracked sha rid (om rid) (request_history rid rs)))"

lemma lifecycle_inv_init: "lifecycle_inv sha e ([], Map.empty)"
  by (simp add: lifecycle_inv_def)

lemma request_history_member: "r \<in> set (request_history rid rs) \<Longrightarrow> r \<in> set rs \<and> wr_request_id r = rid"
  by (auto simp: request_history_def)

text \<open>A record that passes the binding check has the binding of the received request.\<close>

lemma binding_from_match:
  assumes "stands_for sha st h" "set h \<subseteq> set rs" "\<forall>r \<in> set rs. wf_record r" "wf_record r"
    and "binding_matches sha st r" "inj_on sha (binding_input ` set (rs @ [r]))"
  shows "wr_request_id r = os_request_id st \<and> request_binding_from r = request_binding_from (hd h)"
proof -
  from assms(1) obtain a h' where h: "h = a # h'" "os_binding_digest st = request_binding_digest sha a"
    by (auto simp: stands_for_def)
  with assms have a: "a \<in> set rs" "wf_record a" by auto
  have "sha (binding_input a) = sha (binding_input r)"
    using assms(5) h by (simp add: binding_matches_def request_binding_digest_def)
  then have "binding_input a = binding_input r" by (rule inj_onD [OF assms(6)]) (use a in simp_all)
  with binding_input_inject [OF a(2) assms(4)] assms(5) h(1) show ?thesis
    by (simp add: binding_matches_def)
qed

text \<open>Appending records of one request that extend its history, step by step, keeps the invariant,
  with an operation state that stands for the new history.\<close>

lemma request_history_append: "request_history rid (xs @ ys) = request_history rid xs @ request_history rid ys"
  by (simp add: request_history_def)

definition extends_request :: "u64 \<Rightarrow> bytes \<Rightarrow> witness_record list \<Rightarrow> witness_record list \<Rightarrow> bool" where
  "extends_request e rid h new \<longleftrightarrow>
     (\<forall>r \<in> set new. wf_record r \<and> wr_epoch r = e \<and> wr_stage r \<noteq> St_CheckpointPublished \<and> wr_request_id r = rid)
     \<and> (\<forall>i < length new. history_ok (h @ take (Suc i) new))"

lemma extends_request_history:
  assumes "extends_request e rid h new"
  shows "request_history x (take i new) = (if x = rid then take i new else [])"
proof -
  have "r \<in> set new" if "r \<in> set (take i new)" for r using that by (rule in_set_takeD)
  with assms show ?thesis
    by (auto simp: extends_request_def request_history_def filter_empty_conv filter_id_conv)
qed

lemma lifecycle_inv_append:
  assumes inv: "lifecycle_inv sha e (rs, om)" and new: "extends_request e rid (request_history rid rs) new"
    and st: "os_request_id st = rid" "stands_for sha st (request_history rid rs @ new)"
  shows "lifecycle_inv sha e (rs @ new, om(rid \<mapsto> st))"
proof -
  have hist: "request_history x (rs @ take i new)
      = (if x = rid then request_history rid rs @ take i new else request_history x rs)" for x i
    using extends_request_history [OF new] by (simp add: request_history_append)
  have ok: "lifecycle_ok (take i (rs @ new)) ((rs @ new) ! i)" if i: "i < length (rs @ new)" for i
  proof (cases "i < length rs")
    case True
    with inv show ?thesis by (simp add: lifecycle_inv_def nth_append)
  next
    case False
    define k where "k = i - length rs"
    from False i have k: "k < length new" "take i (rs @ new) = rs @ take k new" "(rs @ new) ! i = new ! k"
      by (auto simp: k_def nth_append)
    then have "wr_request_id (new ! k) = rid" using new by (simp add: extends_request_def)
    moreover have "history_ok (request_history rid rs @ take k new @ [new ! k])"
      using new k(1) by (simp add: extends_request_def take_Suc_conv_app_nth)
    ultimately show ?thesis using k hist [of rid k] by (simp add: lifecycle_ok_def)
  qed
  have "tracked sha x ((om(rid \<mapsto> st)) x) (request_history x (rs @ new))" for x
    using inv st hist [of x "length new"] by (cases "x = rid") (simp_all add: lifecycle_inv_def)
  with ok inv new show ?thesis by (auto simp: lifecycle_inv_def extends_request_def)
qed

text \<open>A checkpoint record belongs to no request.\<close>

lemma lifecycle_inv_publish:
  assumes "lifecycle_inv sha e (rs, om)" "wf_record r" "wr_epoch r = e" "wr_stage r = St_CheckpointPublished"
  shows "lifecycle_inv sha e (rs @ [r], om)"
  using assms by (auto simp: lifecycle_inv_def less_Suc_eq nth_append lifecycle_ok_def request_history_snoc)

text \<open>The history of an operation, by its state.\<close>

lemma stands_for_cases:
  assumes "stands_for sha st h"
  shows "os_state st = RECEIVED \<Longrightarrow> \<exists>a. h = [a] \<and> opens a"
    and "os_state st = ALLOWED \<Longrightarrow> \<exists>a b. h = [a, b] \<and> opens a \<and> decides a b \<and> allows b
           \<and> wr_decision_id b = Some (os_decision_id st)"
    and "os_state st = UNKNOWN \<Longrightarrow> \<exists>a b c. h = [a, b, c] \<and> opens a \<and> decides a b \<and> suspends a b c
           \<and> wr_decision_id b = Some (os_decision_id st) \<and> wr_event_id c = os_unknown_event_id st"
    and "os_state st = COMPLETE \<Longrightarrow> closed_history h"
  using assms by (auto simp: stands_for_def)

lemma lifecycle_inv_op:
  assumes "lifecycle_inv sha e (rs, om)" "om op_id = Some st"
  shows "stands_for sha st (request_history op_id rs)" "os_request_id st = op_id"
    "\<forall>r \<in> set rs. wf_record r" "set (request_history op_id rs) \<subseteq> set rs"
  using assms request_history_member
  by (auto simp: lifecycle_inv_def dest: spec [of _ op_id])

lemmas lifecycle_defs = extends_request_def history_ok_def opens_def decides_def allows_def follows_def
  denies_def concludes_def suspends_def recovers_def stands_for_def

text \<open>One more record of a request whose state is known: what the binding check gives.\<close>

lemma bound_record:
  assumes "lifecycle_inv sha e (rs, om)" "om op_id = Some st" "binding_matches sha st r"
    and "wf_record r" "inj_on sha (binding_input ` set (rs @ [r]))"
  shows "wr_request_id r = op_id" "request_binding_from r = request_binding_from (hd (request_history op_id rs))"
    "os_request_id st = op_id" "stands_for sha st (request_history op_id rs)"
  using binding_from_match [OF lifecycle_inv_op(1,4,3) [OF assms(1,2)] assms(4,3,5)]
    lifecycle_inv_op [OF assms(1,2)] by auto

lemma lifecycle_inv_received:
  assumes "lifecycle_inv sha e (rs, om)" "appendable sha jid e rs r" "wr_stage r = St_RequestReceived"
    and "om (wr_request_id r) = None"
  shows "lifecycle_inv sha e (rs @ [r], om(wr_request_id r \<mapsto> state_received sha r g))"
proof -
  from assms have "request_history (wr_request_id r) rs = []"
    by (auto simp: lifecycle_inv_def dest: spec [of _ "wr_request_id r"])
  with assms show ?thesis
    by (intro lifecycle_inv_append) (auto simp: lifecycle_defs appendable_def state_received_def)
qed

lemma lifecycle_inv_decide:
  assumes inv: "lifecycle_inv sha e (rs, om)" and r: "appendable sha jid e rs r" "wr_stage r = St_Decision"
      "wr_decision r = Some True" "wr_decision_id r = Some did" "inj_on sha (binding_input ` set (rs @ [r]))"
    and st: "om op_id = Some st" "os_state st = RECEIVED" "binding_matches sha st r"
  shows "lifecycle_inv sha e (rs @ [r], om(op_id \<mapsto> st\<lparr>os_state := ALLOWED,
    os_pending_generation := n, os_decision_id := did, os_decision_digest := d\<rparr>))"
proof -
  from r(1) have wf: "wf_record r" "wr_epoch r = e" by (auto simp: appendable_def)
  note b = bound_record [OF inv st(1,3) wf(1) r(5)]
  from stands_for_cases(1) [OF b(4) st(2)] obtain a where "request_history op_id rs = [a]" "opens a" by blast
  with b wf r show ?thesis
    by (intro lifecycle_inv_append [OF inv]) (auto simp: lifecycle_defs)
qed

lemma lifecycle_inv_deny:
  assumes inv: "lifecycle_inv sha e (rs, om)"
    and r: "appendable sha jid e rs r" "appendable sha jid e (rs @ [r]) r'" "wr_stage r = St_Decision"
      "wr_decision r = Some False" "wr_stage r' = St_Denied" "wr_decision_id r = wr_decision_id r'"
      "inj_on sha (binding_input ` set (rs @ [r, r']))"
    and st: "om op_id = Some st" "os_state st = RECEIVED" "binding_matches sha st r" "binding_matches sha st r'"
  shows "lifecycle_inv sha e (rs @ [r, r'], om(op_id \<mapsto> st\<lparr>os_state := COMPLETE, os_pending_generation := n\<rparr>))"
proof -
  from r(1,2) have wf: "wf_record r" "wr_epoch r = e" "wf_record r'" "wr_epoch r' = e" "valid_stage r"
    by (auto simp: appendable_def)
  have inj: "inj_on sha (binding_input ` set (rs @ [r]))" "inj_on sha (binding_input ` set (rs @ [r']))"
    using r(7) by (auto elim!: inj_on_subset)
  note b = bound_record [OF inv st(1,3) wf(1) inj(1)] bound_record(1,2) [OF inv st(1,4) wf(3) inj(2)]
  have "wr_decision_id r \<noteq> None" using wf(5) r(3) by (simp add: valid_stage_def)
  moreover from stands_for_cases(1) [OF b(4) st(2)] obtain a where "request_history op_id rs = [a]" "opens a" by blast
  ultimately show ?thesis using b wf r
    by (intro lifecycle_inv_append [OF inv]) (auto simp: lifecycle_defs less_Suc_eq)
qed

lemma lifecycle_inv_outcome:
  assumes inv: "lifecycle_inv sha e (rs, om)" and r: "appendable sha jid e rs r" "wr_stage r = St_Outcome"
      "inj_on sha (binding_input ` set (rs @ [r]))"
    and st: "om op_id = Some st" "os_state st = ALLOWED" "terminal_matches sha st r"
    and st': "wr_outcome r = Out_OutcomeUnknown \<Longrightarrow> s = UNKNOWN \<and> ev = wr_event_id r"
      "wr_outcome r \<noteq> Out_OutcomeUnknown \<Longrightarrow> s = COMPLETE"
  shows "lifecycle_inv sha e (rs @ [r], om(op_id \<mapsto> st\<lparr>os_state := s, os_unknown_event_id := ev,
    os_pending_generation := n\<rparr>))"
proof -
  from r(1) have wf: "wf_record r" "wr_epoch r = e" by (auto simp: appendable_def)
  from st(3) have m: "binding_matches sha st r" "wr_decision_id r = Some (os_decision_id st)"
    by (auto simp: terminal_matches_def)
  note b = bound_record [OF inv st(1) m(1) wf(1) r(3)]
  from stands_for_cases(2) [OF b(4) st(2)] obtain a c where
    h: "request_history op_id rs = [a, c]" "opens a" "decides a c" "allows c"
      "wr_decision_id c = Some (os_decision_id st)" by blast
  show ?thesis using b wf r m h st'
    by (cases "wr_outcome r = Out_OutcomeUnknown"; intro lifecycle_inv_append [OF inv])
      (auto simp: lifecycle_defs)
qed

lemma lifecycle_inv_recover:
  assumes inv: "lifecycle_inv sha e (rs, om)" and r: "appendable sha jid e rs r" "wr_stage r = St_Recovery"
      "wr_recovery_link r = Some (os_unknown_event_id st)" "inj_on sha (binding_input ` set (rs @ [r]))"
    and st: "om op_id = Some st" "os_state st = UNKNOWN" "terminal_matches sha st r"
  shows "lifecycle_inv sha e (rs @ [r], om(op_id \<mapsto> st\<lparr>os_state := COMPLETE, os_pending_generation := n\<rparr>))"
proof -
  from r(1) have wf: "wf_record r" "wr_epoch r = e" by (auto simp: appendable_def)
  from st(3) have m: "binding_matches sha st r" "wr_decision_id r = Some (os_decision_id st)"
    by (auto simp: terminal_matches_def)
  note b = bound_record [OF inv st(1) m(1) wf(1) r(4)]
  from stands_for_cases(3) [OF b(4) st(2)] obtain a c d where
    "request_history op_id rs = [a, c, d]" "opens a" "decides a c" "suspends a c d"
    "wr_decision_id c = Some (os_decision_id st)" "wr_event_id d = os_unknown_event_id st" by blast
  with b wf r m show ?thesis
    by (intro lifecycle_inv_append [OF inv]) (auto simp: lifecycle_defs)
qed

lemma lifecycle_inv_step:
  assumes "abs_step True sha jid e g g'" "lifecycle_inv sha e g" "inj_on sha (binding_input ` set (fst g'))"
  shows "lifecycle_inv sha e g'"
  using assms
proof (cases rule: abs_step.cases)
  case Publish
  with assms(2) show ?thesis by (auto intro!: lifecycle_inv_publish simp: appendable_def)
qed (use assms(2,3) in \<open>auto intro!: lifecycle_inv_received lifecycle_inv_decide lifecycle_inv_deny
      lifecycle_inv_outcome lifecycle_inv_recover\<close>)

lemma lifecycle_inv_steps:
  assumes "abs_steps True sha jid e g g'" "lifecycle_inv sha e g" "inj_on sha (binding_input ` set (fst g'))"
  shows "lifecycle_inv sha e g'"
  using assms
proof (induction rule: rtranclp_induct)
  case (step g1 g2)
  have "inj_on sha (binding_input ` set (fst g1))"
    using step.prems(2) abs_step_extends [OF step.hyps(2)] by (auto elim!: inj_on_subset)
  with step lifecycle_inv_step show ?case by blast
qed

section \<open>What the verifier makes of a journal\<close>

definition decoded_of :: "bytes \<Rightarrow> witness_record \<Rightarrow> decoded_record" where
  "decoded_of jid r = \<lparr>dr_journal_id = jid, dr_record = r,
     dr_bytes = \<lparr>rb_journal_id = jid, rb_bytes = record_fields jid r\<rparr>\<rparr>"

definition journal_trust :: "bytes \<Rightarrow> u64 \<Rightarrow> stream_trust" where
  "journal_trust jid n = with_max_records n (stream_trust_new jid 1 1 (replicate 32 0))"

lemma stream_head_decoded:
  "stream_head sha (journal_trust jid n) (map (decoded_of jid) rs) = chain_head sha jid rs"
  by (simp add: stream_head_def chain_head_def decoded_of_def record_hash_def journal_trust_def
      with_max_records_def stream_trust_new_def last_map)

lemma decoded_records [simp]: "dr_record \<circ> decoded_of jid = id"
  by (simp add: decoded_of_def fun_eq_iff)

lemma journal_valid_prefix:
  assumes "linked sha jid rs" "distinct (map wr_event_id rs)" "length rs + 1 < 2 ^ 64"
    and "lifecycle_inv sha 1 (rs, om)" "length rs \<le> unat n"
    and "\<forall>i \<le> length rs. card (open_requests (take i rs)) \<le> MAX_OPEN_REQUESTS"
  shows "valid_prefix sha (journal_trust jid n) (map (decoded_of jid) rs)"
  unfolding valid_prefix_def
proof (intro allI impI)
  fix i assume i: "i < length (map (decoded_of jid) rs)"
  let ?t = "journal_trust jid n" and ?ds = "map (decoded_of jid) rs"
  note l = linked_nth [OF assms(1), of i]
  have trust: "st_journal_id ?t = jid" "st_epoch ?t = 1" "st_first_sequence ?t = 1" "st_max_records ?t = n"
    by (simp_all add: journal_trust_def with_max_records_def stream_trust_new_def)
  have recs: "map dr_record (take i ?ds) = take i rs" "dr_record (?ds ! i) = rs ! i" "take i ?ds = map (decoded_of jid) (take i rs)"
    using i by (simp_all add: take_map decoded_of_def comp_def)
  have "wr_event_id (rs ! i) \<notin> wr_event_id ` set (take i rs)"
    using assms(2) i by (auto simp: distinct_conv_nth in_set_conv_nth)
  moreover have "dr_record ` set (take i ?ds) = set (take i rs)"
    using recs(1) by (metis list.set_map)
  ultimately have ev: "wr_event_id (dr_record (?ds ! i)) \<notin> wr_event_id ` dr_record ` set (take i ?ds)"
    using recs(2) by simp
  have seq: "unat (wr_sequence (rs ! i)) = unat (1 :: u64) + i"
    using l(3) i assms(3) by (simp add: unat_of_nat del: of_nat_Suc)
  have life: "lifecycle_ok (take i rs) (rs ! i)" "wr_epoch (rs ! i) = 1"
    using assms(4) i by (simp_all add: lifecycle_inv_def)
  have "card (open_requests (take i rs @ [rs ! i])) \<le> MAX_OPEN_REQUESTS"
    using assms(6) i by (simp add: take_Suc_conv_app_nth [symmetric])
  moreover have "wr_previous_hash (rs ! i) = stream_head sha ?t (take i ?ds)"
    using l(4) i unfolding recs(3) stream_head_decoded by simp
  moreover have "dr_journal_id (?ds ! i) = jid" using i by (simp add: decoded_of_def)
  ultimately show "admissible sha ?t (take i ?ds) (?ds ! i)"
    unfolding admissible_def recs(1,2) trust
    using ev seq life assms(3,5) i recs(2) by auto
qed

lemma no_open_closed:
  assumes "lifecycle_inv sha e (rs, om)" "open_ops om = {}"
  shows "request_history rid rs = [] \<or> closed_history (request_history rid rs)"
proof (cases "om rid")
  case None
  with assms(1) show ?thesis by (auto simp: lifecycle_inv_def dest: spec [of _ rid])
next
  case (Some st)
  with assms(2) have "os_state st = COMPLETE" by (auto simp: open_ops_def)
  with stands_for_cases(4) lifecycle_inv_op(1) [OF assms(1) Some] show ?thesis by blast
qed

lemma journal_verifies:
  assumes "chain_store sha jid s rs" "length jid = 16" "length rs + 1 < 2 ^ 64"
    and "lifecycle_inv sha 1 (rs, om)" "open_ops om = {}" "length rs \<le> unat n"
    and "\<forall>i \<le> length rs. card (open_requests (take i rs)) \<le> MAX_OPEN_REQUESTS"
  shows "\<exists>rep. verify_stream sha (map (record_fields jid) rs) (journal_trust jid n) = Inr rep"
proof -
  have l: "linked sha jid rs" "distinct (map wr_event_id rs)" using assms(1) by (auto simp: chain_store_def)
  have "valid_stream sha (journal_trust jid n) (map (decoded_of jid) rs)"
    using journal_valid_prefix [OF l assms(3,4,6,7)] no_open_closed [OF assms(4,5)]
    by (simp add: valid_stream_def)
  moreover have "decode_record (record_fields jid r) = Inr (decoded_of jid r)" if "r \<in> set rs" for r
    using that linked_nth(1,2) [OF l(1)] assms(2)
    by (metis decode_record_fields decoded_of_def in_set_conv_nth)
  then have "map decode_record (map (record_fields jid) rs) = map Inr (map (decoded_of jid) rs)" by simp
  ultimately show ?thesis using verify_stream_ok by blast
qed

end
