(* ===== verification/Journal_Progress.thy ===== *)
theory Journal_Progress
  imports Journal_Lifecycle
begin

text \<open>
  The journal makes progress.  The refinement says that an operation never does anything but
  abstract steps; the lemmas here say that it does them: without pending fault points and within
  the quota, a request that passes the documented checks is recorded, whatever state the segments
  and the read mirror are in, and even when the active segment has to be sealed first.

  \<open>runs P m Q\<close> is the total-correctness triple: from a state in \<open>P\<close>, \<open>m\<close> succeeds with a value and
  a state in \<open>Q\<close>.
\<close>

section \<open>Total correctness\<close>

definition runs :: "(journal \<Rightarrow> bool) \<Rightarrow> 'a jm \<Rightarrow> ('a \<Rightarrow> journal \<Rightarrow> bool) \<Rightarrow> bool" where
  "runs P m Q \<longleftrightarrow> (\<forall>j. P j \<longrightarrow> (\<exists>x j'. m j = (Inr x, j') \<and> Q x j'))"

lemma runs_bind: "runs P m Q \<Longrightarrow> (\<And>x. runs (Q x) (k x) R) \<Longrightarrow> runs P (jbind m k) R"
  unfolding runs_def jbind_def by (metis (no_types, lifting) case_prod_conv old.sum.simps(6))

lemma runs_guard: "\<not> c \<Longrightarrow> runs P (k ()) R \<Longrightarrow> runs P (jbind (jguard c err) k) R"
  by (simp add: runs_def jbind_def jguard_def)

lemma runs_lift: "r = Inr x \<Longrightarrow> runs P (k x) R \<Longrightarrow> runs P (jbind (jlift r) k) R"
  by (simp add: runs_def jbind_def jlift_def)

lemma runs_read:
  "(\<And>j. P j \<Longrightarrow> f j = v) \<Longrightarrow> runs P (k v) R \<Longrightarrow> runs P (jbind (jread f) k) R"
  by (simp add: runs_def jbind_def jread_def)

lemma runs_fact: "(C \<Longrightarrow> runs P m R) \<Longrightarrow> runs (\<lambda>j. C \<and> P j) m R"
  by (auto simp: runs_def)

lemma runs_prod:
  "(\<And>a b. runs (P a b) (m a b) R) \<Longrightarrow>
     runs (case x of (a, b) \<Rightarrow> P a b) (case x of (a, b) \<Rightarrow> m a b) R"
  by (simp split: prod.split)

lemma runs_weaken: "runs P m Q \<Longrightarrow> (\<And>x j. Q x j \<Longrightarrow> R x j) \<Longrightarrow> runs P m R"
  unfolding runs_def by blast

section \<open>Operations that do not touch the configuration and the pending table\<close>

definition same_settings :: "journal \<Rightarrow> journal \<Rightarrow> bool" where
  "same_settings j j' \<longleftrightarrow> j_mode j' = j_mode j \<and> j_faults j' \<subseteq> j_faults j
     \<and> j_max_bytes j' = j_max_bytes j \<and> j_reserve_total j' = j_reserve_total j
     \<and> j_segment_bytes j' = j_segment_bytes j \<and> j_store j' T_Pending = j_store j T_Pending"

definition calm :: "'a jm \<Rightarrow> bool" where
  "calm m \<longleftrightarrow> (\<forall>j. same_settings j (snd (m j)))"

named_theorems calm_intros \<open>operations that leave mode, limits and the pending table alone\<close>

lemma same_settings_trans: "same_settings i j \<Longrightarrow> same_settings j k \<Longrightarrow> same_settings i k"
  by (auto simp: same_settings_def)

lemma calm_bind [calm_intros]:
  assumes "calm m" "\<And>x. calm (k x)"
  shows "calm (jbind m k)"
  unfolding calm_def
proof
  fix j
  obtain r j' where m: "m j = (r, j')" by fastforce
  with assms(1) have "same_settings j j'" unfolding calm_def by (metis snd_conv)
  with m assms(2) show "same_settings j (snd (jbind m k j))"
    unfolding calm_def jbind_def by (cases r) (auto intro: same_settings_trans)
qed

lemma calm_pure [calm_intros]:
  "calm (jread f)" "calm (jreturn x)" "calm (jraise e)" "calm (jlift r)" "calm (jguard c e)"
  "calm (jget tr k)" "calm journal_head" "calm (jput T_Meta k v)" "calm (jremove T_Meta k)"
  by (simp_all add: calm_def same_settings_def jread_def jreturn_def jraise_def jlift_def jguard_def jget_def
      journal_head_def jput_def jremove_def jmodify_def kv_put_def kv_remove_def)

lemma calm_if [calm_intros]: "calm m \<Longrightarrow> calm m' \<Longrightarrow> calm (if c then m else m')"
  by simp

lemma calm_prod [calm_intros]: "(\<And>x y. calm (k x y)) \<Longrightarrow> calm (case v of (x, y) \<Rightarrow> k x y)"
  by (simp split: prod.split)

lemma calm_try [calm_intros]: "calm m \<Longrightarrow> calm (jtry m)"
  by (simp add: calm_def same_settings_def jtry_def case_prod_beta)

lemma calm_map_err [calm_intros]: "calm m \<Longrightarrow> calm (jmap_err f m)"
  by (simp add: calm_def same_settings_def jmap_err_def case_prod_beta)

lemma calm_take_fault [calm_intros]: "calm (take_fault p)"
  by (auto simp: calm_def same_settings_def take_fault_def)

lemma calm_seal [calm_intros]: "calm (seal_active_segment force)"
  unfolding calm_def
proof
  fix j
  show "same_settings j (snd (seal_active_segment force j))"
    using seal_cases [of force j] by (auto simp: same_settings_def kv_put_def kv_fold_remove)
qed

lemma calm_post_ack_rotation [calm_intros]: "calm post_ack_rotation"
  unfolding post_ack_rotation_def by (intro calm_intros)

lemma calm_modify_mirror: "calm (jmodify (\<lambda>j. j\<lparr>j_mirror := f j\<rparr>))" "calm (jmodify (\<lambda>j. j\<lparr>j_mirror_sequence := n\<rparr>))"
  by (simp_all add: calm_def same_settings_def jmodify_def)

lemma calm_update_read_mirror [calm_intros]: "calm update_read_mirror_best_effort"
proof -
  have "calm (\<lambda>j. case append_frames (n j) first (j_journal_id j) (j_store j) (j_mirror j) of
      (r, files) \<Rightarrow> (r, j\<lparr>j_mirror := files\<rparr>))" for n first
    by (simp add: calm_def same_settings_def case_prod_beta)
  then show ?thesis
    unfolding update_read_mirror_best_effort_def append_read_mirror_def
    by (intro calm_intros calm_modify_mirror)
qed

section \<open>A journal that is ready\<close>

text \<open>\<open>ready\<close> adds to the chain invariant that no fault is armed and that the journal is in use; the
  quota has room for the records so far and \<open>room\<close> more, each with its frame at most 524 bytes; \<open>pt\<close> is
  the pending table with its recipes.\<close>

definition ready ::
  "(bytes \<Rightarrow> bytes) \<Rightarrow> bytes \<Rightarrow> nat \<Rightarrow> witness_record list \<Rightarrow> op_map \<Rightarrow> entries \<Rightarrow> u64 \<Rightarrow> journal \<Rightarrow> bool" where
  "ready sha jid room rs om pt e j \<longleftrightarrow> chain sha jid j rs om e \<and> j_mode j = Mode_Required \<and> j_faults j = {}
     \<and> 524 * (length rs + room) + unat (j_reserve_total j) \<le> unat (j_max_bytes j)
     \<and> 1024 \<le> unat (j_segment_bytes j) \<and> j_store j T_Pending = pt"

lemma ready_chain: "ready sha jid room rs om pt e j \<Longrightarrow> chain sha jid j rs om e"
  by (simp add: ready_def)

lemma ready_keeps:
  assumes "keeps sha jid m" "calm m" "ready sha jid room rs om pt e j"
  shows "ready sha jid room rs om pt e (snd (m j))"
proof -
  from assms(2) have "same_settings j (snd (m j))" by (simp add: calm_def)
  with assms(1,3) show ?thesis by (auto simp: ready_def keeps_def same_settings_def)
qed

lemma runs_keeps:
  assumes "keeps sha jid m" "calm m" "\<And>j. ready sha jid room rs om pt e j \<Longrightarrow> \<exists>x. fst (m j) = Inr x \<and> V x"
  shows "runs (ready sha jid room rs om pt e) m (\<lambda>x j. V x \<and> ready sha jid room rs om pt e j)"
  unfolding runs_def
proof (intro allI impI)
  fix j assume r: "ready sha jid room rs om pt e j"
  with assms(3) obtain x where "fst (m j) = Inr x" "V x" by blast
  with ready_keeps [OF assms(1,2) r] show "\<exists>x j'. m j = (Inr x, j') \<and> V x \<and> ready sha jid room rs om pt e j'"
    by (intro exI [of _ x] exI [of _ "snd (m j)"]) (simp add: prod_eq_iff)
qed

text \<open>An operation that always succeeds in a ready journal and keeps it ready can be skipped.\<close>

definition passes :: "(journal \<Rightarrow> bool) \<Rightarrow> 'a jm \<Rightarrow> bool" where
  "passes P m \<longleftrightarrow> runs P m (\<lambda>_. P)"

lemma passes_keeps:
  assumes "keeps sha jid m" "calm m" "\<And>j. ready sha jid room rs om pt e j \<Longrightarrow> \<exists>x. fst (m j) = Inr x"
  shows "passes (ready sha jid room rs om pt e) m"
  using runs_keeps [OF assms(1,2), where V = "\<lambda>_. True"] assms(3) by (simp add: passes_def)

lemma runs_pass: "passes P m \<Longrightarrow> (\<And>x. runs P (k x) R) \<Longrightarrow> runs P (jbind m k) R"
  unfolding passes_def by (rule runs_bind)

lemma take_fault_ready:
  "ready sha jid room rs om pt e j \<Longrightarrow> take_fault p j = (Inr False, j)"
  by (simp add: ready_def take_fault_def)

lemma passes_preflight: "passes (ready sha jid room rs om pt e) (preflight b)"
  by (auto simp: passes_def runs_def preflight_def take_either_def jbind_def jread_def jguard_def
      take_fault_ready) (simp add: ready_def)

lemma passes_flush: "passes (ready sha jid room rs om pt e) (journal_flush b op_id)"
  by (auto simp: passes_def runs_def journal_flush_def jbind_def jguard_def take_fault_ready)

lemma passes_mirror: "passes (ready sha jid room rs om pt e) update_read_mirror_best_effort"
proof (rule passes_keeps)
  fix j
  obtain r j' where "append_read_mirror j = (r, j')" by fastforce
  then show "\<exists>x. fst (update_read_mirror_best_effort j) = Inr x"
    by (simp add: update_read_mirror_best_effort_def jbind_def jtry_def jreturn_def jmodify_def)
qed (intro keeps_intros calm_intros)+

lemma passes_rotation: "passes (ready sha jid room rs om pt e) post_ack_rotation"
proof (rule passes_keeps)
  fix j
  obtain r j' where "seal_active_segment False j = (r, j')" by fastforce
  then show "\<exists>x. fst (post_ack_rotation j) = Inr x"
    by (simp add: post_ack_rotation_def jbind_def jtry_def jput_def jremove_def jmodify_def)
qed (intro keeps_intros calm_intros)+

section \<open>Capacity\<close>

lemma unat_saturating_add: "unat (saturating_add a b) \<le> unat a + unat b"
proof (cases "unat a + unat b < 2 ^ 64")
  case True
  then show ?thesis by (simp add: saturating_add_def unat_word_ariths)
next
  case False
  have "unat (-1 :: u64) < 2 ^ 64" using unsigned_less [of "-1 :: u64", where ?'a = nat] by simp
  with False show ?thesis unfolding saturating_add_def by (simp only: if_False)
qed

lemma saturating_total_le:
  "unat (saturating_total es) \<le> sum_list (map (length \<circ> snd) es)"
proof -
  have "unat (foldl (\<lambda>s (_, v). saturating_add s (of_nat (length v))) a es)
      \<le> unat a + sum_list (map (length \<circ> snd) es)" for a
  proof (induction es arbitrary: a)
    case (Cons kv es)
    obtain k v where kv: "kv = (k, v)" by fastforce
    have "unat (of_nat (length v) :: u64) \<le> length v" by (simp add: unat_of_nat)
    with unat_saturating_add [of a "of_nat (length v)"] Cons [of "saturating_add a (of_nat (length v))"] kv
    show ?case by simp
  qed simp
  from this [of 0] show ?thesis by (simp add: saturating_total_def)
qed

lemma length_segment_blob_le:
  assumes "\<forall>r \<in> set rs. wf_record r" "length jid = 16"
  shows "length (segment_blob (entries_of jid rs)) \<le> 524 * length rs"
  using assms
proof (induction rs)
  case (Cons r rs)
  then have "length (record_fields jid r) \<le> 512" by (simp add: length_record_fields)
  moreover have "length (segment_blob (entries_of jid (r # rs)))
      = 12 + length (record_fields jid r) + length (segment_blob (entries_of jid rs))"
    by (simp add: segment_blob_def entries_of_def)
  ultimately show ?case using Cons by simp
qed (simp add: segment_blob_def entries_of_def)

lemma length_sealed_entries:
  assumes "\<forall>seg \<in> set segs. \<forall>r \<in> set seg. wf_record r" "length jid = 16"
  shows "sum_list (map (length \<circ> snd) (sealed_entries jid segs)) \<le> 524 * length (concat segs)"
  using assms
proof (induction segs rule: rev_induct)
  case (snoc seg segs)
  with length_segment_blob_le [of seg jid] show ?case by (simp add: sealed_entries_snoc)
qed (simp add: sealed_entries_def)

lemma length_active_entries:
  assumes "\<forall>r \<in> set rs. wf_record r" "length jid = 16"
  shows "sum_list (map (length \<circ> snd) (entries_of jid rs)) \<le> 524 * length rs"
  using assms
proof (induction rs)
  case (Cons r rs)
  then have "length (record_fields jid r) \<le> 512" by (simp add: length_record_fields)
  with Cons show ?case by (simp add: entries_of_def)
qed (simp add: entries_of_def)

text \<open>What the quota check adds up is bounded by the number of records.\<close>

lemma quota_used:
  assumes "chain_store sha jid s rs" "length jid = 16"
  shows "unat (saturating_add (saturating_total (kv_scan T_Records s)) (saturating_total (kv_scan T_SealedSegments s)))
    \<le> 524 * length rs"
proof -
  from assms(1) obtain segs act where rs: "rs = concat segs @ act"
    and scans: "kv_scan T_SealedSegments s = sealed_entries jid segs" "kv_scan T_Records s = entries_of jid act"
    and l: "linked sha jid rs" by (auto simp: chain_store_def)
  have wf: "\<forall>seg \<in> set segs. \<forall>r \<in> set seg. wf_record r" "\<forall>r \<in> set act. wf_record r"
    using linked_wf [OF l] rs by auto
  have "unat (saturating_total (kv_scan T_Records s)) \<le> 524 * length act"
    "unat (saturating_total (kv_scan T_SealedSegments s)) \<le> 524 * length (concat segs)"
    using saturating_total_le [of "entries_of jid act"] saturating_total_le [of "sealed_entries jid segs"]
      length_active_entries [OF wf(2) assms(2)] length_sealed_entries [OF wf(1) assms(2)]
    unfolding scans by linarith+
  with unat_saturating_add [of "saturating_total (kv_scan T_Records s)" "saturating_total (kv_scan T_SealedSegments s)"] rs
  show ?thesis by simp
qed

text \<open>Sealing succeeds: the next segment number is free and does not overflow.\<close>

lemma seal_succeeds:
  assumes r: "ready sha jid room rs om pt e j" and sha: "\<forall>x. length (sha x) = 32"
  shows "\<exists>j'. seal_active_segment force j = (Inr (), j')"
proof -
  let ?s = "j_store j"
  from r have ch: "chain_store sha jid ?s rs" by (simp add: ready_def chain_def)
  then obtain segs act where segs: "rs = concat segs @ act" "[] \<notin> set segs"
    "kv_scan T_SealedSegments ?s = sealed_entries jid segs" "kv_scan T_Records ?s = entries_of jid act"
    "kv_get T_Meta CURRENT_SEGMENT ?s = Some (u64_to_be (of_nat (length segs)))"
    and later: "\<forall>k > of_nat (length segs). kv_get T_Segments (u64_to_be k) ?s = None"
    and len: "length rs < 2 ^ 64"
    by (auto simp: chain_store_def)
  show ?thesis
  proof (cases "act = []")
    case True
    then show ?thesis
      using segs(4) take_fault_ready [OF r]
      by (simp add: seal_active_segment_def jbind_def jguard_def jread_def jreturn_def Let_def entries_of_def)
  next
    case False
    then have bound: "Suc (length segs) < 2 ^ 64"
      using segments_bound [OF segs(2)] segs(1) len by (cases act) simp_all
    have next_id: "checked_add (of_nat (length segs)) 1 = Some (of_nat (length segs) + 1)"
      using bound by (simp add: checked_add_def unat_of_nat)
    have free: "kv_get T_Segments (u64_to_be (of_nat (length segs) + 1)) ?s = None"
      using later bound by (simp add: word_less_nat_alt unat_of_nat unat_word_ariths)
    have "(of_nat i :: u64) \<noteq> of_nat (length segs)" if "i < length segs" for i
    proof -
      have "unat (of_nat i :: u64) = i" "unat (of_nat (length segs) :: u64) = length segs"
        using that bound by (simp_all add: unat_of_nat)
      with that show ?thesis by (metis less_irrefl)
    qed
    then have unsealed: "kv_get T_SealedSegments (u64_to_be (of_nat (length segs))) ?s = None"
      using segs(3) by (fastforce simp: kv_get_def kv_scan_def sealed_entries_def map_of_eq_None_iff)
    show ?thesis
      using segs(4,5) take_fault_ready [OF r] next_id free unsealed head_of_chain [OF ch sha]
      by (simp add: seal_active_segment_def jbind_def jguard_def jread_def jreturn_def Let_def jget_def
          jlift_def parse_u64_def journal_head_def jtransaction_def kv_transaction_def split: prod.split)
  qed
qed

lemma ready_segment: "ready sha jid room rs om pt e j \<Longrightarrow> n \<le> 1024 \<Longrightarrow> of_nat n \<le> j_segment_bytes j"
  by (simp add: ready_def word_le_nat_alt unat_of_nat)

lemma passes_capacity:
  assumes sha: "\<forall>x. length (sha x) = 32" and jid: "length jid = 16" and n: "n \<le> 1024" "n \<le> 524 * room"
  shows "passes (ready sha jid room rs om pt e) (ensure_user_capacity (of_nat n))"
proof (rule passes_keeps)
  fix j assume r: "ready sha jid room rs om pt e j"
  let ?used = "saturating_total (kv_scan T_Records (j_store j))"
  let ?all = "saturating_add ?used (saturating_total (kv_scan T_SealedSegments (j_store j)))"
  have ch: "chain_store sha jid (j_store j) rs" using r by (simp add: ready_def chain_def)
  have seg: "\<not> j_segment_bytes j < of_nat n" using ready_segment [OF r n(1)] by (simp add: not_less)
  have un: "unat (of_nat n :: u64) = n" using n by (simp add: unat_of_nat)
  have "unat (saturating_add ?all (of_nat n)) \<le> 524 * length rs + n"
    using unat_saturating_add [of ?all "of_nat n"] quota_used [OF ch jid] un by linarith
  moreover have le: "j_reserve_total j \<le> j_max_bytes j" using r by (simp add: ready_def word_le_nat_alt)
  moreover have "unat (j_max_bytes j - j_reserve_total j) = unat (j_max_bytes j) - unat (j_reserve_total j)"
    using le by (rule unat_sub)
  moreover have "524 * length rs + 524 * room + unat (j_reserve_total j) \<le> unat (j_max_bytes j)"
    using r by (simp add: ready_def algebra_simps)
  ultimately have quota: "\<not> j_max_bytes j - j_reserve_total j < saturating_add ?all (of_nat n)"
    using n(2) unfolding not_less word_le_nat_alt by linarith
  obtain j' where "seal_active_segment True j = (Inr (), j')" using seal_succeeds [OF r sha] by blast
  then show "\<exists>x. fst (ensure_user_capacity (of_nat n) j) = Inr x"
    using seg le quota
    by (simp add: ensure_user_capacity_def jbind_def jread_def jguard_def jlift_def Let_def checked_sub_def
        jmap_err_def jreturn_def)
qed (unfold ensure_user_capacity_def Let_def, (intro keeps_intros calm_intros)+)

section \<open>Appending\<close>

lemma runs_epoch:
  "runs (ready sha jid room rs om pt e) (k e) R \<Longrightarrow> runs (ready sha jid room rs om pt e) (jbind (jread j_epoch) k) R"
  by (rule runs_read) (simp_all add: ready_def chain_def)

lemma runs_known:
  "runs (ready sha jid room rs om pt e) (k (om op_id \<noteq> None)) R \<Longrightarrow>
     runs (ready sha jid room rs om pt e) (jbind (jread (\<lambda>j. kv_contains T_Operations op_id (j_store j))) k) R"
  by (rule runs_read) (auto simp: ready_def chain_def ops_of_def encoded_ops_def kv_contains_def fun_eq_iff)

lemma runs_head:
  assumes "\<forall>x. length (sha x) = 32"
    and "runs (ready sha jid room rs om pt e) (k (of_nat (length rs)) (chain_head sha jid rs)) R"
  shows "runs (ready sha jid room rs om pt e) (jbind journal_head (\<lambda>(sequence, previous). k sequence previous)) R"
  using assms(2) head_of_chain [OF _ assms(1)]
  by (auto simp: runs_def jbind_def journal_head_def ready_def chain_def)

lemma runs_encode:
  assumes "encode_record jid r = Inr bs" "runs (ready sha jid room rs om pt e) (k bs) R"
  shows "runs (ready sha jid room rs om pt e) (jbind (jencode r) k) R"
  unfolding jencode_def jbind_assoc
  by (rule runs_read [where v = jid]) (use assms in \<open>simp_all add: ready_def chain_def runs_lift map_err_eq_Inr\<close>)

lemma runs_load_state:
  assumes "om op_id = Some st" "runs (ready sha jid room rs om pt e) (k st) R"
  shows "runs (ready sha jid room rs om pt e) (jbind (load_state op_id) k) R"
proof -
  have "load_state op_id j = (Inr st, j)" if "ready sha jid room rs om pt e j" for j
  proof -
    from that assms(1) have *: "kv_get T_Operations op_id (j_store j) = Some (state_encode st)" "wf_state st"
      by (auto simp: ready_def chain_def ops_of_def encoded_ops_def fun_eq_iff wf_ops_def ranI)
    then show ?thesis
      by (simp add: load_state_def jbind_def jget_def jread_def jlift_def state_decode_encode)
  qed
  with assms(2) show ?thesis by (simp add: runs_def jbind_def)
qed

lemma runs_commit:
  assumes enc: "encode_record jid (stamped sha jid rs r) = Inr bs"
    and cb: "commits (\<lambda>_. True) q ev (rb_bytes bs) (hash_record sha bs) upd pend cb"
    and sha: "\<forall>x. length (sha x) = 32" and space: "length rs + 2 < 2 ^ 64" and wf: "wf_record r"
    and q: "q = of_nat (length rs) + 1" and ev: "ev = wr_event_id r"
    and upd: "upd (encoded_ops om) = encoded_ops om'" "wf_ops om \<Longrightarrow> wf_ops om'" "pend (open_ops om) = open_ops om'"
    and new: "wr_event_id r \<notin> set (map wr_event_id rs)"
    and ok: "\<And>s. head_matches (of_nat (length rs)) s \<Longrightarrow> kv_get T_Events (wr_event_id r) s = None \<Longrightarrow>
        ops_of s = encoded_ops om \<Longrightarrow> s T_Pending = pt \<Longrightarrow> \<exists>s'. cb s = Inr s' \<and> s' T_Pending = pt'"
    and tail: "runs (ready sha jid room (rs @ [stamped sha jid rs r]) om' pt' e) (k ()) R"
  shows "runs (ready sha jid (Suc room) rs om pt e) (jbind (jtransaction cb) k) R"
  unfolding runs_def
proof (intro allI impI)
  fix j assume rd: "ready sha jid (Suc room) rs om pt e j"
  then have ch: "chain_store sha jid (j_store j) rs" "ops_of (j_store j) = encoded_ops om" "wf_ops om"
    "pending_of (j_store j) = open_ops om" by (simp_all add: ready_def chain_def)
  have "kv_get T_Events (wr_event_id r) (j_store j) = None"
    using ch(1) new event_index_None [of rs "wr_event_id r"] by (simp add: chain_store_def)
  moreover have "head_matches (of_nat (length rs)) (j_store j)"
    using ch(1) by (simp add: chain_store_def head_matches_def)
  moreover have "j_store j T_Pending = pt" using rd by (simp add: ready_def)
  ultimately obtain s' where s': "cb (j_store j) = Inr s'" "s' T_Pending = pt'" using ok ch by blast
  note new = commit_chain [OF enc cb sha space wf q ev upd ch s'(1)]
  have "ready sha jid room (rs @ [stamped sha jid rs r]) om' pt' e (j\<lparr>j_store := s'\<rparr>)"
    using rd new s'(2) by (auto simp: ready_def chain_def)
  with tail obtain x j' where "k () (j\<lparr>j_store := s'\<rparr>) = (Inr x, j')" "R x j'"
    unfolding runs_def by blast
  with s'(1) show "\<exists>x j'. jbind (jtransaction cb) k j = (Inr x, j') \<and> R x j'"
    by (simp add: jbind_def jtransaction_def kv_transaction_def)
qed

lemmas runs_commit_op = runs_commit [where upd = "\<lambda>ops. ops(op_id \<mapsto> state_encode st)"
    and om' = "om(op_id \<mapsto> st)" for op_id st om]

lemma runs_passes: "passes P m \<Longrightarrow> runs P m (\<lambda>_. P)"
  by (simp add: passes_def)

lemma valid_stage_stamped [simp]:
  "valid_stage (stamped sha jid rs (r\<lparr>wr_epoch := e\<rparr>)) = valid_stage r"
  by (simp add: valid_stage_def cong: witness_stage.case_cong witness_outcome.case_cong option.case_cong bool.case_cong)

text \<open>The stamped record encodes, in at most 512 bytes.\<close>

lemma encode_stamped:
  assumes "\<forall>x. length (sha x) = 32" "length jid = 16" "wf_record r" "valid_stage r"
  obtains bs where "encode_record jid (stamped sha jid rs (r\<lparr>wr_epoch := e\<rparr>)) = Inr bs"
    "length (rb_bytes bs) \<le> 512"
proof -
  let ?r = "stamped sha jid rs (r\<lparr>wr_epoch := e\<rparr>)"
  have wf: "wf_record ?r" using assms(1,3) by (simp add: wf_record_next)
  have "encode_record jid ?r = Inr \<lparr>rb_journal_id = jid, rb_bytes = record_fields jid ?r\<rparr>"
    using assms(4) by (intro encode_record_ok [OF wf assms(2)]) simp
  then show ?thesis using length_record_fields [OF wf assms(2)] that by simp
qed

lemma pending_frame [simp]:
  "put_record q ev b s T_Pending = s T_Pending" "put_head q h s T_Pending = s T_Pending"
  "kv_put T_Pending k v s T_Pending = alist_put k v (s T_Pending)"
  "kv_remove T_Pending k s T_Pending = alist_remove k (s T_Pending)"
  "tr \<noteq> T_Pending \<Longrightarrow> kv_put tr k v s T_Pending = s T_Pending"
  by (simp_all add: put_record_def put_head_def kv_put_def kv_remove_def)

lemma runs_append_received:
  assumes sha: "\<forall>x. length (sha x) = 32" and jid: "length jid = 16" and space: "length rs + 2 < 2 ^ 64"
    and r: "wf_record r" "valid_stage r" "wr_stage r = St_RequestReceived" "wr_event_id r \<notin> set (map wr_event_id rs)"
    and recipe: "rr_precondition_digest recipe = wr_request_digest r"
      "rr_resource_generation recipe = wr_resource_generation r" "rr_original_action recipe = wr_action r"
      "rr_resource_kind recipe = wr_resource_kind r"
    and new: "om op_id = None"
  shows "runs (ready sha jid (Suc room) rs om pt e) (append_received sha op_id g recipe r)
    (\<lambda>_. ready sha jid room (rs @ [stamped sha jid rs (r\<lparr>wr_epoch := e\<rparr>)])
       (om(op_id \<mapsto> state_received sha (stamped sha jid rs (r\<lparr>wr_epoch := e\<rparr>)) g))
       (alist_put op_id (recipe_encode g recipe) pt) e)"
proof -
  obtain bs where enc: "encode_record jid (stamped sha jid rs (r\<lparr>wr_epoch := e\<rparr>)) = Inr bs"
    and len: "length (rb_bytes bs) \<le> 512"
    by (rule encode_stamped [OF sha jid r(1,2)])
  show ?thesis
    unfolding append_received_def Let_def
    apply (rule runs_epoch)
    apply (rule runs_guard, simp add: r)
    apply (rule runs_guard, simp add: recipe)
    apply (rule runs_pass [OF passes_preflight])
    apply (rule runs_known)
    apply (rule runs_guard, simp add: new)
    apply (rule runs_head [OF sha])
    apply (rule runs_encode [OF enc])
    apply (unfold record_len_def)
    apply (rule runs_pass [OF passes_capacity [OF sha jid]])
      apply (use len in simp, use len in simp)
    apply (rule runs_commit_op [where r = "r\<lparr>wr_epoch := e\<rparr>" and ev = "wr_event_id r" and op_id = op_id
        and st = "state_received sha (stamped sha jid rs (r\<lparr>wr_epoch := e\<rparr>)) g"
        and pend = "insert op_id" and q = "of_nat (length rs) + 1" and bs = bs, OF enc _ sha space])
             apply (simp cong: if_cong split del: if_split)
             apply (intro commits_intros; simp add: kv_get_put)
            apply (simp_all add: r)
      apply (rule wf_ops_update, assumption, rule wf_state_received [OF wf_record_next [OF _ sha] sha])
      apply (simp add: r)
     apply (use r(4) in force)
     apply (use new in \<open>auto simp: ops_of_def encoded_ops_def fun_eq_iff pending_frame dest: spec [of _ op_id]\<close>)[1]
    apply (intro runs_pass [OF passes_flush] runs_pass [OF passes_mirror] runs_passes [OF passes_rotation])
    done
qed

lemma runs_pending:
  assumes "map_of pt op_id = Some v" "runs (ready sha jid room rs om pt e) (k (Some v)) R"
  shows "runs (ready sha jid room rs om pt e) (jbind (jget T_Pending op_id) k) R"
  using assms by (auto simp: runs_def jbind_def jget_def jread_def ready_def kv_get_def)

text \<open>The state of an operation after its decision, and the intent that the executor is given.\<close>

definition allowed_state ::
  "(bytes \<Rightarrow> bytes) \<Rightarrow> bytes \<Rightarrow> witness_record \<Rightarrow> operation_state \<Rightarrow> operation_state" where
  "allowed_state sha jid r st = st\<lparr>os_state := ALLOWED, os_pending_generation := os_pending_generation st + 1,
     os_decision_id := the (wr_decision_id r), os_decision_digest := record_hash sha jid r\<rparr>"

definition granted :: "bytes \<Rightarrow> u64 \<Rightarrow> bytes \<Rightarrow> u64 \<Rightarrow> operation_state \<Rightarrow> durable_intent \<Rightarrow> bool" where
  "granted jid e op_id generation st intent \<longleftrightarrow> di_journal_id intent = jid \<and> di_epoch intent = e
     \<and> di_operation_id intent = op_id \<and> di_execution_generation intent = generation
     \<and> di_pending_generation intent = os_pending_generation st \<and> di_decision_id intent = os_decision_id st
     \<and> di_decision_digest intent = os_decision_digest st \<and> di_request_digest intent = os_request_digest st"

lemma runs_append_decision_record:
  assumes sha: "\<forall>x. length (sha x) = 32" and jid: "length jid = 16" and space: "length rs + 2 < 2 ^ 64"
    and r: "wf_record r" "valid_stage r" "wr_event_id r \<notin> set (map wr_event_id rs)" "wr_decision_id r = Some did"
    and st: "om op_id = Some st" "wf_state st" "os_state st \<noteq> COMPLETE"
  shows "runs (ready sha jid (Suc room) rs om pt e) (append_decision_record sha op_id (r\<lparr>wr_epoch := e\<rparr>) st)
    (\<lambda>(h, st') j. st' = allowed_state sha jid (stamped sha jid rs (r\<lparr>wr_epoch := e\<rparr>)) st
       \<and> h = os_decision_digest st' \<and> ready sha jid room (rs @ [stamped sha jid rs (r\<lparr>wr_epoch := e\<rparr>)])
         (om(op_id \<mapsto> st')) pt e j)"
proof -
  let ?r = "stamped sha jid rs (r\<lparr>wr_epoch := e\<rparr>)"
  obtain bs where enc: "encode_record jid ?r = Inr bs" and len: "length (rb_bytes bs) \<le> 512"
    by (rule encode_stamped [OF sha jid r(1,2)])
  have hash: "hash_record sha bs = record_hash sha jid ?r"
    using encode_record_Inr [OF enc] by (simp add: record_hash_def)
  have st': "st\<lparr>os_state := ALLOWED, os_pending_generation := os_pending_generation st + 1,
      os_decision_id := did, os_decision_digest := hash_record sha bs\<rparr> = allowed_state sha jid ?r st"
    using r(4) by (simp add: allowed_state_def hash)
  have wf: "wf_state (allowed_state sha jid ?r st)"
    using st(2) wf_decision_id [OF r(1,4)] sha r(4)
    by (simp add: wf_state_def allowed_state_def record_hash_def hash_record_def)
  show ?thesis
    unfolding append_decision_record_def Let_def
    apply (rule runs_head [OF sha])
    apply (rule runs_encode [OF enc])
    apply (unfold record_len_def)
    apply (rule runs_pass [OF passes_capacity [OF sha jid]])
      apply (use len in simp, use len in simp)
    apply (rule runs_lift [where x = did], simp add: r)
    apply (unfold st')
    apply (rule runs_commit_op [where r = "r\<lparr>wr_epoch := e\<rparr>" and ev = "wr_event_id r" and op_id = op_id
        and st = "allowed_state sha jid ?r st" and pend = "\<lambda>P. P"
        and q = "of_nat (length rs) + 1" and bs = bs and pt' = pt, OF enc _ sha space])
             apply (simp cong: if_cong split del: if_split)
             apply (intro commits_intros; simp add: kv_get_put)
            apply (simp_all add: r)
       apply (erule wf_ops_update, rule wf)
      apply (simp add: allowed_state_def open_opsI [of om op_id st, OF st(1,3), symmetric])
     apply (use r(3) in force)
    apply (simp add: runs_def jreturn_def allowed_state_def hash)
    done
qed

lemma runs_append_decision:
  assumes sha: "\<forall>x. length (sha x) = 32" and jid: "length jid = 16" and space: "length rs + 2 < 2 ^ 64"
    and r: "wf_record r" "valid_stage r" "wr_event_id r \<notin> set (map wr_event_id rs)"
      "wr_stage r = St_Decision" "wr_decision r = Some True" "wr_decision_id r = Some did"
    and st: "om op_id = Some st" "wf_state st" "os_state st = RECEIVED" "binding_matches sha st (r\<lparr>wr_epoch := e\<rparr>)"
    and pend: "map_of pt op_id = Some v" "recipe_decode v = Some (g, recipe)"
  shows "runs (ready sha jid (Suc room) rs om pt e) (append_decision sha op_id r)
    (\<lambda>intent j. granted jid e op_id g (allowed_state sha jid (stamped sha jid rs (r\<lparr>wr_epoch := e\<rparr>)) st) intent
       \<and> ready sha jid room (rs @ [stamped sha jid rs (r\<lparr>wr_epoch := e\<rparr>)])
         (om(op_id \<mapsto> allowed_state sha jid (stamped sha jid rs (r\<lparr>wr_epoch := e\<rparr>)) st)) pt e j)"
proof -
  let ?st = "allowed_state sha jid (stamped sha jid rs (r\<lparr>wr_epoch := e\<rparr>)) st"
  have open_st: "os_state st \<noteq> COMPLETE" using st(3) by simp
  note rec = runs_append_decision_record [where om = om and op_id = op_id, OF sha jid space r(1,2,3,6) st(1,2) open_st]
  have ids: "os_decision_id ?st = did" "os_request_digest ?st = os_request_digest st"
    using r(6) by (simp_all add: allowed_state_def)
  show ?thesis
    unfolding append_decision_def Let_def
    apply (rule runs_epoch)
    apply (rule runs_guard, simp add: r)
    apply (rule runs_pass [OF passes_preflight])
    apply (rule runs_pending [OF pend(1)])
    apply (rule runs_lift [where x = v], simp)
    apply (rule runs_lift [where x = "(g, recipe)"], simp add: pend(2))
    apply (unfold prod.case)
    apply (rule runs_load_state, rule st(1))
    apply (rule runs_guard, simp add: st)
    apply (rule runs_guard, simp add: st)
    apply (rule runs_guard, simp add: r)
    apply (rule runs_lift [where x = did], simp add: r)
    apply (rule runs_bind [OF rec])
    apply (rule runs_prod)
    apply (rule runs_fact, hypsubst)+
    apply (intro runs_pass [OF passes_flush] runs_pass [OF passes_mirror] runs_pass [OF passes_rotation])
    apply (simp add: runs_def jread_def granted_def ids ready_def chain_def)
    done
qed

lemma passes_take_fault: "runs (ready sha jid room rs om pt e) (k False) R \<Longrightarrow>
    runs (ready sha jid room rs om pt e) (jbind (take_fault p) k) R"
  unfolding runs_def jbind_def using take_fault_ready by (metis (no_types, lifting) case_prod_conv old.sum.simps(6))

definition completed_state :: "operation_state \<Rightarrow> operation_state" where
  "completed_state st = st\<lparr>os_state := COMPLETE, os_unknown_event_id := replicate 16 0,
     os_pending_generation := os_pending_generation st + 1\<rparr>"

lemma runs_complete:
  assumes sha: "\<forall>x. length (sha x) = 32" and jid: "length jid = 16" and space: "length rs + 2 < 2 ^ 64"
    and r: "wf_record r" "valid_stage r" "wr_event_id r \<notin> set (map wr_event_id rs)"
      "wr_stage r = St_Outcome" "wr_outcome r \<noteq> Out_OutcomeUnknown"
    and st: "om op_id = Some st" "wf_state st" "os_state st = ALLOWED" "terminal_matches sha st (r\<lparr>wr_epoch := e\<rparr>)"
    and intent: "granted jid e op_id (os_execution_generation st) st intent" and pend: "map_of pt op_id \<noteq> None"
  shows "runs (ready sha jid (Suc room) rs om pt e) (complete sha intent r)
    (\<lambda>_. ready sha jid room (rs @ [stamped sha jid rs (r\<lparr>wr_epoch := e\<rparr>)])
       (om(op_id \<mapsto> completed_state st)) (alist_remove op_id pt) e)"
proof -
  let ?r = "stamped sha jid rs (r\<lparr>wr_epoch := e\<rparr>)"
  obtain bs where enc: "encode_record jid ?r = Inr bs" and len: "length (rb_bytes bs) \<le> 512"
    by (rule encode_stamped [OF sha jid r(1,2)])
  have wf: "wf_state (completed_state st)" using st(2) by (simp add: wf_state_def completed_state_def)
  have op: "di_operation_id intent = op_id" using intent by (simp add: granted_def)
  show ?thesis
    unfolding complete_def Let_def op
    apply (rule runs_epoch)
    apply (rule runs_guard, simp add: r)
    apply (rule runs_pass [OF passes_preflight])
    apply (rule runs_read [where v = jid], simp add: ready_def chain_def)
    apply (rule runs_guard, use intent in \<open>simp add: granted_def\<close>)
    apply (rule runs_load_state, rule st(1))
    apply (rule runs_guard, use intent st(3) in \<open>simp add: granted_def\<close>)
    apply (rule runs_guard, simp add: st)
    apply (rule passes_take_fault)
    apply (unfold if_False)
    apply (rule runs_head [OF sha])
    apply (rule runs_encode [OF enc])
    apply (unfold record_len_def)
    apply (rule runs_pass [OF passes_capacity [OF sha jid]])
      apply (use len in simp, use len in simp)
    apply (rule runs_commit_op [where r = "r\<lparr>wr_epoch := e\<rparr>" and ev = "wr_event_id r" and op_id = op_id
        and st = "completed_state st" and pend = "\<lambda>P. P - {op_id}"
        and q = "of_nat (length rs) + 1" and bs = bs and pt' = "alist_remove op_id pt", OF enc _ sha space])
             apply (simp add: r completed_state_def cong: if_cong split del: if_split)
             apply (intro commits_intros; simp add: kv_get_put kv_get_remove)
            apply (simp_all add: r)
       apply (erule wf_ops_update, rule wf)
      apply (simp add: completed_state_def)
     apply (use r(3) in force)
     apply (use pend in \<open>simp add: kv_get_def\<close>)
    apply (intro runs_pass [OF passes_flush] runs_pass [OF passes_mirror] runs_passes [OF passes_rotation])
    done
qed

section \<open>A request from receipt to outcome\<close>

text \<open>\<open>same_request r d\<close>: the later record \<open>d\<close> has the request identity and the bound fields of \<open>r\<close>.\<close>

definition same_request :: "witness_record \<Rightarrow> witness_record \<Rightarrow> bool" where
  "same_request r d \<longleftrightarrow> wr_request_id d = wr_request_id r \<and> request_binding_from d = request_binding_from r"

lemma binding_input_cong:
  "request_binding_from d = request_binding_from r \<Longrightarrow> wr_epoch d = wr_epoch r \<Longrightarrow> binding_input d = binding_input r"
  by (simp add: binding_input_def request_binding_from_def)

lemma matches_received:
  assumes "same_request r d"
  shows "binding_matches sha (state_received sha (stamped sha jid rs (r\<lparr>wr_epoch := e\<rparr>)) g) (d\<lparr>wr_epoch := e\<rparr>)"
proof -
  have "binding_input (d\<lparr>wr_epoch := e\<rparr>) = binding_input (stamped sha jid rs (r\<lparr>wr_epoch := e\<rparr>))"
    using assms by (intro binding_input_cong) (simp_all add: same_request_def request_binding_from_def)
  with assms show ?thesis
    by (simp add: binding_matches_def state_received_def request_binding_digest_def same_request_def)
qed

text \<open>What a client submits for one allowed operation: the three records, fresh and valid.\<close>

definition submission ::
  "u64 \<Rightarrow> recovery_recipe \<Rightarrow> witness_record \<Rightarrow> witness_record \<Rightarrow> witness_record \<Rightarrow> bool" where
  "submission g recipe r d out \<longleftrightarrow>
     (\<forall>x \<in> {r, d, out}. wf_record x \<and> valid_stage x) \<and> distinct (map wr_event_id [r, d, out])
     \<and> wr_stage r = St_RequestReceived \<and> rr_precondition_digest recipe = wr_request_digest r
     \<and> rr_resource_generation recipe = wr_resource_generation r \<and> rr_original_action recipe = wr_action r
     \<and> rr_resource_kind recipe = wr_resource_kind r \<and> recipe_decode (recipe_encode g recipe) = Some (g, recipe)
     \<and> same_request r d \<and> wr_stage d = St_Decision \<and> wr_decision d = Some True
     \<and> same_request r out \<and> wr_stage out = St_Outcome \<and> wr_outcome out \<noteq> Out_OutcomeUnknown
     \<and> wr_decision_id out = wr_decision_id d"

text \<open>The records as the journal writes them: epoch, sequence number and previous hash filled in.\<close>

fun stamp_all ::
  "(bytes \<Rightarrow> bytes) \<Rightarrow> bytes \<Rightarrow> u64 \<Rightarrow> witness_record list \<Rightarrow> witness_record list \<Rightarrow> witness_record list" where
  "stamp_all sha jid e rs [] = []"
| "stamp_all sha jid e rs (r # new) =
     (let r' = stamped sha jid rs (r\<lparr>wr_epoch := e\<rparr>) in r' # stamp_all sha jid e (rs @ [r']) new)"

lemma runs_submission:
  assumes sha: "\<forall>x. length (sha x) = 32" and jid: "length jid = 16" and space: "length rs + 4 < 2 ^ 64"
    and sub: "submission g recipe r d out" and new: "om op_id = None"
    and fresh: "set (map wr_event_id [r, d, out]) \<inter> set (map wr_event_id rs) = {}"
    and ready: "ready sha jid (Suc (Suc (Suc room))) rs om pt e j"
  shows "\<exists>j1 intent j2 j3 st. append_received sha op_id g recipe r j = (Inr (), j1)
    \<and> append_decision sha op_id d j1 = (Inr intent, j2) \<and> complete sha intent out j2 = (Inr (), j3)
    \<and> os_state st = COMPLETE \<and> ready sha jid room (rs @ stamp_all sha jid e rs [r, d, out]) (om(op_id \<mapsto> st))
        (alist_remove op_id (alist_put op_id (recipe_encode g recipe) pt)) e j3"
proof -
  define r' where "r' = stamped sha jid rs (r\<lparr>wr_epoch := e\<rparr>)"
  define d' where "d' = stamped sha jid (rs @ [r']) (d\<lparr>wr_epoch := e\<rparr>)"
  define st where "st = state_received sha r' g"
  define pt1 where "pt1 = alist_put op_id (recipe_encode g recipe) pt"
  note s = sub [unfolded submission_def]
  have room: "length rs + 2 < 2 ^ 64" "length (rs @ [r']) + 2 < 2 ^ 64" "length (rs @ [r', d']) + 2 < 2 ^ 64"
    using space by simp_all
  from s have "valid_stage d" "wr_stage d = St_Decision" by auto
  then obtain did where did: "wr_decision_id d = Some did" by (auto simp: valid_stage_def)
  have wf: "wf_record r'" using s sha by (simp add: r'_def wf_record_next)
  have st_wf: "wf_state st" unfolding st_def by (rule wf_state_received [OF wf sha])
  have ev: "wr_event_id r' = wr_event_id r" "wr_event_id d' = wr_event_id d" by (simp_all add: r'_def d'_def)
  have 1: "runs (ready sha jid (Suc (Suc (Suc room))) rs om pt e) (append_received sha op_id g recipe r)
      (\<lambda>_. ready sha jid (Suc (Suc room)) (rs @ [r']) (om(op_id \<mapsto> st)) pt1 e)"
    using s fresh new unfolding r'_def st_def pt1_def
    by (intro runs_append_received [OF sha jid room(1)]) auto
  have m: "binding_matches sha st (x\<lparr>wr_epoch := e\<rparr>)" if "same_request r x" for x
    unfolding st_def r'_def using that by (rule matches_received)
  have 2: "runs (ready sha jid (Suc (Suc room)) (rs @ [r']) (om(op_id \<mapsto> st)) pt1 e) (append_decision sha op_id d)
      (\<lambda>intent j. granted jid e op_id g (allowed_state sha jid d' st) intent
         \<and> ready sha jid (Suc room) ((rs @ [r']) @ [d']) ((om(op_id \<mapsto> st))(op_id \<mapsto> allowed_state sha jid d' st)) pt1 e j)"
    unfolding d'_def
    by (rule runs_append_decision [OF sha jid room(2), where v = "recipe_encode g recipe" and recipe = recipe and did = did])
      (use s fresh did m st_wf ev in \<open>auto simp: pt1_def alist_put_lookup st_def\<close>)
  define st2 where "st2 = allowed_state sha jid d' st"
  have st2: "wf_state st2" "os_state st2 = ALLOWED" "os_execution_generation st2 = g"
    using st_wf wf_decision_id [of d did] did s sha
    by (auto simp: st2_def allowed_state_def wf_state_def d'_def record_hash_def hash_record_def st_def state_received_def)
  have tm: "terminal_matches sha st2 (out\<lparr>wr_epoch := e\<rparr>)"
    using m [of out] s did by (simp add: terminal_matches_def binding_matches_def st2_def allowed_state_def d'_def)
  have 3: "runs (ready sha jid (Suc room) (rs @ [r', d']) (om(op_id \<mapsto> st2)) pt1 e) (complete sha intent out)
      (\<lambda>_. ready sha jid room ((rs @ [r', d']) @ [stamped sha jid (rs @ [r', d']) (out\<lparr>wr_epoch := e\<rparr>)])
         ((om(op_id \<mapsto> st2))(op_id \<mapsto> completed_state st2)) (alist_remove op_id pt1) e)"
    if "granted jid e op_id g st2 intent" for intent
    by (rule runs_complete [OF sha jid room(3)])
      (use s fresh ev st2 tm that in \<open>auto simp: pt1_def alist_put_lookup\<close>)
  from 1 ready obtain j1 where j1: "append_received sha op_id g recipe r j = (Inr (), j1)"
    "ready sha jid (Suc (Suc room)) (rs @ [r']) (om(op_id \<mapsto> st)) pt1 e j1"
    unfolding runs_def by auto
  from 2 j1(2) obtain intent j2 where j2: "append_decision sha op_id d j1 = (Inr intent, j2)"
    "granted jid e op_id g st2 intent" "ready sha jid (Suc room) (rs @ [r', d']) (om(op_id \<mapsto> st2)) pt1 e j2"
    unfolding runs_def st2_def by auto
  from 3 [OF j2(2)] j2(3) obtain j3 where "complete sha intent out j2 = (Inr (), j3)"
    "ready sha jid room (rs @ [r', d', stamped sha jid (rs @ [r', d']) (out\<lparr>wr_epoch := e\<rparr>)])
       (om(op_id \<mapsto> completed_state st2)) (alist_remove op_id pt1) e j3"
    unfolding runs_def by auto
  moreover have "os_state (completed_state st2) = COMPLETE" by (simp add: completed_state_def)
  ultimately show ?thesis
    using j1(1) j2(1) unfolding r'_def d'_def pt1_def by (auto simp: Let_def simp del: fun_upd_apply)
qed

lemma reachable_chain:
  assumes "\<forall>x. length (sha x) = 32" "open_with_faults sha config faults fresh_disk = (Inr j0, d0)"
    and "\<forall>op \<in> set ops. wf_op op" "length ops < 2 ^ 62"
  obtains rs om e where "chain sha (jc_journal_id config) (run_ops sha ops j0) rs om e" "length rs \<le> 2 * length ops"
  using run_ops_chain [OF assms(1) _ assms(3) chain_open_fresh [OF assms(2)]] assms(4) by auto

text \<open>The settings of a fresh journal are those of its configuration.\<close>

lemma calm_repair_read_mirror [calm_intros]: "calm (repair_read_mirror sha)"
proof -
  have "calm (\<lambda>j. case append_frames (n j) first (j_journal_id j) (j_store j) (j_mirror j) of
      (r, files) \<Rightarrow> (r, j\<lparr>j_mirror := files\<rparr>))" for n first
    by (simp add: calm_def same_settings_def case_prod_beta)
  moreover have "calm (jmodify (\<lambda>j. j\<lparr>j_mirror := f j, j_mirror_sequence := n\<rparr>))" for f n
    by (simp add: calm_def same_settings_def jmodify_def)
  ultimately show ?thesis
    unfolding repair_read_mirror_def rebuild_read_mirror_def append_read_mirror_def
    by (intro calm_intros calm_modify_mirror)
qed

lemma fresh_settings:
  assumes "open_with_faults sha config faults fresh_disk = (Inr j, d)"
  shows "j_mode j = jc_mode config" "j_faults j \<subseteq> faults" "j_max_bytes j = jc_max_journal_bytes config"
    "j_reserve_total j = jc_cleanup_reserve_bytes config" "j_segment_bytes j = jc_segment_bytes config"
    "j_store j T_Pending = []"
proof -
  define prepared where "prepared = snd (jmodify (\<lambda>j.
       let s = kv_put T_Meta JOURNAL_ID (j_journal_id j) (j_store j);
           s = kv_put T_Meta HEAD_SEQUENCE (u64_to_be 0) s;
           s = kv_put T_Meta HEAD_HASH (replicate 32 0) s;
           s = kv_put T_Meta EPOCH (u64_to_be 1) s;
           s = kv_put T_Meta RESERVE (u64_to_be (jc_cleanup_reserve_bytes config)) s;
           s = kv_put T_Meta RESERVE_TOTAL (u64_to_be (jc_cleanup_reserve_bytes config)) s;
           s = kv_put T_Meta MAX_BYTES (u64_to_be (j_max_bytes j)) s;
           s = kv_put T_Meta CURRENT_SEGMENT (u64_to_be 0) s;
           s = kv_put T_Segments (u64_to_be 0) (u64_to_be 1 @ replicate 32 0) s
       in j\<lparr>j_store := s, j_reserve_len := Some (jc_cleanup_reserve_bytes config)\<rparr>) (fresh_journal config faults))"
  define rest where "rest = jbind (take_fault (FP_AfterFlush FB_Reserve)) (\<lambda>fault.
     jbind (jguard fault J_AutomationStopped) (\<lambda>_. repair_read_mirror sha))"
  have "calm rest" unfolding rest_def by (intro calm_intros)
  moreover have "j = snd (rest prepared)"
    using assms unfolding open_fresh initialize_fresh_def jbind_def [of "jmodify _"] rest_def prepared_def
    by (auto simp: jmodify_def split: prod.splits sum.splits)
  ultimately have "same_settings prepared j" by (simp add: calm_def)
  moreover have "same_settings (fresh_journal config faults) prepared"
    by (simp add: same_settings_def prepared_def jmodify_def Let_def kv_put_def)
  ultimately have "same_settings (fresh_journal config faults) j" by (rule same_settings_trans [rotated])
  then show "j_mode j = jc_mode config" "j_faults j \<subseteq> faults" "j_max_bytes j = jc_max_journal_bytes config"
    "j_reserve_total j = jc_cleanup_reserve_bytes config" "j_segment_bytes j = jc_segment_bytes config"
    "j_store j T_Pending = []"
    by (simp_all add: same_settings_def fresh_journal_def)
qed

section \<open>An example request\<close>

definition run_recipe :: recovery_recipe where
  "run_recipe = \<lparr>rr_original_action = ContainerRun, rr_resource_kind = RK_Container,
     rr_action = ContainerDelete, rr_precondition_digest = replicate 32 8, rr_resource_generation = 1,
     rr_truth_strategy = expected_strategy ContainerRun, rr_observation_digest = replicate 32 2,
     rr_observation_handle = replicate 16 4\<rparr>"

lemma run_recipe_decodes: "recipe_decode (recipe_encode 5 run_recipe) = Some (5, run_recipe)"
  by (rule recipe_decode_encode)
    (simp_all add: run_recipe_def wf_recipe_def closed_inverse_def expected_strategy_def
      for_container_action_def undecodable_def)

lemma example_submission: "submission 5 run_recipe example_record (example_decision toy_sha) (example_outcome toy_sha)"
proof -
  have "wf_record x \<and> valid_stage x" if "x \<in> {example_record, example_decision toy_sha, example_outcome toy_sha}" for x
    using that example_wf [OF length_toy_sha] by (auto simp: example_records_def)
  then show ?thesis
    unfolding submission_def using run_recipe_decodes
    by (auto simp: same_request_def request_binding_from_def example_defs run_recipe_def)
qed

section \<open>Recording a request\<close>

lemma submission_recorded:
  assumes "\<forall>x. length (sha x) = 32" and "length (jc_journal_id config) = 16"
    and "open_with_faults sha config faults fresh_disk = (Inr j0, d0)"
    and "\<forall>op \<in> set ops. wf_op op" and "length ops < 2 ^ 62" and "j = run_ops sha ops j0"
    and "j_mode j = Mode_Required" and "j_faults j = {}" and "1024 \<le> unat (j_segment_bytes j)"
    and "524 * (2 * length ops + 3) + unat (j_reserve_total j) \<le> unat (j_max_bytes j)"
    and "submission g recipe r d out" and "kv_get T_Operations op_id (j_store j) = None"
    and "\<forall>x \<in> {r, d, out}. kv_get T_Events (wr_event_id x) (j_store j) = None"
  shows "\<exists>rs j1 intent j2 j3. journal_records (j_store j) = Inr (map (record_fields (jc_journal_id config)) rs)
    \<and> append_received sha op_id g recipe r j = (Inr (), j1)
    \<and> append_decision sha op_id d j1 = (Inr intent, j2) \<and> complete sha intent out j2 = (Inr (), j3)
    \<and> journal_records (j_store j3) = Inr (map (record_fields (jc_journal_id config))
        (rs @ stamp_all sha (jc_journal_id config) (j_epoch j) rs [r, d, out]))"
proof -
  let ?jid = "jc_journal_id config"
  obtain rs om e where ch: "chain sha ?jid j rs om e" and len: "length rs \<le> 2 * length ops"
    using reachable_chain [OF assms(1,3,4,5)] assms(6) by blast
  have rdy: "ready sha ?jid (Suc (Suc (Suc 0))) rs om (j_store j T_Pending) e j"
    using ch assms(7-10) len by (simp add: ready_def)
  have "om op_id = None"
    using ch assms(12) by (auto simp: chain_def ops_of_def encoded_ops_def fun_eq_iff dest: spec [of _ op_id])
  moreover have "set (map wr_event_id [r, d, out]) \<inter> set (map wr_event_id rs) = {}"
    using ch assms(13) event_index_None [of rs] by (auto simp: chain_def chain_store_def)
  moreover have "length rs + 4 < 2 ^ 64" using len assms(5) by simp
  ultimately obtain j1 intent j2 j3 st where ops: "append_received sha op_id g recipe r j = (Inr (), j1)"
    "append_decision sha op_id d j1 = (Inr intent, j2)" "complete sha intent out j2 = (Inr (), j3)"
    and fin: "ready sha ?jid 0 (rs @ stamp_all sha ?jid e rs [r, d, out]) (om(op_id \<mapsto> st))
        (alist_remove op_id (alist_put op_id (recipe_encode g recipe) (j_store j T_Pending))) e j3"
    using runs_submission [OF assms(1,2) _ assms(11) _ _ rdy, of op_id] by blast
  have "j_epoch j = e" using ch by (simp add: chain_def)
  moreover have "journal_records (j_store j) = Inr (map (record_fields ?jid) rs)"
    "journal_records (j_store j3) = Inr (map (record_fields ?jid) (rs @ stamp_all sha ?jid e rs [r, d, out]))"
    using chain_records [OF ch assms(2)] chain_records [OF ready_chain [OF fin] assms(2)] by blast+
  ultimately show ?thesis using ops by blast
qed

section \<open>Properties\<close>



lemma run_ops_verifiable:
  assumes "\<forall>x. length (sha x) = 32" and "length (jc_journal_id config) = 16"
    and "open_with_faults sha config faults fresh_disk = (Inr j0, d)"
    and "\<forall>op \<in> set ops. wf_op op \<and> strict_op op \<and> keeps_epoch op" and "length ops < 2 ^ 62"
    and "journal_records (j_store (run_ops sha ops j0)) = Inr bs" and "map decode_record bs = map Inr ds"
    and "kv_scan T_Pending (j_store (run_ops sha ops j0)) = []"
    and "inj_on sha (binding_input ` dr_record ` set ds)" and "length bs \<le> unat n"
    and "\<forall>i \<le> length ds. card (open_requests (map dr_record (take i ds))) \<le> MAX_OPEN_REQUESTS"
  obtains rs om where "chain sha (jc_journal_id config) (run_ops sha ops j0) rs om 1"
    "ds = map (decoded_of (jc_journal_id config)) rs" "bs = map (record_fields (jc_journal_id config)) rs"
    "valid_stream sha (journal_trust (jc_journal_id config) n) ds" "length rs < 2 ^ 63"
proof -
  let ?jid = "jc_journal_id config" and ?s = "j_store (run_ops sha ops j0)"
  from run_ops_abstracts [OF assms(1) _ assms(4) chain_open_fresh [OF assms(3)]] assms(5)
  obtain rs om where ch: "chain sha ?jid (run_ops sha ops j0) rs om 1"
    and abs: "abs_steps True sha ?jid 1 ([], Map.empty) (rs, om)" and len: "length rs \<le> 2 * length ops"
    by (auto simp: abstracts_def)
  from ch have cs: "chain_store sha ?jid ?s rs" and pend: "pending_of ?s = open_ops om"
    by (simp_all add: chain_def)
  have bs: "bs = map (record_fields ?jid) rs" using chain_records [OF ch assms(2)] assms(6) by simp
  have l: "linked sha ?jid rs" "distinct (map wr_event_id rs)" using cs by (auto simp: chain_store_def)
  have "decode_record (record_fields ?jid r) = Inr (decoded_of ?jid r)" if "r \<in> set rs" for r
    using that assms(2) linked_nth(1,2) [OF l(1)]
    by (auto simp: in_set_conv_nth decoded_of_def intro!: decode_record_fields)
  then have "map decode_record bs = map Inr (map (decoded_of ?jid) rs)" unfolding bs by simp
  with assms(7) have "map (Inr :: _ \<Rightarrow> witness_error + _) ds = map Inr (map (decoded_of ?jid) rs)" by simp
  then have ds: "ds = map (decoded_of ?jid) rs" by (rule map_injective) simp
  have recs: "dr_record ` set ds = set rs" "map dr_record (take i ds) = take i rs" for i
    unfolding ds by (simp_all add: image_image decoded_of_def take_map)
  have inv: "lifecycle_inv sha 1 (rs, om)"
    by (rule lifecycle_inv_steps [OF abs lifecycle_inv_init]) (use assms(9) recs in simp)
  have none: "open_ops om = {}" using assms(8) pend by (simp add: pending_of_def kv_get_def kv_scan_def)
  have "valid_stream sha (journal_trust ?jid n) ds"
    using journal_valid_prefix [OF l _ inv, of n] no_open_closed [OF inv none] assms(5,10,11) len bs ds recs
    by (simp add: valid_stream_def)
  with that ch ds bs len assms(5) show thesis by auto
qed

text \<open>C2.
  What the journal writes is what the verifier accepts: after any sequence of operations within
  one epoch, with any faults and reopenings, in which every operation is received under its
  request's identity, if no operation is pending, then \<open>verify_stream\<close> accepts the output of
  \<open>records()\<close> against the genesis trust anchor, provided SHA-256 does not collide on the requests'
  binding strings and the stream stays within the verifier's own limits of records and of open
  requests.\<close>

theorem journal_accepted_by_verifier:
  assumes "\<forall>x. length (sha x) = 32" and "length (jc_journal_id config) = 16"
    and "open_with_faults sha config faults fresh_disk = (Inr j, d)"
    and "\<forall>op \<in> set ops. wf_op op \<and> strict_op op \<and> keeps_epoch op" and "length ops < 2 ^ 62"
    and "journal_records (j_store (run_ops sha ops j)) = Inr bs" and "map decode_record bs = map Inr ds"
    and "kv_scan T_Pending (j_store (run_ops sha ops j)) = []"
    and "inj_on sha (binding_input ` dr_record ` set ds)" and "length bs \<le> unat n"
    and "\<forall>i \<le> length ds. card (open_requests (map dr_record (take i ds))) \<le> MAX_OPEN_REQUESTS"
  shows "\<exists>rep. verify_stream sha bs (journal_trust (jc_journal_id config) n) = Inr rep"
proof -
  from run_ops_verifiable [OF assms] have "valid_stream sha (journal_trust (jc_journal_id config) n) ds" by metis
  from verify_stream_ok [OF assms(7) this] show ?thesis .
qed

definition example_stamped :: "witness_record list" where
  "example_stamped = stamp_all toy_sha (replicate 16 9) 1 [] [example_record, example_decision toy_sha, example_outcome toy_sha]"

lemma example_stamped_binding: "inj_on sha (binding_input ` set example_stamped)"
proof -
  have "binding_input x = binding_input example_record" if "x \<in> set example_stamped" for x
    using that by (auto simp: example_stamped_def Let_def binding_input_def example_defs)
  then have "binding_input ` set example_stamped \<subseteq> {binding_input example_record}" by blast
  then show ?thesis by (rule inj_on_subset [rotated]) simp
qed

definition example_ops :: "durable_intent \<Rightarrow> journal_op list" where
  "example_ops intent = [Op_Received (replicate 16 2) 5 run_recipe example_record,
     Op_Decision (replicate 16 2) (example_decision toy_sha), Op_Complete intent (example_outcome toy_sha)]"

lemma example_run:
  assumes "open_with_faults toy_sha example_config {} fresh_disk = (Inr j, d)"
  shows "\<exists>intent om. ready toy_sha (replicate 16 9) 1 example_stamped om [] 1 (run_ops toy_sha (example_ops intent) j)"
proof -
  have cfg: "jc_journal_id example_config = replicate 16 9" "jc_mode example_config = Mode_Required"
    "unat (jc_max_journal_bytes example_config) = 67108864" "unat (jc_cleanup_reserve_bytes example_config) = 65536"
    "unat (jc_segment_bytes example_config) = 8388608"
    by (simp_all add: example_config_def journal_config_new_def)
  have "ready toy_sha (replicate 16 9) (Suc (Suc (Suc 1))) [] Map.empty [] 1 j"
    using chain_open_fresh [OF assms] fresh_settings [OF assms] cfg by (simp add: ready_def)
  from runs_submission [OF length_toy_sha _ _ example_submission _ _ this, of "replicate 16 2"]
  obtain j1 intent j2 j3 st where
    "append_received toy_sha (replicate 16 2) 5 run_recipe example_record j = (Inr (), j1)"
    "append_decision toy_sha (replicate 16 2) (example_decision toy_sha) j1 = (Inr intent, j2)"
    "complete toy_sha intent (example_outcome toy_sha) j2 = (Inr (), j3)"
    "ready toy_sha (replicate 16 9) 1 example_stamped [replicate 16 2 \<mapsto> st]
       (alist_remove (replicate 16 2) (alist_put (replicate 16 2) (recipe_encode 5 run_recipe) [])) 1 j3"
    unfolding example_stamped_def by auto
  then show ?thesis
    by (intro exI [of _ intent] exI [of _ "[replicate 16 2 \<mapsto> st]"]) (simp add: example_ops_def alist_remove_def)
qed

lemma example_run_facts:
  assumes "ready toy_sha (replicate 16 9) room example_stamped om [] 1 j"
  shows "journal_records (j_store j) = Inr (map (record_fields (replicate 16 9)) example_stamped)"
    "map decode_record (map (record_fields (replicate 16 9)) example_stamped)
       = map Inr (map (decoded_of (replicate 16 9)) example_stamped)"
    "kv_scan T_Pending (j_store j) = []"
proof -
  have ch: "chain toy_sha (replicate 16 9) j example_stamped om 1" using assms by (simp add: ready_def)
  then show "journal_records (j_store j) = Inr (map (record_fields (replicate 16 9)) example_stamped)"
    by (rule chain_records) simp
  have "linked toy_sha (replicate 16 9) example_stamped" using ch by (simp add: chain_def chain_store_def)
  then show "map decode_record (map (record_fields (replicate 16 9)) example_stamped)
      = map Inr (map (decoded_of (replicate 16 9)) example_stamped)"
    using linked_nth(1,2) [of toy_sha "replicate 16 9" example_stamped]
    by (auto simp: in_set_conv_nth decoded_of_def intro!: decode_record_fields)
  show "kv_scan T_Pending (j_store j) = []" using assms by (simp add: ready_def kv_scan_def)
qed

lemma example_stamped_facts:
  "length example_stamped = 3"
  "dr_record ` set (map (decoded_of (replicate 16 9)) example_stamped) = set example_stamped"
  "card (open_requests (map dr_record (take i (map (decoded_of (replicate 16 9)) example_stamped)))) \<le> MAX_OPEN_REQUESTS"
  "\<forall>op \<in> set (example_ops intent). wf_op op \<and> strict_op op \<and> keeps_epoch op"
  "jc_journal_id example_config = replicate 16 9"
proof -
  show len: "length example_stamped = 3" by (simp add: example_stamped_def Let_def)
  show "dr_record ` set (map (decoded_of (replicate 16 9)) example_stamped) = set example_stamped"
    by (simp add: image_image decoded_of_def)
  show "card (open_requests (map dr_record (take i (map (decoded_of (replicate 16 9)) example_stamped)))) \<le> MAX_OPEN_REQUESTS"
    using open_requests_bound [of "map dr_record (take i (map (decoded_of (replicate 16 9)) example_stamped))"] len
    by (simp add: MAX_OPEN_REQUESTS_def min_def split: if_splits)
  show "\<forall>op \<in> set (example_ops intent). wf_op op \<and> strict_op op \<and> keeps_epoch op"
    unfolding example_ops_def using example_wf [OF length_toy_sha]
    by (simp add: example_records_def, simp add: example_defs)
  show "jc_journal_id example_config = replicate 16 9" by (simp add: example_config_def journal_config_new_def)
qed

theorem journal_accepted_by_verifier_witness:
  "\<exists>j d ops rep. open_with_faults toy_sha example_config {} fresh_disk = (Inr j, d) \<and> length ops = 3
    \<and> verify_stream toy_sha (map (record_fields (replicate 16 9)) example_stamped) (journal_trust (replicate 16 9) 10) = Inr rep
    \<and> journal_records (j_store (run_ops toy_sha ops j)) = Inr (map (record_fields (replicate 16 9)) example_stamped)"
proof -
  obtain j d where j: "open_with_faults toy_sha example_config {} fresh_disk = (Inr j, d)"
    using open_fresh_ok [of "{}" toy_sha example_config] by auto
  from example_run [OF j] obtain intent om where
    rd: "ready toy_sha (replicate 16 9) 1 example_stamped om [] 1 (run_ops toy_sha (example_ops intent) j)" by blast
  note run = example_run_facts [OF rd] and ex = example_stamped_facts
  have "\<exists>rep. verify_stream toy_sha (map (record_fields (replicate 16 9)) example_stamped)
      (journal_trust (jc_journal_id example_config) 10) = Inr rep"
    by (rule journal_accepted_by_verifier [OF length_toy_sha _ j ex(4) _ run])
      (use ex(1,3,5) ex(2) [symmetric] example_stamped_binding in \<open>simp_all del: take_map set_map list.set_map\<close>, simp add: example_ops_def)
  with j run(1) ex(5) show ?thesis
    by (intro exI [of _ j] exI [of _ d] exI [of _ "example_ops intent"]) (auto simp: example_ops_def)
qed

text \<open>
  Advancing the epoch orphans what is pending: an operation received in an earlier epoch can
  never be decided or denied in a later one, whatever records are offered, because the binding
  digest covers the epoch and every offered record is stamped with the current one.\<close>

theorem epoch_advance_orphans:
  assumes "\<forall>x. length (sha x) = 32" and "wf_record a" and "wf_record r"
    and "kv_get T_Operations op_id (j_store j) = Some (state_encode (state_received sha a g))"
    and "wr_epoch a \<noteq> j_epoch j"
    and "inj_on sha {binding_input a, binding_input (r\<lparr>wr_epoch := j_epoch j\<rparr>)}"
  shows "\<not> is_ok (fst (append_decision sha op_id r j)) \<and> \<not> is_ok (fst (deny sha op_id r r' j))"
proof -
  have nomatch: "\<not> binding_matches sha (state_received sha a g) (r\<lparr>wr_epoch := j_epoch j\<rparr>)"
    using binding_matches_received [OF assms(2) _ assms(6)] assms(3,5) by simp
  have pre: "j_store (snd (preflight b j)) = j_store j" for b
    by (simp add: preflight_def take_either_def jbind_def jread_def jguard_def take_fault_def jreturn_def)
  have load: "load_state op_id j' = (Inr (state_received sha a g), j')" if "j_store j' = j_store j" for j'
    using that assms(1,2,4) state_decode_encode [OF wf_state_received]
    by (simp add: load_state_def jbind_def jget_def jread_def jlift_def)
  obtain u j' where p: "preflight FB_Decision j = (u, j')" by fastforce
  with pre [of FB_Decision] have j': "j_store j' = j_store j" by simp
  show ?thesis
    using nomatch load [OF j'] p
    by (cases u) (simp_all add: append_decision_def deny_def jbind_def jread_def jguard_def jget_def jlift_def Let_def
        is_ok_def split: sum.split prod.split)
qed

definition marking_sha :: "bytes \<Rightarrow> bytes" where
  "marking_sha x = (if x = binding_input example_record then replicate 32 1 else replicate 32 0)"

theorem epoch_advance_orphans_witness:
  "\<not> is_ok (fst (append_decision marking_sha (replicate 16 2) (example_decision toy_sha)
      ((fresh_journal example_config {})\<lparr>j_epoch := 2, j_store := kv_put T_Operations (replicate 16 2)
         (state_encode (state_received marking_sha example_record 5)) (\<lambda>_. [])\<rparr>)))"
proof -
  let ?r = "example_decision toy_sha"
  have wf: "wf_record ?r" using example_wf [OF length_toy_sha] by (simp add: example_records_def)
  have epoch: "wr_epoch example_record = 1" by (simp add: example_record_def)
  have "binding_input example_record \<noteq> binding_input (?r\<lparr>wr_epoch := 2\<rparr>)"
    using binding_input_inject [OF example_record_wf(1), of "?r\<lparr>wr_epoch := 2\<rparr>"] wf epoch by simp
  then have "inj_on marking_sha {binding_input example_record, binding_input (?r\<lparr>wr_epoch := 2\<rparr>)}"
    by (simp add: marking_sha_def inj_on_def)
  with epoch_advance_orphans [of marking_sha example_record ?r "replicate 16 2" _ 5] wf epoch example_record_wf(1)
  show ?thesis by (simp add: marking_sha_def kv_get_put)
qed

end
