(* ===== verification/Publication.thy ===== *)
theory Publication
  imports Coordinator_Recovery Journal_Progress
begin

text \<open>
  Journal, coordinator and verifier together: publishing a checkpoint on a journal in use appends the
  publication record, leaves the artifact and no pending file, and the checkpoint verifier accepts
  the journal with that checkpoint.
\<close>

section \<open>The journal appends the publication record\<close>

lemma runs_unseen:
  assumes "ev \<notin> set (map wr_event_id rs)" "runs (ready sha jid room rs om pt e) (k None) R"
  shows "runs (ready sha jid room rs om pt e) (jbind (jget T_Events ev) k) R"
  unfolding jget_def
proof (rule runs_read [where v = None])
  show "kv_get T_Events ev (j_store j) = None" if "ready sha jid room rs om pt e j" for j
    using that assms(1) event_index_None [of rs ev] by (simp add: ready_def chain_def chain_store_def)
qed (rule assms(2))

lemma runs_append_checkpoint_publication:
  assumes sha: "\<forall>x. length (sha x) = 32" and jid: "length jid = 16" and space: "length rs + 2 < 2 ^ 64"
    and r: "wf_record r" "valid_stage r" "wr_stage r = St_CheckpointPublished" "wr_epoch r = e"
      "wr_event_id r \<notin> set (map wr_event_id rs)" "wr_result_digest r = Some digest"
  shows "runs (ready sha jid (Suc room) rs om pt e) (append_checkpoint_publication sha digest r)
    (\<lambda>_. ready sha jid room (rs @ [stamped sha jid rs r]) om pt e)"
proof -
  have r': "r\<lparr>wr_epoch := e\<rparr> = r" "r\<lparr>wr_result_digest := Some digest\<rparr> = r" using r(4,6) by auto
  obtain bs where enc: "encode_record jid (stamped sha jid rs r) = Inr bs" and len: "length (rb_bytes bs) \<le> 512"
    using encode_stamped [OF sha jid r(1,2), of rs e] r' by metis
  have ok: "checked_add (of_nat (length rs)) 1 = Some (of_nat (length rs) + 1)"
    using space by (simp add: checked_add_def unat_of_nat)
  have stage: "wr_action r = CheckpointPublish" "wr_outcome r = Out_Succeeded" "validate_record r = Inr ()"
    using r(2,3) by (simp_all add: valid_stage_def)
  show ?thesis
    unfolding append_checkpoint_publication_def Let_def r'
    apply (rule runs_guard, simp add: r stage)
    apply (rule runs_lift [where x = "()"], simp add: stage)
    apply (rule runs_epoch)
    apply (rule runs_guard, simp add: r)
    apply (rule runs_unseen [OF r(5)])
    apply (unfold option.case)
    apply (rule runs_pass [OF passes_preflight])
    apply (rule passes_take_fault)
    apply (rule runs_guard, simp)
    apply (rule runs_head [OF sha])
    apply (rule runs_lift, simp add: ok)
    apply (rule runs_encode, rule enc)
    apply (unfold record_len_def)
    apply (rule runs_pass [OF passes_capacity [OF sha jid]])
      apply (use len in simp, use len in simp)
    apply (rule runs_commit [where r = r and ev = "wr_event_id r" and upd = "\<lambda>ops. ops" and pend = "\<lambda>P. P"
        and om' = om and q = "of_nat (length rs) + 1" and bs = bs, OF enc _ sha space])
             apply (simp cong: if_cong split del: if_split)
             apply (intro commits_intros; simp)
            apply (simp_all add: r)
     apply (use r(5) in force)
    apply (intro runs_pass [OF passes_flush] runs_passes [OF passes_mirror])
    done
qed

section \<open>The coordinator binds\<close>

text \<open>What the caller's closure must provide: a well-formed publication record for the artifact.\<close>

definition publishes :: "(bytes \<Rightarrow> bytes) \<Rightarrow> (checkpoint \<Rightarrow> witness_record) \<Rightarrow> bool" where
  "publishes sha rec \<longleftrightarrow> (\<forall>cp. wf_record (rec cp) \<and> valid_stage (rec cp)
     \<and> wr_stage (rec cp) = St_CheckpointPublished \<and> wr_result_digest (rec cp) = Some (cp_digest sha cp))"

definition binding_record ::
  "(bytes \<Rightarrow> bytes) \<Rightarrow> checkpoint \<Rightarrow> u64 \<Rightarrow> witness_record \<Rightarrow> witness_record" where
  "binding_record sha cp sequence r = r
     \<lparr>wr_event_id := take 16 (sha (BINDING_DOMAIN @ cp_digest sha cp)),
      wr_request_id := drop 16 (sha (BINDING_DOMAIN @ cp_digest sha cp)),
      wr_epoch := fh_epoch (cp_head cp), wr_sequence := sequence, wr_previous_hash := fh_hash (cp_head cp)\<rparr>"

lemma valid_stage_binding [simp]: "valid_stage (binding_record sha cp n r) = valid_stage r"
  by (simp add: valid_stage_def binding_record_def
      cong: witness_stage.case_cong witness_outcome.case_cong option.case_cong bool.case_cong)

definition captured ::
  "(bytes \<Rightarrow> bytes) \<Rightarrow> ('k \<Rightarrow> bytes) \<Rightarrow> ('k \<Rightarrow> bytes \<Rightarrow> bytes) \<Rightarrow> bytes \<Rightarrow> u64 \<Rightarrow> witness_record list \<Rightarrow> u64 \<Rightarrow> 'k
    \<Rightarrow> checkpoint" where
  "captured sha pub sig_of jid e rs now key = cp_signed sha pub sig_of
     \<lparr>fh_journal_id = jid, fh_epoch = e, fh_sequence = of_nat (length rs), fh_hash = chain_head sha jid rs\<rparr>
     now CK_Periodic key (pub key) 0 None"

lemma captured_fields:
  "cp_head (captured sha pub sig_of jid e rs now key)
     = \<lparr>fh_journal_id = jid, fh_epoch = e, fh_sequence = of_nat (length rs), fh_hash = chain_head sha jid rs\<rparr>"
  "cp_kind (captured sha pub sig_of jid e rs now key) = CK_Periodic"
  "cp_created_at_secs (captured sha pub sig_of jid e rs now key) = now"
  "cp_first_sequence (captured sha pub sig_of jid e rs now key) = 1"
  "cp_previous_checkpoint_digest (captured sha pub sig_of jid e rs now key) = replicate 32 0"
  by (simp_all add: captured_def cp_signed_def Let_def)

lemma captured_signed: "signed_by sha pub sig_of key (captured sha pub sig_of jid e rs now key)"
  by (simp add: captured_def cp_signed_def signed_by_def cp_payload_def Let_def)

lemma capture_bound:
  assumes sha: "\<forall>x. length (sha x) = 32" and keys: "sized_keys sha pub sig_of" and jid: "length jid = 16"
    and space: "length rs + 2 < 2 ^ 64" and rec: "publishes sha rec"
    and cp: "cp = captured sha pub sig_of jid e rs now key"
    and fresh: "take 16 (sha (BINDING_DOMAIN @ cp_digest sha cp)) \<notin> set (map wr_event_id rs)"
    and co: "co_io co = []" "co_pending co = None" "ready sha jid (Suc room) rs om pt e (co_journal co)"
    and r: "r = binding_record sha cp (of_nat (length rs) + 1) (rec cp)"
  shows "\<exists>co'. capture_publish_bind sha pub sig_of now key None rec co = (Inr (PO_Bound cp), co')
    \<and> co_artifact co' = Some (cp_encode cp) \<and> co_pending co' = None
    \<and> ready sha jid room (rs @ [r]) om pt e (co_journal co')"
proof -
  let ?j = "co_journal co"
  have head: "flushed_head ?j = (Inr (jid, e, of_nat (length rs), chain_head sha jid rs), ?j)"
    using co(3) head_of_chain [OF _ sha, of jid "j_store ?j" rs] by (simp add: flushed_head_run ready_def chain_def)
  have pre: "checkpoint_preflight ?j = (Inr (), ?j)"
    using co(3) by (simp add: checkpoint_preflight_def jbind_def jread_def jguard_def ready_def)
  have chain_len: "length (chain_head sha jid rs) = 32"
    using sha by (simp add: chain_head_def record_hash_def hash_record_def)
  have wf: "wf_checkpoint cp"
    using keys jid chain_len unfolding cp captured_def
    by (simp add: wf_checkpoint_def cp_signed_def sized_keys_def key_id_of_def Let_def)
  have enc_len: "length (cp_encode cp) \<le> MAX_CHECKPOINT_BYTES"
    using length_cp_encode [OF wf] by (simp add: MAX_CHECKPOINT_BYTES_def)
  have ok: "checked_add (of_nat (length rs)) 1 = Some (of_nat (length rs) + 1)"
    using space by (simp add: checked_add_def unat_of_nat)
  have prep: "prepare_binding sha cp (rec cp) (cp_digest sha cp) = Inr r"
    using ok by (simp add: prepare_binding_def r binding_record_def cp captured_fields Let_def)
  have wfr: "wf_record r" "valid_stage r" "wr_stage r = St_CheckpointPublished" "wr_epoch r = e"
    "wr_result_digest r = Some (cp_digest sha cp)" "wr_event_id r \<notin> set (map wr_event_id rs)"
    "stamped sha jid rs r = r"
    using rec sha chain_len fresh
    by (simp_all add: r publishes_def) (simp_all add: binding_record_def wf_record_def cp captured_fields)
  obtain p where p: "pending_for cp r = Inr p"
    using encode_record_ok [OF wfr(1) jid wfr(2)] by (auto simp: pending_for_iff cp captured_fields)
  from runs_append_checkpoint_publication [OF sha jid space wfr(1-4) wfr(6,5), of room om pt] co(3)
  obtain j' where j': "append_checkpoint_publication sha (cp_digest sha cp) r ?j = (Inr (), j')"
    "ready sha jid room (rs @ [r]) om pt e j'" unfolding runs_def wfr(7) by auto
  have signed: "cp_sign sha pub sig_of \<lparr>fh_journal_id = jid, fh_epoch = e, fh_sequence = of_nat (length rs),
      fh_hash = chain_head sha jid rs\<rparr> now key CK_Periodic = Inr cp"
    by (simp add: cp_sign_def cp captured_def)
  show ?thesis
    using co(1,2) head pre signed prep p j' enc_len
    by (simp add: capture_publish_bind_def coordinator_preflight_def read_pending_def cbind_def secure_read_def
        creturn_def cguard_def cjournal_def on_journal_def clift_def head_of_tuple_def prepare_and_publish_def
        persist_pending_def persist_pending_replace_def secure_write_def publish_def publish_at_def
        bind_publication_def clear_pending_def secure_unlink_def Let_def)
qed

section \<open>The verifier accepts\<close>

lemma valid_stream_publication:
  assumes valid: "valid_stream sha trust ds" and stage: "wr_stage (dr_record d) = St_CheckpointPublished"
    and d: "dr_journal_id d = st_journal_id trust" "wr_epoch (dr_record d) = st_epoch trust"
      "unat (wr_sequence (dr_record d)) = unat (st_first_sequence trust) + length ds"
      "wr_previous_hash (dr_record d) = stream_head sha trust ds"
      "wr_event_id (dr_record d) \<notin> wr_event_id ` dr_record ` set ds"
    and room: "length ds < unat (st_max_records trust)" "Suc (unat (st_first_sequence trust) + length ds) < 2 ^ 64"
    and small: "card (open_requests (map dr_record ds)) \<le> MAX_OPEN_REQUESTS"
  shows "valid_stream sha trust (ds @ [d])"
proof -
  have history: "request_history rid (map dr_record ds @ [dr_record d]) = request_history rid (map dr_record ds)" for rid
    by (simp add: request_history_snoc stage)
  then have "open_requests (map dr_record ds @ [dr_record d]) = open_requests (map dr_record ds)"
    by (simp add: open_requests_def)
  with assms have "admissible sha trust ds d" by (simp add: admissible_def lifecycle_ok_def)
  with valid history show ?thesis by (simp add: valid_stream_def valid_prefix_snoc)
qed

lemma captured_chain_accepted:
  assumes "signature_scheme pub sig_of ver valid_key" "cp = captured sha pub sig_of jid e rs now key"
  shows "\<exists>st. chain_steps sha ver valid_key (trust_bundle_new jid (pub key)) [cp]
      (chain_start sha (trust_bundle_new jid (pub key))) = Inr st
    \<and> ch_last st = Some cp \<and> ch_discontinuities st = 0"
  using signed_by_verifies [OF assms(1) captured_signed [of sha pub sig_of key jid e rs now]]
  by (simp add: chain_step_def check_link_def check_trust_def chain_start_def trust_bundle_new_def
      assms(2) captured_fields)

lemma captured_verifies:
  assumes scheme: "signature_scheme pub sig_of ver valid_key" and jid: "length jid = 16"
    and cp: "cp = captured sha pub sig_of jid 1 rs now key"
    and bs: "map decode_record bs = map Inr ds" "length bs = length rs" "valid_stream sha (journal_trust jid 1000000) ds"
      "length rs < 1000000" "stream_head sha (journal_trust jid 1000000) ds = chain_head sha jid rs"
      "card (open_requests (map dr_record ds)) \<le> MAX_OPEN_REQUESTS"
    and r: "wf_record r" "valid_stage r" "wr_stage r = St_CheckpointPublished" "wr_epoch r = 1"
      "wr_result_digest r = Some (cp_digest sha cp)" "wr_sequence r = of_nat (length rs) + 1"
      "wr_previous_hash r = chain_head sha jid rs" "wr_event_id r \<notin> wr_event_id ` dr_record ` set ds"
  shows "\<exists>rep. checkpoint_verify sha ver valid_key (trust_bundle_new jid (pub key)) (bs @ [record_fields jid r]) [cp]
    now max_age = Inr rep"
proof -
  let ?tb = "trust_bundle_new jid (pub key)" and ?b = "record_fields jid r" and ?d = "decoded_of jid r"
  have tb: "evidence_trust ?tb = journal_trust jid 1000000" "tb_starting_epoch ?tb = 1" "tb_first_sequence ?tb = 1"
    "tb_minimum ?tb = None"
    by (simp_all add: evidence_trust_def trust_bundle_new_def journal_trust_def)
  have trust: "st_journal_id (journal_trust jid n) = jid" "st_epoch (journal_trust jid n) = 1"
    "st_first_sequence (journal_trust jid n) = 1" "st_max_records (journal_trust jid n) = n" for n
    by (simp_all add: journal_trust_def with_max_records_def stream_trust_new_def)
  have dec: "decode_record ?b = Inr ?d" using decode_record_fields [OF r(1) jid r(2)] by (simp add: decoded_of_def)
  have dr: "dr_record ?d = r" "dr_journal_id ?d = jid" by (simp_all add: decoded_of_def)
  have len: "length ds = length rs" using arg_cong [OF bs(1), of length] bs(2) by simp
  have seq: "unat (wr_sequence r) = 1 + length rs" "unat (of_nat (length rs) :: u64) = length rs"
    using bs(4) unfolding r(6) by (simp_all add: unat_word_ariths unat_of_nat)
  have "valid_stream sha (journal_trust jid 1000000) (ds @ [?d])"
    by (rule valid_stream_publication [OF bs(3)]) (use r bs len seq in \<open>simp_all add: dr trust\<close>)
  from verify_stream_ok [OF _ this, of "bs @ [?b]"] bs(1) dec obtain rep where
    rep: "verify_stream sha (bs @ [?b]) (evidence_trust ?tb) = Inr rep" by (auto simp: tb)
  have stage: "wr_action r = CheckpointPublish" using r(2,3) by (simp add: valid_stage_def)
  have cpf: "cp_kind cp \<noteq> CK_TrustReset" "fh_epoch (cp_head cp) = tb_starting_epoch ?tb"
    "unat (fh_sequence (cp_head cp)) + 1 = unat (tb_first_sequence ?tb) + length bs"
    "fh_hash (cp_head cp) = chain_head sha jid rs"
    using bs(2) seq(2) by (simp_all add: cp captured_fields tb)
  note streams = verify_streaming_single [OF rep dec, of cp]
  from captured_chain_accepted [OF scheme cp] streams r stage cpf show ?thesis
    by (auto simp: checkpoint_verify_def MAX_CHECKPOINTS_def dr tb cp captured_fields simp del: chain_steps.simps)
qed

text \<open>C23.
  Journal, coordinator and verifier work together.  Take any journal that strict operations have
  built from an empty directory without an epoch change, with nothing pending, no fault armed and
  room for one more record.  Publishing a first checkpoint of it, with no file operation failing,
  binds: the artifact is on disk, no pending file is left, and the journal has exactly one more
  record.  An offline verifier that trusts only the signer's public key accepts the new journal
  with that checkpoint.  The event identity derived from this checkpoint must be unused, the digests
  of the request bindings must not collide, and the journal must be within the verifier's limits of
  records and open requests.\<close>

theorem published_checkpoint_verifies:
  assumes "\<forall>x. length (sha x) = 32" and "length (jc_journal_id config) = 16"
    and "open_with_faults sha config faults fresh_disk = (Inr j0, d)"
    and "\<forall>op \<in> set ops. wf_op op \<and> strict_op op \<and> keeps_epoch op" and "length ops < 2 ^ 62"
    and "journal_records (j_store (run_ops sha ops j0)) = Inr bs" and "map decode_record bs = map Inr ds"
    and "kv_scan T_Pending (j_store (run_ops sha ops j0)) = []"
    and "inj_on sha (binding_input ` dr_record ` set ds)" and "length bs < 1000000"
    and "\<forall>i \<le> length ds. card (open_requests (map dr_record (take i ds))) \<le> MAX_OPEN_REQUESTS"
    and "j_mode (run_ops sha ops j0) = Mode_Required" and "j_faults (run_ops sha ops j0) = {}"
    and "524 * (length bs + 1) + unat (j_reserve_total (run_ops sha ops j0)) \<le> unat (j_max_bytes (run_ops sha ops j0))"
    and "1024 \<le> unat (j_segment_bytes (run_ops sha ops j0))"
    and "sized_keys sha pub sig_of" and "signature_scheme pub sig_of ver valid_key" and "publishes sha rec"
    and "cp = captured sha pub sig_of (jc_journal_id config) 1 (map dr_record ds) now key"
    and "take 16 (sha (BINDING_DOMAIN @ cp_digest sha cp)) \<notin> wr_event_id ` dr_record ` set ds"
    and "co_journal co = run_ops sha ops j0" and "co_io co = []" and "co_pending co = None"
  shows "\<exists>co' b rep. capture_publish_bind sha pub sig_of now key None rec co = (Inr (PO_Bound cp), co')
    \<and> co_artifact co' = Some (cp_encode cp) \<and> co_pending co' = None
    \<and> journal_records (j_store (co_journal co')) = Inr (bs @ [b])
    \<and> checkpoint_verify sha ver valid_key (trust_bundle_new (jc_journal_id config) (pub key)) (bs @ [b]) [cp]
        now max_age = Inr rep"
proof -
  let ?jid = "jc_journal_id config"
  have small: "length bs \<le> unat (1000000 :: u64)" using assms(10) by simp
  from run_ops_verifiable [OF assms(1-9) small assms(11)] obtain rs om where
    ch: "chain sha ?jid (co_journal co) rs om 1" and ds: "ds = map (decoded_of ?jid) rs"
    and bs: "bs = map (record_fields ?jid) rs" and valid: "valid_stream sha (journal_trust ?jid 1000000) ds"
    unfolding assms(21) by metis
  have rs: "map dr_record ds = rs" unfolding ds by (simp add: decoded_of_def comp_def)
  have cp: "cp = captured sha pub sig_of ?jid 1 rs now key" using assms(19) rs by simp
  define r where "r = binding_record sha cp (of_nat (length rs) + 1) (rec cp)"
  have recs: "dr_record ` set ds = set rs" unfolding ds by (simp add: image_image decoded_of_def)
  have ready: "ready sha ?jid (Suc 0) rs om (j_store (co_journal co) T_Pending) 1 (co_journal co)"
    using ch assms(12-15) bs by (simp add: ready_def assms(21))
  have space: "length rs + 2 < 2 ^ 64" using assms(10) bs by simp
  have fresh: "take 16 (sha (BINDING_DOMAIN @ cp_digest sha cp)) \<notin> set (map wr_event_id rs)" using assms(20) recs by simp
  from capture_bound [OF assms(1,16,2) space assms(18) cp fresh assms(22,23) ready r_def] obtain co' where
    co': "capture_publish_bind sha pub sig_of now key None rec co = (Inr (PO_Bound cp), co')"
      "co_artifact co' = Some (cp_encode cp)" "co_pending co' = None"
    and chain': "chain sha ?jid (co_journal co') (rs @ [r]) om 1" by (auto simp: ready_def)
  have "length (chain_head sha ?jid rs) = 32"
    using assms(1) by (simp add: chain_head_def record_hash_def hash_record_def)
  then have r: "wf_record r" "valid_stage r" "wr_stage r = St_CheckpointPublished" "wr_epoch r = 1"
    "wr_result_digest r = Some (cp_digest sha cp)" "wr_sequence r = of_nat (length rs) + 1"
    "wr_previous_hash r = chain_head sha ?jid rs" "wr_event_id r \<notin> wr_event_id ` dr_record ` set ds"
    using assms(1,18,20) unfolding r_def publishes_def
    by (simp_all, simp_all add: binding_record_def wf_record_def cp captured_fields)
  have "map dr_record ds = map dr_record (take (length ds) ds)" by simp
  with assms(11) have "card (open_requests (map dr_record ds)) \<le> MAX_OPEN_REQUESTS" by (metis order_refl)
  from captured_verifies [OF assms(17,2) cp assms(7) _ valid _ _ this r] obtain rep where
    "checkpoint_verify sha ver valid_key (trust_bundle_new ?jid (pub key)) (bs @ [record_fields ?jid r]) [cp]
      now max_age = Inr rep"
    using assms(10) bs ds by (auto simp: stream_head_decoded)
  with co' chain_records [OF chain' assms(2)] bs show ?thesis by auto
qed

definition example_rec :: "checkpoint \<Rightarrow> witness_record" where
  "example_rec cp = (example_publication toy_sha)\<lparr>wr_result_digest := Some (cp_digest toy_sha cp)\<rparr>"

lemma example_rec_publishes: "publishes toy_sha example_rec"
proof -
  have "wf_record (example_rec cp)" for cp
    using example_publication_wf(1) [OF length_toy_sha] length_toy_sha
    by (simp add: example_rec_def wf_record_def cp_digest_def)
  moreover have "valid_stage (example_rec cp)" for cp
    using example_publication_wf(2) [OF length_toy_sha]
    by (simp add: example_rec_def valid_stage_def example_publication_fields)
  ultimately show ?thesis by (simp add: publishes_def example_rec_def example_publication_fields)
qed

theorem published_checkpoint_verifies_witness:
  "\<exists>j d ops cp co' b rep. open_with_faults toy_sha example_config {} fresh_disk = (Inr j, d) \<and> length ops = 3
    \<and> capture_publish_bind toy_sha (\<lambda>_. toy_key) (\<lambda>_. toy_sig toy_key) 10 () None example_rec
        \<lparr>co_artifact = None, co_pending = None, co_io = [], co_journal = run_ops toy_sha ops j\<rparr>
        = (Inr (PO_Bound cp), co')
    \<and> checkpoint_verify toy_sha toy_ver (\<lambda>_. True) (trust_bundle_new (replicate 16 9) toy_key)
        (map (record_fields (replicate 16 9)) example_stamped @ [b]) [cp] 10 60 = Inr rep"
proof -
  obtain j d where j: "open_with_faults toy_sha example_config {} fresh_disk = (Inr j, d)"
    using open_fresh_ok [of "{}" toy_sha example_config] by auto
  from example_run [OF j] obtain intent om where
    rd: "ready toy_sha (replicate 16 9) 1 example_stamped om [] 1 (run_ops toy_sha (example_ops intent) j)" by blast
  let ?j = "run_ops toy_sha (example_ops intent) j"
  let ?co = "\<lparr>co_artifact = None, co_pending = None, co_io = [], co_journal = ?j\<rparr>"
  note run = example_run_facts [OF rd] and ex = example_stamped_facts
  let ?cp = "captured toy_sha (\<lambda>_ :: unit. toy_key) (\<lambda>_. toy_sig toy_key) (replicate 16 9) 1 example_stamped 10 ()"
  have events: "take 16 (toy_sha (BINDING_DOMAIN @ cp_digest toy_sha ?cp)) \<notin> wr_event_id ` set example_stamped"
    by (simp add: toy_sha_def example_stamped_def Let_def) (simp add: example_defs)
  have keys: "sized_keys toy_sha (\<lambda>_ :: unit. toy_key) (\<lambda>_. toy_sig toy_key)"
    using length_toy_sha by (auto simp: sized_keys_def toy_key_def toy_sig_def min_def)
  have scheme: "signature_scheme (\<lambda>_ :: unit. toy_key) (\<lambda>_. toy_sig toy_key) toy_ver (\<lambda>_. True)"
    by (simp add: signature_scheme_def toy_ver_def)
  have settings: "j_mode ?j = Mode_Required" "j_faults ?j = {}" "1024 \<le> unat (j_segment_bytes ?j)"
    "524 * (length (map (record_fields (replicate 16 9)) example_stamped) + 1) + unat (j_reserve_total ?j) \<le> unat (j_max_bytes ?j)"
    using rd by (simp_all add: ready_def)
  have "\<exists>co' b rep. capture_publish_bind toy_sha (\<lambda>_ :: unit. toy_key) (\<lambda>_. toy_sig toy_key) 10 () None example_rec ?co
        = (Inr (PO_Bound ?cp), co') \<and> co_artifact co' = Some (cp_encode ?cp) \<and> co_pending co' = None
    \<and> journal_records (j_store (co_journal co')) = Inr (map (record_fields (replicate 16 9)) example_stamped @ [b])
    \<and> checkpoint_verify toy_sha toy_ver (\<lambda>_. True) (trust_bundle_new (jc_journal_id example_config) toy_key)
        (map (record_fields (replicate 16 9)) example_stamped @ [b]) [?cp] 10 60 = Inr rep"
    by (rule published_checkpoint_verifies [OF length_toy_sha _ j ex(4) _ run _ _ _ settings(1,2,4,3) keys scheme
          example_rec_publishes])
      (use ex(1,3,5) ex(2) [symmetric] example_stamped_binding events in
        \<open>simp_all del: take_map set_map list.set_map add: example_ops_def\<close>)
  with j ex(5) show ?thesis by (intro exI [of _ j] exI [of _ d] exI [of _ "example_ops intent"]) (auto simp: example_ops_def)
qed

end
