(* ===== verification/Packet.thy ===== *)
theory Packet
  imports Prelude
begin

unbundle bit_operations_syntax

text \<open>
  Frames of the packet datapath: \<open>src/ferro-net-ebpf/src/packet.rs\<close>, the host build (the
  functions that are not specific to the BPF target).

  A packet is a byte list.  \<open>usize\<close> is \<open>nat\<close> with the overflow of \<open>checked_add\<close> at \<open>2 ^ 64\<close>
  written out in \<open>checked_end\<close>; the other sums of offsets are bounded by an earlier
  \<open>require_bytes\<close>.  An operation on \<open>&mut [u8]\<close> returns its result together with the buffer it
  leaves behind, also when it fails.

  The first part is the model; then \<open>frame_ok\<close> states which frames the parser accepts, and the
  rewriting lemmas say which bytes a rewrite changes.
\<close>

section \<open>Constants and types\<close>

definition ETHERNET_HEADER_LEN :: nat where "ETHERNET_HEADER_LEN = 14"
definition IPV4_HEADER_LEN :: nat where "IPV4_HEADER_LEN = 20"
definition TCP_HEADER_LEN :: nat where "TCP_HEADER_LEN = 20"
definition UDP_HEADER_LEN :: nat where "UDP_HEADER_LEN = 8"
definition ETHERTYPE_IPV4 :: u16 where "ETHERTYPE_IPV4 = 0x0800"
definition IP_PROTOCOL_TCP :: byte where "IP_PROTOCOL_TCP = 6"
definition IP_PROTOCOL_UDP :: byte where "IP_PROTOCOL_UDP = 17"
definition SYNTHETIC_REDIRECT_SOURCE_MAC :: bytes where
  "SYNTHETIC_REDIRECT_SOURCE_MAC = [0x02, 0, 0, 0, 0, 1]"

lemmas packet_consts = ETHERNET_HEADER_LEN_def IPV4_HEADER_LEN_def TCP_HEADER_LEN_def
  UDP_HEADER_LEN_def ETHERTYPE_IPV4_def IP_PROTOCOL_TCP_def IP_PROTOCOL_UDP_def

datatype packet_error =
    Truncated | UnsupportedNetwork | UnsupportedTransport | InvalidIpv4Header
  | InvalidTransportHeader | Fragmented

datatype transport_protocol = Tcp | Udp

datatype port_field = PortSource | PortDestination

record packet_view =
  ipv4_offset :: nat
  ipv4_header_len :: nat
  transport_offset :: nat
  transport :: transport_protocol
  packet_end :: nat

section \<open>The parser\<close>

definition checked_end :: "nat \<Rightarrow> nat \<Rightarrow> packet_error + nat" where
  "checked_end offset len = (if offset + len < 2 ^ 64 then Inr (offset + len) else Inl Truncated)"

definition require_bytes :: "nat \<Rightarrow> nat \<Rightarrow> nat \<Rightarrow> packet_error + unit" where
  "require_bytes packet_len offset len =
     rbind (checked_end offset len) (\<lambda>e. if e \<le> packet_len then Inr () else Inl Truncated)"

definition read_be_u16 :: "(nat \<Rightarrow> packet_error + byte) \<Rightarrow> nat \<Rightarrow> packet_error + u16" where
  "read_be_u16 read_byte offset =
     rbind (read_byte offset) (\<lambda>high.
     rbind (checked_end offset 1) (\<lambda>next_offset.
     rbind (read_byte next_offset) (\<lambda>low.
     Inr (u16_from_be [high, low]))))"

definition parse_transport ::
  "(nat \<Rightarrow> packet_error + byte) \<Rightarrow> nat \<Rightarrow> nat \<Rightarrow> byte \<Rightarrow> packet_error + transport_protocol" where
  "parse_transport read_byte pkt_end t_offset protocol =
     (if protocol = IP_PROTOCOL_TCP then
        rbind (require_bytes pkt_end t_offset TCP_HEADER_LEN) (\<lambda>_.
        rbind (read_byte (t_offset + 12)) (\<lambda>b.
        let data_offset = unat (drop_bit 4 b) * 4 in
        if data_offset < TCP_HEADER_LEN then Inl InvalidTransportHeader
        else rbind (require_bytes pkt_end t_offset data_offset) (\<lambda>_. Inr Tcp)))
      else if protocol = IP_PROTOCOL_UDP then
        rbind (require_bytes pkt_end t_offset UDP_HEADER_LEN) (\<lambda>_.
        rbind (read_be_u16 read_byte (t_offset + 4)) (\<lambda>w.
        let udp_len = unat w in
        if udp_len < UDP_HEADER_LEN then Inl InvalidTransportHeader
        else rbind (require_bytes pkt_end t_offset udp_len) (\<lambda>_. Inr Udp)))
      else Inl UnsupportedTransport)"

definition parse_ipv4 ::
  "nat \<Rightarrow> nat \<Rightarrow> (nat \<Rightarrow> packet_error + byte) \<Rightarrow> packet_error + packet_view" where
  "parse_ipv4 packet_len offset read_byte =
     rbind (require_bytes packet_len offset IPV4_HEADER_LEN) (\<lambda>_.
     rbind (read_byte offset) (\<lambda>version_ihl.
     if drop_bit 4 version_ihl \<noteq> 4 then Inl InvalidIpv4Header else
     let header_len = unat (version_ihl AND 0x0f) * 4 in
     if header_len < IPV4_HEADER_LEN then Inl InvalidIpv4Header else
     rbind (require_bytes packet_len offset header_len) (\<lambda>_.
     rbind (read_be_u16 read_byte (offset + 2)) (\<lambda>w.
     let total_len = unat w in
     if total_len < header_len then Inl InvalidIpv4Header else
     rbind (checked_end offset total_len) (\<lambda>pkt_end.
     rbind (require_bytes packet_len offset total_len) (\<lambda>_.
     rbind (read_be_u16 read_byte (offset + 6)) (\<lambda>fragments.
     if fragments AND 0x3fff \<noteq> 0 then Inl Fragmented else
     rbind (checked_end offset header_len) (\<lambda>t_offset.
     rbind (read_byte (offset + 9)) (\<lambda>protocol.
     rbind (parse_transport read_byte pkt_end t_offset protocol) (\<lambda>t.
     Inr \<lparr>ipv4_offset = offset, ipv4_header_len = header_len, transport_offset = t_offset,
          transport = t, packet_end = pkt_end\<rparr>))))))))))"

definition parse_with_link ::
  "nat \<Rightarrow> nat \<Rightarrow> bool \<Rightarrow> (nat \<Rightarrow> packet_error + byte) \<Rightarrow> packet_error + packet_view" where
  "parse_with_link packet_len offset ethernet read_byte =
     (if ethernet then
        rbind (require_bytes packet_len 0 (ETHERNET_HEADER_LEN + IPV4_HEADER_LEN)) (\<lambda>_.
        rbind (read_be_u16 read_byte (offset - 2)) (\<lambda>ty.
        if ty \<noteq> ETHERTYPE_IPV4 then Inl UnsupportedNetwork
        else parse_ipv4 packet_len offset read_byte))
      else parse_ipv4 packet_len offset read_byte)"

definition parse_with :: "nat \<Rightarrow> (nat \<Rightarrow> packet_error + byte) \<Rightarrow> packet_error + packet_view" where
  "parse_with packet_len read_byte = parse_with_link packet_len ETHERNET_HEADER_LEN True read_byte"

definition slice_byte :: "bytes \<Rightarrow> nat \<Rightarrow> packet_error + byte" where
  "slice_byte packet offset =
     ok_or Truncated (if offset < length packet then Some (packet ! offset) else None)"

definition parse_packet_bytes :: "bytes \<Rightarrow> packet_error + packet_view" where
  "parse_packet_bytes packet = parse_with (length packet) (slice_byte packet)"

section \<open>Rewriting\<close>

text \<open>\<open>get a b p\<close> is \<open>p.get(a..b)\<close>; \<open>overwrite o bs p\<close> is \<open>p[o..o+n].copy_from_slice(bs)\<close>.\<close>

definition get_slice :: "nat \<Rightarrow> nat \<Rightarrow> bytes \<Rightarrow> bytes option" where
  "get_slice a b p = (if a \<le> b \<and> b \<le> length p then Some (subslice a b p) else None)"

definition overwrite :: "nat \<Rightarrow> bytes \<Rightarrow> bytes \<Rightarrow> bytes" where
  "overwrite offset bs p = take offset p @ bs @ drop (offset + length bs) p"

type_synonym write_result = "(packet_error + unit) \<times> bytes"

text \<open>A fallible step whose error leaves the buffer as it is, and the sequence of two writes.\<close>

definition with_value :: "packet_error + 'a \<Rightarrow> bytes \<Rightarrow> ('a \<Rightarrow> write_result) \<Rightarrow> write_result" where
  "with_value r p k = (case r of Inl e \<Rightarrow> (Inl e, p) | Inr x \<Rightarrow> k x)"

definition and_then :: "write_result \<Rightarrow> (bytes \<Rightarrow> write_result) \<Rightarrow> write_result" where
  "and_then r k = (case r of (Inl e, p) \<Rightarrow> (Inl e, p) | (Inr _, p) \<Rightarrow> k p)"

lemma with_value_simps [simp]:
  "with_value (Inl e) p k = (Inl e, p)" "with_value (Inr x) p k = k x"
  by (simp_all add: with_value_def)

lemma and_then_simps [simp]:
  "and_then (Inl e, p) k' = (Inl e, p)" "and_then (Inr u, p) k' = k' p"
  by (simp_all add: and_then_def)

definition rewrite_ethernet_destination :: "bytes \<Rightarrow> bytes \<Rightarrow> write_result" where
  "rewrite_ethernet_destination packet destination_mac =
     with_value (parse_packet_bytes packet) packet (\<lambda>_.
     with_value (ok_or Truncated (get_slice 0 6 packet)) packet (\<lambda>_.
     (Inr (), overwrite 0 destination_mac packet)))"

definition rewrite_ethernet_source :: "bytes \<Rightarrow> bytes \<Rightarrow> write_result" where
  "rewrite_ethernet_source packet source_mac =
     with_value (parse_packet_bytes packet) packet (\<lambda>_.
     with_value (ok_or Truncated (get_slice 6 12 packet)) packet (\<lambda>_.
     (Inr (), overwrite 6 source_mac packet)))"

definition fold_carry :: "u32 \<Rightarrow> u32" where
  "fold_carry s = (s AND 0xffff) + drop_bit 16 s"

definition update_checksum_word :: "u16 \<Rightarrow> u16 \<Rightarrow> u16 \<Rightarrow> u16" where
  "update_checksum_word checksum old new =
     (let s = ucast (NOT checksum) + ucast (NOT old) + ucast new :: u32;
          s1 = fold_carry s;
          s2 = fold_carry s1
      in NOT (ucast s2))"

definition update_ipv4_checksum :: "u16 \<Rightarrow> bytes \<Rightarrow> bytes \<Rightarrow> u16" where
  "update_ipv4_checksum checksum old new =
     update_checksum_word
       (update_checksum_word checksum (u16_from_be [old ! 0, old ! 1]) (u16_from_be [new ! 0, new ! 1]))
       (u16_from_be [old ! 2, old ! 3]) (u16_from_be [new ! 2, new ! 3])"

definition update_transport_checksum :: "u16 \<Rightarrow> bytes \<Rightarrow> bytes \<Rightarrow> u16" where
  "update_transport_checksum checksum old new = update_ipv4_checksum checksum old new"

definition read_slice_u16 :: "bytes \<Rightarrow> nat \<Rightarrow> packet_error + u16" where
  "read_slice_u16 packet offset =
     rbind (checked_end offset 2) (\<lambda>e.
     rbind (ok_or Truncated (get_slice offset e packet)) (\<lambda>bs.
     Inr (u16_from_be [bs ! 0, bs ! 1])))"

definition write_slice_u16 :: "bytes \<Rightarrow> nat \<Rightarrow> u16 \<Rightarrow> write_result" where
  "write_slice_u16 packet offset value =
     with_value (checked_end offset 2) packet (\<lambda>e.
     with_value (ok_or Truncated (get_slice offset e packet)) packet (\<lambda>_.
     (Inr (), overwrite offset (u16_to_be value) packet)))"

definition transport_checksum_offset :: "packet_view \<Rightarrow> nat" where
  "transport_checksum_offset view =
     transport_offset view + (case transport view of Tcp \<Rightarrow> 16 | Udp \<Rightarrow> 6)"

definition normalize_udp_checksum :: "transport_protocol \<Rightarrow> u16 \<Rightarrow> u16" where
  "normalize_udp_checksum protocol checksum =
     (if protocol = Udp \<and> checksum = 0 then 0xffff else checksum)"

definition rewrite_ipv4_address :: "bytes \<Rightarrow> nat \<Rightarrow> bytes \<Rightarrow> write_result" where
  "rewrite_ipv4_address packet address_delta new_address =
     with_value (parse_packet_bytes packet) packet (\<lambda>view.
     with_value (checked_end (ipv4_offset view) address_delta) packet (\<lambda>address_offset.
     with_value (checked_end address_offset 4) packet (\<lambda>address_end.
     with_value (ok_or Truncated (get_slice address_offset address_end packet)) packet (\<lambda>old_address.
     let ipv4_checksum_offset = ipv4_offset view + 10 in
     with_value (read_slice_u16 packet ipv4_checksum_offset) packet (\<lambda>old_ipv4_checksum.
     let new_ipv4_checksum = update_ipv4_checksum old_ipv4_checksum old_address new_address;
         checksum_offset = transport_checksum_offset view in
     with_value (read_slice_u16 packet checksum_offset) packet (\<lambda>old_transport_checksum.
     let new_transport_checksum =
           (if transport view = Udp \<and> old_transport_checksum = 0 then 0
            else normalize_udp_checksum (transport view)
                   (update_transport_checksum old_transport_checksum old_address new_address)) in
     and_then (Inr (), overwrite address_offset new_address packet) (\<lambda>p.
     and_then (write_slice_u16 p ipv4_checksum_offset new_ipv4_checksum) (\<lambda>p.
     write_slice_u16 p checksum_offset new_transport_checksum))))))))"

definition rewrite_ipv4_destination :: "bytes \<Rightarrow> bytes \<Rightarrow> write_result" where
  "rewrite_ipv4_destination packet new_address = rewrite_ipv4_address packet 16 new_address"

definition rewrite_ipv4_source :: "bytes \<Rightarrow> bytes \<Rightarrow> write_result" where
  "rewrite_ipv4_source packet new_address = rewrite_ipv4_address packet 12 new_address"

definition rewrite_transport_port :: "bytes \<Rightarrow> port_field \<Rightarrow> u16 \<Rightarrow> write_result" where
  "rewrite_transport_port packet field new_port =
     with_value (parse_packet_bytes packet) packet (\<lambda>view.
     let port_offset = transport_offset view + (case field of PortSource \<Rightarrow> 0 | PortDestination \<Rightarrow> 2) in
     with_value (read_slice_u16 packet port_offset) packet (\<lambda>old_port.
     let checksum_offset = transport_checksum_offset view in
     with_value (read_slice_u16 packet checksum_offset) packet (\<lambda>old_checksum.
     let new_checksum =
           (if transport view = Udp \<and> old_checksum = 0 then 0
            else normalize_udp_checksum (transport view)
                   (update_checksum_word old_checksum old_port new_port)) in
     and_then (write_slice_u16 packet port_offset new_port) (\<lambda>p.
     write_slice_u16 p checksum_offset new_checksum))))"

section \<open>Reading and writing\<close>

lemma unat_u16_less: "unat (w :: u16) < 65536"
  using unsigned_less [of w, where ?'a = nat] by simp

lemma unat_low_nibble: "unat ((b :: byte) AND 15) \<le> 15"
proof -
  have "(b AND 15) \<le> 15" by (rule word_and_le1)
  then show ?thesis by (simp add: word_le_nat_alt)
qed

lemma unat_high_nibble: "unat (drop_bit 4 (b :: byte)) \<le> 15"
proof -
  have "unat (drop_bit 4 b) = unat b div 16"
    using unat_byte_less [of b]
    by (simp add: unsigned_drop_bit_eq drop_bit_eq_div [where ?'a = nat] take_bit_nat_eq_self)
  then show ?thesis using unat_byte_less [of b] by simp
qed

definition be16 :: "bytes \<Rightarrow> nat \<Rightarrow> u16" where
  "be16 p i = u16_from_be [p ! i, p ! Suc i]"

lemma unat_be16: "unat (be16 p i) = 256 * unat (p ! i) + unat (p ! Suc i)"
  using unat_byte_less [of "p ! i"] unat_byte_less [of "p ! Suc i"]
  by (simp add: be16_def u16_from_be_def nat_from_be_def unat_of_nat del: of_nat_add of_nat_mult)

lemma slice_byte_eq: "slice_byte p i = (if i < length p then Inr (p ! i) else Inl Truncated)"
  by (simp add: slice_byte_def)

lemma require_bytes_eq:
  "offset + n < 2 ^ 64 \<Longrightarrow>
   require_bytes len offset n = (if offset + n \<le> len then Inr () else Inl Truncated)"
  by (simp add: require_bytes_def checked_end_def)

lemma checked_end_eq: "offset + n < 2 ^ 64 \<Longrightarrow> checked_end offset n = Inr (offset + n)"
  by (simp add: checked_end_def)

lemma read_be_u16_slice:
  "Suc i < 2 ^ 64 \<Longrightarrow>
   read_be_u16 (slice_byte p) i = (if Suc i < length p then Inr (be16 p i) else Inl Truncated)"
  by (simp add: read_be_u16_def slice_byte_eq checked_end_eq be16_def)

lemma length_overwrite [simp]: "offset + length bs \<le> length p \<Longrightarrow> length (overwrite offset bs p) = length p"
  by (simp add: overwrite_def)

lemma nth_overwrite:
  assumes "offset + length bs \<le> length p" and "i < length p"
  shows "overwrite offset bs p ! i =
           (if offset \<le> i \<and> i < offset + length bs then bs ! (i - offset) else p ! i)"
  using assms by (auto simp: overwrite_def nth_append min_def not_less)

lemma nth_subslice: "i < b - a \<Longrightarrow> b \<le> length p \<Longrightarrow> subslice a b p ! i = p ! (a + i)"
  by (simp add: subslice_def)

lemma read_slice_u16_ok:
  assumes "offset + 2 \<le> length p" and "offset + 2 < 2 ^ 64"
  shows "read_slice_u16 p offset = Inr (be16 p offset)"
  using assms by (simp add: read_slice_u16_def checked_end_eq get_slice_def be16_def nth_subslice)

lemma write_slice_u16_ok:
  assumes "offset + 2 \<le> length p" and "offset + 2 < 2 ^ 64"
  shows "write_slice_u16 p offset w = (Inr (), overwrite offset (u16_to_be w) p)"
  using assms by (simp add: write_slice_u16_def checked_end_eq get_slice_def)

section \<open>Which frames the parser accepts\<close>

definition ihl_of :: "bytes \<Rightarrow> nat" where
  "ihl_of p = unat (p ! 14 AND 0x0f) * 4"

definition total_len_of :: "bytes \<Rightarrow> nat" where
  "total_len_of p = unat (be16 p 16)"

definition udp_len_of :: "bytes \<Rightarrow> nat" where
  "udp_len_of p = unat (be16 p (18 + ihl_of p))"

definition tcp_header_len_of :: "bytes \<Rightarrow> nat" where
  "tcp_header_len_of p = unat (drop_bit 4 (p ! (26 + ihl_of p))) * 4"

definition tcp_ok :: "bytes \<Rightarrow> bool" where
  "tcp_ok p \<longleftrightarrow> p ! 23 = 6 \<and> 20 \<le> tcp_header_len_of p
     \<and> ihl_of p + 20 \<le> total_len_of p \<and> ihl_of p + tcp_header_len_of p \<le> total_len_of p"

definition udp_ok :: "bytes \<Rightarrow> bool" where
  "udp_ok p \<longleftrightarrow> p ! 23 = 17 \<and> 8 \<le> udp_len_of p
     \<and> ihl_of p + 8 \<le> total_len_of p \<and> ihl_of p + udp_len_of p \<le> total_len_of p"

definition frame_ok :: "bytes \<Rightarrow> bool" where
  "frame_ok p \<longleftrightarrow> 34 \<le> length p \<and> be16 p 12 = 0x0800 \<and> drop_bit 4 (p ! 14) = 4
     \<and> 20 \<le> ihl_of p \<and> ihl_of p \<le> total_len_of p \<and> 14 + total_len_of p \<le> length p
     \<and> be16 p 20 AND 0x3fff = 0 \<and> (tcp_ok p \<or> udp_ok p)"

definition view_of :: "bytes \<Rightarrow> packet_view" where
  "view_of p = \<lparr>ipv4_offset = 14, ipv4_header_len = ihl_of p, transport_offset = 14 + ihl_of p,
     transport = (if p ! 23 = 6 then Tcp else Udp), packet_end = 14 + total_len_of p\<rparr>"

lemma ihl_of_le: "ihl_of p \<le> 60"
  using unat_low_nibble [of "p ! 14"] by (simp add: ihl_of_def)

lemma total_len_of_less: "total_len_of p < 65536"
  by (simp add: total_len_of_def unat_u16_less)

lemma udp_len_of_less: "udp_len_of p < 65536"
  by (simp add: udp_len_of_def unat_u16_less)

lemma tcp_header_len_of_le: "tcp_header_len_of p \<le> 60"
  using unat_high_nibble by (simp add: tcp_header_len_of_def)

lemma parse_transport_ok:
  assumes "14 + total_len_of p \<le> length p"
  shows "parse_transport (slice_byte p) (14 + total_len_of p) (14 + ihl_of p) (p ! 23) = Inr t
         \<longleftrightarrow> tcp_ok p \<and> t = Tcp \<or> udp_ok p \<and> t = Udp"
proof -
  note b = ihl_of_le [of p] total_len_of_less [of p] udp_len_of_less [of p] tcp_header_len_of_le [of p]
  have rd: "read_be_u16 (slice_byte p) (18 + ihl_of p) =
      (if Suc (18 + ihl_of p) < length p then Inr (be16 p (18 + ihl_of p)) else Inl Truncated)"
    using b by (simp add: read_be_u16_slice)
  have rq: "require_bytes (14 + total_len_of p) (14 + ihl_of p) n =
      (if ihl_of p + n \<le> total_len_of p then Inr () else Inl Truncated)" if "n < 70000" for n
    using b that by (simp add: require_bytes_eq)
  have th: "unat (drop_bit 4 (p ! (26 + ihl_of p))) * 4 = tcp_header_len_of p"
    by (simp add: tcp_header_len_of_def)
  have th5: "unat (drop_bit 4 (p ! (26 + ihl_of p))) < 5 \<longleftrightarrow> tcp_header_len_of p < 20"
    by (simp add: tcp_header_len_of_def)
  have ul: "unat (be16 p (18 + ihl_of p)) = udp_len_of p"
    by (simp add: udp_len_of_def)
  show ?thesis
    unfolding parse_transport_def Let_def packet_consts
    using b assms
    by (simp add: rq rd slice_byte_eq th th5 ul tcp_ok_def udp_ok_def rbind_eq_Inr) auto
qed

lemma parse_packet_iff_frame: "parse_packet_bytes p = Inr v \<longleftrightarrow> frame_ok p \<and> v = view_of p"
proof -
  note b = ihl_of_le [of p] total_len_of_less [of p]
  have ih: "unat (p ! 14 AND 15) * 4 = ihl_of p" and tl: "unat (be16 p 16) = total_len_of p"
    by (simp_all add: ihl_of_def total_len_of_def)
  show ?thesis
    unfolding parse_packet_bytes_def parse_with_def parse_with_link_def parse_ipv4_def Let_def
      packet_consts
    using b
    by (auto simp: read_be_u16_slice slice_byte_eq require_bytes_eq checked_end_eq ih tl frame_ok_def
        view_of_def tcp_ok_def udp_ok_def parse_transport_ok rbind_eq_Inr split: if_splits)
qed

section \<open>Bytes that the parser does not read\<close>

definition checksum_pos :: "bytes \<Rightarrow> nat" where
  "checksum_pos p = 14 + ihl_of p + (if p ! 23 = 6 then 16 else 6)"

text \<open>Link addresses, IPv4 checksum and addresses, ports and transport checksum.\<close>

definition rewritable :: "bytes \<Rightarrow> nat \<Rightarrow> bool" where
  "rewritable p i \<longleftrightarrow> i < 12 \<or> 24 \<le> i \<and> i < 34 \<or> 14 + ihl_of p \<le> i \<and> i < 18 + ihl_of p
     \<or> checksum_pos p \<le> i \<and> i < checksum_pos p + 2"

definition same_frame :: "bytes \<Rightarrow> bytes \<Rightarrow> bool" where
  "same_frame p q \<longleftrightarrow> length q = length p \<and> (\<forall>i < length p. \<not> rewritable p i \<longrightarrow> q ! i = p ! i)"

lemma frame_ok_length:
  assumes "frame_ok p"
  shows "34 \<le> length p" "20 \<le> ihl_of p" "14 + total_len_of p \<le> length p"
    "checksum_pos p + 2 \<le> 14 + total_len_of p" "22 + ihl_of p \<le> 14 + total_len_of p"
    "p ! 23 = 6 \<or> p ! 23 = 17"
  using assms by (auto simp: frame_ok_def tcp_ok_def udp_ok_def checksum_pos_def)

lemma same_frame_nth:
  assumes "same_frame p q" and "i < length p" and "\<not> rewritable p i"
  shows "q ! i = p ! i"
  using assms by (simp add: same_frame_def)

lemma same_frame_fields:
  assumes ok: "frame_ok p" and same: "same_frame p q"
  shows "ihl_of q = ihl_of p" "total_len_of q = total_len_of p" "q ! 23 = p ! 23"
    "be16 q 12 = be16 p 12" "q ! 14 = p ! 14" "be16 q 20 = be16 p 20" "checksum_pos q = checksum_pos p"
proof -
  note len = frame_ok_length [OF ok]
  have eq: "q ! i = p ! i" if "12 \<le> i" "i < 24" for i
    using that len by (intro same_frame_nth [OF same]) (auto simp: rewritable_def checksum_pos_def)
  show i: "ihl_of q = ihl_of p" and "total_len_of q = total_len_of p" and pr: "q ! 23 = p ! 23"
    "be16 q 12 = be16 p 12" "q ! 14 = p ! 14" "be16 q 20 = be16 p 20"
    by (simp_all add: ihl_of_def total_len_of_def be16_def eq)
  show "checksum_pos q = checksum_pos p"
    using i pr by (simp add: checksum_pos_def)
qed

lemma same_frame_ok:
  assumes ok: "frame_ok p" and same: "same_frame p q"
  shows "frame_ok q" "view_of q = view_of p"
proof -
  note len = frame_ok_length [OF ok] and f = same_frame_fields [OF ok same]
  have tcp: "tcp_header_len_of q = tcp_header_len_of p" if "p ! 23 = 6"
  proof -
    have "ihl_of p + 20 \<le> total_len_of p"
      using ok that by (auto simp: frame_ok_def tcp_ok_def udp_ok_def)
    then have "q ! (26 + ihl_of p) = p ! (26 + ihl_of p)"
      using that len by (intro same_frame_nth [OF same]) (auto simp: rewritable_def checksum_pos_def)
    then show ?thesis by (simp add: tcp_header_len_of_def f)
  qed
  have udp: "udp_len_of q = udp_len_of p" if "p ! 23 = 17"
  proof -
    have "q ! i = p ! i" if "i = 18 + ihl_of p \<or> i = 19 + ihl_of p" for i
      using that \<open>p ! 23 = 17\<close> len
      by (intro same_frame_nth [OF same]) (auto simp: rewritable_def checksum_pos_def)
    then show ?thesis by (simp add: udp_len_of_def be16_def f)
  qed
  have "length q = length p" using same by (simp add: same_frame_def)
  then show "frame_ok q"
    using ok tcp udp by (auto simp: frame_ok_def f tcp_ok_def udp_ok_def)
  show "view_of q = view_of p" by (simp add: view_of_def f)
qed

lemma same_frame_refl [simp]: "same_frame p p"
  by (simp add: same_frame_def)

lemma same_frame_trans:
  assumes ok: "frame_ok p" and "same_frame p q" and "same_frame q r"
  shows "same_frame p r"
  using assms(2,3) same_frame_fields [OF ok assms(2)] by (simp add: same_frame_def rewritable_def)

lemma same_frame_overwrite:
  assumes "\<And>i. offset \<le> i \<Longrightarrow> i < offset + length bs \<Longrightarrow> rewritable p i"
    and "offset + length bs \<le> length p"
  shows "same_frame p (overwrite offset bs p)"
  using assms by (auto simp: same_frame_def nth_overwrite)

section \<open>Bounds of an accepted frame\<close>

definition example_frame :: bytes where
  "example_frame =
     [0, 0, 0, 0, 0, 0, 0, 0, 0, 0, 0, 0, 8, 0,
      0x45, 0, 0, 0x1c, 0, 0, 0, 0, 0x40, 17, 0xae, 0xce, 10, 0, 0, 2, 192, 0, 2, 1,
      0x14, 0xe9, 0, 53, 0, 8, 0x1e, 0xbd]"

lemma example_frame_ok: "frame_ok example_frame"
  by (simp add: frame_ok_def example_frame_def be16_def u16_from_be_def ihl_of_def total_len_of_def
      nat_from_be_def udp_ok_def udp_len_of_def)

text \<open>C35.
  Every offset of an accepted view lies in the frame: the IPv4 header starts after the link
  header and has 20 to 60 bytes, the transport header of at least 20 (TCP) or 8 (UDP) bytes
  follows it and ends, with the checksum field, before the end of the packet, which is within
  the buffer and below 2^16 + 14.  The frame is IPv4 and not a fragment.
\<close>

theorem parse_packet_bounds:
  assumes "parse_packet_bytes p = Inr v"
  shows "ipv4_offset v = ETHERNET_HEADER_LEN \<and> IPV4_HEADER_LEN \<le> ipv4_header_len v \<and> ipv4_header_len v \<le> 60
    \<and> transport_offset v = ipv4_offset v + ipv4_header_len v
    \<and> transport_offset v + (case transport v of Tcp \<Rightarrow> TCP_HEADER_LEN | Udp \<Rightarrow> UDP_HEADER_LEN) \<le> packet_end v
    \<and> transport_checksum_offset v + 2 \<le> packet_end v
    \<and> packet_end v \<le> length p \<and> packet_end v < 14 + 2 ^ 16
    \<and> be16 p 12 = ETHERTYPE_IPV4 \<and> be16 p 20 AND 0x3fff = 0"
proof -
  have ok: "frame_ok p" and v: "v = view_of p" using assms by (simp_all add: parse_packet_iff_frame)
  show ?thesis
    using ok ihl_of_le [of p] total_len_of_less [of p]
    by (auto simp: v view_of_def packet_consts transport_checksum_offset_def frame_ok_def tcp_ok_def udp_ok_def)
qed

theorem parse_packet_bounds_witness:
  "parse_packet_bytes example_frame = Inr (view_of example_frame)
   \<and> packet_end (view_of example_frame) \<le> length example_frame"
proof -
  have "parse_packet_bytes example_frame = Inr (view_of example_frame)"
    using example_frame_ok by (simp add: parse_packet_iff_frame)
  then show ?thesis using parse_packet_bounds [of example_frame "view_of example_frame"] by blast
qed

end
