(* ===== verification/Datapath.thy ===== *)
theory Datapath
  imports Packet
begin

unbundle bit_operations_syntax

text \<open>
  The packet decisions of \<open>src/ferro-net-ebpf/src/datapath.rs\<close>: policy, connection tracking,
  published ports and source NAT for one packet, and the application of a decision to the bytes
  of a frame.

  The trait \<open>DatapathState\<close> is the record \<open>datapath_state\<close> of operations on a state type; the
  three operations that write (\<open>reserve_conntrack\<close>, \<open>insert_conntrack\<close>, \<open>remove_conntrack\<close>)
  return the new state, so \<open>decide_egress\<close> returns its result together with the state it leaves.
  IPv4 and link addresses are byte lists of length 4 and 6.
\<close>

section \<open>Types\<close>

definition CONNTRACK_STATE_ESTABLISHED :: byte where "CONNTRACK_STATE_ESTABLISHED = 1"
definition POLICY_ACTION_ALLOW :: byte where "POLICY_ACTION_ALLOW = 1"
definition SNAT_PROBE_LIMIT :: nat where "SNAT_PROBE_LIMIT = 8"

datatype direction = Ingress | Egress

primrec direction_abi_value :: "direction \<Rightarrow> byte" where
  "direction_abi_value Ingress = 0"
| "direction_abi_value Egress = 1"

datatype action = Pass | Drop | Redirect

datatype counter =
    IngressPackets | EgressPackets | Redirects | Passes | Drops | NatTranslations | PolicyDenials
  | MapErrors | SnatExhaustions | SnatConfigErrors

primrec counter_index :: "counter \<Rightarrow> u32" where
  "counter_index IngressPackets = 0"
| "counter_index EgressPackets = 1"
| "counter_index Redirects = 2"
| "counter_index Passes = 3"
| "counter_index Drops = 4"
| "counter_index NatTranslations = 5"
| "counter_index PolicyDenials = 6"
| "counter_index MapErrors = 7"
| "counter_index SnatExhaustions = 8"
| "counter_index SnatConfigErrors = 9"

primrec packet_counter :: "direction \<Rightarrow> counter" where
  "packet_counter Ingress = IngressPackets"
| "packet_counter Egress = EgressPackets"

primrec action_counter :: "action \<Rightarrow> counter" where
  "action_counter Pass = Passes"
| "action_counter Drop = Drops"
| "action_counter Redirect = Redirects"

record socket =
  sock_address :: bytes
  sock_port :: u16

record packet =
  pkt_protocol :: byte
  pkt_source :: socket
  pkt_destination :: socket

record flow_key =
  fk_protocol :: byte
  fk_source :: bytes
  fk_destination :: bytes
  fk_source_port :: u16
  fk_destination_port :: u16

definition flow_key_of :: "packet \<Rightarrow> flow_key" where
  "flow_key_of p =
     \<lparr>fk_protocol = pkt_protocol p, fk_source = sock_address (pkt_source p),
      fk_destination = sock_address (pkt_destination p), fk_source_port = sock_port (pkt_source p),
      fk_destination_port = sock_port (pkt_destination p)\<rparr>"

definition flow_key_encode :: "flow_key \<Rightarrow> bytes" where
  "flow_key_encode k =
     [fk_protocol k, 0, 0, 0] @ fk_source k @ fk_destination k
     @ u16_to_be (fk_source_port k) @ u16_to_be (fk_destination_port k)"

record policy_key =
  pk_endpoint :: bytes
  pk_protocol :: byte
  pk_direction :: direction
  pk_port :: u16

definition policy_key_for :: "packet \<Rightarrow> direction \<Rightarrow> policy_key" where
  "policy_key_for p dir =
     \<lparr>pk_endpoint = (case dir of Ingress \<Rightarrow> sock_address (pkt_destination p)
                              | Egress \<Rightarrow> sock_address (pkt_source p)),
      pk_protocol = pkt_protocol p, pk_direction = dir, pk_port = sock_port (pkt_destination p)\<rparr>"

definition policy_key_encode :: "policy_key \<Rightarrow> bytes" where
  "policy_key_encode k =
     pk_endpoint k @ [pk_protocol k, direction_abi_value (pk_direction k)] @ u16_to_be (pk_port k)"

datatype policy_action = PolicyAllow | PolicyDeny

record nat_target =
  nt_address :: bytes
  nt_port :: u16

record port_target =
  pt_address :: bytes
  pt_port :: u16

record endpoint =
  ep_ifindex :: u32
  ep_mac :: bytes
  ep_flags :: byte

record external_network =
  ex_address :: bytes
  ex_bridge_gateway :: bytes
  ex_ifindex :: u32
  ex_loopback_ifindex :: u32
  ex_next_hop_mac :: bytes
  ex_snat_port_start :: u16
  ex_snat_port_end :: u16
  ex_snat_range_reserved :: bool

record conntrack_record =
  cr_key :: flow_key
  cr_target :: nat_target

record conntrack_pair =
  pair_forward :: conntrack_record
  pair_reverse :: conntrack_record

datatype conntrack_reservation = Reserved | Occupied | ReserveFailed

datatype translation = NoTranslation | SourceNat | DestinationNat | SourceAndDestination

record decision =
  d_action :: action
  d_source :: socket
  d_destination :: socket
  d_ifindex :: "u32 option"
  d_redirect_ingress :: bool
  d_destination_mac :: "bytes option"
  d_translation :: translation
  d_reverse_conntrack :: "conntrack_record option"
  d_installed_conntrack :: "conntrack_pair option"

definition decision_pass :: "packet \<Rightarrow> decision" where
  "decision_pass p =
     \<lparr>d_action = Pass, d_source = pkt_source p, d_destination = pkt_destination p, d_ifindex = None,
      d_redirect_ingress = False, d_destination_mac = None, d_translation = NoTranslation,
      d_reverse_conntrack = None, d_installed_conntrack = None\<rparr>"

record decision_metrics =
  m_packet :: counter
  m_outcome :: counter
  m_translated :: bool

definition metrics :: "decision \<Rightarrow> direction \<Rightarrow> action \<Rightarrow> decision_metrics" where
  "metrics d dir actual =
     \<lparr>m_packet = packet_counter dir, m_outcome = action_counter actual,
      m_translated = (actual \<noteq> Drop \<and> d_translation d \<noteq> NoTranslation)\<rparr>"

datatype decision_error =
    PolicyDenied | EndpointMissing | InvalidTranslation | SnatConfigInvalid | SnatExhausted
  | ConntrackInsertFailed

datatype parse_failure = Unsupported | Invalid

fun action_for_parse_failure :: "parse_failure \<Rightarrow> bool \<Rightarrow> action" where
  "action_for_parse_failure Unsupported owned = Pass"
| "action_for_parse_failure Invalid owned = (if owned then Drop else Pass)"

definition actual_disposition :: "decision \<Rightarrow> bool \<Rightarrow> action" where
  "actual_disposition d redirect_succeeded =
     (case d_action d of
        Redirect \<Rightarrow>
          (case d_ifindex d of
             Some ifindex \<Rightarrow> if ifindex \<noteq> 0 \<and> redirect_succeeded then Redirect else Drop
           | None \<Rightarrow> Drop)
      | a \<Rightarrow> a)"

record 's datapath_state =
  policy :: "'s \<Rightarrow> policy_key \<Rightarrow> policy_action option"
  conntrack :: "'s \<Rightarrow> flow_key \<Rightarrow> nat_target option"
  published_port :: "'s \<Rightarrow> byte \<Rightarrow> u16 \<Rightarrow> port_target option"
  endpoint_of :: "'s \<Rightarrow> bytes \<Rightarrow> endpoint option"
  external_of :: "'s \<Rightarrow> external_network option"
  reserve_conntrack :: "'s \<Rightarrow> conntrack_record \<Rightarrow> conntrack_reservation \<times> 's"
  insert_conntrack :: "'s \<Rightarrow> conntrack_record \<Rightarrow> (unit + unit) \<times> 's"
  remove_conntrack :: "'s \<Rightarrow> flow_key \<Rightarrow> 's"

section \<open>Helpers of the decisions\<close>

definition enforce_policy ::
  "'s datapath_state \<Rightarrow> 's \<Rightarrow> packet \<Rightarrow> direction \<Rightarrow> decision_error + unit" where
  "enforce_policy ops s p dir =
     (case policy ops s (policy_key_for p dir) of
        Some PolicyDeny \<Rightarrow> Inl PolicyDenied
      | Some PolicyAllow \<Rightarrow> Inr ()
      | None \<Rightarrow> Inr ())"

definition zero_address :: bytes where "zero_address = [0, 0, 0, 0]"
definition zero_mac :: bytes where "zero_mac = [0, 0, 0, 0, 0, 0]"

definition valid_target :: "bytes \<Rightarrow> u16 \<Rightarrow> bool" where
  "valid_target address port \<longleftrightarrow> address \<noteq> zero_address \<and> port \<noteq> 0"

definition valid_external :: "external_network \<Rightarrow> bool" where
  "valid_external ex \<longleftrightarrow>
     ex_address ex \<noteq> zero_address \<and> ex_ifindex ex \<noteq> 0 \<and> ex_next_hop_mac ex \<noteq> zero_mac"

definition snat_width :: "u16 \<Rightarrow> u16 \<Rightarrow> u32" where
  "snat_width range_start range_end = ucast range_end - ucast range_start + 1"

definition valid_snat_range :: "u16 \<Rightarrow> u16 \<Rightarrow> bool" where
  "valid_snat_range range_start range_end \<longleftrightarrow>
     range_start \<noteq> 0 \<and> range_start \<le> range_end
     \<and> of_nat SNAT_PROBE_LIMIT \<le> snat_width range_start range_end"

definition fnv_hash :: "bytes \<Rightarrow> u32" where
  "fnv_hash bs = fold (\<lambda>b h. (h XOR ucast b) * 16777619) bs 2166136261"

definition snat_candidate :: "packet \<Rightarrow> nat \<Rightarrow> u16 \<Rightarrow> u16 \<Rightarrow> u16 option" where
  "snat_candidate p probe range_start range_end =
     (if \<not> valid_snat_range range_start range_end \<or> SNAT_PROBE_LIMIT \<le> probe then None
      else
        let hash = fnv_hash (flow_key_encode (flow_key_of p));
            width = snat_width range_start range_end
        in Some (range_start + ucast ((hash + of_nat probe) mod width)))"

primrec decision_error_counter :: "decision_error \<Rightarrow> counter option" where
  "decision_error_counter PolicyDenied = Some PolicyDenials"
| "decision_error_counter SnatExhausted = Some SnatExhaustions"
| "decision_error_counter SnatConfigInvalid = Some SnatConfigErrors"
| "decision_error_counter EndpointMissing = Some MapErrors"
| "decision_error_counter InvalidTranslation = Some MapErrors"
| "decision_error_counter ConntrackInsertFailed = Some MapErrors"

definition conntrack_pair_of :: "packet \<Rightarrow> external_network \<Rightarrow> u16 \<Rightarrow> conntrack_pair" where
  "conntrack_pair_of p ex port =
     \<lparr>pair_forward =
        \<lparr>cr_key = flow_key_of p, cr_target = \<lparr>nt_address = ex_address ex, nt_port = port\<rparr>\<rparr>,
      pair_reverse =
        \<lparr>cr_key =
           \<lparr>fk_protocol = pkt_protocol p, fk_source = sock_address (pkt_destination p),
            fk_destination = ex_address ex, fk_source_port = sock_port (pkt_destination p),
            fk_destination_port = port\<rparr>,
         cr_target =
           \<lparr>nt_address = sock_address (pkt_source p), nt_port = sock_port (pkt_source p)\<rparr>\<rparr>\<rparr>"

text \<open>The probing loop; the probe counter grows to the limit.\<close>

function install_from ::
  "'s datapath_state \<Rightarrow> packet \<Rightarrow> external_network \<Rightarrow> nat \<Rightarrow> 's \<Rightarrow> (decision_error + conntrack_pair) \<times> 's" where
  "install_from ops p ex probe s =
     (if probe < SNAT_PROBE_LIMIT then
        (case snat_candidate p probe (ex_snat_port_start ex) (ex_snat_port_end ex) of
           None \<Rightarrow> (Inl SnatConfigInvalid, s)
         | Some port \<Rightarrow>
             let pair = conntrack_pair_of p ex port in
             (case reserve_conntrack ops s (pair_reverse pair) of
                (Occupied, s1) \<Rightarrow> install_from ops p ex (probe + 1) s1
              | (ReserveFailed, s1) \<Rightarrow> (Inl ConntrackInsertFailed, s1)
              | (Reserved, s1) \<Rightarrow>
                  (case insert_conntrack ops s1 (pair_forward pair) of
                     (Inl _, s2) \<Rightarrow>
                       (Inl ConntrackInsertFailed, remove_conntrack ops s2 (cr_key (pair_reverse pair)))
                   | (Inr _, s2) \<Rightarrow> (Inr pair, s2))))
      else (Inl SnatExhausted, s))"
  by pat_completeness auto
termination
  by (relation "measure (\<lambda>(ops, p, ex, probe, s). SNAT_PROBE_LIMIT - probe)") auto

declare install_from.simps [simp del]

definition install_generic_snat ::
  "'s datapath_state \<Rightarrow> 's \<Rightarrow> packet \<Rightarrow> external_network \<Rightarrow> (decision_error + conntrack_pair) \<times> 's" where
  "install_generic_snat ops s p ex = install_from ops p ex 0 s"

section \<open>Ingress\<close>

definition socket_of :: "bytes \<Rightarrow> u16 \<Rightarrow> socket" where
  "socket_of a q = \<lparr>sock_address = a, sock_port = q\<rparr>"

definition bridge_gateway_or_zero :: "external_network option \<Rightarrow> bytes" where
  "bridge_gateway_or_zero ex = (case ex of None \<Rightarrow> zero_address | Some e \<Rightarrow> ex_bridge_gateway e)"

definition ingress_reverse :: "'s datapath_state \<Rightarrow> 's \<Rightarrow> packet \<Rightarrow> nat_target \<Rightarrow> decision" where
  "ingress_reverse ops s p t =
     (if endpoint_of ops s (sock_address (pkt_source p)) \<noteq> None then
        let d = (decision_pass p)\<lparr>d_source := socket_of (nt_address t) (nt_port t)\<rparr> in
        if sock_address (pkt_destination p) = bridge_gateway_or_zero (external_of ops s)
           \<and> nt_address t ! 0 = 127
        then d\<lparr>d_destination := (d_destination d)\<lparr>sock_address := nt_address t\<rparr>,
               d_translation := SourceAndDestination\<rparr>
        else d\<lparr>d_translation := SourceNat\<rparr>
      else (decision_pass p)\<lparr>d_destination := socket_of (nt_address t) (nt_port t),
                             d_translation := DestinationNat\<rparr>)"

definition host_loopback :: "packet \<Rightarrow> bool" where
  "host_loopback p \<longleftrightarrow> sock_address (pkt_source p) ! 0 = 127 \<and> sock_address (pkt_destination p) ! 0 = 127"

definition ingress_publish ::
  "'s datapath_state \<Rightarrow> 's \<Rightarrow> packet \<Rightarrow> port_target \<Rightarrow> decision_error + decision" where
  "ingress_publish ops s p t =
     (let d = (decision_pass p)\<lparr>d_destination := socket_of (pt_address t) (pt_port t)\<rparr> in
      rbind
        (if host_loopback p then
           rbind (ok_or EndpointMissing (external_of ops s)) (\<lambda>ex.
           Inr (d\<lparr>d_source := (d_source d)\<lparr>sock_address := ex_bridge_gateway ex\<rparr>,
                  d_translation := SourceAndDestination\<rparr>))
         else Inr (d\<lparr>d_translation := DestinationNat\<rparr>)) (\<lambda>d.
      rbind
        (if host_loopback p then
           rbind (ok_or EndpointMissing (external_of ops s)) (\<lambda>ex. Inr (ex_bridge_gateway ex))
         else Inr (sock_address (pkt_source p))) (\<lambda>reply_destination.
      Inr (d\<lparr>d_reverse_conntrack := Some
        \<lparr>cr_key =
           \<lparr>fk_protocol = pkt_protocol p, fk_source = pt_address t,
            fk_destination = reply_destination, fk_source_port = pt_port t,
            fk_destination_port = sock_port (pkt_source p)\<rparr>,
         cr_target =
           \<lparr>nt_address = sock_address (pkt_destination p),
            nt_port = sock_port (pkt_destination p)\<rparr>\<rparr>\<rparr>))))"

definition redirect_to :: "decision \<Rightarrow> u32 \<Rightarrow> bytes \<Rightarrow> decision" where
  "redirect_to d ifindex mac =
     d\<lparr>d_action := Redirect, d_ifindex := Some ifindex, d_destination_mac := Some mac\<rparr>"

definition ingress_route ::
  "'s datapath_state \<Rightarrow> 's \<Rightarrow> bool \<Rightarrow> decision \<Rightarrow> decision_error + decision" where
  "ingress_route ops s reverse_conntrack d =
     (case endpoint_of ops s (sock_address (d_destination d)) of
        Some ep \<Rightarrow>
          if ep_ifindex ep \<noteq> 0 \<and> ep_mac ep \<noteq> zero_mac then Inr (redirect_to d (ep_ifindex ep) (ep_mac ep))
          else Inl EndpointMissing
      | None \<Rightarrow>
          if reverse_conntrack then
            rbind (ok_or EndpointMissing (external_of ops s)) (\<lambda>ex.
            if sock_address (d_destination d) ! 0 = 127 then
              if ex_loopback_ifindex ex = 0 then Inl EndpointMissing
              else Inr ((redirect_to d (ex_loopback_ifindex ex) zero_mac)\<lparr>d_redirect_ingress := True\<rparr>)
            else if ex_ifindex ex \<noteq> 0 \<and> ex_next_hop_mac ex \<noteq> zero_mac then
              Inr (redirect_to d (ex_ifindex ex) (ex_next_hop_mac ex))
            else Inl EndpointMissing)
          else if d_translation d \<noteq> NoTranslation then Inl EndpointMissing
          else Inr d)"

definition already_translated :: "'s datapath_state \<Rightarrow> 's \<Rightarrow> packet \<Rightarrow> bool" where
  "already_translated ops s p \<longleftrightarrow>
     endpoint_of ops s (sock_address (pkt_source p)) \<noteq> None
     \<and> (case external_of ops s of
          None \<Rightarrow> False
        | Some ex \<Rightarrow> sock_address (pkt_destination p) ! 0 = 127
                     \<or> sock_address (pkt_destination p) = ex_address ex)
     \<and> published_port ops s (pkt_protocol p) (sock_port (pkt_destination p)) \<noteq> None"

definition decide_ingress ::
  "'s datapath_state \<Rightarrow> 's \<Rightarrow> packet \<Rightarrow> decision_error + decision" where
  "decide_ingress ops s p =
     rbind (enforce_policy ops s p Ingress) (\<lambda>_.
     case conntrack ops s (flow_key_of p) of
       Some t \<Rightarrow>
         if \<not> valid_target (nt_address t) (nt_port t) then Inl InvalidTranslation
         else if pkt_destination p = socket_of (nt_address t) (nt_port t) then Inr (decision_pass p)
         else ingress_route ops s True (ingress_reverse ops s p t)
     | None \<Rightarrow>
         if already_translated ops s p then Inr (decision_pass p)
         else
           (case published_port ops s (pkt_protocol p) (sock_port (pkt_destination p)) of
              Some t \<Rightarrow>
                if \<not> valid_target (pt_address t) (pt_port t) then Inl InvalidTranslation
                else rbind (ingress_publish ops s p t) (ingress_route ops s False)
            | None \<Rightarrow> ingress_route ops s False (decision_pass p)))"

section \<open>Egress\<close>

definition egress_hairpin ::
  "'s datapath_state \<Rightarrow> 's \<Rightarrow> packet \<Rightarrow> decision_error + decision" where
  "egress_hairpin ops s p =
     (if host_loopback p then
        (case published_port ops s (pkt_protocol p) (sock_port (pkt_destination p)) of
           None \<Rightarrow> Inr (decision_pass p)
         | Some t \<Rightarrow>
             if \<not> valid_target (pt_address t) (pt_port t) then Inl InvalidTranslation
             else
               rbind (ok_or EndpointMissing (external_of ops s)) (\<lambda>ex.
               Inr ((decision_pass p)
                 \<lparr>d_source := socket_of (ex_bridge_gateway ex) (sock_port (pkt_source p)),
                  d_destination := socket_of (pt_address t) (pt_port t),
                  d_translation := SourceAndDestination,
                  d_reverse_conntrack := Some
                    \<lparr>cr_key =
                       \<lparr>fk_protocol = pkt_protocol p, fk_source = pt_address t,
                        fk_destination = ex_bridge_gateway ex, fk_source_port = pt_port t,
                        fk_destination_port = sock_port (pkt_source p)\<rparr>,
                     cr_target =
                       \<lparr>nt_address = sock_address (pkt_destination p),
                        nt_port = sock_port (pkt_destination p)\<rparr>\<rparr>\<rparr>)))
      else Inr (decision_pass p))"

definition egress_conntrack ::
  "'s datapath_state \<Rightarrow> 's \<Rightarrow> packet \<Rightarrow> decision \<Rightarrow> decision_error + decision \<times> nat_target option" where
  "egress_conntrack ops s p d =
     (case conntrack ops s (flow_key_of p) of
        None \<Rightarrow> Inr (d, None)
      | Some t \<Rightarrow>
          if \<not> valid_target (nt_address t) (nt_port t) then Inl InvalidTranslation
          else
            let d = d\<lparr>d_source := socket_of (nt_address t) (nt_port t), d_translation := SourceNat\<rparr> in
            if sock_address (pkt_destination p) = bridge_gateway_or_zero (external_of ops s)
               \<and> nt_address t ! 0 = 127
            then Inr (d\<lparr>d_destination := (d_destination d)\<lparr>sock_address := nt_address t\<rparr>,
                        d_translation := SourceAndDestination\<rparr>, Some t)
            else Inr (d, Some t))"

definition egress_external ::
  "'s datapath_state \<Rightarrow> 's \<Rightarrow> packet \<Rightarrow> decision \<Rightarrow> nat_target option \<Rightarrow> (decision_error + decision) \<times> 's" where
  "egress_external ops s p d conntrack_target =
     (case external_of ops s of
        None \<Rightarrow> (Inl SnatConfigInvalid, s)
      | Some ex \<Rightarrow>
          if \<not> valid_external ex \<or> \<not> ex_snat_range_reserved ex
             \<or> \<not> valid_snat_range (ex_snat_port_start ex) (ex_snat_port_end ex)
          then (Inl SnatConfigInvalid, s)
          else if (case conntrack_target of None \<Rightarrow> False | Some t \<Rightarrow> nt_address t ! 0 = 127) then
            if ex_loopback_ifindex ex = 0 then (Inl SnatConfigInvalid, s)
            else (Inr (redirect_to d (ex_loopback_ifindex ex) zero_mac), s)
          else if d_translation d = NoTranslation then
            (case install_generic_snat ops s p ex of
               (Inl e, s1) \<Rightarrow> (Inl e, s1)
             | (Inr pair, s1) \<Rightarrow>
                 (Inr (redirect_to
                   (d\<lparr>d_source := socket_of (nt_address (cr_target (pair_forward pair)))
                                              (nt_port (cr_target (pair_forward pair))),
                      d_translation := SourceNat, d_installed_conntrack := Some pair\<rparr>)
                   (ex_ifindex ex) (ex_next_hop_mac ex)), s1))
          else (Inr (redirect_to d (ex_ifindex ex) (ex_next_hop_mac ex)), s))"

definition decide_egress ::
  "'s datapath_state \<Rightarrow> 's \<Rightarrow> packet \<Rightarrow> (decision_error + decision) \<times> 's" where
  "decide_egress ops s p =
     (case rbind (enforce_policy ops s p Egress) (\<lambda>_.
           rbind (egress_hairpin ops s p) (egress_conntrack ops s p)) of
        Inl e \<Rightarrow> (Inl e, s)
      | Inr (d, conntrack_target) \<Rightarrow>
          (case endpoint_of ops s (sock_address (d_destination d)) of
             Some ep \<Rightarrow>
               if ep_ifindex ep = 0 \<or> ep_mac ep = zero_mac then (Inl EndpointMissing, s)
               else (Inr (redirect_to d (ep_ifindex ep) (ep_mac ep)), s)
           | None \<Rightarrow>
               if endpoint_of ops s (sock_address (pkt_source p)) = None then (Inr d, s)
               else egress_external ops s p d conntrack_target))"

section \<open>Applying a decision to a frame\<close>

definition apply_source :: "packet \<Rightarrow> decision \<Rightarrow> bytes \<Rightarrow> write_result" where
  "apply_source p d bs =
     and_then
       (if sock_address (pkt_source p) \<noteq> sock_address (d_source d)
        then rewrite_ipv4_source bs (sock_address (d_source d)) else (Inr (), bs)) (\<lambda>bs.
     if sock_port (pkt_source p) \<noteq> sock_port (d_source d)
     then rewrite_transport_port bs PortSource (sock_port (d_source d)) else (Inr (), bs))"

definition apply_destination :: "packet \<Rightarrow> decision \<Rightarrow> bytes \<Rightarrow> write_result" where
  "apply_destination p d bs =
     and_then
       (if sock_address (pkt_destination p) \<noteq> sock_address (d_destination d)
        then rewrite_ipv4_destination bs (sock_address (d_destination d)) else (Inr (), bs)) (\<lambda>bs.
     if sock_port (pkt_destination p) \<noteq> sock_port (d_destination d)
     then rewrite_transport_port bs PortDestination (sock_port (d_destination d)) else (Inr (), bs))"

definition apply_decision :: "bytes \<Rightarrow> packet \<Rightarrow> decision \<Rightarrow> write_result" where
  "apply_decision bs p d =
     and_then
       (case d_translation d of
          NoTranslation \<Rightarrow> (Inr (), bs)
        | SourceNat \<Rightarrow> apply_source p d bs
        | DestinationNat \<Rightarrow> apply_destination p d bs
        | SourceAndDestination \<Rightarrow> and_then (apply_source p d bs) (apply_destination p d)) (\<lambda>bs.
     case d_destination_mac d of
       None \<Rightarrow> (Inr (), bs)
     | Some mac \<Rightarrow>
         and_then (rewrite_ethernet_destination bs mac) (\<lambda>bs.
         if get_slice 6 12 bs = Some zero_mac
         then rewrite_ethernet_source bs SYNTHETIC_REDIRECT_SOURCE_MAC else (Inr (), bs)))"

section \<open>Sockets\<close>

lemma socket_of_eta [simp]: "socket_of (sock_address x) (sock_port x) = x"
  by (simp add: socket_of_def)

lemma socket_of_sel [simp]: "sock_address (socket_of a q) = a" "sock_port (socket_of a q) = q"
  by (simp_all add: socket_of_def)

end
