(* ===== verification/Packet_Checksum.thy ===== *)
theory Packet_Checksum
  imports Packet
begin

unbundle bit_operations_syntax

text \<open>
  The Internet checksum and its incremental update in \<open>src/ferro-net-ebpf/src/packet.rs\<close>.

  The reference is the one's complement sum of RFC 1071 over the big-endian 16-bit words of a
  byte string (\<open>internet_sum\<close>): a header is intact when the sum over it, checksum field included,
  is \<open>0xffff\<close>.  \<open>update_checksum_word\<close> never looks at the rest of the header; the theory shows
  that the rewriting operations keep every intact checksum intact.
\<close>

section \<open>The reference sum\<close>

definition ones_add :: "nat \<Rightarrow> nat \<Rightarrow> nat" where
  "ones_add x y = (if x + y < 65536 then x + y else x + y - 65535)"

fun internet_sum :: "bytes \<Rightarrow> nat" where
  "internet_sum [] = 0"
| "internet_sum [b] = 256 * unat b"
| "internet_sum (b # c # bs) = ones_add (256 * unat b + unat c) (internet_sum bs)"

definition segment_end :: "bytes \<Rightarrow> nat" where
  "segment_end p = (if p ! 23 = 6 then 14 + total_len_of p else 14 + ihl_of p + udp_len_of p)"

definition pseudo_header :: "bytes \<Rightarrow> bytes" where
  "pseudo_header p =
     subslice 26 34 p @ [0, p ! 23] @ nat_to_be 2 (segment_end p - (14 + ihl_of p))"

definition transport_segment :: "bytes \<Rightarrow> bytes" where
  "transport_segment p = subslice (14 + ihl_of p) (segment_end p) p"

definition ipv4_checksum_ok :: "bytes \<Rightarrow> bool" where
  "ipv4_checksum_ok p \<longleftrightarrow> internet_sum (subslice 14 (14 + ihl_of p) p) = 65535"

definition transport_checksum_ok :: "bytes \<Rightarrow> bool" where
  "transport_checksum_ok p \<longleftrightarrow>
     (if p ! 23 = 17 \<and> be16 p (checksum_pos p) = 0 then True
      else internet_sum (pseudo_header p @ transport_segment p) = 65535)"

text \<open>The plain sum of the words, and the one's complement sum as its residue.\<close>

fun word_sum :: "bytes \<Rightarrow> nat" where
  "word_sum [] = 0"
| "word_sum [b] = 256 * unat b"
| "word_sum (b # c # bs) = 256 * unat b + unat c + word_sum bs"

lemma internet_sum_word_sum:
  "internet_sum bs \<le> 65535 \<and> internet_sum bs mod 65535 = word_sum bs mod 65535
   \<and> (internet_sum bs = 0 \<longleftrightarrow> word_sum bs = 0)"
proof (induction bs rule: internet_sum.induct)
  case (2 b)
  then show ?case using unat_byte_less [of b] by simp
next
  case (3 b c bs)
  let ?w = "256 * unat b + unat c"
  have w: "?w \<le> 65535" using unat_byte_less [of b] unat_byte_less [of c] by simp
  have "ones_add ?w (internet_sum bs) mod 65535 = (?w + internet_sum bs) mod 65535"
    by (simp add: ones_add_def le_mod_geq)
  also have "\<dots> = (?w + word_sum bs) mod 65535"
    using 3 by (metis mod_add_right_eq)
  finally have "internet_sum (b # c # bs) mod 65535 = word_sum (b # c # bs) mod 65535" by simp
  moreover have "internet_sum (b # c # bs) \<le> 65535"
    "internet_sum (b # c # bs) = 0 \<longleftrightarrow> word_sum (b # c # bs) = 0"
    using 3 w by (auto simp: ones_add_def)
  ultimately show ?case by blast
qed simp

lemma internet_sum_ok_iff:
  "internet_sum bs = 65535 \<longleftrightarrow> 0 < word_sum bs \<and> word_sum bs mod 65535 = 0"
  using internet_sum_word_sum [of bs] by (auto simp: le_less intro: ccontr)

lemma word_sum_append: "even (length xs) \<Longrightarrow> word_sum (xs @ ys) = word_sum xs + word_sum ys"
  by (induction xs rule: word_sum.induct) simp_all

lemma word_sum_snoc: "word_sum (bs @ [b]) = word_sum bs + (if even (length bs) then 256 else 1) * unat b"
  by (induction bs rule: word_sum.induct) simp_all

lemma word_sum_pos: "i < length bs \<Longrightarrow> bs ! i \<noteq> 0 \<Longrightarrow> 0 < word_sum bs"
proof (induction bs arbitrary: i rule: word_sum.induct)
  case (3 b c bs)
  then show ?case
    by (cases i; cases "i - 1") (auto simp: unat_gt_0)
qed (auto simp: unat_gt_0)

section \<open>One word of the sum changes\<close>

definition weight :: "nat \<Rightarrow> nat" where
  "weight i = (if even i then 256 else 1)"

lemma word_sum_nth: "word_sum bs = (\<Sum>i < length bs. weight i * unat (bs ! i))"
proof (induction bs rule: rev_induct)
  case (snoc b bs)
  have "(\<Sum>i < length bs. weight i * unat ((bs @ [b]) ! i)) = (\<Sum>i < length bs. weight i * unat (bs ! i))"
    by (rule sum.cong) (auto simp: nth_append)
  then show ?case using snoc by (simp add: word_sum_snoc weight_def)
qed simp

lemma seg_sum_nth:
  assumes "b \<le> length p"
  shows "word_sum (subslice a b p) = (\<Sum>i < b - a. weight i * unat (p ! (a + i)))"
proof -
  have "length (subslice a b p) = b - a" using assms by simp
  moreover have "(\<Sum>i < b - a. weight i * unat (subslice a b p ! i)) = (\<Sum>i < b - a. weight i * unat (p ! (a + i)))"
    using assms by (intro sum.cong) (auto simp: nth_subslice)
  ultimately show ?thesis by (simp add: word_sum_nth)
qed

lemma sum_change_two:
  fixes f g :: "nat \<Rightarrow> nat"
  assumes "Suc j < n" and same: "\<And>i. i < n \<Longrightarrow> i \<noteq> j \<Longrightarrow> i \<noteq> Suc j \<Longrightarrow> g i = f i"
  shows "sum g {..<n} + (f j + f (Suc j)) = sum f {..<n} + (g j + g (Suc j))"
proof -
  let ?R = "{..<n} - {j} - {Suc j}"
  have split: "sum h {..<n} = h j + (h (Suc j) + sum h ?R)" for h :: "nat \<Rightarrow> nat"
    using assms(1) by (simp add: sum.remove [of _ j] sum.remove [of _ "Suc j"])
  have "sum g ?R = sum f ?R" using same by (intro sum.cong) auto
  then show ?thesis using split [of f] split [of g] by simp
qed

lemma seg_sum_overwrite:
  assumes "a \<le> offset" and "even (offset - a)" and "offset + 2 \<le> b" and "b \<le> length p"
    and "length bs = 2"
  shows "word_sum (subslice a b (overwrite offset bs p)) + unat (be16 p offset)
         = word_sum (subslice a b p) + (256 * unat (bs ! 0) + unat (bs ! 1))"
proof -
  let ?f = "\<lambda>i. weight i * unat (p ! (a + i))"
  let ?g = "\<lambda>i. weight i * unat (overwrite offset bs p ! (a + i))"
  let ?j = "offset - a"
  have "sum ?g {..<b - a} + (?f ?j + ?f (Suc ?j)) = sum ?f {..<b - a} + (?g ?j + ?g (Suc ?j))"
    using assms by (intro sum_change_two) (auto simp: nth_overwrite)
  moreover have "?f ?j + ?f (Suc ?j) = unat (be16 p offset)"
    using assms by (simp add: weight_def unat_be16)
  moreover have "?g ?j + ?g (Suc ?j) = 256 * unat (bs ! 0) + unat (bs ! 1)"
    using assms by (simp add: weight_def nth_overwrite)
  ultimately show ?thesis
    using assms by (simp add: seg_sum_nth)
qed

lemma subslice_overwrite_outside:
  assumes "offset + length bs \<le> a \<or> b \<le> offset" and "offset + length bs \<le> length p" and "b \<le> length p"
  shows "subslice a b (overwrite offset bs p) = subslice a b p"
  using assms by (intro nth_equalityI) (auto simp: nth_subslice nth_overwrite)

lemma overwrite_append:
  assumes "offset + length xs + length ys \<le> length p"
  shows "overwrite offset (xs @ ys) p = overwrite (offset + length xs) ys (overwrite offset xs p)"
  using assms by (intro nth_equalityI) (auto simp: nth_overwrite nth_append)

lemma be16_overwrite_outside:
  assumes "offset + length bs \<le> i \<or> i + 2 \<le> offset" and "offset + length bs \<le> length p" and "i + 2 \<le> length p"
  shows "be16 (overwrite offset bs p) i = be16 p i"
  using assms by (auto simp: be16_def nth_overwrite)

lemma be16_overwrite_same:
  assumes "offset + 2 \<le> length p"
  shows "be16 (overwrite offset (u16_to_be w) p) offset = w"
proof -
  have "be16 (overwrite offset (u16_to_be w) p) offset = u16_from_be [u16_to_be w ! 0, u16_to_be w ! 1]"
    using assms by (simp add: be16_def nth_overwrite)
  also have "[u16_to_be w ! 0, u16_to_be w ! 1] = u16_to_be w"
    by (rule nth_equalityI) (auto simp: less_Suc_eq)
  finally show ?thesis by simp
qed

lemma unat_u16_to_be: "256 * unat (u16_to_be w ! 0) + unat (u16_to_be w ! 1) = unat w"
  using be16_overwrite_same [of 0 "[0, 0]" w] unat_be16 [of "overwrite 0 (u16_to_be w) [0, 0]" 0]
  by (simp add: overwrite_def)

section \<open>The incremental update\<close>

lemma unat_low_half: "unat (s AND 0xffff) = unat s mod 65536" for s :: u32
proof -
  have "s AND 0xffff = take_bit 16 s"
    by (simp add: take_bit_eq_mask mask_eq_exp_minus_1)
  then show ?thesis
    by (simp add: unsigned_take_bit_eq take_bit_eq_mod [where ?'a = nat])
qed

lemma unat_high_half: "unat (drop_bit 16 s) = unat s div 65536" for s :: u32
  using unsigned_less [of s, where ?'a = nat]
  by (simp add: unsigned_drop_bit_eq drop_bit_eq_div [where ?'a = nat] take_bit_nat_eq_self)

lemma unat_fold_carry: "unat (fold_carry s) = unat s mod 65536 + unat s div 65536"
proof -
  have "unat s < 65536 * 65536" using unsigned_less [of s, where ?'a = nat] by simp
  then have "unat s mod 65536 + unat s div 65536 < 2 ^ 32"
    using mod_less_divisor [of 65536 "unat s"] by (simp add: less_mult_imp_div_less)
  then show ?thesis
    by (simp add: fold_carry_def unat_word_ariths unat_low_half unat_high_half)
qed

lemma fold_carry_mod: "unat (fold_carry s) mod 65535 = unat s mod 65535"
proof -
  have "unat s = 65536 * (unat s div 65536) + unat s mod 65536" by simp
  then have "unat s = 65535 * (unat s div 65536) + (unat s mod 65536 + unat s div 65536)" by linarith
  then show ?thesis by (metis unat_fold_carry mod_mult_self4)
qed

lemma unat_not_u16: "unat (NOT (w :: u16)) = 65535 - unat w"
proof -
  have "NOT w = - 1 - w" by (simp add: not_eq_complement)
  moreover have "w \<le> - 1" by simp
  ultimately have "unat (NOT w) = unat (- 1 :: u16) - unat w" by (simp add: unat_sub)
  moreover have "unat (- 1 :: u16) = 65535" by (simp add: unsigned_minus_1_eq_mask mask_eq_exp_minus_1)
  ultimately show ?thesis by simp
qed

lemma mod_cancel:
  fixes a b s t m :: nat
  assumes "a + s = b + t" and "s mod m = t mod m"
  shows "a mod m = b mod m"
proof -
  have "int m dvd int s - int t"
    using assms(2) by (metis mod_eq_dvd_iff of_nat_mod)
  then have "int m dvd int b - int a" 
  proof -
    have "int b - int a = int s - int t" using assms(1) by linarith
    then show ?thesis using \<open>int m dvd int s - int t\<close> by simp
  qed
  then have "int b mod int m = int a mod int m" by (simp add: mod_eq_dvd_iff)
  then show ?thesis by (metis of_nat_mod of_nat_eq_iff)
qed

lemma update_checksum_word_cong:
  "(unat (update_checksum_word c old new) + unat new) mod 65535 = (unat c + unat old) mod 65535"
proof -
  let ?s = "ucast (NOT c) + ucast (NOT old) + ucast new :: u32"
  let ?t = "fold_carry (fold_carry ?s)"
  let ?S = "(65535 - unat c) + (65535 - unat old) + unat new"
  note b = unat_u16_less [of c] unat_u16_less [of old] unat_u16_less [of new]
  have s: "unat ?s = ?S"
    using b by (simp add: unat_word_ariths unsigned_ucast_eq take_bit_nat_eq_self unat_not_u16)
  have f1: "unat (fold_carry ?s) \<le> 65537"
    using b by (simp add: unat_fold_carry s)
  have t: "unat ?t \<le> 65535"
  proof -
    have "n mod 65536 + n div 65536 \<le> 65535" if "n \<le> 65537" for n :: nat
    proof (cases "n < 65536")
      case False
      then have "n = 65536 \<or> n = 65537" using that by linarith
      then show ?thesis by auto
    qed simp
    then show ?thesis using f1 by (simp add: unat_fold_carry [of "fold_carry ?s"])
  qed
  have tm: "unat ?t mod 65535 = ?S mod 65535"
    using fold_carry_mod s by simp
  have r: "unat (update_checksum_word c old new) = 65535 - unat ?t"
    using t by (simp add: update_checksum_word_def unat_not_u16 unsigned_ucast_eq take_bit_nat_eq_self)
  have "(65535 - unat ?t + unat new) + (unat ?t + 65535) = (unat c + unat old) + ?S"
    using t b by simp
  moreover have "(unat ?t + 65535) mod 65535 = ?S mod 65535"
    using tm by simp
  ultimately show ?thesis unfolding r by (rule mod_cancel)
qed

lemma update_ipv4_checksum_cong:
  "(unat (update_ipv4_checksum c old new) + (unat (be16 new 0) + unat (be16 new 2))) mod 65535
   = (unat c + (unat (be16 old 0) + unat (be16 old 2))) mod 65535"
proof -
  define r where "r = update_checksum_word c (be16 old 0) (be16 new 0)"
  have u: "update_ipv4_checksum c old new = update_checksum_word r (be16 old 2) (be16 new 2)"
    by (simp add: update_ipv4_checksum_def r_def be16_def numeral_3_eq_3)
  have "(unat (update_ipv4_checksum c old new) + unat (be16 new 2) + unat (be16 new 0)) mod 65535
      = (unat r + unat (be16 old 2) + unat (be16 new 0)) mod 65535"
    unfolding u by (rule mod_add_cong) (simp_all add: update_checksum_word_cong)
  also have "\<dots> = (unat r + unat (be16 new 0) + unat (be16 old 2)) mod 65535"
    by (simp add: ac_simps)
  also have "\<dots> = (unat c + unat (be16 old 0) + unat (be16 old 2)) mod 65535"
    unfolding r_def by (rule mod_add_cong) (simp_all add: update_checksum_word_cong)
  finally show ?thesis by (simp add: ac_simps)
qed

lemma normalize_udp_checksum_mod: "unat (normalize_udp_checksum t c) mod 65535 = unat c mod 65535"
  by (simp add: normalize_udp_checksum_def)

lemma normalize_udp_checksum_nonzero: "normalize_udp_checksum Udp c \<noteq> 0"
  by (simp add: normalize_udp_checksum_def)

section \<open>The two checksums of a frame as residues\<close>

definition header_sum :: "bytes \<Rightarrow> nat" where
  "header_sum p = word_sum (subslice 14 (14 + ihl_of p) p)"

definition transport_sum :: "bytes \<Rightarrow> nat" where
  "transport_sum p = word_sum (pseudo_header p) + word_sum (transport_segment p)"

definition exempt :: "bytes \<Rightarrow> bool" where
  "exempt p \<longleftrightarrow> p ! 23 = 17 \<and> be16 p (checksum_pos p) = 0"

lemma segment_bounds:
  assumes "frame_ok p"
  shows "segment_end p \<le> length p" "checksum_pos p + 2 \<le> segment_end p"
    "22 + ihl_of p \<le> segment_end p"
    "14 + ihl_of p + 6 \<le> checksum_pos p" "34 \<le> 14 + ihl_of p"
  using assms by (auto simp: frame_ok_def tcp_ok_def udp_ok_def checksum_pos_def segment_end_def)

lemma checksum_pos_even: "even (checksum_pos p - (14 + ihl_of p))"
  by (simp add: checksum_pos_def)

lemma ipv4_checksum_ok_iff:
  assumes "frame_ok p"
  shows "ipv4_checksum_ok p \<longleftrightarrow> header_sum p mod 65535 = 0"
proof -
  have "p ! 14 \<noteq> 0" using assms by (auto simp: frame_ok_def)
  moreover have "subslice 14 (14 + ihl_of p) p ! 0 = p ! 14"
    using assms by (subst nth_subslice) (auto simp: frame_ok_def)
  ultimately have "0 < word_sum (subslice 14 (14 + ihl_of p) p)"
    using assms by (intro word_sum_pos [of 0]) (auto simp: frame_ok_def)
  then show ?thesis by (simp add: ipv4_checksum_ok_def header_sum_def internet_sum_ok_iff)
qed

lemma transport_checksum_ok_iff:
  assumes "frame_ok p"
  shows "transport_checksum_ok p \<longleftrightarrow> exempt p \<or> transport_sum p mod 65535 = 0"
proof -
  note len = frame_ok_length [OF assms]
  have "length (pseudo_header p) = 12" using len by (simp add: pseudo_header_def)
  then have sum: "word_sum (pseudo_header p @ transport_segment p) = transport_sum p"
    by (simp add: transport_sum_def word_sum_append)
  have "pseudo_header p ! 9 = p ! 23" using len by (simp add: pseudo_header_def nth_append)
  then have "0 < word_sum (pseudo_header p)"
    using len \<open>length (pseudo_header p) = 12\<close> by (intro word_sum_pos [of 9]) auto
  then have "0 < transport_sum p" by (simp add: transport_sum_def)
  then show ?thesis
    by (auto simp: transport_checksum_ok_def internet_sum_ok_iff sum exempt_def)
qed

text \<open>What a rewrite has to do: keep the frame, both residues and the exemption of UDP.\<close>

definition keeps_sums :: "bytes \<Rightarrow> bytes \<Rightarrow> bool" where
  "keeps_sums p q \<longleftrightarrow> same_frame p q \<and> header_sum q mod 65535 = header_sum p mod 65535
     \<and> exempt q = exempt p \<and> (\<not> exempt p \<longrightarrow> transport_sum q mod 65535 = transport_sum p mod 65535)"

lemma keeps_sums_refl [simp]: "keeps_sums p p"
  by (simp add: keeps_sums_def)

lemma keeps_sums_trans:
  "frame_ok p \<Longrightarrow> keeps_sums p q \<Longrightarrow> keeps_sums q r \<Longrightarrow> keeps_sums p r"
  by (auto simp: keeps_sums_def intro: same_frame_trans)

lemma keeps_sums_ok:
  assumes "frame_ok p" and "keeps_sums p q"
  shows "ipv4_checksum_ok q = ipv4_checksum_ok p" "transport_checksum_ok q = transport_checksum_ok p"
  using assms same_frame_ok [of p q]
  by (auto simp: ipv4_checksum_ok_iff transport_checksum_ok_iff keeps_sums_def)

lemma same_frame_segment_end:
  assumes "frame_ok p" and "same_frame p q"
  shows "segment_end q = segment_end p"
proof -
  have "udp_len_of q = udp_len_of p" if "p ! 23 \<noteq> 6"
  proof -
    have "q ! i = p ! i" if "i = 18 + ihl_of p \<or> i = 19 + ihl_of p" for i
      using that \<open>p ! 23 \<noteq> 6\<close> frame_ok_length [OF assms(1)]
      by (intro same_frame_nth [OF assms(2)]) (auto simp: rewritable_def checksum_pos_def)
    then show ?thesis by (simp add: udp_len_of_def be16_def same_frame_fields [OF assms])
  qed
  then show ?thesis by (simp add: segment_end_def same_frame_fields [OF assms])
qed

section \<open>The rewriting operations on an accepted frame\<close>

definition patched :: "bytes \<Rightarrow> u16 \<Rightarrow> u16" where
  "patched p c = (if exempt p then 0 else normalize_udp_checksum (transport (view_of p)) c)"

lemma exempt_view:
  "frame_ok p \<Longrightarrow> transport (view_of p) = Udp \<and> be16 p (checksum_pos p) = 0 \<longleftrightarrow> exempt p"
  using frame_ok_length(6) [of p] by (auto simp: exempt_def view_of_def)

lemma transport_checksum_offset_view: "frame_ok p \<Longrightarrow> transport_checksum_offset (view_of p) = checksum_pos p"
  by (simp add: transport_checksum_offset_def view_of_def checksum_pos_def)

lemma checksum_pos_le: "checksum_pos p \<le> 90"
  using ihl_of_le [of p] by (simp add: checksum_pos_def)

lemma parse_frame_ok: "frame_ok p \<Longrightarrow> parse_packet_bytes p = Inr (view_of p)"
  by (simp add: parse_packet_iff_frame)

lemma rewrite_ipv4_address_ok:
  fixes p :: bytes
  assumes ok: "frame_ok p" and d: "d = 12 \<or> d = 16" and a: "length a = 4"
  defines "old \<equiv> subslice (14 + d) (18 + d) p"
  shows "rewrite_ipv4_address p d a = (Inr (),
    overwrite (checksum_pos p) (u16_to_be (patched p (update_ipv4_checksum (be16 p (checksum_pos p)) old a)))
      (overwrite 24 (u16_to_be (update_ipv4_checksum (be16 p 24) old a)) (overwrite (14 + d) a p)))"
proof -
  note len = frame_ok_length [OF ok] and cp = checksum_pos_le [of p]
  have v: "ipv4_offset (view_of p) = 14" by (simp add: view_of_def)
  have 1: "checked_end 14 d = Inr (14 + d)" "checked_end (14 + d) 4 = Inr (18 + d)"
    using d by (auto simp: checked_end_def)
  have 2: "get_slice (14 + d) (18 + d) p = Some old"
    using d len by (auto simp: get_slice_def old_def)
  have 3: "read_slice_u16 p 24 = Inr (be16 p 24)"
    "read_slice_u16 p (checksum_pos p) = Inr (be16 p (checksum_pos p))"
    using len cp by (simp_all add: read_slice_u16_ok)
  have l1: "length (overwrite (14 + d) a p) = length p"
    using len d a by auto
  have w1: "write_slice_u16 (overwrite (14 + d) a p) 24 w = (Inr (), overwrite 24 (u16_to_be w) (overwrite (14 + d) a p))" for w
    using len l1 by (simp add: write_slice_u16_ok)
  have l2: "length (overwrite 24 (u16_to_be w) (overwrite (14 + d) a p)) = length p" for w
    using len l1 by simp
  have w2: "write_slice_u16 (overwrite 24 (u16_to_be w) (overwrite (14 + d) a p)) (checksum_pos p) w'
      = (Inr (), overwrite (checksum_pos p) (u16_to_be w') (overwrite 24 (u16_to_be w) (overwrite (14 + d) a p)))" for w w'
    using len l2 cp by (intro write_slice_u16_ok) simp_all
  show ?thesis
    unfolding rewrite_ipv4_address_def parse_frame_ok [OF ok] with_value_simps Let_def v 1 2
      transport_checksum_offset_view [OF ok] exempt_view [OF ok] ok_or_simps and_then_simps
    by (simp add: 3 w1 w2 patched_def update_transport_checksum_def exempt_view [OF ok])
qed

definition port_pos :: "bytes \<Rightarrow> port_field \<Rightarrow> nat" where
  "port_pos p field = 14 + ihl_of p + (case field of PortSource \<Rightarrow> 0 | PortDestination \<Rightarrow> 2)"

lemma rewrite_transport_port_ok:
  fixes p :: bytes and field :: port_field
  assumes ok: "frame_ok p"
  defines "pos \<equiv> port_pos p field"
  shows "rewrite_transport_port p field port = (Inr (),
    overwrite (checksum_pos p)
      (u16_to_be (patched p (update_checksum_word (be16 p (checksum_pos p)) (be16 p pos) port)))
      (overwrite pos (u16_to_be port) p))"
proof -
  note len = frame_ok_length [OF ok] and cp = checksum_pos_le [of p] and ih = ihl_of_le [of p]
  have po: "pos + 2 \<le> length p" "pos + 2 < 2 ^ 64" "transport_offset (view_of p) = 14 + ihl_of p"
    using len ih by (auto simp: pos_def port_pos_def view_of_def split: port_field.splits)
  have 3: "read_slice_u16 p pos = Inr (be16 p pos)"
    "read_slice_u16 p (checksum_pos p) = Inr (be16 p (checksum_pos p))"
    using len cp po by (simp_all add: read_slice_u16_ok)
  have w1: "write_slice_u16 p pos w = (Inr (), overwrite pos (u16_to_be w) p)" for w
    using po by (simp add: write_slice_u16_ok)
  have "length (overwrite pos (u16_to_be w) p) = length p" for w
    using po by simp
  then have w2: "write_slice_u16 (overwrite pos (u16_to_be w) p) (checksum_pos p) w'
      = (Inr (), overwrite (checksum_pos p) (u16_to_be w') (overwrite pos (u16_to_be w) p))" for w w'
    using len cp by (intro write_slice_u16_ok) simp_all
  show ?thesis
    unfolding rewrite_transport_port_def parse_frame_ok [OF ok] with_value_simps Let_def po(3)
      port_pos_def [symmetric] pos_def [symmetric] transport_checksum_offset_view [OF ok] exempt_view [OF ok]
    by (simp add: 3 w1 w2 patched_def exempt_view [OF ok])
qed

section \<open>Rewrites keep intact checksums intact\<close>

lemma header_sum_frame:
  "frame_ok p \<Longrightarrow> same_frame p q \<Longrightarrow> header_sum q = word_sum (subslice 14 (14 + ihl_of p) q)"
  using same_frame_fields(1) [of p q] by (simp add: header_sum_def)

lemma transport_sum_frame:
  assumes "frame_ok p" and "same_frame p q"
  shows "transport_sum q = word_sum (subslice 26 34 q)
     + word_sum ([0, p ! 23] @ nat_to_be 2 (segment_end p - (14 + ihl_of p)))
     + word_sum (subslice (14 + ihl_of p) (segment_end p) q)"
proof -
  have "34 \<le> length q" using assms frame_ok_length(1) by (simp add: same_frame_def)
  then show ?thesis
    by (simp add: transport_sum_def pseudo_header_def transport_segment_def word_sum_append
        same_frame_segment_end [OF assms] same_frame_fields [OF assms])
qed

text \<open>The last write of every rewrite: the transport checksum.\<close>

lemma patched_exempt:
  assumes ok: "frame_ok p" and same: "same_frame p q" and len: "checksum_pos p + 2 \<le> length q"
  shows "exempt (overwrite (checksum_pos p) (u16_to_be (patched p c)) q) = exempt p"
    "same_frame p (overwrite (checksum_pos p) (u16_to_be (patched p c)) q)"
proof -
  let ?q = "overwrite (checksum_pos p) (u16_to_be (patched p c)) q"
  note f = same_frame_fields [OF ok same]
  have "same_frame q ?q"
    using len by (intro same_frame_overwrite) (auto simp: rewritable_def f)
  then show sf: "same_frame p ?q" by (rule same_frame_trans [OF ok same])
  have "be16 ?q (checksum_pos p) = patched p c"
    using len by (rule be16_overwrite_same)
  then show "exempt ?q = exempt p"
    using same_frame_fields [OF ok sf] normalize_udp_checksum_nonzero [of c]
    by (auto simp: exempt_def patched_def view_of_def)
qed

lemma patched_mod: "\<not> exempt p \<Longrightarrow> unat (patched p c) mod 65535 = unat c mod 65535"
  by (simp add: patched_def normalize_udp_checksum_mod)

lemma sum_overwrite_address:
  assumes "a \<le> offset" and "even (offset - a)" and "offset + 4 \<le> b" and "b \<le> length p" and "length new = 4"
  shows "word_sum (subslice a b (overwrite offset new p)) + (unat (be16 p offset) + unat (be16 p (offset + 2)))
         = word_sum (subslice a b p) + (unat (be16 new 0) + unat (be16 new 2))"
proof -
  define xs ys where "xs = take 2 new" and "ys = drop 2 new"
  have new: "new = xs @ ys" and l: "length xs = 2" "length ys = 2"
    using assms(5) by (simp_all add: xs_def ys_def)
  let ?p = "overwrite offset xs p"
  have o: "overwrite offset new p = overwrite (offset + 2) ys ?p"
    using assms l by (simp add: new overwrite_append)
  have "word_sum (subslice a b ?p) + unat (be16 p offset)
      = word_sum (subslice a b p) + (256 * unat (xs ! 0) + unat (xs ! 1))"
    using assms l by (intro seg_sum_overwrite) auto
  moreover have "word_sum (subslice a b (overwrite (offset + 2) ys ?p)) + unat (be16 ?p (offset + 2))
      = word_sum (subslice a b ?p) + (256 * unat (ys ! 0) + unat (ys ! 1))"
    using assms l by (intro seg_sum_overwrite) auto
  moreover have "be16 ?p (offset + 2) = be16 p (offset + 2)"
    using assms l by (intro be16_overwrite_outside) auto
  moreover have "unat (be16 new 0) = 256 * unat (xs ! 0) + unat (xs ! 1)"
    "unat (be16 new 2) = 256 * unat (ys ! 0) + unat (ys ! 1)"
    using l by (simp_all add: unat_be16 new nth_append)
  ultimately show ?thesis unfolding o by simp
qed

lemma address_header_sum:
  assumes ok: "frame_ok p" and d: "d = 12 \<or> d = 16" and a: "length a = 4" and l: "length bs = 2"
  shows "word_sum (subslice 14 (14 + ihl_of p)
           (overwrite (checksum_pos p) bs (overwrite 24 (u16_to_be h) (overwrite (14 + d) a p))))
         + (unat (be16 p 24) + (unat (be16 p (14 + d)) + unat (be16 p (16 + d))))
       = header_sum p + (unat h + (unat (be16 a 0) + unat (be16 a 2)))"
proof -
  let ?q1 = "overwrite (14 + d) a p"
  note len = frame_ok_length [OF ok] segment_bounds [OF ok]
  have l1: "length ?q1 = length p" using len d a by auto
  have "subslice 14 (14 + ihl_of p) (overwrite (checksum_pos p) bs (overwrite 24 (u16_to_be h) ?q1))
      = subslice 14 (14 + ihl_of p) (overwrite 24 (u16_to_be h) ?q1)"
    using len l1 l by (intro subslice_overwrite_outside) auto
  moreover have "word_sum (subslice 14 (14 + ihl_of p) (overwrite 24 (u16_to_be h) ?q1)) + unat (be16 ?q1 24)
      = word_sum (subslice 14 (14 + ihl_of p) ?q1) + unat h"
    using len l1 seg_sum_overwrite [of 14 24 "14 + ihl_of p" ?q1 "u16_to_be h"]
    by (simp add: unat_u16_to_be [unfolded One_nat_def])
  moreover have "be16 ?q1 24 = be16 p 24"
    using len d a by (intro be16_overwrite_outside) auto
  moreover have "word_sum (subslice 14 (14 + ihl_of p) ?q1) + (unat (be16 p (14 + d)) + unat (be16 p (16 + d)))
      = header_sum p + (unat (be16 a 0) + unat (be16 a 2))"
    using len d a sum_overwrite_address [of 14 "14 + d" "14 + ihl_of p" p a]
    by (auto simp: header_sum_def ac_simps)
  ultimately show ?thesis by simp
qed

lemma address_transport_sum:
  assumes ok: "frame_ok p" and d: "d = 12 \<or> d = 16" and a: "length a = 4"
    and q: "q = overwrite (checksum_pos p) (u16_to_be w) (overwrite 24 (u16_to_be h) (overwrite (14 + d) a p))"
    and same: "same_frame p q"
  shows "transport_sum q + (unat (be16 p (checksum_pos p)) + (unat (be16 p (14 + d)) + unat (be16 p (16 + d))))
       = transport_sum p + (unat w + (unat (be16 a 0) + unat (be16 a 2)))"
proof -
  let ?q1 = "overwrite (14 + d) a p" and ?c = "checksum_pos p" and ?t = "14 + ihl_of p" and ?e = "segment_end p"
  let ?q2 = "overwrite 24 (u16_to_be h) ?q1"
  note len = frame_ok_length [OF ok] segment_bounds [OF ok]
  have l1: "length ?q1 = length p" using len d a by auto
  have l2: "length ?q2 = length p" using len l1 by simp
  have "subslice 26 34 q = subslice 26 34 ?q2"
    using len l2 unfolding q by (intro subslice_overwrite_outside) auto
  also have "\<dots> = subslice 26 34 ?q1"
    using len l1 by (intro subslice_overwrite_outside) auto
  finally have addr: "word_sum (subslice 26 34 q) + (unat (be16 p (14 + d)) + unat (be16 p (16 + d)))
      = word_sum (subslice 26 34 p) + (unat (be16 a 0) + unat (be16 a 2))"
    using len d a sum_overwrite_address [of 26 "14 + d" 34 p a] by (auto simp: ac_simps)
  have "subslice ?t ?e ?q2 = subslice ?t ?e ?q1"
    using len l1 by (intro subslice_overwrite_outside) auto
  also have "\<dots> = subslice ?t ?e p"
    using len d a by (intro subslice_overwrite_outside) auto
  finally have "word_sum (subslice ?t ?e q) + unat (be16 ?q2 ?c) = word_sum (subslice ?t ?e p) + unat w"
    using len l2 seg_sum_overwrite [OF _ checksum_pos_even, of p ?e ?q2 "u16_to_be w"]
    by (simp add: unat_u16_to_be [unfolded One_nat_def] q)
  moreover have "be16 ?q2 ?c = be16 ?q1 ?c"
    using len l1 by (intro be16_overwrite_outside) auto
  moreover have "be16 ?q1 ?c = be16 p ?c"
    using len d a by (intro be16_overwrite_outside) auto
  ultimately show ?thesis
    using addr transport_sum_frame [OF ok same] transport_sum_frame [OF ok same_frame_refl] by simp
qed

lemma rewrite_ipv4_address_keeps:
  assumes ok: "frame_ok p" and d: "d = 12 \<or> d = 16" and a: "length a = 4"
  obtains q where "rewrite_ipv4_address p d a = (Inr (), q)" and "keeps_sums p q"
    and "subslice (14 + d) (18 + d) q = a"
    and "\<And>i. i < length p \<Longrightarrow> i \<notin> {14 + d..<18 + d} \<Longrightarrow> i \<notin> {24, 25, checksum_pos p, Suc (checksum_pos p)}
      \<Longrightarrow> q ! i = p ! i"
proof -
  let ?o = "subslice (14 + d) (18 + d) p" and ?c = "checksum_pos p"
  let ?h = "update_ipv4_checksum (be16 p 24) ?o a"
  let ?t = "update_ipv4_checksum (be16 p ?c) ?o a"
  let ?q1 = "overwrite (14 + d) a p"
  let ?q2 = "overwrite 24 (u16_to_be ?h) ?q1"
  define q where "q = overwrite ?c (u16_to_be (patched p ?t)) ?q2"
  note len = frame_ok_length [OF ok] segment_bounds [OF ok]
  have l1: "length ?q1 = length p" and l2: "length ?q2 = length p" using len d a by auto
  have f1: "same_frame p ?q1"
    using len d a by (intro same_frame_overwrite) (auto simp: rewritable_def)
  moreover have "same_frame ?q1 ?q2"
    using l1 len by (intro same_frame_overwrite) (auto simp: rewritable_def)
  ultimately have f2: "same_frame p ?q2" by (rule same_frame_trans [OF ok])
  have f3: "same_frame p q" and ex: "exempt q = exempt p"
    using patched_exempt [OF ok f2] len l2 unfolding q_def by simp_all
  have old: "be16 ?o 0 = be16 p (14 + d)" "be16 ?o 2 = be16 p (16 + d)"
    using len d by (auto simp: be16_def nth_subslice)
  have "header_sum q mod 65535 = header_sum p mod 65535"
  proof (rule mod_cancel)
    show "header_sum q + (unat (be16 p 24) + (unat (be16 p (14 + d)) + unat (be16 p (16 + d))))
       = header_sum p + (unat ?h + (unat (be16 a 0) + unat (be16 a 2)))"
      unfolding header_sum_frame [OF ok f3] unfolding q_def by (rule address_header_sum [OF ok d a]) simp
    show "(unat (be16 p 24) + (unat (be16 p (14 + d)) + unat (be16 p (16 + d)))) mod 65535
       = (unat ?h + (unat (be16 a 0) + unat (be16 a 2))) mod 65535"
      using update_ipv4_checksum_cong [of "be16 p 24" ?o a] by (simp only: old)
  qed
  moreover have "transport_sum q mod 65535 = transport_sum p mod 65535" if "\<not> exempt p"
  proof (rule mod_cancel)
    show "transport_sum q + (unat (be16 p ?c) + (unat (be16 p (14 + d)) + unat (be16 p (16 + d))))
       = transport_sum p + (unat (patched p ?t) + (unat (be16 a 0) + unat (be16 a 2)))"
      by (rule address_transport_sum [OF ok d a q_def f3])
    show "(unat (be16 p ?c) + (unat (be16 p (14 + d)) + unat (be16 p (16 + d)))) mod 65535
       = (unat (patched p ?t) + (unat (be16 a 0) + unat (be16 a 2))) mod 65535"
      using update_ipv4_checksum_cong [of "be16 p ?c" ?o a] mod_add_cong [OF patched_mod [OF that, of ?t] refl]
      by (simp only: old)
  qed
  ultimately have "keeps_sums p q" using f3 ex by (simp add: keeps_sums_def)
  moreover have "subslice (14 + d) (18 + d) q = a"
    using l1 l2 len d a unfolding q_def
    by (intro nth_equalityI) (auto simp: nth_subslice nth_overwrite)
  moreover have "q ! i = p ! i"
    if "i < length p" "i \<notin> {14 + d..<18 + d}" "i \<notin> {24, 25, ?c, Suc ?c}" for i
    using that l1 l2 len d a unfolding q_def by (auto simp: nth_overwrite)
  ultimately show ?thesis
    using that rewrite_ipv4_address_ok [OF ok d a] by (simp add: q_def)
qed

lemma port_pos_bounds:
  "14 + ihl_of p \<le> port_pos p field" "port_pos p field + 2 \<le> 18 + ihl_of p"
  by (auto simp: port_pos_def split: port_field.splits)

lemma port_pos_even: "even (port_pos p field - (14 + ihl_of p))"
  by (auto simp: port_pos_def split: port_field.splits)

lemma port_overwrite_outside:
  assumes ok: "frame_ok p" and "b \<le> 14 + ihl_of p"
  shows "subslice a b (overwrite (checksum_pos p) (u16_to_be w) (overwrite (port_pos p field) (u16_to_be port) p))
    = subslice a b p"
proof -
  note len = frame_ok_length [OF ok] segment_bounds [OF ok] port_pos_bounds [of p field]
  let ?q1 = "overwrite (port_pos p field) (u16_to_be port) p"
  have "subslice a b (overwrite (checksum_pos p) (u16_to_be w) ?q1) = subslice a b ?q1"
    using len assms by (intro subslice_overwrite_outside) auto
  also have "\<dots> = subslice a b p"
    using len assms by (intro subslice_overwrite_outside) auto
  finally show ?thesis .
qed

lemma port_transport_sum:
  assumes ok: "frame_ok p"
    and q: "q = overwrite (checksum_pos p) (u16_to_be w) (overwrite (port_pos p field) (u16_to_be port) p)"
    and same: "same_frame p q"
  shows "transport_sum q + (unat (be16 p (checksum_pos p)) + unat (be16 p (port_pos p field)))
    = transport_sum p + (unat w + unat port)"
proof -
  let ?c = "checksum_pos p" and ?s = "port_pos p field" and ?t = "14 + ihl_of p" and ?e = "segment_end p"
  let ?q1 = "overwrite ?s (u16_to_be port) p"
  note len = frame_ok_length [OF ok] segment_bounds [OF ok] port_pos_bounds [of p field]
  have "length ?q1 = length p" using len by simp
  then have "word_sum (subslice ?t ?e q) + unat (be16 ?q1 ?c) = word_sum (subslice ?t ?e ?q1) + unat w"
    using len seg_sum_overwrite [OF _ checksum_pos_even, of p ?e ?q1 "u16_to_be w"]
    by (simp add: unat_u16_to_be [unfolded One_nat_def] q)
  moreover have "be16 ?q1 ?c = be16 p ?c"
    using len by (intro be16_overwrite_outside) auto
  moreover have "word_sum (subslice ?t ?e ?q1) + unat (be16 p ?s) = word_sum (subslice ?t ?e p) + unat port"
    using len seg_sum_overwrite [OF _ port_pos_even, of p field ?e p "u16_to_be port"]
    by (simp add: unat_u16_to_be [unfolded One_nat_def])
  moreover have "subslice 26 34 q = subslice 26 34 p"
    using len unfolding q by (intro port_overwrite_outside [OF ok]) simp
  ultimately show ?thesis
    using transport_sum_frame [OF ok same] transport_sum_frame [OF ok same_frame_refl] by simp
qed

lemma rewrite_transport_port_keeps:
  assumes ok: "frame_ok p"
  obtains q where "rewrite_transport_port p field port = (Inr (), q)" and "keeps_sums p q"
    and "be16 q (port_pos p field) = port"
    and "\<And>i. i < length p \<Longrightarrow> i \<notin> {port_pos p field, Suc (port_pos p field)}
      \<Longrightarrow> i \<notin> {checksum_pos p, Suc (checksum_pos p)} \<Longrightarrow> q ! i = p ! i"
proof -
  let ?c = "checksum_pos p" and ?s = "port_pos p field"
  let ?u = "update_checksum_word (be16 p ?c) (be16 p ?s) port"
  let ?q1 = "overwrite ?s (u16_to_be port) p"
  define q where "q = overwrite ?c (u16_to_be (patched p ?u)) ?q1"
  note len = frame_ok_length [OF ok] segment_bounds [OF ok] port_pos_bounds [of p field]
  have l1: "length ?q1 = length p" using len by simp
  have f1: "same_frame p ?q1"
    using len by (intro same_frame_overwrite) (auto simp: rewritable_def)
  have f2: "same_frame p q" and ex: "exempt q = exempt p"
    using patched_exempt [OF ok f1] len l1 unfolding q_def by simp_all
  have "header_sum q = header_sum p"
    unfolding header_sum_frame [OF ok f2] unfolding q_def
    by (simp add: port_overwrite_outside [OF ok] header_sum_def)
  moreover have "transport_sum q mod 65535 = transport_sum p mod 65535" if "\<not> exempt p"
  proof (rule mod_cancel [OF port_transport_sum [OF ok q_def f2]])
    show "(unat (be16 p ?c) + unat (be16 p ?s)) mod 65535 = (unat (patched p ?u) + unat port) mod 65535"
      using update_checksum_word_cong [of "be16 p ?c" "be16 p ?s" port]
        mod_add_cong [OF patched_mod [OF that, of ?u] refl, of "unat port"] by (simp only:)
  qed
  ultimately have "keeps_sums p q" using f2 ex by (simp add: keeps_sums_def)
  moreover have "be16 q ?s = be16 ?q1 ?s"
    using len l1 unfolding q_def by (intro be16_overwrite_outside) auto
  then have "be16 q ?s = port" using be16_overwrite_same [of ?s p port] len by simp
  moreover have "q ! i = p ! i" if "i < length p" "i \<notin> {?s, Suc ?s}" "i \<notin> {?c, Suc ?c}" for i
    using that l1 len unfolding q_def by (auto simp: nth_overwrite)
  ultimately show ?thesis
    using that rewrite_transport_port_ok [OF ok, of field port] by (simp add: q_def)
qed

lemma ethernet_overwrite_keeps:
  assumes ok: "frame_ok p" and "offset + length bs \<le> 12"
  shows "keeps_sums p (overwrite offset bs p)"
proof -
  note len = frame_ok_length [OF ok] segment_bounds [OF ok]
  let ?q = "overwrite offset bs p"
  have f: "same_frame p ?q"
    using len assms by (intro same_frame_overwrite) (auto simp: rewritable_def)
  have sub: "subslice a b ?q = subslice a b p" if "14 \<le> a" "b \<le> length p" for a b
    using len assms that by (intro subslice_overwrite_outside) auto
  have "header_sum ?q = header_sum p"
    unfolding header_sum_frame [OF ok f] using len by (simp add: sub header_sum_def)
  moreover have "transport_sum ?q = transport_sum p"
    unfolding transport_sum_frame [OF ok f] transport_sum_frame [OF ok same_frame_refl]
    using len by (simp add: sub)
  moreover have "exempt ?q = exempt p"
    using len assms same_frame_fields [OF ok f] by (simp add: exempt_def be16_overwrite_outside)
  ultimately show ?thesis using f by (simp add: keeps_sums_def)
qed

lemma rewrite_ethernet_keeps:
  assumes ok: "frame_ok p" and "length mac = 6"
  shows "rewrite_ethernet_destination p mac = (Inr (), overwrite 0 mac p)"
    "rewrite_ethernet_source p mac = (Inr (), overwrite 6 mac p)"
    "keeps_sums p (overwrite 0 mac p)" "keeps_sums p (overwrite 6 mac p)"
  using assms frame_ok_length [OF ok]
  by (simp_all add: rewrite_ethernet_destination_def rewrite_ethernet_source_def parse_frame_ok get_slice_def
      ethernet_overwrite_keeps)

end
