(* ===== verification/Datapath_Apply.thy ===== *)
theory Datapath_Apply
  imports Datapath Packet_Checksum
begin

text \<open>
  From a frame to its packet tuple and back: \<open>packet_from_context\<close> and its loads in
  \<open>src/ferro-net-ebpf/src/main.rs\<close>, and the correctness of \<open>apply_decision\<close>.

  The loads of the classifier (\<open>ctx.load\<close>) are a parameter \<open>load\<close>; on a frame held as a byte
  list the parameter is \<open>slice_byte\<close>.
\<close>

section \<open>The packet tuple of a frame\<close>

definition load_byte :: "(nat \<Rightarrow> unit + byte) \<Rightarrow> nat \<Rightarrow> packet_error + byte" where
  "load_byte load offset = map_err (\<lambda>_. Truncated) (load offset)"

definition load_u16 :: "(nat \<Rightarrow> unit + byte) \<Rightarrow> nat \<Rightarrow> packet_error + u16" where
  "load_u16 load offset =
     rbind (load_byte load offset) (\<lambda>high.
     rbind (load_byte load (offset + 1)) (\<lambda>low.
     Inr (u16_from_be [high, low])))"

definition load_address :: "(nat \<Rightarrow> unit + byte) \<Rightarrow> nat \<Rightarrow> packet_error + bytes" where
  "load_address load offset =
     rbind (load_byte load offset) (\<lambda>a.
     rbind (load_byte load (offset + 1)) (\<lambda>b.
     rbind (load_byte load (offset + 2)) (\<lambda>c.
     rbind (load_byte load (offset + 3)) (\<lambda>d.
     Inr [a, b, c, d]))))"

definition transport_port_offsets :: "packet_view \<Rightarrow> (nat \<times> nat) option" where
  "transport_port_offsets view =
     (let t = transport_offset view in
      if t \<in> {20, 24, 28, 32, 36, 40, 44, 48, 52, 56, 60, 34, 38, 42, 46, 50, 54, 58, 62, 66, 70, 74}
      then Some (t, t + 2) else None)"

definition packet_from_context :: "(nat \<Rightarrow> unit + byte) \<Rightarrow> packet_view \<Rightarrow> packet_error + packet" where
  "packet_from_context load view =
     rbind (load_address load (ipv4_offset view + 12)) (\<lambda>source.
     rbind (load_address load (ipv4_offset view + 16)) (\<lambda>destination.
     rbind (ok_or Truncated
              (map_option (\<lambda>(s, d). (load_u16 load s, load_u16 load d)) (transport_port_offsets view)))
       (\<lambda>(source_port, destination_port).
     rbind source_port (\<lambda>source_port.
     rbind destination_port (\<lambda>destination_port.
     Inr \<lparr>pkt_protocol = (case transport view of Tcp \<Rightarrow> IP_PROTOCOL_TCP | Udp \<Rightarrow> IP_PROTOCOL_UDP),
          pkt_source = socket_of source source_port,
          pkt_destination = socket_of destination destination_port\<rparr>)))))"

text \<open>A frame in memory as the context of the loads.\<close>

definition frame_load :: "bytes \<Rightarrow> nat \<Rightarrow> unit + byte" where
  "frame_load p offset = ok_or () (if offset < length p then Some (p ! offset) else None)"

definition frame_packet :: "bytes \<Rightarrow> packet" where
  "frame_packet p =
     \<lparr>pkt_protocol = p ! 23,
      pkt_source = socket_of (subslice 26 30 p) (be16 p (port_pos p PortSource)),
      pkt_destination = socket_of (subslice 30 34 p) (be16 p (port_pos p PortDestination))\<rparr>"

lemma load_byte_frame: "i < length p \<Longrightarrow> load_byte (frame_load p) i = Inr (p ! i)"
  by (simp add: load_byte_def frame_load_def)

lemma load_u16_frame: "Suc i < length p \<Longrightarrow> load_u16 (frame_load p) i = Inr (be16 p i)"
  by (simp add: load_u16_def load_byte_frame be16_def)

lemma subslice_four:
  assumes "i + 4 \<le> length p"
  shows "subslice i (i + 4) p = [p ! i, p ! (i + 1), p ! (i + 2), p ! (i + 3)]"
  using assms by (intro nth_equalityI) (auto simp: nth_subslice less_Suc_eq numeral_eq_Suc)

lemma load_address_frame: "i + 4 \<le> length p \<Longrightarrow> load_address (frame_load p) i = Inr (subslice i (i + 4) p)"
  by (simp add: load_address_def load_byte_frame subslice_four)

lemma ihl_of_cases:
  assumes "20 \<le> ihl_of p"
  shows "ihl_of p \<in> {20, 24, 28, 32, 36, 40, 44, 48, 52, 56, 60}"
proof -
  define n where "n = unat (p ! 14 AND 0x0f)"
  have "n \<le> 15" using unat_low_nibble [of "p ! 14"] by (simp add: n_def)
  moreover have "ihl_of p = n * 4" by (simp add: ihl_of_def n_def)
  ultimately show ?thesis using assms by (auto simp: numeral_eq_Suc le_Suc_eq)
qed

lemma packet_from_frame:
  assumes ok: "frame_ok p"
  shows "packet_from_context (frame_load p) (view_of p) = Inr (frame_packet p)"
proof -
  note len = frame_ok_length [OF ok]
  have "transport_port_offsets (view_of p) = Some (14 + ihl_of p, 16 + ihl_of p)"
    using ihl_of_cases [OF len(2)] by (auto simp: transport_port_offsets_def view_of_def Let_def)
  moreover have "load_u16 (frame_load p) (14 + ihl_of p) = Inr (be16 p (port_pos p PortSource))"
    "load_u16 (frame_load p) (16 + ihl_of p) = Inr (be16 p (port_pos p PortDestination))"
    using len by (simp_all add: load_u16_frame port_pos_def)
  moreover have "load_address (frame_load p) 26 = Inr (subslice 26 30 p)"
    "load_address (frame_load p) 30 = Inr (subslice 30 34 p)"
    using len load_address_frame [of 26 p] load_address_frame [of 30 p] by simp_all
  moreover have "(case transport (view_of p) of Tcp \<Rightarrow> IP_PROTOCOL_TCP | Udp \<Rightarrow> IP_PROTOCOL_UDP) = p ! 23"
    using len by (auto simp: view_of_def packet_consts)
  ultimately show ?thesis
    by (simp add: packet_from_context_def frame_packet_def view_of_def)
qed

section \<open>Effect of one rewrite on the tuple\<close>

text \<open>
  \<open>carries p q t\<close>: the frame \<open>q\<close> has the header, the checksum residues and the link addresses of
  \<open>p\<close>, and the packet tuple \<open>t\<close>.
\<close>

definition carries :: "bytes \<Rightarrow> bytes \<Rightarrow> packet \<Rightarrow> bool" where
  "carries p q t \<longleftrightarrow> keeps_sums p q \<and> frame_packet q = t \<and> (\<forall>i < 12. q ! i = p ! i)"

lemma carries_refl: "carries p p (frame_packet p)"
  by (simp add: carries_def)

lemma carries_frame_ok:
  assumes "frame_ok p" and "carries p q t"
  shows "frame_ok q" "same_frame p q"
  using assms same_frame_ok by (auto simp: carries_def keeps_sums_def)

lemma carries_trans:
  assumes ok: "frame_ok p" and "carries p q t" and "carries q r u"
  shows "carries p r u"
  using assms keeps_sums_trans [OF ok] by (auto simp: carries_def)

lemma same_frame_port_pos: "frame_ok p \<Longrightarrow> same_frame p q \<Longrightarrow> port_pos q f = port_pos p f"
  using same_frame_fields(1) [of p q] by (simp add: port_pos_def)

lemma subslice_eq_nth:
  assumes "length q = length p" and "\<And>i. a \<le> i \<Longrightarrow> i < b \<Longrightarrow> q ! i = p ! i" and "b \<le> length p"
  shows "subslice a b q = subslice a b p"
  using assms by (intro nth_equalityI) (auto simp: nth_subslice)

lemma frame_packet_eqI:
  assumes ok: "frame_ok p" and same: "same_frame p q"
    and "subslice 26 30 q = src" and "subslice 30 34 q = dst"
    and "be16 q (port_pos p PortSource) = sp" and "be16 q (port_pos p PortDestination) = dp"
  shows "frame_packet q = \<lparr>pkt_protocol = p ! 23, pkt_source = socket_of src sp, pkt_destination = socket_of dst dp\<rparr>"
  using assms(3-) same_frame_fields(3) [OF ok same] same_frame_port_pos [OF ok same]
  by (simp add: frame_packet_def)

lemma rewrite_address_carries:
  assumes ok: "frame_ok p" and a: "length a = 4"
  shows "\<exists>q. rewrite_ipv4_source p a = (Inr (), q)
       \<and> carries p q ((frame_packet p)\<lparr>pkt_source := socket_of a (sock_port (pkt_source (frame_packet p)))\<rparr>)"
    "\<exists>q. rewrite_ipv4_destination p a = (Inr (), q)
       \<and> carries p q ((frame_packet p)\<lparr>pkt_destination := socket_of a (sock_port (pkt_destination (frame_packet p)))\<rparr>)"
proof -
  note len = frame_ok_length [OF ok] segment_bounds [OF ok]
  have ports: "port_pos p f \<ge> 34" "port_pos p f + 2 \<le> length p" "Suc (port_pos p f) < checksum_pos p" for f
    using len port_pos_bounds [of p f] by auto
  obtain q where q: "rewrite_ipv4_address p 12 a = (Inr (), q)" "keeps_sums p q" "subslice 26 30 q = a"
    "\<And>i. i < length p \<Longrightarrow> i \<notin> {26..<30} \<Longrightarrow> i \<notin> {24, 25, checksum_pos p, Suc (checksum_pos p)} \<Longrightarrow> q ! i = p ! i"
    using rewrite_ipv4_address_keeps [OF ok _ a, of 12] by auto
  obtain r where r: "rewrite_ipv4_address p 16 a = (Inr (), r)" "keeps_sums p r" "subslice 30 34 r = a"
    "\<And>i. i < length p \<Longrightarrow> i \<notin> {30..<34} \<Longrightarrow> i \<notin> {24, 25, checksum_pos p, Suc (checksum_pos p)} \<Longrightarrow> r ! i = p ! i"
    using rewrite_ipv4_address_keeps [OF ok _ a, of 16] by auto
  have sq: "same_frame p q" "length q = length p" and sr: "same_frame p r" "length r = length p"
    using q(2) r(2) by (auto simp: keeps_sums_def same_frame_def)
  have "subslice 30 34 q = subslice 30 34 p" "subslice 26 30 r = subslice 26 30 p"
    using len sq sr by (auto intro!: subslice_eq_nth q(4) r(4))
  moreover have "be16 q (port_pos p f) = be16 p (port_pos p f)" "be16 r (port_pos p f) = be16 p (port_pos p f)" for f
    using ports [of f] len by (simp_all add: be16_def q(4) r(4))
  ultimately have
    "frame_packet q = (frame_packet p)\<lparr>pkt_source := socket_of a (sock_port (pkt_source (frame_packet p)))\<rparr>"
    "frame_packet r = (frame_packet p)\<lparr>pkt_destination := socket_of a (sock_port (pkt_destination (frame_packet p)))\<rparr>"
    using frame_packet_eqI [OF ok sq(1)] frame_packet_eqI [OF ok sr(1)] q(3) r(3)
    by (simp_all add: frame_packet_def socket_of_def)
  moreover have "\<forall>i<12. q ! i = p ! i" "\<forall>i<12. r ! i = p ! i"
    using len by (auto intro!: q(4) r(4))
  ultimately show "\<exists>q. rewrite_ipv4_source p a = (Inr (), q)
       \<and> carries p q ((frame_packet p)\<lparr>pkt_source := socket_of a (sock_port (pkt_source (frame_packet p)))\<rparr>)"
    "\<exists>q. rewrite_ipv4_destination p a = (Inr (), q)
       \<and> carries p q ((frame_packet p)\<lparr>pkt_destination := socket_of a (sock_port (pkt_destination (frame_packet p)))\<rparr>)"
    using q(1,2) r(1,2) by (auto simp: rewrite_ipv4_source_def rewrite_ipv4_destination_def carries_def)
qed

lemma rewrite_port_carries:
  assumes ok: "frame_ok p"
  shows "\<exists>q. rewrite_transport_port p field port = (Inr (), q) \<and> carries p q
    (case field of
       PortSource \<Rightarrow> (frame_packet p)\<lparr>pkt_source := socket_of (sock_address (pkt_source (frame_packet p))) port\<rparr>
     | PortDestination \<Rightarrow>
         (frame_packet p)\<lparr>pkt_destination := socket_of (sock_address (pkt_destination (frame_packet p))) port\<rparr>)"
proof -
  note len = frame_ok_length [OF ok] segment_bounds [OF ok]
  have ports: "port_pos p f \<ge> 34" "port_pos p f + 2 \<le> length p" "Suc (port_pos p f) < checksum_pos p" for f
    using len port_pos_bounds [of p f] by auto
  obtain q where q: "rewrite_transport_port p field port = (Inr (), q)" "keeps_sums p q"
    "be16 q (port_pos p field) = port"
    "\<And>i. i < length p \<Longrightarrow> i \<notin> {port_pos p field, Suc (port_pos p field)}
      \<Longrightarrow> i \<notin> {checksum_pos p, Suc (checksum_pos p)} \<Longrightarrow> q ! i = p ! i"
    using rewrite_transport_port_keeps [OF ok] by blast
  have sq: "same_frame p q" "length q = length p"
    using q(2) by (auto simp: keeps_sums_def same_frame_def)
  have low: "q ! i = p ! i" if "i < 34" for i
    using that ports [of field] len by (intro q(4)) auto
  have "subslice 26 30 q = subslice 26 30 p" "subslice 30 34 q = subslice 30 34 p"
    using len sq by (auto intro!: subslice_eq_nth low)
  moreover have "be16 q (port_pos p f) = be16 p (port_pos p f)" if "f \<noteq> field" for f
    using that ports [of f] len unfolding be16_def
    by (subst q(4); (subst q(4))?) (auto simp: port_pos_def split: port_field.splits)
  ultimately have "frame_packet q = (case field of
       PortSource \<Rightarrow> (frame_packet p)\<lparr>pkt_source := socket_of (sock_address (pkt_source (frame_packet p))) port\<rparr>
     | PortDestination \<Rightarrow>
         (frame_packet p)\<lparr>pkt_destination := socket_of (sock_address (pkt_destination (frame_packet p))) port\<rparr>)"
    using frame_packet_eqI [OF ok sq(1)] q(3)
    by (cases field) (simp_all add: frame_packet_def socket_of_def)
  then show ?thesis using q(1,2) low by (auto simp: carries_def)
qed

section \<open>Applying a decision\<close>

definition translated :: "packet \<Rightarrow> decision \<Rightarrow> packet" where
  "translated t d =
     \<lparr>pkt_protocol = pkt_protocol t,
      pkt_source = (if d_translation d \<in> {SourceNat, SourceAndDestination} then d_source d else pkt_source t),
      pkt_destination =
        (if d_translation d \<in> {DestinationNat, SourceAndDestination} then d_destination d else pkt_destination t)\<rparr>"

lemma packet_update_same [simp]: "t\<lparr>pkt_source := pkt_source t\<rparr> = t" "t\<lparr>pkt_destination := pkt_destination t\<rparr> = t"
  by simp_all

lemma apply_source_carries:
  assumes ok: "frame_ok p" and a: "length (sock_address (d_source d)) = 4"
    and src: "pkt_source t = pkt_source (frame_packet p)"
  shows "\<exists>q. apply_source t d p = (Inr (), q) \<and> carries p q ((frame_packet p)\<lparr>pkt_source := d_source d\<rparr>)"
proof -
  let ?f = "frame_packet p"
  obtain q1 where q1: "(if sock_address (pkt_source t) \<noteq> sock_address (d_source d)
        then rewrite_ipv4_source p (sock_address (d_source d)) else (Inr (), p)) = (Inr (), q1)"
    and c1: "carries p q1 (?f\<lparr>pkt_source := socket_of (sock_address (d_source d)) (sock_port (pkt_source ?f))\<rparr>)"
    using rewrite_address_carries(1) [OF ok a] carries_refl [of p] src
    by (cases "sock_address (pkt_source t) = sock_address (d_source d)") (auto dest: sym)
  have ok1: "frame_ok q1" and f1: "frame_packet q1 = ?f\<lparr>pkt_source := socket_of (sock_address (d_source d)) (sock_port (pkt_source ?f))\<rparr>"
    using carries_frame_ok [OF ok c1] c1 by (auto simp: carries_def)
  obtain q2 where "(if sock_port (pkt_source t) \<noteq> sock_port (d_source d)
        then rewrite_transport_port q1 PortSource (sock_port (d_source d)) else (Inr (), q1)) = (Inr (), q2)"
    and "carries q1 q2 (?f\<lparr>pkt_source := d_source d\<rparr>)"
    using rewrite_port_carries [OF ok1, of PortSource "sock_port (d_source d)"] carries_refl [of q1] src
    by (cases "sock_port (pkt_source t) = sock_port (d_source d)") (auto simp: f1)
  then show ?thesis
    using q1 carries_trans [OF ok c1] by (auto simp: apply_source_def)
qed

lemma apply_destination_carries:
  assumes ok: "frame_ok p" and a: "length (sock_address (d_destination d)) = 4"
    and dst: "pkt_destination t = pkt_destination (frame_packet p)"
  shows "\<exists>q. apply_destination t d p = (Inr (), q) \<and> carries p q ((frame_packet p)\<lparr>pkt_destination := d_destination d\<rparr>)"
proof -
  let ?f = "frame_packet p"
  obtain q1 where q1: "(if sock_address (pkt_destination t) \<noteq> sock_address (d_destination d)
        then rewrite_ipv4_destination p (sock_address (d_destination d)) else (Inr (), p)) = (Inr (), q1)"
    and c1: "carries p q1
      (?f\<lparr>pkt_destination := socket_of (sock_address (d_destination d)) (sock_port (pkt_destination ?f))\<rparr>)"
    using rewrite_address_carries(2) [OF ok a] carries_refl [of p] dst
    by (cases "sock_address (pkt_destination t) = sock_address (d_destination d)") (auto dest: sym)
  have ok1: "frame_ok q1" and f1: "frame_packet q1 =
      ?f\<lparr>pkt_destination := socket_of (sock_address (d_destination d)) (sock_port (pkt_destination ?f))\<rparr>"
    using carries_frame_ok [OF ok c1] c1 by (auto simp: carries_def)
  obtain q2 where "(if sock_port (pkt_destination t) \<noteq> sock_port (d_destination d)
        then rewrite_transport_port q1 PortDestination (sock_port (d_destination d)) else (Inr (), q1)) = (Inr (), q2)"
    and "carries q1 q2 (?f\<lparr>pkt_destination := d_destination d\<rparr>)"
    using rewrite_port_carries [OF ok1, of PortDestination "sock_port (d_destination d)"] carries_refl [of q1] dst
    by (cases "sock_port (pkt_destination t) = sock_port (d_destination d)") (auto simp: f1)
  then show ?thesis
    using q1 carries_trans [OF ok c1] by (auto simp: apply_destination_def)
qed

lemma apply_translation_carries:
  assumes ok: "frame_ok p" and "length (sock_address (d_source d)) = 4" "length (sock_address (d_destination d)) = 4"
    and t: "t = frame_packet p"
  shows "\<exists>q. (case d_translation d of
          NoTranslation \<Rightarrow> (Inr (), p)
        | SourceNat \<Rightarrow> apply_source t d p
        | DestinationNat \<Rightarrow> apply_destination t d p
        | SourceAndDestination \<Rightarrow> and_then (apply_source t d p) (apply_destination t d)) = (Inr (), q)
      \<and> carries p q (translated t d)"
proof (cases "d_translation d")
  case SourceAndDestination
  obtain q1 where q1: "apply_source t d p = (Inr (), q1)"
    and c1: "carries p q1 ((frame_packet p)\<lparr>pkt_source := d_source d\<rparr>)"
    using apply_source_carries [OF ok assms(2), of t] t by auto
  have "frame_ok q1" and f1: "frame_packet q1 = (frame_packet p)\<lparr>pkt_source := d_source d\<rparr>"
    using carries_frame_ok [OF ok c1] c1 by (auto simp: carries_def)
  then obtain q2 where "apply_destination t d q1 = (Inr (), q2)"
    and "carries q1 q2 ((frame_packet p)\<lparr>pkt_source := d_source d, pkt_destination := d_destination d\<rparr>)"
    using apply_destination_carries [of q1 d t] assms(3) t by auto
  then show ?thesis
    using q1 carries_trans [OF ok c1] SourceAndDestination t by (auto simp: translated_def frame_packet_def)
qed (use apply_source_carries [OF ok assms(2), of t] apply_destination_carries [OF ok assms(3), of t]
      carries_refl [of p] t in \<open>auto simp: translated_def frame_packet_def\<close>)

lemma frame_packet_link:
  assumes ok: "frame_ok p" and "offset + length bs \<le> 12"
  shows "frame_packet (overwrite offset bs p) = frame_packet p"
proof -
  note len = frame_ok_length [OF ok] segment_bounds [OF ok]
  have same: "same_frame p (overwrite offset bs p)"
    using ethernet_overwrite_keeps [OF assms] by (simp add: keeps_sums_def)
  have "be16 (overwrite offset bs p) (port_pos p f) = be16 p (port_pos p f)" for f
    using len assms port_pos_bounds [of p f] by (intro be16_overwrite_outside) auto
  then show ?thesis
    using len assms same_frame_fields(3) [OF ok same] same_frame_port_pos [OF ok same]
    by (simp add: frame_packet_def subslice_overwrite_outside)
qed

definition set_link :: "bytes option \<Rightarrow> bytes \<Rightarrow> write_result" where
  "set_link mac bs =
     (case mac of
       None \<Rightarrow> (Inr (), bs)
     | Some mac \<Rightarrow>
         and_then (rewrite_ethernet_destination bs mac) (\<lambda>bs.
         if get_slice 6 12 bs = Some zero_mac
         then rewrite_ethernet_source bs SYNTHETIC_REDIRECT_SOURCE_MAC else (Inr (), bs)))"

lemma set_link_keeps:
  assumes ok: "frame_ok p" and mac: "\<forall>m. mac = Some m \<longrightarrow> length m = 6"
  shows "\<exists>q. set_link mac p = (Inr (), q) \<and> keeps_sums p q \<and> frame_packet q = frame_packet p
    \<and> (\<forall>m. mac = Some m \<longrightarrow> take 6 q = m \<and> subslice 6 12 q \<noteq> zero_mac)"
proof (cases mac)
  case (Some m)
  note len = frame_ok_length [OF ok]
  let ?q1 = "overwrite 0 m p" and ?s = SYNTHETIC_REDIRECT_SOURCE_MAC
  let ?q2 = "overwrite 6 ?s ?q1"
  have m: "length m = 6" and s: "length ?s = 6"
    using mac Some by (simp_all add: SYNTHETIC_REDIRECT_SOURCE_MAC_def)
  have k1: "keeps_sums p ?q1" using rewrite_ethernet_keeps [OF ok m] by simp
  then have ok1: "frame_ok ?q1" using same_frame_ok [OF ok] by (simp add: keeps_sums_def)
  have k2: "keeps_sums p ?q2"
    using keeps_sums_trans [OF ok k1] rewrite_ethernet_keeps [OF ok1 s] by simp
  have f: "frame_packet ?q1 = frame_packet p" "frame_packet ?q2 = frame_packet p"
    using frame_packet_link [OF ok, of 0 m] frame_packet_link [OF ok1, of 6 ?s] m s by simp_all
  have t1: "take 6 ?q1 = m" using m by (simp add: overwrite_def)
  have t2: "take 6 ?q2 = m" using t1 len m s by (simp add: overwrite_def)
  have s2: "subslice 6 12 ?q2 \<noteq> zero_mac"
    using len m by (simp add: overwrite_def subslice_def SYNTHETIC_REDIRECT_SOURCE_MAC_def zero_mac_def)
  have e: "set_link mac p = (if get_slice 6 12 ?q1 = Some zero_mac then (Inr (), ?q2) else (Inr (), ?q1))"
    using rewrite_ethernet_keeps [OF ok m] rewrite_ethernet_keeps [OF ok1 s] Some by (simp add: set_link_def)
  have "12 \<le> length ?q1" using len m by simp
  then show ?thesis
    using e k1 k2 f t1 t2 s2 Some by (auto simp: get_slice_def)
qed (simp add: set_link_def)

text \<open>C9.
  Applying a decision to a frame that the parser accepts, with the tuple read from that frame,
  succeeds and keeps the length and the parsed view.  The new frame carries exactly the
  translated tuple, each of its two checksums is intact exactly when it was intact before, a
  requested link destination is written and the link source is then not zero, and every byte
  that is not part of an address, a port or a checksum is unchanged.
\<close>

theorem apply_decision_correct:
  assumes parsed: "parse_packet_bytes bs = Inr v"
    and tuple: "packet_from_context (frame_load bs) v = Inr t"
    and "length (sock_address (d_source d)) = 4" and "length (sock_address (d_destination d)) = 4"
    and mac: "\<forall>m. d_destination_mac d = Some m \<longrightarrow> length m = 6"
  shows "\<exists>q. apply_decision bs t d = (Inr (), q) \<and> length q = length bs
    \<and> parse_packet_bytes q = Inr v \<and> packet_from_context (frame_load q) v = Inr (translated t d)
    \<and> ipv4_checksum_ok q = ipv4_checksum_ok bs \<and> transport_checksum_ok q = transport_checksum_ok bs
    \<and> (\<forall>m. d_destination_mac d = Some m \<longrightarrow> take 6 q = m \<and> subslice 6 12 q \<noteq> zero_mac)
    \<and> (\<forall>i < length bs. \<not> rewritable bs i \<longrightarrow> q ! i = bs ! i)"
proof -
  have ok: "frame_ok bs" and v: "v = view_of bs" using parsed by (simp_all add: parse_packet_iff_frame)
  have t: "t = frame_packet bs" using tuple packet_from_frame [OF ok] v by simp
  obtain q1 where q1: "(case d_translation d of
          NoTranslation \<Rightarrow> (Inr (), bs)
        | SourceNat \<Rightarrow> apply_source t d bs
        | DestinationNat \<Rightarrow> apply_destination t d bs
        | SourceAndDestination \<Rightarrow> and_then (apply_source t d bs) (apply_destination t d)) = (Inr (), q1)"
    and c1: "carries bs q1 (translated t d)"
    using apply_translation_carries [OF ok assms(3,4) t] by blast
  have ok1: "frame_ok q1" using carries_frame_ok [OF ok c1] by simp
  obtain q where q: "set_link (d_destination_mac d) q1 = (Inr (), q)" "keeps_sums q1 q"
    "frame_packet q = frame_packet q1"
    "\<forall>m. d_destination_mac d = Some m \<longrightarrow> take 6 q = m \<and> subslice 6 12 q \<noteq> zero_mac"
    using set_link_keeps [OF ok1 mac] by blast
  have k: "keeps_sums bs q" using keeps_sums_trans [OF ok _ q(2)] c1 by (simp add: carries_def)
  then have same: "same_frame bs q" by (simp add: keeps_sums_def)
  note okq = same_frame_ok [OF ok same]
  have "apply_decision bs t d = (Inr (), q)"
    using q1 q(1) by (simp add: apply_decision_def set_link_def)
  moreover have "parse_packet_bytes q = Inr v" using parse_frame_ok [OF okq(1)] okq(2) v by simp
  moreover have "packet_from_context (frame_load q) v = Inr (translated t d)"
    using packet_from_frame [OF okq(1)] okq(2) v q(3) c1 by (simp add: carries_def)
  ultimately show ?thesis
    using keeps_sums_ok [OF ok k] q(4) same by (auto simp: same_frame_def)
qed

definition example_decision :: decision where
  "example_decision =
     \<lparr>d_action = Redirect, d_source = socket_of [203, 0, 113, 5] 40000,
      d_destination = socket_of [192, 0, 2, 1] 53, d_ifindex = Some 3, d_redirect_ingress = False,
      d_destination_mac = Some [2, 0, 0, 0, 0, 9], d_translation = SourceNat,
      d_reverse_conntrack = None, d_installed_conntrack = None\<rparr>"

lemma example_frame_checksums: "ipv4_checksum_ok example_frame" "transport_checksum_ok example_frame"
  by (simp_all add: ipv4_checksum_ok_def transport_checksum_ok_def example_frame_def ihl_of_def subslice_def
      ones_add_def be16_def u16_from_be_def nat_from_be_def checksum_pos_def pseudo_header_def
      transport_segment_def segment_end_def udp_len_of_def nat_to_be_two)

theorem apply_decision_correct_witness:
  "\<exists>q. apply_decision example_frame (frame_packet example_frame) example_decision = (Inr (), q)
    \<and> packet_from_context (frame_load q) (view_of example_frame)
        = Inr (translated (frame_packet example_frame) example_decision)
    \<and> ipv4_checksum_ok q \<and> transport_checksum_ok q \<and> take 6 q = [2, 0, 0, 0, 0, 9]"
  using apply_decision_correct [OF parse_frame_ok [OF example_frame_ok] packet_from_frame [OF example_frame_ok],
      of example_decision]
  by (auto simp: example_decision_def example_frame_checksums)

end
