(* ===== verification/Datapath_Maps.thy ===== *)
theory Datapath_Maps
  imports Datapath
begin

unbundle bit_operations_syntax

text \<open>
  The kernel side of the datapath state: the map layouts of \<open>src/ferro-net-ebpf/src/abi.rs\<close> and
  the implementation of \<open>DatapathState\<close> over the BPF maps in \<open>src/ferro-net-ebpf/src/maps.rs\<close>.

  A map is a partial function from key bytes to value bytes.  The connection table is an LRU map
  of the kernel, whose insertion and removal are the parameters \<open>ins\<close> and \<open>rem\<close>: \<open>ins m k v flags\<close>
  is the outcome with the map after it.  The readings of \<open>bpf_ktime_get_ns\<close> are the sequence
  \<open>ktime\<close>, consumed one per call.
\<close>

section \<open>The configuration value\<close>

definition PROGRAM_ABI_VERSION :: u32 where "PROGRAM_ABI_VERSION = 3"
definition META_VALUE_LEN :: nat where "META_VALUE_LEN = 32"
definition META_FLAG_SNAT_RANGE_RESERVED :: u16 where "META_FLAG_SNAT_RANGE_RESERVED = 1"
definition COUNTER_MAX_ENTRIES :: u32 where "COUNTER_MAX_ENTRIES = 10"

record meta_config =
  mc_abi_version :: u32
  mc_external_ipv4 :: bytes
  mc_external_ifindex :: u32
  mc_loopback_ifindex :: u32
  mc_bridge_gateway :: bytes
  mc_next_hop_mac :: bytes
  mc_snat_port_start :: u16
  mc_snat_port_end :: u16
  mc_flags :: u16

text \<open>The fields at their offsets 0, 4, 8, 12, 18, 20, 22, 24 and 28.\<close>

definition meta_encode :: "meta_config \<Rightarrow> bytes" where
  "meta_encode c =
     u32_to_be (mc_abi_version c) @ mc_external_ipv4 c @ u32_to_be (mc_external_ifindex c)
     @ mc_next_hop_mac c @ u16_to_be (mc_snat_port_start c) @ u16_to_be (mc_snat_port_end c)
     @ u16_to_be (mc_flags c) @ u32_to_be (mc_loopback_ifindex c) @ mc_bridge_gateway c"

definition meta_decode :: "bytes \<Rightarrow> meta_config" where
  "meta_decode bs =
     \<lparr>mc_abi_version = u32_from_be (subslice 0 4 bs), mc_external_ipv4 = subslice 4 8 bs,
      mc_external_ifindex = u32_from_be (subslice 8 12 bs),
      mc_loopback_ifindex = u32_from_be (subslice 24 28 bs), mc_bridge_gateway = subslice 28 32 bs,
      mc_next_hop_mac = subslice 12 18 bs, mc_snat_port_start = u16_from_be (subslice 18 20 bs),
      mc_snat_port_end = u16_from_be (subslice 20 22 bs), mc_flags = u16_from_be (subslice 22 24 bs)\<rparr>"

definition snat_range_reserved :: "meta_config \<Rightarrow> bool" where
  "snat_range_reserved c \<longleftrightarrow> mc_flags c AND META_FLAG_SNAT_RANGE_RESERVED \<noteq> 0"

section \<open>The maps\<close>

definition BPF_ANY :: u64 where "BPF_ANY = 0"
definition BPF_NOEXIST :: u64 where "BPF_NOEXIST = 1"
definition EEXIST :: int where "EEXIST = - 17"

type_synonym bpf_map = "bytes \<rightharpoonup> bytes"
type_synonym map_insert = "bpf_map \<Rightarrow> bytes \<Rightarrow> bytes \<Rightarrow> u64 \<Rightarrow> (int + unit) \<times> bpf_map"
type_synonym map_remove = "bpf_map \<Rightarrow> bytes \<Rightarrow> bpf_map"

record kernel_maps =
  ferro_endpoints :: bpf_map
  ferro_ports :: bpf_map
  ferro_conntrack :: bpf_map
  ferro_policy :: bpf_map
  ferro_counters :: "u32 \<rightharpoonup> u64"
  ferro_meta :: "bytes option"
  ktime :: "nat \<Rightarrow> u64"
  ktime_reads :: nat

definition conntrack_value :: "conntrack_record \<Rightarrow> u64 \<Rightarrow> bytes" where
  "conntrack_value r last_seen_ns =
     nt_address (cr_target r) @ u16_to_be (nt_port (cr_target r))
     @ [CONNTRACK_STATE_ESTABLISHED, 0] @ u64_to_be last_seen_ns"

definition insert_record ::
  "map_insert \<Rightarrow> kernel_maps \<Rightarrow> conntrack_record \<Rightarrow> u64 \<Rightarrow> (int + unit) \<times> kernel_maps" where
  "insert_record ins s r flags =
     (let now = ktime s (ktime_reads s);
          (res, m) = ins (ferro_conntrack s) (flow_key_encode (cr_key r)) (conntrack_value r now) flags
      in (res, s\<lparr>ferro_conntrack := m, ktime_reads := ktime_reads s + 1\<rparr>))"

definition kernel_policy :: "kernel_maps \<Rightarrow> policy_key \<Rightarrow> policy_action option" where
  "kernel_policy s k =
     (case ferro_policy s (policy_key_encode k) of
        None \<Rightarrow> None
      | Some v \<Rightarrow> Some (if v ! 0 = POLICY_ACTION_ALLOW then PolicyAllow else PolicyDeny))"

definition kernel_conntrack :: "kernel_maps \<Rightarrow> flow_key \<Rightarrow> nat_target option" where
  "kernel_conntrack s k =
     (case ferro_conntrack s (flow_key_encode k) of
        None \<Rightarrow> None
      | Some v \<Rightarrow>
          if v ! 6 \<noteq> CONNTRACK_STATE_ESTABLISHED then None
          else Some \<lparr>nt_address = [v ! 0, v ! 1, v ! 2, v ! 3], nt_port = u16_from_be [v ! 4, v ! 5]\<rparr>)"

definition kernel_published_port :: "kernel_maps \<Rightarrow> byte \<Rightarrow> u16 \<Rightarrow> port_target option" where
  "kernel_published_port s protocol host_port =
     (case ferro_ports s ([protocol, 0] @ u16_to_be host_port) of
        None \<Rightarrow> None
      | Some v \<Rightarrow>
          Some \<lparr>pt_address = [v ! 0, v ! 1, v ! 2, v ! 3], pt_port = u16_from_be [v ! 4, v ! 5]\<rparr>)"

definition kernel_endpoint :: "kernel_maps \<Rightarrow> bytes \<Rightarrow> endpoint option" where
  "kernel_endpoint s address =
     (case ferro_endpoints s address of
        None \<Rightarrow> None
      | Some v \<Rightarrow>
          Some \<lparr>ep_ifindex = u32_from_be [v ! 0, v ! 1, v ! 2, v ! 3],
                ep_mac = [v ! 4, v ! 5, v ! 6, v ! 7, v ! 8, v ! 9], ep_flags = v ! 10\<rparr>)"

definition kernel_external :: "kernel_maps \<Rightarrow> external_network option" where
  "kernel_external s =
     (case ferro_meta s of
        None \<Rightarrow> None
      | Some v \<Rightarrow>
          let c = meta_decode v in
          if mc_abi_version c \<noteq> PROGRAM_ABI_VERSION then None
          else Some \<lparr>ex_address = mc_external_ipv4 c, ex_bridge_gateway = mc_bridge_gateway c,
                     ex_ifindex = mc_external_ifindex c, ex_loopback_ifindex = mc_loopback_ifindex c,
                     ex_next_hop_mac = mc_next_hop_mac c, ex_snat_port_start = mc_snat_port_start c,
                     ex_snat_port_end = mc_snat_port_end c,
                     ex_snat_range_reserved = snat_range_reserved c\<rparr>)"

definition kernel_reserve ::
  "map_insert \<Rightarrow> kernel_maps \<Rightarrow> conntrack_record \<Rightarrow> conntrack_reservation \<times> kernel_maps" where
  "kernel_reserve ins s r =
     (case insert_record ins s r BPF_NOEXIST of
        (Inr _, s1) \<Rightarrow> (Reserved, s1)
      | (Inl e, s1) \<Rightarrow> (if e = EEXIST then Occupied else ReserveFailed, s1))"

definition kernel_insert ::
  "map_insert \<Rightarrow> kernel_maps \<Rightarrow> conntrack_record \<Rightarrow> (unit + unit) \<times> kernel_maps" where
  "kernel_insert ins s r =
     (case insert_record ins s r BPF_NOEXIST of (res, s1) \<Rightarrow> (map_err (\<lambda>_. ()) res, s1))"

definition kernel_remove :: "map_remove \<Rightarrow> kernel_maps \<Rightarrow> flow_key \<Rightarrow> kernel_maps" where
  "kernel_remove rem s k = s\<lparr>ferro_conntrack := rem (ferro_conntrack s) (flow_key_encode k)\<rparr>"

definition kernel_ops :: "map_insert \<Rightarrow> map_remove \<Rightarrow> kernel_maps datapath_state" where
  "kernel_ops ins rem =
     \<lparr>policy = kernel_policy, conntrack = kernel_conntrack, published_port = kernel_published_port,
      endpoint_of = kernel_endpoint, external_of = kernel_external,
      reserve_conntrack = kernel_reserve ins, insert_conntrack = kernel_insert ins,
      remove_conntrack = kernel_remove rem\<rparr>"

definition insert_reverse_conntrack ::
  "map_insert \<Rightarrow> kernel_maps \<Rightarrow> conntrack_record \<Rightarrow> (int + unit) \<times> kernel_maps" where
  "insert_reverse_conntrack ins s r = insert_record ins s r BPF_ANY"

definition increment :: "counter \<Rightarrow> kernel_maps \<Rightarrow> kernel_maps" where
  "increment c s =
     (let index = counter_index c in
      if COUNTER_MAX_ENTRIES \<le> index then s
      else
        (case ferro_counters s index of
           None \<Rightarrow> s
         | Some n \<Rightarrow> s\<lparr>ferro_counters := (ferro_counters s)(index \<mapsto> n + 1)\<rparr>))"

section \<open>Layout lemmas\<close>

definition wf_meta :: "meta_config \<Rightarrow> bool" where
  "wf_meta c \<longleftrightarrow> length (mc_external_ipv4 c) = 4 \<and> length (mc_bridge_gateway c) = 4
     \<and> length (mc_next_hop_mac c) = 6"

lemma meta_decode_encode:
  assumes "wf_meta c"
  shows "meta_decode (meta_encode c) = c"
  using assms
  by (cases c) (simp add: meta_decode_def meta_encode_def wf_meta_def subslice_def)

lemma meta_encode_decode:
  assumes "length bs = META_VALUE_LEN"
  shows "meta_encode (meta_decode bs) = bs" "wf_meta (meta_decode bs)"
proof -
  have "meta_encode (meta_decode bs) =
      subslice 0 4 bs @ subslice 4 8 bs @ subslice 8 12 bs @ subslice 12 18 bs @ subslice 18 20 bs
      @ subslice 20 22 bs @ subslice 22 24 bs @ subslice 24 28 bs @ subslice 28 32 bs"
    using assms by (simp add: meta_encode_def meta_decode_def META_VALUE_LEN_def u32_to_from_be u16_to_from_be)
  also have "\<dots> = subslice 0 32 bs"
    by (simp add: subslice_join)
  finally show "meta_encode (meta_decode bs) = bs" using assms by (simp add: META_VALUE_LEN_def)
  show "wf_meta (meta_decode bs)"
    using assms by (simp add: wf_meta_def meta_decode_def META_VALUE_LEN_def)
qed

definition wf_key :: "flow_key \<Rightarrow> bool" where
  "wf_key k \<longleftrightarrow> length (fk_source k) = 4 \<and> length (fk_destination k) = 4"

lemma flow_key_encode_inject:
  assumes "wf_key k" and "wf_key l"
  shows "flow_key_encode k = flow_key_encode l \<longleftrightarrow> k = l"
proof
  assume "flow_key_encode k = flow_key_encode l"
  then have "fk_protocol k = fk_protocol l" "fk_source k = fk_source l" "fk_destination k = fk_destination l"
    "u16_to_be (fk_source_port k) = u16_to_be (fk_source_port l)"
    "u16_to_be (fk_destination_port k) = u16_to_be (fk_destination_port l)"
    using assms by (auto simp: flow_key_encode_def wf_key_def)
  moreover have "fk_source_port k = fk_source_port l" "fk_destination_port k = fk_destination_port l"
    using calculation(4,5) by (metis u16_from_to_be)+
  ultimately show "k = l" by simp
qed simp

end
