(* ===== verification/Datapath_Nat.thy ===== *)
theory Datapath_Nat
  imports Datapath_Maps
begin

unbundle bit_operations_syntax

text \<open>
  Source NAT: the ports it picks, the connection entries it installs and the way back of the
  replies.

  The interface between the decisions and the connection table is the locale \<open>conntrack_store\<close>;
  the lemmas on the probing loop are proved in it.  The contract of the kernel's LRU map is the
  locale \<open>lru_map\<close> (an insertion may evict other entries and may fail); a sublocale shows that
  \<open>KernelState\<close> over such a map provides the interface.
\<close>

section \<open>The ports of source NAT\<close>

lemma unat_snat_width:
  assumes "range_start \<le> range_end"
  shows "unat (snat_width range_start range_end) = unat range_end - unat range_start + 1"
proof -
  note b = unat_u16_less [of range_start] unat_u16_less [of range_end]
  have le: "unat range_start \<le> unat range_end" using assms by (simp add: word_le_nat_alt)
  have u: "unat (ucast w :: u32) = unat w" for w :: u16
    using unat_u16_less [of w] by (simp add: unsigned_ucast_eq take_bit_nat_eq_self)
  have "(ucast range_start :: u32) \<le> ucast range_end" using le by (simp add: word_le_nat_alt u)
  then have "unat (ucast range_end - ucast range_start :: u32) = unat range_end - unat range_start"
    by (simp add: unat_sub u)
  then show ?thesis using b by (simp add: snat_width_def unat_word_ariths)
qed

lemma snat_candidate_range:
  assumes "snat_candidate p probe range_start range_end = Some port"
  shows "unat range_start \<le> unat port" "unat port \<le> unat range_end" "port \<noteq> 0"
proof -
  let ?w = "snat_width range_start range_end"
  let ?x = "(fnv_hash (flow_key_encode (flow_key_of p)) + of_nat probe) mod ?w"
  have v: "valid_snat_range range_start range_end" and port: "port = range_start + ucast ?x"
    using assms by (auto simp: snat_candidate_def Let_def split: if_splits)
  then have le: "range_start \<le> range_end" and nz: "range_start \<noteq> 0" by (auto simp: valid_snat_range_def)
  have le': "unat range_start \<le> unat range_end" using le by (simp add: word_le_nat_alt)
  have w: "unat ?w = unat range_end - unat range_start + 1" by (rule unat_snat_width [OF le])
  then have "unat ?x \<le> unat range_end - unat range_start"
    using mod_less_divisor [of "unat ?w"] by (simp add: unat_mod less_Suc_eq_le)
  moreover from this have "unat (ucast ?x :: u16) = unat ?x"
    using unat_u16_less [of range_end] by (simp add: unsigned_ucast_eq take_bit_nat_eq_self)
  ultimately have "unat port = unat range_start + unat ?x" "unat port \<le> unat range_end"
    using le' unat_u16_less [of range_end] by (simp_all add: port unat_word_ariths)
  then show "unat range_start \<le> unat port" "unat port \<le> unat range_end" by simp_all
  moreover have "0 < unat range_start" using nz by (simp add: unat_gt_0)
  ultimately show "port \<noteq> 0" by (auto simp: unsigned_eq_0_iff)
qed

section \<open>The interface of the connection table\<close>

definition wf_conntrack :: "conntrack_record \<Rightarrow> bool" where
  "wf_conntrack r \<longleftrightarrow> wf_key (cr_key r) \<and> length (nt_address (cr_target r)) = 4"

text \<open>Every entry outside \<open>K\<close> is as before or evicted; the other tables are untouched.\<close>

definition fades :: "'s datapath_state \<Rightarrow> flow_key set \<Rightarrow> 's \<Rightarrow> 's \<Rightarrow> bool" where
  "fades ops K s s' \<longleftrightarrow>
     (\<forall>k. wf_key k \<longrightarrow> k \<notin> K \<longrightarrow> conntrack ops s' k = conntrack ops s k \<or> conntrack ops s' k = None)"

definition same_tables :: "'s datapath_state \<Rightarrow> 's \<Rightarrow> 's \<Rightarrow> bool" where
  "same_tables ops s s' \<longleftrightarrow> policy ops s' = policy ops s \<and> published_port ops s' = published_port ops s
     \<and> endpoint_of ops s' = endpoint_of ops s \<and> external_of ops s' = external_of ops s"

lemma fades_refl [simp]: "fades ops K s s"
  by (simp add: fades_def)

lemma fades_trans: "fades ops K s s' \<Longrightarrow> fades ops L s' s'' \<Longrightarrow> fades ops (K \<union> L) s s''"
  unfolding fades_def by (metis Un_iff)

lemma same_tables_refl [simp]: "same_tables ops s s"
  by (simp add: same_tables_def)

lemma same_tables_trans: "same_tables ops s s' \<Longrightarrow> same_tables ops s' s'' \<Longrightarrow> same_tables ops s s''"
  by (simp add: same_tables_def)

definition in_snat_range :: "external_network \<Rightarrow> u16 \<Rightarrow> bool" where
  "in_snat_range ex port \<longleftrightarrow> unat (ex_snat_port_start ex) \<le> unat port \<and> unat port \<le> unat (ex_snat_port_end ex)
     \<and> port \<noteq> 0"

definition installed :: "'s datapath_state \<Rightarrow> packet \<Rightarrow> external_network \<Rightarrow> u16 \<Rightarrow> 's \<Rightarrow> 's \<Rightarrow> bool" where
  "installed ops p ex port s s' \<longleftrightarrow>
     (let f = pair_forward (conntrack_pair_of p ex port); r = pair_reverse (conntrack_pair_of p ex port) in
      conntrack ops s' (cr_key f) = Some (cr_target f)
      \<and> conntrack ops s' (cr_key r) \<in> {Some (cr_target r), None}
      \<and> fades ops {cr_key f, cr_key r} s s' \<and> same_tables ops s s')"

lemma installed_before:
  "fades ops {} s s1 \<Longrightarrow> same_tables ops s s1 \<Longrightarrow> installed ops p ex port s1 s' \<Longrightarrow> installed ops p ex port s s'"
  using fades_trans [of ops "{}" s s1] by (auto simp: installed_def Let_def intro: same_tables_trans)

locale conntrack_store =
  fixes ops :: "'s datapath_state"
  assumes reserve_reserved:
      "wf_conntrack r \<Longrightarrow> reserve_conntrack ops s r = (Reserved, s') \<Longrightarrow>
       conntrack ops s (cr_key r) = None \<and> conntrack ops s' (cr_key r) = Some (cr_target r)
       \<and> fades ops {cr_key r} s s' \<and> same_tables ops s s'"
    and reserve_refused:
      "wf_conntrack r \<Longrightarrow> reserve_conntrack ops s r = (x, s') \<Longrightarrow> x \<noteq> Reserved \<Longrightarrow>
       fades ops {} s s' \<and> same_tables ops s s'"
    and insert_ok:
      "wf_conntrack r \<Longrightarrow> insert_conntrack ops s r = (Inr (), s') \<Longrightarrow>
       conntrack ops s (cr_key r) = None \<and> conntrack ops s' (cr_key r) = Some (cr_target r)
       \<and> fades ops {cr_key r} s s' \<and> same_tables ops s s'"
    and insert_refused:
      "wf_conntrack r \<Longrightarrow> insert_conntrack ops s r = (Inl (), s') \<Longrightarrow>
       fades ops {} s s' \<and> same_tables ops s s'"
    and remove_ok:
      "wf_key k \<Longrightarrow> conntrack ops (remove_conntrack ops s k) k = None
       \<and> fades ops {} s (remove_conntrack ops s k) \<and> same_tables ops s (remove_conntrack ops s k)"
begin

text \<open>What the loop leaves in the table.\<close>

lemma pair_wf:
  assumes "wf_key (flow_key_of p)" and "length (ex_address ex) = 4"
  shows "wf_conntrack (pair_forward (conntrack_pair_of p ex port))"
    "wf_conntrack (pair_reverse (conntrack_pair_of p ex port))"
  using assms by (simp_all add: wf_conntrack_def conntrack_pair_of_def wf_key_def flow_key_of_def)

lemma reserved_then_inserted:
  fixes p :: packet and ex :: external_network and port :: u16
  assumes wf: "wf_key (flow_key_of p)" "length (ex_address ex) = 4"
  defines "q \<equiv> conntrack_pair_of p ex port"
  assumes res: "reserve_conntrack ops s (pair_reverse q) = (Reserved, s1)"
    and ins: "insert_conntrack ops s1 (pair_forward q) = (Inr (), s2)"
  shows "installed ops p ex port s s2"
proof -
  let ?f = "pair_forward q" and ?r = "pair_reverse q"
  note wfp = pair_wf [OF wf, of port, folded q_def]
  note r = reserve_reserved [OF wfp(2) res] and f = insert_ok [OF wfp(1) ins]
  have "cr_key ?r \<noteq> cr_key ?f" using r f by auto
  then have "conntrack ops s2 (cr_key ?r) \<in> {Some (cr_target ?r), None}"
    using f r wfp(2) by (auto simp: fades_def wf_conntrack_def)
  moreover have "fades ops {cr_key ?f, cr_key ?r} s s2"
    using fades_trans [of ops "{cr_key ?r}" s s1 "{cr_key ?f}" s2] r f by (simp add: insert_commute)
  ultimately show ?thesis
    using f r same_tables_trans [of ops s s1 s2] by (simp add: installed_def q_def [symmetric])
qed

lemma reserved_then_removed:
  fixes p :: packet and ex :: external_network and port :: u16
  assumes wf: "wf_key (flow_key_of p)" "length (ex_address ex) = 4"
  defines "q \<equiv> conntrack_pair_of p ex port"
  assumes res: "reserve_conntrack ops s (pair_reverse q) = (Reserved, s1)"
    and ins: "insert_conntrack ops s1 (pair_forward q) = (Inl (), s2)"
    and s': "s' = remove_conntrack ops s2 (cr_key (pair_reverse q))"
  shows "fades ops {} s s' \<and> same_tables ops s s'"
proof -
  note wfp = pair_wf [OF wf, of port, folded q_def]
  note r = reserve_reserved [OF wfp(2) res] and f = insert_refused [OF wfp(1) ins]
  have d: "conntrack ops s' (cr_key (pair_reverse q)) = None" "fades ops {} s2 s'" "same_tables ops s2 s'"
    using remove_ok [of "cr_key (pair_reverse q)" s2] wfp(2) by (simp_all add: wf_conntrack_def s')
  have "fades ops ({cr_key (pair_reverse q)} \<union> {} \<union> {}) s s'"
    using r f d(2) by (blast intro: fades_trans)
  then have "fades ops {} s s'" using d(1) by (auto simp: fades_def)
  then show ?thesis using r f d(3) by (blast intro: same_tables_trans)
qed

lemma install_from_effect:
  assumes wf: "wf_key (flow_key_of p)" "length (ex_address ex) = 4"
    and "install_from ops p ex probe s = (res, s')"
  shows "case res of
      Inl e \<Rightarrow> fades ops {} s s' \<and> same_tables ops s s'
    | Inr pair \<Rightarrow> \<exists>port. pair = conntrack_pair_of p ex port \<and> in_snat_range ex port
        \<and> installed ops p ex port s s'"
  using assms(3)
proof (induction "SNAT_PROBE_LIMIT - probe" arbitrary: probe s rule: less_induct)
  case less
  show ?case
  proof (cases "probe < SNAT_PROBE_LIMIT \<and>
      snat_candidate p probe (ex_snat_port_start ex) (ex_snat_port_end ex) \<noteq> None")
    case False
    then show ?thesis
      using less.prems by (auto simp: install_from.simps [of _ _ _ probe] split: if_splits)
  next
    case True
    then obtain port where go: "probe < SNAT_PROBE_LIMIT"
      "snat_candidate p probe (ex_snat_port_start ex) (ex_snat_port_end ex) = Some port" by auto
    let ?q = "conntrack_pair_of p ex port"
    obtain x s1 where res: "reserve_conntrack ops s (pair_reverse ?q) = (x, s1)" by fastforce
    obtain y s2 where ins: "insert_conntrack ops s1 (pair_forward ?q) = (y, s2)" by fastforce
    note step = less.prems [unfolded install_from.simps [of _ _ _ probe]]
    show ?thesis
    proof (cases x)
      case Reserved
      note [simp] = this
      show ?thesis
      proof (cases y)
        case (Inl u)
        then have "s' = remove_conntrack ops s2 (cr_key (pair_reverse ?q))" "\<exists>e. res = Inl e"
          using step go res ins by (auto simp: Let_def)
        then show ?thesis
          using reserved_then_removed [OF wf, of s port s1 s2 s'] res ins Inl by auto
      next
        case (Inr u)
        then have "s' = s2" "res = Inr ?q"
          using step go res ins by (auto simp: Let_def)
        then show ?thesis
          using reserved_then_inserted [OF wf, of s port s1 s2] res ins Inr snat_candidate_range [OF go(2)]
          by (auto simp: in_snat_range_def)
      qed
    next
      case Occupied
      have s1: "fades ops {} s s1" "same_tables ops s s1"
        using reserve_refused [OF pair_wf(2) [OF wf] res] Occupied by simp_all
      have "install_from ops p ex (probe + 1) s1 = (res, s')"
        using step go res Occupied by (simp add: Let_def)
      moreover have "SNAT_PROBE_LIMIT - (probe + 1) < SNAT_PROBE_LIMIT - probe" using go by simp
      ultimately have "case res of
          Inl e \<Rightarrow> fades ops {} s1 s' \<and> same_tables ops s1 s'
        | Inr pair \<Rightarrow> \<exists>port. pair = conntrack_pair_of p ex port \<and> in_snat_range ex port
            \<and> installed ops p ex port s1 s'"
        using less.hyps by blast
      then show ?thesis
        using installed_before [OF s1] fades_trans [OF s1(1), of "{}" s'] same_tables_trans [OF s1(2), of s']
        by (cases res) auto
    next
      case ReserveFailed
      then show ?thesis
        using step go res reserve_refused [OF pair_wf(2) [OF wf] res] by (auto simp: Let_def)
    qed
  qed
qed

end

section \<open>The kernel's map\<close>

locale lru_map =
  fixes ins :: map_insert and rem :: map_remove
  assumes ins_exists: "m k \<noteq> None \<Longrightarrow> fst (ins m k v BPF_NOEXIST) = Inl EEXIST"
    and ins_ok: "ins m k v flags = (Inr (), m') \<Longrightarrow> m' k = Some v"
    and ins_refused: "ins m k v flags = (Inl e, m') \<Longrightarrow> m' k = m k \<or> m' k = None"
    and ins_others: "ins m k v flags = (res, m') \<Longrightarrow> l \<noteq> k \<Longrightarrow> m' l = m l \<or> m' l = None"
    and rem_key: "rem m k k = None"
    and rem_others: "l \<noteq> k \<Longrightarrow> rem m k l = m l \<or> rem m k l = None"

lemma kernel_conntrack_cong:
  "ferro_conntrack s' (flow_key_encode k) = ferro_conntrack s (flow_key_encode k) \<or>
   ferro_conntrack s' (flow_key_encode k) = None \<Longrightarrow>
   kernel_conntrack s' k = kernel_conntrack s k \<or> kernel_conntrack s' k = None"
  by (auto simp: kernel_conntrack_def)

lemma conntrack_value_read:
  assumes "length (nt_address (cr_target r)) = 4"
    and "ferro_conntrack s (flow_key_encode k) = Some (conntrack_value r now)"
  shows "kernel_conntrack s k = Some (cr_target r)"
proof -
  let ?a = "nt_address (cr_target r)" and ?b = "u16_to_be (nt_port (cr_target r))"
  have "?a = [?a ! 0, ?a ! 1, ?a ! 2, ?a ! 3]"
    using assms(1) by (intro nth_equalityI) (auto simp: less_Suc_eq numeral_eq_Suc)
  moreover have "?b = [?b ! 0, ?b ! 1]"
    by (intro nth_equalityI) (auto simp: less_Suc_eq numeral_2_eq_2)
  moreover have "conntrack_value r now ! i = ?a ! i" if "i < 4" for i
    using that assms(1) by (simp add: conntrack_value_def nth_append)
  moreover have "conntrack_value r now ! 4 = ?b ! 0" "conntrack_value r now ! 5 = ?b ! 1"
    "conntrack_value r now ! 6 = CONNTRACK_STATE_ESTABLISHED"
    using assms(1) by (simp_all add: conntrack_value_def nth_append)
  ultimately have "kernel_conntrack s k = Some \<lparr>nt_address = ?a, nt_port = u16_from_be ?b\<rparr>"
    using assms(2) by (simp add: kernel_conntrack_def)
  then show ?thesis by simp
qed

context lru_map
begin

lemma insert_record_effect:
  assumes wf: "wf_conntrack r" and "insert_record ins s r flags = (res, s')"
  shows "same_tables (kernel_ops ins rem) s s'"
    "fades (kernel_ops ins rem) (if res = Inr () then {cr_key r} else {}) s s'"
    "res = Inr () \<Longrightarrow> kernel_conntrack s' (cr_key r) = Some (cr_target r)"
    "res = Inr () \<Longrightarrow> flags = BPF_NOEXIST \<Longrightarrow> kernel_conntrack s (cr_key r) = None"
proof -
  let ?k = "flow_key_encode (cr_key r)" and ?v = "conntrack_value r (ktime s (ktime_reads s))"
  obtain m where i: "ins (ferro_conntrack s) ?k ?v flags = (res, m)"
    and s': "s' = s\<lparr>ferro_conntrack := m, ktime_reads := ktime_reads s + 1\<rparr>"
    using assms(2) by (auto simp: insert_record_def Let_def split: prod.splits)
  show "same_tables (kernel_ops ins rem) s s'"
    by (auto simp: same_tables_def kernel_ops_def s' kernel_policy_def kernel_published_port_def
        kernel_endpoint_def kernel_external_def fun_eq_iff)
  have "kernel_conntrack s' k = kernel_conntrack s k \<or> kernel_conntrack s' k = None"
    if "wf_key k" "k \<noteq> cr_key r \<or> res \<noteq> Inr ()" for k
  proof (rule kernel_conntrack_cong, cases "k = cr_key r")
    case True
    then show "ferro_conntrack s' (flow_key_encode k) = ferro_conntrack s (flow_key_encode k) \<or>
        ferro_conntrack s' (flow_key_encode k) = None"
      using that ins_refused i by (cases res) (auto simp: s')
  next
    case False
    then have "flow_key_encode k \<noteq> ?k"
      using that wf flow_key_encode_inject by (auto simp: wf_conntrack_def)
    then show "ferro_conntrack s' (flow_key_encode k) = ferro_conntrack s (flow_key_encode k) \<or>
        ferro_conntrack s' (flow_key_encode k) = None"
      using ins_others [OF i] by (simp add: s')
  qed
  then show "fades (kernel_ops ins rem) (if res = Inr () then {cr_key r} else {}) s s'"
    by (auto simp: fades_def kernel_ops_def)
  show "kernel_conntrack s' (cr_key r) = Some (cr_target r)" if "res = Inr ()"
    using that ins_ok i wf by (intro conntrack_value_read) (auto simp: wf_conntrack_def s')
  show "kernel_conntrack s (cr_key r) = None" if "res = Inr ()" "flags = BPF_NOEXIST"
    using that i ins_exists [of "ferro_conntrack s" ?k ?v]
    by (cases "ferro_conntrack s ?k") (auto simp: kernel_conntrack_def)
qed

end

sublocale lru_map \<subseteq> kernel: conntrack_store "kernel_ops ins rem"
proof
  fix r s s' x
  let ?o = "kernel_ops ins rem"
  assume wf: "wf_conntrack r"
  note eff = insert_record_effect [OF wf, of s BPF_NOEXIST]
  { assume "reserve_conntrack ?o s r = (Reserved, s')"
    then have "insert_record ins s r BPF_NOEXIST = (Inr (), s')"
      by (auto simp: kernel_ops_def kernel_reserve_def split: prod.splits sum.splits if_splits)
    then show "conntrack ?o s (cr_key r) = None \<and> conntrack ?o s' (cr_key r) = Some (cr_target r)
       \<and> fades ?o {cr_key r} s s' \<and> same_tables ?o s s'"
      using eff by (fastforce simp: kernel_ops_def) }
  { assume "reserve_conntrack ?o s r = (x, s')" "x \<noteq> Reserved"
    then obtain e where "insert_record ins s r BPF_NOEXIST = (Inl e, s')"
      by (auto simp: kernel_ops_def kernel_reserve_def split: prod.splits sum.splits if_splits)
    then show "fades ?o {} s s' \<and> same_tables ?o s s'" using eff by fastforce }
  { assume "insert_conntrack ?o s r = (Inr (), s')"
    then have "insert_record ins s r BPF_NOEXIST = (Inr (), s')"
      by (auto simp: kernel_ops_def kernel_insert_def map_err_def split: prod.splits sum.splits)
    then show "conntrack ?o s (cr_key r) = None \<and> conntrack ?o s' (cr_key r) = Some (cr_target r)
       \<and> fades ?o {cr_key r} s s' \<and> same_tables ?o s s'"
      using eff by (fastforce simp: kernel_ops_def) }
  { assume "insert_conntrack ?o s r = (Inl (), s')"
    then obtain e where "insert_record ins s r BPF_NOEXIST = (Inl e, s')"
      by (auto simp: kernel_ops_def kernel_insert_def map_err_def split: prod.splits sum.splits)
    then show "fades ?o {} s s' \<and> same_tables ?o s s'" using eff by fastforce }
next
  fix k s
  assume wf: "wf_key k"
  let ?o = "kernel_ops ins rem" and ?s = "remove_conntrack (kernel_ops ins rem) s k"
  have "conntrack ?o ?s k = None"
    using rem_key by (simp add: kernel_ops_def kernel_remove_def kernel_conntrack_def)
  moreover have "kernel_conntrack ?s l = kernel_conntrack s l \<or> kernel_conntrack ?s l = None" if "wf_key l" for l
  proof (cases "l = k")
    case True
    then show ?thesis using \<open>conntrack ?o ?s k = None\<close> by (simp add: kernel_ops_def)
  next
    case False
    then have "flow_key_encode l \<noteq> flow_key_encode k" using that wf flow_key_encode_inject by auto
    then show ?thesis
      using rem_others [of "flow_key_encode l" "flow_key_encode k" "ferro_conntrack s"]
      by (intro kernel_conntrack_cong) (simp add: kernel_ops_def kernel_remove_def)
  qed
  moreover have "same_tables ?o s ?s"
    by (auto simp: same_tables_def kernel_ops_def kernel_remove_def kernel_policy_def kernel_published_port_def
        kernel_endpoint_def kernel_external_def fun_eq_iff)
  ultimately show "conntrack ?o ?s k = None \<and> fades ?o {} s ?s \<and> same_tables ?o s ?s"
    by (simp add: fades_def kernel_ops_def)
qed

context lru_map
begin

lemma kernel_install_effect:
  assumes "wf_key (flow_key_of p)" and "length (ex_address ex) = 4"
    and "install_from (kernel_ops ins rem) p ex probe s = (res, s')"
  shows "case res of
      Inl e \<Rightarrow> fades (kernel_ops ins rem) {} s s' \<and> same_tables (kernel_ops ins rem) s s'
    | Inr pair \<Rightarrow> \<exists>port. pair = conntrack_pair_of p ex port \<and> in_snat_range ex port
        \<and> installed (kernel_ops ins rem) p ex port s s'"
  using assms by (rule kernel.install_from_effect)

end

section \<open>Egress decisions that install a translation\<close>

lemma decision_pass_sel [simp]:
  "d_action (decision_pass p) = Pass" "d_source (decision_pass p) = pkt_source p"
  "d_destination (decision_pass p) = pkt_destination p" "d_translation (decision_pass p) = NoTranslation"
  "d_ifindex (decision_pass p) = None" "d_installed_conntrack (decision_pass p) = None"
  "d_destination_mac (decision_pass p) = None" "d_redirect_ingress (decision_pass p) = False"
  by (simp_all add: decision_pass_def)

lemma redirect_to_sel [simp]:
  "d_action (redirect_to d i m) = Redirect" "d_source (redirect_to d i m) = d_source d"
  "d_destination (redirect_to d i m) = d_destination d" "d_translation (redirect_to d i m) = d_translation d"
  "d_ifindex (redirect_to d i m) = Some i" "d_destination_mac (redirect_to d i m) = Some m"
  "d_installed_conntrack (redirect_to d i m) = d_installed_conntrack d"
  by (simp_all add: redirect_to_def)

lemma egress_hairpin_cases:
  assumes "egress_hairpin ops s p = Inr d"
  shows "d = decision_pass p \<or> d_translation d \<noteq> NoTranslation" "d_installed_conntrack d = None" "d_action d = Pass"
  using assms by (auto simp: egress_hairpin_def rbind_eq_Inr split: if_splits option.splits)

lemma egress_conntrack_cases:
  assumes "egress_conntrack ops s p d = Inr (d', t)"
  shows "d_installed_conntrack d' = d_installed_conntrack d" "d_action d' = d_action d"
    "d' = d \<and> t = None \<and> conntrack ops s (flow_key_of p) = None \<or> d_translation d' \<noteq> NoTranslation"
  using assms by (auto simp: egress_conntrack_def Let_def split: option.splits if_splits)

lemma decide_egress_installed:
  assumes out: "decide_egress ops s p = (Inr d, s')" and inst: "d_installed_conntrack d = Some pair"
  obtains ex where "external_of ops s = Some ex" and "install_generic_snat ops s p ex = (Inr pair, s')"
    and "d = redirect_to ((decision_pass p)\<lparr>d_source := socket_of (nt_address (cr_target (pair_forward pair)))
               (nt_port (cr_target (pair_forward pair))), d_translation := SourceNat,
               d_installed_conntrack := Some pair\<rparr>) (ex_ifindex ex) (ex_next_hop_mac ex)"
    and "endpoint_of ops s (sock_address (pkt_destination p)) = None"
    and "conntrack ops s (flow_key_of p) = None"
proof -
  obtain d0 d1 t where h: "egress_hairpin ops s p = Inr d0" and c: "egress_conntrack ops s p d0 = Inr (d1, t)"
    and rest: "(case endpoint_of ops s (sock_address (d_destination d1)) of
             Some ep \<Rightarrow>
               if ep_ifindex ep = 0 \<or> ep_mac ep = zero_mac then (Inl EndpointMissing, s)
               else (Inr (redirect_to d1 (ep_ifindex ep) (ep_mac ep)), s)
           | None \<Rightarrow>
               if endpoint_of ops s (sock_address (pkt_source p)) = None then (Inr d1, s)
               else egress_external ops s p d1 t) = (Inr d, s')"
    using out by (auto simp: decide_egress_def rbind_def split: sum.splits)
  note hc = egress_hairpin_cases [OF h] and cc = egress_conntrack_cases [OF c]
  have none: "d_installed_conntrack d1 = None" using hc cc by simp
  have ep: "endpoint_of ops s (sock_address (d_destination d1)) = None"
    and ext: "egress_external ops s p d1 t = (Inr d, s')"
    using rest none inst by (auto split: option.splits if_splits)
  then obtain ex where ex: "external_of ops s = Some ex" "install_generic_snat ops s p ex = (Inr pair, s')"
    "d_translation d1 = NoTranslation"
    "d = redirect_to (d1\<lparr>d_source := socket_of (nt_address (cr_target (pair_forward pair)))
               (nt_port (cr_target (pair_forward pair))), d_translation := SourceNat,
               d_installed_conntrack := Some pair\<rparr>) (ex_ifindex ex) (ex_next_hop_mac ex)"
    using none inst by (auto simp: egress_external_def split: option.splits if_splits prod.splits sum.splits)
  then have "d1 = decision_pass p" "conntrack ops s (flow_key_of p) = None" using hc cc by auto
  then show ?thesis using that ex ep by simp
qed

lemma kernel_ops_sel:
  "policy (kernel_ops ins rem) = kernel_policy" "conntrack (kernel_ops ins rem) = kernel_conntrack"
  "published_port (kernel_ops ins rem) = kernel_published_port" "endpoint_of (kernel_ops ins rem) = kernel_endpoint"
  "external_of (kernel_ops ins rem) = kernel_external"
  by (simp_all add: kernel_ops_def)

section \<open>Properties\<close>

text \<open>Installing a source translation in the kernel's connection table, whose insertions may fail or
  evict entries: on success the port lies in the configured range, the forward entry is stored,
  the reverse entry is stored or already evicted, and no other entry is changed except by
  eviction.  On failure no entry is added or changed at all: a reserved reverse entry is removed
  when the forward entry cannot be stored.
\<close>

theorem snat_install_safe:
  assumes lru: "lru_map ins rem"
    and wf: "wf_key (flow_key_of p)" "length (ex_address ex) = 4"
    and res: "install_generic_snat (kernel_ops ins rem) s p ex = (res, s')"
  shows "(\<forall>e k. res = Inl e \<longrightarrow> wf_key k \<longrightarrow> kernel_conntrack s' k \<in> {kernel_conntrack s k, None})
    \<and> (\<forall>pair. res = Inr pair \<longrightarrow>
        (\<exists>port. pair = conntrack_pair_of p ex port \<and> in_snat_range ex port)
        \<and> kernel_conntrack s' (cr_key (pair_forward pair)) = Some (cr_target (pair_forward pair))
        \<and> kernel_conntrack s' (cr_key (pair_reverse pair)) \<in> {Some (cr_target (pair_reverse pair)), None}
        \<and> (\<forall>k. wf_key k \<and> k \<notin> {cr_key (pair_forward pair), cr_key (pair_reverse pair)} \<longrightarrow>
              kernel_conntrack s' k \<in> {kernel_conntrack s k, None}))"
  using lru_map.kernel_install_effect [OF lru wf, of 0 s res s'] res
  by (cases res) (auto simp: install_generic_snat_def installed_def fades_def kernel_ops_sel Let_def)

text \<open>C18.
  The way back of a reply through source NAT.  When an egress decision on the kernel maps has
  installed a translation for a packet of a registered endpoint (one with an interface index and a
  MAC address, a valid source address and port, and a source other than the translated one), the
  packet leaves through the external interface with the external address and a port of the
  configured range, and unless the kernel has evicted the reverse entry or an ingress policy denies
  the reply, the reply to that address and port is decided on ingress to go to the endpoint, with
  exactly the original source as its new destination.
\<close>

theorem snat_reply_returns:
  assumes lru: "lru_map ins rem" and wf: "wf_key (flow_key_of p)"
    and meta: "\<forall>v. ferro_meta s = Some v \<longrightarrow> length v = META_VALUE_LEN"
    and out: "decide_egress (kernel_ops ins rem) s p = (Inr d, s')"
    and inst: "d_installed_conntrack d = Some pair"
    and kept: "kernel_conntrack s' (cr_key (pair_reverse pair)) \<noteq> None"
    and ep: "kernel_endpoint s (sock_address (pkt_source p)) = Some ep" "ep_ifindex ep \<noteq> 0" "ep_mac ep \<noteq> zero_mac"
    and src: "valid_target (sock_address (pkt_source p)) (sock_port (pkt_source p))" "pkt_source p \<noteq> d_source d"
    and reply: "reply = \<lparr>pkt_protocol = pkt_protocol p, pkt_source = pkt_destination p, pkt_destination = d_source d\<rparr>"
    and allow: "kernel_policy s (policy_key_for reply Ingress) \<noteq> Some PolicyDeny"
  shows "d_action d = Redirect \<and> d_translation d = SourceNat \<and> d_destination d = pkt_destination p
    \<and> (\<exists>ex. kernel_external s = Some ex \<and> d_ifindex d = Some (ex_ifindex ex)
          \<and> sock_address (d_source d) = ex_address ex \<and> in_snat_range ex (sock_port (d_source d)))
    \<and> (\<exists>d'. decide_ingress (kernel_ops ins rem) s' reply = Inr d' \<and> d_action d' = Redirect
          \<and> d_translation d' = DestinationNat \<and> d_source d' = pkt_destination p
          \<and> d_destination d' = pkt_source p
          \<and> d_ifindex d' = Some (ep_ifindex ep) \<and> d_destination_mac d' = Some (ep_mac ep))"
proof -
  let ?o = "kernel_ops ins rem"
  obtain ex where ex: "kernel_external s = Some ex" and ins: "install_generic_snat ?o s p ex = (Inr pair, s')"
    and d: "d = redirect_to ((decision_pass p)\<lparr>d_source := socket_of (nt_address (cr_target (pair_forward pair)))
               (nt_port (cr_target (pair_forward pair))), d_translation := SourceNat,
               d_installed_conntrack := Some pair\<rparr>) (ex_ifindex ex) (ex_next_hop_mac ex)"
    and dst: "kernel_endpoint s (sock_address (pkt_destination p)) = None"
    using decide_egress_installed [OF out inst] by (metis kernel_ops_sel(4,5))
  have "length (ex_address ex) = 4"
    using ex meta by (auto simp: kernel_external_def meta_decode_def META_VALUE_LEN_def Let_def
        split: option.splits if_splits)
  from lru_map.kernel_install_effect [OF lru wf this, of 0 s "Inr pair" s'] ins
  obtain port where pair: "pair = conntrack_pair_of p ex port" and range: "in_snat_range ex port"
    and i: "installed ?o p ex port s s'"
    by (auto simp: install_generic_snat_def)
  have tables: "kernel_policy s' = kernel_policy s" "kernel_endpoint s' = kernel_endpoint s"
    using i by (simp_all add: installed_def Let_def same_tables_def kernel_ops_sel)
  have dsrc: "d_source d = socket_of (ex_address ex) port"
    by (simp add: d pair conntrack_pair_of_def)
  have key: "flow_key_of reply = cr_key (pair_reverse pair)"
    by (simp add: reply dsrc pair conntrack_pair_of_def flow_key_of_def socket_of_def)
  let ?t = "\<lparr>nt_address = sock_address (pkt_source p), nt_port = sock_port (pkt_source p)\<rparr>"
  have ct: "kernel_conntrack s' (flow_key_of reply) = Some ?t"
    using i kept by (auto simp: key pair installed_def Let_def kernel_ops_sel conntrack_pair_of_def)
  have pol: "enforce_policy ?o s' reply Ingress = Inr ()"
    using allow by (auto simp: enforce_policy_def kernel_ops_sel tables split: option.splits policy_action.splits)
  have rev: "ingress_reverse ?o s' reply ?t =
      (decision_pass reply)\<lparr>d_destination := pkt_source p, d_translation := DestinationNat\<rparr>"
    using dst by (simp add: ingress_reverse_def kernel_ops_sel tables reply)
  have ne: "pkt_destination reply \<noteq> pkt_source p" using src(2) by (simp add: reply)
  have "decide_ingress ?o s' reply = ingress_route ?o s' True (ingress_reverse ?o s' reply ?t)"
    using src(1) ct ne by (simp add: decide_ingress_def pol kernel_ops_sel)
  also have "\<dots> = Inr (redirect_to ((decision_pass reply)\<lparr>d_destination := pkt_source p,
      d_translation := DestinationNat\<rparr>) (ep_ifindex ep) (ep_mac ep))"
    using ep by (simp add: ingress_route_def kernel_ops_sel tables rev)
  finally have decided: "decide_ingress ?o s' reply = Inr (redirect_to ((decision_pass reply)\<lparr>d_destination := pkt_source p,
      d_translation := DestinationNat\<rparr>) (ep_ifindex ep) (ep_mac ep))" .
  have "d_action d = Redirect" "d_translation d = SourceNat" "d_destination d = pkt_destination p"
    "d_ifindex d = Some (ex_ifindex ex)" "pkt_source reply = pkt_destination p"
    by (simp_all add: d reply)
  then show ?thesis using ex range decided by (simp add: dsrc)
qed

section \<open>A concrete table\<close>

text \<open>A connection table that never evicts and never fails.\<close>

definition plain_insert :: map_insert where
  "plain_insert m k v flags =
     (if flags = BPF_NOEXIST \<and> m k \<noteq> None then (Inl EEXIST, m) else (Inr (), m(k \<mapsto> v)))"

definition plain_remove :: map_remove where
  "plain_remove m k = m(k := None)"

interpretation plain: lru_map plain_insert plain_remove
  by unfold_locales (auto simp: plain_insert_def plain_remove_def split: if_splits)

definition example_packet :: packet where
  "example_packet =
     \<lparr>pkt_protocol = 17, pkt_source = socket_of [10, 0, 0, 2] 5353, pkt_destination = socket_of [192, 0, 2, 1] 53\<rparr>"

definition example_meta :: meta_config where
  "example_meta =
     \<lparr>mc_abi_version = 3, mc_external_ipv4 = [203, 0, 113, 5], mc_external_ifindex = 2, mc_loopback_ifindex = 1,
      mc_bridge_gateway = [10, 0, 0, 1], mc_next_hop_mac = [2, 0, 0, 0, 0, 9], mc_snat_port_start = 40000,
      mc_snat_port_end = 49999, mc_flags = 1\<rparr>"

definition example_maps :: kernel_maps where
  "example_maps =
     \<lparr>ferro_endpoints = [[10, 0, 0, 2] \<mapsto> [0, 0, 0, 7, 2, 0, 0, 0, 0, 4, 0, 0]], ferro_ports = Map.empty,
      ferro_conntrack = Map.empty, ferro_policy = Map.empty, ferro_counters = Map.empty,
      ferro_meta = Some (meta_encode example_meta), ktime = (\<lambda>n. of_nat n), ktime_reads = 0\<rparr>"

definition example_external :: external_network where
  "example_external =
     \<lparr>ex_address = [203, 0, 113, 5], ex_bridge_gateway = [10, 0, 0, 1], ex_ifindex = 2, ex_loopback_ifindex = 1,
      ex_next_hop_mac = [2, 0, 0, 0, 0, 9], ex_snat_port_start = 40000, ex_snat_port_end = 49999,
      ex_snat_range_reserved = True\<rparr>"

lemma example_external_of: "kernel_external example_maps = Some example_external"
proof -
  have "meta_decode (meta_encode example_meta) = example_meta"
    by (rule meta_decode_encode) (simp add: wf_meta_def example_meta_def)
  then show ?thesis
    by (simp add: kernel_external_def example_maps_def PROGRAM_ABI_VERSION_def example_external_def
        snat_range_reserved_def META_FLAG_SNAT_RANGE_RESERVED_def Let_def) (simp add: example_meta_def)
qed

lemma example_range: "valid_snat_range 40000 49999"
  by (simp add: valid_snat_range_def snat_width_def SNAT_PROBE_LIMIT_def)

definition example_port :: u16 where
  "example_port = the (snat_candidate example_packet 0 40000 49999)"

lemma example_port: "snat_candidate example_packet 0 40000 49999 = Some example_port"
  by (simp add: example_port_def snat_candidate_def example_range SNAT_PROBE_LIMIT_def Let_def)

definition example_pair :: conntrack_pair where
  "example_pair = conntrack_pair_of example_packet example_external example_port"

definition example_stored :: kernel_maps where
  "example_stored = example_maps
     \<lparr>ferro_conntrack :=
        [flow_key_encode (cr_key (pair_reverse example_pair)) \<mapsto> conntrack_value (pair_reverse example_pair) 0,
         flow_key_encode (cr_key (pair_forward example_pair)) \<mapsto> conntrack_value (pair_forward example_pair) 1],
      ktime_reads := 2\<rparr>"

lemma example_keys_differ:
  "flow_key_encode (cr_key (pair_forward example_pair)) \<noteq> flow_key_encode (cr_key (pair_reverse example_pair))"
  by (simp add: example_pair_def conntrack_pair_of_def flow_key_encode_def flow_key_of_def example_packet_def
      example_external_def)

lemma example_install:
  "install_generic_snat (kernel_ops plain_insert plain_remove) example_maps example_packet example_external
   = (Inr example_pair, example_stored)"
proof -
  have "kernel_reserve plain_insert example_maps (pair_reverse example_pair) = (Reserved, example_maps
     \<lparr>ferro_conntrack :=
        [flow_key_encode (cr_key (pair_reverse example_pair)) \<mapsto> conntrack_value (pair_reverse example_pair) 0],
      ktime_reads := 1\<rparr>)" (is "_ = (Reserved, ?s1)")
    by (simp add: kernel_reserve_def insert_record_def plain_insert_def example_maps_def)
  moreover have "kernel_insert plain_insert ?s1 (pair_forward example_pair) = (Inr (), example_stored)"
    using example_keys_differ
    by (simp add: kernel_insert_def insert_record_def plain_insert_def example_stored_def example_maps_def)
  moreover have "ex_snat_port_start example_external = 40000" "ex_snat_port_end example_external = 49999"
    by (simp_all add: example_external_def)
  ultimately show ?thesis
    by (simp add: install_generic_snat_def install_from.simps SNAT_PROBE_LIMIT_def example_port Let_def
        example_pair_def [symmetric] kernel_ops_def)
qed

theorem snat_install_safe_witness:
  "in_snat_range example_external example_port
   \<and> kernel_conntrack example_stored (flow_key_of example_packet) = Some (cr_target (pair_forward example_pair))"
proof -
  have wf: "wf_key (flow_key_of example_packet)" "length (ex_address example_external) = 4"
    by (simp_all add: wf_key_def flow_key_of_def example_packet_def example_external_def)
  have "(\<exists>port. example_pair = conntrack_pair_of example_packet example_external port \<and> in_snat_range example_external port)
      \<and> kernel_conntrack example_stored (cr_key (pair_forward example_pair)) = Some (cr_target (pair_forward example_pair))"
    using snat_install_safe [OF plain.lru_map_axioms wf example_install] by blast
  moreover have "cr_key (pair_forward example_pair) = flow_key_of example_packet"
    by (simp add: example_pair_def conntrack_pair_of_def)
  moreover have "port = example_port" if "example_pair = conntrack_pair_of example_packet example_external port" for port
    using that by (simp add: example_pair_def conntrack_pair_of_def)
  ultimately show ?thesis by auto
qed

definition example_out :: decision where
  "example_out = redirect_to ((decision_pass example_packet)
     \<lparr>d_source := socket_of [203, 0, 113, 5] example_port, d_translation := SourceNat,
      d_installed_conntrack := Some example_pair\<rparr>) 2 [2, 0, 0, 0, 0, 9]"

definition example_endpoint :: endpoint where
  "example_endpoint = \<lparr>ep_ifindex = 7, ep_mac = [2, 0, 0, 0, 0, 4], ep_flags = 0\<rparr>"

lemma example_endpoints:
  "kernel_endpoint example_maps [10, 0, 0, 2] = Some example_endpoint"
  "kernel_endpoint example_maps [192, 0, 2, 1] = None"
  by (simp_all add: kernel_endpoint_def example_maps_def example_endpoint_def u32_from_be_def nat_from_be_def)

lemma example_egress:
  "decide_egress (kernel_ops plain_insert plain_remove) example_maps example_packet = (Inr example_out, example_stored)"
proof -
  let ?o = "kernel_ops plain_insert plain_remove"
  have "enforce_policy ?o example_maps example_packet Egress = Inr ()"
    by (simp add: enforce_policy_def kernel_ops_sel kernel_policy_def example_maps_def)
  moreover have "egress_hairpin ?o example_maps example_packet = Inr (decision_pass example_packet)"
    by (simp add: egress_hairpin_def host_loopback_def example_packet_def)
  moreover have "egress_conntrack ?o example_maps example_packet (decision_pass example_packet) =
      Inr (decision_pass example_packet, None)"
    by (simp add: egress_conntrack_def kernel_ops_sel kernel_conntrack_def example_maps_def)
  moreover have "egress_external ?o example_maps example_packet (decision_pass example_packet) None =
      (Inr example_out, example_stored)"
    by (simp add: egress_external_def kernel_ops_sel example_external_of example_install)
      (simp add: example_external_def valid_external_def zero_address_def zero_mac_def example_range example_out_def
        example_pair_def conntrack_pair_of_def)
  moreover have "sock_address (pkt_source example_packet) = [10, 0, 0, 2]"
    "sock_address (pkt_destination example_packet) = [192, 0, 2, 1]"
    by (simp_all add: example_packet_def)
  ultimately show ?thesis
    by (simp add: decide_egress_def kernel_ops_sel example_endpoints)
qed

theorem snat_reply_returns_witness:
  "\<exists>d'. decide_ingress (kernel_ops plain_insert plain_remove) example_stored
      \<lparr>pkt_protocol = pkt_protocol example_packet, pkt_source = pkt_destination example_packet,
       pkt_destination = d_source example_out\<rparr> = Inr d'
     \<and> d_destination d' = pkt_source example_packet \<and> d_ifindex d' = Some 7"
proof -
  have wf: "wf_key (flow_key_of example_packet)" by (simp add: wf_key_def flow_key_of_def example_packet_def)
  have meta: "\<forall>v. ferro_meta example_maps = Some v \<longrightarrow> length v = META_VALUE_LEN"
    by (simp add: example_maps_def meta_encode_def example_meta_def META_VALUE_LEN_def)
  have inst: "d_installed_conntrack example_out = Some example_pair"
    by (simp add: example_out_def)
  have kept: "kernel_conntrack example_stored (cr_key (pair_reverse example_pair)) \<noteq> None"
    using example_keys_differ
    by (simp add: kernel_conntrack_def example_stored_def conntrack_value_def nth_append)
      (simp add: example_pair_def conntrack_pair_of_def example_packet_def)
  have ep: "kernel_endpoint example_maps (sock_address (pkt_source example_packet)) = Some example_endpoint"
    "ep_ifindex example_endpoint \<noteq> 0" "ep_mac example_endpoint \<noteq> zero_mac"
    using example_endpoints by (simp_all add: example_packet_def example_endpoint_def zero_mac_def)
  have src: "valid_target (sock_address (pkt_source example_packet)) (sock_port (pkt_source example_packet))"
    "pkt_source example_packet \<noteq> d_source example_out"
    by (simp_all add: example_packet_def valid_target_def zero_address_def example_out_def socket_of_def)
  have allow: "kernel_policy example_maps k \<noteq> Some PolicyDeny" for k
    by (simp add: kernel_policy_def example_maps_def)
  show ?thesis
    using snat_reply_returns [OF plain.lru_map_axioms wf meta example_egress inst kept ep src refl allow]
    by (auto simp: example_endpoint_def)
qed

end
