(* ===== verification/Datapath_Publish.thy ===== *)
theory Datapath_Publish
  imports Datapath_Nat
begin

text \<open>
  Published ports: what the reverse entry of a destination translation does to the reply, for a
  client outside the host and for a client on the host's loopback.
\<close>

section \<open>The reverse entry of a published port\<close>

lemma ingress_route_keeps:
  assumes "ingress_route ops s rc d = Inr d'"
  shows "d_source d' = d_source d" "d_destination d' = d_destination d" "d_translation d' = d_translation d"
    "d_reverse_conntrack d' = d_reverse_conntrack d"
  using assms by (auto simp: ingress_route_def redirect_to_def rbind_eq_Inr split: option.splits if_splits)

lemma sock_address_update: "x\<lparr>sock_address := a\<rparr> = socket_of a (sock_port x)"
  by (simp add: socket_of_def)

lemma socket_of_eq_iff: "socket_of a q = x \<longleftrightarrow> sock_address x = a \<and> sock_port x = q"
  by (cases x) (auto simp: socket_of_def)

lemma decide_ingress_published:
  assumes dec: "decide_ingress ops s p = Inr d" and rev: "d_reverse_conntrack d = Some r"
  shows "\<exists>t. published_port ops s (pkt_protocol p) (sock_port (pkt_destination p)) = Some t
      \<and> d_destination d = socket_of (pt_address t) (pt_port t) \<and> endpoint_of ops s (pt_address t) \<noteq> None"
    "cr_target r = \<lparr>nt_address = sock_address (pkt_destination p), nt_port = sock_port (pkt_destination p)\<rparr>"
    "cr_key r = flow_key_of \<lparr>pkt_protocol = pkt_protocol p, pkt_source = d_destination d, pkt_destination = d_source d\<rparr>"
    "host_loopback p \<Longrightarrow> external_of ops s = Some ex \<Longrightarrow>
       d_source d = socket_of (ex_bridge_gateway ex) (sock_port (pkt_source p))"
    "\<not> host_loopback p \<Longrightarrow> d_source d = pkt_source p"
proof -
  have none: "d_reverse_conntrack (decision_pass p) = None" "d_reverse_conntrack (ingress_reverse ops s p t) = None" for t
    by (simp_all add: decision_pass_def ingress_reverse_def Let_def)
  obtain t d0 where t: "published_port ops s (pkt_protocol p) (sock_port (pkt_destination p)) = Some t"
    "valid_target (pt_address t) (pt_port t)" "ingress_publish ops s p t = Inr d0" "ingress_route ops s False d0 = Inr d"
    using dec rev none ingress_route_keeps(4) [of ops s _ _ d]
    by (fastforce simp: decide_ingress_def rbind_eq_Inr split: option.splits if_splits)
  have d0: "d_destination d0 = socket_of (pt_address t) (pt_port t)" "d_translation d0 \<noteq> NoTranslation"
    "host_loopback p \<Longrightarrow> external_of ops s = Some ex \<Longrightarrow>
       d_source d0 = socket_of (ex_bridge_gateway ex) (sock_port (pkt_source p))"
    "\<not> host_loopback p \<Longrightarrow> d_source d0 = pkt_source p"
    "d_reverse_conntrack d0 = Some \<lparr>cr_key = flow_key_of \<lparr>pkt_protocol = pkt_protocol p,
       pkt_source = d_destination d0, pkt_destination = d_source d0\<rparr>,
       cr_target = \<lparr>nt_address = sock_address (pkt_destination p), nt_port = sock_port (pkt_destination p)\<rparr>\<rparr>"
    using t(3) by (auto simp: ingress_publish_def Let_def rbind_eq_Inr ok_or_eq_Inr flow_key_of_def sock_address_update split: if_splits)
  have "endpoint_of ops s (pt_address t) \<noteq> None"
    using t(4) d0(1,2) by (auto simp: ingress_route_def split: option.splits)
  then show "\<exists>t. published_port ops s (pkt_protocol p) (sock_port (pkt_destination p)) = Some t
      \<and> d_destination d = socket_of (pt_address t) (pt_port t) \<and> endpoint_of ops s (pt_address t) \<noteq> None"
    using t(1) d0(1) ingress_route_keeps [OF t(4)] by simp
  show "cr_target r = \<lparr>nt_address = sock_address (pkt_destination p), nt_port = sock_port (pkt_destination p)\<rparr>"
    "cr_key r = flow_key_of \<lparr>pkt_protocol = pkt_protocol p, pkt_source = d_destination d, pkt_destination = d_source d\<rparr>"
    using d0(5) ingress_route_keeps [OF t(4)] rev by auto
  show "host_loopback p \<Longrightarrow> external_of ops s = Some ex \<Longrightarrow>
       d_source d = socket_of (ex_bridge_gateway ex) (sock_port (pkt_source p))"
    "\<not> host_loopback p \<Longrightarrow> d_source d = pkt_source p"
    using d0(3,4) ingress_route_keeps [OF t(4)] by auto
qed

lemma reverse_inserted:
  assumes lru: "lru_map ins rem" and wf: "wf_conntrack r" and "insert_reverse_conntrack ins s r = (Inr (), s')"
  shows "kernel_conntrack s' (cr_key r) = Some (cr_target r)" "kernel_policy s' = kernel_policy s"
    "kernel_endpoint s' = kernel_endpoint s" "kernel_external s' = kernel_external s"
  using lru_map.insert_record_effect [OF lru wf, of s BPF_ANY "Inr ()" s'] assms(3)
  by (simp_all add: insert_reverse_conntrack_def same_tables_def kernel_ops_sel)

text \<open>The decision on the reply of a published endpoint, with the reverse entry stored.\<close>

lemma published_reply:
  assumes lru: "lru_map ins rem"
    and dec: "decide_ingress (kernel_ops ins rem) s p = Inr d" and rev: "d_reverse_conntrack d = Some r"
    and wf: "wf_conntrack r" and stored: "insert_reverse_conntrack ins s r = (Inr (), s')"
    and reply: "reply = \<lparr>pkt_protocol = pkt_protocol p, pkt_source = d_destination d, pkt_destination = d_source d\<rparr>"
    and allow: "kernel_policy s (policy_key_for reply Ingress) \<noteq> Some PolicyDeny"
    and dst: "valid_target (sock_address (pkt_destination p)) (sock_port (pkt_destination p))"
    and ne: "d_source d \<noteq> pkt_destination p"
  shows "decide_ingress (kernel_ops ins rem) s' reply =
    ingress_route (kernel_ops ins rem) s' True
      (if sock_address (d_source d) = bridge_gateway_or_zero (kernel_external s) \<and> sock_address (pkt_destination p) ! 0 = 127
       then (decision_pass reply)\<lparr>d_source := pkt_destination p,
         d_destination := socket_of (sock_address (pkt_destination p)) (sock_port (d_source d)),
         d_translation := SourceAndDestination\<rparr>
       else (decision_pass reply)\<lparr>d_source := pkt_destination p, d_translation := SourceNat\<rparr>)"
proof -
  let ?o = "kernel_ops ins rem"
  note tab = reverse_inserted [OF lru wf stored]
  obtain t :: port_target where t: "d_destination d = socket_of (pt_address t) (pt_port t)" "kernel_endpoint s (pt_address t) \<noteq> None"
    "cr_target r = \<lparr>nt_address = sock_address (pkt_destination p), nt_port = sock_port (pkt_destination p)\<rparr>"
    "cr_key r = flow_key_of reply"
    using decide_ingress_published(1-3) [OF dec rev] unfolding reply kernel_ops_sel by blast
  have pol: "enforce_policy ?o s' reply Ingress = Inr ()"
    using allow by (auto simp: enforce_policy_def kernel_ops_sel tab split: option.splits policy_action.splits)
  have sel: "pkt_source reply = d_destination d" "pkt_destination reply = d_source d" by (simp_all add: reply)
  show ?thesis
    using dst ne t tab(1)
    by (auto simp: decide_ingress_def pol kernel_ops_sel ingress_reverse_def tab sel Let_def sock_address_update)
qed

section \<open>Properties\<close>

text \<open>A published port and its reply.  When an ingress decision translates a request of a client
  outside the host to a published endpoint and the classifier has stored the reverse entry it
  asks for, the endpoint's reply is decided to leave through the external interface, from the
  published address and port and to the client, as the client expects it.
\<close>

theorem published_reply_returns:
  assumes lru: "lru_map ins rem"
    and dec: "decide_ingress (kernel_ops ins rem) s p = Inr d" and rev: "d_reverse_conntrack d = Some r"
    and wf: "wf_conntrack r" and stored: "insert_reverse_conntrack ins s r = (Inr (), s')"
    and reply: "reply = \<lparr>pkt_protocol = pkt_protocol p, pkt_source = d_destination d, pkt_destination = d_source d\<rparr>"
    and allow: "kernel_policy s (policy_key_for reply Ingress) \<noteq> Some PolicyDeny"
    and dst: "valid_target (sock_address (pkt_destination p)) (sock_port (pkt_destination p))"
    and outside: "pkt_source p \<noteq> pkt_destination p" "sock_address (pkt_source p) ! 0 \<noteq> 127"
      "sock_address (pkt_destination p) ! 0 \<noteq> 127" "kernel_endpoint s (sock_address (pkt_source p)) = None"
    and ex: "kernel_external s = Some ex" "ex_ifindex ex \<noteq> 0" "ex_next_hop_mac ex \<noteq> zero_mac"
  shows "\<exists>d'. decide_ingress (kernel_ops ins rem) s' reply = Inr d' \<and> d_action d' = Redirect
      \<and> d_source d' = pkt_destination p \<and> d_destination d' = pkt_source p
      \<and> d_ifindex d' = Some (ex_ifindex ex) \<and> d_destination_mac d' = Some (ex_next_hop_mac ex)"
proof -
  note tab = reverse_inserted [OF lru wf stored]
  have src: "d_source d = pkt_source p"
    using outside by (intro decide_ingress_published(5) [OF dec rev]) (simp add: host_loopback_def)
  have "decide_ingress (kernel_ops ins rem) s' reply = ingress_route (kernel_ops ins rem) s' True
      ((decision_pass reply)\<lparr>d_source := pkt_destination p, d_translation := SourceNat\<rparr>)"
    using published_reply [OF lru dec rev wf stored reply allow dst] outside src by simp
  also have "\<dots> = Inr (redirect_to ((decision_pass reply)\<lparr>d_source := pkt_destination p, d_translation := SourceNat\<rparr>)
      (ex_ifindex ex) (ex_next_hop_mac ex))"
    using outside ex by (simp add: ingress_route_def kernel_ops_sel tab reply src)
  finally show "\<exists>d'. decide_ingress (kernel_ops ins rem) s' reply = Inr d' \<and> d_action d' = Redirect
      \<and> d_source d' = pkt_destination p \<and> d_destination d' = pkt_source p
      \<and> d_ifindex d' = Some (ex_ifindex ex) \<and> d_destination_mac d' = Some (ex_next_hop_mac ex)"
    by (simp add: reply src)
qed

text \<open>
  The reply to a client on the host's loopback.  Under the same conditions, a request from one
  address of the loopback network to a published port on another is answered to the address the
  request was sent to, not to the address it came from: the reverse entry does not record the
  client's address.  The client gets its reply exactly when both addresses are equal.
\<close>

theorem loopback_reply_address:
  assumes lru: "lru_map ins rem"
    and dec: "decide_ingress (kernel_ops ins rem) s p = Inr d" and rev: "d_reverse_conntrack d = Some r"
    and wf: "wf_conntrack r" and stored: "insert_reverse_conntrack ins s r = (Inr (), s')"
    and reply: "reply = \<lparr>pkt_protocol = pkt_protocol p, pkt_source = d_destination d, pkt_destination = d_source d\<rparr>"
    and allow: "kernel_policy s (policy_key_for reply Ingress) \<noteq> Some PolicyDeny"
    and dst: "valid_target (sock_address (pkt_destination p)) (sock_port (pkt_destination p))"
    and loopback: "host_loopback p" "kernel_endpoint s (sock_address (pkt_destination p)) = None"
    and ex: "kernel_external s = Some ex" "ex_loopback_ifindex ex \<noteq> 0" "ex_bridge_gateway ex ! 0 \<noteq> 127"
  shows "\<exists>d'. decide_ingress (kernel_ops ins rem) s' reply = Inr d' \<and> d_action d' = Redirect
      \<and> d_source d' = pkt_destination p \<and> d_ifindex d' = Some (ex_loopback_ifindex ex)
      \<and> d_destination d' = socket_of (sock_address (pkt_destination p)) (sock_port (pkt_source p))
      \<and> (d_destination d' = pkt_source p \<longleftrightarrow> sock_address (pkt_source p) = sock_address (pkt_destination p))"
proof -
  note tab = reverse_inserted [OF lru wf stored]
  have src: "d_source d = socket_of (ex_bridge_gateway ex) (sock_port (pkt_source p))"
    using loopback ex by (intro decide_ingress_published(4) [OF dec rev]) (simp_all add: kernel_ops_sel)
  have "d_source d \<noteq> pkt_destination p" "sock_address (pkt_destination p) ! 0 = 127"
    using loopback ex socket_of_sel(1) [of "ex_bridge_gateway ex" "sock_port (pkt_source p)"]
    by (auto simp: src host_loopback_def simp del: socket_of_sel)
  then have "decide_ingress (kernel_ops ins rem) s' reply = ingress_route (kernel_ops ins rem) s' True
      ((decision_pass reply)\<lparr>d_source := pkt_destination p,
         d_destination := socket_of (sock_address (pkt_destination p)) (sock_port (pkt_source p)),
         d_translation := SourceAndDestination\<rparr>)"
    using published_reply [OF lru dec rev wf stored reply allow dst] ex
    by (simp add: src bridge_gateway_or_zero_def)
  also have "\<dots> = Inr ((redirect_to ((decision_pass reply)\<lparr>d_source := pkt_destination p,
         d_destination := socket_of (sock_address (pkt_destination p)) (sock_port (pkt_source p)),
         d_translation := SourceAndDestination\<rparr>) (ex_loopback_ifindex ex) zero_mac)\<lparr>d_redirect_ingress := True\<rparr>)"
    using loopback ex by (simp add: ingress_route_def kernel_ops_sel tab host_loopback_def)
  finally show ?thesis
    by (simp add: redirect_to_def socket_of_eq_iff)
qed

section \<open>A published port whose endpoint is not registered\<close>

text \<open>
  The two directions treat a published port without an endpoint differently: the ingress decision
  is an error, so the packet is dropped; the egress decision on loopback passes the packet with
  its source and destination rewritten, and asks for a reverse entry.
\<close>

lemma unregistered_endpoint:
  assumes "host_loopback p" and "\<forall>dir. policy ops s (policy_key_for p dir) = None"
    and "published_port ops s (pkt_protocol p) (sock_port (pkt_destination p)) = Some t"
    and "valid_target (pt_address t) (pt_port t)" and "external_of ops s = Some ex"
    and "conntrack ops s (flow_key_of p) = None" and "endpoint_of ops s (pt_address t) = None"
    and "endpoint_of ops s (sock_address (pkt_source p)) = None"
  shows "decide_ingress ops s p = Inl EndpointMissing"
    "\<exists>d. decide_egress ops s p = (Inr d, s) \<and> d_action d = Pass \<and> d_translation d = SourceAndDestination
       \<and> d_destination d = socket_of (pt_address t) (pt_port t) \<and> d_reverse_conntrack d \<noteq> None"
  using assms
  by (simp_all add: decide_ingress_def decide_egress_def enforce_policy_def already_translated_def ingress_publish_def
      ingress_route_def egress_hairpin_def egress_conntrack_def Let_def)

section \<open>Concrete requests\<close>

definition published_maps :: kernel_maps where
  "published_maps = example_maps\<lparr>ferro_ports := [[6, 0, 0x1f, 0x90] \<mapsto> [10, 0, 0, 2, 0, 80, 0, 0]]\<rparr>"

lemma published_maps_tables:
  "kernel_external published_maps = Some example_external" "kernel_policy published_maps k = None"
  "kernel_conntrack published_maps f = None"
  "kernel_endpoint published_maps a = (if a = [10, 0, 0, 2] then Some example_endpoint else None)"
  "kernel_published_port published_maps 6 8080 = Some \<lparr>pt_address = [10, 0, 0, 2], pt_port = 80\<rparr>"
proof -
  show "kernel_external published_maps = Some example_external"
    using example_external_of by (simp add: kernel_external_def published_maps_def)
  have "u16_to_be 8080 = [0x1f, 0x90]" by (simp add: u16_to_be_def nat_to_be_two)
  then show "kernel_published_port published_maps 6 8080 = Some \<lparr>pt_address = [10, 0, 0, 2], pt_port = 80\<rparr>"
    by (simp add: kernel_published_port_def published_maps_def u16_from_be_def nat_from_be_def)
qed (simp_all add: kernel_policy_def kernel_conntrack_def kernel_endpoint_def published_maps_def example_maps_def
      example_endpoint_def u32_from_be_def nat_from_be_def)

definition published_request :: "bytes \<Rightarrow> bytes \<Rightarrow> packet" where
  "published_request src dst =
     \<lparr>pkt_protocol = 6, pkt_source = socket_of src 5000, pkt_destination = socket_of dst 8080\<rparr>"

definition published_reverse :: "bytes \<Rightarrow> bytes \<Rightarrow> conntrack_record" where
  "published_reverse client dst =
     \<lparr>cr_key = \<lparr>fk_protocol = 6, fk_source = [10, 0, 0, 2], fk_destination = client, fk_source_port = 80,
                fk_destination_port = 5000\<rparr>,
      cr_target = \<lparr>nt_address = dst, nt_port = 8080\<rparr>\<rparr>"

definition published_stored :: "conntrack_record \<Rightarrow> kernel_maps" where
  "published_stored r = published_maps
     \<lparr>ferro_conntrack := [flow_key_encode (cr_key r) \<mapsto> conntrack_value r 0], ktime_reads := 1\<rparr>"

lemma published_inserted:
  "insert_reverse_conntrack plain_insert published_maps r = (Inr (), published_stored r)"
  by (simp add: insert_reverse_conntrack_def insert_record_def plain_insert_def published_stored_def
      published_maps_def example_maps_def BPF_ANY_def BPF_NOEXIST_def)

definition outside_decision :: decision where
  "outside_decision =
     redirect_to ((decision_pass (published_request [198, 51, 100, 7] [203, 0, 113, 5]))
       \<lparr>d_destination := socket_of [10, 0, 0, 2] 80, d_translation := DestinationNat,
        d_reverse_conntrack := Some (published_reverse [198, 51, 100, 7] [203, 0, 113, 5])\<rparr>)
       7 [2, 0, 0, 0, 0, 4]"

lemma outside_decided:
  "decide_ingress (kernel_ops plain_insert plain_remove) published_maps
     (published_request [198, 51, 100, 7] [203, 0, 113, 5]) = Inr outside_decision"
  by (simp add: decide_ingress_def enforce_policy_def kernel_ops_sel published_maps_tables published_request_def
      already_translated_def valid_target_def zero_address_def ingress_publish_def host_loopback_def ingress_route_def
      example_endpoint_def zero_mac_def outside_decision_def published_reverse_def Let_def)

theorem published_reply_returns_witness:
  "\<exists>d'. decide_ingress (kernel_ops plain_insert plain_remove)
      (published_stored (published_reverse [198, 51, 100, 7] [203, 0, 113, 5]))
      \<lparr>pkt_protocol = 6, pkt_source = socket_of [10, 0, 0, 2] 80, pkt_destination = socket_of [198, 51, 100, 7] 5000\<rparr> = Inr d'
    \<and> d_source d' = socket_of [203, 0, 113, 5] 8080 \<and> d_destination d' = socket_of [198, 51, 100, 7] 5000"
proof -
  let ?p = "published_request [198, 51, 100, 7] [203, 0, 113, 5]"
  have rev: "d_reverse_conntrack outside_decision = Some (published_reverse [198, 51, 100, 7] [203, 0, 113, 5])"
    by (simp add: outside_decision_def redirect_to_def)
  have wf: "wf_conntrack (published_reverse [198, 51, 100, 7] [203, 0, 113, 5])"
    by (simp add: wf_conntrack_def wf_key_def published_reverse_def)
  have reply: "\<lparr>pkt_protocol = 6, pkt_source = socket_of [10, 0, 0, 2] 80, pkt_destination = socket_of [198, 51, 100, 7] 5000\<rparr>
      = \<lparr>pkt_protocol = pkt_protocol ?p, pkt_source = d_destination outside_decision, pkt_destination = d_source outside_decision\<rparr>"
    by (simp add: outside_decision_def published_request_def)
  show ?thesis
    using published_reply_returns [OF plain.lru_map_axioms outside_decided rev wf published_inserted reply,
        of example_external]
    by (auto simp: published_maps_tables published_request_def valid_target_def zero_address_def socket_of_eq_iff
        example_external_def zero_mac_def)
qed

definition loopback_decision :: decision where
  "loopback_decision =
     redirect_to ((decision_pass (published_request [127, 0, 0, 1] [127, 0, 0, 2]))
       \<lparr>d_destination := socket_of [10, 0, 0, 2] 80, d_source := socket_of [10, 0, 0, 1] 5000,
        d_translation := SourceAndDestination,
        d_reverse_conntrack := Some (published_reverse [10, 0, 0, 1] [127, 0, 0, 2])\<rparr>)
       7 [2, 0, 0, 0, 0, 4]"

lemma loopback_decided:
  "decide_ingress (kernel_ops plain_insert plain_remove) published_maps
     (published_request [127, 0, 0, 1] [127, 0, 0, 2]) = Inr loopback_decision"
  by (simp add: decide_ingress_def enforce_policy_def kernel_ops_sel published_maps_tables published_request_def
      already_translated_def valid_target_def zero_address_def ingress_publish_def host_loopback_def ingress_route_def
      example_endpoint_def zero_mac_def loopback_decision_def published_reverse_def Let_def sock_address_update
      example_external_def)

theorem loopback_reply_address_witness:
  "\<exists>d'. decide_ingress (kernel_ops plain_insert plain_remove)
      (published_stored (published_reverse [10, 0, 0, 1] [127, 0, 0, 2]))
      \<lparr>pkt_protocol = 6, pkt_source = socket_of [10, 0, 0, 2] 80, pkt_destination = socket_of [10, 0, 0, 1] 5000\<rparr> = Inr d'
    \<and> d_destination d' = socket_of [127, 0, 0, 2] 5000
    \<and> d_destination d' \<noteq> pkt_source (published_request [127, 0, 0, 1] [127, 0, 0, 2])"
proof -
  let ?p = "published_request [127, 0, 0, 1] [127, 0, 0, 2]"
  have rev: "d_reverse_conntrack loopback_decision = Some (published_reverse [10, 0, 0, 1] [127, 0, 0, 2])"
    by (simp add: loopback_decision_def redirect_to_def)
  have wf: "wf_conntrack (published_reverse [10, 0, 0, 1] [127, 0, 0, 2])"
    by (simp add: wf_conntrack_def wf_key_def published_reverse_def)
  have reply: "\<lparr>pkt_protocol = 6, pkt_source = socket_of [10, 0, 0, 2] 80, pkt_destination = socket_of [10, 0, 0, 1] 5000\<rparr>
      = \<lparr>pkt_protocol = pkt_protocol ?p, pkt_source = d_destination loopback_decision, pkt_destination = d_source loopback_decision\<rparr>"
    by (simp add: loopback_decision_def published_request_def)
  show ?thesis
    using loopback_reply_address [OF plain.lru_map_axioms loopback_decided rev wf published_inserted reply,
        of example_external]
    by (auto simp: published_maps_tables published_request_def valid_target_def zero_address_def
        example_external_def host_loopback_def)
qed

end
