(* ===== verification/Classifier.thy ===== *)
theory Classifier
  imports Datapath_Apply Datapath_Publish
begin

unbundle bit_operations_syntax

text \<open>
  The traffic classifier: \<open>src/ferro-net-ebpf/src/main.rs\<close> and the BPF half of
  \<open>src/ferro-net-ebpf/src/packet.rs\<close> (module \<open>tc\<close>).

  The kernel's packet buffer is a state of type \<open>'c\<close> behind the record \<open>tc_ops\<close> of the helpers
  the program calls (\<open>TcContext\<close> of aya); \<open>bpf_redirect\<close> is a parameter too.  \<open>le\<close> says whether
  the target is little-endian, which decides what \<open>from_ne_bytes\<close> and \<open>to_ne_bytes\<close> are.
  A function on the buffer returns its result with the buffer it leaves.
\<close>

section \<open>The packet buffer\<close>

record 'c tc_ops =
  tc_pull_data :: "'c \<Rightarrow> (unit + unit) \<times> 'c"
  tc_data :: "'c \<Rightarrow> nat"
  tc_data_end :: "'c \<Rightarrow> nat"
  tc_len :: "'c \<Rightarrow> u32"
  tc_load :: "'c \<Rightarrow> nat \<Rightarrow> unit + byte"
  tc_store :: "'c \<Rightarrow> nat \<Rightarrow> byte \<Rightarrow> u64 \<Rightarrow> (unit + unit) \<times> 'c"
  tc_l3_csum_replace :: "'c \<Rightarrow> nat \<Rightarrow> u64 \<Rightarrow> u64 \<Rightarrow> u64 \<Rightarrow> (unit + unit) \<times> 'c"
  tc_l4_csum_replace :: "'c \<Rightarrow> nat \<Rightarrow> u64 \<Rightarrow> u64 \<Rightarrow> u64 \<Rightarrow> (unit + unit) \<times> 'c"

definition BPF_F_PSEUDO_HDR :: u64 where "BPF_F_PSEUDO_HDR = push_bit 4 1"
definition BPF_F_MARK_MANGLED_0 :: u64 where "BPF_F_MARK_MANGLED_0 = push_bit 5 1"
definition BPF_F_RECOMPUTE_CSUM :: u64 where "BPF_F_RECOMPUTE_CSUM = 1"
definition BPF_F_INGRESS :: u64 where "BPF_F_INGRESS = 1"

text \<open>The verdicts of the traffic control hook.\<close>

definition TC_ACT_OK :: int where "TC_ACT_OK = 0"
definition TC_ACT_SHOT :: int where "TC_ACT_SHOT = 2"
definition TC_ACT_REDIRECT :: int where "TC_ACT_REDIRECT = 7"

type_synonym 'c tc_result = "(packet_error + unit) \<times> 'c"

definition tc_then :: "'c tc_result \<Rightarrow> ('c \<Rightarrow> 'c tc_result) \<Rightarrow> 'c tc_result" where
  "tc_then r k = (case r of (Inl e, c) \<Rightarrow> (Inl e, c) | (Inr _, c) \<Rightarrow> k c)"

definition tc_call :: "(unit + unit) \<times> 'c \<Rightarrow> 'c tc_result" where
  "tc_call r = (case r of (res, c) \<Rightarrow> (map_err (\<lambda>_. Truncated) res, c))"

section \<open>Parsing the buffer\<close>

definition header_at :: "'c tc_ops \<Rightarrow> 'c \<Rightarrow> nat \<Rightarrow> nat \<Rightarrow> packet_error + unit" where
  "header_at t c offset len =
     (let header_end = tc_data t c + offset + len in
      if header_end < 2 ^ 64 \<and> header_end \<le> tc_data_end t c then Inr () else Inl Truncated)"

definition byte_at :: "'c tc_ops \<Rightarrow> 'c \<Rightarrow> nat \<Rightarrow> packet_error + byte" where
  "byte_at t c offset = map_err (\<lambda>_. Truncated) (tc_load t c offset)"

definition parse_context :: "'c tc_ops \<Rightarrow> 'c \<Rightarrow> packet_error + packet_view" where
  "parse_context t c =
     rbind (if tc_data t c \<le> tc_data_end t c then Inr (tc_data_end t c - tc_data t c) else Inl Truncated)
       (\<lambda>linear_len.
     let packet_len = max linear_len (unat (tc_len t c));
         ethernet = (tc_load t c 12 = Inr 0x08 \<and> tc_load t c 13 = Inr 0x00);
         offset = (if ethernet then 14 else 0)
     in
     rbind (if ethernet then header_at t c 0 14 else Inr ()) (\<lambda>_.
     rbind (parse_with_link packet_len offset ethernet (byte_at t c)) (\<lambda>view.
     rbind (header_at t c (ipv4_offset view) 20) (\<lambda>_.
     rbind (header_at t c (transport_offset view) (case transport view of Tcp \<Rightarrow> 20 | Udp \<Rightarrow> 8)) (\<lambda>_.
     Inr view)))))"

section \<open>Rewriting the buffer\<close>

definition from_ne_bytes :: "bool \<Rightarrow> bytes \<Rightarrow> u64" where
  "from_ne_bytes le bs = of_nat (nat_from_be (if le then rev bs else bs))"

definition u64_to_ne_bytes :: "bool \<Rightarrow> u64 \<Rightarrow> bytes" where
  "u64_to_ne_bytes le w = (if le then rev (u64_to_be w) else u64_to_be w)"

definition store_byte :: "'c tc_ops \<Rightarrow> nat \<Rightarrow> byte \<Rightarrow> 'c \<Rightarrow> 'c tc_result" where
  "store_byte t offset value c = tc_call (tc_store t c offset value BPF_F_RECOMPUTE_CSUM)"

definition transport_offsets :: "packet_view \<Rightarrow> bool \<Rightarrow> (nat \<times> nat) option" where
  "transport_offsets view destination =
     (let port_delta = (if destination then 2 else 0);
          checksum_delta = (case transport view of Tcp \<Rightarrow> 16 | Udp \<Rightarrow> 6);
          x = transport_offset view
      in
      if x \<in> {20, 24, 28, 32, 36, 40, 44, 48, 52, 56, 60, 34, 38, 42, 46, 50, 54, 58, 62, 66, 70, 74}
      then Some (x + port_delta, x + checksum_delta) else None)"

definition mangled_flag :: "packet_view \<Rightarrow> u64" where
  "mangled_flag view = (if transport view = Udp then BPF_F_MARK_MANGLED_0 else 0)"

definition rewrite_ipv4_address_context ::
  "'c tc_ops \<Rightarrow> bool \<Rightarrow> nat \<Rightarrow> bytes \<Rightarrow> bytes \<Rightarrow> packet_view \<Rightarrow> 'c \<Rightarrow> 'c tc_result" where
  "rewrite_ipv4_address_context t le address_offset old_address new_address view c =
     (case transport_offsets view False of
        None \<Rightarrow> (Inl Truncated, c)
      | Some (_, checksum_offset) \<Rightarrow>
          let old_value = from_ne_bytes le old_address;
              new_value = from_ne_bytes le new_address;
              bs = u64_to_ne_bytes le new_value
          in
          tc_then (tc_call (tc_l3_csum_replace t c (ipv4_offset view + 10) old_value new_value 4)) (\<lambda>c.
          tc_then (tc_call (tc_l4_csum_replace t c checksum_offset old_value new_value
                     (BPF_F_PSEUDO_HDR OR 4 OR mangled_flag view))) (\<lambda>c.
          tc_then (store_byte t address_offset (bs ! 0) c) (\<lambda>c.
          tc_then (store_byte t (address_offset + 1) (bs ! 1) c) (\<lambda>c.
          tc_then (store_byte t (address_offset + 2) (bs ! 2) c) (\<lambda>c.
          store_byte t (address_offset + 3) (bs ! 3) c))))))"

definition rewrite_transport_port_context ::
  "'c tc_ops \<Rightarrow> bool \<Rightarrow> packet_view \<Rightarrow> u16 \<Rightarrow> u16 \<Rightarrow> bool \<Rightarrow> 'c \<Rightarrow> 'c tc_result" where
  "rewrite_transport_port_context t le view old_port new_port destination c =
     (case transport_offsets view destination of
        None \<Rightarrow> (Inl Truncated, c)
      | Some (port_offset, checksum_offset) \<Rightarrow>
          tc_then (tc_call (tc_l4_csum_replace t c checksum_offset (from_ne_bytes le (u16_to_be old_port))
                     (from_ne_bytes le (u16_to_be new_port)) (2 OR mangled_flag view))) (\<lambda>c.
          tc_then (store_byte t port_offset (u16_to_be new_port ! 0) c) (\<lambda>c.
          store_byte t (port_offset + 1) (u16_to_be new_port ! 1) c)))"

definition context_source ::
  "'c tc_ops \<Rightarrow> bool \<Rightarrow> packet_view \<Rightarrow> packet \<Rightarrow> decision \<Rightarrow> 'c \<Rightarrow> 'c tc_result" where
  "context_source t le view p d c =
     tc_then
       (if sock_address (pkt_source p) \<noteq> sock_address (d_source d)
        then rewrite_ipv4_address_context t le (ipv4_offset view + 12) (sock_address (pkt_source p))
               (sock_address (d_source d)) view c
        else (Inr (), c)) (\<lambda>c.
     if sock_port (pkt_source p) \<noteq> sock_port (d_source d)
     then rewrite_transport_port_context t le view (sock_port (pkt_source p)) (sock_port (d_source d)) False c
     else (Inr (), c))"

definition context_destination ::
  "'c tc_ops \<Rightarrow> bool \<Rightarrow> packet_view \<Rightarrow> packet \<Rightarrow> decision \<Rightarrow> 'c \<Rightarrow> 'c tc_result" where
  "context_destination t le view p d c =
     tc_then
       (if sock_address (pkt_destination p) \<noteq> sock_address (d_destination d)
        then rewrite_ipv4_address_context t le (ipv4_offset view + 16) (sock_address (pkt_destination p))
               (sock_address (d_destination d)) view c
        else (Inr (), c)) (\<lambda>c.
     if sock_port (pkt_destination p) \<noteq> sock_port (d_destination d)
     then rewrite_transport_port_context t le view (sock_port (pkt_destination p)) (sock_port (d_destination d)) True c
     else (Inr (), c))"

text \<open>Storing consecutive bytes without a checksum flag, as the loops over the link header do.\<close>

fun store_all :: "'c tc_ops \<Rightarrow> nat \<Rightarrow> bytes \<Rightarrow> 'c \<Rightarrow> 'c tc_result" where
  "store_all t offset [] c = (Inr (), c)"
| "store_all t offset (b # bs) c =
     tc_then (tc_call (tc_store t c offset b 0)) (\<lambda>c. store_all t (offset + 1) bs c)"

fun source_is_zero :: "'c tc_ops \<Rightarrow> 'c \<Rightarrow> nat list \<Rightarrow> packet_error + bool" where
  "source_is_zero t c [] = Inr True"
| "source_is_zero t c (offset # offsets) =
     rbind (byte_at t c offset) (\<lambda>b.
     rbind (source_is_zero t c offsets) (\<lambda>rest. Inr (b = 0 \<and> rest)))"

definition context_link :: "'c tc_ops \<Rightarrow> packet_view \<Rightarrow> decision \<Rightarrow> 'c \<Rightarrow> 'c tc_result" where
  "context_link t view d c =
     (if ipv4_offset view = 14 then
        (case d_destination_mac d of
           None \<Rightarrow> (Inr (), c)
         | Some mac \<Rightarrow>
             tc_then (store_all t 0 mac c) (\<lambda>c.
             case source_is_zero t c [6, 7, 8, 9, 10, 11] of
               Inl e \<Rightarrow> (Inl e, c)
             | Inr True \<Rightarrow> store_all t 6 SYNTHETIC_REDIRECT_SOURCE_MAC c
             | Inr False \<Rightarrow> (Inr (), c)))
      else (Inr (), c))"

definition apply_decision_context ::
  "'c tc_ops \<Rightarrow> bool \<Rightarrow> packet_view \<Rightarrow> packet \<Rightarrow> decision \<Rightarrow> 'c \<Rightarrow> 'c tc_result" where
  "apply_decision_context t le view p d c =
     tc_then
       (case d_translation d of
          NoTranslation \<Rightarrow> (Inr (), c)
        | SourceNat \<Rightarrow> context_source t le view p d c
        | DestinationNat \<Rightarrow> context_destination t le view p d c
        | SourceAndDestination \<Rightarrow>
            tc_then (context_source t le view p d c) (context_destination t le view p d))
       (context_link t view d)"

section \<open>The classifier\<close>

definition finish_without_decision :: "action \<Rightarrow> kernel_maps \<Rightarrow> int \<times> kernel_maps" where
  "finish_without_decision a s =
     ((case a of Pass \<Rightarrow> TC_ACT_OK | Drop \<Rightarrow> TC_ACT_SHOT | Redirect \<Rightarrow> TC_ACT_SHOT),
      increment (action_counter a) s)"

definition disposition :: "(u32 \<Rightarrow> u64 \<Rightarrow> int) \<Rightarrow> decision \<Rightarrow> action \<times> int" where
  "disposition bpf_redirect d =
     (case d_action d of
        Pass \<Rightarrow> (Pass, TC_ACT_OK)
      | Drop \<Rightarrow> (Drop, TC_ACT_SHOT)
      | Redirect \<Rightarrow>
          let redirect_result =
                (case d_ifindex d of
                   Some ifindex \<Rightarrow>
                     if ifindex \<noteq> 0
                     then bpf_redirect ifindex (if d_redirect_ingress d then BPF_F_INGRESS else 0)
                     else TC_ACT_SHOT
                 | None \<Rightarrow> TC_ACT_SHOT);
              actual = actual_disposition d (redirect_result = TC_ACT_REDIRECT)
          in (actual, if actual = Redirect then redirect_result else TC_ACT_SHOT))"

definition parse_failure_of :: "packet_error \<Rightarrow> parse_failure" where
  "parse_failure_of e =
     (case e of
        UnsupportedNetwork \<Rightarrow> Unsupported
      | UnsupportedTransport \<Rightarrow> Unsupported
      | Truncated \<Rightarrow> Invalid
      | InvalidIpv4Header \<Rightarrow> Invalid
      | InvalidTransportHeader \<Rightarrow> Invalid
      | Fragmented \<Rightarrow> Invalid)"

definition destination_port_offset :: "nat \<Rightarrow> nat \<Rightarrow> nat option" where
  "destination_port_offset offset ihl =
     (if 5 \<le> ihl \<and> ihl \<le> 15 then
        if offset = 0 then Some (22 + 4 * (ihl - 5))
        else if offset = 14 then Some (36 + 4 * (ihl - 5)) else None
      else None)"

definition invalid_packet_is_owned :: "'s datapath_state \<Rightarrow> 's \<Rightarrow> 'c tc_ops \<Rightarrow> 'c \<Rightarrow> direction \<Rightarrow> bool" where
  "invalid_packet_is_owned ops s t c dir =
     (let load = tc_load t c;
          ethernet = (load_u16 load 12 = Inr 0x0800);
          offset = (if ethernet then 14 else 0 :: nat);
          address_offset = (case dir of Ingress \<Rightarrow> offset + 16 | Egress \<Rightarrow> offset + 12)
      in
      if (case load_address load address_offset of
            Inr address \<Rightarrow> endpoint_of ops s address \<noteq> None | Inl _ \<Rightarrow> False) then True
      else if dir \<noteq> Ingress then False
      else
        (case load_byte load offset of
           Inl _ \<Rightarrow> False
         | Inr version_ihl \<Rightarrow>
             if drop_bit 4 version_ihl \<noteq> 4 then False
             else
               (case load_byte load (offset + 9) of
                  Inl _ \<Rightarrow> False
                | Inr protocol \<Rightarrow>
                    if protocol \<noteq> IP_PROTOCOL_TCP \<and> protocol \<noteq> IP_PROTOCOL_UDP then False
                    else
                      (case destination_port_offset offset (unat (version_ihl AND 0x0f)) of
                         None \<Rightarrow> False
                       | Some o1 \<Rightarrow>
                           (case load_u16 load o1 of
                              Inl _ \<Rightarrow> False
                            | Inr port \<Rightarrow> published_port ops s protocol port \<noteq> None)))))"

definition decide ::
  "'s datapath_state \<Rightarrow> direction \<Rightarrow> 's \<Rightarrow> packet \<Rightarrow> (decision_error + decision) \<times> 's" where
  "decide ops dir s p =
     (case dir of Ingress \<Rightarrow> (decide_ingress ops s p, s) | Egress \<Rightarrow> decide_egress ops s p)"

definition store_reverse :: "map_insert \<Rightarrow> kernel_maps \<Rightarrow> decision \<Rightarrow> (int + unit) \<times> kernel_maps" where
  "store_reverse ins s d =
     (case d_reverse_conntrack d of None \<Rightarrow> (Inr (), s) | Some r \<Rightarrow> insert_reverse_conntrack ins s r)"

definition conclude :: "(u32 \<Rightarrow> u64 \<Rightarrow> int) \<Rightarrow> direction \<Rightarrow> decision \<Rightarrow> kernel_maps \<Rightarrow> int \<times> kernel_maps" where
  "conclude bpf_redirect dir d s =
     (let (actual, tc_result) = disposition bpf_redirect d;
          ms = metrics d dir actual;
          s = increment (m_outcome ms) s;
          s = (if m_translated ms then increment NatTranslations s else s)
      in (tc_result, s))"

definition classify_packet ::
  "map_insert \<Rightarrow> map_remove \<Rightarrow> 'c tc_ops \<Rightarrow> bool \<Rightarrow> (u32 \<Rightarrow> u64 \<Rightarrow> int) \<Rightarrow> direction \<Rightarrow> packet_view \<Rightarrow> packet
   \<Rightarrow> kernel_maps \<Rightarrow> 'c \<Rightarrow> (int \<times> kernel_maps) \<times> 'c" where
  "classify_packet ins rem t le bpf_redirect dir view p s c =
     (case decide (kernel_ops ins rem) dir s p of
        (Inl e, s) \<Rightarrow>
          (finish_without_decision Drop
             (case decision_error_counter e of None \<Rightarrow> s | Some k \<Rightarrow> increment k s), c)
      | (Inr d, s) \<Rightarrow>
          (case store_reverse ins s d of
             (Inl _, s) \<Rightarrow> (finish_without_decision Drop (increment MapErrors s), c)
           | (Inr _, s) \<Rightarrow>
               (case apply_decision_context t le view p d c of
                  (Inl _, c) \<Rightarrow> (finish_without_decision Drop s, c)
                | (Inr _, c) \<Rightarrow> (conclude bpf_redirect dir d s, c))))"

definition classify ::
  "map_insert \<Rightarrow> map_remove \<Rightarrow> 'c tc_ops \<Rightarrow> bool \<Rightarrow> (u32 \<Rightarrow> u64 \<Rightarrow> int) \<Rightarrow> direction \<Rightarrow> kernel_maps \<Rightarrow> 'c
   \<Rightarrow> (int \<times> kernel_maps) \<times> 'c" where
  "classify ins rem t le bpf_redirect dir s c =
     (let ops = kernel_ops ins rem;
          s = increment (packet_counter dir) s
      in
      case tc_pull_data t c of
        (Inl _, c) \<Rightarrow> (finish_without_decision Drop s, c)
      | (Inr _, c) \<Rightarrow>
          (case parse_context t c of
             Inl e \<Rightarrow>
               (finish_without_decision
                  (action_for_parse_failure (parse_failure_of e) (invalid_packet_is_owned ops s t c dir)) s, c)
           | Inr view \<Rightarrow>
               (case packet_from_context (tc_load t c) view of
                  Inl _ \<Rightarrow> (finish_without_decision Drop s, c)
                | Inr p \<Rightarrow>
                    classify_packet ins rem t le bpf_redirect dir view p s c)))"

definition ferro_ingress where
  "ferro_ingress ins rem t le bpf_redirect = classify ins rem t le bpf_redirect Ingress"

definition ferro_egress where
  "ferro_egress ins rem t le bpf_redirect = classify ins rem t le bpf_redirect Egress"

section \<open>Counters\<close>

definition bump :: "counter \<Rightarrow> (u32 \<rightharpoonup> u64) \<Rightarrow> u32 \<rightharpoonup> u64" where
  "bump k m = (case m (counter_index k) of None \<Rightarrow> m | Some n \<Rightarrow> m(counter_index k \<mapsto> n + 1))"

lemma counter_index_less: "counter_index k < COUNTER_MAX_ENTRIES"
  by (cases k) (simp_all add: COUNTER_MAX_ENTRIES_def)

lemma increment_counters [simp]: "ferro_counters (increment k s) = bump k (ferro_counters s)"
  using counter_index_less [of k] by (auto simp: increment_def bump_def Let_def dest: leD split: option.splits)

lemma increment_tables [simp]:
  "ferro_conntrack (increment k s) = ferro_conntrack s" "kernel_policy (increment k s) = kernel_policy s"
  by (auto simp: increment_def Let_def kernel_policy_def fun_eq_iff split: option.splits)

lemma insert_record_counters: "insert_record ins s r flags = (x, s') \<Longrightarrow> ferro_counters s' = ferro_counters s"
  by (auto simp: insert_record_def Let_def split: prod.splits)

lemma install_from_counters:
  "install_from (kernel_ops ins rem) p ex probe s = (x, s') \<Longrightarrow> ferro_counters s' = ferro_counters s"
proof (induction "SNAT_PROBE_LIMIT - probe" arbitrary: probe s rule: less_induct)
  case less
  have more: "SNAT_PROBE_LIMIT - Suc probe < SNAT_PROBE_LIMIT - probe" if "probe < SNAT_PROBE_LIMIT"
    using that by simp
  show ?case
    using less.prems
    by (auto simp: install_from.simps [of _ _ _ probe] kernel_ops_def kernel_reserve_def kernel_insert_def
        kernel_remove_def Let_def map_err_def split: if_splits option.splits prod.splits sum.splits
        dest!: insert_record_counters dest: less.hyps [OF more, unfolded kernel_ops_def])
qed

lemma decide_counters:
  "decide (kernel_ops ins rem) dir s p = (x, s') \<Longrightarrow> ferro_counters s' = ferro_counters s"
  by (cases dir)
    (auto simp: decide_def decide_egress_def egress_external_def install_generic_snat_def
      split: sum.splits prod.splits option.splits if_splits dest: install_from_counters)

lemma store_reverse_counters: "store_reverse ins s d = (x, s') \<Longrightarrow> ferro_counters s' = ferro_counters s"
  by (auto simp: store_reverse_def insert_reverse_conntrack_def split: option.splits dest: insert_record_counters)

primrec verdict_of :: "action \<Rightarrow> int" where
  "verdict_of Pass = TC_ACT_OK"
| "verdict_of Drop = TC_ACT_SHOT"
| "verdict_of Redirect = TC_ACT_REDIRECT"

lemma disposition_verdict: "disposition f d = (a, v) \<Longrightarrow> v = verdict_of a"
  by (auto simp: disposition_def actual_disposition_def Let_def split: action.splits option.splits if_splits)

text \<open>What one run may add to the counters for a given outcome, after the packet counter.\<close>

definition accounted :: "action \<Rightarrow> counter list \<Rightarrow> bool" where
  "accounted a ks \<longleftrightarrow> ks = [action_counter a]
     \<or> a = Drop \<and> (\<exists>k \<in> {PolicyDenials, SnatExhaustions, SnatConfigErrors, MapErrors}. ks = [k, Drops])
     \<or> a \<noteq> Drop \<and> ks = [action_counter a, NatTranslations]"

lemma finish_accounted:
  assumes "a \<noteq> Redirect"
  shows "finish_without_decision a s = (verdict_of a, increment (action_counter a) s)"
  using assms by (cases a) (simp_all add: finish_without_decision_def)

lemma conclude_accounted:
  assumes "conclude f dir d s = (v, s')"
  shows "\<exists>a ks. v = verdict_of a \<and> accounted a ks \<and> ferro_counters s' = fold bump ks (ferro_counters s)"
proof -
  obtain a v' where d: "disposition f d = (a, v')" by fastforce
  let ?t = "m_translated (metrics d dir a)"
  have "v = verdict_of a" using assms disposition_verdict [OF d] by (simp add: conclude_def d Let_def)
  moreover have "ferro_counters s' =
      fold bump (action_counter a # (if ?t then [NatTranslations] else [])) (ferro_counters s)"
    using assms by (auto simp: conclude_def d metrics_def)
  moreover have "accounted a (action_counter a # (if ?t then [NatTranslations] else []))"
    by (auto simp: accounted_def metrics_def)
  ultimately show ?thesis by blast
qed

section \<open>Properties\<close>

definition accounts :: "direction \<Rightarrow> kernel_maps \<Rightarrow> (int \<times> kernel_maps) \<times> 'c \<Rightarrow> bool" where
  "accounts dir s r \<longleftrightarrow>
     (\<exists>a ks v s' c'. r = ((v, s'), c') \<and> v = verdict_of a \<and> accounted a ks
       \<and> ferro_counters s' = fold bump (packet_counter dir # ks) (ferro_counters s))"

lemma finish_accounts:
  assumes "a \<noteq> Redirect" and "ferro_counters s1 = bump (packet_counter dir) (ferro_counters s)"
  shows "accounts dir s (finish_without_decision a s1, c)"
  using assms unfolding accounts_def
  by (intro exI [of _ a] exI [of _ "[action_counter a]"]) (simp add: finish_accounted accounted_def)

lemma error_accounts:
  assumes "k \<in> {PolicyDenials, SnatExhaustions, SnatConfigErrors, MapErrors}"
    and "ferro_counters s1 = bump (packet_counter dir) (ferro_counters s)"
  shows "accounts dir s (finish_without_decision Drop (increment k s1), c)"
  using assms unfolding accounts_def
  by (intro exI [of _ Drop] exI [of _ "[k, Drops]"]) (auto simp: finish_accounted accounted_def)

lemma conclude_accounts:
  assumes "ferro_counters s1 = bump (packet_counter dir) (ferro_counters s)"
  shows "accounts dir s (conclude f dir d s1, c)"
proof -
  obtain v s' where c: "conclude f dir d s1 = (v, s')" by fastforce
  then obtain a ks where "v = verdict_of a" "accounted a ks" "ferro_counters s' = fold bump ks (ferro_counters s1)"
    using conclude_accounted by blast
  then show ?thesis unfolding accounts_def c using assms by auto
qed

lemma decided_accounts:
  assumes "ferro_counters s1 = bump (packet_counter dir) (ferro_counters s)"
  shows "accounts dir s (classify_packet ins rem t le f dir view p s1 c)"
proof -
  obtain x s2 where d: "decide (kernel_ops ins rem) dir s1 p = (x, s2)" by fastforce
  have s2: "ferro_counters s2 = bump (packet_counter dir) (ferro_counters s)"
    using decide_counters [OF d] assms by simp
  show ?thesis
  proof (cases x)
    case (Inl e)
    then show ?thesis using d s2 by (cases e) (auto simp: classify_packet_def intro: error_accounts)
  next
    case (Inr dec)
    obtain y s3 where r: "store_reverse ins s2 dec = (y, s3)" by fastforce
    then have s3: "ferro_counters s3 = bump (packet_counter dir) (ferro_counters s)"
      using store_reverse_counters s2 by metis
    show ?thesis
      using d Inr r s3
      by (auto simp: classify_packet_def split: sum.splits prod.splits
          intro: error_accounts finish_accounts conclude_accounts)
  qed
qed

lemma parse_failure_no_redirect: "action_for_parse_failure x y \<noteq> Redirect"
  by (cases x) auto

text \<open>C32.
  Every packet is accounted for exactly once and consistently with its verdict.  Whatever the
  kernel's helpers and maps do, a run of the classifier counts the packet in its direction and
  then exactly one outcome, the one that the returned verdict stands for: passed packets return
  \<open>TC_ACT_OK\<close>, dropped ones \<open>TC_ACT_SHOT\<close>, redirected ones \<open>TC_ACT_REDIRECT\<close>.  An error counter
  goes with a drop only, the translation counter with a packet that was not dropped only.
\<close>

theorem classify_accounts:
  "\<exists>a ks v s' c'. classify ins rem t le f dir s c = ((v, s'), c') \<and> v = verdict_of a \<and> accounted a ks
    \<and> ferro_counters s' = fold bump (packet_counter dir # ks) (ferro_counters s)"
proof -
  have "accounts dir s (classify ins rem t le f dir s c)"
    unfolding classify_def Let_def
    by (auto split: prod.splits sum.splits intro!: finish_accounts decided_accounts parse_failure_no_redirect)
  then show ?thesis unfolding accounts_def .
qed

text \<open>A packet that the policy of its endpoint denies is dropped: the verdict is \<open>TC_ACT_SHOT\<close>, the
  denial and the drop are counted, the buffer is not touched after it was made readable and no
  connection entry is added or removed.
\<close>

theorem classify_denies:
  assumes "tc_pull_data t c = (Inr (), c1)" and "parse_context t c1 = Inr view"
    and "packet_from_context (tc_load t c1) view = Inr p"
    and "kernel_policy s (policy_key_for p dir) = Some PolicyDeny"
  shows "\<exists>s'. classify ins rem t le f dir s c = ((TC_ACT_SHOT, s'), c1) \<and> ferro_conntrack s' = ferro_conntrack s
    \<and> ferro_counters s' = fold bump [packet_counter dir, PolicyDenials, Drops] (ferro_counters s)"
proof -
  let ?s = "increment (packet_counter dir) s"
  have "enforce_policy (kernel_ops ins rem) ?s p dir = Inl PolicyDenied"
    using assms(4) by (simp add: enforce_policy_def kernel_ops_sel)
  then have "decide (kernel_ops ins rem) dir ?s p = (Inl PolicyDenied, ?s)"
    by (cases dir) (simp_all add: decide_def decide_ingress_def decide_egress_def)
  then have "classify ins rem t le f dir s c =
      (finish_without_decision Drop (increment PolicyDenials ?s), c1)"
    using assms by (simp add: classify_def classify_packet_def Let_def)
  then show ?thesis by (simp add: finish_accounted)
qed

text \<open>A buffer that is a plain frame in memory; the checksum helpers are not needed here.\<close>

definition frame_ops :: "bytes tc_ops" where
  "frame_ops =
     \<lparr>tc_pull_data = (\<lambda>c. (Inr (), c)), tc_data = (\<lambda>c. 0), tc_data_end = length, tc_len = (\<lambda>c. of_nat (length c)),
      tc_load = frame_load, tc_store = (\<lambda>c i b _. if i < length c then (Inr (), c[i := b]) else (Inl (), c)),
      tc_l3_csum_replace = (\<lambda>c _ _ _ _. (Inr (), c)), tc_l4_csum_replace = (\<lambda>c _ _ _ _. (Inr (), c))\<rparr>"

lemma frame_ok_ethertype:
  assumes "frame_ok p"
  shows "p ! 12 = 8" "p ! 13 = 0"
proof -
  have "256 * unat (p ! 12) + unat (p ! 13) = 2048"
    using assms unat_be16 [of p 12] by (simp add: frame_ok_def)
  then have "unat (p ! 12) = 8 \<and> unat (p ! 13) = 0" using unat_byte_less [of "p ! 13"] by presburger
  then show "p ! 12 = 8" "p ! 13 = 0" by (simp_all add: word_unat_eq_iff)
qed

lemma parse_context_frame:
  assumes ok: "frame_ok p" and small: "length p < 2 ^ 64"
  shows "parse_context frame_ops p = Inr (view_of p)"
proof -
  note len = frame_ok_length [OF ok] segment_bounds [OF ok]
  have load: "frame_load p 12 = Inr 8" "frame_load p 13 = Inr 0"
    using len frame_ok_ethertype [OF ok] by (simp_all add: frame_load_def)
  have b: "byte_at frame_ops p = slice_byte p"
    by (auto simp: byte_at_def frame_ops_def frame_load_def slice_byte_def fun_eq_iff)
  have "unat (of_nat (length p) :: u32) \<le> length p"
    by (simp add: unat_of_nat)
  then have m: "max (length p) (unat (of_nat (length p) :: u32)) = length p" by simp
  have parse: "parse_with_link (length p) 14 True (slice_byte p) = Inr (view_of p)"
    using parse_frame_ok [OF ok] by (simp add: parse_packet_bytes_def parse_with_def ETHERNET_HEADER_LEN_def)
  have h: "header_at frame_ops p i n = Inr ()" if "i + n \<le> length p" for i n
    using that small by (simp add: header_at_def frame_ops_def Let_def)
  have e: "14 + ihl_of p + (case transport (view_of p) of Tcp \<Rightarrow> 20 | Udp \<Rightarrow> 8) \<le> length p"
    using ok by (auto simp: frame_ok_def tcp_ok_def udp_ok_def view_of_def)
  have "tc_load frame_ops p = frame_load p" "tc_data frame_ops p = 0" "tc_data_end frame_ops p = length p"
    "tc_len frame_ops p = of_nat (length p)"
    by (simp_all add: frame_ops_def)
  then show ?thesis
    using len h e by (simp add: parse_context_def load b m parse Let_def view_of_def)
qed

definition denying_maps :: kernel_maps where
  "denying_maps = example_maps
     \<lparr>ferro_policy := (\<lambda>k. if k = policy_key_encode (policy_key_for (frame_packet example_frame) Egress)
        then Some [2, 0, 0, 0] else None)\<rparr>"

theorem classify_denies_witness:
  "\<exists>s'. classify plain_insert plain_remove frame_ops True (\<lambda>_ _. TC_ACT_REDIRECT) Egress denying_maps example_frame
     = ((TC_ACT_SHOT, s'), example_frame)"
proof -
  have 1: "tc_pull_data frame_ops example_frame = (Inr (), example_frame)" "tc_load frame_ops example_frame = frame_load example_frame"
    by (simp_all add: frame_ops_def)
  have "length example_frame < 2 ^ 64" by (simp add: example_frame_def)
  then have 2: "parse_context frame_ops example_frame = Inr (view_of example_frame)"
    by (rule parse_context_frame [OF example_frame_ok])
  have 3: "packet_from_context (tc_load frame_ops example_frame) (view_of example_frame) = Inr (frame_packet example_frame)"
    unfolding 1 by (rule packet_from_frame [OF example_frame_ok])
  have 4: "kernel_policy denying_maps (policy_key_for (frame_packet example_frame) Egress) = Some PolicyDeny"
    by (simp add: kernel_policy_def denying_maps_def POLICY_ACTION_ALLOW_def)
  show ?thesis using classify_denies [OF 1(1) 2 3 4] by blast
qed

section \<open>Byte order\<close>

text \<open>
  The address written to the buffer is the low half of a 64-bit value in the byte order of the
  target: the new address on a little-endian target, zero bytes on a big-endian one.
\<close>

lemma nat_from_be_zeros: "nat_from_be (replicate n 0) = 0"
proof (induction n)
  case (Suc n)
  have "replicate (Suc n) (0 :: byte) = replicate n 0 @ [0]" by (simp add: replicate_append_same)
  then show ?case using Suc by (simp only: nat_from_be_snoc) simp
qed simp

lemma nat_from_be_pad: "nat_from_be (replicate n 0 @ bs) = nat_from_be bs"
proof (induction bs rule: rev_induct)
  case Nil
  show ?case by (simp add: nat_from_be_zeros)
next
  case (snoc b bs)
  then show ?case by (metis append_assoc nat_from_be_snoc)
qed

lemma nat_to_be_padded: "length bs = 4 \<Longrightarrow> nat_to_be 8 (nat_from_be bs) = replicate 4 0 @ bs"
  using nat_to_from_be [of "replicate 4 0 @ bs"] by (simp add: nat_from_be_pad)

lemma written_address_little_endian:
  assumes "length a = 4" and "i < 4"
  shows "u64_to_ne_bytes True (from_ne_bytes True a) ! i = a ! i"
proof -
  have "nat_from_be (rev a) < 256 ^ 4" using nat_from_be_less [of "rev a"] assms(1) by simp
  then have "unat (from_ne_bytes True a) = nat_from_be (rev a)"
    by (simp add: from_ne_bytes_def unat_of_nat)
  then have "u64_to_be (from_ne_bytes True a) = replicate 4 0 @ rev a"
    using assms(1) nat_to_be_padded [of "rev a"] by (simp add: u64_to_be_def)
  then show ?thesis using assms by (simp add: u64_to_ne_bytes_def nth_append)
qed

lemma written_address_big_endian:
  assumes "length a = 4" and "i < 4"
  shows "u64_to_ne_bytes False (from_ne_bytes False a) ! i = 0"
proof -
  have "nat_from_be a < 256 ^ 4" using nat_from_be_less [of a] assms(1) by simp
  then have "unat (from_ne_bytes False a) = nat_from_be a"
    by (simp add: from_ne_bytes_def unat_of_nat)
  then have "u64_to_be (from_ne_bytes False a) = replicate 4 0 @ a"
    using assms(1) nat_to_be_padded [of a] by (simp add: u64_to_be_def)
  then show ?thesis using assms by (simp add: u64_to_ne_bytes_def nth_append)
qed

end
