(* ===== verification/Service_Graph.thy ===== *)
theory Service_Graph
  imports Prelude
begin

text \<open>
  The startup order of Compose services: \<open>src/ferro-compose/src/service_graph.rs\<close>, with the
  dependency declarations of \<open>src/ferro-compose/src/lib.rs\<close>.

  A \<open>HashMap\<close> that is iterated is an association list in the order of the iteration, which the
  language leaves open: the services are given in the order of one map, and \<open>keys\<close> is the order
  in which the in-degree map is traversed.  The theorems hold for every pair of orders.  The
  loop over the queue is a partial function; that it returns is one of the properties.
\<close>

section \<open>Model\<close>

record depends_condition =
  dc_required :: bool
  dc_condition :: string

datatype depends_on =
    SimpleDeps "string list"
  | ConditionalDeps "(string \<times> depends_condition) list"

definition is_required :: "depends_on \<Rightarrow> string \<Rightarrow> bool" where
  "is_required d name =
     (case d of
        SimpleDeps _ \<Rightarrow> True
      | ConditionalDeps m \<Rightarrow> (case map_of m name of None \<Rightarrow> True | Some c \<Rightarrow> dc_required c))"

primrec depends_iter :: "depends_on \<Rightarrow> string list" where
  "depends_iter (SimpleDeps xs) = xs"
| "depends_iter (ConditionalDeps m) = map fst m"

datatype compose_error = ComposeParse string | ComposeValidation string

definition quoted :: "string \<Rightarrow> string" where
  "quoted s = [CHR 0x27] @ s @ [CHR 0x27]"

definition unknown_dependency :: "string \<Rightarrow> string \<Rightarrow> compose_error" where
  "unknown_dependency name dep =
     ComposeValidation (''service '' @ quoted name @ '' depends on unknown service '' @ quoted dep)"

definition cyclic_dependencies :: compose_error where
  "cyclic_dependencies = ComposeValidation ''compose contains cyclic dependencies''"

type_synonym services = "(string \<times> depends_on option) list"

record graph_build =
  g_indegree :: "string \<rightharpoonup> nat"
  g_edges :: "string \<rightharpoonup> string list"

definition add_edge :: "string \<Rightarrow> string \<Rightarrow> graph_build \<Rightarrow> graph_build" where
  "add_edge name dep g =
     \<lparr>g_indegree = (case g_indegree g name of None \<Rightarrow> g_indegree g | Some n \<Rightarrow> (g_indegree g)(name \<mapsto> n + 1)),
      g_edges = (g_edges g)(dep \<mapsto> (case g_edges g dep of None \<Rightarrow> [] | Some xs \<Rightarrow> xs) @ [name])\<rparr>"

fun add_dependencies ::
  "string set \<Rightarrow> string \<Rightarrow> depends_on \<Rightarrow> string list \<Rightarrow> graph_build \<Rightarrow> compose_error + graph_build" where
  "add_dependencies known name d [] g = Inr g"
| "add_dependencies known name d (dep # deps) g =
     (if dep \<notin> known then
        if \<not> is_required d dep then add_dependencies known name d deps g
        else Inl (unknown_dependency name dep)
      else add_dependencies known name d deps (add_edge name dep g))"

fun add_services :: "string set \<Rightarrow> services \<Rightarrow> graph_build \<Rightarrow> compose_error + graph_build" where
  "add_services known [] g = Inr g"
| "add_services known ((name, d) # svcs) g =
     rbind (case d of None \<Rightarrow> Inr g | Some dep \<Rightarrow> add_dependencies known name dep (depends_iter dep) g)
       (add_services known svcs)"

record kahn =
  k_indegree :: "string \<rightharpoonup> nat"
  k_queue :: "string list"
  k_order :: "string list list"
  k_processed :: nat

fun release :: "string list \<Rightarrow> (string \<rightharpoonup> nat) \<times> string list \<Rightarrow> (string \<rightharpoonup> nat) \<times> string list" where
  "release [] st = st"
| "release (child # children) (indegree, queue) =
     release children
       (case indegree child of
          None \<Rightarrow> (indegree, queue)
        | Some n \<Rightarrow> (indegree(child \<mapsto> n - 1), if n - 1 = 0 then queue @ [child] else queue))"

fun drain ::
  "(string \<rightharpoonup> string list) \<Rightarrow> nat \<Rightarrow> (string \<rightharpoonup> nat) \<times> string list \<Rightarrow> nat \<Rightarrow> string list
   \<Rightarrow> ((string \<rightharpoonup> nat) \<times> string list) \<times> nat \<times> string list" where
  "drain edges 0 st processed batch = (st, processed, batch)"
| "drain edges (Suc n) (indegree, []) processed batch = drain edges n (indegree, []) processed batch"
| "drain edges (Suc n) (indegree, node # queue) processed batch =
     drain edges n
       (case edges node of None \<Rightarrow> (indegree, queue) | Some children \<Rightarrow> release children (indegree, queue))
       (processed + 1) (batch @ [node])"

definition batch_step :: "(string \<rightharpoonup> string list) \<Rightarrow> kahn \<Rightarrow> kahn" where
  "batch_step edges k =
     (let ((indegree, queue), processed, batch) =
            drain edges (length (k_queue k)) (k_indegree k, k_queue k) (k_processed k) []
      in \<lparr>k_indegree = indegree, k_queue = queue, k_order = k_order k @ [batch], k_processed = processed\<rparr>)"

partial_function (option) kahn_loop :: "(string \<rightharpoonup> string list) \<Rightarrow> kahn \<Rightarrow> kahn option" where
  [code]: "kahn_loop edges k = (if k_queue k = [] then Some k else kahn_loop edges (batch_step edges k))"

definition initial_indegree :: "services \<Rightarrow> string \<rightharpoonup> nat" where
  "initial_indegree svcs = map_of (map (\<lambda>(name, _). (name, 0)) svcs)"

definition from_compose :: "services \<Rightarrow> string list \<Rightarrow> (compose_error + string list list) option" where
  "from_compose svcs keys =
     (case add_services (fst ` set svcs) svcs \<lparr>g_indegree = initial_indegree svcs, g_edges = Map.empty\<rparr> of
        Inl e \<Rightarrow> Some (Inl e)
      | Inr g \<Rightarrow>
          map_option
            (\<lambda>k. if k_processed k \<noteq> card (dom (k_indegree k)) then Inl cyclic_dependencies else Inr (k_order k))
            (kahn_loop (\<lambda>x. g_edges g x)
              \<lparr>k_indegree = g_indegree g, k_queue = filter (\<lambda>name. g_indegree g name = Some 0) keys,
               k_order = [], k_processed = 0\<rparr>))"

section \<open>The edges that are built\<close>

definition known_deps :: "string set \<Rightarrow> depends_on option \<Rightarrow> string list" where
  "known_deps known d = (case d of None \<Rightarrow> [] | Some d \<Rightarrow> filter (\<lambda>dep. dep \<in> known) (depends_iter d))"

definition edge_list :: "services \<Rightarrow> (string \<times> string) list" where
  "edge_list svcs = concat (map (\<lambda>(name, d). map (\<lambda>dep. (dep, name)) (known_deps (fst ` set svcs) d)) svcs)"

definition missing :: "services \<Rightarrow> bool" where
  "missing svcs \<longleftrightarrow>
     (\<exists>(name, d) \<in> set svcs. \<exists>d'. d = Some d' \<and>
        (\<exists>dep \<in> set (depends_iter d'). dep \<notin> fst ` set svcs \<and> is_required d' dep))"

definition with_edges :: "(string \<times> string) list \<Rightarrow> graph_build \<Rightarrow> graph_build" where
  "with_edges es g = fold (\<lambda>(dep, name). add_edge name dep) es g"

lemma add_dependencies_eq:
  "add_dependencies known name d deps g =
     (case filter (\<lambda>dep. dep \<notin> known \<and> is_required d dep) deps of
        [] \<Rightarrow> Inr (with_edges (map (\<lambda>dep. (dep, name)) (filter (\<lambda>dep. dep \<in> known) deps)) g)
      | dep # _ \<Rightarrow> Inl (unknown_dependency name dep))"
  by (induction deps arbitrary: g) (auto simp: with_edges_def split: list.splits)

lemma add_services_ok:
  assumes "\<forall>(name, d) \<in> set svcs. \<forall>d'. d = Some d' \<longrightarrow>
      (\<forall>dep \<in> set (depends_iter d'). dep \<in> known \<or> \<not> is_required d' dep)"
  shows "add_services known svcs g =
    Inr (with_edges (concat (map (\<lambda>(name, d). map (\<lambda>dep. (dep, name)) (known_deps known d)) svcs)) g)"
  using assms
proof (induction svcs arbitrary: g)
  case (Cons s svcs)
  obtain name d where s: "s = (name, d)" by fastforce
  show ?case
  proof (cases d)
    case (Some d')
    have "filter (\<lambda>dep. dep \<notin> known \<and> is_required d' dep) (depends_iter d') = []"
      using Cons.prems s Some by (auto simp: filter_empty_conv)
    then show ?thesis
      using Cons s Some by (simp add: add_dependencies_eq known_deps_def with_edges_def)
  qed (use Cons s in \<open>simp add: known_deps_def with_edges_def\<close>)
qed (simp add: with_edges_def)

lemma add_services_missing:
  assumes "\<exists>(name, d) \<in> set svcs. \<exists>d'. d = Some d' \<and>
      (\<exists>dep \<in> set (depends_iter d'). dep \<notin> known \<and> is_required d' dep)"
  shows "\<exists>name dep. add_services known svcs g = Inl (unknown_dependency name dep)"
  using assms
proof (induction svcs arbitrary: g)
  case (Cons s svcs)
  obtain name d where s: "s = (name, d)" by fastforce
  let ?bad = "\<lambda>d'. filter (\<lambda>dep. dep \<notin> known \<and> is_required d' dep) (depends_iter d')"
  show ?case
  proof (cases "\<exists>d'. d = Some d' \<and> ?bad d' \<noteq> []")
    case True
    then show ?thesis using s by (force simp: add_dependencies_eq neq_Nil_conv)
  next
    case False
    then have later: "\<exists>(name, d) \<in> set svcs. \<exists>d'. d = Some d' \<and>
      (\<exists>dep \<in> set (depends_iter d'). dep \<notin> known \<and> is_required d' dep)"
      using Cons.prems s by (auto simp: filter_empty_conv)
    then show ?thesis
      using Cons.IH [OF later] False s by (cases d) (auto simp: add_dependencies_eq)
  qed
qed simp

lemma with_edges_indegree:
  "g_indegree g n = Some i \<Longrightarrow>
   g_indegree (with_edges es g) n = Some (i + length (filter (\<lambda>(d, m). m = n) es))"
  by (induction es arbitrary: g i) (auto simp: with_edges_def add_edge_def split: option.splits)

lemma with_edges_dom: "dom (g_indegree (with_edges es g)) = dom (g_indegree g)"
proof (induction es arbitrary: g)
  case (Cons e es)
  then show ?case by (cases e) (auto simp: with_edges_def add_edge_def split: option.splits)
qed (simp add: with_edges_def)

lemma with_edges_edges:
  "(case g_edges (with_edges es g) d of None \<Rightarrow> [] | Some xs \<Rightarrow> xs) =
   (case g_edges g d of None \<Rightarrow> [] | Some xs \<Rightarrow> xs) @ map snd (filter (\<lambda>(x, m). x = d) es)"
  by (induction es arbitrary: g) (auto simp: with_edges_def add_edge_def split: option.splits)

section \<open>Releasing and draining\<close>

text \<open>The edges into \<open>n\<close> whose source is not in \<open>P\<close>, and the targets of \<open>x\<close>.\<close>

definition pending_in :: "(string \<times> string) list \<Rightarrow> string set \<Rightarrow> string \<Rightarrow> nat" where
  "pending_in es P n = length (filter (\<lambda>(d, m). m = n \<and> d \<notin> P) es)"

definition targets :: "(string \<times> string) list \<Rightarrow> string \<Rightarrow> string list" where
  "targets es x = map snd (filter (\<lambda>(d, m). d = x) es)"

lemma pending_in_insert:
  "x \<notin> P \<Longrightarrow> pending_in es P n = pending_in es (insert x P) n + count_list (targets es x) n"
  by (induction es) (auto simp: pending_in_def targets_def)

lemma pending_in_zero: "pending_in es P n = 0 \<longleftrightarrow> (\<forall>d. (d, n) \<in> set es \<longrightarrow> d \<in> P)"
  by (auto simp: pending_in_def filter_empty_conv)

lemma release_spec:
  assumes "\<forall>n \<in> V. ind n = Some (f n + count_list cs n)" and "set cs \<subseteq> V" and "dom ind = V"
  shows "\<exists>ind'. release cs (ind, q) = (ind', q @ filter (\<lambda>n. f n = 0) (remdups cs))
    \<and> (\<forall>n \<in> V. ind' n = Some (f n)) \<and> dom ind' = V"
  using assms
proof (induction cs arbitrary: ind q)
  case (Cons c cs)
  let ?n = "f c + count_list cs c"
  let ?ind = "ind(c \<mapsto> ?n)" and ?q = "if ?n = 0 then q @ [c] else q"
  have c: "ind c = Some (Suc ?n)" using Cons.prems by auto
  then have step: "release (c # cs) (ind, q) = release cs (?ind, ?q)" by simp
  have 1: "\<forall>n \<in> V. ?ind n = Some (f n + count_list cs n)" and 2: "set cs \<subseteq> V" and 3: "dom ?ind = V"
    using Cons.prems by auto
  from Cons.IH [OF 1 2 3, of ?q]
  obtain ind' where r: "release cs (?ind, ?q) = (ind', ?q @ filter (\<lambda>n. f n = 0) (remdups cs))"
    "\<forall>n \<in> V. ind' n = Some (f n)" "dom ind' = V"
    by blast
  have "?q @ filter (\<lambda>n. f n = 0) (remdups cs) = q @ filter (\<lambda>n. f n = 0) (remdups (c # cs))"
    by (auto simp: count_list_0_iff)
  then show ?case using r step by metis
qed auto

text \<open>The state of the traversal after the nodes in \<open>P\<close> were taken from the queue.\<close>

definition traversed ::
  "string set \<Rightarrow> (string \<times> string) list \<Rightarrow> string list \<Rightarrow> (string \<rightharpoonup> nat) \<Rightarrow> string list \<Rightarrow> bool" where
  "traversed V es P ind q \<longleftrightarrow> distinct (P @ q) \<and> dom ind = V
     \<and> (\<forall>n \<in> V. ind n = Some (pending_in es (set P) n))
     \<and> set (P @ q) = {n \<in> V. pending_in es (set P) n = 0}"

lemma traversed_step:
  assumes t: "traversed V es P ind (x # q)" and es: "\<forall>(d, n) \<in> set es. n \<in> V"
  obtains ind' new where "release (targets es x) (ind, q) = (ind', q @ new)" and "traversed V es (P @ [x]) ind' (q @ new)"
proof -
  let ?f = "pending_in es (insert x (set P))" and ?cs = "targets es x"
  let ?new = "filter (\<lambda>n. ?f n = 0) (remdups ?cs)"
  have x: "x \<notin> set P" "x \<notin> set q" and ready: "set (P @ x # q) = {n \<in> V. pending_in es (set P) n = 0}"
    and d: "distinct (P @ x # q)" and dom: "dom ind = V"
    using t by (auto simp: traversed_def)
  have split: "pending_in es (set P) n = ?f n + count_list ?cs n" for n
    using x(1) by (rule pending_in_insert)
  have cs: "set ?cs \<subseteq> V" using es by (auto simp: targets_def)
  have "\<forall>n \<in> V. ind n = Some (?f n + count_list ?cs n)"
    using t split by (auto simp: traversed_def)
  from release_spec [OF this cs dom, of q]
  obtain ind' where r: "release ?cs (ind, q) = (ind', q @ ?new)" "\<forall>n \<in> V. ind' n = Some (?f n)" "dom ind' = V" by auto
  have old: "n \<notin> set ?cs" if "n \<in> set (P @ x # q)" for n
  proof -
    have "pending_in es (set P) n = 0" using that ready by blast
    then show ?thesis using split [of n] by (simp add: count_list_0_iff)
  qed
  have "set (P @ x # q @ ?new) = {n \<in> V. ?f n = 0}"
  proof -
    have "n \<in> set (P @ x # q) \<or> n \<in> set ?cs \<and> ?f n = 0" if "n \<in> V" "?f n = 0" for n
    proof (cases "n \<in> set ?cs")
      case False
      then have "pending_in es (set P) n = 0" using split [of n] that by (simp add: count_list_0_iff)
      then show ?thesis using ready that by blast
    qed (use that in simp)
    moreover have "n \<in> V \<and> ?f n = 0" if "n \<in> set (P @ x # q)" for n
    proof -
      have "n \<in> V" "pending_in es (set P) n = 0" using that ready by blast+
      then show ?thesis using split [of n] by simp
    qed
    ultimately show ?thesis using cs by auto
  qed
  moreover have "distinct (P @ x # q @ ?new)" using d old by auto
  ultimately have "traversed V es (P @ [x]) ind' (q @ ?new)"
    using r by (simp add: traversed_def)
  then show ?thesis using that r by blast
qed

lemma drain_spec:
  assumes es: "\<forall>(d, n) \<in> set es. n \<in> V"
    and edges: "\<And>x. (case edges x of None \<Rightarrow> [] | Some cs \<Rightarrow> cs) = targets es x"
  shows "traversed V es P ind q \<Longrightarrow> n \<le> length q \<Longrightarrow>
    \<exists>ind' new. drain edges n (ind, q) pr batch = ((ind', drop n q @ new), pr + n, batch @ take n q)
      \<and> traversed V es (P @ take n q) ind' (drop n q @ new)"
proof (induction n arbitrary: P ind q pr batch)
  case (Suc n)
  then obtain x r where q: "q = x # r" by (cases q) auto
  obtain ind1 new1 where r1: "release (targets es x) (ind, r) = (ind1, r @ new1)"
    and t1: "traversed V es (P @ [x]) ind1 (r @ new1)"
    using traversed_step [OF _ es] Suc.prems(1) q by blast
  have "(case edges x of None \<Rightarrow> (ind, r) | Some children \<Rightarrow> release children (ind, r)) = (ind1, r @ new1)"
    using r1 edges [of x] by (auto split: option.splits)
  then have step: "drain edges (Suc n) (ind, q) pr batch = drain edges n (ind1, r @ new1) (pr + 1) (batch @ [x])"
    by (simp add: q)
  obtain ind' new where d: "drain edges n (ind1, r @ new1) (pr + 1) (batch @ [x]) =
      ((ind', drop n (r @ new1) @ new), pr + 1 + n, (batch @ [x]) @ take n (r @ new1))"
    and t: "traversed V es ((P @ [x]) @ take n (r @ new1)) ind' (drop n (r @ new1) @ new)"
    using Suc.IH [OF t1, of "pr + 1" "batch @ [x]"] Suc.prems(2) q by auto
  show ?case
    using step d t Suc.prems(2) q by (intro exI [of _ ind'] exI [of _ "new1 @ new"]) simp
qed simp

section \<open>The loop\<close>

definition batches_ordered :: "(string \<times> string) set \<Rightarrow> string list list \<Rightarrow> bool" where
  "batches_ordered E order \<longleftrightarrow>
     (\<forall>i < length order. \<forall>n \<in> set (order ! i). \<forall>d. (d, n) \<in> E \<longrightarrow> (\<exists>j < i. d \<in> set (order ! j)))"

definition kahn_inv :: "string set \<Rightarrow> (string \<times> string) list \<Rightarrow> kahn \<Rightarrow> bool" where
  "kahn_inv V es k \<longleftrightarrow> traversed V es (concat (k_order k)) (k_indegree k) (k_queue k)
     \<and> k_processed k = length (concat (k_order k)) \<and> batches_ordered (set es) (k_order k)"

lemma batches_ordered_snoc:
  assumes "batches_ordered E order" and "\<forall>n \<in> set b. \<forall>d. (d, n) \<in> E \<longrightarrow> d \<in> set (concat order)"
  shows "batches_ordered E (order @ [b])"
  unfolding batches_ordered_def
proof (intro allI ballI impI)
  fix i n d
  assume i: "i < length (order @ [b])" and n: "n \<in> set ((order @ [b]) ! i)" and e: "(d, n) \<in> E"
  show "\<exists>j < i. d \<in> set ((order @ [b]) ! j)"
  proof (cases "i < length order")
    case True
    then have "n \<in> set (order ! i)" using n by (simp add: nth_append)
    then obtain j where "j < i" "d \<in> set (order ! j)"
      using assms(1) True e unfolding batches_ordered_def by blast
    then show ?thesis using True by (intro exI [of _ j]) (simp add: nth_append)
  next
    case False
    then have "i = length order" using i by simp
    then have "n \<in> set b" using n by simp
    then obtain xs where "xs \<in> set order" "d \<in> set xs" using assms(2) e by auto
    then obtain j where "j < length order" "d \<in> set (order ! j)" by (metis in_set_conv_nth)
    then show ?thesis using \<open>i = length order\<close> by (intro exI [of _ j]) (simp add: nth_append)
  qed
qed

lemma batch_step_inv:
  assumes es: "\<forall>(d, n) \<in> set es. n \<in> V"
    and edges: "\<And>x. (case edges x of None \<Rightarrow> [] | Some cs \<Rightarrow> cs) = targets es x"
    and inv: "kahn_inv V es k"
  shows "kahn_inv V es (batch_step edges k)" "k_order (batch_step edges k) = k_order k @ [k_queue k]"
proof -
  let ?P = "concat (k_order k)" and ?q = "k_queue k"
  have t: "traversed V es ?P (k_indegree k) ?q" using inv by (simp add: kahn_inv_def)
  obtain ind' new where d: "drain edges (length ?q) (k_indegree k, ?q) (k_processed k) [] =
      ((ind', new), k_processed k + length ?q, ?q)" and t': "traversed V es (?P @ ?q) ind' new"
    using drain_spec [OF es edges t, of "length ?q" "k_processed k" "[]"] by auto
  then have b: "batch_step edges k =
      \<lparr>k_indegree = ind', k_queue = new, k_order = k_order k @ [?q], k_processed = k_processed k + length ?q\<rparr>"
    by (simp add: batch_step_def)
  have "\<forall>n \<in> set ?q. \<forall>d. (d, n) \<in> set es \<longrightarrow> d \<in> set ?P"
    using t by (auto simp: traversed_def pending_in_zero)
  then show "kahn_inv V es (batch_step edges k)" "k_order (batch_step edges k) = k_order k @ [?q]"
    using t' inv batches_ordered_snoc [of "set es" "k_order k" ?q] by (simp_all add: b kahn_inv_def)
qed

lemma traversed_length:
  assumes "traversed V es P ind q" and "finite V"
  shows "length P + length q \<le> card V"
proof -
  have "distinct (P @ q)" using assms(1) by (simp add: traversed_def)
  then have "length (P @ q) = card (set (P @ q))" by (rule distinct_card [symmetric])
  also have "\<dots> \<le> card V" using assms by (intro card_mono) (auto simp: traversed_def)
  finally show ?thesis by simp
qed

lemma kahn_loop_returns:
  assumes es: "\<forall>(d, n) \<in> set es. n \<in> V"
    and edges: "\<And>x. (case edges x of None \<Rightarrow> [] | Some cs \<Rightarrow> cs) = targets es x"
    and fin: "finite V" and inv: "kahn_inv V es k"
  shows "\<exists>k'. kahn_loop edges k = Some k' \<and> kahn_inv V es k' \<and> k_queue k' = []"
  using inv
proof (induction "card V - length (concat (k_order k))" arbitrary: k rule: less_induct)
  case less
  show ?case
  proof (cases "k_queue k = []")
    case True
    then show ?thesis using less.prems by (simp add: kahn_loop.simps)
  next
    case False
    note step = batch_step_inv [OF es edges less.prems]
    have "length (concat (k_order k)) + length (k_queue k) \<le> card V"
      using less.prems traversed_length [OF _ fin] by (auto simp: kahn_inv_def)
    then have "card V - length (concat (k_order (batch_step edges k))) < card V - length (concat (k_order k))"
      using False step(2) by (cases "k_queue k") simp_all
    from less.hyps [OF this step(1)] show ?thesis using False by (simp add: kahn_loop.simps [of edges k])
  qed
qed

section \<open>The whole computation\<close>

lemma edge_list_names:
  assumes "(d, n) \<in> set (edge_list svcs)"
  shows "d \<in> fst ` set svcs" "n \<in> fst ` set svcs"
  using assms by (auto simp: edge_list_def known_deps_def split: option.splits) (metis fst_conv image_eqI)+

lemma initial_indegree_eq: "initial_indegree svcs n = (if n \<in> fst ` set svcs then Some 0 else None)"
  by (induction svcs) (auto simp: initial_indegree_def)

text \<open>What the loop ends with, when no required service is missing.\<close>

lemma from_compose_loop:
  assumes keys: "distinct keys" "set keys = fst ` set svcs" and ok: "\<not> missing svcs"
  obtains k where "kahn_inv (fst ` set svcs) (edge_list svcs) k" and "k_queue k = []"
    and "from_compose svcs keys =
      Some (if k_processed k \<noteq> card (fst ` set svcs) then Inl cyclic_dependencies else Inr (k_order k))"
proof -
  let ?V = "fst ` set svcs" and ?es = "edge_list svcs"
  let ?start = "\<lparr>g_indegree = initial_indegree svcs, g_edges = Map.empty\<rparr>"
  let ?g = "with_edges ?es ?start"
  let ?k = "\<lparr>k_indegree = g_indegree ?g, k_queue = filter (\<lambda>name. g_indegree ?g name = Some 0) keys,
             k_order = [], k_processed = 0\<rparr>"
  have g: "add_services ?V svcs ?start = Inr ?g"
    unfolding edge_list_def using ok by (intro add_services_ok) (fastforce simp: missing_def)
  have es: "\<forall>(d, n) \<in> set ?es. n \<in> ?V" using edge_list_names by blast
  have edges: "(case g_edges ?g x of None \<Rightarrow> [] | Some cs \<Rightarrow> cs) = targets ?es x" for x
    using with_edges_edges [of ?es ?start x] by (simp add: targets_def)
  have ind: "g_indegree ?g n = Some (pending_in ?es {} n)" if "n \<in> ?V" for n
    using that with_edges_indegree [of ?start n 0 ?es] by (simp add: initial_indegree_eq pending_in_def)
  have dom: "dom (g_indegree ?g) = ?V"
    unfolding with_edges_dom by (force simp: initial_indegree_eq dom_def split: if_splits)
  have "filter (\<lambda>name. g_indegree ?g name = Some 0) keys = filter (\<lambda>n. pending_in ?es {} n = 0) keys"
    using keys(2) ind by (intro filter_cong) simp_all
  then have "kahn_inv ?V ?es ?k"
    using keys ind dom by (simp add: kahn_inv_def traversed_def batches_ordered_def)
  from kahn_loop_returns [OF es edges _ this]
  obtain k' where k': "kahn_loop (g_edges ?g) ?k = Some k'" "kahn_inv ?V ?es k'" "k_queue k' = []" by auto
  have "from_compose svcs keys = Some (if k_processed k' \<noteq> card (dom (k_indegree k')) then Inl cyclic_dependencies
      else Inr (k_order k'))"
    using g k'(1) by (simp add: from_compose_def)
  moreover have "dom (k_indegree k') = ?V" using k'(2) by (simp add: kahn_inv_def traversed_def)
  ultimately show ?thesis using that k' by simp
qed

lemma all_processed_iff:
  assumes inv: "kahn_inv V es k" and q: "k_queue k = []" and fin: "finite V"
    and es: "\<forall>(d, n) \<in> set es. d \<in> V \<and> n \<in> V"
  shows "k_processed k = card V \<longleftrightarrow> set (concat (k_order k)) = V"
    "k_processed k = card V \<longleftrightarrow> acyclic (set es)"
proof -
  let ?P = "concat (k_order k)"
  have t: "distinct ?P" "set ?P = {n \<in> V. pending_in es (set ?P) n = 0}"
    and ordered: "batches_ordered (set es) (k_order k)" and len: "k_processed k = length ?P"
    using inv q by (simp_all add: kahn_inv_def traversed_def)
  have p: "k_processed k = card (set ?P)" using len distinct_card [OF t(1)] by simp
  have sub: "set ?P \<subseteq> V" using t by blast
  show all: "k_processed k = card V \<longleftrightarrow> set ?P = V"
    using p sub fin by (auto dest: card_subset_eq)
  show "k_processed k = card V \<longleftrightarrow> acyclic (set es)"
  proof
    assume "k_processed k = card V"
    then have V: "set ?P = V" using all by simp
    define rank where "rank n = (LEAST i. i < length (k_order k) \<and> n \<in> set (k_order k ! i))" for n
    have "rank d < rank n" if e: "(d, n) \<in> set es" for d n
    proof -
      have "n \<in> set ?P" using V es e by blast
      then obtain xs where "xs \<in> set (k_order k)" "n \<in> set xs" by auto
      then obtain i where "i < length (k_order k)" "n \<in> set (k_order k ! i)" by (metis in_set_conv_nth)
      then have r: "rank n < length (k_order k)" "n \<in> set (k_order k ! rank n)"
        unfolding rank_def by (metis (mono_tags, lifting) LeastI)+
      then obtain j where "j < rank n" "d \<in> set (k_order k ! j)"
        using ordered e unfolding batches_ordered_def by blast
      then show ?thesis using r(1) Least_le [of "\<lambda>i. i < length (k_order k) \<and> d \<in> set (k_order k ! i)" j]
        by (simp add: rank_def)
    qed
    then have "set es \<subseteq> measure rank" by auto
    then show "acyclic (set es)" using wf_measure wf_subset wf_acyclic by blast
  next
    assume "acyclic (set es)"
    then have wf: "wf (set es)" by (simp add: finite_acyclic_wf)
    have "V \<subseteq> set ?P"
    proof (rule ccontr)
      assume "\<not> V \<subseteq> set ?P"
      then obtain n where n: "n \<in> V - set ?P" "\<And>d. (d, n) \<in> set es \<Longrightarrow> d \<notin> V - set ?P"
        using wf [unfolded wf_eq_minimal, rule_format, of _ "V - set ?P"] by blast
      then have "pending_in es (set ?P) n = 0" using es by (auto simp: pending_in_zero)
      then show False using n(1) t(2) by blast
    qed
    then show "k_processed k = card V" using all sub by blast
  qed
qed

section \<open>Properties\<close>

lemma missing_rejected:
  "missing svcs \<Longrightarrow> \<exists>name dep. from_compose svcs keys = Some (Inl (unknown_dependency name dep))"
  using add_services_missing [of svcs "fst ` set svcs" "\<lparr>g_indegree = initial_indegree svcs, g_edges = Map.empty\<rparr>"]
  unfolding missing_def from_compose_def by force

text \<open>
  The computation of the startup order returns, for every set of services and whatever order the
  hash maps are traversed in: the loop over the queue ends also when the dependencies are cyclic,
  when a service depends on itself and when a dependency is listed twice.
\<close>

theorem startup_order_returns:
  assumes "distinct keys" and "set keys = fst ` set svcs"
  shows "\<exists>r. from_compose svcs keys = Some r"
  using missing_rejected from_compose_loop [OF assms] by (cases "missing svcs") blast+

theorem startup_order_returns_witness:
  "\<exists>r. from_compose [(''a'', Some (SimpleDeps [''b''])), (''b'', Some (SimpleDeps [''a'']))] [''b'', ''a''] = Some r"
  by (rule startup_order_returns) auto

text \<open>C21.
  The startup order is correct and complete.  A required dependency on an unknown service is
  reported as such; otherwise the services are ordered exactly when their dependencies have no
  cycle, and a cycle is reported.  An order contains every service exactly once, and each
  service comes in a later batch than all the services it depends on.
\<close>

theorem startup_order_correct:
  assumes keys: "distinct keys" "set keys = fst ` set svcs"
  shows "(missing svcs \<longrightarrow> (\<exists>name dep. from_compose svcs keys = Some (Inl (unknown_dependency name dep))))
    \<and> (\<not> missing svcs \<and> \<not> acyclic (set (edge_list svcs)) \<longrightarrow> from_compose svcs keys = Some (Inl cyclic_dependencies))
    \<and> (\<not> missing svcs \<and> acyclic (set (edge_list svcs)) \<longrightarrow>
        (\<exists>order. from_compose svcs keys = Some (Inr order) \<and> distinct (concat order)
          \<and> set (concat order) = fst ` set svcs \<and> batches_ordered (set (edge_list svcs)) order))"
proof (cases "missing svcs")
  case True
  then show ?thesis using missing_rejected by blast
next
  case False
  obtain k where k: "kahn_inv (fst ` set svcs) (edge_list svcs) k" "k_queue k = []"
    and r: "from_compose svcs keys =
      Some (if k_processed k \<noteq> card (fst ` set svcs) then Inl cyclic_dependencies else Inr (k_order k))"
    using from_compose_loop [OF keys False] by blast
  have "\<forall>(d, n) \<in> set (edge_list svcs). d \<in> fst ` set svcs \<and> n \<in> fst ` set svcs"
    using edge_list_names by blast
  note all = all_processed_iff [OF k _ this]
  have "distinct (concat (k_order k))" "batches_ordered (set (edge_list svcs)) (k_order k)"
    using k by (auto simp: kahn_inv_def traversed_def)
  then show ?thesis using False r all by auto
qed

theorem startup_order_correct_witness:
  "\<exists>order. from_compose [(''web'', Some (SimpleDeps [''db''])), (''db'', None)] [''web'', ''db''] = Some (Inr order)
    \<and> batches_ordered {(''db'', ''web'')} order"
proof -
  let ?s = "[(''web'', Some (SimpleDeps [''db''])), (''db'', None)]"
  have "\<not> missing ?s" by (simp add: missing_def)
  moreover have e: "set (edge_list ?s) = {(''db'', ''web'')}" by (simp add: edge_list_def known_deps_def)
  moreover have "acyclic {(''db'', ''web'')}" by (simp add: acyclic_def trancl_insert)
  ultimately show ?thesis
    using startup_order_correct [of "[''web'', ''db'']" ?s] by auto
qed

end
