(* ===== verification/Rust_Text.thy ===== *)
theory Rust_Text
  imports Prelude
begin

text \<open>
  The string functions of the standard library that the authorization code uses.  A \<open>String\<close> is
  the list of its UTF-8 bytes, a \<open>string\<close> of HOL: \<open>len\<close> and slices of the source count bytes.

  \<^item> \<open>from_utf8\<close>: the validity check of \<open>std::str::from_utf8\<close> (well-formed sequences of Unicode,
    table 3-7: no overlong forms, no surrogates, at most U+10FFFF);
  \<^item> \<open>trim_is_empty\<close>: whether \<open>trim\<close> leaves nothing, with the white space of Unicode;
  \<^item> \<open>str_lines\<close>, \<open>rsplit_once\<close>, \<open>strip_prefix\<close>, \<open>remove_char\<close>: \<open>lines\<close>, \<open>rsplit_once\<close>,
    \<open>strip_prefix\<close> and \<open>replace\<close> of a character by the empty string;
  \<^item> \<open>decimal\<close>, \<open>hex_byte\<close>: the formats of \<open>to_string\<close> and of \<open>02x\<close>.
\<close>

section \<open>Characters\<close>

definition char_code :: "char \<Rightarrow> nat" where
  "char_code c = of_char c"

definition is_ascii_hexdigit :: "char \<Rightarrow> bool" where
  "is_ascii_hexdigit c \<longleftrightarrow>
     48 \<le> char_code c \<and> char_code c \<le> 57 \<or> 65 \<le> char_code c \<and> char_code c \<le> 70
     \<or> 97 \<le> char_code c \<and> char_code c \<le> 102"

definition hex_digit :: "nat \<Rightarrow> char" where
  "hex_digit n = (if n < 10 then char_of (48 + n) else char_of (87 + n))"

definition hex_byte :: "byte \<Rightarrow> string" where
  "hex_byte b = [hex_digit (unat b div 16), hex_digit (unat b mod 16)]"

fun decimal :: "nat \<Rightarrow> string" where
  "decimal n = (if n < 10 then [char_of (48 + n)] else decimal (n div 10) @ [char_of (48 + n mod 10)])"

declare decimal.simps [simp del]

lemma char_code_char_of: "n < 256 \<Longrightarrow> char_code (char_of n) = n"
  by (simp add: char_code_def of_char_of)

lemma hex_digit_hex [simp]: "n < 16 \<Longrightarrow> is_ascii_hexdigit (hex_digit n)"
  by (auto simp: hex_digit_def is_ascii_hexdigit_def char_code_char_of)

lemma hex_byte_hex: "c \<in> set (hex_byte b) \<Longrightarrow> is_ascii_hexdigit c"
proof -
  assume "c \<in> set (hex_byte b)"
  moreover have "unat b div 16 < 16" "unat b mod 16 < 16"
    using unat_byte_less [of b] by auto
  ultimately show ?thesis by (auto simp: hex_byte_def)
qed

lemma length_hex_byte [simp]: "length (hex_byte b) = 2"
  by (simp add: hex_byte_def)

lemma dash_not_hex [simp]: "\<not> is_ascii_hexdigit CHR ''-''"
  by (simp add: is_ascii_hexdigit_def char_code_def)

section \<open>UTF-8\<close>

definition str_of :: "bytes \<Rightarrow> string" where
  "str_of bs = map (\<lambda>b. char_of (unat b)) bs"

definition continuation :: "byte \<Rightarrow> bool" where
  "continuation b \<longleftrightarrow> 0x80 \<le> b \<and> b \<le> 0xBF"

fun utf8_valid :: "bytes \<Rightarrow> bool" where
  "utf8_valid [] = True"
| "utf8_valid (a # bs) =
     (if a \<le> 0x7F then utf8_valid bs
      else if 0xC2 \<le> a \<and> a \<le> 0xDF then
        (case bs of b # r \<Rightarrow> continuation b \<and> utf8_valid r | _ \<Rightarrow> False)
      else if 0xE0 \<le> a \<and> a \<le> 0xEF then
        (case bs of
           b # c # r \<Rightarrow>
             (if a = 0xE0 then 0xA0 \<le> b \<and> b \<le> 0xBF
              else if a = 0xED then 0x80 \<le> b \<and> b \<le> 0x9F
              else continuation b)
             \<and> continuation c \<and> utf8_valid r
         | _ \<Rightarrow> False)
      else if 0xF0 \<le> a \<and> a \<le> 0xF4 then
        (case bs of
           b # c # d # r \<Rightarrow>
             (if a = 0xF0 then 0x90 \<le> b \<and> b \<le> 0xBF
              else if a = 0xF4 then 0x80 \<le> b \<and> b \<le> 0x8F
              else continuation b)
             \<and> continuation c \<and> continuation d \<and> utf8_valid r
         | _ \<Rightarrow> False)
      else False)"

definition from_utf8 :: "bytes \<Rightarrow> string option" where
  "from_utf8 bs = (if utf8_valid bs then Some (str_of bs) else None)"

lemma str_of_bstr [simp]: "str_of (bstr s) = s"
  by (simp add: str_of_def bstr_def comp_def unat_byte_of_nat)

lemma bstr_str_of [simp]: "bstr (str_of bs) = bs"
proof -
  have "of_nat (of_char (char_of (unat b) :: char)) = b" for b :: byte
    using unat_byte_less [of b] by simp
  then show ?thesis by (simp add: str_of_def bstr_def comp_def)
qed

lemma bstr_inject [simp]: "bstr a = bstr b \<longleftrightarrow> a = b"
  by (metis str_of_bstr)

lemma bstr_append [simp]: "bstr (a @ b) = bstr a @ bstr b"
  by (simp add: bstr_def)

lemma length_str_of [simp]: "length (str_of bs) = length bs"
  by (simp add: str_of_def)

lemma from_utf8_eq: "from_utf8 bs = Some s \<longleftrightarrow> utf8_valid bs \<and> bs = bstr s"
  by (auto simp: from_utf8_def)

section \<open>White space\<close>

text \<open>
  \<open>s.trim().is_empty()\<close>: every character of \<open>s\<close> has the property \<open>White_Space\<close> of Unicode, here
  over the UTF-8 bytes (U+0009--U+000D, U+0020, U+0085, U+00A0, U+1680, U+2000--U+200A, U+2028,
  U+2029, U+202F, U+205F, U+3000).
\<close>

fun trim_is_empty :: "string \<Rightarrow> bool" where
  "trim_is_empty [] = True"
| "trim_is_empty (a # s) =
     (if 9 \<le> char_code a \<and> char_code a \<le> 13 \<or> char_code a = 32 then trim_is_empty s
      else if char_code a = 0xC2 then
        (case s of b # r \<Rightarrow> (char_code b = 0x85 \<or> char_code b = 0xA0) \<and> trim_is_empty r | _ \<Rightarrow> False)
      else if char_code a = 0xE1 then
        (case s of b # c # r \<Rightarrow> char_code b = 0x9A \<and> char_code c = 0x80 \<and> trim_is_empty r | _ \<Rightarrow> False)
      else if char_code a = 0xE2 then
        (case s of
           b # c # r \<Rightarrow>
             (char_code b = 0x80 \<and>
                (0x80 \<le> char_code c \<and> char_code c \<le> 0x8A
                 \<or> char_code c = 0xA8 \<or> char_code c = 0xA9 \<or> char_code c = 0xAF)
              \<or> char_code b = 0x81 \<and> char_code c = 0x9F)
             \<and> trim_is_empty r
         | _ \<Rightarrow> False)
      else if char_code a = 0xE3 then
        (case s of b # c # r \<Rightarrow> char_code b = 0x80 \<and> char_code c = 0x80 \<and> trim_is_empty r | _ \<Rightarrow> False)
      else False)"

section \<open>Searching and splitting\<close>

definition newline :: char where "newline = char_of (10 :: nat)"
definition carriage_return :: char where "carriage_return = char_of (13 :: nat)"

fun split_inclusive :: "string \<Rightarrow> string list" where
  "split_inclusive [] = []"
| "split_inclusive (c # cs) =
     (if c = newline then [c] # split_inclusive cs
      else (case split_inclusive cs of [] \<Rightarrow> [[c]] | l # ls \<Rightarrow> (c # l) # ls))"

definition strip_suffix_char :: "char \<Rightarrow> string \<Rightarrow> string option" where
  "strip_suffix_char c s = (if s \<noteq> [] \<and> last s = c then Some (butlast s) else None)"

definition strip_line :: "string \<Rightarrow> string" where
  "strip_line l =
     (case strip_suffix_char newline l of
        None \<Rightarrow> l
      | Some l' \<Rightarrow> (case strip_suffix_char carriage_return l' of None \<Rightarrow> l' | Some l'' \<Rightarrow> l''))"

definition str_lines :: "string \<Rightarrow> string list" where
  "str_lines s = map strip_line (split_inclusive s)"

definition remove_char :: "char \<Rightarrow> string \<Rightarrow> string" where
  "remove_char c s = filter (\<lambda>x. x \<noteq> c) s"

definition strip_prefix :: "string \<Rightarrow> string \<Rightarrow> string option" where
  "strip_prefix p s = (if take (length p) s = p then Some (drop (length p) s) else None)"

definition rsplit_once :: "char \<Rightarrow> string \<Rightarrow> (string \<times> string) option" where
  "rsplit_once c s =
     (if c \<in> set s
      then Some (rev (tl (dropWhile (\<lambda>x. x \<noteq> c) (rev s))), rev (takeWhile (\<lambda>x. x \<noteq> c) (rev s)))
      else None)"

text \<open>The part before the first occurrence: \<open>split(c).next()\<close>.\<close>

definition before_char :: "char \<Rightarrow> string \<Rightarrow> string" where
  "before_char c s = takeWhile (\<lambda>x. x \<noteq> c) s"

lemma strip_prefix_eq: "strip_prefix p s = Some t \<longleftrightarrow> s = p @ t"
proof
  assume "strip_prefix p s = Some t"
  then have "take (length p) s = p" "drop (length p) s = t"
    by (auto simp: strip_prefix_def split: if_splits)
  then show "s = p @ t" using append_take_drop_id [of "length p" s] by simp
qed (simp add: strip_prefix_def)

lemma rsplit_once_eq: "rsplit_once c s = Some (a, b) \<longleftrightarrow> s = a @ c # b \<and> c \<notin> set b"
proof
  assume r: "rsplit_once c s = Some (a, b)"
  then have mem: "c \<in> set s" and a: "a = rev (tl (dropWhile (\<lambda>x. x \<noteq> c) (rev s)))"
    and b: "b = rev (takeWhile (\<lambda>x. x \<noteq> c) (rev s))"
    by (auto simp: rsplit_once_def split: if_splits)
  have "c \<notin> set b" unfolding b using set_takeWhileD by fastforce
  moreover have "dropWhile (\<lambda>x. x \<noteq> c) (rev s) = c # rev a"
  proof -
    have "dropWhile (\<lambda>x. x \<noteq> c) (rev s) \<noteq> []" using mem by (auto simp: dropWhile_eq_Nil_conv)
    then show ?thesis using hd_dropWhile [of "\<lambda>x. x \<noteq> c" "rev s"]
      by (cases "dropWhile (\<lambda>x. x \<noteq> c) (rev s)") (auto simp: a)
  qed
  then have "rev s = rev b @ c # rev a"
    using takeWhile_dropWhile_id [of "\<lambda>x. x \<noteq> c" "rev s"] by (simp add: b)
  then have "s = rev (rev b @ c # rev a)" by (metis rev_rev_ident)
  ultimately show "s = a @ c # b \<and> c \<notin> set b" by simp
next
  assume "s = a @ c # b \<and> c \<notin> set b"
  then have "takeWhile (\<lambda>x. x \<noteq> c) (rev s) = rev b" "dropWhile (\<lambda>x. x \<noteq> c) (rev s) = c # rev a" "c \<in> set s"
    by (auto simp: takeWhile_append dropWhile_append)
  then show "rsplit_once c s = Some (a, b)" by (simp add: rsplit_once_def)
qed

end
