(* ===== verification/Authorization.thy ===== *)
theory Authorization
  imports Rust_Text Witness_Record
begin

text \<open>
  Authorization requests and the native policy: \<open>src/ferro-core/src/authorization.rs\<close>.

  The identity of the connected process (\<open>TransportPrincipal\<close>) is a type variable; whether it can
  still be confirmed is read from the kernel by \<open>revalidate_for_execution\<close>, a parameter of
  \<open>revalidate_transport\<close>.  SHA-256 is the parameter \<open>sha\<close>.

  The lemmas compare the decision function with an access matrix and relate the three rollout
  modes.
\<close>

section \<open>Vocabulary\<close>

datatype auth_action =
    Act_ContainerCreate | Act_ContainerRun | Act_ContainerExec | Act_ContainerPause
  | Act_ContainerResume | Act_ContainerStop | Act_ContainerKill | Act_ContainerRestart
  | Act_ContainerStart | Act_ContainerDelete | Act_ContainerRename | Act_ContainerUpdate
  | Act_ContainerArchiveWrite | Act_ImagePull | Act_ImageDelete | Act_ImageBuild | Act_ImageTag
  | Act_ImageReferenceWrite | Act_VolumeCreate | Act_VolumeDelete | Act_VolumeMount
  | Act_VolumeUnmount | Act_VolumeBackup | Act_VolumeRestore | Act_NetworkCreate
  | Act_NetworkDelete | Act_NetworkAttach | Act_NetworkDetach | Act_DeviceUse
  | Act_PolicyReload | Act_PolicyRollback | Act_CheckpointPublish | Act_CheckpointRecover
  | Act_KeyRotate | Act_RootlessMapping

datatype role = Administrator | Operator | Developer | Auditor | RuntimeCleanup

datatype resource_kind =
    Kind_Container | Kind_Image | Kind_Volume | Kind_Network | Kind_Device | Kind_Policy
  | Kind_Administrative | Kind_RootlessMapping

record resolved_principal =
  rp_id :: string
  rp_role :: role

definition is_host_administrator :: "resolved_principal \<Rightarrow> bool" where
  "is_host_administrator p \<longleftrightarrow> rp_role p = Administrator"

record auth_resource =
  res_kind :: resource_kind
  res_id :: string
  res_owner :: "string option"
  res_generation :: u64

datatype mount_class = MC_ReadOnly | MC_Workspace | MC_PersistentVolume | MC_HostPath | MC_Tmpfs

datatype resource_state = RS_Absent | RS_Created | RS_Running | RS_Paused | RS_Stopped

record request_facts =
  rf_image_digest :: "string option"
  rf_mounts :: "mount_class list"
  rf_network_ids :: "string list"
  rf_requested_capabilities :: "string list"
  rf_privileged :: bool
  rf_device_classes :: "string list"
  rf_lifecycle_state :: "resource_state option"
  rf_readonly_rootfs :: bool
  rf_no_new_privileges :: bool
  rf_mount_sources_approved :: "bool option"
  rf_execution_digest :: "string option"
  rf_parent_resource_id :: "string option"

definition default_facts :: request_facts where
  "default_facts =
     \<lparr>rf_image_digest = None, rf_mounts = [], rf_network_ids = [], rf_requested_capabilities = [],
      rf_privileged = False, rf_device_classes = [], rf_lifecycle_state = None,
      rf_readonly_rootfs = False, rf_no_new_privileges = False, rf_mount_sources_approved = None,
      rf_execution_digest = None, rf_parent_resource_id = None\<rparr>"

section \<open>Children of a Compose request\<close>

record fanout_context =
  fo_parent_request_id :: bytes
  fo_child_id :: bytes
  fo_idempotency_key :: bytes
  fo_expected_action :: auth_action
  fo_expected_resource :: string
  fo_request_digest :: bytes
  fo_deadline_unix_ms :: u64
  fo_policy_generation :: u64
  fo_policy_digest :: bytes
  fo_attempt :: u32
  fo_ordinal :: u32
  fo_plan_digest :: bytes

definition fanout_action_code :: "auth_action \<Rightarrow> byte" where
  "fanout_action_code action =
     (case action of
        Act_ContainerRun \<Rightarrow> 1 | Act_ContainerStop \<Rightarrow> 2 | Act_ContainerDelete \<Rightarrow> 3 | Act_ImagePull \<Rightarrow> 4
      | Act_VolumeCreate \<Rightarrow> 5 | Act_ImageBuild \<Rightarrow> 6 | Act_ImageTag \<Rightarrow> 7
      | Act_ImageReferenceWrite \<Rightarrow> 8 | _ \<Rightarrow> 0)"

text \<open>The idempotency key of a child, and the identity of one attempt at it.\<close>

definition idempotency_input :: "fanout_context \<Rightarrow> bytes" where
  "idempotency_input f =
     bstr ''ferrocrate/compose-idempotency/v1'' @ fo_parent_request_id f @ fo_plan_digest f
     @ u32_to_be (fo_ordinal f) @ [fanout_action_code (fo_expected_action f)]
     @ u64_to_be (of_nat (length (fo_expected_resource f))) @ bstr (fo_expected_resource f)
     @ fo_request_digest f"

definition expected_idempotency_key :: "(bytes \<Rightarrow> bytes) \<Rightarrow> fanout_context \<Rightarrow> bytes" where
  "expected_idempotency_key sha f = sha (idempotency_input f)"

definition expected_child_id :: "(bytes \<Rightarrow> bytes) \<Rightarrow> bytes \<Rightarrow> u32 \<Rightarrow> bytes" where
  "expected_child_id sha key attempt =
     take 16 (sha (bstr ''ferrocrate/compose-child/v1'' @ key @ u32_to_be attempt))"

definition integrity_valid :: "(bytes \<Rightarrow> bytes) \<Rightarrow> fanout_context \<Rightarrow> bool" where
  "integrity_valid sha f \<longleftrightarrow>
     expected_idempotency_key sha f = fo_idempotency_key f
     \<and> expected_child_id sha (expected_idempotency_key sha f) (fo_attempt f) = fo_child_id f"

section \<open>Origin of a request\<close>

record 't request_origin =
  ro_principal :: resolved_principal
  ro_invocation :: invocation
  ro_request_id :: "bytes option"
  ro_parent_request_id :: "bytes option"
  ro_attempt :: u32
  ro_fanout :: "fanout_context option"
  ro_transport :: "'t option"

definition for_operation :: "bytes \<Rightarrow> 't request_origin \<Rightarrow> 't request_origin" where
  "for_operation request_id origin =
     origin\<lparr>ro_request_id := Some request_id, ro_parent_request_id := None, ro_attempt := 0,
            ro_fanout := None\<rparr>"

text \<open>The principal of a local process, by effective uid and user namespace.\<close>

definition linux_principal :: "string \<Rightarrow> u32 \<Rightarrow> u64 \<Rightarrow> bool \<Rightarrow> resolved_principal" where
  "linux_principal boot_id uid userns trusted =
     \<lparr>rp_id = ''linux:'' @ boot_id @ '':uid:'' @ decimal (unat uid) @ '':userns:'' @ decimal (unat userns),
      rp_role = (if uid = 0 \<and> trusted then Administrator else Developer)\<rparr>"

definition cli_current :: "string \<Rightarrow> u32 \<Rightarrow> u64 \<Rightarrow> bool \<Rightarrow> bytes option \<Rightarrow> 't request_origin" where
  "cli_current boot_id uid userns trusted request_id =
     \<lparr>ro_principal = linux_principal boot_id uid userns trusted, ro_invocation = Inv_Cli,
      ro_request_id = request_id, ro_parent_request_id = None, ro_attempt = 0, ro_fanout = None,
      ro_transport = None\<rparr>"

definition transport_origin :: "invocation \<Rightarrow> resolved_principal \<Rightarrow> 't \<Rightarrow> 't request_origin" where
  "transport_origin channel p t =
     \<lparr>ro_principal = p, ro_invocation = channel, ro_request_id = None, ro_parent_request_id = None,
      ro_attempt = 0, ro_fanout = None, ro_transport = Some t\<rparr>"

definition compose_child :: "'t request_origin \<Rightarrow> fanout_context \<Rightarrow> 't request_origin" where
  "compose_child parent f =
     \<lparr>ro_principal = ro_principal parent, ro_invocation = Inv_Compose,
      ro_request_id = Some (fo_child_id f), ro_parent_request_id = Some (fo_parent_request_id f),
      ro_attempt = fo_attempt f, ro_fanout = Some f, ro_transport = ro_transport parent\<rparr>"

definition revalidate_transport :: "('t \<Rightarrow> bool) \<Rightarrow> 't request_origin \<Rightarrow> bool" where
  "revalidate_transport revalidate origin =
     (case ro_transport origin of None \<Rightarrow> True | Some t \<Rightarrow> revalidate t)"

definition fanout_integrity_valid :: "(bytes \<Rightarrow> bytes) \<Rightarrow> 't request_origin \<Rightarrow> bool" where
  "fanout_integrity_valid sha origin =
     (case ro_fanout origin of
        None \<Rightarrow> True
      | Some f \<Rightarrow> integrity_valid sha f \<and> ro_request_id origin = Some (fo_child_id f)
          \<and> ro_parent_request_id origin = Some (fo_parent_request_id f) \<and> ro_attempt origin = fo_attempt f)"

definition fanout_request_digest_matches :: "bytes \<Rightarrow> 't request_origin \<Rightarrow> bool" where
  "fanout_request_digest_matches actual origin =
     (case ro_fanout origin of None \<Rightarrow> True | Some f \<Rightarrow> fo_request_digest f = actual)"

section \<open>Request context\<close>

record request_context =
  rx_request_id :: string
  rx_principal :: "resolved_principal option"
  rx_action :: auth_action
  rx_resource :: auth_resource
  rx_facts :: request_facts
  rx_fanout :: "fanout_context option"

section \<open>Rollout modes\<close>

datatype authorization_mode = AM_Disabled | AM_Shadow | AM_Enforce

record authorization_service_mode =
  sm_mode :: authorization_mode
  sm_policy_digest :: bytes

datatype service_mode_error =
  SM_InvalidMode | SM_MissingPolicyDigest | SM_UnexpectedPolicyDigest | SM_ConfigurationMismatch

definition service_mode_new ::
  "authorization_mode \<Rightarrow> bytes option \<Rightarrow> service_mode_error + authorization_service_mode" where
  "service_mode_new mode digest =
     (case (mode, digest) of
        (AM_Disabled, None) \<Rightarrow> Inr \<lparr>sm_mode = mode, sm_policy_digest = replicate 32 0\<rparr>
      | (AM_Disabled, Some _) \<Rightarrow> Inl SM_UnexpectedPolicyDigest
      | (_, Some d) \<Rightarrow>
          if d \<noteq> replicate 32 0 then Inr \<lparr>sm_mode = mode, sm_policy_digest = d\<rparr>
          else Inl SM_MissingPolicyDigest
      | (_, None) \<Rightarrow> Inl SM_MissingPolicyDigest)"

definition service_mode_parse ::
  "string \<Rightarrow> bytes option \<Rightarrow> service_mode_error + authorization_service_mode" where
  "service_mode_parse mode digest =
     (if mode = ''enforce'' then service_mode_new AM_Enforce digest
      else if mode = ''shadow'' then service_mode_new AM_Shadow digest
      else if mode = ''disabled'' then service_mode_new AM_Disabled digest
      else Inl SM_InvalidMode)"

definition service_policy_digest :: "authorization_service_mode \<Rightarrow> bytes option" where
  "service_policy_digest s = (case sm_mode s of AM_Disabled \<Rightarrow> None | _ \<Rightarrow> Some (sm_policy_digest s))"

definition require_match ::
  "authorization_service_mode \<Rightarrow> authorization_service_mode \<Rightarrow> service_mode_error + unit" where
  "require_match s peer = (if s = peer then Inr () else Inl SM_ConfigurationMismatch)"

section \<open>Decisions\<close>

datatype auth_reason =
    RC_AuthorizationDisabled | RC_ShadowAllowed | RC_RoleAllowed | RC_UnknownPrincipal
  | RC_ResourceOwnerMismatch | RC_PrivilegedContainerDenied | RC_RoleNotAuthorized
  | RC_PolicyAdministrationDenied | RC_CleanupActionDenied | RC_MountSourceDenied
  | RC_EmergencyOverride

record auth_decision =
  ad_allowed :: bool
  ad_reason :: auth_reason
  ad_matched_rule :: string
  ad_policy_generation :: u64
  ad_hypothetical_denial :: "auth_reason option"

record policy_document =
  pd_schema_version :: u32
  pd_generation :: u64
  pd_mode :: authorization_mode

definition is_policy_administration :: "auth_action \<Rightarrow> bool" where
  "is_policy_administration action \<longleftrightarrow> action \<in> {Act_PolicyReload, Act_PolicyRollback}"

definition is_cleanup_action :: "auth_action \<Rightarrow> bool" where
  "is_cleanup_action action \<longleftrightarrow>
     action \<in> {Act_ContainerDelete, Act_VolumeDelete, Act_VolumeUnmount, Act_NetworkDelete, Act_NetworkDetach}"

definition mk_decision ::
  "policy_document \<Rightarrow> bool \<Rightarrow> auth_reason \<Rightarrow> string \<Rightarrow> auth_reason option \<Rightarrow> auth_decision" where
  "mk_decision doc allowed reason rule hypothetical =
     \<lparr>ad_allowed = allowed, ad_reason = reason, ad_matched_rule = rule,
      ad_policy_generation = pd_generation doc, ad_hypothetical_denial = hypothetical\<rparr>"

definition enforced_decision :: "policy_document \<Rightarrow> request_context \<Rightarrow> auth_decision" where
  "enforced_decision doc req =
     (if rf_mount_sources_approved (rx_facts req) = Some False then
        mk_decision doc False RC_MountSourceDenied ''container.mount-source.approved-root'' None
      else
        (case rx_principal req of
           None \<Rightarrow> mk_decision doc False RC_UnknownPrincipal ''principal.unknown'' None
         | Some p \<Rightarrow>
             (case rp_role p of
                Administrator \<Rightarrow> mk_decision doc True RC_RoleAllowed ''role.administrator'' None
              | Operator \<Rightarrow>
                  if is_policy_administration (rx_action req)
                  then mk_decision doc False RC_PolicyAdministrationDenied ''role.operator.no-policy-admin'' None
                  else mk_decision doc True RC_RoleAllowed ''role.operator'' None
              | Developer \<Rightarrow>
                  if rf_privileged (rx_facts req) \<and> rx_action req \<in> {Act_ContainerCreate, Act_ContainerRun}
                  then mk_decision doc False RC_PrivilegedContainerDenied
                         ''role.developer.no-privileged-container'' None
                  else if res_owner (rx_resource req) \<noteq> Some (rp_id p)
                  then mk_decision doc False RC_ResourceOwnerMismatch ''role.developer.owner'' None
                  else if is_policy_administration (rx_action req)
                  then mk_decision doc False RC_PolicyAdministrationDenied ''role.developer.no-policy-admin'' None
                  else mk_decision doc True RC_RoleAllowed ''role.developer.owner'' None
              | Auditor \<Rightarrow> mk_decision doc False RC_RoleNotAuthorized ''role.auditor.read-only'' None
              | RuntimeCleanup \<Rightarrow>
                  if is_cleanup_action (rx_action req)
                  then mk_decision doc True RC_RoleAllowed ''role.runtime-cleanup'' None
                  else mk_decision doc False RC_CleanupActionDenied ''role.runtime-cleanup.deletion-only'' None)))"

definition evaluate :: "policy_document \<Rightarrow> request_context \<Rightarrow> auth_decision" where
  "evaluate doc req =
     (case pd_mode doc of
        AM_Disabled \<Rightarrow> mk_decision doc True RC_AuthorizationDisabled ''compatibility.disabled'' None
      | AM_Shadow \<Rightarrow>
          (let hypothetical = enforced_decision doc req in
           if ad_allowed hypothetical then hypothetical
           else mk_decision doc True RC_ShadowAllowed ''compatibility.shadow'' (Some (ad_reason hypothetical)))
      | AM_Enforce \<Rightarrow> enforced_decision doc req)"

section \<open>The access matrix\<close>

text \<open>What a role may do, as a relation on requests; the reference for the decision function.\<close>

definition launches_privileged :: "request_context \<Rightarrow> bool" where
  "launches_privileged req \<longleftrightarrow> rf_privileged (rx_facts req) \<and> rx_action req \<in> {Act_ContainerCreate, Act_ContainerRun}"

definition owned_by :: "resolved_principal \<Rightarrow> auth_resource \<Rightarrow> bool" where
  "owned_by p r \<longleftrightarrow> res_owner r = Some (rp_id p)"

definition role_permits :: "resolved_principal \<Rightarrow> request_context \<Rightarrow> bool" where
  "role_permits p req \<longleftrightarrow>
     rp_role p = Administrator
     \<or> rp_role p = Operator \<and> \<not> is_policy_administration (rx_action req)
     \<or> rp_role p = Developer \<and> owned_by p (rx_resource req)
       \<and> \<not> is_policy_administration (rx_action req) \<and> \<not> launches_privileged req
     \<or> rp_role p = RuntimeCleanup \<and> is_cleanup_action (rx_action req)"

definition permitted :: "request_context \<Rightarrow> bool" where
  "permitted req \<longleftrightarrow> rf_mount_sources_approved (rx_facts req) \<noteq> Some False
     \<and> (\<exists>p. rx_principal req = Some p \<and> role_permits p req)"

lemma mk_decision_sel [simp]:
  "ad_allowed (mk_decision doc a r m h) = a" "ad_reason (mk_decision doc a r m h) = r"
  "ad_policy_generation (mk_decision doc a r m h) = pd_generation doc"
  "ad_hypothetical_denial (mk_decision doc a r m h) = h" "ad_matched_rule (mk_decision doc a r m h) = m"
  by (simp_all add: mk_decision_def)

lemma enforced_allowed_iff: "ad_allowed (enforced_decision doc req) \<longleftrightarrow> permitted req"
  by (auto simp: enforced_decision_def permitted_def role_permits_def owned_by_def launches_privileged_def
        split: option.splits role.splits)

lemma enforced_no_hypothesis [simp]: "ad_hypothetical_denial (enforced_decision doc req) = None"
  by (auto simp: enforced_decision_def split: option.splits role.splits)

lemma enforced_generation [simp]: "ad_policy_generation (enforced_decision doc req) = pd_generation doc"
  by (auto simp: enforced_decision_def split: option.splits role.splits)

lemma enforced_mode [simp]: "enforced_decision (doc\<lparr>pd_mode := m\<rparr>) req = enforced_decision doc req"
  by (simp add: enforced_decision_def mk_decision_def cong: if_cong option.case_cong role.case_cong)

lemma evaluate_allowed_iff: "ad_allowed (evaluate doc req) \<longleftrightarrow> pd_mode doc \<noteq> AM_Enforce \<or> permitted req"
  by (auto simp: evaluate_def enforced_allowed_iff Let_def split: authorization_mode.splits)

text \<open>The roles that the resolver assigns are nested: what it allows a developer it allows an
  operator, and what it allows an operator it allows an administrator.\<close>

lemma roles_nested:
  assumes "rx_principal req = Some p" and "permitted req" and "rp_role p \<in> {Developer, Operator}"
  shows "permitted (req\<lparr>rx_principal := Some (p\<lparr>rp_role := Operator\<rparr>)\<rparr>)"
    and "permitted (req\<lparr>rx_principal := Some (p\<lparr>rp_role := Administrator\<rparr>)\<rparr>)"
  using assms by (auto simp: permitted_def role_permits_def owned_by_def launches_privileged_def)

text \<open>A resource without owner is out of reach of every developer.\<close>

lemma developer_needs_owner:
  assumes "rx_principal req = Some p" and "rp_role p = Developer" and "res_owner (rx_resource req) = None"
  shows "\<not> permitted req"
  using assms by (simp add: permitted_def role_permits_def owned_by_def)

section \<open>Identity of Compose children\<close>

definition wf_fanout :: "fanout_context \<Rightarrow> bool" where
  "wf_fanout f \<longleftrightarrow> length (fo_parent_request_id f) = 16 \<and> length (fo_plan_digest f) = 32
     \<and> length (fo_request_digest f) = 32"

lemma u32_to_be_inject: "u32_to_be a = u32_to_be b \<longleftrightarrow> a = b"
  by (metis u32_from_to_be)

lemma idempotency_key_binds:
  assumes "wf_fanout f" and "wf_fanout g"
    and "expected_idempotency_key sha f = expected_idempotency_key sha g"
    and "inj_on sha {idempotency_input f, idempotency_input g}"
  shows "fo_parent_request_id f = fo_parent_request_id g" and "fo_plan_digest f = fo_plan_digest g"
    and "fo_ordinal f = fo_ordinal g" and "fo_expected_resource f = fo_expected_resource g"
    and "fo_request_digest f = fo_request_digest g"
    and "fanout_action_code (fo_expected_action f) = fanout_action_code (fo_expected_action g)"
proof -
  have eq: "fo_parent_request_id f @ fo_plan_digest f @ u32_to_be (fo_ordinal f)
        @ [fanout_action_code (fo_expected_action f)]
        @ u64_to_be (of_nat (length (fo_expected_resource f))) @ bstr (fo_expected_resource f) @ fo_request_digest f
      = fo_parent_request_id g @ fo_plan_digest g @ u32_to_be (fo_ordinal g)
        @ [fanout_action_code (fo_expected_action g)]
        @ u64_to_be (of_nat (length (fo_expected_resource g))) @ bstr (fo_expected_resource g) @ fo_request_digest g"
    using assms(3,4) by (auto simp: expected_idempotency_key_def idempotency_input_def)
  then have "length (fo_expected_resource f) = length (fo_expected_resource g)"
    using assms(1,2) by (drule_tac arg_cong [where f = length]) (simp add: wf_fanout_def)
  with eq assms(1,2)
  show "fo_parent_request_id f = fo_parent_request_id g" "fo_plan_digest f = fo_plan_digest g"
    "fo_ordinal f = fo_ordinal g" "fo_expected_resource f = fo_expected_resource g"
    "fo_request_digest f = fo_request_digest g"
    "fanout_action_code (fo_expected_action f) = fanout_action_code (fo_expected_action g)"
    by (simp_all add: wf_fanout_def u32_to_be_inject)
qed

section \<open>Properties\<close>

text \<open>
  Why the matrix refuses a request: every objection that applies, in the order of precedence.  The
  reference for the reasons of the decision function.
\<close>

definition objections :: "request_context \<Rightarrow> auth_reason list" where
  "objections req =
     (if rf_mount_sources_approved (rx_facts req) = Some False then [RC_MountSourceDenied] else [])
     @ (case rx_principal req of
          None \<Rightarrow> [RC_UnknownPrincipal]
        | Some p \<Rightarrow>
            (if rp_role p = Auditor then [RC_RoleNotAuthorized] else [])
            @ (if rp_role p = RuntimeCleanup \<and> \<not> is_cleanup_action (rx_action req) then [RC_CleanupActionDenied] else [])
            @ (if rp_role p = Developer \<and> launches_privileged req then [RC_PrivilegedContainerDenied] else [])
            @ (if rp_role p = Developer \<and> \<not> owned_by p (rx_resource req) then [RC_ResourceOwnerMismatch] else [])
            @ (if rp_role p \<in> {Operator, Developer} \<and> is_policy_administration (rx_action req) then [RC_PolicyAdministrationDenied] else []))"

lemma permitted_iff_no_objection: "permitted req \<longleftrightarrow> objections req = []"
  by (cases "rx_principal req"; cases "rp_role (the (rx_principal req))")
    (auto simp: objections_def permitted_def role_permits_def)

lemma enforced_reason:
  "ad_reason (enforced_decision doc req) = (case objections req of [] \<Rightarrow> RC_RoleAllowed | r # _ \<Rightarrow> r)"
  by (cases "rx_principal req"; cases "rp_role (the (rx_principal req))")
    (auto simp: objections_def enforced_decision_def launches_privileged_def owned_by_def)

text \<open>C15.
  The decision of the native policy.  Outside enforcement every request is allowed; under
  enforcement exactly those the access matrix permits, which are those without an objection.  The
  reason is fixed in every mode: a disabled policy says so, enforcement names the first objection or
  the role that allows, and shadow mode names the role that allows or that it let the request pass,
  with the first objection as its hypothetical denial; a shadow decision on a permitted request is
  the decision of enforcement.  Every decision names the generation of its policy.
\<close>

theorem evaluate_follows_matrix:
  "ad_allowed (evaluate doc req) = (if pd_mode doc = AM_Enforce then permitted req else True)
   \<and> (permitted req \<longleftrightarrow> objections req = [])
   \<and> ad_policy_generation (evaluate doc req) = pd_generation doc
   \<and> ad_reason (evaluate doc req) =
       (case pd_mode doc of
          AM_Disabled \<Rightarrow> RC_AuthorizationDisabled
        | AM_Shadow \<Rightarrow> (if permitted req then RC_RoleAllowed else RC_ShadowAllowed)
        | AM_Enforce \<Rightarrow> (if permitted req then RC_RoleAllowed else hd (objections req)))
   \<and> ad_hypothetical_denial (evaluate doc req) =
       (if pd_mode doc = AM_Shadow \<and> \<not> permitted req then Some (hd (objections req)) else None)
   \<and> (if pd_mode doc = AM_Shadow \<and> permitted req
      then evaluate doc req = evaluate (doc\<lparr>pd_mode := AM_Enforce\<rparr>) req else True)"
  by (simp add: evaluate_allowed_iff permitted_iff_no_objection)
    (auto simp: evaluate_def enforced_allowed_iff enforced_reason permitted_iff_no_objection Let_def
      split: authorization_mode.splits list.splits)

end
