(* ===== verification/Policy_Store.thy ===== *)
theory Policy_Store
  imports Authorization
begin

text \<open>
  Loading and replacing authorization policies: \<open>src/ferro-core/src/authorization/policy.rs\<close>.

  The file system is a function from paths to what opening the file with \<open>O_NOFOLLOW\<close> gives;
  \<open>euid\<close> is the effective user.  The TOML deserializer is the parameter \<open>toml\<close>, from the text to a
  document or an error message, and SHA-256 the parameter \<open>sha\<close>.  The two locks of the store are
  its flags \<open>ps_active_poisoned\<close> and \<open>ps_digest_poisoned\<close>: writing through a poisoned lock fails,
  reading does not.
\<close>

unbundle bit_operations_syntax

section \<open>Files\<close>

definition MAX_POLICY_BYTES :: nat where "MAX_POLICY_BYTES = 1024 * 1024"
definition POLICY_SCHEMA_VERSION :: u32 where "POLICY_SCHEMA_VERSION = 1"

text \<open>An I/O error by its number; \<open>ELOOP\<close> is what \<open>O_NOFOLLOW\<close> answers for a symbolic link.\<close>

type_synonym errno = nat

definition ELOOP :: errno where "ELOOP = 40"

record file_metadata =
  fm_is_file :: bool
  fm_nlink :: u64
  fm_uid :: u32
  fm_mode :: u32
  fm_len :: u64

record policy_file =
  pf_metadata :: "errno + file_metadata"
  pf_content :: "errno + bytes"

type_synonym file_system = "string \<Rightarrow> errno + policy_file"

type_synonym toml_parser = "string \<Rightarrow> string + policy_document"

section \<open>Candidates\<close>

datatype policy_error =
    PE_Symlink | PE_NotRegularFile | PE_HardLinked | PE_WrongOwner u32 u32 | PE_UnsafeMode u32
  | PE_TooLarge nat | PE_Parse string | PE_Utf8 | PE_UnsupportedSchema u32 | PE_InvalidGeneration
  | PE_Rollback u64 u64 | PE_UnauthorizedReload | PE_LockPoisoned | PE_Io errno

record policy_snapshot =
  sn_generation :: u64
  sn_digest :: bytes
  sn_document :: policy_document

record policy_candidate =
  pc_snapshot :: policy_snapshot
  pc_source :: bytes

definition open_without_following_symlinks :: "file_system \<Rightarrow> string \<Rightarrow> policy_error + policy_file" where
  "open_without_following_symlinks fs path =
     map_err (\<lambda>e. if e = ELOOP then PE_Symlink else PE_Io e) (fs path)"

definition validate_unix_owner_and_mode :: "u32 \<Rightarrow> u32 \<Rightarrow> u32 \<Rightarrow> policy_error + unit" where
  "validate_unix_owner_and_mode expected_owner actual_owner raw_mode =
     (if actual_owner \<noteq> expected_owner then Inl (PE_WrongOwner expected_owner actual_owner)
      else if (raw_mode AND 511) AND 18 \<noteq> 0 then Inl (PE_UnsafeMode (raw_mode AND 511))
      else Inr ())"

definition validate_metadata :: "u32 \<Rightarrow> policy_file \<Rightarrow> policy_error + unit" where
  "validate_metadata euid f =
     rbind (map_err PE_Io (pf_metadata f)) (\<lambda>m.
     if \<not> fm_is_file m then Inl PE_NotRegularFile
     else if fm_nlink m \<noteq> 1 then Inl PE_HardLinked
     else rbind (validate_unix_owner_and_mode euid (fm_uid m) (fm_mode m)) (\<lambda>_.
     if unat (fm_len m) > MAX_POLICY_BYTES then Inl (PE_TooLarge MAX_POLICY_BYTES) else Inr ()))"

definition validate_document :: "policy_document \<Rightarrow> policy_error + unit" where
  "validate_document doc =
     (if pd_schema_version doc \<noteq> POLICY_SCHEMA_VERSION then Inl (PE_UnsupportedSchema (pd_schema_version doc))
      else if pd_generation doc = 0 then Inl PE_InvalidGeneration
      else Inr ())"

definition load_candidate ::
  "(bytes \<Rightarrow> bytes) \<Rightarrow> toml_parser \<Rightarrow> u32 \<Rightarrow> file_system \<Rightarrow> string \<Rightarrow> policy_error + policy_candidate" where
  "load_candidate sha toml euid fs path =
     rbind (open_without_following_symlinks fs path) (\<lambda>f.
     rbind (validate_metadata euid f) (\<lambda>_.
     rbind (map_err PE_Io (pf_content f)) (\<lambda>content.
     let source = take (MAX_POLICY_BYTES + 1) content in
     if length source > MAX_POLICY_BYTES then Inl (PE_TooLarge MAX_POLICY_BYTES)
     else
       rbind (ok_or PE_Utf8 (from_utf8 source)) (\<lambda>text.
       rbind (map_err PE_Parse (toml text)) (\<lambda>doc.
       rbind (validate_document doc) (\<lambda>_.
       Inr \<lparr>pc_snapshot = \<lparr>sn_generation = pd_generation doc, sn_digest = sha source, sn_document = doc\<rparr>,
            pc_source = source\<rparr>))))))"

section \<open>The store\<close>

record policy_store =
  ps_active :: policy_snapshot
  ps_source :: "string option"
  ps_source_digest :: "bytes option"
  ps_active_poisoned :: bool
  ps_digest_poisoned :: bool

definition compatibility_disabled :: "(bytes \<Rightarrow> bytes) \<Rightarrow> policy_store" where
  "compatibility_disabled sha =
     \<lparr>ps_active =
        \<lparr>sn_generation = 1,
         sn_digest = sha (bstr (''schema_version = 1'' @ [newline] @ ''generation = 1'' @ [newline]
           @ ''mode = '' @ [CHR 0x22] @ ''disabled'' @ [CHR 0x22] @ [newline])),
         sn_document = \<lparr>pd_schema_version = POLICY_SCHEMA_VERSION, pd_generation = 1, pd_mode = AM_Disabled\<rparr>\<rparr>,
      ps_source = None, ps_source_digest = None, ps_active_poisoned = False, ps_digest_poisoned = False\<rparr>"

definition policy_load ::
  "(bytes \<Rightarrow> bytes) \<Rightarrow> toml_parser \<Rightarrow> u32 \<Rightarrow> file_system \<Rightarrow> string \<Rightarrow> policy_error + policy_store" where
  "policy_load sha toml euid fs path =
     rbind (load_candidate sha toml euid fs path) (\<lambda>c.
     Inr \<lparr>ps_active = pc_snapshot c, ps_source = Some path, ps_source_digest = Some (sn_digest (pc_snapshot c)),
          ps_active_poisoned = False, ps_digest_poisoned = False\<rparr>)"

definition from_candidate :: "policy_candidate \<Rightarrow> policy_store" where
  "from_candidate c =
     \<lparr>ps_active = pc_snapshot c, ps_source = None, ps_source_digest = None, ps_active_poisoned = False,
      ps_digest_poisoned = False\<rparr>"

definition install_snapshot ::
  "policy_snapshot \<Rightarrow> bool \<Rightarrow> policy_store \<Rightarrow> (policy_error + policy_snapshot) \<times> policy_store" where
  "install_snapshot sn rollback_authorized s =
     (if ps_active_poisoned s then (Inl PE_LockPoisoned, s)
      else if sn_generation sn < sn_generation (ps_active s) \<and> \<not> rollback_authorized
      then (Inl (PE_Rollback (sn_generation (ps_active s)) (sn_generation sn)), s)
      else (Inr sn, s\<lparr>ps_active := sn\<rparr>))"

definition install_candidate ::
  "policy_candidate \<Rightarrow> bool \<Rightarrow> policy_store \<Rightarrow> (policy_error + policy_snapshot) \<times> policy_store" where
  "install_candidate c rollback_authorized s = install_snapshot (pc_snapshot c) rollback_authorized s"

definition refresh_from_stable_path ::
  "(bytes \<Rightarrow> bytes) \<Rightarrow> toml_parser \<Rightarrow> u32 \<Rightarrow> file_system \<Rightarrow> policy_store \<Rightarrow> policy_store" where
  "refresh_from_stable_path sha toml euid fs s =
     (case ps_source s of
        None \<Rightarrow> s
      | Some path \<Rightarrow>
          (case load_candidate sha toml euid fs path of
             Inl _ \<Rightarrow> s
           | Inr c \<Rightarrow>
               let sn = pc_snapshot c in
               if ps_source_digest s = Some (sn_digest sn) then s
               else if sn_digest sn = sn_digest (ps_active s) then s
               else if ps_active_poisoned s then s
               else s\<lparr>ps_active := sn,
                      ps_source_digest := (if ps_digest_poisoned s then ps_source_digest s else Some (sn_digest sn))\<rparr>))"

definition store_snapshot ::
  "(bytes \<Rightarrow> bytes) \<Rightarrow> toml_parser \<Rightarrow> u32 \<Rightarrow> file_system \<Rightarrow> policy_store \<Rightarrow> policy_snapshot \<times> policy_store" where
  "store_snapshot sha toml euid fs s =
     (let s' = refresh_from_stable_path sha toml euid fs s in (ps_active s', s'))"

definition store_replace ::
  "(bytes \<Rightarrow> bytes) \<Rightarrow> toml_parser \<Rightarrow> u32 \<Rightarrow> file_system \<Rightarrow> string \<Rightarrow> bool \<Rightarrow> policy_store
    \<Rightarrow> (policy_error + policy_snapshot) \<times> policy_store" where
  "store_replace sha toml euid fs path rollback_authorized s =
     (case load_candidate sha toml euid fs path of
        Inl e \<Rightarrow> (Inl e, s)
      | Inr c \<Rightarrow> install_snapshot (pc_snapshot c) rollback_authorized s)"

definition reload ::
  "(bytes \<Rightarrow> bytes) \<Rightarrow> toml_parser \<Rightarrow> u32 \<Rightarrow> file_system \<Rightarrow> string \<Rightarrow> resolved_principal \<Rightarrow> policy_store
    \<Rightarrow> (policy_error + policy_snapshot) \<times> policy_store" where
  "reload sha toml euid fs path actor s =
     (if rp_role actor \<noteq> Administrator then (Inl PE_UnauthorizedReload, s)
      else store_replace sha toml euid fs path False s)"

definition reload_authorized_rollback ::
  "(bytes \<Rightarrow> bytes) \<Rightarrow> toml_parser \<Rightarrow> u32 \<Rightarrow> file_system \<Rightarrow> string \<Rightarrow> policy_store
    \<Rightarrow> (policy_error + policy_snapshot) \<times> policy_store" where
  "reload_authorized_rollback sha toml euid fs path s = store_replace sha toml euid fs path True s"

section \<open>What a candidate is\<close>

text \<open>A source that the loader accepts: a regular file with one link that belongs to the effective
  user and that neither group nor others may write.\<close>

definition protected_file :: "u32 \<Rightarrow> policy_file \<Rightarrow> bool" where
  "protected_file euid f \<longleftrightarrow>
     (\<exists>m. pf_metadata f = Inr m \<and> fm_is_file m \<and> fm_nlink m = 1 \<and> fm_uid m = euid
        \<and> \<not> bit (fm_mode m) 1 \<and> \<not> bit (fm_mode m) 4 \<and> unat (fm_len m) \<le> MAX_POLICY_BYTES)"

definition valid_document :: "policy_document \<Rightarrow> bool" where
  "valid_document doc \<longleftrightarrow> pd_schema_version doc = 1 \<and> pd_generation doc \<noteq> 0"

definition policy_text :: "toml_parser \<Rightarrow> bytes \<Rightarrow> policy_document \<Rightarrow> bool" where
  "policy_text toml source doc \<longleftrightarrow>
     length source \<le> MAX_POLICY_BYTES \<and> utf8_valid source \<and> toml (str_of source) = Inr doc \<and> valid_document doc"

definition snapshot_of :: "(bytes \<Rightarrow> bytes) \<Rightarrow> bytes \<Rightarrow> policy_document \<Rightarrow> policy_snapshot" where
  "snapshot_of sha source doc = \<lparr>sn_generation = pd_generation doc, sn_digest = sha source, sn_document = doc\<rparr>"

lemma snapshot_of_sel [simp]:
  "sn_generation (snapshot_of sha source doc) = pd_generation doc"
  "sn_digest (snapshot_of sha source doc) = sha source" "sn_document (snapshot_of sha source doc) = doc"
  by (simp_all add: snapshot_of_def)

lemma write_bits: "((m :: u32) AND 511) AND 18 = 0 \<longleftrightarrow> \<not> bit m 1 \<and> \<not> bit m 4"
proof -
  have mask: "bit (18 :: u32) n \<longleftrightarrow> n = 1 \<or> n = 4" for n
    by (auto simp: bit_numeral_rec(1) bit_numeral_rec(2) bit_1_iff numeral_eq_Suc split: nat.splits)
  have "(m AND 511) AND 18 = m AND (511 AND 18)" by (simp only: and.assoc)
  also have "(511 :: u32) AND 18 = 18" by simp
  finally have "(m AND 511) AND 18 = 0 \<longleftrightarrow> m AND 18 = 0" by simp
  also have "\<dots> \<longleftrightarrow> (\<forall>n. \<not> (bit m n \<and> bit (18 :: u32) n))"
    using bit_eq_iff [of "m AND 18" 0] bit_imp_le_length [of m] by (auto simp: bit_and_iff)
  finally show ?thesis by (simp only: mask) blast
qed

lemma validate_document_ok: "validate_document doc = Inr u \<longleftrightarrow> valid_document doc"
  by (simp add: validate_document_def valid_document_def POLICY_SCHEMA_VERSION_def)

lemma validate_owner_ok:
  "validate_unix_owner_and_mode euid uid m = Inr u \<longleftrightarrow> uid = euid \<and> \<not> bit m 1 \<and> \<not> bit m 4"
  by (simp add: validate_unix_owner_and_mode_def write_bits)

lemma validate_metadata_ok: "validate_metadata euid f = Inr u \<longleftrightarrow> protected_file euid f"
  by (cases "pf_metadata f") (auto simp: validate_metadata_def protected_file_def rbind_simps validate_owner_ok)

lemma open_ok: "open_without_following_symlinks fs path = Inr f \<longleftrightarrow> fs path = Inr f"
  by (simp add: open_without_following_symlinks_def rbind_simps)

text \<open>Loading succeeds exactly on protected files of bounded size that hold a valid policy, and the
  candidate is bound to their content.\<close>

lemma load_candidate_iff:
  "load_candidate sha toml euid fs path = Inr c \<longleftrightarrow>
     (\<exists>f source doc. fs path = Inr f \<and> protected_file euid f \<and> pf_content f = Inr source
        \<and> policy_text toml source doc \<and> c = \<lparr>pc_snapshot = snapshot_of sha source doc, pc_source = source\<rparr>)"
  (is "?load \<longleftrightarrow> ?spec")
proof
  assume ?load
  then show ?spec
    by (auto simp: load_candidate_def rbind_simps open_ok validate_metadata_ok validate_document_ok Let_def
          from_utf8_def policy_text_def snapshot_of_def split: if_splits)
next
  assume ?spec
  then obtain f source doc where f: "fs path = Inr f" "protected_file euid f" "pf_content f = Inr source"
    and doc: "policy_text toml source doc" and c: "c = \<lparr>pc_snapshot = snapshot_of sha source doc, pc_source = source\<rparr>"
    by blast
  then have "open_without_following_symlinks fs path = Inr f" "validate_metadata euid f = Inr ()"
    "validate_document doc = Inr ()"
    by (simp_all add: open_ok validate_metadata_ok validate_document_ok policy_text_def)
  with f doc c show ?load
    by (simp add: load_candidate_def Let_def from_utf8_def policy_text_def snapshot_of_def)
qed

section \<open>Runs of the store\<close>

datatype policy_op =
    Install policy_candidate bool
  | Snapshot file_system
  | Reload file_system string resolved_principal
  | AuthorizedRollback file_system string

fun run_policy_op ::
  "(bytes \<Rightarrow> bytes) \<Rightarrow> toml_parser \<Rightarrow> u32 \<Rightarrow> policy_op \<Rightarrow> policy_store
    \<Rightarrow> (policy_error + policy_snapshot) \<times> policy_store" where
  "run_policy_op sha toml euid (Install c r) s = install_candidate c r s"
| "run_policy_op sha toml euid (Snapshot fs) s = map_prod Inr id (store_snapshot sha toml euid fs s)"
| "run_policy_op sha toml euid (Reload fs path actor) s = reload sha toml euid fs path actor s"
| "run_policy_op sha toml euid (AuthorizedRollback fs path) s = reload_authorized_rollback sha toml euid fs path s"

definition run_policy_ops ::
  "(bytes \<Rightarrow> bytes) \<Rightarrow> toml_parser \<Rightarrow> u32 \<Rightarrow> policy_op list \<Rightarrow> policy_store \<Rightarrow> policy_store" where
  "run_policy_ops sha toml euid ops s = fold (\<lambda>op s. snd (run_policy_op sha toml euid op s)) ops s"

text \<open>A candidate reaches \<open>install_candidate\<close> only from the loader.\<close>

definition loaded_op :: "(bytes \<Rightarrow> bytes) \<Rightarrow> toml_parser \<Rightarrow> u32 \<Rightarrow> policy_op \<Rightarrow> bool" where
  "loaded_op sha toml euid op \<longleftrightarrow>
     (\<forall>c r. op = Install c r \<longrightarrow> (\<exists>fs path. load_candidate sha toml euid fs path = Inr c))"

definition bound_snapshot :: "(bytes \<Rightarrow> bytes) \<Rightarrow> toml_parser \<Rightarrow> policy_snapshot \<Rightarrow> bool" where
  "bound_snapshot sha toml sn \<longleftrightarrow> (\<exists>source doc. policy_text toml source doc \<and> sn = snapshot_of sha source doc)"

definition store_bound :: "(bytes \<Rightarrow> bytes) \<Rightarrow> toml_parser \<Rightarrow> policy_store \<Rightarrow> bool" where
  "store_bound sha toml s \<longleftrightarrow> bound_snapshot sha toml (ps_active s)"

lemma loaded_bound: "load_candidate sha toml euid fs path = Inr c \<Longrightarrow> bound_snapshot sha toml (pc_snapshot c)"
  by (fastforce simp: load_candidate_iff bound_snapshot_def)

lemma install_snapshot_cases:
  obtains e where "install_snapshot sn r s = (Inl e, s)"
  | "install_snapshot sn r s = (Inr sn, s\<lparr>ps_active := sn\<rparr>)"
      "r \<or> sn_generation (ps_active s) \<le> sn_generation sn"
  by (cases "ps_active_poisoned s"; cases "sn_generation sn < sn_generation (ps_active s) \<and> \<not> r")
    (auto simp: install_snapshot_def not_less)

lemma refresh_active:
  "ps_active (refresh_from_stable_path sha toml euid fs s) = ps_active s
   \<or> (\<exists>path c. load_candidate sha toml euid fs path = Inr c
        \<and> ps_active (refresh_from_stable_path sha toml euid fs s) = pc_snapshot c)"
  by (auto simp: refresh_from_stable_path_def Let_def split: option.splits sum.splits)

text \<open>What one operation can do: nothing, or make a snapshot of a loaded candidate active.\<close>

lemma run_policy_op_cases:
  assumes "loaded_op sha toml euid op" and "run_policy_op sha toml euid op s = (res, s')"
  obtains "ps_active s' = ps_active s"
  | fs path c where "load_candidate sha toml euid fs path = Inr c" "ps_active s' = pc_snapshot c"
proof (cases op)
  case (Install c r)
  then obtain fs path where "load_candidate sha toml euid fs path = Inr c"
    using assms(1) by (auto simp: loaded_op_def)
  with Install assms(2) that show ?thesis
    by (cases rule: install_snapshot_cases [of "pc_snapshot c" r s]) (auto simp: install_candidate_def)
next
  case (Snapshot fs)
  with assms(2) that show ?thesis
    using refresh_active [of sha toml euid fs s] by (auto simp: store_snapshot_def Let_def)
next
  case (Reload fs path actor)
  with assms(2) that show ?thesis
    by (auto simp: reload_def store_replace_def install_snapshot_def split: if_splits sum.splits)
next
  case (AuthorizedRollback fs path)
  with assms(2) that show ?thesis
    by (auto simp: reload_authorized_rollback_def store_replace_def install_snapshot_def split: if_splits sum.splits)
qed

lemma run_policy_op_bound:
  assumes "loaded_op sha toml euid op" and "store_bound sha toml s"
  shows "store_bound sha toml (snd (run_policy_op sha toml euid op s))"
  using run_policy_op_cases [OF assms(1) prod.collapse [symmetric], of s] assms(2)
  by (metis store_bound_def loaded_bound)

lemma policy_load_bound: "policy_load sha toml euid fs path = Inr s \<Longrightarrow> store_bound sha toml s"
  by (auto simp: policy_load_def rbind_simps store_bound_def dest: loaded_bound)

text \<open>Operations without authority to go back to an older policy.\<close>

primrec forward_only :: "policy_op \<Rightarrow> bool" where
  "forward_only (Install c r) = (\<not> r)"
| "forward_only (Snapshot fs) = False"
| "forward_only (Reload fs path actor) = True"
| "forward_only (AuthorizedRollback fs path) = False"

lemma install_forward:
  "install_snapshot sn False s = (res, s') \<Longrightarrow> sn_generation (ps_active s) \<le> sn_generation (ps_active s')"
  by (cases rule: install_snapshot_cases [of sn False s]) auto

lemma run_forward:
  assumes "forward_only op" and "run_policy_op sha toml euid op s = (res, s')"
  shows "sn_generation (ps_active s) \<le> sn_generation (ps_active s')"
  using assms install_forward
  by (cases op) (auto simp: install_candidate_def reload_def store_replace_def split: if_splits sum.splits)

lemma run_result:
  assumes "run_policy_op sha toml euid op s = (res, s')"
  shows "case res of Inl e \<Rightarrow> s' = s | Inr sn \<Rightarrow> ps_active s' = sn"
  using assms
  by (cases op) (auto simp: install_candidate_def install_snapshot_def reload_def reload_authorized_rollback_def
      store_replace_def store_snapshot_def Let_def split: if_splits sum.splits)

text \<open>Taking a snapshot again from an unchanged file system changes nothing.\<close>

lemma refresh_idem:
  "refresh_from_stable_path sha toml euid fs (refresh_from_stable_path sha toml euid fs s)
   = refresh_from_stable_path sha toml euid fs s"
  by (simp add: refresh_from_stable_path_def Let_def split: option.splits sum.splits)

section \<open>The contract the gate relies on\<close>

text \<open>A provider of policies hands out snapshots whose generation is that of their document and
  keeps its invariant while doing so.\<close>

locale policy_provider =
  fixes pin :: "'s \<Rightarrow> policy_snapshot \<times> 's" and valid :: "'s \<Rightarrow> bool"
  assumes pin_valid: "valid s \<Longrightarrow> valid (snd (pin s))"
    and pin_generation: "valid s \<Longrightarrow> sn_generation (fst (pin s)) = pd_generation (sn_document (fst (pin s)))"

interpretation store: policy_provider "store_snapshot sha toml euid fs" "store_bound sha toml"
  for sha :: "bytes \<Rightarrow> bytes" and toml :: toml_parser and euid :: u32 and fs :: file_system
proof
  fix s assume ok: "store_bound sha toml s"
  have "loaded_op sha toml euid (Snapshot fs)" by (simp add: loaded_op_def)
  from run_policy_op_bound [OF this ok] show *: "store_bound sha toml (snd (store_snapshot sha toml euid fs s))"
    by simp
  then show "sn_generation (fst (store_snapshot sha toml euid fs s))
      = pd_generation (sn_document (fst (store_snapshot sha toml euid fs s)))"
    by (auto simp: store_bound_def bound_snapshot_def store_snapshot_def Let_def)
qed

section \<open>Properties\<close>

text \<open>C31.
  The active policy is always one that was validated.  From a store loaded at startup, after any
  sequence of installations, reloads, rollbacks and snapshots over an arbitrarily changing file
  system, the active snapshot is bound to a UTF-8 source of at most one MiB: its digest is the
  digest of that source, its document is what the source parses to, with the supported schema
  and a positive generation, and its generation is the one of the document.
\<close>

theorem active_policy_validated:
  assumes "policy_load sha toml euid fs path = Inr s0" and "\<forall>op \<in> set ops. loaded_op sha toml euid op"
  shows "\<exists>source doc. length source \<le> MAX_POLICY_BYTES \<and> utf8_valid source \<and> toml (str_of source) = Inr doc
    \<and> pd_schema_version doc = 1 \<and> pd_generation doc \<noteq> 0
    \<and> ps_active (run_policy_ops sha toml euid ops s0) =
        \<lparr>sn_generation = pd_generation doc, sn_digest = sha source, sn_document = doc\<rparr>"
proof -
  have "store_bound sha toml (run_policy_ops sha toml euid ops s)"
    if "store_bound sha toml s" "\<forall>op \<in> set ops. loaded_op sha toml euid op" for s
    using that by (induction ops arbitrary: s) (auto simp: run_policy_ops_def run_policy_op_bound)
  then have "store_bound sha toml (run_policy_ops sha toml euid ops s0)"
    using policy_load_bound [OF assms(1)] assms(2) by blast
  then show ?thesis
    by (auto simp: store_bound_def bound_snapshot_def policy_text_def valid_document_def snapshot_of_def)
qed

text \<open>Replacing a policy.  A refused operation leaves the store as it was, an accepted one makes the
  snapshot it answers active; only an administrator can reload; and no sequence of reloads and of
  installations without rollback authority lowers the generation of the active policy.
\<close>

theorem policy_replacement_safe:
  assumes "run_policy_op sha toml euid op s = (res, s')" and "\<forall>op \<in> set ops. forward_only op"
  shows "(case res of Inl e \<Rightarrow> s' = s | Inr sn \<Rightarrow> ps_active s' = sn)
    \<and> (\<forall>fs path actor sn. op = Reload fs path actor \<and> res = Inr sn \<longrightarrow> rp_role actor = Administrator)
    \<and> sn_generation (ps_active s) \<le> sn_generation (ps_active (run_policy_ops sha toml euid ops s))"
proof -
  have "sn_generation (ps_active s) \<le> sn_generation (ps_active (run_policy_ops sha toml euid ops s))"
    using assms(2)
  proof (induction ops arbitrary: s)
    case (Cons op ops)
    have "sn_generation (ps_active s) \<le> sn_generation (ps_active (snd (run_policy_op sha toml euid op s)))"
      using run_forward [of op sha toml euid s, OF _ prod.collapse [symmetric]] Cons.prems by simp
    also have "\<dots> \<le> sn_generation (ps_active (run_policy_ops sha toml euid ops (snd (run_policy_op sha toml euid op s))))"
      using Cons.IH Cons.prems by simp
    finally show ?case by (simp add: run_policy_ops_def)
  qed (simp add: run_policy_ops_def)
  moreover have "rp_role actor = Administrator" if "op = Reload fs path actor" "res = Inr sn" for fs path actor sn
    using that assms(1) by (auto simp: reload_def split: if_splits)
  ultimately show ?thesis using run_result [OF assms(1)] by blast
qed

text \<open>
  A rollback at the stable path that a running store does not see.  A store is loaded from the
  path; a newer policy is installed into it and at the path, the order of an authorized
  installation; when the path is later rolled back to the first policy, the store keeps the newer
  one, because the digest it compares the path with is still that of the first.  A store that
  learned of the newer policy from the path does go back.
\<close>

theorem rollback_unobserved:
  assumes "policy_load sha toml euid fs path = Inr s" and "load_candidate sha toml euid fs' path = Inr c"
    and "sn_generation (ps_active s) \<le> sn_generation (pc_snapshot c)"
    and "sn_digest (pc_snapshot c) \<noteq> sn_digest (ps_active s)"
  shows "fst (store_snapshot sha toml euid fs (snd (store_snapshot sha toml euid fs'
      (snd (install_candidate c False s))))) = pc_snapshot c
    \<and> fst (store_snapshot sha toml euid fs (snd (store_snapshot sha toml euid fs' s))) = ps_active s"
proof -
  obtain c0 where c0: "load_candidate sha toml euid fs path = Inr c0"
    and s: "s = \<lparr>ps_active = pc_snapshot c0, ps_source = Some path, ps_source_digest = Some (sn_digest (pc_snapshot c0)),
      ps_active_poisoned = False, ps_digest_poisoned = False\<rparr>"
    using assms(1) by (auto simp: policy_load_def rbind_simps)
  show ?thesis
    using assms(2-4)
    by (simp add: s c0 install_candidate_def install_snapshot_def store_snapshot_def refresh_from_stable_path_def
        Let_def not_less)
qed

section \<open>Witnesses\<close>

text \<open>A deserializer that reads the generation off the length of the text, and files that belong
  to user 1000.\<close>

definition example_toml :: toml_parser where
  "example_toml text = Inr \<lparr>pd_schema_version = 1, pd_generation = of_nat (length text), pd_mode = AM_Enforce\<rparr>"

definition example_file :: "bytes \<Rightarrow> policy_file" where
  "example_file source =
     \<lparr>pf_metadata = Inr \<lparr>fm_is_file = True, fm_nlink = 1, fm_uid = 1000, fm_mode = 384, fm_len = of_nat (length source)\<rparr>,
      pf_content = Inr source\<rparr>"

definition example_snapshot :: "bytes \<Rightarrow> policy_snapshot" where
  "example_snapshot source =
     snapshot_of toy_sha source \<lparr>pd_schema_version = 1, pd_generation = of_nat (length source), pd_mode = AM_Enforce\<rparr>"

lemma example_load:
  assumes "source = [65] \<or> source = [65, 66]"
  shows "load_candidate toy_sha example_toml 1000 (\<lambda>_. Inr (example_file source)) path =
    Inr \<lparr>pc_snapshot = example_snapshot source, pc_source = source\<rparr>"
  using assms
  by (auto simp: load_candidate_def open_without_following_symlinks_def validate_metadata_def example_file_def
      validate_unix_owner_and_mode_def MAX_POLICY_BYTES_def from_utf8_def example_toml_def validate_document_def
      POLICY_SCHEMA_VERSION_def example_snapshot_def snapshot_of_def Let_def)

definition example_store :: policy_store where
  "example_store =
     \<lparr>ps_active = example_snapshot [65], ps_source = Some ''policy'', ps_source_digest = Some (toy_sha [65]),
      ps_active_poisoned = False, ps_digest_poisoned = False\<rparr>"

lemma example_policy_load:
  "policy_load toy_sha example_toml 1000 (\<lambda>_. Inr (example_file [65])) ''policy'' = Inr example_store"
  by (simp add: policy_load_def example_load example_store_def example_snapshot_def)

theorem active_policy_validated_witness:
  "\<exists>source doc. length source \<le> MAX_POLICY_BYTES \<and> utf8_valid source \<and> example_toml (str_of source) = Inr doc
    \<and> pd_schema_version doc = 1 \<and> pd_generation doc \<noteq> 0
    \<and> ps_active (run_policy_ops toy_sha example_toml 1000 [Snapshot (\<lambda>_. Inr (example_file [65, 66]))] example_store) =
        \<lparr>sn_generation = pd_generation doc, sn_digest = toy_sha source, sn_document = doc\<rparr>"
  using active_policy_validated [OF example_policy_load, of "[Snapshot (\<lambda>_. Inr (example_file [65, 66]))]"]
  by (simp add: loaded_op_def)

theorem policy_replacement_safe_witness:
  "sn_generation (ps_active example_store) \<le> sn_generation (ps_active
     (run_policy_ops toy_sha example_toml 1000
       [Reload (\<lambda>_. Inr (example_file [65, 66])) ''policy'' \<lparr>rp_id = ''root'', rp_role = Administrator\<rparr>] example_store))
   \<and> example_store = snd (run_policy_op toy_sha example_toml 1000
       (Reload (\<lambda>_. Inr (example_file [65, 66])) ''policy'' \<lparr>rp_id = ''dev'', rp_role = Developer\<rparr>) example_store)"
proof -
  have r: "run_policy_op toy_sha example_toml 1000
      (Reload (\<lambda>_. Inr (example_file [65, 66])) ''policy'' \<lparr>rp_id = ''dev'', rp_role = Developer\<rparr>) example_store
      = (Inl PE_UnauthorizedReload, example_store)"
    by (simp add: reload_def)
  from policy_replacement_safe [OF r, of
      "[Reload (\<lambda>_. Inr (example_file [65, 66])) ''policy'' \<lparr>rp_id = ''root'', rp_role = Administrator\<rparr>]"] r
  show ?thesis by simp
qed

theorem rollback_unobserved_witness:
  "fst (store_snapshot toy_sha example_toml 1000 (\<lambda>_. Inr (example_file [65]))
     (snd (store_snapshot toy_sha example_toml 1000 (\<lambda>_. Inr (example_file [65, 66]))
       (snd (install_candidate \<lparr>pc_snapshot = example_snapshot [65, 66], pc_source = [65, 66]\<rparr> False example_store)))))
   = example_snapshot [65, 66]"
proof -
  have "sn_generation (ps_active example_store) \<le> sn_generation (example_snapshot [65, 66])"
    "sn_digest (example_snapshot [65, 66]) \<noteq> sn_digest (ps_active example_store)"
    by (simp_all add: example_store_def example_snapshot_def toy_sha_def)
  with rollback_unobserved [OF example_policy_load example_load [of "[65, 66]" "''policy''"]] show ?thesis by simp
qed

end
