(* ===== verification/Reader.thy ===== *)
theory Reader
  imports Journal_Chain
begin

text \<open>
  Reading the mirror of a journal: the iterator of \<open>src/ferro-core/src/witness/reader.rs\<close>, and the
  round trip between the frames that the journal writes and the records that the reader returns.
\<close>

section \<open>The iterator\<close>

text \<open>The iterator over the records of a reader: it ends at the first error and marks the reader as
  failed.\<close>

function reader_records :: "(bytes \<Rightarrow> bytes) \<Rightarrow> witness_reader \<Rightarrow> bytes list \<times> witness_reader" where
  "reader_records sha r =
     (case next_record sha r of
        Inl _ \<Rightarrow> ([], r\<lparr>rd_failed := True\<rparr>)
      | Inr (None, r') \<Rightarrow> ([], r')
      | Inr (Some bs, r') \<Rightarrow> (let (rest, r'') = reader_records sha r' in (bs # rest, r'')))"
  by auto
termination
  by (relation "measure (\<lambda>(sha, r). unread r)") (auto simp: next_record_unread)

declare reader_records.simps [simp del]

lemma next_record_failed: "next_record sha r = Inr (x, r') \<Longrightarrow> rd_failed r' = rd_failed r"
  by (auto simp: next_record_def Let_def rbind_simps split: prod.splits if_splits)

text \<open>A reader that can be finished after its records were taken had no error on the way.\<close>

lemma reader_records_complete:
  assumes "reader_records sha r = (evidence, r')" and "\<not> rd_failed r'"
  shows "read_all sha r = Inr (evidence, r')"
  using assms
proof (induction sha r arbitrary: evidence r' rule: reader_records.induct)
  case (1 sha r)
  consider (failure) e where "next_record sha r = Inl e" | (exhausted) q where "next_record sha r = Inr (None, q)"
    | (another) bs q where "next_record sha r = Inr (Some bs, q)"
    by (metis not_None_eq old.prod.exhaust sumE)
  then show ?case
  proof cases
    case another
    obtain rest q' where rest: "reader_records sha q = (rest, q')" by fastforce
    with 1(2) another have "evidence = bs # rest" "r' = q'" by (simp_all add: reader_records.simps [of sha r])
    with 1(1) [OF another refl refl rest] 1(3) another show ?thesis by (simp add: read_all.simps [of sha r])
  qed (use 1 in \<open>auto simp: reader_records.simps [of sha r] read_all.simps [of sha r]\<close>)
qed

lemma read_all_records: "read_all sha r = Inr x \<Longrightarrow> reader_records sha r = x"
proof (induction sha r arbitrary: x rule: read_all.induct)
  case (1 sha r)
  then show ?case
    by (auto simp: read_all.simps [of sha r] reader_records.simps [of sha r] rbind_simps
        split: sum.splits prod.splits option.splits)
qed

section \<open>Files that hold a history\<close>

text \<open>A part of the mirror with the frames of some records, and a mirror whose parts, the segments in
  the order of their names and the active file last, hold a history.\<close>

definition frames_of :: "bytes \<Rightarrow> witness_record list \<Rightarrow> bytes" where
  "frames_of jid rs = concat (map (\<lambda>r. mirror_frame (wr_sequence r) (record_fields jid r)) rs)"

definition mirror_part :: "bytes \<Rightarrow> witness_record list \<Rightarrow> bytes" where
  "mirror_part jid rs = mirror_header jid @ frames_of jid rs"

definition mirror_holds :: "bytes \<Rightarrow> mirror_files \<Rightarrow> witness_record list \<Rightarrow> bool" where
  "mirror_holds jid files rs \<longleftrightarrow> \<not> mf_stale files
     \<and> (\<exists>segments active. rs = concat segments @ active
          \<and> map (\<lambda>(_, _, content). content) (sort_key fst (mf_segments files)) = map (mirror_part jid) segments
          \<and> mf_active files = Some (mirror_part jid active)
          \<and> (\<forall>p \<in> set (active # segments). length (mirror_part jid p) \<le> MAX_MIRROR_BYTES))"

lemma frames_of_Nil [simp]: "frames_of jid [] = []"
  by (simp add: frames_of_def)

lemma frames_of_Cons: "frames_of jid (r # rs) = mirror_frame (wr_sequence r) (record_fields jid r) @ frames_of jid rs"
  by (simp add: frames_of_def)

lemma frames_of_empty [simp]: "frames_of jid rs = [] \<longleftrightarrow> rs = []"
  by (cases rs) (auto simp: frames_of_Cons mirror_frame_def dest: arg_cong [where f = length])

lemma open_part_mirror:
  assumes "length jid = 16" and "length (mirror_part jid rs) \<le> MAX_MIRROR_BYTES"
  shows "open_part jid (Some (mirror_part jid rs)) = Inr (frames_of jid rs)"
  using assms
  by (simp add: open_part_def mirror_part_def mirror_header_def READER_MAGIC_def HEADER_BYTES_def
      subslice_append subslice_def)

lemma open_parts_mirror:
  assumes "length jid = 16" and "\<forall>p \<in> set parts. length (mirror_part jid p) \<le> MAX_MIRROR_BYTES"
  shows "open_parts jid (map (\<lambda>p. Some (mirror_part jid p)) parts) = Inr (map (frames_of jid) parts)"
  using assms by (induction parts) (simp_all add: open_part_mirror)

lemma skip_empty_frames:
  "\<exists>p' ps'. skip_empty (frames_of jid p) (map (frames_of jid) ps) = (frames_of jid p', map (frames_of jid) ps')
     \<and> p' @ concat ps' = p @ concat ps \<and> (p' = [] \<longrightarrow> ps' = [])"
proof (induction ps arbitrary: p)
  case Nil
  then show ?case by (cases "frames_of jid p") (auto intro!: exI [of _ p])
next
  case (Cons q ps)
  show ?case
  proof (cases "p = []")
    case True
    then show ?thesis using Cons.IH [of q] by simp
  next
    case False
    then have "skip_empty (frames_of jid p) (map (frames_of jid) (q # ps)) = (frames_of jid p, map (frames_of jid) (q # ps))"
      by (cases "frames_of jid p") auto
    with False show ?thesis by blast
  qed
qed

text \<open>A reader that stands before the records \<open>todo\<close> of the history \<open>past @ todo\<close>.\<close>

definition reads ::
  "(bytes \<Rightarrow> bytes) \<Rightarrow> bytes \<Rightarrow> witness_record list \<Rightarrow> witness_record list \<Rightarrow> witness_reader \<Rightarrow> bool" where
  "reads sha jid past todo rd \<longleftrightarrow> rd_journal_id rd = jid \<and> rd_last_sequence rd = of_nat (length past)
     \<and> rd_last_hash rd = chain_head sha jid past \<and> \<not> rd_failed rd
     \<and> (\<exists>p ps. rd_rest rd = frames_of jid p \<and> rd_pending rd = map (frames_of jid) ps \<and> todo = p @ concat ps)"

lemma next_record_end:
  assumes "reads sha jid past [] rd"
  obtains rd' where "next_record sha rd = Inr (None, rd')" "reader_finish rd' = Inr ()"
proof -
  from assms obtain p ps where "rd_rest rd = frames_of jid p" "rd_pending rd = map (frames_of jid) ps"
    and e: "p @ concat ps = []" "\<not> rd_failed rd"
    by (auto simp: reads_def)
  moreover obtain p' ps' where
    sk: "skip_empty (frames_of jid p) (map (frames_of jid) ps) = (frames_of jid p', map (frames_of jid) ps')"
    "p' @ concat ps' = p @ concat ps" "p' = [] \<longrightarrow> ps' = []"
    using skip_empty_frames [of jid p ps] by blast
  have "p' = []" using sk(2) e(1) by (metis append_is_Nil_conv)
  ultimately have "next_record sha rd = Inr (None, rd\<lparr>rd_rest := [], rd_pending := []\<rparr>)"
    using sk(1,3) by (simp add: next_record_def)
  with that e(2) show thesis by (simp add: reader_finish_def)
qed

lemma next_record_step:
  assumes rd: "reads sha jid past (r # todo) rd" and jid: "length jid = 16"
    and lk: "linked sha jid (past @ r # todo)" and small: "Suc (length past) < 2 ^ 64"
  obtains rd' where "next_record sha rd = Inr (Some (record_fields jid r), rd')" "reads sha jid (past @ [r]) todo rd'"
proof -
  from lk [unfolded linked_def, rule_format, of "length past"]
  have r: "wf_record r" "valid_stage r" "wr_sequence r = of_nat (Suc (length past))"
    "wr_previous_hash r = chain_head sha jid past"
    by (simp_all add: nth_append)
  from rd obtain p ps where st: "rd_rest rd = frames_of jid p" "rd_pending rd = map (frames_of jid) ps"
    "r # todo = p @ concat ps"
    by (auto simp: reads_def)
  obtain p' ps' where sk: "skip_empty (frames_of jid p) (map (frames_of jid) ps) = (frames_of jid p', map (frames_of jid) ps')"
    "p' @ concat ps' = p @ concat ps" "p' = [] \<longrightarrow> ps' = []"
    using skip_empty_frames [of jid p ps] by blast
  then have all: "p' @ concat ps' = r # todo" using st(3) by simp
  with sk(3) have "p' \<noteq> []" by auto
  with all obtain q where q: "p' = r # q" "todo = q @ concat ps'" by (cases p') auto
  let ?b = "record_fields jid r"
  have len: "length ?b \<le> 512" "?b \<noteq> []"
    using length_record_fields [OF r(1) jid] by (simp_all add: record_fields_def)
  have n: "unat (of_nat (length ?b) :: u32) = length ?b" using len by (simp add: unat_of_nat)
  have seq: "saturating_add (of_nat (length past)) 1 = (of_nat (Suc (length past)) :: u64)"
    using small by (simp add: saturating_add_def unat_of_nat)
  have "next_record sha rd = Inr (Some ?b, rd\<lparr>rd_rest := frames_of jid q, rd_pending := map (frames_of jid) ps',
      rd_last_sequence := wr_sequence r, rd_last_hash := record_hash sha jid r\<rparr>)"
    using rd len n seq r
    by (simp add: next_record_def sk(1) st q frames_of_Cons mirror_frame_def Let_def subslice_append reads_def
        decode_record_fields [OF r(1) jid r(2)] record_hash_def MAX_RECORD_BYTES_def)
  with that q(2) rd r(3) show thesis
    by (fastforce simp: reads_def chain_head_def)
qed

lemma reads_all:
  assumes "reads sha jid past todo rd" and "length jid = 16" and "linked sha jid (past @ todo)"
    and "length (past @ todo) < 2 ^ 64"
  shows "\<exists>rd'. read_all sha rd = Inr (map (record_fields jid) todo, rd') \<and> reader_finish rd' = Inr ()"
  using assms
proof (induction todo arbitrary: past rd)
  case Nil
  from next_record_end [OF Nil.prems(1)] obtain rd' where "next_record sha rd = Inr (None, rd')" "reader_finish rd' = Inr ()"
    by blast
  then show ?case by (simp add: read_all.simps [of sha rd])
next
  case (Cons r todo)
  have small: "Suc (length past) < 2 ^ 64" using Cons.prems(4) by simp
  obtain rd' where step: "next_record sha rd = Inr (Some (record_fields jid r), rd')" "reads sha jid (past @ [r]) todo rd'"
    by (rule next_record_step [OF Cons.prems(1-3) small])
  with Cons.IH [OF step(2) Cons.prems(2)] Cons.prems(3,4)
  obtain rd'' where "read_all sha rd' = Inr (map (record_fields jid) todo, rd'')" "reader_finish rd'' = Inr ()"
    by auto
  then show ?case using step(1) by (simp add: read_all.simps [of sha rd])
qed

lemma mirror_readable:
  assumes "mirror_holds jid files rs" and "linked sha jid rs" and "length jid = 16" and "length rs < 2 ^ 64"
  shows "\<exists>rd rd'. open_read_only files jid = Inr rd \<and> read_all sha rd = Inr (map (record_fields jid) rs, rd')
    \<and> reader_finish rd' = Inr ()"
proof -
  from assms(1) obtain segments active where rs: "rs = concat segments @ active"
    and files: "map (\<lambda>(_, _, content). content) (sort_key fst (mf_segments files)) = map (mirror_part jid) segments"
      "mf_active files = Some (mirror_part jid active)" "\<not> mf_stale files"
    and size: "\<forall>p \<in> set (segments @ [active]). length (mirror_part jid p) \<le> MAX_MIRROR_BYTES"
    by (auto simp: mirror_holds_def)
  have "map (\<lambda>(_, _, content). Some content) (sort_key fst (mf_segments files)) @ [mf_active files]
      = map (\<lambda>p. Some (mirror_part jid p)) (segments @ [active])"
    using arg_cong [OF files(1), of "map Some"] files(2) by (simp add: comp_def split_def)
  with open_parts_mirror [OF assms(3) size] have parts:
    "open_parts jid (map (\<lambda>(_, _, content). Some content) (sort_key fst (mf_segments files)) @ [mf_active files])
      = Inr (map (frames_of jid) (segments @ [active]))"
    by simp
  obtain p ps where p: "segments @ [active] = p # ps" by (cases segments) auto
  let ?rd = "\<lparr>rd_rest = frames_of jid p, rd_pending = map (frames_of jid) ps, rd_journal_id = jid,
    rd_last_sequence = 0, rd_last_hash = replicate 32 0, rd_failed = False\<rparr>"
  have "open_read_only files jid = Inr ?rd"
    using parts files(3) by (simp add: open_read_only_def Let_def p)
  moreover have "rs = p @ concat ps" using arg_cong [OF p, of concat] by (simp add: rs)
  then have "reads sha jid [] rs ?rd" by (auto simp: reads_def chain_head_def)
  from reads_all [OF this assms(3)] assms(2,4)
  obtain rd' where "read_all sha ?rd = Inr (map (record_fields jid) rs, rd')" "reader_finish rd' = Inr ()" by auto
  ultimately show ?thesis by blast
qed

section \<open>Property\<close>

text \<open>
  Reading back the mirror.  When the files of a mirror hold the frames of a linked history, in
  segments and the active file, opening it for the journal succeeds, reading returns exactly the
  records of the history in their order, and the reader finishes without an error.
\<close>

theorem mirror_reads_back:
  assumes "mirror_holds jid files rs" and "linked sha jid rs" and "length jid = 16" and "length rs < 2 ^ 64"
  shows "\<exists>rd rd'. open_read_only files jid = Inr rd \<and> read_all sha rd = Inr (map (record_fields jid) rs, rd')
    \<and> reader_finish rd' = Inr ()"
  by (rule mirror_readable [OF assms])

definition example_mirror :: "witness_record list \<Rightarrow> mirror_files" where
  "example_mirror rs = \<lparr>mf_active = Some (mirror_part (replicate 16 9) rs), mf_segments = [], mf_stale = False\<rparr>"

lemma example_mirror_holds:
  assumes "\<forall>r \<in> set rs. wf_record r" and "length rs \<le> 4"
  shows "mirror_holds (replicate 16 9) (example_mirror rs) rs"
proof -
  have "length (frames_of (replicate 16 9) rs) \<le> 524 * length rs"
    using assms(1)
  proof (induction rs)
    case (Cons r rs)
    then show ?case
      using length_record_fields [of r "replicate 16 9"] by (simp add: frames_of_Cons mirror_frame_def)
  qed simp
  then have "length (mirror_part (replicate 16 9) rs) \<le> MAX_MIRROR_BYTES"
    using assms(2) by (simp add: mirror_part_def mirror_header_def READER_MAGIC_def MAX_MIRROR_BYTES_def)
  then show ?thesis
    by (auto simp: mirror_holds_def example_mirror_def intro!: exI [of _ "[]"])
qed

theorem mirror_reads_back_witness:
  "\<exists>rd rd'. open_read_only (example_mirror [example_record]) (replicate 16 9) = Inr rd
    \<and> read_all toy_sha rd = Inr ([record_fields (replicate 16 9) example_record], rd') \<and> reader_finish rd' = Inr ()"
proof -
  have "linked toy_sha (replicate 16 9) [example_record]"
    using example_record_wf by (simp add: linked_def chain_head_def) (simp add: example_record_def)
  from mirror_reads_back [OF example_mirror_holds this] example_record_wf show ?thesis by simp
qed

end
