(* ===== verification/Admission.thy ===== *)
theory Admission
  imports Authorization Reader Coordinator Checkpoint_Trust
begin

text \<open>
  Admission of mutations and break-glass authority:
  \<open>src/ferro-core/src/authorization/admission.rs\<close> and \<open>emergency.rs\<close>.

  The files of a host are parameters: \<open>read_checkpoint\<close> is what reading the checkpoint artifact
  gives, \<open>mirror\<close> the read mirror of the journal, \<open>now\<close> the wall clock in seconds, and a
  \<open>host_clock\<close> the boot identity and uptime that \<open>consume\<close> reads.  SHA-256, Ed25519 verification
  and the validity of an encoded public key are the parameters \<open>sha\<close>, \<open>ver\<close> and \<open>valid_key\<close>.
\<close>

section \<open>Admission\<close>

record reserved_cleanup =
  rc_operation :: bytes
  rc_resource :: string
  rc_generation :: u64
  rc_runtime :: bytes
  rc_journal :: bytes
  rc_boot :: bytes
  rc_action :: auth_action

datatype admission_authority = UserMutation | CheckpointRepair | ReservedCleanup reserved_cleanup

datatype admission_evidence =
    Timestamp
  | Verified bytes trust_bundle checkpoint "checkpoint list"

record mutation_admission =
  ma_evidence :: admission_evidence
  ma_max_age :: duration
  ma_grace :: duration

definition cleanup_matches ::
  "reserved_cleanup \<Rightarrow> auth_action \<Rightarrow> bytes \<Rightarrow> string \<Rightarrow> u64 \<Rightarrow> bytes \<Rightarrow> bytes \<Rightarrow> bytes \<Rightarrow> bool" where
  "cleanup_matches a action operation resource generation runtime journal boot \<longleftrightarrow>
     action \<in> {Act_ContainerDelete, Act_NetworkDetach, Act_VolumeUnmount}
     \<and> rc_action a = action \<and> rc_operation a = operation \<and> rc_resource a = resource
     \<and> rc_generation a = generation \<and> rc_runtime a = runtime \<and> rc_journal a = journal
     \<and> rc_boot a = boot"

definition is_checkpoint_repair :: "auth_action \<Rightarrow> bool" where
  "is_checkpoint_repair action \<longleftrightarrow> action \<in> {Act_CheckpointPublish, Act_CheckpointRecover, Act_KeyRotate}"

definition current_age :: "checkpoint_age option \<Rightarrow> bool" where
  "current_age a \<longleftrightarrow> (case a of Some (Age_Current _) \<Rightarrow> True | _ \<Rightarrow> False)"

definition admit_timestamp :: "duration \<Rightarrow> duration \<Rightarrow> bytes option \<Rightarrow> u64 \<Rightarrow> bool" where
  "admit_timestamp max_age grace read_checkpoint now =
     (case read_checkpoint of
        None \<Rightarrow> False
      | Some bs \<Rightarrow>
          (case cp_decode bs of
             Inl _ \<Rightarrow> False
           | Inr cp \<Rightarrow> allows_user_mutation max_age grace (cp_created_at_secs cp) now))"

definition admit_verified ::
  "(bytes \<Rightarrow> bytes) \<Rightarrow> ed25519 \<Rightarrow> (bytes \<Rightarrow> bool) \<Rightarrow> bytes \<Rightarrow> trust_bundle \<Rightarrow> checkpoint \<Rightarrow> checkpoint list
    \<Rightarrow> duration \<Rightarrow> duration \<Rightarrow> mirror_files \<Rightarrow> u64 \<Rightarrow> bool" where
  "admit_verified sha ver valid_key journal_id trust minimum cps max_age grace mirror now =
     (case open_read_only mirror journal_id of
        Inl _ \<Rightarrow> False
      | Inr reader \<Rightarrow>
          let (evidence, reader') = reader_records sha reader in
          (case checkpoint_verify sha ver valid_key (with_minimum minimum trust) evidence cps now
                  (dur_secs (duration_saturating_add max_age grace)) of
             Inl _ \<Rightarrow> False
           | Inr report \<Rightarrow>
               (case reader_finish reader' of
                  Inl _ \<Rightarrow> False
                | Inr _ \<Rightarrow>
                    vr_integrity report \<and> vr_lifecycle_consistent report
                    \<and> vr_completeness report = Some True \<and> current_age (vr_checkpoint_age report))))"

definition admit ::
  "(bytes \<Rightarrow> bytes) \<Rightarrow> ed25519 \<Rightarrow> (bytes \<Rightarrow> bool) \<Rightarrow> bytes option \<Rightarrow> mirror_files \<Rightarrow> u64 \<Rightarrow> mutation_admission
    \<Rightarrow> auth_action \<Rightarrow> admission_authority \<Rightarrow> bool" where
  "admit sha ver valid_key read_checkpoint mirror now a action authority =
     (if authority = CheckpointRepair \<and> is_checkpoint_repair action then True
      else
        (case authority of
           ReservedCleanup _ \<Rightarrow> True
         | _ \<Rightarrow>
             (case ma_evidence a of
                Timestamp \<Rightarrow> admit_timestamp (ma_max_age a) (ma_grace a) read_checkpoint now
              | Verified journal_id trust minimum cps \<Rightarrow>
                  admit_verified sha ver valid_key journal_id trust minimum cps (ma_max_age a) (ma_grace a) mirror now)))"

section \<open>Break-glass authority\<close>

record emergency_authority =
  ea_action :: auth_action
  ea_resource :: string
  ea_resource_generation :: u64
  ea_boot_id :: string
  ea_deadline_uptime_ns :: u64
  ea_principal :: string
  ea_policy_digest :: bytes
  ea_operation_id :: bytes
  ea_consumed :: bool

definition action_name :: "auth_action \<Rightarrow> string" where
  "action_name action =
     (case action of
        Act_ContainerStop \<Rightarrow> ''container.stop''
      | Act_ContainerKill \<Rightarrow> ''container.kill''
      | Act_ContainerDelete \<Rightarrow> ''container.remove''
      | _ \<Rightarrow> ''unsupported'')"

definition approval_lines :: "auth_action \<Rightarrow> string \<Rightarrow> string \<Rightarrow> u64 \<Rightarrow> u64 \<Rightarrow> string list \<Rightarrow> bool" where
  "approval_lines action resource boot_id deadline generation ls \<longleftrightarrow>
     length ls = 6 \<and> ls ! 0 = ''FERROCRATE-EMERGENCY-APPROVAL-V1'' \<and> ls ! 1 = boot_id
     \<and> ls ! 2 = action_name action \<and> ls ! 3 = ''container:'' @ resource
     \<and> 16 \<le> length (ls ! 4) \<and> ls ! 5 = decimal (unat deadline) \<and> generation \<noteq> 0"

definition emergency_verify ::
  "ed25519 \<Rightarrow> (bytes \<Rightarrow> bool) \<Rightarrow> bytes \<Rightarrow> bytes \<Rightarrow> bytes \<Rightarrow> auth_action \<Rightarrow> string \<Rightarrow> u64 \<Rightarrow> string \<Rightarrow> u64
    \<Rightarrow> resolved_principal \<Rightarrow> bytes \<Rightarrow> bytes \<Rightarrow> emergency_authority option" where
  "emergency_verify ver valid_key payload signature recovery_key action resource generation boot_id
       deadline actor policy_digest operation_id =
     (if \<not> valid_key recovery_key \<or> \<not> ver recovery_key payload signature then None
      else
        (case from_utf8 payload of
           None \<Rightarrow> None
         | Some text \<Rightarrow>
             if \<not> approval_lines action resource boot_id deadline generation (str_lines text) then None
             else Some
               \<lparr>ea_action = action, ea_resource = resource, ea_resource_generation = generation,
                ea_boot_id = boot_id, ea_deadline_uptime_ns = deadline, ea_principal = rp_id actor,
                ea_policy_digest = policy_digest, ea_operation_id = operation_id, ea_consumed = False\<rparr>))"

text \<open>What one call reads of the host: the boot identity and the uptime, when they can be read.\<close>

record host_clock =
  hc_boot_id :: "string option"
  hc_uptime_ns :: "u64 option"

record emergency_use =
  eu_action :: auth_action
  eu_resource :: string
  eu_generation :: u64
  eu_principal :: string
  eu_policy_digest :: bytes
  eu_operation_id :: bytes

definition in_scope :: "emergency_authority \<Rightarrow> emergency_use \<Rightarrow> host_clock \<Rightarrow> bool" where
  "in_scope a u clock \<longleftrightarrow>
     ea_action a = eu_action u \<and> ea_resource a = eu_resource u \<and> ea_resource_generation a = eu_generation u
     \<and> ea_principal a = eu_principal u \<and> ea_policy_digest a = eu_policy_digest u
     \<and> ea_operation_id a = eu_operation_id u \<and> hc_boot_id clock = Some (ea_boot_id a)
     \<and> (case hc_uptime_ns clock of None \<Rightarrow> False | Some now \<Rightarrow> now < ea_deadline_uptime_ns a)"

definition consume :: "emergency_use \<Rightarrow> host_clock \<Rightarrow> emergency_authority \<Rightarrow> bool \<times> emergency_authority" where
  "consume u clock a =
     (if \<not> in_scope a u clock then (False, a) else (\<not> ea_consumed a, a\<lparr>ea_consumed := True\<rparr>))"

section \<open>What admission has checked\<close>

lemma checkpoint_verify_age:
  assumes "checkpoint_verify sha ver valid_key tb evidence cps now_secs max_age = Inr rep"
    and "current_age (vr_checkpoint_age rep)"
  shows "now_secs - cp_created_at_secs (last cps) \<le> max_age"
proof -
  from checkpoint_verify_inv [OF assms(1)] obtain st where
    "chain_steps sha ver valid_key tb cps (chain_start sha tb) = Inr st" "ch_last st = Some (last cps)"
    by metis
  with assms show ?thesis
    by (auto simp: checkpoint_verify_def rbind_simps Let_def current_age_def split: if_splits)
qed

lemma admit_verifiedE:
  assumes "admit_verified sha ver valid_key journal_id trust minimum cps max_age grace mirror now"
  obtains reader evidence reader' report where
    "open_read_only mirror journal_id = Inr reader" "reader_records sha reader = (evidence, reader')"
    "checkpoint_verify sha ver valid_key (with_minimum minimum trust) evidence cps now
       (dur_secs (duration_saturating_add max_age grace)) = Inr report"
    "reader_finish reader' = Inr ()" "current_age (vr_checkpoint_age report)"
proof (cases "open_read_only mirror journal_id")
  case (Inr reader)
  obtain evidence reader' where rec: "reader_records sha reader = (evidence, reader')" by fastforce
  show thesis
    using assms that [OF Inr rec] Inr rec
    by (cases "checkpoint_verify sha ver valid_key (with_minimum minimum trust) evidence cps now
         (dur_secs (duration_saturating_add max_age grace))"; cases "reader_finish reader'")
      (auto simp: admit_verified_def)
qed (use assms in \<open>simp add: admit_verified_def\<close>)

text \<open>Nothing clears the two flags of a report.\<close>

definition sound_report :: "verification_report \<Rightarrow> bool" where
  "sound_report rep \<longleftrightarrow> vr_integrity rep \<and> vr_lifecycle_consistent rep"

lemma transition_sound: "transition r (l, ids, rep) = Inr (l', ids', rep') \<Longrightarrow> sound_report rep' = sound_report rep"
  by (auto simp: transition_def Let_def sound_report_def rbind_simps
      split: witness_stage.splits option.splits lifecycle.splits if_splits)

lemma verifier_push_sound:
  "verifier_push sha bs v = Inr v' \<Longrightarrow> sound_report (sv_report v') = sound_report (sv_report v)"
  by (auto simp: verifier_push_def Let_def rbind_simps sound_report_def split: if_splits prod.splits)
    (auto dest!: transition_sound simp: sound_report_def)

lemma evidence_step_sound:
  assumes "evidence_step sha cps bs es = Inr es'"
  shows "sound_report (sv_report (ev_verifier es')) = sound_report (sv_report (ev_verifier es))"
proof -
  from assms obtain es1 where push: "verifier_push sha bs (ev_verifier es1) = Inr (ev_verifier es')"
    and "es1 = es \<or> (\<exists>cp r. bind_checkpoint sha cp r es = Inr es1)"
    by (auto simp: evidence_step_def Let_def rbind_simps split: if_splits) blast+
  then have "sound_report (sv_report (ev_verifier es1)) = sound_report (sv_report (ev_verifier es))"
    by (auto simp: bind_checkpoint_def verifier_advance_epoch_def rbind_simps sound_report_def split: if_splits)
  with verifier_push_sound [OF push] show ?thesis by simp
qed

lemma evidence_steps_sound:
  "evidence_steps sha cps bss es = Inr es' \<Longrightarrow>
     sound_report (sv_report (ev_verifier es')) = sound_report (sv_report (ev_verifier es))"
  by (induction bss arbitrary: es) (auto simp: rbind_simps dest: evidence_step_sound)

lemma checkpoint_verify_sound_report:
  assumes "checkpoint_verify sha ver valid_key tb evidence cps now max_age = Inr rep"
  shows "sound_report rep"
proof -
  from assms obtain rep0 where
    "verify_streaming sha evidence (tb_journal_id tb) cps (tb_max_records tb) (tb_starting_epoch tb)
       (tb_first_sequence tb) (tb_predecessor_hash tb) = Inr rep0" and rep: "sound_report rep = sound_report rep0"
    by (auto simp: checkpoint_verify_def rbind_simps Let_def sound_report_def split: if_splits)
  then have "sound_report rep0"
    by (auto simp: verify_streaming_def rbind_simps verifier_finish_def stream_verifier_new_def sound_report_def
        dest!: evidence_steps_sound split: if_splits)
  then show ?thesis using rep by simp
qed

text \<open>When the mirror holds the history of the journal, admission is the verdict of the checkpoint
  verifier on that history, with an age within the limit.\<close>

lemma admit_verified_on_history:
  assumes "mirror_holds jid mirror rs" and "linked sha jid rs" and "length jid = 16" and "length rs < 2 ^ 64"
  shows "admit_verified sha ver valid_key jid trust minimum cps max_age grace mirror now \<longleftrightarrow>
    (\<exists>rep. checkpoint_verify sha ver valid_key (with_minimum minimum trust) (map (record_fields jid) rs) cps now
         (dur_secs (duration_saturating_add max_age grace)) = Inr rep
       \<and> current_age (vr_checkpoint_age rep))"
proof -
  from mirror_readable [OF assms] obtain rd rd' where rd: "open_read_only mirror jid = Inr rd"
    "read_all sha rd = Inr (map (record_fields jid) rs, rd')" "reader_finish rd' = Inr ()" by blast
  note rec = read_all_records [OF rd(2)]
  show ?thesis
  proof (cases "checkpoint_verify sha ver valid_key (with_minimum minimum trust) (map (record_fields jid) rs) cps now
      (dur_secs (duration_saturating_add max_age grace))")
    case (Inr rep)
    with checkpoint_verify_sound_report [OF Inr] checkpoint_verify_trusted [OF Inr] rd rec show ?thesis
      by (simp add: admit_verified_def sound_report_def)
  qed (simp add: admit_verified_def rd rec)
qed

section \<open>Uses of an authority\<close>

fun consume_all :: "(emergency_use \<times> host_clock) list \<Rightarrow> emergency_authority \<Rightarrow> bool list \<times> emergency_authority" where
  "consume_all [] a = ([], a)"
| "consume_all ((u, clock) # uses) a =
     (let (ok, a) = consume u clock a; (oks, a) = consume_all uses a in (ok # oks, a))"

lemma in_scope_consumed [simp]: "in_scope (a\<lparr>ea_consumed := b\<rparr>) u clock = in_scope a u clock"
  by (simp add: in_scope_def split: option.splits)

lemma fst_consume_all_Cons:
  "fst (consume_all ((u, clock) # uses) a) = fst (consume u clock a) # fst (consume_all uses (snd (consume u clock a)))"
  by (simp split: prod.splits)

lemma consume_all_result:
  assumes "i < length uses"
  shows "fst (consume_all uses a) ! i \<longleftrightarrow>
    \<not> ea_consumed a \<and> in_scope a (fst (uses ! i)) (snd (uses ! i))
    \<and> (\<forall>j < i. \<not> in_scope a (fst (uses ! j)) (snd (uses ! j)))"
  using assms
proof (induction uses arbitrary: a i)
  case (Cons x uses)
  obtain u clock where x: "x = (u, clock)" by fastforce
  show ?case
  proof (cases i)
    case 0
    then show ?thesis by (simp add: x fst_consume_all_Cons consume_def del: consume_all.simps)
  next
    case (Suc k)
    then have "k < length uses" using Cons.prems by simp
    note IH = Cons.IH [OF this]
    show ?thesis
      by (cases "in_scope a u clock")
        (auto simp: x Suc IH fst_consume_all_Cons consume_def less_Suc_eq_0_disj simp del: consume_all.simps)
  qed
qed simp

lemma admitted_evidence:
  assumes "admit_verified sha ver valid_key journal_id trust minimum cps max_age grace mirror now"
  shows "\<exists>reader reader' evidence ds. open_read_only mirror journal_id = Inr reader
    \<and> read_all sha reader = Inr (evidence, reader') \<and> rd_rest reader' = [] \<and> rd_pending reader' = []
    \<and> map decode_record evidence = map Inr ds
    \<and> (\<forall>cp \<in> set cps. bound_in sha (evidence_trust (with_minimum minimum trust)) ds cp)
    \<and> (\<forall>i < length cps. authorised sha ver (with_minimum minimum trust)
          (trusted_key (with_minimum minimum trust) (take i cps)) (cps ! i))
    \<and> sorted_wrt head_le cps \<and> minimum \<in> set cps
    \<and> cp_created_at_secs (last cps) \<le> now
    \<and> now - cp_created_at_secs (last cps) \<le> dur_secs (duration_saturating_add max_age grace)"
proof -
  let ?tb = "with_minimum minimum trust"
  let ?age = "dur_secs (duration_saturating_add max_age grace)"
  from admit_verifiedE [OF assms] obtain reader evidence reader' report where
    reader: "open_read_only mirror journal_id = Inr reader" "reader_records sha reader = (evidence, reader')"
    and report: "checkpoint_verify sha ver valid_key ?tb evidence cps now ?age = Inr report"
    and fin: "reader_finish reader' = Inr ()" and age: "current_age (vr_checkpoint_age report)"
    by metis
  have "\<not> rd_failed reader'" "rd_rest reader' = []" "rd_pending reader' = []"
    using fin by (auto simp: reader_finish_def split: if_splits)
  with reader_records_complete [OF reader(2)] reader(1) checkpoint_verify_trusted [OF report]
    checkpoint_verify_age [OF report age]
  show ?thesis by (auto simp: with_minimum_def)
qed

section \<open>Properties\<close>

text \<open>C27.
  A user mutation that is admitted rests on current evidence, of the kind that is configured.  In
  timestamp mode a checkpoint was read that decodes and is neither from the future nor older than
  the maximal age and the grace together; its signature is not checked.  In verified mode the mirror
  was read to its end without an error, every checkpoint is signed by the key trusted at its place,
  heads never go back, each checkpoint is bound in the records that were read, the configured
  minimum is among them, and the last one is current in the same sense.
\<close>

theorem admission_needs_current_evidence:
  assumes "admit sha ver valid_key read_checkpoint mirror now a action UserMutation"
  shows "case ma_evidence a of
      Timestamp \<Rightarrow> \<exists>bs cp. read_checkpoint = Some bs \<and> cp_decode bs = Inr cp \<and> cp_created_at_secs cp \<le> now
        \<and> now - cp_created_at_secs cp \<le> dur_secs (duration_saturating_add (ma_max_age a) (ma_grace a))
    | Verified journal_id trust minimum cps \<Rightarrow>
        \<exists>reader reader' evidence ds. open_read_only mirror journal_id = Inr reader
        \<and> read_all sha reader = Inr (evidence, reader') \<and> rd_rest reader' = [] \<and> rd_pending reader' = []
        \<and> map decode_record evidence = map Inr ds
        \<and> (\<forall>cp \<in> set cps. bound_in sha (evidence_trust (with_minimum minimum trust)) ds cp)
        \<and> (\<forall>i < length cps. authorised sha ver (with_minimum minimum trust)
              (trusted_key (with_minimum minimum trust) (take i cps)) (cps ! i))
        \<and> sorted_wrt head_le cps \<and> minimum \<in> set cps
        \<and> cp_created_at_secs (last cps) \<le> now
        \<and> now - cp_created_at_secs (last cps) \<le> dur_secs (duration_saturating_add (ma_max_age a) (ma_grace a))"
proof (cases "ma_evidence a")
  case Timestamp
  with assms show ?thesis
    by (auto simp: admit_def admit_timestamp_def allows_user_mutation_def split: option.splits sum.splits)
next
  case (Verified journal_id trust minimum cps)
  with assms have "admit_verified sha ver valid_key journal_id trust minimum cps (ma_max_age a) (ma_grace a) mirror now"
    by (simp add: admit_def)
  from admitted_evidence [OF this] Verified show ?thesis by simp
qed

text \<open>C26.
  A break-glass authority is signed, exact and single-use.  It exists only for a payload that the
  recovery key signed and whose six lines name the boot, the action, the container and the
  deadline.  Of any sequence of attempts to use it, exactly the first one within its scope
  succeeds: same action, container, generation, principal, policy and operation, on the boot it
  was signed for and before its deadline.
\<close>

theorem emergency_authority_exact:
  assumes "emergency_verify ver valid_key payload signature recovery_key action resource generation boot_id
      deadline actor policy_digest operation_id = Some a"
    and "i < length uses"
  shows "ver recovery_key payload signature
    \<and> (\<exists>text. payload = bstr text \<and> approval_lines action resource boot_id deadline generation (str_lines text))
    \<and> (fst (consume_all uses a) ! i \<longleftrightarrow>
         (fst (uses ! i) = \<lparr>eu_action = action, eu_resource = resource, eu_generation = generation,
            eu_principal = rp_id actor, eu_policy_digest = policy_digest, eu_operation_id = operation_id\<rparr>
          \<and> hc_boot_id (snd (uses ! i)) = Some boot_id
          \<and> (\<exists>now. hc_uptime_ns (snd (uses ! i)) = Some now \<and> now < deadline))
         \<and> (\<forall>j < i. \<not> fst (consume_all uses a) ! j))"
proof -
  from assms(1) have a: "a = \<lparr>ea_action = action, ea_resource = resource, ea_resource_generation = generation,
      ea_boot_id = boot_id, ea_deadline_uptime_ns = deadline, ea_principal = rp_id actor,
      ea_policy_digest = policy_digest, ea_operation_id = operation_id, ea_consumed = False\<rparr>"
    and sig: "ver recovery_key payload signature"
    and said: "\<exists>text. payload = bstr text \<and> approval_lines action resource boot_id deadline generation (str_lines text)"
    by (auto simp: emergency_verify_def from_utf8_eq split: if_splits option.splits)
  have scope: "in_scope a u clock \<longleftrightarrow>
      u = \<lparr>eu_action = action, eu_resource = resource, eu_generation = generation,
        eu_principal = rp_id actor, eu_policy_digest = policy_digest, eu_operation_id = operation_id\<rparr>
      \<and> hc_boot_id clock = Some boot_id \<and> (\<exists>now. hc_uptime_ns clock = Some now \<and> now < deadline)" for u clock
    by (cases u) (auto simp: in_scope_def a split: option.splits)
  have first: "fst (consume_all uses a) ! k \<longleftrightarrow>
      in_scope a (fst (uses ! k)) (snd (uses ! k)) \<and> (\<forall>j < k. \<not> in_scope a (fst (uses ! j)) (snd (uses ! j)))"
    if "k < length uses" for k
    using consume_all_result [OF that, of a] by (simp add: a)
  have "(\<forall>j < i. \<not> in_scope a (fst (uses ! j)) (snd (uses ! j))) \<longleftrightarrow> (\<forall>j < i. \<not> fst (consume_all uses a) ! j)"
  proof
    assume none: "\<forall>j < i. \<not> fst (consume_all uses a) ! j"
    have "\<not> in_scope a (fst (uses ! j)) (snd (uses ! j))" if "j < i" for j
      using that
    proof (induction j rule: less_induct)
      case (less j)
      then have "\<forall>k < j. \<not> in_scope a (fst (uses ! k)) (snd (uses ! k))" by auto
      with first [of j] none less.prems assms(2) show ?case by auto
    qed
    then show "\<forall>j < i. \<not> in_scope a (fst (uses ! j)) (snd (uses ! j))" by blast
  qed (use first assms(2) in auto)
  with first [OF assms(2)] sig said show ?thesis by (auto simp: scope)
qed

section \<open>Witnesses\<close>

definition example_history :: "witness_record list" where
  "example_history = example_records toy_sha @ [example_publication toy_sha]"

lemma example_history_wf: "r \<in> set example_history \<Longrightarrow> wf_record r \<and> valid_stage r"
proof -
  have "wf_record (example_publication toy_sha) \<and> valid_stage (example_publication toy_sha)"
    using decode_record_sound [OF example_publication_decodes [OF length_toy_sha]]
    by (simp add: example_decoded_def)
  then show "r \<in> set example_history \<Longrightarrow> wf_record r \<and> valid_stage r"
    using example_wf [OF length_toy_sha] by (auto simp: example_history_def)
qed

lemma example_history_linked: "linked toy_sha (replicate 16 9) example_history"
proof -
  have "wr_sequence (example_history ! i) = of_nat (Suc i)
      \<and> wr_previous_hash (example_history ! i) = chain_head toy_sha (replicate 16 9) (take i example_history)"
    if "i < 4" for i
  proof -
    have "i = 0 \<or> i = 1 \<or> i = 2 \<or> i = 3" using that by auto
    then show ?thesis
      by (elim disjE) (simp_all add: example_history_def example_records_def chain_head_def record_hash_def
          example_decoded_def example_publication_def example_defs)
  qed
  moreover have "length example_history = 4" by (simp add: example_history_def example_records_def)
  ultimately show ?thesis using example_history_wf by (auto simp: linked_def)
qed

definition example_admission :: mutation_admission where
  "example_admission =
     \<lparr>ma_evidence = Verified (replicate 16 9) example_bundle (example_cp toy_sha) [example_cp toy_sha],
      ma_max_age = \<lparr>dur_secs = 60, dur_nanos = 0\<rparr>, ma_grace = \<lparr>dur_secs = 0, dur_nanos = 0\<rparr>\<rparr>"

lemma example_admits:
  "admit toy_sha toy_ver (\<lambda>_. True) None (example_mirror example_history) 20 example_admission Act_ContainerRun UserMutation"
proof -
  let ?tb = "with_minimum (example_cp toy_sha) example_bundle"
  have ev: "map (record_fields (replicate 16 9)) example_history = example_evidence toy_sha"
    by (simp add: example_history_def example_evidence_def example_stream_def)
  have age: "dur_secs (duration_saturating_add \<lparr>dur_secs = 60, dur_nanos = 0\<rparr> \<lparr>dur_secs = 0, dur_nanos = 0\<rparr>) = 60"
    by (simp add: duration_saturating_add_def)
  obtain rep where "verify_streaming toy_sha (example_evidence toy_sha) (tb_journal_id example_bundle) [example_cp toy_sha]
      (tb_max_records example_bundle) (tb_starting_epoch example_bundle) (tb_first_sequence example_bundle)
      (tb_predecessor_hash example_bundle) = Inr rep" "vr_discontinuities rep = 0"
    using example_evidence_streams [OF length_toy_sha] by blast
  moreover have "tb_starting_epoch example_bundle = 1" "tb_first_sequence example_bundle = 1"
    by (simp_all add: example_bundle_def trust_bundle_new_def)
  moreover have "chain_steps toy_sha toy_ver (\<lambda>_. True) ?tb [example_cp toy_sha] (chain_start toy_sha ?tb)
      = Inr \<lparr>ch_trusted = toy_key, ch_keys = [key_id_of toy_sha toy_key \<mapsto> toy_key],
          ch_last = Some (example_cp toy_sha), ch_discontinuities = 0\<rparr>"
    by (simp add: with_minimum_def chain_step_def check_link_def check_trust_def verify_signature_def toy_ver_def
        chain_start_def example_bundle_def trust_bundle_new_def example_cp_def cp_signed_def cp_payload_def)
  moreover have "minimum_reached toy_sha toy_ver ?tb [example_cp toy_sha]
      \<lparr>ch_trusted = toy_key, ch_keys = [key_id_of toy_sha toy_key \<mapsto> toy_key],
       ch_last = Some (example_cp toy_sha), ch_discontinuities = 0\<rparr> (example_cp toy_sha)"
    by (simp add: minimum_reached_def with_minimum_def verify_signature_def toy_ver_def example_bundle_def
        trust_bundle_new_def example_cp_def cp_signed_def cp_payload_def)
  ultimately have "\<exists>rep. checkpoint_verify toy_sha toy_ver (\<lambda>_. True) ?tb (example_evidence toy_sha) [example_cp toy_sha] 20 60
      = Inr rep \<and> current_age (vr_checkpoint_age rep)"
    by (simp add: checkpoint_verify_def MAX_CHECKPOINTS_def example_cp_fields example_chain_accepted current_age_def
        with_minimum_def del: chain_steps.simps)
  moreover have "mirror_holds (replicate 16 9) (example_mirror example_history) example_history"
    by (rule example_mirror_holds) (use example_history_wf in \<open>auto simp: example_history_def example_records_def\<close>)
  ultimately show ?thesis
    using admit_verified_on_history [OF _ example_history_linked, of "example_mirror example_history"] ev age
    by (simp add: admit_def example_admission_def) (simp add: example_history_def example_records_def)
qed

lemma example_cp_decodes: "cp_decode (cp_encode (example_cp toy_sha)) = Inr (example_cp toy_sha)"
proof (rule cp_decode_encode)
  have "length (toy_sig k bs) = 64" for k bs using length_toy_sha by (simp add: toy_sig_def)
  then show "wf_checkpoint (example_cp toy_sha)"
    using length_toy_sha
    by (simp add: example_cp_def cp_signed_def wf_checkpoint_def key_id_of_def hash_record_def toy_key_def Let_def)
qed

theorem admission_needs_current_evidence_witness:
  "admit toy_sha toy_ver (\<lambda>_. True) None (example_mirror example_history) 20 example_admission Act_ContainerRun UserMutation
   \<and> (\<exists>reader reader' evidence. open_read_only (example_mirror example_history) (replicate 16 9) = Inr reader
        \<and> read_all toy_sha reader = Inr (evidence, reader') \<and> rd_rest reader' = [])
   \<and> (20 :: u64) - cp_created_at_secs (example_cp toy_sha) \<le> 60
   \<and> admit toy_sha toy_ver (\<lambda>_. True) (Some (cp_encode (example_cp toy_sha))) (example_mirror []) 20
       (example_admission\<lparr>ma_evidence := Timestamp\<rparr>) Act_ContainerRun UserMutation
   \<and> (\<exists>cp. cp_decode (cp_encode (example_cp toy_sha)) = Inr cp \<and> cp_created_at_secs cp \<le> 20)"
proof -
  have v: "admit toy_sha toy_ver (\<lambda>_. True) None (example_mirror example_history) 20 example_admission Act_ContainerRun UserMutation"
    by (rule example_admits)
  have t: "admit toy_sha toy_ver (\<lambda>_. True) (Some (cp_encode (example_cp toy_sha))) (example_mirror []) 20
       (example_admission\<lparr>ma_evidence := Timestamp\<rparr>) Act_ContainerRun UserMutation"
    using example_cp_decodes
    by (simp add: admit_def admit_timestamp_def allows_user_mutation_def example_cp_fields example_admission_def
        duration_saturating_add_def)
  from admission_needs_current_evidence [OF v] admission_needs_current_evidence [OF t] v t show ?thesis
    by (auto simp: example_admission_def duration_saturating_add_def)
qed

definition example_approval :: string where
  "example_approval = ''FERROCRATE-EMERGENCY-APPROVAL-V1'' @ [newline] @ ''boot'' @ [newline] @ ''container.stop'' @ [newline]
     @ ''container:abc'' @ [newline] @ ''nonce-0123456789'' @ [newline] @ ''100'' @ [newline]"

definition example_use :: emergency_use where
  "example_use = \<lparr>eu_action = Act_ContainerStop, eu_resource = ''abc'', eu_generation = 7, eu_principal = ''root'',
     eu_policy_digest = [9], eu_operation_id = [8]\<rparr>"

lemma example_approval_ok:
  "utf8_valid (bstr example_approval)"
  "approval_lines Act_ContainerStop ''abc'' ''boot'' 100 7 (str_lines example_approval)"
  by code_simp+

theorem emergency_authority_exact_witness:
  "\<exists>a. emergency_verify toy_ver (\<lambda>_. True) (bstr example_approval) (toy_sig toy_key (bstr example_approval)) toy_key
      Act_ContainerStop ''abc'' 7 ''boot'' 100 \<lparr>rp_id = ''root'', rp_role = Administrator\<rparr> [9] [8] = Some a
    \<and> fst (consume_all [(example_use, \<lparr>hc_boot_id = Some ''boot'', hc_uptime_ns = Some 50\<rparr>),
        (example_use, \<lparr>hc_boot_id = Some ''boot'', hc_uptime_ns = Some 60\<rparr>)] a) ! 0
    \<and> \<not> fst (consume_all [(example_use, \<lparr>hc_boot_id = Some ''boot'', hc_uptime_ns = Some 50\<rparr>),
        (example_use, \<lparr>hc_boot_id = Some ''boot'', hc_uptime_ns = Some 60\<rparr>)] a) ! 1"
proof -
  let ?uses = "[(example_use, \<lparr>hc_boot_id = Some ''boot'', hc_uptime_ns = Some 50\<rparr>),
    (example_use, \<lparr>hc_boot_id = Some ''boot'', hc_uptime_ns = Some 60\<rparr>)]"
  let ?verify = "emergency_verify toy_ver (\<lambda>_. True) (bstr example_approval) (toy_sig toy_key (bstr example_approval)) toy_key
      Act_ContainerStop ''abc'' 7 ''boot'' 100 \<lparr>rp_id = ''root'', rp_role = Administrator\<rparr> [9] [8]"
  obtain a where a: "?verify = Some a"
    using example_approval_ok by (simp add: emergency_verify_def from_utf8_def toy_ver_def)
  have "fst (consume_all ?uses a) ! 0"
    using emergency_authority_exact [OF a, of 0 ?uses] by (simp add: example_use_def)
  moreover from this have "\<not> fst (consume_all ?uses a) ! 1"
    using emergency_authority_exact [OF a, of 1 ?uses] by auto
  ultimately show ?thesis using a by blast
qed

end
