(* ===== verification/Gate.thy ===== *)
theory Gate
  imports Policy_Store Admission "HOL-Library.Multiset"
begin

text \<open>
  The authorization gate: \<open>src/ferro-core/src/authorization/gate.rs\<close>.

  A canonical request carries the policy it was pinned to and two copies of its bindings: what
  execution expects and what normalization observed.  The gate compares them, evaluates the
  pinned policy and counts what happened.  The counters of \<open>observability.rs\<close> are a function from
  metrics to 64-bit values; \<open>fetch_add\<close> wraps.
\<close>

section \<open>Requests\<close>

record image_binding =
  ib_reference :: string
  ib_digest :: string
  ib_plan_digest :: "bytes option"

record device_identity =
  dev_class :: string
  dev_major :: u32
  dev_minor :: u32
  dev_inode :: u64

record mount_handle =
  mh_class :: mount_class
  mh_mount_id :: u64
  mh_device_id :: u64
  mh_inode :: u64
  mh_open_flags :: u64
  mh_target_digest :: bytes

record execution_bindings =
  eb_image :: "image_binding option"
  eb_resource_generation :: u64
  eb_state_precondition :: "resource_state option"
  eb_device_identity :: "device_identity option"
  eb_mount_handles :: "mount_handle list"
  eb_operation_plan_digest :: "bytes option"

record canonical_request =
  cq_context :: request_context
  cq_policy :: policy_snapshot
  cq_policy_generation :: u64
  cq_policy_digest :: bytes
  cq_expected :: execution_bindings
  cq_observed :: execution_bindings

definition canonical_request_new ::
  "request_context \<Rightarrow> policy_snapshot \<Rightarrow> execution_bindings \<Rightarrow> execution_bindings \<Rightarrow> canonical_request" where
  "canonical_request_new context pin expected observed =
     \<lparr>cq_context = context, cq_policy = pin, cq_policy_generation = sn_generation pin,
      cq_policy_digest = sn_digest pin, cq_expected = expected, cq_observed = observed\<rparr>"

datatype denial_code =
    DC_PolicyDenied | DC_PolicyGenerationMismatch | DC_PolicyDigestMismatch
  | DC_MutableImageReference | DC_ImageDigestMismatch | DC_NonCanonicalResource
  | DC_ResourceGenerationMismatch | DC_StatePreconditionMismatch | DC_DeviceIdentityMismatch
  | DC_MountHandleMismatch

record denial =
  dn_code :: denial_code
  dn_request_id :: string
  dn_policy_generation :: u64
  dn_reason :: "auth_reason option"

definition denial_new :: "canonical_request \<Rightarrow> denial_code \<Rightarrow> denial" where
  "denial_new q code =
     \<lparr>dn_code = code, dn_request_id = rx_request_id (cq_context q),
      dn_policy_generation = cq_policy_generation q, dn_reason = None\<rparr>"

definition denial_policy :: "canonical_request \<Rightarrow> auth_decision \<Rightarrow> denial" where
  "denial_policy q d =
     \<lparr>dn_code = DC_PolicyDenied, dn_request_id = rx_request_id (cq_context q),
      dn_policy_generation = ad_policy_generation d, dn_reason = Some (ad_reason d)\<rparr>"

record authorized_request =
  au_canonical :: canonical_request
  au_decision :: auth_decision

section \<open>Validation of the bindings\<close>

definition validate_policy_binding :: "canonical_request \<Rightarrow> denial + unit" where
  "validate_policy_binding q =
     (if cq_policy_generation q \<noteq> sn_generation (cq_policy q)
         \<or> cq_policy_generation q \<noteq> pd_generation (sn_document (cq_policy q))
      then Inl (denial_new q DC_PolicyGenerationMismatch)
      else if cq_policy_digest q \<noteq> sn_digest (cq_policy q) then Inl (denial_new q DC_PolicyDigestMismatch)
      else Inr ())"

definition uuid_char :: "nat \<Rightarrow> char \<Rightarrow> bool" where
  "uuid_char i c \<longleftrightarrow> (if i \<in> {8, 13, 18, 23} then c = CHR ''-'' else is_ascii_hexdigit c)"

definition validate_resource_uuid :: "canonical_request \<Rightarrow> denial + unit" where
  "validate_resource_uuid q =
     (let v = res_id (rx_resource (cq_context q)) in
      if length v = 36 \<and> (\<forall>(i, c) \<in> set (enumerate 0 v). uuid_char i c) then Inr ()
      else Inl (denial_new q DC_NonCanonicalResource))"

definition valid_image_digest :: "string \<Rightarrow> bool" where
  "valid_image_digest digest =
     (case strip_prefix ''sha256:'' digest of
        None \<Rightarrow> False
      | Some hex \<Rightarrow> length hex = 64 \<and> (\<forall>c \<in> set hex. is_ascii_hexdigit c))"

definition pinned_reference :: "image_binding \<Rightarrow> bool" where
  "pinned_reference b =
     (case rsplit_once CHR ''@'' (ib_reference b) of None \<Rightarrow> False | Some (_, d) \<Rightarrow> d = ib_digest b)"

definition validate_image :: "canonical_request \<Rightarrow> denial + unit" where
  "validate_image q =
     (let fact = rf_image_digest (rx_facts (cq_context q)) in
      case (eb_image (cq_expected q), eb_image (cq_observed q)) of
        (Some expected, Some observed) \<Rightarrow>
          if \<not> valid_image_digest (ib_digest expected) \<or> \<not> pinned_reference expected
          then Inl (denial_new q DC_MutableImageReference)
          else if expected \<noteq> observed \<or> fact \<noteq> Some (ib_digest expected)
          then Inl (denial_new q DC_ImageDigestMismatch)
          else Inr ()
      | (None, None) \<Rightarrow> if fact = None then Inr () else Inl (denial_new q DC_ImageDigestMismatch)
      | _ \<Rightarrow> Inl (denial_new q DC_ImageDigestMismatch))"

definition device_binding_matches_facts :: "canonical_request \<Rightarrow> bool" where
  "device_binding_matches_facts q =
     (case (rf_device_classes (rx_facts (cq_context q)), eb_device_identity (cq_expected q)) of
        ([], None) \<Rightarrow> True
      | ([cls], Some device) \<Rightarrow> cls = dev_class device
      | _ \<Rightarrow> False)"

text \<open>\<open>Iterator::position\<close> and \<open>Vec::swap_remove\<close>.\<close>

fun position :: "('a \<Rightarrow> bool) \<Rightarrow> 'a list \<Rightarrow> nat option" where
  "position P [] = None"
| "position P (x # xs) = (if P x then Some 0 else map_option Suc (position P xs))"

definition swap_remove :: "nat \<Rightarrow> 'a list \<Rightarrow> 'a list" where
  "swap_remove i xs = (butlast xs)[i := last xs]"

fun match_mounts :: "mount_handle list \<Rightarrow> mount_class list \<Rightarrow> bool" where
  "match_mounts [] unmatched = (unmatched = [])"
| "match_mounts (h # hs) unmatched =
     (case position (\<lambda>c. c = mh_class h) unmatched of
        None \<Rightarrow> False
      | Some i \<Rightarrow> match_mounts hs (swap_remove i unmatched))"

definition mount_bindings_match_facts :: "canonical_request \<Rightarrow> bool" where
  "mount_bindings_match_facts q =
     match_mounts (eb_mount_handles (cq_expected q)) (rf_mounts (rx_facts (cq_context q)))"

definition validate_canonical_bindings :: "canonical_request \<Rightarrow> denial + unit" where
  "validate_canonical_bindings q =
     (let expected = cq_expected q; observed = cq_observed q; context = cq_context q in
      rbind (validate_resource_uuid q) (\<lambda>_.
      rbind (validate_image q) (\<lambda>_.
      if eb_resource_generation expected \<noteq> res_generation (rx_resource context)
         \<or> eb_resource_generation expected \<noteq> eb_resource_generation observed
      then Inl (denial_new q DC_ResourceGenerationMismatch)
      else if res_kind (rx_resource context) = Kind_Container \<and> eb_state_precondition expected = None
         \<or> eb_state_precondition expected \<noteq> rf_lifecycle_state (rx_facts context)
         \<or> eb_state_precondition expected \<noteq> eb_state_precondition observed
      then Inl (denial_new q DC_StatePreconditionMismatch)
      else if eb_device_identity expected \<noteq> eb_device_identity observed \<or> \<not> device_binding_matches_facts q
      then Inl (denial_new q DC_DeviceIdentityMismatch)
      else if eb_mount_handles expected \<noteq> eb_mount_handles observed \<or> \<not> mount_bindings_match_facts q
      then Inl (denial_new q DC_MountHandleMismatch)
      else Inr ())))"

section \<open>The gate\<close>

datatype decision_metric = WouldDeny | EnforcedDenial
datatype journal_metric = AppendFailure | FlushFailure
datatype recovery_metric = RM_OutcomeUnknown | RM_Recovered

datatype authorization_metric =
    AMx_Attributed | AMx_UnknownPrincipal | AMx_Decision decision_metric | AMx_BypassDetected
  | AMx_Journal journal_metric | AMx_PendingIntent | AMx_Recovery recovery_metric
  | AMx_VerificationFailure

type_synonym gate_metrics = "authorization_metric \<Rightarrow> u64"

definition record_metric :: "authorization_metric \<Rightarrow> gate_metrics \<Rightarrow> gate_metrics" where
  "record_metric m c = c(m := c m + 1)"

definition gate_authorize :: "canonical_request \<Rightarrow> gate_metrics \<Rightarrow> (denial + authorized_request) \<times> gate_metrics" where
  "gate_authorize q c =
     (let c = record_metric (if rx_principal (cq_context q) \<noteq> None then AMx_Attributed else AMx_UnknownPrincipal) c in
      case rbind (validate_policy_binding q) (\<lambda>_. validate_canonical_bindings q) of
        Inl e \<Rightarrow> (Inl e, c)
      | Inr _ \<Rightarrow>
          let d = evaluate (sn_document (cq_policy q)) (cq_context q) in
          if \<not> ad_allowed d then (Inl (denial_policy q d), record_metric (AMx_Decision EnforcedDenial) c)
          else (Inr \<lparr>au_canonical = q, au_decision = d\<rparr>, c))"

definition policy_would_deny :: "canonical_request \<Rightarrow> gate_metrics \<Rightarrow> (denial + bool) \<times> gate_metrics" where
  "policy_would_deny q c =
     (case rbind (validate_policy_binding q) (\<lambda>_. validate_canonical_bindings q) of
        Inl e \<Rightarrow> (Inl e, c)
      | Inr _ \<Rightarrow>
          let denied = \<not> ad_allowed (evaluate (sn_document (cq_policy q)) (cq_context q)) in
          (Inr denied, if denied then record_metric (AMx_Decision WouldDeny) c else c))"

definition emergency_decision :: "canonical_request \<Rightarrow> auth_decision" where
  "emergency_decision q =
     \<lparr>ad_allowed = True, ad_reason = RC_EmergencyOverride, ad_matched_rule = ''emergency.exact-scope'',
      ad_policy_generation = cq_policy_generation q, ad_hypothetical_denial = Some RC_RoleNotAuthorized\<rparr>"

definition authorize_emergency :: "canonical_request \<Rightarrow> denial + authorized_request" where
  "authorize_emergency q =
     rbind (validate_policy_binding q) (\<lambda>_.
     rbind (validate_canonical_bindings q) (\<lambda>_.
     Inr \<lparr>au_canonical = q, au_decision = emergency_decision q\<rparr>))"

text \<open>Admission through the gate: repair of checkpoints is recognised by the action, the cleanup of
  a recovery by its reserved authority.\<close>

definition gate_admit ::
  "(auth_action \<Rightarrow> admission_authority \<Rightarrow> bool) option \<Rightarrow> auth_action \<Rightarrow> bool" where
  "gate_admit admission action =
     (case admission of
        None \<Rightarrow> True
      | Some adm \<Rightarrow> adm action (if is_checkpoint_repair action then CheckpointRepair else UserMutation))"

definition admit_reserved_cleanup ::
  "(auth_action \<Rightarrow> admission_authority \<Rightarrow> bool) option \<Rightarrow> auth_action \<Rightarrow> reserved_cleanup \<Rightarrow> bytes \<Rightarrow> string
    \<Rightarrow> u64 \<Rightarrow> bytes \<Rightarrow> bytes \<Rightarrow> bytes \<Rightarrow> bool" where
  "admit_reserved_cleanup admission action authority operation resource generation runtime journal boot =
     (if \<not> cleanup_matches authority action operation resource generation runtime journal boot then False
      else (case admission of None \<Rightarrow> True | Some adm \<Rightarrow> adm action (ReservedCleanup authority)))"

section \<open>What the bindings mean\<close>

text \<open>The textual form of a UUID: groups of 8, 4, 4, 4 and 12 hexadecimal digits.\<close>

definition hex_group :: "nat \<Rightarrow> string \<Rightarrow> bool" where
  "hex_group n s \<longleftrightarrow> length s = n \<and> (\<forall>c \<in> set s. is_ascii_hexdigit c)"

definition uuid_form :: "string \<Rightarrow> bool" where
  "uuid_form v \<longleftrightarrow> (\<exists>a b c d e. v = a @ ''-'' @ b @ ''-'' @ c @ ''-'' @ d @ ''-'' @ e
     \<and> hex_group 8 a \<and> hex_group 4 b \<and> hex_group 4 c \<and> hex_group 4 d \<and> hex_group 12 e)"

lemma hex_group_subslice:
  assumes "length v = 36" and "\<forall>i < 36. uuid_char i (v ! i)" and "b \<le> 36" and "{a..<b} \<inter> {8, 13, 18, 23} = {}"
  shows "hex_group (b - a) (subslice a b v)"
proof -
  have "is_ascii_hexdigit (subslice a b v ! k)" if "k < length (subslice a b v)" for k
  proof -
    have k: "a + k < b" "a + k < 36" using that assms(1,3) by auto
    then have "a + k \<notin> {8, 13, 18, 23}" using assms(4) by auto
    moreover have "subslice a b v ! k = v ! (a + k)" using that k assms(1) by (simp add: subslice_def nth_drop)
    ultimately show ?thesis using assms(2) k by (auto simp: uuid_char_def)
  qed
  then have "\<forall>c \<in> set (subslice a b v). is_ascii_hexdigit c" by (metis in_set_conv_nth)
  moreover have "length (subslice a b v) = b - a" using assms(1,3) by auto
  ultimately show ?thesis by (simp add: hex_group_def)
qed

text \<open>Characters at their places, for strings put together from parts.\<close>

definition placed :: "nat \<Rightarrow> string \<Rightarrow> bool" where
  "placed n s \<longleftrightarrow> (\<forall>i < length s. uuid_char (n + i) (s ! i))"

lemma placed_append: "placed n (s @ t) \<longleftrightarrow> placed n s \<and> placed (n + length s) t"
proof -
  have "uuid_char (n + i) ((s @ t) ! i)" if "placed n s" "placed (n + length s) t" "i < length (s @ t)" for i
    using that by (cases "i < length s") (auto simp: placed_def nth_append dest: spec [of _ "i - length s"])
  moreover have "uuid_char (n + length s + i) (t ! i)" if "placed n (s @ t)" "i < length t" for i
    using that by (auto simp: placed_def dest!: spec [of _ "length s + i"] simp: add.assoc)
  moreover have "uuid_char (n + i) (s ! i)" if "placed n (s @ t)" "i < length s" for i
    using that by (auto simp: placed_def nth_append dest!: spec [of _ i])
  ultimately show ?thesis by (auto simp: placed_def)
qed

lemma placed_hex:
  assumes "hex_group k s" and "{n..<n + k} \<inter> {8, 13, 18, 23} = {}"
  shows "placed n s"
proof -
  have "n + i \<notin> {8, 13, 18, 23}" if "i < k" for i
    using assms(2) that by (metis atLeastLessThan_iff disjoint_iff le_add1 nat_add_left_cancel_less)
  then show ?thesis using assms(1) by (auto simp: placed_def uuid_char_def hex_group_def)
qed

lemma placed_dash: "placed n ''-'' \<longleftrightarrow> n \<in> {8, 13, 18, 23}"
  by (auto simp: placed_def uuid_char_def)

lemma split_at: "length v = n \<Longrightarrow> a < b \<Longrightarrow> b \<le> n \<Longrightarrow> subslice a b v = v ! a # subslice (Suc a) b v"
  by (cases "drop a v") (auto simp: subslice_def Cons_nth_drop_Suc [symmetric] take_Cons' dest: arg_cong [where f = length])

lemma uuid_form_iff: "length v = 36 \<and> (\<forall>i < 36. uuid_char i (v ! i)) \<longleftrightarrow> uuid_form v"
proof
  assume *: "length v = 36 \<and> (\<forall>i < 36. uuid_char i (v ! i))"
  have dashes: "v ! 8 = CHR ''-''" "v ! 13 = CHR ''-''" "v ! 18 = CHR ''-''" "v ! 23 = CHR ''-''"
    using * by (auto simp: uuid_char_def dest: spec [of _ 8] spec [of _ 13] spec [of _ 18] spec [of _ 23])
  have "v = subslice 0 8 v @ subslice 8 36 v" using * subslice_join [of 0 8 36 v] by simp
  also have "subslice 8 36 v = ''-'' @ subslice 9 13 v @ subslice 13 36 v"
    using * split_at [of v 36 8 36] subslice_join [of 9 13 36 v] dashes by simp
  also have "subslice 13 36 v = ''-'' @ subslice 14 18 v @ subslice 18 36 v"
    using * split_at [of v 36 13 36] subslice_join [of 14 18 36 v] dashes by simp
  also have "subslice 18 36 v = ''-'' @ subslice 19 23 v @ subslice 23 36 v"
    using * split_at [of v 36 18 36] subslice_join [of 19 23 36 v] dashes by simp
  also have "subslice 23 36 v = ''-'' @ subslice 24 36 v"
    using * split_at [of v 36 23 36] dashes by simp
  finally have "v = subslice 0 8 v @ ''-'' @ subslice 9 13 v @ ''-'' @ subslice 14 18 v @ ''-'' @ subslice 19 23 v
      @ ''-'' @ subslice 24 36 v" by simp
  moreover have "hex_group 8 (subslice 0 8 v)" "hex_group 4 (subslice 9 13 v)" "hex_group 4 (subslice 14 18 v)"
    "hex_group 4 (subslice 19 23 v)" "hex_group 12 (subslice 24 36 v)"
    using * hex_group_subslice [of v 8 0] hex_group_subslice [of v 13 9] hex_group_subslice [of v 18 14]
      hex_group_subslice [of v 23 19] hex_group_subslice [of v 36 24] by auto
  ultimately show "uuid_form v" unfolding uuid_form_def by blast
next
  assume "uuid_form v"
  then obtain a b c d e where v: "v = a @ ''-'' @ b @ ''-'' @ c @ ''-'' @ d @ ''-'' @ e"
    and g: "hex_group 8 a" "hex_group 4 b" "hex_group 4 c" "hex_group 4 d" "hex_group 12 e"
    by (auto simp: uuid_form_def)
  have len: "length a = 8" "length b = 4" "length c = 4" "length d = 4" "length e = 12"
    using g by (simp_all add: hex_group_def)
  have "placed 0 a" "placed 9 b" "placed 14 c" "placed 19 d" "placed 24 e"
    using placed_hex [OF g(1), of 0] placed_hex [OF g(2), of 9] placed_hex [OF g(3), of 14]
      placed_hex [OF g(4), of 19] placed_hex [OF g(5), of 24] by auto
  then have "placed 0 v" by (simp add: v placed_append placed_dash len del: append_Cons append_Nil)
  then show "length v = 36 \<and> (\<forall>i < 36. uuid_char i (v ! i))" by (simp add: v len placed_def)
qed

lemma uuid_chars_iff: "length v = 36 \<and> (\<forall>(i, c) \<in> set (enumerate 0 v). uuid_char i c) \<longleftrightarrow> uuid_form v"
proof -
  have "(\<forall>(i, c) \<in> set (enumerate 0 v). uuid_char i c) \<longleftrightarrow> (\<forall>i < length v. uuid_char i (v ! i))"
    by (auto simp: in_set_enumerate_eq)
  then show ?thesis using uuid_form_iff [of v] by auto
qed

lemma validate_resource_uuid_ok:
  "validate_resource_uuid q = Inr u \<longleftrightarrow> uuid_form (res_id (rx_resource (cq_context q)))"
  using uuid_chars_iff [of "res_id (rx_resource (cq_context q))"] by (simp add: validate_resource_uuid_def Let_def)

text \<open>Matching mounts one by one is equality of multisets.\<close>

lemma position_None: "position P xs = None \<longleftrightarrow> (\<forall>x \<in> set xs. \<not> P x)"
  by (induction xs) auto

lemma position_Some: "position P xs = Some i \<Longrightarrow> i < length xs \<and> P (xs ! i)"
  by (induction xs arbitrary: i) (auto split: if_splits)

lemma mset_swap_remove:
  assumes "i < length xs"
  shows "mset (swap_remove i xs) = mset xs - {#xs ! i#}"
proof -
  have ne: "xs \<noteq> []" using assms by auto
  then have xs: "mset xs = mset (butlast xs) + {#last xs#}"
    by (metis append_butlast_last_id mset.simps(2) mset_append union_mset_add_mset_right mset.simps(1) add.right_neutral)
  show ?thesis
  proof (cases "i < length (butlast xs)")
    case True
    then have "xs ! i = butlast xs ! i" by (simp add: nth_butlast)
    with True xs show ?thesis by (simp add: swap_remove_def mset_update)
  next
    case False
    then have "i = length xs - 1" using assms by simp
    then have "xs ! i = last xs" using ne by (simp add: last_conv_nth)
    with False xs show ?thesis by (simp add: swap_remove_def list_update_beyond)
  qed
qed

lemma match_mounts_iff: "match_mounts hs unmatched \<longleftrightarrow> mset (map mh_class hs) = mset unmatched"
proof (induction hs arbitrary: unmatched)
  case (Cons h hs)
  show ?case
  proof (cases "position (\<lambda>c. c = mh_class h) unmatched")
    case None
    then have "mh_class h \<notin># mset unmatched" by (auto simp: position_None)
    then have "mset (map mh_class (h # hs)) \<noteq> mset unmatched"
      by (metis list.simps(9) mset.simps(2) union_single_eq_member)
    with None show ?thesis by simp
  next
    case (Some i)
    from position_Some [OF Some] have i: "i < length unmatched" "unmatched ! i = mh_class h" by auto
    then have "mh_class h \<in># mset unmatched" by (metis nth_mem_mset)
    then have "mset (map mh_class (h # hs)) = mset unmatched
        \<longleftrightarrow> mset (map mh_class hs) = mset unmatched - {#mh_class h#}"
      by (metis add_mset_remove_trivial insert_DiffM list.simps(9) mset.simps(2))
    with Cons.IH [of "swap_remove i unmatched"] mset_swap_remove [OF i(1)] i(2) Some show ?thesis by simp
  qed
qed auto

text \<open>An image is pinned when its reference ends in its own digest.\<close>

definition pinned_image_form :: "image_binding \<Rightarrow> bool" where
  "pinned_image_form b \<longleftrightarrow> (\<exists>name hex. ib_reference b = name @ ''@sha256:'' @ hex \<and> ib_digest b = ''sha256:'' @ hex
     \<and> hex_group 64 hex)"

lemma at_not_hex: "\<not> is_ascii_hexdigit CHR ''@''"
  by (simp add: is_ascii_hexdigit_def char_code_def)

lemma pinned_image_iff: "valid_image_digest (ib_digest b) \<and> pinned_reference b \<longleftrightarrow> pinned_image_form b"
proof
  assume *: "valid_image_digest (ib_digest b) \<and> pinned_reference b"
  then obtain hex where "ib_digest b = ''sha256:'' @ hex" "hex_group 64 hex"
    by (auto simp: valid_image_digest_def strip_prefix_eq hex_group_def split: option.splits)
  moreover from * obtain name where "ib_reference b = name @ CHR ''@'' # ib_digest b"
    by (auto simp: pinned_reference_def rsplit_once_eq split: option.splits)
  ultimately show "pinned_image_form b" by (auto simp: pinned_image_form_def)
next
  assume "pinned_image_form b"
  then obtain name hex where b: "ib_reference b = name @ ''@sha256:'' @ hex" "ib_digest b = ''sha256:'' @ hex" "hex_group 64 hex"
    by (auto simp: pinned_image_form_def)
  have "rsplit_once CHR ''@'' (ib_reference b) = Some (name, ib_digest b)"
    unfolding rsplit_once_eq using b at_not_hex by (auto simp: hex_group_def)
  moreover have "strip_prefix ''sha256:'' (ib_digest b) = Some hex" unfolding strip_prefix_eq by (rule b(2))
  ultimately show "valid_image_digest (ib_digest b) \<and> pinned_reference b"
    using b(3) by (simp add: valid_image_digest_def pinned_reference_def hex_group_def)
qed

text \<open>What a request that passes validation is bound to: the observed bindings are the expected ones,
  and both agree with the facts that the policy sees.\<close>

definition same_bindings :: "execution_bindings \<Rightarrow> execution_bindings \<Rightarrow> bool" where
  "same_bindings a b \<longleftrightarrow> eb_image a = eb_image b \<and> eb_resource_generation a = eb_resource_generation b
     \<and> eb_state_precondition a = eb_state_precondition b \<and> eb_device_identity a = eb_device_identity b
     \<and> eb_mount_handles a = eb_mount_handles b"

definition agrees_with_facts :: "request_context \<Rightarrow> execution_bindings \<Rightarrow> bool" where
  "agrees_with_facts ctx b \<longleftrightarrow>
     uuid_form (res_id (rx_resource ctx)) \<and> eb_resource_generation b = res_generation (rx_resource ctx)
     \<and> rf_image_digest (rx_facts ctx) = map_option ib_digest (eb_image b)
     \<and> (\<forall>i. eb_image b = Some i \<longrightarrow> pinned_image_form i)
     \<and> rf_lifecycle_state (rx_facts ctx) = eb_state_precondition b
     \<and> (res_kind (rx_resource ctx) = Kind_Container \<longrightarrow> eb_state_precondition b \<noteq> None)
     \<and> rf_device_classes (rx_facts ctx) = (case eb_device_identity b of None \<Rightarrow> [] | Some d \<Rightarrow> [dev_class d])
     \<and> mset (rf_mounts (rx_facts ctx)) = mset (map mh_class (eb_mount_handles b))"

lemma validate_image_ok:
  "validate_image q = Inr u \<longleftrightarrow> eb_image (cq_expected q) = eb_image (cq_observed q)
     \<and> rf_image_digest (rx_facts (cq_context q)) = map_option ib_digest (eb_image (cq_expected q))
     \<and> (\<forall>i. eb_image (cq_expected q) = Some i \<longrightarrow> pinned_image_form i)"
  using pinned_image_iff
  by (auto simp: validate_image_def Let_def split: option.splits)

lemma device_matches_iff:
  "device_binding_matches_facts q \<longleftrightarrow> rf_device_classes (rx_facts (cq_context q))
     = (case eb_device_identity (cq_expected q) of None \<Rightarrow> [] | Some d \<Rightarrow> [dev_class d])"
  by (auto simp: device_binding_matches_facts_def split: list.splits option.splits)

lemma validate_bindings_ok:
  "validate_canonical_bindings q = Inr u \<longleftrightarrow>
     same_bindings (cq_expected q) (cq_observed q) \<and> agrees_with_facts (cq_context q) (cq_expected q)"
  by (auto simp: validate_canonical_bindings_def Let_def rbind_simps validate_resource_uuid_ok validate_image_ok
      device_matches_iff mount_bindings_match_facts_def match_mounts_iff same_bindings_def agrees_with_facts_def)
    metis

definition policy_bound :: "canonical_request \<Rightarrow> bool" where
  "policy_bound q \<longleftrightarrow> cq_policy_generation q = sn_generation (cq_policy q)
     \<and> cq_policy_generation q = pd_generation (sn_document (cq_policy q))
     \<and> cq_policy_digest q = sn_digest (cq_policy q)"

definition bound_request :: "canonical_request \<Rightarrow> bool" where
  "bound_request q \<longleftrightarrow> policy_bound q \<and> same_bindings (cq_expected q) (cq_observed q)
     \<and> agrees_with_facts (cq_context q) (cq_expected q)"

lemma validation_ok:
  "rbind (validate_policy_binding q) (\<lambda>_. validate_canonical_bindings q) = Inr u \<longleftrightarrow> bound_request q"
  by (auto simp: rbind_simps validate_policy_binding_def validate_bindings_ok policy_bound_def bound_request_def)

lemma validation_cases:
  obtains "bound_request q" "rbind (validate_policy_binding q) (\<lambda>_. validate_canonical_bindings q) = Inr ()"
  | e where "\<not> bound_request q" "rbind (validate_policy_binding q) (\<lambda>_. validate_canonical_bindings q) = Inl e"
  using validation_ok [of q "()"]
  by (cases "rbind (validate_policy_binding q) (\<lambda>_. validate_canonical_bindings q)") auto

lemma gate_authorize_ok:
  "fst (gate_authorize q c) = Inr a \<longleftrightarrow> bound_request q
     \<and> ad_allowed (evaluate (sn_document (cq_policy q)) (cq_context q))
     \<and> a = \<lparr>au_canonical = q, au_decision = evaluate (sn_document (cq_policy q)) (cq_context q)\<rparr>"
  by (rule validation_cases [of q]) (auto simp: gate_authorize_def Let_def)

lemma policy_would_deny_ok:
  "fst (policy_would_deny q c) = Inr b \<longleftrightarrow> bound_request q
     \<and> b = (\<not> ad_allowed (evaluate (sn_document (cq_policy q)) (cq_context q)))"
  by (rule validation_cases [of q]) (auto simp: policy_would_deny_def Let_def)

lemma authorize_emergency_ok:
  "authorize_emergency q = Inr a \<longleftrightarrow> bound_request q \<and> a = \<lparr>au_canonical = q, au_decision = emergency_decision q\<rparr>"
  using validation_ok [of q "()"] by (auto simp: authorize_emergency_def rbind_simps)

text \<open>The plan digest of an operation is a binding that no check looks at.\<close>

lemma plan_digest_unchecked:
  "is_ok (fst (gate_authorize (q\<lparr>cq_observed := (cq_observed q)\<lparr>eb_operation_plan_digest := p\<rparr>\<rparr>) c))
   = is_ok (fst (gate_authorize q c))"
  by (simp add: is_ok_iff gate_authorize_ok bound_request_def policy_bound_def same_bindings_def)

section \<open>Requests pinned to a provider of policies\<close>

context policy_provider
begin

lemma pinned_policy_bound:
  assumes "valid s"
  shows "policy_bound (canonical_request_new ctx (fst (pin s)) expected observed)"
  using pin_generation [OF assms] by (simp add: policy_bound_def canonical_request_new_def)

lemma pinned_authorized:
  assumes "valid s"
  shows "fst (gate_authorize (canonical_request_new ctx (fst (pin s)) expected observed) c) = Inr a \<longleftrightarrow>
    same_bindings expected observed \<and> agrees_with_facts ctx expected
    \<and> (pd_mode (sn_document (fst (pin s))) \<noteq> AM_Enforce \<or> permitted ctx)
    \<and> a = \<lparr>au_canonical = canonical_request_new ctx (fst (pin s)) expected observed,
           au_decision = evaluate (sn_document (fst (pin s))) ctx\<rparr>"
  using pinned_policy_bound [OF assms, of ctx expected observed]
  by (auto simp: gate_authorize_ok bound_request_def evaluate_allowed_iff canonical_request_new_def)

end

section \<open>Properties\<close>

text \<open>C10.
  Complete mediation by the gate.  For a request pinned to a snapshot that the policy store handed
  out, the gate mints a proof exactly when the resource has the form of a UUID, the bindings it
  compares, that is the image, generation, state, device and mounts but not the digest of the
  operation plan, are observed as expected, all of them agree with the
  facts the policy sees (the mounts as a multiset of classes), a given image is pinned by its own
  SHA-256 digest, a container states its lifecycle state, and the policy is not enforced or the
  access matrix permits the request.  The proof holds the request itself and the decision of the
  pinned policy on it.
\<close>

theorem gate_mints_exactly:
  assumes "store_bound sha toml s" and "store_snapshot sha toml euid fs s = (pin, s')"
  shows "fst (gate_authorize (canonical_request_new ctx pin expected observed) c) = Inr a \<longleftrightarrow>
    same_bindings expected observed \<and> agrees_with_facts ctx expected
    \<and> (pd_mode (sn_document pin) \<noteq> AM_Enforce \<or> permitted ctx)
    \<and> a = \<lparr>au_canonical = canonical_request_new ctx pin expected observed, au_decision = evaluate (sn_document pin) ctx\<rparr>"
  using store.pinned_authorized [OF assms(1), where euid = euid and fs = fs and ctx = ctx and expected = expected
      and observed = observed and c = c and a = a] assms(2) by simp

definition example_uuid :: string where "example_uuid = ''00112233-4455-6677-8899-aabbccddeeff''"

definition example_context :: "role \<Rightarrow> request_context" where
  "example_context r =
     \<lparr>rx_request_id = ''request'', rx_principal = Some \<lparr>rp_id = ''root'', rp_role = r\<rparr>, rx_action = Act_ContainerStop,
      rx_resource = \<lparr>res_kind = Kind_Container, res_id = example_uuid, res_owner = None, res_generation = 3\<rparr>,
      rx_facts = default_facts\<lparr>rf_lifecycle_state := Some RS_Running, rf_mounts := [MC_Tmpfs, MC_HostPath]\<rparr>,
      rx_fanout = None\<rparr>"

definition example_handle :: "mount_class \<Rightarrow> mount_handle" where
  "example_handle cls = \<lparr>mh_class = cls, mh_mount_id = 1, mh_device_id = 2, mh_inode = 3, mh_open_flags = 0, mh_target_digest = []\<rparr>"

definition example_bindings :: execution_bindings where
  "example_bindings =
     \<lparr>eb_image = None, eb_resource_generation = 3, eb_state_precondition = Some RS_Running, eb_device_identity = None,
      eb_mount_handles = [example_handle MC_HostPath, example_handle MC_Tmpfs], eb_operation_plan_digest = None\<rparr>"

lemma example_uuid_form: "uuid_form example_uuid"
proof -
  have "uuid_form (''00112233'' @ ''-'' @ ''4455'' @ ''-'' @ ''6677'' @ ''-'' @ ''8899'' @ ''-'' @ ''aabbccddeeff'')"
    unfolding uuid_form_def
    by (intro exI conjI, rule refl) (simp_all add: hex_group_def is_ascii_hexdigit_def char_code_def)
  then show ?thesis by (simp add: example_uuid_def)
qed

theorem gate_mints_exactly_witness:
  "\<exists>a. fst (gate_authorize (canonical_request_new (example_context Administrator) (ps_active example_store)
      example_bindings example_bindings) (\<lambda>_. 0)) = Inr a
   \<and> fst (gate_authorize (canonical_request_new (example_context Developer) (ps_active example_store)
      example_bindings example_bindings) (\<lambda>_. 0)) \<noteq> Inr a"
proof -
  have snap: "store_snapshot toy_sha example_toml 1000 (\<lambda>_. Inr (example_file [65])) example_store
      = (ps_active example_store, example_store)"
    by (simp add: store_snapshot_def refresh_from_stable_path_def example_store_def example_load example_snapshot_def)
  note exact = gate_mints_exactly [OF policy_load_bound [OF example_policy_load] snap]
  have agree: "agrees_with_facts (example_context r) example_bindings" for r
    using example_uuid_form
    by (simp add: agrees_with_facts_def example_context_def example_bindings_def example_handle_def default_facts_def)
  have "permitted (example_context Administrator)" "\<not> permitted (example_context Developer)"
    "pd_mode (sn_document (ps_active example_store)) = AM_Enforce"
    by (simp_all add: permitted_def role_permits_def owned_by_def example_context_def default_facts_def
        example_store_def example_snapshot_def)
  with agree show ?thesis by (simp add: exact same_bindings_def)
qed

end
