(* ===== verification/Mediation.thy ===== *)
theory Mediation
  imports Gate Journal_Progress
begin

text \<open>
  Mediation of container operations: \<open>src/ferro-core/src/authorization/runtime.rs\<close>, with the
  creation provenance of \<open>container_store.rs\<close>.

  An operation is authorised before it acts: the gate admits the action, the request is made
  canonical and pinned to the active policy, the journal records its receipt, the gate decides,
  and the journal records the decision; only then is a permit handed out, which the executor
  returns with the outcome.  \<open>runtime_authorization\<close> holds the state that these steps change: the
  policy store, the counters, the journal and the emergency authority.

  A \<open>host\<close> record holds what one call reads of its surroundings: the policy file, the checkpoint
  and the read mirror, the clock, the random identifiers, the re-check of the peer process, the
  JSON encoder and the verification of Ed25519 signatures.  SHA-256 is the parameter \<open>sha\<close>.  Of a
  container record the model keeps the fields that mediation reads.
\<close>

unbundle bit_operations_syntax

section \<open>Containers and their provenance\<close>

record creation_provenance =
  pv_runtime_instance_id :: "bytes option"
  pv_boot_id :: "bytes option"
  pv_journal_id :: "bytes option"
  pv_resource_uuid :: "string option"
  pv_resource_generation :: u64
  pv_creator_operation_id :: "bytes option"
  pv_image_digest :: "string option"

definition is_uuid :: "string \<Rightarrow> bool" where
  "is_uuid v \<longleftrightarrow> length v = 36 \<and> (\<forall>(i, c) \<in> set (enumerate 0 v). uuid_char i c)"

definition is_verifiable :: "creation_provenance \<Rightarrow> bool" where
  "is_verifiable p \<longleftrightarrow>
     pv_runtime_instance_id p \<noteq> None \<and> pv_boot_id p \<noteq> None \<and> pv_journal_id p \<noteq> None
     \<and> (case pv_resource_uuid p of None \<Rightarrow> False | Some v \<Rightarrow> is_uuid v)
     \<and> pv_resource_generation p > 0 \<and> pv_creator_operation_id p \<noteq> None"

record container_record =
  cr_id :: string
  cr_name :: "string option"
  cr_pid :: u32
  cr_image :: string
  cr_status :: string
  cr_mutation_generation :: u64
  cr_creation_provenance :: creation_provenance

definition uuid_from_raw :: "bytes \<Rightarrow> string" where
  "uuid_from_raw bs =
     (let hex = concat (map hex_byte bs) in
      take 8 hex @ ''-'' @ subslice 8 12 hex @ ''-'' @ subslice 12 16 hex @ ''-'' @ subslice 16 20 hex
      @ ''-'' @ subslice 20 32 hex)"

definition canonical_uuid :: "(bytes \<Rightarrow> bytes) \<Rightarrow> string \<Rightarrow> string" where
  "canonical_uuid sha i =
     (let compact = remove_char CHR ''-'' i in
      if length compact \<noteq> 32 \<or> \<not> (\<forall>c \<in> set compact. is_ascii_hexdigit c)
      then uuid_from_raw (take 16 (sha (bstr i)))
      else take 8 compact @ ''-'' @ subslice 8 12 compact @ ''-'' @ subslice 12 16 compact @ ''-''
        @ subslice 16 20 compact @ ''-'' @ drop 20 compact)"

definition lifecycle_state :: "string \<Rightarrow> resource_state option" where
  "lifecycle_state status =
     (if status = ''created'' then Some RS_Created
      else if status = ''running'' then Some RS_Running
      else if status = ''paused'' then Some RS_Paused
      else if status \<in> {''stopped'', ''killed'', ''exited''} then Some RS_Stopped
      else None)"

definition pinned_image :: "string \<Rightarrow> (string \<times> string) option" where
  "pinned_image reference = map_option (\<lambda>(_, digest). (reference, digest)) (rsplit_once CHR ''@'' reference)"

definition image_of :: "container_record \<Rightarrow> (string \<times> string) option" where
  "image_of c =
     (case pinned_image (cr_image c) of
        Some pinned \<Rightarrow> Some pinned
      | None \<Rightarrow>
          map_option (\<lambda>digest. (before_char CHR ''@'' (cr_image c) @ ''@'' @ digest, digest))
            (pv_image_digest (cr_creation_provenance c)))"

definition generation_of :: "container_record \<Rightarrow> u64" where
  "generation_of c = max (cr_mutation_generation c) 1"

definition compose_down_executor_digest :: "(bytes \<Rightarrow> bytes) \<Rightarrow> container_record \<Rightarrow> auth_action \<Rightarrow> bytes" where
  "compose_down_executor_digest sha c action =
     sha (bstr ''ferrocrate/compose-down-executor/v1''
       @ [case action of Act_ContainerStop \<Rightarrow> 1 | Act_ContainerDelete \<Rightarrow> 2 | _ \<Rightarrow> 0]
       @ concat (map (\<lambda>v. u64_to_be (of_nat (length v)) @ bstr v) [cr_id c, cr_status c])
       @ u64_to_be (max (cr_mutation_generation c) 1))"

section \<open>State and surroundings\<close>

datatype mediation_error =
    ME_Denied denial_code | ME_Journal journal_error | ME_Stale | ME_Identity | ME_CheckpointStale
  | ME_Panic

record 't runtime_authorization =
  rt_policies :: policy_store
  rt_admission :: "mutation_admission option"
  rt_metrics :: gate_metrics
  rt_journal :: "journal option"
  rt_runtime_id :: bytes
  rt_boot_id :: bytes
  rt_pseudonym_key :: bytes
  rt_origin :: "'t request_origin option"
  rt_emergency :: "emergency_authority option"

record 't host =
  h_toml :: toml_parser
  h_euid :: u32
  h_fs :: file_system
  h_ver :: ed25519
  h_valid_key :: "bytes \<Rightarrow> bool"
  h_checkpoint :: "bytes option"
  h_mirror :: mirror_files
  h_now_ns :: nat
  h_clock :: host_clock
  h_revalidate :: "'t \<Rightarrow> bool"
  h_to_json :: "request_context \<Rightarrow> bytes option"
  h_operation :: bytes
  h_event :: bytes
  h_decision :: bytes

text \<open>The clock as \<open>Duration\<close> gives it: whole seconds, and milliseconds and nanoseconds cut off at
  the largest value of the integer they are stored in.\<close>

definition now_secs :: "'t host \<Rightarrow> u64" where
  "now_secs h = of_nat (h_now_ns h div 10 ^ 9)"

definition now_ms :: "'t host \<Rightarrow> u64" where
  "now_ms h = of_nat (min (h_now_ns h div 10 ^ 6) (2 ^ 64 - 1))"

definition host_admission ::
  "(bytes \<Rightarrow> bytes) \<Rightarrow> 't host \<Rightarrow> 't runtime_authorization \<Rightarrow> (auth_action \<Rightarrow> admission_authority \<Rightarrow> bool) option" where
  "host_admission sha h rt =
     map_option (admit sha (h_ver h) (h_valid_key h) (h_checkpoint h) (h_mirror h) (now_secs h)) (rt_admission rt)"

definition rt_pin :: "(bytes \<Rightarrow> bytes) \<Rightarrow> 't host \<Rightarrow> 't runtime_authorization \<Rightarrow> policy_snapshot \<times> 't runtime_authorization" where
  "rt_pin sha h rt =
     (case store_snapshot sha (h_toml h) (h_euid h) (h_fs h) (rt_policies rt) of
        (pin, policies) \<Rightarrow> (pin, rt\<lparr>rt_policies := policies\<rparr>))"

text \<open>A step on the journal, when there is one.\<close>

definition with_journal :: "'a jm \<Rightarrow> 't runtime_authorization \<Rightarrow> (mediation_error + 'a option) \<times> 't runtime_authorization" where
  "with_journal m rt =
     (case rt_journal rt of
        None \<Rightarrow> (Inr None, rt)
      | Some j \<Rightarrow>
          (case m j of
             (Inl e, j') \<Rightarrow> (Inl (ME_Journal e), rt\<lparr>rt_journal := Some j'\<rparr>)
           | (Inr x, j') \<Rightarrow> (Inr (Some x), rt\<lparr>rt_journal := Some j'\<rparr>)))"

definition new_with_id ::
  "policy_store \<Rightarrow> mutation_admission option \<Rightarrow> journal option \<Rightarrow> bytes \<Rightarrow> bytes \<Rightarrow> bytes \<Rightarrow> 't runtime_authorization" where
  "new_with_id policies admission journal runtime_id boot_id pseudonym_key =
     \<lparr>rt_policies = policies, rt_admission = admission, rt_metrics = (\<lambda>_. 0),
      rt_journal =
        (case journal of None \<Rightarrow> None | Some j \<Rightarrow> if j_mode j = Mode_Required then Some j else None),
      rt_runtime_id = runtime_id, rt_boot_id = boot_id, rt_pseudonym_key = pseudonym_key,
      rt_origin = None, rt_emergency = None\<rparr>"

definition with_origin :: "'t request_origin \<Rightarrow> 't runtime_authorization \<Rightarrow> 't runtime_authorization" where
  "with_origin origin rt = rt\<lparr>rt_origin := Some origin\<rparr>"

definition with_emergency_authority :: "emergency_authority \<Rightarrow> 't runtime_authorization \<Rightarrow> 't runtime_authorization" where
  "with_emergency_authority authority rt = rt\<lparr>rt_emergency := Some authority\<rparr>"

definition requires_provenance :: "'t runtime_authorization \<Rightarrow> bool" where
  "requires_provenance rt = (case rt_journal rt of None \<Rightarrow> False | Some j \<Rightarrow> j_mode j = Mode_Required)"

definition legacy_provenance_matches ::
  "(bytes \<Rightarrow> bytes) \<Rightarrow> 't runtime_authorization \<Rightarrow> creation_provenance \<Rightarrow> string \<Rightarrow> bool" where
  "legacy_provenance_matches sha rt p container_id \<longleftrightarrow>
     is_verifiable p \<and> pv_runtime_instance_id p = Some (rt_runtime_id rt) \<and> pv_boot_id p = Some (rt_boot_id rt)
     \<and> pv_resource_uuid p = Some (canonical_uuid sha container_id) \<and> pv_resource_generation p > 0"

definition provenance_value_matches ::
  "(bytes \<Rightarrow> bytes) \<Rightarrow> 't runtime_authorization \<Rightarrow> creation_provenance \<Rightarrow> string \<Rightarrow> bool" where
  "provenance_value_matches sha rt p container_id \<longleftrightarrow>
     is_verifiable p \<and> pv_runtime_instance_id p = Some (rt_runtime_id rt) \<and> pv_boot_id p = Some (rt_boot_id rt)
     \<and> pv_resource_uuid p = Some (canonical_uuid sha container_id) \<and> pv_resource_generation p > 0
     \<and> pv_journal_id p = map_option j_journal_id (rt_journal rt)"

definition provenance_matches :: "(bytes \<Rightarrow> bytes) \<Rightarrow> 't runtime_authorization \<Rightarrow> container_record \<Rightarrow> bool" where
  "provenance_matches sha rt c \<longleftrightarrow> provenance_value_matches sha rt (cr_creation_provenance c) (cr_id c)"

section \<open>Requests and records\<close>

record run_mount_fact =
  rm_class :: mount_class
  rm_mount_id :: u64
  rm_device_id :: u64
  rm_inode :: u64
  rm_open_flags :: u64
  rm_target_digest :: bytes

record run_security_facts =
  rs_capabilities :: "string list"
  rs_mounts :: "run_mount_fact list"
  rs_network_ids :: "string list"
  rs_privileged :: bool
  rs_readonly_rootfs :: bool
  rs_no_new_privileges :: bool
  rs_mount_sources_approved :: "bool option"
  rs_execution_digest :: "string option"
  rs_parent_resource_id :: "string option"

definition default_run :: run_security_facts where
  "default_run =
     \<lparr>rs_capabilities = [], rs_mounts = [], rs_network_ids = [], rs_privileged = False,
      rs_readonly_rootfs = False, rs_no_new_privileges = False, rs_mount_sources_approved = None,
      rs_execution_digest = None, rs_parent_resource_id = None\<rparr>"

definition mount_handle_of :: "run_mount_fact \<Rightarrow> mount_handle" where
  "mount_handle_of m =
     \<lparr>mh_class = rm_class m, mh_mount_id = rm_mount_id m, mh_device_id = rm_device_id m,
      mh_inode = rm_inode m, mh_open_flags = rm_open_flags m, mh_target_digest = rm_target_digest m\<rparr>"

definition is_network_endpoint :: "auth_action \<Rightarrow> bool" where
  "is_network_endpoint action \<longleftrightarrow> action \<in> {Act_NetworkAttach, Act_NetworkDetach}"

definition witness_action_of :: "auth_action \<Rightarrow> witness_action option" where
  "witness_action_of action =
     (case action of
        Act_ContainerCreate \<Rightarrow> Some ContainerCreate | Act_ContainerRun \<Rightarrow> Some ContainerRun
      | Act_ContainerExec \<Rightarrow> Some ContainerExec | Act_ContainerPause \<Rightarrow> Some ContainerPause
      | Act_ContainerResume \<Rightarrow> Some ContainerResume | Act_ContainerStop \<Rightarrow> Some ContainerStop
      | Act_ContainerKill \<Rightarrow> Some ContainerKill | Act_ContainerRestart \<Rightarrow> Some ContainerRestart
      | Act_ContainerStart \<Rightarrow> Some ContainerStart | Act_ContainerDelete \<Rightarrow> Some ContainerDelete
      | Act_ContainerRename \<Rightarrow> Some ContainerRename
      | Act_ContainerArchiveWrite \<Rightarrow> Some ContainerArchiveWrite
      | Act_ContainerUpdate \<Rightarrow> Some ContainerUpdate | Act_NetworkAttach \<Rightarrow> Some NetworkAttach
      | Act_NetworkDetach \<Rightarrow> Some NetworkDetach | _ \<Rightarrow> None)"

definition operation_of :: "'t host \<Rightarrow> 't runtime_authorization \<Rightarrow> bytes" where
  "operation_of h rt =
     (case Option.bind (rt_origin rt) ro_request_id of None \<Rightarrow> h_operation h | Some request_id \<Rightarrow> request_id)"

definition check_origin ::
  "(bytes \<Rightarrow> bytes) \<Rightarrow> 't host \<Rightarrow> 't request_origin option \<Rightarrow> policy_snapshot \<Rightarrow> auth_action \<Rightarrow> container_record
    \<Rightarrow> mediation_error + unit" where
  "check_origin sha h origin pin action c =
     (case origin of
        None \<Rightarrow> Inr ()
      | Some o' \<Rightarrow>
          if \<not> revalidate_transport (h_revalidate h) o' then Inl ME_Identity
          else if \<not> fanout_integrity_valid sha o' then Inl ME_Identity
          else
            (case ro_fanout o' of
               None \<Rightarrow> Inr ()
             | Some f \<Rightarrow>
                 if fo_expected_action f \<noteq> action \<or> cr_name c \<noteq> Some (fo_expected_resource f)
                    \<or> now_ms h > fo_deadline_unix_ms f \<or> fo_policy_generation f \<noteq> sn_generation pin
                    \<or> fo_policy_digest f \<noteq> sn_digest pin
                 then Inl ME_Stale
                 else if action \<in> {Act_ContainerStop, Act_ContainerDelete}
                    \<and> \<not> fanout_request_digest_matches (compose_down_executor_digest sha c action) o'
                 then Inl ME_Stale
                 else Inr ()))"

definition mediated_context ::
  "(bytes \<Rightarrow> bytes) \<Rightarrow> 't request_origin option \<Rightarrow> auth_action \<Rightarrow> container_record \<Rightarrow> resource_state
    \<Rightarrow> run_security_facts \<Rightarrow> bytes \<Rightarrow> request_context" where
  "mediated_context sha origin action c state run operation =
     \<lparr>rx_request_id = uuid_from_raw operation, rx_principal = map_option ro_principal origin,
      rx_action = action,
      rx_resource =
        \<lparr>res_kind = (if is_network_endpoint action then Kind_Network else Kind_Container),
         res_id = canonical_uuid sha (cr_id c), res_owner = None, res_generation = generation_of c\<rparr>,
      rx_facts = default_facts
        \<lparr>rf_image_digest := map_option snd (image_of c), rf_mounts := map rm_class (rs_mounts run),
         rf_network_ids := rs_network_ids run, rf_requested_capabilities := rs_capabilities run,
         rf_privileged := rs_privileged run, rf_lifecycle_state := Some state,
         rf_readonly_rootfs := rs_readonly_rootfs run, rf_no_new_privileges := rs_no_new_privileges run,
         rf_mount_sources_approved := rs_mount_sources_approved run,
         rf_execution_digest := rs_execution_digest run,
         rf_parent_resource_id := rs_parent_resource_id run\<rparr>,
      rx_fanout = Option.bind origin ro_fanout\<rparr>"

definition mediated_bindings :: "container_record \<Rightarrow> resource_state \<Rightarrow> run_security_facts \<Rightarrow> execution_bindings" where
  "mediated_bindings c state run =
     \<lparr>eb_image = map_option (\<lambda>(reference, digest).
        \<lparr>ib_reference = reference, ib_digest = digest, ib_plan_digest = None\<rparr>) (image_of c),
      eb_resource_generation = generation_of c, eb_state_precondition = Some state,
      eb_device_identity = None, eb_mount_handles = map mount_handle_of (rs_mounts run),
      eb_operation_plan_digest = None\<rparr>"

definition mediated_request ::
  "(bytes \<Rightarrow> bytes) \<Rightarrow> 't request_origin option \<Rightarrow> policy_snapshot \<Rightarrow> auth_action \<Rightarrow> container_record \<Rightarrow> resource_state
    \<Rightarrow> run_security_facts \<Rightarrow> bytes \<Rightarrow> canonical_request" where
  "mediated_request sha origin pin action c state run operation =
     canonical_request_new (mediated_context sha origin action c state run operation) pin
       (mediated_bindings c state run) (mediated_bindings c state run)"

definition record_template ::
  "(bytes \<Rightarrow> bytes) \<Rightarrow> 't host \<Rightarrow> 't runtime_authorization \<Rightarrow> canonical_request \<Rightarrow> bytes \<Rightarrow> auth_action
    \<Rightarrow> mediation_error + witness_record" where
  "record_template sha h rt q operation action =
     rbind (ok_or ME_Identity (h_to_json h (cq_context q))) (\<lambda>request_bytes.
     rbind (map_err (\<lambda>_. ME_Identity) (pseudonymize sha (bstr ''witness/resource'') (rt_pseudonym_key rt)
              (bstr (res_id (rx_resource (cq_context q)))))) (\<lambda>resource.
     rbind (map_err (\<lambda>_. ME_Identity) (pseudonymize sha (bstr ''witness/principal'') (rt_pseudonym_key rt)
              (bstr (case rt_origin rt of None \<Rightarrow> ''local-unresolved'' | Some o' \<Rightarrow> rp_id (ro_principal o'))))) (\<lambda>actor.
     rbind (ok_or ME_Panic (witness_action_of action)) (\<lambda>wa.
     Inr \<lparr>wr_epoch = 1, wr_sequence = 0, wr_previous_hash = replicate 32 0, wr_event_id = h_event h,
       wr_request_id = operation, wr_runtime_instance_id = rt_runtime_id rt, wr_boot_id = rt_boot_id rt,
       wr_principal = actor,
       wr_invocation = (case rt_origin rt of None \<Rightarrow> Inv_Cli | Some o' \<Rightarrow> ro_invocation o'),
       wr_action = wa,
       wr_resource_kind = (if is_network_endpoint action then RK_Network else RK_Container),
       wr_resource = resource, wr_resource_generation = eb_resource_generation (cq_expected q),
       wr_policy_version = cq_policy_generation q, wr_policy_digest = cq_policy_digest q,
       wr_decision_id = None, wr_rule = None, wr_decision = None, wr_reason = None,
       wr_request_digest = sha request_bytes, wr_result_digest = None,
       wr_wall_time_ns = of_nat (min (h_now_ns h) (2 ^ 63 - 1)),
       wr_monotonic_ns = of_nat (min (h_now_ns h) (2 ^ 64 - 1)),
       wr_stage = St_RequestReceived, wr_outcome = Out_None, wr_recovery_link = None,
       wr_path_class = None, wr_device_class = None, wr_correlation_digest = None\<rparr>))))"

definition at_stage :: "witness_record \<Rightarrow> witness_stage \<Rightarrow> byte \<Rightarrow> witness_record" where
  "at_stage template stage salt =
     template\<lparr>wr_stage := stage, wr_event_id := (wr_event_id template)[0 := wr_event_id template ! 0 XOR salt]\<rparr>"

definition rule_summary :: "(bytes \<Rightarrow> bytes) \<Rightarrow> bytes \<Rightarrow> bytes" where
  "rule_summary sha v = take 16 (sha v)"

definition mediated_recipe ::
  "(bytes \<Rightarrow> bytes) \<Rightarrow> auth_action \<Rightarrow> container_record \<Rightarrow> witness_record \<Rightarrow> bytes \<Rightarrow> mediation_error + recovery_recipe" where
  "mediated_recipe sha action c template operation =
     (let wa = wr_action template;
          observation = sha (bstr ''ferrocrate/recovery-observation/v1'' @ [action_u8 wa] @ bstr (cr_id c)
            @ bstr (cr_status c) @ u32_to_be (cr_pid c) @ u64_to_be (generation_of c)) in
      rbind (if is_network_endpoint action then Inr TS_InversePrecondition
             else ok_or ME_Identity (for_container_action wa)) (\<lambda>strategy.
      map_err (\<lambda>_. ME_Identity)
        (for_original_with_observation wa (if is_network_endpoint action then RK_Network else RK_Container)
           (if is_network_endpoint action then NetworkDetach else ContainerDelete)
           (wr_request_digest template) (generation_of c) strategy observation operation)))"

section \<open>Authorisation\<close>

record mutation_permit =
  mp_proof :: authorized_request
  mp_intent :: "durable_intent option"
  mp_operation :: bytes
  mp_decision_id :: "bytes option"
  mp_journal_id :: "bytes option"
  mp_template :: witness_record

text \<open>The verdict of the gate, with the emergency authority used up when the policy would deny.\<close>

definition gate_verdict ::
  "'t host \<Rightarrow> canonical_request \<Rightarrow> auth_action \<Rightarrow> container_record \<Rightarrow> bytes \<Rightarrow> 't runtime_authorization
    \<Rightarrow> (denial + authorized_request) \<times> 't runtime_authorization" where
  "gate_verdict h q action c operation rt =
     (let (would_deny, metrics) = policy_would_deny q (rt_metrics rt);
          (override, emergency) =
            (case (rt_emergency rt, rt_origin rt) of
               (Some authority, Some o') \<Rightarrow>
                 if would_deny = Inr True then
                   (let (granted, authority) = consume
                      \<lparr>eu_action = action, eu_resource = cr_id c, eu_generation = generation_of c,
                       eu_principal = rp_id (ro_principal o'), eu_policy_digest = cq_policy_digest q,
                       eu_operation_id = operation\<rparr> (h_clock h) authority
                    in (granted, Some authority))
                 else (False, Some authority)
             | (emergency, _) \<Rightarrow> (False, emergency))
      in if override then (authorize_emergency q, rt\<lparr>rt_metrics := metrics, rt_emergency := emergency\<rparr>)
         else (let (verdict, metrics) = gate_authorize q metrics
               in (verdict, rt\<lparr>rt_metrics := metrics, rt_emergency := emergency\<rparr>)))"

definition allowed_record :: "(bytes \<Rightarrow> bytes) \<Rightarrow> 't host \<Rightarrow> witness_record \<Rightarrow> authorized_request \<Rightarrow> witness_record" where
  "allowed_record sha h template proof =
     (at_stage template St_Decision 2)
       \<lparr>wr_decision := Some True, wr_decision_id := Some (h_decision h),
        wr_rule := Some (rule_summary sha (bstr (ad_matched_rule (au_decision proof)))),
        wr_reason := (if ad_reason (au_decision proof) = RC_EmergencyOverride then Some Rsn_EmergencyOverride else None)\<rparr>"

definition refused_record :: "(bytes \<Rightarrow> bytes) \<Rightarrow> 't host \<Rightarrow> witness_record \<Rightarrow> witness_record" where
  "refused_record sha h template =
     (at_stage template St_Decision 2)
       \<lparr>wr_decision := Some False, wr_decision_id := Some (h_decision h),
        wr_rule := Some (rule_summary sha (bstr ''policy.denied'')), wr_reason := Some Rsn_PolicyDenied\<rparr>"

definition denied_record :: "'t host \<Rightarrow> witness_record \<Rightarrow> witness_record" where
  "denied_record h template =
     (at_stage template St_Denied 3)
       \<lparr>wr_decision_id := Some (h_decision h), wr_reason := Some Rsn_PolicyDenied, wr_outcome := Out_Denied\<rparr>"

definition settle ::
  "(bytes \<Rightarrow> bytes) \<Rightarrow> 't host \<Rightarrow> witness_record \<Rightarrow> bytes \<Rightarrow> denial + authorized_request \<Rightarrow> 't runtime_authorization
    \<Rightarrow> (mediation_error + mutation_permit) \<times> 't runtime_authorization" where
  "settle sha h template operation verdict rt =
     (case verdict of
        Inr proof \<Rightarrow>
          (case with_journal (append_decision sha operation (allowed_record sha h template proof)) rt of
             (Inl e, rt) \<Rightarrow> (Inl e, rt)
           | (Inr intent, rt) \<Rightarrow>
               (Inr \<lparr>mp_proof = proof, mp_intent = intent, mp_operation = operation,
                     mp_decision_id = (if rt_journal rt = None then None else Some (h_decision h)),
                     mp_journal_id = map_option j_journal_id (rt_journal rt), mp_template = template\<rparr>, rt))
      | Inl denial \<Rightarrow>
          (case with_journal (deny sha operation (refused_record sha h template) (denied_record h template)) rt of
             (Inl e, rt) \<Rightarrow> (Inl e, rt)
           | (Inr _, rt) \<Rightarrow> (Inl (ME_Denied (dn_code denial)), rt)))"

definition receive_request ::
  "(bytes \<Rightarrow> bytes) \<Rightarrow> auth_action \<Rightarrow> container_record \<Rightarrow> witness_record \<Rightarrow> bytes \<Rightarrow> 't runtime_authorization
    \<Rightarrow> (mediation_error + unit) \<times> 't runtime_authorization" where
  "receive_request sha action c template operation rt =
     (if rt_journal rt = None then (Inr (), rt)
      else
        (case mediated_recipe sha action c template operation of
           Inl e \<Rightarrow> (Inl e, rt)
         | Inr recipe \<Rightarrow>
             (case with_journal (append_received sha operation (generation_of c) recipe
                     (at_stage template St_RequestReceived 1)) rt of
                (Inl e, rt) \<Rightarrow> (Inl e, rt)
              | (Inr _, rt) \<Rightarrow> (Inr (), rt))))"

definition emergency_exempt :: "'t runtime_authorization \<Rightarrow> auth_action \<Rightarrow> bool" where
  "emergency_exempt rt action \<longleftrightarrow>
     rt_emergency rt \<noteq> None \<and> action \<in> {Act_ContainerStop, Act_ContainerKill, Act_ContainerDelete}"

definition authorize_with_facts ::
  "(bytes \<Rightarrow> bytes) \<Rightarrow> 't host \<Rightarrow> auth_action \<Rightarrow> container_record \<Rightarrow> run_security_facts option \<Rightarrow> 't runtime_authorization
    \<Rightarrow> (mediation_error + mutation_permit) \<times> 't runtime_authorization" where
  "authorize_with_facts sha h action c run rt =
     (if \<not> emergency_exempt rt action \<and> \<not> gate_admit (host_admission sha h rt) action
      then (Inl ME_CheckpointStale, rt)
      else
        (case lifecycle_state (cr_status c) of
           None \<Rightarrow> (Inl ME_Stale, rt)
         | Some state \<Rightarrow>
             (let (pin, rt) = rt_pin sha h rt;
                  operation = operation_of h rt;
                  q = mediated_request sha (rt_origin rt) pin action c state
                        (case run of None \<Rightarrow> default_run | Some facts \<Rightarrow> facts) operation in
              case rbind (check_origin sha h (rt_origin rt) pin action c) (\<lambda>_.
                     record_template sha h rt q operation action) of
                Inl e \<Rightarrow> (Inl e, rt)
              | Inr template \<Rightarrow>
                  (case receive_request sha action c template operation rt of
                     (Inl e, rt) \<Rightarrow> (Inl e, rt)
                   | (Inr _, rt) \<Rightarrow>
                       (case gate_verdict h q action c operation rt of
                          (verdict, rt) \<Rightarrow> settle sha h template operation verdict rt)))))"

definition authorize ::
  "(bytes \<Rightarrow> bytes) \<Rightarrow> 't host \<Rightarrow> auth_action \<Rightarrow> container_record \<Rightarrow> 't runtime_authorization
    \<Rightarrow> (mediation_error + mutation_permit) \<times> 't runtime_authorization" where
  "authorize sha h action c rt = authorize_with_facts sha h action c None rt"

definition authorize_run ::
  "(bytes \<Rightarrow> bytes) \<Rightarrow> 't host \<Rightarrow> container_record \<Rightarrow> run_security_facts \<Rightarrow> 't runtime_authorization
    \<Rightarrow> (mediation_error + mutation_permit) \<times> 't runtime_authorization" where
  "authorize_run sha h c facts rt = authorize_with_facts sha h Act_ContainerRun c (Some facts) rt"

text \<open>What a permit leaves in the record of a container that it created.\<close>

definition creation_provenance_of :: "mutation_permit \<Rightarrow> creation_provenance" where
  "creation_provenance_of p =
     (let q = au_canonical (mp_proof p) in
      \<lparr>pv_runtime_instance_id = Some (wr_runtime_instance_id (mp_template p)),
       pv_boot_id = Some (wr_boot_id (mp_template p)), pv_journal_id = mp_journal_id p,
       pv_resource_uuid = Some (res_id (rx_resource (cq_context q))),
       pv_resource_generation = eb_resource_generation (cq_expected q),
       pv_creator_operation_id = Some (mp_operation p),
       pv_image_digest = map_option ib_digest (eb_image (cq_expected q))\<rparr>)"

definition revalidate :: "(bytes \<Rightarrow> bytes) \<Rightarrow> mutation_permit \<Rightarrow> container_record \<Rightarrow> mediation_error + unit" where
  "revalidate sha p c =
     (let q = au_canonical (mp_proof p) in
      if res_id (rx_resource (cq_context q)) \<noteq> canonical_uuid sha (cr_id c)
         \<or> eb_resource_generation (cq_expected q) \<noteq> generation_of c
         \<or> eb_state_precondition (cq_expected q) \<noteq> lifecycle_state (cr_status c)
      then Inl ME_Stale else Inr ())"

definition outcome_record :: "(bytes \<Rightarrow> bytes) \<Rightarrow> bool \<Rightarrow> mutation_permit \<Rightarrow> witness_record" where
  "outcome_record sha succeeded p =
     (at_stage (mp_template p) St_Outcome 4)
       \<lparr>wr_decision_id := mp_decision_id p, wr_outcome := (if succeeded then Out_Succeeded else Out_Failed),
        wr_result_digest := Some (sha [if succeeded then 1 else 0]),
        wr_reason := (if succeeded then None else Some Rsn_ExecutionFailed)\<rparr>"

definition unknown_record :: "(bytes \<Rightarrow> bytes) \<Rightarrow> mutation_permit \<Rightarrow> witness_record" where
  "unknown_record sha p =
     (at_stage (mp_template p) St_Outcome 4)
       \<lparr>wr_decision_id := mp_decision_id p, wr_outcome := Out_OutcomeUnknown,
        wr_reason := Some Rsn_ExecutionFailed,
        wr_result_digest := Some (sha (bstr ''post-effect-persistence-unknown''))\<rparr>"

definition conclude_permit ::
  "(bytes \<Rightarrow> bytes) \<Rightarrow> mutation_permit \<Rightarrow> witness_record \<Rightarrow> 't runtime_authorization
    \<Rightarrow> (mediation_error + unit) \<times> 't runtime_authorization" where
  "conclude_permit sha p outcome rt =
     (case mp_intent p of
        None \<Rightarrow> (Inr (), rt)
      | Some intent \<Rightarrow>
          (case with_journal (complete sha intent outcome) rt of
             (Inl e, rt) \<Rightarrow> (Inl e, rt)
           | (Inr _, rt) \<Rightarrow> (Inr (), rt)))"

definition complete_permit ::
  "(bytes \<Rightarrow> bytes) \<Rightarrow> mutation_permit \<Rightarrow> bool \<Rightarrow> 't runtime_authorization
    \<Rightarrow> (mediation_error + unit) \<times> 't runtime_authorization" where
  "complete_permit sha p succeeded rt = conclude_permit sha p (outcome_record sha succeeded p) rt"

definition complete_unknown ::
  "(bytes \<Rightarrow> bytes) \<Rightarrow> mutation_permit \<Rightarrow> 't runtime_authorization \<Rightarrow> (mediation_error + unit) \<times> 't runtime_authorization" where
  "complete_unknown sha p rt = conclude_permit sha p (unknown_record sha p) rt"

section \<open>Recovery inside the runtime\<close>

definition recovery_template ::
  "(bytes \<Rightarrow> bytes) \<Rightarrow> 't host \<Rightarrow> 't runtime_authorization \<Rightarrow> string \<Rightarrow> witness_action \<Rightarrow> witness_resource_kind
    \<Rightarrow> mediation_error + witness_record" where
  "recovery_template sha h rt container_id original kind =
     rbind (map_err (\<lambda>_. ME_Identity) (pseudonymize sha (bstr ''witness/resource'') (rt_pseudonym_key rt)
              (bstr (canonical_uuid sha container_id)))) (\<lambda>resource.
     rbind (map_err (\<lambda>_. ME_Identity) (pseudonymize sha (bstr ''witness/principal'') (rt_pseudonym_key rt)
              (bstr ''ferrocrate.internal-recovery''))) (\<lambda>actor.
     Inr \<lparr>wr_epoch = 1, wr_sequence = 0, wr_previous_hash = replicate 32 0, wr_event_id = h_event h,
       wr_request_id = h_operation h, wr_runtime_instance_id = rt_runtime_id rt, wr_boot_id = rt_boot_id rt,
       wr_principal = actor, wr_invocation = Inv_InternalCleanup, wr_action = original,
       wr_resource_kind = kind, wr_resource = resource, wr_resource_generation = 1,
       wr_policy_version = 0, wr_policy_digest = replicate 32 0, wr_decision_id = None, wr_rule = None,
       wr_decision = None, wr_reason = None,
       wr_request_digest = sha (bstr ''ferrocrate/internal-network-recovery/v1'' @ bstr container_id),
       wr_result_digest = None, wr_wall_time_ns = of_nat (min (h_now_ns h) (2 ^ 63 - 1)),
       wr_monotonic_ns = of_nat (min (h_now_ns h) (2 ^ 64 - 1)), wr_stage = St_RequestReceived,
       wr_outcome = Out_None, wr_recovery_link = None, wr_path_class = None, wr_device_class = None,
       wr_correlation_digest = None\<rparr>))"

definition cleanup_authorization_action :: "witness_action \<Rightarrow> auth_action option" where
  "cleanup_authorization_action action =
     (case action of
        ContainerDelete \<Rightarrow> Some Act_ContainerDelete | NetworkDetach \<Rightarrow> Some Act_NetworkDetach
      | VolumeUnmount \<Rightarrow> Some Act_VolumeUnmount | _ \<Rightarrow> None)"

definition recovery_decision :: "(bytes \<Rightarrow> bytes) \<Rightarrow> 't host \<Rightarrow> witness_record \<Rightarrow> witness_record" where
  "recovery_decision sha h template =
     (at_stage template St_Decision 2)
       \<lparr>wr_decision := Some True, wr_decision_id := Some (h_decision h),
        wr_rule := Some (rule_summary sha (bstr ''internal.recovery.owned-intent''))\<rparr>"

definition begin_internal_recovery ::
  "(bytes \<Rightarrow> bytes) \<Rightarrow> 't host \<Rightarrow> string \<Rightarrow> witness_action \<Rightarrow> witness_action \<Rightarrow> witness_resource_kind
    \<Rightarrow> 't runtime_authorization \<Rightarrow> (mediation_error + bytes option) \<times> 't runtime_authorization" where
  "begin_internal_recovery sha h container_id original cleanup kind rt =
     (case rt_journal rt of
        None \<Rightarrow> (Inr None, rt)
      | Some j \<Rightarrow>
          (case rbind (recovery_template sha h rt container_id original kind) (\<lambda>template.
                  rbind (map_err (\<lambda>_. ME_Identity)
                           (for_original original kind cleanup (wr_request_digest template) 1)) (\<lambda>recipe.
                  Inr (template, recipe))) of
             Inl e \<Rightarrow> (Inl e, rt)
           | Inr (template, recipe) \<Rightarrow>
               (case with_journal (append_received sha (h_operation h) 1 recipe (at_stage template St_RequestReceived 1)) rt of
                  (Inl e, rt) \<Rightarrow> (Inl e, rt)
                | (Inr _, rt) \<Rightarrow>
                    (case cleanup_authorization_action cleanup of
                       None \<Rightarrow> (Inl ME_Identity, rt)
                     | Some action \<Rightarrow>
                         let resource = canonical_uuid sha container_id;
                             authority =
                               \<lparr>rc_operation = h_operation h, rc_resource = resource, rc_generation = 1,
                                rc_runtime = rt_runtime_id rt, rc_journal = j_journal_id j,
                                rc_boot = rt_boot_id rt, rc_action = action\<rparr> in
                         if \<not> admit_reserved_cleanup (host_admission sha h rt) action authority (h_operation h) resource
                                1 (rt_runtime_id rt) (j_journal_id j) (rt_boot_id rt)
                         then (Inl ME_CheckpointStale, rt)
                         else
                           (case with_journal (append_decision sha (h_operation h) (recovery_decision sha h template)) rt of
                              (Inl e, rt) \<Rightarrow> (Inl e, rt)
                            | (Inr _, rt) \<Rightarrow> (Inr (Some (h_operation h)), rt))))))"

definition begin_internal_network_recovery ::
  "(bytes \<Rightarrow> bytes) \<Rightarrow> 't host \<Rightarrow> string \<Rightarrow> 't runtime_authorization \<Rightarrow> (mediation_error + bytes option) \<times> 't runtime_authorization" where
  "begin_internal_network_recovery sha h container_id rt =
     begin_internal_recovery sha h container_id NetworkAttach NetworkDetach RK_Network rt"

definition begin_internal_container_recovery ::
  "(bytes \<Rightarrow> bytes) \<Rightarrow> 't host \<Rightarrow> string \<Rightarrow> 't runtime_authorization \<Rightarrow> (mediation_error + bytes option) \<times> 't runtime_authorization" where
  "begin_internal_container_recovery sha h container_id rt =
     begin_internal_recovery sha h container_id ContainerRun ContainerDelete RK_Container rt"

definition finish_internal_recovery ::
  "(bytes \<Rightarrow> bytes) \<Rightarrow> bytes option \<Rightarrow> bytes \<Rightarrow> bool \<Rightarrow> 't runtime_authorization
    \<Rightarrow> (mediation_error + unit) \<times> 't runtime_authorization" where
  "finish_internal_recovery sha operation observation recovered rt =
     (case operation of
        None \<Rightarrow> (Inr (), rt)
      | Some op_id \<Rightarrow>
          (case with_journal (jbind (jread (\<lambda>j. journal_recover op_id (j_store j))) (\<lambda>pending.
                  jbind (jlift pending) (\<lambda>pending.
                  reconcile_observed sha (evidence_verified pending observation recovered)))) rt of
             (Inl e, rt) \<Rightarrow> (Inl e, rt)
           | (Inr _, rt) \<Rightarrow> (Inr (), rt)))"

end
