(* ===== verification/Mediated.thy ===== *)
theory Mediated
  imports Mediation
begin

text \<open>
  What mediation guarantees: canonical identifiers, what a permit stands for, the records of a
  mediated operation, and the operations and roles for which no permit is ever minted.
\<close>

unbundle bit_operations_syntax

section \<open>Identifiers\<close>

lemma remove_char_notin: "c \<notin> set s \<Longrightarrow> remove_char c s = s"
  by (induction s) (auto simp: remove_char_def)

lemma remove_char_append [simp]: "remove_char c (a @ b) = remove_char c a @ remove_char c b"
  by (simp add: remove_char_def)

text \<open>The five groups of a string of 32 hexadecimal digits.\<close>

definition grouped :: "string \<Rightarrow> string" where
  "grouped s = take 8 s @ ''-'' @ subslice 8 12 s @ ''-'' @ subslice 12 16 s @ ''-'' @ subslice 16 20 s @ ''-'' @ drop 20 s"

lemma subslice_drop: "a \<le> b \<Longrightarrow> subslice a b s @ drop b s = drop a s"
  by (metis append_take_drop_id drop_drop le_add_diff_inverse2 subslice_def)

lemma groups_append: "take 8 s @ subslice 8 12 s @ subslice 12 16 s @ subslice 16 20 s @ drop 20 s = s"
  by (simp add: subslice_drop)

lemma hex_no_dash: "\<forall>c \<in> set s. is_ascii_hexdigit c \<Longrightarrow> CHR ''-'' \<notin> set s"
  by auto

lemma set_subslice: "set (subslice a b s) \<subseteq> set s"
  unfolding subslice_def by (meson order_trans set_drop_subset set_take_subset)

lemma hex_group_parts:
  assumes "length s = 32" "\<forall>c \<in> set s. is_ascii_hexdigit c"
  shows "hex_group 8 (take 8 s)" "hex_group 4 (subslice 8 12 s)" "hex_group 4 (subslice 12 16 s)"
    "hex_group 4 (subslice 16 20 s)" "hex_group 12 (drop 20 s)"
  using assms set_subslice [of _ _ s] set_take_subset [of 8 s] set_drop_subset [of 20 s]
  by (auto simp: hex_group_def)

lemma grouped_uuid:
  assumes "length s = 32" "\<forall>c \<in> set s. is_ascii_hexdigit c"
  shows "uuid_form (grouped s)"
  unfolding uuid_form_def grouped_def using hex_group_parts [OF assms] by blast

lemma grouped_compact:
  assumes "length s = 32" "\<forall>c \<in> set s. is_ascii_hexdigit c"
  shows "remove_char CHR ''-'' (grouped s) = s"
proof -
  have "remove_char CHR ''-'' t = t" if "set t \<subseteq> set s" for t
    using that hex_no_dash [OF assms(2)] by (intro remove_char_notin) auto
  note same = this [OF set_subslice] this [OF set_take_subset] this [OF set_drop_subset]
  have "remove_char CHR ''-'' ''-'' = []" by (simp add: remove_char_def)
  then show ?thesis unfolding grouped_def by (simp only: remove_char_append same append_Nil groups_append)
qed

lemma canonical_uuid_alt:
  "canonical_uuid sha i =
     (let s = remove_char CHR ''-'' i in
      if length s = 32 \<and> (\<forall>c \<in> set s. is_ascii_hexdigit c) then grouped s else uuid_from_raw (take 16 (sha (bstr i))))"
  by (auto simp: canonical_uuid_def grouped_def Let_def)

lemma uuid_from_raw_grouped:
  assumes "length bs = 16"
  shows "uuid_from_raw bs = grouped (concat (map hex_byte bs))" "length (concat (map hex_byte bs)) = 32"
    "\<forall>c \<in> set (concat (map hex_byte bs)). is_ascii_hexdigit c"
proof -
  have len: "length (concat (map hex_byte xs)) = 2 * length xs" for xs by (induction xs) auto
  then show l: "length (concat (map hex_byte bs)) = 32" using assms by simp
  then show "uuid_from_raw bs = grouped (concat (map hex_byte bs))"
    by (simp add: uuid_from_raw_def grouped_def subslice_def Let_def)
  show "\<forall>c \<in> set (concat (map hex_byte bs)). is_ascii_hexdigit c" using hex_byte_hex by auto
qed

lemma canonical_uuid_grouped:
  assumes "\<forall>x. length (sha x) = 32"
  obtains s where "canonical_uuid sha i = grouped s" "length s = 32" "\<forall>c \<in> set s. is_ascii_hexdigit c"
proof (cases "length (remove_char CHR ''-'' i) = 32 \<and> (\<forall>c \<in> set (remove_char CHR ''-'' i). is_ascii_hexdigit c)")
  case True
  then show ?thesis using that by (simp add: canonical_uuid_alt)
next
  case False
  have "length (take 16 (sha (bstr i))) = 16" using assms by simp
  note raw = uuid_from_raw_grouped [OF this]
  show ?thesis by (rule that [OF _ raw(2,3)]) (use False raw(1) in \<open>auto simp: canonical_uuid_alt Let_def\<close>)
qed

lemma canonical_uuid_form: "\<forall>x. length (sha x) = 32 \<Longrightarrow> uuid_form (canonical_uuid sha i)"
  by (metis canonical_uuid_grouped grouped_uuid)

text \<open>
  The canonical identifier of a container has the form of a UUID whatever the identifier of the
  container is, it is its own canonical identifier, and a dashed or undashed spelling of the same
  32 digits gives the same one.  The gate therefore never refuses a mediated request for its
  resource identifier.
\<close>

theorem canonical_uuid_canonical:
  assumes "\<forall>x. length (sha x) = 32"
  shows "uuid_form (canonical_uuid sha i) \<and> canonical_uuid sha (canonical_uuid sha i) = canonical_uuid sha i
    \<and> canonical_uuid sha (remove_char CHR ''-'' (canonical_uuid sha i)) = canonical_uuid sha i"
proof -
  obtain s where s: "canonical_uuid sha i = grouped s" "length s = 32" "\<forall>c \<in> set s. is_ascii_hexdigit c"
    by (rule canonical_uuid_grouped [OF assms])
  have "remove_char CHR ''-'' s = s" using hex_no_dash [OF s(3)] by (rule remove_char_notin)
  with s grouped_uuid [OF s(2,3)] grouped_compact [OF s(2,3)] show ?thesis by (simp add: canonical_uuid_alt)
qed

theorem canonical_uuid_canonical_witness:
  "uuid_form (canonical_uuid toy_sha ''web-1'')
   \<and> canonical_uuid toy_sha (canonical_uuid toy_sha ''web-1'') = canonical_uuid toy_sha ''web-1''"
  using canonical_uuid_canonical [OF length_toy_sha, of "''web-1''"] by blast

section \<open>Records of a mediated operation\<close>

lemma pseudonymize_length:
  assumes "pseudonymize sha purpose key v = Inr d" and "\<forall>x. length (sha x) = 32"
  shows "length d = 32"
  using assms by (auto simp: pseudonymize_def Let_def split: if_splits)

lemma pseudonymize_ok:
  "purpose \<noteq> [] \<Longrightarrow> length purpose \<le> 128 \<Longrightarrow> 32 \<le> length key \<Longrightarrow> \<exists>d. pseudonymize sha purpose key v = Inr d"
  by (simp add: pseudonymize_def Let_def)

lemma at_stage_sel [simp]:
  "wr_stage (at_stage t s k) = s" "wr_request_id (at_stage t s k) = wr_request_id t"
  "wr_request_digest (at_stage t s k) = wr_request_digest t"
  "wr_resource_generation (at_stage t s k) = wr_resource_generation t"
  "wr_action (at_stage t s k) = wr_action t" "wr_resource_kind (at_stage t s k) = wr_resource_kind t"
  "wr_event_id (at_stage t s k) = (wr_event_id t)[0 := wr_event_id t ! 0 XOR k]"
  by (simp_all add: at_stage_def)

lemma at_stage_wf: "wf_record t \<Longrightarrow> wf_record (at_stage t s k)"
  by (simp add: wf_record_def at_stage_def)

lemma salted_distinct:
  fixes xs :: bytes
  assumes "xs \<noteq> []" and "a \<noteq> b"
  shows "xs[0 := xs ! 0 XOR a] \<noteq> xs[0 := xs ! 0 XOR b]"
proof -
  have "xs ! 0 XOR a \<noteq> xs ! 0 XOR b"
    using assms(2) by (metis bit.xor_left_self)
  then show ?thesis using assms(1) by (metis length_greater_0_conv nth_list_update_eq)
qed

text \<open>The template of a request, field by field.\<close>

definition template_for ::
  "(bytes \<Rightarrow> bytes) \<Rightarrow> 't host \<Rightarrow> 't runtime_authorization \<Rightarrow> canonical_request \<Rightarrow> bytes \<Rightarrow> auth_action \<Rightarrow> witness_record \<Rightarrow> bool" where
  "template_for sha h rt q operation action t \<longleftrightarrow>
     wr_stage t = St_RequestReceived \<and> wr_outcome t = Out_None \<and> wr_decision_id t = None \<and> wr_rule t = None
     \<and> wr_decision t = None \<and> wr_reason t = None \<and> wr_result_digest t = None \<and> wr_recovery_link t = None
     \<and> wr_correlation_digest t = None \<and> wr_previous_hash t = replicate 32 0
     \<and> wr_event_id t = h_event h \<and> wr_request_id t = operation \<and> wr_runtime_instance_id t = rt_runtime_id rt
     \<and> wr_boot_id t = rt_boot_id rt \<and> Some (wr_action t) = witness_action_of action
     \<and> wr_resource_kind t = (if is_network_endpoint action then RK_Network else RK_Container)
     \<and> wr_resource_generation t = eb_resource_generation (cq_expected q)
     \<and> wr_policy_version t = cq_policy_generation q \<and> wr_policy_digest t = cq_policy_digest q"

lemma record_template_for:
  assumes "record_template sha h rt q operation action = Inr t" and "\<forall>x. length (sha x) = 32"
  shows "template_for sha h rt q operation action t" "length (wr_resource t) = 32" "length (wr_principal t) = 32"
    "length (wr_request_digest t) = 32"
  using assms pseudonymize_length [OF _ assms(2)]
  by (auto simp: record_template_def rbind_simps template_for_def)

lemma template_wf:
  assumes "record_template sha h rt q operation action = Inr t" and "\<forall>x. length (sha x) = 32"
    and "length (rt_runtime_id rt) = 16" "length (rt_boot_id rt) = 16" "length (h_event h) = 16"
    and "length operation = 16" "length (cq_policy_digest q) = 32"
  shows "wf_record t"
  using record_template_for [OF assms(1,2)] assms(3-) by (simp add: wf_record_def template_for_def)

lemma mediated_recipe_ok:
  assumes "Some (wr_action t) = witness_action_of action" and "action \<noteq> Act_ContainerRename"
  shows "\<exists>recipe. mediated_recipe sha action c t operation = Inr recipe"
  using assms
  by (cases action) (simp_all add: witness_action_of_def mediated_recipe_def is_network_endpoint_def
      for_container_action_def for_original_with_observation_def closed_inverse_def expected_strategy_def Let_def)

lemma mediated_recipe_sel:
  assumes "mediated_recipe sha action c t operation = Inr recipe"
  shows "rr_precondition_digest recipe = wr_request_digest t" "rr_resource_generation recipe = generation_of c"
    "rr_original_action recipe = wr_action t"
    "rr_resource_kind recipe = (if is_network_endpoint action then RK_Network else RK_Container)"
  using assms by (auto simp: mediated_recipe_def rbind_simps for_original_with_observation_def Let_def split: if_splits)

lemma mediated_recipe_wf:
  assumes "mediated_recipe sha action c t operation = Inr recipe" and "\<forall>x. length (sha x) = 32"
    and "length (wr_request_digest t) = 32" "length operation = 16"
  shows "wf_recipe recipe"
  using assms for_original_wf by (fastforce simp: mediated_recipe_def rbind_simps Let_def split: if_splits)

lemma undecodable_actions:
  assumes "Some wa = witness_action_of action"
  shows "wa \<in> undecodable \<longleftrightarrow> action \<in> {Act_NetworkDetach, Act_ContainerStart}"
  using assms by (cases action) (simp_all add: witness_action_of_def undecodable_def)

lemma stage_records_valid:
  assumes "template_for sha h rt q operation action t"
  shows "valid_stage (at_stage t St_RequestReceived 1)" "valid_stage (allowed_record sha h t proof)"
    "valid_stage (refused_record sha h t)" "valid_stage (denied_record h t)"
    "mp_template p = t \<Longrightarrow> mp_decision_id p = Some did \<Longrightarrow> valid_stage (outcome_record sha succeeded p)"
  using assms
  by (simp_all add: template_for_def valid_stage_def at_stage_def allowed_record_def refused_record_def
      denied_record_def outcome_record_def)

lemma stage_records_wf:
  assumes "wf_record t" and "\<forall>x. length (sha x) = 32" and "length (h_decision h) = 16"
  shows "wf_record (at_stage t St_RequestReceived 1)" "wf_record (allowed_record sha h t proof)"
    "mp_template p = t \<Longrightarrow> mp_decision_id p = Some (h_decision h) \<Longrightarrow> wf_record (outcome_record sha succeeded p)"
  using assms
  by (simp_all add: wf_record_def at_stage_def allowed_record_def outcome_record_def rule_summary_def)

text \<open>The records of a permitted operation are what the journal expects of a client.\<close>

lemma mediated_submission:
  assumes t: "template_for sha h rt q operation action t" "wf_record t"
    and recipe: "mediated_recipe sha action c t operation = Inr recipe"
    and gen: "eb_resource_generation (cq_expected q) = generation_of c"
    and act: "action \<notin> {Act_NetworkDetach, Act_ContainerStart}"
    and len: "\<forall>x. length (sha x) = 32" "length operation = 16" "length (h_decision h) = 16"
    and p: "mp_template p = t" "mp_decision_id p = Some (h_decision h)"
  shows "submission (generation_of c) recipe (at_stage t St_RequestReceived 1) (allowed_record sha h t proof)
    (outcome_record sha succeeded p)"
proof -
  have ev: "wr_event_id t \<noteq> []" using t(2) by (auto simp: wf_record_def)
  have "length (wr_request_digest t) = 32" using t(2) by (simp add: wf_record_def)
  note wf = mediated_recipe_wf [OF recipe len(1) this len(2)] and sel = mediated_recipe_sel [OF recipe]
  have "rr_original_action recipe \<notin> undecodable"
    using undecodable_actions [of "wr_action t" action] t(1) act sel(3) by (simp add: template_for_def)
  then have "recipe_decode (recipe_encode (generation_of c) recipe) = Some (generation_of c, recipe)"
    by (rule recipe_decode_encode [OF wf])
  moreover have "distinct (map wr_event_id [at_stage t St_RequestReceived 1, allowed_record sha h t proof,
      outcome_record sha succeeded p])"
    using salted_distinct [OF ev] p by (simp add: allowed_record_def outcome_record_def)
  moreover have "\<forall>x \<in> {at_stage t St_RequestReceived 1, allowed_record sha h t proof, outcome_record sha succeeded p}.
      wf_record x \<and> valid_stage x"
    using stage_records_valid [OF t(1)] stage_records_wf [OF t(2) len(1,3)] p by blast
  ultimately show ?thesis
    unfolding submission_def using t(1) p sel gen
    by (simp add: template_for_def same_request_def request_binding_from_def allowed_record_def outcome_record_def at_stage_def)
qed

section \<open>What a permit stands for\<close>

definition emergency_use_of :: "'t request_origin \<Rightarrow> canonical_request \<Rightarrow> auth_action \<Rightarrow> container_record \<Rightarrow> bytes \<Rightarrow> emergency_use" where
  "emergency_use_of origin q action c operation =
     \<lparr>eu_action = action, eu_resource = cr_id c, eu_generation = generation_of c,
      eu_principal = rp_id (ro_principal origin), eu_policy_digest = cq_policy_digest q, eu_operation_id = operation\<rparr>"

text \<open>An authority that covers exactly this use, unused before and used up after.\<close>

definition overridden ::
  "'t host \<Rightarrow> canonical_request \<Rightarrow> auth_action \<Rightarrow> container_record \<Rightarrow> bytes \<Rightarrow> 't runtime_authorization \<Rightarrow> 't runtime_authorization \<Rightarrow> bool" where
  "overridden h q action c operation rt rt' \<longleftrightarrow>
     (\<exists>authority origin. rt_emergency rt = Some authority \<and> rt_origin rt = Some origin
        \<and> in_scope authority (emergency_use_of origin q action c operation) (h_clock h)
        \<and> \<not> ea_consumed authority \<and> rt_emergency rt' = Some (authority\<lparr>ea_consumed := True\<rparr>))"

lemma gate_verdict_state:
  assumes "gate_verdict h q action c operation rt = (verdict, rt')"
  shows "rt_journal rt' = rt_journal rt" "rt_policies rt' = rt_policies rt" "rt_origin rt' = rt_origin rt"
  using assms by (auto simp: gate_verdict_def Let_def split: prod.splits option.splits if_splits)

lemma gate_authorize_proof:
  assumes "gate_authorize q m = (Inr pf, m')"
  shows "bound_request q" "au_canonical pf = q" "ad_allowed (evaluate (sn_document (cq_policy q)) (cq_context q))"
  using assms gate_authorize_ok [of q m pf] by simp_all

lemma gate_verdict_proof:
  assumes "gate_verdict h q action c operation rt = (Inr pf, rt')"
  shows "bound_request q \<and> au_canonical pf = q
    \<and> (ad_allowed (evaluate (sn_document (cq_policy q)) (cq_context q)) \<or> overridden h q action c operation rt rt')"
  using assms
  by (auto simp: gate_verdict_def Let_def consume_def authorize_emergency_ok overridden_def emergency_use_of_def
      dest: gate_authorize_proof split: prod.splits option.splits if_splits)

text \<open>The steps behind a permit.\<close>

definition request_for ::
  "(bytes \<Rightarrow> bytes) \<Rightarrow> 't host \<Rightarrow> auth_action \<Rightarrow> container_record \<Rightarrow> resource_state \<Rightarrow> run_security_facts option
    \<Rightarrow> 't runtime_authorization \<Rightarrow> canonical_request" where
  "request_for sha h action c state run rt =
     mediated_request sha (rt_origin rt) (fst (rt_pin sha h rt)) action c state
       (case run of None \<Rightarrow> default_run | Some facts \<Rightarrow> facts) (operation_of h rt)"

lemma rt_pin_state:
  "rt_origin (snd (rt_pin sha h rt)) = rt_origin rt" "rt_journal (snd (rt_pin sha h rt)) = rt_journal rt"
  "rt_emergency (snd (rt_pin sha h rt)) = rt_emergency rt" "operation_of h (snd (rt_pin sha h rt)) = operation_of h rt"
  "rt_runtime_id (snd (rt_pin sha h rt)) = rt_runtime_id rt" "rt_boot_id (snd (rt_pin sha h rt)) = rt_boot_id rt"
  "rt_pseudonym_key (snd (rt_pin sha h rt)) = rt_pseudonym_key rt" "rt_metrics (snd (rt_pin sha h rt)) = rt_metrics rt"
  by (simp_all add: rt_pin_def operation_of_def split: prod.splits)

lemma record_template_pin [simp]:
  "record_template sha h (snd (rt_pin sha h rt)) q operation action = record_template sha h rt q operation action"
  by (simp add: record_template_def rt_pin_state)

lemma authorize_steps:
  "authorize_with_facts sha h action c run rt =
     (if \<not> emergency_exempt rt action \<and> \<not> gate_admit (host_admission sha h rt) action then (Inl ME_CheckpointStale, rt)
      else case lifecycle_state (cr_status c) of None \<Rightarrow> (Inl ME_Stale, rt) | Some state \<Rightarrow>
        let rt0 = snd (rt_pin sha h rt); q = request_for sha h action c state run rt; operation = operation_of h rt in
        case rbind (check_origin sha h (rt_origin rt) (fst (rt_pin sha h rt)) action c)
               (\<lambda>_. record_template sha h rt q operation action) of
          Inl e \<Rightarrow> (Inl e, rt0)
        | Inr t \<Rightarrow>
            (case receive_request sha action c t operation rt0 of
               (Inl e, rt) \<Rightarrow> (Inl e, rt)
             | (Inr _, rt) \<Rightarrow>
                 (case gate_verdict h q action c operation rt of (verdict, rt) \<Rightarrow> settle sha h t operation verdict rt)))"
  by (simp add: authorize_with_facts_def request_for_def rt_pin_state case_prod_beta Let_def
      cong: option.case_cong sum.case_cong)

lemma authorize_permit:
  assumes "authorize_with_facts sha h action c run rt = (Inr p, rt')"
  obtains state t rt1 pf rt2 where "emergency_exempt rt action \<or> gate_admit (host_admission sha h rt) action"
    "lifecycle_state (cr_status c) = Some state"
    "check_origin sha h (rt_origin rt) (fst (rt_pin sha h rt)) action c = Inr ()"
    "record_template sha h rt (request_for sha h action c state run rt) (operation_of h rt) action = Inr t"
    "receive_request sha action c t (operation_of h rt) (snd (rt_pin sha h rt)) = (Inr (), rt1)"
    "gate_verdict h (request_for sha h action c state run rt) action c (operation_of h rt) rt1 = (Inr pf, rt2)"
    "settle sha h t (operation_of h rt) (Inr pf) rt2 = (Inr p, rt')"
proof -
  from assms obtain state t rt1 verdict rt2 where
    *: "emergency_exempt rt action \<or> gate_admit (host_admission sha h rt) action"
      "lifecycle_state (cr_status c) = Some state"
      "check_origin sha h (rt_origin rt) (fst (rt_pin sha h rt)) action c = Inr ()"
      "record_template sha h rt (request_for sha h action c state run rt) (operation_of h rt) action = Inr t"
      "receive_request sha action c t (operation_of h rt) (snd (rt_pin sha h rt)) = (Inr (), rt1)"
      "gate_verdict h (request_for sha h action c state run rt) action c (operation_of h rt) rt1 = (verdict, rt2)"
      "settle sha h t (operation_of h rt) verdict rt2 = (Inr p, rt')"
    unfolding authorize_steps
    by (auto simp: Let_def rbind_simps split: if_splits option.splits sum.splits prod.splits)
  then obtain pf where "verdict = Inr pf" by (cases verdict) (auto simp: settle_def split: prod.splits sum.splits)
  with * that show thesis by blast
qed

text \<open>The journal steps behind a permit: the request is received and its decision is durable.\<close>

lemma with_journal_Some:
  "rt_journal rt = Some j \<Longrightarrow> with_journal m rt = (Inr x, rt') \<longleftrightarrow>
     (\<exists>y j'. m j = (Inr y, j') \<and> x = Some y \<and> rt' = rt\<lparr>rt_journal := Some j'\<rparr>)"
  by (auto simp: with_journal_def split: prod.splits sum.splits)

lemma with_journal_None: "rt_journal rt = None \<Longrightarrow> with_journal m rt = (Inr None, rt)"
  by (simp add: with_journal_def)

lemma receive_request_ok:
  assumes "rt_journal rt = Some j"
  shows "receive_request sha action c t operation rt = (Inr u, rt') \<longleftrightarrow>
    (\<exists>recipe j'. mediated_recipe sha action c t operation = Inr recipe
       \<and> append_received sha operation (generation_of c) recipe (at_stage t St_RequestReceived 1) j = (Inr (), j')
       \<and> rt' = rt\<lparr>rt_journal := Some j'\<rparr>)"
  using assms
  by (auto simp: receive_request_def with_journal_Some [OF assms] split: sum.splits prod.splits)
    (auto simp: with_journal_def split: prod.splits sum.splits)

lemma settle_permit:
  assumes "rt_journal rt = Some j"
  shows "settle sha h t operation (Inr pf) rt = (Inr p, rt') \<longleftrightarrow>
    (\<exists>intent j'. append_decision sha operation (allowed_record sha h t pf) j = (Inr intent, j')
       \<and> p = \<lparr>mp_proof = pf, mp_intent = Some intent, mp_operation = operation, mp_decision_id = Some (h_decision h),
              mp_journal_id = Some (j_journal_id j'), mp_template = t\<rparr>
       \<and> rt' = rt\<lparr>rt_journal := Some j'\<rparr>)"
  using assms by (auto simp: settle_def with_journal_def split: sum.splits prod.splits)

lemma settle_permit_proof:
  assumes "settle sha h t operation (Inr pf) rt = (Inr p, rt')"
  shows "mp_proof p = pf" "mp_template p = t" "mp_operation p = operation" "rt_emergency rt' = rt_emergency rt"
  using assms by (auto simp: settle_def with_journal_def split: sum.splits prod.splits option.splits)

lemma receive_request_state:
  assumes "receive_request sha action c t operation rt = (r, rt')"
  shows "rt_emergency rt' = rt_emergency rt" "rt_origin rt' = rt_origin rt"
  using assms by (auto simp: receive_request_def with_journal_def split: sum.splits prod.splits option.splits if_splits)

lemma request_for_sel [simp]:
  "rx_action (cq_context (request_for sha h action c state run rt)) = action"
  "rx_principal (cq_context (request_for sha h action c state run rt)) = map_option ro_principal (rt_origin rt)"
  "rx_resource (cq_context (request_for sha h action c state run rt)) =
     \<lparr>res_kind = (if is_network_endpoint action then Kind_Network else Kind_Container),
      res_id = canonical_uuid sha (cr_id c), res_owner = None, res_generation = generation_of c\<rparr>"
  "cq_policy (request_for sha h action c state run rt) = fst (rt_pin sha h rt)"
  "cq_policy_digest (request_for sha h action c state run rt) = sn_digest (fst (rt_pin sha h rt))"
  "eb_resource_generation (cq_expected (request_for sha h action c state run rt)) = generation_of c"
  "eb_state_precondition (cq_expected (request_for sha h action c state run rt)) = Some state"
  by (simp_all add: request_for_def mediated_request_def canonical_request_new_def mediated_context_def mediated_bindings_def)

section \<open>What the journal has durably stored\<close>

text \<open>\<open>ensures m P\<close>: when \<open>m\<close> succeeds, the store it leaves satisfies \<open>P\<close>.\<close>

definition ensures :: "'a jm \<Rightarrow> (kv_store \<Rightarrow> bool) \<Rightarrow> bool" where
  "ensures m P \<longleftrightarrow> (\<forall>j x j'. m j = (Inr x, j') \<longrightarrow> P (j_store j'))"

lemma ensures_bind: "(\<And>x. ensures (k x) P) \<Longrightarrow> ensures (jbind m k) P"
  unfolding ensures_def jbind_def by (auto split: prod.splits sum.splits)

lemma ensures_prod: "(\<And>a b. ensures (k a b) P) \<Longrightarrow> ensures (case x of (a, b) \<Rightarrow> k a b) P"
  by (simp split: prod.split)

text \<open>A transaction followed by steps that leave the pending table alone.\<close>

lemma ensures_transaction:
  assumes "\<And>s s'. cb s = Inr s' \<Longrightarrow> P (s' T_Pending)" and "\<And>x. calm (k x)"
  shows "ensures (jbind (jtransaction cb) k) (\<lambda>s. P (s T_Pending))"
  unfolding ensures_def
proof (intro allI impI)
  fix j x j' assume *: "jbind (jtransaction cb) k j = (Inr x, j')"
  then obtain y j1 where 1: "jtransaction cb j = (Inr y, j1)" and 2: "k y j1 = (Inr x, j')"
    by (auto simp: jbind_def split: prod.splits sum.splits)
  from 1 obtain s' where "cb (j_store j) = Inr s'" "j_store j1 = s'"
    by (auto simp: jtransaction_def kv_transaction_def split: sum.splits prod.splits)
  then have "P (j_store j1 T_Pending)" using assms(1) by blast
  moreover have "j_store j' T_Pending = j_store j1 T_Pending"
    using assms(2) [of y] 2 unfolding calm_def same_settings_def by (metis snd_conv)
  ultimately show "P (j_store j' T_Pending)" by simp
qed

lemma received_pending:
  assumes "append_received sha op_id g recipe r j = (Inr u, j')"
  shows "kv_get T_Pending op_id (j_store j') = Some (recipe_encode g recipe)"
proof -
  have "ensures (append_received sha op_id g recipe r) (\<lambda>s. map_of (s T_Pending) op_id = Some (recipe_encode g recipe))"
    unfolding append_received_def Let_def journal_flush_def take_either_def
    by (intro ensures_transaction ensures_bind ensures_prod calm_intros) (auto simp: Let_def alist_put_lookup split: if_splits)
  with assms show ?thesis unfolding ensures_def kv_get_def by blast
qed

lemma decided_pending:
  assumes "append_decision sha op_id r j = (Inr intent, j')"
  shows "\<exists>v g recipe. kv_get T_Pending op_id (j_store j) = Some v \<and> recipe_decode v = Some (g, recipe)"
proof -
  have "\<exists>k. append_decision sha op_id r = jbind (jread j_epoch) (\<lambda>e.
     jbind (jguard (wr_stage (r\<lparr>wr_epoch := e\<rparr>) \<noteq> St_Decision) J_InvalidStage) (\<lambda>_.
     jbind (preflight FB_Decision) (\<lambda>_.
     jbind (jget T_Pending op_id) (\<lambda>pending.
     jbind (jlift (ok_or J_NotPending pending)) (\<lambda>pending.
     jbind (jlift (ok_or J_Corrupt (recipe_decode pending))) (k e pending))))))"
    unfolding append_decision_def Let_def by (rule exI, rule refl)
  with assms obtain j1 u v x where pre: "preflight FB_Decision j = (Inr u, j1)"
    and v: "kv_get T_Pending op_id (j_store j1) = Some v" "recipe_decode v = Some x"
    by (auto simp: jbind_def jread_def jguard_def jget_def jlift_def ok_or_def
        split: prod.splits sum.splits if_splits option.splits)
  have "calm (preflight FB_Decision)"
    unfolding preflight_def take_either_def by (intro calm_intros)
  with pre have "j_store j1 T_Pending = j_store j T_Pending"
    unfolding calm_def same_settings_def by (metis snd_conv)
  with v show ?thesis by (cases x) (simp add: kv_get_def)
qed

section \<open>Progress\<close>

text \<open>Identifiers of the lengths that the array types of the code fix.\<close>

definition wf_identities :: "'t host \<Rightarrow> 't runtime_authorization \<Rightarrow> bool" where
  "wf_identities h rt \<longleftrightarrow> length (rt_runtime_id rt) = 16 \<and> length (rt_boot_id rt) = 16
     \<and> length (rt_pseudonym_key rt) = 32 \<and> length (h_event h) = 16 \<and> length (h_decision h) = 16
     \<and> length (operation_of h rt) = 16"

text \<open>A request that nothing stands against: admitted, from a caller that is still there, for a
  container in a known state whose image, if any, is pinned, and allowed by the policy.\<close>

definition acceptable ::
  "(bytes \<Rightarrow> bytes) \<Rightarrow> 't host \<Rightarrow> auth_action \<Rightarrow> container_record \<Rightarrow> resource_state \<Rightarrow> run_security_facts option
    \<Rightarrow> 't runtime_authorization \<Rightarrow> bool" where
  "acceptable sha h action c state run rt \<longleftrightarrow>
     (emergency_exempt rt action \<or> gate_admit (host_admission sha h rt) action)
     \<and> lifecycle_state (cr_status c) = Some state
     \<and> check_origin sha h (rt_origin rt) (fst (rt_pin sha h rt)) action c = Inr ()
     \<and> h_to_json h (cq_context (request_for sha h action c state run rt)) \<noteq> None
     \<and> (\<forall>reference digest. image_of c = Some (reference, digest) \<longrightarrow>
          pinned_image_form \<lparr>ib_reference = reference, ib_digest = digest, ib_plan_digest = None\<rparr>)
     \<and> (pd_mode (sn_document (fst (rt_pin sha h rt))) \<noteq> AM_Enforce
        \<or> permitted (cq_context (request_for sha h action c state run rt)))"

lemma rt_pin_fst: "fst (rt_pin sha h rt) = fst (store_snapshot sha (h_toml h) (h_euid h) (h_fs h) (rt_policies rt))"
  by (simp add: rt_pin_def split: prod.splits)

lemma pin_digest_length:
  assumes "store_bound sha (h_toml h) (rt_policies rt)" and "\<forall>x. length (sha x) = 32"
  shows "length (sn_digest (fst (rt_pin sha h rt))) = 32"
proof -
  have "loaded_op sha (h_toml h) (h_euid h) (Snapshot (h_fs h))" by (simp add: loaded_op_def)
  from run_policy_op_bound [OF this assms(1)] show ?thesis
    using assms(2) by (auto simp: rt_pin_fst store_snapshot_def Let_def store_bound_def bound_snapshot_def snapshot_of_def)
qed

lemma mediated_bound:
  assumes "acceptable sha h action c state run rt" and "store_bound sha (h_toml h) (rt_policies rt)"
    and "\<forall>x. length (sha x) = 32"
  shows "bound_request (request_for sha h action c state run rt)"
proof -
  note canonical_uuid_form [OF assms(3), of "cr_id c"]
  moreover have "policy_bound (request_for sha h action c state run rt)"
    using store.pinned_policy_bound [OF assms(2)] by (simp add: request_for_def mediated_request_def rt_pin_fst)
  moreover have "mh_class \<circ> mount_handle_of = rm_class" by (simp add: fun_eq_iff mount_handle_of_def)
  ultimately show ?thesis
    using assms(1)
    by (auto simp: bound_request_def same_bindings_def agrees_with_facts_def acceptable_def request_for_def
        mediated_request_def canonical_request_new_def mediated_context_def mediated_bindings_def default_facts_def
        option.map_comp comp_def case_prod_unfold mount_handle_of_def cong: map_cong)
qed

lemma gate_verdict_allowed:
  assumes "bound_request q" "ad_allowed (evaluate (sn_document (cq_policy q)) (cq_context q))"
  obtains rt' where "gate_verdict h q action c operation rt =
      (Inr \<lparr>au_canonical = q, au_decision = evaluate (sn_document (cq_policy q)) (cq_context q)\<rparr>, rt')"
proof -
  have "fst (policy_would_deny q (rt_metrics rt)) = Inr False" using assms by (simp add: policy_would_deny_ok)
  moreover have "fst (gate_authorize q m) =
      Inr \<lparr>au_canonical = q, au_decision = evaluate (sn_document (cq_policy q)) (cq_context q)\<rparr>" for m
    using assms by (simp add: gate_authorize_ok)
  ultimately have "fst (gate_verdict h q action c operation rt) =
      Inr \<lparr>au_canonical = q, au_decision = evaluate (sn_document (cq_policy q)) (cq_context q)\<rparr>"
    by (simp add: gate_verdict_def Let_def case_prod_beta split: option.splits)
  then show ?thesis using that by (metis prod.collapse)
qed

lemma template_exists:
  assumes "h_to_json h (cq_context q) \<noteq> None" "length (rt_pseudonym_key rt) = 32" "witness_action_of action \<noteq> None"
  shows "\<exists>t. record_template sha h rt q operation action = Inr t"
proof -
  note ok = pseudonymize_ok [where key = "rt_pseudonym_key rt"]
  obtain a where "pseudonymize sha (bstr ''witness/resource'') (rt_pseudonym_key rt)
      (bstr (res_id (rx_resource (cq_context q)))) = Inr a"
    using ok [of "bstr ''witness/resource''"] assms(2) by (auto simp: bstr_def)
  moreover obtain b where "pseudonymize sha (bstr ''witness/principal'') (rt_pseudonym_key rt)
       (bstr (case rt_origin rt of None \<Rightarrow> ''local-unresolved'' | Some o' \<Rightarrow> rp_id (ro_principal o'))) = Inr b"
    using ok [of "bstr ''witness/principal''"] assms(2) by (auto simp: bstr_def)
  ultimately show ?thesis using assms(1,3) by (auto simp: record_template_def)
qed

text \<open>A request that is acceptable is permitted, and its three records reach the journal.\<close>

lemma mediation_progress:
  assumes sha: "\<forall>x. length (sha x) = 32" and jid: "length (jc_journal_id config) = 16"
    and j: "open_with_faults sha config faults fresh_disk = (Inr j0, d0)"
      "\<forall>op \<in> set ops. wf_op op" "length ops < 2 ^ 62" "j = run_ops sha ops j0"
      "j_mode j = Mode_Required" "j_faults j = {}" "1024 \<le> unat (j_segment_bytes j)"
      "524 * (2 * length ops + 3) + unat (j_reserve_total j) \<le> unat (j_max_bytes j)"
    and rt: "rt_journal rt = Some j" "store_bound sha (h_toml h) (rt_policies rt)" "wf_identities h rt"
    and act: "witness_action_of action \<noteq> None" "action \<notin> {Act_NetworkDetach, Act_ContainerStart, Act_ContainerRename}"
    and ok: "acceptable sha h action c state run rt"
    and new: "kv_get T_Operations (operation_of h rt) (j_store j) = None"
      "\<forall>k \<in> {1, 2, 4}. kv_get T_Events ((h_event h)[0 := h_event h ! 0 XOR k]) (j_store j) = None"
  shows "\<exists>p rt1 rt2 rs j3. authorize_with_facts sha h action c run rt = (Inr p, rt1)
    \<and> complete_permit sha p succeeded rt1 = (Inr (), rt2) \<and> rt_journal rt2 = Some j3
    \<and> journal_records (j_store j) = Inr (map (record_fields (jc_journal_id config)) rs)
    \<and> journal_records (j_store j3) = Inr (map (record_fields (jc_journal_id config))
        (rs @ stamp_all sha (jc_journal_id config) (j_epoch j) rs
          [at_stage (mp_template p) St_RequestReceived 1, allowed_record sha h (mp_template p) (mp_proof p),
           outcome_record sha succeeded p]))"
proof -
  let ?q = "request_for sha h action c state run rt" and ?op = "operation_of h rt" and ?rt0 = "snd (rt_pin sha h rt)"
  let ?pf = "\<lparr>au_canonical = ?q, au_decision = evaluate (sn_document (cq_policy ?q)) (cq_context ?q)\<rparr>"
  note a = ok [unfolded acceptable_def] and ids = rt(3) [unfolded wf_identities_def]
  obtain t where t: "record_template sha h rt ?q ?op action = Inr t"
    using template_exists [of h ?q rt action] a ids act(1) by blast
  note tf = record_template_for [OF t sha]
  have wf: "wf_record t" using template_wf [OF t sha] ids pin_digest_length [OF rt(2) sha] by simp
  obtain recipe where r: "mediated_recipe sha action c t ?op = Inr recipe"
    using mediated_recipe_ok [of t action sha c ?op] tf(1) act(2) by (auto simp: template_for_def)
  define p0 where "p0 = \<lparr>mp_proof = ?pf, mp_intent = None, mp_operation = ?op, mp_decision_id = Some (h_decision h),
      mp_journal_id = None, mp_template = t\<rparr>"
  have sub: "submission (generation_of c) recipe (at_stage t St_RequestReceived 1) (allowed_record sha h t ?pf)
      (outcome_record sha succeeded p0)"
    by (rule mediated_submission [OF tf(1) wf r]) (use act(2) sha ids in \<open>simp_all add: p0_def\<close>)
  have ev: "\<forall>x \<in> {at_stage t St_RequestReceived 1, allowed_record sha h t ?pf, outcome_record sha succeeded p0}.
      kv_get T_Events (wr_event_id x) (j_store j) = None"
    using new(2) tf(1) by (simp add: p0_def allowed_record_def outcome_record_def template_for_def)
  obtain rs j1 intent j2 j3 where rec: "append_received sha ?op (generation_of c) recipe (at_stage t St_RequestReceived 1) j = (Inr (), j1)"
    "append_decision sha ?op (allowed_record sha h t ?pf) j1 = (Inr intent, j2)"
    "complete sha intent (outcome_record sha succeeded p0) j2 = (Inr (), j3)"
    "journal_records (j_store j) = Inr (map (record_fields (jc_journal_id config)) rs)"
    "journal_records (j_store j3) = Inr (map (record_fields (jc_journal_id config))
        (rs @ stamp_all sha (jc_journal_id config) (j_epoch j) rs
          [at_stage t St_RequestReceived 1, allowed_record sha h t ?pf, outcome_record sha succeeded p0]))"
    using submission_recorded [OF sha jid j sub new(1) ev] by blast
  have rcv: "receive_request sha action c t ?op ?rt0 = (Inr (), ?rt0\<lparr>rt_journal := Some j1\<rparr>)"
    using receive_request_ok [of ?rt0 j] rt(1) r rec(1) by (simp add: rt_pin_state)
  obtain rt2 where gv: "gate_verdict h ?q action c ?op (?rt0\<lparr>rt_journal := Some j1\<rparr>) = (Inr ?pf, rt2)"
    by (rule gate_verdict_allowed [OF mediated_bound [OF ok rt(2) sha]]) (use a in \<open>simp add: evaluate_allowed_iff\<close>)
  define p where "p = \<lparr>mp_proof = ?pf, mp_intent = Some intent, mp_operation = ?op, mp_decision_id = Some (h_decision h),
      mp_journal_id = Some (j_journal_id j2), mp_template = t\<rparr>"
  have intent: "mp_intent p = Some intent" by (simp add: p_def)
  have st: "settle sha h t ?op (Inr ?pf) rt2 = (Inr p, rt2\<lparr>rt_journal := Some j2\<rparr>)"
    using settle_permit [of rt2 j1] gate_verdict_state(1) [OF gv] rec(2) by (simp add: p_def)
  have "authorize_with_facts sha h action c run rt = (Inr p, rt2\<lparr>rt_journal := Some j2\<rparr>)"
    using a t rcv gv st by (auto simp: authorize_steps Let_def)
  moreover have out: "outcome_record sha succeeded p = outcome_record sha succeeded p0"
    by (simp add: outcome_record_def p0_def p_def)
  moreover have "complete_permit sha p succeeded (rt2\<lparr>rt_journal := Some j2\<rparr>) = (Inr (), rt2\<lparr>rt_journal := Some j3\<rparr>)"
    using rec(3) out intent by (simp add: complete_permit_def conclude_permit_def with_journal_def)
  ultimately show ?thesis using rec(4,5)
    by (intro exI [of _ p] exI [of _ "rt2\<lparr>rt_journal := Some j2\<rparr>"] exI [of _ "rt2\<lparr>rt_journal := Some j3\<rparr>"]
        exI [of _ rs] exI [of _ j3]) (simp add: p_def)
qed

lemma no_recipe_for_rename: "mediated_recipe sha Act_ContainerRename c t operation = Inr recipe \<Longrightarrow> wr_action t \<noteq> ContainerRename"
  by (auto simp: mediated_recipe_def is_network_endpoint_def for_container_action_def Let_def)

text \<open>Which admission the gate holds changes nothing but the outcome of admission.\<close>

definition set_admission :: "mutation_admission option \<Rightarrow> 't runtime_authorization \<Rightarrow> 't runtime_authorization" where
  "set_admission a rt = rt\<lparr>rt_admission := a\<rparr>"

lemma set_admission_sel [simp]:
  "rt_journal (set_admission a rt) = rt_journal rt" "rt_origin (set_admission a rt) = rt_origin rt"
  "rt_emergency (set_admission a rt) = rt_emergency rt" "rt_policies (set_admission a rt) = rt_policies rt"
  "rt_metrics (set_admission a rt) = rt_metrics rt" "operation_of h (set_admission a rt) = operation_of h rt"
  "(set_admission a rt)\<lparr>rt_journal := j\<rparr> = set_admission a (rt\<lparr>rt_journal := j\<rparr>)"
  "(set_admission a rt)\<lparr>rt_policies := s\<rparr> = set_admission a (rt\<lparr>rt_policies := s\<rparr>)"
  "(set_admission a rt)\<lparr>rt_metrics := m, rt_emergency := e\<rparr> = set_admission a (rt\<lparr>rt_metrics := m, rt_emergency := e\<rparr>)"
  by (simp_all add: set_admission_def operation_of_def)

lemma admission_irrelevant:
  "rt_pin sha h (set_admission a rt) = map_prod id (set_admission a) (rt_pin sha h rt)"
  "receive_request sha action c t operation (set_admission a rt)
     = map_prod id (set_admission a) (receive_request sha action c t operation rt)"
  "gate_verdict h q action c operation (set_admission a rt) = map_prod id (set_admission a) (gate_verdict h q action c operation rt)"
  "settle sha h t operation verdict (set_admission a rt) = map_prod id (set_admission a) (settle sha h t operation verdict rt)"
  "record_template sha h (set_admission a rt) q operation action = record_template sha h rt q operation action"
proof -
  show "rt_pin sha h (set_admission a rt) = map_prod id (set_admission a) (rt_pin sha h rt)"
    by (simp add: rt_pin_def split: prod.splits)
  show "receive_request sha action c t operation (set_admission a rt)
     = map_prod id (set_admission a) (receive_request sha action c t operation rt)"
    by (simp add: receive_request_def with_journal_def split: option.splits prod.splits sum.splits)
  show "gate_verdict h q action c operation (set_admission a rt)
     = map_prod id (set_admission a) (gate_verdict h q action c operation rt)"
    by (simp add: gate_verdict_def Let_def split: option.splits prod.splits)
  show "settle sha h t operation verdict (set_admission a rt)
     = map_prod id (set_admission a) (settle sha h t operation verdict rt)"
    by (cases verdict; cases "rt_journal rt") (auto simp: settle_def with_journal_def split: prod.splits sum.splits)
  show "record_template sha h (set_admission a rt) q operation action = record_template sha h rt q operation action"
    by (simp add: record_template_def set_admission_def)
qed

lemma request_for_admission: "request_for sha h action c state run (set_admission a rt) = request_for sha h action c state run rt"
  by (simp add: request_for_def admission_irrelevant(1))

text \<open>Nothing in mediation changes the identity of the runtime.\<close>

lemma receive_request_identity:
  assumes "receive_request sha action c t operation rt = (r, rt')"
  shows "rt_runtime_id rt' = rt_runtime_id rt" "rt_boot_id rt' = rt_boot_id rt"
  using assms by (auto simp: receive_request_def with_journal_def split: sum.splits prod.splits option.splits if_splits)

lemma gate_verdict_identity:
  assumes "gate_verdict h q action c operation rt = (verdict, rt')"
  shows "rt_runtime_id rt' = rt_runtime_id rt" "rt_boot_id rt' = rt_boot_id rt"
  using assms by (auto simp: gate_verdict_def Let_def split: prod.splits option.splits if_splits)

lemma settle_identity:
  assumes "settle sha h t operation (Inr pf) rt = (Inr p, rt')"
  shows "rt_runtime_id rt' = rt_runtime_id rt" "rt_boot_id rt' = rt_boot_id rt"
  using assms by (auto simp: settle_def with_journal_def split: sum.splits prod.splits option.splits)

lemma is_uuid_iff: "is_uuid v \<longleftrightarrow> uuid_form v"
  unfolding is_uuid_def by (rule uuid_chars_iff)

section \<open>Properties\<close>

text \<open>C3.
  A permit stands for a mediated request.  Whoever gets a permit for an action on a container was
  admitted (or holds an emergency authority for a stop, kill or delete), the proof in it is bound
  to exactly this container: its canonical identifier, generation and lifecycle state, the caller
  and the policy that was active, it still revalidates against the container record, and either
  the policy is not enforced, or the access matrix permits the request, or an unused emergency
  authority for exactly this use was used up.  When there is a journal, the receipt of the request
  and the decision were appended durably before the permit was handed out.
\<close>

theorem permit_mediated:
  assumes "authorize_with_facts sha h action c run rt = (Inr p, rt')"
  shows "\<exists>q. au_canonical (mp_proof p) = q \<and> bound_request q \<and> revalidate sha p c = Inr ()
    \<and> rx_action (cq_context q) = action \<and> rx_principal (cq_context q) = map_option ro_principal (rt_origin rt)
    \<and> cq_policy q = fst (rt_pin sha h rt)
    \<and> (emergency_exempt rt action \<or> gate_admit (host_admission sha h rt) action)
    \<and> (pd_mode (sn_document (cq_policy q)) \<noteq> AM_Enforce \<or> permitted (cq_context q)
       \<or> overridden h q action c (mp_operation p) rt rt')
    \<and> (\<forall>j. rt_journal rt = Some j \<longrightarrow> (\<exists>recipe intent j1 j2.
         append_received sha (mp_operation p) (generation_of c) recipe (at_stage (mp_template p) St_RequestReceived 1) j = (Inr (), j1)
         \<and> append_decision sha (mp_operation p) (allowed_record sha h (mp_template p) (mp_proof p)) j1 = (Inr intent, j2)
         \<and> mp_intent p = Some intent \<and> rt_journal rt' = Some j2))"
proof -
  obtain state t rt1 pf rt2 where s: "emergency_exempt rt action \<or> gate_admit (host_admission sha h rt) action"
    "lifecycle_state (cr_status c) = Some state"
    "receive_request sha action c t (operation_of h rt) (snd (rt_pin sha h rt)) = (Inr (), rt1)"
    "gate_verdict h (request_for sha h action c state run rt) action c (operation_of h rt) rt1 = (Inr pf, rt2)"
    "settle sha h t (operation_of h rt) (Inr pf) rt2 = (Inr p, rt')"
    using authorize_permit [OF assms] by metis
  let ?q = "request_for sha h action c state run rt"
  note v = gate_verdict_proof [OF s(4)] and p = settle_permit_proof [OF s(5)]
  have "overridden h ?q action c (operation_of h rt) rt rt'"
    if "overridden h ?q action c (operation_of h rt) rt1 rt2"
    using that receive_request_state [OF s(3)] p(4) by (auto simp: overridden_def rt_pin_state)
  moreover have "\<exists>recipe intent j1 j2.
      append_received sha (mp_operation p) (generation_of c) recipe (at_stage (mp_template p) St_RequestReceived 1) j = (Inr (), j1)
      \<and> append_decision sha (mp_operation p) (allowed_record sha h (mp_template p) (mp_proof p)) j1 = (Inr intent, j2)
      \<and> mp_intent p = Some intent \<and> rt_journal rt' = Some j2" if "rt_journal rt = Some j" for j
  proof -
    from that have "rt_journal (snd (rt_pin sha h rt)) = Some j" by (simp add: rt_pin_state)
    with s(3) obtain recipe j1 where 1: "append_received sha (operation_of h rt) (generation_of c) recipe
        (at_stage t St_RequestReceived 1) j = (Inr (), j1)" "rt_journal rt1 = Some j1"
      by (auto simp: receive_request_ok)
    with gate_verdict_state(1) [OF s(4)] have "rt_journal rt2 = Some j1" by simp
    with s(5) obtain intent j2 where "append_decision sha (operation_of h rt) (allowed_record sha h t pf) j1 = (Inr intent, j2)"
      "mp_intent p = Some intent" "rt_journal rt' = Some j2"
      by (auto simp: settle_permit)
    with 1(1) p(1,2,3) show ?thesis by metis
  qed
  moreover have "revalidate sha p c = Inr ()"
    using v p s(2) by (simp add: revalidate_def Let_def)
  ultimately show ?thesis
    using s(1) v p by (auto simp: evaluate_allowed_iff)
qed

text \<open>C7.
  A permitted operation is recorded.  In every state of a required journal that operations, faults
  and reopenings can lead to, with no fault armed and room for three records, an acceptable request
  for a lifecycle operation (other than start, rename and network detach) gets its permit, the
  permit can be completed with either outcome, and the journal then holds exactly three more
  records: the receipt, the decision and the outcome of this operation.
\<close>

theorem mediated_operation_recorded:
  assumes "\<forall>x. length (sha x) = 32" and "length (jc_journal_id config) = 16"
    and "open_with_faults sha config faults fresh_disk = (Inr j0, d0)"
    and "\<forall>op \<in> set ops. wf_op op" and "length ops < 2 ^ 62" and "j = run_ops sha ops j0"
    and "j_mode j = Mode_Required" and "j_faults j = {}" and "1024 \<le> unat (j_segment_bytes j)"
    and "524 * (2 * length ops + 3) + unat (j_reserve_total j) \<le> unat (j_max_bytes j)"
    and "rt_journal rt = Some j" and "store_bound sha (h_toml h) (rt_policies rt)" and "wf_identities h rt"
    and "witness_action_of action \<noteq> None" and "action \<notin> {Act_NetworkDetach, Act_ContainerStart, Act_ContainerRename}"
    and "acceptable sha h action c state run rt"
    and "kv_get T_Operations (operation_of h rt) (j_store j) = None"
    and "\<forall>k \<in> {1, 2, 4}. kv_get T_Events ((h_event h)[0 := h_event h ! 0 XOR k]) (j_store j) = None"
  shows "\<exists>p rt1 rt2 rs j3. authorize_with_facts sha h action c run rt = (Inr p, rt1)
    \<and> complete_permit sha p succeeded rt1 = (Inr (), rt2) \<and> rt_journal rt2 = Some j3
    \<and> journal_records (j_store j) = Inr (map (record_fields (jc_journal_id config)) rs)
    \<and> journal_records (j_store j3) = Inr (map (record_fields (jc_journal_id config))
        (rs @ stamp_all sha (jc_journal_id config) (j_epoch j) rs
          [at_stage (mp_template p) St_RequestReceived 1, allowed_record sha h (mp_template p) (mp_proof p),
           outcome_record sha succeeded p]))"
  using assms by (rule mediation_progress)

text \<open>
  The provenance that a permit leaves behind is recognised again: under a journal, the provenance
  made from a permit matches the runtime that issued it, for exactly the container identifiers that
  have the canonical identifier of the permitted container.
\<close>

theorem provenance_recognised:
  assumes "\<forall>x. length (sha x) = 32" and "rt_journal rt \<noteq> None"
    and "authorize_with_facts sha h action c run rt = (Inr p, rt')"
  shows "provenance_value_matches sha rt' (creation_provenance_of p) i \<longleftrightarrow> canonical_uuid sha i = canonical_uuid sha (cr_id c)"
proof -
  obtain state t rt1 pf rt2 where
    s: "record_template sha h rt (request_for sha h action c state run rt) (operation_of h rt) action = Inr t"
    "receive_request sha action c t (operation_of h rt) (snd (rt_pin sha h rt)) = (Inr (), rt1)"
    "gate_verdict h (request_for sha h action c state run rt) action c (operation_of h rt) rt1 = (Inr pf, rt2)"
    "settle sha h t (operation_of h rt) (Inr pf) rt2 = (Inr p, rt')"
    using authorize_permit [OF assms(3)] by metis
  note p = settle_permit_proof [OF s(4)] and q = gate_verdict_proof [OF s(3)]
  obtain j where "rt_journal (snd (rt_pin sha h rt)) = Some j" using assms(2) by (auto simp: rt_pin_state)
  with s(2) obtain j1 where "rt_journal rt1 = Some j1" by (auto simp: receive_request_ok)
  with s(4) gate_verdict_state(1) [OF s(3)] have jid: "mp_journal_id p = map_option j_journal_id (rt_journal rt')" "mp_journal_id p \<noteq> None"
    by (auto simp: settle_permit)
  have "rt_runtime_id rt' = rt_runtime_id rt" "rt_boot_id rt' = rt_boot_id rt"
    using settle_identity [OF s(4)] gate_verdict_identity [OF s(3)] receive_request_identity [OF s(2)]
    by (simp_all add: rt_pin_state)
  moreover have "wr_runtime_instance_id t = rt_runtime_id rt" "wr_boot_id t = rt_boot_id rt"
    using record_template_for(1) [OF s(1) assms(1)] by (simp_all add: template_for_def)
  moreover have "is_uuid (canonical_uuid sha (cr_id c))"
    using canonical_uuid_form [OF assms(1)] by (simp add: is_uuid_iff)
  ultimately show ?thesis
    using p q jid
    by (auto simp: provenance_value_matches_def creation_provenance_of_def is_verifiable_def Let_def generation_of_def
        word_gt_0 max_def)
qed

text \<open>
  Under a journal no permit is ever minted for starting or renaming a container or detaching it
  from a network: for a start and a detach the receipt is written, but its recovery recipe cannot be
  decoded when the decision is to be recorded; for a rename there is no recipe.
\<close>

theorem start_never_permitted:
  assumes "\<forall>x. length (sha x) = 32" and "length (operation_of h rt) = 16"
    and "rt_journal rt \<noteq> None" and "action \<in> {Act_ContainerStart, Act_ContainerRename, Act_NetworkDetach}"
  shows "\<exists>e. fst (authorize_with_facts sha h action c run rt) = Inl e"
proof (rule ccontr)
  assume "\<not> ?thesis"
  then obtain p rt' where "authorize_with_facts sha h action c run rt = (Inr p, rt')"
    by (metis (no_types) old.sum.exhaust prod.collapse)
  then obtain state t rt1 pf rt2 where
    s: "record_template sha h rt (request_for sha h action c state run rt) (operation_of h rt) action = Inr t"
    "receive_request sha action c t (operation_of h rt) (snd (rt_pin sha h rt)) = (Inr (), rt1)"
    "gate_verdict h (request_for sha h action c state run rt) action c (operation_of h rt) rt1 = (Inr pf, rt2)"
    "settle sha h t (operation_of h rt) (Inr pf) rt2 = (Inr p, rt')"
    by (rule authorize_permit) blast
  note tf = record_template_for [OF s(1) assms(1)]
  obtain j where "rt_journal (snd (rt_pin sha h rt)) = Some j" using assms(3) by (auto simp: rt_pin_state)
  with s(2) obtain recipe j1 where r: "mediated_recipe sha action c t (operation_of h rt) = Inr recipe"
    "append_received sha (operation_of h rt) (generation_of c) recipe (at_stage t St_RequestReceived 1) j = (Inr (), j1)"
    "rt_journal rt1 = Some j1"
    by (auto simp: receive_request_ok)
  have act: "Some (wr_action t) = witness_action_of action" using tf(1) by (simp add: template_for_def)
  then have "action \<noteq> Act_ContainerRename"
    using r(1) no_recipe_for_rename by (auto simp: witness_action_of_def)
  with act assms(4) have "wr_action t \<in> undecodable" by (auto simp: undecodable_actions [OF act])
  moreover have "recipe_decode (recipe_encode (generation_of c) recipe) = None" if "rr_original_action recipe \<in> undecodable"
  proof -
    note wf = mediated_recipe_wf [OF r(1) assms(1) tf(4) assms(2)]
    have "closed_inverse (rr_original_action recipe) (rr_resource_kind recipe) (rr_action recipe)"
      using wf by (simp add: wf_recipe_def)
    from closed_inverse_codes(1) [OF this] that show ?thesis
      by (simp add: recipe_decode_def recipe_encode_layout [OF wf])
  qed
  moreover obtain intent j2 where "append_decision sha (operation_of h rt) (allowed_record sha h t pf) j1 = (Inr intent, j2)"
    using s(4) gate_verdict_state(1) [OF s(3)] r(3) by (auto simp: settle_permit)
  ultimately show False
    using decided_pending received_pending [OF r(2)] mediated_recipe_sel(3) [OF r(1)] by fastforce
qed

text \<open>
  Under an enforced policy no developer ever gets a permit without an emergency authority, whatever
  the container: mediation presents every container without an owner, and the policy lets a
  developer act only on what the developer owns.
\<close>

theorem developer_never_permitted:
  assumes "rt_origin rt = Some origin" and "rp_role (ro_principal origin) = Developer" and "rt_emergency rt = None"
    and "pd_mode (sn_document (fst (rt_pin sha h rt))) = AM_Enforce"
  shows "\<exists>e. fst (authorize_with_facts sha h action c run rt) = Inl e"
proof (rule ccontr)
  assume "\<not> ?thesis"
  then obtain p rt' where "authorize_with_facts sha h action c run rt = (Inr p, rt')"
    by (metis (no_types) old.sum.exhaust prod.collapse)
  then obtain state t rt1 pf rt2 where
    s: "receive_request sha action c t (operation_of h rt) (snd (rt_pin sha h rt)) = (Inr (), rt1)"
    "gate_verdict h (request_for sha h action c state run rt) action c (operation_of h rt) rt1 = (Inr pf, rt2)"
    by (rule authorize_permit) blast
  have "rt_emergency rt1 = None" using receive_request_state [OF s(1)] assms(3) by (simp add: rt_pin_state)
  with gate_verdict_proof [OF s(2)] assms(4) have "permitted (cq_context (request_for sha h action c state run rt))"
    by (auto simp: evaluate_allowed_iff overridden_def)
  with assms(1,2) show False by (auto simp: permitted_def role_permits_def owned_by_def)
qed

text \<open>
  Holding any emergency authority, even one for another container, expired or used up, waives the
  admission check for every stop, kill and delete: the answer to the request is the same whatever
  checkpoint evidence the gate demands.
\<close>

theorem emergency_waives_admission:
  assumes "rt_emergency rt \<noteq> None" and "action \<in> {Act_ContainerStop, Act_ContainerKill, Act_ContainerDelete}"
  shows "fst (authorize_with_facts sha h action c run (rt\<lparr>rt_admission := a\<rparr>))
    = fst (authorize_with_facts sha h action c run rt)"
proof -
  have "emergency_exempt (set_admission a rt) action" "emergency_exempt rt action"
    using assms by (simp_all add: emergency_exempt_def)
  then have "fst (authorize_with_facts sha h action c run (set_admission a rt)) = fst (authorize_with_facts sha h action c run rt)"
    unfolding authorize_steps
    by (simp add: admission_irrelevant request_for_admission Let_def split: option.split sum.split prod.split)
  then show ?thesis by (simp add: set_admission_def)
qed

section \<open>An example\<close>

text \<open>An administrator on the command line stops a running container under the enforced example
  policy; the gate demands no checkpoint.\<close>

definition example_host :: "unit host" where
  "example_host =
     \<lparr>h_toml = example_toml, h_euid = 1000, h_fs = (\<lambda>_. Inr (example_file [65])), h_ver = (\<lambda>_ _ _. True),
      h_valid_key = (\<lambda>_. True), h_checkpoint = None, h_mirror = \<lparr>mf_active = None, mf_segments = [], mf_stale = False\<rparr>,
      h_now_ns = 10 ^ 18, h_clock = \<lparr>hc_boot_id = Some ''boot'', hc_uptime_ns = Some 7\<rparr>, h_revalidate = (\<lambda>_. True),
      h_to_json = (\<lambda>_. Some [123, 125]), h_operation = replicate 16 2, h_event = replicate 16 3, h_decision = replicate 16 4\<rparr>"

definition example_container :: container_record where
  "example_container =
     \<lparr>cr_id = example_uuid, cr_name = Some ''web'', cr_pid = 41, cr_image = ''alpine'', cr_status = ''running'',
      cr_mutation_generation = 3,
      cr_creation_provenance = \<lparr>pv_runtime_instance_id = None, pv_boot_id = None, pv_journal_id = None,
        pv_resource_uuid = None, pv_resource_generation = 0, pv_creator_operation_id = None, pv_image_digest = None\<rparr>\<rparr>"

definition example_runtime :: "u32 \<Rightarrow> journal option \<Rightarrow> unit runtime_authorization" where
  "example_runtime uid j =
     \<lparr>rt_policies = example_store, rt_admission = None, rt_metrics = (\<lambda>_. 0), rt_journal = j,
      rt_runtime_id = replicate 16 5, rt_boot_id = replicate 16 6, rt_pseudonym_key = replicate 32 7,
      rt_origin = Some (cli_current ''boot'' uid 1 True None), rt_emergency = None\<rparr>"

lemmas example_call_defs = example_host_def example_container_def example_runtime_def cli_current_def linux_principal_def

lemma example_pin: "fst (rt_pin toy_sha example_host (example_runtime uid j)) = ps_active example_store"
  by (simp add: rt_pin_fst example_call_defs store_snapshot_def refresh_from_stable_path_def example_store_def
      example_load example_snapshot_def)

lemma example_enforced: "pd_mode (sn_document (ps_active example_store)) = AM_Enforce"
  by (simp add: example_store_def example_snapshot_def snapshot_of_def)

lemma example_acceptable:
  "acceptable toy_sha example_host Act_ContainerStop example_container RS_Running None (example_runtime 0 j)"
proof -
  have "permitted (cq_context (request_for toy_sha example_host Act_ContainerStop example_container RS_Running None
      (example_runtime 0 j)))"
    by (simp add: permitted_def role_permits_def request_for_def mediated_request_def canonical_request_new_def
        mediated_context_def default_facts_def default_run_def example_call_defs)
  moreover have "image_of example_container = None"
    by (simp add: image_of_def pinned_image_def rsplit_once_def example_container_def)
  moreover have "check_origin toy_sha example_host (rt_origin (example_runtime 0 j)) pin Act_ContainerStop example_container = Inr ()" for pin
    by (simp add: check_origin_def revalidate_transport_def fanout_integrity_valid_def example_call_defs)
  ultimately show ?thesis
    by (simp add: acceptable_def gate_admit_def host_admission_def lifecycle_state_def example_call_defs)
qed

lemma example_identities: "wf_identities example_host (example_runtime uid j)"
  by (simp add: wf_identities_def operation_of_def example_call_defs)

lemma example_journal:
  obtains j d where "open_with_faults toy_sha example_config {} fresh_disk = (Inr j, d)"
    "j_mode j = Mode_Required" "j_faults j = {}" "1024 \<le> unat (j_segment_bytes j)"
    "524 * 3 + unat (j_reserve_total j) \<le> unat (j_max_bytes j)"
    "\<And>x. kv_get T_Operations x (j_store j) = None" "\<And>x. kv_get T_Events x (j_store j) = None"
proof -
  obtain j d where j: "open_with_faults toy_sha example_config {} fresh_disk = (Inr j, d)"
    using open_fresh_ok [of "{}" toy_sha example_config] by auto
  have cfg: "jc_mode example_config = Mode_Required" "unat (jc_max_journal_bytes example_config) = 67108864"
    "unat (jc_cleanup_reserve_bytes example_config) = 65536" "unat (jc_segment_bytes example_config) = 8388608"
    by (simp_all add: example_config_def journal_config_new_def)
  have "kv_get T_Operations x (j_store j) = None" "kv_get T_Events x (j_store j) = None" for x
    using chain_open_fresh [OF j]
    by (auto simp: chain_def chain_store_def ops_of_def encoded_ops_def event_index_def fun_eq_iff)
  with that [OF j] fresh_settings [OF j] cfg show thesis by simp
qed

lemma example_config_id: "length (jc_journal_id example_config) = 16"
  by (simp add: example_config_def journal_config_new_def)

lemma example_runtime_journal [simp]: "rt_journal (example_runtime uid j) = j"
  by (simp add: example_runtime_def)

lemma example_store_bound: "store_bound toy_sha (h_toml example_host) (rt_policies (example_runtime uid j))"
  using policy_load_bound [OF example_policy_load] by (simp add: example_call_defs)

lemma stop_witnessed: "witness_action_of Act_ContainerStop \<noteq> None"
  by (simp add: witness_action_of_def)

lemma example_permit:
  obtains j d p rt1 where "open_with_faults toy_sha example_config {} fresh_disk = (Inr j, d)"
    "authorize_with_facts toy_sha example_host Act_ContainerStop example_container None
      (example_runtime 0 (Some j)) = (Inr p, rt1)"
proof -
  obtain j d where j: "open_with_faults toy_sha example_config {} fresh_disk = (Inr j, d)"
    "j_mode j = Mode_Required" "j_faults j = {}" "1024 \<le> unat (j_segment_bytes j)"
    "524 * 3 + unat (j_reserve_total j) \<le> unat (j_max_bytes j)"
    "\<And>x. kv_get T_Operations x (j_store j) = None" "\<And>x. kv_get T_Events x (j_store j) = None"
    by (rule example_journal) blast
  have "\<exists>p rt1 rt2 rs j3. authorize_with_facts toy_sha example_host Act_ContainerStop example_container None
      (example_runtime 0 (Some j)) = (Inr p, rt1)
    \<and> complete_permit toy_sha p True rt1 = (Inr (), rt2) \<and> rt_journal rt2 = Some j3
    \<and> journal_records (j_store j) = Inr (map (record_fields (jc_journal_id example_config)) rs)
    \<and> journal_records (j_store j3) = Inr (map (record_fields (jc_journal_id example_config))
        (rs @ stamp_all toy_sha (jc_journal_id example_config) (j_epoch j) rs
          [at_stage (mp_template p) St_RequestReceived 1, allowed_record toy_sha example_host (mp_template p) (mp_proof p),
           outcome_record toy_sha True p]))"
    by (rule mediation_progress [OF length_toy_sha example_config_id j(1), where ops = "[]" and j = j])
      (use j example_store_bound example_identities example_acceptable stop_witnessed in \<open>simp_all\<close>)
  with that j(1) show thesis by blast
qed

theorem mediated_operation_recorded_witness:
  "\<exists>j d p rt1 rt2. open_with_faults toy_sha example_config {} fresh_disk = (Inr j, d)
    \<and> authorize_with_facts toy_sha example_host Act_ContainerStop example_container None (example_runtime 0 (Some j)) = (Inr p, rt1)
    \<and> complete_permit toy_sha p False rt1 = (Inr (), rt2)"
proof -
  obtain j d where j: "open_with_faults toy_sha example_config {} fresh_disk = (Inr j, d)"
    "j_mode j = Mode_Required" "j_faults j = {}" "1024 \<le> unat (j_segment_bytes j)"
    "524 * 3 + unat (j_reserve_total j) \<le> unat (j_max_bytes j)"
    "\<And>x. kv_get T_Operations x (j_store j) = None" "\<And>x. kv_get T_Events x (j_store j) = None"
    by (rule example_journal) blast
  have hyps: "\<forall>op \<in> set []. wf_op op" "length ([] :: journal_op list) < 2 ^ 62" "j = run_ops toy_sha [] j"
    "524 * (2 * length ([] :: journal_op list) + 3) + unat (j_reserve_total j) \<le> unat (j_max_bytes j)"
    "Act_ContainerStop \<notin> {Act_NetworkDetach, Act_ContainerStart, Act_ContainerRename}"
    "\<forall>k \<in> {1, 2, 4}. kv_get T_Events ((h_event example_host)[0 := h_event example_host ! 0 XOR k]) (j_store j) = None"
    using j by simp_all
  from mediated_operation_recorded [OF length_toy_sha example_config_id j(1) hyps(1-3) j(2-4) hyps(4) example_runtime_journal
      example_store_bound example_identities stop_witnessed hyps(5) example_acceptable j(6) hyps(6), of False]
  show ?thesis using j(1) by blast
qed

theorem permit_mediated_witness:
  "\<exists>j p rt1 q. authorize_with_facts toy_sha example_host Act_ContainerStop example_container None
      (example_runtime 0 (Some j)) = (Inr p, rt1)
    \<and> au_canonical (mp_proof p) = q \<and> bound_request q \<and> permitted (cq_context q)
    \<and> revalidate toy_sha p example_container = Inr () \<and> mp_intent p \<noteq> None"
proof -
  obtain j p rt1 where a: "authorize_with_facts toy_sha example_host Act_ContainerStop example_container None
      (example_runtime 0 (Some j)) = (Inr p, rt1)"
    by (rule example_permit) blast
  have "rt_emergency (example_runtime 0 (Some j)) = None" by (simp add: example_runtime_def)
  with permit_mediated [OF a] example_enforced have "bound_request (au_canonical (mp_proof p))"
    "permitted (cq_context (au_canonical (mp_proof p)))" "revalidate toy_sha p example_container = Inr ()" "mp_intent p \<noteq> None"
    by (auto simp: example_pin overridden_def)
  with a show ?thesis by blast
qed

theorem provenance_recognised_witness:
  "\<exists>j p rt1. authorize_with_facts toy_sha example_host Act_ContainerStop example_container None
      (example_runtime 0 (Some j)) = (Inr p, rt1)
    \<and> provenance_value_matches toy_sha rt1 (creation_provenance_of p) example_uuid"
proof -
  obtain j p rt1 where a: "authorize_with_facts toy_sha example_host Act_ContainerStop example_container None
      (example_runtime 0 (Some j)) = (Inr p, rt1)"
    by (rule example_permit) blast
  have "rt_journal (example_runtime 0 (Some j)) \<noteq> None" by simp
  from provenance_recognised [OF length_toy_sha this a, of example_uuid] a show ?thesis
    by (auto simp: example_container_def)
qed

theorem start_never_permitted_witness:
  "\<exists>j d e. open_with_faults toy_sha example_config {} fresh_disk = (Inr j, d)
    \<and> fst (authorize_with_facts toy_sha example_host Act_ContainerStart example_container None (example_runtime 0 (Some j))) = Inl e"
proof -
  obtain j d where j: "open_with_faults toy_sha example_config {} fresh_disk = (Inr j, d)" by (rule example_journal) blast
  have "length (operation_of example_host (example_runtime 0 (Some j))) = 16"
    using example_identities by (simp add: wf_identities_def)
  from start_never_permitted [OF length_toy_sha this, of Act_ContainerStart example_container None] j show ?thesis by auto
qed

theorem developer_never_permitted_witness:
  "\<exists>e. fst (authorize_with_facts toy_sha example_host Act_ContainerStop example_container None (example_runtime 1000 None)) = Inl e"
  by (rule developer_never_permitted [where origin = "cli_current ''boot'' 1000 1 True None"])
    (simp_all add: example_pin example_enforced, simp_all add: example_call_defs)

theorem emergency_waives_admission_witness:
  "fst (authorize_with_facts toy_sha example_host Act_ContainerStop example_container None
      ((with_emergency_authority \<lparr>ea_action = Act_ContainerKill, ea_resource = ''db'', ea_resource_generation = 1,
         ea_boot_id = ''old'', ea_deadline_uptime_ns = 0, ea_principal = ''nobody'', ea_policy_digest = [],
         ea_operation_id = [], ea_consumed = True\<rparr> (example_runtime 0 None))
       \<lparr>rt_admission := Some \<lparr>ma_evidence = Timestamp, ma_max_age = \<lparr>dur_secs = 1, dur_nanos = 0\<rparr>, ma_grace = \<lparr>dur_secs = 0, dur_nanos = 0\<rparr>\<rparr>\<rparr>))
   = fst (authorize_with_facts toy_sha example_host Act_ContainerStop example_container None
      (with_emergency_authority \<lparr>ea_action = Act_ContainerKill, ea_resource = ''db'', ea_resource_generation = 1,
         ea_boot_id = ''old'', ea_deadline_uptime_ns = 0, ea_principal = ''nobody'', ea_policy_digest = [],
         ea_operation_id = [], ea_consumed = True\<rparr> (example_runtime 0 None)))"
  by (rule emergency_waives_admission) (simp_all add: with_emergency_authority_def)

end
