(* ===== verification/Ordered_Map.thy ===== *)
theory Ordered_Map
  imports Prelude "HOL-Library.Char_ord" "HOL-Library.List_Lexorder"
begin

text \<open>
  The ordered map of the standard library (\<open>BTreeMap\<close>), as the association list that iterating
  over it gives: the keys ascend strictly.  \<open>om_insert\<close>, \<open>om_get\<close>, \<open>om_remove\<close>, \<open>om_retain\<close> and
  \<open>om_values\<close> are \<open>insert\<close>, \<open>get\<close>, \<open>remove\<close>, \<open>retain\<close> and \<open>values\<close>.  Strings are ordered by their
  bytes, as in the source.  The locale \<open>map_laws\<close> states what clients rely on; it is interpreted
  on the association lists at the end.
\<close>

section \<open>Operations\<close>

type_synonym ('k, 'v) omap = "('k \<times> 'v) list"

definition om_wf :: "('k::linorder, 'v) omap \<Rightarrow> bool" where
  "om_wf m \<longleftrightarrow> sorted_wrt (<) (map fst m)"

definition om_get :: "('k, 'v) omap \<Rightarrow> 'k \<Rightarrow> 'v option" where
  "om_get m = map_of m"

fun om_insert :: "'k::linorder \<Rightarrow> 'v \<Rightarrow> ('k, 'v) omap \<Rightarrow> ('k, 'v) omap" where
  "om_insert k v [] = [(k, v)]"
| "om_insert k v ((l, w) # m) =
     (if k < l then (k, v) # (l, w) # m else if k = l then (k, v) # m else (l, w) # om_insert k v m)"

definition om_retain :: "('k \<Rightarrow> 'v \<Rightarrow> bool) \<Rightarrow> ('k, 'v) omap \<Rightarrow> ('k, 'v) omap" where
  "om_retain p m = filter (\<lambda>(k, v). p k v) m"

definition om_remove :: "'k \<Rightarrow> ('k, 'v) omap \<Rightarrow> ('k, 'v) omap" where
  "om_remove k m = om_retain (\<lambda>l _. l \<noteq> k) m"

definition om_values :: "('k, 'v) omap \<Rightarrow> 'v list" where
  "om_values m = map snd m"

section \<open>Lemmas\<close>

lemma om_wf_Nil [simp]: "om_wf []"
  by (simp add: om_wf_def)

lemma om_wf_Cons: "om_wf ((k, v) # m) \<longleftrightarrow> (\<forall>l \<in> fst ` set m. k < l) \<and> om_wf m"
  by (auto simp: om_wf_def)

lemma om_wf_distinct: "om_wf m \<Longrightarrow> distinct (map fst m)"
  by (simp add: om_wf_def strict_sorted_iff)

lemma om_keys_insert: "fst ` set (om_insert k v m) = insert k (fst ` set m)"
  by (induction k v m rule: om_insert.induct) auto

lemma om_wf_insert [simp, intro]: "om_wf m \<Longrightarrow> om_wf (om_insert k v m)"
  by (induction k v m rule: om_insert.induct) (auto simp: om_wf_Cons om_keys_insert)

lemma om_get_insert [simp]: "om_wf m \<Longrightarrow> om_get (om_insert k v m) = (om_get m)(k \<mapsto> v)"
  unfolding om_get_def
  by (induction k v m rule: om_insert.induct) (auto simp: om_wf_Cons fun_eq_iff)

lemma om_wf_retain [simp, intro]: "om_wf m \<Longrightarrow> om_wf (om_retain p m)"
  unfolding om_retain_def by (induction m) (auto simp: om_wf_Cons)

lemma om_get_in: "om_wf m \<Longrightarrow> om_get m k = Some v \<longleftrightarrow> (k, v) \<in> set m"
  using om_wf_distinct [of m] by (simp add: om_get_def map_of_eq_Some_iff)

lemma om_get_none: "om_get m k = None \<longleftrightarrow> k \<notin> fst ` set m"
  by (simp add: om_get_def map_of_eq_None_iff)

lemma om_get_retain:
  "om_wf m \<Longrightarrow>
   om_get (om_retain p m) k = (case om_get m k of None \<Rightarrow> None | Some v \<Rightarrow> if p k v then Some v else None)"
  (is "?w \<Longrightarrow> _ = ?r")
proof -
  assume w: ?w
  have "om_get (om_retain p m) k = Some v \<longleftrightarrow> om_get m k = Some v \<and> p k v" for v
    using om_get_in [OF w, of k] om_get_in [OF om_wf_retain [OF w], of p k v] by (auto simp: om_retain_def)
  then have "om_get (om_retain p m) k = Some v \<longleftrightarrow> ?r = Some v" for v
    by (auto split: option.splits)
  then show ?thesis by (metis option.exhaust)
qed

lemma om_wf_remove [simp, intro]: "om_wf m \<Longrightarrow> om_wf (om_remove k m)"
  by (simp add: om_remove_def om_wf_retain)

lemma om_get_remove [simp]: "om_wf m \<Longrightarrow> om_get (om_remove k m) = (om_get m)(k := None)"
  by (auto simp: om_remove_def om_get_retain fun_eq_iff split: option.splits)

lemma om_ext: "om_wf m \<Longrightarrow> om_wf n \<Longrightarrow> om_get m = om_get n \<Longrightarrow> m = n"
proof -
  assume w: "om_wf m" "om_wf n" and g: "om_get m = om_get n"
  have eq: "set m = set n" using om_get_in [OF w(1)] om_get_in [OF w(2)] g by auto
  have d: "distinct (map fst m)" "distinct (map fst n)" using w by (simp_all add: om_wf_distinct)
  have "sorted (map fst m)" "sorted (map fst n)" using w by (simp_all add: om_wf_def strict_sorted_iff)
  moreover have "inj_on fst (set m \<union> set n)" using d(1) by (simp add: distinct_map eq)
  ultimately show "m = n" using d eq
    by (intro map_sorted_distinct_set_unique [of fst]) simp_all
qed

lemma om_insert_idem: "om_wf m \<Longrightarrow> om_get m k = Some v \<Longrightarrow> om_insert k v m = m"
  by (rule om_ext) (auto simp: fun_eq_iff)

section \<open>The interface\<close>

locale map_laws =
  fixes wf :: "'m \<Rightarrow> bool" and get :: "'m \<Rightarrow> 'k \<Rightarrow> 'v option" and ins :: "'k \<Rightarrow> 'v \<Rightarrow> 'm \<Rightarrow> 'm"
    and del :: "'k \<Rightarrow> 'm \<Rightarrow> 'm" and empt :: 'm
  assumes wf_empt: "wf empt" and get_empt: "get empt k = None"
    and wf_ins: "wf m \<Longrightarrow> wf (ins k v m)" and wf_del: "wf m \<Longrightarrow> wf (del k m)"
    and get_ins: "wf m \<Longrightarrow> get (ins k v m) = (get m)(k \<mapsto> v)"
    and get_del: "wf m \<Longrightarrow> get (del k m) = (get m)(k := None)"
begin

lemma get_ins_other: "wf m \<Longrightarrow> l \<noteq> k \<Longrightarrow> get (ins k v m) l = get m l"
  by (simp add: get_ins)

lemma get_fold_ins:
  "wf m \<Longrightarrow> wf (fold (\<lambda>(k, v). ins k v) kvs m)
     \<and> get (fold (\<lambda>(k, v). ins k v) kvs m) = (get m) ++ map_of (rev kvs)"
  by (induction kvs arbitrary: m) (auto simp: wf_ins get_ins)

lemma get_del_ins: "wf m \<Longrightarrow> get m k = None \<Longrightarrow> get (del k (ins k v m)) = get m"
  by (auto simp: get_ins get_del wf_ins fun_eq_iff)

end

interpretation om: map_laws om_wf om_get om_insert om_remove "[]"
  by unfold_locales (simp_all add: om_get_insert om_get_remove, simp add: om_get_def)

text \<open>\<open>BTreeMap::from_iter\<close>: later entries of a key replace earlier ones.\<close>

definition om_of_list :: "('k::linorder \<times> 'v) list \<Rightarrow> ('k, 'v) omap" where
  "om_of_list kvs = fold (\<lambda>(k, v). om_insert k v) kvs []"

text \<open>
  Replacing a file atomically (write a temporary file, sync it, rename it, sync the directory) may
  fail before the rename, leaving the old file, or after it, leaving the new one.
\<close>

datatype io_fault = No_Fault | Before_Rename | After_Rename

definition replace_file :: "io_fault \<Rightarrow> 'a \<Rightarrow> 'a \<Rightarrow> bool \<times> 'a" where
  "replace_file fault new old =
     (case fault of No_Fault \<Rightarrow> (True, new) | Before_Rename \<Rightarrow> (False, old) | After_Rename \<Rightarrow> (False, new))"

lemma om_of_list_wf [simp]: "om_wf (om_of_list kvs)"
  using om.get_fold_ins [of "[]" kvs] by (simp add: om_of_list_def)

lemma om_get_of_list: "om_get (om_of_list kvs) = map_of (rev kvs)"
  using om.get_fold_ins [of "[]" kvs] by (auto simp: om_of_list_def om_get_def)

end
