(* ===== verification/Helper_Grants.thy ===== *)
theory Helper_Grants
  imports Gate Journal_Types Ordered_Map "HOL-Library.Product_Lexorder"
begin

text \<open>
  Signed capabilities for the privileged network helper: \<open>helper_grant.rs\<close>,
  \<open>helper_grant_encoding.rs\<close>, \<open>helper_grant_delegation.rs\<close> and \<open>helper_grant_error.rs\<close> under
  \<open>src/ferro-core/src/authorization/\<close>.

  A grant is a set of claims and a signature over their encoding.  Ed25519 signing is the function
  \<open>gi_sign\<close> of the issuer, verification a function of the message and the signature, and the
  base64 alphabet and SHA-256 are arguments, as is the JSON form of a request context.
\<close>

section \<open>Claims\<close>

datatype grant_action =
  GA_NetworkCreate | GA_NetworkDelete | GA_NetworkAttach | GA_NetworkDetach | GA_NetworkInspect

fun grant_action_code :: "grant_action \<Rightarrow> byte" where
  "grant_action_code GA_NetworkCreate = 0"
| "grant_action_code GA_NetworkDelete = 1"
| "grant_action_code GA_NetworkAttach = 2"
| "grant_action_code GA_NetworkDetach = 3"
| "grant_action_code GA_NetworkInspect = 4"

definition from_authorization :: "auth_action \<Rightarrow> grant_action option" where
  "from_authorization a =
     (case a of
        Act_NetworkCreate \<Rightarrow> Some GA_NetworkCreate
      | Act_NetworkDelete \<Rightarrow> Some GA_NetworkDelete
      | Act_NetworkAttach \<Rightarrow> Some GA_NetworkAttach
      | Act_NetworkDetach \<Rightarrow> Some GA_NetworkDetach
      | _ \<Rightarrow> None)"

definition is_cleanup :: "grant_action \<Rightarrow> bool" where
  "is_cleanup a \<longleftrightarrow> a = GA_NetworkDelete \<or> a = GA_NetworkDetach"

datatype grant_kind = GK_Mutation | GK_Cleanup

fun grant_kind_code :: "grant_kind \<Rightarrow> byte" where
  "grant_kind_code GK_Mutation = 0"
| "grant_kind_code GK_Cleanup = 1"

datatype grant_build_error =
  GB_InvalidResource | GB_InvalidParameters | GB_InvalidClaims | GB_InvalidCleanup
| GB_UnsupportedAction | GB_IntentMismatch | GB_KeyCustody

record resource_binding =
  rb_resource_uuid :: string
  rb_generation :: u64

definition helper_is_uuid :: "string \<Rightarrow> bool" where
  "helper_is_uuid v \<longleftrightarrow> length v = 36 \<and> (\<forall>(i, c) \<in> set (enumerate 0 v). uuid_char i c)"

definition ascii_lowercase :: "string \<Rightarrow> string" where
  "ascii_lowercase s =
     map (\<lambda>c. if 65 \<le> char_code c \<and> char_code c \<le> 90 then char_of (char_code c + 32) else c) s"

definition resource_binding_new :: "string \<Rightarrow> u64 \<Rightarrow> grant_build_error + resource_binding" where
  "resource_binding_new uuid generation =
     (if \<not> helper_is_uuid uuid \<or> generation = 0 then Inl GB_InvalidResource
      else Inr \<lparr>rb_resource_uuid = ascii_lowercase uuid, rb_generation = generation\<rparr>)"

record fd_binding =
  fd_position :: u16
  fd_device :: u64
  fd_inode :: u64

record grant_parameters =
  gp_operation :: string
  gp_fields :: "(string \<times> string) list"
  gp_fds :: "fd_binding list"

fun repeated_key :: "(string \<times> string) list \<Rightarrow> bool" where
  "repeated_key (a # b # r) = (fst a = fst b \<or> repeated_key (b # r))"
| "repeated_key _ = False"

definition grant_parameters_new ::
  "string \<Rightarrow> (string \<times> string) list \<Rightarrow> (u16 \<times> u64 \<times> u64) list \<Rightarrow> grant_build_error + grant_parameters" where
  "grant_parameters_new operation flds fds =
     (if operation = [] \<or> 64 < length operation \<or> 128 < length flds \<or> fds \<noteq> [] then Inl GB_InvalidParameters
      else
        let flds = sort flds in
        if repeated_key flds \<or> list_ex (\<lambda>(k, v). k = [] \<or> 64 < length k \<or> 4096 < length v) flds
        then Inl GB_InvalidParameters
        else Inr \<lparr>gp_operation = operation, gp_fields = flds,
          gp_fds = map (\<lambda>(p, d, i). \<lparr>fd_position = p, fd_device = d, fd_inode = i\<rparr>) (sort fds)\<rparr>)"

definition parameter_field :: "grant_parameters \<Rightarrow> string \<Rightarrow> string option" where
  "parameter_field p name = map_option snd (find (\<lambda>(k, _). k = name) (gp_fields p))"

definition push_text :: "string \<Rightarrow> bytes" where
  "push_text s = u32_to_be (of_nat (length s)) @ bstr s"

definition parameter_bytes :: "grant_parameters \<Rightarrow> bytes" where
  "parameter_bytes p =
     push_text (gp_operation p) @ u16_to_be (of_nat (length (gp_fields p)))
     @ concat (map (\<lambda>(k, v). push_text k @ push_text v) (gp_fields p)) @ u16_to_be 0"

definition digested_parameters :: "grant_parameters \<Rightarrow> bytes" where
  "digested_parameters p = bstr ''ferrocrate.helper-parameters.v1'' @ [0] @ parameter_bytes p"

definition parameter_digest :: "(bytes \<Rightarrow> bytes) \<Rightarrow> grant_parameters \<Rightarrow> bytes" where
  "parameter_digest sha p = sha (digested_parameters p)"

definition grant_schema_version :: u16 where
  "grant_schema_version = 1"

record grant_claims =
  gc_schema_version :: u16
  gc_request_id :: string
  gc_action :: grant_action
  gc_resource :: resource_binding
  gc_parameter_digest :: bytes
  gc_boot_id :: string
  gc_wall_deadline_secs :: u64
  gc_monotonic_deadline_millis :: u64
  gc_nonce :: bytes
  gc_operation_id :: bytes
  gc_request_digest :: bytes
  gc_precondition_digest :: bytes
  gc_recovery_recipe_digest :: bytes
  gc_issuer :: string
  gc_key_id :: string
  gc_kind :: grant_kind
  gc_origin_request_id :: "string option"
  gc_live_identity_digest :: "bytes option"

definition grant_claims_new ::
  "string \<Rightarrow> grant_action \<Rightarrow> resource_binding \<Rightarrow> bytes \<Rightarrow> string \<Rightarrow> u64 \<Rightarrow> u64 \<Rightarrow> bytes \<Rightarrow> string \<Rightarrow> string
   \<Rightarrow> grant_kind \<Rightarrow> grant_build_error + grant_claims" where
  "grant_claims_new request_id action resource digest boot_id wall mono_deadline nonce issuer key_id kind =
     (if request_id = [] \<or> 128 < length request_id \<or> boot_id = [] \<or> issuer = [] \<or> key_id = []
         \<or> nonce = replicate 16 0
      then Inl GB_InvalidClaims
      else Inr
        \<lparr>gc_schema_version = grant_schema_version, gc_request_id = request_id, gc_action = action,
         gc_resource = resource, gc_parameter_digest = digest, gc_boot_id = boot_id,
         gc_wall_deadline_secs = wall, gc_monotonic_deadline_millis = mono_deadline, gc_nonce = nonce,
         gc_operation_id = nonce, gc_request_digest = digest, gc_precondition_digest = digest,
         gc_recovery_recipe_digest = digest, gc_issuer = issuer, gc_key_id = key_id, gc_kind = kind,
         gc_origin_request_id = None, gc_live_identity_digest = None\<rparr>)"

definition claims_cleanup :: "string \<Rightarrow> bytes \<Rightarrow> grant_claims \<Rightarrow> grant_build_error + grant_claims" where
  "claims_cleanup origin live c =
     (if \<not> is_cleanup (gc_action c) \<or> live = replicate 32 0 then Inl GB_InvalidCleanup
      else Inr (c\<lparr>gc_kind := GK_Cleanup, gc_origin_request_id := Some origin,
                  gc_live_identity_digest := Some live\<rparr>))"

section \<open>Encoding\<close>

definition push_optional_text :: "string option \<Rightarrow> bytes" where
  "push_optional_text v = (case v of Some s \<Rightarrow> 1 # push_text s | None \<Rightarrow> [0])"

definition push_optional_digest :: "bytes option \<Rightarrow> bytes" where
  "push_optional_digest v = (case v of Some d \<Rightarrow> 1 # d | None \<Rightarrow> [0])"

definition signing_bytes :: "grant_claims \<Rightarrow> bytes" where
  "signing_bytes c =
     bstr ''ferrocrate.helper-grant'' @ [0]
     @ u16_to_be (gc_schema_version c)
     @ push_text (gc_request_id c)
     @ [grant_action_code (gc_action c)]
     @ push_text (rb_resource_uuid (gc_resource c))
     @ u64_to_be (rb_generation (gc_resource c))
     @ gc_parameter_digest c
     @ push_text (gc_boot_id c)
     @ u64_to_be (gc_wall_deadline_secs c)
     @ u64_to_be (gc_monotonic_deadline_millis c)
     @ gc_nonce c @ gc_operation_id c @ gc_request_digest c
     @ gc_precondition_digest c @ gc_recovery_recipe_digest c
     @ push_text (gc_issuer c) @ push_text (gc_key_id c)
     @ [grant_kind_code (gc_kind c)]
     @ push_optional_text (gc_origin_request_id c)
     @ push_optional_digest (gc_live_identity_digest c)"

section \<open>Signing and issuing\<close>

record helper_grant =
  hg_claims :: grant_claims
  hg_signature :: string

record grant_issuer =
  gi_key_id :: string
  gi_sign :: "bytes \<Rightarrow> bytes"

definition issuer_sign :: "(bytes \<Rightarrow> string) \<Rightarrow> grant_issuer \<Rightarrow> grant_claims \<Rightarrow> helper_grant" where
  "issuer_sign b64 iss c =
     (let c = c\<lparr>gc_key_id := gi_key_id iss\<rparr> in
      \<lparr>hg_claims = c, hg_signature = b64 (gi_sign iss (signing_bytes c))\<rparr>)"

text \<open>The claims of an intent replace the defaults of \<open>grant_claims_new\<close>.\<close>

definition bind_intent :: "bytes \<Rightarrow> durable_intent \<Rightarrow> grant_claims \<Rightarrow> grant_claims" where
  "bind_intent request_digest intent c =
     c\<lparr>gc_operation_id := di_operation_id intent, gc_request_digest := request_digest,
       gc_precondition_digest := di_precondition_digest intent,
       gc_recovery_recipe_digest := di_recovery_recipe_digest intent\<rparr>"

definition proof_generation :: "authorized_request \<Rightarrow> u64" where
  "proof_generation pf = eb_resource_generation (cq_expected (au_canonical pf))"

definition proof_resource :: "authorized_request \<Rightarrow> string" where
  "proof_resource pf = res_id (rx_resource (cq_context (au_canonical pf)))"

definition proof_request :: "authorized_request \<Rightarrow> string" where
  "proof_request pf = rx_request_id (cq_context (au_canonical pf))"

definition proof_digest ::
  "(bytes \<Rightarrow> bytes) \<Rightarrow> (request_context \<Rightarrow> bytes option) \<Rightarrow> authorized_request \<Rightarrow> grant_build_error + bytes" where
  "proof_digest sha json pf = rbind (ok_or GB_InvalidClaims (json (cq_context (au_canonical pf)))) (\<lambda>bs. Inr (sha bs))"

definition for_authorized ::
  "(bytes \<Rightarrow> bytes) \<Rightarrow> (request_context \<Rightarrow> bytes option) \<Rightarrow> (bytes \<Rightarrow> string) \<Rightarrow> grant_issuer
   \<Rightarrow> authorized_request \<Rightarrow> durable_intent \<Rightarrow> grant_parameters \<Rightarrow> string \<Rightarrow> u64 \<Rightarrow> u64 \<Rightarrow> bytes \<Rightarrow> string
   \<Rightarrow> grant_build_error + helper_grant" where
  "for_authorized sha json b64 iss pf intent params boot_id wall mono_deadline nonce issuer =
     rbind (ok_or GB_UnsupportedAction (from_authorization (rx_action (cq_context (au_canonical pf))))) (\<lambda>action.
     rbind (proof_digest sha json pf) (\<lambda>request_digest.
     if di_execution_generation intent \<noteq> proof_generation pf \<or> di_request_digest intent \<noteq> request_digest
     then Inl GB_IntentMismatch
     else
       rbind (resource_binding_new (proof_resource pf) (proof_generation pf)) (\<lambda>resource.
       rbind (grant_claims_new (proof_request pf) action resource (parameter_digest sha params) boot_id
           wall mono_deadline nonce issuer (gi_key_id iss) GK_Mutation) (\<lambda>c.
       Inr (issuer_sign b64 iss (bind_intent request_digest intent c))))))"

definition overlay_parent_allowed :: "auth_action \<Rightarrow> grant_action \<Rightarrow> bool" where
  "overlay_parent_allowed a g \<longleftrightarrow>
     (a = Act_ContainerCreate \<or> a = Act_ContainerRun) \<and> g = GA_NetworkAttach
     \<or> a = Act_ContainerDelete \<and> g = GA_NetworkDetach"

definition for_managed_overlay_parent ::
  "(bytes \<Rightarrow> bytes) \<Rightarrow> (request_context \<Rightarrow> bytes option) \<Rightarrow> (bytes \<Rightarrow> string) \<Rightarrow> grant_issuer
   \<Rightarrow> authorized_request \<Rightarrow> durable_intent \<Rightarrow> grant_action \<Rightarrow> grant_parameters \<Rightarrow> string \<Rightarrow> u64 \<Rightarrow> u64 \<Rightarrow> bytes
   \<Rightarrow> string \<Rightarrow> grant_build_error + helper_grant" where
  "for_managed_overlay_parent sha json b64 iss pf intent action params boot_id wall mono_deadline nonce issuer =
     rbind (proof_digest sha json pf) (\<lambda>request_digest.
     if \<not> overlay_parent_allowed (rx_action (cq_context (au_canonical pf))) action
        \<or> di_execution_generation intent \<noteq> proof_generation pf \<or> di_request_digest intent \<noteq> request_digest
     then Inl GB_IntentMismatch
     else
       rbind (ok_or GB_IntentMismatch (parameter_field params ''overlay_id'')) (\<lambda>overlay_id.
       if overlay_id \<notin> set (rf_network_ids (rx_facts (cq_context (au_canonical pf))))
       then Inl GB_IntentMismatch
       else
         rbind (resource_binding_new (proof_resource pf) (proof_generation pf)) (\<lambda>resource.
         rbind (grant_claims_new (proof_request pf) action resource (parameter_digest sha params) boot_id
             wall mono_deadline nonce issuer (gi_key_id iss) GK_Mutation) (\<lambda>c.
         Inr (issuer_sign b64 iss (bind_intent request_digest intent c))))))"

record managed_cleanup_provenance =
  mc_origin_request_id :: string
  mc_live_identity_digest :: bytes
  mc_resource_uuid :: string
  mc_resource_generation :: u64

definition for_managed_overlay_cleanup ::
  "(bytes \<Rightarrow> bytes) \<Rightarrow> (request_context \<Rightarrow> bytes option) \<Rightarrow> (bytes \<Rightarrow> string) \<Rightarrow> grant_issuer
   \<Rightarrow> authorized_request \<Rightarrow> durable_intent \<Rightarrow> grant_parameters \<Rightarrow> managed_cleanup_provenance \<Rightarrow> string \<Rightarrow> u64 \<Rightarrow> u64
   \<Rightarrow> bytes \<Rightarrow> string \<Rightarrow> grant_build_error + helper_grant" where
  "for_managed_overlay_cleanup sha json b64 iss pf intent params prov boot_id wall mono_deadline nonce issuer =
     rbind (proof_digest sha json pf) (\<lambda>request_digest.
     if rx_action (cq_context (au_canonical pf)) \<noteq> Act_ContainerDelete
        \<or> di_execution_generation intent \<noteq> proof_generation pf \<or> di_request_digest intent \<noteq> request_digest
        \<or> mc_resource_uuid prov \<noteq> proof_resource pf \<or> mc_resource_generation prov \<noteq> proof_generation pf
        \<or> mc_origin_request_id prov = [] \<or> mc_live_identity_digest prov = replicate 32 0
     then Inl GB_IntentMismatch
     else
       rbind (resource_binding_new (mc_resource_uuid prov) (mc_resource_generation prov)) (\<lambda>resource.
       rbind (grant_claims_new (proof_request pf) GA_NetworkDetach resource (parameter_digest sha params) boot_id
           wall mono_deadline nonce issuer (gi_key_id iss) GK_Cleanup) (\<lambda>c.
       rbind (claims_cleanup (mc_origin_request_id prov) (mc_live_identity_digest prov) c) (\<lambda>c.
       Inr (issuer_sign b64 iss (bind_intent request_digest intent c))))))"

definition for_controller_overlay ::
  "(bytes \<Rightarrow> bytes) \<Rightarrow> (bytes \<Rightarrow> string) \<Rightarrow> grant_issuer \<Rightarrow> string \<Rightarrow> grant_action \<Rightarrow> resource_binding
   \<Rightarrow> grant_parameters \<Rightarrow> string \<Rightarrow> u64 \<Rightarrow> u64 \<Rightarrow> bytes \<Rightarrow> string \<Rightarrow> bytes \<Rightarrow> bytes \<Rightarrow> grant_build_error + helper_grant" where
  "for_controller_overlay sha b64 iss request_id action resource params boot_id wall mono_deadline nonce issuer pre rec =
     (if action \<notin> {GA_NetworkCreate, GA_NetworkDelete} \<or> pre = replicate 32 0 \<or> rec = replicate 32 0
      then Inl GB_UnsupportedAction
      else
        rbind (grant_claims_new request_id action resource (parameter_digest sha params) boot_id wall mono_deadline nonce
            issuer (gi_key_id iss) GK_Mutation) (\<lambda>c.
        Inr (issuer_sign b64 iss
          (c\<lparr>gc_request_digest := parameter_digest sha params, gc_precondition_digest := pre,
             gc_recovery_recipe_digest := rec\<rparr>))))"

section \<open>Verification and delegation\<close>

text \<open>
  A verified grant is a grant that \<open>verify_grant\<close> returned.  \<open>verify_key\<close> is the public key: it takes
  the message and the signature, of 64 bytes.
\<close>

definition verify_grant ::
  "(string \<Rightarrow> bytes option) \<Rightarrow> (bytes \<Rightarrow> bytes \<Rightarrow> bool) \<Rightarrow> helper_grant \<Rightarrow> string \<Rightarrow> string
   \<Rightarrow> grant_build_error + helper_grant" where
  "verify_grant unb64 verify_key g issuer boot_id =
     (if gc_schema_version (hg_claims g) \<noteq> grant_schema_version \<or> gc_issuer (hg_claims g) \<noteq> issuer
         \<or> gc_boot_id (hg_claims g) \<noteq> boot_id
      then Inl GB_InvalidClaims
      else
        rbind (ok_or GB_InvalidClaims (unb64 (hg_signature g))) (\<lambda>sig.
        if length sig = 64 \<and> verify_key (signing_bytes (hg_claims g)) sig then Inr g
        else Inl GB_InvalidClaims))"

text \<open>The claims of the parent that every delegation carries over.\<close>

definition inherit_claims :: "grant_claims \<Rightarrow> grant_claims \<Rightarrow> grant_claims" where
  "inherit_claims parent c =
     c\<lparr>gc_operation_id := gc_operation_id parent, gc_request_digest := gc_request_digest parent,
       gc_precondition_digest := gc_precondition_digest parent,
       gc_recovery_recipe_digest := gc_recovery_recipe_digest parent\<rparr>"

definition delegate_child ::
  "(bytes \<Rightarrow> bytes) \<Rightarrow> (bytes \<Rightarrow> string) \<Rightarrow> grant_issuer \<Rightarrow> helper_grant \<Rightarrow> string \<Rightarrow> grant_action \<Rightarrow> resource_binding
   \<Rightarrow> grant_parameters \<Rightarrow> u64 \<Rightarrow> u64 \<Rightarrow> bytes \<Rightarrow> grant_build_error + helper_grant" where
  "delegate_child sha b64 iss parent request_id action resource params wall mono_deadline nonce =
     (let p = hg_claims parent in
      if gc_kind p \<noteq> GK_Mutation \<or> gc_action p \<noteq> action \<or> resource \<noteq> gc_resource p
         \<or> wall > gc_wall_deadline_secs p \<or> mono_deadline > gc_monotonic_deadline_millis p
      then Inl GB_IntentMismatch
      else
        rbind (grant_claims_new request_id action resource (parameter_digest sha params) (gc_boot_id p) wall mono_deadline
            nonce (gc_issuer p) (gi_key_id iss) GK_Mutation) (\<lambda>c.
        Inr (issuer_sign b64 iss (inherit_claims p c))))"

definition delegate_cleanup ::
  "(bytes \<Rightarrow> bytes) \<Rightarrow> (bytes \<Rightarrow> string) \<Rightarrow> grant_issuer \<Rightarrow> helper_grant \<Rightarrow> string \<Rightarrow> grant_action \<Rightarrow> resource_binding
   \<Rightarrow> grant_parameters \<Rightarrow> string \<Rightarrow> bytes \<Rightarrow> u64 \<Rightarrow> u64 \<Rightarrow> bytes \<Rightarrow> grant_build_error + helper_grant" where
  "delegate_cleanup sha b64 iss parent request_id action resource params origin live wall mono_deadline nonce =
     (let p = hg_claims parent in
      if \<not> is_cleanup action \<or> gc_kind p \<noteq> GK_Cleanup \<or> gc_action p \<noteq> action \<or> resource \<noteq> gc_resource p
         \<or> wall > gc_wall_deadline_secs p \<or> mono_deadline > gc_monotonic_deadline_millis p
      then Inl GB_InvalidCleanup
      else
        rbind (grant_claims_new request_id action resource (parameter_digest sha params) (gc_boot_id p) wall mono_deadline
            nonce (gc_issuer p) (gi_key_id iss) GK_Cleanup) (\<lambda>c.
        rbind (claims_cleanup origin live c) (\<lambda>c.
        Inr (issuer_sign b64 iss (inherit_claims p c)))))"

section \<open>Prefix-free encodings\<close>

text \<open>
  The encoding is a concatenation of parts, and each part can be told from what follows it.  The
  locale states that of one part; its interpretations are the kinds of parts that occur.
\<close>

locale self_delimiting =
  fixes ok :: "'a \<Rightarrow> bool" and enc :: "'a \<Rightarrow> bytes"
  assumes split: "ok x \<Longrightarrow> ok y \<Longrightarrow> enc x @ r = enc y @ s \<Longrightarrow> x = y \<and> r = s"
begin

lemma cut [simp]: "ok x \<Longrightarrow> ok y \<Longrightarrow> enc x @ r = enc y @ s \<longleftrightarrow> x = y \<and> r = s"
  using split by blast

lemma inject: "ok x \<Longrightarrow> ok y \<Longrightarrow> enc x = enc y \<longleftrightarrow> x = y"
  using split [of x y "[]" "[]"] by auto

lemma cut_concat:
  "\<forall>x \<in> set xs. ok x \<Longrightarrow> \<forall>y \<in> set ys. ok y \<Longrightarrow> length xs = length ys \<Longrightarrow>
   concat (map enc xs) @ r = concat (map enc ys) @ s \<longleftrightarrow> xs = ys \<and> r = s"
proof (induction xs arbitrary: ys)
  case (Cons x xs)
  then obtain y ys' where "ys = y # ys'" by (cases ys) auto
  with Cons show ?case by auto
qed simp

end

definition short_text :: "string \<Rightarrow> bool" where
  "short_text s \<longleftrightarrow> length s < 2 ^ 32"

lemma push_text_split: "short_text a \<Longrightarrow> short_text b \<Longrightarrow> push_text a @ r = push_text b @ s \<Longrightarrow> a = b \<and> r = s"
proof -
  assume ok: "short_text a" "short_text b" and eq: "push_text a @ r = push_text b @ s"
  from eq have "u32_to_be (of_nat (length a)) = u32_to_be (of_nat (length b))"
    and rest: "bstr a @ r = bstr b @ s" by (simp_all add: push_text_def append_eq_append_conv)
  then have "(of_nat (length a) :: u32) = of_nat (length b)" by (metis u32_from_to_be)
  then have "unat (of_nat (length a) :: u32) = unat (of_nat (length b) :: u32)" by simp
  with ok have "length a = length b" by (simp add: short_text_def unat_of_nat take_bit_nat_eq_self)
  with rest show ?thesis by (simp add: append_eq_append_conv)
qed

interpretation ptext: self_delimiting short_text push_text
  by unfold_locales (rule push_text_split)

interpretation word64: self_delimiting "\<lambda>_. True" u64_to_be
  by unfold_locales (simp add: append_eq_append_conv)

lemma u16_to_be_inject [simp]: "u16_to_be a = u16_to_be b \<longleftrightarrow> a = b"
  by (metis u16_from_to_be)

interpretation word16: self_delimiting "\<lambda>_. True" u16_to_be
  by unfold_locales (simp add: append_eq_append_conv)

lemma grant_action_code_inject [simp]: "grant_action_code a = grant_action_code b \<longleftrightarrow> a = b"
  by (cases a; cases b) simp_all

lemma grant_kind_code_inject [simp]: "grant_kind_code a = grant_kind_code b \<longleftrightarrow> a = b"
  by (cases a; cases b) simp_all

interpretation opt_text: self_delimiting "\<lambda>v. \<forall>s. v = Some s \<longrightarrow> short_text s" push_optional_text
  by unfold_locales (auto simp: push_optional_text_def split: option.splits)

interpretation opt_dig: self_delimiting "\<lambda>v. \<forall>d. v = Some d \<longrightarrow> length d = 32" push_optional_digest
  by unfold_locales (auto simp: push_optional_digest_def split: option.splits)

interpretation pair: self_delimiting "\<lambda>(k, v). short_text k \<and> short_text v" "\<lambda>(k, v). push_text k @ push_text v"
  by unfold_locales auto

section \<open>Canonical parameters\<close>

definition wf_parameters :: "grant_parameters \<Rightarrow> bool" where
  "wf_parameters p \<longleftrightarrow>
     0 < length (gp_operation p) \<and> length (gp_operation p) \<le> 64 \<and> length (gp_fields p) \<le> 128 \<and> gp_fds p = []
     \<and> om_wf (gp_fields p)
     \<and> (\<forall>(k, v) \<in> set (gp_fields p). k \<noteq> [] \<and> length k \<le> 64 \<and> length v \<le> 4096)"

lemma repeated_key_sorted:
  "sorted fs \<Longrightarrow> \<not> repeated_key fs \<Longrightarrow> om_wf (fs :: (string \<times> string) list)"
proof (induction fs rule: repeated_key.induct)
  case (1 a b r)
  then have wf: "om_wf (b # r)" and le: "a \<le> b" and ne: "fst a \<noteq> fst b" by auto
  from le ne have "fst a < fst b" by (auto simp: less_eq_prod_def)
  with wf show ?case by (auto simp: om_wf_def)
qed (simp_all add: om_wf_def)

lemma om_wf_repeated: "om_wf fs \<Longrightarrow> \<not> repeated_key fs"
  by (induction fs rule: repeated_key.induct) (auto simp: om_wf_def)

lemma grant_parameters_new_wf:
  "grant_parameters_new operation fs fds = Inr p \<Longrightarrow>
   wf_parameters p \<and> gp_operation p = operation \<and> gp_fields p = sort fs"
  using repeated_key_sorted [of "sort fs"]
  by (fastforce simp: grant_parameters_new_def wf_parameters_def Let_def list_ex_iff not_less split: if_splits)

lemma wf_parameters_bytes:
  assumes "wf_parameters p" and "wf_parameters q" and "parameter_bytes p = parameter_bytes q"
  shows "p = q"
proof -
  have short: "short_text (gp_operation r) \<and> (\<forall>(k, v) \<in> set (gp_fields r). short_text k \<and> short_text v)"
    if "wf_parameters r" for r
    using that by (fastforce simp: wf_parameters_def short_text_def)
  from short [OF assms(1)] short [OF assms(2)] assms(3)
  have op: "gp_operation p = gp_operation q"
    and len: "(of_nat (length (gp_fields p)) :: u16) = of_nat (length (gp_fields q))"
    and fs: "concat (map (\<lambda>(k, v). push_text k @ push_text v) (gp_fields p)) @ u16_to_be 0
           = concat (map (\<lambda>(k, v). push_text k @ push_text v) (gp_fields q)) @ u16_to_be 0"
    by (simp_all add: parameter_bytes_def)
  have "unat (of_nat (length (gp_fields r)) :: u16) = length (gp_fields r)" if "wf_parameters r" for r
    using that by (simp add: wf_parameters_def unat_of_nat take_bit_nat_eq_self)
  with len assms have "length (gp_fields p) = length (gp_fields q)" by metis
  with pair.cut_concat [THEN iffD1, OF _ _ _ fs] short [OF assms(1)] short [OF assms(2)]
  have "gp_fields p = gp_fields q" by blast
  with op assms show ?thesis by (simp add: wf_parameters_def)
qed

section \<open>Properties\<close>

definition wf_claims :: "grant_claims \<Rightarrow> bool" where
  "wf_claims c \<longleftrightarrow>
     short_text (gc_request_id c) \<and> short_text (rb_resource_uuid (gc_resource c)) \<and> short_text (gc_boot_id c)
     \<and> short_text (gc_issuer c) \<and> short_text (gc_key_id c)
     \<and> length (gc_parameter_digest c) = 32 \<and> length (gc_nonce c) = 16 \<and> length (gc_operation_id c) = 16
     \<and> length (gc_request_digest c) = 32 \<and> length (gc_precondition_digest c) = 32
     \<and> length (gc_recovery_recipe_digest c) = 32
     \<and> (\<forall>s. gc_origin_request_id c = Some s \<longrightarrow> short_text s)
     \<and> (\<forall>d. gc_live_identity_digest c = Some d \<longrightarrow> length d = 32)"

text \<open>
  The signature of a grant covers every claim: the signed encodings of two sets of claims are
  equal only when all claims are.  Lengths are those of the source's array types; texts are
  shorter than 4 GiB, the range of their 32-bit length.
\<close>

theorem signed_claims_exact:
  assumes "wf_claims c" and "wf_claims d"
  shows "signing_bytes c = signing_bytes d \<longleftrightarrow> c = d"
proof
  assume eq: "signing_bytes c = signing_bytes d"
  note w = assms [unfolded wf_claims_def]
  from eq w have "gc_schema_version c = gc_schema_version d \<and> gc_request_id c = gc_request_id d
    \<and> gc_action c = gc_action d \<and> gc_resource c = gc_resource d \<and> gc_parameter_digest c = gc_parameter_digest d
    \<and> gc_boot_id c = gc_boot_id d \<and> gc_wall_deadline_secs c = gc_wall_deadline_secs d
    \<and> gc_monotonic_deadline_millis c = gc_monotonic_deadline_millis d
    \<and> gc_nonce c = gc_nonce d \<and> gc_operation_id c = gc_operation_id d \<and> gc_request_digest c = gc_request_digest d
    \<and> gc_precondition_digest c = gc_precondition_digest d \<and> gc_recovery_recipe_digest c = gc_recovery_recipe_digest d
    \<and> gc_issuer c = gc_issuer d \<and> gc_key_id c = gc_key_id d \<and> gc_kind c = gc_kind d
    \<and> gc_origin_request_id c = gc_origin_request_id d \<and> gc_live_identity_digest c = gc_live_identity_digest d"
    by (simp add: signing_bytes_def append_eq_append_conv opt_dig.inject
        resource_binding.equality)
  then show "c = d" by (simp add: grant_claims.equality)
qed simp

theorem signed_claims_exact_witness:
  "let c = \<lparr>gc_schema_version = 1, gc_request_id = ''r'', gc_action = GA_NetworkDelete,
      gc_resource = \<lparr>rb_resource_uuid = ''u'', rb_generation = 1\<rparr>, gc_parameter_digest = replicate 32 1,
      gc_boot_id = ''b'', gc_wall_deadline_secs = 9, gc_monotonic_deadline_millis = 9, gc_nonce = replicate 16 1,
      gc_operation_id = replicate 16 2, gc_request_digest = replicate 32 3, gc_precondition_digest = replicate 32 4,
      gc_recovery_recipe_digest = replicate 32 5, gc_issuer = ''i'', gc_key_id = ''k'', gc_kind = GK_Mutation,
      gc_origin_request_id = None, gc_live_identity_digest = None\<rparr>
   in signing_bytes c \<noteq> signing_bytes (c\<lparr>gc_wall_deadline_secs := 10\<rparr>)"
proof -
  let ?c = "\<lparr>gc_schema_version = 1, gc_request_id = ''r'', gc_action = GA_NetworkDelete,
      gc_resource = \<lparr>rb_resource_uuid = ''u'', rb_generation = 1\<rparr>, gc_parameter_digest = replicate 32 1,
      gc_boot_id = ''b'', gc_wall_deadline_secs = 9, gc_monotonic_deadline_millis = 9, gc_nonce = replicate 16 1,
      gc_operation_id = replicate 16 2, gc_request_digest = replicate 32 3, gc_precondition_digest = replicate 32 4,
      gc_recovery_recipe_digest = replicate 32 5, gc_issuer = ''i'', gc_key_id = ''k'', gc_kind = GK_Mutation,
      gc_origin_request_id = None, gc_live_identity_digest = None\<rparr>"
  have "wf_claims ?c" "wf_claims (?c\<lparr>gc_wall_deadline_secs := 10\<rparr>)" by (simp_all add: wf_claims_def short_text_def)
  from signed_claims_exact [OF this] show ?thesis by simp
qed

lemma parameter_digest_inject:
  assumes "wf_parameters p" and "wf_parameters q" and "inj_on sha {digested_parameters p, digested_parameters q}"
    and "parameter_digest sha p = parameter_digest sha q"
  shows "p = q"
proof -
  have "digested_parameters p = digested_parameters q"
    by (rule inj_onD [OF assms(3) assms(4) [unfolded parameter_digest_def]]) simp_all
  then have "parameter_bytes p = parameter_bytes q" by (simp add: digested_parameters_def)
  with assms(1,2) show ?thesis by (blast intro: wf_parameters_bytes)
qed

text \<open>
  Parameters are canonical and bound by their digest.  The constructor accepts an operation and its
  fields in any order with one result, whose keys ascend strictly; and while the hash has no
  collision, equal digests mean equal parameters.
\<close>

theorem parameters_canonical:
  assumes "grant_parameters_new operation fs [] = Inr p" and "grant_parameters_new operation' fs' [] = Inr q"
    and "inj_on sha {digested_parameters p, digested_parameters q}"
  shows "om_wf (gp_fields p) \<and> mset (gp_fields p) = mset fs
    \<and> (mset fs = mset fs' \<and> operation = operation' \<longrightarrow> p = q)
    \<and> (parameter_digest sha p = parameter_digest sha q \<longrightarrow> operation = operation' \<and> mset fs = mset fs')"
proof -
  note p = grant_parameters_new_wf [OF assms(1)] and q = grant_parameters_new_wf [OF assms(2)]
  have "p = q" if "mset fs = mset fs'" "operation = operation'"
  proof -
    have "sort fs = sort fs'" by (rule properties_for_sort) (simp_all add: that)
    with p q that show ?thesis by (simp add: wf_parameters_def)
  qed
  moreover have "operation = operation' \<and> mset fs = mset fs'"
    if "parameter_digest sha p = parameter_digest sha q"
  proof -
    have eq: "p = q" by (rule parameter_digest_inject [OF _ _ assms(3) that]) (simp_all add: p q)
    from p q have "operation = gp_operation p" "operation' = gp_operation q"
      "mset fs = mset (gp_fields p)" "mset fs' = mset (gp_fields q)" by simp_all
    then show ?thesis by (simp add: eq)
  qed
  moreover have "om_wf (gp_fields p)" using p unfolding wf_parameters_def by blast
  moreover have "mset (gp_fields p) = mset fs" using p by simp
  ultimately show ?thesis by blast
qed

theorem parameters_canonical_witness:
  "\<exists>p. grant_parameters_new ''overlay.delete'' [(''b'', ''2''), (''a'', ''1'')] [] = Inr p
     \<and> grant_parameters_new ''overlay.delete'' [(''a'', ''1''), (''b'', ''2'')] [] = Inr p
     \<and> om_wf (gp_fields p) \<and> mset (gp_fields p) = {#(''a'', ''1''), (''b'', ''2'')#}"
proof -
  let ?p = "\<lparr>gp_operation = ''overlay.delete'', gp_fields = [(''a'', ''1''), (''b'', ''2'')], gp_fds = []\<rparr>"
  have r: "grant_parameters_new ''overlay.delete'' [(''b'', ''2''), (''a'', ''1'')] [] = Inr ?p"
    "grant_parameters_new ''overlay.delete'' [(''a'', ''1''), (''b'', ''2'')] [] = Inr ?p"
    by (simp_all add: grant_parameters_new_def less_eq_prod_def less_char_def less_eq_char_def)
  from parameters_canonical [OF r, of "\<lambda>x. x"] r inj_on_id2 show ?thesis
    by (intro exI [of _ ?p]) (auto simp: add_mset_commute)
qed

text \<open>What a grant may do, compared with the grant it was derived from.\<close>

definition attenuates :: "grant_claims \<Rightarrow> grant_claims \<Rightarrow> bool" where
  "attenuates c p \<longleftrightarrow>
     gc_action c = gc_action p \<and> gc_resource c = gc_resource p \<and> gc_kind c = gc_kind p
     \<and> gc_boot_id c = gc_boot_id p \<and> gc_issuer c = gc_issuer p \<and> gc_operation_id c = gc_operation_id p
     \<and> gc_request_digest c = gc_request_digest p \<and> gc_precondition_digest c = gc_precondition_digest p
     \<and> gc_recovery_recipe_digest c = gc_recovery_recipe_digest p
     \<and> gc_wall_deadline_secs c \<le> gc_wall_deadline_secs p
     \<and> gc_monotonic_deadline_millis c \<le> gc_monotonic_deadline_millis p"

inductive delegated :: "(bytes \<Rightarrow> bytes) \<Rightarrow> (bytes \<Rightarrow> string) \<Rightarrow> helper_grant \<Rightarrow> helper_grant \<Rightarrow> bool"
  for sha b64 where
  delegated_self: "delegated sha b64 g g"
| delegated_child:
    "delegated sha b64 g p \<Longrightarrow>
     delegate_child sha b64 iss p request_id action resource params wall md nonce = Inr c \<Longrightarrow>
     delegated sha b64 g c"
| delegated_cleanup:
    "delegated sha b64 g p \<Longrightarrow>
     delegate_cleanup sha b64 iss p request_id action resource params origin live wall md nonce = Inr c \<Longrightarrow>
     delegated sha b64 g c"

lemmas delegation_defs =
  delegate_child_def delegate_cleanup_def grant_claims_new_def claims_cleanup_def inherit_claims_def
  issuer_sign_def attenuates_def Let_def

lemma delegate_child_attenuates:
  "delegate_child sha b64 iss p request_id action resource params wall md nonce = Inr c \<Longrightarrow>
   attenuates (hg_claims c) (hg_claims p)"
  by (auto simp: delegation_defs not_less rbind_simps split: if_splits)

lemma delegate_cleanup_attenuates:
  "delegate_cleanup sha b64 iss p request_id action resource params origin live wall md nonce = Inr c \<Longrightarrow>
   attenuates (hg_claims c) (hg_claims p)"
  by (auto simp: delegation_defs not_less rbind_simps split: if_splits)

lemma attenuates_refl: "attenuates c c"
  by (simp add: attenuates_def)

lemma attenuates_trans: "attenuates c p \<Longrightarrow> attenuates p g \<Longrightarrow> attenuates c g"
  by (auto simp: attenuates_def)

text \<open>C16.
  Delegation never widens a grant.  However often a grant is delegated, by whatever issuers, the
  result names the same action, resource, kind, boot, issuer, operation and digests, and both of its
  deadlines are at most those of the original.
\<close>

theorem delegation_attenuates:
  assumes "delegated sha b64 g c"
  shows "gc_action (hg_claims c) = gc_action (hg_claims g) \<and> gc_resource (hg_claims c) = gc_resource (hg_claims g)
    \<and> gc_kind (hg_claims c) = gc_kind (hg_claims g) \<and> gc_boot_id (hg_claims c) = gc_boot_id (hg_claims g)
    \<and> gc_issuer (hg_claims c) = gc_issuer (hg_claims g) \<and> gc_operation_id (hg_claims c) = gc_operation_id (hg_claims g)
    \<and> gc_request_digest (hg_claims c) = gc_request_digest (hg_claims g)
    \<and> gc_precondition_digest (hg_claims c) = gc_precondition_digest (hg_claims g)
    \<and> gc_recovery_recipe_digest (hg_claims c) = gc_recovery_recipe_digest (hg_claims g)
    \<and> gc_wall_deadline_secs (hg_claims c) \<le> gc_wall_deadline_secs (hg_claims g)
    \<and> gc_monotonic_deadline_millis (hg_claims c) \<le> gc_monotonic_deadline_millis (hg_claims g)"
proof -
  from assms have "attenuates (hg_claims c) (hg_claims g)"
    by (induction rule: delegated.induct)
      (blast intro: attenuates_refl attenuates_trans delegate_child_attenuates delegate_cleanup_attenuates)+
  then show ?thesis by (simp add: attenuates_def)
qed

theorem delegation_attenuates_witness:
  "let res = \<lparr>rb_resource_uuid = ''u'', rb_generation = 1\<rparr>;
       p = \<lparr>hg_claims = \<lparr>gc_schema_version = 1, gc_request_id = ''r'', gc_action = GA_NetworkAttach,
      gc_resource = res, gc_parameter_digest = [1], gc_boot_id = ''b'', gc_wall_deadline_secs = 9,
      gc_monotonic_deadline_millis = 9, gc_nonce = [1], gc_operation_id = [2], gc_request_digest = [3],
      gc_precondition_digest = [4], gc_recovery_recipe_digest = [5], gc_issuer = ''i'', gc_key_id = ''k'',
      gc_kind = GK_Mutation, gc_origin_request_id = None, gc_live_identity_digest = None\<rparr>, hg_signature = ''s''\<rparr>;
       iss = \<lparr>gi_key_id = ''k2'', gi_sign = (\<lambda>_. [])\<rparr>;
       params = \<lparr>gp_operation = ''endpoint.attach'', gp_fields = [], gp_fds = []\<rparr>
   in \<exists>c. delegate_child (\<lambda>x. x) (\<lambda>_. ''s'') iss p ''child'' GA_NetworkAttach res params 8 9 (replicate 16 7) = Inr c
        \<and> gc_wall_deadline_secs (hg_claims c) \<le> 9"
proof -
  let ?res = "\<lparr>rb_resource_uuid = ''u'', rb_generation = 1\<rparr>"
  let ?p = "\<lparr>hg_claims = \<lparr>gc_schema_version = 1, gc_request_id = ''r'', gc_action = GA_NetworkAttach,
      gc_resource = ?res, gc_parameter_digest = [1], gc_boot_id = ''b'', gc_wall_deadline_secs = 9,
      gc_monotonic_deadline_millis = 9, gc_nonce = [1], gc_operation_id = [2], gc_request_digest = [3],
      gc_precondition_digest = [4], gc_recovery_recipe_digest = [5], gc_issuer = ''i'', gc_key_id = ''k'',
      gc_kind = GK_Mutation, gc_origin_request_id = None, gc_live_identity_digest = None\<rparr>, hg_signature = ''s''\<rparr>"
  let ?iss = "\<lparr>gi_key_id = ''k2'', gi_sign = (\<lambda>_. [])\<rparr>"
  let ?params = "\<lparr>gp_operation = ''endpoint.attach'', gp_fields = [], gp_fds = []\<rparr>"
  obtain c where r: "delegate_child (\<lambda>x. x) (\<lambda>_. ''s'') ?iss ?p ''child'' GA_NetworkAttach ?res ?params 8 9 (replicate 16 7) = Inr c"
    by (simp add: delegation_defs)
  from delegation_attenuates [OF delegated_child [OF delegated_self r]] r show ?thesis by auto
qed

text \<open>
  A grant minted from an authorized request carries that request and its durable intent, and the
  holder of the issuer's public key accepts it.  It names the action the request was authorised
  for, its resource and generation, the operation and digests of the intent, and it is never a
  grant to inspect or to clean up.
\<close>

theorem authorized_grant_exact:
  assumes "for_authorized sha json b64 iss pf intent params boot_id wall md nonce issuer = Inr g"
    and "\<And>m. length (gi_sign iss m) = 64 \<and> verify_key m (gi_sign iss m)" and "\<And>x. unb64 (b64 x) = Some x"
  shows "verify_grant unb64 verify_key g issuer boot_id = Inr g
    \<and> from_authorization (rx_action (cq_context (au_canonical pf))) = Some (gc_action (hg_claims g))
    \<and> gc_action (hg_claims g) \<noteq> GA_NetworkInspect \<and> gc_kind (hg_claims g) = GK_Mutation
    \<and> gc_request_id (hg_claims g) = proof_request pf
    \<and> gc_resource (hg_claims g) =
        \<lparr>rb_resource_uuid = ascii_lowercase (proof_resource pf), rb_generation = di_execution_generation intent\<rparr>
    \<and> 0 < rb_generation (gc_resource (hg_claims g))
    \<and> gc_parameter_digest (hg_claims g) = parameter_digest sha params
    \<and> gc_operation_id (hg_claims g) = di_operation_id intent
    \<and> gc_request_digest (hg_claims g) = di_request_digest intent
    \<and> gc_precondition_digest (hg_claims g) = di_precondition_digest intent
    \<and> gc_recovery_recipe_digest (hg_claims g) = di_recovery_recipe_digest intent"
proof -
  from assms(1) obtain action c where
    a: "from_authorization (rx_action (cq_context (au_canonical pf))) = Some action"
    and gen: "di_execution_generation intent = proof_generation pf" "proof_generation pf \<noteq> 0"
    and c: "grant_claims_new (proof_request pf) action
        \<lparr>rb_resource_uuid = ascii_lowercase (proof_resource pf), rb_generation = proof_generation pf\<rparr>
        (parameter_digest sha params) boot_id wall md nonce issuer (gi_key_id iss) GK_Mutation = Inr c"
    and g: "g = issuer_sign b64 iss (bind_intent (di_request_digest intent) intent c)"
    by (auto simp: for_authorized_def rbind_simps resource_binding_new_def split: if_splits)
  have "action \<noteq> GA_NetworkInspect"
    using a by (auto simp: from_authorization_def split: auth_action.splits)
  with a gen c g assms(2,3) show ?thesis
    by (auto simp: grant_claims_new_def issuer_sign_def bind_intent_def verify_grant_def Let_def
        word_neq_0_conv split: if_splits)
qed

definition example_proof :: authorized_request where
  "example_proof =
     (let ctx = (example_context Administrator)\<lparr>rx_action := Act_NetworkDelete\<rparr> in
      \<lparr>au_canonical = canonical_request_new ctx (ps_active example_store) example_bindings example_bindings,
       au_decision = evaluate (sn_document (ps_active example_store)) ctx\<rparr>)"

definition example_intent :: durable_intent where
  "example_intent =
     \<lparr>di_journal_id = [], di_epoch = 1, di_operation_id = replicate 16 9, di_execution_generation = 3,
      di_pending_generation = 1, di_decision_id = [], di_decision_digest = [], di_request_digest = [5],
      di_precondition_digest = replicate 32 6, di_recovery_recipe_digest = replicate 32 7\<rparr>"

theorem authorized_grant_exact_witness:
  "\<exists>g. for_authorized (\<lambda>x. x) (\<lambda>_. Some [5]) str_of \<lparr>gi_key_id = ''k'', gi_sign = (\<lambda>_. replicate 64 1)\<rparr>
       example_proof example_intent \<lparr>gp_operation = ''overlay.delete'', gp_fields = [], gp_fds = []\<rparr>
       ''boot'' 9 9 (replicate 16 1) ''issuer'' = Inr g
     \<and> verify_grant (\<lambda>s. Some (bstr s)) (\<lambda>_ s. s = replicate 64 1) g ''issuer'' ''boot'' = Inr g
     \<and> gc_operation_id (hg_claims g) = replicate 16 9"
proof -
  let ?iss = "\<lparr>gi_key_id = ''k'', gi_sign = (\<lambda>_. replicate 64 1)\<rparr> :: grant_issuer"
  have "helper_is_uuid (proof_resource example_proof)"
    using example_uuid_form uuid_chars_iff [of example_uuid]
    by (simp add: helper_is_uuid_def proof_resource_def example_proof_def Let_def canonical_request_new_def example_context_def)
  then obtain g where g: "for_authorized (\<lambda>x. x) (\<lambda>_. Some [5]) str_of ?iss
       example_proof example_intent \<lparr>gp_operation = ''overlay.delete'', gp_fields = [], gp_fds = []\<rparr>
       ''boot'' 9 9 (replicate 16 1) ''issuer'' = Inr g"
    by (simp add: for_authorized_def proof_digest_def resource_binding_new_def grant_claims_new_def
        proof_generation_def proof_request_def example_proof_def Let_def canonical_request_new_def
        from_authorization_def example_intent_def example_bindings_def example_context_def)
  from authorized_grant_exact [OF g, of "\<lambda>_ s. s = replicate 64 1" "\<lambda>s. Some (bstr s)"] g
  show ?thesis by (auto simp: example_intent_def)
qed

end
