(* ===== verification/Netd_Protocol.thy ===== *)
theory Netd_Protocol
  imports Helper_Grants
begin

text \<open>
  Requests to the network helper and what they are bound to: \<open>protocol.rs\<close>, \<open>request_binding.rs\<close>,
  \<open>effect_receipt.rs\<close> and \<open>interface_identity.rs\<close> under \<open>src/ferro-netd/src/\<close>, with the interface
  names of \<open>src/ferro-core/src/managed_overlay.rs\<close>.

  JSON texts are given by the functions of the record \<open>netd_json\<close>, one for each type that is
  serialized; the inode of a network namespace is a function of its name.
\<close>

section \<open>Requests\<close>

datatype overlay_mode = OM_WireGuard | OM_BridgeOnly

fun overlay_mode_str :: "overlay_mode \<Rightarrow> string" where
  "overlay_mode_str OM_WireGuard = ''wireguard''"
| "overlay_mode_str OM_BridgeOnly = ''bridge_only''"

record peer_spec =
  peer_node_id :: string
  peer_public_key :: string
  peer_endpoint :: string
  peer_allowed_ips :: "string list"

datatype netd_request =
    ApplyOverlay string overlay_mode "peer_spec list" "string list" "string list"
  | RemoveOverlay string
  | AttachEndpoint string string "string option"
  | DetachEndpoint string string
  | Inspect string

datatype rejection_code =
    RJ_UnauthorizedPeer | RJ_OversizedFrame | RJ_InvalidFrame | RJ_InvalidSignature | RJ_MissingGrant
  | RJ_InvalidGrant | RJ_GrantReplay | RJ_ExpiredLease | RJ_StaleRevision | RJ_PolicyViolation | RJ_Busy

fun request_overlay_id :: "netd_request \<Rightarrow> string" where
  "request_overlay_id (ApplyOverlay i _ _ _ _) = i"
| "request_overlay_id (RemoveOverlay i) = i"
| "request_overlay_id (AttachEndpoint i _ _) = i"
| "request_overlay_id (DetachEndpoint i _) = i"
| "request_overlay_id (Inspect i) = i"

record netd_json =
  nj_peers :: "peer_spec list \<Rightarrow> string"
  nj_strings :: "string list \<Rightarrow> string"
  nj_canonical_peers :: "(string \<times> string \<times> string list) list \<Rightarrow> string"
  nj_string :: "string \<Rightarrow> string"
  nj_optional_string :: "string option \<Rightarrow> string"

section \<open>Interface names\<close>

record overlay_interfaces =
  oi_bridge :: string
  oi_wireguard :: string

definition managed_interface_identities :: "(bytes \<Rightarrow> bytes) \<Rightarrow> string \<Rightarrow> overlay_interfaces" where
  "managed_interface_identities sha overlay_id =
     (let digest = sha (bstr ''ferrocrate.overlay-interfaces.v1'' @ [0] @ bstr overlay_id);
          suffix = concat (map hex_byte (take 6 digest))
      in \<lparr>oi_bridge = ''fb'' @ suffix, oi_wireguard = ''fw'' @ suffix\<rparr>)"

section \<open>Parameters of a request\<close>

definition bool_str :: "bool \<Rightarrow> string" where
  "bool_str b = (if b then ''true'' else ''false'')"

definition request_fields ::
  "(bytes \<Rightarrow> bytes) \<Rightarrow> netd_json \<Rightarrow> netd_request \<Rightarrow> grant_action \<times> string \<times> (string \<times> string) list" where
  "request_fields sha nj r =
     (let ifs = managed_interface_identities sha (request_overlay_id r) in
      case r of
        ApplyOverlay i mode peers routes addresses \<Rightarrow>
          (GA_NetworkCreate, ''overlay.apply'',
           [(''overlay_id'', i), (''overlay_mode'', overlay_mode_str mode),
            (''bridge_ifname'', oi_bridge ifs), (''wireguard_ifname'', oi_wireguard ifs),
            (''address_interface'', oi_bridge ifs),
            (''route_interface'', (case mode of OM_WireGuard \<Rightarrow> oi_wireguard ifs | OM_BridgeOnly \<Rightarrow> oi_bridge ifs)),
            (''forwarding_required'', bool_str (mode = OM_WireGuard)),
            (''peers'', nj_peers nj peers), (''routes'', nj_strings nj routes),
            (''addresses'', nj_strings nj addresses)])
      | RemoveOverlay i \<Rightarrow>
          (GA_NetworkDelete, ''overlay.delete'',
           [(''overlay_id'', i), (''bridge_ifname'', oi_bridge ifs), (''wireguard_ifname'', oi_wireguard ifs)])
      | AttachEndpoint i e netns \<Rightarrow>
          (GA_NetworkAttach, ''endpoint.attach'',
           [(''overlay_id'', i), (''bridge_ifname'', oi_bridge ifs), (''endpoint_id'', e),
            (''netns'', (case netns of None \<Rightarrow> [] | Some n \<Rightarrow> n))])
      | DetachEndpoint i e \<Rightarrow>
          (GA_NetworkDetach, ''endpoint.detach'',
           [(''overlay_id'', i), (''bridge_ifname'', oi_bridge ifs), (''endpoint_id'', e)])
      | Inspect i \<Rightarrow> (GA_NetworkInspect, ''overlay.inspect'', [(''overlay_id'', i)]))"

definition request_parameters ::
  "(bytes \<Rightarrow> bytes) \<Rightarrow> netd_json \<Rightarrow> netd_request \<Rightarrow> rejection_code + (grant_action \<times> grant_parameters)" where
  "request_parameters sha nj r =
     (case request_fields sha nj r of
        (action, operation, flds) \<Rightarrow>
          (case grant_parameters_new operation flds [] of
             Inl _ \<Rightarrow> Inl RJ_PolicyViolation
           | Inr p \<Rightarrow> Inr (action, p)))"

section \<open>Receipts\<close>

record overlay_receipt =
  or_overlay_id :: string
  or_bridge_ifname :: string
  or_wireguard_ifname :: "string option"
  or_mode :: overlay_mode
  or_legacy_identity :: bool
  or_generation :: u64
  or_peer_digest :: bytes
  or_address_digest :: bytes
  or_route_digest :: bytes
  or_policy_epoch :: u64
  or_policy_revision :: u64
  or_forwarding_required :: bool
  or_expected_exists :: bool

record endpoint_receipt =
  er_endpoint_id :: string
  er_overlay_id :: string
  er_generation :: u64
  er_netns_digest :: bytes
  er_bridge_master_digest :: bytes
  er_netns_name :: "string option"
  er_netns_inode :: "u64 option"
  er_expected_exists :: bool
  er_legacy_identity :: bool

datatype effect_receipt = RC_Overlay overlay_receipt | RC_Endpoint endpoint_receipt

definition json_digest :: "(bytes \<Rightarrow> bytes) \<Rightarrow> string \<Rightarrow> bytes" where
  "json_digest sha text_json = sha (bstr text_json)"

definition peer_digest :: "(bytes \<Rightarrow> bytes) \<Rightarrow> netd_json \<Rightarrow> peer_spec list \<Rightarrow> bytes" where
  "peer_digest sha nj peers =
     json_digest sha (nj_canonical_peers nj
       (sort (map (\<lambda>p. (peer_public_key p, peer_endpoint p, sort (peer_allowed_ips p))) peers)))"

definition digest_sorted :: "(bytes \<Rightarrow> bytes) \<Rightarrow> netd_json \<Rightarrow> string list \<Rightarrow> bytes" where
  "digest_sorted sha nj values = json_digest sha (nj_strings nj (sort values))"

definition receipt_from_request ::
  "(bytes \<Rightarrow> bytes) \<Rightarrow> netd_json \<Rightarrow> (string \<Rightarrow> u64 option) \<Rightarrow> netd_request \<Rightarrow> u64 \<Rightarrow> u64 \<Rightarrow> u64 \<Rightarrow> effect_receipt" where
  "receipt_from_request sha nj inode r generation epoch revision =
     (let ifs = managed_interface_identities sha (request_overlay_id r);
          removed = (\<lambda>i is_removal.
            RC_Overlay
              \<lparr>or_overlay_id = i, or_bridge_ifname = oi_bridge ifs,
               or_wireguard_ifname = (if is_removal then Some (oi_wireguard ifs) else None),
               or_mode = OM_BridgeOnly, or_legacy_identity = False, or_generation = generation,
               or_peer_digest = replicate 32 0, or_address_digest = replicate 32 0, or_route_digest = replicate 32 0,
               or_policy_epoch = epoch, or_policy_revision = revision, or_forwarding_required = False,
               or_expected_exists = (\<not> is_removal)\<rparr>)
      in case r of
        ApplyOverlay i mode peers routes addresses \<Rightarrow>
          RC_Overlay
            \<lparr>or_overlay_id = i, or_bridge_ifname = oi_bridge ifs, or_wireguard_ifname = Some (oi_wireguard ifs),
             or_mode = mode, or_legacy_identity = False, or_generation = generation,
             or_peer_digest = peer_digest sha nj peers, or_address_digest = digest_sorted sha nj addresses,
             or_route_digest = digest_sorted sha nj routes, or_policy_epoch = epoch, or_policy_revision = revision,
             or_forwarding_required = (mode = OM_WireGuard), or_expected_exists = True\<rparr>
      | RemoveOverlay i \<Rightarrow> removed i True
      | Inspect i \<Rightarrow> removed i False
      | AttachEndpoint i e netns \<Rightarrow>
          RC_Endpoint
            \<lparr>er_endpoint_id = e, er_overlay_id = i, er_generation = generation,
             er_netns_digest = json_digest sha (nj_optional_string nj netns),
             er_bridge_master_digest = json_digest sha (nj_string nj (oi_bridge ifs)), er_netns_name = netns,
             er_netns_inode = Option.bind netns inode, er_expected_exists = True, er_legacy_identity = False\<rparr>
      | DetachEndpoint i e \<Rightarrow>
          RC_Endpoint
            \<lparr>er_endpoint_id = e, er_overlay_id = i, er_generation = generation, er_netns_digest = replicate 32 0,
             er_bridge_master_digest = json_digest sha (nj_string nj (oi_bridge ifs)), er_netns_name = None,
             er_netns_inode = None, er_expected_exists = False, er_legacy_identity = False\<rparr>)"

fun receipt_identity :: "effect_receipt \<Rightarrow> string" where
  "receipt_identity (RC_Overlay r) = ''overlay:'' @ or_overlay_id r"
| "receipt_identity (RC_Endpoint r) = ''endpoint:'' @ er_endpoint_id r"

fun receipt_expected_exists :: "effect_receipt \<Rightarrow> bool" where
  "receipt_expected_exists (RC_Overlay r) = or_expected_exists r"
| "receipt_expected_exists (RC_Endpoint r) = er_expected_exists r"

fun receipt_is_legacy :: "effect_receipt \<Rightarrow> bool" where
  "receipt_is_legacy (RC_Overlay r) = or_legacy_identity r"
| "receipt_is_legacy (RC_Endpoint r) = er_legacy_identity r"

fun receipt_endpoint_overlay :: "effect_receipt \<Rightarrow> string option" where
  "receipt_endpoint_overlay (RC_Endpoint r) = Some (er_overlay_id r)"
| "receipt_endpoint_overlay (RC_Overlay _) = None"

fun receipt_overlay_mode :: "effect_receipt \<Rightarrow> overlay_mode option" where
  "receipt_overlay_mode (RC_Overlay r) = Some (or_mode r)"
| "receipt_overlay_mode (RC_Endpoint _) = None"

fun receipt_route_interface :: "effect_receipt \<Rightarrow> string option" where
  "receipt_route_interface (RC_Overlay r) =
     Some (case or_mode r of
             OM_WireGuard \<Rightarrow> (case or_wireguard_ifname r of None \<Rightarrow> or_bridge_ifname r | Some w \<Rightarrow> w)
           | OM_BridgeOnly \<Rightarrow> or_bridge_ifname r)"
| "receipt_route_interface (RC_Endpoint _) = None"

section \<open>Lemmas\<close>

lemma overlay_mode_str_inject [simp]: "overlay_mode_str a = overlay_mode_str b \<longleftrightarrow> a = b"
  by (cases a; cases b) simp_all

lemma request_parameters_fields:
  assumes "request_parameters sha nj r = Inr (a, p)"
  shows "\<exists>operation flds. request_fields sha nj r = (a, operation, flds)
    \<and> wf_parameters p \<and> gp_operation p = operation \<and> mset (gp_fields p) = mset flds \<and> distinct (map fst flds)"
proof -
  obtain a' operation flds where f: "request_fields sha nj r = (a', operation, flds)" by (cases "request_fields sha nj r")
  with assms have n: "grant_parameters_new operation flds [] = Inr p" "a' = a"
    by (auto simp: request_parameters_def split: sum.splits)
  note w = grant_parameters_new_wf [OF n(1)]
  have "mset (map fst (gp_fields p)) = mset (map fst flds)" using w by simp
  moreover have "distinct (map fst (gp_fields p))" using w unfolding wf_parameters_def by (blast intro: om_wf_distinct)
  ultimately have "distinct (map fst flds)" by (metis mset_eq_imp_distinct_iff)
  with f n w show ?thesis by auto
qed

lemma map_of_mset_eq:
  assumes "mset xs = mset ys" and "distinct (map fst ys)"
  shows "map_of xs = map_of ys"
proof (rule map_of_eqI)
  show "set (map fst xs) = set (map fst ys)" using mset_eq_setD [OF assms(1)] by simp
  have "mset (map fst xs) = mset (map fst ys)" using assms(1) by simp
  then have d: "distinct (map fst xs)" using assms(2) by (metis mset_eq_imp_distinct_iff)
  show "\<forall>k \<in> set (map fst xs). map_of xs k = map_of ys k"
    using d assms(2) mset_eq_setD [OF assms(1)] by (metis map_of_eq_Some_iff map_of_eq_None_iff option.exhaust list.set_map)
qed

definition same_effect :: "netd_request \<Rightarrow> netd_request \<Rightarrow> bool" where
  "same_effect r s \<longleftrightarrow>
     r = s \<or> (\<exists>i e. {r, s} = {AttachEndpoint i e None, AttachEndpoint i e (Some [])})"

lemma same_fields_same_effect:
  assumes "request_fields sha nj r = (a, operation, fs)" and "request_fields sha nj s = (b, operation, gs)"
    and "map_of fs = map_of gs" and "inj (nj_peers nj)" and "inj (nj_strings nj)"
  shows "same_effect r s"
proof -
  have "map_of fs k = map_of gs k" for k by (simp add: assms(3))
  from this [of "''overlay_id''"] this [of "''overlay_mode''"] this [of "''peers''"] this [of "''routes''"]
    this [of "''addresses''"] this [of "''endpoint_id''"] this [of "''netns''"] assms(1,2,4,5)
  show ?thesis
    by (cases r; cases s)
      (auto simp: request_fields_def same_effect_def Let_def inj_eq doubleton_eq_iff split: option.splits)
qed

section \<open>Properties\<close>

text \<open>C17.
  A grant authorises one request.  While the hash has no collision and JSON texts determine what
  they encode, two requests whose parameters have the same digest are equal, for every kind of
  request, with one exception: an attachment with no namespace and one with an empty namespace name.
\<close>

theorem grant_binds_request:
  assumes "request_parameters sha nj r = Inr (a, p)" and "request_parameters sha nj s = Inr (b, q)"
    and "parameter_digest sha p = parameter_digest sha q"
    and "inj_on sha {digested_parameters p, digested_parameters q}" and "inj (nj_peers nj)" and "inj (nj_strings nj)"
  shows "a = b \<and> (r = s \<or> (\<exists>i e. {r, s} = {AttachEndpoint i e None, AttachEndpoint i e (Some [])}))"
proof -
  from request_parameters_fields [OF assms(1)] obtain op1 fs where
    1: "request_fields sha nj r = (a, op1, fs)" "wf_parameters p" "gp_operation p = op1"
    "mset (gp_fields p) = mset fs" "distinct (map fst fs)" by blast
  from request_parameters_fields [OF assms(2)] obtain op2 gs where
    2: "request_fields sha nj s = (b, op2, gs)" "wf_parameters q" "gp_operation q = op2"
    "mset (gp_fields q) = mset gs" "distinct (map fst gs)" by blast
  have eq: "p = q" by (rule parameter_digest_inject [OF 1(2) 2(2) assms(4,3)])
  with 1 2 have "op1 = op2" "mset fs = mset gs" by auto
  with 1(1) 2(1,5) map_of_mset_eq [of fs gs] same_fields_same_effect [of sha nj r a op1 fs s b gs] assms(5,6)
  have se: "same_effect r s" by simp
  then have "a = b" using 1(1) 2(1) by (auto simp: same_effect_def request_fields_def Let_def doubleton_eq_iff)
  with se show ?thesis by (simp add: same_effect_def)
qed

text \<open>Encodings with the two properties, for the witness: lengths in unary.\<close>

definition unary :: "bytes \<Rightarrow> bytes" where
  "unary bs = replicate (length bs) 1 @ 0 # bs"

lemma unary_length: "replicate n (1 :: byte) @ 0 # r = replicate m 1 @ 0 # s \<Longrightarrow> n = m \<and> r = s"
proof (induction n arbitrary: m)
  case 0
  then show ?case by (cases m) auto
next
  case (Suc n)
  then show ?case by (cases m) auto
qed

interpretation un: self_delimiting "\<lambda>_. True" unary
proof
  fix x y r s :: bytes
  assume "unary x @ r = unary y @ s"
  then have "length x = length y \<and> x @ r = y @ s" unfolding unary_def by (intro unary_length) simp
  then have "length x = length y" "x @ r = y @ s" by blast+
  then show "x = y \<and> r = s" by simp
qed

definition unary_list :: "bytes list \<Rightarrow> bytes" where
  "unary_list xs = replicate (length xs) 1 @ 0 # concat (map unary xs)"

lemma unary_list_inject: "unary_list xs = unary_list ys \<longleftrightarrow> xs = ys"
proof
  assume "unary_list xs = unary_list ys"
  then have *: "length xs = length ys \<and> concat (map unary xs) = concat (map unary ys)"
    unfolding unary_list_def by (rule unary_length)
  then show "xs = ys" using un.cut_concat [of xs ys "[]" "[]"] by simp
qed simp

definition unary_strings :: "string list \<Rightarrow> string" where
  "unary_strings xs = str_of (unary_list (map bstr xs))"

definition unary_peers :: "peer_spec list \<Rightarrow> string" where
  "unary_peers ps = unary_strings (map (\<lambda>p.
     unary_strings [peer_node_id p, peer_public_key p, peer_endpoint p, unary_strings (peer_allowed_ips p)]) ps)"

lemma str_of_inject [simp]: "str_of a = str_of b \<longleftrightarrow> a = b"
  by (metis bstr_str_of)

lemma inj_unary_strings: "inj unary_strings"
proof -
  have "inj bstr" by (simp add: inj_def)
  then show ?thesis by (auto simp: inj_def unary_strings_def unary_list_inject inj_map_eq_map)
qed

lemma inj_unary_peers: "inj unary_peers"
proof -
  have "inj (\<lambda>p :: peer_spec. unary_strings [peer_node_id p, peer_public_key p, peer_endpoint p, unary_strings (peer_allowed_ips p)])"
    by (auto simp: inj_def inj_eq [OF inj_unary_strings])
  then show ?thesis
    using inj_unary_strings by (auto simp: inj_def [of unary_peers] unary_peers_def inj_eq inj_map_eq_map)
qed

theorem grant_binds_request_witness:
  "\<exists>nj p. (\<forall>r s a b p q. request_parameters (\<lambda>x. x) nj r = Inr (a, p) \<longrightarrow> request_parameters (\<lambda>x. x) nj s = Inr (b, q) \<longrightarrow>
        parameter_digest (\<lambda>x. x) p = parameter_digest (\<lambda>x. x) q \<longrightarrow> a = b)
     \<and> request_parameters (\<lambda>x. x) nj (Inspect ''wg0'') = Inr (GA_NetworkInspect, p)"
proof -
  let ?nj = "\<lparr>nj_peers = unary_peers, nj_strings = unary_strings, nj_canonical_peers = (\<lambda>_. []), nj_string = id,
      nj_optional_string = (\<lambda>_. [])\<rparr>"
  have "request_parameters (\<lambda>x. x) ?nj (Inspect ''wg0'')
      = Inr (GA_NetworkInspect, \<lparr>gp_operation = ''overlay.inspect'', gp_fields = [(''overlay_id'', ''wg0'')], gp_fds = []\<rparr>)"
    by (simp add: request_parameters_def request_fields_def grant_parameters_new_def)
  moreover have "a = b" if "request_parameters (\<lambda>x. x) ?nj r = Inr (a, p)" "request_parameters (\<lambda>x. x) ?nj s = Inr (b, q)"
    "parameter_digest (\<lambda>x. x) p = parameter_digest (\<lambda>x. x) q" for r s a b p q
    using grant_binds_request [OF that] inj_unary_peers inj_unary_strings inj_on_id2 by simp
  ultimately show ?thesis by blast
qed

text \<open>
  Interface names.  With a 32-byte digest both names of an overlay have 14 characters, below the
  15 of Linux, and no bridge has the name of a WireGuard interface, of the same or another overlay.
\<close>

theorem interface_names_bounded:
  assumes "\<And>x. length (sha x) = 32"
  shows "length (oi_bridge (managed_interface_identities sha i)) = 14
    \<and> length (oi_wireguard (managed_interface_identities sha i)) = 14
    \<and> oi_bridge (managed_interface_identities sha i) \<noteq> oi_wireguard (managed_interface_identities sha j)"
proof -
  have hex: "length (concat (map hex_byte bs)) = 2 * length bs" for bs by (induction bs) simp_all
  show ?thesis by (simp add: managed_interface_identities_def Let_def hex assms)
qed

theorem interface_names_bounded_witness:
  "length (oi_bridge (managed_interface_identities toy_sha ''overlay-a'')) = 14"
  using interface_names_bounded [of toy_sha "''overlay-a''"] length_toy_sha by simp

end
