(* ===== verification/Grant_Ledger.thy ===== *)
theory Grant_Ledger
  imports Netd_Protocol
begin

text \<open>
  The ledger of consumed grants of the network helper and the verifier in front of it:
  \<open>grants.rs\<close> and \<open>grants_recovery.rs\<close> under \<open>src/ferro-netd/src/\<close>.

  A ledger has its state in memory and, when it has a path, the state its file holds; the JSON text
  of the file is represented by the state it encodes.  Every call that writes the file takes the
  point at which the write fails, if it does.  A result is a sum, paired with the new ledger: the
  source changes the state in memory before it writes, also when the write fails.
\<close>

section \<open>State\<close>

record grant_result =
  gr_request_id :: string
  gr_nonce :: bytes
  gr_result_identity :: string
  gr_outcome :: string

datatype grant_phase = GP_Pending | GP_ConsumedBeforeEffect | GP_Succeeded | GP_Failed | GP_OutcomeUnknown

record grant_operation =
  go_claims :: grant_claims
  go_phase :: grant_phase
  go_effect_identity :: "string option"
  go_expected_receipt :: "effect_receipt option"

record ledger_state =
  ls_consumed :: "(string, grant_operation) omap"
  ls_results :: "(string, grant_result) omap"

record grant_ledger =
  gl_durable :: bool
  gl_state :: ledger_state
  gl_disk :: "ledger_state option"

datatype grant_error =
    GE_Locked | GE_InvalidSignature | GE_WrongIssuer | GE_WrongBoot | GE_Expired | GE_ActionMismatch
  | GE_CleanupEscalation | GE_ResourceMismatch | GE_ParameterMismatch | GE_CleanupProvenance | GE_Replay
  | GE_NotConsumed | GE_ResultConflict | GE_Oversized | GE_Io | GE_Encoding

type_synonym 'a ledger_result = "(grant_error + 'a) \<times> grant_ledger"

definition default_state :: ledger_state where
  "default_state = \<lparr>ls_consumed = [], ls_results = []\<rparr>"

definition ledger_memory :: grant_ledger where
  "ledger_memory = \<lparr>gl_durable = False, gl_state = default_state, gl_disk = None\<rparr>"

definition hex :: "bytes \<Rightarrow> string" where
  "hex value = concat (map hex_byte value)"

definition ledger_persist :: "io_fault \<Rightarrow> grant_ledger \<Rightarrow> unit ledger_result" where
  "ledger_persist fault l =
     (if \<not> gl_durable l then (Inr (), l)
      else
        case replace_file fault (Some (gl_state l)) (gl_disk l) of
          (ok, disk) \<Rightarrow> ((if ok then Inr () else Inl GE_Io), l\<lparr>gl_disk := disk\<rparr>))"

definition set_consumed :: "((string, grant_operation) omap \<Rightarrow> (string, grant_operation) omap) \<Rightarrow> grant_ledger \<Rightarrow> grant_ledger" where
  "set_consumed f l = l\<lparr>gl_state := (gl_state l)\<lparr>ls_consumed := f (ls_consumed (gl_state l))\<rparr>\<rparr>"

definition set_results :: "((string, grant_result) omap \<Rightarrow> (string, grant_result) omap) \<Rightarrow> grant_ledger \<Rightarrow> grant_ledger" where
  "set_results f l = l\<lparr>gl_state := (gl_state l)\<lparr>ls_results := f (ls_results (gl_state l))\<rparr>\<rparr>"

text \<open>\<open>get_mut(nonce)\<close> and a change of the operation found.\<close>

definition update_operation :: "string \<Rightarrow> (grant_operation \<Rightarrow> grant_operation) \<Rightarrow> grant_ledger \<Rightarrow> grant_ledger" where
  "update_operation nonce f l =
     set_consumed (\<lambda>m. case om_get m nonce of None \<Rightarrow> m | Some op \<Rightarrow> om_insert nonce (f op) m) l"

section \<open>Consuming and recording\<close>

definition ledger_consume :: "io_fault \<Rightarrow> io_fault \<Rightarrow> helper_grant \<Rightarrow> grant_ledger \<Rightarrow> unit ledger_result" where
  "ledger_consume fault1 fault2 g l =
     (let nonce = hex (gc_nonce (hg_claims g)) in
      if om_get (ls_consumed (gl_state l)) nonce \<noteq> None then (Inl GE_Replay, l)
      else
        let l = set_consumed (om_insert nonce
                  \<lparr>go_claims = hg_claims g, go_phase = GP_Pending, go_effect_identity = None,
                   go_expected_receipt = None\<rparr>) l
        in case ledger_persist fault1 l of
             (Inl e, l) \<Rightarrow> (Inl e, l)
           | (Inr _, l) \<Rightarrow> ledger_persist fault2 (update_operation nonce (go_phase_update (\<lambda>_. GP_ConsumedBeforeEffect)) l))"

definition ledger_result_of :: "string \<Rightarrow> grant_ledger \<Rightarrow> grant_result option" where
  "ledger_result_of request_id l = om_get (ls_results (gl_state l)) request_id"

definition ledger_record :: "io_fault \<Rightarrow> grant_result \<Rightarrow> grant_phase \<Rightarrow> grant_ledger \<Rightarrow> unit ledger_result" where
  "ledger_record fault r phase l =
     (let nonce = hex (gr_nonce r) in
      if map_option (\<lambda>op. gc_request_id (go_claims op)) (om_get (ls_consumed (gl_state l)) nonce) \<noteq> Some (gr_request_id r)
      then (Inl GE_NotConsumed, l)
      else
        case om_get (ls_results (gl_state l)) (gr_request_id r) of
          Some old \<Rightarrow> ((if old = r then Inr () else Inl GE_ResultConflict), l)
        | None \<Rightarrow>
            ledger_persist fault
              (update_operation nonce (go_phase_update (\<lambda>_. phase)) (set_results (om_insert (gr_request_id r) r) l)))"

definition live_identity :: "(bytes \<Rightarrow> bytes) \<Rightarrow> string \<Rightarrow> bytes" where
  "live_identity sha identity = sha (bstr ''ferrocrate.helper-live-identity.v1'' @ [0] @ bstr identity)"

definition validates_cleanup :: "(bytes \<Rightarrow> bytes) \<Rightarrow> helper_grant \<Rightarrow> grant_ledger \<Rightarrow> bool" where
  "validates_cleanup sha g l =
     (case gc_origin_request_id (hg_claims g) of
        None \<Rightarrow> False
      | Some origin \<Rightarrow>
          (case om_get (ls_results (gl_state l)) origin of
             None \<Rightarrow> False
           | Some result \<Rightarrow>
               (case find (\<lambda>op. gc_request_id (go_claims op) = origin) (om_values (ls_consumed (gl_state l))) of
                  None \<Rightarrow> False
                | Some op \<Rightarrow>
                    gc_boot_id (go_claims op) = gc_boot_id (hg_claims g)
                    \<and> gc_resource (go_claims op) = gc_resource (hg_claims g)
                    \<and> gc_action (go_claims op) \<in> {GA_NetworkCreate, GA_NetworkAttach}
                    \<and> gc_live_identity_digest (hg_claims g) = Some (live_identity sha (gr_result_identity result)))))"

definition mark_outcome_unknown ::
  "io_fault \<Rightarrow> bytes \<Rightarrow> string option \<Rightarrow> effect_receipt option \<Rightarrow> grant_ledger \<Rightarrow> unit ledger_result" where
  "mark_outcome_unknown fault nonce identity receipt l =
     (if om_get (ls_consumed (gl_state l)) (hex nonce) = None then (Inl GE_NotConsumed, l)
      else
        ledger_persist fault
          (update_operation (hex nonce)
             (\<lambda>op. op\<lparr>go_phase := GP_OutcomeUnknown, go_effect_identity := identity, go_expected_receipt := receipt\<rparr>) l))"

section \<open>Recovery\<close>

fun grant_action_debug :: "grant_action \<Rightarrow> string" where
  "grant_action_debug GA_NetworkCreate = ''NetworkCreate''"
| "grant_action_debug GA_NetworkDelete = ''NetworkDelete''"
| "grant_action_debug GA_NetworkAttach = ''NetworkAttach''"
| "grant_action_debug GA_NetworkDetach = ''NetworkDetach''"
| "grant_action_debug GA_NetworkInspect = ''NetworkInspect''"

text \<open>\<open>entry(request_id).or_insert(result)\<close>, and the new phase of the operation.\<close>

definition settle_operation :: "string \<Rightarrow> grant_result \<Rightarrow> grant_phase \<Rightarrow> grant_ledger \<Rightarrow> grant_ledger" where
  "settle_operation nonce r phase l =
     update_operation nonce (go_phase_update (\<lambda>_. phase))
       (set_results (\<lambda>m. if om_get m (gr_request_id r) = None then om_insert (gr_request_id r) r m else m) l)"

definition quarantine_result :: "grant_claims \<Rightarrow> grant_result" where
  "quarantine_result c =
     \<lparr>gr_request_id = gc_request_id c, gr_nonce = gc_nonce c,
      gr_result_identity =
        ''quarantine:'' @ rb_resource_uuid (gc_resource c) @ '':'' @ grant_action_debug (gc_action c),
      gr_outcome = ''quarantined_after_unknown_effect''\<rparr>"

definition quarantine_operation :: "string \<times> grant_operation \<Rightarrow> grant_ledger \<Rightarrow> grant_ledger" where
  "quarantine_operation e l = settle_operation (fst e) (quarantine_result (go_claims (snd e))) GP_Failed l"

definition quarantine_unknown :: "grant_ledger \<Rightarrow> grant_ledger" where
  "quarantine_unknown l =
     fold quarantine_operation
       (filter (\<lambda>e. go_phase (snd e) = GP_OutcomeUnknown \<and> go_effect_identity (snd e) = None)
          (ls_consumed (gl_state l))) l"

definition ledger_open :: "io_fault \<Rightarrow> ledger_state option \<Rightarrow> unit ledger_result" where
  "ledger_open fault disk =
     ledger_persist fault (quarantine_unknown
       \<lparr>gl_durable = True, gl_state = (case disk of None \<Rightarrow> default_state | Some s \<Rightarrow> s), gl_disk = disk\<rparr>)"

datatype recovery_observation = RO_Consistent bool | RO_Conflict

definition recovery_outcome :: "recovery_observation \<Rightarrow> bool \<Rightarrow> grant_phase \<times> string" where
  "recovery_outcome obs expected =
     (case obs of
        RO_Consistent exists \<Rightarrow>
          if exists = expected then (GP_Succeeded, ''recovered_after_unknown_effect'')
          else (GP_Failed, ''failed_after_unknown_effect'')
      | RO_Conflict \<Rightarrow> (GP_Failed, ''quarantined_after_unknown_effect''))"

definition reconcile_operation ::
  "(effect_receipt \<Rightarrow> recovery_observation) \<Rightarrow> string \<times> grant_operation \<Rightarrow> grant_ledger \<Rightarrow> grant_ledger" where
  "reconcile_operation observe e l =
     (case go_expected_receipt (snd e) of
        None \<Rightarrow> l
      | Some receipt \<Rightarrow>
          (case recovery_outcome (observe receipt) (receipt_expected_exists receipt) of
             (phase, outcome) \<Rightarrow>
               settle_operation (fst e)
                 \<lparr>gr_request_id = gc_request_id (go_claims (snd e)), gr_nonce = gc_nonce (go_claims (snd e)),
                  gr_result_identity = receipt_identity receipt, gr_outcome = outcome\<rparr> phase l))"

definition reconcile_unknown_memory :: "(effect_receipt \<Rightarrow> recovery_observation) \<Rightarrow> grant_ledger \<Rightarrow> grant_ledger" where
  "reconcile_unknown_memory observe l =
     fold (reconcile_operation observe)
       (filter (\<lambda>e. go_phase (snd e) = GP_OutcomeUnknown) (ls_consumed (gl_state l))) l"

definition reconcile_unknown ::
  "io_fault \<Rightarrow> (effect_receipt \<Rightarrow> recovery_observation) \<Rightarrow> grant_ledger \<Rightarrow> unit ledger_result" where
  "reconcile_unknown fault observe l = ledger_persist fault (reconcile_unknown_memory observe l)"

section \<open>Keys and the verifier\<close>

type_synonym verifying_key = "bytes \<Rightarrow> bytes \<Rightarrow> bool"
type_synonym grant_keyring = "(string, verifying_key) omap"

definition add_overlap :: "string \<Rightarrow> verifying_key \<Rightarrow> grant_keyring \<Rightarrow> (grant_error + unit) \<times> grant_keyring" where
  "add_overlap key_id key ks =
     ((if om_get ks key_id \<noteq> None then Inl GE_WrongIssuer else Inr ()), om_insert key_id key ks)"

definition retire_key :: "string \<Rightarrow> grant_keyring \<Rightarrow> (grant_error + unit) \<times> grant_keyring" where
  "retire_key key_id ks =
     ((if om_get ks key_id = None then Inl GE_WrongIssuer else Inr ()), om_remove key_id ks)"

record grant_verifier =
  gv_keys :: grant_keyring
  gv_issuer :: string
  gv_boot_id :: string
  gv_ledger :: grant_ledger

definition max_grant_bytes :: nat where
  "max_grant_bytes = 16 * 1024"

text \<open>\<open>grant_json\<close> is the JSON text of a grant, \<open>unb64\<close> the decoder of the base64 alphabet.\<close>

definition verifier_verify ::
  "(bytes \<Rightarrow> bytes) \<Rightarrow> (helper_grant \<Rightarrow> bytes) \<Rightarrow> (string \<Rightarrow> bytes option) \<Rightarrow> helper_grant \<Rightarrow> grant_action \<Rightarrow> string \<Rightarrow> u64
   \<Rightarrow> grant_parameters \<Rightarrow> u64 \<Rightarrow> u64 \<Rightarrow> grant_verifier \<Rightarrow> grant_error + unit" where
  "verifier_verify sha grant_json unb64 g action uuid generation params wall_now mono_now v =
     (let c = hg_claims g in
      if max_grant_bytes < length (grant_json g) then Inl GE_Oversized
      else if gc_schema_version c \<noteq> grant_schema_version \<or> gc_issuer c \<noteq> gv_issuer v then Inl GE_WrongIssuer
      else
        rbind (ok_or GE_InvalidSignature (unb64 (hg_signature g))) (\<lambda>sig.
        rbind (ok_or GE_WrongIssuer (om_get (gv_keys v) (gc_key_id c))) (\<lambda>key.
        if length sig \<noteq> 64 \<or> \<not> key (signing_bytes c) sig then Inl GE_InvalidSignature
        else if gc_boot_id c \<noteq> gv_boot_id v then Inl GE_WrongBoot
        else if gc_wall_deadline_secs c \<le> wall_now \<or> gc_monotonic_deadline_millis c \<le> mono_now then Inl GE_Expired
        else if gc_kind c = GK_Cleanup \<and> \<not> is_cleanup action then Inl GE_CleanupEscalation
        else if gc_action c \<noteq> action then Inl GE_ActionMismatch
        else if rb_resource_uuid (gc_resource c) \<noteq> uuid \<or> rb_generation (gc_resource c) \<noteq> generation
          then Inl GE_ResourceMismatch
        else if gc_parameter_digest c \<noteq> parameter_digest sha params then Inl GE_ParameterMismatch
        else if gc_action c \<in> {GA_NetworkCreate, GA_NetworkDelete}
          \<and> (gc_precondition_digest c = replicate 32 0 \<or> gc_recovery_recipe_digest c = replicate 32 0
             \<or> gc_precondition_digest c = gc_parameter_digest c \<or> gc_recovery_recipe_digest c = gc_parameter_digest c
             \<or> gc_precondition_digest c = gc_recovery_recipe_digest c)
          then Inl GE_ParameterMismatch
        else if gc_kind c = GK_Cleanup
          \<and> ((case gc_origin_request_id c of None \<Rightarrow> True | Some s \<Rightarrow> s = [])
             \<or> (case gc_live_identity_digest c of None \<Rightarrow> True | Some d \<Rightarrow> d = replicate 32 0))
          then Inl GE_CleanupProvenance
        else if gc_kind c = GK_Cleanup \<and> \<not> validates_cleanup sha g (gv_ledger v) then Inl GE_CleanupProvenance
        else Inr ())))"

record consumed_grant =
  co_request_id :: string
  co_nonce :: bytes

definition verify_and_consume ::
  "(bytes \<Rightarrow> bytes) \<Rightarrow> (helper_grant \<Rightarrow> bytes) \<Rightarrow> (string \<Rightarrow> bytes option) \<Rightarrow> io_fault \<Rightarrow> io_fault \<Rightarrow> helper_grant
   \<Rightarrow> grant_action \<Rightarrow> string \<Rightarrow> u64 \<Rightarrow> grant_parameters \<Rightarrow> u64 \<Rightarrow> u64 \<Rightarrow> grant_verifier
   \<Rightarrow> (grant_error + consumed_grant) \<times> grant_verifier" where
  "verify_and_consume sha grant_json unb64 fault1 fault2 g action uuid generation params wall_now mono_now v =
     (case verifier_verify sha grant_json unb64 g action uuid generation params wall_now mono_now v of
        Inl e \<Rightarrow> (Inl e, v)
      | Inr _ \<Rightarrow>
          (case ledger_consume fault1 fault2 g (gv_ledger v) of
             (Inl e, l) \<Rightarrow> (Inl e, v\<lparr>gv_ledger := l\<rparr>)
           | (Inr _, l) \<Rightarrow>
               (Inr \<lparr>co_request_id = gc_request_id (hg_claims g), co_nonce = gc_nonce (hg_claims g)\<rparr>, v\<lparr>gv_ledger := l\<rparr>)))"

definition with_ledger :: "(grant_ledger \<Rightarrow> unit ledger_result) \<Rightarrow> grant_verifier \<Rightarrow> (grant_error + unit) \<times> grant_verifier" where
  "with_ledger f v = (case f (gv_ledger v) of (r, l) \<Rightarrow> (r, v\<lparr>gv_ledger := l\<rparr>))"

definition consumed_result :: "consumed_grant \<Rightarrow> string \<Rightarrow> string \<Rightarrow> grant_result" where
  "consumed_result c identity outcome =
     \<lparr>gr_request_id = co_request_id c, gr_nonce = co_nonce c, gr_result_identity = identity, gr_outcome = outcome\<rparr>"

definition record_result ::
  "io_fault \<Rightarrow> consumed_grant \<Rightarrow> string \<Rightarrow> string \<Rightarrow> grant_verifier \<Rightarrow> (grant_error + unit) \<times> grant_verifier" where
  "record_result fault c identity outcome =
     with_ledger (ledger_record fault (consumed_result c identity outcome) GP_Succeeded)"

definition record_failure ::
  "io_fault \<Rightarrow> consumed_grant \<Rightarrow> string \<Rightarrow> string \<Rightarrow> grant_verifier \<Rightarrow> (grant_error + unit) \<times> grant_verifier" where
  "record_failure fault c identity outcome =
     with_ledger (ledger_record fault (consumed_result c identity outcome) GP_Failed)"

definition arm_effect :: "io_fault \<Rightarrow> consumed_grant \<Rightarrow> grant_verifier \<Rightarrow> (grant_error + unit) \<times> grant_verifier" where
  "arm_effect fault c = with_ledger (mark_outcome_unknown fault (co_nonce c) None None)"

definition arm_effect_target ::
  "io_fault \<Rightarrow> consumed_grant \<Rightarrow> effect_receipt \<Rightarrow> grant_verifier \<Rightarrow> (grant_error + unit) \<times> grant_verifier" where
  "arm_effect_target fault c receipt =
     with_ledger (mark_outcome_unknown fault (co_nonce c) (Some (receipt_identity receipt)) (Some receipt))"

end
