(* ===== verification/Grant_History.thy ===== *)
theory Grant_History
  imports Grant_Ledger
begin

text \<open>
  What holds of the grant ledger over its history: across operations, failed writes, crashes and
  restarts.  The locale \<open>durable_order\<close> states how a growing state in memory, its copy on disk and a
  restart from that copy relate; it is interpreted on the growth order of the ledger's states.
\<close>

section \<open>Growth\<close>

definition consumed_of :: "ledger_state \<Rightarrow> string \<rightharpoonup> grant_operation" where
  "consumed_of s = om_get (ls_consumed s)"

definition results_of :: "ledger_state \<Rightarrow> string \<rightharpoonup> grant_result" where
  "results_of s = om_get (ls_results s)"

definition state_wf :: "ledger_state \<Rightarrow> bool" where
  "state_wf s \<longleftrightarrow> om_wf (ls_consumed s) \<and> om_wf (ls_results s)"

definition grows :: "ledger_state \<Rightarrow> ledger_state \<Rightarrow> bool" where
  "grows s t \<longleftrightarrow>
     (state_wf s \<longrightarrow> state_wf t)
     \<and> map_option go_claims \<circ> consumed_of s \<subseteq>\<^sub>m map_option go_claims \<circ> consumed_of t
     \<and> results_of s \<subseteq>\<^sub>m results_of t"

locale durable_order =
  fixes le :: "'s \<Rightarrow> 's \<Rightarrow> bool"
  assumes le_refl: "le s s" and le_trans: "le s t \<Longrightarrow> le t u \<Longrightarrow> le s u"
begin

lemma fold_le: "(\<And>e s. le s (f e s)) \<Longrightarrow> le s (fold f es s)"
  by (induction es arbitrary: s) (auto intro: le_refl le_trans)

lemma run_le:
  assumes "\<And>op c. ok c \<Longrightarrow> ok (step op c) \<and> le (disk c) (disk (step op c))" and "ok c"
  shows "ok (fold step ops c) \<and> le (disk c) (disk (fold step ops c))"
  using assms(2)
proof (induction ops arbitrary: c)
  case (Cons op ops)
  then show ?case using assms(1) [of c op] by (auto intro: le_trans)
qed (simp add: le_refl)

end

interpretation growth: durable_order grows
  by unfold_locales (auto simp: grows_def intro: map_le_trans)

lemma grows_claims:
  "grows s t \<Longrightarrow> consumed_of s n = Some op \<Longrightarrow> \<exists>op'. consumed_of t n = Some op' \<and> go_claims op' = go_claims op"
proof -
  assume g: "grows s t" and c: "consumed_of s n = Some op"
  then have "(map_option go_claims \<circ> consumed_of s) n = Some (go_claims op)" by simp
  with g have "(map_option go_claims \<circ> consumed_of t) n = Some (go_claims op)"
    unfolding grows_def map_le_def by (metis domI)
  then show ?thesis by auto
qed

lemma grows_result: "grows s t \<Longrightarrow> results_of s k = Some r \<Longrightarrow> results_of t k = Some r"
  unfolding grows_def map_le_def by (metis domI)

section \<open>Operations on the state\<close>

lemma update_operation_consumed:
  "state_wf (gl_state l) \<Longrightarrow>
   consumed_of (gl_state (update_operation n f l)) = (consumed_of (gl_state l))(n := map_option f (consumed_of (gl_state l) n))"
  by (auto simp: update_operation_def set_consumed_def consumed_of_def state_wf_def fun_eq_iff split: option.splits)

lemma update_operation_simps [simp]:
  "results_of (gl_state (update_operation n f l)) = results_of (gl_state l)"
  "gl_disk (update_operation n f l) = gl_disk l" "gl_durable (update_operation n f l) = gl_durable l"
  by (simp_all add: update_operation_def set_consumed_def results_of_def)

lemma update_operation_wf: "state_wf (gl_state l) \<Longrightarrow> state_wf (gl_state (update_operation n f l))"
  by (auto simp: update_operation_def set_consumed_def state_wf_def split: option.splits)

lemma update_operation_grows:
  assumes "\<And>op. go_claims (f op) = go_claims op"
  shows "state_wf (gl_state l) \<Longrightarrow> grows (gl_state l) (gl_state (update_operation n f l))"
  using update_operation_wf [of l n f] update_operation_consumed [of l n f] assms
  by (auto simp: grows_def map_le_def option.map_comp comp_def)

lemma set_results_grows:
  "state_wf (gl_state l) \<Longrightarrow> om_get (ls_results (gl_state l)) k = None \<Longrightarrow>
   grows (gl_state l) (gl_state (set_results (om_insert k r) l))"
  by (auto simp: grows_def set_results_def state_wf_def consumed_of_def results_of_def map_le_def)

lemma settle_grows: "state_wf (gl_state l) \<Longrightarrow> grows (gl_state l) (gl_state (settle_operation n r ph l))"
proof -
  assume wf: "state_wf (gl_state l)"
  let ?l = "set_results (\<lambda>m. if om_get m (gr_request_id r) = None then om_insert (gr_request_id r) r m else m) l"
  have 1: "grows (gl_state l) (gl_state ?l)"
    using wf by (auto simp: grows_def set_results_def state_wf_def consumed_of_def results_of_def map_le_def)
  then have "state_wf (gl_state ?l)" using wf by (simp add: grows_def)
  then have "grows (gl_state ?l) (gl_state (settle_operation n r ph l))"
    unfolding settle_operation_def by (intro update_operation_grows) simp_all
  with 1 show ?thesis by (rule growth.le_trans)
qed

lemma settle_simps [simp]:
  "gl_disk (settle_operation n r ph l) = gl_disk l" "gl_durable (settle_operation n r ph l) = gl_durable l"
  by (simp_all add: settle_operation_def set_results_def)

lemma settle_consumed:
  "state_wf (gl_state l) \<Longrightarrow>
   consumed_of (gl_state (settle_operation n r ph l)) =
     (consumed_of (gl_state l))(n := map_option (go_phase_update (\<lambda>_. ph)) (consumed_of (gl_state l) n))"
  unfolding settle_operation_def
  by (subst update_operation_consumed)
    (auto simp: set_results_def state_wf_def consumed_of_def)

lemma settle_result:
  "state_wf (gl_state l) \<Longrightarrow> results_of (gl_state (settle_operation n r ph l)) (gr_request_id r) \<noteq> None"
  unfolding settle_operation_def update_operation_simps(1)
  by (auto simp: set_results_def state_wf_def results_of_def)

text \<open>Settling several operations: what \<open>h\<close> says of an entry, if anything.\<close>

definition settle_entry ::
  "(string \<times> grant_operation \<Rightarrow> (grant_result \<times> grant_phase) option) \<Rightarrow> string \<times> grant_operation \<Rightarrow> grant_ledger \<Rightarrow> grant_ledger" where
  "settle_entry h e l = (case h e of None \<Rightarrow> l | Some (r, ph) \<Rightarrow> settle_operation (fst e) r ph l)"

lemma settle_entry_simps [simp]:
  "gl_disk (settle_entry h e l) = gl_disk l" "gl_durable (settle_entry h e l) = gl_durable l"
  by (auto simp: settle_entry_def split: option.splits)

lemma fold_settle_simps [simp]:
  "gl_disk (fold (settle_entry h) es l) = gl_disk l" "gl_durable (fold (settle_entry h) es l) = gl_durable l"
  by (induction es arbitrary: l) simp_all

lemma settle_entry_grows: "state_wf (gl_state l) \<Longrightarrow> grows (gl_state l) (gl_state (settle_entry h e l))"
  by (auto simp: settle_entry_def intro: settle_grows growth.le_refl split: option.splits)

lemma grows_wf: "grows s t \<Longrightarrow> state_wf s \<Longrightarrow> state_wf t"
  by (simp add: grows_def)

lemma fold_settle_grows: "state_wf (gl_state l) \<Longrightarrow> grows (gl_state l) (gl_state (fold (settle_entry h) es l))"
proof (induction es arbitrary: l)
  case (Cons e es)
  with settle_entry_grows [OF Cons.prems, of h e] show ?case
    by (auto intro: growth.le_trans grows_wf)
qed (simp add: growth.le_refl)

lemma fold_settle_consumed:
  assumes "state_wf (gl_state l)" and "distinct (map fst es)"
  shows "consumed_of (gl_state (fold (settle_entry h) es l)) n =
    (case map_of es n of
       None \<Rightarrow> consumed_of (gl_state l) n
     | Some op \<Rightarrow>
         (case h (n, op) of
            None \<Rightarrow> consumed_of (gl_state l) n
          | Some (r, ph) \<Rightarrow> map_option (go_phase_update (\<lambda>_. ph)) (consumed_of (gl_state l) n)))"
  using assms
proof (induction es arbitrary: l)
  case (Cons e es)
  have wf: "state_wf (gl_state (settle_entry h e l))"
    using settle_entry_grows [OF Cons.prems(1)] Cons.prems(1) by (rule grows_wf)
  have "consumed_of (gl_state (settle_entry h e l)) n =
    (if n = fst e then (case h e of None \<Rightarrow> consumed_of (gl_state l) n
       | Some (r, ph) \<Rightarrow> map_option (go_phase_update (\<lambda>_. ph)) (consumed_of (gl_state l) n))
     else consumed_of (gl_state l) n)"
    using settle_consumed [OF Cons.prems(1)] by (auto simp: settle_entry_def split: option.splits)
  moreover have "fst e \<notin> fst ` set es" using Cons.prems(2) by simp
  ultimately show ?case
    using Cons.IH [OF wf] Cons.prems(2) by (cases e) (auto simp: map_of_eq_None_iff [symmetric] split: option.splits)
qed simp

lemma fold_settle_result:
  assumes "state_wf (gl_state l)" and "e \<in> set es" and "h e = Some (r, ph)"
  shows "results_of (gl_state (fold (settle_entry h) es l)) (gr_request_id r) \<noteq> None"
  using assms
proof (induction es arbitrary: l)
  case (Cons a es)
  have wf: "state_wf (gl_state (settle_entry h a l))"
    using settle_entry_grows [OF Cons.prems(1)] Cons.prems(1) by (rule grows_wf)
  show ?case
  proof (cases "e \<in> set es")
    case True
    then show ?thesis using Cons.IH [OF wf] Cons.prems(3) by simp
  next
    case False
    with Cons.prems have "results_of (gl_state (settle_entry h a l)) (gr_request_id r) \<noteq> None"
      using settle_result [OF Cons.prems(1), of "fst a" r ph] by (simp add: settle_entry_def)
    with fold_settle_grows [OF wf, of h es] show ?thesis by (auto dest: grows_result)
  qed
qed simp

definition quarantine_entry :: "string \<times> grant_operation \<Rightarrow> (grant_result \<times> grant_phase) option" where
  "quarantine_entry e = Some (quarantine_result (go_claims (snd e)), GP_Failed)"

definition reconcile_entry ::
  "(effect_receipt \<Rightarrow> recovery_observation) \<Rightarrow> string \<times> grant_operation \<Rightarrow> (grant_result \<times> grant_phase) option" where
  "reconcile_entry observe e =
     map_option (\<lambda>receipt.
       let out = recovery_outcome (observe receipt) (receipt_expected_exists receipt) in
       (\<lparr>gr_request_id = gc_request_id (go_claims (snd e)), gr_nonce = gc_nonce (go_claims (snd e)),
         gr_result_identity = receipt_identity receipt, gr_outcome = snd out\<rparr>, fst out)) (go_expected_receipt (snd e))"

lemma quarantine_fold: "quarantine_operation = settle_entry quarantine_entry"
  by (auto simp: fun_eq_iff quarantine_operation_def settle_entry_def quarantine_entry_def)

lemma reconcile_fold: "reconcile_operation observe = settle_entry (reconcile_entry observe)"
  by (auto simp: fun_eq_iff reconcile_operation_def settle_entry_def reconcile_entry_def Let_def
      split: option.splits prod.splits)

section \<open>Memory and disk\<close>

definition disk_state :: "grant_ledger \<Rightarrow> ledger_state" where
  "disk_state l = (case gl_disk l of None \<Rightarrow> default_state | Some s \<Rightarrow> s)"

definition ledger_ok :: "grant_ledger \<Rightarrow> bool" where
  "ledger_ok l \<longleftrightarrow> gl_durable l \<and> state_wf (gl_state l) \<and> state_wf (disk_state l) \<and> grows (disk_state l) (gl_state l)"

lemma persist_ok:
  assumes "ledger_ok l"
  shows "ledger_ok (snd (ledger_persist f l)) \<and> grows (disk_state l) (disk_state (snd (ledger_persist f l)))
    \<and> gl_state (snd (ledger_persist f l)) = gl_state l
    \<and> (fst (ledger_persist f l) = Inr () \<longrightarrow> disk_state (snd (ledger_persist f l)) = gl_state l)"
  using assms growth.le_refl
  by (cases f) (auto simp: ledger_persist_def replace_file_def ledger_ok_def disk_state_def)

lemma modify_ok:
  assumes "ledger_ok l" and "grows (gl_state l) (gl_state m)" and "gl_disk m = gl_disk l" and "gl_durable m = gl_durable l"
  shows "ledger_ok m \<and> disk_state m = disk_state l"
  using assms growth.le_trans [of "disk_state l" "gl_state l" "gl_state m"]
  by (auto simp: ledger_ok_def disk_state_def grows_wf)

lemma default_state_wf [simp]: "state_wf default_state"
  by (simp add: state_wf_def default_state_def)

lemma quarantine_simps [simp]:
  "gl_disk (quarantine_unknown l) = gl_disk l" "gl_durable (quarantine_unknown l) = gl_durable l"
  by (simp_all add: quarantine_unknown_def quarantine_fold)

lemma quarantine_grows: "state_wf (gl_state l) \<Longrightarrow> grows (gl_state l) (gl_state (quarantine_unknown l))"
  by (simp add: quarantine_unknown_def quarantine_fold fold_settle_grows)

lemma reconcile_simps [simp]:
  "gl_disk (reconcile_unknown_memory ob l) = gl_disk l" "gl_durable (reconcile_unknown_memory ob l) = gl_durable l"
  by (simp_all add: reconcile_unknown_memory_def reconcile_fold)

lemma reconcile_grows: "state_wf (gl_state l) \<Longrightarrow> grows (gl_state l) (gl_state (reconcile_unknown_memory ob l))"
  by (simp add: reconcile_unknown_memory_def reconcile_fold fold_settle_grows)

lemma ledger_open_ok:
  assumes "state_wf (case disk of None \<Rightarrow> default_state | Some s \<Rightarrow> s)"
  shows "ledger_ok (snd (ledger_open f disk))
    \<and> grows (case disk of None \<Rightarrow> default_state | Some s \<Rightarrow> s) (disk_state (snd (ledger_open f disk)))"
proof -
  let ?s = "case disk of None \<Rightarrow> default_state | Some s \<Rightarrow> s"
  let ?l = "\<lparr>gl_durable = True, gl_state = ?s, gl_disk = disk\<rparr>"
  have "ledger_ok ?l" using assms growth.le_refl by (simp add: ledger_ok_def disk_state_def)
  then have "ledger_ok (quarantine_unknown ?l) \<and> disk_state (quarantine_unknown ?l) = disk_state ?l"
    by (rule modify_ok) (use quarantine_grows [of ?l] assms in simp_all)
  then show ?thesis using persist_ok [of "quarantine_unknown ?l" f] by (simp add: ledger_open_def disk_state_def)
qed

section \<open>Histories\<close>

text \<open>
  The calls that change a ledger, with the faults of their writes.  A restart reads the file again;
  each failed attempt to open the ledger may already have written it.
\<close>

datatype ledger_op =
    LO_Consume helper_grant io_fault io_fault
  | LO_Record grant_result grant_phase io_fault
  | LO_Unknown bytes "string option" "effect_receipt option" io_fault
  | LO_Reconcile "effect_receipt \<Rightarrow> recovery_observation" io_fault
  | LO_Restart "io_fault list"

fun reopen_ledger :: "io_fault list \<Rightarrow> ledger_state option \<Rightarrow> grant_ledger" where
  "reopen_ledger [] disk = snd (ledger_open No_Fault disk)"
| "reopen_ledger (f # fs) disk = reopen_ledger fs (gl_disk (snd (ledger_open f disk)))"

fun ledger_call :: "ledger_op \<Rightarrow> grant_ledger \<Rightarrow> unit ledger_result" where
  "ledger_call (LO_Consume g f1 f2) l = ledger_consume f1 f2 g l"
| "ledger_call (LO_Record r ph f) l = ledger_record f r ph l"
| "ledger_call (LO_Unknown n i rc f) l = mark_outcome_unknown f n i rc l"
| "ledger_call (LO_Reconcile ob f) l = reconcile_unknown f ob l"
| "ledger_call (LO_Restart fs) l = (Inr (), reopen_ledger fs (gl_disk l))"

text \<open>The calls of a history that returned without an error, and the ledger after it.\<close>

fun ledger_run :: "ledger_op list \<Rightarrow> grant_ledger \<Rightarrow> ledger_op list \<times> grant_ledger" where
  "ledger_run [] l = ([], l)"
| "ledger_run (op # ops) l =
     (let (r, m) = ledger_call op l; (done_ops, k) = ledger_run ops m in
      ((if r = Inr () then op # done_ops else done_ops), k))"

definition used_nonces :: "ledger_op list \<Rightarrow> bytes list" where
  "used_nonces ops = concat (map (\<lambda>op. case op of LO_Consume g _ _ \<Rightarrow> [gc_nonce (hg_claims g)] | _ \<Rightarrow> []) ops)"

lemma disk_state_case: "(case gl_disk l of None \<Rightarrow> default_state | Some s \<Rightarrow> s) = disk_state l"
  by (simp add: disk_state_def)

lemma reopen_ok:
  "state_wf (case disk of None \<Rightarrow> default_state | Some s \<Rightarrow> s) \<Longrightarrow>
   ledger_ok (reopen_ledger fs disk) \<and> grows (case disk of None \<Rightarrow> default_state | Some s \<Rightarrow> s) (disk_state (reopen_ledger fs disk))"
proof (induction fs disk rule: reopen_ledger.induct)
  case (2 f fs disk)
  note o = ledger_open_ok [OF 2(2), of f]
  then have "state_wf (disk_state (snd (ledger_open f disk)))" by (simp add: ledger_ok_def)
  with 2(1) o show ?case by (auto simp: disk_state_case intro: growth.le_trans)
qed (simp add: ledger_open_ok)

lemma persist_modify_ok:
  assumes "ledger_ok l" and "grows (gl_state l) (gl_state m)" and "gl_disk m = gl_disk l" and "gl_durable m = gl_durable l"
  shows "ledger_ok (snd (ledger_persist f m)) \<and> grows (disk_state l) (disk_state (snd (ledger_persist f m)))
    \<and> gl_state (snd (ledger_persist f m)) = gl_state m
    \<and> (fst (ledger_persist f m) = Inr () \<longrightarrow> disk_state (snd (ledger_persist f m)) = gl_state m)"
  using modify_ok [OF assms] persist_ok [of m f] by simp

lemma insert_grows:
  assumes "state_wf (gl_state l)" and "om_get (ls_consumed (gl_state l)) n = None"
  shows "grows (gl_state l) (gl_state (set_consumed (om_insert n op) l))"
  using assms by (auto simp: grows_def set_consumed_def state_wf_def consumed_of_def results_of_def map_le_def)

lemma consume_ok:
  assumes ok: "ledger_ok l" and r: "ledger_consume f1 f2 g l = (res, m)"
  shows "ledger_ok m \<and> grows (disk_state l) (disk_state m)
    \<and> (res = Inr () \<longrightarrow> consumed_of (disk_state l) (hex (gc_nonce (hg_claims g))) = None
         \<and> consumed_of (disk_state m) (hex (gc_nonce (hg_claims g))) \<noteq> None)"
proof (cases "om_get (ls_consumed (gl_state l)) (hex (gc_nonce (hg_claims g))) = None")
  case False
  then show ?thesis using ok r growth.le_refl by (auto simp: ledger_consume_def Let_def)
next
  case True
  let ?n = "hex (gc_nonce (hg_claims g))"
  let ?l1 = "set_consumed (om_insert ?n \<lparr>go_claims = hg_claims g, go_phase = GP_Pending, go_effect_identity = None,
               go_expected_receipt = None\<rparr>) l"
  have wf: "state_wf (gl_state l)" using ok by (simp add: ledger_ok_def)
  have g1: "grows (gl_state l) (gl_state ?l1)" using insert_grows [OF wf True] .
  obtain r2 l2 where p: "ledger_persist f1 ?l1 = (r2, l2)" by (cases "ledger_persist f1 ?l1")
  have l2: "ledger_ok l2" "grows (disk_state l) (disk_state l2)" "gl_state l2 = gl_state ?l1"
    using persist_modify_ok [OF ok g1, of f1] p by (simp_all add: set_consumed_def)
  let ?l3 = "update_operation ?n (go_phase_update (\<lambda>_. GP_ConsumedBeforeEffect)) l2"
  have wf2: "state_wf (gl_state l2)" using l2 by (simp add: ledger_ok_def)
  have g3: "grows (gl_state l2) (gl_state ?l3)" by (rule update_operation_grows) (simp_all add: wf2)
  note l3 = persist_modify_ok [OF l2(1) g3, of f2]
  have in3: "consumed_of (gl_state ?l3) ?n \<noteq> None"
    using wf l2(3) update_operation_consumed [OF wf2, of ?n "go_phase_update (\<lambda>_. GP_ConsumedBeforeEffect)"]
    by (simp add: set_consumed_def consumed_of_def state_wf_def)
  have notin: "consumed_of (disk_state l) ?n = None"
    using True ok grows_claims [of "disk_state l" "gl_state l" ?n] by (cases "consumed_of (disk_state l) ?n")
      (auto simp: ledger_ok_def consumed_of_def)
  show ?thesis
  proof (cases r2)
    case (Inl e)
    then show ?thesis using r p True l2 by (auto simp: ledger_consume_def Let_def)
  next
    case (Inr u)
    then have "ledger_persist f2 ?l3 = (res, m)" using r p True by (simp add: ledger_consume_def Let_def)
    with l3 in3 notin l2(2) show ?thesis by (auto intro: growth.le_trans)
  qed
qed

lemma call_ok:
  assumes ok: "ledger_ok l"
  shows "ledger_ok (snd (ledger_call op l)) \<and> grows (disk_state l) (disk_state (snd (ledger_call op l)))"
proof (cases op)
  case (LO_Consume g f1 f2)
  then show ?thesis using consume_ok [OF ok, of f1 f2 g "fst (ledger_call op l)" "snd (ledger_call op l)"] by simp
next
  case (LO_Record r ph f)
  have wf: "state_wf (gl_state l)" using ok by (simp add: ledger_ok_def)
  let ?m = "update_operation (hex (gr_nonce r)) (go_phase_update (\<lambda>_. ph)) (set_results (om_insert (gr_request_id r) r) l)"
  have "grows (gl_state l) (gl_state ?m)" if none: "om_get (ls_results (gl_state l)) (gr_request_id r) = None"
  proof -
    note g = set_results_grows [OF wf none, of r]
    have "grows (gl_state (set_results (om_insert (gr_request_id r) r) l)) (gl_state ?m)"
      by (rule update_operation_grows) (use grows_wf [OF g wf] in simp_all)
    with g show ?thesis by (rule growth.le_trans)
  qed
  with LO_Record ok growth.le_refl show ?thesis
    by (auto simp: ledger_record_def Let_def set_results_def dest!: persist_modify_ok [OF ok, of _ f] split: option.splits)
next
  case (LO_Unknown n i rc f)
  have "grows (gl_state l) (gl_state (update_operation (hex n)
      (\<lambda>op. op\<lparr>go_phase := GP_OutcomeUnknown, go_effect_identity := i, go_expected_receipt := rc\<rparr>) l))"
    using ok by (intro update_operation_grows) (simp_all add: ledger_ok_def)
  from persist_modify_ok [OF ok this, of f] LO_Unknown ok growth.le_refl show ?thesis
    by (auto simp: mark_outcome_unknown_def)
next
  case (LO_Reconcile ob f)
  have "grows (gl_state l) (gl_state (reconcile_unknown_memory ob l))"
    using ok by (intro reconcile_grows) (simp add: ledger_ok_def)
  from persist_modify_ok [OF ok this, of f] LO_Reconcile show ?thesis by (simp add: reconcile_unknown_def)
next
  case (LO_Restart fs)
  then show ?thesis using reopen_ok [of "gl_disk l" fs] ok by (simp add: disk_state_case ledger_ok_def)
qed

lemma run_ok:
  assumes "ledger_ok l" and "ledger_run ops l = (ds, m)"
  shows "ledger_ok m \<and> grows (disk_state l) (disk_state m)"
  using assms
proof (induction ops arbitrary: l ds)
  case (Cons op ops)
  obtain r k where c: "ledger_call op l = (r, k)" by (cases "ledger_call op l")
  obtain es n where rest: "ledger_run ops k = (es, n)" by (cases "ledger_run ops k")
  from Cons.prems c rest have "m = n" by (auto simp: Let_def split: if_splits)
  with rest have "ledger_run ops k = (es, m)" by simp
  with Cons.IH [of k es] call_ok [OF Cons.prems(1), of op] c show ?case by (auto intro: growth.le_trans)
qed (simp add: growth.le_refl)

lemma hex_byte_inject: "hex_byte a = hex_byte b \<Longrightarrow> a = b"
proof -
  assume eq: "hex_byte a = hex_byte b"
  have inj: "m = n" if "m < 16" "n < 16" "hex_digit m = hex_digit n" for m n
  proof -
    from that have "char_code (hex_digit m) = char_code (hex_digit n)" by simp
    with that(1,2) show ?thesis by (auto simp: hex_digit_def char_code_char_of split: if_splits)
  qed
  have "unat a div 16 = unat b div 16" "unat a mod 16 = unat b mod 16"
    using eq unat_byte_less [of a] unat_byte_less [of b] by (auto simp: hex_byte_def intro!: inj)
  then have "unat a = unat b" by (metis div_mult_mod_eq)
  then show ?thesis by (simp add: word_unat_eq_iff)
qed

lemma hex_inject [simp]: "hex a = hex b \<longleftrightarrow> a = b"
proof
  show "hex a = hex b \<Longrightarrow> a = b"
  proof (induction a arbitrary: b)
    case Nil
    then show ?case by (cases b) (auto simp: hex_def hex_byte_def)
  next
    case (Cons x a)
    then obtain y b' where b: "b = y # b'" by (cases b) (auto simp: hex_def hex_byte_def)
    with Cons.prems have "hex_byte x = hex_byte y" "hex a = hex b'" by (simp_all add: hex_def append_eq_append_conv)
    with Cons.IH b show ?case by (auto dest: hex_byte_inject)
  qed
qed simp

section \<open>Properties\<close>

text \<open>C5.
  A grant is used at most once.  Over every sequence of calls, with writes that fail at any point,
  crashes and restarts, no nonce is consumed successfully twice, and none that the file already
  held at the beginning is consumed at all.
\<close>

theorem nonce_single_use:
  assumes "ledger_ok l" and "ledger_run ops l = (ds, m)"
  shows "distinct (used_nonces ds)
    \<and> (\<forall>n \<in> set (used_nonces ds). consumed_of (disk_state l) (hex n) = None \<and> consumed_of (disk_state m) (hex n) \<noteq> None)"
  using assms
proof (induction ops arbitrary: l ds)
  case (Cons op ops)
  obtain r k where c: "ledger_call op l = (r, k)" by (cases "ledger_call op l")
  obtain es n where rest: "ledger_run ops k = (es, n)" by (cases "ledger_run ops k")
  have mn: "m = n" and ds: "ds = (if r = Inr () then op # es else es)"
    using Cons.prems c rest by (auto simp: Let_def split: if_splits)
  have k: "ledger_ok k" "grows (disk_state l) (disk_state k)" using call_ok [OF Cons.prems(1), of op] c by simp_all
  have km: "grows (disk_state k) (disk_state m)" using run_ok [OF k(1) rest] by (simp add: mn)
  have keep: "consumed_of t x \<noteq> None" if "grows s t" "consumed_of s x \<noteq> None" for s t x
    using grows_claims [OF that(1)] that(2) by auto
  have IH: "distinct (used_nonces es)"
    "\<forall>x \<in> set (used_nonces es). consumed_of (disk_state k) (hex x) = None \<and> consumed_of (disk_state m) (hex x) \<noteq> None"
    using Cons.IH [OF k(1)] rest by (simp_all add: mn)
  have late: "\<forall>x \<in> set (used_nonces es). consumed_of (disk_state l) (hex x) = None" using IH(2) keep [OF k(2)] by blast
  show ?case
  proof (cases "\<exists>g f1 f2. op = LO_Consume g f1 f2 \<and> r = Inr ()")
    case True
    then obtain g f1 f2 where op: "op = LO_Consume g f1 f2" and r: "r = Inr ()" by blast
    from consume_ok [OF Cons.prems(1), of f1 f2 g r k] c op r
    have "consumed_of (disk_state l) (hex (gc_nonce (hg_claims g))) = None"
      "consumed_of (disk_state k) (hex (gc_nonce (hg_claims g))) \<noteq> None" by simp_all
    with IH late keep [OF km] show ?thesis by (auto simp: ds op r used_nonces_def)
  next
    case False
    then have "used_nonces ds = used_nonces es" by (auto simp: ds used_nonces_def split: ledger_op.splits)
    with IH late show ?thesis by simp
  qed
qed (simp add: used_nonces_def)

definition example_grant :: "bytes \<Rightarrow> string \<Rightarrow> helper_grant" where
  "example_grant nonce request_id =
     \<lparr>hg_claims = \<lparr>gc_schema_version = 1, gc_request_id = request_id, gc_action = GA_NetworkAttach,
      gc_resource = \<lparr>rb_resource_uuid = ''u'', rb_generation = 1\<rparr>, gc_parameter_digest = [1], gc_boot_id = ''b'',
      gc_wall_deadline_secs = 9, gc_monotonic_deadline_millis = 9, gc_nonce = nonce, gc_operation_id = nonce,
      gc_request_digest = [3], gc_precondition_digest = [4], gc_recovery_recipe_digest = [5], gc_issuer = ''i'',
      gc_key_id = ''k'', gc_kind = GK_Mutation, gc_origin_request_id = None, gc_live_identity_digest = None\<rparr>,
      hg_signature = ''s''\<rparr>"

definition fresh_ledger :: grant_ledger where
  "fresh_ledger = snd (ledger_open No_Fault None)"

lemma fresh_ledger_ok: "ledger_ok fresh_ledger"
  using ledger_open_ok [of None No_Fault] by (simp add: fresh_ledger_def)

lemmas ledger_eval =
  fresh_ledger_def ledger_open_def quarantine_unknown_def ledger_persist_def replace_file_def default_state_def
  ledger_consume_def ledger_record_def mark_outcome_unknown_def update_operation_def set_consumed_def set_results_def
  om_get_def Let_def example_grant_def hex_def hex_byte_def hex_digit_def

theorem nonce_single_use_witness:
  "let g = example_grant [7] ''r'' in
   fst (ledger_run [LO_Consume g No_Fault No_Fault, LO_Restart [Before_Rename], LO_Consume g No_Fault No_Fault] fresh_ledger)
     = [LO_Consume g No_Fault No_Fault, LO_Restart [Before_Rename]]
   \<and> distinct (used_nonces [LO_Consume g No_Fault No_Fault, LO_Restart [Before_Rename]])"
proof -
  let ?g = "example_grant [7] ''r''"
  obtain ds m where r: "ledger_run [LO_Consume ?g No_Fault No_Fault, LO_Restart [Before_Rename], LO_Consume ?g No_Fault No_Fault]
      fresh_ledger = (ds, m)" by (cases "ledger_run [LO_Consume ?g No_Fault No_Fault, LO_Restart [Before_Rename],
      LO_Consume ?g No_Fault No_Fault] fresh_ledger")
  moreover have "ds = [LO_Consume ?g No_Fault No_Fault, LO_Restart [Before_Rename]]"
    using r by (simp add: ledger_eval)
  ultimately show ?thesis using nonce_single_use [OF fresh_ledger_ok r] by simp
qed

text \<open>C33.
  A recorded result is final.  When a call records a result that was not there and returns without
  error, every later state of the ledger, after further calls, crashes and restarts, answers that
  result for the request.
\<close>

theorem recorded_result_final:
  assumes "ledger_ok l" and "ledger_result_of (gr_request_id r) l = None"
    and "ledger_record f r ph l = (Inr (), k)" and "ledger_run ops k = (ds, m)"
  shows "ledger_result_of (gr_request_id r) m = Some r"
proof -
  have wf: "state_wf (gl_state l)" using assms(1) by (simp add: ledger_ok_def)
  let ?m = "update_operation (hex (gr_nonce r)) (go_phase_update (\<lambda>_. ph)) (set_results (om_insert (gr_request_id r) r) l)"
  note g1 = set_results_grows [OF wf assms(2) [unfolded ledger_result_of_def], of r]
  have "grows (gl_state (set_results (om_insert (gr_request_id r) r) l)) (gl_state ?m)"
    by (rule update_operation_grows) (use grows_wf [OF g1 wf] in simp_all)
  with g1 have g: "grows (gl_state l) (gl_state ?m)" by (rule growth.le_trans)
  have p: "ledger_persist f ?m = (Inr (), k)"
    using assms(2,3) by (auto simp: ledger_record_def ledger_result_of_def Let_def split: if_splits)
  from persist_modify_ok [OF assms(1) g, of f] p have k: "ledger_ok k" "disk_state k = gl_state ?m"
    by (simp_all add: set_results_def)
  have "results_of (gl_state ?m) (gr_request_id r) = Some r"
    unfolding update_operation_simps(1) using wf by (simp add: set_results_def results_of_def state_wf_def)
  with k have "results_of (disk_state k) (gr_request_id r) = Some r" by simp
  moreover have "grows (disk_state k) (gl_state m)"
    using run_ok [OF k(1) assms(4)] by (auto simp: ledger_ok_def intro: growth.le_trans)
  ultimately show ?thesis by (auto simp: ledger_result_of_def results_of_def [symmetric] dest: grows_result)
qed

definition example_result :: grant_result where
  "example_result = \<lparr>gr_request_id = ''r'', gr_nonce = [7], gr_result_identity = ''endpoint:e'', gr_outcome = ''attached''\<rparr>"

definition example_consumed :: grant_ledger where
  "example_consumed = snd (ledger_consume No_Fault No_Fault (example_grant [7] ''r'') fresh_ledger)"

lemma example_consumed_ok: "ledger_ok example_consumed"
  using consume_ok [OF fresh_ledger_ok, of No_Fault No_Fault "example_grant [7] ''r''" "fst (ledger_consume No_Fault
      No_Fault (example_grant [7] ''r'') fresh_ledger)" "snd (ledger_consume No_Fault No_Fault (example_grant [7] ''r'')
      fresh_ledger)"]
  by (simp add: example_consumed_def)

theorem recorded_result_final_witness:
  "ledger_result_of ''r'' (snd (ledger_run [LO_Restart [After_Rename], LO_Reconcile (\<lambda>_. RO_Conflict) No_Fault]
      (snd (ledger_record No_Fault example_result GP_Succeeded example_consumed)))) = Some example_result"
proof -
  let ?k = "snd (ledger_record No_Fault example_result GP_Succeeded example_consumed)"
  let ?ops = "[LO_Restart [After_Rename], LO_Reconcile (\<lambda>_. RO_Conflict) No_Fault]"
  have n: "ledger_result_of (gr_request_id example_result) example_consumed = None"
    by (simp add: ledger_result_of_def example_consumed_def example_result_def ledger_eval)
  have r: "ledger_record No_Fault example_result GP_Succeeded example_consumed = (Inr (), ?k)"
    by (simp add: prod_eq_iff example_consumed_def example_result_def ledger_eval)
  have "gr_request_id example_result = ''r''" by (simp add: example_result_def)
  with recorded_result_final [OF example_consumed_ok n r, of ?ops "fst (ledger_run ?ops ?k)" "snd (ledger_run ?ops ?k)"]
  show ?thesis by simp
qed

definition example_state :: "grant_phase \<Rightarrow> (string, grant_result) omap \<Rightarrow> ledger_state" where
  "example_state ph rs =
     \<lparr>ls_consumed = [(''07'', \<lparr>go_claims = hg_claims (example_grant [7] ''r''), go_phase = ph,
        go_effect_identity = None, go_expected_receipt = None\<rparr>)], ls_results = rs\<rparr>"

lemma example_claims [simp]:
  "gc_nonce (hg_claims (example_grant n i)) = n" "gc_request_id (hg_claims (example_grant n i)) = i"
  by (simp_all add: example_grant_def)

lemma hex_seven [simp]: "hex [7] = ''07''"
  by code_simp

lemmas ledger_steps =
  ledger_persist_def replace_file_def update_operation_def set_consumed_def set_results_def om_get_def
  example_state_def Let_def

lemma example_consumed_eq:
  "example_consumed =
     \<lparr>gl_durable = True, gl_state = example_state GP_ConsumedBeforeEffect [], gl_disk = Some (example_state GP_ConsumedBeforeEffect [])\<rparr>"
  by (simp add: example_consumed_def fresh_ledger_def ledger_open_def quarantine_unknown_def default_state_def
      ledger_consume_def ledger_steps)

lemma example_armed:
  "mark_outcome_unknown No_Fault [7] None None example_consumed =
     (Inr (), \<lparr>gl_durable = True, gl_state = example_state GP_OutcomeUnknown [], gl_disk = Some (example_state GP_OutcomeUnknown [])\<rparr>)"
  by (simp add: mark_outcome_unknown_def example_consumed_eq ledger_steps)

lemma example_record_fails:
  "ledger_record Before_Rename example_result GP_Succeeded
     \<lparr>gl_durable = True, gl_state = example_state GP_OutcomeUnknown [], gl_disk = Some (example_state GP_OutcomeUnknown [])\<rparr>
   = (Inl GE_Io, \<lparr>gl_durable = True, gl_state = example_state GP_Succeeded [(''r'', example_result)],
       gl_disk = Some (example_state GP_OutcomeUnknown [])\<rparr>)"
  by (simp add: ledger_record_def example_result_def ledger_steps)

lemma example_retried:
  "ledger_record No_Fault example_result GP_Succeeded
     \<lparr>gl_durable = True, gl_state = example_state GP_Succeeded [(''r'', example_result)], gl_disk = d\<rparr>
   = (Inr (), \<lparr>gl_durable = True, gl_state = example_state GP_Succeeded [(''r'', example_result)], gl_disk = d\<rparr>)"
  by (simp add: ledger_record_def example_result_def ledger_steps)

lemma example_reopened:
  "ledger_result_of ''r'' (reopen_ledger [] (Some (example_state GP_OutcomeUnknown [])))
     = Some (quarantine_result (hg_claims (example_grant [7] ''r'')))"
  by (simp add: ledger_open_def quarantine_unknown_def quarantine_operation_def settle_operation_def
      ledger_result_of_def quarantine_result_def ledger_steps)

text \<open>
  A repeated record is answered without being written.  When the write of a result fails and the
  caller records it again, the second call finds the result in memory and returns without error,
  but the file still lacks it: after a restart the result is gone, and the request is settled as
  failed with another identity.
\<close>

theorem retried_result_lost:
  "let l = snd (mark_outcome_unknown No_Fault [7] None None example_consumed);
       k = ledger_record Before_Rename example_result GP_Succeeded l;
       m = ledger_record No_Fault example_result GP_Succeeded (snd k)
   in fst k = Inl GE_Io \<and> fst m = Inr () \<and> ledger_result_of ''r'' (snd m) = Some example_result
      \<and> ledger_result_of ''r'' (reopen_ledger [] (gl_disk (snd m)))
          = Some (quarantine_result (hg_claims (example_grant [7] ''r'')))
      \<and> quarantine_result (hg_claims (example_grant [7] ''r'')) \<noteq> example_result"
  unfolding example_armed example_record_fails example_retried Let_def fst_conv snd_conv
  using example_reopened
  by (simp add: ledger_result_of_def quarantine_result_def example_result_def example_state_def om_get_def del: reopen_ledger.simps)

section \<open>Recovery\<close>

text \<open>An operation has an identity of its effect exactly when it has the receipt: both are set together.\<close>

definition paired :: "grant_ledger \<Rightarrow> bool" where
  "paired l \<longleftrightarrow>
     (\<forall>n op. consumed_of (gl_state l) n = Some op \<longrightarrow> (go_effect_identity op = None \<longleftrightarrow> go_expected_receipt op = None))"

lemma entries_of: "state_wf s \<Longrightarrow> map_of (filter (\<lambda>e. P (snd e)) (ls_consumed s)) n =
    (case consumed_of s n of None \<Rightarrow> None | Some op \<Rightarrow> if P op then Some op else None)"
  using om_get_retain [of "ls_consumed s" "\<lambda>_. P" n]
  by (simp add: state_wf_def consumed_of_def om_get_def om_retain_def case_prod_unfold)

lemma entries_distinct: "state_wf s \<Longrightarrow> distinct (map fst (filter P (ls_consumed s)))"
  by (simp add: state_wf_def om_wf_distinct distinct_map_filter)

lemma quarantine_consumed:
  assumes "state_wf (gl_state l)"
  shows "consumed_of (gl_state (quarantine_unknown l)) n =
    map_option (\<lambda>op. if go_phase op = GP_OutcomeUnknown \<and> go_effect_identity op = None then op\<lparr>go_phase := GP_Failed\<rparr> else op)
      (consumed_of (gl_state l) n)"
  unfolding quarantine_unknown_def quarantine_fold
  using entries_of [OF assms, of "\<lambda>op. go_phase op = GP_OutcomeUnknown \<and> go_effect_identity op = None" n]
  by (subst fold_settle_consumed [OF assms entries_distinct [OF assms]])
    (auto simp: quarantine_entry_def split: option.splits if_splits)

lemma reconcile_consumed:
  assumes "state_wf (gl_state l)" and "consumed_of (gl_state (reconcile_unknown_memory ob l)) n = Some op'"
  shows "\<exists>op. consumed_of (gl_state l) n = Some op \<and>
    (go_phase op' = GP_OutcomeUnknown \<longrightarrow> go_phase op = GP_OutcomeUnknown \<and> go_expected_receipt op = None)"
proof -
  have ph: "fst (recovery_outcome a b) \<noteq> GP_OutcomeUnknown" for a b
    by (auto simp: recovery_outcome_def split: recovery_observation.splits)
  show ?thesis
    using assms(2) entries_of [OF assms(1), of "\<lambda>op. go_phase op = GP_OutcomeUnknown" n] ph
    unfolding reconcile_unknown_memory_def reconcile_fold
      fold_settle_consumed [OF assms(1) entries_distinct [OF assms(1)]]
    by (auto simp: reconcile_entry_def Let_def split: option.splits if_splits)
qed

text \<open>
  Recovery settles every operation.  After a restart and the reconciliation with the kernel that
  follows it, no operation is left with an unknown outcome, and every operation whose outcome was
  unknown has a result for its request.
\<close>

theorem recovery_settles:
  assumes "state_wf (gl_state l)" and "paired l" and "consumed_of (gl_state l) n = Some op"
  shows "\<exists>op'. consumed_of (gl_state (reconcile_unknown_memory observe (quarantine_unknown l))) n = Some op'
      \<and> go_claims op' = go_claims op \<and> go_phase op' \<noteq> GP_OutcomeUnknown
      \<and> (go_phase op = GP_OutcomeUnknown \<longrightarrow>
           results_of (gl_state (reconcile_unknown_memory observe (quarantine_unknown l))) (gc_request_id (go_claims op)) \<noteq> None)"
proof -
  let ?q = "quarantine_unknown l"
  let ?r = "reconcile_unknown_memory observe ?q"
  note gq = quarantine_grows [OF assms(1)]
  have wq: "state_wf (gl_state ?q)" using gq assms(1) by (rule grows_wf)
  note gr = reconcile_grows [OF wq, of observe]
  obtain op' where op': "consumed_of (gl_state ?r) n = Some op'" "go_claims op' = go_claims op"
    using grows_claims [OF growth.le_trans [OF gq gr] assms(3)] by blast
  have known: "go_phase op' \<noteq> GP_OutcomeUnknown"
  proof
    assume "go_phase op' = GP_OutcomeUnknown"
    with reconcile_consumed [OF wq op'(1)] obtain o1 where
      "consumed_of (gl_state ?q) n = Some o1" "go_phase o1 = GP_OutcomeUnknown" "go_expected_receipt o1 = None" by blast
    with quarantine_consumed [OF assms(1), of n] assms(2,3) show False
      by (auto simp: paired_def split: if_splits)
  qed
  have "results_of (gl_state ?r) (gc_request_id (go_claims op)) \<noteq> None" if unknown: "go_phase op = GP_OutcomeUnknown"
  proof (cases "go_effect_identity op")
    case None
    have "(n, op) \<in> set (ls_consumed (gl_state l))"
      using assms(1,3) by (simp add: consumed_of_def state_wf_def om_get_in)
    with fold_settle_result [OF assms(1), of "(n, op)" _ quarantine_entry "quarantine_result (go_claims op)" GP_Failed] unknown None
    have "results_of (gl_state ?q) (gc_request_id (go_claims op)) \<noteq> None"
      unfolding quarantine_unknown_def quarantine_fold by (simp add: quarantine_entry_def quarantine_result_def)
    with grows_result [OF gr] show ?thesis by auto
  next
    case (Some i)
    from assms(2,3) have "go_effect_identity op = None \<longleftrightarrow> go_expected_receipt op = None" unfolding paired_def by blast
    with Some obtain rc where rc: "go_expected_receipt op = Some rc" by auto
    have "consumed_of (gl_state ?q) n = Some op" using quarantine_consumed [OF assms(1), of n] assms(3) Some by simp
    then have "(n, op) \<in> set (ls_consumed (gl_state ?q))" using wq by (simp add: consumed_of_def state_wf_def om_get_in)
    with unknown rc show ?thesis
      unfolding reconcile_unknown_memory_def reconcile_fold
      using fold_settle_result [OF wq, of "(n, op)" "filter (\<lambda>e. go_phase (snd e) = GP_OutcomeUnknown) (ls_consumed (gl_state ?q))"
          "reconcile_entry observe"]
      by (fastforce simp: reconcile_entry_def Let_def)
  qed
  with op' known show ?thesis by blast
qed

theorem recovery_settles_witness:
  "\<exists>op'. consumed_of (gl_state (reconcile_unknown_memory (\<lambda>_. RO_Conflict) (quarantine_unknown
      \<lparr>gl_durable = True, gl_state = example_state GP_OutcomeUnknown [], gl_disk = None\<rparr>))) ''07'' = Some op'
    \<and> go_phase op' \<noteq> GP_OutcomeUnknown"
proof -
  let ?l = "\<lparr>gl_durable = True, gl_state = example_state GP_OutcomeUnknown [], gl_disk = None\<rparr>"
  have "state_wf (gl_state ?l)" "paired ?l"
    by (simp_all add: state_wf_def example_state_def om_wf_Cons paired_def consumed_of_def om_get_def)
  moreover have "consumed_of (gl_state ?l) ''07'' = Some \<lparr>go_claims = hg_claims (example_grant [7] ''r''),
      go_phase = GP_OutcomeUnknown, go_effect_identity = None, go_expected_receipt = None\<rparr>"
    by (simp add: example_state_def consumed_of_def om_get_def)
  ultimately show ?thesis using recovery_settles by blast
qed

section \<open>Cleanup grants and keys\<close>

text \<open>
  A cleanup grant is accepted only for something that was created.  When the verifier accepts a
  grant of the cleanup kind, the action removes something, and the ledger holds an operation with
  the request named as origin that created or attached the same resource in the same boot, and a
  result for that request whose live identity the grant names.
\<close>

theorem cleanup_grant_has_origin:
  assumes "verifier_verify sha grant_json unb64 g action uuid generation params wall mono_now v = Inr ()"
    and "gc_kind (hg_claims g) = GK_Cleanup" and "state_wf (gl_state (gv_ledger v))"
  shows "is_cleanup action
    \<and> (\<exists>origin n op result. gc_origin_request_id (hg_claims g) = Some origin
        \<and> consumed_of (gl_state (gv_ledger v)) n = Some op \<and> gc_request_id (go_claims op) = origin
        \<and> gc_resource (go_claims op) = \<lparr>rb_resource_uuid = uuid, rb_generation = generation\<rparr>
        \<and> gc_boot_id (go_claims op) = gv_boot_id v \<and> gc_action (go_claims op) \<in> {GA_NetworkCreate, GA_NetworkAttach}
        \<and> ledger_result_of origin (gv_ledger v) = Some result
        \<and> gc_live_identity_digest (hg_claims g) = Some (live_identity sha (gr_result_identity result)))"
proof -
  from assms(1,2) have c: "is_cleanup action" "gc_boot_id (hg_claims g) = gv_boot_id v"
    "rb_resource_uuid (gc_resource (hg_claims g)) = uuid" "rb_generation (gc_resource (hg_claims g)) = generation"
    "validates_cleanup sha g (gv_ledger v)"
    by (auto simp: verifier_verify_def Let_def rbind_simps split: if_splits)
  from c(5) obtain origin result op where o: "gc_origin_request_id (hg_claims g) = Some origin"
    "ledger_result_of origin (gv_ledger v) = Some result"
    "find (\<lambda>op. gc_request_id (go_claims op) = origin) (om_values (ls_consumed (gl_state (gv_ledger v)))) = Some op"
    "gc_boot_id (go_claims op) = gc_boot_id (hg_claims g)" "gc_resource (go_claims op) = gc_resource (hg_claims g)"
    "gc_action (go_claims op) \<in> {GA_NetworkCreate, GA_NetworkAttach}"
    "gc_live_identity_digest (hg_claims g) = Some (live_identity sha (gr_result_identity result))"
    by (auto simp: validates_cleanup_def ledger_result_of_def split: option.splits)
  from o(3) have "op \<in> set (om_values (ls_consumed (gl_state (gv_ledger v))))" "gc_request_id (go_claims op) = origin"
    by (auto simp: find_Some_iff)
  then obtain n where "(n, op) \<in> set (ls_consumed (gl_state (gv_ledger v)))" "gc_request_id (go_claims op) = origin"
    by (auto simp: om_values_def)
  moreover have "gc_resource (go_claims op) = \<lparr>rb_resource_uuid = uuid, rb_generation = generation\<rparr>"
    using o(5) c(3,4) by (auto intro: resource_binding.equality)
  ultimately show ?thesis
    using c(1,2) o assms(3) by (metis consumed_of_def om_get_in state_wf_def)
qed

definition example_cleanup :: helper_grant where
  "example_cleanup =
     (example_grant [8] ''cleanup'')\<lparr>hg_claims := (hg_claims (example_grant [8] ''cleanup''))
       \<lparr>gc_action := GA_NetworkDetach, gc_kind := GK_Cleanup, gc_parameter_digest := replicate 32 9,
        gc_origin_request_id := Some ''r'', gc_live_identity_digest := Some (replicate 32 9)\<rparr>\<rparr>"

definition example_verifier :: grant_verifier where
  "example_verifier =
     \<lparr>gv_keys = [(''k'', \<lambda>_ _. True)], gv_issuer = ''i'', gv_boot_id = ''b'',
      gv_ledger = \<lparr>gl_durable = True, gl_state = example_state GP_Succeeded [(''r'', example_result)], gl_disk = None\<rparr>\<rparr>"

theorem cleanup_grant_has_origin_witness:
  "verifier_verify (\<lambda>_. replicate 32 9) (\<lambda>_. []) (\<lambda>_. Some (replicate 64 0)) example_cleanup GA_NetworkDetach ''u'' 1
     \<lparr>gp_operation = ''endpoint.detach'', gp_fields = [], gp_fds = []\<rparr> 5 5 example_verifier = Inr ()
   \<and> (\<exists>n op. consumed_of (gl_state (gv_ledger example_verifier)) n = Some op \<and> gc_request_id (go_claims op) = ''r'')"
proof -
  have v: "verifier_verify (\<lambda>_. replicate 32 9) (\<lambda>_. []) (\<lambda>_. Some (replicate 64 0)) example_cleanup GA_NetworkDetach ''u'' 1
     \<lparr>gp_operation = ''endpoint.detach'', gp_fields = [], gp_fds = []\<rparr> 5 5 example_verifier = Inr ()"
    by (simp add: verifier_verify_def example_cleanup_def example_verifier_def example_grant_def grant_schema_version_def
        om_get_def is_cleanup_def parameter_digest_def validates_cleanup_def example_state_def om_values_def
        live_identity_def example_result_def max_grant_bytes_def Let_def)
  moreover have "gc_kind (hg_claims example_cleanup) = GK_Cleanup" "state_wf (gl_state (gv_ledger example_verifier))"
    "gc_origin_request_id (hg_claims example_cleanup) = Some ''r''"
    by (simp_all add: example_cleanup_def example_verifier_def state_wf_def example_state_def om_wf_Cons)
  ultimately show ?thesis using cleanup_grant_has_origin [OF v] by fastforce
qed

text \<open>
  Adding a key under an identifier that is in use is answered with an error, and still replaces the
  key: afterwards grants signed with the old key are refused and grants signed with the new one
  are checked against it.
\<close>

theorem rejected_key_replaces:
  assumes "om_wf ks" and "om_get ks key_id \<noteq> None"
  shows "fst (add_overlap key_id key ks) = Inl GE_WrongIssuer
    \<and> om_get (snd (add_overlap key_id key ks)) key_id = Some key"
  using assms by (simp add: add_overlap_def)

theorem rejected_key_replaces_witness:
  "om_get (snd (add_overlap ''k'' (\<lambda>_ _. True) [(''k'', \<lambda>_ _. False)])) ''k'' = Some (\<lambda>_ _. True)"
  using rejected_key_replaces [of "[(''k'', \<lambda>_ _. False)]" "''k''" "\<lambda>_ _. True"] by (simp add: om_wf_Cons om_get_def)

end
