(* ===== verification/Netd_Server.thy ===== *)
theory Netd_Server
  imports Grant_History
begin

text \<open>
  The front of the network helper: the policy of signed envelopes (\<open>policy.rs\<close>), the ownership
  journal (\<open>ownership_journal.rs\<close>, \<open>persist\<close> of \<open>server_state.rs\<close>), and the dispatch of a request up to
  its effect (\<open>server_dispatch.rs\<close>, \<open>server_grants.rs\<close>, \<open>server_config.rs\<close>), under
  \<open>src/ferro-netd/src/\<close>, with the name checks of \<open>src/ferro-net/src/validate.rs\<close>.

  JSON texts, base64, SHA-256, the parsers of networks and socket addresses, and the Unicode table
  of alphanumeric characters are the functions of the record \<open>netd_host\<close>.  \<open>nh_unicode_alnum s\<close> says
  whether every character of \<open>s\<close> outside ASCII is alphanumeric.  A frame is given with what its body
  parses to; the frames of the legacy desired-state protocol, which the service answers before
  any of this, are not part of the model.
\<close>

section \<open>Envelopes and names\<close>

record signed_envelope =
  se_cluster_id :: string
  se_node_id :: string
  se_epoch :: u64
  se_revision :: u64
  se_lease_expires :: u64
  se_request :: netd_request
  se_signature :: string

record desired_envelope =
  de_cluster_id :: string
  de_node_id :: string
  de_epoch :: u64
  de_revision :: u64
  de_lease_expires :: u64
  de_desired_state :: bytes
  de_signature :: string

record service_handshake =
  sh_mode :: string
  sh_policy_digest :: "bytes option"
  sh_instance_boot :: string

record granted_envelope =
  ge_handshake :: service_handshake
  ge_envelope :: signed_envelope
  ge_resource_uuid :: string
  ge_resource_generation :: u64
  ge_grant :: helper_grant

record netd_host =
  nh_sha :: "bytes \<Rightarrow> bytes"
  nh_json :: netd_json
  nh_inode :: "string \<Rightarrow> u64 option"
  nh_unb64 :: "string \<Rightarrow> bytes option"
  nh_grant_json :: "helper_grant \<Rightarrow> bytes"
  nh_envelope_json :: "signed_envelope \<Rightarrow> bytes"
  nh_desired_json :: "desired_envelope \<Rightarrow> bytes"
  nh_ip_net :: "string \<Rightarrow> bool"
  nh_socket_addr :: "string \<Rightarrow> bool"
  nh_unicode_alnum :: "string \<Rightarrow> bool"

definition ascii_alnum :: "char \<Rightarrow> bool" where
  "ascii_alnum c \<longleftrightarrow>
     48 \<le> char_code c \<and> char_code c \<le> 57 \<or> 65 \<le> char_code c \<and> char_code c \<le> 90
     \<or> 97 \<le> char_code c \<and> char_code c \<le> 122"

definition name_chars :: "netd_host \<Rightarrow> string \<Rightarrow> bool" where
  "name_chars h name \<longleftrightarrow>
     list_all (\<lambda>c. char_code c < 128 \<longrightarrow> ascii_alnum c \<or> c = CHR ''-'' \<or> c = CHR ''_'' \<or> c = CHR ''.'') name
     \<and> nh_unicode_alnum h name"

definition shell_metacharacters :: "nat list" where
  "shell_metacharacters = [59, 124, 96, 36, 40, 41, 123, 125, 91, 93, 60, 62, 38, 10, 13]"

definition check_shell_safe :: "string \<Rightarrow> bool" where
  "check_shell_safe v \<longleftrightarrow> list_all (\<lambda>c. char_code c \<noteq> 0 \<and> char_code c \<notin> set shell_metacharacters) v"

definition validate_interface_name :: "netd_host \<Rightarrow> string \<Rightarrow> bool" where
  "validate_interface_name h name \<longleftrightarrow>
     length name \<le> 15 \<and> name \<noteq> [] \<and> hd name \<noteq> CHR ''.'' \<and> name_chars h name \<and> check_shell_safe name"

definition validate_netns_name :: "netd_host \<Rightarrow> string \<Rightarrow> bool" where
  "validate_netns_name h name \<longleftrightarrow>
     length name \<le> 255 \<and> name \<noteq> [] \<and> hd name \<noteq> CHR ''.'' \<and> name_chars h name \<and> check_shell_safe name"

section \<open>Policy\<close>

record revision_floor =
  fl_epoch :: u64
  fl_revision :: u64
  fl_lease :: u64

record netd_policy =
  po_cluster :: string
  po_node :: string
  po_key :: verifying_key
  po_revisions :: "(string, revision_floor) omap"

definition max_peers :: nat where "max_peers = 255"
definition max_routes :: nat where "max_routes = 512"

definition valid_peer :: "netd_host \<Rightarrow> peer_spec \<Rightarrow> bool" where
  "valid_peer h p \<longleftrightarrow>
     peer_node_id p \<noteq> [] \<and> length (peer_allowed_ips p) \<le> max_routes \<and> nh_socket_addr h (peer_endpoint p)
     \<and> list_all (nh_ip_net h) (peer_allowed_ips p)"

definition validate_request :: "netd_host \<Rightarrow> netd_request \<Rightarrow> rejection_code + unit" where
  "validate_request h r =
     (if \<not> validate_interface_name h (request_overlay_id r) then Inl RJ_PolicyViolation
      else
        let ok = (case r of
            ApplyOverlay _ _ peers routes _ \<Rightarrow>
              length peers \<le> max_peers \<and> length routes \<le> max_routes \<and> list_all (nh_ip_net h) routes
              \<and> list_all (valid_peer h) peers
          | AttachEndpoint i e netns \<Rightarrow>
              validate_interface_name h i \<and> validate_interface_name h e \<and> validate_interface_name h (''fc-'' @ e)
              \<and> (case netns of None \<Rightarrow> True | Some n \<Rightarrow> validate_netns_name h n)
          | DetachEndpoint i e \<Rightarrow>
              validate_interface_name h i \<and> validate_interface_name h e \<and> validate_interface_name h (''fc-'' @ e)
          | _ \<Rightarrow> True)
        in if ok then Inr () else Inl RJ_PolicyViolation)"

definition check_signature :: "netd_host \<Rightarrow> verifying_key \<Rightarrow> string \<Rightarrow> bytes \<Rightarrow> rejection_code + unit" where
  "check_signature h key signature message =
     rbind (ok_or RJ_InvalidSignature (nh_unb64 h signature)) (\<lambda>sig.
     if length sig = 64 \<and> key message sig then Inr () else Inl RJ_InvalidSignature)"

definition stale :: "revision_floor option \<Rightarrow> u64 \<Rightarrow> u64 \<Rightarrow> u64 \<Rightarrow> bool" where
  "stale fl epoch revision lease =
     (case fl of
        None \<Rightarrow> False
      | Some f \<Rightarrow>
          epoch < fl_epoch f
          \<or> epoch = fl_epoch f
            \<and> (revision < fl_revision f \<or> revision = fl_revision f \<and> lease \<le> fl_lease f))"

definition raise_floor :: "string \<Rightarrow> u64 \<Rightarrow> u64 \<Rightarrow> u64 \<Rightarrow> netd_policy \<Rightarrow> (rejection_code + unit) \<times> netd_policy" where
  "raise_floor scope epoch revision lease p =
     (if stale (om_get (po_revisions p) scope) epoch revision lease then (Inl RJ_StaleRevision, p)
      else (Inr (), p\<lparr>po_revisions := om_insert scope
              \<lparr>fl_epoch = epoch, fl_revision = revision, fl_lease = lease\<rparr> (po_revisions p)\<rparr>))"

definition policy_validate :: "netd_host \<Rightarrow> signed_envelope \<Rightarrow> u64 \<Rightarrow> netd_policy \<Rightarrow> (rejection_code + unit) \<times> netd_policy" where
  "policy_validate h env now p =
     (if se_cluster_id env \<noteq> po_cluster p \<or> se_node_id env \<noteq> po_node p then (Inl RJ_PolicyViolation, p)
      else if se_lease_expires env \<le> now then (Inl RJ_ExpiredLease, p)
      else
        case check_signature h (po_key p) (se_signature env) (nh_envelope_json h (env\<lparr>se_signature := []\<rparr>)) of
          Inl e \<Rightarrow> (Inl e, p)
        | Inr _ \<Rightarrow>
            (case validate_request h (se_request env) of
               Inl e \<Rightarrow> (Inl e, p)
             | Inr _ \<Rightarrow>
                 raise_floor (request_overlay_id (se_request env)) (se_epoch env) (se_revision env) (se_lease_expires env) p))"

definition policy_validate_desired ::
  "netd_host \<Rightarrow> desired_envelope \<Rightarrow> u64 \<Rightarrow> netd_policy \<Rightarrow> (rejection_code + unit) \<times> netd_policy" where
  "policy_validate_desired h env now p =
     (if de_cluster_id env \<noteq> po_cluster p \<or> de_node_id env \<noteq> po_node p then (Inl RJ_PolicyViolation, p)
      else if de_lease_expires env \<le> now then (Inl RJ_ExpiredLease, p)
      else
        case check_signature h (po_key p) (de_signature env) (nh_desired_json h (env\<lparr>de_signature := []\<rparr>)) of
          Inl e \<Rightarrow> (Inl e, p)
        | Inr _ \<Rightarrow> raise_floor ''__desired__'' (de_epoch env) (de_revision env) (de_lease_expires env) p)"

definition policy_rollback :: "string \<Rightarrow> u64 \<Rightarrow> u64 \<Rightarrow> netd_policy \<Rightarrow> netd_policy" where
  "policy_rollback scope epoch revision p =
     (case om_get (po_revisions p) scope of
        None \<Rightarrow> p
      | Some f \<Rightarrow>
          if fl_epoch f = epoch \<and> fl_revision f = revision
          then p\<lparr>po_revisions := om_remove scope (po_revisions p)\<rparr> else p)"

section \<open>Ownership journal\<close>

record overlay_intent =
  in_operation_id :: bytes
  in_action :: string
  in_prior :: "effect_receipt option"
  in_desired :: effect_receipt
  in_phase :: string
  in_routes :: "string list"
  in_addresses :: "string list"
  in_observed_phases :: "string list"

record persisted_state =
  ps_overlays :: "(string, unit) omap"
  ps_endpoints :: "(string, string) omap"
  ps_routes :: "(string, string list) omap"
  ps_addresses :: "(string, string list) omap"
  ps_effect_receipts :: "(string, effect_receipt) omap"
  ps_quarantined :: "(string, unit) omap"
  ps_overlay_intents :: "(string, overlay_intent) omap"
  ps_revision_floors :: "(string, revision_floor) omap"

definition max_payload :: nat where "max_payload = 4 * 1024 * 1024"
definition journal_magic :: bytes where "journal_magic = bstr ''FRONJNL1''"
definition journal_version :: u16 where "journal_version = 1"
definition journal_header_len :: nat where "journal_header_len = 38"

datatype journal_fault =
  JF_PayloadLimit | JF_Frame | JF_Version | JF_PayloadLength | JF_Checksum | JF_Json | JF_Exhausted | JF_Io

definition encode_header :: "bytes \<Rightarrow> u64 \<Rightarrow> bytes \<Rightarrow> bytes" where
  "encode_header jid generation payload =
     journal_magic @ u16_to_be journal_version @ jid @ u64_to_be generation @ u32_to_be (of_nat (length payload)) @ payload"

definition journal_encode ::
  "(bytes \<Rightarrow> bytes) \<Rightarrow> (persisted_state \<Rightarrow> bytes) \<Rightarrow> bytes \<Rightarrow> u64 \<Rightarrow> persisted_state \<Rightarrow> journal_fault + bytes" where
  "journal_encode sha json jid generation s =
     (let payload = json s in
      if max_payload < length payload then Inl JF_PayloadLimit
      else let f = encode_header jid generation payload in Inr (f @ sha f))"

definition journal_decode ::
  "(bytes \<Rightarrow> bytes) \<Rightarrow> (bytes \<Rightarrow> persisted_state option) \<Rightarrow> bytes \<Rightarrow> journal_fault + (bytes \<times> u64 \<times> persisted_state)" where
  "journal_decode sha unjson bs =
     (if length bs < journal_header_len + 32 \<or> take 8 bs \<noteq> journal_magic then Inl JF_Frame
      else if u16_from_be (subslice 8 10 bs) \<noteq> journal_version then Inl JF_Version
      else
        let jid = subslice 10 26 bs; generation = u64_from_be (subslice 26 34 bs);
            payload_len = unat (u32_from_be (subslice 34 38 bs)) in
        if max_payload < payload_len \<or> length bs \<noteq> journal_header_len + payload_len + 32 then Inl JF_PayloadLength
        else
          let checksum_at = journal_header_len + payload_len in
          if sha (take checksum_at bs) \<noteq> drop checksum_at bs then Inl JF_Checksum
          else
            rbind (ok_or JF_Json (unjson (subslice journal_header_len checksum_at bs)))
              (\<lambda>s. Inr (jid, generation, s)))"

section \<open>The server\<close>

record netd_server =
  sv_uid :: u32
  sv_policy :: netd_policy
  sv_grants :: "grant_verifier option"
  sv_state :: persisted_state
  sv_identity :: "(authorization_service_mode \<times> string) option"
  sv_has_journal :: bool
  sv_journal_id :: bytes
  sv_generation :: u64
  sv_journal :: "(bytes \<times> u64 \<times> persisted_state) option"

text \<open>
  The state of the server is kept in the record that is persisted; the floors in it are those of
  the policy at the time.  The journal is what the file decodes to.
\<close>

definition server_persist :: "io_fault \<Rightarrow> (persisted_state \<Rightarrow> bool) \<Rightarrow> netd_server \<Rightarrow> bool \<times> netd_server" where
  "server_persist fault fits s =
     (if \<not> sv_has_journal s then (True, s)
      else
        case checked_add (sv_generation s) 1 of
          None \<Rightarrow> (False, s)
        | Some generation \<Rightarrow>
            let st = (sv_state s)\<lparr>ps_revision_floors := po_revisions (sv_policy s)\<rparr> in
            if \<not> fits st then (False, s)
            else
              case replace_file fault (Some (sv_journal_id s, generation, st)) (sv_journal s) of
                (ok, disk) \<Rightarrow>
                  (ok, if ok then s\<lparr>sv_journal := disk, sv_generation := generation\<rparr> else s\<lparr>sv_journal := disk\<rparr>))"

definition intent_is_unresolved :: "string \<Rightarrow> netd_server \<Rightarrow> bool" where
  "intent_is_unresolved identity s =
     (case om_get (ps_overlay_intents (sv_state s)) identity of
        None \<Rightarrow> False
      | Some i \<Rightarrow> in_phase i \<notin> {''succeeded'', ''recovered'', ''not_applied''})"

definition ends_with :: "string \<Rightarrow> string \<Rightarrow> bool" where
  "ends_with suffix v \<longleftrightarrow> length suffix \<le> length v \<and> drop (length v - length suffix) v = suffix"

definition quarantined_as :: "string \<Rightarrow> netd_server \<Rightarrow> bool" where
  "quarantined_as identity s \<longleftrightarrow>
     list_ex (\<lambda>(entry, _). ends_with identity entry) (ps_quarantined (sv_state s)) \<or> intent_is_unresolved identity s"

definition request_is_quarantined :: "netd_request \<Rightarrow> netd_server \<Rightarrow> bool" where
  "request_is_quarantined r s \<longleftrightarrow>
     quarantined_as (''overlay:'' @ request_overlay_id r) s
     \<or> (case r of
          AttachEndpoint _ e _ \<Rightarrow> quarantined_as (''endpoint:'' @ e) s
        | DetachEndpoint _ e \<Rightarrow> quarantined_as (''endpoint:'' @ e) s
        | _ \<Rightarrow> False)"

definition validate_frame :: "u32 \<Rightarrow> bytes \<Rightarrow> netd_server \<Rightarrow> rejection_code + unit" where
  "validate_frame uid frame s =
     (if uid \<noteq> sv_uid s then Inl RJ_UnauthorizedPeer
      else if length frame < 4 \<or> 1024 * 1024 + 4 < length frame then Inl RJ_OversizedFrame
      else
        let len = unat (u32_from_be (take 4 frame)) in
        if 1024 * 1024 < len \<or> len \<noteq> length frame - 4 then Inl RJ_OversizedFrame else Inr ())"

definition validate_granted_handshake :: "service_handshake \<Rightarrow> netd_server \<Rightarrow> bool" where
  "validate_granted_handshake hs s =
     (case sv_identity s of
        None \<Rightarrow> True
      | Some (expected, boot) \<Rightarrow>
          (case service_mode_parse (sh_mode hs) (sh_policy_digest hs) of
             Inl _ \<Rightarrow> False
           | Inr peer \<Rightarrow> is_ok (require_match expected peer))
          \<and> sh_instance_boot hs = boot)"

definition map_grant_error :: "grant_error \<Rightarrow> rejection_code" where
  "map_grant_error e =
     (case e of GE_Replay \<Rightarrow> RJ_GrantReplay | GE_InvalidSignature \<Rightarrow> RJ_InvalidSignature | _ \<Rightarrow> RJ_InvalidGrant)"

record dispatch_faults =
  df_consume1 :: io_fault
  df_consume2 :: io_fault
  df_arm :: io_fault
  df_state :: io_fault
  df_failure :: io_fault

definition consume_grant ::
  "netd_host \<Rightarrow> dispatch_faults \<Rightarrow> helper_grant \<Rightarrow> grant_action \<Rightarrow> string \<Rightarrow> u64 \<Rightarrow> grant_parameters \<Rightarrow> effect_receipt
   \<Rightarrow> u64 \<Rightarrow> u64 \<Rightarrow> netd_server \<Rightarrow> (rejection_code + unit) \<times> netd_server" where
  "consume_grant h df g action uuid generation params receipt now monotonic s =
     (case sv_grants s of
        None \<Rightarrow> (Inl RJ_MissingGrant, s)
      | Some v \<Rightarrow>
          (case verify_and_consume (nh_sha h) (nh_grant_json h) (nh_unb64 h) (df_consume1 df) (df_consume2 df)
                  g action uuid generation params now monotonic v of
             (Inl e, v) \<Rightarrow> (Inl (map_grant_error e), s\<lparr>sv_grants := Some v\<rparr>)
           | (Inr c, v) \<Rightarrow>
               (case arm_effect_target (df_arm df) c receipt v of
                  (Inl e, v) \<Rightarrow> (Inl (map_grant_error e), s\<lparr>sv_grants := Some v\<rparr>)
                | (Inr _, v) \<Rightarrow> (Inr (), s\<lparr>sv_grants := Some v\<rparr>))))"

definition record_grant_failure ::
  "io_fault \<Rightarrow> string \<Rightarrow> bytes \<Rightarrow> string \<Rightarrow> string \<Rightarrow> netd_server \<Rightarrow> (grant_error + unit) \<times> netd_server" where
  "record_grant_failure fault request_id nonce identity outcome s =
     (case sv_grants s of
        None \<Rightarrow> (Inl GE_NotConsumed, s)
      | Some v \<Rightarrow>
          (case record_failure fault \<lparr>co_request_id = request_id, co_nonce = nonce\<rparr> identity outcome v of
             (r, v) \<Rightarrow> (r, s\<lparr>sv_grants := Some v\<rparr>)))"

datatype frame_body = FB_Granted granted_envelope | FB_Signed signed_envelope | FB_Invalid

record netd_dispatch =
  nd_envelope :: signed_envelope
  nd_receipt :: effect_receipt
  nd_request_id :: string
  nd_operation_id :: bytes
  nd_nonce :: bytes

definition on_policy :: "(netd_policy \<Rightarrow> netd_policy) \<Rightarrow> netd_server \<Rightarrow> netd_server" where
  "on_policy f s = s\<lparr>sv_policy := f (sv_policy s)\<rparr>"

definition rollback_envelope :: "signed_envelope \<Rightarrow> netd_server \<Rightarrow> netd_server" where
  "rollback_envelope env = on_policy (policy_rollback (request_overlay_id (se_request env)) (se_epoch env) (se_revision env))"

definition dispatch_granted ::
  "netd_host \<Rightarrow> dispatch_faults \<Rightarrow> (persisted_state \<Rightarrow> bool) \<Rightarrow> granted_envelope \<Rightarrow> u64 \<Rightarrow> u64 \<Rightarrow> netd_server
   \<Rightarrow> (rejection_code + netd_dispatch) \<times> netd_server" where
  "dispatch_granted h df fits g now monotonic s =
     (let env = ge_envelope g in
      if \<not> validate_granted_handshake (ge_handshake g) s then (Inl RJ_PolicyViolation, s)
      else
        case policy_validate h env now (sv_policy s) of
          (Inl code, p) \<Rightarrow> (Inl code, s\<lparr>sv_policy := p\<rparr>)
        | (Inr _, p) \<Rightarrow>
            let s = s\<lparr>sv_policy := p\<rparr> in
            (case request_parameters (nh_sha h) (nh_json h) (se_request env) of
               Inl code \<Rightarrow> (Inl code, s)
             | Inr (action, params) \<Rightarrow>
                 if request_is_quarantined (se_request env) s then (Inl RJ_PolicyViolation, rollback_envelope env s)
                 else
                   let receipt = receipt_from_request (nh_sha h) (nh_json h) (nh_inode h) (se_request env)
                                   (ge_resource_generation g) (se_epoch env) (se_revision env) in
                   (case consume_grant h df (ge_grant g) action (ge_resource_uuid g) (ge_resource_generation g) params
                            receipt now monotonic s of
                      (Inl code, s) \<Rightarrow> (Inl code, rollback_envelope env s)
                    | (Inr _, s) \<Rightarrow>
                        (case server_persist (df_state df) fits s of
                           (False, s) \<Rightarrow>
                             (Inl RJ_Busy,
                              snd (record_grant_failure (df_failure df) (gc_request_id (hg_claims (ge_grant g)))
                                (gc_nonce (hg_claims (ge_grant g))) (receipt_identity receipt)
                                ''failed to persist revision floor'' (rollback_envelope env s)))
                         | (True, s) \<Rightarrow>
                             (Inr \<lparr>nd_envelope = env, nd_receipt = receipt,
                                nd_request_id = gc_request_id (hg_claims (ge_grant g)),
                                nd_operation_id = gc_operation_id (hg_claims (ge_grant g)),
                                nd_nonce = gc_nonce (hg_claims (ge_grant g))\<rparr>, s)))))"

definition prepare_dispatch ::
  "netd_host \<Rightarrow> dispatch_faults \<Rightarrow> (persisted_state \<Rightarrow> bool) \<Rightarrow> u32 \<Rightarrow> bytes \<Rightarrow> frame_body \<Rightarrow> u64 \<Rightarrow> u64 \<Rightarrow> netd_server
   \<Rightarrow> (rejection_code + netd_dispatch) \<times> netd_server" where
  "prepare_dispatch h df fits uid frame body now monotonic s =
     (case validate_frame uid frame s of
        Inl code \<Rightarrow> (Inl code, s)
      | Inr _ \<Rightarrow>
          (case body of
             FB_Invalid \<Rightarrow> (Inl RJ_InvalidFrame, s)
           | FB_Signed env \<Rightarrow>
               (case policy_validate h env now (sv_policy s) of
                  (Inr _, p) \<Rightarrow> (Inl RJ_MissingGrant, s\<lparr>sv_policy := p\<rparr>)
                | (Inl code, p) \<Rightarrow> (Inl code, s\<lparr>sv_policy := p\<rparr>))
           | FB_Granted g \<Rightarrow> dispatch_granted h df fits g now monotonic s))"

end
