(* ===== verification/Netd_Dispatch.thy ===== *)
theory Netd_Dispatch
  imports Netd_Server
begin

text \<open>
  Properties of the dispatch of the network helper: what has become durable before an effect, what
  a refused request does to the revision floors, and the frame of the ownership journal.
\<close>

section \<open>The ownership journal\<close>

lemma length_encode_header: "length jid = 16 \<Longrightarrow> length (encode_header jid generation payload) = journal_header_len + length payload"
  by (simp add: encode_header_def journal_header_len_def journal_magic_def)

lemma header_fields:
  assumes "length jid = 16"
  shows "take 8 (encode_header jid g p @ r) = journal_magic" "subslice 8 10 (encode_header jid g p @ r) = u16_to_be journal_version"
    "subslice 10 26 (encode_header jid g p @ r) = jid" "subslice 26 34 (encode_header jid g p @ r) = u64_to_be g"
    "subslice 34 38 (encode_header jid g p @ r) = u32_to_be (of_nat (length p))"
    "subslice 38 (38 + length p) (encode_header jid g p @ r) = p"
  using assms by (simp_all add: encode_header_def journal_magic_def subslice_def)

lemma payload_length_word: "length p \<le> max_payload \<Longrightarrow> unat (of_nat (length p) :: u32) = length p"
  by (simp add: max_payload_def unat_of_nat take_bit_nat_eq_self)

lemma journal_decode_frame:
  assumes "length jid = 16" and "length payload \<le> max_payload" and "\<And>x. length (sha x) = 32"
  shows "journal_decode sha unjson (encode_header jid g payload @ sha (encode_header jid g payload))
    = rbind (ok_or JF_Json (unjson payload)) (\<lambda>s. Inr (jid, g, s))"
  using assms header_fields [OF assms(1), where g = g and p = payload and r = "sha (encode_header jid g payload)"]
    length_encode_header [OF assms(1), of g payload] payload_length_word [OF assms(2)]
  by (simp add: journal_decode_def journal_header_len_def Let_def)

lemma journal_decode_inv:
  assumes "journal_decode sha unjson bs = Inr (jid, g, s)"
  shows "\<exists>payload. unjson payload = Some s \<and> length jid = 16 \<and> length payload \<le> max_payload
    \<and> bs = encode_header jid g payload @ sha (encode_header jid g payload)"
proof -
  let ?n = "unat (u32_from_be (subslice 34 38 bs))"
  let ?p = "subslice 38 (38 + ?n) bs"
  from assms have c: "take 8 bs = journal_magic" "u16_from_be (subslice 8 10 bs) = journal_version"
    "jid = subslice 10 26 bs" "g = u64_from_be (subslice 26 34 bs)" "?n \<le> max_payload" "length bs = 38 + ?n + 32"
    "sha (take (38 + ?n) bs) = drop (38 + ?n) bs" "unjson ?p = Some s"
    by (auto simp: journal_decode_def journal_header_len_def Let_def rbind_simps split: if_splits)
  have len: "length (subslice 8 10 bs) = 2" "length (subslice 26 34 bs) = 8" "length (subslice 34 38 bs) = 4"
    "length jid = 16" "length ?p = ?n"
    using c(3,6) by simp_all
  have w: "u32_to_be (of_nat ?n) = subslice 34 38 bs" using u32_to_from_be [OF len(3)] by simp
  have "take (38 + ?n) bs = take 8 bs @ subslice 8 10 bs @ subslice 10 26 bs @ subslice 26 34 bs @ subslice 34 38 bs @ ?p"
    using subslice_join [of 34 38 "38 + ?n" bs] subslice_join [of 26 34 "38 + ?n" bs]
      subslice_join [of 10 26 "38 + ?n" bs] subslice_join [of 8 10 "38 + ?n" bs] subslice_join [of 0 8 "38 + ?n" bs]
    by (simp add: subslice_def [of 0])
  also have "\<dots> = encode_header jid g ?p"
    unfolding encode_header_def len(5) w using c(1-4) len u16_to_from_be [OF len(1)] u64_to_from_be [OF len(2)] by simp
  finally have "take (38 + ?n) bs = encode_header jid g ?p" .
  with c len show ?thesis
    by (intro exI [of _ ?p]) (metis append_take_drop_id)
qed

text \<open>
  The ownership journal is read back exactly as it was written.  A frame that is written decodes to
  its identifier, generation and state; and every frame that decodes is the frame of the identifier,
  generation and payload it decodes to, so a frame that is cut, extended or changed anywhere is
  refused unless its checksum collides.
\<close>

theorem ownership_journal_exact:
  assumes "\<And>x. length (sha x) = 32" and "unjson (json s) = Some s" and "length jid = 16"
  shows "(journal_encode sha json jid g s = Inr bs \<longrightarrow> journal_decode sha unjson bs = Inr (jid, g, s))
    \<and> (journal_decode sha unjson bs = Inr (jid', g', s') \<longrightarrow>
        (\<exists>payload. unjson payload = Some s' \<and> length payload \<le> max_payload
           \<and> bs = encode_header jid' g' payload @ sha (encode_header jid' g' payload)))"
proof (intro conjI impI)
  assume "journal_encode sha json jid g s = Inr bs"
  then have "length (json s) \<le> max_payload" "bs = encode_header jid g (json s) @ sha (encode_header jid g (json s))"
    by (auto simp: journal_encode_def Let_def split: if_splits)
  with assms show "journal_decode sha unjson bs = Inr (jid, g, s)" by (simp add: journal_decode_frame)
next
  assume "journal_decode sha unjson bs = Inr (jid', g', s')"
  from journal_decode_inv [OF this] show "\<exists>payload. unjson payload = Some s' \<and> length payload \<le> max_payload
           \<and> bs = encode_header jid' g' payload @ sha (encode_header jid' g' payload)" by blast
qed

definition empty_state :: persisted_state where
  "empty_state =
     \<lparr>ps_overlays = [], ps_endpoints = [], ps_routes = [], ps_addresses = [], ps_effect_receipts = [],
      ps_quarantined = [], ps_overlay_intents = [], ps_revision_floors = []\<rparr>"

theorem ownership_journal_exact_witness:
  "\<exists>bs. journal_encode toy_sha (\<lambda>_. [1, 2]) (replicate 16 7) 4 empty_state = Inr bs
     \<and> journal_decode toy_sha (\<lambda>_. Some empty_state) bs = Inr (replicate 16 7, 4, empty_state)"
proof -
  obtain bs where "journal_encode toy_sha (\<lambda>_. [1, 2]) (replicate 16 7) 4 empty_state = Inr bs"
    by (simp add: journal_encode_def max_payload_def Let_def)
  with ownership_journal_exact [where sha = toy_sha and unjson = "\<lambda>_. Some empty_state" and json = "\<lambda>_. [1, 2]" and
      s = empty_state and jid = "replicate 16 7" and g = 4 and bs = bs] length_toy_sha
  show ?thesis by auto
qed

section \<open>Floors\<close>

lemma stale_lexicographic:
  "stale (Some f) epoch revision lease \<longleftrightarrow> (epoch, revision, lease) \<le> (fl_epoch f, fl_revision f, fl_lease f)"
  by (auto simp: stale_def less_eq_prod_def)

lemma raise_floor_InrD:
  "raise_floor scope epoch revision lease p = (Inr u, q) \<Longrightarrow>
   \<not> stale (om_get (po_revisions p) scope) epoch revision lease
   \<and> q = p\<lparr>po_revisions := om_insert scope \<lparr>fl_epoch = epoch, fl_revision = revision, fl_lease = lease\<rparr> (po_revisions p)\<rparr>"
  by (auto simp: raise_floor_def split: if_splits)

lemma policy_validate_InrD:
  assumes "policy_validate h env now p = (Inr u, q)"
  shows "se_cluster_id env = po_cluster p \<and> se_node_id env = po_node p \<and> now < se_lease_expires env
    \<and> check_signature h (po_key p) (se_signature env) (nh_envelope_json h (env\<lparr>se_signature := []\<rparr>)) = Inr ()
    \<and> validate_request h (se_request env) = Inr ()
    \<and> raise_floor (request_overlay_id (se_request env)) (se_epoch env) (se_revision env) (se_lease_expires env) p = (Inr (), q)"
  using assms by (auto simp: policy_validate_def not_le split: if_splits sum.splits)

lemma policy_validate_raises:
  assumes "policy_validate h env now p = (Inr u, q)" and "om_wf (po_revisions p)"
  shows "\<not> stale (om_get (po_revisions p) (request_overlay_id (se_request env))) (se_epoch env) (se_revision env) (se_lease_expires env)
    \<and> om_get (po_revisions q) (request_overlay_id (se_request env)) =
        Some \<lparr>fl_epoch = se_epoch env, fl_revision = se_revision env, fl_lease = se_lease_expires env\<rparr>
    \<and> om_wf (po_revisions q) \<and> po_cluster q = po_cluster p \<and> po_node q = po_node p \<and> po_key q = po_key p"
proof -
  from policy_validate_InrD [OF assms(1)] have
    "raise_floor (request_overlay_id (se_request env)) (se_epoch env) (se_revision env) (se_lease_expires env) p = (Inr (), q)"
    by blast
  from raise_floor_InrD [OF this] assms(2) show ?thesis by simp
qed

lemma policy_validate_floors:
  "policy_validate h env now p =
    (if fst (policy_validate h env now (p\<lparr>po_revisions := []\<rparr>)) = Inr ()
     then raise_floor (request_overlay_id (se_request env)) (se_epoch env) (se_revision env) (se_lease_expires env) p
     else (fst (policy_validate h env now (p\<lparr>po_revisions := []\<rparr>)), p))"
  by (auto simp: policy_validate_def raise_floor_def stale_def om_get_def split: sum.splits)

lemma policy_validate_no_floor: "fst (policy_validate h env now (p\<lparr>po_revisions := []\<rparr>)) \<noteq> Inl RJ_StaleRevision"
proof -
  have "check_signature h k sig m \<noteq> Inl RJ_StaleRevision" for k sig m
    by (auto simp: check_signature_def rbind_simps ok_or_def split: option.splits if_splits)
  moreover have "validate_request h r \<noteq> Inl RJ_StaleRevision" for r
    by (auto simp: validate_request_def Let_def)
  ultimately show ?thesis
    by (auto simp: policy_validate_def raise_floor_def stale_def om_get_def split: sum.splits)
qed

lemma rollback_erases:
  "om_wf (po_revisions p) \<Longrightarrow> om_get (po_revisions p) scope = Some f \<Longrightarrow> fl_epoch f = epoch \<Longrightarrow> fl_revision f = revision \<Longrightarrow>
   om_get (po_revisions (policy_rollback scope epoch revision p)) scope = None"
  by (simp add: policy_rollback_def)

lemma quarantined_policy [simp]:
  "quarantined_as i (s\<lparr>sv_policy := p\<rparr>) = quarantined_as i s"
  "request_is_quarantined r (s\<lparr>sv_policy := p\<rparr>) = request_is_quarantined r s"
  by (auto simp: quarantined_as_def intent_is_unresolved_def request_is_quarantined_def split: netd_request.splits)

lemma consume_grant_policy [simp]:
  "sv_policy (snd (consume_grant h df g action uuid generation params receipt now monotonic s)) = sv_policy s"
  by (auto simp: consume_grant_def split: option.splits prod.splits sum.splits)

section \<open>Durability before the effect\<close>

lemma consume_claims:
  assumes ok: "ledger_ok l" and r: "ledger_consume f1 f2 g l = (Inr (), m)"
  shows "\<exists>op. consumed_of (gl_state m) (hex (gc_nonce (hg_claims g))) = Some op \<and> go_claims op = hg_claims g"
proof -
  let ?n = "hex (gc_nonce (hg_claims g))"
  have new: "om_get (ls_consumed (gl_state l)) ?n = None" using r by (auto simp: ledger_consume_def Let_def split: if_splits)
  let ?l1 = "set_consumed (om_insert ?n \<lparr>go_claims = hg_claims g, go_phase = GP_Pending, go_effect_identity = None,
               go_expected_receipt = None\<rparr>) l"
  have wf: "state_wf (gl_state l)" using ok by (simp add: ledger_ok_def)
  have g1: "grows (gl_state l) (gl_state ?l1)" using insert_grows [OF wf new] .
  obtain r2 l2 where p: "ledger_persist f1 ?l1 = (r2, l2)" by (cases "ledger_persist f1 ?l1")
  with r new have p2: "ledger_persist f2 (update_operation ?n (go_phase_update (\<lambda>_. GP_ConsumedBeforeEffect)) l2) = (Inr (), m)"
    by (auto simp: ledger_consume_def Let_def split: sum.splits)
  have l2: "ledger_ok l2" "gl_state l2 = gl_state ?l1"
    using persist_modify_ok [OF ok g1, of f1] p by (simp_all add: set_consumed_def)
  have wf2: "state_wf (gl_state l2)" using l2 by (simp add: ledger_ok_def)
  have g3: "grows (gl_state l2) (gl_state (update_operation ?n (go_phase_update (\<lambda>_. GP_ConsumedBeforeEffect)) l2))"
    by (rule update_operation_grows) (simp_all add: wf2)
  from persist_modify_ok [OF l2(1) g3, of f2] p2
  have "gl_state m = gl_state (update_operation ?n (go_phase_update (\<lambda>_. GP_ConsumedBeforeEffect)) l2)" by simp
  then show ?thesis
    using wf l2(2) update_operation_consumed [OF wf2, of ?n "go_phase_update (\<lambda>_. GP_ConsumedBeforeEffect)"]
    by (simp add: set_consumed_def consumed_of_def state_wf_def)
qed

definition server_ledger :: "netd_server \<Rightarrow> grant_ledger" where
  "server_ledger s = (case sv_grants s of None \<Rightarrow> ledger_memory | Some v \<Rightarrow> gv_ledger v)"

lemma consume_grant_durable:
  assumes "consume_grant h df g action uuid generation params receipt now monotonic s = (Inr (), t)"
    and "ledger_ok (server_ledger s)"
  shows "(\<exists>v. sv_grants s = Some v \<and>
        verifier_verify (nh_sha h) (nh_grant_json h) (nh_unb64 h) g action uuid generation params now monotonic v = Inr ())
    \<and> consumed_of (disk_state (server_ledger s)) (hex (gc_nonce (hg_claims g))) = None
    \<and> (\<exists>op. consumed_of (disk_state (server_ledger t)) (hex (gc_nonce (hg_claims g))) = Some op
        \<and> go_claims op = hg_claims g \<and> go_phase op = GP_OutcomeUnknown \<and> go_expected_receipt op = Some receipt)
    \<and> (\<exists>w. t = s\<lparr>sv_grants := Some w\<rparr>)"
proof -
  let ?n = "hex (gc_nonce (hg_claims g))"
  let ?f = "\<lambda>op. op\<lparr>go_phase := GP_OutcomeUnknown, go_effect_identity := Some (receipt_identity receipt), go_expected_receipt := Some receipt\<rparr>"
  from assms(1) obtain v l m where v: "sv_grants s = Some v"
    and ver: "verifier_verify (nh_sha h) (nh_grant_json h) (nh_unb64 h) g action uuid generation params now monotonic v = Inr ()"
    and con: "ledger_consume (df_consume1 df) (df_consume2 df) g (gv_ledger v) = (Inr (), l)"
    and arm: "mark_outcome_unknown (df_arm df) (gc_nonce (hg_claims g)) (Some (receipt_identity receipt)) (Some receipt) l = (Inr (), m)"
    and t: "t = s\<lparr>sv_grants := Some (v\<lparr>gv_ledger := m\<rparr>)\<rparr>"
    by (auto simp: consume_grant_def verify_and_consume_def arm_effect_target_def with_ledger_def
        split: option.splits prod.splits sum.splits)
  have ok: "ledger_ok (gv_ledger v)" using assms(2) v by (simp add: server_ledger_def)
  note c = consume_ok [OF ok con]
  obtain op where op: "consumed_of (gl_state l) ?n = Some op" "go_claims op = hg_claims g"
    using consume_claims [OF ok con] by blast
  have wf: "state_wf (gl_state l)" using c by (simp add: ledger_ok_def)
  have p: "ledger_persist (df_arm df) (update_operation ?n ?f l) = (Inr (), m)"
    using arm op(1) by (simp add: mark_outcome_unknown_def consumed_of_def)
  have "grows (gl_state l) (gl_state (update_operation ?n ?f l))" by (rule update_operation_grows) (simp_all add: wf)
  with persist_modify_ok [of l "update_operation ?n ?f l" "df_arm df"] c p
  have "disk_state m = gl_state (update_operation ?n ?f l)" by simp
  then have "consumed_of (disk_state m) ?n = Some (?f op)" using update_operation_consumed [OF wf, of ?n ?f] op by simp
  with v ver c op(2) t show ?thesis by (auto simp: server_ledger_def)
qed

lemma server_persist_True:
  "server_persist fault fits s = (True, t) \<Longrightarrow> sv_has_journal s \<Longrightarrow>
   \<exists>gen. sv_journal t = Some (sv_journal_id s, gen, (sv_state s)\<lparr>ps_revision_floors := po_revisions (sv_policy s)\<rparr>)
     \<and> unat gen = unat (sv_generation s) + 1 \<and> sv_grants t = sv_grants s"
  by (auto simp: server_persist_def Let_def replace_file_def dest: checked_add_Some
      split: option.splits if_splits io_fault.splits)

text \<open>C6.
  Everything is durable before an effect.  When the helper dispatches a request, its envelope was
  signed by the controller and is newer than the revision floor of its overlay, the grant was
  accepted for exactly the parameters of the request and had not been used; and before the first
  effect the ledger file records the grant as used, with the receipt of the effect, and the
  ownership journal holds the new revision floor.
\<close>

theorem dispatch_durable:
  assumes "prepare_dispatch h df fits uid frame body now monotonic s = (Inr d, t)"
    and "ledger_ok (server_ledger s)" and "om_wf (po_revisions (sv_policy s))" and "sv_has_journal s"
  shows "\<exists>g env action params v op jid gen st.
      body = FB_Granted g \<and> env = ge_envelope g \<and> env = nd_envelope d \<and> uid = sv_uid s \<and> now < se_lease_expires env
      \<and> check_signature h (po_key (sv_policy s)) (se_signature env) (nh_envelope_json h (env\<lparr>se_signature := []\<rparr>)) = Inr ()
      \<and> \<not> stale (om_get (po_revisions (sv_policy s)) (request_overlay_id (se_request env))) (se_epoch env) (se_revision env) (se_lease_expires env)
      \<and> request_parameters (nh_sha h) (nh_json h) (se_request env) = Inr (action, params)
      \<and> sv_grants s = Some v
      \<and> verifier_verify (nh_sha h) (nh_grant_json h) (nh_unb64 h) (ge_grant g) action (ge_resource_uuid g)
          (ge_resource_generation g) params now monotonic v = Inr ()
      \<and> consumed_of (disk_state (server_ledger s)) (hex (nd_nonce d)) = None
      \<and> consumed_of (disk_state (server_ledger t)) (hex (nd_nonce d)) = Some op
      \<and> go_claims op = hg_claims (ge_grant g) \<and> go_phase op = GP_OutcomeUnknown \<and> go_expected_receipt op = Some (nd_receipt d)
      \<and> sv_journal t = Some (jid, gen, st)
      \<and> om_get (ps_revision_floors st) (request_overlay_id (se_request env)) =
          Some \<lparr>fl_epoch = se_epoch env, fl_revision = se_revision env, fl_lease = se_lease_expires env\<rparr>"
proof -
  from assms(1) obtain g where body: "body = FB_Granted g" and uid: "uid = sv_uid s"
    and disp: "dispatch_granted h df fits g now monotonic s = (Inr d, t)"
    by (auto simp: prepare_dispatch_def validate_frame_def Let_def split: sum.splits frame_body.splits prod.splits if_splits)
  let ?env = "ge_envelope g"
  let ?receipt = "receipt_from_request (nh_sha h) (nh_json h) (nh_inode h) (se_request ?env) (ge_resource_generation g) (se_epoch ?env) (se_revision ?env)"
  from disp obtain p action params s1 where
    val: "policy_validate h ?env now (sv_policy s) = (Inr (), p)"
    and par: "request_parameters (nh_sha h) (nh_json h) (se_request ?env) = Inr (action, params)"
    and con: "consume_grant h df (ge_grant g) action (ge_resource_uuid g) (ge_resource_generation g) params ?receipt now monotonic
        (s\<lparr>sv_policy := p\<rparr>) = (Inr (), s1)"
    and per: "server_persist (df_state df) fits s1 = (True, t)"
    and d: "nd_envelope d = ?env" "nd_receipt d = ?receipt" "nd_nonce d = gc_nonce (hg_claims (ge_grant g))"
    by (auto simp: dispatch_granted_def Let_def split: if_splits prod.splits sum.splits bool.splits)
  note v = policy_validate_InrD [OF val]
  note fl = policy_validate_raises [OF val assms(3)]
  have "ledger_ok (server_ledger (s\<lparr>sv_policy := p\<rparr>))" using assms(2) by (simp add: server_ledger_def)
  from consume_grant_durable [OF con this] obtain w op w' where
    w: "sv_grants s = Some w" "verifier_verify (nh_sha h) (nh_grant_json h) (nh_unb64 h) (ge_grant g) action (ge_resource_uuid g)
      (ge_resource_generation g) params now monotonic w = Inr ()"
    and fresh: "consumed_of (disk_state (server_ledger s)) (hex (gc_nonce (hg_claims (ge_grant g)))) = None"
    and op: "consumed_of (disk_state (server_ledger s1)) (hex (gc_nonce (hg_claims (ge_grant g)))) = Some op"
      "go_claims op = hg_claims (ge_grant g)" "go_phase op = GP_OutcomeUnknown" "go_expected_receipt op = Some ?receipt"
    and s1: "s1 = s\<lparr>sv_policy := p, sv_grants := Some w'\<rparr>"
    by (auto simp: server_ledger_def)
  have "sv_has_journal s1" "sv_policy s1 = p" using assms(4) by (simp_all add: s1)
  with server_persist_True [OF per] obtain gen where
    "sv_journal t = Some (sv_journal_id s1, gen, (sv_state s1)\<lparr>ps_revision_floors := po_revisions p\<rparr>)" "sv_grants t = sv_grants s1"
    by auto
  with body uid v fl par w fresh op d show ?thesis
    by (intro exI conjI) (auto simp: server_ledger_def)
qed

definition example_netd_host :: netd_host where
  "example_netd_host =
     \<lparr>nh_sha = (\<lambda>_. replicate 32 9),
      nh_json = \<lparr>nj_peers = (\<lambda>_. []), nj_strings = (\<lambda>_. []), nj_canonical_peers = (\<lambda>_. []), nj_string = (\<lambda>_. []),
        nj_optional_string = (\<lambda>_. [])\<rparr>,
      nh_inode = (\<lambda>_. None), nh_unb64 = (\<lambda>_. Some (replicate 64 0)), nh_grant_json = (\<lambda>_. []), nh_envelope_json = (\<lambda>_. []),
      nh_desired_json = (\<lambda>_. []), nh_ip_net = (\<lambda>_. True), nh_socket_addr = (\<lambda>_. True), nh_unicode_alnum = (\<lambda>_. True)\<rparr>"

lemma example_netd_host_simps [simp]:
  "nh_sha example_netd_host = (\<lambda>_. replicate 32 9)" "nh_unb64 example_netd_host = (\<lambda>_. Some (replicate 64 0))"
  "nh_grant_json example_netd_host = (\<lambda>_. [])" "nh_unicode_alnum example_netd_host = (\<lambda>_. True)"
  by (simp_all add: example_netd_host_def)

definition example_envelope :: "u64 \<Rightarrow> signed_envelope" where
  "example_envelope revision =
     \<lparr>se_cluster_id = ''c'', se_node_id = ''n'', se_epoch = 1, se_revision = revision, se_lease_expires = 100,
      se_request = Inspect ''wg0'', se_signature = ''s''\<rparr>"

definition example_granted :: "u64 \<Rightarrow> string \<Rightarrow> granted_envelope" where
  "example_granted revision key_id =
     \<lparr>ge_handshake = \<lparr>sh_mode = [], sh_policy_digest = None, sh_instance_boot = []\<rparr>, ge_envelope = example_envelope revision,
      ge_resource_uuid = ''u'', ge_resource_generation = 1,
      ge_grant = (example_grant [7] ''r'')\<lparr>hg_claims := (hg_claims (example_grant [7] ''r''))
        \<lparr>gc_action := GA_NetworkInspect, gc_parameter_digest := replicate 32 9, gc_key_id := key_id\<rparr>\<rparr>\<rparr>"

definition example_server :: netd_server where
  "example_server =
     \<lparr>sv_uid = 0,
      sv_policy = \<lparr>po_cluster = ''c'', po_node = ''n'', po_key = (\<lambda>_ _. True),
        po_revisions = [(''wg0'', \<lparr>fl_epoch = 1, fl_revision = 5, fl_lease = 100\<rparr>)]\<rparr>,
      sv_grants = Some \<lparr>gv_keys = [(''k'', \<lambda>_ _. True)], gv_issuer = ''i'', gv_boot_id = ''b'', gv_ledger = fresh_ledger\<rparr>,
      sv_state = empty_state, sv_identity = None, sv_has_journal = True, sv_journal_id = replicate 16 1, sv_generation = 0,
      sv_journal = None\<rparr>"

definition no_faults :: dispatch_faults where
  "no_faults = \<lparr>df_consume1 = No_Fault, df_consume2 = No_Fault, df_arm = No_Fault, df_state = No_Fault, df_failure = No_Fault\<rparr>"

definition example_netd_frame :: bytes where "example_netd_frame = [0, 0, 0, 0]"

lemma example_netd_frame_valid: "validate_frame 0 example_netd_frame example_server = Inr ()"
  by (simp add: validate_frame_def example_netd_frame_def example_server_def u32_from_be_def nat_from_be_def)

lemma example_name: "validate_interface_name example_netd_host ''wg0''"
  by (simp add: validate_interface_name_def name_chars_def check_shell_safe_def shell_metacharacters_def
      ascii_alnum_def char_code_def)

lemma example_policy:
  "policy_validate example_netd_host (example_envelope r) 5 (sv_policy example_server) =
    raise_floor ''wg0'' 1 r 100 (sv_policy example_server)"
  using example_name
  by (simp add: policy_validate_def example_envelope_def example_server_def check_signature_def validate_request_def)

lemma example_parameters:
  "request_parameters (nh_sha example_netd_host) (nh_json example_netd_host) (Inspect ''wg0'') =
    Inr (GA_NetworkInspect, \<lparr>gp_operation = ''overlay.inspect'', gp_fields = [(''overlay_id'', ''wg0'')], gp_fds = []\<rparr>)"
  by (simp add: request_parameters_def request_fields_def grant_parameters_new_def)

lemma example_not_quarantined [simp]: "\<not> request_is_quarantined (Inspect ''wg0'') example_server"
  by (simp add: request_is_quarantined_def quarantined_as_def intent_is_unresolved_def example_server_def empty_state_def om_get_def)

lemma example_handshake [simp]: "validate_granted_handshake hs example_server"
  by (simp add: validate_granted_handshake_def example_server_def)

lemma example_envelope_simps [simp]:
  "ge_envelope (example_granted r k) = example_envelope r" "se_request (example_envelope r) = Inspect ''wg0''"
  "se_epoch (example_envelope r) = 1" "se_revision (example_envelope r) = r" "se_lease_expires (example_envelope r) = 100"
  by (simp_all add: example_granted_def example_envelope_def)

definition raised_policy :: "u64 \<Rightarrow> netd_policy" where
  "raised_policy r = (sv_policy example_server)\<lparr>po_revisions := [(''wg0'', \<lparr>fl_epoch = 1, fl_revision = r, fl_lease = 100\<rparr>)]\<rparr>"

lemma example_raise: "5 < r \<Longrightarrow> policy_validate example_netd_host (example_envelope r) 5 (sv_policy example_server) = (Inr (), raised_policy r)"
  unfolding example_policy
  by (auto simp: raise_floor_def stale_def example_server_def om_get_def raised_policy_def)

lemma example_verify:
  "verifier_verify (\<lambda>_. replicate 32 9) (\<lambda>_. []) (\<lambda>_. Some (replicate 64 0)) (ge_grant (example_granted r k)) GA_NetworkInspect ''u'' 1
     \<lparr>gp_operation = ''overlay.inspect'', gp_fields = [(''overlay_id'', ''wg0'')], gp_fds = []\<rparr> 5 5 v =
   (if gv_issuer v \<noteq> ''i'' then Inl GE_WrongIssuer
    else case om_get (gv_keys v) k of None \<Rightarrow> Inl GE_WrongIssuer
      | Some key \<Rightarrow>
          if \<not> key (signing_bytes (hg_claims (ge_grant (example_granted r k)))) (replicate 64 0) then Inl GE_InvalidSignature
          else if gv_boot_id v \<noteq> ''b'' then Inl GE_WrongBoot else Inr ())"
  by (auto simp: verifier_verify_def example_granted_def example_grant_def max_grant_bytes_def grant_schema_version_def
      parameter_digest_def Let_def ok_or_def rbind_def split: option.splits)

lemma example_consume:
  "consume_grant example_netd_host no_faults (ge_grant (example_granted r ''k'')) GA_NetworkInspect ''u'' 1
     \<lparr>gp_operation = ''overlay.inspect'', gp_fields = [(''overlay_id'', ''wg0'')], gp_fds = []\<rparr> receipt 5 5
     (example_server\<lparr>sv_policy := p\<rparr>) = (Inr (), t) \<Longrightarrow>
   sv_generation t = 0 \<and> sv_has_journal t \<and> sv_journal t = None"
  by (auto simp: consume_grant_def example_server_def split: prod.splits sum.splits)

lemma example_consumes:
  "\<exists>t. consume_grant example_netd_host no_faults (ge_grant (example_granted r ''k'')) GA_NetworkInspect ''u'' 1
     \<lparr>gp_operation = ''overlay.inspect'', gp_fields = [(''overlay_id'', ''wg0'')], gp_fds = []\<rparr> receipt 5 5
     (example_server\<lparr>sv_policy := p\<rparr>) = (Inr (), t)"
  unfolding consume_grant_def verify_and_consume_def example_netd_host_simps
  by (simp add: example_verify example_server_def om_get_def)
    (simp add: example_granted_def no_faults_def arm_effect_target_def with_ledger_def fresh_ledger_def ledger_open_def
      quarantine_unknown_def default_state_def ledger_consume_def mark_outcome_unknown_def ledger_steps)

theorem dispatch_durable_witness:
  "\<exists>d t. prepare_dispatch example_netd_host no_faults (\<lambda>_. True) 0 example_netd_frame (FB_Granted (example_granted 6 ''k'')) 5 5 example_server
      = (Inr d, t)
    \<and> (\<exists>op. consumed_of (disk_state (server_ledger t)) (hex (nd_nonce d)) = Some op \<and> go_phase op = GP_OutcomeUnknown)"
proof -
  let ?params = "\<lparr>gp_operation = ''overlay.inspect'', gp_fields = [(''overlay_id'', ''wg0'')], gp_fds = []\<rparr>"
  let ?receipt = "receipt_from_request (nh_sha example_netd_host) (nh_json example_netd_host) (nh_inode example_netd_host) (Inspect ''wg0'') 1 1 6"
  obtain s1 where c: "consume_grant example_netd_host no_faults (ge_grant (example_granted 6 ''k'')) GA_NetworkInspect ''u'' 1 ?params
      ?receipt 5 5 (example_server\<lparr>sv_policy := raised_policy 6\<rparr>) = (Inr (), s1)"
    using example_consumes by blast
  obtain t where p: "server_persist No_Fault (\<lambda>_. True) s1 = (True, t)"
    using example_consume [OF c] by (simp add: server_persist_def checked_add_def replace_file_def Let_def)
  have g: "ge_resource_uuid (example_granted 6 ''k'') = ''u''" "ge_resource_generation (example_granted 6 ''k'') = 1"
    by (simp_all add: example_granted_def)
  have "\<exists>d. prepare_dispatch example_netd_host no_faults (\<lambda>_. True) 0 example_netd_frame (FB_Granted (example_granted 6 ''k'')) 5 5 example_server
      = (Inr d, t)"
    using c p example_raise [of 6] example_parameters example_netd_frame_valid
    by (simp add: prepare_dispatch_def dispatch_granted_def Let_def g no_faults_def)
  then obtain d where d: "prepare_dispatch example_netd_host no_faults (\<lambda>_. True) 0 example_netd_frame (FB_Granted (example_granted 6 ''k'')) 5 5
      example_server = (Inr d, t)" ..
  have "ledger_ok (server_ledger example_server)" "om_wf (po_revisions (sv_policy example_server))" "sv_has_journal example_server"
    using fresh_ledger_ok by (simp_all add: server_ledger_def example_server_def om_wf_Cons)
  from dispatch_durable [OF d this] d show ?thesis by blast
qed

section \<open>What a refused request leaves\<close>

text \<open>C40.
  A refused grant erases the revision floor.  When the envelope of a request is accepted and its
  grant is then refused, the rollback removes the floor of the overlay instead of restoring the old
  one: an older envelope, which was stale before, is accepted afterwards.
\<close>

theorem refused_grant_erases_floor:
  assumes "om_wf (po_revisions (sv_policy s))" and "validate_frame uid frame s = Inr ()"
    and "validate_granted_handshake (ge_handshake g) s" and "env = ge_envelope g"
    and "policy_validate h env now (sv_policy s) = (Inr (), p)"
    and "request_parameters (nh_sha h) (nh_json h) (se_request env) = Inr (action, params)"
    and "\<not> request_is_quarantined (se_request env) s"
    and "fst (consume_grant h df (ge_grant g) action (ge_resource_uuid g) (ge_resource_generation g) params
        (receipt_from_request (nh_sha h) (nh_json h) (nh_inode h) (se_request env) (ge_resource_generation g) (se_epoch env) (se_revision env))
        now monotonic (s\<lparr>sv_policy := p\<rparr>)) = Inl code"
    and "request_overlay_id (se_request older) = request_overlay_id (se_request env)"
    and "policy_validate h older now (sv_policy s) = (Inl RJ_StaleRevision, sv_policy s)"
  shows "\<exists>t. prepare_dispatch h df fits uid frame (FB_Granted g) now monotonic s = (Inl code, t)
    \<and> fst (policy_validate h older now (sv_policy t)) = Inr ()"
proof -
  let ?scope = "request_overlay_id (se_request env)"
  note fl = policy_validate_raises [OF assms(5,1)]
  let ?r = "consume_grant h df (ge_grant g) action (ge_resource_uuid g) (ge_resource_generation g) params
        (receipt_from_request (nh_sha h) (nh_json h) (nh_inode h) (se_request env) (ge_resource_generation g) (se_epoch env) (se_revision env))
        now monotonic (s\<lparr>sv_policy := p\<rparr>)"
  obtain s1 where r: "?r = (Inl code, s1)" using assms(8) by (cases ?r) auto
  then have "sv_policy (snd ?r) = sv_policy s1" by simp
  then have s1: "sv_policy s1 = p" unfolding consume_grant_policy by simp
  let ?t = "rollback_envelope env s1"
  have run: "prepare_dispatch h df fits uid frame (FB_Granted g) now monotonic s = (Inl code, ?t)"
    using assms(2,3,5,6,7) r by (simp add: prepare_dispatch_def dispatch_granted_def assms(4) [symmetric] Let_def)
  have pol: "sv_policy ?t = policy_rollback ?scope (se_epoch env) (se_revision env) p"
    by (simp add: rollback_envelope_def on_policy_def s1)
  have none: "om_get (po_revisions (sv_policy ?t)) ?scope = None"
    unfolding pol using fl by (intro rollback_erases) auto
  have same: "(sv_policy ?t)\<lparr>po_revisions := []\<rparr> = (sv_policy s)\<lparr>po_revisions := []\<rparr>"
    unfolding pol using fl by (simp add: policy_rollback_def)
  have "fst (policy_validate h older now ((sv_policy s)\<lparr>po_revisions := []\<rparr>)) = Inr ()"
    using assms(10) policy_validate_floors [of h older now "sv_policy s"] policy_validate_no_floor [of h older now "sv_policy s"]
    by (auto split: if_splits)
  then have "fst (policy_validate h older now (sv_policy ?t)) = Inr ()"
    using policy_validate_floors [of h older now "sv_policy ?t"] none assms(9)
    by (simp add: same raise_floor_def stale_def)
  with run show ?thesis by blast
qed

text \<open>
  An envelope sent without a grant uses up its revision.  The helper answers that a grant is
  missing, but has already raised the floor; the same envelope with its grant is then refused as
  stale.
\<close>

theorem bare_envelope_burns_revision:
  assumes "om_wf (po_revisions (sv_policy s))" and "validate_frame uid frame s = Inr ()"
    and "fst (policy_validate h env now (sv_policy s)) = Inr ()"
    and "ge_envelope g = env" and "validate_granted_handshake (ge_handshake g) s"
    and "validate_frame uid frame' s = Inr ()" and "now < now'" and "now' < se_lease_expires env"
  shows "\<exists>t. prepare_dispatch h df fits uid frame (FB_Signed env) now monotonic s = (Inl RJ_MissingGrant, t)
    \<and> fst (prepare_dispatch h df fits uid frame' (FB_Granted g) now' monotonic' t) = Inl RJ_StaleRevision"
proof -
  obtain p where p: "policy_validate h env now (sv_policy s) = (Inr (), p)"
    using assms(3) by (cases "policy_validate h env now (sv_policy s)") auto
  note fl = policy_validate_raises [OF p assms(1)] and v = policy_validate_InrD [OF p]
  let ?t = "s\<lparr>sv_policy := p\<rparr>"
  have first: "prepare_dispatch h df fits uid frame (FB_Signed env) now monotonic s = (Inl RJ_MissingGrant, ?t)"
    using assms(2) p by (simp add: prepare_dispatch_def)
  have "policy_validate h env now' p = (Inl RJ_StaleRevision, p)"
    using v fl assms(8) by (simp add: policy_validate_def raise_floor_def stale_def)
  moreover have "validate_frame uid frame' ?t = Inr ()" "validate_granted_handshake (ge_handshake g) ?t"
    using assms(5,6) by (simp_all add: validate_frame_def validate_granted_handshake_def)
  ultimately have "fst (prepare_dispatch h df fits uid frame' (FB_Granted g) now' monotonic' ?t) = Inl RJ_StaleRevision"
    by (simp add: prepare_dispatch_def dispatch_granted_def assms(4) Let_def)
  with first show ?thesis by blast
qed

theorem refused_grant_erases_floor_witness:
  "\<exists>t. prepare_dispatch example_netd_host no_faults (\<lambda>_. True) 0 example_netd_frame (FB_Granted (example_granted 6 ''unknown'')) 5 5
       example_server = (Inl RJ_InvalidGrant, t)
    \<and> fst (policy_validate example_netd_host (example_envelope 2) 5 (sv_policy t)) = Inr ()
    \<and> fst (policy_validate example_netd_host (example_envelope 2) 5 (sv_policy example_server)) = Inl RJ_StaleRevision"
proof -
  let ?params = "\<lparr>gp_operation = ''overlay.inspect'', gp_fields = [(''overlay_id'', ''wg0'')], gp_fds = []\<rparr>"
  have old: "policy_validate example_netd_host (example_envelope 2) 5 (sv_policy example_server) = (Inl RJ_StaleRevision, sv_policy example_server)"
    unfolding example_policy by (simp add: raise_floor_def stale_def example_server_def om_get_def)
  have c: "fst (consume_grant example_netd_host no_faults (ge_grant (example_granted 6 ''unknown'')) GA_NetworkInspect ''u'' 1 ?params
      receipt 5 5 (example_server\<lparr>sv_policy := raised_policy 6\<rparr>)) = Inl RJ_InvalidGrant" for receipt
    unfolding consume_grant_def verify_and_consume_def example_netd_host_simps
    by (simp add: example_verify example_server_def om_get_def map_grant_error_def)
  have floors: "om_wf (po_revisions (sv_policy example_server))" by (simp add: example_server_def om_wf_Cons)
  have g: "ge_resource_uuid (example_granted 6 ''unknown'') = ''u''" "ge_resource_generation (example_granted 6 ''unknown'') = 1"
    by (simp_all add: example_granted_def)
  have "\<exists>t. prepare_dispatch example_netd_host no_faults (\<lambda>_. True) 0 example_netd_frame (FB_Granted (example_granted 6 ''unknown'')) 5 5
       example_server = (Inl RJ_InvalidGrant, t)
    \<and> fst (policy_validate example_netd_host (example_envelope 2) 5 (sv_policy t)) = Inr ()"
    by (rule refused_grant_erases_floor [where p = "raised_policy 6" and action = GA_NetworkInspect and params = ?params
          and env = "example_envelope 6"])
      (use old c g example_raise [of 6] example_parameters example_netd_frame_valid floors in simp_all)
  with old show ?thesis by auto
qed

theorem bare_envelope_burns_revision_witness:
  "\<exists>t. prepare_dispatch example_netd_host no_faults (\<lambda>_. True) 0 example_netd_frame (FB_Signed (example_envelope 6)) 5 5 example_server
       = (Inl RJ_MissingGrant, t)
    \<and> fst (prepare_dispatch example_netd_host no_faults (\<lambda>_. True) 0 example_netd_frame (FB_Granted (example_granted 6 ''k'')) 6 6 t)
       = Inl RJ_StaleRevision"
proof (rule bare_envelope_burns_revision)
  show "om_wf (po_revisions (sv_policy example_server))" by (simp add: example_server_def om_wf_Cons)
  show "fst (policy_validate example_netd_host (example_envelope 6) 5 (sv_policy example_server)) = Inr ()"
    using example_raise [of 6] by simp
qed (simp_all add: example_netd_frame_valid)

end
