(* ===== verification/Node_Executor.thy ===== *)
theory Node_Executor
  imports Ordered_Map Rust_Text
begin

text \<open>
  Mutations of a node and their executor (\<open>ferro-mgr/src/node/executor.rs\<close>).  A mutation is an
  intent signed by the controller; an executor verifies it and starts or stops an instance.

  \<^item> \<open>i64\<close> is a word with signed comparison; the differences of times wrap as in a release build.
  \<^item> Signing, verification and the JSON of an intent are arguments.
  \<^item> \<open>recording_executor\<close> is the in-memory executor of the source, the reference of the rules of
    idempotence; what a supervisor relies on of an executor is the locale \<open>workload_executor\<close>.
\<close>

section \<open>Intents and their authorization\<close>

type_synonym i64 = "64 word"

datatype mutation_action = MA_Start | MA_Stop

record mutation_intent =
  mi_node_id :: string
  mi_action :: mutation_action
  mi_instance_id :: string
  mi_service :: string
  mi_image :: string
  mi_target_revision :: u64
  mi_issued_unix :: i64

record mutation_authorization =
  ma_intent :: mutation_intent
  ma_signature :: bytes

datatype mutation_error = ME_InvalidSignature | ME_WrongNode | ME_Expired

definition max_mutation_age :: i64 where
  "max_mutation_age = 300"

text \<open>The cryptography and the encoding of intents.\<close>

record mutation_crypto =
  mc_json :: "mutation_intent \<Rightarrow> bytes"
  mc_sign :: "bytes \<Rightarrow> bytes"
  mc_verify :: "bytes \<Rightarrow> bytes \<Rightarrow> bool"

definition mutation_sign :: "mutation_crypto \<Rightarrow> mutation_intent \<Rightarrow> mutation_authorization" where
  "mutation_sign mc i = \<lparr>ma_intent = i, ma_signature = mc_sign mc (mc_json mc i)\<rparr>"

definition mutation_verify ::
  "mutation_crypto \<Rightarrow> string \<Rightarrow> i64 \<Rightarrow> mutation_authorization \<Rightarrow> mutation_error + unit" where
  "mutation_verify mc node_id now a =
     (let i = ma_intent a in
      if mi_node_id i \<noteq> node_id then Inl ME_WrongNode
      else if sint max_mutation_age < sint (now - mi_issued_unix i)
              \<or> sint (now + max_mutation_age) < sint (mi_issued_unix i) then Inl ME_Expired
      else if mc_verify mc (mc_json mc i) (ma_signature a) then Inr ()
      else Inl ME_InvalidSignature)"

section \<open>The recording executor\<close>

record instance_view =
  iv_instance_id :: string
  iv_service :: string
  iv_revision :: u64
  iv_image :: string
  iv_running :: bool
  iv_healthy :: bool
  iv_address :: "string option"
  iv_port :: u16

datatype executor_error = EX_Rejected string | EX_Failed string | EX_Inspect string

fun mutation_error_text :: "mutation_error \<Rightarrow> string" where
  "mutation_error_text ME_InvalidSignature = ''mutation signature is invalid''"
| "mutation_error_text ME_WrongNode = ''mutation is bound to another node''"
| "mutation_error_text ME_Expired = ''mutation has expired''"

fun executor_error_text :: "executor_error \<Rightarrow> string" where
  "executor_error_text (EX_Rejected d) = ''mutation rejected: '' @ d"
| "executor_error_text (EX_Failed d) = ''mutation failed: '' @ d"
| "executor_error_text (EX_Inspect d) = ''executor inspection failed: '' @ d"

datatype recorded_outcome = RC_Applied | RC_AlreadySatisfied | RC_Rejected

record recorded_mutation =
  rm_action :: mutation_action
  rm_instance_id :: string
  rm_outcome :: recorded_outcome

record recording_executor =
  re_node_id :: string
  re_instances :: "(string, instance_view) omap"
  re_log :: "recorded_mutation list"
  re_unhealthy :: "string list"
  re_fail_starts :: "string list"

text \<open>A call of an executor at a time, with the new state.\<close>

type_synonym ('x, 'a) exec_result = "(executor_error + 'a) \<times> 'x"

definition log_mutation :: "mutation_action \<Rightarrow> string \<Rightarrow> recorded_outcome \<Rightarrow> recording_executor \<Rightarrow> recording_executor" where
  "log_mutation a i r x = x\<lparr>re_log := re_log x @ [\<lparr>rm_action = a, rm_instance_id = i, rm_outcome = r\<rparr>]\<rparr>"

definition started_view :: "mutation_intent \<Rightarrow> bool \<Rightarrow> instance_view" where
  "started_view i healthy =
     \<lparr>iv_instance_id = mi_instance_id i, iv_service = mi_service i, iv_revision = mi_target_revision i,
      iv_image = mi_image i, iv_running = True, iv_healthy = healthy, iv_address = Some ''127.0.0.1'', iv_port = 8080\<rparr>"

definition recording_start ::
  "mutation_crypto \<Rightarrow> i64 \<Rightarrow> mutation_authorization \<Rightarrow> recording_executor \<Rightarrow> (recording_executor, unit) exec_result" where
  "recording_start mc now a x =
     (case mutation_verify mc (re_node_id x) now a of
        Inl e \<Rightarrow> (Inl (EX_Rejected (mutation_error_text e)), x)
      | Inr _ \<Rightarrow>
          let i = ma_intent a in
          if mi_action i \<noteq> MA_Start then (Inl (EX_Rejected ''authorization does not permit start''), x)
          else if mi_instance_id i \<in> set (re_fail_starts x)
          then (Inl (EX_Failed ''image failed to start''), log_mutation MA_Start (mi_instance_id i) RC_Rejected x)
          else
            let already = (case om_get (re_instances x) (mi_instance_id i) of None \<Rightarrow> False | Some v \<Rightarrow> iv_running v);
                healthy = (mi_instance_id i \<notin> set (re_unhealthy x))
            in (Inr (), log_mutation MA_Start (mi_instance_id i) (if already then RC_AlreadySatisfied else RC_Applied)
                  (x\<lparr>re_instances := om_insert (mi_instance_id i) (started_view i healthy) (re_instances x)\<rparr>)))"

definition recording_stop ::
  "mutation_crypto \<Rightarrow> i64 \<Rightarrow> mutation_authorization \<Rightarrow> recording_executor \<Rightarrow> (recording_executor, unit) exec_result" where
  "recording_stop mc now a x =
     (case mutation_verify mc (re_node_id x) now a of
        Inl e \<Rightarrow> (Inl (EX_Rejected (mutation_error_text e)), x)
      | Inr _ \<Rightarrow>
          let i = ma_intent a in
          if mi_action i \<noteq> MA_Stop then (Inl (EX_Rejected ''authorization does not permit stop''), x)
          else
            let absent = (om_get (re_instances x) (mi_instance_id i) = None)
            in (Inr (), log_mutation MA_Stop (mi_instance_id i) (if absent then RC_AlreadySatisfied else RC_Applied)
                  (x\<lparr>re_instances := om_remove (mi_instance_id i) (re_instances x)\<rparr>)))"

definition recording_list :: "recording_executor \<Rightarrow> (recording_executor, instance_view list) exec_result" where
  "recording_list x = (Inr (om_values (re_instances x)), x)"

definition set_unhealthy :: "string \<Rightarrow> recording_executor \<Rightarrow> recording_executor" where
  "set_unhealthy i x =
     x\<lparr>re_unhealthy := re_unhealthy x @ [i],
       re_instances := (case om_get (re_instances x) i of None \<Rightarrow> re_instances x
                        | Some v \<Rightarrow> om_insert i (v\<lparr>iv_healthy := False\<rparr>) (re_instances x))\<rparr>"

definition clear_unhealthy :: "string \<Rightarrow> recording_executor \<Rightarrow> recording_executor" where
  "clear_unhealthy i x =
     x\<lparr>re_unhealthy := filter (\<lambda>j. j \<noteq> i) (re_unhealthy x),
       re_instances := (case om_get (re_instances x) i of None \<Rightarrow> re_instances x
                        | Some v \<Rightarrow> om_insert i (v\<lparr>iv_healthy := True\<rparr>) (re_instances x))\<rparr>"

definition fail_starts_for :: "string \<Rightarrow> recording_executor \<Rightarrow> recording_executor" where
  "fail_starts_for i x = x\<lparr>re_fail_starts := re_fail_starts x @ [i]\<rparr>"

section \<open>The contract of an executor\<close>

text \<open>
  The trait \<open>WorkloadExecutor\<close>: the three operations as a record.  A caller may rely on this: finitely
  many instances are live; a listing shows each live instance once, under its own identifier; a successful start leaves the
  instance live as ordered and a successful stop leaves it absent, whether or not it was so before;
  nothing else changes, and a failed mutation changes nothing.
\<close>

record 'x executor_ops =
  eo_start :: "mutation_authorization \<Rightarrow> 'x \<Rightarrow> ('x, unit) exec_result"
  eo_stop :: "mutation_authorization \<Rightarrow> 'x \<Rightarrow> ('x, unit) exec_result"
  eo_list :: "'x \<Rightarrow> ('x, instance_view list) exec_result"

definition started_as :: "mutation_intent \<Rightarrow> instance_view \<Rightarrow> bool" where
  "started_as i v \<longleftrightarrow>
     iv_instance_id v = mi_instance_id i \<and> iv_service v = mi_service i \<and> iv_revision v = mi_target_revision i
     \<and> iv_image v = mi_image i \<and> iv_running v"

locale workload_executor =
  fixes ops :: "'x executor_ops" and ok :: "'x \<Rightarrow> bool" and live :: "'x \<Rightarrow> string \<rightharpoonup> instance_view"
  assumes live_finite: "ok x \<Longrightarrow> finite (dom (live x))"
    and live_id: "ok x \<Longrightarrow> live x i = Some v \<Longrightarrow> iv_instance_id v = i"
    and list_live: "ok x \<Longrightarrow> eo_list ops x = (Inr vs, y) \<Longrightarrow>
      ok y \<and> live y = live x \<and> distinct (map iv_instance_id vs) \<and> (\<forall>v. v \<in> set vs \<longleftrightarrow> live x (iv_instance_id v) = Some v)"
    and list_error: "ok x \<Longrightarrow> eo_list ops x = (Inl e, y) \<Longrightarrow> ok y \<and> live y = live x"
    and start_ok: "ok x \<Longrightarrow> eo_start ops a x = (Inr u, y) \<Longrightarrow>
      ok y \<and> (\<exists>v. started_as (ma_intent a) v \<and> live y = (live x)(mi_instance_id (ma_intent a) \<mapsto> v))"
    and start_error: "ok x \<Longrightarrow> eo_start ops a x = (Inl e, y) \<Longrightarrow> ok y \<and> live y = live x"
    and stop_ok: "ok x \<Longrightarrow> eo_stop ops a x = (Inr u, y) \<Longrightarrow>
      ok y \<and> live y = (live x)(mi_instance_id (ma_intent a) := None)"
    and stop_error: "ok x \<Longrightarrow> eo_stop ops a x = (Inl e, y) \<Longrightarrow> ok y \<and> live y = live x"
begin

lemma repeated_stop:
  assumes "ok x" and "eo_stop ops a x = (Inr u, y)" and "eo_stop ops a y = (Inr u', z)"
  shows "live z = live y"
  using stop_ok [OF assms(1,2)] stop_ok [OF _ assms(3)] by auto

lemma start_then_stop:
  assumes "ok x" and "live x (mi_instance_id (ma_intent a)) = None" and "eo_start ops a x = (Inr u, y)"
    and "eo_stop ops b y = (Inr u', z)" and "mi_instance_id (ma_intent b) = mi_instance_id (ma_intent a)"
  shows "live z = live x"
  using start_ok [OF assms(1,3)] stop_ok [OF _ assms(4)] assms(2,5) by (auto simp: fun_eq_iff)

end

definition recording_ops :: "mutation_crypto \<Rightarrow> i64 \<Rightarrow> recording_executor executor_ops" where
  "recording_ops mc now =
     \<lparr>eo_start = recording_start mc now, eo_stop = recording_stop mc now, eo_list = recording_list\<rparr>"

definition recording_ok :: "recording_executor \<Rightarrow> bool" where
  "recording_ok x \<longleftrightarrow> om_wf (re_instances x) \<and> (\<forall>i v. om_get (re_instances x) i = Some v \<longrightarrow> iv_instance_id v = i)"

lemma log_mutation_simps [simp]:
  "re_instances (log_mutation a i r x) = re_instances x" "re_unhealthy (log_mutation a i r x) = re_unhealthy x"
  "re_node_id (log_mutation a i r x) = re_node_id x" "re_fail_starts (log_mutation a i r x) = re_fail_starts x"
  by (simp_all add: log_mutation_def)

lemma started_view_as [simp]: "started_as i (started_view i h)"
  by (simp add: started_as_def started_view_def)

lemma recording_list_values:
  assumes "recording_ok x"
  shows "v \<in> set (om_values (re_instances x)) \<longleftrightarrow> om_get (re_instances x) (iv_instance_id v) = Some v"
proof -
  have wf: "om_wf (re_instances x)" and own: "om_get (re_instances x) i = Some v \<Longrightarrow> iv_instance_id v = i" for i
    using assms unfolding recording_ok_def by blast+
  have "v \<in> set (om_values (re_instances x)) \<longleftrightarrow> (\<exists>i. om_get (re_instances x) i = Some v)"
    unfolding om_get_in [OF wf] by (force simp: om_values_def)
  then show ?thesis using own by blast
qed

lemma om_finite: "finite (dom (om_get m))"
  by (simp add: om_get_def finite_dom_map_of)

lemma recording_list_distinct:
  assumes "recording_ok x"
  shows "distinct (map iv_instance_id (om_values (re_instances x)))"
proof -
  have wf: "om_wf (re_instances x)" and own: "om_get (re_instances x) i = Some v \<Longrightarrow> iv_instance_id v = i" for i v
    using assms unfolding recording_ok_def by blast+
  have "map iv_instance_id (om_values (re_instances x)) = map fst (re_instances x)"
    using own unfolding om_get_in [OF wf] om_values_def by auto
  with om_wf_distinct [OF wf] show ?thesis by simp
qed

interpretation recording: workload_executor "recording_ops mc now" recording_ok "\<lambda>x. om_get (re_instances x)"
proof
  fix x y :: recording_executor and a u e
  assume ok: "recording_ok x"
  show "recording_ok y \<and> (\<exists>v. started_as (ma_intent a) v
      \<and> om_get (re_instances y) = (om_get (re_instances x))(mi_instance_id (ma_intent a) \<mapsto> v))"
    if "eo_start (recording_ops mc now) a x = (Inr u, y)"
  proof -
    from that obtain h r where y: "y = log_mutation MA_Start (mi_instance_id (ma_intent a)) r
        (x\<lparr>re_instances := om_insert (mi_instance_id (ma_intent a)) (started_view (ma_intent a) h) (re_instances x)\<rparr>)"
      by (auto simp: recording_ops_def recording_start_def Let_def split: sum.splits if_splits)
    then show ?thesis using ok started_view_as [of "ma_intent a" h]
      by (auto simp: recording_ok_def started_as_def)
  qed
  show "recording_ok y \<and> om_get (re_instances y) = om_get (re_instances x)"
    if "eo_start (recording_ops mc now) a x = (Inl e, y)"
    using that ok by (auto simp: recording_ops_def recording_start_def recording_ok_def Let_def split: sum.splits if_splits)
  show "recording_ok y \<and> om_get (re_instances y) = (om_get (re_instances x))(mi_instance_id (ma_intent a) := None)"
    if "eo_stop (recording_ops mc now) a x = (Inr u, y)"
    using that ok by (auto simp: recording_ops_def recording_stop_def recording_ok_def Let_def split: sum.splits if_splits)
  show "recording_ok y \<and> om_get (re_instances y) = om_get (re_instances x)"
    if "eo_stop (recording_ops mc now) a x = (Inl e, y)"
    using that ok by (auto simp: recording_ops_def recording_stop_def recording_ok_def Let_def split: sum.splits if_splits)
qed (auto simp: om_finite recording_ops_def recording_list_def recording_list_values recording_list_distinct, auto simp: recording_ok_def)

end
