(* ===== verification/Node_Journal.thy ===== *)
theory Node_Journal
  imports Node_Executor
begin

text \<open>
  The write-ahead journal of a node (\<open>ferro-mgr/src/node/journal.rs\<close>): one JSON line per intent and
  per outcome.  The file is its bytes; the JSON of an entry is an argument, of which the theorems use
  that it decodes again and holds no line feed.  An append may fail before it writes, after a part
  of the line, or after the whole line.
\<close>

section \<open>Entries\<close>

record intent_record =
  ir_seq :: u64
  ir_action :: mutation_action
  ir_instance_id :: string
  ir_service :: string
  ir_target_revision :: u64
  ir_recorded_unix :: i64

record node_outcome_record =
  or_seq :: u64
  or_ok :: bool
  or_detail :: string
  or_recorded_unix :: i64

datatype node_entry = NE_Intent intent_record | NE_Outcome node_outcome_record

datatype node_journal_error = NJ_Io | NJ_Invalid | NJ_Oversized

record entry_codec =
  ec_json :: "node_entry \<Rightarrow> bytes"
  ec_unjson :: "bytes \<Rightarrow> node_entry option"

record node_file =
  nf_regular :: bool
  nf_bytes :: bytes

definition max_journal_bytes :: nat where
  "max_journal_bytes = 4 * 1024 * 1024"

definition max_journal_entries :: nat where
  "max_journal_entries = 65536"

section \<open>Loading\<close>

fun split_lines :: "bytes \<Rightarrow> bytes list" where
  "split_lines [] = [[]]"
| "split_lines (b # bs) =
     (if b = 10 then [] # split_lines bs
      else case split_lines bs of [] \<Rightarrow> [[b]] | l # ls \<Rightarrow> (b # l) # ls)"

fun parse_lines :: "entry_codec \<Rightarrow> bytes list \<Rightarrow> node_journal_error + node_entry list" where
  "parse_lines ec [] = Inr []"
| "parse_lines ec (l # ls) =
     (if l = [] then parse_lines ec ls
      else case ec_unjson ec l of
             None \<Rightarrow> Inl NJ_Invalid
           | Some e \<Rightarrow> rbind (parse_lines ec ls) (\<lambda>es. Inr (e # es)))"

fun check_entries :: "u64 \<Rightarrow> u64 set \<Rightarrow> node_entry list \<Rightarrow> node_journal_error + unit" where
  "check_entries high seen [] = Inr ()"
| "check_entries high seen (NE_Intent r # es) =
     (if trim_is_empty (ir_instance_id r) \<or> trim_is_empty (ir_service r) then Inl NJ_Invalid
      else if ir_seq r \<le> high \<or> ir_seq r \<in> seen then Inl NJ_Invalid
      else check_entries (ir_seq r) (insert (ir_seq r) seen) es)"
| "check_entries high seen (NE_Outcome r # es) =
     (if or_seq r \<notin> seen then Inl NJ_Invalid else check_entries high seen es)"

definition node_journal_load :: "entry_codec \<Rightarrow> node_file option \<Rightarrow> node_journal_error + node_entry list" where
  "node_journal_load ec file =
     (case file of
        None \<Rightarrow> Inr []
      | Some f \<Rightarrow>
          if \<not> nf_regular f then Inl NJ_Invalid
          else if max_journal_bytes < length (nf_bytes f) then Inl NJ_Oversized
          else
            rbind (parse_lines ec (split_lines (nf_bytes f))) (\<lambda>es.
            if max_journal_entries < length es then Inl NJ_Oversized
            else rbind (check_entries 0 {} es) (\<lambda>_. Inr es)))"

fun entry_seq :: "node_entry \<Rightarrow> u64" where
  "entry_seq (NE_Intent r) = ir_seq r"
| "entry_seq (NE_Outcome r) = or_seq r"

fun closed_seqs :: "node_entry list \<Rightarrow> u64 set" where
  "closed_seqs [] = {}"
| "closed_seqs (NE_Intent r # es) = closed_seqs es"
| "closed_seqs (NE_Outcome r # es) = insert (or_seq r) (closed_seqs es)"

fun intents_of :: "node_entry list \<Rightarrow> intent_record list" where
  "intents_of [] = []"
| "intents_of (NE_Intent r # es) = r # intents_of es"
| "intents_of (NE_Outcome r # es) = intents_of es"

definition ambiguous :: "node_entry list \<Rightarrow> intent_record list" where
  "ambiguous es = filter (\<lambda>r. ir_seq r \<notin> closed_seqs es) (intents_of es)"

section \<open>Appending\<close>

datatype append_fault = AF_None | AF_Before | AF_Torn nat | AF_Unsynced

definition node_journal_append ::
  "entry_codec \<Rightarrow> append_fault \<Rightarrow> node_entry \<Rightarrow> node_file option \<Rightarrow> (node_journal_error + unit) \<times> node_file option" where
  "node_journal_append ec fault e file =
     (let line = ec_json ec e @ [10];
          put = (\<lambda>old. case fault of
              AF_None \<Rightarrow> (Inr (), Some \<lparr>nf_regular = True, nf_bytes = old @ line\<rparr>)
            | AF_Before \<Rightarrow> (Inl NJ_Io, file)
            | AF_Torn n \<Rightarrow> (Inl NJ_Io, Some \<lparr>nf_regular = True, nf_bytes = old @ take n line\<rparr>)
            | AF_Unsynced \<Rightarrow> (Inl NJ_Io, Some \<lparr>nf_regular = True, nf_bytes = old @ line\<rparr>))
      in case file of
           Some f \<Rightarrow>
             if \<not> nf_regular f then (Inl NJ_Io, file)
             else if max_journal_bytes < length (nf_bytes f) + length line then (Inl NJ_Oversized, file)
             else put (nf_bytes f)
         | None \<Rightarrow> put [])"

definition append_intent ::
  "entry_codec \<Rightarrow> append_fault \<Rightarrow> mutation_action \<Rightarrow> string \<Rightarrow> string \<Rightarrow> u64 \<Rightarrow> i64 \<Rightarrow> node_file option
   \<Rightarrow> (node_journal_error + u64) \<times> node_file option" where
  "append_intent ec fault action instance service revision now file =
     (case node_journal_load ec file of
        Inl e \<Rightarrow> (Inl e, file)
      | Inr es \<Rightarrow>
          let seq = (if es = [] then 0 else entry_seq (last es)) + 1 in
          (case node_journal_append ec fault (NE_Intent \<lparr>ir_seq = seq, ir_action = action,
                  ir_instance_id = instance, ir_service = service, ir_target_revision = revision,
                  ir_recorded_unix = now\<rparr>) file of
             (Inl e, f) \<Rightarrow> (Inl e, f)
           | (Inr _, f) \<Rightarrow> (Inr seq, f)))"

definition append_outcome ::
  "entry_codec \<Rightarrow> append_fault \<Rightarrow> u64 \<Rightarrow> bool \<Rightarrow> string \<Rightarrow> i64 \<Rightarrow> node_file option
   \<Rightarrow> (node_journal_error + unit) \<times> node_file option" where
  "append_outcome ec fault seq ok detail now file =
     node_journal_append ec fault (NE_Outcome \<lparr>or_seq = seq, or_ok = ok, or_detail = detail, or_recorded_unix = now\<rparr>) file"

text \<open>Closing the intents without outcome, as the recovery of the supervisor does.\<close>

fun close_intents ::
  "entry_codec \<Rightarrow> append_fault list \<Rightarrow> (intent_record \<Rightarrow> bool \<times> string) \<Rightarrow> i64 \<Rightarrow> intent_record list \<Rightarrow> node_file option
   \<Rightarrow> (node_journal_error + unit) \<times> node_file option" where
  "close_intents ec faults judge now [] file = (Inr (), file)"
| "close_intents ec faults judge now (r # rs) file =
     (case append_outcome ec (if faults = [] then AF_None else hd faults) (ir_seq r) (fst (judge r)) (snd (judge r)) now file of
        (Inl e, f) \<Rightarrow> (Inl e, f)
      | (Inr _, f) \<Rightarrow> close_intents ec (tl faults) judge now rs f)"

section \<open>Lines\<close>

definition codec_ok :: "entry_codec \<Rightarrow> bool" where
  "codec_ok ec \<longleftrightarrow> (\<forall>e. ec_unjson ec (ec_json ec e) = Some e \<and> 10 \<notin> set (ec_json ec e) \<and> ec_json ec e \<noteq> [])"

lemma split_lines_Nil [simp]: "split_lines bs \<noteq> []"
  by (cases bs) (auto split: list.splits)

lemma split_lines_append: "split_lines (xs @ 10 # ys) = split_lines xs @ split_lines ys"
  by (induction xs) (auto split: list.splits)

lemma split_lines_plain: "10 \<notin> set xs \<Longrightarrow> split_lines xs = [xs]"
  by (induction xs) auto

lemma parse_lines_append:
  "parse_lines ec (ls @ ms) = rbind (parse_lines ec ls) (\<lambda>es. rbind (parse_lines ec ms) (\<lambda>fs. Inr (es @ fs)))"
  by (induction ls) (auto simp: rbind_def split: option.splits sum.splits)

lemma parse_line: "codec_ok ec \<Longrightarrow> parse_lines ec [ec_json ec e, []] = Inr [e]"
  by (simp add: codec_ok_def)

text \<open>A file that holds these entries and ends at the end of a line.\<close>

definition file_holds :: "entry_codec \<Rightarrow> node_file option \<Rightarrow> node_entry list \<Rightarrow> bool" where
  "file_holds ec file es \<longleftrightarrow>
     (case file of
        None \<Rightarrow> es = []
      | Some f \<Rightarrow> nf_regular f \<and> length (nf_bytes f) \<le> max_journal_bytes
          \<and> (nf_bytes f = [] \<or> last (nf_bytes f) = 10) \<and> parse_lines ec (split_lines (nf_bytes f)) = Inr es)"

lemma parse_whole_line:
  assumes "codec_ok ec" and "bs = [] \<or> last bs = 10" and "parse_lines ec (split_lines bs) = Inr es"
  shows "parse_lines ec (split_lines (bs @ ec_json ec e @ [10])) = Inr (es @ [e])"
proof -
  have n: "10 \<notin> set (ec_json ec e)" using assms(1) by (simp add: codec_ok_def)
  have line: "split_lines (ec_json ec e @ [10]) = [ec_json ec e, []]"
    using n by (simp add: split_lines_append split_lines_plain)
  from assms(2) show ?thesis
  proof
    assume "bs = []"
    with assms(3) show ?thesis using line parse_line [OF assms(1)] by auto
  next
    assume l: "last bs = 10"
    show ?thesis
    proof (cases "bs = []")
      case True
      with assms(3) show ?thesis using line parse_line [OF assms(1)] by auto
    next
      case False
      with l obtain cs where bs: "bs = cs @ [10]" by (metis append_butlast_last_id)
      then have "parse_lines ec (split_lines cs) = Inr es"
        using assms(3) by (auto simp: split_lines_append parse_lines_append rbind_simps)
      then show ?thesis
        using bs line parse_line [OF assms(1), of e] split_lines_append [of cs "ec_json ec e @ [10]"]
        by (simp add: parse_lines_append)
    qed
  qed
qed

lemma append_holds:
  assumes "codec_ok ec" and "file_holds ec file es" and "node_journal_append ec fault e file = (Inr u, g)"
  shows "file_holds ec g (es @ [e]) \<or> (file = None \<and> max_journal_bytes < length (ec_json ec e) + 1)"
proof (cases "file")
  case None
  then have g: "g = Some \<lparr>nf_regular = True, nf_bytes = ec_json ec e @ [10]\<rparr>" and "es = []"
    using assms(2,3) by (auto simp: node_journal_append_def file_holds_def Let_def split: append_fault.splits)
  then show ?thesis using None parse_whole_line [OF assms(1), of "[]" "[]" e] by (auto simp: file_holds_def)
next
  case (Some f)
  then have g: "g = Some \<lparr>nf_regular = True, nf_bytes = nf_bytes f @ ec_json ec e @ [10]\<rparr>"
    and room: "length (nf_bytes f) + length (ec_json ec e) + 1 \<le> max_journal_bytes"
    using assms(2,3) by (auto simp: node_journal_append_def file_holds_def Let_def split: append_fault.splits if_splits)
  then show ?thesis using Some assms(2) parse_whole_line [OF assms(1), of "nf_bytes f" es e]
    by (auto simp: file_holds_def)
qed

section \<open>Sequence numbers\<close>

definition top_seq :: "u64 \<Rightarrow> node_entry list \<Rightarrow> u64" where
  "top_seq high es = (if intents_of es = [] then high else ir_seq (last (intents_of es)))"

lemma intents_of_append [simp]: "intents_of (es @ fs) = intents_of es @ intents_of fs"
  by (induction es rule: intents_of.induct) auto

lemma closed_seqs_append [simp]: "closed_seqs (es @ fs) = closed_seqs es \<union> closed_seqs fs"
  by (induction es rule: closed_seqs.induct) auto

lemma check_entries_append:
  "check_entries high seen (es @ fs) =
   rbind (check_entries high seen es) (\<lambda>_. check_entries (top_seq high es) (seen \<union> ir_seq ` set (intents_of es)) fs)"
  by (induction high seen es rule: check_entries.induct) (auto simp: top_seq_def)

text \<open>
  The numbering that appending produces: the intents are numbered from one, and every outcome names an
  intent before it.  \<open>settled\<close>: the last entry belongs to the last intent.
\<close>

definition numbered :: "node_entry list \<Rightarrow> bool" where
  "numbered es \<longleftrightarrow> check_entries 0 {} es = Inr () \<and> map (unat \<circ> ir_seq) (intents_of es) = [1..<Suc (length (intents_of es))]"

definition settled :: "node_entry list \<Rightarrow> bool" where
  "settled es \<longleftrightarrow> es = [] \<or> entry_seq (last es) = top_seq 0 es"

lemma numbered_top:
  assumes "numbered es" shows "unat (top_seq 0 es) = length (intents_of es)"
proof (cases "intents_of es" rule: rev_cases)
  case Nil
  then show ?thesis by (simp add: top_seq_def)
next
  case (snoc rs r)
  with assms have "map (unat \<circ> ir_seq) (rs @ [r]) = [1..<Suc (length (rs @ [r]))]" by (simp add: numbered_def)
  then have "unat (ir_seq r) = Suc (length rs)" by (simp add: upt_Suc_append)
  with snoc show ?thesis by (simp add: top_seq_def)
qed

lemma numbered_seqs: "numbered es \<Longrightarrow> r \<in> set (intents_of es) \<Longrightarrow> unat (ir_seq r) \<le> length (intents_of es) \<and> 0 < unat (ir_seq r)"
proof -
  assume n: "numbered es" and r: "r \<in> set (intents_of es)"
  then have "unat (ir_seq r) \<in> set (map (unat \<circ> ir_seq) (intents_of es))" by auto
  with n show ?thesis unfolding numbered_def by (auto simp del: upt_Suc)
qed

lemma numbered_intent:
  assumes "numbered es" and "length (intents_of es) < 2 ^ 64 - 1"
    and "ir_seq r = top_seq 0 es + 1" and "\<not> trim_is_empty (ir_instance_id r)" and "\<not> trim_is_empty (ir_service r)"
  shows "numbered (es @ [NE_Intent r])"
proof -
  have u: "unat (ir_seq r) = Suc (length (intents_of es))"
    using assms(2,3) numbered_top [OF assms(1)] by (simp add: unat_word_ariths)
  have "\<not> ir_seq r \<le> top_seq 0 es" using u numbered_top [OF assms(1)] by (simp add: word_le_nat_alt)
  moreover have "ir_seq r \<notin> ir_seq ` set (intents_of es)" using u numbered_seqs [OF assms(1)] by fastforce
  ultimately have "check_entries 0 {} (es @ [NE_Intent r]) = Inr ()"
    using assms(1,4,5) by (simp add: check_entries_append numbered_def)
  moreover have "map (unat \<circ> ir_seq) (intents_of (es @ [NE_Intent r])) = [1..<Suc (length (intents_of (es @ [NE_Intent r])))]"
    using assms(1) u by (simp add: numbered_def upt_Suc_append)
  ultimately show ?thesis by (simp add: numbered_def)
qed

lemma numbered_outcome:
  assumes "numbered es" and "or_seq r \<in> ir_seq ` set (intents_of es)"
  shows "numbered (es @ [NE_Outcome r])"
  using assms by (simp add: numbered_def check_entries_append)

lemma top_seq_outcome [simp]: "top_seq h (es @ [NE_Outcome r]) = top_seq h es"
  by (simp add: top_seq_def)

lemma top_seq_intent [simp]: "top_seq h (es @ [NE_Intent r]) = ir_seq r"
  by (simp add: top_seq_def)

lemma ambiguous_intent:
  assumes "numbered es" and "unat (ir_seq r) = Suc (length (intents_of es))"
  shows "ambiguous (es @ [NE_Intent r]) = ambiguous es @ [r]"
proof -
  have "closed_seqs es \<subseteq> ir_seq ` set (intents_of es)"
  proof -
    have "check_entries h S fs = Inr () \<Longrightarrow> closed_seqs fs \<subseteq> S \<union> ir_seq ` set (intents_of fs)" for h S fs
      by (induction h S fs rule: check_entries.induct) (auto split: if_splits)
    from this [of 0 "{}" es] assms(1) show ?thesis by (simp add: numbered_def)
  qed
  then have "ir_seq r \<notin> closed_seqs es" using assms numbered_seqs [OF assms(1)] by fastforce
  then show ?thesis by (simp add: ambiguous_def)
qed

lemma ambiguous_outcome:
  "ambiguous (es @ [NE_Outcome r]) = filter (\<lambda>i. ir_seq i \<noteq> or_seq r) (ambiguous es)"
  by (auto simp: ambiguous_def intro!: filter_cong)

section \<open>The file between the steps\<close>

definition journal_size :: "node_file option \<Rightarrow> nat" where
  "journal_size f = (case f of None \<Rightarrow> 0 | Some g \<Rightarrow> length (nf_bytes g))"

lemma append_grows: "node_journal_append ec fault e f = (r, g) \<Longrightarrow> journal_size f \<le> journal_size g"
  by (auto simp: node_journal_append_def journal_size_def Let_def split: option.splits append_fault.splits if_splits)

lemma append_intent_grows: "append_intent ec fault a i s r t f = (q, g) \<Longrightarrow> journal_size f \<le> journal_size g"
  by (auto simp: append_intent_def Let_def dest: append_grows split: sum.splits prod.splits)

lemma append_outcome_grows: "append_outcome ec fault q ok d t f = (r, g) \<Longrightarrow> journal_size f \<le> journal_size g"
  by (auto simp: append_outcome_def dest: append_grows)

lemma close_intents_grows: "close_intents ec faults judge t rs f = (r, g) \<Longrightarrow> journal_size f \<le> journal_size g"
proof (induction rs arbitrary: faults f)
  case (Cons i rs)
  then show ?case by (force dest: append_outcome_grows split: prod.splits sum.splits)
qed simp

lemma append_refused: "node_journal_append ec AF_None e f = (Inl err, g) \<Longrightarrow> g = f"
  by (auto simp: node_journal_append_def Let_def split: option.splits if_splits)

lemma append_intent_refused: "append_intent ec AF_None a i s r t f = (Inl err, g) \<Longrightarrow> g = f"
  by (auto simp: append_intent_def Let_def dest: append_refused split: sum.splits prod.splits)

definition journal_state :: "entry_codec \<Rightarrow> node_file option \<Rightarrow> node_entry list \<Rightarrow> bool" where
  "journal_state ec f es \<longleftrightarrow> file_holds ec f es \<and> numbered es \<and> settled es"

lemma load_holds:
  "file_holds ec f es \<Longrightarrow> numbered es \<Longrightarrow>
   node_journal_load ec f = (if max_journal_entries < length es then Inl NJ_Oversized else Inr es)"
  by (auto simp: file_holds_def node_journal_load_def numbered_def split: option.splits)

lemma length_intents_of: "length (intents_of es) \<le> length es"
  by (induction es rule: intents_of.induct) auto

lemma append_small:
  assumes "codec_ok ec" and "file_holds ec f es" and "node_journal_append ec AF_None e f = (Inr u, g)" and "journal_size g \<le> max_journal_bytes"
  shows "file_holds ec g (es @ [e])"
proof -
  have "\<not> (f = None \<and> max_journal_bytes < length (ec_json ec e) + 1)"
    using assms(3,4) by (auto simp: node_journal_append_def journal_size_def Let_def)
  with append_holds [OF assms(1-3)] show ?thesis by blast
qed

lemma intent_step:
  assumes "codec_ok ec" and "journal_state ec f es" and "append_intent ec AF_None a i s r t f = (Inr seq, g)"
    and "journal_size g \<le> max_journal_bytes" and "\<not> trim_is_empty i" and "\<not> trim_is_empty s"
  shows "\<exists>ir. ir_seq ir = seq \<and> journal_state ec g (es @ [NE_Intent ir]) \<and> ambiguous (es @ [NE_Intent ir]) = ambiguous es @ [ir]"
proof -
  have st: "file_holds ec f es" "numbered es" "settled es" using assms(2) by (simp_all add: journal_state_def)
  let ?ir = "\<lambda>q. \<lparr>ir_seq = q, ir_action = a, ir_instance_id = i, ir_service = s, ir_target_revision = r, ir_recorded_unix = t\<rparr>"
  have seq: "(if es = [] then 0 else entry_seq (last es)) = top_seq 0 es"
    using st(3) by (auto simp: settled_def top_seq_def)
  note w = assms(3-)
  from w(1) load_holds [OF st(1,2)] have l: "length es \<le> max_journal_entries"
    by (auto simp: append_intent_def split: if_splits)
  with w(1) load_holds [OF st(1,2)] seq have ap: "seq = top_seq 0 es + 1"
    "node_journal_append ec AF_None (NE_Intent (?ir seq)) f = (Inr (), g)"
    by (auto simp: append_intent_def Let_def split: prod.splits sum.splits)
  have "length (intents_of es) < 2 ^ 64 - 1"
    using l length_intents_of [of es] by (simp add: max_journal_entries_def)
  then have n: "numbered (es @ [NE_Intent (?ir seq)])" and u: "unat seq = Suc (length (intents_of es))"
    using ap(1) w(3,4) numbered_top [OF st(2)] by (auto intro!: numbered_intent [OF st(2)] simp: unat_word_ariths)
  have "file_holds ec g (es @ [NE_Intent (?ir seq)])" by (rule append_small [OF assms(1) st(1) ap(2) w(2)])
  with n have "journal_state ec g (es @ [NE_Intent (?ir seq)])" by (simp add: journal_state_def settled_def)
  with ambiguous_intent [OF st(2), of "?ir seq"] u show ?thesis by (intro exI [of _ "?ir seq"]) simp
qed

lemma outcome_step:
  assumes "codec_ok ec" and "journal_state ec f es" and "es \<noteq> []" and "seq = top_seq 0 es"
    and "append_outcome ec AF_None seq ok d t f = (Inr (), g)"
  shows "journal_state ec g (es @ [NE_Outcome \<lparr>or_seq = seq, or_ok = ok, or_detail = d, or_recorded_unix = t\<rparr>])"
proof -
  have st: "file_holds ec f es" "numbered es" "settled es" using assms(2) by (simp_all add: journal_state_def)
  let ?r = "\<lparr>or_seq = seq, or_ok = ok, or_detail = d, or_recorded_unix = t\<rparr>"
  have "f \<noteq> None" using st(1) assms(3) by (auto simp: file_holds_def split: option.splits)
  then have h: "file_holds ec g (es @ [NE_Outcome ?r])"
    using append_holds [OF assms(1) st(1), of AF_None _ "()" g] assms(5) by (auto simp: append_outcome_def)
  have "intents_of es \<noteq> []"
  proof
    assume "intents_of es = []"
    moreover from assms(3) obtain e fs where "es = e # fs" by (cases es) auto
    ultimately show False using st(2) by (cases e) (auto simp: numbered_def)
  qed
  then have "seq \<in> ir_seq ` set (intents_of es)" by (simp add: assms(4) top_seq_def)
  then have "numbered (es @ [NE_Outcome ?r])" using st(2) by (simp add: numbered_outcome)
  with h assms(4) show ?thesis by (simp add: journal_state_def settled_def)
qed

text \<open>
  The journal between two mutations is closed: every intent has its outcome.  Inside a mutation its
  intent is open, the last entry and the only intent without outcome.  \<open>journal_room\<close>: there is room for one more
  outcome with a detail of usual length.
\<close>

definition journal_closed :: "entry_codec \<Rightarrow> node_file option \<Rightarrow> bool" where
  "journal_closed ec f \<longleftrightarrow> (\<exists>es. journal_state ec f es \<and> ambiguous es = [])"

definition journal_open :: "entry_codec \<Rightarrow> u64 \<Rightarrow> node_file option \<Rightarrow> bool" where
  "journal_open ec seq f \<longleftrightarrow> (\<exists>es r. journal_state ec f (es @ [NE_Intent r]) \<and> ambiguous (es @ [NE_Intent r]) = [r] \<and> ir_seq r = seq)"

definition usual_detail :: nat where
  "usual_detail = 64"

definition journal_room :: "entry_codec \<Rightarrow> node_file option \<Rightarrow> bool" where
  "journal_room ec f \<longleftrightarrow>
     (\<forall>r. length (or_detail r) \<le> usual_detail \<longrightarrow> journal_size f + length (ec_json ec (NE_Outcome r)) < max_journal_bytes)"

lemma journal_room_mono: "journal_room ec g \<Longrightarrow> journal_size f \<le> journal_size g \<Longrightarrow> journal_room ec f"
  unfolding journal_room_def by (meson add_le_mono1 le_less_trans)

lemma journal_room_size: "journal_room ec f \<Longrightarrow> journal_size f \<le> max_journal_bytes"
  unfolding journal_room_def
  by (metis (no_types, lifting) add_lessD1 le0 less_imp_le list.size(3) node_outcome_record.select_convs(3))

lemma journal_closed_None: "journal_closed ec None"
  by (auto simp: journal_closed_def journal_state_def file_holds_def numbered_def settled_def ambiguous_def intro!: exI [of _ "[]"])

lemma intent_opens:
  assumes "codec_ok ec" and "journal_closed ec f" and "append_intent ec AF_None a i s r t f = (Inr seq, g)"
    and "journal_room ec g" and "\<not> trim_is_empty i" and "\<not> trim_is_empty s"
  shows "journal_open ec seq g"
proof -
  from assms(2) obtain es where es: "journal_state ec f es" "ambiguous es = []" by (auto simp: journal_closed_def)
  from intent_step [OF assms(1) es(1) assms(3) journal_room_size [OF assms(4)] assms(5,6)] es(2) show ?thesis
    by (auto simp: journal_open_def)
qed

lemma outcome_fits:
  assumes "journal_open ec seq f" and "journal_room ec f" and "length d \<le> usual_detail"
  shows "\<exists>g. append_outcome ec AF_None seq ok d t f = (Inr (), g)"
proof -
  let ?r = "\<lparr>or_seq = seq, or_ok = ok, or_detail = d, or_recorded_unix = t\<rparr>"
  obtain es r where "file_holds ec f (es @ [NE_Intent r])"
    using assms(1) by (auto simp: journal_open_def journal_state_def)
  then obtain b where b: "f = Some b" "nf_regular b" by (auto simp: file_holds_def split: option.splits)
  have "length (nf_bytes b) + length (ec_json ec (NE_Outcome ?r)) < max_journal_bytes"
    using assms(2,3) b(1) by (simp add: journal_room_def journal_size_def)
  with b show ?thesis by (simp add: append_outcome_def node_journal_append_def Let_def)
qed

lemma outcome_ends:
  assumes "codec_ok ec" and "journal_state ec f (es @ [NE_Intent r])" and "ambiguous (es @ [NE_Intent r]) = [r]"
    and "append_outcome ec AF_None (ir_seq r) ok d t f = (Inr (), g)"
    and "fs = (es @ [NE_Intent r]) @ [NE_Outcome \<lparr>or_seq = ir_seq r, or_ok = ok, or_detail = d, or_recorded_unix = t\<rparr>]"
  shows "journal_state ec g fs \<and> ambiguous fs = []"
  using outcome_step [OF assms(1,2) _ _ assms(4)] unfolding assms(5) ambiguous_outcome assms(3) by simp

lemma outcome_closes:
  assumes "codec_ok ec" and "journal_open ec seq f" and "append_outcome ec AF_None seq ok d t f = (Inr (), g)"
  shows "journal_closed ec g"
proof -
  obtain es r where o: "journal_state ec f (es @ [NE_Intent r])" "ambiguous (es @ [NE_Intent r]) = [r]" "ir_seq r = seq"
    using assms(2) by (auto simp: journal_open_def)
  from outcome_ends [OF assms(1) o(1,2) assms(3) [folded o(3)] refl] show ?thesis unfolding journal_closed_def by blast
qed

section \<open>Properties\<close>

text \<open>
  A late outcome ruins the journal.  When the last entry is the outcome of an intent that is not the
  last one, the next intent gets a number that is already taken: it is written, and from then on the
  journal does not load and no intent can be appended.
\<close>

theorem late_outcome_ruins_journal:
  assumes "codec_ok ec" and "file_holds ec f es" and "node_journal_load ec f = Inr es"
    and "es \<noteq> []" and "entry_seq (last es) < top_seq 0 es"
    and "append_intent ec AF_None a i s r t f = (Inr seq, g)"
  shows "\<exists>e. e \<in> {NJ_Invalid, NJ_Oversized} \<and> node_journal_load ec g = Inl e
    \<and> (\<forall>fault a' i' s' r' t'. append_intent ec fault a' i' s' r' t' g = (Inl e, g))"
proof -
  let ?ir = "\<lparr>ir_seq = seq, ir_action = a, ir_instance_id = i, ir_service = s, ir_target_revision = r, ir_recorded_unix = t\<rparr>"
  have ap: "seq = entry_seq (last es) + 1" "node_journal_append ec AF_None (NE_Intent ?ir) f = (Inr (), g)"
    using assms(3,4,6) by (auto simp: append_intent_def Let_def split: prod.splits sum.splits)
  have "f \<noteq> None" using assms(2,4) by (auto simp: file_holds_def split: option.splits)
  then have h: "file_holds ec g (es @ [NE_Intent ?ir])" using append_holds [OF assms(1,2) ap(2)] by blast
  have "seq \<le> top_seq 0 es" using ap(1) assms(5) by (simp add: inc_le)
  then have "check_entries 0 {} (es @ [NE_Intent ?ir]) = Inl NJ_Invalid \<or> check_entries 0 {} es \<noteq> Inr ()"
    by (auto simp: check_entries_append)
  moreover have "check_entries 0 {} es = Inr ()"
    using assms(2,3) by (auto simp: file_holds_def node_journal_load_def rbind_simps split: option.splits if_splits)
  ultimately have "node_journal_load ec g = Inl (if max_journal_entries < Suc (length es) then NJ_Oversized else NJ_Invalid)"
    using h by (auto simp: file_holds_def node_journal_load_def split: option.splits)
  then obtain e where "e \<in> {NJ_Invalid, NJ_Oversized}" "node_journal_load ec g = Inl e"
    by (cases "max_journal_entries < Suc (length es)") auto
  then show ?thesis by (auto simp: append_intent_def)
qed

section \<open>An encoding for the witnesses\<close>

text \<open>Entries in bits, each bit a byte, so that no line feed occurs; two ends the name of an instance.\<close>

definition word_bits :: "64 word \<Rightarrow> bytes" where
  "word_bits w = map (\<lambda>i. of_bool (bit w i)) [0..<64]"

definition bits_word :: "bytes \<Rightarrow> 64 word" where
  "bits_word bs = horner_sum of_bool 2 (map (\<lambda>b. b = 1) bs)"

fun char_bits :: "char \<Rightarrow> bytes" where
  "char_bits (Char a b c d e f g h) = map of_bool [a, b, c, d, e, f, g, h]"

definition string_bits :: "string \<Rightarrow> bytes" where
  "string_bits s = concat (map char_bits s)"

fun bits_string :: "bytes \<Rightarrow> string" where
  "bits_string (a # b # c # d # e # f # g # h # bs) =
     Char (a = 1) (b = 1) (c = 1) (d = 1) (e = 1) (f = 1) (g = 1) (h = 1) # bits_string bs"
| "bits_string _ = []"

fun entry_bits :: "node_entry \<Rightarrow> bytes" where
  "entry_bits (NE_Intent r) =
     [0, of_bool (ir_action r = MA_Start)] @ word_bits (ir_seq r) @ word_bits (ir_target_revision r) @ word_bits (ir_recorded_unix r)
       @ string_bits (ir_instance_id r) @ 2 # string_bits (ir_service r)"
| "entry_bits (NE_Outcome r) =
     [1, of_bool (or_ok r)] @ word_bits (or_seq r) @ word_bits (or_recorded_unix r) @ string_bits (or_detail r)"

fun bits_entry :: "bytes \<Rightarrow> node_entry option" where
  "bits_entry (k # a # bs) =
     (if k = 0 then
        let names = drop 192 bs in
        Some (NE_Intent \<lparr>ir_seq = bits_word (take 64 bs), ir_action = (if a = 1 then MA_Start else MA_Stop),
          ir_instance_id = bits_string (takeWhile (\<lambda>b. b \<noteq> 2) names), ir_service = bits_string (tl (dropWhile (\<lambda>b. b \<noteq> 2) names)),
          ir_target_revision = bits_word (take 64 (drop 64 bs)), ir_recorded_unix = bits_word (take 64 (drop 128 bs))\<rparr>)
      else Some (NE_Outcome \<lparr>or_seq = bits_word (take 64 bs), or_ok = (a = 1), or_detail = bits_string (drop 128 bs),
          or_recorded_unix = bits_word (take 64 (drop 64 bs))\<rparr>))"
| "bits_entry _ = None"

definition bit_codec :: entry_codec where
  "bit_codec = \<lparr>ec_json = entry_bits, ec_unjson = bits_entry\<rparr>"

lemma length_word_bits [simp]: "length (word_bits w) = 64"
  by (simp add: word_bits_def)

lemma bits_word_bits [simp]: "bits_word (word_bits w) = w"
proof -
  have "map (\<lambda>b. b = 1) (word_bits w) = map (bit w) [0..<64]" by (simp add: word_bits_def)
  then show ?thesis by (simp only: bits_word_def horner_sum_bit_eq_take_bit) (simp add: take_bit_word_eq_self)
qed

lemma length_char_bits [simp]: "length (char_bits c) = 8"
  by (cases c) simp

lemma length_string_bits [simp]: "length (string_bits s) = 8 * length s"
  by (induction s) (simp_all add: string_bits_def)

lemma bits_string_bits [simp]: "bits_string (string_bits s) = s"
proof (induction s)
  case (Cons c s)
  then show ?case by (cases c) (simp add: string_bits_def)
qed (simp add: string_bits_def)

lemma set_bits: "b \<in> set (word_bits w) \<Longrightarrow> b \<in> {0, 1}" "b \<in> set (string_bits s) \<Longrightarrow> b \<in> {0, 1}"
proof -
  have "b \<in> set (char_bits c) \<Longrightarrow> b \<in> {0, 1}" for c by (cases c) auto
  then show "b \<in> set (string_bits s) \<Longrightarrow> b \<in> {0, 1}" by (auto simp: string_bits_def)
  show "b \<in> set (word_bits w) \<Longrightarrow> b \<in> {0, 1}" by (auto simp: word_bits_def)
qed

lemma bits_entry_bits [simp]: "bits_entry (entry_bits e) = Some e"
proof (cases e)
  case (NE_Intent r)
  have "b \<in> set (string_bits (ir_instance_id r)) \<Longrightarrow> b \<noteq> 2" for b using set_bits(2) [of b] by auto
  then have "takeWhile (\<lambda>b. b \<noteq> 2) (string_bits (ir_instance_id r) @ 2 # t) = string_bits (ir_instance_id r)"
    "dropWhile (\<lambda>b. b \<noteq> 2) (string_bits (ir_instance_id r) @ 2 # t) = 2 # t" for t
    by (simp_all add: takeWhile_append2 dropWhile_append2)
  with NE_Intent show ?thesis by (cases "ir_action r") simp_all
next
  case (NE_Outcome r)
  then show ?thesis by simp
qed

lemma bit_codec_ok: "codec_ok bit_codec"
proof -
  have "10 \<notin> set (entry_bits e)" for e
    by (cases e) (auto dest: set_bits)
  moreover have "entry_bits e \<noteq> []" for e by (cases e) simp_all
  ultimately show ?thesis by (simp add: codec_ok_def bit_codec_def)
qed

lemma bit_codec_length [simp]:
  "length (ec_json bit_codec (NE_Intent r)) = 195 + 8 * length (ir_instance_id r) + 8 * length (ir_service r)"
  "length (ec_json bit_codec (NE_Outcome q)) = 130 + 8 * length (or_detail q)"
  by (simp_all add: bit_codec_def)

definition file_of :: "entry_codec \<Rightarrow> node_entry list \<Rightarrow> node_file option" where
  "file_of ec es = Some \<lparr>nf_regular = True, nf_bytes = concat (map (\<lambda>e. ec_json ec e @ [10]) es)\<rparr>"

lemma file_of_holds:
  assumes "codec_ok ec" and "length (concat (map (\<lambda>e. ec_json ec e @ [10]) es)) \<le> max_journal_bytes"
  shows "file_holds ec (file_of ec es) es"
proof -
  have "(let bs = concat (map (\<lambda>e. ec_json ec e @ [10]) es) in (bs = [] \<or> last bs = 10) \<and> parse_lines ec (split_lines bs) = Inr es)"
    using assms(1)
  proof (induction es rule: rev_induct)
    case Nil
    then show ?case by simp
  next
    case (snoc e es)
    then show ?case using parse_whole_line [OF assms(1), of "concat (map (\<lambda>e. ec_json ec e @ [10]) es)" es e] by (simp add: Let_def)
  qed
  with assms(2) show ?thesis by (simp add: file_of_def file_holds_def Let_def)
qed

definition example_intent_of :: "u64 \<Rightarrow> intent_record" where
  "example_intent_of q = \<lparr>ir_seq = q, ir_action = MA_Start, ir_instance_id = ''a'', ir_service = ''b'', ir_target_revision = 1,
     ir_recorded_unix = 0\<rparr>"

definition example_entries :: "node_entry list" where
  "example_entries = [NE_Intent (example_intent_of 1), NE_Intent (example_intent_of 2),
     NE_Outcome \<lparr>or_seq = 1, or_ok = True, or_detail = [], or_recorded_unix = 0\<rparr>]"

lemma example_entries_hold: "file_holds bit_codec (file_of bit_codec example_entries) example_entries"
  by (rule file_of_holds [OF bit_codec_ok])
    (simp add: example_entries_def example_intent_of_def max_journal_bytes_def)

lemma example_names [simp]: "\<not> trim_is_empty ''a''" "\<not> trim_is_empty ''b''"
  by (simp_all add: char_code_def)

lemma example_entries_numbered: "numbered example_entries"
  by (simp add: numbered_def example_entries_def example_intent_of_def word_le_nat_alt del: trim_is_empty.simps)

theorem late_outcome_ruins_journal_witness:
  "\<exists>g e. append_intent bit_codec AF_None MA_Stop ''a'' ''b'' 1 0 (file_of bit_codec example_entries) = (Inr 2, g)
     \<and> node_journal_load bit_codec g = Inl e"
proof -
  have load: "node_journal_load bit_codec (file_of bit_codec example_entries) = Inr example_entries"
    using load_holds [OF example_entries_hold example_entries_numbered]
    by (simp add: example_entries_def max_journal_entries_def)
  have last: "entry_seq (last example_entries) = 1" "example_entries \<noteq> []" "top_seq 0 example_entries = 2"
    by (simp_all add: example_entries_def example_intent_of_def top_seq_def)
  obtain g where a: "append_intent bit_codec AF_None MA_Stop ''a'' ''b'' 1 0 (file_of bit_codec example_entries) = (Inr 2, g)"
    using load last
    by (simp add: append_intent_def node_journal_append_def file_of_def Let_def max_journal_bytes_def
        example_entries_def example_intent_of_def)
  from late_outcome_ruins_journal [OF bit_codec_ok example_entries_hold load _ _ a] a last show ?thesis by auto
qed

end
