(* ===== verification/Service_Catalog.thy ===== *)
theory Service_Catalog
  imports Ordered_Map Rust_Text
begin

text \<open>
  The catalog of service endpoints (\<open>ferro-mgr/src/service_discovery.rs\<close>).  Times are signed 64-bit
  integers; the JSON of a catalog is an argument.  The catalog refines a map from a service and a
  task to an endpoint; a lookup returns the healthy and unexpired ones, in the order of the tasks.
\<close>

section \<open>Operations\<close>

record catalog_endpoint =
  ce_task_id :: string
  ce_address :: string
  ce_port :: u16
  ce_healthy :: bool
  ce_expires_at :: "64 word"

datatype catalog_error = CT_EmptyService | CT_EmptyTask | CT_EmptyAddress | CT_ExpiredLease | CT_Oversized | CT_Snapshot

type_synonym service_catalog = "(string, (string, catalog_endpoint) omap) omap"

definition max_snapshot_bytes :: nat where
  "max_snapshot_bytes = 256 * 1024"

definition unexpired :: "64 word \<Rightarrow> catalog_endpoint \<Rightarrow> bool" where
  "unexpired now e \<longleftrightarrow> sint now < sint (ce_expires_at e)"

definition catalog_snapshot :: "(service_catalog \<Rightarrow> bytes) \<Rightarrow> service_catalog \<Rightarrow> catalog_error + bytes" where
  "catalog_snapshot json c = (if max_snapshot_bytes < length (json c) then Inl CT_Oversized else Inr (json c))"

definition named_endpoints :: "string \<times> (string, catalog_endpoint) omap \<Rightarrow> bool" where
  "named_endpoints entry \<longleftrightarrow>
     \<not> trim_is_empty (fst entry)
     \<and> \<not> list_ex (\<lambda>e. trim_is_empty (ce_task_id e) \<or> trim_is_empty (ce_address e)) (om_values (snd entry))"

definition catalog_from_snapshot ::
  "(bytes \<Rightarrow> service_catalog option) \<Rightarrow> bytes \<Rightarrow> 64 word \<Rightarrow> catalog_error + service_catalog" where
  "catalog_from_snapshot unjson bs now =
     (if max_snapshot_bytes < length bs then Inl CT_Oversized
      else
        rbind (ok_or CT_Snapshot (unjson bs)) (\<lambda>c.
        if \<not> list_all named_endpoints c then Inl CT_Snapshot
        else Inr (om_retain (\<lambda>_ m. m \<noteq> []) (map (\<lambda>(s, m). (s, om_retain (\<lambda>_. unexpired now) m)) c))))"

definition catalog_publish ::
  "string \<Rightarrow> catalog_endpoint \<Rightarrow> 64 word \<Rightarrow> service_catalog \<Rightarrow> (catalog_error + unit) \<times> service_catalog" where
  "catalog_publish service e now c =
     (if trim_is_empty service then (Inl CT_EmptyService, c)
      else if trim_is_empty (ce_task_id e) then (Inl CT_EmptyTask, c)
      else if trim_is_empty (ce_address e) then (Inl CT_EmptyAddress, c)
      else if \<not> unexpired now e then (Inl CT_ExpiredLease, c)
      else
        let m = (case om_get c service of None \<Rightarrow> [] | Some m \<Rightarrow> m)
        in (Inr (), om_insert service (om_insert (ce_task_id e) e m) c))"

definition catalog_remove :: "string \<Rightarrow> string \<Rightarrow> service_catalog \<Rightarrow> bool \<times> service_catalog" where
  "catalog_remove service task c =
     (case om_get c service of
        None \<Rightarrow> (False, c)
      | Some m \<Rightarrow>
          let m' = om_remove task m
          in (om_get m task \<noteq> None, if m' = [] then om_remove service c else om_insert service m' c))"

definition catalog_resolve :: "string \<Rightarrow> 64 word \<Rightarrow> service_catalog \<Rightarrow> catalog_endpoint list \<times> service_catalog" where
  "catalog_resolve service now c =
     (case om_get c service of
        None \<Rightarrow> ([], c)
      | Some m \<Rightarrow>
          let m' = om_retain (\<lambda>_. unexpired now) m
          in (filter ce_healthy (om_values m'), om_insert service m' c))"

definition catalog_mark_health :: "string \<Rightarrow> string \<Rightarrow> bool \<Rightarrow> service_catalog \<Rightarrow> bool \<times> service_catalog" where
  "catalog_mark_health service task healthy c =
     (case om_get c service of
        None \<Rightarrow> (False, c)
      | Some m \<Rightarrow>
          (case om_get m task of
             None \<Rightarrow> (False, c)
           | Some e \<Rightarrow> (True, om_insert service (om_insert task (e\<lparr>ce_healthy := healthy\<rparr>) m) c)))"

section \<open>The abstract catalog\<close>

type_synonym endpoints_spec = "string \<times> string \<rightharpoonup> catalog_endpoint"

definition endpoints_at :: "service_catalog \<Rightarrow> endpoints_spec" where
  "endpoints_at c = (\<lambda>(s, t). case om_get c s of None \<Rightarrow> None | Some m \<Rightarrow> om_get m t)"

definition catalog_wf :: "service_catalog \<Rightarrow> bool" where
  "catalog_wf c \<longleftrightarrow> om_wf c
     \<and> (\<forall>s m. om_get c s = Some m \<longrightarrow> om_wf m \<and> \<not> trim_is_empty s
          \<and> (\<forall>t e. om_get m t = Some e \<longrightarrow> ce_task_id e = t \<and> \<not> trim_is_empty t \<and> \<not> trim_is_empty (ce_address e)))"

datatype catalog_op =
  CO_Publish string catalog_endpoint "64 word" | CO_Remove string string | CO_Health string string bool
| CO_Resolve string "64 word"

fun catalog_call :: "catalog_op \<Rightarrow> service_catalog \<Rightarrow> service_catalog" where
  "catalog_call (CO_Publish s e now) c = snd (catalog_publish s e now c)"
| "catalog_call (CO_Remove s t) c = snd (catalog_remove s t c)"
| "catalog_call (CO_Health s t b) c = snd (catalog_mark_health s t b c)"
| "catalog_call (CO_Resolve s now) c = snd (catalog_resolve s now c)"

definition publishable :: "string \<Rightarrow> catalog_endpoint \<Rightarrow> 64 word \<Rightarrow> bool" where
  "publishable s e now \<longleftrightarrow>
     \<not> trim_is_empty s \<and> \<not> trim_is_empty (ce_task_id e) \<and> \<not> trim_is_empty (ce_address e) \<and> unexpired now e"

fun catalog_spec :: "catalog_op \<Rightarrow> endpoints_spec \<Rightarrow> endpoints_spec" where
  "catalog_spec (CO_Publish s e now) f = (if publishable s e now then f((s, ce_task_id e) \<mapsto> e) else f)"
| "catalog_spec (CO_Remove s t) f = f((s, t) := None)"
| "catalog_spec (CO_Health s t b) f = f((s, t) := map_option (ce_healthy_update (\<lambda>_. b)) (f (s, t)))"
| "catalog_spec (CO_Resolve s now) f =
     (\<lambda>(u, t). if u = s then (case f (u, t) of None \<Rightarrow> None | Some e \<Rightarrow> if unexpired now e then Some e else None) else f (u, t))"

section \<open>Lemmas\<close>

lemma catalog_wf_Nil [simp]: "catalog_wf []"
  by (simp add: catalog_wf_def om_get_def)

lemma catalog_wfD:
  assumes "catalog_wf c" and "om_get c s = Some m"
  shows "om_wf m" "\<not> trim_is_empty s" "om_get m t = Some e \<Longrightarrow> ce_task_id e = t \<and> \<not> trim_is_empty t \<and> \<not> trim_is_empty (ce_address e)"
  using assms unfolding catalog_wf_def by blast+

lemma catalog_wf_om [simp]: "catalog_wf c \<Longrightarrow> om_wf c"
  by (simp add: catalog_wf_def)

lemma catalog_wf_insert:
  assumes "catalog_wf c" and "om_wf m" and "\<not> trim_is_empty s"
    and "\<And>t e. om_get m t = Some e \<Longrightarrow> ce_task_id e = t \<and> \<not> trim_is_empty t \<and> \<not> trim_is_empty (ce_address e)"
  shows "catalog_wf (om_insert s m c)"
  using assms unfolding catalog_wf_def by (auto split: if_splits)

lemma catalog_wf_delete: "catalog_wf c \<Longrightarrow> catalog_wf (om_remove s c)"
  unfolding catalog_wf_def by (auto split: if_splits)

lemma endpoints_at_insert:
  "catalog_wf c \<Longrightarrow> endpoints_at (om_insert s m c) = (\<lambda>(u, t). if u = s then om_get m t else endpoints_at c (u, t))"
  by (auto simp: endpoints_at_def fun_eq_iff)

lemma catalog_call_refines:
  assumes "catalog_wf c"
  shows "catalog_wf (catalog_call op c) \<and> endpoints_at (catalog_call op c) = catalog_spec op (endpoints_at c)"
proof (cases op)
  case (CO_Publish s e now)
  show ?thesis
  proof (cases "publishable s e now")
    case True
    let ?m = "case om_get c s of None \<Rightarrow> [] | Some m \<Rightarrow> m"
    have m: "om_wf ?m" using catalog_wfD(1) [OF assms] by (auto split: option.splits)
    have own: "ce_task_id e' = t \<and> \<not> trim_is_empty t \<and> \<not> trim_is_empty (ce_address e')" if "om_get ?m t = Some e'" for t e'
      using that catalog_wfD(3) [OF assms] by (auto simp: om_get_def split: option.splits)
    have "catalog_call op c = om_insert s (om_insert (ce_task_id e) e ?m) c"
      using True CO_Publish by (simp add: catalog_publish_def publishable_def Let_def)
    moreover have "catalog_wf \<dots>"
      using True m own by (intro catalog_wf_insert [OF assms]) (auto simp: publishable_def split: if_splits)
    moreover have "om_get ?m t = endpoints_at c (s, t)" for t
      by (cases "om_get c s") (simp_all add: endpoints_at_def om_get_def [of "[]"])
    ultimately show ?thesis using True CO_Publish m
      by (simp add: endpoints_at_insert [OF assms] fun_eq_iff)
  next
    case False
    with assms CO_Publish show ?thesis by (auto simp: catalog_publish_def publishable_def)
  qed
next
  case (CO_Remove s t)
  show ?thesis
  proof (cases "om_get c s")
    case None
    with assms CO_Remove show ?thesis by (auto simp: catalog_remove_def endpoints_at_def fun_eq_iff)
  next
    case (Some m)
    note w = catalog_wfD [OF assms Some]
    have g: "om_get (om_remove t m) = (om_get m)(t := None)" using w(1) by simp
    have wf: "catalog_wf (om_insert s (om_remove t m) c)"
      using w by (intro catalog_wf_insert [OF assms]) (auto split: if_splits)
    show ?thesis
    proof (cases "om_remove t m = []")
      case True
      then have "om_get m u = None" if "u \<noteq> t" for u using that g by (metis fun_upd_apply map_of.simps(1) om_get_def)
      with True Some CO_Remove assms show ?thesis
        by (auto simp: catalog_remove_def Let_def catalog_wf_delete endpoints_at_def fun_eq_iff)
    next
      case False
      with Some CO_Remove assms wf g show ?thesis
        by (auto simp: catalog_remove_def Let_def endpoints_at_insert endpoints_at_def fun_eq_iff)
    qed
  qed
next
  case (CO_Health s t b)
  show ?thesis
  proof (cases "om_get c s")
    case None
    with assms CO_Health show ?thesis by (auto simp: catalog_mark_health_def endpoints_at_def fun_eq_iff)
  next
    case (Some m)
    note w = catalog_wfD [OF assms Some]
    show ?thesis
    proof (cases "om_get m t")
      case None
      with Some assms CO_Health show ?thesis by (auto simp: catalog_mark_health_def endpoints_at_def fun_eq_iff)
    next
      case (Some e)
      have "catalog_wf (om_insert s (om_insert t (e\<lparr>ce_healthy := b\<rparr>) m) c)"
        using w(1,2) w(3) [OF Some] w(3) by (intro catalog_wf_insert [OF assms]) (auto split: if_splits)
      with Some \<open>om_get c s = Some m\<close> CO_Health assms w(1) show ?thesis
        by (auto simp: catalog_mark_health_def endpoints_at_insert endpoints_at_def fun_eq_iff)
    qed
  qed
next
  case (CO_Resolve s now)
  show ?thesis
  proof (cases "om_get c s")
    case None
    with assms CO_Resolve show ?thesis by (auto simp: catalog_resolve_def endpoints_at_def fun_eq_iff)
  next
    case (Some m)
    note w = catalog_wfD [OF assms Some]
    have "catalog_wf (om_insert s (om_retain (\<lambda>_. unexpired now) m) c)"
      using w by (intro catalog_wf_insert [OF assms]) (auto simp: om_get_retain split: option.splits if_splits)
    with Some CO_Resolve assms w(1) show ?thesis
      by (auto simp: catalog_resolve_def Let_def endpoints_at_insert endpoints_at_def om_get_retain fun_eq_iff)
  qed
qed

lemma catalog_run_refines:
  "catalog_wf (fold catalog_call ops []) \<and> endpoints_at (fold catalog_call ops []) = fold catalog_spec ops Map.empty"
proof (induction ops rule: rev_induct)
  case Nil
  show ?case by (simp add: endpoints_at_def om_get_def fun_eq_iff)
next
  case (snoc op ops)
  then show ?case using catalog_call_refines [of "fold catalog_call ops []" op] by simp
qed

lemma filter_values_sorted:
  assumes "om_wf m" and "\<And>t e. om_get m t = Some e \<Longrightarrow> ce_task_id e = t"
  shows "sorted_wrt (<) (map ce_task_id (filter p (om_values m)))"
proof -
  have "map ce_task_id (om_values m) = map fst m"
    using assms(2) unfolding om_get_in [OF assms(1)] om_values_def by (auto simp: comp_def)
  then have "sorted_wrt (<) (map ce_task_id (om_values m))" using assms(1) by (simp add: om_wf_def)
  then show ?thesis by (simp add: sorted_wrt_map sorted_wrt_filter)
qed

lemma set_om_values: "om_wf m \<Longrightarrow> e \<in> set (om_values m) \<longleftrightarrow> (\<exists>t. om_get m t = Some e)"
  unfolding om_get_in by (force simp: om_values_def)

lemma resolve_exact:
  assumes "catalog_wf c"
  shows "sorted_wrt (<) (map ce_task_id (fst (catalog_resolve s now c)))
    \<and> set (fst (catalog_resolve s now c)) = {e. ce_healthy e \<and> unexpired now e \<and> (\<exists>t. endpoints_at c (s, t) = Some e)}"
proof (cases "om_get c s")
  case None
  then show ?thesis by (simp add: catalog_resolve_def endpoints_at_def)
next
  case (Some m)
  note w = catalog_wfD [OF assms Some]
  let ?m = "om_retain (\<lambda>_. unexpired now) m"
  have g: "om_get ?m t = Some e \<longleftrightarrow> om_get m t = Some e \<and> unexpired now e" for t e
    by (auto simp: om_get_retain [OF w(1)] split: option.splits)
  have "sorted_wrt (<) (map ce_task_id (filter ce_healthy (om_values ?m)))"
    using w by (intro filter_values_sorted) (auto simp: g)
  moreover have "set (filter ce_healthy (om_values ?m)) = {e. ce_healthy e \<and> unexpired now e \<and> (\<exists>t. om_get m t = Some e)}"
    using w(1) by (auto simp: set_om_values g)
  ultimately show ?thesis using Some by (simp add: catalog_resolve_def endpoints_at_def Let_def)
qed

lemma om_wf_map_values: "om_wf (map (\<lambda>(s, m). (s, f m)) c) \<longleftrightarrow> om_wf c"
  by (simp add: om_wf_def comp_def case_prod_beta)

lemma om_get_map_values: "om_get (map (\<lambda>(s, m). (s, f m)) c) s = map_option f (om_get c s)"
  by (simp add: om_get_def map_of_map)

lemma catalog_named: "catalog_wf c \<Longrightarrow> list_all named_endpoints c"
proof -
  assume w: "catalog_wf c"
  have "named_endpoints (s, m)" if "(s, m) \<in> set c" for s m
  proof -
    have g: "om_get c s = Some m" using that w by (simp add: om_get_in)
    note d = catalog_wfD [OF w g]
    show ?thesis using d(2,3) unfolding named_endpoints_def
      by (auto simp: list_ex_iff set_om_values [OF d(1)])
  qed
  then show ?thesis by (auto simp: list_all_iff)
qed

lemma restored_catalog:
  assumes "catalog_wf c" and "unjson (json c) = Some c" and "length (json c) \<le> max_snapshot_bytes"
  shows "\<exists>d. catalog_from_snapshot unjson (json c) now = Inr d
    \<and> endpoints_at d = (\<lambda>k. case endpoints_at c k of None \<Rightarrow> None | Some e \<Rightarrow> if unexpired now e then Some e else None)"
proof -
  let ?f = "om_retain (\<lambda>_. unexpired now)"
  let ?d = "om_retain (\<lambda>_ m. m \<noteq> []) (map (\<lambda>(s, m). (s, ?f m)) c)"
  have "catalog_from_snapshot unjson (json c) now = Inr ?d"
    using assms catalog_named [OF assms(1)] by (simp add: catalog_from_snapshot_def)
  moreover have "endpoints_at ?d k = (case endpoints_at c k of None \<Rightarrow> None | Some e \<Rightarrow> if unexpired now e then Some e else None)" for k
  proof (cases k)
    case (Pair s t)
    show ?thesis
    proof (cases "om_get c s")
      case None
      then show ?thesis using Pair assms(1) by (simp add: endpoints_at_def om_get_retain om_wf_map_values om_get_map_values)
    next
      case (Some m)
      have "om_get (?f m) t = (case om_get m t of None \<Rightarrow> None | Some e \<Rightarrow> if unexpired now e then Some e else None)"
        using catalog_wfD(1) [OF assms(1) Some] by (simp add: om_get_retain)
      moreover have "?f m = [] \<Longrightarrow> om_get (?f m) t = None" by (simp add: om_get_def)
      ultimately show ?thesis using Pair Some assms(1)
        by (auto simp: endpoints_at_def om_get_retain [where m = "map _ c"] om_wf_map_values om_get_map_values)
    qed
  qed
  ultimately show ?thesis by blast
qed

section \<open>Properties\<close>

text \<open>C22.
  The catalog refines the abstract map.  After any publications, removals, health changes and
  lookups, a lookup returns exactly the healthy endpoints of the service whose lease has not
  expired, as the abstract map has them, each once and in the order of their tasks; and a snapshot
  that is restored later holds exactly the endpoints that have not expired by then.
\<close>

theorem catalog_refines:
  assumes "c = fold catalog_call ops []" and "f = fold catalog_spec ops Map.empty"
  shows "sorted_wrt (<) (map ce_task_id (fst (catalog_resolve s now c)))
    \<and> set (fst (catalog_resolve s now c)) = {e. ce_healthy e \<and> unexpired now e \<and> (\<exists>t. f (s, t) = Some e)}
    \<and> endpoints_at (snd (catalog_resolve s now c)) = catalog_spec (CO_Resolve s now) f
    \<and> (unjson (json c) = Some c \<and> catalog_snapshot json c = Inr bs \<longrightarrow>
        (\<exists>d. catalog_from_snapshot unjson bs later = Inr d
           \<and> endpoints_at d = (\<lambda>k. case f k of None \<Rightarrow> None | Some e \<Rightarrow> if unexpired later e then Some e else None)))"
proof -
  have w: "catalog_wf c" and f: "endpoints_at c = f" using catalog_run_refines assms by simp_all
  have "\<exists>d. catalog_from_snapshot unjson bs later = Inr d
      \<and> endpoints_at d = (\<lambda>k. case f k of None \<Rightarrow> None | Some e \<Rightarrow> if unexpired later e then Some e else None)"
    if "unjson (json c) = Some c" "catalog_snapshot json c = Inr bs"
    using restored_catalog [of c unjson json later, OF w that(1)] that(2) f by (auto simp: catalog_snapshot_def split: if_splits)
  with resolve_exact [OF w, of s now] catalog_call_refines [OF w, of "CO_Resolve s now"] f show ?thesis by simp
qed

theorem catalog_refines_witness:
  "let e = \<lparr>ce_task_id = ''t'', ce_address = ''a'', ce_port = 80, ce_healthy = True, ce_expires_at = 10\<rparr>;
       c = fold catalog_call [CO_Publish ''s'' e 1] []
   in set (fst (catalog_resolve ''s'' 5 c)) = {e}
      \<and> (\<exists>d. catalog_from_snapshot (\<lambda>_. Some c) [1] 20 = Inr d \<and> endpoints_at d = Map.empty)"
proof -
  let ?e = "\<lparr>ce_task_id = ''t'', ce_address = ''a'', ce_port = 80, ce_healthy = True, ce_expires_at = 10\<rparr>"
  let ?ops = "[CO_Publish ''s'' ?e 1]"
  have p: "publishable ''s'' ?e 1" "unexpired 5 ?e" "\<not> unexpired 20 ?e"
    by (simp_all add: publishable_def unexpired_def char_code_def)
  have f: "fold catalog_spec ?ops Map.empty = [(''s'', ''t'') \<mapsto> ?e]" using p(1) by simp
  have snap: "catalog_snapshot (\<lambda>_. [1]) c = Inr [1]" for c by (simp add: catalog_snapshot_def max_snapshot_bytes_def)
  note r = catalog_refines [OF refl refl, of "''s''" 5 ?ops "\<lambda>_. Some (fold catalog_call ?ops [])" "\<lambda>_. [1]" "[1]" 20]
  have "set (fst (catalog_resolve ''s'' 5 (fold catalog_call ?ops []))) = {?e}"
    using r p(2) unfolding f by auto
  moreover have "\<exists>d. catalog_from_snapshot (\<lambda>_. Some (fold catalog_call ?ops [])) [1] 20 = Inr d \<and> endpoints_at d = Map.empty"
    using r snap p(3) unfolding f by (auto simp: fun_eq_iff split: if_splits)
  ultimately show ?thesis unfolding Let_def by blast
qed

end
