(* ===== verification/Rollout.thy ===== *)
theory Rollout
  imports Ordered_Map Rust_Text "HOL-Library.Multiset"
begin

text \<open>
  The rolling-update planner of the fleet manager: \<open>src/ferro-mgr/src/rollout.rs\<close>.

  The loop that cuts the two lists of instances into steps is a partial function, because it does
  not always return: \<^const>\<open>None\<close> is a call that runs (and allocates steps) forever.  The properties
  say for which inputs that happens, and what the plan is for all others.  Sizes (\<open>usize\<close>) are natural
  numbers: the code only takes minima and maxima of them.
\<close>

section \<open>Model\<close>

record rollout_policy =
  max_surge :: nat
  max_unavailable :: nat

record rollout_step =
  rs_start :: "string list"
  rs_stop :: "string list"

datatype rollout_error = RO_EmptyId | RO_DuplicateId | RO_ZeroSurge | RO_ZeroUnavailable

fun adjacent_equal :: "'a list \<Rightarrow> bool" where
  "adjacent_equal (x # y # r) = (x = y \<or> adjacent_equal (y # r))"
| "adjacent_equal _ = False"

definition unique_sorted :: "string list \<Rightarrow> rollout_error + string list" where
  "unique_sorted ids =
     (if list_ex trim_is_empty ids then Inl RO_EmptyId
      else if adjacent_equal (sort ids) then Inl RO_DuplicateId
      else Inr (sort ids))"

text \<open>The difference of two \<open>BTreeSet\<close>s, iterated: ascending, without repetitions.\<close>

definition set_difference :: "string list \<Rightarrow> string list \<Rightarrow> string list" where
  "set_difference xs ys = filter (\<lambda>x. x \<notin> set ys) (remdups (sort xs))"

definition start_count :: "rollout_policy \<Rightarrow> string list \<Rightarrow> nat" where
  "start_count p starts = (if starts = [] then 0 else min (max_surge p) (length starts))"

definition stop_count :: "rollout_policy \<Rightarrow> string list \<Rightarrow> string list \<Rightarrow> nat" where
  "stop_count p starts stops =
     (if stops = [] then 0
      else if 0 < start_count p starts then min (max (max_unavailable p) 1) (length stops)
      else min (max_unavailable p) (length stops))"

partial_function (option) plan_loop ::
  "rollout_policy \<Rightarrow> string list \<Rightarrow> string list \<Rightarrow> rollout_step list \<Rightarrow> rollout_step list option" where
  "plan_loop p starts stops steps =
     (if starts = [] \<and> stops = [] then Some steps
      else
        let n = start_count p starts; m = stop_count p starts stops in
        plan_loop p (drop n starts) (drop m stops)
          (steps @ [\<lparr>rs_start = take n starts, rs_stop = take m stops\<rparr>]))"

declare plan_loop.simps [code]

definition rollout_plan ::
  "string list \<Rightarrow> string list \<Rightarrow> rollout_policy \<Rightarrow> (rollout_error + rollout_step list) option" where
  "rollout_plan current desired p =
     (case unique_sorted current of
        Inl e \<Rightarrow> Some (Inl e)
      | Inr cur \<Rightarrow>
          (case unique_sorted desired of
             Inl e \<Rightarrow> Some (Inl e)
           | Inr des \<Rightarrow>
               let starts = set_difference des cur; stops = set_difference cur des in
               if starts = [] \<and> stops = [] then Some (Inr [])
               else if starts \<noteq> [] \<and> max_surge p = 0 then Some (Inl RO_ZeroSurge)
               else if starts = [] \<and> stops \<noteq> [] \<and> max_unavailable p = 0 then Some (Inl RO_ZeroUnavailable)
               else map_option Inr (plan_loop p starts stops [])))"

text \<open>The check of a stored checkpoint.\<close>

record rollout_checkpoint =
  rc_generation :: u64
  rc_step :: nat
  rc_plan_digest :: bytes
  rc_completed_start :: "string list"
  rc_completed_stop :: "string list"

datatype rollout_checkpoint_error = CE_Io | CE_Invalid | CE_Oversized | CE_Codec

definition validate_checkpoint :: "rollout_checkpoint \<Rightarrow> rollout_checkpoint_error + unit" where
  "validate_checkpoint c =
     (if 65536 < length (rc_completed_start c) \<or> 65536 < length (rc_completed_stop c) then Inl CE_Invalid
      else if list_ex trim_is_empty (rc_completed_start c @ rc_completed_stop c) then Inl CE_Invalid
      else Inr ())"

text \<open>
  The checkpoint file: its content, whether it is a regular file, and its permission bits.  The
  permission masks are octal in the source (0o077 is 0x3F, 0o600 is 0x180).  The JSON encoding is given by the functions \<open>encode\<close> and \<open>decode\<close>.  A write may fail before the
  temporary file is renamed over the old one or after it, when the directory is synced.
\<close>

record checkpoint_file =
  cf_regular :: bool
  cf_mode :: u32
  cf_bytes :: bytes

definition max_checkpoint_bytes :: nat where
  "max_checkpoint_bytes = 256 * 1024"

definition load_checkpoint ::
  "(bytes \<Rightarrow> rollout_checkpoint option) \<Rightarrow> checkpoint_file option \<Rightarrow> rollout_checkpoint_error + rollout_checkpoint option" where
  "load_checkpoint decode path =
     (case path of
        None \<Rightarrow> Inr None
      | Some f \<Rightarrow>
          if \<not> cf_regular f \<or> and (cf_mode f) 0x3F \<noteq> 0 then Inl CE_Invalid
          else if max_checkpoint_bytes < length (cf_bytes f) then Inl CE_Oversized
          else rbind (ok_or CE_Codec (decode (cf_bytes f))) (\<lambda>c.
            rbind (validate_checkpoint c) (\<lambda>_. Inr (Some c))))"

definition save_checkpoint ::
  "(rollout_checkpoint \<Rightarrow> bytes option) \<Rightarrow> bool \<Rightarrow> io_fault \<Rightarrow> rollout_checkpoint \<Rightarrow> checkpoint_file option
   \<Rightarrow> (rollout_checkpoint_error + unit) \<times> checkpoint_file option" where
  "save_checkpoint encode has_parent fault c path =
     (case validate_checkpoint c of
        Inl e \<Rightarrow> (Inl e, path)
      | Inr _ \<Rightarrow>
          (case encode c of
             None \<Rightarrow> (Inl CE_Codec, path)
           | Some bs \<Rightarrow>
               if max_checkpoint_bytes < length bs then (Inl CE_Oversized, path)
               else if \<not> has_parent then (Inl CE_Invalid, path)
               else
                 let new = Some \<lparr>cf_regular = True, cf_mode = 0x180, cf_bytes = bs\<rparr> in
                 (case fault of
                    No_Fault \<Rightarrow> (Inr (), new)
                  | Before_Rename \<Rightarrow> (Inl CE_Io, path)
                  | After_Rename \<Rightarrow> (Inl CE_Io, new))))"

section \<open>Identifiers\<close>

definition valid_ids :: "string list \<Rightarrow> bool" where
  "valid_ids ids \<longleftrightarrow> distinct ids \<and> (\<forall>i \<in> set ids. \<not> trim_is_empty i)"

lemma adjacent_equal_sorted: "sorted xs \<Longrightarrow> adjacent_equal xs \<longleftrightarrow> \<not> distinct (xs :: 'a::linorder list)"
  by (induction xs rule: adjacent_equal.induct) (auto dest: order_antisym)

lemma unique_sorted_Inr: "unique_sorted ids = Inr s \<longleftrightarrow> valid_ids ids \<and> s = sort ids"
  by (auto simp: unique_sorted_def valid_ids_def list_ex_iff adjacent_equal_sorted)

lemma unique_sorted_ok: "valid_ids ids \<Longrightarrow> unique_sorted ids = Inr (sort ids)"
  by (simp add: unique_sorted_Inr)

lemma unique_sorted_Inl:
  "unique_sorted ids = Inl e \<longleftrightarrow>
   \<not> valid_ids ids \<and> e = (if list_ex trim_is_empty ids then RO_EmptyId else RO_DuplicateId)"
  by (auto simp: unique_sorted_def valid_ids_def list_ex_iff adjacent_equal_sorted)

lemma set_set_difference [simp]: "set (set_difference xs ys) = set xs - set ys"
  by (auto simp: set_difference_def)

lemma set_difference_order [simp]:
  "sorted (set_difference xs ys)" "distinct (set_difference xs ys)"
  by (simp_all add: set_difference_def sorted_filter [where f = id, simplified] sorted_remdups)

lemma set_difference_cong: "set xs = set xs' \<Longrightarrow> set ys = set ys' \<Longrightarrow> set_difference xs ys = set_difference xs' ys'"
  by (intro sorted_distinct_set_unique) simp_all

lemma set_difference_sort [simp]:
  "set_difference (sort xs) ys = set_difference xs ys" "set_difference xs (sort ys) = set_difference xs ys"
  by (intro set_difference_cong; simp)+

text \<open>The instances to start and to stop.\<close>

definition added :: "string list \<Rightarrow> string list \<Rightarrow> string list" where
  "added current desired = set_difference desired current"

definition obsolete :: "string list \<Rightarrow> string list \<Rightarrow> string list" where
  "obsolete current desired = set_difference current desired"

section \<open>The loop\<close>

text \<open>The number of steps that start something.\<close>

definition start_rounds :: "rollout_policy \<Rightarrow> string list \<Rightarrow> nat" where
  "start_rounds p starts = (length starts + max_surge p - 1) div max_surge p"

lemma start_rounds_Nil [simp]: "start_rounds p [] = 0"
  by (cases "max_surge p") (auto simp: start_rounds_def)

lemma start_rounds_step:
  "starts \<noteq> [] \<Longrightarrow> 0 < max_surge p \<Longrightarrow>
   start_rounds p starts = Suc (start_rounds p (drop (start_count p starts) starts))"
proof -
  assume ne: "starts \<noteq> []" and pos: "0 < max_surge p"
  have "(length starts + max_surge p - 1) div max_surge p
        = Suc ((length starts - 1) div max_surge p)"
    using ne pos by (cases starts) (auto simp: div_add_self2)
  moreover have "(length starts - 1) div max_surge p = (length starts - start_count p starts + max_surge p - 1) div max_surge p"
  proof (cases "max_surge p \<le> length starts")
    case True
    then show ?thesis using ne by (simp add: start_count_def)
  next
    case False
    then have "length starts - 1 < max_surge p" by simp
    then show ?thesis using False ne pos by (simp add: start_count_def)
  qed
  ultimately show ?thesis by (simp add: start_rounds_def)
qed

definition plan_ends :: "rollout_policy \<Rightarrow> string list \<Rightarrow> string list \<Rightarrow> bool" where
  "plan_ends p starts stops \<longleftrightarrow>
     (starts = [] \<or> 0 < max_surge p) \<and> (0 < max_unavailable p \<or> length stops \<le> start_rounds p starts)"

lemma plan_ends_step:
  assumes "\<not> (starts = [] \<and> stops = [])"
  shows "plan_ends p (drop (start_count p starts) starts) (drop (stop_count p starts stops) stops)
         = plan_ends p starts stops"
proof (cases "starts = [] \<or> max_surge p = 0 \<or> 0 < max_unavailable p")
  case True
  then show ?thesis by (cases starts; cases stops) (auto simp: plan_ends_def stop_count_def start_count_def)
next
  case False
  then obtain k where "start_rounds p starts = Suc k" "start_rounds p (drop (start_count p starts) starts) = k"
    using start_rounds_step [of starts p] by auto
  moreover have "stop_count p starts stops = min 1 (length stops)"
    using False by (simp add: stop_count_def start_count_def)
  ultimately show ?thesis using False by (auto simp: plan_ends_def)
qed

lemma plan_loop_none_at: "plan_loop p starts stops steps = Some r \<Longrightarrow> plan_ends p starts stops"
proof (induction rule: plan_loop.raw_induct [rotated 1, consumes 1])
  case (1 loop p starts stops steps r)
  show ?case
  proof (cases "starts = [] \<and> stops = []")
    case False
    with 1(2) have "plan_ends p (drop (start_count p starts) starts) (drop (stop_count p starts stops) stops)"
      unfolding Let_def if_not_P [OF False] by (blast intro: 1(1))
    with plan_ends_step [OF False] show ?thesis by simp
  qed (simp add: plan_ends_def)
qed

lemma plan_loop_progress:
  assumes "plan_ends p starts stops" and "\<not> (starts = [] \<and> stops = [])"
  shows "start_count p starts + stop_count p starts stops > 0"
  using assms by (auto simp: plan_ends_def start_count_def stop_count_def)

lemma plan_loop_some:
  "plan_ends p starts stops \<Longrightarrow> \<exists>r. plan_loop p starts stops steps = Some (steps @ r)"
proof (induction "length starts + length stops" arbitrary: starts stops steps rule: less_induct)
  case less
  show ?case
  proof (cases "starts = [] \<and> stops = []")
    case False
    let ?n = "start_count p starts" and ?m = "stop_count p starts stops"
    have "length (drop ?n starts) + length (drop ?m stops) < length starts + length stops"
      using plan_loop_progress [OF less.prems False]
      by (auto simp: start_count_def stop_count_def split: if_splits)
    with less.hyps [of "drop ?n starts" "drop ?m stops"] plan_ends_step [OF False, of p] less.prems
    obtain r where "plan_loop p (drop ?n starts) (drop ?m stops)
        (steps @ [\<lparr>rs_start = take ?n starts, rs_stop = take ?m stops\<rparr>])
      = Some ((steps @ [\<lparr>rs_start = take ?n starts, rs_stop = take ?m stops\<rparr>]) @ r)"
      by metis
    then show ?thesis using False by (subst plan_loop.simps) (auto simp: Let_def)
  qed (simp add: plan_loop.simps)
qed

lemma plan_loop_returns: "(\<exists>r. plan_loop p starts stops steps = Some r) \<longleftrightarrow> plan_ends p starts stops"
  using plan_loop_none_at plan_loop_some by metis

text \<open>What every step satisfies.\<close>

definition step_ok :: "rollout_policy \<Rightarrow> rollout_step \<Rightarrow> bool" where
  "step_ok p s \<longleftrightarrow>
     length (rs_start s) \<le> max_surge p
     \<and> length (rs_stop s) \<le> max (max_unavailable p) 1
     \<and> length (rs_stop s) \<le> length (rs_start s) + max_unavailable p
     \<and> (rs_start s \<noteq> [] \<or> rs_stop s \<noteq> [])"

lemma step_ok_step:
  assumes "plan_ends p starts stops" and "\<not> (starts = [] \<and> stops = [])"
  shows "step_ok p \<lparr>rs_start = take (start_count p starts) starts, rs_stop = take (stop_count p starts stops) stops\<rparr>"
  using plan_loop_progress [OF assms] assms
  by (cases starts; cases stops) (auto simp: step_ok_def start_count_def stop_count_def plan_ends_def min_def max_def)

lemma plan_loop_result:
  "plan_loop p starts stops steps = Some r \<Longrightarrow>
   \<exists>new. r = steps @ new \<and> concat (map rs_start new) = starts \<and> concat (map rs_stop new) = stops
     \<and> (\<forall>s \<in> set new. step_ok p s)"
proof (induction "length starts + length stops" arbitrary: starts stops steps rule: less_induct)
  case less
  have ends: "plan_ends p starts stops" using less.prems plan_loop_returns by blast
  show ?case
  proof (cases "starts = [] \<and> stops = []")
    case True
    then show ?thesis using less.prems by (simp add: plan_loop.simps)
  next
    case False
    let ?n = "start_count p starts" and ?m = "stop_count p starts stops"
    let ?s = "\<lparr>rs_start = take ?n starts, rs_stop = take ?m stops\<rparr>"
    have "length (drop ?n starts) + length (drop ?m stops) < length starts + length stops"
      using plan_loop_progress [OF ends False]
      by (auto simp: start_count_def stop_count_def split: if_splits)
    moreover have "plan_loop p (drop ?n starts) (drop ?m stops) (steps @ [?s]) = Some r"
      using less.prems False by (subst (asm) plan_loop.simps) (auto simp: Let_def)
    ultimately obtain new where "r = (steps @ [?s]) @ new" "concat (map rs_start new) = drop ?n starts"
      "concat (map rs_stop new) = drop ?m stops" "\<forall>s \<in> set new. step_ok p s"
      using less.hyps by blast
    then show ?thesis using step_ok_step [OF ends False] by (intro exI [of _ "?s # new"]) simp
  qed
qed

section \<open>Properties\<close>

lemma rollout_plan_eq:
  assumes "valid_ids current" and "valid_ids desired"
  shows "rollout_plan current desired p =
    (if added current desired = [] \<and> obsolete current desired = [] then Some (Inr [])
     else if added current desired \<noteq> [] \<and> max_surge p = 0 then Some (Inl RO_ZeroSurge)
     else if added current desired = [] \<and> obsolete current desired \<noteq> [] \<and> max_unavailable p = 0
       then Some (Inl RO_ZeroUnavailable)
     else map_option Inr (plan_loop p (added current desired) (obsolete current desired) []))"
  using assms by (simp add: rollout_plan_def unique_sorted_ok added_def obsolete_def Let_def)

lemma rollout_plan_invalid:
  "\<not> (valid_ids current \<and> valid_ids desired) \<Longrightarrow> \<exists>e. rollout_plan current desired p = Some (Inl e)"
  by (auto simp: rollout_plan_def unique_sorted_def valid_ids_def list_ex_iff adjacent_equal_sorted
      split: sum.splits if_splits)

lemma rollout_plan_InrD:
  assumes "rollout_plan current desired p = Some (Inr steps)"
  shows "valid_ids current" "valid_ids desired"
    "plan_loop p (added current desired) (obsolete current desired) [] = Some steps"
proof -
  show v: "valid_ids current" "valid_ids desired"
    using assms rollout_plan_invalid [of current desired p] by auto
  show "plan_loop p (added current desired) (obsolete current desired) [] = Some steps"
    using assms unfolding rollout_plan_eq [OF v] by (auto simp: plan_loop.simps split: if_splits)
qed

text \<open>C39.
  When the planner does not return.  With valid identifiers, a surge budget, no unavailability
  budget, something to start and more obsolete instances than steps that start one, the starts run out while stops remain
  and the loop appends empty steps forever.  For all other arguments it returns.
\<close>

theorem rollout_plan_diverges:
  "rollout_plan current desired p = None \<longleftrightarrow>
   valid_ids current \<and> valid_ids desired
   \<and> 0 < max_surge p \<and> max_unavailable p = 0 \<and> added current desired \<noteq> []
   \<and> (length (added current desired) + max_surge p - 1) div max_surge p < length (obsolete current desired)"
proof (cases "valid_ids current \<and> valid_ids desired")
  case True
  have "plan_loop p (added current desired) (obsolete current desired) [] = None \<longleftrightarrow>
        \<not> plan_ends p (added current desired) (obsolete current desired)"
    using plan_loop_returns [of p "added current desired" "obsolete current desired" "[]"] by auto
  with True show ?thesis
    by (auto simp: rollout_plan_eq plan_ends_def start_rounds_def)
next
  case False
  then show ?thesis using rollout_plan_invalid [of current desired p] by auto
qed

text \<open>C30.
  The plan.  The starts of its steps are the instances that are desired and not running, the
  stops those that run and are not desired, each exactly once and in ascending order, so that
  applying the plan turns the running set into the desired one.  No step is empty, starts more
  than the surge budget, or stops more than the unavailability budget beyond what it starts.  The
  stops of a step are bounded by the unavailability budget, or by one when that budget is zero and
  the step also starts an instance, although the field is documented as a bound on every step.
\<close>

theorem rollout_plan_correct:
  assumes "rollout_plan current desired p = Some (Inr steps)"
  shows "concat (map rs_start steps) = sorted_list_of_set (set desired - set current)
    \<and> concat (map rs_stop steps) = sorted_list_of_set (set current - set desired)
    \<and> set current \<union> set (concat (map rs_start steps)) - set (concat (map rs_stop steps)) = set desired
    \<and> (\<forall>s \<in> set steps.
         length (rs_start s) \<le> max_surge p \<and> length (rs_stop s) \<le> max (max_unavailable p) 1
         \<and> length (rs_stop s) \<le> length (rs_start s) + max_unavailable p
         \<and> 0 < length (rs_start s) + length (rs_stop s))"
proof -
  from plan_loop_result [OF rollout_plan_InrD(3) [OF assms]]
  have a: "concat (map rs_start steps) = added current desired"
    and o: "concat (map rs_stop steps) = obsolete current desired"
    and ok: "\<forall>s \<in> set steps. step_ok p s" by auto
  have sorted: "set_difference xs ys = sorted_list_of_set (set xs - set ys)" for xs ys
    by (intro sorted_distinct_set_unique) simp_all
  have "set current \<union> set (added current desired) - set (obsolete current desired) = set desired"
    by (auto simp: added_def obsolete_def)
  with ok show ?thesis
    unfolding a o by (auto simp: step_ok_def added_def obsolete_def sorted)
qed

theorem rollout_plan_correct_witness:
  "rollout_plan [''b'', ''a''] [''d'', ''c''] \<lparr>max_surge = 1, max_unavailable = 0\<rparr> =
     Some (Inr [\<lparr>rs_start = [''c''], rs_stop = [''a'']\<rparr>, \<lparr>rs_start = [''d''], rs_stop = [''b'']\<rparr>])
   \<and> set [''b'', ''a''] \<union> {''c'', ''d''} - {''a'', ''b''} = set [''d'', ''c'']"
proof -
  let ?p = "\<lparr>max_surge = 1, max_unavailable = 0\<rparr>"
  have v: "valid_ids [''b'', ''a'']" "valid_ids [''d'', ''c'']"
    by (simp_all add: valid_ids_def char_code_def)
  have d: "added [''b'', ''a''] [''d'', ''c''] = [''c'', ''d'']" "obsolete [''b'', ''a''] [''d'', ''c''] = [''a'', ''b'']"
    by (simp_all add: added_def obsolete_def set_difference_def less_eq_char_def less_char_def)
  have r: "rollout_plan [''b'', ''a''] [''d'', ''c''] ?p =
     Some (Inr [\<lparr>rs_start = [''c''], rs_stop = [''a'']\<rparr>, \<lparr>rs_start = [''d''], rs_stop = [''b'']\<rparr>])"
    unfolding rollout_plan_eq [OF v] d
    by (simp add: start_count_def stop_count_def Let_def plan_loop.simps [of _ "_ # _"]
        plan_loop.simps [of _ "[]" "[]"])
  show ?thesis using r rollout_plan_correct [OF r] by simp
qed

text \<open>The order in which instances are discovered does not matter, and identifiers are checked first.\<close>

lemma rollout_plan_order:
  assumes "mset current = mset current'" and "mset desired = mset desired'"
  shows "rollout_plan current desired p = rollout_plan current' desired' p"
proof -
  have "unique_sorted xs = unique_sorted ys" if "mset xs = mset ys" for xs ys
  proof -
    have "sort xs = sort ys" by (rule properties_for_sort) (simp_all add: that)
    moreover have "list_ex trim_is_empty xs = list_ex trim_is_empty ys"
      unfolding list_ex_iff mset_eq_setD [OF that] by (rule refl)
    ultimately show ?thesis unfolding unique_sorted_def by presburger
  qed
  from this [OF assms(1)] this [OF assms(2)] show ?thesis unfolding rollout_plan_def by presburger
qed

text \<open>
  The checkpoint of a rollout.  A save that succeeds makes the next load return the same
  checkpoint; a save that fails, at whatever point, leaves the old file or the new one, never
  anything else; and a file that others may access is refused.
\<close>

theorem checkpoint_file_atomic:
  assumes "\<And>c bs. encode c = Some bs \<Longrightarrow> decode bs = Some c"
  shows "(case save_checkpoint encode has_parent fault c path of
      (Inr _, path') \<Rightarrow> load_checkpoint decode path' = Inr (Some c)
    | (Inl _, path') \<Rightarrow> path' = path \<or> load_checkpoint decode path' = Inr (Some c))
    \<and> (and (cf_mode f) 0x3F \<noteq> 0 \<longrightarrow> load_checkpoint decode (Some f) = Inl CE_Invalid)"
  using assms
  by (auto simp: save_checkpoint_def load_checkpoint_def Let_def split: sum.splits option.splits io_fault.splits)

theorem checkpoint_file_atomic_witness:
  "\<exists>encode decode. (\<forall>c bs. encode c = Some bs \<longrightarrow> decode bs = Some c)
     \<and> load_checkpoint decode (snd (save_checkpoint encode True No_Fault
           \<lparr>rc_generation = 7, rc_step = 2, rc_plan_digest = [1], rc_completed_start = [''a''], rc_completed_stop = []\<rparr> None))
       = Inr (Some \<lparr>rc_generation = 7, rc_step = 2, rc_plan_digest = [1], rc_completed_start = [''a''], rc_completed_stop = []\<rparr>)"
proof (intro exI conjI)
  let ?c = "\<lparr>rc_generation = 7, rc_step = 2, rc_plan_digest = [1], rc_completed_start = [''a''], rc_completed_stop = []\<rparr> :: rollout_checkpoint"
  let ?enc = "\<lambda>c. if c = ?c then Some [3 :: byte] else None" and ?dec = "\<lambda>bs. if bs = [3 :: byte] then Some ?c else None"
  let ?f = "\<lparr>cf_regular = True, cf_mode = 0x180, cf_bytes = [3]\<rparr>"
  show h: "\<forall>c bs. ?enc c = Some bs \<longrightarrow> ?dec bs = Some c" by simp
  have s: "save_checkpoint ?enc True No_Fault ?c None = (Inr (), Some ?f)"
    by (simp add: save_checkpoint_def validate_checkpoint_def char_code_def max_checkpoint_bytes_def)
  from h have "\<And>c bs. ?enc c = Some bs \<Longrightarrow> ?dec bs = Some c" by blast
  from checkpoint_file_atomic [where encode = ?enc and decode = ?dec and f = ?f and fault = No_Fault and has_parent = True and c = ?c and path = None, OF this]
  show "load_checkpoint ?dec (snd (save_checkpoint ?enc True No_Fault ?c None)) = Inr (Some ?c)"
    unfolding s by simp
qed

end
