(* ===== verification/Workload.thy ===== *)
theory Workload
  imports Rollout
begin

text \<open>
  Desired workloads of a node (\<open>ferro-mgr/src/node/workload.rs\<close>): their validation, the names of
  instances and the file they are kept in.  The JSON of a workload is an argument.
\<close>

section \<open>Workloads\<close>

record update_policy =
  up_max_surge :: nat
  up_max_unavailable :: nat
  up_revision_floor :: nat
  up_health_attempts :: u32

record service_spec =
  sp_name :: string
  sp_image :: string
  sp_instances :: u32
  sp_cpu_millis :: u64
  sp_memory_bytes :: u64
  sp_port :: u16
  sp_update :: update_policy
  sp_retries :: u32

record desired_workload =
  dw_revision :: u64
  dw_services :: "service_spec list"

datatype workload_error = WE_Io | WE_Invalid | WE_InvalidService string string | WE_StaleRevision u64 u64

definition service_validate :: "service_spec \<Rightarrow> workload_error + unit" where
  "service_validate s =
     (let invalid = (\<lambda>reason. Inl (WE_InvalidService (sp_name s) reason)) in
      if trim_is_empty (sp_name s) then invalid ''name must not be empty''
      else if trim_is_empty (sp_image s) then invalid ''image must not be empty''
      else if sp_instances s = 0 then invalid ''instances must be at least one''
      else if sp_cpu_millis s = 0 \<or> sp_memory_bytes s = 0 then invalid ''per-instance resources must be non-zero''
      else if unat (sp_instances s) < up_revision_floor (sp_update s)
      then invalid ''revision_floor must not exceed the instance count''
      else if up_max_surge (sp_update s) = 0 \<or> up_max_unavailable (sp_update s) = 0
      then invalid ''max_surge and max_unavailable must be non-zero''
      else if up_health_attempts (sp_update s) = 0 then invalid ''health_attempts must be non-zero''
      else if sp_retries s = 0 then invalid ''health retries must be non-zero''
      else Inr ())"

fun services_validate :: "service_spec list \<Rightarrow> workload_error + unit" where
  "services_validate [] = Inr ()"
| "services_validate (s # ss) = rbind (service_validate s) (\<lambda>_. services_validate ss)"

definition workload_validate :: "desired_workload \<Rightarrow> workload_error + unit" where
  "workload_validate w =
     (if dw_services w = [] then Inl WE_Invalid
      else if adjacent_equal (sort (map sp_name (dw_services w))) then Inl WE_Invalid
      else services_validate (dw_services w))"

definition instance_id :: "string \<Rightarrow> u64 \<Rightarrow> nat \<Rightarrow> string" where
  "instance_id service revision index = service @ ''-r'' @ decimal (unat revision) @ ''-'' @ decimal index"

definition instance_ids :: "service_spec \<Rightarrow> u64 \<Rightarrow> string list" where
  "instance_ids s revision = map (instance_id (sp_name s) revision) [0..<unat (sp_instances s)]"

section \<open>The store\<close>

definition max_workload_bytes :: nat where
  "max_workload_bytes = 256 * 1024"

definition workload_load ::
  "(bytes \<Rightarrow> desired_workload option) \<Rightarrow> checkpoint_file option \<Rightarrow> workload_error + desired_workload option" where
  "workload_load unjson file =
     (case file of
        None \<Rightarrow> Inr None
      | Some f \<Rightarrow>
          if \<not> cf_regular f \<or> and (cf_mode f) 0x3F \<noteq> 0 \<or> max_workload_bytes < length (cf_bytes f) then Inl WE_Invalid
          else
            rbind (ok_or WE_Invalid (unjson (cf_bytes f))) (\<lambda>w.
            rbind (map_err (\<lambda>_. WE_Invalid) (workload_validate w)) (\<lambda>_. Inr (Some w))))"

definition workload_save ::
  "(desired_workload \<Rightarrow> bytes) \<Rightarrow> (bytes \<Rightarrow> desired_workload option) \<Rightarrow> io_fault \<Rightarrow> desired_workload \<Rightarrow> checkpoint_file option
   \<Rightarrow> (workload_error + unit) \<times> checkpoint_file option" where
  "workload_save json unjson fault w file =
     (case rbind (workload_validate w) (\<lambda>_. workload_load unjson file) of
        Inl e \<Rightarrow> (Inl e, file)
      | Inr stored \<Rightarrow>
          (case stored of
             Some c \<Rightarrow>
               if dw_revision w \<le> dw_revision c then (Inl (WE_StaleRevision (dw_revision w) (dw_revision c)), file)
               else case replace_file fault (Some \<lparr>cf_regular = True, cf_mode = 0x180, cf_bytes = json w\<rparr>) file of
                      (ok, f) \<Rightarrow> (if ok then Inr () else Inl WE_Io, f)
           | None \<Rightarrow>
               (case replace_file fault (Some \<lparr>cf_regular = True, cf_mode = 0x180, cf_bytes = json w\<rparr>) file of
                  (ok, f) \<Rightarrow> (if ok then Inr () else Inl WE_Io, f))))"

section \<open>Names of instances\<close>

lemma decimal_digits: "c \<in> set (decimal n) \<Longrightarrow> 48 \<le> char_code c \<and> char_code c < 58"
proof (induction n rule: decimal.induct)
  case (1 n)
  then show ?case
    by (subst (asm) (2) decimal.simps) (auto simp: char_code_char_of split: if_splits)
qed

lemma decimal_Nil [simp]: "decimal n \<noteq> []" "[] \<noteq> decimal n"
  by (subst decimal.simps, simp)+

lemma decimal_inject: "decimal m = decimal n \<Longrightarrow> m = n"
proof (induction m arbitrary: n rule: decimal.induct)
  case (1 m)
  have d: "char_of (48 + a) = (char_of (48 + b) :: char) \<Longrightarrow> a < 10 \<Longrightarrow> b < 10 \<Longrightarrow> a = b" for a b :: nat
    using char_code_char_of [of "48 + a"] char_code_char_of [of "48 + b"] by simp
  show ?case
  proof (cases "m < 10")
    case True
    then have m: "decimal m = [char_of (48 + m)]" by (simp add: decimal.simps)
    show ?thesis
    proof (cases "n < 10")
      case True
      then have "decimal n = [char_of (48 + n)]" by (simp add: decimal.simps)
      with m 1(2) d \<open>m < 10\<close> True show ?thesis by simp
    next
      case False
      then have "decimal n = decimal (n div 10) @ [char_of (48 + n mod 10)]" by (subst decimal.simps) simp
      with m 1(2) show ?thesis by (simp add: append_eq_Cons_conv)
    qed
  next
    case False
    then have m: "decimal m = decimal (m div 10) @ [char_of (48 + m mod 10)]" by (subst decimal.simps) simp
    show ?thesis
    proof (cases "n < 10")
      case True
      then have "decimal n = [char_of (48 + n)]" by (simp add: decimal.simps)
      with m 1(2) show ?thesis by (simp add: append_eq_Cons_conv)
    next
      case n: False
      then have "decimal n = decimal (n div 10) @ [char_of (48 + n mod 10)]" by (subst decimal.simps) simp
      with m 1(2) have "decimal (m div 10) = decimal (n div 10)" "m mod 10 = n mod 10" using d by auto
      with 1(1) [OF False] have "m div 10 = n div 10" by simp
      with \<open>m mod 10 = n mod 10\<close> show ?thesis by (metis div_mult_mod_eq)
    qed
  qed
qed

text \<open>A separator that does not occur in the last part determines where that part starts.\<close>

lemma first_separator:
  "xs @ c # ys = xs' @ c # ys' \<Longrightarrow> c \<notin> set xs \<Longrightarrow> c \<notin> set xs' \<Longrightarrow> xs = xs' \<and> ys = ys'"
proof (induction xs arbitrary: xs')
  case Nil
  then show ?case by (cases xs') auto
next
  case (Cons x xs)
  then show ?case by (cases xs') auto
qed

lemma last_separator:
  assumes "xs @ c # ys = xs' @ c # ys'" and "c \<notin> set ys" and "c \<notin> set ys'"
  shows "xs = xs' \<and> ys = ys'"
proof -
  have "rev ys @ c # rev xs = rev ys' @ c # rev xs'" using arg_cong [OF assms(1), of rev] by simp
  moreover have "c \<notin> set (rev ys)" "c \<notin> set (rev ys')" using assms by simp_all
  ultimately have "rev ys = rev ys' \<and> rev xs = rev xs'"
    by (rule first_separator)
  then show ?thesis by simp
qed

lemma instance_id_inject:
  "instance_id s r i = instance_id s' r' i' \<longleftrightarrow> s = s' \<and> r = r' \<and> i = i'"
proof
  assume a: "instance_id s r i = instance_id s' r' i'"
  have dash: "CHR ''-'' \<notin> set (decimal n)" "CHR ''r'' \<notin> set (decimal n)" for n
    using decimal_digits [of "CHR ''-''" n] decimal_digits [of "CHR ''r''" n] by (auto simp: char_code_def)
  have "(s @ ''-r'' @ decimal (unat r)) @ CHR ''-'' # decimal i = (s' @ ''-r'' @ decimal (unat r')) @ CHR ''-'' # decimal i'"
    using a by (simp add: instance_id_def)
  from last_separator [OF this] dash have 1: "s @ ''-r'' @ decimal (unat r) = s' @ ''-r'' @ decimal (unat r')" "decimal i = decimal i'"
    by auto
  then have "(s @ ''-'') @ CHR ''r'' # decimal (unat r) = (s' @ ''-'') @ CHR ''r'' # decimal (unat r')" by simp
  from last_separator [OF this] dash have "s = s'" "decimal (unat r) = decimal (unat r')" by auto
  with 1 decimal_inject [of i i'] decimal_inject [of "unat r" "unat r'"] show "s = s' \<and> r = r' \<and> i = i'"
    by (simp add: word_unat_eq_iff)
qed simp

lemma distinct_instance_ids: "distinct (instance_ids s r)"
  by (simp add: instance_ids_def distinct_map inj_on_def instance_id_inject)

lemma services_validate_all: "services_validate ss = Inr () \<longleftrightarrow> (\<forall>s \<in> set ss. service_validate s = Inr ())"
  by (induction ss) (auto simp: rbind_simps)

lemma adjacent_sorted_distinct: "sorted xs \<Longrightarrow> \<not> adjacent_equal xs \<Longrightarrow> distinct xs"
  by (induction xs rule: adjacent_equal.induct) (auto simp: less_le)

lemma workload_validate_ok:
  assumes "workload_validate w = Inr ()"
  shows "dw_services w \<noteq> []" "distinct (map sp_name (dw_services w))" "s \<in> set (dw_services w) \<Longrightarrow> service_validate s = Inr ()"
proof -
  show "dw_services w \<noteq> []" using assms by (auto simp: workload_validate_def)
  have "distinct (sort (map sp_name (dw_services w)))"
    using assms by (intro adjacent_sorted_distinct) (auto simp: workload_validate_def split: if_splits)
  then show "distinct (map sp_name (dw_services w))" by simp
  show "s \<in> set (dw_services w) \<Longrightarrow> service_validate s = Inr ()"
    using assms by (auto simp: workload_validate_def services_validate_all split: if_splits)
qed

end
