(* ===== verification/Scheduler.thy ===== *)
theory Scheduler
  imports Ordered_Map "HOL-Library.Multiset" "HOL-Library.Product_Lexorder"
begin

text \<open>
  Placement of tasks on the nodes of the fleet: \<open>src/ferro-mgr/src/scheduler.rs\<close>.

  Remaining resources are 64-bit words, task counts (\<open>usize\<close>) natural numbers: the only arithmetic
  on counts is the increment below the limit.  \<open>sort_by\<close> is the stable \<^const>\<open>sort_key\<close>, and
  \<open>min_by\<close> returns the first of equal elements.
\<close>

section \<open>Model\<close>

record fleet_node =
  n_id :: string
  n_labels :: "(string, string) omap"
  n_cpu_millis :: u64
  n_memory_bytes :: u64
  n_task_limit :: nat
  n_running_tasks :: nat
  n_healthy :: bool

record fleet_task =
  t_id :: string
  t_cpu_millis :: u64
  t_memory_bytes :: u64
  t_required_labels :: "(string, string) omap"

record placement =
  pl_task_id :: string
  pl_node_id :: string

datatype schedule_error = Unschedulable string string

definition load_key :: "fleet_node \<Rightarrow> nat \<times> u64 \<times> u64" where
  "load_key n = (n_running_tasks n, - 1 - n_cpu_millis n, - 1 - n_memory_bytes n)"

definition labels_match :: "fleet_task \<Rightarrow> fleet_node \<Rightarrow> bool" where
  "labels_match t n \<longleftrightarrow> list_all (\<lambda>(k, v). om_get (n_labels n) k = Some v) (t_required_labels t)"

definition eligible :: "fleet_task \<Rightarrow> fleet_node \<Rightarrow> bool" where
  "eligible t n \<longleftrightarrow>
     n_healthy n \<and> n_running_tasks n < n_task_limit n
     \<and> t_cpu_millis t \<le> n_cpu_millis n \<and> t_memory_bytes t \<le> n_memory_bytes n \<and> labels_match t n"

definition node_order :: "fleet_node \<Rightarrow> (nat \<times> u64 \<times> u64) \<times> string" where
  "node_order n = (load_key n, n_id n)"

text \<open>\<open>min_by\<close> over the positions of the candidates.\<close>

definition min_by :: "(nat \<Rightarrow> 'b::linorder) \<Rightarrow> nat list \<Rightarrow> nat option" where
  "min_by key is =
     (case is of [] \<Rightarrow> None | i # r \<Rightarrow> Some (fold (\<lambda>j best. if key j < key best then j else best) r i))"

definition candidate :: "fleet_task \<Rightarrow> fleet_node list \<Rightarrow> nat option" where
  "candidate t ns = min_by (\<lambda>i. node_order (ns ! i)) (filter (\<lambda>i. eligible t (ns ! i)) [0..<length ns])"

definition reserve_on :: "fleet_task \<Rightarrow> fleet_node \<Rightarrow> fleet_node" where
  "reserve_on t n =
     n\<lparr>n_cpu_millis := n_cpu_millis n - t_cpu_millis t,
       n_memory_bytes := n_memory_bytes n - t_memory_bytes t,
       n_running_tasks := n_running_tasks n + 1\<rparr>"

definition no_node_reason :: string where
  "no_node_reason = ''no healthy node satisfies labels and remaining capacity''"

fun place_tasks :: "fleet_node list \<Rightarrow> fleet_task list \<Rightarrow> schedule_error + placement list" where
  "place_tasks ns [] = Inr []"
| "place_tasks ns (t # ts) =
     (case candidate t ns of
        None \<Rightarrow> Inl (Unschedulable (t_id t) no_node_reason)
      | Some i \<Rightarrow>
          rbind (place_tasks (ns[i := reserve_on t (ns ! i)]) ts)
            (\<lambda>ps. Inr (\<lparr>pl_task_id = t_id t, pl_node_id = n_id (ns ! i)\<rparr> # ps)))"

definition place :: "fleet_node list \<Rightarrow> fleet_task list \<Rightarrow> schedule_error + placement list" where
  "place nodes tasks = place_tasks (sort_key n_id nodes) (sort_key t_id tasks)"

section \<open>The candidate\<close>

lemma min_by_fold:
  "let b = fold (\<lambda>j best. if key j < key best then j else best) r i in
   b \<in> insert i (set r) \<and> (\<forall>j \<in> insert i (set r). (key b :: 'b::linorder) \<le> key j)"
proof (induction r arbitrary: i)
  case (Cons j r)
  let ?i = "if key j < key i then j else i"
  from Cons [of ?i] show ?case
    by (auto simp: Let_def split: if_splits)
qed simp

lemma min_by_None [simp]: "min_by key is = None \<longleftrightarrow> is = []"
  by (simp add: min_by_def split: list.splits)

lemma min_by_Some:
  "min_by key is = Some i \<Longrightarrow> i \<in> set is \<and> (\<forall>j \<in> set is. key i \<le> key j)"
  using min_by_fold [of key "tl is" "hd is"] by (auto simp: min_by_def Let_def split: list.splits)

lemma candidate_None: "candidate t ns = None \<longleftrightarrow> (\<forall>n \<in> set ns. \<not> eligible t n)"
  by (auto simp: candidate_def filter_empty_conv all_set_conv_all_nth)

lemma candidate_Some:
  "candidate t ns = Some i \<Longrightarrow>
   i < length ns \<and> eligible t (ns ! i)
   \<and> (\<forall>j < length ns. eligible t (ns ! j) \<longrightarrow> node_order (ns ! i) \<le> node_order (ns ! j))"
  unfolding candidate_def by (drule min_by_Some) auto

section \<open>Capacity\<close>

text \<open>The tasks that a list of placements puts on a node.\<close>

definition placed_on :: "string \<Rightarrow> fleet_task list \<Rightarrow> placement list \<Rightarrow> fleet_task list" where
  "placed_on i ts ps = map fst (filter (\<lambda>(t, p). pl_node_id p = i) (zip ts ps))"

definition hosts :: "fleet_node \<Rightarrow> fleet_task list \<Rightarrow> bool" where
  "hosts n ts \<longleftrightarrow>
     (\<Sum>t \<leftarrow> ts. unat (t_cpu_millis t)) \<le> unat (n_cpu_millis n)
     \<and> (\<Sum>t \<leftarrow> ts. unat (t_memory_bytes t)) \<le> unat (n_memory_bytes n)
     \<and> (ts = [] \<or> n_healthy n \<and> n_running_tasks n + length ts \<le> n_task_limit n)
     \<and> (\<forall>t \<in> set ts. labels_match t n)"

lemma placed_on_simps [simp]:
  "placed_on i [] ps = []"
  "placed_on i (t # ts) (p # ps) = (if pl_node_id p = i then t # placed_on i ts ps else placed_on i ts ps)"
  by (simp_all add: placed_on_def)

lemma hosts_Nil [simp]: "hosts n []"
  by (simp add: hosts_def)

lemma reserve_on_id [simp]: "n_id (reserve_on t n) = n_id n"
  by (simp add: reserve_on_def)

lemma hosts_reserve:
  assumes "eligible t n" and "hosts (reserve_on t n) ts"
  shows "hosts n (t # ts)"
proof -
  have "unat (n_cpu_millis n - t_cpu_millis t) = unat (n_cpu_millis n) - unat (t_cpu_millis t)"
    "unat (n_memory_bytes n - t_memory_bytes t) = unat (n_memory_bytes n) - unat (t_memory_bytes t)"
    "unat (t_cpu_millis t) \<le> unat (n_cpu_millis n)" "unat (t_memory_bytes t) \<le> unat (n_memory_bytes n)"
    using assms(1) by (simp_all add: eligible_def unat_sub word_le_nat_alt)
  with assms show ?thesis
    by (auto simp: hosts_def reserve_on_def eligible_def labels_match_def)
qed

lemma place_tasks_sound:
  assumes "place_tasks ns ts = Inr ps" and "distinct (map n_id ns)"
  shows "map pl_task_id ps = map t_id ts \<and> set (map pl_node_id ps) \<subseteq> set (map n_id ns)
    \<and> (\<forall>n \<in> set ns. hosts n (placed_on (n_id n) ts ps))"
  using assms
proof (induction ns ts arbitrary: ps rule: place_tasks.induct)
  case (2 ns t ts)
  then obtain i qs where c: "candidate t ns = Some i"
    and rest: "place_tasks (ns[i := reserve_on t (ns ! i)]) ts = Inr qs"
    and ps: "ps = \<lparr>pl_task_id = t_id t, pl_node_id = n_id (ns ! i)\<rparr> # qs"
    by (auto simp: rbind_simps split: option.splits)
  note i = candidate_Some [OF c]
  have ids: "map n_id (ns[i := reserve_on t (ns ! i)]) = map n_id ns"
    using i by (simp add: map_update list_update_same_conv)
  from 2(1) [OF c rest] 2(3)
  have IH: "map pl_task_id qs = map t_id ts" "set (map pl_node_id qs) \<subseteq> set (map n_id ns)"
    "\<forall>n \<in> set (ns[i := reserve_on t (ns ! i)]). hosts n (placed_on (n_id n) ts qs)"
    unfolding ids by auto
  have "hosts n (placed_on (n_id n) (t # ts) ps)" if n: "n \<in> set ns" for n
  proof (cases "n_id n = n_id (ns ! i)")
    case True
    then have "n = ns ! i" using n 2(3) i by (auto simp: in_set_conv_nth distinct_conv_nth)
    moreover have "hosts (reserve_on t (ns ! i)) (placed_on (n_id (ns ! i)) ts qs)"
      using IH(3) i set_update_memI [of i ns] by fastforce
    ultimately show ?thesis using i by (simp add: ps hosts_reserve)
  next
    case False
    then have "n \<in> set (ns[i := reserve_on t (ns ! i)])"
      using n by (auto simp: in_set_conv_nth) (metis nth_list_update_neq)
    with IH(3) False show ?thesis by (simp add: ps)
  qed
  with IH i show ?case by (simp add: ps)
qed simp

section \<open>Properties\<close>

text \<open>
  A placement respects the capacity of every node.  Each task is placed once, in the order of the
  identifiers; the tasks placed on one node together fit its processor and memory, do not exceed
  its task limit, and are placed there only when it is healthy and carries their labels.
\<close>

theorem place_sound:
  assumes "place nodes tasks = Inr ps" and "distinct (map n_id nodes)"
  shows "map pl_task_id ps = sort (map t_id tasks)
    \<and> set (map pl_node_id ps) \<subseteq> n_id ` set nodes
    \<and> (\<forall>n \<in> set nodes.
         let ts = placed_on (n_id n) (sort_key t_id tasks) ps in
         (\<Sum>t \<leftarrow> ts. unat (t_cpu_millis t)) \<le> unat (n_cpu_millis n)
         \<and> (\<Sum>t \<leftarrow> ts. unat (t_memory_bytes t)) \<le> unat (n_memory_bytes n)
         \<and> (ts = [] \<or> n_healthy n \<and> n_running_tasks n + length ts \<le> n_task_limit n)
         \<and> (\<forall>t \<in> set ts. labels_match t n))"
proof -
  have "mset (map n_id (sort_key n_id nodes)) = mset (map n_id nodes)" by simp
  with assms(2) have "distinct (map n_id (sort_key n_id nodes))" by (metis mset_eq_imp_distinct_iff)
  from place_tasks_sound [OF assms(1) [unfolded place_def] this]
  have 1: "map pl_task_id ps = map t_id (sort_key t_id tasks)"
    and 2: "set (map pl_node_id ps) \<subseteq> n_id ` set nodes"
    and 3: "\<forall>n \<in> set nodes. hosts n (placed_on (n_id n) (sort_key t_id tasks) ps)" by simp_all
  have "map t_id (sort_key t_id tasks) = sort (map t_id tasks)"
    by (rule properties_for_sort [symmetric]) simp_all
  with 1 2 3 show ?thesis by (simp add: hosts_def Let_def)
qed

theorem place_sound_witness:
  "let n = \<lparr>n_id = ''a'', n_labels = [], n_cpu_millis = 8, n_memory_bytes = 8, n_task_limit = 2,
            n_running_tasks = 0, n_healthy = True\<rparr>;
       t = \<lparr>t_id = ''x'', t_cpu_millis = 5, t_memory_bytes = 3, t_required_labels = []\<rparr>;
       ps = [\<lparr>pl_task_id = ''x'', pl_node_id = ''a''\<rparr>]
   in place [n] [t] = Inr ps \<and> placed_on ''a'' (sort_key t_id [t]) ps = [t] \<and> unat (t_cpu_millis t) \<le> unat (n_cpu_millis n)"
proof -
  let ?n = "\<lparr>n_id = ''a'', n_labels = [], n_cpu_millis = 8, n_memory_bytes = 8, n_task_limit = 2,
            n_running_tasks = 0, n_healthy = True\<rparr>"
  let ?t = "\<lparr>t_id = ''x'', t_cpu_millis = 5, t_memory_bytes = 3, t_required_labels = []\<rparr>"
  let ?ps = "[\<lparr>pl_task_id = ''x'', pl_node_id = ''a''\<rparr>]"
  have r: "place [?n] [?t] = Inr ?ps"
    by (simp add: place_def candidate_def min_by_def eligible_def labels_match_def)
  have "distinct (map n_id [?n])" by simp
  from place_sound [OF r this] show ?thesis by (simp add: r Let_def)
qed

section \<open>The greedy specification\<close>

text \<open>
  The contract of the module, in terms of the nodes as they were given, the tasks each of them has
  been assigned so far, and sums of natural numbers.  A node fits a task when it is healthy, has a
  slot left, and the task fits next to the assigned ones in its processor and memory, and the node
  carries every label the task requires.  Of two nodes the one with fewer tasks is preferred, then
  the one with more processor left, then with more memory left, then the smaller identifier.
\<close>

definition cpu_sum :: "fleet_task list \<Rightarrow> nat" where
  "cpu_sum us = (\<Sum>u \<leftarrow> us. unat (t_cpu_millis u))"

definition memory_sum :: "fleet_task list \<Rightarrow> nat" where
  "memory_sum us = (\<Sum>u \<leftarrow> us. unat (t_memory_bytes u))"

definition fits :: "fleet_task \<Rightarrow> fleet_node \<Rightarrow> fleet_task list \<Rightarrow> bool" where
  "fits t n us \<longleftrightarrow>
     n_healthy n \<and> n_running_tasks n + length us < n_task_limit n
     \<and> cpu_sum us + unat (t_cpu_millis t) \<le> unat (n_cpu_millis n)
     \<and> memory_sum us + unat (t_memory_bytes t) \<le> unat (n_memory_bytes n)
     \<and> (\<forall>(k, v) \<in> set (t_required_labels t). om_get (n_labels n) k = Some v)"

definition preferred :: "fleet_node \<times> fleet_task list \<Rightarrow> fleet_node \<times> fleet_task list \<Rightarrow> bool" where
  "preferred a b \<longleftrightarrow>
     (case (a, b) of ((n, us), (m, ws)) \<Rightarrow>
        let r = n_running_tasks n + length us; r' = n_running_tasks m + length ws;
            c = int (unat (n_cpu_millis n)) - int (cpu_sum us); c' = int (unat (n_cpu_millis m)) - int (cpu_sum ws);
            b = int (unat (n_memory_bytes n)) - int (memory_sum us); b' = int (unat (n_memory_bytes m)) - int (memory_sum ws)
        in r < r' \<or> r = r' \<and> (c > c' \<or> c = c' \<and> (b > b' \<or> b = b' \<and> n_id n \<le> n_id m)))"

type_synonym assignment = "string \<Rightarrow> fleet_task list"

inductive greedy_run ::
  "fleet_node list \<Rightarrow> assignment \<Rightarrow> fleet_task list \<Rightarrow> placement list \<Rightarrow> assignment \<Rightarrow> bool" for nodes where
  greedy_done: "greedy_run nodes h [] [] h"
| greedy_place:
    "n \<in> set nodes \<Longrightarrow> fits t n (h (n_id n)) \<Longrightarrow>
     (\<And>m. m \<in> set nodes \<Longrightarrow> fits t m (h (n_id m)) \<Longrightarrow> preferred (n, h (n_id n)) (m, h (n_id m))) \<Longrightarrow>
     greedy_run nodes (h(n_id n := h (n_id n) @ [t])) ts ps h' \<Longrightarrow>
     greedy_run nodes h (t # ts) (\<lparr>pl_task_id = t_id t, pl_node_id = n_id n\<rparr> # ps) h'"

inductive_cases greedy_NilE: "greedy_run nodes h [] ps h'"
inductive_cases greedy_ConsE: "greedy_run nodes h (t # ts) ps h'"

text \<open>The nodes of the code after an assignment: each with its tasks reserved.\<close>

definition reserved :: "fleet_node \<Rightarrow> fleet_task list \<Rightarrow> fleet_node" where
  "reserved n us = fold reserve_on us n"

definition within_capacity :: "fleet_node \<Rightarrow> fleet_task list \<Rightarrow> bool" where
  "within_capacity n us \<longleftrightarrow> cpu_sum us \<le> unat (n_cpu_millis n) \<and> memory_sum us \<le> unat (n_memory_bytes n)"

lemma sums_snoc [simp]:
  "cpu_sum (us @ [t]) = cpu_sum us + unat (t_cpu_millis t)" "memory_sum (us @ [t]) = memory_sum us + unat (t_memory_bytes t)"
  "cpu_sum [] = 0" "memory_sum [] = 0"
  by (simp_all add: cpu_sum_def memory_sum_def)

lemma reserved_snoc [simp]: "reserved n (us @ [t]) = reserve_on t (reserved n us)" "reserved n [] = n"
  by (simp_all add: reserved_def)

lemma reserved_fields [simp]:
  "n_id (reserved n us) = n_id n" "n_labels (reserved n us) = n_labels n" "n_healthy (reserved n us) = n_healthy n"
  "n_task_limit (reserved n us) = n_task_limit n" "n_running_tasks (reserved n us) = n_running_tasks n + length us"
  by (induction us rule: rev_induct) (simp_all add: reserve_on_def)

lemma reserved_left:
  "within_capacity n us \<Longrightarrow> unat (n_cpu_millis (reserved n us)) = unat (n_cpu_millis n) - cpu_sum us
    \<and> unat (n_memory_bytes (reserved n us)) = unat (n_memory_bytes n) - memory_sum us"
proof (induction us rule: rev_induct)
  case (snoc t us)
  then have w: "within_capacity n us" by (simp add: within_capacity_def)
  note ih = snoc.IH [OF w]
  have "unat (t_cpu_millis t) \<le> unat (n_cpu_millis (reserved n us))"
    "unat (t_memory_bytes t) \<le> unat (n_memory_bytes (reserved n us))"
    using snoc.prems ih by (auto simp: within_capacity_def)
  then show ?case using ih by (simp add: reserve_on_def unat_sub word_le_nat_alt)
qed simp

lemma eligible_fits: "within_capacity n us \<Longrightarrow> eligible t (reserved n us) \<longleftrightarrow> fits t n us"
  using reserved_left [of n us]
  by (auto simp: eligible_def fits_def labels_match_def list_all_iff word_le_nat_alt within_capacity_def)

lemma fits_capacity: "fits t n us \<Longrightarrow> within_capacity n (us @ [t])"
  by (simp add: fits_def within_capacity_def)

lemma complement_unat: "unat (- 1 - a :: u64) = 2 ^ 64 - 1 - unat a"
proof -
  have "a \<le> - 1" by (rule word_n1_ge)
  then have "unat (- 1 - a) = unat (- 1 :: u64) - unat a" by (rule unat_sub)
  then show ?thesis by (simp add: unsigned_minus_1_eq_mask mask_eq_exp_minus_1)
qed

lemma complement_less: "- 1 - a < - 1 - (b :: u64) \<longleftrightarrow> unat b < unat a"
  using unsigned_less [of a, where ?'a = nat] unsigned_less [of b, where ?'a = nat] by (simp add: word_less_nat_alt complement_unat) linarith

lemma complement_le: "- 1 - a \<le> - 1 - (b :: u64) \<longleftrightarrow> unat b \<le> unat a"
  using complement_less [of b a] by (simp add: not_less [symmetric] del: not_less)

lemma order_preferred:
  assumes "within_capacity n us" and "within_capacity m ws"
  shows "node_order (reserved n us) \<le> node_order (reserved m ws) \<longleftrightarrow> preferred (n, us) (m, ws)"
proof -
  let ?c = "\<lambda>n us. int (unat (n_cpu_millis n)) - int (cpu_sum us)"
  let ?m = "\<lambda>n us. int (unat (n_memory_bytes n)) - int (memory_sum us)"
  have a: "int (unat (n_cpu_millis (reserved n us))) = ?c n us" "int (unat (n_memory_bytes (reserved n us))) = ?m n us"
    and b: "int (unat (n_cpu_millis (reserved m ws))) = ?c m ws" "int (unat (n_memory_bytes (reserved m ws))) = ?m m ws"
    using reserved_left [OF assms(1)] reserved_left [OF assms(2)] assms by (simp_all add: within_capacity_def)
  have "node_order (reserved n us) \<le> node_order (reserved m ws) \<longleftrightarrow>
    (let r = n_running_tasks n + length us; r' = n_running_tasks m + length ws;
         c = int (unat (n_cpu_millis (reserved n us))); c' = int (unat (n_cpu_millis (reserved m ws)));
         b = int (unat (n_memory_bytes (reserved n us))); b' = int (unat (n_memory_bytes (reserved m ws)))
     in r < r' \<or> r = r' \<and> (c > c' \<or> c = c' \<and> (b > b' \<or> b = b' \<and> n_id n \<le> n_id m)))"
    unfolding node_order_def load_key_def less_eq_prod_def less_prod_def fst_conv snd_conv complement_less complement_le
      reserved_fields Let_def by linarith
  then show ?thesis unfolding a b preferred_def by simp
qed

text \<open>The nodes of the code are the given nodes, each with the tasks of an assignment reserved.\<close>

definition reserve_all :: "assignment \<Rightarrow> fleet_node list \<Rightarrow> fleet_node list" where
  "reserve_all h ns = map (\<lambda>n. reserved n (h (n_id n))) ns"

definition capacity_kept :: "fleet_node list \<Rightarrow> assignment \<Rightarrow> bool" where
  "capacity_kept ns h \<longleftrightarrow> distinct (map n_id ns) \<and> (\<forall>n \<in> set ns. within_capacity n (h (n_id n)))"

lemma capacity_kept_assign:
  "capacity_kept ns h \<Longrightarrow> n \<in> set ns \<Longrightarrow> fits t n (h (n_id n)) \<Longrightarrow>
   capacity_kept ns (h(n_id n := h (n_id n) @ [t]))"
  using fits_capacity [of t n] by (auto simp: capacity_kept_def distinct_map dest: inj_onD)

lemma reserve_all_assign:
  assumes "distinct (map n_id ns)" and "i < length ns"
  shows "(reserve_all h ns)[i := reserve_on t (reserve_all h ns ! i)]
    = reserve_all (h(n_id (ns ! i) := h (n_id (ns ! i)) @ [t])) ns"
  using assms by (intro nth_equalityI) (auto simp: reserve_all_def nth_list_update distinct_conv_nth)

lemma candidate_fits:
  assumes "capacity_kept ns h"
  shows "candidate t (reserve_all h ns) = None \<longleftrightarrow> (\<forall>n \<in> set ns. \<not> fits t n (h (n_id n)))"
  using assms by (auto simp: candidate_None reserve_all_def capacity_kept_def eligible_fits)

lemma candidate_preferred:
  assumes "capacity_kept ns h" and "candidate t (reserve_all h ns) = Some i"
  shows "i < length ns \<and> fits t (ns ! i) (h (n_id (ns ! i)))
    \<and> (\<forall>m \<in> set ns. fits t m (h (n_id m)) \<longrightarrow> preferred (ns ! i, h (n_id (ns ! i))) (m, h (n_id m)))"
proof -
  note c = candidate_Some [OF assms(2)]
  have i: "i < length ns" using c by (simp add: reserve_all_def)
  have w: "within_capacity n (h (n_id n))" if "n \<in> set ns" for n using assms(1) that by (simp add: capacity_kept_def)
  have "preferred (ns ! i, h (n_id (ns ! i))) (ns ! j, h (n_id (ns ! j)))"
    if j: "j < length ns" "fits t (ns ! j) (h (n_id (ns ! j)))" for j
    using c i j w by (simp add: reserve_all_def eligible_fits order_preferred flip: order_preferred)
  moreover have "fits t (ns ! i) (h (n_id (ns ! i)))" using c i w [of "ns ! i"] by (simp add: reserve_all_def eligible_fits)
  ultimately show ?thesis using i by (auto simp: in_set_conv_nth)
qed

lemma preferred_antisym:
  "preferred (n, us) (m, ws) \<Longrightarrow> preferred (m, ws) (n, us) \<Longrightarrow> n_id n = n_id m"
  by (auto simp: preferred_def Let_def)

lemma preferred_candidate:
  assumes k: "capacity_kept ns h" and n: "n \<in> set ns" "fits t n (h (n_id n))"
    "\<And>m. m \<in> set ns \<Longrightarrow> fits t m (h (n_id m)) \<Longrightarrow> preferred (n, h (n_id n)) (m, h (n_id m))"
  shows "\<exists>i < length ns. candidate t (reserve_all h ns) = Some i \<and> n_id (ns ! i) = n_id n"
proof (cases "candidate t (reserve_all h ns)")
  case None
  with candidate_fits [OF k] n show ?thesis by simp
next
  case (Some i)
  note c = candidate_preferred [OF k Some]
  have "n_id (ns ! i) = n_id n" using n c by (intro preferred_antisym) auto
  with Some c show ?thesis by blast
qed

lemma place_tasks_step:
  assumes "capacity_kept ns h" and "candidate t (reserve_all h ns) = Some i" and "i < length ns"
  shows "place_tasks (reserve_all h ns) (t # ts) =
    rbind (place_tasks (reserve_all (h(n_id (ns ! i) := h (n_id (ns ! i)) @ [t])) ns) ts)
      (\<lambda>ps. Inr (\<lparr>pl_task_id = t_id t, pl_node_id = n_id (ns ! i)\<rparr> # ps))"
proof -
  have "n_id (reserve_all h ns ! i) = n_id (ns ! i)" using assms(3) by (simp add: reserve_all_def)
  with assms show ?thesis by (simp add: reserve_all_assign capacity_kept_def)
qed

text \<open>The code follows a greedy run, and then goes on with what is left.\<close>

lemma greedy_run_places:
  "greedy_run ns h ts ps h' \<Longrightarrow> capacity_kept ns h \<Longrightarrow>
   capacity_kept ns h' \<and>
   place_tasks (reserve_all h ns) (ts @ rest) = rbind (place_tasks (reserve_all h' ns) rest) (\<lambda>qs. Inr (ps @ qs))"
proof (induction rule: greedy_run.induct)
  case (greedy_done h)
  then show ?case by (simp add: rbind_def split: sum.splits)
next
  case (greedy_place n t h ts ps h')
  obtain i where i: "i < length ns" "candidate t (reserve_all h ns) = Some i" "n_id (ns ! i) = n_id n"
    using preferred_candidate [OF greedy_place(6,1,2,3)] by blast
  note k = capacity_kept_assign [OF greedy_place(6,1,2)]
  show ?case
    using greedy_place(5) [OF k] place_tasks_step [OF greedy_place(6) i(2,1), of "ts @ rest"] i(3)
    by (simp add: rbind_def del: place_tasks.simps fun_upd_apply split: sum.splits)
qed

lemma place_tasks_runs:
  "capacity_kept ns h \<Longrightarrow> place_tasks (reserve_all h ns) ts = Inr ps \<Longrightarrow> \<exists>h'. greedy_run ns h ts ps h'"
proof (induction ts arbitrary: h ps)
  case Nil
  then show ?case by (auto intro: greedy_done)
next
  case (Cons t ts)
  then obtain i where i: "candidate t (reserve_all h ns) = Some i" by (auto split: option.splits)
  note c = candidate_preferred [OF Cons.prems(1) i]
  have k: "capacity_kept ns (h(n_id (ns ! i) := h (n_id (ns ! i)) @ [t]))"
    using capacity_kept_assign [OF Cons.prems(1), of "ns ! i"] c by simp
  from Cons.prems(2) [unfolded place_tasks_step [OF Cons.prems(1) i conjunct1 [OF c]]] Cons.IH [OF k] c
  show ?case by (fastforce simp: rbind_def split: sum.splits intro: greedy_place)
qed

lemma place_tasks_refused:
  "capacity_kept ns h \<Longrightarrow> place_tasks (reserve_all h ns) ts = Inl e \<Longrightarrow>
   \<exists>done t rest ps h'. ts = done @ t # rest \<and> greedy_run ns h done ps h'
     \<and> (\<forall>n \<in> set ns. \<not> fits t n (h' (n_id n))) \<and> e = Unschedulable (t_id t) no_node_reason"
proof (induction ts arbitrary: h)
  case (Cons t ts)
  show ?case
  proof (cases "candidate t (reserve_all h ns)")
    case None
    then have "\<forall>n \<in> set ns. \<not> fits t n (h (n_id n))" using candidate_fits [OF Cons.prems(1)] by simp
    with None Cons.prems(2) show ?thesis by (intro exI [of _ "[]"]) (auto intro: greedy_done)
  next
    case (Some i)
    note c = candidate_preferred [OF Cons.prems(1) Some]
    let ?n = "ns ! i"
    let ?h = "h(n_id ?n := h (n_id ?n) @ [t])"
    have k: "capacity_kept ns ?h" using capacity_kept_assign [OF Cons.prems(1), of ?n] c by simp
    have "place_tasks (reserve_all ?h ns) ts = Inl e"
      using Cons.prems(2) place_tasks_step [OF Cons.prems(1) Some conjunct1 [OF c], of ts]
      by (auto simp: rbind_def split: sum.splits)
    from Cons.IH [OF k this] obtain "done" u rest ps h' where
      "ts = done @ u # rest" "greedy_run ns ?h done ps h'"
      "\<forall>n \<in> set ns. \<not> fits u n (h' (n_id n))" "e = Unschedulable (t_id u) no_node_reason" by blast
    moreover from this(2) have "greedy_run ns h (t # done) (\<lparr>pl_task_id = t_id t, pl_node_id = n_id ?n\<rparr> # ps) h'"
      using c by (auto intro: greedy_place)
    ultimately show ?thesis by (intro exI [of _ "t # done"]) auto
  qed
qed simp

lemma greedy_run_set: "set ns = set ns' \<Longrightarrow> greedy_run ns h ts ps h' \<Longrightarrow> greedy_run ns' h ts ps h'"
  by (rotate_tac, induction rule: greedy_run.induct) (auto intro: greedy_run.intros)

lemma capacity_kept_start: "distinct (map n_id nodes) \<Longrightarrow> capacity_kept (sort_key n_id nodes) (\<lambda>_. [])"
proof -
  assume "distinct (map n_id nodes)"
  moreover have "mset (map n_id (sort_key n_id nodes)) = mset (map n_id nodes)" by simp
  ultimately show ?thesis by (metis (no_types, lifting) capacity_kept_def mset_eq_imp_distinct_iff within_capacity_def sums_snoc(3,4) zero_le)
qed

lemma reserve_all_start [simp]: "reserve_all (\<lambda>_. []) ns = ns"
  by (simp add: reserve_all_def)

text \<open>C28.
  C28.  For nodes with distinct identifiers, the scheduler is the greedy strategy of its
  documentation, stated over the nodes as given: it takes the tasks by identifier and puts each on
  the preferred of the healthy nodes that carry its labels and can host it next to what they
  already run and were assigned.  A list of placements is returned exactly when it is a complete
  greedy run, and there is then only one; scheduling is refused, with the task and the reason
  named, exactly when a greedy run reaches a task that fits on no node.
\<close>

theorem place_greedy:
  assumes "distinct (map n_id nodes)"
  shows "(place nodes tasks = Inr ps \<longleftrightarrow> (\<exists>h. greedy_run nodes (\<lambda>_. []) (sort_key t_id tasks) ps h))
    \<and> (place nodes tasks = Inl e \<longleftrightarrow>
        (\<exists>before t rest ps h. sort_key t_id tasks = before @ t # rest
           \<and> greedy_run nodes (\<lambda>_. []) before ps h \<and> (\<forall>n \<in> set nodes. \<not> fits t n (h (n_id n)))
           \<and> e = Unschedulable (t_id t) ''no healthy node satisfies labels and remaining capacity''))"
proof -
  let ?ns = "sort_key n_id nodes" and ?ts = "sort_key t_id tasks"
  note k = capacity_kept_start [OF assms]
  have p: "place nodes tasks = place_tasks (reserve_all (\<lambda>_. []) ?ns) ?ts" by (simp add: place_def)
  have r: "greedy_run nodes h ts qs h' \<longleftrightarrow> greedy_run ?ns h ts qs h'" for h ts qs h'
    using greedy_run_set [of nodes ?ns] greedy_run_set [of ?ns nodes] by auto
  have "place nodes tasks = Inr ps" if "greedy_run ?ns (\<lambda>_. []) ?ts ps h" for h
    using greedy_run_places [OF that k, of "[]"] by (simp add: p rbind_def)
  moreover have "place nodes tasks = Inl (Unschedulable (t_id t) no_node_reason)"
    if "?ts = before @ t # rest" "greedy_run ?ns (\<lambda>_. []) before qs h" "\<forall>n \<in> set nodes. \<not> fits t n (h (n_id n))"
    for before t rest qs h
  proof -
    note g = greedy_run_places [OF that(2) k, of "t # rest"]
    have "candidate t (reserve_all h ?ns) = None" using candidate_fits [of ?ns h] g that(3) by simp
    then show ?thesis using g by (simp add: p that(1) rbind_def)
  qed
  moreover note place_tasks_runs [OF k, of ?ts ps] place_tasks_refused [OF k, of ?ts e]
  ultimately show ?thesis unfolding r by (auto simp: p no_node_reason_def)
qed

definition example_fleet_node :: "char \<Rightarrow> u64 \<Rightarrow> fleet_node" where
  "example_fleet_node i c = \<lparr>n_id = [i], n_labels = [], n_cpu_millis = c, n_memory_bytes = 8, n_task_limit = 2,
     n_running_tasks = 0, n_healthy = True\<rparr>"

definition example_fleet_task :: "char \<Rightarrow> fleet_task" where
  "example_fleet_task i = \<lparr>t_id = [i], t_cpu_millis = 5, t_memory_bytes = 3, t_required_labels = []\<rparr>"

theorem place_greedy_witness:
  "let ns = [example_fleet_node CHR ''a'' 6, example_fleet_node CHR ''b'' 9]; x = example_fleet_task CHR ''x'';
       y = example_fleet_task CHR ''y''; z = example_fleet_task CHR ''z'';
       ps = [\<lparr>pl_task_id = ''x'', pl_node_id = ''b''\<rparr>, \<lparr>pl_task_id = ''y'', pl_node_id = ''a''\<rparr>];
       e = Unschedulable ''z'' ''no healthy node satisfies labels and remaining capacity''
   in place ns [y, x] = Inr ps \<and> (\<exists>h. greedy_run ns (\<lambda>_. []) [x, y] ps h)
      \<and> place ns [z, y, x] = Inl e
      \<and> (\<exists>before t rest ps h. [x, y, z] = before @ t # rest \<and> greedy_run ns (\<lambda>_. []) before ps h
           \<and> (\<forall>n \<in> set ns. \<not> fits t n (h (n_id n))) \<and> ''z'' = t_id t)"
proof -
  let ?ns = "[example_fleet_node CHR ''a'' 6, example_fleet_node CHR ''b'' 9]"
  let ?x = "example_fleet_task CHR ''x''" and ?y = "example_fleet_task CHR ''y''" and ?z = "example_fleet_task CHR ''z''"
  let ?ps = "[\<lparr>pl_task_id = ''x'', pl_node_id = ''b''\<rparr>, \<lparr>pl_task_id = ''y'', pl_node_id = ''a''\<rparr>]"
  let ?e = "Unschedulable ''z'' ''no healthy node satisfies labels and remaining capacity''"
  have d: "distinct (map n_id ?ns)" by (simp add: example_fleet_node_def)
  have s: "sort_key t_id [?y, ?x] = [?x, ?y]" "sort_key t_id [?z, ?y, ?x] = [?x, ?y, ?z]" by code_simp+
  have r: "place ?ns [?y, ?x] = Inr ?ps" "place ?ns [?z, ?y, ?x] = Inl ?e" by code_simp+
  note p = place_greedy [OF d, of "[?y, ?x]" ?ps ?e] place_greedy [OF d, of "[?z, ?y, ?x]" ?ps ?e]
  from p(1) r(1) s(1) have "\<exists>h. greedy_run ?ns (\<lambda>_. []) [?x, ?y] ?ps h" by simp
  moreover from p(2) r(2) s(2) have "\<exists>before t rest ps h. [?x, ?y, ?z] = before @ t # rest
      \<and> greedy_run ?ns (\<lambda>_. []) before ps h
      \<and> (\<forall>n \<in> set ?ns. \<not> fits t n (h (n_id n))) \<and> ''z'' = t_id t"
    by (simp only: schedule_error.inject simp_thms)
  ultimately show ?thesis unfolding Let_def using r by blast
qed

section \<open>Order independence\<close>

lemma sort_key_unique:
  assumes "distinct (map k xs)" and "mset ys = mset xs"
  shows "sort_key k ys = sort_key k xs"
proof (rule map_sorted_distinct_set_unique [of k])
  have "distinct (map k ys)" using assms by (metis mset_eq_imp_distinct_iff mset_map)
  moreover have "mset (map k (sort_key k zs)) = mset (map k zs)" for zs by simp
  ultimately show "distinct (map k (sort_key k ys))" "distinct (map k (sort_key k xs))"
    using assms(1) by (metis mset_eq_imp_distinct_iff)+
  show "inj_on k (set (sort_key k ys) \<union> set (sort_key k xs))"
    using assms(1) mset_eq_setD [OF assms(2)] by (simp add: distinct_map)
  show "set (sort_key k ys) = set (sort_key k xs)" using mset_eq_setD [OF assms(2)] by simp
qed simp_all

text \<open>
  The order in which nodes and tasks are given does not matter.
\<close>

theorem place_order_independent:
  assumes "distinct (map n_id nodes)" and "distinct (map t_id tasks)"
    and "mset nodes' = mset nodes" and "mset tasks' = mset tasks"
  shows "place nodes' tasks' = place nodes tasks"
  unfolding place_def sort_key_unique [OF assms(1,3)] sort_key_unique [OF assms(2,4)] by (rule refl)

theorem place_order_independent_witness:
  "let n = \<lparr>n_id = ''a'', n_labels = [], n_cpu_millis = 8, n_memory_bytes = 8, n_task_limit = 2,
            n_running_tasks = 0, n_healthy = True\<rparr>;
       t = (\<lambda>i. \<lparr>t_id = [i], t_cpu_millis = 2, t_memory_bytes = 3, t_required_labels = []\<rparr>)
   in place [n] [t CHR ''y'', t CHR ''x''] = place [n] [t CHR ''x'', t CHR ''y'']"
  unfolding Let_def by (rule place_order_independent) simp_all

end
