(* ===== verification/Supervisor.thy ===== *)
theory Supervisor
  imports Node_Journal Service_Catalog Workload Scheduler
begin

text \<open>
  The supervisor of a node (\<open>ferro-mgr/src/node/supervisor.rs\<close>): one pass recovers the journal,
  updates and scales the services of the stored workload, stops what is not wanted, restarts what
  is unhealthy and publishes the healthy endpoints.

  \<^item> The state is the record \<open>supervisor\<close>; the executor is a state of any type with the operations of
    the trait, as in the source.  A pass is a function of the state with an error or a value.
  \<^item> An armed fault point panics; a panic is an error of its own that nothing catches.
  \<^item> Files are their bytes.  Every append to the journal and every write of the catalog and of the
    state may fail: before it changes the file, after a part of the bytes, or after all of them.  The
    faults to come are part of the state; reading a file that exists does not fail.  The JSON
    encodings, signatures and the clock are arguments.
  \<^item> The count of healthy instances less the target wraps around as in a release build.
    \<open>Update_Safety\<close> shows that it does not happen: a healthy target of the update is one of the
    instances that were counted.
\<close>

section \<open>State\<close>

datatype lifecycle_fault = LF_AfterIntentRecord | LF_AfterEffect | LF_AfterOutcomeRecord | LF_AfterCatalogUpdate

record health_track =
  ht_consecutive_failures :: u32
  ht_restarts :: u32

record supervisor_state =
  ss_applied_revision :: u64
  ss_health :: "(string, health_track) omap"

record reconcile_report =
  rr_started :: "string list"
  rr_stopped :: "string list"
  rr_restarted :: "string list"
  rr_rolled_back :: "string list"
  rr_recovered :: nat

datatype supervisor_error =
  SE_Workload workload_error | SE_Journal node_journal_error | SE_Executor string | SE_Unschedulable
| SE_State | SE_Catalog catalog_error | SE_CatalogIo | SE_Panic lifecycle_fault | SE_Diverges

record node_capabilities =
  nc_labels :: "(string, string) omap"
  nc_cpu_millis :: u64
  nc_memory_bytes :: u64
  nc_task_limit :: nat

record 'x supervisor =
  su_node_id :: string
  su_capabilities :: node_capabilities
  su_workload :: "checkpoint_file option"
  su_journal :: "node_file option"
  su_exec :: 'x
  su_state :: supervisor_state
  su_state_file :: "bytes option"
  su_catalog :: service_catalog
  su_catalog_file :: "bytes option"
  su_faults :: "lifecycle_fault set"
  su_append_faults :: "append_fault list"
  su_write_faults :: "append_fault list"

record 'x supervisor_env =
  se_ops :: "'x executor_ops"
  se_crypto :: mutation_crypto
  se_codec :: entry_codec
  se_workload_json :: "desired_workload \<Rightarrow> bytes"
  se_workload_unjson :: "bytes \<Rightarrow> desired_workload option"
  se_catalog_json :: "service_catalog \<Rightarrow> bytes"
  se_state_json :: "supervisor_state \<Rightarrow> bytes"

definition restart_budget :: u32 where "restart_budget = 3"
definition endpoint_lease_seconds :: i64 where "endpoint_lease_seconds = 300"

text \<open>A step of the supervisor: an error or a value, and the new state.\<close>

type_synonym ('x, 'a) sup = "'x supervisor \<Rightarrow> (supervisor_error + 'a) \<times> 'x supervisor"

definition sreturn :: "'a \<Rightarrow> ('x, 'a) sup" where
  "sreturn a = (\<lambda>s. (Inr a, s))"

definition sfail :: "supervisor_error \<Rightarrow> ('x, 'a) sup" where
  "sfail e = (\<lambda>s. (Inl e, s))"

definition sbind :: "('x, 'a) sup \<Rightarrow> ('a \<Rightarrow> ('x, 'b) sup) \<Rightarrow> ('x, 'b) sup" where
  "sbind m k = (\<lambda>s. case m s of (Inl e, t) \<Rightarrow> (Inl e, t) | (Inr a, t) \<Rightarrow> k a t)"

fun sfor :: "'b list \<Rightarrow> ('b \<Rightarrow> ('x, unit) sup) \<Rightarrow> ('x, unit) sup" where
  "sfor [] f = sreturn ()"
| "sfor (b # bs) f = sbind (f b) (\<lambda>_. sfor bs f)"

definition trip :: "lifecycle_fault \<Rightarrow> ('x, unit) sup" where
  "trip p = (\<lambda>s. if p \<in> su_faults s then (Inl (SE_Panic p), s\<lparr>su_faults := su_faults s - {p}\<rparr>) else (Inr (), s))"

definition fail_once :: "lifecycle_fault \<Rightarrow> 'x supervisor \<Rightarrow> 'x supervisor" where
  "fail_once p s = s\<lparr>su_faults := insert p (su_faults s)\<rparr>"

text \<open>The fault of the next append to the journal, and of the next write of another file.\<close>

definition append_fault_next :: "('x, append_fault) sup" where
  "append_fault_next = (\<lambda>s.
     case su_append_faults s of [] \<Rightarrow> (Inr AF_None, s) | f # fs \<Rightarrow> (Inr f, s\<lparr>su_append_faults := fs\<rparr>))"

definition write_fault_next :: "('x, append_fault) sup" where
  "write_fault_next = (\<lambda>s.
     case su_write_faults s of [] \<Rightarrow> (Inr AF_None, s) | f # fs \<Rightarrow> (Inr f, s\<lparr>su_write_faults := fs\<rparr>))"

text \<open>\<open>fs::write\<close> truncates the file and writes the bytes, here with the creation of its directory.\<close>

definition fs_write :: "append_fault \<Rightarrow> bytes \<Rightarrow> bytes option \<Rightarrow> bool \<times> bytes option" where
  "fs_write fault bs old =
     (case fault of
        AF_None \<Rightarrow> (True, Some bs)
      | AF_Before \<Rightarrow> (False, old)
      | AF_Torn n \<Rightarrow> (False, Some (take n bs))
      | AF_Unsynced \<Rightarrow> (False, Some bs))"

definition list_instances :: "'x supervisor_env \<Rightarrow> ('x, instance_view list) sup" where
  "list_instances env = (\<lambda>s.
     case eo_list (se_ops env) (su_exec s) of
       (Inl e, x) \<Rightarrow> (Inl (SE_Executor (executor_error_text e)), s\<lparr>su_exec := x\<rparr>)
     | (Inr vs, x) \<Rightarrow> (Inr vs, s\<lparr>su_exec := x\<rparr>))"

section \<open>Mutations\<close>

definition journal_intent :: "'x supervisor_env \<Rightarrow> mutation_action \<Rightarrow> string \<Rightarrow> string \<Rightarrow> u64 \<Rightarrow> i64 \<Rightarrow> ('x, u64) sup" where
  "journal_intent env action inst service revision now =
     sbind append_fault_next (\<lambda>fault s.
       case append_intent (se_codec env) fault action inst service revision now (su_journal s) of
         (Inl e, f) \<Rightarrow> (Inl (SE_Journal e), s\<lparr>su_journal := f\<rparr>)
       | (Inr q, f) \<Rightarrow> (Inr q, s\<lparr>su_journal := f\<rparr>))"

definition journal_outcome :: "'x supervisor_env \<Rightarrow> u64 \<Rightarrow> bool \<Rightarrow> string \<Rightarrow> i64 \<Rightarrow> ('x, unit) sup" where
  "journal_outcome env seq ok detail now =
     sbind append_fault_next (\<lambda>fault s.
       case append_outcome (se_codec env) fault seq ok detail now (su_journal s) of
         (Inl e, f) \<Rightarrow> (Inl (SE_Journal e), s\<lparr>su_journal := f\<rparr>)
       | (Inr _, f) \<Rightarrow> (Inr (), s\<lparr>su_journal := f\<rparr>))"

definition run_effect :: "'x supervisor_env \<Rightarrow> mutation_action \<Rightarrow> mutation_authorization \<Rightarrow> ('x, executor_error + unit) sup" where
  "run_effect env action a = (\<lambda>s.
     case (if action = MA_Start then eo_start (se_ops env) a (su_exec s) else eo_stop (se_ops env) a (su_exec s)) of
       (r, x) \<Rightarrow> (Inr r, s\<lparr>su_exec := x\<rparr>))"

definition mutation_intent_of ::
  "'x supervisor \<Rightarrow> mutation_action \<Rightarrow> string \<Rightarrow> string \<Rightarrow> string \<Rightarrow> u64 \<Rightarrow> i64 \<Rightarrow> mutation_intent" where
  "mutation_intent_of s action inst service img revision now =
     \<lparr>mi_node_id = su_node_id s, mi_action = action, mi_instance_id = inst, mi_service = service, mi_image = img,
      mi_target_revision = revision, mi_issued_unix = now\<rparr>"

definition apply_mutation ::
  "'x supervisor_env \<Rightarrow> mutation_action \<Rightarrow> string \<Rightarrow> string \<Rightarrow> string \<Rightarrow> u64 \<Rightarrow> i64 \<Rightarrow> ('x, unit) sup" where
  "apply_mutation env action inst service img revision now = (\<lambda>s.
     let a = mutation_sign (se_crypto env) (mutation_intent_of s action inst service img revision now) in
     (sbind (journal_intent env action inst service revision now) (\<lambda>seq.
      sbind (trip LF_AfterIntentRecord) (\<lambda>_.
      sbind (run_effect env action a) (\<lambda>r.
      sbind (trip LF_AfterEffect) (\<lambda>_.
      sbind (case r of Inr _ \<Rightarrow> journal_outcome env seq True ''applied'' now
             | Inl e \<Rightarrow> journal_outcome env seq False (executor_error_text e) now) (\<lambda>_.
      sbind (trip LF_AfterOutcomeRecord) (\<lambda>_.
      case r of Inr _ \<Rightarrow> sreturn () | Inl e \<Rightarrow> sfail (SE_Executor (executor_error_text e))))))))) s)"

section \<open>Recovery of the journal\<close>

definition judge_intent :: "instance_view list \<Rightarrow> intent_record \<Rightarrow> bool \<times> string" where
  "judge_intent observed r =
     (let present = (list_ex (\<lambda>v. iv_instance_id v = ir_instance_id r) observed);
          applied = (if ir_action r = MA_Start then present else \<not> present)
      in if applied then (True, ''recovered: effect present'')
         else (False, ''recovered: effect absent; reconcile reapplies''))"

definition recover_ambiguous :: "'x supervisor_env \<Rightarrow> i64 \<Rightarrow> ('x, nat) sup" where
  "recover_ambiguous env now = (\<lambda>s.
     case node_journal_load (se_codec env) (su_journal s) of
       Inl e \<Rightarrow> (Inl (SE_Journal e), s)
     | Inr es \<Rightarrow>
         if ambiguous es = [] then (Inr 0, s)
         else
           sbind (list_instances env) (\<lambda>observed s.
             let rest = drop (length (ambiguous es)) (su_append_faults s) in
             case close_intents (se_codec env) (su_append_faults s) (judge_intent observed) now (ambiguous es) (su_journal s) of
               (Inl e, f) \<Rightarrow> (Inl (SE_Journal e), s\<lparr>su_journal := f, su_append_faults := rest\<rparr>)
             | (Inr _, f) \<Rightarrow> (Inr (length (ambiguous es)), s\<lparr>su_journal := f, su_append_faults := rest\<rparr>)) s)"

section \<open>Rolling updates\<close>

definition rollback :: "'x supervisor_env \<Rightarrow> service_spec \<Rightarrow> u64 \<Rightarrow> u64 \<Rightarrow> i64 \<Rightarrow> ('x, unit) sup" where
  "rollback env spec old_revision new_revision now =
     sbind (list_instances env) (\<lambda>observed.
     sbind (sfor (filter (\<lambda>v. iv_revision v = new_revision) observed) (\<lambda>v.
              apply_mutation env MA_Stop (iv_instance_id v) (iv_service v) (iv_image v) new_revision now)) (\<lambda>_.
     let remaining_old = map iv_instance_id (filter (\<lambda>v. iv_revision v = old_revision) observed) in
     sfor (filter (\<lambda>i. i \<notin> set remaining_old) (instance_ids spec old_revision)) (\<lambda>i.
       apply_mutation env MA_Start i (sp_name spec) (sp_image spec) old_revision now)))"

fun wait_until_healthy :: "'x supervisor_env \<Rightarrow> string \<Rightarrow> nat \<Rightarrow> ('x, bool) sup" where
  "wait_until_healthy env inst 0 = sreturn False"
| "wait_until_healthy env inst (Suc n) =
     sbind (list_instances env) (\<lambda>observed.
     if list_ex (\<lambda>v. iv_instance_id v = inst \<and> iv_healthy v) observed then sreturn True
     else wait_until_healthy env inst n)"

text \<open>The result of a step of an update: the instances it touched, or the reason of an abort.\<close>

fun start_batch ::
  "'x supervisor_env \<Rightarrow> service_spec \<Rightarrow> u64 \<Rightarrow> u64 \<Rightarrow> i64 \<Rightarrow> string list \<Rightarrow> ('x, string + unit) sup" where
  "start_batch env spec old new now [] = sreturn (Inr ())"
| "start_batch env spec old new now (i # is) = (\<lambda>s.
     case apply_mutation env MA_Start i (sp_name spec) (sp_image spec) new now s of
       (Inl (SE_Executor detail), t) \<Rightarrow>
         sbind (rollback env spec old new now) (\<lambda>_. sreturn (Inl (''start of '' @ i @ '' failed: '' @ detail))) t
     | (Inl (SE_Panic p), t) \<Rightarrow> (Inl (SE_Panic p), t)
     | (_, t) \<Rightarrow> start_batch env spec old new now is t)"

fun health_gate ::
  "'x supervisor_env \<Rightarrow> service_spec \<Rightarrow> u64 \<Rightarrow> u64 \<Rightarrow> i64 \<Rightarrow> string list \<Rightarrow> ('x, string + unit) sup" where
  "health_gate env spec old new now [] = sreturn (Inr ())"
| "health_gate env spec old new now (i # is) =
     sbind (wait_until_healthy env i (unat (up_health_attempts (sp_update spec)))) (\<lambda>healthy.
     if healthy then health_gate env spec old new now is
     else sbind (rollback env spec old new now) (\<lambda>_. sreturn (Inl (i @ '' never became healthy''))))"

definition healthy_count :: "string \<Rightarrow> instance_view list \<Rightarrow> nat" where
  "healthy_count service observed = length (filter (\<lambda>v. iv_service v = service \<and> iv_healthy v) observed)"

text \<open>What is left of the healthy instances without the target, on 64-bit counts.\<close>

definition healthy_left :: "nat \<Rightarrow> bool \<Rightarrow> nat" where
  "healthy_left healthy target = (if healthy < of_bool target then 2 ^ 64 - 1 else healthy - of_bool target)"

fun stop_batch ::
  "'x supervisor_env \<Rightarrow> service_spec \<Rightarrow> u64 \<Rightarrow> i64 \<Rightarrow> string list \<Rightarrow> ('x, string list) sup" where
  "stop_batch env spec new now [] = sreturn []"
| "stop_batch env spec new now (i # is) =
     sbind (list_instances env) (\<lambda>observed.
     if up_revision_floor (sp_update spec)
        \<le> healthy_left (healthy_count (sp_name spec) observed) (list_ex (\<lambda>v. iv_instance_id v = i \<and> iv_healthy v) observed)
     then sbind (apply_mutation env MA_Stop i (sp_name spec) (sp_image spec) new now) (\<lambda>_.
          sbind (stop_batch env spec new now is) (\<lambda>stopped. sreturn (i # stopped)))
     else stop_batch env spec new now is)"

fun update_steps ::
  "'x supervisor_env \<Rightarrow> service_spec \<Rightarrow> u64 \<Rightarrow> u64 \<Rightarrow> i64 \<Rightarrow> rollout_step list \<Rightarrow> ('x, string + string list \<times> string list) sup" where
  "update_steps env spec old new now [] = sreturn (Inr ([], []))"
| "update_steps env spec old new now (st # sts) =
     sbind (start_batch env spec old new now (rs_start st)) (\<lambda>r. case r of Inl reason \<Rightarrow> sreturn (Inl reason) | Inr _ \<Rightarrow>
     sbind (health_gate env spec old new now (rs_start st)) (\<lambda>r. case r of Inl reason \<Rightarrow> sreturn (Inl reason) | Inr _ \<Rightarrow>
     sbind (stop_batch env spec new now (rs_stop st)) (\<lambda>stopped.
     sbind (update_steps env spec old new now sts) (\<lambda>r. case r of
         Inl reason \<Rightarrow> sreturn (Inl reason)
       | Inr (started', stopped') \<Rightarrow> sreturn (Inr (rs_start st @ started', stopped @ stopped'))))))"

definition rolling_update ::
  "'x supervisor_env \<Rightarrow> service_spec \<Rightarrow> u64 \<Rightarrow> instance_view list \<Rightarrow> i64 \<Rightarrow> ('x, string + string list \<times> string list) sup" where
  "rolling_update env spec new_revision stale now =
     (let old_revision = (if stale = [] then new_revision else Max (set (map iv_revision stale))) in
      case rollout_plan (map iv_instance_id stale) (instance_ids spec new_revision)
             \<lparr>max_surge = up_max_surge (sp_update spec), max_unavailable = up_max_unavailable (sp_update spec)\<rparr> of
        None \<Rightarrow> sfail SE_Diverges
      | Some (Inl _) \<Rightarrow> sfail SE_Unschedulable
      | Some (Inr steps) \<Rightarrow> update_steps env spec old_revision new_revision now steps)"

section \<open>Health and discovery\<close>

definition track_view ::
  "desired_workload \<Rightarrow> instance_view \<Rightarrow> (string, health_track) omap \<times> instance_view list
   \<Rightarrow> (string, health_track) omap \<times> instance_view list" where
  "track_view w v acc =
     (case acc of (h, restart) \<Rightarrow>
        (case find (\<lambda>spec. sp_name spec = iv_service v) (dw_services w) of
           None \<Rightarrow> (h, restart)
         | Some spec \<Rightarrow>
             if iv_revision v \<noteq> dw_revision w then (h, restart)
             else
               let t = (case om_get h (iv_instance_id v) of
                          None \<Rightarrow> \<lparr>ht_consecutive_failures = 0, ht_restarts = 0\<rparr> | Some t \<Rightarrow> t) in
               if iv_healthy v then (om_insert (iv_instance_id v) (t\<lparr>ht_consecutive_failures := 0\<rparr>) h, restart)
               else
                 let t = t\<lparr>ht_consecutive_failures := ht_consecutive_failures t + 1\<rparr> in
                 if ht_consecutive_failures t < sp_retries spec \<or> restart_budget \<le> ht_restarts t
                 then (om_insert (iv_instance_id v) t h, restart)
                 else (om_insert (iv_instance_id v) \<lparr>ht_consecutive_failures = 0, ht_restarts = ht_restarts t + 1\<rparr> h,
                       restart @ [v])))"

definition enforce_health :: "'x supervisor_env \<Rightarrow> desired_workload \<Rightarrow> i64 \<Rightarrow> ('x, string list) sup" where
  "enforce_health env w now =
     sbind (list_instances env) (\<lambda>observed s.
       let h = om_retain (\<lambda>i _. list_ex (\<lambda>v. iv_instance_id v = i) observed) (ss_health (su_state s)) in
       case fold (track_view w) observed (h, []) of (h, restart) \<Rightarrow>
         sbind (sfor restart (\<lambda>v.
             sbind (apply_mutation env MA_Stop (iv_instance_id v) (iv_service v) (iv_image v) (iv_revision v) now) (\<lambda>_.
             apply_mutation env MA_Start (iv_instance_id v) (iv_service v) (iv_image v) (iv_revision v) now)))
           (\<lambda>_. sreturn (map iv_instance_id restart)) (s\<lparr>su_state := (su_state s)\<lparr>ss_health := h\<rparr>\<rparr>))"

definition endpoint_of :: "instance_view \<Rightarrow> string \<Rightarrow> i64 \<Rightarrow> catalog_endpoint" where
  "endpoint_of v address now =
     \<lparr>ce_task_id = iv_instance_id v, ce_address = address, ce_port = iv_port v, ce_healthy = True,
      ce_expires_at = now + endpoint_lease_seconds\<rparr>"

fun build_catalog :: "i64 \<Rightarrow> instance_view list \<Rightarrow> service_catalog \<Rightarrow> catalog_error + service_catalog" where
  "build_catalog now [] c = Inr c"
| "build_catalog now (v # vs) c =
     (if iv_running v \<and> iv_healthy v then
        (case iv_address v of
           None \<Rightarrow> build_catalog now vs c
         | Some address \<Rightarrow>
             (case catalog_publish (iv_service v) (endpoint_of v address now) now c of
                (Inl e, _) \<Rightarrow> Inl e
              | (Inr _, c) \<Rightarrow> build_catalog now vs c))
      else build_catalog now vs c)"

definition publish_catalog :: "'x supervisor_env \<Rightarrow> instance_view list \<Rightarrow> i64 \<Rightarrow> ('x, unit) sup" where
  "publish_catalog env observed now = (\<lambda>s.
     case build_catalog now observed [] of
       Inl e \<Rightarrow> (Inl (SE_Catalog e), s)
     | Inr c \<Rightarrow>
         (case catalog_snapshot (se_catalog_json env) c of
            Inl e \<Rightarrow> (Inl (SE_Catalog e), s)
          | Inr bs \<Rightarrow>
              sbind write_fault_next (\<lambda>fault s.
                case fs_write fault bs (su_catalog_file s) of
                  (False, f) \<Rightarrow> (Inl SE_CatalogIo, s\<lparr>su_catalog_file := f\<rparr>)
                | (True, f) \<Rightarrow> trip LF_AfterCatalogUpdate (s\<lparr>su_catalog_file := f, su_catalog := c\<rparr>)) s))"

definition save_state :: "'x supervisor_env \<Rightarrow> u64 \<Rightarrow> ('x, unit) sup" where
  "save_state env applied = (\<lambda>s.
     let st = (su_state s)\<lparr>ss_applied_revision := applied\<rparr> in
     sbind write_fault_next (\<lambda>fault s.
       case fs_write fault (se_state_json env st) (su_state_file s) of
         (False, f) \<Rightarrow> (Inl SE_State, s\<lparr>su_state_file := f\<rparr>)
       | (True, f) \<Rightarrow> (Inr (), s\<lparr>su_state_file := f\<rparr>)) (s\<lparr>su_state := st\<rparr>))"

section \<open>A pass\<close>

definition empty_report :: "nat \<Rightarrow> reconcile_report" where
  "empty_report n = \<lparr>rr_started = [], rr_stopped = [], rr_restarted = [], rr_rolled_back = [], rr_recovered = n\<rparr>"

definition scale_service :: "'x supervisor_env \<Rightarrow> service_spec \<Rightarrow> u64 \<Rightarrow> i64 \<Rightarrow> reconcile_report \<Rightarrow> ('x, reconcile_report) sup" where
  "scale_service env spec revision now report =
     sbind (list_instances env) (\<lambda>observed.
     let running = map iv_instance_id (filter (\<lambda>v. iv_service v = sp_name spec \<and> iv_revision v = revision) observed);
         target = instance_ids spec revision;
         missing = set_difference target running;
         surplus = set_difference running target
     in sbind (sfor missing (\<lambda>i. apply_mutation env MA_Start i (sp_name spec) (sp_image spec) revision now)) (\<lambda>_.
        sbind (sfor surplus (\<lambda>i. apply_mutation env MA_Stop i (sp_name spec) (sp_image spec) revision now)) (\<lambda>_.
        sreturn (report\<lparr>rr_started := rr_started report @ missing, rr_stopped := rr_stopped report @ surplus\<rparr>))))"

definition converge_service ::
  "'x supervisor_env \<Rightarrow> instance_view list \<Rightarrow> u64 \<Rightarrow> i64 \<Rightarrow> service_spec \<Rightarrow> reconcile_report \<Rightarrow> ('x, reconcile_report) sup" where
  "converge_service env observed revision now spec report =
     (let stale = filter (\<lambda>v. iv_service v = sp_name spec \<and> iv_revision v \<noteq> revision) observed in
      if stale = [] then scale_service env spec revision now report
      else
        sbind (rolling_update env spec revision stale now) (\<lambda>r. case r of
            Inl _ \<Rightarrow> sreturn (report\<lparr>rr_rolled_back := rr_rolled_back report @ [sp_name spec]\<rparr>)
          | Inr (started, stopped) \<Rightarrow>
              scale_service env spec revision now
                (report\<lparr>rr_started := rr_started report @ started, rr_stopped := rr_stopped report @ stopped\<rparr>)))"

fun converge_services ::
  "'x supervisor_env \<Rightarrow> instance_view list \<Rightarrow> u64 \<Rightarrow> i64 \<Rightarrow> service_spec list \<Rightarrow> reconcile_report \<Rightarrow> ('x, reconcile_report) sup" where
  "converge_services env observed revision now [] report = sreturn report"
| "converge_services env observed revision now (spec # specs) report =
     sbind (converge_service env observed revision now spec report) (\<lambda>report.
     converge_services env observed revision now specs report)"

definition stop_view :: "'x supervisor_env \<Rightarrow> i64 \<Rightarrow> instance_view \<Rightarrow> ('x, unit) sup" where
  "stop_view env now v = apply_mutation env MA_Stop (iv_instance_id v) (iv_service v) (iv_image v) (iv_revision v) now"

definition load_desired :: "'x supervisor_env \<Rightarrow> ('x, desired_workload option) sup" where
  "load_desired env = (\<lambda>s.
     case workload_load (se_workload_unjson env) (su_workload s) of
       Inl e \<Rightarrow> (Inl (SE_Workload e), s)
     | Inr w \<Rightarrow> (Inr w, s))"

definition reconcile_desired ::
  "'x supervisor_env \<Rightarrow> desired_workload \<Rightarrow> instance_view list \<Rightarrow> i64 \<Rightarrow> reconcile_report \<Rightarrow> ('x, reconcile_report) sup" where
  "reconcile_desired env w observed now report =
     sbind (converge_services env observed (dw_revision w) now (dw_services w) report) (\<lambda>report.
     sbind (list_instances env) (\<lambda>post_observed.
     let orphans = filter (\<lambda>v. iv_service v \<notin> set (map sp_name (dw_services w))) post_observed in
     sbind (sfor orphans (stop_view env now)) (\<lambda>_.
     sbind (enforce_health env w now) (\<lambda>restarted.
     sbind (list_instances env) (\<lambda>observed.
     sbind (publish_catalog env observed now) (\<lambda>_ s.
     let report = report\<lparr>rr_stopped := rr_stopped report @ map iv_instance_id orphans, rr_restarted := restarted\<rparr>;
         applied = (if rr_rolled_back report = [] then dw_revision w else ss_applied_revision (su_state s))
     in sbind (save_state env applied) (\<lambda>_. sreturn report) s))))))"

definition reconcile :: "'x supervisor_env \<Rightarrow> i64 \<Rightarrow> ('x, reconcile_report) sup" where
  "reconcile env now =
     sbind (recover_ambiguous env now) (\<lambda>recovered.
     sbind (load_desired env) (\<lambda>desired.
     sbind (list_instances env) (\<lambda>observed.
     case desired of
       None \<Rightarrow>
         sbind (sfor observed (stop_view env now)) (\<lambda>_.
         sbind (publish_catalog env observed now) (\<lambda>_.
         sbind (save_state env 0) (\<lambda>_.
         sreturn ((empty_report recovered)\<lparr>rr_stopped := map iv_instance_id observed\<rparr>))))
     | Some w \<Rightarrow> reconcile_desired env w observed now (empty_report recovered))))"

definition publish_desired :: "'x supervisor_env \<Rightarrow> io_fault \<Rightarrow> desired_workload \<Rightarrow> ('x, unit) sup" where
  "publish_desired env fault w = (\<lambda>s.
     case workload_validate w of
       Inl e \<Rightarrow> (Inl (SE_Workload e), s)
     | Inr _ \<Rightarrow>
         let caps = su_capabilities s;
             node = \<lparr>n_id = su_node_id s, n_labels = nc_labels caps, n_cpu_millis = nc_cpu_millis caps,
                     n_memory_bytes = nc_memory_bytes caps, n_task_limit = nc_task_limit caps, n_running_tasks = 0,
                     n_healthy = True\<rparr>;
             tasks = concat (map (\<lambda>spec. map (\<lambda>i. \<lparr>t_id = i, t_cpu_millis = sp_cpu_millis spec,
                       t_memory_bytes = sp_memory_bytes spec, t_required_labels = []\<rparr>) (instance_ids spec (dw_revision w)))
                     (dw_services w))
         in case place [node] tasks of
              Inl _ \<Rightarrow> (Inl SE_Unschedulable, s)
            | Inr _ \<Rightarrow>
                (case workload_save (se_workload_json env) (se_workload_unjson env) fault w (su_workload s) of
                   (Inl e, f) \<Rightarrow> (Inl (SE_Workload e), s\<lparr>su_workload := f\<rparr>)
                 | (Inr _, f) \<Rightarrow> (Inr (), s\<lparr>su_workload := f\<rparr>)))"

text \<open>A lookup, and a new supervisor on the files of an old one.\<close>

definition supervisor_resolve :: "string \<Rightarrow> i64 \<Rightarrow> 'x supervisor \<Rightarrow> catalog_endpoint list \<times> 'x supervisor" where
  "supervisor_resolve service now s =
     (case catalog_resolve service now (su_catalog s) of (es, c) \<Rightarrow> (es, s\<lparr>su_catalog := c\<rparr>))"

definition supervisor_new ::
  "(bytes \<Rightarrow> supervisor_state option) \<Rightarrow> (bytes \<Rightarrow> service_catalog option) \<Rightarrow> i64 \<Rightarrow> 'x supervisor
   \<Rightarrow> supervisor_error + 'x supervisor" where
  "supervisor_new state_unjson unjson now s =
     rbind (case su_state_file s of
              None \<Rightarrow> Inr \<lparr>ss_applied_revision = 0, ss_health = []\<rparr>
            | Some bs \<Rightarrow> (case state_unjson bs of None \<Rightarrow> Inl SE_State | Some st \<Rightarrow> Inr st)) (\<lambda>st.
     rbind (case su_catalog_file s of
              None \<Rightarrow> Inr []
            | Some bs \<Rightarrow> map_err SE_Catalog (catalog_from_snapshot unjson bs now)) (\<lambda>c.
     Inr (s\<lparr>su_state := st, su_catalog := c, su_faults := {}\<rparr>)))"

end
