(* ===== verification/Supervised.thy ===== *)
theory Supervised
  imports Supervisor
begin

text \<open>
  What a pass of the supervisor achieves, for every executor that keeps the contract
  \<open>workload_executor\<close>, and for the recording executor in particular: convergence to the workload, the
  floor of healthy instances during an update, what a roll-back really does, and what the catalog
  says after the workload is withdrawn.
\<close>

section \<open>Steps\<close>

lemma sbind_Inr: "sbind m k s = (Inr b, u) \<longleftrightarrow> (\<exists>a t. m s = (Inr a, t) \<and> k a t = (Inr b, u))"
  by (auto simp: sbind_def split: prod.splits sum.splits)

lemma sbind_Inl:
  "sbind m k s = (Inl e, u) \<longleftrightarrow> m s = (Inl e, u) \<or> (\<exists>a t. m s = (Inr a, t) \<and> k a t = (Inl e, u))"
  by (auto simp: sbind_def split: prod.splits sum.splits)

lemma sreturn_eq [simp]: "sreturn a s = (r, t) \<longleftrightarrow> r = Inr a \<and> t = s"
  by (auto simp: sreturn_def)

lemma sfail_eq [simp]: "sfail e s = (r, t) \<longleftrightarrow> r = Inl e \<and> t = s"
  by (auto simp: sfail_def)

lemma scase_Inr:
  "(case r of Inl e \<Rightarrow> sreturn (Inl e) | Inr a \<Rightarrow> k a) s = (Inr (Inr b), t) \<longleftrightarrow> (\<exists>a. r = Inr a \<and> k a s = (Inr (Inr b), t))"
  by (cases r) auto

text \<open>What no step of a mutation changes.\<close>

definition same_rest :: "'x supervisor \<Rightarrow> 'x supervisor \<Rightarrow> bool" where
  "same_rest s t \<longleftrightarrow> su_node_id t = su_node_id s \<and> su_workload t = su_workload s \<and> su_state t = su_state s
     \<and> su_state_file t = su_state_file s \<and> su_catalog t = su_catalog s \<and> su_catalog_file t = su_catalog_file s"

lemma same_rest_refl [simp]: "same_rest s s"
  by (simp add: same_rest_def)

lemma same_rest_trans: "same_rest s t \<Longrightarrow> same_rest t u \<Longrightarrow> same_rest s u"
  by (simp add: same_rest_def)

lemma trip_facts: "trip p s = (r, t) \<Longrightarrow> same_rest s t \<and> su_exec t = su_exec s \<and> su_journal t = su_journal s"
  by (auto simp: trip_def same_rest_def split: if_splits)

lemma journal_intent_facts: "journal_intent env a i v r now s = (q, t) \<Longrightarrow> same_rest s t \<and> su_exec t = su_exec s"
  by (auto simp: journal_intent_def append_fault_next_def sbind_def same_rest_def split: prod.splits sum.splits list.splits)

lemma journal_outcome_facts: "journal_outcome env q ok d now s = (r, t) \<Longrightarrow> same_rest s t \<and> su_exec t = su_exec s"
  by (auto simp: journal_outcome_def append_fault_next_def sbind_def same_rest_def split: prod.splits sum.splits list.splits)

lemma run_effect_total: "\<exists>r t. run_effect env action a s = (Inr r, t)"
  by (simp add: run_effect_def case_prod_beta)

section \<open>Effects of a mutation\<close>

definition effect :: "mutation_action \<Rightarrow> string \<Rightarrow> string \<Rightarrow> string \<Rightarrow> u64 \<Rightarrow> (string \<rightharpoonup> instance_view) \<Rightarrow> (string \<rightharpoonup> instance_view) \<Rightarrow> bool" where
  "effect action i service img revision m n \<longleftrightarrow>
     (case action of
        MA_Stop \<Rightarrow> n = m(i := None)
      | MA_Start \<Rightarrow> (\<exists>v. n = m(i \<mapsto> v) \<and> iv_instance_id v = i \<and> iv_service v = service \<and> iv_revision v = revision
                      \<and> iv_image v = img \<and> iv_running v))"

text \<open>
  Instances carry the names the supervisor gives them; and a part of a pass that works on one service
  leaves every instance of another name alone.
\<close>

definition canon :: "(string \<rightharpoonup> instance_view) \<Rightarrow> bool" where
  "canon m \<longleftrightarrow> (\<forall>i v. m i = Some v \<longrightarrow> iv_instance_id v = i \<and> (\<exists>n. i = instance_id (iv_service v) (iv_revision v) n))"

definition named_for :: "string \<Rightarrow> string \<Rightarrow> bool" where
  "named_for name i \<longleftrightarrow> (\<exists>r n. i = instance_id name r n)"

definition outside :: "string \<Rightarrow> (string \<rightharpoonup> instance_view) \<Rightarrow> (string \<rightharpoonup> instance_view) \<Rightarrow> bool" where
  "outside name m n \<longleftrightarrow> (\<forall>i. \<not> named_for name i \<longrightarrow> n i = m i)"

lemma outside_trans: "outside name m n \<Longrightarrow> outside name n k \<Longrightarrow> outside name m k"
  by (auto simp: outside_def)

lemma named_for_ids: "i \<in> set (instance_ids spec r) \<Longrightarrow> named_for (sp_name spec) i"
  by (auto simp: instance_ids_def named_for_def)

lemma canon_named: "canon m \<Longrightarrow> m i = Some v \<Longrightarrow> named_for (iv_service v) i"
  unfolding canon_def named_for_def by blast

lemma named_for_unique: "named_for a i \<Longrightarrow> named_for b i \<Longrightarrow> a = b"
  by (auto simp: named_for_def instance_id_inject)

lemma effect_stop: "effect MA_Stop i service img r m n \<Longrightarrow> canon m \<Longrightarrow> named_for name i \<Longrightarrow> canon n \<and> outside name m n"
  by (auto simp: effect_def canon_def outside_def split: if_splits)

lemma effect_start:
  "effect MA_Start (instance_id name r k) name img r m n \<Longrightarrow> canon m \<Longrightarrow> canon n \<and> outside name m n"
  by (auto simp: effect_def canon_def outside_def named_for_def split: if_splits)

lemma rollout_plan_sets:
  assumes "rollout_plan current desired p = Some (Inr steps)" and "st \<in> set steps"
  shows "set (rs_start st) \<subseteq> set desired" "set (rs_stop st) \<subseteq> set current"
proof -
  from plan_loop_result [OF rollout_plan_InrD(3) [OF assms(1)]]
  have "concat (map rs_start steps) = added current desired" "concat (map rs_stop steps) = obsolete current desired" by auto
  then have "set (concat (map rs_start steps)) \<subseteq> set desired" "set (concat (map rs_stop steps)) \<subseteq> set current"
    by (simp_all add: added_def obsolete_def)
  with assms(2) show "set (rs_start st) \<subseteq> set desired" "set (rs_stop st) \<subseteq> set current" by auto
qed

context workload_executor
begin

definition alive :: "'x supervisor \<Rightarrow> string \<rightharpoonup> instance_view" where
  "alive s = live (su_exec s)"

definition good :: "'x supervisor \<Rightarrow> bool" where
  "good s \<longleftrightarrow> ok (su_exec s)"

lemma list_facts:
  assumes "se_ops env = ops" and "good s" and "list_instances env s = (r, t)"
  shows "good t \<and> alive t = alive s \<and> same_rest s t
    \<and> (\<forall>vs. r = Inr vs \<longrightarrow> distinct (map iv_instance_id vs)
          \<and> (\<forall>v. v \<in> set vs \<longleftrightarrow> alive s (iv_instance_id v) = Some v))"
proof (cases "eo_list ops (su_exec s)")
  case (Pair q x)
  show ?thesis
  proof (cases q)
    case (Inl e)
    with Pair assms list_error [of "su_exec s" e x] show ?thesis
      by (auto simp: list_instances_def good_def alive_def same_rest_def)
  next
    case (Inr vs)
    with Pair assms list_live [of "su_exec s" vs x] show ?thesis
      by (auto simp: list_instances_def good_def alive_def same_rest_def)
  qed
qed

lemma effect_facts:
  assumes "se_ops env = ops" and "good s" and "run_effect env action a s = (Inr r, t)" and "mi_action (ma_intent a) = action"
  shows "good t \<and> same_rest s t \<and> (case r of
      Inl _ \<Rightarrow> alive t = alive s
    | Inr _ \<Rightarrow> effect action (mi_instance_id (ma_intent a)) (mi_service (ma_intent a)) (mi_image (ma_intent a))
                (mi_target_revision (ma_intent a)) (alive s) (alive t))"
proof -
  have t: "(r, su_exec t) = (if action = MA_Start then eo_start ops a (su_exec s) else eo_stop ops a (su_exec s))" "same_rest s t"
    using assms(1,3) by (auto simp: run_effect_def same_rest_def split: prod.splits if_splits)
  show ?thesis
  proof (cases action)
    case MA_Start
    show ?thesis
    proof (cases r)
      case (Inl e)
      with MA_Start t assms(2) start_error [of "su_exec s" a e "su_exec t"] show ?thesis by (simp add: good_def alive_def)
    next
      case (Inr u)
      with MA_Start t assms(2) start_ok [of "su_exec s" a u "su_exec t"] show ?thesis
        by (auto simp: good_def alive_def effect_def started_as_def)
    qed
  next
    case MA_Stop
    show ?thesis
    proof (cases r)
      case (Inl e)
      with MA_Stop t assms(2) stop_error [of "su_exec s" a e "su_exec t"] show ?thesis by (simp add: good_def alive_def)
    next
      case (Inr u)
      with MA_Stop t assms(2) stop_ok [of "su_exec s" a u "su_exec t"] show ?thesis
        by (simp add: good_def alive_def effect_def)
    qed
  qed
qed

lemma apply_facts:
  assumes "se_ops env = ops" and "good s" and "apply_mutation env action i service img revision now s = (r, t)"
  shows "good t \<and> same_rest s t \<and> (alive t = alive s \<or> effect action i service img revision (alive s) (alive t))
    \<and> (\<forall>u. r = Inr u \<longrightarrow> effect action i service img revision (alive s) (alive t))"
proof -
  let ?a = "mutation_sign (se_crypto env) (mutation_intent_of s action i service img revision now)"
  have a: "mi_action (ma_intent ?a) = action" "mi_instance_id (ma_intent ?a) = i" "mi_service (ma_intent ?a) = service"
    "mi_image (ma_intent ?a) = img" "mi_target_revision (ma_intent ?a) = revision"
    by (simp_all add: mutation_sign_def mutation_intent_of_def)
  have keep: "good t = good s \<and> alive t = alive s" if "su_exec t = su_exec s" for s t :: "'x supervisor"
    using that by (simp add: good_def alive_def)
  obtain q s1 where 1: "journal_intent env action i service revision now s = (q, s1)" by fastforce
  note f1 = journal_intent_facts [OF 1]
  have k1: "good s1" "alive s1 = alive s" using f1 keep [of s1 s] assms(2) by simp_all
  show ?thesis
  proof (cases q)
    case (Inl e)
    with 1 assms(3) have "r = Inl e" "t = s1" by (auto simp: apply_mutation_def Let_def sbind_def)
    with f1 k1 show ?thesis by simp
  next
    case (Inr seq)
    obtain r2 s2 where 2: "trip LF_AfterIntentRecord s1 = (r2, s2)" by fastforce
    note f2 = trip_facts [OF 2]
    have g2: "good s2" "alive s2 = alive s" "same_rest s s2"
      using f1 f2 k1 keep [of s2 s1] same_rest_trans [of s s1 s2] by simp_all
    show ?thesis
    proof (cases r2)
      case (Inl e)
      with 1 2 Inr assms(3) have "r = Inl e" "t = s2" by (auto simp: apply_mutation_def Let_def sbind_def)
      with g2 show ?thesis by simp
    next
      case r2: (Inr u)
      obtain res s3 where 3: "run_effect env action ?a s2 = (Inr res, s3)"
        using run_effect_total by blast
      note f3 = effect_facts [OF assms(1) g2(1) 3 a(1)]
      let ?rest = "sbind (trip LF_AfterEffect) (\<lambda>_.
        sbind (case res of Inr _ \<Rightarrow> journal_outcome env seq True ''applied'' now
               | Inl e \<Rightarrow> journal_outcome env seq False (executor_error_text e) now) (\<lambda>_.
        sbind (trip LF_AfterOutcomeRecord) (\<lambda>_.
        case res of Inr _ \<Rightarrow> sreturn () | Inl e \<Rightarrow> sfail (SE_Executor (executor_error_text e))))) s3"
      have rest: "?rest = (r, t)"
        using assms(3) 1 2 3 Inr r2 by (simp add: apply_mutation_def Let_def sbind_def)
      have e: "su_exec t = su_exec s3 \<and> same_rest s3 t"
        using rest by (auto simp: sbind_def same_rest_def dest!: trip_facts journal_outcome_facts split: prod.splits sum.splits)
      have res: "(\<exists>u. res = Inr u)" if "r = Inr u" for u
        using rest that by (auto simp: sbind_Inr split: sum.splits)
      have k3: "good t" "alive t = alive s3" "same_rest s t"
        using e keep [of t s3] f3 same_rest_trans [OF g2(3)] same_rest_trans [of s s3 t] by simp_all
      show ?thesis
      proof (cases res)
        case (Inl e')
        then have "alive t = alive s" using f3 g2 k3 by simp
        moreover have "r \<noteq> Inr u" for u using res Inl by auto
        ultimately show ?thesis using k3 by simp
      next
        case (Inr u')
        then have "effect action i service img revision (alive s) (alive t)" using f3 g2 k3 a by simp
        then show ?thesis using k3 by simp
      qed
    qed
  qed
qed

definition within :: "string \<Rightarrow> 'x supervisor \<Rightarrow> 'x supervisor \<Rightarrow> bool" where
  "within name s t \<longleftrightarrow> (good s \<and> canon (alive s) \<longrightarrow>
     good t \<and> canon (alive t) \<and> outside name (alive s) (alive t) \<and> same_rest s t)"

lemma within_refl [simp]: "within name s s"
  by (simp add: within_def outside_def)

lemma within_trans: "within name s t \<Longrightarrow> within name t u \<Longrightarrow> within name s u"
  unfolding within_def using outside_trans same_rest_trans by blast

lemma list_within: "se_ops env = ops \<Longrightarrow> list_instances env s = (r, t) \<Longrightarrow> within name s t"
  using list_facts [of env s r t] by (auto simp: within_def outside_def)

lemma stop_within:
  assumes "se_ops env = ops" and "named_for name i" and "apply_mutation env MA_Stop i service img r now s = (q, t)"
  shows "within name s t"
  unfolding within_def
proof
  assume g: "good s \<and> canon (alive s)"
  note f = apply_facts [OF assms(1) conjunct1 [OF g] assms(3)]
  have "canon (alive t) \<and> outside name (alive s) (alive t)"
  proof (cases "alive t = alive s")
    case True
    then show ?thesis using g by (simp add: outside_def)
  next
    case False
    then show ?thesis using f g assms(2) effect_stop by blast
  qed
  with f show "good t \<and> canon (alive t) \<and> outside name (alive s) (alive t) \<and> same_rest s t" by blast
qed

lemma start_within:
  assumes "se_ops env = ops" and "i \<in> set (instance_ids spec r)"
    and "apply_mutation env MA_Start i (sp_name spec) img r now s = (q, t)"
  shows "within (sp_name spec) s t"
  unfolding within_def
proof
  assume g: "good s \<and> canon (alive s)"
  note f = apply_facts [OF assms(1) conjunct1 [OF g] assms(3)]
  obtain k where i: "i = instance_id (sp_name spec) r k" using assms(2) by (auto simp: instance_ids_def)
  have "canon (alive t) \<and> outside (sp_name spec) (alive s) (alive t)"
  proof (cases "alive t = alive s")
    case True
    then show ?thesis using g by (simp add: outside_def)
  next
    case False
    then show ?thesis using f g effect_start unfolding i by blast
  qed
  with f show "good t \<and> canon (alive t) \<and> outside (sp_name spec) (alive s) (alive t) \<and> same_rest s t" by blast
qed

lemma sfor_within:
  assumes "\<And>b s r t. b \<in> set bs \<Longrightarrow> f b s = (r, t) \<Longrightarrow> within name s t" and "sfor bs f s = (r, t)"
  shows "within name s t"
  using assms
proof (induction bs arbitrary: s)
  case Nil
  then show ?case by simp
next
  case (Cons b bs)
  obtain q u where q: "f b s = (q, u)" by fastforce
  then have u: "within name s u" using Cons.prems(1) [of b s q u] by simp
  show ?case
  proof (cases q)
    case (Inl e)
    with q Cons.prems(2) u show ?thesis by (auto simp: sbind_def)
  next
    case (Inr a)
    with q Cons.prems(2) have rest: "sfor bs f u = (r, t)" by (simp add: sbind_def)
    have "within name u t"
    proof (rule Cons.IH [OF _ rest])
      fix b' s' r' t'
      assume "b' \<in> set bs" "f b' s' = (r', t')"
      then show "within name s' t'" using Cons.prems(1) [of b' s' r' t'] by simp
    qed
    with u show ?thesis by (rule within_trans)
  qed
qed

lemma wait_within: "se_ops env = ops \<Longrightarrow> wait_until_healthy env i n s = (r, t) \<Longrightarrow> within name s t"
proof (induction n arbitrary: s)
  case (Suc n)
  obtain q u where q: "list_instances env s = (q, u)" by fastforce
  from list_within [OF Suc.prems(1) this] have u: "within name s u" .
  with q Suc.prems(2) Suc.IH [OF Suc.prems(1), of u] show ?case
    by (cases q) (auto simp: sbind_def split: if_splits intro: within_trans)
qed simp

lemma start_batch_within:
  assumes "se_ops env = ops" and "set is \<subseteq> set (instance_ids spec new)"
    and "start_batch env spec old new now is s = (Inr (Inr u), t)"
  shows "within (sp_name spec) s t"
  using assms(2,3)
proof (induction "is" arbitrary: s)
  case (Cons i "is")
  obtain q s1 where q: "apply_mutation env MA_Start i (sp_name spec) (sp_image spec) new now s = (q, s1)" by fastforce
  have w: "within (sp_name spec) s s1" using start_within [OF assms(1) _ q] Cons.prems(1) by simp
  have "start_batch env spec old new now is s1 = (Inr (Inr u), t)"
    using Cons.prems(2) q
    by (cases q; (cases "projl q")?) (auto simp: sbind_Inr split: supervisor_error.splits)
  with Cons.IH [of s1] Cons.prems(1) w show ?case by (auto intro: within_trans)
qed simp

lemma health_gate_within:
  assumes "se_ops env = ops" and "health_gate env spec old new now is s = (Inr (Inr u), t)"
  shows "within (sp_name spec) s t"
  using assms(2)
proof (induction "is" arbitrary: s)
  case (Cons i "is")
  then obtain s1 where "wait_until_healthy env i (unat (up_health_attempts (sp_update spec))) s = (Inr True, s1)"
    "health_gate env spec old new now is s1 = (Inr (Inr u), t)"
    by (auto simp: sbind_Inr split: if_splits)
  with Cons.IH wait_within [OF assms(1)] show ?case by (blast intro: within_trans)
qed simp

lemma stop_batch_within:
  assumes "se_ops env = ops" and "\<forall>i \<in> set is. named_for (sp_name spec) i"
    and "stop_batch env spec new now is s = (Inr r, t)"
  shows "within (sp_name spec) s t"
  using assms(2,3)
proof (induction "is" arbitrary: s r)
  case (Cons i "is")
  then obtain vs s1 where l: "list_instances env s = (Inr vs, s1)" by (auto simp: sbind_Inr)
  note w = list_within [OF assms(1) l, of "sp_name spec"]
  from Cons.prems(2) l consider
      s2 r' where "apply_mutation env MA_Stop i (sp_name spec) (sp_image spec) new now s1 = (Inr (), s2)"
        "stop_batch env spec new now is s2 = (Inr r', t)"
    | "stop_batch env spec new now is s1 = (Inr r, t)"
    by (auto simp: sbind_Inr split: if_splits)
  then show ?case
  proof cases
    case 1
    have "within (sp_name spec) s1 s2" using stop_within [OF assms(1) _ 1(1)] Cons.prems(1) by simp
    moreover have "within (sp_name spec) s2 t" using Cons.IH [OF _ 1(2)] Cons.prems(1) by simp
    ultimately show ?thesis using w within_trans by blast
  next
    case 2
    with Cons.IH [OF _ 2] Cons.prems(1) w show ?thesis by (auto intro: within_trans)
  qed
qed simp

lemma update_steps_within:
  assumes "se_ops env = ops"
    and "\<forall>st \<in> set sts. set (rs_start st) \<subseteq> set (instance_ids spec new) \<and> (\<forall>i \<in> set (rs_stop st). named_for (sp_name spec) i)"
    and "update_steps env spec old new now sts s = (Inr (Inr r), t)"
  shows "within (sp_name spec) s t"
  using assms(2,3)
proof (induction sts arbitrary: s r)
  case (Cons st sts)
  then obtain s1 s2 s3 stopped r' where
    "start_batch env spec old new now (rs_start st) s = (Inr (Inr ()), s1)"
    "health_gate env spec old new now (rs_start st) s1 = (Inr (Inr ()), s2)"
    "stop_batch env spec new now (rs_stop st) s2 = (Inr stopped, s3)"
    "update_steps env spec old new now sts s3 = (Inr (Inr r'), t)"
    by (auto simp: sbind_Inr scase_Inr)
  with start_batch_within [OF assms(1)] health_gate_within [OF assms(1)] stop_batch_within [OF assms(1)] Cons
  show ?case by (meson list.set_intros within_trans)
qed simp

end

end
