(* ===== verification/Convergence.thy ===== *)
theory Convergence
  imports Supervised
begin

text \<open>
  What a pass of the supervisor achieves: the instances of every service at the desired revision are
  exactly the desired ones, nothing else runs, and the catalog holds what is healthy.
\<close>

section \<open>Instances of a revision\<close>

definition at_revision :: "string \<Rightarrow> u64 \<Rightarrow> (string \<rightharpoonup> instance_view) \<Rightarrow> string set" where
  "at_revision name r m = {i. \<exists>v. m i = Some v \<and> iv_service v = name \<and> iv_revision v = r}"

lemma at_revision_start:
  "effect MA_Start i name img r m n \<Longrightarrow> at_revision name r n = insert i (at_revision name r m)"
  by (auto simp: effect_def at_revision_def split: if_splits)

lemma at_revision_stop: "effect MA_Stop i service img q m n \<Longrightarrow> at_revision name r n = at_revision name r m - {i}"
  by (auto simp: effect_def at_revision_def split: if_splits)

lemma at_revision_named: "canon m \<Longrightarrow> i \<in> at_revision name r m \<Longrightarrow> named_for name i"
  by (auto simp: at_revision_def dest: canon_named)

lemma at_revision_outside:
  assumes "canon m" and "canon n" and "outside name m n" and "name' \<noteq> name"
  shows "at_revision name' r n = at_revision name' r m"
proof -
  have "n i = m i" if "named_for name' i" for i
    using that assms(3,4) named_for_unique [of name' i name] by (auto simp: outside_def)
  then have "i \<in> at_revision name' r n \<longleftrightarrow> i \<in> at_revision name' r m" if "named_for name' i" for i
    using that by (simp add: at_revision_def)
  then show ?thesis using at_revision_named [OF assms(1)] at_revision_named [OF assms(2)] by blast
qed

lemma sfor_Cons_Inr: "sfor (b # bs) f s = (Inr u, t) \<longleftrightarrow> (\<exists>s1. f b s = (Inr (), s1) \<and> sfor bs f s1 = (Inr u, t))"
  by (auto simp: sbind_Inr)

lemma scale_grow: "scale_service env spec r now report s = (Inr report', t) \<Longrightarrow> rr_rolled_back report' = rr_rolled_back report"
  by (auto simp: scale_service_def sbind_Inr Let_def)

lemma converge_service_cases:
  assumes "converge_service env observed r now spec report s = (Inr report', t)"
    and "stale = filter (\<lambda>v. iv_service v = sp_name spec \<and> iv_revision v \<noteq> r) observed"
  obtains (scaled) "scale_service env spec r now report s = (Inr report', t)"
  | (aborted) reason where "rolling_update env spec r stale now s = (Inr (Inl reason), t)"
      "report' = report\<lparr>rr_rolled_back := rr_rolled_back report @ [sp_name spec]\<rparr>"
  | (updated) started stopped s1 where "rolling_update env spec r stale now s = (Inr (Inr (started, stopped)), s1)"
      "scale_service env spec r now (report\<lparr>rr_started := rr_started report @ started, rr_stopped := rr_stopped report @ stopped\<rparr>) s1
        = (Inr report', t)"
proof (cases "stale = []")
  case True
  then show thesis using assms scaled by (simp add: converge_service_def)
next
  case False
  then obtain res s1 where u: "rolling_update env spec r stale now s = (Inr res, s1)"
    and k: "(case res of Inl _ \<Rightarrow> sreturn (report\<lparr>rr_rolled_back := rr_rolled_back report @ [sp_name spec]\<rparr>)
        | Inr (started, stopped) \<Rightarrow> scale_service env spec r now
            (report\<lparr>rr_started := rr_started report @ started, rr_stopped := rr_stopped report @ stopped\<rparr>)) s1 = (Inr report', t)"
    using assms(1) unfolding converge_service_def assms(2) [symmetric] by (auto simp: sbind_Inr)
  show thesis
  proof (cases res)
    case (Inl reason)
    with u k show thesis by (auto intro: aborted)
  next
    case (Inr p)
    with u k show thesis by (cases p) (auto intro: updated)
  qed
qed

lemma converge_service_grow:
  assumes "converge_service env observed r now spec report s = (Inr report', t)"
  shows "\<exists>xs. rr_rolled_back report' = rr_rolled_back report @ xs"
  using assms by (cases rule: converge_service_cases [OF _ refl]) (auto dest: scale_grow)

lemma converge_services_grow:
  "converge_services env observed r now specs report s = (Inr report', t) \<Longrightarrow> \<exists>xs. rr_rolled_back report' = rr_rolled_back report @ xs"
proof (induction specs arbitrary: report s)
  case (Cons spec specs)
  then obtain report1 s1 where "converge_service env observed r now spec report s = (Inr report1, s1)"
    "converge_services env observed r now specs report1 s1 = (Inr report', t)" by (auto simp: sbind_Inr)
  with converge_service_grow [of env observed r now spec report s report1 s1] Cons.IH [of report1 s1] show ?case by auto
qed simp

lemma track_view_restarts: "set (snd (fold (track_view w) vs (h, rs))) \<subseteq> set rs \<union> set vs"
proof (induction vs arbitrary: h rs)
  case (Cons v vs)
  obtain h' rs' where t: "track_view w v (h, rs) = (h', rs')" by fastforce
  then have "set rs' \<subseteq> insert v (set rs)"
    by (auto simp: track_view_def Let_def split: option.splits if_splits)
  with Cons.IH [of h' rs'] t show ?case by auto
qed simp

context workload_executor
begin

lemma rolling_within:
  assumes "se_ops env = ops" and "\<forall>v \<in> set stale. named_for (sp_name spec) (iv_instance_id v)"
    and "rolling_update env spec new stale now s = (Inr (Inr r), t)"
  shows "within (sp_name spec) s t"
proof -
  let ?p = "\<lparr>max_surge = up_max_surge (sp_update spec), max_unavailable = up_max_unavailable (sp_update spec)\<rparr>"
  obtain steps where plan: "rollout_plan (map iv_instance_id stale) (instance_ids spec new) ?p = Some (Inr steps)"
    and run: "update_steps env spec (if stale = [] then new else Max (set (map iv_revision stale))) new now steps s = (Inr (Inr r), t)"
    using assms(3) by (auto simp: rolling_update_def Let_def split: option.splits sum.splits)
  have "\<forall>st \<in> set steps. set (rs_start st) \<subseteq> set (instance_ids spec new) \<and> (\<forall>i \<in> set (rs_stop st). named_for (sp_name spec) i)"
    using rollout_plan_sets [OF plan] assms(2) by fastforce
  from update_steps_within [OF assms(1) this run] show ?thesis .
qed

lemma sfor_start:
  assumes "se_ops env = ops" and "good s" and "canon (alive s)" and "set is \<subseteq> set (instance_ids spec r)"
    and "sfor is (\<lambda>i. apply_mutation env MA_Start i (sp_name spec) img r now) s = (Inr u, t)"
  shows "within (sp_name spec) s t \<and> at_revision (sp_name spec) r (alive t) = set is \<union> at_revision (sp_name spec) r (alive s)"
  using assms(2-5)
proof (induction "is" arbitrary: s)
  case (Cons i "is")
  from Cons.prems(4) obtain s1 where 1: "apply_mutation env MA_Start i (sp_name spec) img r now s = (Inr (), s1)"
    and rest: "sfor is (\<lambda>i. apply_mutation env MA_Start i (sp_name spec) img r now) s1 = (Inr u, t)"
    unfolding sfor_Cons_Inr by blast
  have w: "within (sp_name spec) s s1" using start_within [OF assms(1) _ 1] Cons.prems(3) by simp
  then have g: "good s1" "canon (alive s1)" using Cons.prems(1,2) by (simp_all add: within_def)
  have e: "effect MA_Start i (sp_name spec) img r (alive s) (alive s1)"
    using apply_facts [OF assms(1) Cons.prems(1) 1] by simp
  from Cons.IH [OF g _ rest] Cons.prems(3) within_trans [OF w] at_revision_start [OF e] show ?case by auto
qed simp

lemma sfor_stop:
  assumes "se_ops env = ops" and "good s" and "sfor vs (\<lambda>v. apply_mutation env MA_Stop (f v) (g v) (h v) (q v) now) s = (Inr u, t)"
  shows "good t \<and> same_rest s t \<and> alive t = (\<lambda>i. if i \<in> f ` set vs then None else alive s i)"
  using assms(2,3)
proof (induction vs arbitrary: s)
  case (Cons v vs)
  from Cons.prems(2) obtain s1 where 1: "apply_mutation env MA_Stop (f v) (g v) (h v) (q v) now s = (Inr (), s1)"
    and rest: "sfor vs (\<lambda>v. apply_mutation env MA_Stop (f v) (g v) (h v) (q v) now) s1 = (Inr u, t)"
    unfolding sfor_Cons_Inr by blast
  note a = apply_facts [OF assms(1) Cons.prems(1) 1]
  then have s1: "alive s1 i = (if i = f v then None else alive s i)" for i by (simp add: effect_def)
  from a have "good s1" "same_rest s s1" by simp_all
  with Cons.IH [OF _ rest] have "good t" "same_rest s t" "alive t i = (if i \<in> f ` set vs then None else alive s1 i)" for i
    by (auto intro: same_rest_trans)
  then show ?case by (simp add: s1 fun_eq_iff)
qed simp

lemma canon_restrict: "canon m \<Longrightarrow> canon (\<lambda>i. if i \<in> A then None else m i)"
  by (auto simp: canon_def split: if_splits)

lemma scale_facts:
  assumes "se_ops env = ops" and "good s" and "canon (alive s)"
    and "scale_service env spec r now report s = (Inr report', t)"
  shows "within (sp_name spec) s t \<and> at_revision (sp_name spec) r (alive t) = set (instance_ids spec r)
    \<and> rr_rolled_back report' = rr_rolled_back report"
proof -
  let ?sel = "\<lambda>vs. map iv_instance_id (filter (\<lambda>v. iv_service v = sp_name spec \<and> iv_revision v = r) vs)"
  let ?target = "instance_ids spec r"
  obtain vs s1 where l: "list_instances env s = (Inr vs, s1)" using assms(4) by (auto simp: scale_service_def sbind_Inr)
  let ?missing = "set_difference ?target (?sel vs)" and ?surplus = "set_difference (?sel vs) ?target"
  obtain s2 where st: "sfor ?missing (\<lambda>i. apply_mutation env MA_Start i (sp_name spec) (sp_image spec) r now) s1 = (Inr (), s2)"
    and sp: "sfor ?surplus (\<lambda>i. apply_mutation env MA_Stop i (sp_name spec) (sp_image spec) r now) s2 = (Inr (), t)"
    and report: "rr_rolled_back report' = rr_rolled_back report"
    using assms(4) l by (auto simp: scale_service_def sbind_Inr Let_def)
  note f = list_facts [OF assms(1,2) l]
  have "at_revision (sp_name spec) r (alive s) = set (?sel vs)"
  proof -
    have "v \<in> set vs \<longleftrightarrow> alive s (iv_instance_id v) = Some v" for v using f by simp
    moreover have "alive s i = Some v \<Longrightarrow> iv_instance_id v = i" for i v using assms(3) by (simp add: canon_def)
    ultimately have "i \<in> at_revision (sp_name spec) r (alive s) \<longleftrightarrow> i \<in> set (?sel vs)" for i
      unfolding at_revision_def set_map set_filter by blast
    then show ?thesis by blast
  qed
  then have run: "set (?sel vs) = at_revision (sp_name spec) r (alive s1)" "canon (alive s1)" "good s1"
    using f assms(3) by simp_all
  have sub: "set ?missing \<subseteq> set ?target" by auto
  note s2 = sfor_start [OF assms(1) run(3,2) sub st]
  then have g2: "good s2" "canon (alive s2)" using run by (simp_all add: within_def)
  note t = sfor_stop [OF assms(1) g2(1), where f = "\<lambda>i. i" and g = "\<lambda>_. sp_name spec" and h = "\<lambda>_. sp_image spec" and q = "\<lambda>_. r", OF sp]
  have "\<forall>i \<in> set ?surplus. named_for (sp_name spec) i"
    using at_revision_named [OF run(2)] run(1) by auto
  then have "within (sp_name spec) s2 t"
    using t canon_restrict [of "alive s2" "set ?surplus"] by (auto simp: within_def outside_def)
  then have w: "within (sp_name spec) s t"
    using s2 list_within [OF assms(1) l, of "sp_name spec"] within_trans by blast
  have "at_revision (sp_name spec) r (alive t) = at_revision (sp_name spec) r (alive s2) - set ?surplus"
    using t by (auto simp: at_revision_def split: if_splits)
  also have "\<dots> = set ?target" using s2 run(1) by auto
  finally show ?thesis using w report by simp
qed

lemma converge_service_facts:
  assumes "se_ops env = ops" and "good s" and "canon (alive s)" and "\<forall>v \<in> set observed. named_for (iv_service v) (iv_instance_id v)"
    and "converge_service env observed r now spec report s = (Inr report', t)"
  shows "rr_rolled_back report' = rr_rolled_back report \<longrightarrow>
    within (sp_name spec) s t \<and> at_revision (sp_name spec) r (alive t) = set (instance_ids spec r)"
proof -
  from assms(5) show ?thesis
  proof (cases rule: converge_service_cases [OF _ refl, consumes 1, case_names scaled aborted updated])
    case scaled
    then show ?thesis using scale_facts [OF assms(1-3)] by blast
  next
    case (aborted reason)
    then show ?thesis by simp
  next
    case (updated started stopped s1)
    have "within (sp_name spec) s s1" using assms(4) by (intro rolling_within [OF assms(1) _ updated(1)]) auto
    moreover from this have g: "good s1" "canon (alive s1)" using assms(2,3) by (simp_all add: within_def)
    ultimately show ?thesis using scale_facts [OF assms(1) g updated(2)] within_trans by blast
  qed
qed

lemma converge_services_facts:
  assumes "se_ops env = ops" and "good s" and "canon (alive s)" and "\<forall>v \<in> set observed. named_for (iv_service v) (iv_instance_id v)"
    and "distinct (map sp_name specs)"
    and "converge_services env observed r now specs report s = (Inr report', t)" and "rr_rolled_back report' = []"
  shows "good t \<and> canon (alive t) \<and> same_rest s t
    \<and> (\<forall>spec \<in> set specs. at_revision (sp_name spec) r (alive t) = set (instance_ids spec r))
    \<and> (\<forall>name. name \<notin> sp_name ` set specs \<longrightarrow> at_revision name r (alive t) = at_revision name r (alive s))"
  using assms(2,3,5,6)
proof (induction specs arbitrary: report s)
  case (Cons spec specs)
  from Cons.prems(4) obtain report1 s1 where c: "converge_service env observed r now spec report s = (Inr report1, s1)"
    and rest: "converge_services env observed r now specs report1 s1 = (Inr report', t)" by (auto simp: sbind_Inr)
  have same: "rr_rolled_back report1 = []" "rr_rolled_back report = []"
    using converge_services_grow [OF rest] converge_service_grow [OF c] assms(7) by auto
  note f = converge_service_facts [OF assms(1) Cons.prems(1,2) assms(4) c]
  then have w: "within (sp_name spec) s s1" "at_revision (sp_name spec) r (alive s1) = set (instance_ids spec r)"
    using same by auto
  then have g: "good s1" "canon (alive s1)" "same_rest s s1" "outside (sp_name spec) (alive s) (alive s1)"
    using Cons.prems(1,2) by (simp_all add: within_def)
  have d: "distinct (map sp_name specs)" "sp_name spec \<notin> sp_name ` set specs" using Cons.prems(3) by simp_all
  note ih = Cons.IH [OF g(1,2) d(1) rest]
  have "at_revision name r (alive s1) = at_revision name r (alive s)" if "name \<noteq> sp_name spec" for name
    using at_revision_outside [OF Cons.prems(2) g(2,4) that] .
  with ih w(2) d(2) same_rest_trans [OF g(3)] show ?case by auto
qed simp

section \<open>Health, orphans and the catalog\<close>

definition shape :: "'x supervisor \<Rightarrow> string \<rightharpoonup> string \<times> u64" where
  "shape s = (\<lambda>i. map_option (\<lambda>v. (iv_service v, iv_revision v)) (alive s i))"

lemma restart_shape:
  assumes "se_ops env = ops" and "good s" and "\<forall>v \<in> set vs. shape s (iv_instance_id v) = Some (iv_service v, iv_revision v)"
    and "sfor vs (\<lambda>v. sbind (apply_mutation env MA_Stop (iv_instance_id v) (iv_service v) (iv_image v) (iv_revision v) now) (\<lambda>_.
             apply_mutation env MA_Start (iv_instance_id v) (iv_service v) (iv_image v) (iv_revision v) now)) s = (Inr u, t)"
  shows "good t \<and> shape t = shape s"
  using assms(2-4)
proof (induction vs arbitrary: s)
  case (Cons v vs)
  from Cons.prems(3) obtain s1 s2 where
      1: "apply_mutation env MA_Stop (iv_instance_id v) (iv_service v) (iv_image v) (iv_revision v) now s = (Inr (), s1)"
    and 2: "apply_mutation env MA_Start (iv_instance_id v) (iv_service v) (iv_image v) (iv_revision v) now s1 = (Inr (), s2)"
    and rest: "sfor vs (\<lambda>v. sbind (apply_mutation env MA_Stop (iv_instance_id v) (iv_service v) (iv_image v) (iv_revision v) now) (\<lambda>_.
             apply_mutation env MA_Start (iv_instance_id v) (iv_service v) (iv_image v) (iv_revision v) now)) s2 = (Inr u, t)"
    unfolding sfor_Cons_Inr sbind_Inr by auto
  note a = apply_facts [OF assms(1) Cons.prems(1) 1]
  then have b: "good s2" "effect MA_Start (iv_instance_id v) (iv_service v) (iv_image v) (iv_revision v) (alive s1) (alive s2)"
    using apply_facts [OF assms(1) _ 2] by simp_all
  have "shape s2 i = shape s i" for i
    using a b(2) Cons.prems(2) by (auto simp: shape_def effect_def)
  then have "shape s2 = shape s" by blast
  with Cons.IH [OF b(1) _ rest] Cons.prems(2) show ?case by simp
qed simp

lemma enforce_shape:
  assumes "se_ops env = ops" and "good s" and "enforce_health env w now s = (Inr is, t)"
  shows "good t \<and> shape t = shape s"
proof -
  obtain vs s1 where l: "list_instances env s = (Inr vs, s1)" using assms(3) by (auto simp: enforce_health_def sbind_Inr)
  note f = list_facts [OF assms(1,2) l]
  obtain h restart where fold: "fold (track_view w) vs
      (om_retain (\<lambda>i _. list_ex (\<lambda>v. iv_instance_id v = i) vs) (ss_health (su_state s1)), []) = (h, restart)" by fastforce
  let ?s = "s1\<lparr>su_state := (su_state s1)\<lparr>ss_health := h\<rparr>\<rparr>"
  obtain u where r: "sfor restart (\<lambda>v. sbind (apply_mutation env MA_Stop (iv_instance_id v) (iv_service v) (iv_image v) (iv_revision v) now) (\<lambda>_.
             apply_mutation env MA_Start (iv_instance_id v) (iv_service v) (iv_image v) (iv_revision v) now)) ?s = (Inr u, t)"
    using assms(3) l fold by (auto simp: enforce_health_def sbind_Inr Let_def)
  have s: "good ?s" "shape ?s = shape s" using f by (simp_all add: good_def shape_def alive_def)
  have "set restart \<subseteq> set vs" using track_view_restarts [of w vs _ "[]"] fold by (metis Un_empty_left list.set(1) snd_conv)
  then have "\<forall>v \<in> set restart. shape ?s (iv_instance_id v) = Some (iv_service v, iv_revision v)"
    using f unfolding s(2) by (auto simp: shape_def)
  from restart_shape [OF assms(1) s(1) this r] s(2) show ?thesis by simp
qed

lemma shape_revision: "shape t = shape s \<Longrightarrow> at_revision name r (alive t) = at_revision name r (alive s)"
proof -
  assume a: "shape t = shape s"
  have "i \<in> at_revision name r (alive u) \<longleftrightarrow> shape u i = Some (name, r)" for u i
    by (auto simp: at_revision_def shape_def)
  with a show ?thesis by (intro set_eqI) simp
qed

end

text \<open>The catalog of a listing holds exactly its running, healthy and addressed instances.\<close>

definition serving :: "instance_view \<Rightarrow> bool" where
  "serving v \<longleftrightarrow> iv_running v \<and> iv_healthy v \<and> iv_address v \<noteq> None"

definition endpoint_at :: "i64 \<Rightarrow> instance_view \<Rightarrow> catalog_endpoint" where
  "endpoint_at now v = endpoint_of v (the (iv_address v)) now"

definition add_endpoint :: "i64 \<Rightarrow> instance_view \<Rightarrow> endpoints_spec \<Rightarrow> endpoints_spec" where
  "add_endpoint now v f = (if serving v then f((iv_service v, iv_instance_id v) \<mapsto> endpoint_at now v) else f)"

lemma build_catalog_fold:
  assumes "build_catalog now vs c = Inr d" and "catalog_wf c"
  shows "catalog_wf d \<and> (\<forall>v \<in> set vs. serving v \<longrightarrow> unexpired now (endpoint_at now v))
    \<and> endpoints_at d = fold (add_endpoint now) vs (endpoints_at c)"
  using assms
proof (induction vs arbitrary: c)
  case (Cons v vs)
  show ?case
  proof (cases "serving v")
    case True
    then obtain a where a: "iv_address v = Some a" by (auto simp: serving_def)
    obtain c' where p: "catalog_publish (iv_service v) (endpoint_at now v) now c = (Inr (), c')"
      and rest: "build_catalog now vs c' = Inr d"
      using Cons.prems(1) True a by (auto simp: serving_def endpoint_at_def split: prod.splits sum.splits)
    have e: "publishable (iv_service v) (endpoint_at now v) now"
      using p by (auto simp: catalog_publish_def publishable_def split: if_splits)
    have c': "catalog_wf c'" "endpoints_at c' = (endpoints_at c)((iv_service v, iv_instance_id v) \<mapsto> endpoint_at now v)"
      using catalog_call_refines [OF Cons.prems(2), of "CO_Publish (iv_service v) (endpoint_at now v) now"] p e
      by (simp_all add: endpoint_at_def endpoint_of_def)
    have "add_endpoint now v (endpoints_at c) = endpoints_at c'" using True c'(2) by (simp add: add_endpoint_def)
    with Cons.IH [OF rest c'(1)] True e show ?thesis by (simp add: publishable_def)
  next
    case False
    then have "build_catalog now vs c = Inr d" using Cons.prems(1) by (auto simp: serving_def split: if_splits)
    from Cons.IH [OF this Cons.prems(2)] False show ?thesis by (simp add: add_endpoint_def)
  qed
qed simp

lemma fold_serving:
  assumes "distinct (map iv_instance_id vs)"
  shows "fold (add_endpoint now) vs Map.empty (s, i) = Some e
    \<longleftrightarrow> (\<exists>v \<in> set vs. serving v \<and> iv_service v = s \<and> iv_instance_id v = i \<and> e = endpoint_at now v)"
  using assms
proof (induction vs rule: rev_induct)
  case (snoc v vs)
  then have "iv_instance_id v \<notin> iv_instance_id ` set vs" by simp
  then have "iv_instance_id u \<noteq> iv_instance_id v" if "u \<in> set vs" for u using that by (metis image_eqI)
  moreover have "fold (add_endpoint now) (vs @ [v]) Map.empty (s, i) = (if serving v \<and> (s, i) = (iv_service v, iv_instance_id v)
      then Some (endpoint_at now v) else fold (add_endpoint now) vs Map.empty (s, i))" by (simp add: add_endpoint_def)
  ultimately show ?case using snoc by auto
qed simp

lemma build_catalog_resolve:
  assumes "build_catalog now vs [] = Inr c" and "distinct (map iv_instance_id vs)"
  shows "set (fst (catalog_resolve s now c)) = endpoint_at now ` {v \<in> set vs. serving v \<and> iv_service v = s}"
proof -
  have n: "endpoints_at [] = Map.empty" by (auto simp: endpoints_at_def om_get_def)
  note b = build_catalog_fold [OF assms(1) catalog_wf_Nil, unfolded n]
  have "endpoints_at c (s, i) = Some e \<longleftrightarrow> (\<exists>v \<in> set vs. serving v \<and> iv_service v = s \<and> iv_instance_id v = i \<and> e = endpoint_at now v)" for i e
    using b fold_serving [OF assms(2)] by simp
  moreover have "ce_healthy (endpoint_at now v)" for v by (simp add: endpoint_at_def endpoint_of_def)
  ultimately show ?thesis using resolve_exact [of c s now] b by auto
qed

lemma endpoint_at_task [simp]: "ce_task_id (endpoint_at now v) = iv_instance_id v"
  by (simp add: endpoint_at_def endpoint_of_def)

definition discoverable :: "string \<Rightarrow> (string \<rightharpoonup> instance_view) \<Rightarrow> string set" where
  "discoverable service m = {i. \<exists>v. m i = Some v \<and> iv_service v = service \<and> serving v}"

definition resolved_tasks :: "string \<Rightarrow> i64 \<Rightarrow> service_catalog \<Rightarrow> string set" where
  "resolved_tasks service now c = ce_task_id ` set (fst (catalog_resolve service now c))"

lemma publish_catalog_facts:
  "publish_catalog env vs now s = (Inr u, t) \<Longrightarrow> build_catalog now vs [] = Inr (su_catalog t) \<and> su_exec t = su_exec s
    \<and> su_catalog_file t = Some (se_catalog_json env (su_catalog t)) \<and> su_state t = su_state s"
  by (auto simp: publish_catalog_def catalog_snapshot_def trip_def fs_write_def write_fault_next_def sbind_Inr
      split: sum.splits if_splits prod.splits bool.splits append_fault.splits list.splits)

lemma save_state_facts:
  "save_state env r s = (Inr u, t) \<Longrightarrow> su_exec t = su_exec s \<and> su_catalog t = su_catalog s
    \<and> su_state t = (su_state s)\<lparr>ss_applied_revision := r\<rparr> \<and> su_state_file t = Some (se_state_json env (su_state t))"
  by (auto simp: save_state_def Let_def fs_write_def write_fault_next_def sbind_Inr
      split: sum.splits prod.splits bool.splits append_fault.splits list.splits)

context workload_executor
begin

lemma listing_resolves:
  assumes "se_ops env = ops" and "good s" and "list_instances env s = (Inr vs, s1)" and "build_catalog now vs [] = Inr c"
  shows "resolved_tasks service now c = discoverable service (alive s)"
proof -
  note f = list_facts [OF assms(1-3)]
  have own: "alive s i = Some v \<Longrightarrow> iv_instance_id v = i" for i v
    using live_id assms(2) by (simp add: good_def alive_def)
  have "resolved_tasks service now c = iv_instance_id ` {v \<in> set vs. serving v \<and> iv_service v = service}"
    using build_catalog_resolve [OF assms(4), of service] f by (auto simp: resolved_tasks_def image_iff)
  also have "\<dots> = discoverable service (alive s)"
  proof (intro set_eqI iffI)
    fix i
    assume "i \<in> discoverable service (alive s)"
    then obtain v where "alive s i = Some v" "iv_service v = service" "serving v" by (auto simp: discoverable_def)
    with own f show "i \<in> iv_instance_id ` {v \<in> set vs. serving v \<and> iv_service v = service}" by (intro image_eqI [of _ _ v]) auto
  next
    fix i
    assume "i \<in> iv_instance_id ` {v \<in> set vs. serving v \<and> iv_service v = service}"
    then show "i \<in> discoverable service (alive s)" using f by (auto simp: discoverable_def)
  qed
  finally show ?thesis .
qed

lemma recover_facts:
  assumes "se_ops env = ops" and "good s" and "recover_ambiguous env now s = (r, t)"
  shows "good t \<and> alive t = alive s \<and> su_workload t = su_workload s"
proof (cases "node_journal_load (se_codec env) (su_journal s)")
  case (Inl e)
  with assms show ?thesis by (simp add: recover_ambiguous_def)
next
  case (Inr es)
  obtain q s1 where l: "list_instances env s = (q, s1)" by fastforce
  note f = list_facts [OF assms(1,2) l]
  have "su_exec t = su_exec s1 \<and> su_workload t = su_workload s1" if "ambiguous es \<noteq> []"
    using that assms(3) l Inr by (cases q) (auto simp: recover_ambiguous_def sbind_def Let_def split: prod.splits sum.splits)
  moreover have "t = s" if "ambiguous es = []" using that assms(3) Inr by (simp add: recover_ambiguous_def)
  ultimately show ?thesis using f assms(2) by (cases "ambiguous es = []") (auto simp: good_def alive_def same_rest_def)
qed

lemma desired_converges:
  assumes "se_ops env = ops" and "good s" and "canon (alive s)" and "workload_validate w = Inr ()"
    and "\<forall>v \<in> set observed. named_for (iv_service v) (iv_instance_id v)"
    and "reconcile_desired env w observed now report s = (Inr report', t)" and "rr_rolled_back report' = []"
  shows "(\<forall>spec \<in> set (dw_services w). at_revision (sp_name spec) (dw_revision w) (alive t) = set (instance_ids spec (dw_revision w)))
    \<and> (\<forall>i v. alive t i = Some v \<longrightarrow> iv_service v \<in> sp_name ` set (dw_services w))
    \<and> ss_applied_revision (su_state t) = dw_revision w \<and> su_state_file t = Some (se_state_json env (su_state t))
    \<and> (\<forall>service. resolved_tasks service now (su_catalog t) = discoverable service (alive t))"
proof -
  let ?names = "sp_name ` set (dw_services w)"
  obtain report1 s1 post s2 s3 restarted s4 vs s5 s6 where
      1: "converge_services env observed (dw_revision w) now (dw_services w) report s = (Inr report1, s1)"
    and 2: "list_instances env s1 = (Inr post, s2)"
    and 3: "sfor (filter (\<lambda>v. iv_service v \<notin> ?names) post) (stop_view env now) s2 = (Inr (), s3)"
    and 4: "enforce_health env w now s3 = (Inr restarted, s4)"
    and 5: "list_instances env s4 = (Inr vs, s5)"
    and 6: "publish_catalog env vs now s5 = (Inr (), s6)"
    and 7: "rr_rolled_back report' = rr_rolled_back report1"
      "save_state env (if rr_rolled_back report1 = [] then dw_revision w else ss_applied_revision (su_state s6)) s6 = (Inr (), t)"
    using assms(6) by (auto simp: reconcile_desired_def sbind_Inr Let_def)
  have d: "distinct (map sp_name (dw_services w))" using workload_validate_ok(2) [OF assms(4)] .
  note f1 = converge_services_facts [OF assms(1-3,5) d 1 7(1) [symmetric, unfolded assms(7)]]
  note f2 = list_facts [OF assms(1) conjunct1 [OF f1] 2]
  have f3: "good s3 \<and> same_rest s2 s3
      \<and> alive s3 = (\<lambda>i. if i \<in> iv_instance_id ` set (filter (\<lambda>v. iv_service v \<notin> ?names) post) then None else alive s2 i)"
    using 3 f2 unfolding stop_view_def by (intro sfor_stop [OF assms(1)]) auto
  have s3: "alive s3 i = Some v \<longleftrightarrow> alive s1 i = Some v \<and> iv_service v \<in> ?names" for i v
  proof -
    have own: "iv_instance_id u = i" if "alive s1 i = Some u" for u using that f1 by (simp add: canon_def)
    have "i \<in> iv_instance_id ` set (filter (\<lambda>v. iv_service v \<notin> ?names) post) \<longleftrightarrow> (\<exists>u. alive s1 i = Some u \<and> iv_service u \<notin> ?names)"
      using f2 own by (auto simp: image_iff)
    with f2 f3 show ?thesis by auto
  qed
  note f4 = enforce_shape [OF assms(1) conjunct1 [OF f3] 4]
  note f5 = list_facts [OF assms(1) conjunct1 [OF f4] 5]
  note f6 = publish_catalog_facts [OF 6]
  have t: "alive t = alive s4" "su_catalog t = su_catalog s6" "ss_applied_revision (su_state t) = dw_revision w"
    "su_state_file t = Some (se_state_json env (su_state t))"
    using save_state_facts [OF 7(2)] 7(1) assms(7) f5 f6 by (auto simp: alive_def)
  have "at_revision (sp_name spec) (dw_revision w) (alive t) = set (instance_ids spec (dw_revision w))" if "spec \<in> set (dw_services w)" for spec
  proof -
    have "at_revision (sp_name spec) (dw_revision w) (alive t) = at_revision (sp_name spec) (dw_revision w) (alive s3)"
      unfolding t(1) by (rule shape_revision [OF conjunct2 [OF f4]])
    also have "\<dots> = at_revision (sp_name spec) (dw_revision w) (alive s1)"
    proof -
      have "sp_name spec \<in> ?names" using that by (rule imageI)
      then show ?thesis unfolding at_revision_def s3 by auto
    qed
    finally show ?thesis using f1 that by simp
  qed
  moreover have "iv_service v \<in> ?names" if "alive t i = Some v" for i v
  proof -
    have "shape s4 i = Some (iv_service v, iv_revision v)" using that t(1) by (simp add: shape_def)
    then have "shape s3 i = Some (iv_service v, iv_revision v)" using f4 by simp
    then show ?thesis by (auto simp: shape_def s3)
  qed
  moreover have "resolved_tasks service now (su_catalog t) = discoverable service (alive t)" for service
    using listing_resolves [OF assms(1) conjunct1 [OF f4] 5 conjunct1 [OF f6]] t by simp
  ultimately show ?thesis using t by blast
qed

lemma pass_converges:
  assumes "se_ops env = ops" and "good s" and "canon (alive s)"
    and "workload_load (se_workload_unjson env) (su_workload s) = Inr (Some w)"
    and "reconcile env now s = (Inr report, t)" and "rr_rolled_back report = []"
  shows "(\<forall>spec \<in> set (dw_services w). at_revision (sp_name spec) (dw_revision w) (alive t) = set (instance_ids spec (dw_revision w)))
    \<and> (\<forall>i v. alive t i = Some v \<longrightarrow> iv_service v \<in> sp_name ` set (dw_services w))
    \<and> ss_applied_revision (su_state t) = dw_revision w \<and> su_state_file t = Some (se_state_json env (su_state t))
    \<and> (\<forall>service. resolved_tasks service now (su_catalog t) = discoverable service (alive t))"
proof -
  obtain n s1 d s2 observed s3 where 1: "recover_ambiguous env now s = (Inr n, s1)" and 2: "load_desired env s1 = (Inr d, s2)"
    and 3: "list_instances env s2 = (Inr observed, s3)"
    and 4: "(case d of None \<Rightarrow> sbind (sfor observed (stop_view env now)) (\<lambda>_. sbind (publish_catalog env observed now) (\<lambda>_.
         sbind (save_state env 0) (\<lambda>_. sreturn ((empty_report n)\<lparr>rr_stopped := map iv_instance_id observed\<rparr>))))
     | Some w \<Rightarrow> reconcile_desired env w observed now (empty_report n)) s3 = (Inr report, t)"
    using assms(5) by (auto simp: reconcile_def sbind_Inr)
  note f1 = recover_facts [OF assms(1,2) 1]
  have 2: "s2 = s1" "d = Some w" using 2 f1 assms(4) by (auto simp: load_desired_def split: sum.splits)
  note f3 = list_facts [OF assms(1) _ 3, unfolded 2(1), OF conjunct1 [OF f1]]
  have v: "workload_validate w = Inr ()"
    using assms(4) by (auto simp: workload_load_def rbind_simps split: option.splits if_splits)
  have n: "named_for (iv_service v) (iv_instance_id v)" if "v \<in> set observed" for v
    using that f1 f3 assms(3) by (intro canon_named [OF assms(3)]) auto
  have "good s3" "canon (alive s3)" using f1 f3 assms(3) by simp_all
  moreover have "reconcile_desired env w observed now (empty_report n) s3 = (Inr report, t)" using 4 2(2) by simp
  ultimately show ?thesis using desired_converges [OF assms(1) _ _ v _ _ assms(6)] n by blast
qed

end

section \<open>Properties\<close>

text \<open>The instances an executor of the source holds.\<close>

definition instances :: "recording_executor supervisor \<Rightarrow> string \<rightharpoonup> instance_view" where
  "instances s = om_get (re_instances (su_exec s))"

text \<open>C11.
  A pass that succeeds without a roll-back converges.  Every desired service has, at the desired
  revision, exactly the instances \<open>name-rREV-0\<close> up to its count; no instance of an undesired service is
  left; the applied revision is saved; and a lookup of any service resolves to exactly the
  instances that run, are healthy and have an address.  Instances start under the names the
  supervisor gives them; older revisions may remain while the floor of healthy instances defers
  their stop.
\<close>

theorem reconcile_converges:
  assumes "se_ops env = recording_ops mc clock" and "recording_ok (su_exec s)" and "canon (instances s)"
    and "workload_load (se_workload_unjson env) (su_workload s) = Inr (Some w)"
    and "reconcile env now s = (Inr report, t)" and "rr_rolled_back report = []"
  shows "(\<forall>spec \<in> set (dw_services w). at_revision (sp_name spec) (dw_revision w) (instances t) = set (instance_ids spec (dw_revision w)))
    \<and> (\<forall>i v. instances t i = Some v \<longrightarrow> iv_service v \<in> sp_name ` set (dw_services w))
    \<and> ss_applied_revision (su_state t) = dw_revision w \<and> su_state_file t = Some (se_state_json env (su_state t))
    \<and> (\<forall>service. resolved_tasks service now (su_catalog t) = discoverable service (instances t))"
  using recording.pass_converges [unfolded recording.good_def recording.alive_def, OF assms [unfolded instances_def]]
  unfolding instances_def .

text \<open>An example: a node with one desired service, and an executor that holds given instances.\<close>

definition example_spec :: service_spec where
  "example_spec = \<lparr>sp_name = ''a'', sp_image = ''x'', sp_instances = 1, sp_cpu_millis = 1, sp_memory_bytes = 1, sp_port = 80,
     sp_update = \<lparr>up_max_surge = 1, up_max_unavailable = 1, up_revision_floor = 1, up_health_attempts = 1\<rparr>, sp_retries = 1\<rparr>"

definition example_workload :: desired_workload where
  "example_workload = \<lparr>dw_revision = 2, dw_services = [example_spec]\<rparr>"

definition example_mutation_crypto :: mutation_crypto where
  "example_mutation_crypto = \<lparr>mc_json = (\<lambda>_. []), mc_sign = (\<lambda>bs. bs), mc_verify = (\<lambda>bs sig. bs = sig)\<rparr>"

definition example_env :: "recording_executor supervisor_env" where
  "example_env = \<lparr>se_ops = recording_ops example_mutation_crypto 0, se_crypto = example_mutation_crypto, se_codec = bit_codec,
     se_workload_json = (\<lambda>_. []), se_workload_unjson = (\<lambda>_. Some example_workload), se_catalog_json = (\<lambda>_. []),
     se_state_json = (\<lambda>_. [])\<rparr>"

definition example_view :: "string \<Rightarrow> u64 \<Rightarrow> string \<Rightarrow> instance_view" where
  "example_view name r img = \<lparr>iv_instance_id = instance_id name r 0, iv_service = name, iv_revision = r, iv_image = img,
     iv_running = True, iv_healthy = True, iv_address = Some ''h'', iv_port = 80\<rparr>"

definition example_supervisor :: "checkpoint_file option \<Rightarrow> (string, instance_view) omap \<Rightarrow> recording_executor supervisor" where
  "example_supervisor file m =
     \<lparr>su_node_id = ''n'', su_capabilities = \<lparr>nc_labels = [], nc_cpu_millis = 1, nc_memory_bytes = 1, nc_task_limit = 1\<rparr>,
      su_workload = file, su_journal = None,
      su_exec = \<lparr>re_node_id = ''n'', re_instances = m, re_log = [], re_unhealthy = [], re_fail_starts = []\<rparr>,
      su_state = \<lparr>ss_applied_revision = 1, ss_health = []\<rparr>, su_state_file = None, su_catalog = [], su_catalog_file = None,
      su_faults = {}, su_append_faults = [], su_write_faults = []\<rparr>"

definition example_workload_file :: "checkpoint_file option" where
  "example_workload_file = Some \<lparr>cf_regular = True, cf_mode = 0x180, cf_bytes = []\<rparr>"

lemma example_supervisor_simps [simp]:
  "dw_revision example_workload = 2" "dw_services example_workload = [example_spec]" "sp_name example_spec = ''a''"
  "sp_image example_spec = ''x''" "sp_retries example_spec = 1" "se_ops example_env = recording_ops example_mutation_crypto 0"
  "se_crypto example_env = example_mutation_crypto" "se_codec example_env = bit_codec"
  "se_workload_unjson example_env = (\<lambda>_. Some example_workload)" "se_catalog_json example_env = (\<lambda>_. [])"
  "mc_verify example_mutation_crypto (mc_json example_mutation_crypto i)
     (mc_sign example_mutation_crypto (mc_json example_mutation_crypto i))"
  by (simp_all add: example_workload_def example_spec_def example_env_def example_mutation_crypto_def)

lemma example_id: "instance_id ''a'' 2 0 = ''a-r2-0''"
  by code_simp

lemma example_ids: "instance_ids example_spec 2 = [''a-r2-0'']"
  by (simp add: instance_ids_def example_spec_def example_id)

lemma example_workload_valid: "workload_validate example_workload = Inr ()"
  by (simp add: workload_validate_def example_workload_def example_spec_def service_validate_def rbind_simps char_code_def)

lemma example_workload_loads: "workload_load (se_workload_unjson example_env) example_workload_file = Inr (Some example_workload)"
  by (simp add: workload_load_def example_workload_file_def example_workload_valid max_workload_bytes_def)

lemma load_absent: "node_journal_load ec None = Inr []"
  by (simp add: node_journal_load_def)

lemmas step_defs = list_instances_def sbind_def sreturn_def recording_ops_def recording_list_def recording_start_def recording_stop_def
  apply_mutation_def Let_def journal_intent_def journal_outcome_def append_fault_next_def append_intent_def append_outcome_def node_journal_append_def
  load_absent max_journal_bytes_def trip_def run_effect_def mutation_intent_of_def mutation_sign_def mutation_verify_def
  max_mutation_age_def log_mutation_def started_view_def om_get_def om_values_def om_retain_def om_remove_def

lemmas pass_defs = reconcile_def recover_ambiguous_def ambiguous_def load_desired_def reconcile_desired_def converge_service_def
  scale_service_def set_difference_def enforce_health_def track_view_def publish_catalog_def endpoint_of_def catalog_publish_def
  catalog_snapshot_def max_snapshot_bytes_def unexpired_def endpoint_lease_seconds_def save_state_def fs_write_def write_fault_next_def empty_report_def stop_view_def

theorem reconcile_converges_witness:
  "\<exists>report t. reconcile example_env 0 (example_supervisor example_workload_file []) = (Inr report, t) \<and> rr_started report = [''a-r2-0'']
     \<and> at_revision ''a'' 2 (instances t) = {''a-r2-0''}"
proof -
  let ?s = "example_supervisor example_workload_file []"
  have "\<exists>report t. reconcile example_env 0 ?s = (Inr report, t) \<and> rr_rolled_back report = [] \<and> rr_started report = [''a-r2-0'']"
    using example_workload_loads
    by (simp add: pass_defs step_defs example_supervisor_def example_ids char_code_def)
  then obtain report t where p: "reconcile example_env 0 ?s = (Inr report, t)" "rr_rolled_back report = []" "rr_started report = [''a-r2-0'']"
    by blast
  have "recording_ok (su_exec ?s)" "canon (instances ?s)" "se_ops example_env = recording_ops example_mutation_crypto 0"
    by (simp_all add: example_supervisor_def recording_ok_def canon_def instances_def om_get_def)
  moreover have "workload_load (se_workload_unjson example_env) (su_workload ?s) = Inr (Some example_workload)"
    using example_workload_loads by (simp add: example_supervisor_def)
  ultimately have "\<forall>spec \<in> set (dw_services example_workload).
      at_revision (sp_name spec) (dw_revision example_workload) (instances t) = set (instance_ids spec (dw_revision example_workload))"
    using reconcile_converges [OF _ _ _ _ p(1,2)] by blast
  then have "at_revision ''a'' 2 (instances t) = {''a-r2-0''}" by (simp add: example_ids)
  with p show ?thesis by blast
qed

end
