(* ===== verification/Update_Safety.thy ===== *)
theory Update_Safety
  imports Convergence
begin

text \<open>
  Rolling updates, roll-backs and passes without work: an update that completes has only healthy
  replacements and stops old instances only above the floor; a roll-back acts on more than its
  service; the catalog after a withdrawal; and a converged node is left alone.
\<close>

section \<open>The floor of healthy instances\<close>

definition healthy_set :: "string \<Rightarrow> (string \<rightharpoonup> instance_view) \<Rightarrow> string set" where
  "healthy_set name m = {i. \<exists>v. m i = Some v \<and> iv_service v = name \<and> iv_healthy v}"

definition healthy_at :: "(string \<rightharpoonup> instance_view) \<Rightarrow> string \<Rightarrow> bool" where
  "healthy_at m i \<longleftrightarrow> (\<exists>v. m i = Some v \<and> iv_healthy v)"

lemma healthy_set_stop: "effect MA_Stop i service img q m n \<Longrightarrow> healthy_set name n = healthy_set name m - {i}"
  by (auto simp: effect_def healthy_set_def split: if_splits)

lemma effect_frame: "effect action i service img r m n \<Longrightarrow> j \<noteq> i \<Longrightarrow> n j = m j"
  by (auto simp: effect_def split: mutation_action.splits)

lemma named_service: "canon m \<Longrightarrow> m i = Some v \<Longrightarrow> named_for name i \<Longrightarrow> iv_service v = name"
  using canon_named named_for_unique by blast

context workload_executor
begin

lemma listing_members:
  assumes "se_ops env = ops" and "good s" and "list_instances env s = (Inr vs, s1)"
  shows "{v \<in> set vs. P v} = {v. alive s (iv_instance_id v) = Some v \<and> P v}"
    and "iv_instance_id ` {v \<in> set vs. P v} = {i. \<exists>v. alive s i = Some v \<and> P v}"
proof -
  note f = list_facts [OF assms]
  then have m: "v \<in> set vs \<longleftrightarrow> alive s (iv_instance_id v) = Some v" for v by simp
  have own: "alive s i = Some v \<Longrightarrow> iv_instance_id v = i" for i v
    using live_id assms(2) by (simp add: good_def alive_def)
  show "{v \<in> set vs. P v} = {v. alive s (iv_instance_id v) = Some v \<and> P v}" using m by blast
  then show "iv_instance_id ` {v \<in> set vs. P v} = {i. \<exists>v. alive s i = Some v \<and> P v}" using own by blast
qed

lemma healthy_count_card:
  assumes "se_ops env = ops" and "good s" and "list_instances env s = (Inr vs, s1)"
  shows "healthy_count name vs = card (healthy_set name (alive s))" "finite (healthy_set name (alive s))"
proof -
  have h: "healthy_set name (alive s) = iv_instance_id ` set (filter (\<lambda>v. iv_service v = name \<and> iv_healthy v) vs)"
    unfolding healthy_set_def set_filter by (rule listing_members(2) [OF assms, symmetric])
  have "distinct (map iv_instance_id (filter (\<lambda>v. iv_service v = name \<and> iv_healthy v) vs))"
    using list_facts [OF assms] by (simp add: distinct_map_filter)
  from distinct_card [OF this] show "healthy_count name vs = card (healthy_set name (alive s))"
    by (simp add: h healthy_count_def)
  show "finite (healthy_set name (alive s))" unfolding h by simp
qed

lemma start_batch_frame:
  assumes "se_ops env = ops" and "good s" and "start_batch env spec old new now is s = (Inr (Inr u), t)" and "j \<notin> set is"
  shows "alive t j = alive s j"
  using assms(2-4)
proof (induction "is" arbitrary: s)
  case (Cons i "is")
  obtain q s1 where q: "apply_mutation env MA_Start i (sp_name spec) (sp_image spec) new now s = (q, s1)" by fastforce
  note a = apply_facts [OF assms(1) Cons.prems(1) q]
  have rest: "start_batch env spec old new now is s1 = (Inr (Inr u), t)"
    using Cons.prems(2) q
    by (cases q; (cases "projl q")?) (auto simp: sbind_Inr split: supervisor_error.splits)
  have "alive s1 j = alive s j" using a effect_frame Cons.prems(3) by (metis list.set_intros(1))
  with Cons.IH [OF _ rest] a Cons.prems(3) show ?case by simp
qed simp

lemma wait_facts:
  assumes "se_ops env = ops" and "good s" and "wait_until_healthy env i n s = (Inr b, t)"
  shows "good t \<and> alive t = alive s \<and> (b \<longrightarrow> healthy_at (alive s) i)"
  using assms(2,3)
proof (induction n arbitrary: s)
  case (Suc n)
  then obtain vs s1 where l: "list_instances env s = (Inr vs, s1)" by (auto simp: sbind_Inr)
  note f = list_facts [OF assms(1) Suc.prems(1) l]
  show ?case
  proof (cases "list_ex (\<lambda>v. iv_instance_id v = i \<and> iv_healthy v) vs")
    case True
    with f l Suc.prems(2) show ?thesis by (auto simp: sbind_Inr list_ex_iff healthy_at_def)
  next
    case False
    with l Suc.prems(2) have "wait_until_healthy env i n s1 = (Inr b, t)" by (auto simp: sbind_Inr)
    with Suc.IH [of s1] f show ?thesis by simp
  qed
qed simp

lemma gate_facts:
  assumes "se_ops env = ops" and "good s" and "health_gate env spec old new now is s = (Inr (Inr u), t)"
  shows "good t \<and> alive t = alive s \<and> (\<forall>i \<in> set is. healthy_at (alive s) i)"
  using assms(2,3)
proof (induction "is" arbitrary: s)
  case (Cons i "is")
  then obtain s1 where w: "wait_until_healthy env i (unat (up_health_attempts (sp_update spec))) s = (Inr True, s1)"
    and rest: "health_gate env spec old new now is s1 = (Inr (Inr u), t)"
    by (auto simp: sbind_Inr split: if_splits)
  from wait_facts [OF assms(1) Cons.prems(1) w] Cons.IH [OF _ rest] show ?case by simp
qed simp

text \<open>
  A target of the update that is healthy is one of the counted instances of the service, so that the
  subtraction of the code does not wrap around.
\<close>

lemma healthy_target:
  assumes "se_ops env = ops" and "good s" and "canon (alive s)" and "named_for name i" and "list_instances env s = (Inr vs, s1)"
  shows "list_ex (\<lambda>v. iv_instance_id v = i \<and> iv_healthy v) vs \<longleftrightarrow> i \<in> healthy_set name (alive s)"
proof -
  have m: "v \<in> set vs \<longleftrightarrow> alive s (iv_instance_id v) = Some v" for v using list_facts [OF assms(1,2,5)] by simp
  have own: "iv_instance_id v = i \<and> iv_service v = name" if "alive s i = Some v" for v
    using that assms(3) named_service [OF assms(3) that assms(4)] by (simp add: canon_def)
  show ?thesis unfolding list_ex_iff healthy_set_def mem_Collect_eq using m own by metis
qed

lemma stop_batch_facts:
  assumes "se_ops env = ops" and "good s" and "canon (alive s)" and "\<forall>i \<in> set is. named_for (sp_name spec) i"
    and "stop_batch env spec new now is s = (Inr stopped, t)"
  shows "good t \<and> set stopped \<subseteq> set is \<and> alive t = (\<lambda>i. if i \<in> set stopped then None else alive s i)
    \<and> (stopped \<noteq> [] \<longrightarrow> up_revision_floor (sp_update spec) \<le> card (healthy_set (sp_name spec) (alive t)))"
  using assms(2-)
proof (induction "is" arbitrary: s stopped)
  case (Cons i "is")
  let ?floor = "up_revision_floor (sp_update spec)" and ?H = "healthy_set (sp_name spec)"
  from Cons.prems(4) obtain vs s1 where l: "list_instances env s = (Inr vs, s1)" by (auto simp: sbind_Inr)
  note f = list_facts [OF assms(1) Cons.prems(1) l]
  have t: "list_ex (\<lambda>v. iv_instance_id v = i \<and> iv_healthy v) vs \<longleftrightarrow> i \<in> ?H (alive s)"
    using healthy_target [OF assms(1) Cons.prems(1,2) _ l] Cons.prems(3) by simp
  let ?ok = "?floor \<le> healthy_left (healthy_count (sp_name spec) vs) (list_ex (\<lambda>v. iv_instance_id v = i \<and> iv_healthy v) vs)"
  have left: "healthy_left (healthy_count (sp_name spec) vs) (list_ex (\<lambda>v. iv_instance_id v = i \<and> iv_healthy v) vs)
      = card (?H (alive s) - {i})"
    unfolding t healthy_count_card(1) [OF assms(1) Cons.prems(1) l]
    using healthy_count_card(2) [OF assms(1) Cons.prems(1) l, of "sp_name spec"]
    by (auto simp: healthy_left_def card_Diff_singleton_if card_gt_0_iff)
  show ?case
  proof (cases ?ok)
    case True
    with Cons.prems(4) l obtain s2 stopped' where
        1: "apply_mutation env MA_Stop i (sp_name spec) (sp_image spec) new now s1 = (Inr (), s2)"
      and rest: "stop_batch env spec new now is s2 = (Inr stopped', t)" and st: "stopped = i # stopped'"
      by (auto simp: sbind_Inr)
    note a = apply_facts [OF assms(1) conjunct1 [OF f] 1]
    have e: "effect MA_Stop i (sp_name spec) (sp_image spec) new (alive s) (alive s2)" using a f by simp
    have floor2: "?floor \<le> card (?H (alive s2))"
      using True unfolding left healthy_set_stop [OF e] .
    have "canon (alive s2)" using effect_stop [OF e Cons.prems(2), of "sp_name spec"] Cons.prems(3) by simp
    note ih = Cons.IH [OF conjunct1 [OF a] this _ rest]
    have "?floor \<le> card (?H (alive t))"
    proof (cases "stopped' = []")
      case True
      then have "alive t = alive s2" using ih Cons.prems(3) by simp
      with floor2 show ?thesis by simp
    qed (use ih Cons.prems(3) in auto)
    moreover have "alive t j = (if j \<in> set stopped then None else alive s j)" for j
      using ih e st Cons.prems(3) by (simp add: effect_def)
    ultimately show ?thesis using ih st Cons.prems(3) by auto
  next
    case False
    with Cons.prems(4) l have "stop_batch env spec new now is s1 = (Inr stopped, t)" by (auto simp: sbind_Inr)
    with Cons.IH [of s1 stopped] f Cons.prems(2,3) show ?thesis by auto
  qed
qed simp

lemma update_steps_facts:
  assumes "se_ops env = ops" and "good s" and "canon (alive s)"
    and "\<forall>st \<in> set sts. set (rs_start st) \<subseteq> set (instance_ids spec new) \<and> (\<forall>i \<in> set (rs_stop st). named_for (sp_name spec) i)"
    and "distinct (concat (map rs_start sts))" and "set (concat (map rs_start sts)) \<inter> set (concat (map rs_stop sts)) = {}"
    and "update_steps env spec old new now sts s = (Inr (Inr (started, stopped)), t)"
  shows "started = concat (map rs_start sts) \<and> set stopped \<subseteq> set (concat (map rs_stop sts))
    \<and> (\<forall>j. j \<notin> set started \<longrightarrow> j \<notin> set stopped \<longrightarrow> alive t j = alive s j)
    \<and> (\<forall>i \<in> set started. healthy_at (alive t) i) \<and> (\<forall>i \<in> set stopped. alive t i = None)
    \<and> (stopped \<noteq> [] \<or> up_revision_floor (sp_update spec) \<le> card (healthy_set (sp_name spec) (alive s))
        \<longrightarrow> up_revision_floor (sp_update spec) \<le> card (healthy_set (sp_name spec) (alive t)))"
  using assms(2-)
proof (induction sts arbitrary: s started stopped)
  case (Cons st sts)
  let ?floor = "up_revision_floor (sp_update spec)" and ?H = "healthy_set (sp_name spec)"
  from Cons.prems(6) obtain s1 s2 s3 stopped1 started' stopped' where
      1: "start_batch env spec old new now (rs_start st) s = (Inr (Inr ()), s1)"
    and 2: "health_gate env spec old new now (rs_start st) s1 = (Inr (Inr ()), s2)"
    and 3: "stop_batch env spec new now (rs_stop st) s2 = (Inr stopped1, s3)"
    and 4: "update_steps env spec old new now sts s3 = (Inr (Inr (started', stopped')), t)"
    and r: "started = rs_start st @ started'" "stopped = stopped1 @ stopped'"
    by (auto simp: sbind_Inr scase_Inr split: prod.splits)
  have sub: "set (rs_start st) \<subseteq> set (instance_ids spec new)" "\<forall>i \<in> set (rs_stop st). named_for (sp_name spec) i"
    using Cons.prems(3) by simp_all
  have w: "within (sp_name spec) s s1" "within (sp_name spec) s1 s2" "within (sp_name spec) s2 s3"
    using start_batch_within [OF assms(1) sub(1) 1] health_gate_within [OF assms(1) 2] stop_batch_within [OF assms(1) sub(2) 3] by simp_all
  have g: "good s1" "canon (alive s1)" "good s2" "good s3" "canon (alive s3)"
    using w Cons.prems(1,2) by (simp_all add: within_def)
  note f2 = gate_facts [OF assms(1) g(1) 2]
  have "canon (alive s2)" using w Cons.prems(1,2) by (simp add: within_def)
  note f3 = stop_batch_facts [OF assms(1) g(3) this sub(2) 3]
  note f1 = start_batch_frame [OF assms(1) Cons.prems(1) 1]
  have sub_H: "?H (alive s) \<subseteq> ?H (alive s1)"
  proof
    fix j
    assume j: "j \<in> ?H (alive s)"
    show "j \<in> ?H (alive s1)"
    proof (cases "j \<in> set (rs_start st)")
      case True
      then obtain v where v: "alive s1 j = Some v" "iv_healthy v" using f2 by (auto simp: healthy_at_def)
      moreover have "named_for (sp_name spec) j" using True sub(1) named_for_ids by blast
      ultimately show ?thesis using named_service [OF g(2) v(1)] by (auto simp: healthy_set_def)
    next
      case False
      with f1 j show ?thesis by (simp add: healthy_set_def)
    qed
  qed
  have "finite (?H (alive s1))"
    by (rule finite_subset [OF _ live_finite [of "su_exec s1"]]) (use g(1) in \<open>auto simp: healthy_set_def alive_def good_def\<close>)
  from card_mono [OF this sub_H] have up: "card (?H (alive s)) \<le> card (?H (alive s2))" using f2 by simp
  have d: "distinct (concat (map rs_start sts))" "set (concat (map rs_start sts)) \<inter> set (concat (map rs_stop sts)) = {}"
    "set (rs_start st) \<inter> set (concat (map rs_start sts)) = {}" "set (rs_start st) \<inter> set (rs_stop st) = {}"
    "set (rs_start st) \<inter> set (concat (map rs_stop sts)) = {}" "set (concat (map rs_start sts)) \<inter> set (rs_stop st) = {}"
    using Cons.prems(4,5) by auto
  note ih = Cons.IH [OF g(4,5) _ d(1,2) 4]
  have ih1: "started' = concat (map rs_start sts)" "set stopped' \<subseteq> set (concat (map rs_stop sts))"
    "\<And>j. j \<notin> set started' \<Longrightarrow> j \<notin> set stopped' \<Longrightarrow> alive t j = alive s3 j"
    "\<And>i. i \<in> set started' \<Longrightarrow> healthy_at (alive t) i" "\<And>i. i \<in> set stopped' \<Longrightarrow> alive t i = None"
    and ih2: "stopped' \<noteq> [] \<or> ?floor \<le> card (?H (alive s3)) \<Longrightarrow> ?floor \<le> card (?H (alive t))"
    using ih Cons.prems(3) by auto
  have "alive t j = alive s j" if "j \<notin> set started" "j \<notin> set stopped" for j
    using that ih1(3) [of j] f1 [of j] f2 f3 r by simp
  moreover have "healthy_at (alive t) i" if "i \<in> set started" for i
  proof (cases "i \<in> set started'")
    case False
    then have i: "i \<in> set (rs_start st)" using that r by simp
    then have "i \<notin> set stopped'" "i \<notin> set stopped1" using ih1(2) d(4,5) conjunct1 [OF conjunct2 [OF f3]] by blast+
    then have "alive t i = alive s1 i" using ih1(3) [OF False] f2 f3 by simp
    then show ?thesis using i f2 by (simp add: healthy_at_def)
  qed (rule ih1(4))
  moreover have "alive t i = None" if "i \<in> set stopped" for i
  proof (cases "i \<in> set stopped'")
    case False
    then have i: "i \<in> set stopped1" using that r by simp
    then have "i \<notin> set started'" using f3 d(6) ih1(1) by blast
    with False ih1(3) [of i] f3 i show ?thesis by simp
  qed (rule ih1(5))
  moreover have "?floor \<le> card (?H (alive t))" if "stopped \<noteq> [] \<or> ?floor \<le> card (?H (alive s))"
  proof (rule ih2)
    show "stopped' \<noteq> [] \<or> ?floor \<le> card (?H (alive s3))"
    proof (cases "stopped1 = []")
      case True
      then have "alive s3 = alive s2" using f3 by simp
      with True that r up show ?thesis by auto
    qed (use f3 in blast)
  qed
  ultimately show ?case using r ih1(1,2) f3 by auto
qed simp

lemma rolling_facts:
  assumes "se_ops env = ops" and "good s" and "canon (alive s)" and "\<forall>v \<in> set stale. named_for (sp_name spec) (iv_instance_id v)"
    and "rolling_update env spec new stale now s = (Inr (Inr (started, stopped)), t)"
  shows "set started = set (instance_ids spec new) - iv_instance_id ` set stale
    \<and> set stopped \<subseteq> iv_instance_id ` set stale - set (instance_ids spec new)
    \<and> (\<forall>j. j \<notin> set started \<longrightarrow> j \<notin> set stopped \<longrightarrow> alive t j = alive s j)
    \<and> (\<forall>i \<in> set started. healthy_at (alive t) i) \<and> (\<forall>i \<in> set stopped. alive t i = None)
    \<and> (stopped \<noteq> [] \<longrightarrow> up_revision_floor (sp_update spec) \<le> card (healthy_set (sp_name spec) (alive t)))"
proof -
  let ?cur = "map iv_instance_id stale" and ?des = "instance_ids spec new"
  let ?p = "\<lparr>max_surge = up_max_surge (sp_update spec), max_unavailable = up_max_unavailable (sp_update spec)\<rparr>"
  obtain old steps where plan: "rollout_plan ?cur ?des ?p = Some (Inr steps)"
    and run: "update_steps env spec old new now steps s = (Inr (Inr (started, stopped)), t)"
    using assms(5) by (auto simp: rolling_update_def Let_def split: option.splits sum.splits)
  from plan_loop_result [OF rollout_plan_InrD(3) [OF plan]]
  have c: "concat (map rs_start steps) = added ?cur ?des" "concat (map rs_stop steps) = obsolete ?cur ?des" by auto
  have s: "\<forall>st \<in> set steps. set (rs_start st) \<subseteq> set ?des \<and> (\<forall>i \<in> set (rs_stop st). named_for (sp_name spec) i)"
    using rollout_plan_sets [OF plan] assms(4) by fastforce
  have d: "distinct (added ?cur ?des)" "set (added ?cur ?des) = set ?des - set ?cur" "set (obsolete ?cur ?des) = set ?cur - set ?des"
    by (simp_all add: added_def obsolete_def)
  then have "distinct (concat (map rs_start steps))" "set (concat (map rs_start steps)) \<inter> set (concat (map rs_stop steps)) = {}"
    unfolding c by blast+
  from update_steps_facts [OF assms(1-3) s this run] show ?thesis unfolding c using d by auto
qed

section \<open>Roll-backs\<close>

lemma sfor_start_facts:
  assumes "se_ops env = ops" and "good s"
    and "sfor is (\<lambda>i. apply_mutation env MA_Start i name img r now) s = (Inr u, t)"
  shows "good t \<and> (\<forall>j. if j \<in> set is then \<exists>v. alive t j = Some v \<and> iv_service v = name \<and> iv_image v = img \<and> iv_revision v = r
    else alive t j = alive s j)"
  using assms(2,3)
proof (induction "is" arbitrary: s)
  case (Cons i "is")
  from Cons.prems(2) obtain s1 where 1: "apply_mutation env MA_Start i name img r now s = (Inr (), s1)"
    and rest: "sfor is (\<lambda>i. apply_mutation env MA_Start i name img r now) s1 = (Inr u, t)"
    unfolding sfor_Cons_Inr by blast
  note a = apply_facts [OF assms(1) Cons.prems(1) 1]
  note ih = Cons.IH [OF conjunct1 [OF a] rest]
  obtain v where v: "alive s1 = (alive s)(i \<mapsto> v)" "iv_service v = name" "iv_image v = img" "iv_revision v = r"
    using a by (auto simp: effect_def)
  have "if j \<in> set (i # is) then \<exists>v. alive t j = Some v \<and> iv_service v = name \<and> iv_image v = img \<and> iv_revision v = r
    else alive t j = alive s j" for j
    using spec [OF conjunct2 [OF ih], of j] v by (cases "j \<in> set is") auto
  with ih show ?case by blast
qed simp

lemma rollback_facts:
  assumes "se_ops env = ops" and "good s" and "old \<noteq> new" and "rollback env spec old new now s = (Inr u, t)"
  shows "(\<forall>i v. alive t i = Some v \<longrightarrow> iv_revision v \<noteq> new)
    \<and> (\<forall>i \<in> set (instance_ids spec old). \<exists>v. alive t i = Some v \<and> iv_revision v = old
        \<and> (alive s i = Some v \<or> iv_image v = sp_image spec))
    \<and> (\<forall>i v. alive s i = Some v \<longrightarrow> iv_revision v \<noteq> new \<longrightarrow> i \<notin> set (instance_ids spec old) \<longrightarrow> alive t i = Some v)"
proof -
  obtain vs s1 s2 where l: "list_instances env s = (Inr vs, s1)"
    and 1: "sfor (filter (\<lambda>v. iv_revision v = new) vs) (\<lambda>v. apply_mutation env MA_Stop (iv_instance_id v) (iv_service v) (iv_image v) new now) s1 = (Inr (), s2)"
    and 2: "sfor (filter (\<lambda>i. i \<notin> set (map iv_instance_id (filter (\<lambda>v. iv_revision v = old) vs))) (instance_ids spec old))
        (\<lambda>i. apply_mutation env MA_Start i (sp_name spec) (sp_image spec) old now) s2 = (Inr u, t)"
    using assms(4) by (auto simp: rollback_def sbind_Inr Let_def)
  note f = list_facts [OF assms(1,2) l]
  note f1 = sfor_stop [OF assms(1) conjunct1 [OF f], where f = iv_instance_id and g = iv_service and h = iv_image and q = "\<lambda>_. new", OF 1]
  note f2 = sfor_start_facts [OF assms(1) conjunct1 [OF f1] 2]
  have m: "i \<in> iv_instance_id ` set (filter P vs) \<longleftrightarrow> (\<exists>v. alive s i = Some v \<and> P v)" for i P
    using listing_members(2) [OF assms(1,2) l, of P] by (simp add: set_eq_iff)
  have a2: "alive s2 i = (if \<exists>v. alive s i = Some v \<and> iv_revision v = new then None else alive s i)" for i
  proof -
    have "alive s2 i = (if i \<in> iv_instance_id ` set (filter (\<lambda>v. iv_revision v = new) vs) then None else alive s i)"
      using f f1 by simp
    then show ?thesis unfolding m .
  qed
  have t: "if i \<in> set (instance_ids spec old) \<and> \<not> (\<exists>v. alive s i = Some v \<and> iv_revision v = old)
      then \<exists>v. alive t i = Some v \<and> iv_image v = sp_image spec \<and> iv_revision v = old
      else alive t i = alive s2 i" for i
    using spec [OF conjunct2 [OF f2], of i] m [of i "\<lambda>v. iv_revision v = old"] by (auto split: if_splits)
  have "iv_revision v \<noteq> new" if "alive t i = Some v" for i v
    using t [of i] a2 [of i] that assms(3) by (auto split: if_splits)
  moreover have "\<exists>v. alive t i = Some v \<and> iv_revision v = old \<and> (alive s i = Some v \<or> iv_image v = sp_image spec)"
    if "i \<in> set (instance_ids spec old)" for i
    using t [of i] a2 [of i] that assms(3) by (auto split: if_splits)
  moreover have "alive t i = Some v" if "alive s i = Some v" "iv_revision v \<noteq> new" "i \<notin> set (instance_ids spec old)" for i v
    using t [of i] a2 [of i] that by (auto split: if_splits)
  ultimately show ?thesis by blast
qed

section \<open>Withdrawal\<close>

lemma withdrawal_facts:
  assumes "se_ops env = ops" and "good s" and "workload_load (se_workload_unjson env) (su_workload s) = Inr None"
    and "reconcile env now s = (Inr report, t)"
  shows "alive t = Map.empty \<and> (\<forall>service. resolved_tasks service now (su_catalog t) = discoverable service (alive s))"
proof -
  obtain n s1 d s2 observed s3 where 1: "recover_ambiguous env now s = (Inr n, s1)" and 2: "load_desired env s1 = (Inr d, s2)"
    and 3: "list_instances env s2 = (Inr observed, s3)"
    and 4: "(case d of None \<Rightarrow> sbind (sfor observed (stop_view env now)) (\<lambda>_. sbind (publish_catalog env observed now) (\<lambda>_.
         sbind (save_state env 0) (\<lambda>_. sreturn ((empty_report n)\<lparr>rr_stopped := map iv_instance_id observed\<rparr>))))
     | Some w \<Rightarrow> reconcile_desired env w observed now (empty_report n)) s3 = (Inr report, t)"
    using assms(4) by (auto simp: reconcile_def sbind_Inr)
  note f1 = recover_facts [OF assms(1,2) 1]
  have d: "s2 = s1" "d = None" using 2 f1 assms(3) by (auto simp: load_desired_def split: sum.splits)
  note f3 = list_facts [OF assms(1) _ 3, unfolded d(1), OF conjunct1 [OF f1]]
  obtain s4 s5 where 5: "sfor observed (stop_view env now) s3 = (Inr (), s4)" and 6: "publish_catalog env observed now s4 = (Inr (), s5)"
    and 7: "save_state env 0 s5 = (Inr (), t)"
    using 4 d(2) by (auto simp: sbind_Inr)
  note f4 = sfor_stop [OF assms(1) conjunct1 [OF f3], where f = iv_instance_id and g = iv_service and h = iv_image and q = iv_revision,
      OF 5 [unfolded stop_view_def]]
  note f5 = publish_catalog_facts [OF 6]
  have l: "list_instances env s1 = (Inr observed, s3)" using 3 d(1) by simp
  have "i \<in> iv_instance_id ` set observed \<longleftrightarrow> (\<exists>v. alive s1 i = Some v)" for i
    using listing_members(2) [OF assms(1) conjunct1 [OF f1] l, of "\<lambda>_. True"] by (simp add: set_eq_iff)
  then have "alive s4 i = None" for i using f3 f4 by (cases "alive s1 i") auto
  then have "alive t = Map.empty" using f5 save_state_facts [OF 7] by (auto simp: alive_def)
  moreover have "resolved_tasks service now (su_catalog t) = discoverable service (alive s)" for service
    using listing_resolves [OF assms(1) conjunct1 [OF f1] l conjunct1 [OF f5]] f1 save_state_facts [OF 7] by auto
  ultimately show ?thesis by blast
qed

end

section \<open>A converged node\<close>

definition blank_tail :: "string \<Rightarrow> bool" where
  "blank_tail u \<longleftrightarrow> trim_is_empty u \<or> (\<exists>b r. u = b # r \<and> char_code b \<noteq> 114 \<and> trim_is_empty r)
     \<or> (\<exists>b d r. u = b # d # r \<and> char_code b \<noteq> 114 \<and> char_code d \<noteq> 114 \<and> trim_is_empty r)"

lemma blank_one: "trim_is_empty u \<Longrightarrow> blank_tail u"
  by (simp add: blank_tail_def)

lemma blank_two: "trim_is_empty r \<Longrightarrow> char_code b \<noteq> 114 \<Longrightarrow> blank_tail (b # r)"
  by (auto simp: blank_tail_def)

lemma blank_three: "trim_is_empty r \<Longrightarrow> char_code b \<noteq> 114 \<Longrightarrow> char_code d \<noteq> 114 \<Longrightarrow> blank_tail (b # d # r)"
  unfolding blank_tail_def by blast

lemma blank_step:
  assumes "trim_is_empty (a # u)"
  shows "char_code a \<noteq> 114 \<and> blank_tail u"
proof (cases "9 \<le> char_code a \<and> char_code a \<le> 13 \<or> char_code a = 32")
  case True
  with assms show ?thesis by (auto intro: blank_one)
next
  case False
  then consider (two) "char_code a = 0xC2" | (three) "char_code a \<in> {0xE1, 0xE2, 0xE3}"
    using assms by (simp del: trim_is_empty.simps(1) split: if_splits)
  then show ?thesis
  proof cases
    case two
    then show ?thesis using assms by (cases u) (auto intro: blank_two)
  next
    case three
    then obtain b d r where u: "u = b # d # r" using assms by (cases u; cases "tl u") auto
    have "trim_is_empty r \<and> char_code b \<ge> 128 \<and> char_code d \<ge> 128" using three assms unfolding u by auto
    then show ?thesis using three unfolding u by (auto intro!: blank_three)
  qed
qed

lemma blank_bytes: "trim_is_empty s \<Longrightarrow> c \<in> set s \<Longrightarrow> char_code c \<noteq> 114"
proof (induction "length s" arbitrary: s rule: less_induct)
  case less
  show ?case
  proof (cases s)
    case (Cons a u)
    from blank_step [of a u] less.prems(1) Cons consider (one) "char_code a \<noteq> 114" "trim_is_empty u"
      | (two) b r where "u = b # r" "char_code a \<noteq> 114" "char_code b \<noteq> 114" "trim_is_empty r"
      | (three) b d r where "u = b # d # r" "char_code a \<noteq> 114" "char_code b \<noteq> 114" "char_code d \<noteq> 114" "trim_is_empty r"
      unfolding blank_tail_def by blast
    then show ?thesis
    proof cases
      case one
      with less.hyps [of u] less.prems(2) Cons show ?thesis by auto
    next
      case two
      with less.hyps [of r] less.prems(2) Cons show ?thesis by auto
    next
      case three
      with less.hyps [of r] less.prems(2) Cons show ?thesis by auto
    qed
  qed (use less.prems in simp)
qed

lemma instance_id_not_blank: "\<not> trim_is_empty (instance_id name r n)"
  using blank_bytes [of "instance_id name r n" "CHR ''r''"] by (auto simp: instance_id_def char_code_def)

lemma build_catalog_total:
  assumes "\<forall>v \<in> set vs. \<not> trim_is_empty (iv_service v) \<and> \<not> trim_is_empty (iv_instance_id v) \<and> (\<forall>a. iv_address v = Some a \<longrightarrow> \<not> trim_is_empty a)"
    and "sint now < sint (now + endpoint_lease_seconds)"
  shows "\<exists>d. build_catalog now vs c = Inr d"
  using assms(1)
proof (induction vs arbitrary: c)
  case (Cons v vs)
  then have ih: "\<exists>d. build_catalog now vs c = Inr d" for c by simp
  show ?case
  proof (cases "iv_running v \<and> iv_healthy v")
    case True
    show ?thesis
    proof (cases "iv_address v")
      case (Some a)
      then have "\<exists>c'. catalog_publish (iv_service v) (endpoint_of v a now) now c = (Inr (), c')"
        using Cons.prems assms(2) by (simp add: catalog_publish_def endpoint_of_def unexpired_def Let_def)
      with Some True ih show ?thesis by auto
    qed (use True ih in simp)
  next
    case False
    then have "build_catalog now (v # vs) c = build_catalog now vs c" by auto
    with ih show ?thesis by metis
  qed
qed simp

lemma track_healthy: "\<forall>v \<in> set vs. iv_healthy v \<Longrightarrow> snd (fold (track_view w) vs (h, rs)) = rs"
proof (induction vs arbitrary: h)
  case (Cons v vs)
  have "snd (track_view w v (h, rs)) = rs" using Cons.prems by (simp add: track_view_def Let_def split: option.split)
  then obtain h' where "track_view w v (h, rs) = (h', rs)" by (metis prod.collapse)
  with Cons show ?case by simp
qed simp

lemma recording_listing:
  "se_ops env = recording_ops mc clock \<Longrightarrow> list_instances env s = (Inr (om_values (re_instances (su_exec s))), s)"
  by (simp add: list_instances_def recording_ops_def recording_list_def)

lemma set_difference_Nil: "set xs \<subseteq> set ys \<Longrightarrow> set_difference xs ys = []"
  by (auto simp: set_difference_def filter_empty_conv)

lemma converge_idle:
  assumes "se_ops env = recording_ops mc clock" and "recording_ok (su_exec s)"
    and "at_revision (sp_name spec) r (instances s) = set (instance_ids spec r)" and "\<forall>v \<in> set observed. iv_revision v = r"
  shows "converge_service env observed r now spec report s = (Inr report, s)"
proof -
  let ?vs = "om_values (re_instances (su_exec s))"
  let ?run = "map iv_instance_id (filter (\<lambda>v. iv_service v = sp_name spec \<and> iv_revision v = r) ?vs)"
  have "set ?run = at_revision (sp_name spec) r (instances s)"
    using recording.listing_members(2) [OF assms(1), unfolded recording.good_def recording.alive_def, OF assms(2) recording_listing [OF assms(1)],
        of "\<lambda>v. iv_service v = sp_name spec \<and> iv_revision v = r"]
    unfolding set_map set_filter at_revision_def instances_def .
  then have "set_difference (instance_ids spec r) ?run = []" "set_difference ?run (instance_ids spec r) = []"
    using assms(3) by (simp_all add: set_difference_Nil)
  then have "scale_service env spec r now report s = (Inr report, s)"
    by (simp add: scale_service_def sbind_def recording_listing [OF assms(1)] Let_def sreturn_def)
  moreover have "filter (\<lambda>v. iv_service v = sp_name spec \<and> iv_revision v \<noteq> r) observed = []"
    using assms(4) by (simp add: filter_empty_conv)
  ultimately show ?thesis by (simp add: converge_service_def)
qed

lemma converge_services_idle:
  assumes "se_ops env = recording_ops mc clock" and "recording_ok (su_exec s)"
    and "\<forall>spec \<in> set specs. at_revision (sp_name spec) r (instances s) = set (instance_ids spec r)" and "\<forall>v \<in> set observed. iv_revision v = r"
  shows "converge_services env observed r now specs report s = (Inr report, s)"
  using assms(3)
  by (induction specs) (simp_all add: sreturn_def sbind_def converge_idle [OF assms(1,2) _ assms(4)])

section \<open>Properties\<close>

text \<open>C19.
  A rolling update that completes has started exactly the desired instances that were missing, each
  of them is live and healthy at the end, whatever it stopped is an old instance and gone, every
  other instance is as before, and if it stopped anything the service still has at least as many
  healthy instances as its revision floor.
\<close>

theorem update_keeps_floor:
  assumes "se_ops env = recording_ops mc clock" and "recording_ok (su_exec s)" and "canon (instances s)"
    and "\<forall>v \<in> set stale. named_for (sp_name spec) (iv_instance_id v)"
    and "rolling_update env spec new stale now s = (Inr (Inr (started, stopped)), t)"
  shows "set started = set (instance_ids spec new) - iv_instance_id ` set stale
    \<and> set stopped \<subseteq> iv_instance_id ` set stale - set (instance_ids spec new)
    \<and> (\<forall>j. j \<notin> set started \<longrightarrow> j \<notin> set stopped \<longrightarrow> instances t j = instances s j)
    \<and> (\<forall>i \<in> set started. healthy_at (instances t) i) \<and> (\<forall>i \<in> set stopped. instances t i = None)
    \<and> (stopped \<noteq> [] \<longrightarrow> up_revision_floor (sp_update spec) \<le> card (healthy_set (sp_name spec) (instances t)))"
  using recording.rolling_facts [unfolded recording.good_def recording.alive_def, OF assms [unfolded instances_def]]
  unfolding instances_def .

text \<open>C37.
  A roll-back acts on the whole node, and not with the previous image.  After it no instance of any
  service is left at the new revision, also of services whose update succeeded; every instance of
  the service at the old revision is live again, but one that has to be started runs the image of the
  new specification under the old revision's name.
\<close>

theorem rollback_exceeds_service:
  assumes "se_ops env = recording_ops mc clock" and "recording_ok (su_exec s)" and "old \<noteq> new"
    and "rollback env spec old new now s = (Inr u, t)"
  shows "(\<forall>i v. instances t i = Some v \<longrightarrow> iv_revision v \<noteq> new)
    \<and> (\<forall>i \<in> set (instance_ids spec old). \<exists>v. instances t i = Some v \<and> iv_revision v = old
        \<and> (instances s i = Some v \<or> iv_image v = sp_image spec))
    \<and> (\<forall>i v. instances s i = Some v \<longrightarrow> iv_revision v \<noteq> new \<longrightarrow> i \<notin> set (instance_ids spec old) \<longrightarrow> instances t i = Some v)"
  using recording.rollback_facts [unfolded recording.good_def recording.alive_def, OF assms [unfolded instances_def]]
  unfolding instances_def .

text \<open>C38.
  When no workload is stored, a pass stops every instance but publishes the listing it took before:
  nothing runs any more, and every service still resolves to the instances that were serving.
\<close>

theorem withdrawal_keeps_endpoints:
  assumes "se_ops env = recording_ops mc clock" and "recording_ok (su_exec s)"
    and "workload_load (se_workload_unjson env) (su_workload s) = Inr None" and "reconcile env now s = (Inr report, t)"
  shows "instances t = Map.empty \<and> (\<forall>service. resolved_tasks service now (su_catalog t) = discoverable service (instances s))"
  using recording.withdrawal_facts [unfolded recording.good_def recording.alive_def, OF assms [unfolded instances_def]]
  unfolding instances_def .

text \<open>C20.
  A converged node is left alone.  When the journal loads without an open intent, every desired
  service has exactly its instances, all of them healthy and with no blank address, and nothing else
  runs, then a pass succeeds, mutates nothing and writes nothing to the journal, records the revision
  as applied and publishes exactly the serving instances.  The writes of the catalog and the state
  must not fail, the encoded catalog must be within its limit, the lease must not overflow, and no
  fault after the catalog may be armed.
\<close>

theorem converged_pass_stable:
  assumes "se_ops env = recording_ops mc clock" and "recording_ok (su_exec s)" and "canon (instances s)"
    and "workload_load (se_workload_unjson env) (su_workload s) = Inr (Some w)"
    and "node_journal_load (se_codec env) (su_journal s) = Inr es" and "ambiguous es = []"
    and "\<forall>spec \<in> set (dw_services w). at_revision (sp_name spec) (dw_revision w) (instances s) = set (instance_ids spec (dw_revision w))"
    and "\<forall>i v. instances s i = Some v \<longrightarrow> iv_service v \<in> sp_name ` set (dw_services w) \<and> iv_revision v = dw_revision w
      \<and> iv_healthy v \<and> (\<forall>a. iv_address v = Some a \<longrightarrow> \<not> trim_is_empty a)"
    and "sint now < sint (now + endpoint_lease_seconds)"
    and "\<forall>c. build_catalog now (om_values (re_instances (su_exec s))) [] = Inr c \<longrightarrow> length (se_catalog_json env c) \<le> max_snapshot_bytes"
    and "LF_AfterCatalogUpdate \<notin> su_faults s" and "su_write_faults s = []"
  shows "\<exists>t. reconcile env now s = (Inr (empty_report 0), t) \<and> su_exec t = su_exec s \<and> su_journal t = su_journal s
    \<and> ss_applied_revision (su_state t) = dw_revision w \<and> su_state_file t = Some (se_state_json env (su_state t))
    \<and> (\<forall>service. resolved_tasks service now (su_catalog t) = discoverable service (instances s))"
proof -
  let ?vs = "om_values (re_instances (su_exec s))"
  note list = recording_listing [OF assms(1)]
  have vs: "v \<in> set ?vs \<longleftrightarrow> instances s (iv_instance_id v) = Some v" for v
    using recording_list_values [OF assms(2)] by (simp add: instances_def)
  have v: "workload_validate w = Inr ()"
    using assms(4) by (auto simp: workload_load_def rbind_simps split: option.splits if_splits)
  have "\<forall>v \<in> set ?vs. \<not> trim_is_empty (iv_service v) \<and> \<not> trim_is_empty (iv_instance_id v) \<and> (\<forall>a. iv_address v = Some a \<longrightarrow> \<not> trim_is_empty a)"
  proof
    fix v
    assume m: "v \<in> set ?vs"
    then obtain spec where "spec \<in> set (dw_services w)" "iv_service v = sp_name spec" using vs assms(8) by blast
    then have "service_validate spec = Inr ()" "iv_service v = sp_name spec" using workload_validate_ok(3) [OF v] by simp_all
    then have "\<not> trim_is_empty (iv_service v)" by (auto simp: service_validate_def Let_def split: if_splits)
    moreover obtain n where "iv_instance_id v = instance_id (iv_service v) (iv_revision v) n"
      using m assms(3) vs unfolding canon_def by blast
    ultimately show "\<not> trim_is_empty (iv_service v) \<and> \<not> trim_is_empty (iv_instance_id v) \<and> (\<forall>a. iv_address v = Some a \<longrightarrow> \<not> trim_is_empty a)"
      using instance_id_not_blank m vs assms(8) by metis
  qed
  from build_catalog_total [OF this assms(9)] obtain c where c: "build_catalog now ?vs [] = Inr c" by blast
  have idle: "converge_services env ?vs (dw_revision w) now (dw_services w) (empty_report 0) s = (Inr (empty_report 0), s)"
    using vs assms(7,8) by (intro converge_services_idle [OF assms(1,2)]) auto
  have orphans: "filter (\<lambda>v. iv_service v \<notin> sp_name ` set (dw_services w)) ?vs = []"
    using vs assms(8) by (auto simp: filter_empty_conv)
  have "\<forall>v \<in> set ?vs. iv_healthy v" using vs assms(8) by blast
  then obtain h where h: "fold (track_view w) ?vs
      (om_retain (\<lambda>i _. list_ex (\<lambda>v. iv_instance_id v = i) ?vs) (ss_health (su_state s)), []) = (h, [])"
    using track_healthy by (metis prod.collapse)
  let ?s = "s\<lparr>su_state := (su_state s)\<lparr>ss_health := h\<rparr>\<rparr>"
  have health: "enforce_health env w now s = (Inr [], ?s)"
    by (simp add: enforce_health_def sbind_def list h Let_def sreturn_def)
  have desired: "\<exists>t. reconcile_desired env w ?vs now (empty_report 0) s = (Inr (empty_report 0), t) \<and> su_exec t = su_exec s
      \<and> su_journal t = su_journal s \<and> ss_applied_revision (su_state t) = dw_revision w
      \<and> su_state_file t = Some (se_state_json env (su_state t)) \<and> su_catalog t = c"
    using idle orphans health list [of s] list [of ?s] c assms(10-12)
    by (simp add: reconcile_desired_def sbind_def Let_def sreturn_def publish_catalog_def catalog_snapshot_def trip_def save_state_def
        fs_write_def write_fault_next_def empty_report_def not_less)
  have "reconcile env now s = reconcile_desired env w ?vs now (empty_report 0) s"
    using assms(4-6) list by (simp add: reconcile_def recover_ambiguous_def sbind_def load_desired_def)
  with desired recording.listing_resolves [OF assms(1), unfolded recording.good_def recording.alive_def, OF assms(2) list c]
  show ?thesis by (auto simp: instances_def)
qed

section \<open>Examples\<close>

lemma example_journal_loads:
  assumes "\<not> trim_is_empty (ir_instance_id r)" and "\<not> trim_is_empty (ir_service r)" and "ir_seq r = 1" and "or_seq q = 1"
    and "length (ec_json bit_codec (NE_Intent r)) + length (ec_json bit_codec (NE_Outcome q)) + 2 \<le> max_journal_bytes"
  shows "node_journal_load bit_codec (Some \<lparr>nf_regular = True,
      nf_bytes = ec_json bit_codec (NE_Intent r) @ 10 # ec_json bit_codec (NE_Outcome q) @ [10]\<rparr>) = Inr [NE_Intent r, NE_Outcome q]"
proof -
  let ?es = "[NE_Intent r, NE_Outcome q]"
  have "file_holds bit_codec (file_of bit_codec ?es) ?es"
    using assms(5) by (intro file_of_holds [OF bit_codec_ok]) simp
  moreover have "numbered ?es" using assms(1-4) by (simp add: numbered_def word_le_nat_alt)
  ultimately have "node_journal_load bit_codec (file_of bit_codec ?es) = Inr ?es"
    by (simp add: load_holds max_journal_entries_def)
  then show ?thesis by (simp add: file_of_def)
qed

lemma example_old_ids: "instance_id ''a'' 1 0 = ''a-r1-0''" "instance_id ''b'' 2 0 = ''b-r2-0''"
  by code_simp+

definition example_node :: "checkpoint_file option \<Rightarrow> instance_view \<Rightarrow> recording_executor supervisor" where
  "example_node file v = example_supervisor file [(iv_instance_id v, v)]"

lemma example_node_ok:
  "recording_ok (su_exec (example_node file v))" "instances (example_node file v) = [iv_instance_id v \<mapsto> v]"
  "canon (instances (example_node file (example_view name r img)))"
  by (auto simp: example_node_def example_supervisor_def recording_ok_def instances_def om_get_def om_wf_def canon_def example_view_def)

theorem withdrawal_keeps_endpoints_witness:
  "\<exists>report t. reconcile example_env 0 (example_node None (example_view ''a'' 2 ''x'')) = (Inr report, t)
     \<and> instances t = Map.empty \<and> resolved_tasks ''a'' 0 (su_catalog t) = {''a-r2-0''}"
proof -
  let ?s = "example_node None (example_view ''a'' 2 ''x'')"
  have load: "workload_load (se_workload_unjson example_env) (su_workload ?s) = Inr None"
    by (simp add: workload_load_def example_node_def example_supervisor_def)
  then obtain report t where p: "reconcile example_env 0 ?s = (Inr report, t)"
    by (simp add: pass_defs step_defs example_node_def example_supervisor_def example_view_def example_id char_code_def)
  have "discoverable ''a'' (instances ?s) = {''a-r2-0''}"
    by (auto simp: example_node_ok discoverable_def serving_def example_view_def example_id split: if_splits)
  with withdrawal_keeps_endpoints [OF _ example_node_ok(1) load p] p show ?thesis by simp
qed

theorem converged_pass_stable_witness:
  "\<exists>t. reconcile example_env 0 (example_node example_workload_file (example_view ''a'' 2 ''x'')) = (Inr (empty_report 0), t)
     \<and> resolved_tasks ''a'' 0 (su_catalog t) = {''a-r2-0''}"
proof -
  let ?s = "example_node example_workload_file (example_view ''a'' 2 ''x'')"
  have load: "workload_load (se_workload_unjson example_env) (su_workload ?s) = Inr (Some example_workload)"
    using example_workload_loads by (simp add: example_node_def example_supervisor_def)
  have j: "node_journal_load (se_codec example_env) (su_journal ?s) = Inr []" "ambiguous [] = []"
    by (simp_all add: example_node_def example_supervisor_def node_journal_load_def ambiguous_def)
  have a: "\<forall>spec \<in> set (dw_services example_workload). at_revision (sp_name spec) (dw_revision example_workload) (instances ?s)
      = set (instance_ids spec (dw_revision example_workload))"
    by (auto simp: example_node_ok at_revision_def example_ids example_view_def example_id split: if_splits)
  have b: "\<forall>i v. instances ?s i = Some v \<longrightarrow> iv_service v \<in> sp_name ` set (dw_services example_workload)
      \<and> iv_revision v = dw_revision example_workload \<and> iv_healthy v \<and> (\<forall>a. iv_address v = Some a \<longrightarrow> \<not> trim_is_empty a)"
    by (auto simp: example_node_ok example_view_def char_code_def split: if_splits)
  have c: "sint (0 :: i64) < sint (0 + endpoint_lease_seconds)" "LF_AfterCatalogUpdate \<notin> su_faults ?s" "su_write_faults ?s = []"
    by (simp_all add: endpoint_lease_seconds_def example_node_def example_supervisor_def)
  have "discoverable ''a'' (instances ?s) = {''a-r2-0''}"
    by (auto simp: example_node_ok discoverable_def serving_def example_view_def example_id split: if_splits)
  moreover have "\<forall>c. build_catalog 0 (om_values (re_instances (su_exec ?s))) [] = Inr c \<longrightarrow> length (se_catalog_json example_env c) \<le> max_snapshot_bytes"
    by simp
  ultimately show ?thesis
    using converged_pass_stable [OF example_supervisor_simps(6) example_node_ok(1,3) load j a b c(1) _ c(2,3)] by metis
qed

lemma example_update_policy:
  "sp_update example_spec = \<lparr>up_max_surge = 1, up_max_unavailable = 1, up_revision_floor = 1, up_health_attempts = 1\<rparr>"
  by (simp add: example_spec_def)

theorem update_keeps_floor_witness:
  "\<exists>t. rolling_update example_env example_spec 2 [example_view ''a'' 1 ''w''] 0 (example_node None (example_view ''a'' 1 ''w''))
      = (Inr (Inr ([''a-r2-0''], [''a-r1-0''])), t)
     \<and> 1 \<le> card (healthy_set ''a'' (instances t))"
proof -
  let ?v = "example_view ''a'' 1 ''w''"
  let ?s = "example_node None ?v"
  have p: "rollout_plan [''a-r1-0''] [''a-r2-0''] \<lparr>max_surge = 1, max_unavailable = 1\<rparr>
      = Some (Inr [\<lparr>rs_start = [''a-r2-0''], rs_stop = [''a-r1-0'']\<rparr>])"
  proof -
    have d: "valid_ids [''a-r1-0'']" "valid_ids [''a-r2-0'']" "added [''a-r1-0''] [''a-r2-0''] = [''a-r2-0'']"
      "obsolete [''a-r1-0''] [''a-r2-0''] = [''a-r1-0'']"
      by (simp_all add: valid_ids_def char_code_def added_def obsolete_def set_difference_def)
    show ?thesis
      unfolding rollout_plan_eq [OF d(1,2)] d(3,4)
      by (simp add: start_count_def stop_count_def Let_def plan_loop.simps [of _ "_ # _"] plan_loop.simps [of _ "[]" "[]"])
  qed
  obtain t where r: "rolling_update example_env example_spec 2 [?v] 0 ?s = (Inr (Inr ([''a-r2-0''], [''a-r1-0''])), t)"
    by (simp add: rolling_update_def example_update_policy example_node_def example_supervisor_def example_view_def example_old_ids example_ids
        p [simplified] healthy_count_def healthy_left_def step_defs example_journal_loads char_code_def less_char_def less_eq_char_def)
  have n: "\<forall>v \<in> set [?v]. named_for (sp_name example_spec) (iv_instance_id v)"
    by (auto simp: named_for_def example_view_def)
  from update_keeps_floor [OF example_supervisor_simps(6) example_node_ok(1,3) n r] r show ?thesis
    by (auto simp: example_spec_def)
qed

theorem rollback_exceeds_service_witness:
  "\<exists>t. rollback example_env example_spec 1 2 0 (example_node None (example_view ''b'' 2 ''y'')) = (Inr (), t)
     \<and> instances t ''b-r2-0'' = None \<and> (\<exists>v. instances t ''a-r1-0'' = Some v \<and> iv_revision v = 1 \<and> iv_image v = ''x'')"
proof -
  let ?v = "example_view ''b'' 2 ''y''"
  let ?s = "example_node None ?v"
  have ids: "instance_ids example_spec 1 = [''a-r1-0'']" by (simp add: instance_ids_def example_spec_def example_old_ids)
  obtain t where r: "rollback example_env example_spec 1 2 0 ?s = (Inr (), t)" and b: "instances t ''b-r2-0'' = None"
    by (simp add: rollback_def example_node_def example_supervisor_def example_view_def example_old_ids ids instances_def
        step_defs example_journal_loads char_code_def less_char_def less_eq_char_def del: set_map set_filter)
  have "(1 :: u64) \<noteq> 2" by simp
  from rollback_exceeds_service [OF example_supervisor_simps(6) example_node_ok(1) this r] ids
  obtain v where v: "instances t ''a-r1-0'' = Some v" "iv_revision v = 1" "instances ?s ''a-r1-0'' = Some v \<or> iv_image v = ''x''" by auto
  have "instances ?s ''a-r1-0'' = None" by (simp add: example_node_ok example_view_def example_old_ids)
  with r b v show ?thesis by auto
qed

end
