(* ===== verification/Node_Recovery.thy ===== *)
theory Node_Recovery
  imports Update_Safety
begin

text \<open>
  The journal of a node under the passes of its supervisor.  Every part of a pass is given a
  Hoare-style triple over the states of the journal, and the triples are composed along the code: a
  pass that starts on a closed journal leaves a closed one, whatever its result, unless it is cut off
  by a panic inside a mutation, and then exactly one intent is open, which the next pass closes by
  what the executor shows.
\<close>

named_theorems grows_intro

section \<open>The journal only grows\<close>

definition grows :: "('x, 'a) sup \<Rightarrow> bool" where
  "grows m \<longleftrightarrow> (\<forall>s r t. m s = (r, t) \<longrightarrow> journal_size (su_journal s) \<le> journal_size (su_journal t))"

lemma growsD: "grows m \<Longrightarrow> m s = (r, t) \<Longrightarrow> journal_size (su_journal s) \<le> journal_size (su_journal t)"
  by (simp add: grows_def)

lemma grows_bind [grows_intro]: "grows m \<Longrightarrow> (\<And>a. grows (k a)) \<Longrightarrow> grows (sbind m k)"
  unfolding grows_def by (fastforce simp: sbind_def intro: le_trans split: prod.splits sum.splits)

lemma grows_return [grows_intro]: "grows (sreturn a)" "grows (sfail e)"
  by (simp_all add: grows_def)

lemma grows_apply: "(\<And>x. grows (m x)) \<Longrightarrow> grows (\<lambda>s. m (f s) s)"
  by (simp add: grows_def)

lemma grows_journal [grows_intro]:
  "grows (journal_intent env a i v r now)" "grows (journal_outcome env q ok d now)"
proof -
  have f: "grows append_fault_next" by (auto simp: grows_def append_fault_next_def split: list.splits)
  show "grows (journal_intent env a i v r now)"
    unfolding journal_intent_def by (rule grows_bind [OF f]) (auto simp: grows_def dest: append_intent_grows split: prod.splits sum.splits)
  show "grows (journal_outcome env q ok d now)"
    unfolding journal_outcome_def by (rule grows_bind [OF f]) (auto simp: grows_def dest: append_outcome_grows split: prod.splits sum.splits)
qed

lemma grows_step [grows_intro]:
  "grows (trip p)" "grows (list_instances env)" "grows (run_effect env a x)" "grows (load_desired env)" "grows write_fault_next"
  by (auto simp: grows_def trip_def list_instances_def run_effect_def load_desired_def write_fault_next_def
      split: prod.splits sum.splits if_splits list.splits)

lemma grows_publish [grows_intro]: "grows (publish_catalog env vs now)" "grows (save_state env r)"
  by (auto simp: grows_def publish_catalog_def save_state_def sbind_def trip_def fs_write_def write_fault_next_def Let_def
      split: prod.splits sum.splits if_splits list.splits append_fault.splits bool.splits)

text \<open>A mutation with its authorization as an argument.\<close>

definition mutate ::
  "'x supervisor_env \<Rightarrow> mutation_action \<Rightarrow> string \<Rightarrow> string \<Rightarrow> u64 \<Rightarrow> i64 \<Rightarrow> mutation_authorization \<Rightarrow> ('x, unit) sup" where
  "mutate env action inst service revision now a =
     sbind (journal_intent env action inst service revision now) (\<lambda>seq.
     sbind (trip LF_AfterIntentRecord) (\<lambda>_.
     sbind (run_effect env action a) (\<lambda>r.
     sbind (trip LF_AfterEffect) (\<lambda>_.
     sbind (case r of Inr _ \<Rightarrow> journal_outcome env seq True ''applied'' now
            | Inl e \<Rightarrow> journal_outcome env seq False (executor_error_text e) now) (\<lambda>_.
     sbind (trip LF_AfterOutcomeRecord) (\<lambda>_.
     case r of Inr _ \<Rightarrow> sreturn () | Inl e \<Rightarrow> sfail (SE_Executor (executor_error_text e))))))))"

lemma apply_mutation_mutate:
  "apply_mutation env action i service img revision now s =
   mutate env action i service revision now (mutation_sign (se_crypto env) (mutation_intent_of s action i service img revision now)) s"
  by (simp add: apply_mutation_def mutate_def Let_def)

lemma grows_mutation [grows_intro]: "grows (apply_mutation env a i v img r now)"
proof -
  have "grows (case e of Inr _ \<Rightarrow> journal_outcome env seq True ''applied'' now
      | Inl e \<Rightarrow> journal_outcome env seq False (executor_error_text e) now)"
    "grows (case e of Inr _ \<Rightarrow> sreturn () | Inl e \<Rightarrow> sfail (SE_Executor (executor_error_text e)))"
    for e :: "executor_error + unit" and seq
    by (auto intro: grows_intro split: sum.split)
  then have "grows (mutate env a i v r now x)" for x unfolding mutate_def by (intro grows_bind grows_journal grows_step)
  then show ?thesis unfolding grows_def apply_mutation_mutate by blast
qed

lemma grows_for [grows_intro]: "(\<And>b. grows (f b)) \<Longrightarrow> grows (sfor bs f)"
  by (induction bs) (auto intro: grows_intro)

lemma grows_rollback [grows_intro]: "grows (rollback env spec old new now)"
  unfolding rollback_def Let_def by (auto intro!: grows_intro)

lemma grows_wait [grows_intro]: "grows (wait_until_healthy env i n)"
  by (induction n) (auto intro!: grows_intro)

definition panicked :: "supervisor_error + 'a \<Rightarrow> bool" where
  "panicked r \<longleftrightarrow> (\<exists>p. r = Inl (SE_Panic p))"

lemma panicked_simps [simp]: "\<not> panicked (Inr a)" "panicked (Inl e :: supervisor_error + 'a) = panicked (Inl e :: supervisor_error + 'b)"
  by (simp_all add: panicked_def)

text \<open>A start that fails is rolled back, a panic ends the update, and every other result is passed over.\<close>

lemma start_batch_cases:
  assumes "start_batch env spec old new now (i # is) s = (r, t)"
    and "apply_mutation env MA_Start i (sp_name spec) (sp_image spec) new now s = (q, u)"
  obtains (rolled_back) d where "sbind (rollback env spec old new now) (\<lambda>_. sreturn (Inl (''start of '' @ i @ '' failed: '' @ d))) u = (r, t)"
      "\<not> panicked q"
  | (panic) p where "q = Inl (SE_Panic p)" "r = Inl (SE_Panic p)" "t = u"
  | (passed) "start_batch env spec old new now is u = (r, t)" "\<not> panicked q"
proof (cases q)
  case (Inr a)
  with assms passed show thesis by simp
next
  case (Inl e)
  with assms rolled_back panic passed show thesis by (cases e) (auto simp: panicked_def)
qed

lemma grows_start_batch [grows_intro]: "grows (start_batch env spec old new now is)"
proof (induction "is")
  case (Cons i "is")
  show ?case unfolding grows_def
  proof (intro allI impI)
    fix s r t
    assume b: "start_batch env spec old new now (i # is) s = (r, t)"
    obtain q u where u: "apply_mutation env MA_Start i (sp_name spec) (sp_image spec) new now s = (q, u)" by fastforce
    note su = growsD [OF grows_mutation u]
    from b u show "journal_size (su_journal s) \<le> journal_size (su_journal t)"
    proof (cases rule: start_batch_cases)
      case (rolled_back d)
      then have "journal_size (su_journal u) \<le> journal_size (su_journal t)" by (auto elim!: growsD [rotated] intro!: grows_intro)
      with su show ?thesis by simp
    next
      case (panic p)
      with su show ?thesis by simp
    next
      case passed
      with su growsD [OF Cons passed(1)] show ?thesis by simp
    qed
  qed
qed (simp add: grows_intro)

lemma grows_gate [grows_intro]: "grows (health_gate env spec old new now is)"
  by (induction "is") (auto intro!: grows_intro)

lemma grows_stop_batch [grows_intro]: "grows (stop_batch env spec new now is)"
  by (induction "is") (auto intro!: grows_intro)

lemma grows_update [grows_intro]: "grows (update_steps env spec old new now sts)"
  by (induction sts) (auto intro!: grows_intro split: sum.split)

lemma grows_rolling [grows_intro]: "grows (rolling_update env spec r stale now)"
  unfolding rolling_update_def Let_def by (auto intro!: grows_intro split: option.split sum.split)

lemma grows_scale [grows_intro]: "grows (scale_service env spec r now report)"
  unfolding scale_service_def Let_def by (auto intro!: grows_intro)

lemma grows_converge [grows_intro]: "grows (converge_service env observed r now spec report)"
  unfolding converge_service_def Let_def by (auto intro!: grows_intro split: sum.split)

lemma grows_converge_all [grows_intro]: "grows (converge_services env observed r now specs report)"
  by (induction specs arbitrary: report) (auto intro!: grows_intro)

text \<open>The restarts of a pass.\<close>

definition restart_all :: "'x supervisor_env \<Rightarrow> i64 \<Rightarrow> instance_view list \<Rightarrow> ('x, string list) sup" where
  "restart_all env now vs =
     sbind (sfor vs (\<lambda>v.
         sbind (apply_mutation env MA_Stop (iv_instance_id v) (iv_service v) (iv_image v) (iv_revision v) now) (\<lambda>_.
         apply_mutation env MA_Start (iv_instance_id v) (iv_service v) (iv_image v) (iv_revision v) now)))
       (\<lambda>_. sreturn (map iv_instance_id vs))"

lemma enforce_health_restarts:
  assumes "enforce_health env w now s = (r, t)"
  obtains (failed) e where "r = Inl e" "list_instances env s = (Inl e, t)"
  | (listed) vs u h restart where "list_instances env s = (Inr vs, u)" "set restart \<subseteq> set vs"
      "restart_all env now restart (u\<lparr>su_state := (su_state u)\<lparr>ss_health := h\<rparr>\<rparr>) = (r, t)"
proof -
  obtain q u where l: "list_instances env s = (q, u)" by fastforce
  show thesis
  proof (cases q)
    case (Inl e)
    with l assms failed show thesis by (auto simp: enforce_health_def sbind_def)
  next
    case (Inr vs)
    obtain h restart where f: "fold (track_view w) vs
        (om_retain (\<lambda>i _. list_ex (\<lambda>v. iv_instance_id v = i) vs) (ss_health (su_state u)), []) = (h, restart)" by fastforce
    then have "set restart \<subseteq> set vs" using track_view_restarts [of w vs _ "[]"] by (metis Un_empty_left list.set(1) snd_conv)
    moreover have "restart_all env now restart (u\<lparr>su_state := (su_state u)\<lparr>ss_health := h\<rparr>\<rparr>) = (r, t)"
      using assms l Inr f by (simp add: enforce_health_def restart_all_def sbind_def Let_def)
    ultimately show thesis using l Inr listed by blast
  qed
qed

lemma grows_restart [grows_intro]: "grows (restart_all env now vs)"
  unfolding restart_all_def by (intro grows_intro)

lemma grows_health [grows_intro]: "grows (enforce_health env w now)"
  unfolding grows_def
proof (intro allI impI)
  fix s r t
  assume "enforce_health env w now s = (r, t)"
  then show "journal_size (su_journal s) \<le> journal_size (su_journal t)"
  proof (cases rule: enforce_health_restarts)
    case (failed e)
    then show ?thesis using growsD [OF grows_step(2)] by blast
  next
    case (listed vs u h restart)
    then show ?thesis using growsD [OF grows_step(2) listed(1)] growsD [OF grows_restart listed(3)] by simp
  qed
qed

lemma grows_view [grows_intro]: "grows (stop_view env now v)"
  unfolding stop_view_def by (rule grows_mutation)

text \<open>The end of a pass.\<close>

definition conclude_pass ::
  "'x supervisor_env \<Rightarrow> desired_workload \<Rightarrow> reconcile_report \<Rightarrow> ('x, reconcile_report) sup" where
  "conclude_pass env w report = (\<lambda>s.
     sbind (save_state env (if rr_rolled_back report = [] then dw_revision w else ss_applied_revision (su_state s)))
       (\<lambda>_. sreturn report) s)"

lemma grows_conclude [grows_intro]: "grows (conclude_pass env w report)"
proof -
  have "grows (sbind (save_state env r) (\<lambda>_. sreturn report))" for r by (intro grows_intro)
  then show ?thesis unfolding grows_def conclude_pass_def by blast
qed

lemma reconcile_desired_conclude:
  "reconcile_desired env w observed now report =
     sbind (converge_services env observed (dw_revision w) now (dw_services w) report) (\<lambda>report.
     sbind (list_instances env) (\<lambda>post_observed.
     sbind (sfor (filter (\<lambda>v. iv_service v \<notin> set (map sp_name (dw_services w))) post_observed) (stop_view env now)) (\<lambda>_.
     sbind (enforce_health env w now) (\<lambda>restarted.
     sbind (list_instances env) (\<lambda>observed.
     sbind (publish_catalog env observed now) (\<lambda>_.
     conclude_pass env w (report\<lparr>rr_stopped := rr_stopped report @ map iv_instance_id
         (filter (\<lambda>v. iv_service v \<notin> set (map sp_name (dw_services w))) post_observed), rr_restarted := restarted\<rparr>)))))))"
  unfolding reconcile_desired_def conclude_pass_def Let_def ..

lemma grows_desired [grows_intro]: "grows (reconcile_desired env w observed now report)"
  unfolding reconcile_desired_conclude by (intro grows_intro)

lemma grows_recover [grows_intro]: "grows (recover_ambiguous env now)"
  unfolding grows_def
proof (intro allI impI)
  fix s r t
  assume r: "recover_ambiguous env now s = (r, t)"
  show "journal_size (su_journal s) \<le> journal_size (su_journal t)"
  proof (cases "node_journal_load (se_codec env) (su_journal s)")
    case (Inr es)
    have k: "journal_size (su_journal u) \<le> journal_size (su_journal t)"
      if "(let rest = drop (length (ambiguous es)) (su_append_faults u) in
             case close_intents (se_codec env) (su_append_faults u) (judge_intent observed) now (ambiguous es) (su_journal u) of
               (Inl e, f) \<Rightarrow> (Inl (SE_Journal e), u\<lparr>su_journal := f, su_append_faults := rest\<rparr>)
             | (Inr _, f) \<Rightarrow> (Inr (length (ambiguous es)), u\<lparr>su_journal := f, su_append_faults := rest\<rparr>)) = (r, t)" for observed u
      using that by (auto simp: Let_def dest: close_intents_grows split: prod.splits sum.splits)
    obtain q u where l: "list_instances env s = (q, u)" by fastforce
    then have "journal_size (su_journal s) \<le> journal_size (su_journal u)" by (rule growsD [OF grows_step(2)])
    moreover have "t = s \<or> t = u \<or> journal_size (su_journal u) \<le> journal_size (su_journal t)"
      using r Inr l k [of u] by (cases q) (auto simp: recover_ambiguous_def sbind_def split: if_splits)
    ultimately show ?thesis by auto
  qed (use r in \<open>simp add: recover_ambiguous_def\<close>)
qed

lemma grows_pass [grows_intro]: "grows (reconcile env now)"
  unfolding reconcile_def by (auto intro!: grows_intro split: option.split)

section \<open>Triples\<close>

text \<open>
  \<open>triple ec P m Q\<close>: from a state with \<open>P\<close>, every result and state of \<open>m\<close> satisfy \<open>Q\<close>, as long as the
  journal has room left at the end.
\<close>

definition triple ::
  "entry_codec \<Rightarrow> ('x supervisor \<Rightarrow> bool) \<Rightarrow> ('x, 'a) sup \<Rightarrow> (supervisor_error + 'a \<Rightarrow> 'x supervisor \<Rightarrow> bool) \<Rightarrow> bool" where
  "triple ec P m Q \<longleftrightarrow> (\<forall>s r t. P s \<longrightarrow> m s = (r, t) \<longrightarrow> journal_room ec (su_journal t) \<longrightarrow> Q r t)"

lemma tripleD: "triple ec P m Q \<Longrightarrow> P s \<Longrightarrow> m s = (r, t) \<Longrightarrow> journal_room ec (su_journal t) \<Longrightarrow> Q r t"
  by (simp add: triple_def)

lemma triple_bind:
  assumes m: "triple ec P m Q" and g: "\<And>a. grows (k a)" and k: "\<And>a. triple ec (Q (Inr a)) (k a) R"
    and e: "\<And>e t. Q (Inl e) t \<Longrightarrow> R (Inl e) t"
  shows "triple ec P (sbind m k) R"
  unfolding triple_def
proof (intro allI impI)
  fix s r t
  assume s: "P s" and b: "sbind m k s = (r, t)" and room: "journal_room ec (su_journal t)"
  obtain q u where q: "m s = (q, u)" by fastforce
  show "R r t"
  proof (cases q)
    case (Inl x)
    then have "r = Inl x" "t = u" using b q by (simp_all add: sbind_def)
    with tripleD [OF m s q] room Inl e show ?thesis by simp
  next
    case (Inr a)
    then have k': "k a u = (r, t)" using b q by (simp add: sbind_def)
    have "journal_room ec (su_journal u)" by (rule journal_room_mono [OF room growsD [OF g k']])
    with tripleD [OF m s q] Inr have "Q (Inr a) u" by simp
    from tripleD [OF k this k' room] show ?thesis .
  qed
qed

lemma triple_weaken: "triple ec P m Q \<Longrightarrow> (\<And>s. P' s \<Longrightarrow> P s) \<Longrightarrow> (\<And>r t. Q r t \<Longrightarrow> Q' r t) \<Longrightarrow> triple ec P' m Q'"
  unfolding triple_def by blast

lemma triple_return: "triple ec P (sreturn a) Q \<longleftrightarrow> (\<forall>s. P s \<longrightarrow> journal_room ec (su_journal s) \<longrightarrow> Q (Inr a) s)"
  "triple ec P (sfail e) Q \<longleftrightarrow> (\<forall>s. P s \<longrightarrow> journal_room ec (su_journal s) \<longrightarrow> Q (Inl e) s)"
  by (auto simp: triple_def)

definition named_view :: "instance_view \<Rightarrow> bool" where
  "named_view v \<longleftrightarrow> \<not> trim_is_empty (iv_instance_id v) \<and> \<not> trim_is_empty (iv_service v)"

definition named_views :: "(string \<rightharpoonup> instance_view) \<Rightarrow> bool" where
  "named_views m \<longleftrightarrow> (\<forall>i v. m i = Some v \<longrightarrow> named_view v)"

lemma named_effect:
  "effect action i service img r m n \<Longrightarrow> named_views m \<Longrightarrow> \<not> trim_is_empty i \<Longrightarrow> \<not> trim_is_empty service \<Longrightarrow> named_views n"
  by (auto simp: effect_def named_views_def named_view_def split: mutation_action.splits if_splits)

text \<open>What recovery appends for an open intent: whether the instances show its effect.\<close>

definition recovery_entry :: "i64 \<Rightarrow> (string \<rightharpoonup> instance_view) \<Rightarrow> intent_record \<Rightarrow> node_entry" where
  "recovery_entry now m r =
     (let applied = (if ir_action r = MA_Start then m (ir_instance_id r) \<noteq> None else m (ir_instance_id r) = None)
      in NE_Outcome \<lparr>or_seq = ir_seq r, or_ok = applied,
           or_detail = (if applied then ''recovered: effect present'' else ''recovered: effect absent; reconcile reapplies''),
           or_recorded_unix = now\<rparr>)"

text \<open>An executor whose error messages are short enough for the room that is kept for outcomes.\<close>

locale brief_executor = workload_executor ops ok live
  for ops :: "'x executor_ops" and ok :: "'x \<Rightarrow> bool" and live :: "'x \<Rightarrow> string \<rightharpoonup> instance_view" +
  assumes start_brief: "ok x \<Longrightarrow> eo_start ops a x = (Inl e, y) \<Longrightarrow> length (executor_error_text e) \<le> usual_detail"
    and stop_brief: "ok x \<Longrightarrow> eo_stop ops a x = (Inl e, y) \<Longrightarrow> length (executor_error_text e) \<le> usual_detail"
begin

definition sane :: "'x supervisor \<Rightarrow> bool" where
  "sane s \<longleftrightarrow> good s \<and> named_views (alive s) \<and> su_append_faults s = []"

lemma sane_cong:
  "su_exec t = su_exec s \<Longrightarrow> su_append_faults t = su_append_faults s \<Longrightarrow> sane t = sane s"
  by (simp add: sane_def good_def alive_def)

definition ready :: "entry_codec \<Rightarrow> 'x supervisor \<Rightarrow> bool" where
  "ready ec s \<longleftrightarrow> sane s \<and> journal_closed ec (su_journal s)"

definition pending :: "entry_codec \<Rightarrow> u64 \<Rightarrow> 'x supervisor \<Rightarrow> bool" where
  "pending ec seq s \<longleftrightarrow> sane s \<and> journal_open ec seq (su_journal s)"

definition left :: "entry_codec \<Rightarrow> supervisor_error + 'a \<Rightarrow> 'x supervisor \<Rightarrow> bool" where
  "left ec r t \<longleftrightarrow> ready ec t \<or> panicked r \<and> (\<exists>seq. pending ec seq t)"

definition keeps :: "entry_codec \<Rightarrow> ('x, 'a) sup \<Rightarrow> bool" where
  "keeps ec m \<longleftrightarrow> triple ec (ready ec) m (left ec)"

lemma left_Inr [simp]: "left ec (Inr a) = ready ec"
  by (simp add: left_def fun_eq_iff)

lemma keeps_seq: "keeps ec m \<Longrightarrow> (\<And>a. grows (k a)) \<Longrightarrow> (\<And>a. keeps ec (k a)) \<Longrightarrow> keeps ec (sbind m k)"
  unfolding keeps_def by (rule triple_bind [where Q = "left ec"]) (auto simp: left_def [of _ "Inl _"] panicked_def)

lemma keeps_return: "keeps ec (sreturn a)" "keeps ec (sfail e)"
  by (simp_all add: keeps_def triple_return left_def)

lemma keeps_unchanged:
  assumes "\<And>s r t. m s = (r, t) \<Longrightarrow> su_exec t = su_exec s \<and> su_append_faults t = su_append_faults s \<and> su_journal t = su_journal s"
  shows "keeps ec m"
  unfolding keeps_def triple_def left_def ready_def using assms sane_cong by metis

lemma intent_triple:
  assumes "codec_ok (se_codec env)" and "\<not> trim_is_empty i" and "\<not> trim_is_empty service"
  shows "triple (se_codec env) (ready (se_codec env)) (journal_intent env action i service revision now)
    (\<lambda>r. case r of Inr seq \<Rightarrow> pending (se_codec env) seq | Inl e \<Rightarrow> ready (se_codec env))"
  unfolding triple_def
proof (intro allI impI)
  fix s r t
  assume s: "ready (se_codec env) s" and j: "journal_intent env action i service revision now s = (r, t)"
    and room: "journal_room (se_codec env) (su_journal t)"
  obtain q g where q: "append_intent (se_codec env) AF_None action i service revision now (su_journal s) = (q, g)" by fastforce
  have none: "su_append_faults s = []" using s by (simp add: ready_def sane_def)
  show "(case r of Inr seq \<Rightarrow> pending (se_codec env) seq | Inl e \<Rightarrow> ready (se_codec env)) t"
  proof (cases q)
    case (Inl e)
    with q j none have "r = Inl (SE_Journal e)" "t = s"
      by (auto simp: journal_intent_def append_fault_next_def sbind_def dest: append_intent_refused)
    with s show ?thesis by simp
  next
    case (Inr seq)
    with q j none have t: "r = Inr seq" "t = s\<lparr>su_journal := g\<rparr>"
      by (auto simp: journal_intent_def append_fault_next_def sbind_def)
    have "journal_open (se_codec env) seq g"
      using intent_opens [OF assms(1) _ q [unfolded Inr] _ assms(2,3)] s room t(2) by (simp add: ready_def)
    moreover have "sane t" using s t(2) sane_cong [of t s] by (simp add: ready_def)
    ultimately show ?thesis using t by (simp add: pending_def)
  qed
qed

lemma outcome_triple:
  assumes "codec_ok (se_codec env)" and "length d \<le> usual_detail"
  shows "triple (se_codec env) (pending (se_codec env) seq) (journal_outcome env seq okay d now)
    (\<lambda>r t. r = Inr () \<and> ready (se_codec env) t)"
  unfolding triple_def
proof (intro allI impI)
  fix s r t
  assume s: "pending (se_codec env) seq s" and j: "journal_outcome env seq okay d now s = (r, t)"
    and room: "journal_room (se_codec env) (su_journal t)"
  have o: "journal_open (se_codec env) seq (su_journal s)" "su_append_faults s = []" "sane s"
    using s by (simp_all add: pending_def sane_def)
  have "journal_room (se_codec env) (su_journal s)" by (rule journal_room_mono [OF room growsD [OF grows_journal(2) j]])
  from outcome_fits [OF o(1) this assms(2)] obtain g where
    g: "append_outcome (se_codec env) AF_None seq okay d now (su_journal s) = (Inr (), g)" by blast
  with j o(2) have t: "r = Inr ()" "t = s\<lparr>su_journal := g\<rparr>"
    by (auto simp: journal_outcome_def append_fault_next_def sbind_def)
  with outcome_closes [OF assms(1) o(1) g] o(3) sane_cong [of t s] show "r = Inr () \<and> ready (se_codec env) t"
    by (simp add: ready_def)
qed

lemma trip_triple: "triple ec (pending ec seq) (trip p) (\<lambda>r t. pending ec seq t \<and> (r = Inr () \<or> panicked r))"
  unfolding triple_def
proof (intro allI impI)
  fix s r t
  assume "pending ec seq s" and t: "trip p s = (r, t)"
  moreover from t have "su_exec t = su_exec s" "su_append_faults t = su_append_faults s" "su_journal t = su_journal s"
    "r = Inr () \<or> panicked r" by (auto simp: trip_def panicked_def split: if_splits)
  ultimately show "pending ec seq t \<and> (r = Inr () \<or> panicked r)" using sane_cong [of t s] by (simp add: pending_def)
qed

lemma keeps_trip: "keeps ec (trip p)"
  by (rule keeps_unchanged) (auto simp: trip_def split: if_splits)

lemma effect_triple:
  assumes "se_ops env = ops" and "mi_action (ma_intent a) = action"
    and "\<not> trim_is_empty (mi_instance_id (ma_intent a))" and "\<not> trim_is_empty (mi_service (ma_intent a))"
  shows "triple ec (pending ec seq) (run_effect env action a)
    (\<lambda>r t. pending ec seq t \<and> (\<exists>res. r = Inr res \<and> (\<forall>e. res = Inl e \<longrightarrow> length (executor_error_text e) \<le> usual_detail)))"
  unfolding triple_def
proof (intro allI impI)
  fix s r t
  assume s: "pending ec seq s" and e: "run_effect env action a s = (r, t)"
  have g: "good s" "named_views (alive s)" "su_append_faults s = []" using s by (simp_all add: pending_def sane_def)
  obtain res where res: "r = Inr res" using run_effect_total [of env action a s] e by auto
  note f = effect_facts [OF assms(1) g(1) e [unfolded res] assms(2)]
  have x: "(res, su_exec t) = (if action = MA_Start then eo_start ops a (su_exec s) else eo_stop ops a (su_exec s))"
    "su_journal t = su_journal s" "su_append_faults t = su_append_faults s"
    using e assms(1) res by (auto simp: run_effect_def split: prod.splits if_splits)
  have "named_views (alive t)"
    using f g(2) by (cases res) (auto intro: named_effect [OF _ g(2) assms(3,4)])
  then have "pending ec seq t" using f s x g(3) by (simp add: pending_def sane_def)
  moreover have "length (executor_error_text e) \<le> usual_detail" if "res = Inl e" for e
    using x(1) that start_brief [of "su_exec s" a e "su_exec t"] stop_brief [of "su_exec s" a e "su_exec t"] g(1)
    by (auto simp: good_def split: if_splits)
  ultimately show "pending ec seq t \<and> (\<exists>res. r = Inr res \<and> (\<forall>e. res = Inl e \<longrightarrow> length (executor_error_text e) \<le> usual_detail))"
    using res by blast
qed

text \<open>A panic while an intent is open, and the rest of the mutation otherwise.\<close>

lemma trip_then:
  assumes "triple ec (pending ec seq) m (left ec)" and "grows m"
  shows "triple ec (pending ec seq) (sbind (trip p) (\<lambda>_. m)) (left ec)"
proof (rule triple_bind [OF trip_triple])
  show "triple ec (\<lambda>t. pending ec seq t \<and> (Inr u = Inr () \<or> panicked (Inr u :: supervisor_error + unit))) m (left ec)" for u
    by (rule triple_weaken [OF assms(1)]) simp_all
  show "left ec (Inl e :: supervisor_error + 'b) t" if "pending ec seq t \<and> (Inl e = Inr () \<or> panicked (Inl e :: supervisor_error + unit))" for e t
    using that by (auto simp: left_def panicked_def)
qed (rule assms(2))

lemma keeps_mutate:
  assumes "se_ops env = ops" and "codec_ok (se_codec env)" and "mi_action (ma_intent a) = action"
    and "mi_instance_id (ma_intent a) = i" and "mi_service (ma_intent a) = service"
    and "\<not> trim_is_empty i" and "\<not> trim_is_empty service"
  shows "keeps (se_codec env) (mutate env action i service revision now a)"
proof -
  let ?ec = "se_codec env"
  let ?brief = "\<lambda>res :: executor_error + unit. \<forall>e. res = Inl e \<longrightarrow> length (executor_error_text e) \<le> usual_detail"
  let ?outcome = "\<lambda>seq res. case res of Inr _ \<Rightarrow> journal_outcome env seq True ''applied'' now
     | Inl e \<Rightarrow> journal_outcome env seq False (executor_error_text e) now"
  let ?result = "\<lambda>res :: executor_error + unit. case res of Inr _ \<Rightarrow> sreturn () | Inl e \<Rightarrow> sfail (SE_Executor (executor_error_text e))"
  have go: "grows (?outcome seq res)" "grows (?result res)" for seq and res :: "executor_error + unit"
    by (auto intro: grows_intro split: sum.split)
  let ?last = "\<lambda>res. sbind (trip LF_AfterOutcomeRecord) (\<lambda>_. ?result res)"
  have gl: "grows (?last res)" for res by (intro grows_intro go)
  have "keeps ?ec (?result res)" for res by (cases res) (auto intro: keeps_return)
  then have e: "keeps ?ec (?last res)" for res by (intro keeps_seq keeps_trip go)
  have o: "triple ?ec (pending ?ec seq) (?outcome seq res) (\<lambda>r t. r = Inr () \<and> ready ?ec t)" if "?brief res" for seq res
    using that outcome_triple [OF assms(2), of "''applied''"] outcome_triple [OF assms(2)]
    by (cases res) (auto simp: usual_detail_def)
  have o: "triple ?ec (pending ?ec seq) (sbind (?outcome seq res) (\<lambda>_. ?last res)) (left ?ec)" if "?brief res" for seq res
    by (rule triple_bind [OF o [OF that] gl triple_weaken [OF e [unfolded keeps_def]]]) simp_all
  have "triple ?ec (pending ?ec seq) (sbind (run_effect env action a) (\<lambda>res. sbind (trip LF_AfterEffect) (\<lambda>_.
      sbind (?outcome seq res) (\<lambda>_. ?last res)))) (left ?ec)" for seq
  proof (rule triple_bind [OF effect_triple [OF assms(1,3)]])
    fix res
    show g: "grows (sbind (trip LF_AfterEffect) (\<lambda>_. sbind (?outcome seq res) (\<lambda>_. ?last res)))" by (intro grows_intro go gl)
    show "triple ?ec (\<lambda>t. pending ?ec seq t \<and> (\<exists>res'. Inr res = Inr res' \<and> ?brief res'))
        (sbind (trip LF_AfterEffect) (\<lambda>_. sbind (?outcome seq res) (\<lambda>_. ?last res))) (left ?ec)"
    proof (cases "?brief res")
      case True
      from trip_then [OF o [OF True]] show ?thesis by (rule triple_weaken) (auto intro!: grows_intro go gl)
    qed (auto simp: triple_def)
  qed (use assms(4-7) in auto)
  then have "triple ?ec (pending ?ec seq) (sbind (trip LF_AfterIntentRecord) (\<lambda>_. sbind (run_effect env action a) (\<lambda>res.
      sbind (trip LF_AfterEffect) (\<lambda>_. sbind (?outcome seq res) (\<lambda>_. ?last res))))) (left ?ec)" for seq
    by (rule trip_then) (intro grows_intro go gl)
  then show ?thesis unfolding keeps_def mutate_def
    by (intro triple_bind [OF intent_triple [OF assms(2,6,7)]]) (auto intro!: grows_intro go simp: left_def)
qed

lemma keeps_mutation:
  assumes "se_ops env = ops" and "codec_ok (se_codec env)" and "\<not> trim_is_empty i" and "\<not> trim_is_empty service"
  shows "keeps (se_codec env) (apply_mutation env action i service img revision now)"
proof -
  have "keeps (se_codec env) (mutate env action i service revision now
      (mutation_sign (se_crypto env) (mutation_intent_of s action i service img revision now)))" for s :: "'x supervisor"
    using assms by (intro keeps_mutate) (simp_all add: mutation_sign_def mutation_intent_of_def)
  then show ?thesis unfolding keeps_def triple_def apply_mutation_mutate by blast
qed

lemma keeps_for:
  assumes "\<And>b. b \<in> set bs \<Longrightarrow> keeps ec (f b)" and "\<And>b. grows (f b)"
  shows "keeps ec (sfor bs f)"
  using assms(1) by (induction bs) (auto intro!: keeps_seq keeps_return grows_for assms(2))

lemma list_keeps:
  assumes "se_ops env = ops" and "list_instances env s = (r, t)"
  shows "su_journal t = su_journal s" "sane s \<Longrightarrow> sane t"
proof -
  show "su_journal t = su_journal s" using assms(2) by (auto simp: list_instances_def split: prod.splits sum.splits)
  have "su_append_faults t = su_append_faults s" using assms(2) by (auto simp: list_instances_def split: prod.splits sum.splits)
  then show "sane s \<Longrightarrow> sane t" using list_facts [OF assms(1) _ assms(2)] by (simp add: sane_def)
qed

lemma keeps_list:
  assumes "se_ops env = ops" and "\<And>vs. grows (k vs)" and "\<And>vs. \<forall>v \<in> set vs. named_view v \<Longrightarrow> keeps ec (k vs)"
  shows "keeps ec (sbind (list_instances env) k)"
proof -
  have "triple ec (ready ec) (list_instances env) (\<lambda>r t. ready ec t \<and> (\<forall>vs. r = Inr vs \<longrightarrow> (\<forall>v \<in> set vs. named_view v)))"
    unfolding triple_def
  proof (intro allI impI)
    fix s r t
    assume s: "ready ec s" and l: "list_instances env s = (r, t)"
    have g: "good s" "named_views (alive s)" using s by (simp_all add: ready_def sane_def)
    note f = list_facts [OF assms(1) g(1) l]
    have "ready ec t" using s list_keeps [OF assms(1) l] by (simp add: ready_def)
    with f g(2) show "ready ec t \<and> (\<forall>vs. r = Inr vs \<longrightarrow> (\<forall>v \<in> set vs. named_view v))"
      unfolding named_views_def by blast
  qed
  then show ?thesis unfolding keeps_def
    by (rule triple_bind) (use assms(2,3) in \<open>auto simp: left_def [of _ "Inl _"] keeps_def triple_def\<close>)
qed

lemma keeps_listing:
  assumes "se_ops env = ops" shows "keeps ec (list_instances env)"
proof -
  have "sbind (list_instances env) sreturn = list_instances env"
    by (auto simp: sbind_def sreturn_def fun_eq_iff split: prod.splits sum.splits)
  then show ?thesis using keeps_list [OF assms, of sreturn ec] grows_return(1) keeps_return(1) by metis
qed

lemma keeps_stop:
  "se_ops env = ops \<Longrightarrow> codec_ok (se_codec env) \<Longrightarrow> named_view v \<Longrightarrow>
   keeps (se_codec env) (apply_mutation env a (iv_instance_id v) (iv_service v) img r now)"
  by (rule keeps_mutation) (simp_all add: named_view_def)

lemma keeps_start:
  "se_ops env = ops \<Longrightarrow> codec_ok (se_codec env) \<Longrightarrow> \<not> trim_is_empty (sp_name spec) \<Longrightarrow> i \<in> set (instance_ids spec q) \<Longrightarrow>
   keeps (se_codec env) (apply_mutation env a i (sp_name spec) img r now)"
  by (rule keeps_mutation) (auto simp: instance_ids_def instance_id_not_blank)

lemma keeps_view:
  "se_ops env = ops \<Longrightarrow> codec_ok (se_codec env) \<Longrightarrow> named_view v \<Longrightarrow> keeps (se_codec env) (stop_view env now v)"
  unfolding stop_view_def by (rule keeps_stop)

lemma ids_not_blank: "i \<in> set (instance_ids spec r) \<Longrightarrow> \<not> trim_is_empty i"
  by (auto simp: instance_ids_def instance_id_not_blank)

lemma keeps_rollback:
  assumes "se_ops env = ops" and "codec_ok (se_codec env)" and "\<not> trim_is_empty (sp_name spec)"
  shows "keeps (se_codec env) (rollback env spec old new now)"
  unfolding rollback_def Let_def
  by (rule keeps_list [OF assms(1)])
    (auto intro!: grows_intro keeps_seq keeps_for keeps_stop [OF assms(1,2)] keeps_start [OF assms])

lemma keeps_wait: "se_ops env = ops \<Longrightarrow> keeps ec (wait_until_healthy env i n)"
  by (induction n) (auto intro!: grows_intro keeps_list keeps_return)

lemma keeps_start_batch:
  assumes "se_ops env = ops" and "codec_ok (se_codec env)" and "\<not> trim_is_empty (sp_name spec)" and "set is \<subseteq> set (instance_ids spec new)"
  shows "keeps (se_codec env) (start_batch env spec old new now is)"
  using assms(4)
proof (induction "is")
  case (Cons i "is")
  let ?ec = "se_codec env"
  have m: "keeps ?ec (apply_mutation env MA_Start i (sp_name spec) (sp_image spec) new now)"
    using Cons.prems by (intro keeps_start [OF assms(1-3)]) auto
  have rb: "keeps ?ec (sbind (rollback env spec old new now) (\<lambda>_. sreturn x))" for x :: "string + unit"
    by (intro keeps_seq keeps_rollback [OF assms(1-3)] keeps_return grows_intro)
  show ?case unfolding keeps_def triple_def
  proof (intro allI impI)
    fix s r t
    assume s: "ready ?ec s" and b: "start_batch env spec old new now (i # is) s = (r, t)" and room: "journal_room ?ec (su_journal t)"
    obtain q u where u: "apply_mutation env MA_Start i (sp_name spec) (sp_image spec) new now s = (q, u)" by fastforce
    have go_on: "left ?ec r t" if k: "keeps ?ec k" "grows k" and t: "k u = (r, t)" and q: "\<not> panicked q" for k :: "('x, string + unit) sup"
    proof -
      have "journal_room ?ec (su_journal u)" by (rule journal_room_mono [OF room growsD [OF k(2) t]])
      with tripleD [OF m [unfolded keeps_def] s u] q have "ready ?ec u" by (simp add: left_def)
      from tripleD [OF k(1) [unfolded keeps_def] this t room] show ?thesis .
    qed
    from b u show "left ?ec r t"
    proof (cases rule: start_batch_cases)
      case (rolled_back d)
      with go_on [OF rb] show ?thesis by (auto intro!: grows_intro)
    next
      case (panic p)
      with tripleD [OF m [unfolded keeps_def] s u] room show ?thesis by (simp add: left_def panicked_def)
    next
      case passed
      have "keeps ?ec (start_batch env spec old new now is)" using Cons by simp
      from go_on [OF this grows_start_batch passed] show ?thesis .
    qed
  qed
qed (simp add: keeps_return)

lemma keeps_gate:
  assumes "se_ops env = ops" and "codec_ok (se_codec env)" and "\<not> trim_is_empty (sp_name spec)"
  shows "keeps (se_codec env) (health_gate env spec old new now is)"
  by (induction "is")
    (auto intro!: grows_intro keeps_seq keeps_return keeps_wait [OF assms(1)] keeps_rollback [OF assms])

lemma keeps_stop_batch:
  assumes "se_ops env = ops" and "codec_ok (se_codec env)" and "\<not> trim_is_empty (sp_name spec)" and "\<forall>i \<in> set is. \<not> trim_is_empty i"
  shows "keeps (se_codec env) (stop_batch env spec new now is)"
  using assms(4)
  by (induction "is")
    (auto intro!: grows_intro keeps_list [OF assms(1)] keeps_seq keeps_return keeps_mutation [OF assms(1,2) _ assms(3)])

lemma keeps_update:
  assumes "se_ops env = ops" and "codec_ok (se_codec env)" and "\<not> trim_is_empty (sp_name spec)"
    and "\<forall>st \<in> set sts. set (rs_start st) \<subseteq> set (instance_ids spec new) \<and> (\<forall>i \<in> set (rs_stop st). \<not> trim_is_empty i)"
  shows "keeps (se_codec env) (update_steps env spec old new now sts)"
  using assms(4)
  by (induction sts)
    (auto intro!: grows_intro keeps_seq keeps_return keeps_start_batch [OF assms(1-3)] keeps_gate [OF assms(1-3)]
      keeps_stop_batch [OF assms(1-3)] split: sum.split)

lemma keeps_rolling:
  assumes "se_ops env = ops" and "codec_ok (se_codec env)" and "\<not> trim_is_empty (sp_name spec)" and "\<forall>v \<in> set stale. named_view v"
  shows "keeps (se_codec env) (rolling_update env spec new stale now)"
proof -
  let ?p = "\<lparr>max_surge = up_max_surge (sp_update spec), max_unavailable = up_max_unavailable (sp_update spec)\<rparr>"
  have "keeps (se_codec env) (update_steps env spec old new now steps)"
    if "rollout_plan (map iv_instance_id stale) (instance_ids spec new) ?p = Some (Inr steps)" for steps old
    using rollout_plan_sets [OF that] assms(4) by (intro keeps_update [OF assms(1-3)]) (fastforce simp: named_view_def)
  then show ?thesis unfolding rolling_update_def Let_def by (auto intro: keeps_return split: option.split sum.split)
qed

lemma keeps_scale:
  assumes "se_ops env = ops" and "codec_ok (se_codec env)" and "\<not> trim_is_empty (sp_name spec)"
  shows "keeps (se_codec env) (scale_service env spec r now report)"
  unfolding scale_service_def Let_def
  by (rule keeps_list [OF assms(1)])
    (auto intro!: grows_intro keeps_seq keeps_for keeps_return keeps_mutation [OF assms(1,2) _ assms(3)]
      simp: set_difference_def named_view_def dest: ids_not_blank)

lemma keeps_converge:
  assumes "se_ops env = ops" and "codec_ok (se_codec env)" and "\<not> trim_is_empty (sp_name spec)" and "\<forall>v \<in> set observed. named_view v"
  shows "keeps (se_codec env) (converge_service env observed r now spec report)"
  using assms(4) unfolding converge_service_def Let_def
  by (auto intro!: grows_intro keeps_seq keeps_return keeps_rolling [OF assms(1-3)] keeps_scale [OF assms(1-3)] split: sum.split)

lemma keeps_converge_all:
  assumes "se_ops env = ops" and "codec_ok (se_codec env)" and "\<forall>spec \<in> set specs. \<not> trim_is_empty (sp_name spec)"
    and "\<forall>v \<in> set observed. named_view v"
  shows "keeps (se_codec env) (converge_services env observed r now specs report)"
  using assms(3)
  by (induction specs arbitrary: report)
    (auto intro!: grows_intro keeps_seq keeps_return keeps_converge [OF assms(1,2) _ assms(4)])

lemma keeps_write: "keeps ec (publish_catalog env vs now)" "keeps ec (save_state env r)"
  by (rule keeps_unchanged;
      auto simp: publish_catalog_def save_state_def sbind_def trip_def fs_write_def write_fault_next_def Let_def
      split: prod.splits sum.splits if_splits list.splits append_fault.splits bool.splits)+

lemma keeps_health:
  assumes "se_ops env = ops" and "codec_ok (se_codec env)"
  shows "keeps (se_codec env) (enforce_health env w now)"
  unfolding keeps_def triple_def
proof (intro allI impI)
  let ?ec = "se_codec env"
  fix s r t
  assume s: "ready ?ec s" and h: "enforce_health env w now s = (r, t)" and room: "journal_room ?ec (su_journal t)"
  from h show "left ?ec r t"
  proof (cases rule: enforce_health_restarts)
    case (failed e)
    from tripleD [OF keeps_listing [OF assms(1), of ?ec, unfolded keeps_def] s failed(2) room] failed(1) show ?thesis
      by (auto simp: left_def panicked_def)
  next
    case (listed vs u h restart)
    let ?u = "u\<lparr>su_state := (su_state u)\<lparr>ss_health := h\<rparr>\<rparr>"
    have g: "good s" "named_views (alive s)" using s by (simp_all add: ready_def sane_def)
    note f = list_facts [OF assms(1) g(1) listed(1)]
    have "journal_room ?ec (su_journal u)"
      using journal_room_mono [OF room growsD [OF grows_restart listed(3)]] by simp
    from tripleD [OF keeps_listing [OF assms(1), of ?ec, unfolded keeps_def] s listed(1) this]
    have u: "ready ?ec ?u" using sane_cong [of ?u u] by (simp add: ready_def)
    have "\<forall>v \<in> set restart. named_view v" using f g(2) listed(2) unfolding named_views_def by blast
    then have "keeps ?ec (restart_all env now restart)"
      unfolding restart_all_def by (intro keeps_seq keeps_for keeps_return keeps_stop [OF assms] grows_intro) auto
    from tripleD [OF this [unfolded keeps_def] u listed(3) room] show ?thesis .
  qed
qed

lemma keeps_conclude: "keeps ec (conclude_pass env w report)"
proof -
  have "keeps ec (sbind (save_state env r) (\<lambda>_. sreturn report))" for r
    by (intro keeps_seq keeps_write keeps_return grows_intro)
  then show ?thesis unfolding keeps_def triple_def conclude_pass_def by blast
qed

lemma keeps_desired:
  assumes "se_ops env = ops" and "codec_ok (se_codec env)" and "workload_validate w = Inr ()" and "\<forall>v \<in> set observed. named_view v"
  shows "keeps (se_codec env) (reconcile_desired env w observed now report)"
proof -
  have n: "\<forall>spec \<in> set (dw_services w). \<not> trim_is_empty (sp_name spec)"
    using workload_validate_ok(3) [OF assms(3)] by (fastforce simp: service_validate_def Let_def split: if_splits)
  show ?thesis unfolding reconcile_desired_conclude
    by (intro keeps_seq keeps_converge_all [OF assms(1,2) n assms(4)] keeps_list [OF assms(1)] keeps_for keeps_health [OF assms(1,2)]
        keeps_write keeps_conclude grows_intro) (auto intro: keeps_view [OF assms(1,2)])
qed

section \<open>A whole pass\<close>

text \<open>Between passes one intent may be open.\<close>

definition tidy :: "entry_codec \<Rightarrow> 'x supervisor \<Rightarrow> bool" where
  "tidy ec s \<longleftrightarrow> ready ec s \<or> (\<exists>seq. pending ec seq s)"

lemma tidy_sane: "tidy ec s \<Longrightarrow> sane s"
  by (auto simp: tidy_def ready_def pending_def)

lemma tidy_entries:
  assumes "tidy ec s"
  obtains (closed) es where "journal_state ec (su_journal s) es" "ambiguous es = []"
  | (opened) es r where "journal_state ec (su_journal s) (es @ [NE_Intent r])" "ambiguous (es @ [NE_Intent r]) = [r]"
  using assms unfolding tidy_def ready_def pending_def journal_closed_def journal_open_def by blast

lemma judge_listing:
  assumes "se_ops env = ops" and "good s" and "list_instances env s = (Inr vs, u)"
  shows "recovery_entry now (alive s) r =
    NE_Outcome \<lparr>or_seq = ir_seq r, or_ok = fst (judge_intent vs r), or_detail = snd (judge_intent vs r), or_recorded_unix = now\<rparr>"
    "length (snd (judge_intent vs r)) \<le> usual_detail"
proof -
  have m: "v \<in> set vs \<longleftrightarrow> alive s (iv_instance_id v) = Some v" for v using list_facts [OF assms] by simp
  have own: "alive s i = Some v \<Longrightarrow> iv_instance_id v = i" for i v using live_id assms(2) by (simp add: good_def alive_def)
  have "list_ex (\<lambda>v. iv_instance_id v = ir_instance_id r) vs \<longleftrightarrow> alive s (ir_instance_id r) \<noteq> None"
    unfolding list_ex_iff using m own by (metis not_None_eq)
  then show "recovery_entry now (alive s) r =
    NE_Outcome \<lparr>or_seq = ir_seq r, or_ok = fst (judge_intent vs r), or_detail = snd (judge_intent vs r), or_recorded_unix = now\<rparr>"
    by (simp add: recovery_entry_def judge_intent_def Let_def)
  show "length (snd (judge_intent vs r)) \<le> usual_detail" by (simp add: judge_intent_def Let_def usual_detail_def)
qed

lemma recover_cases:
  assumes "sane s" and "journal_state (se_codec env) (su_journal s) es" and "recover_ambiguous env now s = (r, t)"
  obtains (oversized) "max_journal_entries < length es" "r = Inl (SE_Journal NJ_Oversized)" "t = s"
  | (closed) "ambiguous es = []" "r = Inr 0" "t = s"
  | (unlisted) e where "list_instances env s = (Inl e, t)" "r = Inl e"
  | (listed) vs u c f where "list_instances env s = (Inr vs, u)" "t = u\<lparr>su_journal := f\<rparr>"
      "close_intents (se_codec env) [] (judge_intent vs) now (ambiguous es) (su_journal u) = (c, f)"
      "r = (case c of Inl e \<Rightarrow> Inl (SE_Journal e) | Inr _ \<Rightarrow> Inr (length (ambiguous es)))"
proof -
  have l: "node_journal_load (se_codec env) (su_journal s) = (if max_journal_entries < length es then Inl NJ_Oversized else Inr es)"
    using assms(2) by (simp add: journal_state_def load_holds)
  obtain q u where q: "list_instances env s = (q, u)" by fastforce
  have none: "su_append_faults u = []"
    using q assms(1) by (auto simp: list_instances_def sane_def split: prod.splits sum.splits)
  consider "max_journal_entries < length es" | "length es \<le> max_journal_entries" "ambiguous es = []"
    | "length es \<le> max_journal_entries" "ambiguous es \<noteq> []" by linarith
  then show thesis
  proof cases
    case 1
    with assms(3) l oversized show thesis by (simp add: recover_ambiguous_def)
  next
    case 2
    with assms(3) l closed show thesis by (simp add: recover_ambiguous_def)
  next
    case 3
    show thesis
    proof (cases q)
      case (Inl e)
      with assms(3) l 3 q unlisted show thesis by (auto simp: recover_ambiguous_def sbind_def)
    next
      case (Inr vs)
      obtain c f where c: "close_intents (se_codec env) [] (judge_intent vs) now (ambiguous es) (su_journal u) = (c, f)" by fastforce
      have "t = u\<lparr>su_journal := f, su_append_faults := []\<rparr>"
        and r: "r = (case c of Inl e \<Rightarrow> Inl (SE_Journal e) | Inr _ \<Rightarrow> Inr (length (ambiguous es)))"
        using assms(3) l 3 q Inr none c by (auto simp: recover_ambiguous_def sbind_def Let_def split: sum.splits)
      moreover from this(1) have "t = u\<lparr>su_journal := f\<rparr>" using none by (cases u) simp
      ultimately show thesis using listed q Inr c by blast
    qed
  qed
qed

lemma recover_opened:
  assumes "se_ops env = ops" and "codec_ok (se_codec env)" and "sane s" and "journal_room (se_codec env) (su_journal s)"
    and "journal_state (se_codec env) (su_journal s) (es @ [NE_Intent r])" and "ambiguous (es @ [NE_Intent r]) = [r]"
    and "list_instances env s = (Inr vs, u)"
    and "close_intents (se_codec env) [] (judge_intent vs) now [r] (su_journal u) = (c, f)"
    and "fs = (es @ [NE_Intent r]) @ [recovery_entry now (alive s) r]"
  shows "c = Inr () \<and> journal_state (se_codec env) f fs \<and> ambiguous fs = []"
proof -
  have g: "good s" using assms(3) by (simp add: sane_def)
  have j: "su_journal u = su_journal s"
    using assms(7) by (auto simp: list_instances_def split: prod.splits sum.splits)
  note v = judge_listing [OF assms(1) g assms(7)]
  have o: "journal_open (se_codec env) (ir_seq r) (su_journal s)" unfolding journal_open_def using assms(5,6) by blast
  from outcome_fits [OF o assms(4) v(2) [of r]] obtain h where
    h: "append_outcome (se_codec env) AF_None (ir_seq r) (fst (judge_intent vs r)) (snd (judge_intent vs r)) now (su_journal s) = (Inr (), h)"
    by blast
  with assms(8) j have "c = Inr ()" "f = h" by simp_all
  with outcome_ends [OF assms(2,5,6) h] assms(9) v(1) [of now r] show ?thesis by simp
qed

lemma recover_triple:
  assumes "se_ops env = ops" and "codec_ok (se_codec env)"
  shows "triple (se_codec env) (tidy (se_codec env)) (recover_ambiguous env now)
    (\<lambda>r t. if \<exists>n. r = Inr n then ready (se_codec env) t else tidy (se_codec env) t)"
  unfolding triple_def
proof (intro allI impI)
  let ?ec = "se_codec env"
  fix s r t
  assume s: "tidy ?ec s" and rec: "recover_ambiguous env now s = (r, t)" and room: "journal_room ?ec (su_journal t)"
  have room_s: "journal_room ?ec (su_journal s)" by (rule journal_room_mono [OF room growsD [OF grows_recover rec]])
  note sane = tidy_sane [OF s]
  from s show "if \<exists>n. r = Inr n then ready ?ec t else tidy ?ec t"
  proof (cases rule: tidy_entries)
    case (closed es)
    then have ready: "ready ?ec s" using sane unfolding ready_def journal_closed_def by blast
    have "t = s \<or> ready ?ec t" using sane closed(1) rec
    proof (cases rule: recover_cases)
      case (unlisted e)
      then show ?thesis using list_keeps [OF assms(1) unlisted(1)] ready by (simp add: ready_def)
    next
      case (listed vs u c f)
      then have "t = u" using closed(2) by (cases u) simp
      then show ?thesis using list_keeps [OF assms(1) listed(1)] ready by (simp add: ready_def)
    qed simp_all
    with ready show ?thesis by (auto simp: tidy_def)
  next
    case (opened es i)
    from sane opened(1) rec show ?thesis
    proof (cases rule: recover_cases)
      case (unlisted e)
      then show ?thesis using s sane list_keeps [OF assms(1) unlisted(1)] by (simp add: tidy_def ready_def pending_def)
    next
      case (listed vs u c f)
      have "journal_closed ?ec f"
        using recover_opened [OF assms sane room_s opened listed(1) _ refl] listed(3) opened(2) unfolding journal_closed_def by simp blast
      moreover have "sane t" using list_keeps [OF assms(1) listed(1)] sane listed(2) sane_cong [of t u] by simp
      ultimately have "ready ?ec t" using listed(2) by (simp add: ready_def)
      then show ?thesis by (simp add: tidy_def)
    qed (use s opened(2) in simp_all)
  qed
qed

lemma pass_triple:
  assumes "se_ops env = ops" and "codec_ok (se_codec env)"
  shows "triple (se_codec env) (tidy (se_codec env)) (reconcile env now) (\<lambda>r. tidy (se_codec env))"
proof -
  let ?ec = "se_codec env"
  let ?k = "\<lambda>n. sbind (load_desired env) (\<lambda>desired. sbind (list_instances env) (\<lambda>observed. case desired of
       None \<Rightarrow>
         sbind (sfor observed (stop_view env now)) (\<lambda>_.
         sbind (publish_catalog env observed now) (\<lambda>_.
         sbind (save_state env 0) (\<lambda>_.
         sreturn ((empty_report n)\<lparr>rr_stopped := map iv_instance_id observed\<rparr>))))
     | Some w \<Rightarrow> reconcile_desired env w observed now (empty_report n)))"
  have g: "grows (?k n)" for n by (auto intro!: grows_intro split: option.split)
  have "triple ?ec (ready ?ec) (load_desired env) (\<lambda>r t. ready ?ec t \<and> (\<forall>w. r = Inr (Some w) \<longrightarrow> workload_validate w = Inr ()))"
    by (auto simp: triple_def load_desired_def workload_load_def rbind_simps split: sum.splits option.splits if_splits)
  then have "triple ?ec (ready ?ec) (?k n) (left ?ec)" for n
  proof (rule triple_bind)
    fix d :: "desired_workload option"
    let ?d = "\<lambda>observed. case d of
       None \<Rightarrow>
         sbind (sfor observed (stop_view env now)) (\<lambda>_.
         sbind (publish_catalog env observed now) (\<lambda>_.
         sbind (save_state env 0) (\<lambda>_.
         sreturn ((empty_report n)\<lparr>rr_stopped := map iv_instance_id observed\<rparr>))))
     | Some w \<Rightarrow> reconcile_desired env w observed now (empty_report n)"
    show gd: "grows (sbind (list_instances env) ?d)" by (auto intro!: grows_intro split: option.split)
    have "keeps ?ec (sbind (list_instances env) ?d)" if val: "\<forall>w. d = Some w \<longrightarrow> workload_validate w = Inr ()"
    proof (rule keeps_list [OF assms(1)])
      show "grows (?d vs)" for vs by (auto intro!: grows_intro split: option.split)
      show "keeps ?ec (?d vs)" if v: "\<forall>v \<in> set vs. named_view v" for vs
      proof (cases d)
        case None
        then show ?thesis using v
          by (auto intro!: keeps_seq keeps_for keeps_write keeps_return grows_intro keeps_view [OF assms])
      next
        case (Some w)
        then show ?thesis using keeps_desired [OF assms _ v] val by simp
      qed
    qed
    then show "triple ?ec (\<lambda>t. ready ?ec t \<and> (\<forall>w. Inr d = Inr (Some w) \<longrightarrow> workload_validate w = Inr ()))
        (sbind (list_instances env) ?d) (left ?ec)"
      unfolding keeps_def triple_def by auto
  qed (auto simp: left_def)
  then have k: "triple ?ec (ready ?ec) (?k n) (\<lambda>r. tidy ?ec)" for n
    by (rule triple_weaken) (auto simp: left_def tidy_def)
  show ?thesis unfolding reconcile_def by (rule triple_bind [OF recover_triple [OF assms] g]) (use k in simp_all)
qed

end

interpretation brief: brief_executor "recording_ops mc clock" recording_ok "\<lambda>x. om_get (re_instances x)"
proof
  have m: "length (mutation_error_text e) \<le> 45" for e by (cases e) simp_all
  show "length (executor_error_text e) \<le> usual_detail" if "eo_start (recording_ops mc clock) a x = (Inl e, y)" for x a e y
    using that m by (auto simp: recording_ops_def recording_start_def usual_detail_def Let_def intro: le_trans split: sum.splits if_splits)
  show "length (executor_error_text e) \<le> usual_detail" if "eo_stop (recording_ops mc clock) a x = (Inl e, y)" for x a e y
    using that m by (auto simp: recording_ops_def recording_stop_def usual_detail_def Let_def intro: le_trans split: sum.splits if_splits)
qed

section \<open>Runs of a node\<close>

text \<open>
  What happens to a node: passes with any result, also those that a panic cuts off, armed faults,
  published workloads, lookups, restarts on the files, and changes of the instances and of the
  success of the writes of catalog and state from outside.  The encodings and the clock may differ
  from pass to pass; appends to the journal do not fail.
\<close>

inductive node_run :: "entry_codec \<Rightarrow> recording_executor supervisor \<Rightarrow> bool" for ec where
  boot: "su_journal s = None \<Longrightarrow> su_append_faults s = [] \<Longrightarrow> recording_ok (su_exec s) \<Longrightarrow> named_views (instances s) \<Longrightarrow>
    node_run ec s"
| pass: "node_run ec s \<Longrightarrow> se_ops env = recording_ops mc clock \<Longrightarrow> se_codec env = ec \<Longrightarrow> reconcile env now s = (r, t) \<Longrightarrow>
    node_run ec t"
| arm: "node_run ec s \<Longrightarrow> node_run ec (fail_once p s)"
| publish: "node_run ec s \<Longrightarrow> publish_desired env fault w s = (q, t) \<Longrightarrow> node_run ec t"
| look_up: "node_run ec s \<Longrightarrow> supervisor_resolve service now s = (es, t) \<Longrightarrow> node_run ec t"
| restart: "node_run ec s \<Longrightarrow> supervisor_new state_unjson unjson now s = Inr t \<Longrightarrow> node_run ec t"
| world: "node_run ec s \<Longrightarrow> recording_ok x \<Longrightarrow> named_views (om_get (re_instances x)) \<Longrightarrow>
    node_run ec (s\<lparr>su_exec := x, su_write_faults := fs\<rparr>)"

lemma sane_recording: "brief.sane s \<longleftrightarrow> recording_ok (su_exec s) \<and> named_views (instances s) \<and> su_append_faults s = []"
  by (simp add: brief.sane_def recording.good_def recording.alive_def instances_def)

lemma tidy_cong:
  assumes "brief.tidy ec s" and "su_journal t = su_journal s" and "brief.sane t"
  shows "brief.tidy ec t"
  using assms by (auto simp: brief.tidy_def brief.ready_def brief.pending_def)

lemma unchanged_parts:
  "publish_desired env fault w s = (q, t) \<Longrightarrow> su_journal t = su_journal s \<and> su_exec t = su_exec s \<and> su_append_faults t = su_append_faults s"
  "supervisor_resolve service now s = (es, t) \<Longrightarrow> su_journal t = su_journal s \<and> su_exec t = su_exec s \<and> su_append_faults t = su_append_faults s"
  "supervisor_new state_unjson unjson now s = Inr t \<Longrightarrow> su_journal t = su_journal s \<and> su_exec t = su_exec s \<and> su_append_faults t = su_append_faults s"
  by (auto simp: publish_desired_def supervisor_resolve_def supervisor_new_def Let_def rbind_def
      split: sum.splits prod.splits option.splits)

lemma node_run_tidy: "node_run ec s \<Longrightarrow> codec_ok ec \<Longrightarrow> journal_room ec (su_journal s) \<Longrightarrow> brief.tidy ec s"
proof (induction rule: node_run.induct)
  case (boot s)
  then have "brief.ready ec s" by (simp add: brief.ready_def sane_recording journal_closed_None)
  then show ?case by (simp add: brief.tidy_def)
next
  case (pass s env mc clock now r t)
  have "journal_room ec (su_journal s)" by (rule journal_room_mono [OF pass.prems(2) growsD [OF grows_pass pass.hyps(4)]])
  with pass.IH pass.prems(1) have "brief.tidy ec s" by simp
  from tripleD [OF brief.pass_triple [OF pass.hyps(2), unfolded pass.hyps(3), OF pass.prems(1)] this pass.hyps(4) pass.prems(2)]
  show ?case .
next
  case (arm s p)
  then have "brief.tidy ec s" by (simp add: fail_once_def)
  moreover from brief.tidy_sane [OF this] have "brief.sane (fail_once p s)" by (simp add: sane_recording fail_once_def instances_def)
  ultimately show ?case by (auto intro: tidy_cong simp: fail_once_def)
next
  case (publish s env fault w q t)
  note u = unchanged_parts(1) [OF publish.hyps(2)]
  then have "brief.tidy ec s" using publish by simp
  moreover from brief.tidy_sane [OF this] u have "brief.sane t" by (simp add: sane_recording instances_def)
  ultimately show ?case using u by (auto intro: tidy_cong)
next
  case (look_up s service now es t)
  note u = unchanged_parts(2) [OF look_up.hyps(2)]
  then have "brief.tidy ec s" using look_up by simp
  moreover from brief.tidy_sane [OF this] u have "brief.sane t" by (simp add: sane_recording instances_def)
  ultimately show ?case using u by (auto intro: tidy_cong)
next
  case (restart s state_unjson unjson now t)
  note u = unchanged_parts(3) [OF restart.hyps(2)]
  then have "brief.tidy ec s" using restart by simp
  moreover from brief.tidy_sane [OF this] u have "brief.sane t" by (simp add: sane_recording instances_def)
  ultimately show ?case using u by (auto intro: tidy_cong)
next
  case (world s x fs)
  then have "brief.tidy ec s" by simp
  moreover from brief.tidy_sane [OF this] world.hyps have "brief.sane (s\<lparr>su_exec := x, su_write_faults := fs\<rparr>)"
    by (simp add: sane_recording instances_def)
  ultimately show ?case by (auto intro: tidy_cong)
qed

section \<open>Properties\<close>

lemma recording_lists: "se_ops env = recording_ops mc clock \<Longrightarrow> list_instances env s = (Inr (om_values (re_instances (su_exec s))), s)"
  by (simp add: list_instances_def recording_ops_def recording_list_def)

text \<open>C29.
  The journal of a node recovers from a crash at any boundary of a pass.  Take any run of a node:
  passes that succeed, fail or are cut off by a panic after an intent, an effect, an outcome or the
  catalog, with workloads published, instances lost and the supervisor restarted in between.  As long
  as no append to the journal fails and room is left for one outcome, the journal holds a well-formed
  sequence of entries, which loads unless there are more than the 65536 entries the loader accepts, at
  most one intent is without an outcome, and the next recovery succeeds: it appends for this intent,
  and for no other, the outcome that the instances really show, and leaves nothing open.
\<close>

theorem node_journal_recovers:
  assumes "node_run ec s" and "codec_ok ec" and "journal_room ec (su_journal s)"
  shows "\<exists>es. node_journal_load ec (su_journal s) = (if max_journal_entries < length es then Inl NJ_Oversized else Inr es)
    \<and> length (ambiguous es) \<le> 1
    \<and> (\<forall>env mc clock now. se_ops env = recording_ops mc clock \<longrightarrow> se_codec env = ec \<longrightarrow> length es \<le> max_journal_entries \<longrightarrow>
         (\<exists>t fs. recover_ambiguous env now s = (Inr (length (ambiguous es)), t) \<and> su_exec t = su_exec s
            \<and> fs = es @ map (recovery_entry now (instances s)) (ambiguous es) \<and> ambiguous fs = []
            \<and> node_journal_load ec (su_journal t) = (if max_journal_entries < length fs then Inl NJ_Oversized else Inr fs)))"
proof -
  note tidy = node_run_tidy [OF assms]
  note sane = brief.tidy_sane [OF tidy]
  have none: "su_append_faults s = []" using sane by (simp add: sane_recording)
  have l: "node_journal_load ec f = (if max_journal_entries < length es then Inl NJ_Oversized else Inr es)"
    if "journal_state ec f es" for f es using that by (simp add: journal_state_def load_holds)
  from tidy show ?thesis
  proof (cases rule: brief.tidy_entries)
    case (closed es)
    have "recover_ambiguous env now s = (Inr 0, s)" if "length es \<le> max_journal_entries" "se_codec env = ec"
      for env :: "recording_executor supervisor_env" and now
      using l [OF closed(1)] closed(2) that by (simp add: recover_ambiguous_def)
    with l [OF closed(1)] closed(2) show ?thesis by (intro exI [of _ es]) auto
  next
    case (opened es0 r)
    let ?es = "es0 @ [NE_Intent r]"
    have "\<exists>t fs. recover_ambiguous env now s = (Inr (length (ambiguous ?es)), t) \<and> su_exec t = su_exec s
        \<and> fs = ?es @ map (recovery_entry now (instances s)) (ambiguous ?es) \<and> ambiguous fs = []
        \<and> node_journal_load ec (su_journal t) = (if max_journal_entries < length fs then Inl NJ_Oversized else Inr fs)"
      if env: "se_ops env = recording_ops mc clock" "se_codec env = ec" and small: "length ?es \<le> max_journal_entries" for env mc clock now
    proof -
      let ?vs = "om_values (re_instances (su_exec s))"
      note vs = recording_lists [OF env(1), of s]
      obtain c f where c: "close_intents ec [] (judge_intent ?vs) now [r] (su_journal s) = (c, f)" by fastforce
      let ?fs = "?es @ [recovery_entry now (instances s) r]"
      have f: "c = Inr ()" "journal_state ec f ?fs" "ambiguous ?fs = []"
        using brief.recover_opened [OF env(1), unfolded env(2), OF assms(2) sane assms(3) opened vs c refl]
        by (simp_all add: recording.alive_def instances_def)
      have "recover_ambiguous env now s = (Inr 1, s\<lparr>su_journal := f, su_append_faults := []\<rparr>)"
        using l [OF opened(1)] small vs c f(1) opened(2) env(2) none
        by (simp add: recover_ambiguous_def sbind_def Let_def del: close_intents.simps)
      with l [OF f(2)] f(3) opened(2) show ?thesis
        by (intro exI [of _ "s\<lparr>su_journal := f, su_append_faults := []\<rparr>"] exI [of _ ?fs]) simp
    qed
    with l [OF opened(1)] opened(2) show ?thesis by (intro exI [of _ ?es]) auto
  qed
qed

text \<open>A pass that crashes after it has started an instance.\<close>

definition crashed_intent :: intent_record where
  "crashed_intent = \<lparr>ir_seq = 1, ir_action = MA_Start, ir_instance_id = ''a-r2-0'', ir_service = ''a'', ir_target_revision = 2,
     ir_recorded_unix = 0\<rparr>"

lemma crashed_pass:
  "\<exists>t. reconcile example_env 0 (fail_once LF_AfterEffect (example_supervisor example_workload_file [])) = (Inl (SE_Panic LF_AfterEffect), t)
     \<and> su_journal t = file_of bit_codec [NE_Intent crashed_intent] \<and> instances t ''a-r2-0'' \<noteq> None"
  using example_workload_loads
  by (simp add: pass_defs step_defs fail_once_def example_supervisor_def example_ids crashed_intent_def file_of_def instances_def char_code_def)

theorem node_journal_recovers_witness:
  "\<exists>t u. reconcile example_env 0 (fail_once LF_AfterEffect (example_supervisor example_workload_file [])) = (Inl (SE_Panic LF_AfterEffect), t)
     \<and> node_run bit_codec t \<and> recover_ambiguous example_env 7 t = (Inr 1, u)
     \<and> node_journal_load bit_codec (su_journal u) = Inr [NE_Intent crashed_intent,
         NE_Outcome \<lparr>or_seq = 1, or_ok = True, or_detail = ''recovered: effect present'', or_recorded_unix = 7\<rparr>]"
proof -
  let ?s = "example_supervisor example_workload_file []"
  obtain t where t: "reconcile example_env 0 (fail_once LF_AfterEffect ?s) = (Inl (SE_Panic LF_AfterEffect), t)"
    "su_journal t = file_of bit_codec [NE_Intent crashed_intent]" "instances t ''a-r2-0'' \<noteq> None"
    using crashed_pass by blast
  have "node_run bit_codec ?s"
    by (rule node_run.boot) (simp_all add: example_supervisor_def recording_ok_def instances_def om_get_def named_views_def)
  then have run: "node_run bit_codec t" by (rule node_run.pass [OF node_run.arm _ _ t(1)]) simp_all
  have room: "journal_room bit_codec (su_journal t)"
    by (simp add: journal_room_def journal_size_def t(2) file_of_def usual_detail_def crashed_intent_def max_journal_bytes_def)
  have "file_holds bit_codec (su_journal t) [NE_Intent crashed_intent]"
    unfolding t(2) by (rule file_of_holds [OF bit_codec_ok]) (simp add: crashed_intent_def max_journal_bytes_def)
  moreover have "numbered [NE_Intent crashed_intent]"
    by (simp add: numbered_def crashed_intent_def char_code_def word_le_nat_alt)
  ultimately have load: "node_journal_load bit_codec (su_journal t) = Inr [NE_Intent crashed_intent]"
    by (simp add: load_holds max_journal_entries_def)
  have "ambiguous [NE_Intent crashed_intent] = [crashed_intent]" by (simp add: ambiguous_def)
  with node_journal_recovers [OF run bit_codec_ok room] load have
    "\<forall>env mc clock now. se_ops env = recording_ops mc clock \<longrightarrow> se_codec env = bit_codec \<longrightarrow>
       (\<exists>u. recover_ambiguous env now t = (Inr 1, u)
          \<and> node_journal_load bit_codec (su_journal u) = Inr [NE_Intent crashed_intent, recovery_entry now (instances t) crashed_intent])"
    by (auto simp: max_journal_entries_def split: if_splits)
  then obtain u where
    u: "recover_ambiguous example_env 7 t = (Inr 1, u)"
      "node_journal_load bit_codec (su_journal u) = Inr [NE_Intent crashed_intent, recovery_entry 7 (instances t) crashed_intent]"
    using example_supervisor_simps(6,8) by blast
  have "recovery_entry 7 (instances t) crashed_intent =
      NE_Outcome \<lparr>or_seq = 1, or_ok = True, or_detail = ''recovered: effect present'', or_recorded_unix = 7\<rparr>"
    using t(3) by (simp add: recovery_entry_def crashed_intent_def)
  with t run u show ?thesis by auto
qed

end
