(* ===== verification/Spec2Isabelle.thy ===== *)
theory Spec2Isabelle
  imports Merkle Witness_Verify Recovery Publication Classifier Service_Graph Mediated Netd_Dispatch Node_Recovery
begin

text \<open>
  \<^bold>\<open>A verification of the security core of ferrocrate.\<close>

  Ferrocrate is a container engine in Rust.  This development models the parts of it that carry its
  promises: the witness log that records every privileged operation, the authorisation that stands
  before each operation, the grants by which a privileged network helper is driven, the packet
  program that translates addresses in the kernel, the startup order of Compose services, and the
  supervisor that keeps a node at its desired workload.  Definitions translate the source, file by file, and keep its
  names; theorems state what the code does on every path, errors included.

  \<^bold>\<open>How the parts work together.\<close>  A caller's request on a container goes through
  \<open>RuntimeAuthorization\<close> (\<open>authorization/runtime.rs\<close>).  It is admitted against the checkpoint of the
  journal (\<open>authorization/admission.rs\<close>), made canonical and pinned to the active policy
  (\<open>authorization/policy.rs\<close>), recorded as received in the witness journal (\<open>witness/journal.rs\<close>),
  decided by the gate (\<open>authorization/gate.rs\<close>) from the role matrix (\<open>authorization.rs\<close>), and the
  decision is recorded before the executor gets its permit; the outcome is recorded last.  The
  journal is a hash chain of canonical records in a SQLite key-value store, sealed in segments and
  mirrored into files for readers; signed checkpoints pin its head, and an offline verifier checks
  a stream of records against them.  The network helper
  \<open>ferro-netd\<close> acts only on signed grants for one request each, which it consumes in a durable ledger
  before an effect may start.  \<open>ferro-net-ebpf\<close> decides and rewrites packets, and \<open>ferro-compose\<close>
  orders services.  On a managed node (\<open>ferro-mgr\<close>) the supervisor loads the desired workload, plans
  rolling updates, orders every start and stop as a signed mutation between two journal entries, and
  publishes healthy instances in the service catalog.

  \<^bold>\<open>Theories and sources\<close> (below \<open>src/\<close>; \<open>witness/\<close> and \<open>authorization/\<close> are in \<open>ferro-core/src/\<close>).

  \<^item> \<open>Prelude\<close>, \<open>Codec\<close>, \<open>Rust_Text\<close>: results with early return, byte strings, big-endian integers,
    the locale of a codec, and the string functions of the Rust library that the sources call.
  \<^item> \<open>Witness_Record\<close>: \<open>witness.rs\<close>, \<open>witness/encoding.rs\<close>, \<open>witness/validation.rs\<close>; the format
    is a bijection between valid records and accepted byte strings.
  \<^item> \<open>Merkle\<close>: \<open>witness/merkle.rs\<close>; inclusion and frontier proofs are sound and complete, and what
    a root does not bind.
  \<^item> \<open>Witness_Verify\<close>: \<open>witness/verify.rs\<close>; the verifier accepts exactly the streams that an
    inductive specification admits, and accepted streams are tamper evident.
  \<^item> \<open>Recovery\<close>, \<open>Journal_State\<close>, \<open>Journal_Types\<close>, \<open>Journal_Store\<close>, \<open>Read_Mirror\<close>, \<open>Journal\<close>:
    \<open>witness/recovery.rs\<close>, \<open>witness/journal.rs\<close> and \<open>witness/journal/*.rs\<close>, every operation of the
    journal with its injected faults.  \<open>Journal_Lifecycle\<close>, \<open>Journal_Chain\<close>, \<open>Journal_Refinement\<close>
    and \<open>Journal_History\<close> show that every operation refines an abstract log, keeps the chain linked
    and the history append-only; \<open>Journal_Progress\<close> that requests are recorded and that what is
    recorded verifies.
  \<^item> \<open>Reader\<close>: the iterator of \<open>witness/reader.rs\<close>; a published mirror reads back.
  \<^item> \<open>Checkpoint\<close>, \<open>Checkpoint_Trust\<close>: \<open>witness/checkpoint.rs\<close>, \<open>witness/checkpoint_evidence.rs\<close>,
    \<open>witness/keys.rs\<close> (key identifiers); what an accepted chain of checkpoints proves.
    \<open>Coordinator\<close>, \<open>Coordinator_Recovery\<close>, \<open>Publication\<close>: \<open>witness/checkpoint_coordinator.rs\<close>;
    publication under failing file operations, and that a published checkpoint verifies.
  \<^item> \<open>Authorization\<close>, \<open>Policy_Store\<close>, \<open>Admission\<close>, \<open>Gate\<close>: \<open>authorization.rs\<close>,
    \<open>authorization/policy.rs\<close>, \<open>admission.rs\<close>, \<open>emergency.rs\<close>, \<open>gate.rs\<close> and the counters of
    \<open>observability.rs\<close>; the decision function is the access matrix, the active policy is always a
    validated one, admission needs current evidence, an emergency approval works once and in scope,
    and the gate mints a proof exactly for bound and permitted requests.
  \<^item> \<open>Mediation\<close>, \<open>Mediated\<close>: \<open>authorization/runtime.rs\<close> and the provenance of
    \<open>container_store.rs\<close>; what a permit stands for, that a permitted operation is recorded, and
    for which operations and roles no permit is ever minted.
  \<^item> \<open>Packet\<close>, \<open>Packet_Checksum\<close>, \<open>Datapath\<close>, \<open>Datapath_Apply\<close>, \<open>Datapath_Maps\<close>, \<open>Datapath_Nat\<close>,
    \<open>Datapath_Publish\<close>, \<open>Classifier\<close>: \<open>ferro-net-ebpf/src/*.rs\<close>; parsing within bounds,
    incremental checksums, translation decisions and their replies, and the classifier with its
    counters.
  \<^item> \<open>Ordered_Map\<close>: \<open>BTreeMap\<close> as an ordered association list, and the replacement of a file that may
    fail.  \<open>Helper_Grants\<close>: the claims, signing bytes and delegation of helper grants.  \<open>Netd_Protocol\<close>,
    \<open>Grant_Ledger\<close>, \<open>Grant_History\<close>, \<open>Netd_Server\<close>, \<open>Netd_Dispatch\<close>: \<open>ferro-netd/src/\<close>
    (\<open>protocol.rs\<close>, \<open>request_binding.rs\<close>, \<open>grants.rs\<close>, \<open>grants_recovery.rs\<close>, \<open>policy.rs\<close>,
    \<open>ownership_journal.rs\<close>, \<open>server_*.rs\<close>) and \<open>ferro-net/src/validate.rs\<close>; what a grant binds, that
    it is used once and its result is final under failures and restarts, and that a request is
    released only with its grant consumed on disk.
  \<^item> \<open>Rollout\<close>, \<open>Scheduler\<close>: \<open>ferro-mgr/src/rollout.rs\<close> and \<open>scheduler.rs\<close>; plans are correct and end
    exactly under a stated condition, and placement is the greedy strategy, stated over the nodes as
    given and sums of natural numbers.
    \<open>Node_Executor\<close>, \<open>Node_Journal\<close>, \<open>Workload\<close>, \<open>Supervisor\<close>: \<open>ferro-mgr/src/node/\<close>, and
    \<open>Service_Catalog\<close>: \<open>ferro-mgr/src/service_discovery.rs\<close>; the catalog refines an abstract map.
    \<open>Supervised\<close>, \<open>Convergence\<close>, \<open>Update_Safety\<close>: what a mutation and a pass
    change, that a pass converges and is stable, the floor of healthy instances in an update, and
    what a roll-back and a withdrawal do.  \<open>Node_Recovery\<close>: triples for every part of a pass over the
    states of the node journal, and from them that the journal recovers from a crash at any boundary.
  \<^item> \<open>Service_Graph\<close>: \<open>ferro-compose/src/service_graph.rs\<close>; startup batches exist exactly for
    acyclic dependencies, and the computation always returns.

  \<^bold>\<open>Interfaces as locales.\<close>  \<open>codec\<close> is the contract of an encoder and decoder pair, interpreted for
  every field and format; \<open>conntrack_store\<close> and \<open>lru_map\<close> are what the datapath relies on of its
  connection table, interpreted on the kernel maps; \<open>accumulator\<close> is the frontier of a Merkle tree;
  \<open>ordered_store\<close> is what the journal relies on of its key-value store; \<open>policy_provider\<close> is what the gate relies on of the policy store,
  interpreted on the store.
  \<open>map_laws\<close> are the laws of an ordered map, \<open>self_delimiting\<close> those of the pieces of the signing
  bytes, \<open>durable_order\<close> relates a growing state in memory, its copy on disk and a restart from it; \<open>workload_executor\<close> is
  the contract of the trait of executors, under which the supervisor is proved and which is
  interpreted on the recording executor; \<open>brief_executor\<close> extends it with a bound on error texts, under
  which the outcomes fit into the room the journal keeps.

  \<^bold>\<open>Conventions.\<close>  A Rust integer is a word of its width, with wrapping, saturating or checked
  arithmetic as in the source; \<open>[u8; N]\<close> and \<open>Vec<u8>\<close> are byte lists, and predicates \<open>wf_\<dots>\<close> state
  the lengths that types fix; a \<open>String\<close> is the list of its bytes as characters; \<open>Result\<close> is a sum
  with \<open>Inl\<close> for \<open>Err\<close>; a panic is an error value of its own.  Loops are recursive functions; where
  the source loops over a blob the length of the blob is fuel, which is enough because every round
  consumes at least one entry (\<open>Journal.parse_segment\<close>), the mirror is read with a measure on the
  unread bytes, and the graph loop is a \<open>partial_function\<close> that is proved to return.  The
  planner of rollouts is a \<open>partial_function\<close> too, with a proof of when it returns.

  \<^bold>\<open>Parameters.\<close>  SHA-256 (\<open>sha\<close>; theorems assume 32-byte results, and where binding is claimed,
  injectivity on the inputs at hand), Ed25519 signing and verification, the TOML parser, the JSON
  encoder, the file system around the policy file, the clock, random identifiers, the re-check of a
  peer process, the kernel's LRU maps and packet helpers, the iteration order of hash maps, and
  the inodes of network namespaces are
  arguments of the definitions that use them.

  \<^bold>\<open>Not modelled.\<close>  Failures inside SQLite, the process lock of the journal, file permissions and
  symbolic links of the mirror; key files; resolution of socket peers; the
  authorisation surfaces for images, volumes and administration; the runtime's system calls, image
  and registry handling, the network control plane; of the helper daemon, frames without grants, the
  execution of effects and the recovery of its journal against the kernel; of the fleet manager, its
  service, database, certificates and agent, the store of node identities, and failing reads of the
  supervisor's files; the CRI, HTTP, command line and graphical front ends.  They are effects on the host, generated or
  user interface code, or are left for an extension along the same lines.
\<close>

end
